(* ===== verification/MB_Prelude.thy ===== *)
theory MB_Prelude
  imports Main "HOL-Library.Word"
begin

text \<open>
  What every component shares: the status codes the source returns, C strings as lists of
  characters with the handful of \<open>string.h\<close> functions the source relies on, and the generic
  lemmas on lists the component proofs rest on. A C string is modelled by the characters before
  its terminating NUL, so \<open>strlen\<close> is \<open>length\<close> and \<open>strcmp(a, b) == 0\<close> is equality.
\<close>

section \<open>Status codes\<close>

text \<open>The members of Wolfram's status enumeration that the source returns or compares with.\<close>

datatype wf_status =
    WF_OK
  | WF_ERR_INVALID_ARG
  | WF_ERR_ALLOC
  | WF_ERR_NOT_FOUND
  | WF_ERR_PERMISSION
  | WF_ERR_CONFLICT
  | WF_ERR_CONFIG
  | WF_ERR_CRYPTO
  | WF_ERR_NETWORK
  | WF_ERR_TIMEOUT
  | WF_ERR_PARSE
  | WF_ERR_VALIDATION
  | WF_ERR_DUPLICATE
  | WF_ERR_INTERNAL

text \<open>What may come of one SQLite statement: it runs, it cannot be prepared, or its step fails.\<close>

datatype sql_fate = SQL_RUNS | SQL_UNPREPARED | SQL_STEP_FAILS

type_synonym byte = "8 word"

named_theorems cstr \<comment> \<open>facts on the C string functions below\<close>

section \<open>C strings\<close>

text \<open>The characters before the first NUL.\<close>

definition c_str :: "string \<Rightarrow> string" where
  "c_str s = takeWhile (\<lambda>c. c \<noteq> CHR 0x00) s"

text \<open>
  \<open>strchr(s, c)\<close> splits the string: what precedes the first \<open>c\<close>, and, when there is one,
  what follows it.
\<close>

fun strchr_cut :: "char \<Rightarrow> string \<Rightarrow> string \<times> string option" where
  "strchr_cut c [] = ([], None)"
| "strchr_cut c (x # xs) =
     (if x = c then ([], Some xs)
      else (case strchr_cut c xs of (a, r) \<Rightarrow> (x # a, r)))"

text \<open>\<open>strncmp(a, b, n) == 0\<close> on NUL-terminated strings.\<close>

definition strncmp_eq :: "string \<Rightarrow> string \<Rightarrow> nat \<Rightarrow> bool" where
  "strncmp_eq a b n \<longleftrightarrow> take n a = take n b"

text \<open>\<open>snprintf(buf, w, "%s", s)\<close>: the string is cut to the width of the buffer.\<close>

definition snprintf_cut :: "nat \<Rightarrow> string \<Rightarrow> string" where
  "snprintf_cut w s = take (w - 1) s"

text \<open>
  \<open>strtoll(s, &end, 10)\<close>: the value, the text at \<open>end\<close>, and whether \<open>errno\<close> is
  \<open>ERANGE\<close> (the value is then the nearest 64-bit one). Without a digit nothing is consumed and
  the value is 0.
\<close>

definition c_isspace :: "char \<Rightarrow> bool" where
  "c_isspace c \<longleftrightarrow> c \<in> {CHR '' '', CHR 0x09, CHR 0x0A, CHR 0x0B, CHR 0x0C, CHR 0x0D}"

definition c_isdigit :: "char \<Rightarrow> bool" where
  "c_isdigit c \<longleftrightarrow> 48 \<le> (of_char c :: nat) \<and> (of_char c :: nat) \<le> 57"

definition digits_value :: "string \<Rightarrow> int" where
  "digits_value ds = fold (\<lambda>c v. 10 * v + (of_char c - 48)) ds 0"

definition strtoll10 :: "string \<Rightarrow> int \<times> string \<times> bool" where
  "strtoll10 s =
     (let body = dropWhile c_isspace s;
          negative = (body \<noteq> [] \<and> hd body = CHR ''-'');
          signed = (body \<noteq> [] \<and> (hd body = CHR ''-'' \<or> hd body = CHR ''+''));
          text = (if signed then tl body else body);
          digits = takeWhile c_isdigit text;
          v = (if negative then - digits_value digits else digits_value digits)
      in if digits = [] then (0, s, False)
         else if v > 2 ^ 63 - 1 then (2 ^ 63 - 1, dropWhile c_isdigit text, True)
         else if v < - (2 ^ 63) then (- (2 ^ 63), dropWhile c_isdigit text, True)
         else (v, dropWhile c_isdigit text, False))"

text \<open>\<open>printf\<close> of an unsigned decimal, and of a byte in hexadecimal.\<close>

fun decimal_digits :: "nat \<Rightarrow> string" where
  "decimal_digits n =
     (if n < 10 then [char_of (48 + n)] else decimal_digits (n div 10) @ [char_of (48 + n mod 10)])"

declare decimal_digits.simps [simp del]

lemma decimal_digits_short: "n < 10 ^ k \<Longrightarrow> 0 < k \<Longrightarrow> length (decimal_digits n) \<le> k"
proof (induction k arbitrary: n)
  case (Suc k)
  show ?case
  proof (cases "n < 10")
    case True
    then show ?thesis by (subst decimal_digits.simps) simp
  next
    case False
    then have k: "0 < k" using Suc.prems(1) by (cases k) auto
    have "n div 10 < 10 ^ k" using Suc.prems(1) by (simp add: less_mult_imp_div_less)
    from Suc.IH [OF this k] show ?thesis using False by (subst decimal_digits.simps) simp
  qed
qed simp

lemma decimal_digits_nonempty [simp]: "decimal_digits n \<noteq> []"
  by (subst decimal_digits.simps) simp

lemma decimal_digit_char: "d < 10 \<Longrightarrow> of_char (char_of (48 + d :: nat)) = (48 + d :: nat)"
  by (simp add: of_char_of)

lemma decimal_digits_are_digits: "list_all c_isdigit (decimal_digits n)"
proof (induction n rule: decimal_digits.induct)
  case (1 n)
  have d: "c_isdigit (char_of (48 + n mod 10))" using decimal_digit_char [of "n mod 10"] by (simp add: c_isdigit_def)
  show ?case
  proof (cases "n < 10")
    case True
    then show ?thesis using d by (subst decimal_digits.simps) simp
  next
    case False
    then show ?thesis using 1 d by (subst decimal_digits.simps) simp
  qed
qed

lemma digits_value_snoc: "digits_value (ds @ [c]) = 10 * digits_value ds + (of_char c - 48)"
  by (simp add: digits_value_def)

lemma digits_value_decimal [simp]: "digits_value (decimal_digits n) = int n"
proof (induction n rule: decimal_digits.induct)
  case (1 n)
  have d: "(of_char (char_of (48 + n mod 10)) :: int) = 48 + int (n mod 10)"
  proof -
    have "(of_char (char_of (48 + n mod 10)) :: int) = int (of_char (char_of (48 + n mod 10)) :: nat)"
      by (rule of_nat_of_char [symmetric])
    then show ?thesis using decimal_digit_char [of "n mod 10"] by simp
  qed
  show ?case
  proof (cases "n < 10")
    case True
    then show ?thesis using d by (subst decimal_digits.simps) (simp add: digits_value_def)
  next
    case False
    then have "decimal_digits n = decimal_digits (n div 10) @ [char_of (48 + n mod 10)]"
      by (subst decimal_digits.simps) simp
    moreover have "10 * int (n div 10) + int (n mod 10) = int n" by presburger
    ultimately show ?thesis using 1 False d by (simp add: digits_value_snoc)
  qed
qed

text \<open>What \<open>printf\<close> prints \<open>strtoll\<close> reads, up to what follows the digits.\<close>

lemma strtoll10_decimal:
  assumes "rest = [] \<or> \<not> c_isdigit (hd rest)"
  shows "strtoll10 (decimal_digits n @ rest) =
     (if int n > 2 ^ 63 - 1 then (2 ^ 63 - 1, rest, True) else (int n, rest, False))"
proof -
  obtain c cs where c: "decimal_digits n = c # cs" by (cases "decimal_digits n") auto
  have digit: "c_isdigit c" using decimal_digits_are_digits [of n] c by simp
  then have plain: "\<not> c_isspace c" "c \<noteq> CHR ''-''" "c \<noteq> CHR ''+''" by (auto simp: c_isdigit_def c_isspace_def)
  have "takeWhile c_isdigit (decimal_digits n @ rest) = decimal_digits n"
    "dropWhile c_isdigit (decimal_digits n @ rest) = rest"
    using decimal_digits_are_digits [of n] assms
    by (auto simp: list_all_iff takeWhile_append2 dropWhile_append2 takeWhile_eq_Nil_iff dropWhile_eq_self_iff)
  then show ?thesis
    using plain digits_value_decimal [of n] unfolding strtoll10_def c by (simp add: Let_def)
qed

unbundle bit_operations_syntax

definition lower_hex :: string where
  "lower_hex = ''0123456789abcdef''"

definition hex_of :: "byte list \<Rightarrow> string" where
  "hex_of bs = concat (map (\<lambda>b. [lower_hex ! unat (drop_bit 4 b), lower_hex ! unat (b AND 15)]) bs)"

text \<open>The byte-wise order of SQLite's text comparison and of \<open>strcmp\<close>.\<close>

fun text_less :: "string \<Rightarrow> string \<Rightarrow> bool" where
  "text_less [] [] = False"
| "text_less [] (b # bs) = True"
| "text_less (a # as) [] = False"
| "text_less (a # as) (b # bs) =
     ((of_char a :: nat) < of_char b \<or> a = b \<and> text_less as bs)"

text \<open>\<open>instr(haystack, needle) > 0\<close>: the needle occurs as a block.\<close>

fun occurs_in :: "'a list \<Rightarrow> 'a list \<Rightarrow> bool" where
  "occurs_in [] needle = (needle = [])"
| "occurs_in (x # xs) needle = (take (length needle) (x # xs) = needle \<or> occurs_in xs needle)"

definition bytes_of :: "string \<Rightarrow> byte list" where
  "bytes_of s = map of_char s"

lemma strchr_cut_absent [cstr, simp]: "c \<notin> set s \<Longrightarrow> strchr_cut c s = (s, None)"
  by (induction s) auto

lemma strchr_cut_at [cstr, simp]: "c \<notin> set a \<Longrightarrow> strchr_cut c (a @ c # b) = (a, Some b)"
  by (induction a) auto

lemma strchr_cut_NoneD: "strchr_cut c s = (a, None) \<Longrightarrow> a = s \<and> c \<notin> set s"
  by (induction s arbitrary: a) (auto split: if_splits prod.splits)

lemma strchr_cut_SomeD: "strchr_cut c s = (a, Some b) \<Longrightarrow> s = a @ c # b \<and> c \<notin> set a"
  by (induction s arbitrary: a) (auto split: if_splits prod.splits)

lemma strchr_cut_length: "strchr_cut c s = (a, Some b) \<Longrightarrow> length b < length s"
  by (drule strchr_cut_SomeD) auto

lemma strchr_cut_None_iff: "snd (strchr_cut c s) = None \<longleftrightarrow> c \<notin> set s"
proof (cases "strchr_cut c s")
  case (Pair a r)
  then show ?thesis
    by (cases r) (auto dest: strchr_cut_NoneD strchr_cut_SomeD)
qed

lemma strncmp_eq_prefix: "n = length b \<Longrightarrow> strncmp_eq a b n \<longleftrightarrow> (\<exists>r. a = b @ r)"
  unfolding strncmp_eq_def by (auto, metis append_take_drop_id)

lemma snprintf_cut_id [simp]: "length s < w \<Longrightarrow> snprintf_cut w s = s"
  by (simp add: snprintf_cut_def)

lemma snprintf_cut_length: "0 < w \<Longrightarrow> length (snprintf_cut w s) < w"
  by (simp add: snprintf_cut_def)

section \<open>Lists\<close>

lemma filter_length_split:
  "length (filter P xs) + length (filter (\<lambda>x. \<not> P x) xs) = length xs"
  by (induction xs) auto

lemma find_SomeD: "find P xs = Some x \<Longrightarrow> x \<in> set xs \<and> P x"
  by (induction xs) (auto split: if_splits)

lemma distinct_map_update:
  assumes "distinct (map f xs)" and "f x = f (xs ! i)" and "i < length xs"
  shows "distinct (map f (xs[i := x]))"
proof -
  have "map f (xs[i := x]) = map f xs"
    using assms(2,3) by (metis list_update_id map_update)
  then show ?thesis using assms(1) by simp
qed

lemma count_list_remove1 [simp]:
  "count_list (remove1 x xs) y = (if x = y then count_list xs y - 1 else count_list xs y)"
  by (induction xs) (auto simp: count_list_0_iff)

text \<open>Past an element of a strictly ordered list is what follows it.\<close>

lemma filter_past:
  assumes "sorted_wrt (\<lambda>a b. R (f a) (f b)) S" and "k < length S"
    and "\<And>x y. R x y \<Longrightarrow> \<not> R y x"
  shows "filter (\<lambda>r. R (f (S ! k)) (f r)) S = drop (Suc k) S"
proof -
  have S: "S = take k S @ S ! k # drop (Suc k) S" using assms(2) by (rule id_take_nth_drop)
  have irr: "\<not> R x x" for x using assms(3) by blast
  have "sorted_wrt (\<lambda>a b. R (f a) (f b)) (take k S @ S ! k # drop (Suc k) S)"
    using assms(1) S by simp
  then have o: "\<forall>a \<in> set (take k S). R (f a) (f (S ! k))" "\<forall>b \<in> set (drop (Suc k) S). R (f (S ! k)) (f b)"
    by (simp_all add: sorted_wrt_append)
  have "filter (\<lambda>r. R (f (S ! k)) (f r)) (take k S @ S ! k # drop (Suc k) S) = drop (Suc k) S"
    using o irr assms(3) by (auto simp: filter_empty_conv filter_id_conv)
  then show ?thesis using S by metis
qed

text \<open>Descending, equal keys in the order of their rows.\<close>

definition sort_desc :: "('a \<Rightarrow> 'k::linorder) \<Rightarrow> 'a list \<Rightarrow> 'a list" where
  "sort_desc key rows = rev (sort_key key (rev rows))"

lemma sort_desc_simps [simp]: "length (sort_desc key xs) = length xs" "set (sort_desc key xs) = set xs"
  by (simp_all add: sort_desc_def)

section \<open>Keyset paging\<close>

text \<open>
  A client that asks for page after page, each from the key of the last row it got, until a page comes
  back short.
\<close>

fun keyset_walk :: "('k option \<Rightarrow> 'r list) \<Rightarrow> ('r \<Rightarrow> 'k) \<Rightarrow> nat \<Rightarrow> nat \<Rightarrow> 'k option \<Rightarrow> 'r list list" where
  "keyset_walk page key limit 0 cursor = []"
| "keyset_walk page key limit (Suc n) cursor =
     (let rows = page cursor
      in rows # (if length rows < limit then [] else keyset_walk page key limit n (Some (key (last rows)))))"

text \<open>The contract of a listing by key: a page is what comes first after its key in a fixed order.\<close>

locale keyset =
  fixes listing :: "'s \<Rightarrow> 'r list"
    and page :: "'s \<Rightarrow> nat \<Rightarrow> 'k option \<Rightarrow> 'r list"
    and key :: "'r \<Rightarrow> 'k"
    and ok :: "'s \<Rightarrow> bool"
  assumes first_page: "ok s \<Longrightarrow> 0 < limit \<Longrightarrow> page s limit None = take limit (listing s)"
    and page_after: "ok s \<Longrightarrow> 0 < limit \<Longrightarrow> i < length (listing s) \<Longrightarrow>
      page s limit (Some (key (listing s ! i))) = take limit (drop (Suc i) (listing s))"
begin

lemma walk_from:
  assumes "ok s" and "0 < limit"
    and "cursor = None \<and> k = 0 \<or> (\<exists>i. k = Suc i \<and> i < length (listing s) \<and> cursor = Some (key (listing s ! i)))"
    and "length (listing s) - k < fuel"
  shows "concat (keyset_walk (page s limit) key limit fuel cursor) = drop k (listing s) \<and>
    (\<forall>p \<in> set (keyset_walk (page s limit) key limit fuel cursor). length p \<le> limit)"
  using assms(3,4)
proof (induction fuel arbitrary: cursor k)
  case (Suc fuel)
  let ?S = "listing s"
  have here: "page s limit cursor = take limit (drop k ?S)"
    using Suc.prems(1) first_page [OF assms(1,2)] page_after [OF assms(1,2)] by auto
  show ?case
  proof (cases "length ?S - k < limit")
    case True
    then show ?thesis by (simp add: here Let_def)
  next
    case False
    let ?i = "k + limit - 1"
    have i: "Suc ?i = k + limit" "?i < length ?S" "last (take limit (drop k ?S)) = ?S ! ?i"
      using False assms(2) by (auto simp: last_conv_nth nth_append min_def)
    have "concat (keyset_walk (page s limit) key limit fuel (Some (key (?S ! ?i)))) = drop (k + limit) ?S \<and>
        (\<forall>p \<in> set (keyset_walk (page s limit) key limit fuel (Some (key (?S ! ?i)))). length p \<le> limit)"
      using i Suc.prems(2) assms(2) False by (intro Suc.IH disjI2 exI [of _ ?i] conjI) auto
    moreover have "take limit (drop k ?S) @ drop (k + limit) ?S = drop k ?S"
      by (metis add.commute append_take_drop_id drop_drop)
    ultimately show ?thesis using False i(3) by (simp add: here Let_def)
  qed
qed simp

lemma walk_covers:
  assumes "ok s" and "0 < limit" and "length (listing s) < fuel"
  shows "concat (keyset_walk (page s limit) key limit fuel None) = listing s \<and>
    (\<forall>p \<in> set (keyset_walk (page s limit) key limit fuel None). length p \<le> limit)"
  using walk_from [OF assms(1,2), of None 0 fuel] assms(3) by simp

end

section \<open>Transition systems\<close>

text \<open>
  A component that several threads or requests drive is a step relation; what holds at the start
  and is kept by every step holds in every state a run reaches.
\<close>

locale transition_system =
  fixes init :: "'s \<Rightarrow> bool"
    and step :: "'s \<Rightarrow> 's \<Rightarrow> bool"
    and inv :: "'s \<Rightarrow> bool"
  assumes inv_init: "init s \<Longrightarrow> inv s"
    and inv_step: "inv s \<Longrightarrow> step s t \<Longrightarrow> inv t"
begin

lemma inv_steps: "step\<^sup>*\<^sup>* s t \<Longrightarrow> inv s \<Longrightarrow> inv t"
  by (induction rule: rtranclp_induct) (auto intro: inv_step)

lemma inv_reachable: "init s \<Longrightarrow> step\<^sup>*\<^sup>* s t \<Longrightarrow> inv t"
  by (blast intro: inv_steps inv_init)

end

end
