(* ===== verification/Oauth_Scope.thy ===== *)
theory Oauth_Scope
  imports MB_Prelude
begin

unbundle bit_operations_syntax

text \<open>
  \<open>src/oauth/oauth_scope.c\<close>: OAuth scope strings parsed into permissions, and the checks a
  request handler makes against the parsed set. Wolfram's two syntax validators are arguments:
  \<open>nsid_ok\<close> is \<open>wf_syntax_nsid_is_valid\<close> and \<open>did_ok\<close> is \<open>wf_syntax_did_is_valid\<close>.
  \<open>NULL\<close> arguments are not represented; an allocation is taken to succeed.
\<close>

section \<open>Data\<close>

text \<open>Action masks are the C enumerations' bit flags, at the width of \<open>unsigned int\<close>.\<close>

type_synonym action_mask = "32 word"

definition MB_REPO_ACTION_NONE :: action_mask where "MB_REPO_ACTION_NONE = 0"
definition MB_REPO_ACTION_CREATE :: action_mask where "MB_REPO_ACTION_CREATE = push_bit 0 1"
definition MB_REPO_ACTION_UPDATE :: action_mask where "MB_REPO_ACTION_UPDATE = push_bit 1 1"
definition MB_REPO_ACTION_DELETE :: action_mask where "MB_REPO_ACTION_DELETE = push_bit 2 1"
definition MB_REPO_ACTION_ALL :: action_mask where
  "MB_REPO_ACTION_ALL = MB_REPO_ACTION_CREATE OR MB_REPO_ACTION_UPDATE OR MB_REPO_ACTION_DELETE"

definition MB_ACCOUNT_ACTION_NONE :: action_mask where "MB_ACCOUNT_ACTION_NONE = 0"
definition MB_ACCOUNT_ACTION_READ :: action_mask where "MB_ACCOUNT_ACTION_READ = push_bit 0 1"
definition MB_ACCOUNT_ACTION_MANAGE :: action_mask where "MB_ACCOUNT_ACTION_MANAGE = push_bit 1 1"

lemmas repo_action_defs =
  MB_REPO_ACTION_NONE_def MB_REPO_ACTION_CREATE_def MB_REPO_ACTION_UPDATE_def
  MB_REPO_ACTION_DELETE_def MB_REPO_ACTION_ALL_def

lemmas account_action_defs =
  MB_ACCOUNT_ACTION_NONE_def MB_ACCOUNT_ACTION_READ_def MB_ACCOUNT_ACTION_MANAGE_def

datatype mb_scope_type =
    MB_SCOPE_TYPE_REPO
  | MB_SCOPE_TYPE_BLOB
  | MB_SCOPE_TYPE_IDENTITY
  | MB_SCOPE_TYPE_ACCOUNT
  | MB_SCOPE_TYPE_RPC
  | MB_SCOPE_TYPE_INCLUDE

text \<open>The tagged union \<open>mb_scope_permission\<close>, one constructor per tag.\<close>

datatype mb_scope_permission =
    Static_Scope string
  | Repo_Scope string action_mask
  | Blob_Scope "string list"
  | Identity_Scope string
  | Account_Scope string action_mask
  | Rpc_Scope "string list" bool string \<comment> \<open>\<open>lxm\<close>, \<open>lxm_wildcard\<close>, \<open>aud\<close>\<close>
  | Include_Scope string

text \<open>\<open>count\<close> is the length of the list; \<open>capacity\<close> is what was allocated for it.\<close>

record mb_scope_set =
  permissions :: "mb_scope_permission list"
  capacity :: nat

definition STATIC_SCOPES :: "string list" where
  "STATIC_SCOPES = [''atproto'', ''transition:email'', ''transition:generic'',
     ''transition:chat.bsky'']"

section \<open>Validators\<close>

definition starts_with :: "string \<Rightarrow> string \<Rightarrow> bool" where
  "starts_with str prefix \<longleftrightarrow> strncmp_eq str prefix (length prefix)"

definition is_valid_lxm :: "(string \<Rightarrow> bool) \<Rightarrow> string \<Rightarrow> bool" where
  "is_valid_lxm nsid_ok str \<longleftrightarrow> str = ''*'' \<or> nsid_ok str"

definition is_valid_aud :: "(string \<Rightarrow> bool) \<Rightarrow> string \<Rightarrow> bool" where
  "is_valid_aud did_ok str =
     (if str = ''*'' then True
      else (case strchr_cut (CHR ''#'') str of
              (_, None) \<Rightarrow> did_ok str
            | (did, Some fragment) \<Rightarrow>
                if did = [] \<or> fragment = [] \<or> CHR ''#'' \<in> set fragment then False
                else did_ok did))"

definition is_identity_attr :: "string \<Rightarrow> bool" where
  "is_identity_attr str \<longleftrightarrow> str = ''handle'' \<or> str = ''*''"

definition is_account_attr :: "string \<Rightarrow> bool" where
  "is_account_attr str \<longleftrightarrow> str = ''email'' \<or> str = ''repo'' \<or> str = ''status''"

definition is_valid_accept :: "string \<Rightarrow> bool" where
  "is_valid_accept str =
     (if str = [] then False
      else if str = ''*/*'' then True
      else (case strchr_cut (CHR ''/'') str of
              (_, None) \<Rightarrow> False
            | (typ, Some subtyp) \<Rightarrow>
                if typ = [] \<or> subtyp = [] then False
                else if CHR ''/'' \<in> set subtyp then False
                else if CHR '' '' \<in> set str then False
                else if CHR ''*'' \<notin> set str then True
                else subtyp = ''*''))"

section \<open>Query strings\<close>

type_synonym qparam = "string \<times> string"

function query_parse :: "string \<Rightarrow> qparam list" where
  "query_parse p =
     (if p = [] then []
      else (case strchr_cut (CHR ''&'') p of
              (seg, rest) \<Rightarrow>
                (case strchr_cut (CHR ''='') seg of
                   (key, None) \<Rightarrow> (key, [])
                 | (key, Some value) \<Rightarrow> (key, value))
                # (case rest of None \<Rightarrow> [] | Some p' \<Rightarrow> query_parse p')))"
  by pat_completeness auto
termination
  by (relation "measure length") (auto dest: strchr_cut_length [OF sym])

declare query_parse.simps [simp del]

definition query_keys_allowed :: "qparam list \<Rightarrow> string list \<Rightarrow> bool" where
  "query_keys_allowed qp allowed \<longleftrightarrow> list_all (\<lambda>(k, v). k \<in> set allowed) qp"

text \<open>
  The values of one parameter: the positional text when there is any, else every named
  occurrence; \<open>None\<close> is the conflict of giving both.
\<close>

definition extract_multi :: "string \<Rightarrow> qparam list \<Rightarrow> string \<Rightarrow> string list option" where
  "extract_multi positional qp key =
     (let named = map snd (filter (\<lambda>(k, v). k = key) qp)
      in if positional \<noteq> [] \<and> named \<noteq> [] then None
         else if positional \<noteq> [] then Some [positional]
         else Some named)"

section \<open>Parsing one permission\<close>

text \<open>The \<open>while (p && *p)\<close> loop over \<open>action=\<close> pairs of a \<open>repo:\<close> scope.\<close>

function parse_repo_actions :: "string \<Rightarrow> action_mask \<Rightarrow> action_mask" where
  "parse_repo_actions p actions =
     (if p = [] then actions
      else if starts_with p ''action='' then
        (case strchr_cut (CHR ''&'') (drop 7 p) of
           (act, rest) \<Rightarrow>
             let n = length act;
                 actions' =
                   (if strncmp_eq (drop 7 p) ''create'' n then actions OR MB_REPO_ACTION_CREATE
                    else if strncmp_eq (drop 7 p) ''update'' n then actions OR MB_REPO_ACTION_UPDATE
                    else if strncmp_eq (drop 7 p) ''delete'' n then actions OR MB_REPO_ACTION_DELETE
                    else actions)
             in (case rest of None \<Rightarrow> actions' | Some p' \<Rightarrow> parse_repo_actions p' actions'))
      else (case snd (strchr_cut (CHR ''&'') p) of
              None \<Rightarrow> actions
            | Some p' \<Rightarrow> parse_repo_actions p' actions))"
  by pat_completeness auto

lemma strchr_cut_snd_length: "snd (strchr_cut c s) = Some b \<Longrightarrow> length b < length s"
  by (cases "strchr_cut c s") (auto dest: strchr_cut_length)

termination parse_repo_actions
  by (relation "measure (length \<circ> fst)")
    (auto dest!: strchr_cut_length [OF sym] strchr_cut_snd_length)

declare parse_repo_actions.simps [simp del]

text \<open>Every \<open>parse_\<close> function below is one case of the switch; \<open>query\<close> is the text after
  \<open>?\<close>, when there is one, and \<open>positional\<close> the text before it.\<close>

definition parse_repo ::
  "(string \<Rightarrow> bool) \<Rightarrow> string \<Rightarrow> string option \<Rightarrow> mb_scope_permission option" where
  "parse_repo nsid_ok collection query =
     (if collection \<noteq> ''*'' \<and> \<not> nsid_ok collection then None
      else Some (Repo_Scope collection
             (case query of
                None \<Rightarrow> MB_REPO_ACTION_ALL
              | Some q \<Rightarrow> parse_repo_actions q MB_REPO_ACTION_NONE)))"

definition query_text :: "string option \<Rightarrow> string" where
  "query_text query = (case query of None \<Rightarrow> [] | Some q \<Rightarrow> q)"

definition parse_blob :: "string \<Rightarrow> string option \<Rightarrow> mb_scope_permission option" where
  "parse_blob positional query =
     (let qp = query_parse (query_text query)
      in if \<not> query_keys_allowed qp [''accept''] then None
         else (case extract_multi positional qp ''accept'' of
                 None \<Rightarrow> None
               | Some accept \<Rightarrow>
                   if accept = [] then None
                   else if \<not> list_all is_valid_accept accept then None
                   else Some (Blob_Scope accept)))"

definition parse_identity :: "string \<Rightarrow> string option \<Rightarrow> mb_scope_permission option" where
  "parse_identity positional query =
     (let qp = query_parse (query_text query)
      in if qp \<noteq> [] then None
         else if positional = [] then None
         else if \<not> is_identity_attr positional then None
         else Some (Identity_Scope positional))"

fun account_action_bits :: "qparam list \<Rightarrow> action_mask \<Rightarrow> action_mask option" where
  "account_action_bits [] bits = Some bits"
| "account_action_bits ((k, v) # qp) bits =
     (if k \<noteq> ''action'' then account_action_bits qp bits
      else if v = ''read'' then account_action_bits qp (bits OR MB_ACCOUNT_ACTION_READ)
      else if v = ''manage'' then account_action_bits qp (bits OR MB_ACCOUNT_ACTION_MANAGE)
      else None)"

definition parse_account :: "string \<Rightarrow> string option \<Rightarrow> mb_scope_permission option" where
  "parse_account positional query =
     (let qp = query_parse (query_text query)
      in if \<not> query_keys_allowed qp [''action''] then None
         else if positional = [] then None
         else if \<not> is_account_attr positional then None
         else if length (filter (\<lambda>(k, v). k = ''action'') qp) = 0
           then Some (Account_Scope positional MB_ACCOUNT_ACTION_READ)
         else (case account_action_bits qp MB_ACCOUNT_ACTION_NONE of
                 None \<Rightarrow> None
               | Some bits \<Rightarrow> Some (Account_Scope positional bits)))"

text \<open>The \<open>aud\<close> parameter: a second occurrence clears it and leaves the loop.\<close>

fun find_aud :: "qparam list \<Rightarrow> string option \<Rightarrow> string option" where
  "find_aud [] aud = aud"
| "find_aud ((k, v) # qp) aud =
     (if k = ''aud'' then (case aud of Some _ \<Rightarrow> None | None \<Rightarrow> find_aud qp (Some v))
      else find_aud qp aud)"

definition parse_rpc ::
  "(string \<Rightarrow> bool) \<Rightarrow> (string \<Rightarrow> bool) \<Rightarrow> string \<Rightarrow> string option
    \<Rightarrow> mb_scope_permission option" where
  "parse_rpc nsid_ok did_ok positional query =
     (let qp = query_parse (query_text query)
      in if \<not> query_keys_allowed qp [''lxm'', ''aud''] then None
         else (case extract_multi positional qp ''lxm'' of
                 None \<Rightarrow> None
               | Some lxm \<Rightarrow>
                   if lxm = [] then None
                   else if \<not> list_all (is_valid_lxm nsid_ok) lxm then None
                   else let lxm_wildcard = (''*'' \<in> set lxm)
                        in (case find_aud qp None of
                              None \<Rightarrow> None
                            | Some aud \<Rightarrow>
                                if \<not> is_valid_aud did_ok aud then None
                                else if lxm_wildcard \<and> aud = ''*'' then None
                                else Some (Rpc_Scope lxm lxm_wildcard aud))))"

definition scope_type_of :: "string \<Rightarrow> nat \<Rightarrow> mb_scope_type option" where
  "scope_type_of str type_len =
     (if strncmp_eq str ''repo'' type_len then Some MB_SCOPE_TYPE_REPO
      else if strncmp_eq str ''blob'' type_len then Some MB_SCOPE_TYPE_BLOB
      else if strncmp_eq str ''identity'' type_len then Some MB_SCOPE_TYPE_IDENTITY
      else if strncmp_eq str ''account'' type_len then Some MB_SCOPE_TYPE_ACCOUNT
      else if strncmp_eq str ''rpc'' type_len then Some MB_SCOPE_TYPE_RPC
      else if strncmp_eq str ''include'' type_len then Some MB_SCOPE_TYPE_INCLUDE
      else None)"

definition mb_scope_permission_parse ::
  "(string \<Rightarrow> bool) \<Rightarrow> (string \<Rightarrow> bool) \<Rightarrow> string \<Rightarrow> mb_scope_permission option" where
  "mb_scope_permission_parse nsid_ok did_ok str =
     (if str = [] then None
      else if str \<in> set STATIC_SCOPES then Some (Static_Scope str)
      else (case strchr_cut (CHR '':'') str of
              (_, None) \<Rightarrow> None
            | (typ, Some params) \<Rightarrow>
                if length typ = 0 then None
                else (case scope_type_of str (length typ) of
                        None \<Rightarrow> None
                      | Some t \<Rightarrow>
                          (case strchr_cut (CHR ''?'') params of
                             (positional, query) \<Rightarrow>
                               (case t of
                                  MB_SCOPE_TYPE_REPO \<Rightarrow> parse_repo nsid_ok positional query
                                | MB_SCOPE_TYPE_BLOB \<Rightarrow> parse_blob positional query
                                | MB_SCOPE_TYPE_IDENTITY \<Rightarrow> parse_identity positional query
                                | MB_SCOPE_TYPE_ACCOUNT \<Rightarrow> parse_account positional query
                                | MB_SCOPE_TYPE_RPC \<Rightarrow> parse_rpc nsid_ok did_ok positional query
                                | MB_SCOPE_TYPE_INCLUDE \<Rightarrow> Some (Include_Scope params))))))"

section \<open>Scope sets\<close>

text \<open>\<open>strtok_r(str, " ", ...)\<close>: the maximal runs of characters other than the space.\<close>

fun scope_tokens :: "string \<Rightarrow> string \<Rightarrow> string list" where
  "scope_tokens acc [] = (if acc = [] then [] else [acc])"
| "scope_tokens acc (c # cs) =
     (if c = CHR '' '' then (if acc = [] then [] else [acc]) @ scope_tokens [] cs
      else scope_tokens (acc @ [c]) cs)"

definition mb_scope_set_parse ::
  "(string \<Rightarrow> bool) \<Rightarrow> (string \<Rightarrow> bool) \<Rightarrow> string \<Rightarrow> mb_scope_set" where
  "mb_scope_set_parse nsid_ok did_ok scope_str =
     (if scope_str = [] then \<lparr>permissions = [], capacity = 0\<rparr>
      else \<lparr>permissions =
              List.map_filter (mb_scope_permission_parse nsid_ok did_ok) (scope_tokens [] scope_str),
            capacity = 1 + length (filter (\<lambda>c. c = CHR '' '') scope_str)\<rparr>)"

definition mb_scope_set_is_full_access :: "mb_scope_permission list \<Rightarrow> bool" where
  "mb_scope_set_is_full_access perms \<longleftrightarrow>
     list_ex (\<lambda>perm. case perm of
                Static_Scope value \<Rightarrow> value = ''atproto''
              | Repo_Scope collection actions \<Rightarrow>
                  collection = ''*'' \<and> actions = MB_REPO_ACTION_ALL
              | _ \<Rightarrow> False) perms"

definition mb_scope_set_allows_repo ::
  "mb_scope_permission list \<Rightarrow> string \<Rightarrow> action_mask \<Rightarrow> bool" where
  "mb_scope_set_allows_repo perms collection action =
     (if mb_scope_set_is_full_access perms then True
      else list_ex (\<lambda>perm. case perm of
              Repo_Scope coll actions \<Rightarrow>
                (coll = ''*'' \<or> coll = collection) \<and> (actions AND action) \<noteq> 0
            | _ \<Rightarrow> False) perms)"

definition mb_scope_set_allows_read :: "mb_scope_permission list \<Rightarrow> string \<Rightarrow> bool" where
  "mb_scope_set_allows_read perms collection =
     (if mb_scope_set_is_full_access perms then True
      else list_ex (\<lambda>perm. case perm of
              Repo_Scope coll _ \<Rightarrow> coll = ''*'' \<or> coll = collection
            | _ \<Rightarrow> False) perms)"

definition mb_scope_set_allows_identity :: "mb_scope_permission list \<Rightarrow> string \<Rightarrow> bool" where
  "mb_scope_set_allows_identity perms attr =
     (if mb_scope_set_is_full_access perms then True
      else list_ex (\<lambda>perm. case perm of
              Identity_Scope a \<Rightarrow> a = ''*'' \<or> a = attr
            | _ \<Rightarrow> False) perms)"

definition mb_scope_set_allows_account ::
  "mb_scope_permission list \<Rightarrow> string \<Rightarrow> action_mask \<Rightarrow> bool" where
  "mb_scope_set_allows_account perms attr action =
     (if mb_scope_set_is_full_access perms then True
      else list_ex (\<lambda>perm. case perm of
              Account_Scope a actions \<Rightarrow>
                a = attr \<and> ((actions AND MB_ACCOUNT_ACTION_MANAGE) \<noteq> 0 \<or> (actions AND action) \<noteq> 0)
            | _ \<Rightarrow> False) perms)"

text \<open>One \<open>accept\<close> pattern against a MIME type, the body of the inner loop.\<close>

definition accept_matches :: "string \<Rightarrow> string \<Rightarrow> bool" where
  "accept_matches mime accept =
     (if accept = ''*/*'' then True
      else let alen = length accept
           in if alen > 1 \<and> accept ! (alen - 1) = CHR ''*'' \<and> strncmp_eq accept mime (alen - 1)
              then True
              else accept = mime)"

definition mb_scope_set_allows_blob :: "mb_scope_permission list \<Rightarrow> string \<Rightarrow> bool" where
  "mb_scope_set_allows_blob perms mime =
     (if CHR ''/'' \<notin> set mime then False
      else if mb_scope_set_is_full_access perms then True
      else list_ex (\<lambda>perm. case perm of
              Blob_Scope accept \<Rightarrow> list_ex (accept_matches mime) accept
            | _ \<Rightarrow> False) perms)"

definition mb_scope_set_allows_rpc ::
  "mb_scope_permission list \<Rightarrow> string \<Rightarrow> string \<Rightarrow> bool" where
  "mb_scope_set_allows_rpc perms lxm aud =
     (if mb_scope_set_is_full_access perms then True
      else list_ex (\<lambda>perm. case perm of
              Rpc_Scope ls wildcard a \<Rightarrow>
                (a = ''*'' \<or> a = aud) \<and> (wildcard \<or> lxm \<in> set ls)
            | _ \<Rightarrow> False) perms)"

section \<open>Normalisation\<close>

text \<open>
  The text \<open>mb_scope_normalize\<close> prints for one permission. \<open>None\<close> is a read of
  \<open>accept[0]\<close> or \<open>lxm[0]\<close> of an empty array.
\<close>

definition repo_actions_text :: "action_mask \<Rightarrow> string" where
  "repo_actions_text actions =
     (if actions = MB_REPO_ACTION_ALL then []
      else let c = (actions AND MB_REPO_ACTION_CREATE) \<noteq> 0;
               u = (actions AND MB_REPO_ACTION_UPDATE) \<noteq> 0;
               d = (actions AND MB_REPO_ACTION_DELETE) \<noteq> 0
           in (if c then ''?action=create'' else []) @
              (if u then (if c then ''&action=update'' else ''?action=update'') else []) @
              (if d then (if c \<or> u then ''&action=delete'' else ''?action=delete'') else []))"

fun permission_text :: "mb_scope_permission \<Rightarrow> string option" where
  "permission_text (Static_Scope value) = Some value"
| "permission_text (Repo_Scope collection actions) =
     Some (''repo:'' @ collection @ repo_actions_text actions)"
| "permission_text (Blob_Scope accept) =
     (case accept of [] \<Rightarrow> None | a # _ \<Rightarrow> Some (''blob:'' @ a))"
| "permission_text (Identity_Scope attr) = Some (''identity:'' @ attr)"
| "permission_text (Account_Scope attr actions) =
     Some (''account:'' @ attr @
       (if (actions AND MB_ACCOUNT_ACTION_MANAGE) \<noteq> 0 then ''?action=manage'' else []))"
| "permission_text (Rpc_Scope lxm _ aud) =
     (case lxm of [] \<Rightarrow> None | l # _ \<Rightarrow> Some (''rpc:'' @ l @ ''?aud='' @ aud))"
| "permission_text (Include_Scope value) = Some (''include:'' @ value)"

fun join_scopes :: "string \<Rightarrow> mb_scope_permission list \<Rightarrow> string option" where
  "join_scopes result [] = Some result"
| "join_scopes result (perm # perms) =
     (case permission_text perm of
        None \<Rightarrow> None
      | Some buf \<Rightarrow>
          join_scopes (result @ (if result \<noteq> [] then '' '' else []) @ buf) perms)"

definition mb_scope_normalize ::
  "(string \<Rightarrow> bool) \<Rightarrow> (string \<Rightarrow> bool) \<Rightarrow> string \<Rightarrow> string option" where
  "mb_scope_normalize nsid_ok did_ok scope_str =
     join_scopes [] (permissions (mb_scope_set_parse nsid_ok did_ok scope_str))"

definition mb_is_static_scope :: "string \<Rightarrow> bool" where
  "mb_is_static_scope value \<longleftrightarrow> value \<in> set STATIC_SCOPES"

section \<open>What a parsed permission looks like\<close>

text \<open>The type invariant of a parsed permission, one clause per constructor.\<close>

fun perm_wf :: "(string \<Rightarrow> bool) \<Rightarrow> (string \<Rightarrow> bool) \<Rightarrow> mb_scope_permission \<Rightarrow> bool" where
  "perm_wf nsid_ok did_ok (Static_Scope v) \<longleftrightarrow> v \<in> set STATIC_SCOPES"
| "perm_wf nsid_ok did_ok (Repo_Scope c a) \<longleftrightarrow>
     (c = ''*'' \<or> nsid_ok c) \<and> a AND NOT MB_REPO_ACTION_ALL = 0"
| "perm_wf nsid_ok did_ok (Blob_Scope acc) \<longleftrightarrow> acc \<noteq> [] \<and> list_all is_valid_accept acc"
| "perm_wf nsid_ok did_ok (Identity_Scope a) \<longleftrightarrow> is_identity_attr a"
| "perm_wf nsid_ok did_ok (Account_Scope a m) \<longleftrightarrow>
     is_account_attr a \<and>
     m \<in> {MB_ACCOUNT_ACTION_READ, MB_ACCOUNT_ACTION_MANAGE,
           MB_ACCOUNT_ACTION_READ OR MB_ACCOUNT_ACTION_MANAGE}"
| "perm_wf nsid_ok did_ok (Rpc_Scope ls w aud) \<longleftrightarrow>
     ls \<noteq> [] \<and> list_all (is_valid_lxm nsid_ok) ls \<and> w = (''*'' \<in> set ls)
     \<and> is_valid_aud did_ok aud \<and> \<not> (w \<and> aud = ''*'')"
| "perm_wf nsid_ok did_ok (Include_Scope v) \<longleftrightarrow> True"

lemma mask_or_stays [simp]:
  fixes a b c :: action_mask
  shows "a AND NOT c = 0 \<Longrightarrow> b AND NOT c = 0 \<Longrightarrow> (a OR b) AND NOT c = 0"
  by (simp add: bit.conj_disj_distrib2)

lemma parse_repo_actions_mask:
  "actions AND NOT MB_REPO_ACTION_ALL = 0 \<Longrightarrow>
   parse_repo_actions p actions AND NOT MB_REPO_ACTION_ALL = 0"
proof (induction p actions rule: parse_repo_actions.induct)
  case (1 p actions)
  have flags: "MB_REPO_ACTION_CREATE AND NOT MB_REPO_ACTION_ALL = 0"
    "MB_REPO_ACTION_UPDATE AND NOT MB_REPO_ACTION_ALL = 0"
    "MB_REPO_ACTION_DELETE AND NOT MB_REPO_ACTION_ALL = 0"
    by (simp_all add: repo_action_defs)
  show ?case
    using "1.IH" "1.prems" flags
    by (subst parse_repo_actions.simps)
      (auto simp: Let_def split: prod.split option.split)
qed

lemma account_action_bits_mask:
  "account_action_bits qp bits = Some m \<Longrightarrow> bits \<in> {0, 1, 2, 3} \<Longrightarrow>
   m \<in> {0, 1, 2, 3} \<and> (bits \<noteq> 0 \<or> filter (\<lambda>(k, v). k = ''action'') qp \<noteq> [] \<longrightarrow> m \<noteq> 0)"
proof (induction qp bits rule: account_action_bits.induct)
  case (2 k v qp bits)
  have step: "bits OR MB_ACCOUNT_ACTION_READ \<in> {1, 3}" "bits OR MB_ACCOUNT_ACTION_MANAGE \<in> {2, 3}"
    using "2.prems"(2) by (auto simp: account_action_defs)
  consider "k \<noteq> ''action''" | "k = ''action''" "v = ''read''" | "k = ''action''" "v = ''manage''"
    using "2.prems"(1) by (auto split: if_splits)
  then show ?case
  proof cases
    case 1
    with 2 show ?thesis by simp
  next
    case 2
    with "2.IH"(2) "2.prems"(1) step(1) show ?thesis by auto
  next
    case 3
    with "2.IH"(3) "2.prems"(1) step(2) show ?thesis by auto
  qed
qed simp

lemma extract_multi_all:
  "extract_multi positional qp key = Some vs \<Longrightarrow>
   vs = [positional] \<or> vs = map snd (filter (\<lambda>(k, v). k = key) qp)"
  by (auto simp: extract_multi_def Let_def split: if_splits)

lemma parse_account_wf: "parse_account positional query = Some p \<Longrightarrow> perm_wf nsid_ok did_ok p"
proof -
  assume p: "parse_account positional query = Some p"
  let ?qp = "query_parse (query_text query)"
  from p have attr: "is_account_attr positional"
    by (auto simp: parse_account_def Let_def split: if_splits)
  show ?thesis
  proof (cases "filter (\<lambda>(k, v). k = ''action'') ?qp = []")
    case True
    with p attr show ?thesis by (auto simp: parse_account_def Let_def split: if_splits)
  next
    case False
    with p obtain m where m: "account_action_bits ?qp MB_ACCOUNT_ACTION_NONE = Some m"
      and "p = Account_Scope positional m"
      by (auto simp: parse_account_def Let_def split: if_splits option.splits)
    moreover from account_action_bits_mask [OF m] False have "m \<in> {1, 2, 3}"
      by (auto simp: account_action_defs)
    ultimately show ?thesis using attr by (auto simp: account_action_defs)
  qed
qed

lemma parse_permission_wf:
  assumes "mb_scope_permission_parse nsid_ok did_ok str = Some p"
  shows "perm_wf nsid_ok did_ok p"
proof (cases "str \<in> set STATIC_SCOPES")
  case True
  with assms show ?thesis
    by (auto simp: mb_scope_permission_parse_def split: if_splits)
next
  case False
  with assms obtain t positional query params where parsed:
    "(case t of
        MB_SCOPE_TYPE_REPO \<Rightarrow> parse_repo nsid_ok positional query
      | MB_SCOPE_TYPE_BLOB \<Rightarrow> parse_blob positional query
      | MB_SCOPE_TYPE_IDENTITY \<Rightarrow> parse_identity positional query
      | MB_SCOPE_TYPE_ACCOUNT \<Rightarrow> parse_account positional query
      | MB_SCOPE_TYPE_RPC \<Rightarrow> parse_rpc nsid_ok did_ok positional query
      | MB_SCOPE_TYPE_INCLUDE \<Rightarrow> Some (Include_Scope params)) = Some p"
    unfolding mb_scope_permission_parse_def
    by (auto split: if_splits option.splits prod.splits)
  then show ?thesis
  proof (cases t)
    case MB_SCOPE_TYPE_REPO
    with parsed show ?thesis
      using parse_repo_actions_mask [of MB_REPO_ACTION_NONE]
      by (auto simp: parse_repo_def repo_action_defs split: if_splits option.splits)
  qed (auto simp: parse_blob_def parse_identity_def parse_rpc_def Let_def parse_account_wf
        split: if_splits option.splits)
qed

section \<open>Tokens\<close>

lemma scope_tokens_split [simp]:
  "scope_tokens acc (a @ CHR '' '' # b) = scope_tokens acc a @ scope_tokens [] b"
  by (induction acc a rule: scope_tokens.induct) auto

lemma scope_tokens_word:
  "CHR '' '' \<notin> set w \<Longrightarrow> scope_tokens acc w = (if acc @ w = [] then [] else [acc @ w])"
  by (induction w arbitrary: acc) auto

lemma scope_tokens_count:
  "length (scope_tokens acc s) \<le> 1 + length (filter (\<lambda>c. c = CHR '' '') s)"
  by (induction acc s rule: scope_tokens.induct) (auto split: if_splits)

lemma scope_tokens_nonempty: "w \<in> set (scope_tokens acc s) \<Longrightarrow> w \<noteq> []"
  by (induction acc s rule: scope_tokens.induct) (auto split: if_splits)

lemma scope_set_permissions:
  "permissions (mb_scope_set_parse nsid_ok did_ok s) =
   List.map_filter (mb_scope_permission_parse nsid_ok did_ok) (scope_tokens [] s)"
  by (simp add: mb_scope_set_parse_def map_filter_def)

lemma scope_set_parse_split:
  "permissions (mb_scope_set_parse nsid_ok did_ok (a @ CHR '' '' # b)) =
   permissions (mb_scope_set_parse nsid_ok did_ok a) @
   permissions (mb_scope_set_parse nsid_ok did_ok b)"
  by (simp add: scope_set_permissions map_filter_def)

section \<open>The contract of the six checks\<close>

text \<open>
  Every check a handler makes has one shape: full access answers yes, and otherwise some single
  permission of the set must grant the request. \<open>guard\<close> is the argument check that comes first.
\<close>

locale scope_check =
  fixes allows :: "mb_scope_permission list \<Rightarrow> bool"
    and guard :: bool
    and grants :: "mb_scope_permission \<Rightarrow> bool"
  assumes allows_iff:
    "allows perms \<longleftrightarrow> guard \<and> (mb_scope_set_is_full_access perms \<or> (\<exists>p \<in> set perms. grants p))"
begin

lemma full_access_append:
  "mb_scope_set_is_full_access (ps @ qs) \<longleftrightarrow>
   mb_scope_set_is_full_access ps \<or> mb_scope_set_is_full_access qs"
  by (simp add: mb_scope_set_is_full_access_def)

lemma append_iff: "allows (ps @ qs) \<longleftrightarrow> allows ps \<or> allows qs"
  by (auto simp: allows_iff full_access_append)

lemma empty_denies: "\<not> allows []"
  by (simp add: allows_iff mb_scope_set_is_full_access_def)

lemma full_allows: "guard \<Longrightarrow> mb_scope_set_is_full_access ps \<Longrightarrow> allows ps"
  by (simp add: allows_iff)

lemma by_one_permission: "allows ps \<Longrightarrow> \<exists>p \<in> set ps. allows [p]"
  by (fastforce simp: allows_iff mb_scope_set_is_full_access_def list_ex_iff)

lemma subset_mono: "allows ps \<Longrightarrow> set ps \<subseteq> set qs \<Longrightarrow> allows qs"
  by (auto simp: allows_iff mb_scope_set_is_full_access_def list_ex_iff)

lemma set_only: "set ps = set qs \<Longrightarrow> allows ps = allows qs"
  using subset_mono by blast

lemma scope_text_split:
  "allows (permissions (mb_scope_set_parse nsid_ok did_ok (a @ CHR '' '' # b))) \<longleftrightarrow>
   allows (permissions (mb_scope_set_parse nsid_ok did_ok a)) \<or>
   allows (permissions (mb_scope_set_parse nsid_ok did_ok b))"
  by (simp add: scope_set_parse_split append_iff)

end

interpretation repo_check: scope_check
  "\<lambda>perms. mb_scope_set_allows_repo perms collection action" True
  "\<lambda>perm. case perm of
      Repo_Scope coll actions \<Rightarrow> (coll = ''*'' \<or> coll = collection) \<and> (actions AND action) \<noteq> 0
    | _ \<Rightarrow> False"
  for collection action
  by unfold_locales (auto simp: mb_scope_set_allows_repo_def list_ex_iff)

interpretation read_check: scope_check
  "\<lambda>perms. mb_scope_set_allows_read perms collection" True
  "\<lambda>perm. case perm of
      Repo_Scope coll _ \<Rightarrow> coll = ''*'' \<or> coll = collection
    | _ \<Rightarrow> False"
  for collection
  by unfold_locales (auto simp: mb_scope_set_allows_read_def list_ex_iff)

interpretation identity_check: scope_check
  "\<lambda>perms. mb_scope_set_allows_identity perms attr" True
  "\<lambda>perm. case perm of Identity_Scope a \<Rightarrow> a = ''*'' \<or> a = attr | _ \<Rightarrow> False"
  for attr
  by unfold_locales (auto simp: mb_scope_set_allows_identity_def list_ex_iff)

interpretation account_check: scope_check
  "\<lambda>perms. mb_scope_set_allows_account perms attr action" True
  "\<lambda>perm. case perm of
      Account_Scope a actions \<Rightarrow>
        a = attr \<and> ((actions AND MB_ACCOUNT_ACTION_MANAGE) \<noteq> 0 \<or> (actions AND action) \<noteq> 0)
    | _ \<Rightarrow> False"
  for attr action
  by unfold_locales (auto simp: mb_scope_set_allows_account_def list_ex_iff)

interpretation blob_check: scope_check
  "\<lambda>perms. mb_scope_set_allows_blob perms mime" "CHR ''/'' \<in> set mime"
  "\<lambda>perm. case perm of Blob_Scope accept \<Rightarrow> list_ex (accept_matches mime) accept | _ \<Rightarrow> False"
  for mime
  by unfold_locales (auto simp: mb_scope_set_allows_blob_def list_ex_iff [of _ "_ :: mb_scope_permission list"])

interpretation rpc_check: scope_check
  "\<lambda>perms. mb_scope_set_allows_rpc perms lxm aud" True
  "\<lambda>perm. case perm of
      Rpc_Scope ls wildcard a \<Rightarrow> (a = ''*'' \<or> a = aud) \<and> (wildcard \<or> lxm \<in> set ls)
    | _ \<Rightarrow> False"
  for lxm aud
  by unfold_locales (auto simp: mb_scope_set_allows_rpc_def list_ex_iff)

section \<open>Printing and reading back\<close>

text \<open>
  The permissions whose printed form carries all of them: \<open>mb_scope_normalize\<close> prints only the first
  entry of a list, the \<open>manage\<close> flag alone, and nothing at all for an empty action mask.
\<close>

fun perm_printable :: "mb_scope_permission \<Rightarrow> bool" where
  "perm_printable (Static_Scope v) \<longleftrightarrow> True"
| "perm_printable (Repo_Scope c a) \<longleftrightarrow> a \<noteq> MB_REPO_ACTION_NONE"
| "perm_printable (Blob_Scope acc) \<longleftrightarrow> length acc = 1 \<and> CHR ''?'' \<notin> set (hd acc)"
| "perm_printable (Identity_Scope a) \<longleftrightarrow> True"
| "perm_printable (Account_Scope a m) \<longleftrightarrow> m = MB_ACCOUNT_ACTION_READ \<or> m = MB_ACCOUNT_ACTION_MANAGE"
| "perm_printable (Rpc_Scope ls w aud) \<longleftrightarrow> length ls = 1 \<and> CHR ''&'' \<notin> set aud"
| "perm_printable (Include_Scope v) \<longleftrightarrow> True"

lemma mask_and_id:
  fixes a m :: action_mask
  assumes "a AND NOT m = 0"
  shows "a AND m = a"
proof -
  have "a AND (m OR NOT m) = a" by simp
  then show ?thesis using assms by (simp only: bit.conj_disj_distrib) simp
qed

lemma repo_mask_cases:
  assumes "a AND NOT MB_REPO_ACTION_ALL = 0"
  shows "a \<in> {0, 1, 2, 3, 4, 5, 6, 7}"
proof -
  have seven: "MB_REPO_ACTION_ALL = 7" by (simp add: repo_action_defs)
  have "a = a AND 7" using mask_and_id [OF assms] by (simp only: seven)
  then have "a \<le> 7" by (metis word_and_le1)
  then have "unat a \<le> 7" by (simp add: word_le_nat_alt)
  then have "unat a < 8" by simp
  then have "a = word_of_nat (unat a) \<and> unat a \<in> {0, 1, 2, 3, 4, 5, 6, 7}" by auto
  then show ?thesis by (elim conjE insertE) simp_all
qed

lemma repo_action_nums:
  "MB_REPO_ACTION_NONE = 0" "MB_REPO_ACTION_CREATE = 1" "MB_REPO_ACTION_UPDATE = 2"
  "MB_REPO_ACTION_DELETE = 4" "MB_REPO_ACTION_ALL = 7"
  by (simp_all add: repo_action_defs)

lemma account_action_nums:
  "MB_ACCOUNT_ACTION_NONE = 0" "MB_ACCOUNT_ACTION_READ = 1" "MB_ACCOUNT_ACTION_MANAGE = 2"
  by (simp_all add: account_action_defs)

lemma repo_actions_text_parse:
  assumes "a AND NOT MB_REPO_ACTION_ALL = 0" and "a \<noteq> 0" and "a \<noteq> MB_REPO_ACTION_ALL"
  shows "\<exists>q. repo_actions_text a = CHR ''?'' # q \<and> parse_repo_actions q MB_REPO_ACTION_NONE = a"
  using repo_mask_cases [OF assms(1)] assms(2,3)
  by (elim insertE)
    (simp_all add: repo_actions_text_def repo_action_nums parse_repo_actions.simps starts_with_def
      strncmp_eq_def)

lemma extract_multi_simps [simp]:
  "x \<noteq> [] \<Longrightarrow> filter (\<lambda>(k, v). k = key) qp = [] \<Longrightarrow> extract_multi x qp key = Some [x]"
  by (simp add: extract_multi_def)

lemma query_parse_Nil [simp]: "query_parse [] = []"
  by (simp add: query_parse.simps)

lemma query_parse_one:
  "CHR ''='' \<notin> set k \<Longrightarrow> CHR ''&'' \<notin> set k \<Longrightarrow> CHR ''&'' \<notin> set v \<Longrightarrow>
   query_parse (k @ CHR ''='' # v) = [(k, v)]"
  by (subst query_parse.simps) simp

lemma is_valid_aud_nonempty: "is_valid_accept a \<Longrightarrow> a \<noteq> []"
  by (auto simp: is_valid_accept_def)

lemma permission_roundtrip:
  assumes wf: "perm_wf nsid_ok did_ok p" and printable: "perm_printable p"
    and nsid: "\<And>s. nsid_ok s \<Longrightarrow> s \<noteq> [] \<and> CHR ''?'' \<notin> set s"
  shows "\<exists>t. permission_text p = Some t \<and> mb_scope_permission_parse nsid_ok did_ok t = Some p"
proof (cases p)
  case (Static_Scope v)
  with wf show ?thesis by (auto simp: mb_scope_permission_parse_def STATIC_SCOPES_def)
next
  case (Repo_Scope c a)
  have c: "CHR ''?'' \<notin> set c" using wf nsid Repo_Scope by auto
  show ?thesis
  proof (cases "a = MB_REPO_ACTION_ALL")
    case True
    with Repo_Scope wf c show ?thesis
      by (auto simp: mb_scope_permission_parse_def STATIC_SCOPES_def repo_actions_text_def
          scope_type_of_def strncmp_eq_def parse_repo_def)
  next
    case False
    then obtain q where "repo_actions_text a = CHR ''?'' # q"
      and "parse_repo_actions q MB_REPO_ACTION_NONE = a"
      using repo_actions_text_parse [of a] wf printable Repo_Scope
      by (auto simp: repo_action_nums)
    with Repo_Scope wf c show ?thesis
      by (auto simp: mb_scope_permission_parse_def STATIC_SCOPES_def
          scope_type_of_def strncmp_eq_def parse_repo_def)
  qed
next
  case (Blob_Scope acc)
  with printable obtain m where "acc = [m]" and "CHR ''?'' \<notin> set m"
    by (cases acc) auto
  with Blob_Scope wf show ?thesis
    by (auto simp: mb_scope_permission_parse_def STATIC_SCOPES_def scope_type_of_def
        strncmp_eq_def parse_blob_def query_text_def query_keys_allowed_def is_valid_aud_nonempty)
next
  case (Identity_Scope a)
  with wf show ?thesis
    by (auto simp: mb_scope_permission_parse_def STATIC_SCOPES_def scope_type_of_def
        strncmp_eq_def parse_identity_def query_text_def is_identity_attr_def)
next
  case (Account_Scope a m)
  with wf printable show ?thesis
    by (auto simp: mb_scope_permission_parse_def STATIC_SCOPES_def scope_type_of_def
        strncmp_eq_def parse_account_def query_text_def is_account_attr_def account_action_nums
        query_keys_allowed_def query_parse.simps)
next
  case (Rpc_Scope ls w aud)
  with printable obtain l where l: "ls = [l]" and aud: "CHR ''&'' \<notin> set aud"
    by (cases ls) auto
  have "l \<noteq> []" "CHR ''?'' \<notin> set l" using wf nsid Rpc_Scope l by (auto simp: is_valid_lxm_def)
  moreover have "query_parse (''aud='' @ aud) = [(''aud'', aud)]"
    using query_parse_one [of "''aud''" aud] aud by simp
  ultimately show ?thesis using Rpc_Scope l wf
    by (auto simp: mb_scope_permission_parse_def STATIC_SCOPES_def scope_type_of_def
        strncmp_eq_def parse_rpc_def query_text_def query_keys_allowed_def)
next
  case (Include_Scope v)
  then show ?thesis
    by (auto simp: mb_scope_permission_parse_def STATIC_SCOPES_def scope_type_of_def strncmp_eq_def
        split: prod.splits)
qed
definition perm_canonical ::
  "(string \<Rightarrow> bool) \<Rightarrow> (string \<Rightarrow> bool) \<Rightarrow> mb_scope_permission \<Rightarrow> bool" where
  "perm_canonical nsid_ok did_ok p \<longleftrightarrow>
     perm_wf nsid_ok did_ok p \<and> perm_printable p \<and>
     (case permission_text p of None \<Rightarrow> False | Some t \<Rightarrow> CHR '' '' \<notin> set t)"

lemma permission_text_wf: "perm_wf nsid_ok did_ok p \<Longrightarrow> \<exists>t. permission_text p = Some t \<and> t \<noteq> []"
  by (cases p) (auto simp: STATIC_SCOPES_def neq_Nil_conv)

lemma join_scopes_tokens:
  assumes "list_all (\<lambda>p. \<exists>t. permission_text p = Some t \<and> t \<noteq> [] \<and> CHR '' '' \<notin> set t) perms"
  shows "\<exists>n. join_scopes result perms = Some n \<and>
    scope_tokens [] n = scope_tokens [] result @ map (the \<circ> permission_text) perms"
  using assms
proof (induction perms arbitrary: result)
  case (Cons p perms)
  then obtain t where t: "permission_text p = Some t" "t \<noteq> []" "CHR '' '' \<notin> set t"
    and rest: "list_all (\<lambda>p. \<exists>t. permission_text p = Some t \<and> t \<noteq> [] \<and> CHR '' '' \<notin> set t) perms"
    by auto
  show ?case
    using Cons.IH [OF rest, of "result @ (if result \<noteq> [] then '' '' else []) @ t"] t
    by (auto simp: scope_tokens_word)
qed simp

lemma join_scopes_some:
  "list_all (perm_wf nsid_ok did_ok) perms \<Longrightarrow> \<exists>n. join_scopes result perms = Some n"
proof (induction perms arbitrary: result)
  case (Cons p perms)
  then show ?case using permission_text_wf [of nsid_ok did_ok p] by auto
qed simp

lemma parsed_set_wf: "list_all (perm_wf nsid_ok did_ok) (permissions (mb_scope_set_parse nsid_ok did_ok s))"
  by (auto simp: scope_set_permissions List.map_filter_def list_all_iff intro: parse_permission_wf)

lemma parsed_perm_wf:
  "p \<in> set (permissions (mb_scope_set_parse nsid_ok did_ok s)) \<Longrightarrow> perm_wf nsid_ok did_ok p"
  using parsed_set_wf [of nsid_ok did_ok s] by (simp add: list_all_iff)

abbreviation scope_perms ::
  "(string \<Rightarrow> bool) \<Rightarrow> (string \<Rightarrow> bool) \<Rightarrow> string \<Rightarrow> mb_scope_permission list" where
  "scope_perms nsid_ok did_ok s \<equiv> permissions (mb_scope_set_parse nsid_ok did_ok s)"

section \<open>Properties\<close>

text \<open>C18. Type invariant: whatever scope string a client presents, every permission that ends up in
  the parsed set is well formed (a \<open>repo:\<close> collection is \<open>*\<close> or an NSID, masks hold
  no unknown bit, lists are non-empty and validated, and no \<open>rpc:\<close> permission is a wildcard in both
  places), and the number of permissions stays within the array that was allocated for them.\<close>

theorem scope_set_parse_invariant:
  "list_all (perm_wf nsid_ok did_ok) (permissions (mb_scope_set_parse nsid_ok did_ok s)) \<and>
   length (permissions (mb_scope_set_parse nsid_ok did_ok s))
     \<le> capacity (mb_scope_set_parse nsid_ok did_ok s)"
proof
  show "list_all (perm_wf nsid_ok did_ok) (permissions (mb_scope_set_parse nsid_ok did_ok s))"
    by (rule parsed_set_wf)
  have "length (List.map_filter f ws) \<le> length ws"
    for f :: "string \<Rightarrow> mb_scope_permission option" and ws
    by (simp add: List.map_filter_def)
  then have "length (permissions (mb_scope_set_parse nsid_ok did_ok s)) \<le> length (scope_tokens [] s)"
    by (simp add: scope_set_permissions)
  also have "\<dots> \<le> 1 + length (filter (\<lambda>c. c = CHR '' '') s)" by (rule scope_tokens_count)
  finally show "length (permissions (mb_scope_set_parse nsid_ok did_ok s))
      \<le> capacity (mb_scope_set_parse nsid_ok did_ok s)"
    by (auto simp: mb_scope_set_parse_def)
qed

text \<open>Authority is the union of the parts: a scope string made of two strings joined by a space
  allows exactly what the one or the other allows, for each of the six checks. Adding scopes
  never takes a right away, and no combination of scopes yields a right none of them has.\<close>

theorem scope_authority_union:
  "(mb_scope_set_allows_repo (scope_perms nsid_ok did_ok (a @ CHR '' '' # b)) c m =
      (mb_scope_set_allows_repo (scope_perms nsid_ok did_ok a) c m \<or>
       mb_scope_set_allows_repo (scope_perms nsid_ok did_ok b) c m)) \<and>
   (mb_scope_set_allows_read (scope_perms nsid_ok did_ok (a @ CHR '' '' # b)) c =
      (mb_scope_set_allows_read (scope_perms nsid_ok did_ok a) c \<or>
       mb_scope_set_allows_read (scope_perms nsid_ok did_ok b) c)) \<and>
   (mb_scope_set_allows_identity (scope_perms nsid_ok did_ok (a @ CHR '' '' # b)) x =
      (mb_scope_set_allows_identity (scope_perms nsid_ok did_ok a) x \<or>
       mb_scope_set_allows_identity (scope_perms nsid_ok did_ok b) x)) \<and>
   (mb_scope_set_allows_account (scope_perms nsid_ok did_ok (a @ CHR '' '' # b)) x m =
      (mb_scope_set_allows_account (scope_perms nsid_ok did_ok a) x m \<or>
       mb_scope_set_allows_account (scope_perms nsid_ok did_ok b) x m)) \<and>
   (mb_scope_set_allows_blob (scope_perms nsid_ok did_ok (a @ CHR '' '' # b)) t =
      (mb_scope_set_allows_blob (scope_perms nsid_ok did_ok a) t \<or>
       mb_scope_set_allows_blob (scope_perms nsid_ok did_ok b) t)) \<and>
   (mb_scope_set_allows_rpc (scope_perms nsid_ok did_ok (a @ CHR '' '' # b)) l d =
      (mb_scope_set_allows_rpc (scope_perms nsid_ok did_ok a) l d \<or>
       mb_scope_set_allows_rpc (scope_perms nsid_ok did_ok b) l d))"
  by (intro conjI repo_check.scope_text_split read_check.scope_text_split
      identity_check.scope_text_split account_check.scope_text_split
      blob_check.scope_text_split rpc_check.scope_text_split)

text \<open>No blanket \<open>rpc:\<close> grant: without full access, a parsed scope lets a client call
  \<open>lxm\<close> at \<open>aud\<close> only if a single permission names that method or that audience, so no scope
  string short of full access grants every method at every audience.\<close>

theorem scope_rpc_no_blanket:
  assumes allowed: "mb_scope_set_allows_rpc (permissions (mb_scope_set_parse nsid_ok did_ok s)) lxm aud"
    and partial: "\<not> mb_scope_set_is_full_access (permissions (mb_scope_set_parse nsid_ok did_ok s))"
    and concrete: "lxm \<noteq> ''*''" "aud \<noteq> ''*''"
  shows "\<exists>ls w a. Rpc_Scope ls w a \<in> set (permissions (mb_scope_set_parse nsid_ok did_ok s)) \<and>
    (lxm \<in> set ls \<and> a = ''*'' \<or> a = aud)"
proof -
  obtain ls w a where p: "Rpc_Scope ls w a \<in> set (permissions (mb_scope_set_parse nsid_ok did_ok s))"
    and grant: "(a = ''*'' \<or> a = aud) \<and> (w \<or> lxm \<in> set ls)"
    using allowed partial unfolding rpc_check.allows_iff
    by (auto split: mb_scope_permission.splits)
  have "perm_wf nsid_ok did_ok (Rpc_Scope ls w a)"
    using p by (rule parsed_perm_wf)
  then show ?thesis using p grant by auto
qed

theorem scope_rpc_no_blanket_witness:
  "\<exists>ls w a. Rpc_Scope ls w a \<in> set (permissions (mb_scope_set_parse (\<lambda>s. s = ''a.b.c'')
      (\<lambda>d. d = ''did:web:x'') ''rpc:a.b.c?aud=did:web:x'')) \<and>
    (''a.b.c'' \<in> set ls \<and> a = ''*'' \<or> a = ''did:web:x'')"
  by (rule scope_rpc_no_blanket; code_simp)

text \<open>Printing and reading back: when every permission of a scope string is printable in full
  (one MIME pattern, one method, a non-empty action mask), \<open>mb_scope_normalize\<close> returns a string,
  and parsing it again gives the same permissions in the same order.\<close>

theorem scope_normalize_roundtrip:
  assumes canonical:
    "list_all (perm_canonical nsid_ok did_ok) (permissions (mb_scope_set_parse nsid_ok did_ok s))"
    and nsid_syntax: "\<And>x. nsid_ok x \<Longrightarrow> x \<noteq> [] \<and> CHR ''?'' \<notin> set x"
  shows "\<exists>n. mb_scope_normalize nsid_ok did_ok s = Some n \<and>
    permissions (mb_scope_set_parse nsid_ok did_ok n) =
    permissions (mb_scope_set_parse nsid_ok did_ok s)"
proof -
  let ?ps = "permissions (mb_scope_set_parse nsid_ok did_ok s)"
  have each: "\<exists>t. permission_text p = Some t \<and> t \<noteq> [] \<and> CHR '' '' \<notin> set t \<and>
      mb_scope_permission_parse nsid_ok did_ok t = Some p" if "p \<in> set ?ps" for p
  proof -
    have "perm_canonical nsid_ok did_ok p" using that canonical by (simp add: list_all_iff)
    then show ?thesis
      using permission_roundtrip [of nsid_ok did_ok p] nsid_syntax permission_text_wf
      by (fastforce simp: perm_canonical_def split: option.splits)
  qed
  then obtain n where n: "join_scopes [] ?ps = Some n"
    "scope_tokens [] n = map (the \<circ> permission_text) ?ps"
    using join_scopes_tokens [of ?ps "[]"] by (fastforce simp: list_all_iff)
  have "List.map_filter (mb_scope_permission_parse nsid_ok did_ok) (map (the \<circ> permission_text) ps) = ps"
    if "set ps \<subseteq> set ?ps" for ps
    using that by (induction ps) (use each in \<open>fastforce simp: map_filter_simps\<close>)+
  then show ?thesis using n by (auto simp: mb_scope_normalize_def scope_set_permissions [of _ _ n])
qed

theorem scope_normalize_roundtrip_witness:
  "\<exists>n. mb_scope_normalize (\<lambda>x. x = ''a.b.c'') (\<lambda>d. d = ''did:web:x'')
      ''repo:a.b.c?action=update identity:* rpc:a.b.c?aud=did:web:x'' = Some n \<and>
    permissions (mb_scope_set_parse (\<lambda>x. x = ''a.b.c'') (\<lambda>d. d = ''did:web:x'') n) =
    permissions (mb_scope_set_parse (\<lambda>x. x = ''a.b.c'') (\<lambda>d. d = ''did:web:x'')
      ''repo:a.b.c?action=update identity:* rpc:a.b.c?aud=did:web:x'')"
  by (rule scope_normalize_roundtrip; code_simp?) auto

text \<open>Normalisation can widen authority: the scope \<open>repo:*?action=read\<close> lets a client
  write to no collection at all, and yet its normalised text is \<open>repo:*\<close>, which is full access.\<close>

theorem scope_normalize_widens:
  "\<not> mb_scope_set_allows_repo (scope_perms nsid_ok did_ok ''repo:*?action=read'') c m \<and>
   mb_scope_normalize nsid_ok did_ok ''repo:*?action=read'' = Some ''repo:*'' \<and>
   mb_scope_set_is_full_access (scope_perms nsid_ok did_ok ''repo:*'')"
proof (intro conjI)
  have parsed: "scope_perms nsid_ok did_ok ''repo:*?action=read'' = [Repo_Scope ''*'' 0]"
    by (simp add: scope_set_permissions List.map_filter_def mb_scope_permission_parse_def
        STATIC_SCOPES_def scope_type_of_def strncmp_eq_def parse_repo_def parse_repo_actions.simps
        starts_with_def repo_action_nums)
  show "\<not> mb_scope_set_allows_repo (scope_perms nsid_ok did_ok ''repo:*?action=read'') c m"
    by (simp add: parsed mb_scope_set_allows_repo_def mb_scope_set_is_full_access_def
        repo_action_nums)
  show "mb_scope_normalize nsid_ok did_ok ''repo:*?action=read'' = Some ''repo:*''"
    by (simp add: mb_scope_normalize_def parsed repo_actions_text_def repo_action_nums)
  show "mb_scope_set_is_full_access (scope_perms nsid_ok did_ok ''repo:*'')"
    by (simp add: scope_set_permissions List.map_filter_def mb_scope_permission_parse_def
        STATIC_SCOPES_def scope_type_of_def strncmp_eq_def parse_repo_def
        mb_scope_set_is_full_access_def)
qed

text \<open>A type name is matched by prefix, and so is an action: \<open>r:*\<close> is read as
  \<open>repo:*\<close> and is full access, and the empty action of \<open>repo:*?action=\<close> is read as
  \<open>create\<close>.\<close>

theorem scope_prefix_accepted:
  "mb_scope_set_is_full_access (scope_perms nsid_ok did_ok ''r:*'') \<and>
   mb_scope_permission_parse nsid_ok did_ok ''repo:*?action='' =
     Some (Repo_Scope ''*'' MB_REPO_ACTION_CREATE)"
  by (simp add: scope_set_permissions List.map_filter_def mb_scope_permission_parse_def
      STATIC_SCOPES_def scope_type_of_def strncmp_eq_def parse_repo_def
      mb_scope_set_is_full_access_def parse_repo_actions.simps starts_with_def repo_action_nums)

end
