(* ===== verification/Account_Cache.thy ===== *)
theory Account_Cache
  imports MB_Prelude
begin

text \<open>
  \<open>src/account/account_cache.c\<close>: the reference-counted cache of open account contexts. The
  singly linked list \<open>cache->entries\<close> is a list of entries, head first, and a pointer into it
  (\<open>oldest\<close>, \<open>oldest_prev\<close>, \<open>prev\<close>) is an index. A context is named by a
  number, its address; \<open>ac_closed\<close> records the calls of
  \<open>metalbear_account_context_close\<close>, newest first. The LRU stamp is unbounded (the C counter is
  64 bits wide and grows by one per touch). The registry lookup and the opening of a context, the
  two calls made outside the lock, are arguments.
\<close>

section \<open>State\<close>

record cache_entry =
  ce_did :: string
  ce_ctx :: nat
  ce_refcount :: int
  ce_seq :: nat

record account_cache =
  ac_service_did :: string
  ac_public_url :: "string option"
  ac_data_directory :: string
  ac_entries :: "cache_entry list"
  ac_seq_counter :: nat
  ac_idle_count :: int
  ac_total_count :: int
  ac_max_resident :: nat
  ac_evictions :: "64 word"
  ac_hits :: "64 word"
  ac_misses :: "64 word"
  ac_closed :: "nat list"

definition ACCOUNT_CACHE_DEFAULT_MAX_RESIDENT :: nat where
  "ACCOUNT_CACHE_DEFAULT_MAX_RESIDENT = 256"

definition account_cache_new ::
  "string option \<Rightarrow> string option \<Rightarrow> string option \<Rightarrow> account_cache option" where
  "account_cache_new service_did public_url data_directory =
     (case (service_did, data_directory) of
        (Some s, Some d) \<Rightarrow>
          Some \<lparr>ac_service_did = s, ac_public_url = public_url, ac_data_directory = d,
                ac_entries = [], ac_seq_counter = 0, ac_idle_count = 0, ac_total_count = 0,
                ac_max_resident = ACCOUNT_CACHE_DEFAULT_MAX_RESIDENT,
                ac_evictions = 0, ac_hits = 0, ac_misses = 0, ac_closed = []\<rparr>
      | _ \<Rightarrow> None)"

definition account_cache_set_max_resident :: "account_cache \<Rightarrow> nat \<Rightarrow> account_cache" where
  "account_cache_set_max_resident c n =
     c\<lparr>ac_max_resident := (if n \<noteq> 0 then n else ACCOUNT_CACHE_DEFAULT_MAX_RESIDENT)\<rparr>"

definition account_cache_free :: "account_cache \<Rightarrow> account_cache" where
  "account_cache_free c =
     c\<lparr>ac_entries := [], ac_closed := rev (map ce_ctx (ac_entries c)) @ ac_closed c\<rparr>"

section \<open>Eviction\<close>

text \<open>
  The scan for the least recently used idle entry, over the rest of the list from index \<open>i\<close>:
  \<open>oldest\<close> is the best entry so far with its index, \<open>oldest_prev\<close> the value of
  \<open>prev\<close> when it was found. \<open>prev\<close> is assigned at the end of the loop body, which a
  referenced entry leaves early.
\<close>

fun evict_scan ::
  "cache_entry list \<Rightarrow> nat \<Rightarrow> (nat \<times> cache_entry) option \<Rightarrow> nat option \<Rightarrow> nat option
    \<Rightarrow> (nat \<times> cache_entry) option \<times> nat option" where
  "evict_scan [] i oldest oldest_prev prev = (oldest, oldest_prev)"
| "evict_scan (e # es) i oldest oldest_prev prev =
     (if ce_refcount e \<noteq> 0 then evict_scan es (Suc i) oldest oldest_prev prev
      else if (case oldest of None \<Rightarrow> True | Some (_, old) \<Rightarrow> ce_seq e < ce_seq old)
        then evict_scan es (Suc i) (Some (i, e)) prev (Some i)
      else evict_scan es (Suc i) oldest oldest_prev (Some i))"

text \<open>\<open>oldest_prev->next = oldest->next\<close>, or the new head of the list.\<close>

definition unlink_entry :: "cache_entry list \<Rightarrow> nat \<Rightarrow> nat option \<Rightarrow> cache_entry list" where
  "unlink_entry es oldest oldest_prev =
     (case oldest_prev of
        Some j \<Rightarrow> take (Suc j) es @ drop (Suc oldest) es
      | None \<Rightarrow> drop (Suc oldest) es)"

text \<open>\<open>j\<close> is the index of the last idle entry, if there is one.\<close>

definition is_last_idle :: "cache_entry list \<Rightarrow> nat option \<Rightarrow> bool" where
  "is_last_idle es r \<longleftrightarrow>
     (case r of
        None \<Rightarrow> \<forall>e \<in> set es. ce_refcount e \<noteq> 0
      | Some j \<Rightarrow> j < length es \<and> ce_refcount (es ! j) = 0 \<and>
          (\<forall>k. j < k \<and> k < length es \<longrightarrow> ce_refcount (es ! k) \<noteq> 0))"

definition scan_inv ::
  "cache_entry list \<Rightarrow> (nat \<times> cache_entry) option \<Rightarrow> nat option \<Rightarrow> nat option \<Rightarrow> bool" where
  "scan_inv pre oldest oldest_prev prev \<longleftrightarrow>
     is_last_idle pre prev \<and>
     (case oldest of
        None \<Rightarrow> \<forall>e \<in> set pre. ce_refcount e \<noteq> 0
      | Some (k, v) \<Rightarrow> k < length pre \<and> pre ! k = v \<and> ce_refcount v = 0 \<and>
          (\<forall>e \<in> set pre. ce_refcount e = 0 \<longrightarrow> ce_seq v \<le> ce_seq e) \<and>
          is_last_idle (take k pre) oldest_prev)"

lemma is_last_idle_snoc_idle: "ce_refcount e = 0 \<Longrightarrow> is_last_idle (pre @ [e]) (Some (length pre))"
  by (simp add: is_last_idle_def)

lemma is_last_idle_snoc_pinned:
  "ce_refcount e \<noteq> 0 \<Longrightarrow> is_last_idle pre r \<Longrightarrow> is_last_idle (pre @ [e]) r"
  by (auto simp: is_last_idle_def nth_append less_Suc_eq split: option.splits)

lemma evict_scan_inv:
  "scan_inv pre oldest oldest_prev prev \<Longrightarrow> i = length pre \<Longrightarrow>
   evict_scan es i oldest oldest_prev prev = (oldest', oldest_prev') \<Longrightarrow>
   \<exists>prev'. scan_inv (pre @ es) oldest' oldest_prev' prev'"
proof (induction es i oldest oldest_prev prev arbitrary: pre rule: evict_scan.induct)
  case (2 e es i oldest oldest_prev prev)
  let ?better = "case oldest of None \<Rightarrow> True | Some (_, old) \<Rightarrow> ce_seq e < ce_seq old"
  consider (pinned) "ce_refcount e \<noteq> 0" | (better) "ce_refcount e = 0" ?better
    | (worse) "ce_refcount e = 0" "\<not> ?better" by blast
  then show ?case
  proof cases
    case pinned
    have "scan_inv (pre @ [e]) oldest oldest_prev prev"
      using "2.prems"(1) pinned
      by (auto simp: scan_inv_def is_last_idle_snoc_pinned nth_append split: option.splits)
    then show ?thesis using "2.IH"(1) [of "pre @ [e]"] "2.prems" pinned by auto
  next
    case better
    have "scan_inv (pre @ [e]) (Some (i, e)) prev (Some i)"
      using "2.prems"(1,2) better
      by (fastforce simp: scan_inv_def is_last_idle_snoc_idle split: option.splits)
    then show ?thesis using "2.IH"(2) [of "pre @ [e]"] "2.prems" better by auto
  next
    case worse
    have "scan_inv (pre @ [e]) oldest oldest_prev (Some i)"
      using "2.prems"(1,2) worse
      by (auto simp: scan_inv_def is_last_idle_snoc_idle nth_append split: option.splits)
    then show ?thesis using "2.IH"(3) [of "pre @ [e]"] "2.prems" worse by auto
  qed
qed auto

text \<open>What the scan finds in a whole list.\<close>

lemma evict_scan_found:
  assumes "evict_scan es 0 None None None = (Some (k, v), op)"
  shows "k < length es" and "es ! k = v" and "ce_refcount v = 0"
    and "\<forall>e \<in> set es. ce_refcount e = 0 \<longrightarrow> ce_seq v \<le> ce_seq e"
    and "is_last_idle (take k es) op"
proof -
  have "scan_inv [] None None None" by (simp add: scan_inv_def is_last_idle_def)
  from evict_scan_inv [OF this _ assms] show "k < length es" "es ! k = v" "ce_refcount v = 0"
    "\<forall>e \<in> set es. ce_refcount e = 0 \<longrightarrow> ce_seq v \<le> ce_seq e" "is_last_idle (take k es) op"
    by (auto simp: scan_inv_def)
qed

lemma evict_scan_none:
  assumes "evict_scan es 0 None None None = (None, op)"
  shows "\<forall>e \<in> set es. ce_refcount e \<noteq> 0"
proof -
  have "scan_inv [] None None None" by (simp add: scan_inv_def is_last_idle_def)
  from evict_scan_inv [OF this _ assms] show ?thesis by (auto simp: scan_inv_def)
qed

text \<open>
  The list after the unlinking: the victim goes, and with it every referenced entry between it
  and the idle entry before it.
\<close>

lemma unlink_entry_shape:
  assumes "evict_scan es 0 None None None = (Some (k, v), op)"
  obtains A P C where "es = A @ P @ v # C" and "unlink_entry es k op = A @ C"
    and "\<forall>e \<in> set P. ce_refcount e \<noteq> 0"
    and "A = [] \<or> ce_refcount (last A) = 0" and "length (A @ P) = k"
proof -
  note found = evict_scan_found [OF assms]
  have split_k: "es = take k es @ v # drop (Suc k) es"
    using found(1,2) by (metis id_take_nth_drop)
  show thesis
  proof (cases op)
    case None
    then have "\<forall>e \<in> set (take k es). ce_refcount e \<noteq> 0"
      using found(5) by (simp add: is_last_idle_def)
    then show thesis
      using None split_k found(1) that [of "[]" "take k es" "drop (Suc k) es"]
      by (simp add: unlink_entry_def)
  next
    case (Some j)
    have j: "j < k" "ce_refcount (es ! j) = 0"
      and above: "\<And>n. j < n \<Longrightarrow> n < k \<Longrightarrow> ce_refcount (es ! n) \<noteq> 0"
      using found(1,5) Some by (auto simp: is_last_idle_def)
    let ?A = "take (Suc j) es" and ?P = "drop (Suc j) (take k es)"
    have "take k es = ?A @ ?P"
      using j(1) by (metis Suc_leI append_take_drop_id min.absorb1 take_take)
    then have whole: "es = ?A @ ?P @ v # drop (Suc k) es"
      using split_k by (metis append_assoc)
    have pinned: "\<forall>e \<in> set ?P. ce_refcount e \<noteq> 0"
      using above found(1) by (auto simp: in_set_conv_nth)
    have idle: "?A = [] \<or> ce_refcount (last ?A) = 0"
      using j found(1) by (simp add: take_Suc_conv_app_nth)
    have unlinked: "unlink_entry es k op = ?A @ drop (Suc k) es"
      using Some by (simp add: unlink_entry_def)
    have len: "length (?A @ ?P) = k" using j(1) found(1) by simp
    show thesis by (rule that [OF whole unlinked pinned idle len])
  qed
qed

lemma unlink_entry_shorter:
  assumes "evict_scan es 0 None None None = (Some (k, v), op)"
  shows "length (unlink_entry es k op) < length es"
proof -
  obtain A P C where "es = A @ P @ v # C" and "unlink_entry es k op = A @ C"
    using unlink_entry_shape [OF assms] by metis
  then show ?thesis by simp
qed

function evict_if_over_budget_locked :: "account_cache \<Rightarrow> account_cache" where
  "evict_if_over_budget_locked c =
     (if ac_total_count c > int (ac_max_resident c) \<and> ac_entries c \<noteq> [] then
        (case evict_scan (ac_entries c) 0 None None None of
           (None, _) \<Rightarrow> c
         | (Some (oldest, victim), oldest_prev) \<Rightarrow>
             evict_if_over_budget_locked
               (c\<lparr>ac_entries := unlink_entry (ac_entries c) oldest oldest_prev,
                  ac_idle_count := ac_idle_count c - 1,
                  ac_total_count := ac_total_count c - 1,
                  ac_evictions := ac_evictions c + 1,
                  ac_closed := ce_ctx victim # ac_closed c\<rparr>))
      else c)"
  by pat_completeness auto
termination
  by (relation "measure (length \<circ> ac_entries)") (auto simp: unlink_entry_shorter [OF sym])

declare evict_if_over_budget_locked.simps [simp del]

section \<open>Acquiring and releasing\<close>

text \<open>The first entry of the list that satisfies a test, by index.\<close>

fun find_entry :: "(cache_entry \<Rightarrow> bool) \<Rightarrow> cache_entry list \<Rightarrow> nat option" where
  "find_entry P [] = None"
| "find_entry P (e # es) = (if P e then Some 0 else map_option Suc (find_entry P es))"

text \<open>The first critical section of \<open>get\<close>, and the re-check of the second: a resident
  account is touched and its context returned.\<close>

definition cache_lookup :: "account_cache \<Rightarrow> string \<Rightarrow> (nat \<times> account_cache) option" where
  "cache_lookup c did =
     (case find_entry (\<lambda>e. ce_did e = did) (ac_entries c) of
        None \<Rightarrow> None
      | Some i \<Rightarrow>
          let e = ac_entries c ! i; stamp = Suc (ac_seq_counter c)
          in Some (ce_ctx e,
               c\<lparr>ac_idle_count := (if ce_refcount e = 0 then ac_idle_count c - 1 else ac_idle_count c),
                 ac_seq_counter := stamp,
                 ac_entries := (ac_entries c)[i := e\<lparr>ce_refcount := ce_refcount e + 1, ce_seq := stamp\<rparr>],
                 ac_hits := ac_hits c + 1\<rparr>))"

text \<open>The second critical section, with the context \<open>ctx\<close> opened in between; \<open>alloc\<close> says
  whether the two allocations for the new entry succeed.\<close>

definition cache_insert ::
  "account_cache \<Rightarrow> string \<Rightarrow> nat \<Rightarrow> bool \<Rightarrow> nat option \<times> account_cache" where
  "cache_insert c did ctx alloc =
     (case cache_lookup c did of
        Some (existing, c') \<Rightarrow> (Some existing, c'\<lparr>ac_closed := ctx # ac_closed c'\<rparr>)
      | None \<Rightarrow>
          if \<not> alloc then (None, c\<lparr>ac_closed := ctx # ac_closed c\<rparr>)
          else let stamp = Suc (ac_seq_counter c);
                   ne = \<lparr>ce_did = did, ce_ctx = ctx, ce_refcount = 1, ce_seq = stamp\<rparr>;
                   c' = evict_if_over_budget_locked
                          (c\<lparr>ac_entries := ne # ac_entries c, ac_seq_counter := stamp,
                             ac_total_count := ac_total_count c + 1\<rparr>)
               in (Some ctx, c'\<lparr>ac_misses := ac_misses c' + 1\<rparr>))"

text \<open>The whole call, when no other thread takes the lock in between: \<open>registry\<close> is the
  handle and directory recorded for a DID, \<open>open_shared\<close> the opening of its bundle.\<close>

definition account_cache_get ::
  "(string \<Rightarrow> (string \<times> string) option) \<Rightarrow>
   (string \<Rightarrow> string option \<Rightarrow> string \<Rightarrow> string \<Rightarrow> string \<Rightarrow> nat option) \<Rightarrow>
   bool \<Rightarrow> account_cache \<Rightarrow> string \<Rightarrow> nat option \<times> account_cache" where
  "account_cache_get registry open_shared alloc c did =
     (case cache_lookup c did of
        Some (ctx, c') \<Rightarrow> (Some ctx, c')
      | None \<Rightarrow>
          (case registry did of
             None \<Rightarrow> (None, c)
           | Some (handle, dir) \<Rightarrow>
               (case open_shared (ac_service_did c) (ac_public_url c) did handle dir of
                  None \<Rightarrow> (None, c)
                | Some ctx \<Rightarrow> cache_insert c did ctx alloc)))"

definition account_cache_release :: "account_cache \<Rightarrow> nat \<Rightarrow> account_cache" where
  "account_cache_release c ctx =
     (case find_entry (\<lambda>e. ce_ctx e = ctx) (ac_entries c) of
        None \<Rightarrow> c
      | Some i \<Rightarrow>
          let e = ac_entries c ! i
          in if ce_refcount e > 0 then
               if ce_refcount e - 1 = 0 then
                 evict_if_over_budget_locked
                   (c\<lparr>ac_idle_count := ac_idle_count c + 1,
                      ac_seq_counter := Suc (ac_seq_counter c),
                      ac_entries := (ac_entries c)
                        [i := e\<lparr>ce_refcount := ce_refcount e - 1, ce_seq := Suc (ac_seq_counter c)\<rparr>]\<rparr>)
               else c\<lparr>ac_entries := (ac_entries c)[i := e\<lparr>ce_refcount := ce_refcount e - 1\<rparr>]\<rparr>
             else c)"

text \<open>The thread-local list of acquisitions, released at the end of a request; \<open>grown\<close> is
  whether the buffer could grow when it had to.\<close>

definition push_acquired :: "bool \<Rightarrow> nat list \<Rightarrow> nat \<Rightarrow> nat list" where
  "push_acquired grown acquired ctx = (if grown then acquired @ [ctx] else acquired)"

definition release_thread_local :: "account_cache \<Rightarrow> nat list \<Rightarrow> account_cache \<times> nat list" where
  "release_thread_local c acquired = (foldl account_cache_release c acquired, [])"

definition account_cache_stats ::
  "account_cache \<Rightarrow> int \<times> int \<times> 64 word \<times> 64 word \<times> 64 word" where
  "account_cache_stats c =
     (ac_total_count c, ac_idle_count c, ac_evictions c, ac_hits c, ac_misses c)"

section \<open>Threads sharing the cache\<close>

text \<open>
  \<open>cs_pending\<close>: contexts a thread has opened and not yet offered to the cache; \<open>cs_refs\<close>:
  the references handed out and not yet released; \<open>cs_opened\<close>: every context opened so far.
  A step is one critical section, or the opening of a context between the two of \<open>get\<close>.
\<close>

record cache_sys =
  cs_cache :: account_cache
  cs_pending :: "(string \<times> nat) list"
  cs_refs :: "nat list"
  cs_opened :: "nat list"

inductive cache_step :: "cache_sys \<Rightarrow> cache_sys \<Rightarrow> bool" where
  hit: "cache_lookup (cs_cache s) did = Some (ctx, c') \<Longrightarrow>
    cache_step s (s\<lparr>cs_cache := c', cs_refs := ctx # cs_refs s\<rparr>)"
| open_shared: "cache_lookup (cs_cache s) did = None \<Longrightarrow> ctx \<notin> set (cs_opened s) \<Longrightarrow>
    cache_step s (s\<lparr>cs_pending := (did, ctx) # cs_pending s, cs_opened := ctx # cs_opened s\<rparr>)"
| insert: "(did, ctx) \<in> set (cs_pending s) \<Longrightarrow>
    cache_insert (cs_cache s) did ctx alloc = (r, c') \<Longrightarrow>
    cache_step s (s\<lparr>cs_cache := c', cs_pending := remove1 (did, ctx) (cs_pending s),
      cs_refs := (case r of None \<Rightarrow> cs_refs s | Some x \<Rightarrow> x # cs_refs s)\<rparr>)"
| release: "ctx \<in> set (cs_refs s) \<Longrightarrow>
    cache_step s (s\<lparr>cs_cache := account_cache_release (cs_cache s) ctx,
      cs_refs := remove1 ctx (cs_refs s)\<rparr>)"
| set_max: "cache_step s (s\<lparr>cs_cache := account_cache_set_max_resident (cs_cache s) n\<rparr>)"

definition cache_init :: "cache_sys \<Rightarrow> bool" where
  "cache_init s \<longleftrightarrow>
     (\<exists>sd pu dd. account_cache_new sd pu dd = Some (cs_cache s)) \<and>
     cs_pending s = [] \<and> cs_refs s = [] \<and> cs_opened s = []"

text \<open>What the cache and the outstanding references agree on.\<close>

definition cache_ok :: "account_cache \<Rightarrow> nat list \<Rightarrow> bool" where
  "cache_ok c refs \<longleftrightarrow>
     distinct (map ce_did (ac_entries c)) \<and> distinct (map ce_ctx (ac_entries c)) \<and>
     (\<forall>e \<in> set (ac_entries c). ce_refcount e = int (count_list refs (ce_ctx e))) \<and>
     set (ac_closed c) \<inter> (ce_ctx ` set (ac_entries c) \<union> set refs) = {} \<and>
     ac_idle_count c = int (length (filter (\<lambda>e. ce_refcount e = 0) (ac_entries c))) \<and>
     int (length (ac_entries c)) \<le> ac_total_count c"

text \<open>The contexts the cache knows, handed out or closed.\<close>

definition cache_known :: "account_cache \<Rightarrow> nat list \<Rightarrow> nat set" where
  "cache_known c refs = ce_ctx ` set (ac_entries c) \<union> set refs \<union> set (ac_closed c)"

definition pending_ctxs :: "cache_sys \<Rightarrow> nat set" where
  "pending_ctxs s = snd ` set (cs_pending s)"

definition cache_inv :: "cache_sys \<Rightarrow> bool" where
  "cache_inv s \<longleftrightarrow>
     cache_ok (cs_cache s) (cs_refs s) \<and>
     distinct (map snd (cs_pending s)) \<and>
     pending_ctxs s \<inter> cache_known (cs_cache s) (cs_refs s) = {} \<and>
     pending_ctxs s \<union> cache_known (cs_cache s) (cs_refs s) \<subseteq> set (cs_opened s)"

lemma find_entry_Some:
  "find_entry P es = Some i \<Longrightarrow> i < length es \<and> P (es ! i)"
  by (induction es arbitrary: i) (auto split: if_splits)

lemma find_entry_None: "find_entry P es = None \<longleftrightarrow> (\<forall>e \<in> set es. \<not> P e)"
  by (induction es) auto

lemma filter_pinned: "\<forall>e \<in> set P. ce_refcount e \<noteq> 0 \<Longrightarrow> filter (\<lambda>e. ce_refcount e = 0) P = []"
  by (simp add: filter_empty_conv)

text \<open>Eviction closes idle, hence unreferenced, contexts only.\<close>

lemma evict_ok:
  "cache_ok c refs \<Longrightarrow>
   cache_ok (evict_if_over_budget_locked c) refs \<and>
   ce_ctx ` set (ac_entries (evict_if_over_budget_locked c)) \<subseteq> ce_ctx ` set (ac_entries c) \<and>
   set (ac_closed (evict_if_over_budget_locked c))
     \<subseteq> set (ac_closed c) \<union> ce_ctx ` set (ac_entries c)"
proof (induction c rule: evict_if_over_budget_locked.induct)
  case (1 c)
  show ?case
  proof (cases "ac_total_count c > int (ac_max_resident c) \<and> ac_entries c \<noteq> [] \<and>
      fst (evict_scan (ac_entries c) 0 None None None) \<noteq> None")
    case False
    then have "evict_if_over_budget_locked c = c"
      by (subst evict_if_over_budget_locked.simps) (auto split: prod.splits option.splits)
    then show ?thesis using "1.prems" by simp
  next
    case True
    then obtain k v op where scan: "evict_scan (ac_entries c) 0 None None None = (Some (k, v), op)"
      by (metis fst_conv not_None_eq surj_pair)
    obtain A P C where es: "ac_entries c = A @ P @ v # C"
      and rest: "unlink_entry (ac_entries c) k op = A @ C"
      and pinned: "\<forall>e \<in> set P. ce_refcount e \<noteq> 0"
      using unlink_entry_shape [OF scan] by metis
    have idle: "ce_refcount v = 0" using evict_scan_found(3) [OF scan] .
    let ?c = "c\<lparr>ac_entries := A @ C, ac_idle_count := ac_idle_count c - 1,
      ac_total_count := ac_total_count c - 1, ac_evictions := ac_evictions c + 1,
      ac_closed := ce_ctx v # ac_closed c\<rparr>"
    have unref: "ce_ctx v \<notin> set refs"
    proof -
      have "int (count_list refs (ce_ctx v)) = 0"
        using "1.prems" es idle by (auto simp: cache_ok_def)
      then show ?thesis by (simp add: count_list_0_iff)
    qed
    have step: "cache_ok ?c refs"
      using "1.prems" es pinned idle unref by (auto simp: cache_ok_def filter_pinned)
    have "evict_if_over_budget_locked c = evict_if_over_budget_locked ?c"
      using True scan rest by (subst evict_if_over_budget_locked.simps) simp
    moreover have "cache_ok (evict_if_over_budget_locked ?c) refs \<and>
      ce_ctx ` set (ac_entries (evict_if_over_budget_locked ?c)) \<subseteq> ce_ctx ` set (ac_entries ?c) \<and>
      set (ac_closed (evict_if_over_budget_locked ?c)) \<subseteq>
        set (ac_closed ?c) \<union> ce_ctx ` set (ac_entries ?c)"
      using "1.IH" [OF _ scan [symmetric] refl refl] True step rest by simp
    ultimately show ?thesis using es by auto
  qed
qed

lemma nth_split:
  assumes "i < length es"
  obtains A C where "es = A @ es ! i # C" and "length A = i"
  using assms id_take_nth_drop [of i es] that [of "take i es" "drop (Suc i) es"] by auto

text \<open>Touching one entry: the reference counts move with the outstanding references.\<close>

lemma touch_ok:
  assumes ok: "cache_ok c refs" and i: "i < length (ac_entries c)"
    and e: "e = ac_entries c ! i" and e': "ce_did e' = ce_did e" "ce_ctx e' = ce_ctx e"
    and cnt: "ce_refcount e' = int (count_list refs' (ce_ctx e))"
    and others: "\<And>x. x \<noteq> ce_ctx e \<Longrightarrow> count_list refs' x = count_list refs x"
    and idle: "idle' = ac_idle_count c - (if ce_refcount e = 0 then 1 else 0)
                 + (if ce_refcount e' = 0 then 1 else 0)"
  shows "cache_ok (c\<lparr>ac_idle_count := idle', ac_seq_counter := n,
                     ac_entries := (ac_entries c)[i := e']\<rparr>) refs'"
proof -
  obtain A C where es: "ac_entries c = A @ e # C" and len: "length A = i"
    using nth_split [OF i] e by metis
  have upd: "(ac_entries c)[i := e'] = A @ e' # C" using es len by (metis list_update_length)
  have refs: "x \<in> set refs'" if "x \<noteq> ce_ctx e" "x \<in> set refs" for x
    using that others by (metis count_list_0_iff)
  have refs': "set refs' \<subseteq> insert (ce_ctx e) (set refs)"
    using others by (metis count_list_0_iff insertCI subsetI)
  have dist: "ce_ctx e \<notin> ce_ctx ` set A" "ce_ctx e \<notin> ce_ctx ` set C"
    using ok es by (auto simp: cache_ok_def)
  have counts: "\<forall>x \<in> set A \<union> set C. ce_refcount x = int (count_list refs' (ce_ctx x))"
  proof
    fix x assume x: "x \<in> set A \<union> set C"
    have "ce_ctx x \<noteq> ce_ctx e" using dist x by (metis UnE imageI)
    then show "ce_refcount x = int (count_list refs' (ce_ctx x))"
      using ok es x others by (auto simp: cache_ok_def)
  qed
  have closed: "set (ac_closed c) \<inter> (ce_ctx ` set (A @ e' # C) \<union> set refs') = {}"
    using ok refs' es e'(2) by (auto simp: cache_ok_def)
  have dids: "distinct (map ce_did (A @ e' # C))" "distinct (map ce_ctx (A @ e' # C))"
    using ok es e' by (simp_all add: cache_ok_def)
  have idles: "idle' = int (length (filter (\<lambda>e. ce_refcount e = 0) (A @ e' # C)))"
    using ok es idle by (simp add: cache_ok_def)
  have total: "int (length (A @ e' # C)) \<le> ac_total_count c"
    using ok es by (simp add: cache_ok_def)
  show ?thesis
    unfolding cache_ok_def upd account_cache.simps
    using dids counts cnt e'(2) closed idles total by auto
qed

lemma cache_lookup_ok:
  assumes ok: "cache_ok c refs" and found: "cache_lookup c did = Some (ctx, c')"
  shows "cache_ok c' (ctx # refs) \<and> ctx \<in> ce_ctx ` set (ac_entries c) \<and>
    ce_ctx ` set (ac_entries c') = ce_ctx ` set (ac_entries c) \<and> ac_closed c' = ac_closed c"
proof -
  obtain i where i: "find_entry (\<lambda>e. ce_did e = did) (ac_entries c) = Some i"
    using found by (auto simp: cache_lookup_def split: option.splits)
  let ?e = "ac_entries c ! i"
  let ?e' = "?e\<lparr>ce_refcount := ce_refcount ?e + 1, ce_seq := Suc (ac_seq_counter c)\<rparr>"
  have lt: "i < length (ac_entries c)" using find_entry_Some [OF i] by simp
  have rc: "ce_refcount ?e = int (count_list refs (ce_ctx ?e))"
    using ok lt by (auto simp: cache_ok_def)
  have ctx: "ctx = ce_ctx ?e" using found i by (auto simp: cache_lookup_def Let_def)
  have c': "c' = c\<lparr>ac_idle_count := ac_idle_count c - (if ce_refcount ?e = 0 then 1 else 0)
        + (if ce_refcount ?e' = 0 then 1 else 0), ac_seq_counter := Suc (ac_seq_counter c),
      ac_entries := (ac_entries c)[i := ?e']\<rparr>\<lparr>ac_hits := ac_hits c + 1\<rparr>"
    using found i rc by (auto simp: cache_lookup_def Let_def)
  have "cache_ok (c\<lparr>ac_idle_count := ac_idle_count c - (if ce_refcount ?e = 0 then 1 else 0)
        + (if ce_refcount ?e' = 0 then 1 else 0), ac_seq_counter := Suc (ac_seq_counter c),
      ac_entries := (ac_entries c)[i := ?e']\<rparr>) (ctx # refs)"
    by (rule touch_ok [OF ok lt refl]) (use rc ctx in auto)
  then have "cache_ok c' (ctx # refs)" unfolding c' by (simp add: cache_ok_def)
  moreover have "map ce_ctx (ac_entries c') = map ce_ctx (ac_entries c)"
    unfolding c' using lt by (simp add: map_update) (metis list_update_id nth_map)
  ultimately show ?thesis using ctx lt unfolding c'
    by (metis (no_types, lifting) account_cache.select_convs(12) account_cache.surjective
        account_cache.update_convs imageI list.set_map nth_mem)
qed

text \<open>The contexts a cache knows: resident ones and closed ones.\<close>

abbreviation resident :: "account_cache \<Rightarrow> nat set" where
  "resident c \<equiv> ce_ctx ` set (ac_entries c)"

lemma cache_ok_close:
  "cache_ok c refs \<Longrightarrow> ctx \<notin> resident c \<Longrightarrow> ctx \<notin> set refs \<Longrightarrow>
   cache_ok (c\<lparr>ac_closed := ctx # ac_closed c\<rparr>) refs"
  by (auto simp: cache_ok_def)

lemma cache_insert_ok:
  assumes ok: "cache_ok c refs"
    and fresh: "ctx \<notin> resident c" "ctx \<notin> set refs" "ctx \<notin> set (ac_closed c)"
    and ins: "cache_insert c did ctx alloc = (r, c')"
  shows "cache_ok c' (case r of None \<Rightarrow> refs | Some x \<Rightarrow> x # refs) \<and>
    resident c' \<subseteq> insert ctx (resident c) \<and>
    set (ac_closed c') \<subseteq> insert ctx (set (ac_closed c) \<union> resident c) \<and>
    (\<forall>x. r = Some x \<longrightarrow> x = ctx \<or> x \<in> resident c)"
proof (cases "cache_lookup c did")
  case (Some found)
  then obtain x d where found: "cache_lookup c did = Some (x, d)" by (cases found) auto
  note looked = cache_lookup_ok [OF ok found]
  have "r = Some x" and "c' = d\<lparr>ac_closed := ctx # ac_closed d\<rparr>"
    using ins found by (auto simp: cache_insert_def)
  moreover have "cache_ok (d\<lparr>ac_closed := ctx # ac_closed d\<rparr>) (x # refs)"
    by (rule cache_ok_close) (use looked fresh in auto)
  ultimately show ?thesis using looked by auto
next
  case None
  show ?thesis
  proof (cases alloc)
    case False
    with None ins cache_ok_close [OF ok fresh(1,2)] show ?thesis by (auto simp: cache_insert_def)
  next
    case True
    define ne where "ne = \<lparr>ce_did = did, ce_ctx = ctx, ce_refcount = 1, ce_seq = Suc (ac_seq_counter c)\<rparr>"
    define d where "d = c\<lparr>ac_entries := ne # ac_entries c, ac_seq_counter := Suc (ac_seq_counter c),
      ac_total_count := ac_total_count c + 1\<rparr>"
    have absent: "did \<notin> ce_did ` set (ac_entries c)"
      using None by (auto simp: cache_lookup_def find_entry_None Let_def split: option.splits)
    have "count_list refs ctx = 0" using fresh(2) by (simp add: count_list_0_iff)
    then have d_ok: "cache_ok d (ctx # refs)"
      using ok fresh absent unfolding cache_ok_def d_def ne_def by auto
    let ?d = "evict_if_over_budget_locked d"
    have res: "r = Some ctx" "c' = ?d\<lparr>ac_misses := ac_misses ?d + 1\<rparr>"
      using None True ins by (auto simp: cache_insert_def Let_def d_def ne_def)
    have "resident d = insert ctx (resident c)" "ac_closed d = ac_closed c"
      by (auto simp: d_def ne_def)
    moreover have "cache_ok c' (ctx # refs)"
      using evict_ok [OF d_ok] by (simp add: res cache_ok_def)
    ultimately show ?thesis using evict_ok [OF d_ok] by (auto simp: res)
  qed
qed

lemma account_cache_release_ok:
  assumes ok: "cache_ok c refs" and held: "ctx \<in> set refs"
  shows "cache_ok (account_cache_release c ctx) (remove1 ctx refs) \<and>
    resident (account_cache_release c ctx) \<subseteq> resident c \<and>
    set (ac_closed (account_cache_release c ctx)) \<subseteq> set (ac_closed c) \<union> resident c"
proof (cases "find_entry (\<lambda>e. ce_ctx e = ctx) (ac_entries c)")
  case None
  then have "\<forall>e \<in> set (ac_entries c). ce_ctx e \<noteq> ctx" by (simp add: find_entry_None)
  then have "cache_ok c (remove1 ctx refs)"
    using ok set_remove1_subset [of ctx refs] by (auto simp: cache_ok_def)
  with None show ?thesis by (simp add: account_cache_release_def)
next
  case (Some i)
  let ?e = "ac_entries c ! i"
  have i: "i < length (ac_entries c)" and ctx: "ce_ctx ?e = ctx"
    using find_entry_Some [OF Some] by auto
  have rc: "ce_refcount ?e = int (count_list refs ctx)"
    using ok i ctx by (auto simp: cache_ok_def)
  moreover have pos: "count_list refs ctx \<noteq> 0" using held by (simp add: count_list_0_iff)
  ultimately have less: "ce_refcount ?e - 1 = int (count_list (remove1 ctx refs) ctx)" by simp
  define q where "q = (if ce_refcount ?e - 1 = 0 then Suc (ac_seq_counter c) else ac_seq_counter c)"
  define e' where "e' = (if ce_refcount ?e - 1 = 0
      then ?e\<lparr>ce_refcount := ce_refcount ?e - 1, ce_seq := Suc (ac_seq_counter c)\<rparr>
      else ?e\<lparr>ce_refcount := ce_refcount ?e - 1\<rparr>)"
  define d where "d = c\<lparr>ac_idle_count := ac_idle_count c - (if ce_refcount ?e = 0 then 1 else 0)
      + (if ce_refcount e' = 0 then 1 else 0),
    ac_seq_counter := q, ac_entries := (ac_entries c)[i := e']\<rparr>"
  have d_ok: "cache_ok d (remove1 ctx refs)"
    unfolding d_def by (rule touch_ok [OF ok i refl]) (use less ctx in \<open>auto simp: e'_def\<close>)
  have same: "resident d = resident c" "ac_closed d = ac_closed c"
  proof -
    have "map ce_ctx (ac_entries d) = map ce_ctx (ac_entries c)"
      unfolding d_def e'_def using i by (simp add: map_update) (metis list_update_id nth_map)
    then show "resident d = resident c" by (metis list.set_map)
  qed (simp add: d_def)
  have "account_cache_release c ctx = d \<or>
    account_cache_release c ctx = evict_if_over_budget_locked d"
    using Some rc pos by (auto simp: account_cache_release_def Let_def d_def q_def e'_def)
  then show ?thesis using evict_ok [OF d_ok] d_ok same by auto
qed

lemma account_cache_new_ok:
  "account_cache_new sd pu dd = Some c \<Longrightarrow> cache_ok c [] \<and> ac_entries c = [] \<and> ac_closed c = []"
  by (cases sd; cases dd) (auto simp: account_cache_new_def cache_ok_def)

lemma cache_init_inv: "cache_init s \<Longrightarrow> cache_inv s"
  by (fastforce simp: cache_init_def cache_inv_def pending_ctxs_def cache_known_def
      dest: account_cache_new_ok)

lemma cache_inv_update:
  assumes inv: "cache_inv s" and ok: "cache_ok c' refs'"
    and known: "cache_known c' refs' \<subseteq> cache_known (cs_cache s) (cs_refs s)"
  shows "cache_inv (s\<lparr>cs_cache := c', cs_refs := refs'\<rparr>)"
proof -
  have "pending_ctxs s \<inter> cache_known c' refs' = {}"
    "pending_ctxs s \<union> cache_known c' refs' \<subseteq> set (cs_opened s)"
    using inv known unfolding cache_inv_def by blast+
  then show ?thesis using inv ok by (simp add: cache_inv_def pending_ctxs_def)
qed

lemma cache_inv_insert:
  assumes inv: "cache_inv s" and pending: "(did, ctx) \<in> set (cs_pending s)"
    and ins: "cache_insert (cs_cache s) did ctx alloc = (r, c')"
    and refs: "refs' = (case r of None \<Rightarrow> cs_refs s | Some x \<Rightarrow> x # cs_refs s)"
  shows "cache_inv (s\<lparr>cs_cache := c', cs_pending := remove1 (did, ctx) (cs_pending s),
    cs_refs := refs'\<rparr>)"
proof -
  let ?p = "remove1 (did, ctx) (cs_pending s)"
  have ok: "cache_ok (cs_cache s) (cs_refs s)" using inv by (simp add: cache_inv_def)
  have ctx: "ctx \<in> pending_ctxs s" using pending by (force simp: pending_ctxs_def)
  then have "ctx \<notin> cache_known (cs_cache s) (cs_refs s)" using inv by (auto simp: cache_inv_def)
  then have fresh: "ctx \<notin> resident (cs_cache s)" "ctx \<notin> set (cs_refs s)"
    "ctx \<notin> set (ac_closed (cs_cache s))" by (auto simp: cache_known_def)
  note step = cache_insert_ok [OF ok fresh ins]
  have inj: "inj_on snd (set (cs_pending s))" and dist: "distinct (cs_pending s)"
    using inv by (auto simp: cache_inv_def distinct_map)
  have left: "snd ` set ?p = pending_ctxs s - {ctx}"
    using inj_on_image_set_diff [OF inj, of "set (cs_pending s)" "{(did, ctx)}"] pending dist
    by (simp add: pending_ctxs_def)
  have left_dist: "distinct (map snd ?p)"
    using inj_on_subset [OF inj set_remove1_subset] dist by (simp add: distinct_map)
  have ok': "cache_ok c' refs'" using step by (simp add: refs)
  have known: "cache_known c' refs' \<subseteq> insert ctx (cache_known (cs_cache s) (cs_refs s))"
    using step by (auto simp: cache_known_def refs split: option.splits)
  have "(pending_ctxs s - {ctx}) \<inter> cache_known c' refs' = {}"
    "(pending_ctxs s - {ctx}) \<union> cache_known c' refs' \<subseteq> set (cs_opened s)"
    using inv known ctx unfolding cache_inv_def by blast+
  then show ?thesis using ok' left left_dist by (simp add: cache_inv_def pending_ctxs_def)
qed

lemma cache_inv_hit:
  assumes "cache_lookup (cs_cache s) did = Some (ctx, c')" "cache_inv s" 
  shows "cache_inv (s\<lparr>cs_cache := c', cs_refs := ctx # cs_refs s\<rparr>)"
proof -
  have "cache_ok (cs_cache s) (cs_refs s)" using assms by (simp add: cache_inv_def)
  note looked = cache_lookup_ok [OF this assms(1)]
  have "cache_known c' (ctx # cs_refs s) \<subseteq> cache_known (cs_cache s) (cs_refs s)"
    using looked by (auto simp: cache_known_def)
  then show ?thesis using looked by (intro cache_inv_update [OF assms(2)]) simp_all
qed

lemma cache_inv_open:
  assumes "ctx \<notin> set (cs_opened s)" "cache_inv s" 
  shows "cache_inv (s\<lparr>cs_pending := (did, ctx) # cs_pending s, cs_opened := ctx # cs_opened s\<rparr>)"
proof -
  have "ctx \<notin> pending_ctxs s" "ctx \<notin> cache_known (cs_cache s) (cs_refs s)"
    using assms by (auto simp: cache_inv_def)
  then show ?thesis using assms by (simp add: cache_inv_def pending_ctxs_def) blast
qed

lemma cache_inv_release:
  assumes "ctx \<in> set (cs_refs s)" "cache_inv s" 
  shows "cache_inv (s\<lparr>cs_cache := account_cache_release (cs_cache s) ctx,
      cs_refs := remove1 ctx (cs_refs s)\<rparr>)"
proof -
  have "cache_ok (cs_cache s) (cs_refs s)" using assms by (simp add: cache_inv_def)
  note released = account_cache_release_ok [OF this assms(1)]
  have "cache_known (account_cache_release (cs_cache s) ctx) (remove1 ctx (cs_refs s))
     \<subseteq> cache_known (cs_cache s) (cs_refs s)"
    using released set_remove1_subset [of ctx "cs_refs s"] unfolding cache_known_def by blast
  then show ?thesis using released by (intro cache_inv_update [OF assms(2)]) simp_all
qed

lemma cache_inv_set_max:
  "cache_inv s \<Longrightarrow> cache_inv (s\<lparr>cs_cache := account_cache_set_max_resident (cs_cache s) n\<rparr>)"
  by (simp add: cache_inv_def cache_ok_def account_cache_set_max_resident_def pending_ctxs_def
      cache_known_def)

lemma cache_step_inv: "cache_step s t \<Longrightarrow> cache_inv s \<Longrightarrow> cache_inv t"
  by (induction rule: cache_step.induct)
    (blast intro: cache_inv_hit cache_inv_open cache_inv_insert cache_inv_release cache_inv_set_max)+

interpretation cache_system: transition_system cache_init cache_step cache_inv
  by unfold_locales (auto intro: cache_init_inv cache_step_inv)

section \<open>Properties\<close>

text \<open>Eviction stops within the budget or with nothing idle left, and its counters add up.\<close>

lemma evict_accounting:
  "(ac_total_count (evict_if_over_budget_locked c) \<le> int (ac_max_resident c) \<or>
    filter (\<lambda>e. ce_refcount e = 0) (ac_entries (evict_if_over_budget_locked c)) = []) \<and>
   ac_total_count c - ac_total_count (evict_if_over_budget_locked c) =
     int (length (ac_closed (evict_if_over_budget_locked c))) - int (length (ac_closed c)) \<and>
   ac_idle_count c - ac_idle_count (evict_if_over_budget_locked c) =
     int (length (ac_closed (evict_if_over_budget_locked c))) - int (length (ac_closed c)) \<and>
   ac_max_resident (evict_if_over_budget_locked c) = ac_max_resident c"
proof (induction c rule: evict_if_over_budget_locked.induct)
  case (1 c)
  show ?case
  proof (cases "ac_total_count c > int (ac_max_resident c) \<and> ac_entries c \<noteq> []")
    case False
    then show ?thesis by (subst (1 2 3 4 5 6 7) evict_if_over_budget_locked.simps) auto
  next
    case over: True
    show ?thesis
    proof (cases "evict_scan (ac_entries c) 0 None None None")
      case (Pair found op)
      show ?thesis
      proof (cases found)
        case None
        then have "evict_if_over_budget_locked c = c"
          using Pair over by (subst evict_if_over_budget_locked.simps) simp
        then show ?thesis
          using evict_scan_none [of "ac_entries c" op] Pair None by (simp add: filter_pinned)
      next
        case (Some kv)
        obtain k v where kv: "kv = (k, v)" by (cases kv)
        let ?c = "c\<lparr>ac_entries := unlink_entry (ac_entries c) k op,
          ac_idle_count := ac_idle_count c - 1, ac_total_count := ac_total_count c - 1,
          ac_evictions := ac_evictions c + 1, ac_closed := ce_ctx v # ac_closed c\<rparr>"
        have step: "evict_if_over_budget_locked c = evict_if_over_budget_locked ?c"
          using Pair Some kv over by (subst evict_if_over_budget_locked.simps) simp
        show ?thesis
          using "1.IH" [OF over Pair [symmetric] Some kv [symmetric]] unfolding step by simp
      qed
    qed
  qed
qed

lemma evict_scan_keeps:
  "\<forall>e \<in> set es. ce_refcount e = 0 \<longrightarrow> ce_seq v \<le> ce_seq e \<Longrightarrow>
   evict_scan es i (Some (k, v)) op prev = (Some (k, v), op)"
  by (induction es arbitrary: i prev) auto

text \<open>C19. No use after close: whatever the interleaving of lookups, openings, insertions, releases and
  budget changes, a context the cache has closed is not referenced by any caller, every resident
  entry's reference count is the number of references handed out and not yet released, the idle
  counter is the number of idle entries, and no account is resident twice.\<close>

theorem cache_never_closes_referenced:
  assumes "cache_init s" and "cache_step\<^sup>*\<^sup>* s t"
  shows "set (ac_closed (cs_cache t)) \<inter> set (cs_refs t) = {} \<and>
    list_all (\<lambda>e. ce_refcount e = int (count_list (cs_refs t) (ce_ctx e)))
      (ac_entries (cs_cache t)) \<and>
    ac_idle_count (cs_cache t) =
      int (length (filter (\<lambda>e. ce_refcount e = 0) (ac_entries (cs_cache t)))) \<and>
    distinct (map ce_did (ac_entries (cs_cache t)))"
  using cache_system.inv_reachable [OF assms] by (auto simp: cache_inv_def cache_ok_def list_all_iff)

definition demo_cache :: account_cache where
  "demo_cache = \<lparr>ac_service_did = ''did:web:x'', ac_public_url = None, ac_data_directory = ''/d'',
     ac_entries = [], ac_seq_counter = 0, ac_idle_count = 0, ac_total_count = 0,
     ac_max_resident = 256, ac_evictions = 0, ac_hits = 0, ac_misses = 0, ac_closed = []\<rparr>"

definition demo_sys :: cache_sys where
  "demo_sys = \<lparr>cs_cache = demo_cache, cs_pending = [], cs_refs = [], cs_opened = []\<rparr>"

definition demo_sys' :: cache_sys where
  "demo_sys' =
     \<lparr>cs_cache = snd (cache_insert demo_cache ''did:plc:a'' 7 True),
      cs_pending = [], cs_refs = [7], cs_opened = [7]\<rparr>"

lemma demo_init: "cache_init demo_sys"
proof -
  have "account_cache_new (Some ''did:web:x'') None (Some ''/d'') = Some demo_cache"
    by (simp add: account_cache_new_def demo_cache_def ACCOUNT_CACHE_DEFAULT_MAX_RESIDENT_def)
  then show ?thesis unfolding cache_init_def demo_sys_def by fastforce
qed

lemma demo_steps: "cache_step\<^sup>*\<^sup>* demo_sys demo_sys'"
proof -
  let ?m = "demo_sys\<lparr>cs_pending := [(''did:plc:a'', 7)], cs_opened := [7]\<rparr>"
  have absent: "cache_lookup (cs_cache demo_sys) ''did:plc:a'' = None"
    by (simp add: demo_sys_def demo_cache_def cache_lookup_def)
  have "cache_step demo_sys ?m"
    using cache_step.open_shared [OF absent, of 7] by (simp add: demo_sys_def)
  moreover have "fst (cache_insert demo_cache ''did:plc:a'' 7 True) = Some 7"
    using absent by (simp add: cache_insert_def Let_def demo_sys_def)
  then have "cache_step ?m demo_sys'"
    using cache_step.insert [of "''did:plc:a''" 7 ?m True "Some 7"]
    by (cases "cache_insert demo_cache ''did:plc:a'' 7 True") (simp add: demo_sys_def demo_sys'_def)
  ultimately show ?thesis by (meson converse_rtranclp_into_rtranclp rtranclp.rtrancl_refl)
qed

theorem cache_never_closes_referenced_witness:
  "cs_refs demo_sys' = [7] \<and> set (ac_closed (cs_cache demo_sys')) \<inter> set (cs_refs demo_sys') = {}"
proof
  show "cs_refs demo_sys' = [7]" by (simp add: demo_sys'_def)
  show "set (ac_closed (cs_cache demo_sys')) \<inter> set (cs_refs demo_sys') = {}"
    using cache_never_closes_referenced [OF demo_init demo_steps] by (elim conjE)
qed

text \<open>The budget: after an eviction pass the cache is within \<open>max_resident\<close> or holds no idle
  entry at all, and both counters have dropped by exactly the number of contexts closed.\<close>

theorem cache_evict_budget:
  "(ac_total_count (evict_if_over_budget_locked c) \<le> int (ac_max_resident c) \<or>
    filter (\<lambda>e. ce_refcount e = 0) (ac_entries (evict_if_over_budget_locked c)) = []) \<and>
   ac_total_count c - ac_total_count (evict_if_over_budget_locked c) =
     int (length (ac_closed (evict_if_over_budget_locked c))) - int (length (ac_closed c)) \<and>
   ac_idle_count c - ac_idle_count (evict_if_over_budget_locked c) =
     int (length (ac_closed (evict_if_over_budget_locked c))) - int (length (ac_closed c))"
  using evict_accounting by blast

text \<open>The victim: the scan picks an idle entry whose stamp is the least among the idle ones, and
  the unlinking removes that entry together with the run of referenced entries that stands between
  it and the idle entry before it (or the head of the list).\<close>

theorem cache_evict_victim:
  assumes "evict_scan es 0 None None None = (Some (k, v), op)"
  shows "ce_refcount v = 0 \<and>
    list_all (\<lambda>e. ce_refcount e \<noteq> 0 \<or> ce_seq v \<le> ce_seq e) es \<and>
    (\<exists>A P C. es = A @ P @ v # C \<and> unlink_entry es k op = A @ C \<and>
       list_all (\<lambda>e. ce_refcount e \<noteq> 0) P \<and> (A = [] \<or> ce_refcount (last A) = 0))"
proof -
  obtain A P C where "es = A @ P @ v # C" "unlink_entry es k op = A @ C"
    "\<forall>e \<in> set P. ce_refcount e \<noteq> 0" "A = [] \<or> ce_refcount (last A) = 0"
    using unlink_entry_shape [OF assms] by metis
  moreover have "list_all (\<lambda>e. ce_refcount e \<noteq> 0 \<or> ce_seq v \<le> ce_seq e) es"
    using evict_scan_found(4) [OF assms] by (auto simp: list_all_iff)
  ultimately show ?thesis using evict_scan_found(3) [OF assms] by (auto simp: list_all_iff)
qed

abbreviation demo_entry :: "string \<Rightarrow> nat \<Rightarrow> int \<Rightarrow> nat \<Rightarrow> cache_entry" where
  "demo_entry d x r n \<equiv> \<lparr>ce_did = d, ce_ctx = x, ce_refcount = r, ce_seq = n\<rparr>"

theorem cache_evict_victim_witness:
  "\<exists>A P C. [demo_entry ''a'' 1 1 9, demo_entry ''b'' 2 0 3] = A @ P @ demo_entry ''b'' 2 0 3 # C \<and>
    unlink_entry [demo_entry ''a'' 1 1 9, demo_entry ''b'' 2 0 3] 1 None = A @ C \<and>
    list_all (\<lambda>e. ce_refcount e \<noteq> 0) P \<and> (A = [] \<or> ce_refcount (last A) = 0)"
proof -
  have "evict_scan [demo_entry ''a'' 1 1 9, demo_entry ''b'' 2 0 3] 0 None None None =
      (Some (1, demo_entry ''b'' 2 0 3), None)" by simp
  from cache_evict_victim [OF this] show ?thesis by blast
qed

text \<open>The eviction that makes room for a new account can lose the new account: when the cache is
  full and its first entry is the least recently used idle one, inserting another account returns
  its context, but the entry just inserted is gone from the list. Looking the account up again
  misses (a second context is opened for it), and releasing the context finds nothing to release.\<close>

theorem cache_insert_loses_new_entry:
  assumes entries: "ac_entries c = v # es" and idle: "ce_refcount v = 0"
    and lru: "\<forall>e \<in> set es. ce_refcount e = 0 \<longrightarrow> ce_seq v \<le> ce_seq e"
    and full: "ac_total_count c = int (ac_max_resident c)"
    and absent: "\<forall>e \<in> set (v # es). ce_did e \<noteq> did \<and> ce_ctx e \<noteq> ctx"
  shows "\<exists>c'. cache_insert c did ctx True = (Some ctx, c') \<and> ac_entries c' = es \<and>
    cache_lookup c' did = None \<and> account_cache_release c' ctx = c'"
proof -
  define ne where "ne = \<lparr>ce_did = did, ce_ctx = ctx, ce_refcount = 1, ce_seq = Suc (ac_seq_counter c)\<rparr>"
  define d where "d = c\<lparr>ac_entries := ne # v # es, ac_seq_counter := Suc (ac_seq_counter c),
    ac_total_count := ac_total_count c + 1\<rparr>"
  have scan: "evict_scan (ne # v # es) 0 None None None = (Some (1, v), None)"
    using idle evict_scan_keeps [OF lru] by (simp add: ne_def)
  have d_fields: "ac_entries d = ne # v # es" "ac_max_resident d = ac_max_resident c"
    "ac_total_count d = int (ac_max_resident c) + 1"
    by (simp_all add: d_def full)
  let ?d = "d\<lparr>ac_entries := es, ac_idle_count := ac_idle_count d - 1,
    ac_total_count := ac_total_count d - 1, ac_evictions := ac_evictions d + 1,
    ac_closed := ce_ctx v # ac_closed d\<rparr>"
  have "evict_if_over_budget_locked d = evict_if_over_budget_locked ?d"
    by (subst evict_if_over_budget_locked.simps)
      (simp add: d_fields scan unlink_entry_def del: evict_scan.simps)
  also have "\<dots> = ?d"
    by (subst evict_if_over_budget_locked.simps) (simp add: d_fields)
  finally have evicted: "evict_if_over_budget_locked d = ?d" .
  have none: "find_entry (\<lambda>e. ce_did e = did) es = None" "find_entry (\<lambda>e. ce_ctx e = ctx) es = None"
    using absent by (auto simp: find_entry_None)
  have "cache_lookup c did = None"
    using absent none(1) by (simp add: cache_lookup_def entries)
  then have "cache_insert c did ctx True = (Some ctx, ?d\<lparr>ac_misses := ac_misses ?d + 1\<rparr>)"
    using evicted by (simp add: cache_insert_def Let_def d_def ne_def entries)
  then show ?thesis
    using none by (simp add: cache_lookup_def account_cache_release_def)
qed

theorem cache_insert_loses_new_entry_witness:
  "\<exists>c'. cache_insert (demo_cache\<lparr>ac_entries := [demo_entry ''a'' 1 0 1], ac_total_count := 1,
      ac_idle_count := 1, ac_max_resident := 1\<rparr>) ''b'' 2 True = (Some 2, c') \<and>
    ac_entries c' = [] \<and> cache_lookup c' ''b'' = None \<and> account_cache_release c' 2 = c'"
  by (rule cache_insert_loses_new_entry [where v = "demo_entry ''a'' 1 0 1"]) simp_all

end
