(* ===== verification/Ops_Metrics.thy ===== *)
theory Ops_Metrics
  imports MB_Prelude
begin

text \<open>
  \<open>src/ops/metrics.c\<close>: the process-wide counters and the bounded table of per-route request
  counts. A counter is a 64-bit word; the enumeration of the metrics is its integer value, which
  the code range-checks. The route table is the list of its used rows with the capacity allocated
  for it; whether a \<open>realloc\<close> succeeds is an argument.
\<close>

section \<open>Counters\<close>

definition METALBEAR_METRIC_COUNT :: int where
  "METALBEAR_METRIC_COUNT = 17"

definition descriptions :: "(string \<times> string) list" where
  "descriptions =
    [(''requests_total'', ''Requests served.''),
     (''requests_failed_total'', ''Requests that answered 4xx or 5xx.''),
     (''auth_refused_total'', ''Requests refused by the authentication callback.''),
     (''accounts_created_total'', ''Accounts created on this host.''),
     (''accounts_deleted_total'', ''Accounts deleted from this host.''),
     (''sessions_created_total'', ''Sessions issued.''),
     (''login_failures_total'', ''Logins refused.''),
     (''commits_sequenced_total'', ''Signed repository commits published to the firehose.''),
     (''blobs_uploaded_total'', ''Blobs stored.''),
     (''takedowns_applied_total'', ''Takedowns applied to a subject.''),
     (''firehose_subscribes_total'', ''Firehose subscribers that have connected.''),
     (''firehose_disconnects_total'', ''Firehose subscribers that have disconnected.''),
     (''dns_failures_total'', ''Handle DNS records that could not be written.''),
     (''crawl_failures_total'', ''requestCrawl announcements that failed.''),
     (''account_cache_hits_total'', ''Account contexts reused from the resident cache.''),
     (''account_cache_misses_total'', ''Account contexts opened because they were not resident.''),
     (''account_cache_evictions_total'',
      ''Idle account contexts closed to stay under the resident budget.'')]"

record route_row =
  rr_name :: string
  rr_requests :: "64 word"
  rr_errors :: "64 word"

record metrics =
  mx_counters :: "64 word list"
  mx_routes :: "route_row list"
  mx_route_capacity :: nat
  mx_overflow_requests :: "64 word"
  mx_overflow_errors :: "64 word"

definition metrics_start :: metrics where
  "metrics_start =
     \<lparr>mx_counters = replicate (nat METALBEAR_METRIC_COUNT) 0, mx_routes = [],
      mx_route_capacity = 0, mx_overflow_requests = 0, mx_overflow_errors = 0\<rparr>"

definition metalbear_metrics_inc :: "metrics \<Rightarrow> int \<Rightarrow> metrics" where
  "metalbear_metrics_inc m metric =
     (if metric < 0 \<or> metric \<ge> METALBEAR_METRIC_COUNT then m
      else m\<lparr>mx_counters := (mx_counters m)
               [nat metric := mx_counters m ! nat metric + 1]\<rparr>)"

definition metalbear_metrics_get :: "metrics \<Rightarrow> int \<Rightarrow> 64 word" where
  "metalbear_metrics_get m metric =
     (if metric < 0 \<or> metric \<ge> METALBEAR_METRIC_COUNT then 0
      else mx_counters m ! nat metric)"

definition metalbear_metric_name :: "int \<Rightarrow> string option" where
  "metalbear_metric_name metric =
     (if metric < 0 \<or> metric \<ge> METALBEAR_METRIC_COUNT then None
      else Some (fst (descriptions ! nat metric)))"

definition metalbear_metric_help :: "int \<Rightarrow> string option" where
  "metalbear_metric_help metric =
     (if metric < 0 \<or> metric \<ge> METALBEAR_METRIC_COUNT then None
      else Some (snd (descriptions ! nat metric)))"

section \<open>The route table\<close>

definition METALBEAR_METRICS_MAX_ROUTES :: nat where
  "METALBEAR_METRICS_MAX_ROUTES = 4096"

definition ROUTE_NAME_SIZE :: nat where
  "ROUTE_NAME_SIZE = 128"

text \<open>\<open>grow_routes_locked\<close>: the new capacity, \<open>None\<close> for its \<open>false\<close>.\<close>

definition grow_routes_locked :: "bool \<Rightarrow> nat \<Rightarrow> nat option" where
  "grow_routes_locked realloc_ok capacity =
     (let doubled = (if capacity \<noteq> 0 then capacity * 2 else 16);
          new_cap = (if doubled > METALBEAR_METRICS_MAX_ROUTES
                     then METALBEAR_METRICS_MAX_ROUTES else doubled)
      in if new_cap \<le> capacity then None
         else if \<not> realloc_ok then None
         else Some new_cap)"

fun find_route :: "string \<Rightarrow> route_row list \<Rightarrow> nat option" where
  "find_route name [] = None"
| "find_route name (r # rs) =
     (if rr_name r = name then Some 0 else map_option Suc (find_route name rs))"

definition route_label :: "string option \<Rightarrow> string option \<Rightarrow> string" where
  "route_label nsid path =
     (let name = (case nsid of Some n \<Rightarrow> if n \<noteq> [] then nsid else path | None \<Rightarrow> path)
      in case name of
           None \<Rightarrow> ''unknown''
         | Some s \<Rightarrow> if s = [] then ''unknown'' else s)"

text \<open>What the request adds to an error count.\<close>

abbreviation error_unit :: "32 word \<Rightarrow> 64 word" where
  "error_unit status \<equiv> (if status \<ge> 400 then 1 else 0)"

definition metrics_overflow :: "metrics \<Rightarrow> 32 word \<Rightarrow> metrics" where
  "metrics_overflow m status =
     m\<lparr>mx_overflow_requests := mx_overflow_requests m + 1,
       mx_overflow_errors := mx_overflow_errors m + error_unit status\<rparr>"

definition add_route :: "metrics \<Rightarrow> nat \<Rightarrow> string \<Rightarrow> 32 word \<Rightarrow> metrics" where
  "add_route m capacity name status =
     m\<lparr>mx_route_capacity := capacity,
       mx_routes := mx_routes m @ [\<lparr>rr_name = snprintf_cut ROUTE_NAME_SIZE name,
                                    rr_requests = 1, rr_errors = error_unit status\<rparr>]\<rparr>"

definition metalbear_metrics_record_request ::
  "bool \<Rightarrow> string option \<Rightarrow> string option \<Rightarrow> 32 word \<Rightarrow> metrics \<Rightarrow> metrics" where
  "metalbear_metrics_record_request realloc_ok nsid path status m =
     (let name = route_label nsid path
      in case find_route name (mx_routes m) of
           Some i \<Rightarrow>
             let row = mx_routes m ! i
             in m\<lparr>mx_routes := (mx_routes m)
                    [i := row\<lparr>rr_requests := rr_requests row + 1,
                              rr_errors := rr_errors row + error_unit status\<rparr>]\<rparr>
         | None \<Rightarrow>
             if length (mx_routes m) = METALBEAR_METRICS_MAX_ROUTES then metrics_overflow m status
             else if length (mx_routes m) = mx_route_capacity m
             then (case grow_routes_locked realloc_ok (mx_route_capacity m) of
                     None \<Rightarrow> metrics_overflow m status
                   | Some new_cap \<Rightarrow> add_route m new_cap name status)
             else add_route m (mx_route_capacity m) name status)"

text \<open>The calls of the visitor, in order.\<close>

definition metalbear_metrics_visit_routes ::
  "metrics \<Rightarrow> (string \<times> 64 word \<times> 64 word) list" where
  "metalbear_metrics_visit_routes m =
     map (\<lambda>r. (rr_name r, rr_requests r, rr_errors r)) (mx_routes m) @
     (if mx_overflow_requests m \<noteq> 0
      then [(''other'', mx_overflow_requests m, mx_overflow_errors m)] else [])"

definition metalbear_metrics_reset :: "metrics \<Rightarrow> metrics" where
  "metalbear_metrics_reset m =
     m\<lparr>mx_counters := replicate (nat METALBEAR_METRIC_COUNT) 0, mx_routes := [],
       mx_route_capacity := 0, mx_overflow_requests := 0, mx_overflow_errors := 0\<rparr>"

section \<open>Counters: laws\<close>

definition metrics_ok :: "metrics \<Rightarrow> bool" where
  "metrics_ok m \<longleftrightarrow>
     length (mx_counters m) = nat METALBEAR_METRIC_COUNT \<and>
     length (mx_routes m) \<le> mx_route_capacity m \<and>
     mx_route_capacity m \<le> METALBEAR_METRICS_MAX_ROUTES \<and>
     (\<forall>r \<in> set (mx_routes m). length (rr_name r) < ROUTE_NAME_SIZE)"

lemma metrics_ok_start: "metrics_ok metrics_start"
  by (simp add: metrics_ok_def metrics_start_def)

lemma metrics_ok_inc: "metrics_ok m \<Longrightarrow> metrics_ok (metalbear_metrics_inc m k)"
  by (simp add: metrics_ok_def metalbear_metrics_inc_def)

lemma metrics_ok_reset: "metrics_ok (metalbear_metrics_reset m)"
  by (simp add: metrics_ok_def metalbear_metrics_reset_def)

lemma metrics_get_inc:
  "metrics_ok m \<Longrightarrow>
   metalbear_metrics_get (metalbear_metrics_inc m j) k =
     metalbear_metrics_get m k +
       (if j = k \<and> 0 \<le> k \<and> k < METALBEAR_METRIC_COUNT then 1 else 0)"
  by (auto simp: metalbear_metrics_get_def metalbear_metrics_inc_def metrics_ok_def
      nth_list_update)

section \<open>The route table: laws\<close>

lemma find_route_None: "find_route name rs = None \<longleftrightarrow> name \<notin> rr_name ` set rs"
  by (induction rs) auto

lemma find_route_SomeD:
  "find_route name rs = Some i \<Longrightarrow> i < length rs \<and> rr_name (rs ! i) = name"
  by (induction rs arbitrary: i) (auto split: if_splits)

lemma grow_routes_locked_SomeD:
  "grow_routes_locked ok c = Some c' \<Longrightarrow> c < c' \<and> c' \<le> METALBEAR_METRICS_MAX_ROUTES"
  by (auto simp: grow_routes_locked_def Let_def split: if_splits)

lemma grow_routes_locked_True:
  "c < METALBEAR_METRICS_MAX_ROUTES \<Longrightarrow> \<exists>c'. grow_routes_locked True c = Some c'"
  by (auto simp: grow_routes_locked_def Let_def METALBEAR_METRICS_MAX_ROUTES_def)

text \<open>The three outcomes of recording a request.\<close>

lemma record_request_cases:
  assumes "metrics_ok m"
  obtains (bump) i where "i < length (mx_routes m)"
      and "rr_name (mx_routes m ! i) = route_label nsid path"
      and "find_route (route_label nsid path) (mx_routes m) = Some i"
      and "metalbear_metrics_record_request ok nsid path status m =
        m\<lparr>mx_routes := (mx_routes m)[i := (mx_routes m ! i)
            \<lparr>rr_requests := rr_requests (mx_routes m ! i) + 1,
             rr_errors := rr_errors (mx_routes m ! i) + error_unit status\<rparr>]\<rparr>"
  | (spill) "route_label nsid path \<notin> rr_name ` set (mx_routes m)"
      and "ok \<Longrightarrow> length (mx_routes m) = METALBEAR_METRICS_MAX_ROUTES"
      and "metalbear_metrics_record_request ok nsid path status m = metrics_overflow m status"
  | (fresh) c where "route_label nsid path \<notin> rr_name ` set (mx_routes m)"
      and "length (mx_routes m) < c" and "c \<le> METALBEAR_METRICS_MAX_ROUTES"
      and "metalbear_metrics_record_request ok nsid path status m =
        add_route m c (route_label nsid path) status"
proof (cases "find_route (route_label nsid path) (mx_routes m)")
  case (Some i)
  then show thesis
    using bump [of i] find_route_SomeD [OF Some]
    by (simp add: metalbear_metrics_record_request_def Let_def)
next
  case None
  then have new: "route_label nsid path \<notin> rr_name ` set (mx_routes m)"
    by (simp add: find_route_None)
  have len: "length (mx_routes m) \<le> mx_route_capacity m"
    "mx_route_capacity m \<le> METALBEAR_METRICS_MAX_ROUTES"
    using assms by (simp_all add: metrics_ok_def)
  consider (full) "length (mx_routes m) = METALBEAR_METRICS_MAX_ROUTES"
    | (grow) "length (mx_routes m) \<noteq> METALBEAR_METRICS_MAX_ROUTES"
        "length (mx_routes m) = mx_route_capacity m"
    | (room) "length (mx_routes m) \<noteq> METALBEAR_METRICS_MAX_ROUTES"
        "length (mx_routes m) \<noteq> mx_route_capacity m" by blast
  then show thesis
  proof cases
    case full
    then show thesis
      using new None spill by (simp add: metalbear_metrics_record_request_def)
  next
    case room
    then show thesis
      using new None len fresh [of "mx_route_capacity m"]
      by (simp add: metalbear_metrics_record_request_def)
  next
    case grow
    show thesis
    proof (cases "grow_routes_locked ok (mx_route_capacity m)")
      case (Some c)
      then show thesis
        using new None len grow fresh [of c] grow_routes_locked_SomeD [OF Some]
        by (simp add: metalbear_metrics_record_request_def)
    next
      case no_room: None
      have "\<not> ok"
        using no_room grow len grow_routes_locked_True [of "mx_route_capacity m"] by auto
      then show thesis
        using new None grow no_room spill by (simp add: metalbear_metrics_record_request_def)
    qed
  qed
qed

lemma metrics_ok_record:
  assumes "metrics_ok m"
  shows "metrics_ok (metalbear_metrics_record_request ok nsid path status m)"
proof (rule record_request_cases [OF assms, of nsid path ok status], goal_cases bump spill fresh)
  case (bump i)
  have "length (rr_name (mx_routes m ! i)) < ROUTE_NAME_SIZE"
    using assms bump(1) by (simp add: metrics_ok_def)
  then show ?thesis
    using assms bump by (auto simp: metrics_ok_def dest!: set_update_subset_insert [THEN subsetD])
next
  case spill
  then show ?thesis using assms by (simp add: metrics_ok_def metrics_overflow_def)
next
  case (fresh c)
  then show ?thesis
    using assms
    by (auto simp: metrics_ok_def add_route_def ROUTE_NAME_SIZE_def intro: snprintf_cut_length)
qed

definition recorded_total :: "metrics \<Rightarrow> 64 word" where
  "recorded_total m = sum_list (map rr_requests (mx_routes m)) + mx_overflow_requests m"

definition failed_total :: "metrics \<Rightarrow> 64 word" where
  "failed_total m = sum_list (map rr_errors (mx_routes m)) + mx_overflow_errors m"

lemma sum_list_bump:
  fixes f :: "'a \<Rightarrow> 'b::comm_monoid_add"
  shows "i < length xs \<Longrightarrow> f y = f (xs ! i) + d \<Longrightarrow>
         sum_list (map f (xs[i := y])) = sum_list (map f xs) + d"
proof (induction xs arbitrary: i)
  case (Cons x xs)
  then show ?case by (cases i) (simp_all add: ac_simps)
qed simp

lemma recorded_total_record:
  assumes "metrics_ok m"
  shows "recorded_total (metalbear_metrics_record_request ok nsid path status m) = recorded_total m + 1"
    and "failed_total (metalbear_metrics_record_request ok nsid path status m)
           = failed_total m + error_unit status"
proof -
  note cases = record_request_cases [OF assms, of nsid path ok status]
  show "recorded_total (metalbear_metrics_record_request ok nsid path status m) = recorded_total m + 1"
    by (cases rule: cases)
      (simp_all add: recorded_total_def metrics_overflow_def add_route_def
        sum_list_bump [where d = 1] ac_simps)
  show "failed_total (metalbear_metrics_record_request ok nsid path status m)
      = failed_total m + error_unit status"
    by (cases rule: cases)
      (simp_all add: failed_total_def metrics_overflow_def add_route_def
        sum_list_bump [where d = "error_unit status"] ac_simps)
qed

section \<open>Runs\<close>

text \<open>A finished request as the server reports it, with the outcome of the allocator.\<close>

record finished_request =
  fr_nsid :: "string option"
  fr_path :: "string option"
  fr_status :: "32 word"
  fr_realloc_ok :: bool

abbreviation fr_name :: "finished_request \<Rightarrow> string" where
  "fr_name r \<equiv> route_label (fr_nsid r) (fr_path r)"

definition record_one :: "finished_request \<Rightarrow> metrics \<Rightarrow> metrics" where
  "record_one r =
     metalbear_metrics_record_request (fr_realloc_ok r) (fr_nsid r) (fr_path r) (fr_status r)"

definition record_all :: "finished_request list \<Rightarrow> metrics" where
  "record_all rs = fold record_one rs metrics_start"

lemma record_all_snoc: "record_all (rs @ [r]) = record_one r (record_all rs)"
  by (simp add: record_all_def)

lemma metrics_ok_record_all: "metrics_ok (record_all rs)"
  proof (induction rs rule: rev_induct)
  case Nil
  then show ?case by (simp add: record_all_def metrics_ok_start)
next
  case (snoc r rs)
  then show ?case by (simp add: record_all_snoc record_one_def metrics_ok_record)
qed

section \<open>What the table reports\<close>

text \<open>The names in the order they first appear.\<close>

definition first_seen :: "'a list \<Rightarrow> 'a list" where
  "first_seen xs = rev (remdups (rev xs))"

definition tracked :: "finished_request list \<Rightarrow> string list" where
  "tracked rs = take METALBEAR_METRICS_MAX_ROUTES (first_seen (map fr_name rs))"

definition row_of :: "finished_request list \<Rightarrow> string \<Rightarrow> route_row" where
  "row_of rs n =
     \<lparr>rr_name = n,
      rr_requests = of_nat (length (filter (\<lambda>r. fr_name r = n) rs)),
      rr_errors = of_nat (length (filter (\<lambda>r. fr_name r = n \<and> fr_status r \<ge> 400) rs))\<rparr>"

lemma first_seen_snoc:
  "first_seen (xs @ [x]) = (if x \<in> set xs then first_seen xs else first_seen xs @ [x])"
  by (simp add: first_seen_def)

lemma set_first_seen [simp]: "set (first_seen xs) = set xs"
  by (simp add: first_seen_def)

lemma distinct_first_seen [simp]: "distinct (first_seen xs)"
  by (simp add: first_seen_def)

lemma distinct_tracked: "distinct (tracked rs)"
  by (simp add: tracked_def)

lemma set_tracked: "set (tracked rs) \<subseteq> fr_name ` set rs"
  using set_take_subset [of METALBEAR_METRICS_MAX_ROUTES "first_seen (map fr_name rs)"]
  by (auto simp: tracked_def)

lemma tracked_snoc_old:
  "fr_name r \<in> set (tracked rs) \<or> length (tracked rs) = METALBEAR_METRICS_MAX_ROUTES \<Longrightarrow>
   tracked (rs @ [r]) = tracked rs"
  using set_tracked [of rs]
  by (auto simp: tracked_def first_seen_snoc min_def split: if_splits)

lemma tracked_snoc_new:
  assumes "fr_name r \<notin> set (tracked rs)" and "length (tracked rs) < METALBEAR_METRICS_MAX_ROUTES"
  shows "tracked (rs @ [r]) = tracked rs @ [fr_name r]"
proof -
  have "length (first_seen (map fr_name rs)) < METALBEAR_METRICS_MAX_ROUTES"
    using assms(2) by (simp add: tracked_def)
  then show ?thesis
    using assms by (auto simp: tracked_def first_seen_snoc)
qed

lemma row_of_snoc:
  "row_of (rs @ [r]) n =
     (if fr_name r = n
      then (row_of rs n)\<lparr>rr_requests := rr_requests (row_of rs n) + 1,
                         rr_errors := rr_errors (row_of rs n) + error_unit (fr_status r)\<rparr>
      else row_of rs n)"
  by (simp add: row_of_def)

lemma row_of_new: "n \<notin> fr_name ` set rs \<Longrightarrow> row_of rs n = \<lparr>rr_name = n, rr_requests = 0, rr_errors = 0\<rparr>"
  by (induction rs) (auto simp: row_of_def)

lemma rr_name_row_of [simp]: "rr_name (row_of rs n) = n"
  by (simp add: row_of_def)

lemma rows_bump:
  assumes "distinct ns" and "i < length ns" and "ns ! i = fr_name r"
  shows "map (row_of (rs @ [r])) ns =
    (map (row_of rs) ns)[i := row_of (rs @ [r]) (fr_name r)]"
proof (rule nth_equalityI)
  fix k assume "k < length (map (row_of (rs @ [r])) ns)"
  then have "k < length ns" by simp
  moreover have "k \<noteq> i \<Longrightarrow> ns ! k \<noteq> fr_name r"
    using assms calculation by (metis nth_eq_iff_index_eq)
  ultimately show "map (row_of (rs @ [r])) ns ! k =
      (map (row_of rs) ns)[i := row_of (rs @ [r]) (fr_name r)] ! k"
    using assms(2,3) by (cases "k = i") (auto simp: row_of_snoc)
qed simp

lemma rows_fresh:
  assumes "fr_name r \<notin> set ns"
  shows "map (row_of (rs @ [r])) ns = map (row_of rs) ns"
  using assms by (auto simp: row_of_snoc)

lemma routes_exact:
  assumes "\<forall>r \<in> set rs. length (fr_name r) < ROUTE_NAME_SIZE \<and> fr_realloc_ok r"
  shows "mx_routes (record_all rs) = map (row_of rs) (tracked rs)"
  using assms
proof (induction rs rule: rev_induct)
  case Nil
  then show ?case by (simp add: record_all_def metrics_start_def tracked_def first_seen_def)
next
  case (snoc r rs)
  let ?m = "record_all rs"
  have IH: "mx_routes ?m = map (row_of rs) (tracked rs)" using snoc by simp
  have short: "length (fr_name r) < ROUTE_NAME_SIZE" and ok: "fr_realloc_ok r"
    using snoc.prems by simp_all
  have names: "rr_name ` set (mx_routes ?m) = set (tracked rs)"
    by (simp add: IH image_image)
  show ?case
  proof (rule record_request_cases [OF metrics_ok_record_all [of rs],
      of "fr_nsid r" "fr_path r" "fr_realloc_ok r" "fr_status r"], goal_cases bump spill fresh)
    case (bump i)
    have i: "i < length (tracked rs)" "tracked rs ! i = fr_name r"
      using bump(1,2) by (auto simp: IH)
    then have same: "tracked (rs @ [r]) = tracked rs"
      by (metis nth_mem tracked_snoc_old)
    have "mx_routes (record_one r ?m) =
        (map (row_of rs) (tracked rs))[i := row_of (rs @ [r]) (fr_name r)]"
      using bump(4) i by (simp add: record_one_def row_of_snoc IH)
    then show ?thesis
      by (simp only: record_all_snoc same rows_bump [OF distinct_tracked i, of rs])
  next
    case spill
    then have "fr_name r \<notin> set (tracked rs)" "tracked (rs @ [r]) = tracked rs"
      using ok names IH tracked_snoc_old by simp_all
    then show ?thesis
      using spill(3) rows_fresh
      by (simp add: record_all_snoc record_one_def metrics_overflow_def IH)
  next
    case (fresh c)
    then have new: "fr_name r \<notin> set (tracked rs)" and room: "length (tracked rs) < METALBEAR_METRICS_MAX_ROUTES"
      using names IH by simp_all
    then have "tracked rs = first_seen (map fr_name rs)"
      by (auto simp: tracked_def)
    then have "row_of rs (fr_name r) = \<lparr>rr_name = fr_name r, rr_requests = 0, rr_errors = 0\<rparr>"
      using new by (intro row_of_new) simp
    moreover have "map (row_of (rs @ [r])) (tracked rs) = map (row_of rs) (tracked rs)"
      using new by (rule rows_fresh)
    ultimately show ?thesis
      using fresh(4) short
      by (simp add: record_all_snoc record_one_def add_route_def IH tracked_snoc_new [OF new room]
          row_of_snoc)
  qed
qed

section \<open>Properties\<close>

text \<open>After any run of finished requests the rows of the route table and the overflow
  counters add up to the requests, and to the failed requests, that were recorded (modulo the
  64-bit width), the rows never outgrow the allocation or the cap of 4096, and every stored name
  fits its 128-byte buffer.\<close>

theorem metrics_accounting:
  "metrics_ok (record_all rs) \<and>
   length (mx_routes (record_all rs)) \<le> METALBEAR_METRICS_MAX_ROUTES \<and>
   recorded_total (record_all rs) = of_nat (length rs) \<and>
   failed_total (record_all rs) = of_nat (length (filter (\<lambda>r. fr_status r \<ge> 400) rs))"
proof -
  have "recorded_total (record_all rs) = of_nat (length rs) \<and>
    failed_total (record_all rs) = of_nat (length (filter (\<lambda>r. fr_status r \<ge> 400) rs))"
  proof (induction rs rule: rev_induct)
    case Nil
    then show ?case
      by (simp add: record_all_def metrics_start_def recorded_total_def failed_total_def)
  next
    case (snoc r rs)
    then show ?case
      by (simp add: record_all_snoc record_one_def recorded_total_record [OF metrics_ok_record_all])
  qed
  then show ?thesis
    using metrics_ok_record_all [of rs] by (simp add: metrics_ok_def)
qed

text \<open>When the route names fit their buffer and the table can be grown, it is the reference
  table: one row for each of the first 4096 distinct names, in order of first appearance, with
  exactly the requests and the failures of that name.\<close>

theorem metrics_routes_exact:
  assumes "\<forall>r \<in> set rs. length (fr_name r) < ROUTE_NAME_SIZE \<and> fr_realloc_ok r"
  shows "mx_routes (record_all rs) = map (row_of rs) (tracked rs) \<and> distinct (tracked rs) \<and>
         (length (first_seen (map fr_name rs)) \<le> METALBEAR_METRICS_MAX_ROUTES \<longrightarrow>
            set (tracked rs) = fr_name ` set rs)"
  using routes_exact [OF assms] by (simp add: distinct_tracked tracked_def)

theorem metrics_routes_exact_witness:
  "mx_routes (record_all
     [\<lparr>fr_nsid = Some ''a.b.c'', fr_path = None, fr_status = 200, fr_realloc_ok = True\<rparr>,
      \<lparr>fr_nsid = Some '''', fr_path = Some ''/x'', fr_status = 404, fr_realloc_ok = True\<rparr>,
      \<lparr>fr_nsid = Some ''a.b.c'', fr_path = None, fr_status = 500, fr_realloc_ok = True\<rparr>]) =
   [\<lparr>rr_name = ''a.b.c'', rr_requests = 2, rr_errors = 1\<rparr>,
    \<lparr>rr_name = ''/x'', rr_requests = 1, rr_errors = 1\<rparr>]"
  by (subst metrics_routes_exact [THEN conjunct1])
    (simp_all add: tracked_def first_seen_def row_of_def route_label_def ROUTE_NAME_SIZE_def
      METALBEAR_METRICS_MAX_ROUTES_def)

text \<open>A name longer than the buffer never matches the truncated copy stored for it: every
  request under it takes a new row, so that as many such requests as the table has rows left
  fill the table.\<close>

theorem metrics_long_name_rows:
  assumes "length name \<ge> ROUTE_NAME_SIZE" and "k \<le> METALBEAR_METRICS_MAX_ROUTES"
  shows "map rr_name (mx_routes (record_all (replicate k
           \<lparr>fr_nsid = None, fr_path = Some name, fr_status = st, fr_realloc_ok = True\<rparr>))) =
         replicate k (take (ROUTE_NAME_SIZE - 1) name)"
  using assms(2)
proof (induction k)
  case 0
  then show ?case by (simp add: record_all_def metrics_start_def)
next
  case (Suc k)
  let ?r = "\<lparr>fr_nsid = None, fr_path = Some name, fr_status = st, fr_realloc_ok = True\<rparr>"
  let ?m = "record_all (replicate k ?r)"
  have label: "route_label None (Some name) = name"
    using assms(1) by (auto simp: route_label_def ROUTE_NAME_SIZE_def)
  have IH: "map rr_name (mx_routes ?m) = replicate k (take (ROUTE_NAME_SIZE - 1) name)"
    using Suc by simp
  then have len: "length (mx_routes ?m) = k" by (metis length_map length_replicate)
  have absent: "name \<notin> rr_name ` set (mx_routes ?m)"
  proof
    assume "name \<in> rr_name ` set (mx_routes ?m)"
    then have "length name < ROUTE_NAME_SIZE"
      using metrics_ok_record_all [of "replicate k ?r"] by (auto simp: metrics_ok_def)
    then show False using assms(1) by simp
  qed
  have run: "record_all (replicate (Suc k) ?r) = record_one ?r ?m"
    by (metis record_all_snoc replicate_Suc replicate_append_same)
  show ?case
  proof (rule record_request_cases [OF metrics_ok_record_all [of "replicate k ?r"],
      of None "Some name" True st], goal_cases bump spill fresh)
    case (bump i)
    then show ?thesis using absent by (metis label image_eqI nth_mem)
  next
    case spill
    then show ?thesis using len Suc.prems by simp
  next
    case (fresh c)
    then show ?thesis
      unfolding run record_one_def
      by (simp add: add_route_def IH label snprintf_cut_def replicate_append_same)
  qed
qed

theorem metrics_long_name_rows_witness:
  "length (mx_routes (record_all (replicate 3
     \<lparr>fr_nsid = None, fr_path = Some (replicate 130 CHR ''a''), fr_status = 404,
      fr_realloc_ok = True\<rparr>))) = 3"
  using metrics_long_name_rows [of "replicate 130 CHR ''a''" 3 404, THEN arg_cong [where f = length]]
  by (simp add: ROUTE_NAME_SIZE_def METALBEAR_METRICS_MAX_ROUTES_def)

end
