(* ===== verification/Sequencer.thy ===== *)
theory Sequencer
  imports MB_Prelude Ops_Metrics
begin

text \<open>
  \<open>src/sequencer.c\<close>: the host-wide firehose log, its retention, and the subscribers that
  follow it. The SQLite file is the record \<open>event_log\<close>: the \<open>events\<close> table in
  the order of its key, the high-water mark AUTOINCREMENT keeps in \<open>sqlite_sequence\<close>, the
  \<open>pruned_through\<close> row of \<open>meta\<close>. A statement that may fail takes its outcome from
  an argument; a failed transaction is rolled back. The frame codec is Wolfram's
  (\<open>wf_sync_publish_event\<close>, \<open>wf_sync_publish_error\<close>,
  \<open>wf_subscribe_decode_frame\<close>) and is an argument, as are the widths of Wolfram's text
  buffers. Sequence numbers are 64-bit integers in the code; the model keeps them as \<open>int\<close>,
  and an insertion past the largest rowid fails as SQLite's does.
\<close>

section \<open>Events\<close>

record repo_op =
  op_action :: string
  op_path :: string
  op_cid :: "string option"
  op_prev :: "string option"

record commit_event =
  co_seq :: int
  co_did :: string
  co_time :: string
  co_rev :: string
  co_since :: string
  co_commit_cid :: string
  co_blocks :: "byte list"
  co_prev_data :: "string option"
  co_ops :: "repo_op list"

record sync_event =
  sy_seq :: int
  sy_did :: string
  sy_time :: string
  sy_rev :: string
  sy_blocks :: "byte list"

record identity_event =
  ie_seq :: int
  ie_did :: string
  ie_time :: string
  ie_handle :: "string option"

record account_event =
  ae_seq :: int
  ae_did :: string
  ae_time :: string
  ae_active :: bool
  ae_status :: "string option"

record info_event =
  in_name :: string
  in_message :: "string option"

datatype subscribe_event =
    WF_SUBSCRIBE_EVENT_COMMIT commit_event
  | WF_SUBSCRIBE_EVENT_SYNC sync_event
  | WF_SUBSCRIBE_EVENT_IDENTITY identity_event
  | WF_SUBSCRIBE_EVENT_ACCOUNT account_event
  | WF_SUBSCRIBE_EVENT_INFO info_event

text \<open>The sizes of the text buffers of Wolfram's event structures.\<close>

record wf_sizes =
  sz_commit_did :: nat
  sz_commit_rev :: nat
  sz_commit_since :: nat
  sz_commit_time :: nat
  sz_sync_did :: nat
  sz_sync_rev :: nat
  sz_sync_time :: nat
  sz_identity_did :: nat
  sz_identity_handle :: nat
  sz_identity_time :: nat
  sz_account_did :: nat
  sz_account_status :: nat
  sz_account_time :: nat
  sz_info_name :: nat
  sz_info_message :: nat
  sz_op_action :: nat

definition event_did :: "subscribe_event \<Rightarrow> string option" where
  "event_did event =
     (case event of
        WF_SUBSCRIBE_EVENT_COMMIT c \<Rightarrow> Some (co_did c)
      | WF_SUBSCRIBE_EVENT_SYNC c \<Rightarrow> Some (sy_did c)
      | WF_SUBSCRIBE_EVENT_IDENTITY c \<Rightarrow> Some (ie_did c)
      | WF_SUBSCRIBE_EVENT_ACCOUNT c \<Rightarrow> Some (ae_did c)
      | _ \<Rightarrow> None)"

text \<open>The second switch of \<open>append_event\<close>: the event with its sequence number and time,
  \<open>None\<close> for the kinds that are never appended.\<close>

definition stamp_event ::
  "wf_sizes \<Rightarrow> int \<Rightarrow> string \<Rightarrow> subscribe_event \<Rightarrow> subscribe_event option" where
  "stamp_event sz seq now event =
     (case event of
        WF_SUBSCRIBE_EVENT_COMMIT c \<Rightarrow>
          Some (WF_SUBSCRIBE_EVENT_COMMIT
            (c\<lparr>co_seq := seq, co_time := snprintf_cut (sz_commit_time sz) now\<rparr>))
      | WF_SUBSCRIBE_EVENT_SYNC c \<Rightarrow>
          Some (WF_SUBSCRIBE_EVENT_SYNC
            (c\<lparr>sy_seq := seq, sy_time := snprintf_cut (sz_sync_time sz) now\<rparr>))
      | WF_SUBSCRIBE_EVENT_IDENTITY c \<Rightarrow>
          Some (WF_SUBSCRIBE_EVENT_IDENTITY
            (c\<lparr>ie_seq := seq, ie_time := snprintf_cut (sz_identity_time sz) now\<rparr>))
      | WF_SUBSCRIBE_EVENT_ACCOUNT c \<Rightarrow>
          Some (WF_SUBSCRIBE_EVENT_ACCOUNT
            (c\<lparr>ae_seq := seq, ae_time := snprintf_cut (sz_account_time sz) now\<rparr>))
      | _ \<Rightarrow> None)"

section \<open>The log\<close>

record event_row =
  ev_seq :: int
  ev_frame :: "byte list"
  ev_created_at :: string
  ev_did :: "string option"

record event_log =
  lg_events :: "event_row list"
  lg_sequence :: int
  lg_pruned_through :: "int option"
  lg_has_did :: bool

record sequencer =
  sq_log :: event_log
  sq_closing :: bool
  sq_active_subscribers :: nat
  sq_notify :: bool
  sq_notified :: nat
  sq_metrics :: metrics

definition metalbear_sequencer_set_notify :: "sequencer \<Rightarrow> bool \<Rightarrow> sequencer" where
  "metalbear_sequencer_set_notify s cb = s\<lparr>sq_notify := cb\<rparr>"

definition SQLITE_MAX_ROWID :: int where
  "SQLITE_MAX_ROWID = 2 ^ 63 - 1"

text \<open>\<open>SELECT COALESCE(MAX(seq),0) FROM events\<close>, 0 when the query fails.\<close>

definition current_locked :: "bool \<Rightarrow> event_log \<Rightarrow> int" where
  "current_locked query_ok lg =
     (if query_ok \<and> lg_events lg \<noteq> [] then Max (ev_seq ` set (lg_events lg)) else 0)"

definition pruned_through :: "bool \<Rightarrow> event_log \<Rightarrow> int" where
  "pruned_through query_ok lg =
     (if query_ok then (case lg_pruned_through lg of Some v \<Rightarrow> v | None \<Rightarrow> 0) else 0)"

text \<open>The rowid an AUTOINCREMENT table gives the next row.\<close>

definition next_rowid :: "event_log \<Rightarrow> int" where
  "next_rowid lg = max (lg_sequence lg) (current_locked True lg) + 1"

definition insert_row :: "event_row \<Rightarrow> event_log \<Rightarrow> event_log" where
  "insert_row r lg =
     lg\<lparr>lg_events := insort_key ev_seq r (lg_events lg),
        lg_sequence := max (lg_sequence lg) (ev_seq r)\<rparr>"

definition set_frame :: "int \<Rightarrow> byte list \<Rightarrow> event_log \<Rightarrow> event_log" where
  "set_frame seq frame lg =
     lg\<lparr>lg_events := map (\<lambda>r. if ev_seq r = seq then r\<lparr>ev_frame := frame\<rparr> else r) (lg_events lg)\<rparr>"

section \<open>Appending\<close>

text \<open>The outcomes of the SQLite calls of one append, and the clock.\<close>

record append_env =
  ap_begin_ok :: bool
  ap_insert_ok :: bool
  ap_update_ok :: bool
  ap_commit_ok :: bool
  ap_now :: string

type_synonym publisher = "subscribe_event \<Rightarrow> wf_status + byte list"

text \<open>The transaction of \<open>append_event\<close>: the committed log, or the status it rolls back with.\<close>

definition append_transaction ::
  "wf_sizes \<Rightarrow> publisher \<Rightarrow> append_env \<Rightarrow> subscribe_event \<Rightarrow> event_log \<Rightarrow> wf_status + event_log" where
  "append_transaction sz publish env event lg =
     (let seq = next_rowid lg;
          did = (case event_did event of
                   Some d \<Rightarrow> if d \<noteq> [] then Some d else None
                 | None \<Rightarrow> None)
      in if \<not> ap_insert_ok env \<or> seq > SQLITE_MAX_ROWID then Inl WF_ERR_INTERNAL
         else
           let inserted = insert_row \<lparr>ev_seq = seq, ev_frame = [], ev_created_at = ap_now env,
                                      ev_did = did\<rparr> lg
           in case stamp_event sz seq (ap_now env) event of
                None \<Rightarrow> Inl WF_ERR_INTERNAL
              | Some stamped \<Rightarrow>
                  (case publish stamped of
                     Inl status \<Rightarrow> Inl status
                   | Inr frame \<Rightarrow>
                       if \<not> ap_update_ok env then Inl WF_ERR_INTERNAL
                       else if \<not> ap_commit_ok env then Inl WF_ERR_INTERNAL
                       else Inr (set_frame seq frame inserted)))"

definition is_commit_event :: "subscribe_event \<Rightarrow> bool" where
  "is_commit_event event = (case event of WF_SUBSCRIBE_EVENT_COMMIT _ \<Rightarrow> True | _ \<Rightarrow> False)"

definition append_event ::
  "wf_sizes \<Rightarrow> publisher \<Rightarrow> append_env \<Rightarrow> subscribe_event \<Rightarrow> sequencer \<Rightarrow> wf_status \<times> sequencer" where
  "append_event sz publish env event s =
     (if sq_closing s \<or> \<not> ap_begin_ok env then (WF_ERR_INTERNAL, s)
      else case append_transaction sz publish env event (sq_log s) of
             Inl status \<Rightarrow> (status, s)
           | Inr lg \<Rightarrow>
               (WF_OK,
                s\<lparr>sq_log := lg,
                  sq_metrics := (if is_commit_event event
                                 then metalbear_metrics_inc (sq_metrics s) 7 else sq_metrics s),
                  sq_notified := (if sq_notify s then sq_notified s + 1 else sq_notified s)\<rparr>))"

definition metalbear_sequencer_account_status ::
  "wf_sizes \<Rightarrow> publisher \<Rightarrow> append_env \<Rightarrow> string option \<Rightarrow> bool \<Rightarrow> string option \<Rightarrow>
   sequencer \<Rightarrow> wf_status \<times> sequencer" where
  "metalbear_sequencer_account_status sz publish env did active status_text s =
     (case did of
        None \<Rightarrow> (WF_ERR_INVALID_ARG, s)
      | Some d \<Rightarrow>
          append_event sz publish env
            (WF_SUBSCRIBE_EVENT_ACCOUNT
               \<lparr>ae_seq = 0, ae_did = snprintf_cut (sz_account_did sz) d, ae_time = [],
                ae_active = active,
                ae_status = (case status_text of
                               Some t \<Rightarrow> if t \<noteq> [] then Some (snprintf_cut (sz_account_status sz) t)
                                         else None
                             | None \<Rightarrow> None)\<rparr>) s)"

definition metalbear_sequencer_identity ::
  "wf_sizes \<Rightarrow> publisher \<Rightarrow> append_env \<Rightarrow> string option \<Rightarrow> string option \<Rightarrow>
   sequencer \<Rightarrow> wf_status \<times> sequencer" where
  "metalbear_sequencer_identity sz publish env did handle s =
     (case (did, handle) of
        (Some d, Some h) \<Rightarrow>
          if h = [] then (WF_ERR_INVALID_ARG, s)
          else append_event sz publish env
                 (WF_SUBSCRIBE_EVENT_IDENTITY
                    \<lparr>ie_seq = 0, ie_did = snprintf_cut (sz_identity_did sz) d, ie_time = [],
                     ie_handle = Some (snprintf_cut (sz_identity_handle sz) h)\<rparr>) s
      | _ \<Rightarrow> (WF_ERR_INVALID_ARG, s))"

text \<open>The repository store, as far as the sequencer asks it: the DID, the head revision (or the
  status of the lookup) and the exported commit.\<close>

record repo_view =
  rv_did :: string
  rv_head :: "wf_status + string"
  rv_export :: "wf_status + byte list"

definition sync_of :: "wf_sizes \<Rightarrow> string \<Rightarrow> string \<Rightarrow> byte list \<Rightarrow> subscribe_event" where
  "sync_of sz did hrev blocks =
     WF_SUBSCRIBE_EVENT_SYNC
       \<lparr>sy_seq = 0, sy_did = snprintf_cut (sz_sync_did sz) did, sy_time = [],
        sy_rev = snprintf_cut (sz_sync_rev sz) hrev, sy_blocks = blocks\<rparr>"

definition metalbear_sequencer_account_activation ::
  "wf_sizes \<Rightarrow> publisher \<Rightarrow> append_env \<Rightarrow> append_env \<Rightarrow> append_env \<Rightarrow>
   string option \<Rightarrow> string option \<Rightarrow> repo_view \<Rightarrow> sequencer \<Rightarrow> wf_status \<times> sequencer" where
  "metalbear_sequencer_account_activation sz publish env1 env2 env3 did handle repo s =
     (case (did, handle) of
        (Some d, Some h) \<Rightarrow>
          (case metalbear_sequencer_identity sz publish env1 did handle s of
             (status1, s1) \<Rightarrow>
               if status1 \<noteq> WF_OK then (status1, s1)
               else (case metalbear_sequencer_account_status sz publish env2 did True None s1 of
                       (status2, s2) \<Rightarrow>
                         if status2 \<noteq> WF_OK then (status2, s2)
                         else (case rv_head repo of
                                 Inl status3 \<Rightarrow>
                                   if status3 = WF_ERR_NOT_FOUND then (WF_OK, s2) else (status3, s2)
                               | Inr hrev \<Rightarrow>
                                   (case rv_export repo of
                                      Inl status4 \<Rightarrow> (status4, s2)
                                    | Inr blocks \<Rightarrow>
                                        append_event sz publish env3 (sync_of sz d hrev blocks) s2))))
      | _ \<Rightarrow> (WF_ERR_INVALID_ARG, s))"

section \<open>Repository events\<close>

record store_op =
  so_action :: "string option"
  so_collection :: "string option"
  so_rkey :: "string option"
  so_cid :: "string option"
  so_prev :: "string option"

record store_event =
  se_is_sync :: bool
  se_did :: string
  se_rev :: string
  se_since :: "string option"
  se_commit_cid :: string
  se_blocks :: "byte list"
  se_prev_data :: "string option"
  se_ops :: "store_op list"

definition OP_PATH_SIZE :: nat where
  "OP_PATH_SIZE = 512"

definition text_or_empty :: "string option \<Rightarrow> string" where
  "text_or_empty t = (case t of Some x \<Rightarrow> x | None \<Rightarrow> [])"

definition frame_op :: "wf_sizes \<Rightarrow> store_op \<Rightarrow> repo_op" where
  "frame_op sz src =
     \<lparr>op_action = snprintf_cut (sz_op_action sz) (text_or_empty (so_action src)),
      op_path = snprintf_cut OP_PATH_SIZE
                  (text_or_empty (so_collection src) @ ''/'' @ text_or_empty (so_rkey src)),
      op_cid = so_cid src, op_prev = so_prev src\<rparr>"

definition repo_event_frame :: "wf_sizes \<Rightarrow> store_event \<Rightarrow> subscribe_event" where
  "repo_event_frame sz e =
     (if se_is_sync e then sync_of sz (se_did e) (se_rev e) (se_blocks e)
      else WF_SUBSCRIBE_EVENT_COMMIT
             \<lparr>co_seq = 0, co_did = snprintf_cut (sz_commit_did sz) (se_did e), co_time = [],
              co_rev = snprintf_cut (sz_commit_rev sz) (se_rev e),
              co_since = (case se_since e of
                            Some r \<Rightarrow> snprintf_cut (sz_commit_since sz) r | None \<Rightarrow> []),
              co_commit_cid = se_commit_cid e, co_blocks = se_blocks e,
              co_prev_data = se_prev_data e, co_ops = map (frame_op sz) (se_ops e)\<rparr>)"

text \<open>The status of the append is only printed.\<close>

definition metalbear_sequencer_repo_event ::
  "wf_sizes \<Rightarrow> publisher \<Rightarrow> append_env \<Rightarrow> bool \<Rightarrow> store_event \<Rightarrow> sequencer \<Rightarrow> sequencer" where
  "metalbear_sequencer_repo_event sz publish env alloc_ok e s =
     (if \<not> se_is_sync e \<and> se_ops e \<noteq> [] \<and> \<not> alloc_ok then s
      else snd (append_event sz publish env (repo_event_frame sz e) s))"

section \<open>Opening\<close>

record seed_env =
  sd_count_ok :: bool
  sd_prepare_ok :: bool
  sd_insert_ok :: bool
  sd_delete_ok :: bool
  sd_time :: int

text \<open>The placeholder row is inserted at the clock's seconds and deleted again.\<close>

definition seed_sequence_floor :: "seed_env \<Rightarrow> event_log \<Rightarrow> event_log" where
  "seed_sequence_floor env lg =
     (let existing = (if sd_count_ok env then length (lg_events lg) else 0)
      in if existing > 0 then lg
         else if sd_time env \<le> 0 then lg
         else if \<not> sd_prepare_ok env then lg
         else if \<not> sd_insert_ok env \<or> sd_time env \<in> ev_seq ` set (lg_events lg) then lg
         else
           let placed = insert_row \<lparr>ev_seq = sd_time env, ev_frame = [], ev_created_at = [],
                                    ev_did = None\<rparr> lg
           in if sd_delete_ok env
              then placed\<lparr>lg_events := filter (\<lambda>r. \<not> (ev_frame r = [] \<and> ev_created_at r = []))
                                        (lg_events placed)\<rparr>
              else placed)"

definition add_did_column :: "bool \<Rightarrow> bool \<Rightarrow> event_log \<Rightarrow> wf_status \<times> event_log" where
  "add_did_column prepare_ok alter_ok lg =
     (if \<not> prepare_ok then (WF_ERR_INTERNAL, lg)
      else if lg_has_did lg then (WF_OK, lg)
      else if alter_ok then (WF_OK, lg\<lparr>lg_has_did := True\<rparr>)
      else (WF_ERR_INTERNAL, lg))"

definition empty_log :: event_log where
  "empty_log = \<lparr>lg_events = [], lg_sequence = 0, lg_pruned_through = None, lg_has_did = True\<rparr>"

record open_env =
  oe_open_ok :: bool
  oe_create_ok :: bool
  oe_info_ok :: bool
  oe_alter_ok :: bool
  oe_index_ok :: bool
  oe_seed :: seed_env

text \<open>\<open>file\<close> is what the path held, \<open>None\<close> for a new file.\<close>

definition metalbear_sequencer_open ::
  "open_env \<Rightarrow> metrics \<Rightarrow> event_log option \<Rightarrow> wf_status \<times> sequencer option" where
  "metalbear_sequencer_open env mx file =
     (let lg = (case file of Some l \<Rightarrow> l | None \<Rightarrow> empty_log)
      in if \<not> oe_open_ok env then (WF_ERR_INTERNAL, None)
         else if \<not> oe_create_ok env then (WF_ERR_INTERNAL, None)
         else (case add_did_column (oe_info_ok env) (oe_alter_ok env) lg of
                 (status, lg1) \<Rightarrow>
                   if status \<noteq> WF_OK then (WF_ERR_INTERNAL, None)
                   else if \<not> oe_index_ok env then (WF_ERR_INTERNAL, None)
                   else (WF_OK,
                         Some \<lparr>sq_log = seed_sequence_floor (oe_seed env) lg1,
                               sq_closing = False, sq_active_subscribers = 0,
                               sq_notify = False, sq_notified = 0, sq_metrics = mx\<rparr>)))"

section \<open>Reconciling\<close>

type_synonym decoder = "byte list \<Rightarrow> subscribe_event option"

text \<open>The DID and revision of a commit or sync.\<close>

definition event_rev :: "subscribe_event \<Rightarrow> (string \<times> string) option" where
  "event_rev event =
     (case event of
        WF_SUBSCRIBE_EVENT_COMMIT c \<Rightarrow> Some (co_did c, co_rev c)
      | WF_SUBSCRIBE_EVENT_SYNC c \<Rightarrow> Some (sy_did c, sy_rev c)
      | _ \<Rightarrow> None)"

text \<open>The scan over the rows, newest first, for the repository's own newest revision: whether it
  is the head's.\<close>

fun scan_rev :: "decoder \<Rightarrow> string \<Rightarrow> string \<Rightarrow> event_row list \<Rightarrow> bool" where
  "scan_rev decode repo_did head_rev [] = False"
| "scan_rev decode repo_did head_rev (r # rs) =
     (if ev_frame r = [] then scan_rev decode repo_did head_rev rs
      else (case decode (ev_frame r) of
              None \<Rightarrow> scan_rev decode repo_did head_rev rs
            | Some event \<Rightarrow>
                (case event_rev event of
                   None \<Rightarrow> scan_rev decode repo_did head_rev rs
                 | Some (did, r_rev) \<Rightarrow>
                     if did = repo_did then r_rev = head_rev
                     else scan_rev decode repo_did head_rev rs)))"

definition metalbear_sequencer_reconcile_repo ::
  "wf_sizes \<Rightarrow> publisher \<Rightarrow> decoder \<Rightarrow> bool \<Rightarrow> append_env \<Rightarrow> repo_view \<Rightarrow> sequencer \<Rightarrow>
   wf_status \<times> sequencer" where
  "metalbear_sequencer_reconcile_repo sz publish decode query_ok env repo s =
     (case rv_head repo of
        Inl status \<Rightarrow> if status = WF_ERR_NOT_FOUND then (WF_OK, s) else (status, s)
      | Inr head_rev \<Rightarrow>
          if query_ok \<and> scan_rev decode (rv_did repo) head_rev (rev (lg_events (sq_log s)))
          then (WF_OK, s)
          else (case rv_export repo of
                  Inl status \<Rightarrow> (status, s)
                | Inr blocks \<Rightarrow>
                    append_event sz publish env (sync_of sz (rv_did repo) head_rev blocks) s))"

fun scan_account :: "decoder \<Rightarrow> string \<Rightarrow> bool \<Rightarrow> event_row list \<Rightarrow> bool" where
  "scan_account decode did active [] = False"
| "scan_account decode did active (r # rs) =
     (if ev_frame r = [] then scan_account decode did active rs
      else (case decode (ev_frame r) of
              Some (WF_SUBSCRIBE_EVENT_ACCOUNT a) \<Rightarrow>
                if ae_did a = did then ae_active a = active
                else scan_account decode did active rs
            | _ \<Rightarrow> scan_account decode did active rs))"

definition metalbear_sequencer_reconcile_account ::
  "wf_sizes \<Rightarrow> publisher \<Rightarrow> decoder \<Rightarrow> bool \<Rightarrow> append_env \<Rightarrow> string option \<Rightarrow> bool \<Rightarrow>
   sequencer \<Rightarrow> wf_status \<times> sequencer" where
  "metalbear_sequencer_reconcile_account sz publish decode query_ok env did active s =
     (case did of
        None \<Rightarrow> (WF_ERR_INVALID_ARG, s)
      | Some d \<Rightarrow>
          if query_ok \<and> scan_account decode d active (rev (lg_events (sq_log s)))
          then (WF_OK, s)
          else metalbear_sequencer_account_status sz publish env did active
                 (if active then None else Some ''deactivated'') s)"

section \<open>Subscribers\<close>

text \<open>What \<open>read_next_locked\<close> finds: an unreadable log (-1), nothing (0, also when the copy
  cannot be allocated), or a row (1).\<close>

datatype read_result = READ_FAILED | READ_NONE | READ_ROW event_row

definition read_next_locked :: "bool \<Rightarrow> bool \<Rightarrow> event_log \<Rightarrow> int \<Rightarrow> read_result" where
  "read_next_locked query_ok alloc_ok lg cursor =
     (if \<not> query_ok then READ_FAILED
      else (case find (\<lambda>r. ev_seq r > cursor) (lg_events lg) of
              None \<Rightarrow> READ_NONE
            | Some r \<Rightarrow> if alloc_ok then READ_ROW r else READ_NONE))"

definition METALBEAR_FIREHOSE_PING_SECONDS :: int where
  "METALBEAR_FIREHOSE_PING_SECONDS = 20"

text \<open>The conversion to the 32-bit \<open>int\<close> is the code's cast.\<close>

definition metalbear_sequencer_set_ping_seconds :: "int \<Rightarrow> int \<Rightarrow> int" where
  "metalbear_sequencer_set_ping_seconds firehose_ping_seconds seconds =
     (if seconds > 0 then sint (word_of_int seconds :: 32 word) else firehose_ping_seconds)"

record subscriber_worker =
  wk_cursor :: int
  wk_error :: "(string \<times> string) option"
  wk_outdated :: bool

text \<open>What goes to the stream, in order.\<close>

datatype ws_action =
    WS_SEND "byte list"
  | WS_PING
  | WS_CLOSE nat

type_synonym error_publisher = "int \<Rightarrow> string \<Rightarrow> string \<Rightarrow> (byte list) option"

definition send_published :: "byte list option \<Rightarrow> ws_action list" where
  "send_published frame = (case frame of Some f \<Rightarrow> [WS_SEND f] | None \<Rightarrow> [])"

definition outdated_info :: "wf_sizes \<Rightarrow> subscribe_event" where
  "outdated_info sz =
     WF_SUBSCRIBE_EVENT_INFO
       \<lparr>in_name = snprintf_cut (sz_info_name sz) ''OutdatedCursor'',
        in_message = Some (snprintf_cut (sz_info_message sz)
          ''Requested cursor exceeded limit. Possibly missing events'')\<rparr>"

text \<open>What \<open>subscriber_main\<close> sends before its loop, and whether the loop is entered.\<close>

definition subscriber_preamble ::
  "wf_sizes \<Rightarrow> publisher \<Rightarrow> error_publisher \<Rightarrow> subscriber_worker \<Rightarrow> ws_action list \<times> bool" where
  "subscriber_preamble sz publish publish_error w =
     (case wk_error w of
        Some (err, msg) \<Rightarrow>
          (send_published (publish_error (wk_cursor w) err msg) @ [WS_CLOSE 1008], False)
      | None \<Rightarrow>
          (if wk_outdated w
           then (case publish (outdated_info sz) of Inr f \<Rightarrow> [WS_SEND f] | Inl _ \<Rightarrow> [])
           else [], True))"

text \<open>
  One pass of the inner loop: the log as it is at that moment (the mutex is released while
  waiting), whether the sequencer is closing, whether the query and the copy succeed, and whether
  the stream is found closed after the wait.
\<close>

record wait_view =
  wv_log :: event_log
  wv_closing :: bool
  wv_query_ok :: bool
  wv_alloc_ok :: bool
  wv_stream_closed :: bool

fun wait_for_event :: "nat \<Rightarrow> int \<Rightarrow> wait_view list \<Rightarrow> read_result" where
  "wait_for_event wait cursor [] = READ_NONE"
| "wait_for_event wait cursor (v # vs) =
     (if \<not> wait < 4 \<or> wv_closing v then READ_NONE
      else (case read_next_locked (wv_query_ok v) (wv_alloc_ok v) (wv_log v) cursor of
              READ_NONE \<Rightarrow> if wv_stream_closed v then READ_NONE
                           else wait_for_event (Suc wait) cursor vs
            | r \<Rightarrow> r))"

text \<open>One turn of the outer loop. The views are those of the inner loop's passes, then come the
  closing flag read under the lock, the closed flag read outside it, the outcomes of the send and
  of the ping, and the clock.\<close>

record turn_env =
  te_views :: "wait_view list"
  te_closing :: bool
  te_stream_closed :: bool
  te_send :: wf_status
  te_ping :: wf_status
  te_now :: int

record subscriber_state =
  ss_worker :: subscriber_worker
  ss_last_activity :: int
  ss_running :: bool
  ss_out :: "ws_action list"
  ss_delivered :: "event_row list"

definition subscriber_turn :: "error_publisher \<Rightarrow> int \<Rightarrow> turn_env \<Rightarrow> subscriber_state \<Rightarrow> subscriber_state" where
  "subscriber_turn publish_error ping_seconds env st =
     (let w = ss_worker st in
      case wait_for_event 0 (wk_cursor w) (te_views env) of
        READ_FAILED \<Rightarrow>
          st\<lparr>ss_out := ss_out st @
               send_published (publish_error (wk_cursor w) ''InternalServerError''
                 ''event log unreadable'') @ [WS_CLOSE 1011],
             ss_running := False\<rparr>
      | READ_ROW r \<Rightarrow>
          if te_closing env \<or> te_stream_closed env then st\<lparr>ss_running := False\<rparr>
          else if te_send env \<noteq> WF_OK then
            st\<lparr>ss_out := ss_out st @ [WS_SEND (ev_frame r)] @
                 (if te_send env = WF_ERR_TIMEOUT
                  then send_published (publish_error (wk_cursor w) ''ConsumerTooSlow''
                         ''Stream consumer too slow'')
                  else []),
               ss_running := False\<rparr>
          else
            st\<lparr>ss_out := ss_out st @ [WS_SEND (ev_frame r)],
               ss_delivered := ss_delivered st @ [r],
               ss_worker := w\<lparr>wk_cursor := ev_seq r\<rparr>,
               ss_last_activity := te_now env\<rparr>
      | READ_NONE \<Rightarrow>
          if te_closing env \<or> te_stream_closed env then st\<lparr>ss_running := False\<rparr>
          else if te_now env - ss_last_activity st \<ge> ping_seconds then
            (if te_ping env \<noteq> WF_OK
             then st\<lparr>ss_out := ss_out st @ [WS_PING], ss_running := False\<rparr>
             else st\<lparr>ss_out := ss_out st @ [WS_PING], ss_last_activity := te_now env\<rparr>)
          else st)"

definition subscriber_start ::
  "wf_sizes \<Rightarrow> publisher \<Rightarrow> error_publisher \<Rightarrow> int \<Rightarrow> subscriber_worker \<Rightarrow> subscriber_state" where
  "subscriber_start sz publish publish_error now w =
     (case subscriber_preamble sz publish publish_error w of
        (out, running) \<Rightarrow>
          \<lparr>ss_worker = w, ss_last_activity = now, ss_running = running, ss_out = out,
           ss_delivered = []\<rparr>)"

text \<open>The outer loop over the turns the environment offers; it ends when the body breaks.\<close>

fun subscriber_main ::
  "error_publisher \<Rightarrow> int \<Rightarrow> turn_env list \<Rightarrow> subscriber_state \<Rightarrow> subscriber_state" where
  "subscriber_main publish_error ping_seconds [] st = st"
| "subscriber_main publish_error ping_seconds (e # es) st =
     (if \<not> ss_running st then st
      else subscriber_main publish_error ping_seconds es
             (subscriber_turn publish_error ping_seconds e st))"

definition subscriber_run ::
  "wf_sizes \<Rightarrow> publisher \<Rightarrow> error_publisher \<Rightarrow> int \<Rightarrow> int \<Rightarrow> subscriber_worker \<Rightarrow> turn_env list \<Rightarrow>
   subscriber_state" where
  "subscriber_run sz publish publish_error ping_seconds now w turns =
     subscriber_main publish_error ping_seconds turns (subscriber_start sz publish publish_error now w)"

text \<open>The cursor of a \<open>subscribeRepos\<close> request: the parameter absent, not a string, or a
  string.\<close>

datatype cursor_param = CURSOR_ABSENT | CURSOR_NOT_STRING | CURSOR_STRING string

definition parse_cursor :: "cursor_param \<Rightarrow> int option" where
  "parse_cursor item =
     (case item of
        CURSOR_STRING text \<Rightarrow>
          (case strtoll10 text of
             (parsed, end_text, erange) \<Rightarrow>
               if \<not> erange \<and> end_text = [] \<and> parsed \<ge> 0 then Some parsed else None)
      | _ \<Rightarrow> None)"

text \<open>The worker \<open>subscribe_repos\<close> prepares; the log is read twice, each time under its own
  acquisition of the mutex.\<close>

definition prepare_worker ::
  "bool \<Rightarrow> bool \<Rightarrow> event_log \<Rightarrow> event_log \<Rightarrow> cursor_param \<Rightarrow> subscriber_worker" where
  "prepare_worker current_ok pruned_ok lg1 lg2 item =
     (let current = current_locked current_ok lg1;
          has_cursor = parse_cursor item;
          cursor = (case has_cursor of Some c \<Rightarrow> c | None \<Rightarrow> 0);
          start = (case has_cursor of Some c \<Rightarrow> c | None \<Rightarrow> current)
      in if item \<noteq> CURSOR_ABSENT \<and> has_cursor = None then
           \<lparr>wk_cursor = start,
            wk_error = Some (''InvalidRequest'', ''Cursor must be a non-negative integer.''),
            wk_outdated = False\<rparr>
         else if cursor > current then
           \<lparr>wk_cursor = start, wk_error = Some (''FutureCursor'', ''Cursor in the future.''),
            wk_outdated = False\<rparr>
         else if has_cursor \<noteq> None then
           (let pruned = pruned_through pruned_ok lg2
            in \<lparr>wk_cursor = start, wk_error = None, wk_outdated = (pruned > 0 \<and> cursor < pruned)\<rparr>)
         else \<lparr>wk_cursor = start, wk_error = None, wk_outdated = False\<rparr>)"

record subscribe_env =
  su_current_ok :: bool
  su_pruned_ok :: bool
  su_alloc_ok :: bool
  su_retain_ok :: bool
  su_thread_ok :: bool

definition subscribe_repos ::
  "subscribe_env \<Rightarrow> event_log \<Rightarrow> event_log \<Rightarrow> cursor_param \<Rightarrow> sequencer \<Rightarrow>
   wf_status \<times> subscriber_worker option \<times> sequencer" where
  "subscribe_repos env lg1 lg2 item s =
     (let worker = prepare_worker (su_current_ok env) (su_pruned_ok env) lg1 lg2 item
      in if \<not> su_alloc_ok env then (WF_ERR_ALLOC, None, s)
         else if \<not> su_retain_ok env then (WF_ERR_INVALID_ARG, None, s)
         else if sq_closing s then (WF_ERR_INVALID_ARG, None, s)
         else
           let s1 = s\<lparr>sq_active_subscribers := sq_active_subscribers s + 1\<rparr>
           in if \<not> su_thread_ok env
              then (WF_ERR_INTERNAL, None,
                    s1\<lparr>sq_active_subscribers := sq_active_subscribers s1 - 1\<rparr>)
              else (WF_OK, Some worker, s1))"

text \<open>The first and the last lines of \<open>subscriber_main\<close>.\<close>

definition subscriber_enter :: "sequencer \<Rightarrow> sequencer" where
  "subscriber_enter s = s\<lparr>sq_metrics := metalbear_metrics_inc (sq_metrics s) 10\<rparr>"

definition subscriber_exit :: "sequencer \<Rightarrow> sequencer" where
  "subscriber_exit s =
     s\<lparr>sq_metrics := metalbear_metrics_inc (sq_metrics s) 11,
       sq_active_subscribers :=
         (if sq_active_subscribers s > 0 then sq_active_subscribers s - 1
          else sq_active_subscribers s)\<rparr>"

section \<open>Retention and purging\<close>

text \<open>The outcomes of the statements of \<open>metalbear_sequencer_retain\<close>; when the DELETE fails,
  \<open>sqlite3_changes\<close> still reports the statement before it.\<close>

record retain_env =
  rt_current_ok :: bool
  rt_prepare_ok :: bool
  rt_delete_ok :: bool
  rt_stale_changes :: nat
  rt_mark_ok :: bool

definition metalbear_sequencer_retain ::
  "retain_env \<Rightarrow> string \<Rightarrow> int \<Rightarrow> event_log \<Rightarrow> wf_status \<times> event_log" where
  "metalbear_sequencer_retain env cutoff_ts min_events lg =
     (let current = current_locked (rt_current_ok env) lg;
          cutoff = current - min_events
      in if cutoff \<le> 0 then (WF_OK, lg)
         else if \<not> rt_prepare_ok env then (WF_ERR_INTERNAL, lg)
         else
           let old = (\<lambda>r. ev_seq r \<le> cutoff \<and> text_less (ev_created_at r) cutoff_ts);
               lg1 = (if rt_delete_ok env
                      then lg\<lparr>lg_events := filter (\<lambda>r. \<not> old r) (lg_events lg)\<rparr> else lg);
               changes = (if rt_delete_ok env then length (filter old (lg_events lg))
                          else rt_stale_changes env)
           in if changes > 0 \<and> rt_mark_ok env
              then (WF_OK, lg1\<lparr>lg_pruned_through :=
                      Some (case lg_pruned_through lg1 of
                              None \<Rightarrow> cutoff | Some v \<Rightarrow> max v cutoff)\<rparr>)
              else (WF_OK, lg1))"

text \<open>The rows the purge takes for the account's: those recorded under its DID, and those without
  a recorded DID whose frame contains it.\<close>

definition purge_matches :: "string \<Rightarrow> event_row \<Rightarrow> bool" where
  "purge_matches did r \<longleftrightarrow>
     (case ev_did r of Some d \<Rightarrow> d = did | None \<Rightarrow> occurs_in (ev_frame r) (bytes_of did))"

definition metalbear_sequencer_purge_account ::
  "bool \<Rightarrow> bool \<Rightarrow> string option \<Rightarrow> event_log \<Rightarrow> wf_status \<times> nat \<times> event_log" where
  "metalbear_sequencer_purge_account prepare_ok delete_ok did lg =
     (case did of
        None \<Rightarrow> (WF_ERR_INVALID_ARG, 0, lg)
      | Some d \<Rightarrow>
          if d = [] then (WF_ERR_INVALID_ARG, 0, lg)
          else if \<not> prepare_ok then (WF_ERR_INTERNAL, 0, lg)
          else if \<not> delete_ok then (WF_ERR_INTERNAL, 0, lg)
          else
            let seqs = ev_seq ` set (filter (purge_matches d) (lg_events lg));
                gone = (\<lambda>r. purge_matches d r \<and> ev_seq r < Max seqs)
            in (WF_OK, length (filter gone (lg_events lg)),
                lg\<lparr>lg_events := filter (\<lambda>r. \<not> gone r) (lg_events lg)\<rparr>))"

section \<open>Closing\<close>

text \<open>\<open>metalbear_sequencer_free\<close> latches \<open>closing\<close>, then waits until no subscriber is
  left; only then is the handle destroyed.\<close>

definition sequencer_free_latch :: "sequencer \<Rightarrow> sequencer" where
  "sequencer_free_latch s = s\<lparr>sq_closing := True\<rparr>"

definition sequencer_free_may_destroy :: "sequencer \<Rightarrow> bool" where
  "sequencer_free_may_destroy s \<longleftrightarrow> sq_closing s \<and> \<not> sq_active_subscribers s > 0"

section \<open>The order of the log\<close>

definition log_ok :: "event_log \<Rightarrow> bool" where
  "log_ok lg \<longleftrightarrow>
     sorted_wrt (<) (map ev_seq (lg_events lg)) \<and>
     (\<forall>r \<in> set (lg_events lg). ev_seq r \<le> lg_sequence lg) \<and> 0 \<le> lg_sequence lg"

lemma insort_key_last:
  fixes f :: "'a \<Rightarrow> 'b::linorder"
  shows "\<forall>y \<in> set xs. f y < f x \<Longrightarrow> insort_key f x xs = xs @ [x]"
  by (induction xs) auto

lemma sorted_map_filter:
  "sorted_wrt R (map f xs) \<Longrightarrow> sorted_wrt R (map f (filter P xs))"
  by (induction xs) auto

lemma log_ok_filter:
  "log_ok lg \<Longrightarrow> log_ok (lg\<lparr>lg_events := filter P (lg_events lg)\<rparr>)"
  by (auto simp: log_ok_def sorted_map_filter)

lemma log_ok_current: "log_ok lg \<Longrightarrow> current_locked q lg \<le> lg_sequence lg"
  by (auto simp: log_ok_def current_locked_def)

lemma next_rowid_ok: "log_ok lg \<Longrightarrow> next_rowid lg = lg_sequence lg + 1"
  using log_ok_current [of lg True] by (simp add: next_rowid_def)

lemma current_locked_ge:
  "r \<in> set (lg_events lg) \<Longrightarrow> ev_seq r \<le> current_locked True lg"
  by (auto simp: current_locked_def intro: Max_ge)

lemma log_seq_inj:
  assumes "log_ok lg" and "r \<in> set (lg_events lg)" and "r' \<in> set (lg_events lg)" and "ev_seq r = ev_seq r'"
  shows "r = r'"
proof -
  have "distinct (map ev_seq (lg_events lg))"
    using assms(1) by (simp add: log_ok_def strict_sorted_iff)
  then show ?thesis using assms(2-4) by (simp add: distinct_map inj_on_def)
qed

text \<open>A committed append adds one row at the end, under the next sequence number.\<close>

definition row_did :: "subscribe_event \<Rightarrow> string option" where
  "row_did event = (case event_did event of Some d \<Rightarrow> if d \<noteq> [] then Some d else None | None \<Rightarrow> None)"

lemma append_transaction_InrD:
  assumes "append_transaction sz publish env event lg = Inr lg'" and "log_ok lg"
  obtains stamped frame where
    "stamp_event sz (lg_sequence lg + 1) (ap_now env) event = Some stamped"
    and "publish stamped = Inr frame"
    and "lg' = lg\<lparr>lg_events := lg_events lg @
           [\<lparr>ev_seq = lg_sequence lg + 1, ev_frame = frame, ev_created_at = ap_now env,
             ev_did = row_did event\<rparr>],
         lg_sequence := lg_sequence lg + 1\<rparr>"
proof -
  let ?seq = "lg_sequence lg + 1"
  let ?row = "\<lparr>ev_seq = ?seq, ev_frame = [], ev_created_at = ap_now env, ev_did = row_did event\<rparr>"
  have small: "\<forall>r \<in> set (lg_events lg). ev_seq r < ?seq"
    using assms(2) by (auto simp: log_ok_def)
  have ins: "insert_row ?row lg = lg\<lparr>lg_events := lg_events lg @ [?row], lg_sequence := ?seq\<rparr>"
    using small by (simp add: insert_row_def insort_key_last)
  have keep: "map (\<lambda>r. if ev_seq r = ?seq then r\<lparr>ev_frame := f\<rparr> else r) (lg_events lg) = lg_events lg"
    for f using small by (intro map_idI) auto
  obtain stamped frame where *: "stamp_event sz ?seq (ap_now env) event = Some stamped"
      "publish stamped = Inr frame" "lg' = set_frame ?seq frame (insert_row ?row lg)"
    using assms(1)
    by (auto simp: append_transaction_def Let_def next_rowid_ok [OF assms(2)] row_did_def
        split: if_splits option.splits sum.splits)
  show thesis
    by (rule that [OF *(1,2)]) (simp add: *(3) ins set_frame_def keep)
qed

definition log_follows :: "event_log \<Rightarrow> event_log \<Rightarrow> bool" where
  "log_follows lg lg' \<longleftrightarrow>
     (log_ok lg \<longrightarrow>
        log_ok lg' \<and> lg_sequence lg \<le> lg_sequence lg' \<and>
        (\<forall>r \<in> set (lg_events lg'). r \<in> set (lg_events lg) \<or> ev_seq r > lg_sequence lg))"

lemma log_follows_refl [simp]: "log_follows lg lg"
  by (simp add: log_follows_def)

lemma log_follows_trans: "log_follows a b \<Longrightarrow> log_follows b c \<Longrightarrow> log_follows a c"
  by (fastforce simp: log_follows_def)

lemma log_follows_filter: "log_follows lg (lg\<lparr>lg_events := filter P (lg_events lg)\<rparr>)"
  by (auto simp: log_follows_def log_ok_filter)

lemma log_ok_append:
  "log_ok lg \<Longrightarrow> ev_seq r = lg_sequence lg + 1 \<Longrightarrow>
   log_ok (lg\<lparr>lg_events := lg_events lg @ [r], lg_sequence := lg_sequence lg + 1\<rparr>)"
  by (fastforce simp: log_ok_def sorted_wrt_append)

lemma log_follows_append: "log_follows (sq_log s) (sq_log (snd (append_event sz publish env event s)))"
proof (cases "sq_closing s \<or> \<not> ap_begin_ok env")
  case False
  show ?thesis
  proof (cases "append_transaction sz publish env event (sq_log s)")
    case (Inr lg')
    show ?thesis
      unfolding log_follows_def
    proof
      assume ok: "log_ok (sq_log s)"
      obtain r where "ev_seq r = lg_sequence (sq_log s) + 1"
        "lg' = (sq_log s)\<lparr>lg_events := lg_events (sq_log s) @ [r],
                         lg_sequence := lg_sequence (sq_log s) + 1\<rparr>"
        using append_transaction_InrD [OF Inr ok] by (metis event_row.select_convs(1))
      then show "log_ok (sq_log (snd (append_event sz publish env event s))) \<and>
          lg_sequence (sq_log s) \<le> lg_sequence (sq_log (snd (append_event sz publish env event s))) \<and>
          (\<forall>r \<in> set (lg_events (sq_log (snd (append_event sz publish env event s)))).
            r \<in> set (lg_events (sq_log s)) \<or> ev_seq r > lg_sequence (sq_log s))"
        using Inr False log_ok_append [OF ok] by (auto simp: append_event_def)
    qed
  qed (use False in \<open>simp add: append_event_def\<close>)
qed (simp add: append_event_def)

lemma log_follows_pruned [simp]:
  "log_follows lg (lg'\<lparr>lg_pruned_through := m\<rparr>) = log_follows lg lg'"
  by (simp add: log_follows_def log_ok_def)

lemma log_follows_retain: "log_follows lg (snd (metalbear_sequencer_retain env ts n lg))"
  unfolding metalbear_sequencer_retain_def Let_def
  using log_follows_filter by (simp split: if_split)

lemma log_follows_purge: "log_follows lg (snd (snd (metalbear_sequencer_purge_account p d did lg)))"
  by (simp add: metalbear_sequencer_purge_account_def Let_def log_follows_filter split: option.split)

section \<open>Steps\<close>

text \<open>What the threads of the host do to the sequencer, each under its mutex.\<close>

inductive seq_step :: "sequencer \<Rightarrow> sequencer \<Rightarrow> bool" where
  step_append: "seq_step s (snd (append_event sz publish env event s))"
| step_retain: "seq_step s (s\<lparr>sq_log := snd (metalbear_sequencer_retain renv ts n (sq_log s))\<rparr>)"
| step_purge: "seq_step s
    (s\<lparr>sq_log := snd (snd (metalbear_sequencer_purge_account p d did (sq_log s)))\<rparr>)"
| step_subscribe: "seq_step s (snd (snd (subscribe_repos uenv lg1 lg2 item s)))"
| step_enter: "seq_step s (subscriber_enter s)"
| step_exit: "seq_step s (subscriber_exit s)"
| step_notify: "seq_step s (metalbear_sequencer_set_notify s cb)"
| step_latch: "seq_step s (sequencer_free_latch s)"

lemma subscribe_repos_state:
  "sq_log (snd (snd (subscribe_repos uenv lg1 lg2 item s))) = sq_log s"
  "sq_closing (snd (snd (subscribe_repos uenv lg1 lg2 item s))) = sq_closing s"
  "sq_closing s \<Longrightarrow> snd (snd (subscribe_repos uenv lg1 lg2 item s)) = s"
  by (simp_all add: subscribe_repos_def Let_def)

lemma step_log_follows: "seq_step s t \<Longrightarrow> log_follows (sq_log s) (sq_log t)"
  by (induction rule: seq_step.induct)
    (simp_all add: log_follows_append log_follows_retain log_follows_purge subscribe_repos_state
      subscriber_enter_def subscriber_exit_def metalbear_sequencer_set_notify_def
      sequencer_free_latch_def)

interpretation seq_run: transition_system "\<lambda>s. s = s0" seq_step
    "\<lambda>t. log_follows (sq_log s0) (sq_log t)" for s0
  by unfold_locales (auto intro: log_follows_trans step_log_follows)

text \<open>Once \<open>closing\<close> is latched.\<close>

definition no_growth :: "sequencer \<Rightarrow> sequencer \<Rightarrow> bool" where
  "no_growth s t \<longleftrightarrow>
     (sq_closing s \<longrightarrow>
        sq_closing t \<and> sq_active_subscribers t \<le> sq_active_subscribers s \<and>
        set (lg_events (sq_log t)) \<subseteq> set (lg_events (sq_log s)))"

lemma no_growth_trans: "no_growth a b \<Longrightarrow> no_growth b c \<Longrightarrow> no_growth a c"
  by (auto simp: no_growth_def)

lemma retain_subset:
  "set (lg_events (snd (metalbear_sequencer_retain env ts n lg))) \<subseteq> set (lg_events lg)"
  unfolding metalbear_sequencer_retain_def Let_def by (simp split: if_split)

lemma purge_subset:
  "set (lg_events (snd (snd (metalbear_sequencer_purge_account p d did lg)))) \<subseteq> set (lg_events lg)"
  by (auto simp: metalbear_sequencer_purge_account_def Let_def split: option.split)

lemma step_no_growth: "seq_step s t \<Longrightarrow> no_growth s t"
proof (induction rule: seq_step.induct)
  case (step_append s sz publish env event)
  then show ?case by (simp add: no_growth_def append_event_def)
next
  case (step_retain s renv ts n)
  then show ?case by (simp add: no_growth_def retain_subset)
next
  case (step_purge s p d did)
  then show ?case by (simp add: no_growth_def purge_subset)
next
  case (step_subscribe s uenv lg1 lg2 item)
  then show ?case by (simp add: no_growth_def subscribe_repos_state)
qed (simp_all add: no_growth_def subscriber_enter_def subscriber_exit_def
      metalbear_sequencer_set_notify_def sequencer_free_latch_def)

interpretation seq_closed: transition_system "\<lambda>s. s = s0" seq_step "no_growth s0" for s0
proof
  fix s t assume "no_growth s0 s" and "seq_step s t"
  then show "no_growth s0 t" by (blast intro: no_growth_trans step_no_growth)
qed (simp add: no_growth_def)

lemma distinct_insort_key_map:
  fixes f :: "'a \<Rightarrow> 'b::linorder"
  shows "f x \<notin> f ` set xs \<Longrightarrow> distinct (map f xs) \<Longrightarrow> distinct (map f (insort_key f x xs))"
  by (induction xs) (auto simp: set_insort_key)

lemma log_ok_insert:
  assumes "log_ok lg" and "ev_seq r \<notin> ev_seq ` set (lg_events lg)"
  shows "log_ok (insert_row r lg)"
  using assms
  by (auto simp: log_ok_def insert_row_def strict_sorted_iff sorted_insort_key
      distinct_insort_key_map set_insort_key le_max_iff_disj)

lemma seed_log_ok: "log_ok lg \<Longrightarrow> log_ok (seed_sequence_floor env lg)"
  by (simp add: seed_sequence_floor_def Let_def log_ok_insert log_ok_filter)

lemma empty_log_ok: "log_ok empty_log"
  by (simp add: log_ok_def empty_log_def)

lemma open_log_ok:
  assumes "metalbear_sequencer_open env mx file = (WF_OK, Some s)"
    and "\<forall>lg. file = Some lg \<longrightarrow> log_ok lg"
  shows "log_ok (sq_log s)"
proof -
  let ?lg = "case file of Some l \<Rightarrow> l | None \<Rightarrow> empty_log"
  have ok: "log_ok ?lg"
    using assms(2) empty_log_ok by (auto split: option.split)
  have "\<exists>lg1. log_ok lg1 \<and> sq_log s = seed_sequence_floor (oe_seed env) lg1"
  proof (cases "add_did_column (oe_info_ok env) (oe_alter_ok env) ?lg")
    case (Pair st lg1)
    have "log_ok lg1"
      using Pair ok by (auto simp: add_did_column_def log_ok_def split: if_splits)
    then show ?thesis
      using assms(1) Pair by (auto simp: metalbear_sequencer_open_def Let_def split: if_splits)
  qed
  then show ?thesis using seed_log_ok by metis
qed

text \<open>Seeding a new file.\<close>

lemma seed_fresh:
  assumes "log_ok lg" and "lg_events lg = []" and "0 < sd_time env"
    and "sd_prepare_ok env" and "sd_insert_ok env" and "sd_delete_ok env"
  shows "seed_sequence_floor env lg = lg\<lparr>lg_sequence := max (lg_sequence lg) (sd_time env)\<rparr>"
  using assms by (simp add: seed_sequence_floor_def insert_row_def)

section \<open>Properties of the log\<close>

text \<open>C17. Sequence numbers only ever grow: from a well-ordered log, whatever appends, retention,
  purges, subscriptions and shutdown do in any order, the log stays strictly ordered below its
  high-water mark, the mark never goes down, and every row that was not there before has a number
  above the old mark, so no number is handed out twice even after its row was deleted.\<close>

theorem sequencer_numbers_grow:
  assumes "seq_step\<^sup>*\<^sup>* s t" and "log_ok (sq_log s)"
  shows "log_ok (sq_log t) \<and> lg_sequence (sq_log s) \<le> lg_sequence (sq_log t) \<and>
         (\<forall>r \<in> set (lg_events (sq_log t)).
            r \<in> set (lg_events (sq_log s)) \<or> ev_seq r > lg_sequence (sq_log s))"
  using seq_run.inv_reachable [OF refl assms(1)] assms(2) by (simp add: log_follows_def)

text \<open>Shutdown: once \<open>closing\<close> is latched it stays so, no subscriber is admitted and no
  row appears, so the handle is destroyed only over a log nobody can change by appending and with
  no subscriber left.\<close>

lemma sequencer_shutdown:
  assumes "seq_step\<^sup>*\<^sup>* (sequencer_free_latch s) t"
  shows "sq_closing t \<and> sq_active_subscribers t \<le> sq_active_subscribers s \<and>
         set (lg_events (sq_log t)) \<subseteq> set (lg_events (sq_log s)) \<and>
         (sequencer_free_may_destroy t \<longleftrightarrow> sq_active_subscribers t = 0)"
proof -
  have "no_growth (sequencer_free_latch s) t"
    by (rule seq_closed.inv_reachable [OF refl assms])
  then show ?thesis
    by (simp add: no_growth_def sequencer_free_latch_def sequencer_free_may_destroy_def)
qed

text \<open>An append is all or nothing. When it reports success the log has exactly one more row,
  the last, under the next number, holding the frame published for the event stamped with that
  number and that time, and the notification has fired once; on any other status the sequencer is
  untouched.\<close>

theorem append_event_atomic:
  assumes "append_event sz publish env event s = (status, t)" and "log_ok (sq_log s)"
    and "\<forall>e. publish e \<noteq> Inl WF_OK"
  shows "(status \<noteq> WF_OK \<longrightarrow> t = s) \<and>
         (status = WF_OK \<longrightarrow>
            (\<exists>stamped frame.
               stamp_event sz (lg_sequence (sq_log s) + 1) (ap_now env) event = Some stamped \<and>
               publish stamped = Inr frame \<and>
               lg_events (sq_log t) = lg_events (sq_log s) @
                 [\<lparr>ev_seq = lg_sequence (sq_log s) + 1, ev_frame = frame,
                   ev_created_at = ap_now env, ev_did = row_did event\<rparr>] \<and>
               lg_sequence (sq_log t) = lg_sequence (sq_log s) + 1) \<and>
            sq_notified t = sq_notified s + (if sq_notify s then 1 else 0) \<and>
            \<not> sq_closing s)"
proof (cases "sq_closing s \<or> \<not> ap_begin_ok env")
  case True
  then show ?thesis using assms(1) by (auto simp: append_event_def)
next
  case False
  show ?thesis
  proof (cases "append_transaction sz publish env event (sq_log s)")
    case (Inl st)
    then have "st \<noteq> WF_OK"
      using assms(3)
      by (auto simp: append_transaction_def Let_def split: if_splits option.splits sum.splits)
    then show ?thesis using assms(1) False Inl by (auto simp: append_event_def)
  next
    case (Inr lg')
    show ?thesis
      by (rule append_transaction_InrD [OF Inr assms(2)])
        (use assms(1) False Inr in \<open>auto simp: append_event_def\<close>)
  qed
qed

section \<open>Delivery\<close>

definition sees_prefix :: "event_log \<Rightarrow> turn_env \<Rightarrow> bool" where
  "sees_prefix lg e \<longleftrightarrow>
     list_all (\<lambda>v. \<exists>k. lg_events (wv_log v) = take k (lg_events lg)) (te_views e)"

lemma find_take: "find P (take k xs) = Some x \<Longrightarrow> find P xs = Some x"
proof (induction xs arbitrary: k)
  case (Cons a xs)
  then show ?case by (cases k) (auto split: if_splits)
qed simp

lemma read_next_row:
  "read_next_locked q a lg cursor = READ_ROW r \<Longrightarrow>
   find (\<lambda>r. ev_seq r > cursor) (lg_events lg) = Some r"
  by (auto simp: read_next_locked_def split: if_splits option.splits)

lemma wait_for_event_row:
  "wait_for_event wait cursor vs = READ_ROW r \<Longrightarrow>
   list_all (\<lambda>v. \<exists>k. lg_events (wv_log v) = take k (lg_events lg)) vs \<Longrightarrow>
   find (\<lambda>r. ev_seq r > cursor) (lg_events lg) = Some r"
proof (induction wait cursor vs rule: wait_for_event.induct)
  case (2 wait cursor v vs)
  show ?case
  proof (cases "read_next_locked (wv_query_ok v) (wv_alloc_ok v) (wv_log v) cursor")
    case READ_NONE
    then show ?thesis using 2 by (auto split: if_splits)
  next
    case (READ_ROW r')
    then have "r' = r" using "2.prems"(1) by (auto split: if_splits)
    then show ?thesis
      using read_next_row [OF READ_ROW] "2.prems"(2) find_take by fastforce
  qed (use "2.prems" in \<open>auto split: if_splits\<close>)
qed simp

definition rows_between :: "event_log \<Rightarrow> int \<Rightarrow> int \<Rightarrow> event_row list" where
  "rows_between lg low high = filter (\<lambda>r. low < ev_seq r \<and> ev_seq r \<le> high) (lg_events lg)"

lemma first_after_split:
  assumes "log_ok lg" and "find (\<lambda>r. ev_seq r > cur) (lg_events lg) = Some r"
  obtains A B where "lg_events lg = A @ r # B" and "\<forall>x \<in> set A. ev_seq x \<le> cur"
    and "\<forall>x \<in> set B. ev_seq r < ev_seq x" and "cur < ev_seq r"
proof -
  obtain i where i: "i < length (lg_events lg)" "ev_seq (lg_events lg ! i) > cur"
      "r = lg_events lg ! i" "\<forall>j < i. \<not> ev_seq (lg_events lg ! j) > cur"
    using assms(2) by (auto simp: find_Some_iff)
  let ?A = "take i (lg_events lg)" and ?B = "drop (Suc i) (lg_events lg)"
  have split: "lg_events lg = ?A @ r # ?B"
    using i(1,3) by (simp add: id_take_nth_drop)
  have A: "\<forall>x \<in> set ?A. ev_seq x \<le> cur"
    using i(1,4) by (fastforce simp: in_set_conv_nth)
  have "sorted_wrt (<) (map ev_seq (?A @ r # ?B))"
    using assms(1) split by (simp add: log_ok_def)
  then have B: "\<forall>x \<in> set ?B. ev_seq r < ev_seq x"
    by (simp add: sorted_wrt_append)
  show thesis using that [OF split A B] i(2,3) by simp
qed

lemma rows_between_next:
  assumes "log_ok lg" and "find (\<lambda>r. ev_seq r > cur) (lg_events lg) = Some r" and "low \<le> cur"
  shows "rows_between lg low (ev_seq r) = rows_between lg low cur @ [r] \<and> cur < ev_seq r"
proof -
  obtain A B where sp: "lg_events lg = A @ r # B" and A: "\<forall>x \<in> set A. ev_seq x \<le> cur"
      and B: "\<forall>x \<in> set B. ev_seq r < ev_seq x" and lt: "cur < ev_seq r"
    by (rule first_after_split [OF assms(1,2)])
  have "filter (\<lambda>x. low < ev_seq x \<and> ev_seq x \<le> ev_seq r) A = filter (\<lambda>x. low < ev_seq x \<and> ev_seq x \<le> cur) A"
    using A lt by (intro filter_cong) auto
  moreover have "filter (\<lambda>x. low < ev_seq x \<and> ev_seq x \<le> h) B = []" if "h \<le> ev_seq r" for h
    using B that by (fastforce simp: filter_empty_conv)
  ultimately show ?thesis
    unfolding rows_between_def sp using lt assms(3) by simp
qed

definition delivery_inv :: "event_log \<Rightarrow> int \<Rightarrow> ws_action list \<Rightarrow> subscriber_state \<Rightarrow> bool" where
  "delivery_inv lg start out st \<longleftrightarrow>
     start \<le> wk_cursor (ss_worker st) \<and>
     ss_delivered st = rows_between lg start (wk_cursor (ss_worker st)) \<and>
     (ss_running st \<longrightarrow>
        filter (\<lambda>a. a \<noteq> WS_PING) (ss_out st) = out @ map (WS_SEND \<circ> ev_frame) (ss_delivered st))"

lemma delivery_inv_turn:
  assumes "log_ok lg" and "sees_prefix lg e" and "ss_running st" and "delivery_inv lg start out st"
  shows "delivery_inv lg start out (subscriber_turn pe ping e st)"
proof (cases "wait_for_event 0 (wk_cursor (ss_worker st)) (te_views e)")
  case (READ_ROW r)
  have "find (\<lambda>r. ev_seq r > wk_cursor (ss_worker st)) (lg_events lg) = Some r"
    using READ_ROW assms(2) unfolding sees_prefix_def by (rule wait_for_event_row)
  from rows_between_next [OF assms(1) this, of start]
  have "rows_between lg start (ev_seq r) = rows_between lg start (wk_cursor (ss_worker st)) @ [r]"
      "wk_cursor (ss_worker st) < ev_seq r"
    using assms(4) by (auto simp: delivery_inv_def)
  then show ?thesis
    using assms(3,4) READ_ROW by (simp add: delivery_inv_def subscriber_turn_def Let_def)
qed (use assms(3,4) in \<open>simp_all add: delivery_inv_def subscriber_turn_def Let_def\<close>)

lemma delivery_inv_main:
  assumes "log_ok lg" and "\<forall>e \<in> set es. sees_prefix lg e" and "delivery_inv lg start out st"
  shows "delivery_inv lg start out (subscriber_main pe ping es st)"
  using assms(2,3)
  by (induction es arbitrary: st) (auto simp: delivery_inv_turn [OF assms(1)])

lemma rows_between_empty: "rows_between lg c c = []"
  by (auto simp: rows_between_def filter_empty_conv)

lemma preamble_no_ping: "WS_PING \<notin> set (fst (subscriber_preamble sz publish publish_error w))"
  by (auto simp: subscriber_preamble_def send_published_def split: option.splits sum.splits)

text \<open>C10. A subscriber loses nothing and repeats nothing: over a log that only gets appended to
  while it is followed, so that neither retention nor a purge deletes rows meanwhile, whatever the
  waits and failures, the rows it has delivered are exactly
  those between its starting cursor and its current one, in order, and while it runs the stream
  has carried its preamble, their frames in that order, and otherwise only pings.\<close>

theorem subscriber_delivers_exactly:
  assumes "log_ok lg" and "\<forall>e \<in> set turns. sees_prefix lg e"
    and "subscriber_run sz publish publish_error ping now w turns = st"
  shows "wk_cursor w \<le> wk_cursor (ss_worker st) \<and>
         ss_delivered st =
           filter (\<lambda>r. wk_cursor w < ev_seq r \<and> ev_seq r \<le> wk_cursor (ss_worker st)) (lg_events lg) \<and>
         (ss_running st \<longrightarrow>
            filter (\<lambda>a. a \<noteq> WS_PING) (ss_out st) =
            fst (subscriber_preamble sz publish publish_error w) @
            map (WS_SEND \<circ> ev_frame) (ss_delivered st))"
proof -
  let ?out = "fst (subscriber_preamble sz publish publish_error w)"
  have "filter (\<lambda>a. a \<noteq> WS_PING) ?out = ?out"
    using preamble_no_ping by (metis (mono_tags, lifting) filter_True)
  then have "delivery_inv lg (wk_cursor w) ?out (subscriber_start sz publish publish_error now w)"
    by (simp add: delivery_inv_def subscriber_start_def rows_between_empty case_prod_beta)
  from delivery_inv_main [OF assms(1,2) this, of publish_error ping] show ?thesis
    using assms(3) by (simp add: delivery_inv_def rows_between_def subscriber_run_def)
qed

text \<open>A turn in which nothing goes wrong and the log is \<open>lg\<close>.\<close>

definition clean_view :: "event_log \<Rightarrow> wait_view \<Rightarrow> bool" where
  "clean_view lg v \<longleftrightarrow> wv_log v = lg \<and> wv_query_ok v \<and> wv_alloc_ok v \<and> \<not> wv_closing v"

definition clean_turn :: "event_log \<Rightarrow> turn_env \<Rightarrow> bool" where
  "clean_turn lg e \<longleftrightarrow>
     te_views e \<noteq> [] \<and> list_all (clean_view lg) (te_views e) \<and>
     \<not> te_closing e \<and> \<not> te_stream_closed e \<and> te_send e = WF_OK \<and> te_ping e = WF_OK"

definition pending :: "event_log \<Rightarrow> int \<Rightarrow> event_row list" where
  "pending lg cursor = filter (\<lambda>r. ev_seq r > cursor) (lg_events lg)"

lemma pending_next:
  assumes "log_ok lg" and "find (\<lambda>r. ev_seq r > cur) (lg_events lg) = Some r"
  shows "pending lg cur = r # pending lg (ev_seq r)"
proof -
  obtain A B where sp: "lg_events lg = A @ r # B" and A: "\<forall>x \<in> set A. ev_seq x \<le> cur"
      and B: "\<forall>x \<in> set B. ev_seq r < ev_seq x" and lt: "cur < ev_seq r"
    by (rule first_after_split [OF assms])
  have none: "filter (\<lambda>x. ev_seq x > h) A = []" if "cur \<le> h" for h
    using A that by (fastforce simp: filter_empty_conv)
  have all: "filter (\<lambda>x. ev_seq x > h) B = B" if "h \<le> ev_seq r" for h
    using B that by (intro filter_True) auto
  show ?thesis
    using none [OF order_refl] none [OF less_imp_le [OF lt]] all [OF less_imp_le [OF lt]]
      all [OF order_refl] lt
    by (simp add: pending_def sp)
qed

lemma wait_clean_none:
  "list_all (clean_view lg) vs \<Longrightarrow> find (\<lambda>r. ev_seq r > cur) (lg_events lg) = None \<Longrightarrow>
   wait_for_event wait cur vs = READ_NONE"
  by (induction wait cur vs rule: wait_for_event.induct)
    (simp_all add: clean_view_def read_next_locked_def)

lemma clean_turn_step:
  assumes "log_ok lg" and "clean_turn lg e" and "ss_running st"
  shows "ss_running (subscriber_turn pe ping e st) \<and>
    ss_delivered (subscriber_turn pe ping e st) =
      ss_delivered st @ take 1 (pending lg (wk_cursor (ss_worker st))) \<and>
    pending lg (wk_cursor (ss_worker (subscriber_turn pe ping e st))) =
      drop 1 (pending lg (wk_cursor (ss_worker st)))"
proof -
  let ?cur = "wk_cursor (ss_worker st)"
  obtain v vs where v: "te_views e = v # vs" "clean_view lg v"
    using assms(2) by (cases "te_views e") (auto simp: clean_turn_def)
  show ?thesis
  proof (cases "find (\<lambda>r. ev_seq r > ?cur) (lg_events lg)")
    case (Some r)
    then have "wait_for_event 0 ?cur (te_views e) = READ_ROW r"
      using v by (simp add: read_next_locked_def clean_view_def)
    then show ?thesis
      using assms(2,3) pending_next [OF assms(1) Some]
      by (simp add: subscriber_turn_def clean_turn_def)
  next
    case None
    then have empty: "pending lg ?cur = []"
      by (auto simp: pending_def find_None_iff filter_empty_conv)
    have "wait_for_event 0 ?cur (te_views e) = READ_NONE"
      using assms(2) None by (intro wait_clean_none) (simp_all add: clean_turn_def)
    then show ?thesis
      using assms(2,3) empty by (simp add: subscriber_turn_def clean_turn_def)
  qed
qed

lemma clean_main:
  "log_ok lg \<Longrightarrow> \<forall>e \<in> set es. clean_turn lg e \<Longrightarrow> ss_running st \<Longrightarrow>
   ss_running (subscriber_main pe ping es st) \<and>
   ss_delivered (subscriber_main pe ping es st) =
     ss_delivered st @ take (length es) (pending lg (wk_cursor (ss_worker st)))"
proof (induction es arbitrary: st)
  case (Cons e es)
  let ?st = "subscriber_turn pe ping e st"
  have step: "ss_running ?st"
      "ss_delivered ?st = ss_delivered st @ take 1 (pending lg (wk_cursor (ss_worker st)))"
      "pending lg (wk_cursor (ss_worker ?st)) = drop 1 (pending lg (wk_cursor (ss_worker st)))"
    using clean_turn_step [of lg e st pe ping] Cons.prems by simp_all
  have "take 1 ps @ take (length es) (drop 1 ps) = take (Suc (length es)) ps" for ps :: "event_row list"
    by (cases ps) simp_all
  then show ?case
    using Cons.IH [OF Cons.prems(1) _ step(1)] Cons.prems(2,3) step by simp
qed simp

text \<open>C34. A subscriber that is not refused catches up: with nothing failing, every turn of its
  loop delivers the next row, so after as many turns as there are rows beyond its cursor it has
  delivered all of them, and it keeps running.\<close>

theorem subscriber_catches_up:
  assumes "log_ok lg" and "\<forall>e \<in> set turns. clean_turn lg e" and "wk_error w = None"
    and "length (filter (\<lambda>r. ev_seq r > wk_cursor w) (lg_events lg)) \<le> length turns"
  shows "ss_running (subscriber_run sz publish publish_error ping now w turns) \<and>
         ss_delivered (subscriber_run sz publish publish_error ping now w turns) =
           filter (\<lambda>r. ev_seq r > wk_cursor w) (lg_events lg)"
  using clean_main [OF assms(1,2), of "subscriber_start sz publish publish_error now w"] assms(3,4)
  by (simp add: subscriber_run_def subscriber_start_def subscriber_preamble_def pending_def)

section \<open>Retention\<close>

lemma pruned_through_nonneg_mono:
  "pruned_through True lg \<le> pruned_through True (snd (metalbear_sequencer_retain env ts n lg))"
  unfolding metalbear_sequencer_retain_def Let_def
  by (simp add: pruned_through_def split: if_split option.split)

lemma append_pruned:
  "lg_pruned_through (sq_log (snd (append_event sz publish env event s))) = lg_pruned_through (sq_log s)"
  by (auto simp: append_event_def append_transaction_def Let_def insert_row_def set_frame_def
      split: sum.split option.splits)

lemma purge_pruned:
  "lg_pruned_through (snd (snd (metalbear_sequencer_purge_account p d did lg))) = lg_pruned_through lg"
  by (simp add: metalbear_sequencer_purge_account_def Let_def split: option.split)

lemma step_pruned: "seq_step s t \<Longrightarrow> pruned_through True (sq_log s) \<le> pruned_through True (sq_log t)"
proof (induction rule: seq_step.induct)
  case (step_append s sz publish env event)
  then show ?case by (simp add: pruned_through_def append_pruned)
next
  case (step_retain s renv ts n)
  then show ?case by (simp add: pruned_through_nonneg_mono)
next
  case (step_purge s p d did)
  then show ?case by (simp add: pruned_through_def purge_pruned)
next
  case (step_subscribe s uenv lg1 lg2 item)
  then show ?case by (simp add: subscribe_repos_state)
qed (simp_all add: subscriber_enter_def subscriber_exit_def metalbear_sequencer_set_notify_def
      sequencer_free_latch_def)

interpretation seq_pruned: transition_system "\<lambda>s. s = s0" seq_step
    "\<lambda>t. pruned_through True (sq_log s0) \<le> pruned_through True (sq_log t)" for s0
  by unfold_locales (auto intro: order_trans step_pruned)

text \<open>The rows a retention pass deletes, and the mark it leaves.\<close>

lemma retain_deleted:
  assumes "r \<in> set (lg_events lg)"
    and "r \<notin> set (lg_events (snd (metalbear_sequencer_retain env ts n lg)))"
  shows "ev_seq r \<le> current_locked (rt_current_ok env) lg - n" and "text_less (ev_created_at r) ts"
    and "rt_mark_ok env \<Longrightarrow>
         ev_seq r \<le> pruned_through True (snd (metalbear_sequencer_retain env ts n lg))"
proof -
  let ?cut = "current_locked (rt_current_ok env) lg - n"
  let ?old = "\<lambda>r. ev_seq r \<le> ?cut \<and> text_less (ev_created_at r) ts"
  have "?old r \<and> \<not> ?cut \<le> 0 \<and> rt_prepare_ok env \<and> rt_delete_ok env"
    using assms unfolding metalbear_sequencer_retain_def Let_def by (auto split: if_splits)
  moreover from this have "0 < length (filter ?old (lg_events lg))"
    using assms(1) by (auto simp: filter_empty_conv)
  ultimately show "ev_seq r \<le> ?cut" "text_less (ev_created_at r) ts"
    "rt_mark_ok env \<Longrightarrow>
         ev_seq r \<le> pruned_through True (snd (metalbear_sequencer_retain env ts n lg))"
    unfolding metalbear_sequencer_retain_def Let_def
    by (simp_all add: pruned_through_def le_max_iff_disj split: option.split)
qed

lemma prepare_worker_outdated:
  assumes "parse_cursor item = Some c" and "c < pruned_through True lg2"
  shows "wk_error (prepare_worker True True lg1 lg2 item) =
           Some (''FutureCursor'', ''Cursor in the future.'') \<or>
         wk_outdated (prepare_worker True True lg1 lg2 item)"
proof -
  have "0 \<le> c"
    using assms(1) by (auto simp: parse_cursor_def split: cursor_param.splits prod.splits if_splits)
  then show ?thesis using assms by (simp add: prepare_worker_def Let_def)
qed

text \<open>C35. Retention whose mark is written never loses an event silently: a row a pass deletes is older
  than the cutoff
  date and at least \<open>min_events\<close> numbers behind the newest, and at any later time a subscriber
  whose cursor is before that row, and whose two reads of the log run, is told that its cursor is
  outdated, or refused as in the future. When the mark cannot be written, nothing of this holds.\<close>

theorem retain_never_silent:
  assumes "r \<in> set (lg_events lg)"
    and "metalbear_sequencer_retain env ts n lg = (status, lg')"
    and "r \<notin> set (lg_events lg')" and "rt_mark_ok env"
    and "seq_step\<^sup>*\<^sup>* (s\<lparr>sq_log := lg'\<rparr>) t"
    and "parse_cursor item = Some c" and "c < ev_seq r"
  shows "text_less (ev_created_at r) ts \<and>
         ev_seq r \<le> current_locked (rt_current_ok env) lg - n \<and>
         (wk_error (prepare_worker True True lg1 (sq_log t) item) =
            Some (''FutureCursor'', ''Cursor in the future.'') \<or>
          wk_outdated (prepare_worker True True lg1 (sq_log t) item))"
proof -
  have lg': "lg' = snd (metalbear_sequencer_retain env ts n lg)"
    using assms(2) by simp
  have "ev_seq r \<le> pruned_through True lg'"
    using retain_deleted(3) assms(1,3,4) lg' by simp
  also have "\<dots> \<le> pruned_through True (sq_log t)"
    using seq_pruned.inv_reachable [OF refl assms(5)] by simp
  finally have "c < pruned_through True (sq_log t)" using assms(7) by simp
  then show ?thesis
    using prepare_worker_outdated [OF assms(6)] retain_deleted(1,2) [OF assms(1)] assms(3) lg'
    by simp
qed

text \<open>\<open>min_events\<close> is counted in sequence numbers, not in rows: when the numbers have
  gaps (a purge, the seeding) and everything is old, a pass keeps the newest row alone however
  large \<open>min_events\<close> is, and it records the cutoff, not the highest deleted number, so that a
  cursor beyond every deleted row is still called outdated.\<close>

theorem retain_counts_numbers:
  assumes "log_ok lg" and "lg_events lg = A @ [r]" and "A \<noteq> []" and "0 < n"
    and "\<forall>x \<in> set A. ev_seq x \<le> ev_seq r - n \<and> text_less (ev_created_at x) ts"
    and "0 < ev_seq r - n" and "rt_current_ok env" and "rt_prepare_ok env" and "rt_delete_ok env"
    and "rt_mark_ok env" and "lg_pruned_through lg = None"
    and "parse_cursor item = Some c" and "c < ev_seq r - n"
  shows "lg_events (snd (metalbear_sequencer_retain env ts n lg)) = [r] \<and>
         wk_outdated (prepare_worker True True (snd (metalbear_sequencer_retain env ts n lg))
           (snd (metalbear_sequencer_retain env ts n lg)) item)"
proof -
  let ?lg = "snd (metalbear_sequencer_retain env ts n lg)"
  have "\<forall>x \<in> set A. ev_seq x < ev_seq r"
    using assms(1,2) by (simp add: log_ok_def sorted_wrt_append)
  then have cur: "current_locked True lg = ev_seq r"
    using assms(2) by (auto simp: current_locked_def intro!: Max_eqI)
  let ?old = "\<lambda>x. ev_seq x \<le> ev_seq r - n \<and> text_less (ev_created_at x) ts"
  have A: "filter ?old A = A" "filter (\<lambda>x. \<not> ?old x) A = []"
    using assms(5) by (auto simp: filter_empty_conv filter_id_conv)
  have after: "?lg = lg\<lparr>lg_events := [r], lg_pruned_through := Some (ev_seq r - n)\<rparr>"
    unfolding metalbear_sequencer_retain_def Let_def
    using assms(2-4,6-11) cur A by simp
  have "current_locked True ?lg = ev_seq r" by (simp add: after current_locked_def)
  moreover have "pruned_through True ?lg = ev_seq r - n" by (simp add: after pruned_through_def)
  ultimately show ?thesis
    using assms(4,6,12,13) after
    by (simp add: prepare_worker_def parse_cursor_def split: cursor_param.splits)
qed

section \<open>Purging\<close>

lemma keep_max_of_sorted:
  fixes f :: "'a \<Rightarrow> int"
  assumes "sorted_wrt (<) (map f ys)" and "ys \<noteq> []"
  shows "filter (\<lambda>y. \<not> f y < Max (f ` set ys)) ys = [last ys]"
proof -
  obtain zs z where ys: "ys = zs @ [z]" using assms(2) by (metis rev_exhaust)
  have less: "\<forall>y \<in> set zs. f y < f z"
    using assms(1) by (simp add: ys sorted_wrt_append)
  then have "Max (f ` set ys) = f z"
    by (intro Max_eqI) (auto simp: ys)
  then show ?thesis using less by (simp add: ys filter_empty_conv)
qed

text \<open>Purging an account removes all of its rows but the newest: of the rows taken for the
  account's exactly the last stays, every other row stays where it was, the count reported is the
  number of rows removed, and no retention mark is written.\<close>

theorem purge_keeps_last:
  assumes "log_ok lg" and "metalbear_sequencer_purge_account p d (Some did) lg = (WF_OK, n, lg')"
  shows "filter (purge_matches did) (lg_events lg') =
           (if filter (purge_matches did) (lg_events lg) = [] then []
            else [last (filter (purge_matches did) (lg_events lg))]) \<and>
         filter (\<lambda>r. \<not> purge_matches did r) (lg_events lg') =
           filter (\<lambda>r. \<not> purge_matches did r) (lg_events lg) \<and>
         n + length (lg_events lg') = length (lg_events lg) \<and>
         lg_pruned_through lg' = lg_pruned_through lg \<and> lg_sequence lg' = lg_sequence lg"
proof -
  let ?ys = "filter (purge_matches did) (lg_events lg)"
  let ?gone = "\<lambda>r. purge_matches did r \<and> ev_seq r < Max (ev_seq ` set ?ys)"
  have res: "lg' = lg\<lparr>lg_events := filter (\<lambda>r. \<not> ?gone r) (lg_events lg)\<rparr>"
    "n = length (filter ?gone (lg_events lg))"
    using assms(2)
    by (auto simp: metalbear_sequencer_purge_account_def Let_def split: if_splits)
  have "sorted_wrt (<) (map ev_seq ?ys)"
    using assms(1) by (simp add: log_ok_def sorted_map_filter)
  then have "?ys \<noteq> [] \<Longrightarrow> filter (\<lambda>y. \<not> ev_seq y < Max (ev_seq ` set ?ys)) ?ys = [last ?ys]"
    by (rule keep_max_of_sorted)
  moreover have "filter (purge_matches did) (filter (\<lambda>r. \<not> ?gone r) (lg_events lg)) =
      filter (\<lambda>y. \<not> ev_seq y < Max (ev_seq ` set ?ys)) ?ys"
    unfolding filter_filter by (intro filter_cong refl) blast
  moreover have "filter (\<lambda>r. \<not> purge_matches did r) (filter (\<lambda>r. \<not> ?gone r) (lg_events lg)) =
      filter (\<lambda>r. \<not> purge_matches did r) (lg_events lg)"
    unfolding filter_filter by (intro filter_cong refl) blast
  moreover have "n + length (lg_events lg') = length (lg_events lg)"
    using filter_length_split [of ?gone "lg_events lg"] by (simp add: res)
  ultimately show ?thesis
    by (cases "?ys = []") (simp_all add: res(1))
qed

section \<open>Reconciling: laws\<close>

definition row_skipped :: "decoder \<Rightarrow> string \<Rightarrow> event_row \<Rightarrow> bool" where
  "row_skipped decode did r \<longleftrightarrow>
     ev_frame r = [] \<or>
     (case decode (ev_frame r) of
        None \<Rightarrow> True
      | Some event \<Rightarrow> (case event_rev event of None \<Rightarrow> True | Some (d, _) \<Rightarrow> d \<noteq> did))"

lemma scan_rev_skip:
  "\<forall>r \<in> set xs. row_skipped decode did r \<Longrightarrow>
   scan_rev decode did head_rev (xs @ ys) = scan_rev decode did head_rev ys"
  by (induction xs) (auto simp: row_skipped_def split: option.splits)

lemma append_event_OkD:
  assumes "append_event sz publish env event s = (WF_OK, t)" and "log_ok (sq_log s)"
    and "\<forall>e. publish e \<noteq> Inl WF_OK"
  obtains stamped frame row where
    "stamp_event sz (lg_sequence (sq_log s) + 1) (ap_now env) event = Some stamped"
    and "publish stamped = Inr frame" and "ev_frame row = frame"
    and "lg_events (sq_log t) = lg_events (sq_log s) @ [row]"
proof -
  have "\<not> (sq_closing s \<or> \<not> ap_begin_ok env)"
    using assms(1) by (auto simp: append_event_def split: if_splits)
  then obtain lg' where lg': "append_transaction sz publish env event (sq_log s) = Inr lg'"
      "sq_log t = lg'"
    using assms(1,3)
    by (auto simp: append_event_def append_transaction_def Let_def
        split: if_splits option.splits sum.splits)
  show thesis
    by (rule append_transaction_InrD [OF lg'(1) assms(2)]) (rule that, simp_all add: lg'(2))
qed

text \<open>Reconciling a repository settles: with a codec that decodes what it encodes and a DID and
  revision that fit their buffers, once it has succeeded, a later one for the same head changes
  nothing, also after rows of other accounts have come behind.\<close>

theorem reconcile_repo_idempotent:
  assumes "metalbear_sequencer_reconcile_repo sz publish decode q env repo s = (WF_OK, t)"
    and "log_ok (sq_log s)"
    and "\<forall>e f. publish e = Inr f \<longrightarrow> f \<noteq> [] \<and> decode f = Some e"
    and "\<forall>e. publish e \<noteq> Inl WF_OK" and "rv_export repo \<noteq> Inl WF_OK"
    and "\<forall>r. rv_head repo = Inr r \<longrightarrow> length r < sz_sync_rev sz"
    and "length (rv_did repo) < sz_sync_did sz"
    and "lg_events (sq_log u) = lg_events (sq_log t) @ later"
    and "\<forall>r \<in> set later. row_skipped decode (rv_did repo) r"
  shows "metalbear_sequencer_reconcile_repo sz publish decode True env' repo u = (WF_OK, u)"
proof (cases "rv_head repo")
  case (Inl st)
  then show ?thesis
    using assms(1) by (auto simp: metalbear_sequencer_reconcile_repo_def split: if_splits)
next
  case (Inr head_rev)
  let ?scan = "scan_rev decode (rv_did repo) head_rev"
  have found: "?scan (rev (lg_events (sq_log t)))"
  proof (cases "q \<and> ?scan (rev (lg_events (sq_log s)))")
    case True
    then show ?thesis
      using assms(1) Inr by (simp add: metalbear_sequencer_reconcile_repo_def)
  next
    case False
    obtain blocks where ap: "append_event sz publish env (sync_of sz (rv_did repo) head_rev blocks) s
        = (WF_OK, t)"
      using assms(1,5) Inr False
      by (auto simp: metalbear_sequencer_reconcile_repo_def split: sum.splits if_splits)
    show ?thesis
    proof (rule append_event_OkD [OF ap assms(2,4)])
      fix stamped frame row
      assume st: "stamp_event sz (lg_sequence (sq_log s) + 1) (ap_now env)
            (sync_of sz (rv_did repo) head_rev blocks) = Some stamped"
        and "publish stamped = Inr frame" "ev_frame row = frame"
        and ev: "lg_events (sq_log t) = lg_events (sq_log s) @ [row]"
      then have "ev_frame row \<noteq> []" "decode (ev_frame row) = Some stamped"
        using assms(3) by auto
      moreover have "event_rev stamped = Some (rv_did repo, head_rev)"
        using st assms(6,7) Inr by (auto simp: stamp_event_def sync_of_def event_rev_def)
      ultimately show ?thesis by (simp add: ev)
    qed
  qed
  then have "?scan (rev (lg_events (sq_log u)))"
    using assms(8,9) scan_rev_skip [of "rev later"] by simp
  then show ?thesis using Inr by (simp add: metalbear_sequencer_reconcile_repo_def)
qed

text \<open>On a new log seeded from the clock the newest number is that of no row, so it counts as
  0: until the first event is appended every positive cursor is refused as being in the future,
  those below the seeded floor included.\<close>

theorem seeded_log_refuses_cursors:
  assumes "metalbear_sequencer_open env mx None = (WF_OK, Some s)"
    and "sd_delete_ok (oe_seed env)" and "parse_cursor item = Some c" and "0 < c"
  shows "wk_error (prepare_worker True q (sq_log s) lg2 item) =
           Some (''FutureCursor'', ''Cursor in the future.'') \<and>
         (0 < sd_time (oe_seed env) \<longrightarrow> sd_prepare_ok (oe_seed env) \<longrightarrow> sd_insert_ok (oe_seed env) \<longrightarrow>
            lg_sequence (sq_log s) = sd_time (oe_seed env))"
proof -
  have s: "sq_log s = seed_sequence_floor (oe_seed env) empty_log"
    using assms(1)
    by (auto simp: metalbear_sequencer_open_def add_did_column_def empty_log_def split: if_splits)
  then have "lg_events (sq_log s) = []"
    using assms(2) by (simp add: seed_sequence_floor_def insert_row_def empty_log_def Let_def)
  then have "current_locked True (sq_log s) = 0" by (simp add: current_locked_def)
  moreover have "0 < sd_time (oe_seed env) \<Longrightarrow> sd_prepare_ok (oe_seed env) \<Longrightarrow>
      sd_insert_ok (oe_seed env) \<Longrightarrow> lg_sequence (sq_log s) = sd_time (oe_seed env)"
    using assms(2) seed_fresh [OF empty_log_ok] s by (simp add: empty_log_def)
  ultimately show ?thesis
    using assms(3,4) by (simp add: prepare_worker_def)
qed

section \<open>The properties at concrete inputs\<close>

definition demo_sizes :: wf_sizes where
  "demo_sizes =
     \<lparr>sz_commit_did = 256, sz_commit_rev = 64, sz_commit_since = 64, sz_commit_time = 64,
      sz_sync_did = 256, sz_sync_rev = 64, sz_sync_time = 64, sz_identity_did = 256,
      sz_identity_handle = 256, sz_identity_time = 64, sz_account_did = 256,
      sz_account_status = 64, sz_account_time = 64, sz_info_name = 64, sz_info_message = 256,
      sz_op_action = 16\<rparr>"

definition demo_env :: append_env where
  "demo_env = \<lparr>ap_begin_ok = True, ap_insert_ok = True, ap_update_ok = True, ap_commit_ok = True,
               ap_now = ''2026-01-02T03:04:05.006Z''\<rparr>"

definition demo_stamped :: subscribe_event where
  "demo_stamped = WF_SUBSCRIBE_EVENT_SYNC
     \<lparr>sy_seq = 1001, sy_did = ''did:plc:a'', sy_time = ''2026-01-02T03:04:05.006Z'',
      sy_rev = ''3kr'', sy_blocks = [7]\<rparr>"

definition demo_publish :: publisher where
  "demo_publish e = (if e = demo_stamped then Inr [1, 2] else Inl WF_ERR_INTERNAL)"

definition demo_decode :: decoder where
  "demo_decode f = (if f = [1, 2] then Some demo_stamped else None)"

definition demo_row :: "int \<Rightarrow> string \<Rightarrow> string \<Rightarrow> event_row" where
  "demo_row n at did = \<lparr>ev_seq = n, ev_frame = [of_int n], ev_created_at = at, ev_did = Some did\<rparr>"

definition demo_log :: "event_row list \<Rightarrow> int \<Rightarrow> event_log" where
  "demo_log rows n = \<lparr>lg_events = rows, lg_sequence = n, lg_pruned_through = None, lg_has_did = True\<rparr>"

definition demo_sequencer :: "event_log \<Rightarrow> sequencer" where
  "demo_sequencer lg = \<lparr>sq_log = lg, sq_closing = False, sq_active_subscribers = 0,
     sq_notify = True, sq_notified = 0, sq_metrics = metrics_start\<rparr>"

definition demo_rows :: "event_row list" where
  "demo_rows = [demo_row 5 ''2025'' ''did:plc:a'', demo_row 6 ''2025'' ''did:plc:b'',
                demo_row 900 ''2025'' ''did:plc:a'']"

definition demo_repo :: repo_view where
  "demo_repo = \<lparr>rv_did = ''did:plc:a'', rv_head = Inr ''3kr'', rv_export = Inr [7]\<rparr>"

definition demo_view :: wait_view where
  "demo_view = \<lparr>wv_log = demo_log demo_rows 900, wv_closing = False, wv_query_ok = True,
     wv_alloc_ok = True, wv_stream_closed = False\<rparr>"

definition demo_turn :: turn_env where
  "demo_turn = \<lparr>te_views = [demo_view], te_closing = False, te_stream_closed = False,
     te_send = WF_OK, te_ping = WF_OK, te_now = 0\<rparr>"

definition demo_worker :: subscriber_worker where
  "demo_worker = \<lparr>wk_cursor = 5, wk_error = None, wk_outdated = False\<rparr>"

definition demo_retain :: retain_env where
  "demo_retain = \<lparr>rt_current_ok = True, rt_prepare_ok = True, rt_delete_ok = True,
     rt_stale_changes = 0, rt_mark_ok = True\<rparr>"

lemmas demo_defs = demo_sizes_def demo_env_def demo_stamped_def demo_publish_def demo_decode_def
  demo_row_def demo_log_def demo_sequencer_def demo_rows_def demo_repo_def demo_view_def
  demo_turn_def demo_worker_def demo_retain_def

lemma demo_log_ok: "log_ok (demo_log demo_rows 900)" "log_ok (demo_log [] 1000)"
  by (simp_all add: log_ok_def demo_defs)

lemma demo_append:
  "append_event demo_sizes demo_publish demo_env (sync_of demo_sizes ''did:plc:a'' ''3kr'' [7])
     (demo_sequencer (demo_log [] 1000)) =
   (WF_OK, (demo_sequencer (demo_log [\<lparr>ev_seq = 1001, ev_frame = [1, 2],
      ev_created_at = ''2026-01-02T03:04:05.006Z'', ev_did = Some ''did:plc:a''\<rparr>] 1001))
      \<lparr>sq_notified := 1\<rparr>)"
  by (simp add: demo_defs append_event_def append_transaction_def next_rowid_def current_locked_def
      sync_of_def snprintf_cut_def stamp_event_def event_did_def insert_row_def set_frame_def
      is_commit_event_def SQLITE_MAX_ROWID_def)

lemma demo_step:
  "seq_step\<^sup>*\<^sup>* (demo_sequencer (demo_log [] 1000))
     (snd (append_event demo_sizes demo_publish demo_env
        (sync_of demo_sizes ''did:plc:a'' ''3kr'' [7]) (demo_sequencer (demo_log [] 1000))))"
  by (rule r_into_rtranclp, rule step_append)

theorem sequencer_numbers_grow_witness:
  "log_ok (sq_log (snd (append_event demo_sizes demo_publish demo_env
      (sync_of demo_sizes ''did:plc:a'' ''3kr'' [7]) (demo_sequencer (demo_log [] 1000)))))"
  using sequencer_numbers_grow [OF demo_step] demo_log_ok(2) by (simp add: demo_sequencer_def)

theorem append_event_atomic_witness:
  "lg_sequence (sq_log (snd (append_event demo_sizes demo_publish demo_env
      (sync_of demo_sizes ''did:plc:a'' ''3kr'' [7]) (demo_sequencer (demo_log [] 1000))))) = 1001"
  using append_event_atomic [OF demo_append] demo_log_ok(2)
  by (simp add: demo_append, simp add: demo_defs)

theorem subscriber_delivers_exactly_witness:
  "map ev_seq (ss_delivered (subscriber_run demo_sizes demo_publish (\<lambda>_ _ _. None) 20 0 demo_worker
     [demo_turn])) = [6]"
proof -
  have "sees_prefix (demo_log demo_rows 900) demo_turn"
    by (auto simp: sees_prefix_def demo_turn_def demo_view_def intro: exI [of _ 3] simp: demo_log_def demo_rows_def)
  then show ?thesis
    using subscriber_delivers_exactly [OF demo_log_ok(1) _ refl, where turns = "[demo_turn]" and sz = demo_sizes
        and publish = demo_publish and publish_error = "\<lambda>_ _ _. None" and ping = 20 and now = 0
        and w = demo_worker]
    by (simp add: demo_defs subscriber_run_def subscriber_start_def subscriber_preamble_def
        subscriber_turn_def read_next_locked_def)
qed

theorem subscriber_catches_up_witness:
  "map ev_seq (ss_delivered (subscriber_run demo_sizes demo_publish (\<lambda>_ _ _. None) 20 0 demo_worker
     [demo_turn, demo_turn, demo_turn])) = [6, 900]"
  using subscriber_catches_up [of "demo_log demo_rows 900" "[demo_turn, demo_turn, demo_turn]" demo_worker
      demo_sizes demo_publish "\<lambda>_ _ _. None" 20 0] demo_log_ok(1)
  by (simp add: demo_defs clean_turn_def clean_view_def)

lemma demo_retain_eq:
  "metalbear_sequencer_retain demo_retain ''2026'' 100 (demo_log demo_rows 900) =
   (WF_OK, (demo_log [demo_row 900 ''2025'' ''did:plc:a''] 900)\<lparr>lg_pruned_through := Some 800\<rparr>)"
  by (simp add: demo_defs metalbear_sequencer_retain_def current_locked_def)

lemma demo_cursor: "parse_cursor (CURSOR_STRING ''4'') = Some 4" "parse_cursor (CURSOR_STRING ''7'') = Some 7"
  by (simp_all add: parse_cursor_def strtoll10_def c_isspace_def c_isdigit_def digits_value_def Let_def)

theorem retain_never_silent_witness:
  "wk_outdated (prepare_worker True True (demo_log demo_rows 900)
     ((demo_log [demo_row 900 ''2025'' ''did:plc:a''] 900)\<lparr>lg_pruned_through := Some 800\<rparr>)
     (CURSOR_STRING ''4''))"
  using retain_never_silent [of "demo_row 5 ''2025'' ''did:plc:a''", OF _ demo_retain_eq _ _ rtranclp.rtrancl_refl demo_cursor(1),
      where s = "demo_sequencer (demo_log [] 0)" and ?lg1.0 = "demo_log demo_rows 900"]
  by (simp add: demo_defs prepare_worker_def demo_cursor [unfolded demo_defs] current_locked_def Let_def)

theorem retain_counts_numbers_witness:
  "length (lg_events (snd (metalbear_sequencer_retain demo_retain ''2026'' 100 (demo_log demo_rows 900)))) = 1"
  using retain_counts_numbers [OF demo_log_ok(1), of "[demo_row 5 ''2025'' ''did:plc:a'', demo_row 6 ''2025'' ''did:plc:b'']"
      "demo_row 900 ''2025'' ''did:plc:a''" 100 "''2026''" demo_retain "CURSOR_STRING ''7''" 7] demo_cursor(2)
  by (simp add: demo_log_def demo_rows_def, simp add: demo_row_def demo_retain_def)

theorem purge_keeps_last_witness:
  "map ev_seq (lg_events (snd (snd (metalbear_sequencer_purge_account True True (Some ''did:plc:a'')
     (demo_log demo_rows 900))))) = [6, 900] \<and>
   filter (purge_matches ''did:plc:a'') (lg_events (snd (snd
     (metalbear_sequencer_purge_account True True (Some ''did:plc:a'') (demo_log demo_rows 900))))) =
   [demo_row 900 ''2025'' ''did:plc:a'']"
proof -
  have eq: "metalbear_sequencer_purge_account True True (Some ''did:plc:a'') (demo_log demo_rows 900) =
      (WF_OK, 1, demo_log [demo_row 6 ''2025'' ''did:plc:b'', demo_row 900 ''2025'' ''did:plc:a''] 900)"
    by (simp add: demo_defs metalbear_sequencer_purge_account_def purge_matches_def)
  show ?thesis
    using purge_keeps_last [OF demo_log_ok(1) eq]
    by (simp add: eq, simp add: demo_defs purge_matches_def)
qed

theorem reconcile_repo_idempotent_witness:
  "metalbear_sequencer_reconcile_repo demo_sizes demo_publish demo_decode True demo_env demo_repo
     (demo_sequencer (demo_log [\<lparr>ev_seq = 1001, ev_frame = [1, 2],
        ev_created_at = ''2026-01-02T03:04:05.006Z'', ev_did = Some ''did:plc:a''\<rparr>,
        demo_row 1002 ''2026'' ''did:plc:b''] 1002)) =
   (WF_OK, demo_sequencer (demo_log [\<lparr>ev_seq = 1001, ev_frame = [1, 2],
        ev_created_at = ''2026-01-02T03:04:05.006Z'', ev_did = Some ''did:plc:a''\<rparr>,
        demo_row 1002 ''2026'' ''did:plc:b''] 1002))"
proof -
  have "metalbear_sequencer_reconcile_repo demo_sizes demo_publish demo_decode True demo_env demo_repo
      (demo_sequencer (demo_log [] 1000)) =
    append_event demo_sizes demo_publish demo_env (sync_of demo_sizes ''did:plc:a'' ''3kr'' [7])
      (demo_sequencer (demo_log [] 1000))"
    by (simp add: metalbear_sequencer_reconcile_repo_def demo_repo_def demo_sequencer_def demo_log_def)
  note first = this [unfolded demo_append]
  show ?thesis
    by (rule reconcile_repo_idempotent [OF first, where later = "[demo_row 1002 ''2026'' ''did:plc:b'']"])
      (simp_all add: demo_defs log_ok_def row_skipped_def)
qed

theorem seeded_log_refuses_cursors_witness:
  "wk_error (prepare_worker True True
     (seed_sequence_floor \<lparr>sd_count_ok = True, sd_prepare_ok = True, sd_insert_ok = True,
        sd_delete_ok = True, sd_time = 1700000000\<rparr> empty_log) empty_log (CURSOR_STRING ''7'')) =
   Some (''FutureCursor'', ''Cursor in the future.'')"
proof -
  let ?seed = "\<lparr>sd_count_ok = True, sd_prepare_ok = True, sd_insert_ok = True,
        sd_delete_ok = True, sd_time = 1700000000\<rparr>"
  let ?s = "\<lparr>sq_log = seed_sequence_floor ?seed empty_log, sq_closing = False,
      sq_active_subscribers = 0, sq_notify = False, sq_notified = 0, sq_metrics = metrics_start\<rparr>"
  have "metalbear_sequencer_open \<lparr>oe_open_ok = True, oe_create_ok = True, oe_info_ok = True,
      oe_alter_ok = True, oe_index_ok = True, oe_seed = ?seed\<rparr> metrics_start None = (WF_OK, Some ?s)"
    by (simp add: metalbear_sequencer_open_def add_did_column_def empty_log_def)
  from seeded_log_refuses_cursors [OF this _ demo_cursor(2)] show ?thesis by simp
qed

end
