(* ===== verification/Base64url.thy ===== *)
theory Base64url
  imports MB_Prelude
begin

text \<open>
  The base64url codec of \<open>src/oauth/auth.c\<close>, without padding, on bytes and 32-bit words as in
  the code: \<open>drop_bit\<close> and \<open>push_bit\<close> are its shifts, \<open>ucast\<close> its conversions
  between \<open>unsigned char\<close> and \<open>uint32_t\<close>.
\<close>

unbundle bit_operations_syntax

section \<open>The codec\<close>

definition b64url_alphabet :: string where
  "b64url_alphabet = ''ABCDEFGHIJKLMNOPQRSTUVWXYZabcdefghijklmnopqrstuvwxyz0123456789-_''"

definition b64_char :: "32 word \<Rightarrow> char" where
  "b64_char n = b64url_alphabet ! unat (n AND 63)"

fun base64url_encode :: "byte list \<Rightarrow> string" where
  "base64url_encode (a # b # c # rest) =
     (let n = push_bit 16 (ucast a :: 32 word) OR push_bit 8 (ucast b) OR ucast c
      in b64_char (drop_bit 18 n) # b64_char (drop_bit 12 n) # b64_char (drop_bit 6 n) #
         b64_char n # base64url_encode rest)"
| "base64url_encode [a] =
     (let n = push_bit 16 (ucast a :: 32 word)
      in [b64_char (drop_bit 18 n), b64_char (drop_bit 12 n)])"
| "base64url_encode [a, b] =
     (let n = push_bit 16 (ucast a :: 32 word) OR push_bit 8 (ucast b)
      in [b64_char (drop_bit 18 n), b64_char (drop_bit 12 n), b64_char (drop_bit 6 n)])"
| "base64url_encode [] = []"

definition base64url_value :: "char \<Rightarrow> int" where
  "base64url_value ch =
     (let v = of_char ch :: int
      in if v \<ge> 65 \<and> v \<le> 90 then v - 65
         else if v \<ge> 97 \<and> v \<le> 122 then v - 97 + 26
         else if v \<ge> 48 \<and> v \<le> 57 then v - 48 + 52
         else if v = 45 then 62
         else if v = 95 then 63
         else -1)"

fun decode_groups :: "string \<Rightarrow> byte list option" where
  "decode_groups (p # q # r # s # rest) =
     (let a = base64url_value p; b = base64url_value q; c = base64url_value r; d = base64url_value s
      in if a < 0 \<or> b < 0 \<or> c < 0 \<or> d < 0 then None
         else
           let n = push_bit 18 (word_of_int a :: 32 word) OR push_bit 12 (word_of_int b) OR
                   push_bit 6 (word_of_int c) OR word_of_int d
           in (case decode_groups rest of
                 None \<Rightarrow> None
               | Some out \<Rightarrow> Some (ucast (drop_bit 16 n) # ucast (drop_bit 8 n) # ucast n # out)))"
| "decode_groups [p, q] =
     (let a = base64url_value p; b = base64url_value q
      in if a < 0 \<or> b < 0 \<or> b AND 15 \<noteq> 0 then None
         else Some [ucast (drop_bit 16 (push_bit 18 (word_of_int a :: 32 word) OR
                                        push_bit 12 (word_of_int b)))])"
| "decode_groups [p, q, r] =
     (let a = base64url_value p; b = base64url_value q; c = base64url_value r
      in if a < 0 \<or> b < 0 \<or> c < 0 \<or> c AND 3 \<noteq> 0 then None
         else
           let n = push_bit 18 (word_of_int a :: 32 word) OR push_bit 12 (word_of_int b) OR
                   push_bit 6 (word_of_int c)
           in Some [ucast (drop_bit 16 n), ucast (drop_bit 8 n)])"
| "decode_groups [p] = Some []"
| "decode_groups [] = Some []"

text \<open>The loop leaves at most one character over, and only when the length is refused up front.\<close>

definition base64url_decode :: "string \<Rightarrow> byte list option" where
  "base64url_decode s = (if length s mod 4 = 1 then None else decode_groups s)"

section \<open>One sextet\<close>

lemma alphabet_codes:
  "map of_char b64url_alphabet = [65..<91] @ [97..<123] @ [48..<58] @ [45, 95 :: nat]"
  by code_simp

lemma length_alphabet: "length b64url_alphabet = 64"
  using alphabet_codes [THEN arg_cong [where f = length]] by simp

lemma alphabet_code:
  assumes "k < 64"
  shows "(of_char (b64url_alphabet ! k) :: nat) =
    (if k < 26 then k + 65 else if k < 52 then k - 26 + 97 else if k < 62 then k - 52 + 48
     else if k = 62 then 45 else 95)"
proof -
  have "of_char (b64url_alphabet ! k) = map of_char b64url_alphabet ! k"
    using assms by (simp add: length_alphabet)
  also have "\<dots> = ([65..<91] @ [97..<123] @ [48..<58] @ [45, 95 :: nat]) ! k"
    by (simp only: alphabet_codes)
  finally show ?thesis
    using assms by (auto simp: nth_append nth_Cons')
qed

lemma of_char_int: "(of_char c :: int) = int (of_char c)"
  by (simp only: of_nat_of_char)

lemma alphabet_value: "k < 64 \<Longrightarrow> base64url_value (b64url_alphabet ! k) = int k"
  unfolding base64url_value_def Let_def of_char_int alphabet_code by (auto simp: of_nat_diff)

lemma value_alphabet:
  assumes "0 \<le> base64url_value ch"
  shows "base64url_value ch < 64 \<and> b64url_alphabet ! nat (base64url_value ch) = ch"
proof -
  let ?v = "base64url_value ch"
  have "?v < 64" by (simp add: base64url_value_def Let_def)
  then have k: "nat ?v < 64" by simp
  have "(of_char (b64url_alphabet ! nat ?v) :: nat) = of_char ch"
    unfolding alphabet_code [OF k]
    using assms unfolding base64url_value_def Let_def of_char_int
    by (auto split: if_splits simp: nat_diff_distrib)
  then have "b64url_alphabet ! nat ?v = ch" by (simp only: of_char_eq_iff)
  then show ?thesis using \<open>?v < 64\<close> by simp
qed

lemma mask_63: "(63 :: 32 word) = mask 6"
  by (simp add: mask_eq_exp_minus_1)

lemma and_63: "n AND 63 = take_bit 6 (n :: 32 word)"
  by (simp only: mask_63 take_bit_eq_mask)

lemma value_b64_char: "base64url_value (b64_char n) = uint (take_bit 6 n)"
proof -
  have "unat (take_bit 6 n) < 2 ^ 6"
    unfolding unsigned_take_bit_eq by (rule take_bit_nat_less_exp)
  then have "unat (n AND 63) < 64" by (simp only: and_63) simp
  then show ?thesis by (simp only: b64_char_def alphabet_value uint_nat and_63)
qed

lemma bit_63: "bit (63 :: 32 word) i \<longleftrightarrow> i < 6"
  unfolding mask_63 by (auto simp: bit_mask_iff)

lemma sextet_bit:
  assumes "0 \<le> k" and "k < 64"
  shows "bit (word_of_int k :: 32 word) i \<longleftrightarrow> i < 6 \<and> bit k i"
proof (cases "i < 6")
  case True
  then show ?thesis by (simp add: bit_word_of_int_iff)
next
  case False
  then have "(2::int) ^ 6 \<le> 2 ^ i" by (intro power_increasing) simp_all
  then have "k div 2 ^ i = 0" using assms by (intro div_pos_pos_trivial) simp_all
  then have "\<not> bit k i" by (simp add: bit_iff_odd)
  then show ?thesis using False by (simp add: bit_word_of_int_iff)
qed

lemma word_b64_char: "(word_of_int (base64url_value (b64_char n)) :: 32 word) = take_bit 6 n"
  by (simp only: value_b64_char word_of_int_uint)

lemma b64_char_nonneg: "\<not> base64url_value (b64_char n) < 0"
  by (simp only: value_b64_char) simp

section \<open>One group\<close>

lemma bit_byte: "bit (b :: byte) i \<Longrightarrow> i < 8"
  by (drule bit_imp_le_length) simp

text \<open>Encoding then decoding: the sextets of a 24-bit number put together again.\<close>

lemma join_sextets:
  "push_bit 18 (take_bit 6 (drop_bit 18 n)) OR push_bit 12 (take_bit 6 (drop_bit 12 n)) OR
   push_bit 6 (take_bit 6 (drop_bit 6 n)) OR take_bit 6 n = take_bit 24 (n :: 32 word)"
proof (rule bit_word_eqI)
  fix i assume "i < LENGTH(32)"
  consider "i < 6" | "6 \<le> i \<and> i < 12" | "12 \<le> i \<and> i < 18" | "18 \<le> i \<and> i < 24" | "24 \<le> i"
    by linarith
  then show "bit (push_bit 18 (take_bit 6 (drop_bit 18 n)) OR push_bit 12 (take_bit 6 (drop_bit 12 n)) OR
      push_bit 6 (take_bit 6 (drop_bit 6 n)) OR take_bit 6 n) i = bit (take_bit 24 n) i"
    using \<open>i < LENGTH(32)\<close>
    by cases (auto simp: bit_or_iff bit_push_bit_iff bit_drop_bit_eq bit_take_bit_iff)
qed

lemma bytes_of_group:
  fixes a b c :: byte
  defines "n \<equiv> push_bit 16 (ucast a :: 32 word) OR push_bit 8 (ucast b) OR ucast c"
  shows "ucast (drop_bit 16 (take_bit 24 n)) = a" and "ucast (drop_bit 8 (take_bit 24 n)) = b"
    and "ucast (take_bit 24 n) = c"
  unfolding n_def
  by (rule bit_word_eqI; auto simp: bit_or_iff bit_push_bit_iff bit_drop_bit_eq bit_take_bit_iff
      bit_ucast_iff dest: bit_byte)+

lemma group_one:
  "(take_bit 6 (drop_bit 12 (push_bit 16 (ucast (a :: byte) :: 32 word)))) AND mask 4 = 0"
  "ucast (drop_bit 16 (push_bit 18 (take_bit 6 (drop_bit 18 (push_bit 16 (ucast a :: 32 word)))) OR
      push_bit 12 (take_bit 6 (drop_bit 12 (push_bit 16 (ucast a :: 32 word)))))) = a"
proof -
  show "(take_bit 6 (drop_bit 12 (push_bit 16 (ucast a :: 32 word)))) AND mask 4 = 0"
    by (rule bit_word_eqI)
      (auto simp: bit_drop_bit_eq bit_push_bit_iff bit_take_bit_iff bit_mask_iff bit_and_iff)
  show "ucast (drop_bit 16 (push_bit 18 (take_bit 6 (drop_bit 18 (push_bit 16 (ucast a :: 32 word)))) OR
      push_bit 12 (take_bit 6 (drop_bit 12 (push_bit 16 (ucast a :: 32 word)))))) = a"
  proof (rule bit_word_eqI)
    fix i assume "i < LENGTH(8)"
    then consider "i < 2" | "2 \<le> i \<and> i < 8" by fastforce
    then show "bit (ucast (drop_bit 16 (push_bit 18 (take_bit 6 (drop_bit 18 (push_bit 16 (ucast a :: 32 word)))) OR
        push_bit 12 (take_bit 6 (drop_bit 12 (push_bit 16 (ucast a :: 32 word)))))) :: byte) i = bit a i"
      by cases (auto simp: bit_or_iff bit_push_bit_iff bit_drop_bit_eq bit_ucast_iff bit_take_bit_iff)
  qed
qed

lemma group_two:
  "(take_bit 6 (drop_bit 6 (push_bit 16 (ucast (a :: byte) :: 32 word) OR push_bit 8 (ucast (b :: byte))))) AND mask 2 = 0"
  "ucast (drop_bit 16 (push_bit 18 (take_bit 6 (drop_bit 18 (push_bit 16 (ucast a :: 32 word) OR push_bit 8 (ucast b)))) OR
     push_bit 12 (take_bit 6 (drop_bit 12 (push_bit 16 (ucast a :: 32 word) OR push_bit 8 (ucast b)))) OR
     push_bit 6 (take_bit 6 (drop_bit 6 (push_bit 16 (ucast a :: 32 word) OR push_bit 8 (ucast b)))))) = a"
  "ucast (drop_bit 8 (push_bit 18 (take_bit 6 (drop_bit 18 (push_bit 16 (ucast a :: 32 word) OR push_bit 8 (ucast b)))) OR
     push_bit 12 (take_bit 6 (drop_bit 12 (push_bit 16 (ucast a :: 32 word) OR push_bit 8 (ucast b)))) OR
     push_bit 6 (take_bit 6 (drop_bit 6 (push_bit 16 (ucast a :: 32 word) OR push_bit 8 (ucast b)))))) = b"
proof -
  let ?n = "push_bit 16 (ucast a :: 32 word) OR push_bit 8 (ucast b)"
  have low: "(take_bit 6 (drop_bit 6 ?n)) AND mask 2 = 0" and zero: "take_bit 6 ?n = 0"
    by (rule bit_word_eqI;
        auto simp: bit_or_iff bit_drop_bit_eq bit_push_bit_iff bit_take_bit_iff bit_mask_iff bit_and_iff)+
  show "(take_bit 6 (drop_bit 6 ?n)) AND mask 2 = 0" by (rule low)
  have join: "push_bit 18 (take_bit 6 (drop_bit 18 ?n)) OR push_bit 12 (take_bit 6 (drop_bit 12 ?n)) OR
      push_bit 6 (take_bit 6 (drop_bit 6 ?n)) = take_bit 24 ?n"
    using join_sextets [of ?n] by (simp only: zero or.right_neutral)
  show "ucast (drop_bit 16 (push_bit 18 (take_bit 6 (drop_bit 18 ?n)) OR push_bit 12 (take_bit 6 (drop_bit 12 ?n)) OR
      push_bit 6 (take_bit 6 (drop_bit 6 ?n)))) = a"
    "ucast (drop_bit 8 (push_bit 18 (take_bit 6 (drop_bit 18 ?n)) OR push_bit 12 (take_bit 6 (drop_bit 12 ?n)) OR
      push_bit 6 (take_bit 6 (drop_bit 6 ?n)))) = b"
    using bytes_of_group [where a = a and b = b and c = 0] by (simp_all only: join) simp_all
qed

lemma int_and_low: "uint (w :: 32 word) AND 15 = uint (w AND mask 4)" "uint w AND 3 = uint (w AND mask 2)"
  by (simp_all add: unsigned_and_eq mask_eq_exp_minus_1)

lemma decode_encode: "decode_groups (base64url_encode bs) = Some bs"
proof (induction bs rule: base64url_encode.induct)
  case (1 a b c rest)
  then show ?case
    using bytes_of_group [where a = a and b = b and c = c]
    by (simp only: base64url_encode.simps Let_def decode_groups.simps word_b64_char join_sextets
        b64_char_nonneg if_False simp_thms option.case)
next
  case (2 a)
  then show ?case
    using group_one [of a]
    by (simp only: base64url_encode.simps Let_def decode_groups.simps word_b64_char value_b64_char
        int_and_low uint_0_eq word_of_int_uint) simp
next
  case (3 a b)
  then show ?case
    using group_two [of a b]
    by (simp only: base64url_encode.simps Let_def decode_groups.simps word_b64_char value_b64_char
        int_and_low uint_0_eq word_of_int_uint) simp
qed simp

text \<open>Decoding then encoding: a number put together from sextets gives them back.\<close>

definition sextet :: "32 word \<Rightarrow> bool" where
  "sextet w \<longleftrightarrow> (\<forall>i. bit w i \<longrightarrow> i < 6)"

lemma sextetD: "sextet w \<Longrightarrow> bit w i \<Longrightarrow> i < 6"
  by (simp add: sextet_def)

lemma sextet_high: "sextet w \<Longrightarrow> 6 \<le> i \<Longrightarrow> \<not> bit w i"
  using sextetD by fastforce

lemma sextet_value: "0 \<le> base64url_value ch \<Longrightarrow> sextet (word_of_int (base64url_value ch))"
  using value_alphabet [of ch] by (simp add: sextet_def sextet_bit)

lemma b64_char_back:
  assumes "0 \<le> base64url_value ch" and "take_bit 6 w = word_of_int (base64url_value ch)"
  shows "b64_char w = ch"
proof -
  have v: "base64url_value ch < 64" "b64url_alphabet ! nat (base64url_value ch) = ch"
    using value_alphabet [OF assms(1)] by simp_all
  have "unat (word_of_int (base64url_value ch) :: 32 word) = nat (base64url_value ch)"
    using assms(1) v(1) by (simp add: unsigned_of_int take_bit_int_eq_self)
  then show ?thesis
    by (simp only: b64_char_def and_63 assms(2) v(2))
qed

lemma low_bits_clear:
  "b AND 15 = 0 \<Longrightarrow> i < 4 \<Longrightarrow> \<not> bit (b :: int) i"
  "b AND 3 = 0 \<Longrightarrow> i < 2 \<Longrightarrow> \<not> bit b i"
proof -
  have "(15 :: int) = mask 4" "(3 :: int) = mask 2" by (simp_all add: mask_eq_exp_minus_1)
  then show "b AND 15 = 0 \<Longrightarrow> i < 4 \<Longrightarrow> \<not> bit (b :: int) i"
    "b AND 3 = 0 \<Longrightarrow> i < 2 \<Longrightarrow> \<not> bit b i"
    by (metis bit_0_eq bit_and_iff bit_mask_iff bot_apply bot_bool_def possible_bit_int)+
qed

lemma sextets_of_join:
  assumes "sextet a" and "sextet b" and "sextet c" and "sextet d"
  defines "n \<equiv> push_bit 18 a OR push_bit 12 b OR push_bit 6 c OR d"
  shows "take_bit 6 (drop_bit 18 n) = a" and "take_bit 6 (drop_bit 12 n) = b"
    and "take_bit 6 (drop_bit 6 n) = c" and "take_bit 6 n = d" and "bit n i \<Longrightarrow> i < 24"
  using assms(1-4) unfolding n_def
  by (auto simp: bit_or_iff bit_push_bit_iff bit_drop_bit_eq bit_take_bit_iff
      sextet_high intro!: bit_word_eqI dest: sextetD)

lemma rejoin_bytes:
  assumes "\<And>i. bit n i \<Longrightarrow> i < 24"
  shows "push_bit 16 (ucast (ucast (drop_bit 16 n) :: byte) :: 32 word) OR
    push_bit 8 (ucast (ucast (drop_bit 8 n) :: byte)) OR ucast (ucast n :: byte) = (n :: 32 word)"
proof (rule bit_word_eqI)
  fix i assume "i < LENGTH(32)"
  consider "i < 8" | "8 \<le> i \<and> i < 16" | "16 \<le> i \<and> i < 24" | "24 \<le> i" by linarith
  then show "bit (push_bit 16 (ucast (ucast (drop_bit 16 n) :: byte) :: 32 word) OR
    push_bit 8 (ucast (ucast (drop_bit 8 n) :: byte)) OR ucast (ucast n :: byte)) i = bit n i"
    using assms [of i] \<open>i < LENGTH(32)\<close>
    by cases (auto simp: bit_or_iff bit_push_bit_iff bit_drop_bit_eq bit_ucast_iff)
qed

lemma four_back:
  fixes p q r s :: char
  defines "n \<equiv> push_bit 18 (word_of_int (base64url_value p) :: 32 word) OR
     push_bit 12 (word_of_int (base64url_value q)) OR push_bit 6 (word_of_int (base64url_value r)) OR
     word_of_int (base64url_value s)"
  assumes "0 \<le> base64url_value p" "0 \<le> base64url_value q" "0 \<le> base64url_value r"
    "0 \<le> base64url_value s"
  shows "push_bit 16 (ucast (ucast (drop_bit 16 n) :: byte) :: 32 word) OR
      push_bit 8 (ucast (ucast (drop_bit 8 n) :: byte)) OR ucast (ucast n :: byte) = n"
    and "b64_char (drop_bit 18 n) = p" and "b64_char (drop_bit 12 n) = q"
    and "b64_char (drop_bit 6 n) = r" and "b64_char n = s"
proof -
  note sx = sextets_of_join [OF assms(2-5) [THEN sextet_value], folded n_def]
  show "push_bit 16 (ucast (ucast (drop_bit 16 n) :: byte) :: 32 word) OR
      push_bit 8 (ucast (ucast (drop_bit 8 n) :: byte)) OR ucast (ucast n :: byte) = n"
    by (rule rejoin_bytes) (rule sx(5))
  show "b64_char (drop_bit 18 n) = p" "b64_char (drop_bit 12 n) = q" "b64_char (drop_bit 6 n) = r"
    "b64_char n = s"
    using sx(1-4) assms(2-5) by (simp_all add: b64_char_back)
qed

text \<open>The two short groups, whose unused low bits must be zero.\<close>

lemma short_rejoin:
  assumes "\<And>i. bit n i \<Longrightarrow> i < 24" and "\<And>i. i < 8 \<Longrightarrow> \<not> bit n i"
  shows "push_bit 16 (ucast (ucast (drop_bit 16 n) :: byte) :: 32 word) OR
      push_bit 8 (ucast (ucast (drop_bit 8 n) :: byte)) = n"
proof -
  have "ucast (ucast n :: byte) = (0 :: 32 word)"
    using assms(2) by (intro bit_word_eqI) (auto simp: bit_ucast_iff)
  then show ?thesis using rejoin_bytes [of n, OF assms(1)] by simp
qed

lemma three_back:
  fixes p q r :: char
  defines "n \<equiv> push_bit 18 (word_of_int (base64url_value p) :: 32 word) OR
     push_bit 12 (word_of_int (base64url_value q)) OR push_bit 6 (word_of_int (base64url_value r))"
  assumes "0 \<le> base64url_value p" "0 \<le> base64url_value q" "0 \<le> base64url_value r"
    and "base64url_value r AND 3 = 0"
  shows "push_bit 16 (ucast (ucast (drop_bit 16 n) :: byte) :: 32 word) OR
      push_bit 8 (ucast (ucast (drop_bit 8 n) :: byte)) = n"
    and "b64_char (drop_bit 18 n) = p" and "b64_char (drop_bit 12 n) = q"
    and "b64_char (drop_bit 6 n) = r"
proof -
  have z: "sextet 0" by (simp add: sextet_def)
  note sx = sextets_of_join [OF assms(2-4) [THEN sextet_value] z, unfolded or.right_neutral, folded n_def]
  have "\<not> bit (word_of_int (base64url_value r) :: 32 word) i" if "i < 2" for i
    using low_bits_clear(2) [OF assms(5) that] value_alphabet [OF assms(4)] assms(4)
    by (simp add: sextet_bit)
  then have "\<not> bit n i" if "i < 8" for i
    using that unfolding n_def
    by (auto simp: bit_or_iff bit_push_bit_iff)
  then show "push_bit 16 (ucast (ucast (drop_bit 16 n) :: byte) :: 32 word) OR
      push_bit 8 (ucast (ucast (drop_bit 8 n) :: byte)) = n"
    using sx(5) by (intro short_rejoin) blast+
  show "b64_char (drop_bit 18 n) = p" "b64_char (drop_bit 12 n) = q" "b64_char (drop_bit 6 n) = r"
    using sx(1-3) assms(2-4) by (simp_all add: b64_char_back)
qed

lemma two_back:
  fixes p q :: char
  defines "n \<equiv> push_bit 18 (word_of_int (base64url_value p) :: 32 word) OR
     push_bit 12 (word_of_int (base64url_value q))"
  assumes "0 \<le> base64url_value p" "0 \<le> base64url_value q"
    and "base64url_value q AND 15 = 0"
  shows "push_bit 16 (ucast (ucast (drop_bit 16 n) :: byte) :: 32 word) = n"
    and "b64_char (drop_bit 18 n) = p" and "b64_char (drop_bit 12 n) = q"
proof -
  have z: "sextet 0" by (simp add: sextet_def)
  note sx = sextets_of_join [OF assms(2,3) [THEN sextet_value] z z,
      unfolded or.right_neutral push_bit_of_0, unfolded or.right_neutral, folded n_def]
  have low: "\<not> bit (word_of_int (base64url_value q) :: 32 word) i" if "i < 4" for i
    using low_bits_clear(1) [OF assms(4) that] value_alphabet [OF assms(3)] assms(3)
    by (simp add: sextet_bit)
  have clear: "\<not> bit n i" if "i < 16" for i
    using that low [of "i - 12"] unfolding n_def by (auto simp: bit_or_iff bit_push_bit_iff)
  then have "push_bit 16 (ucast (ucast (drop_bit 16 n) :: byte) :: 32 word) OR
      push_bit 8 (ucast (ucast (drop_bit 8 n) :: byte)) = n"
    using sx(5) by (intro short_rejoin) auto
  moreover have "ucast (ucast (drop_bit 8 n) :: byte) = (0 :: 32 word)"
    using clear by (intro bit_word_eqI) (auto simp: bit_ucast_iff bit_drop_bit_eq)
  ultimately show "push_bit 16 (ucast (ucast (drop_bit 16 n) :: byte) :: 32 word) = n" by simp
  show "b64_char (drop_bit 18 n) = p" "b64_char (drop_bit 12 n) = q"
    using sx(1,2) assms(2,3) by (simp_all add: b64_char_back)
qed

section \<open>The codec is exact\<close>

lemma encode_length: "length (base64url_encode bs) mod 4 \<noteq> 1"
  by (induction bs rule: base64url_encode.induct) (simp_all add: Let_def)

lemma encode_decode:
  "decode_groups s = Some bs \<Longrightarrow> length s mod 4 \<noteq> 1 \<Longrightarrow> base64url_encode bs = s"
proof (induction s arbitrary: bs rule: decode_groups.induct)
  case (1 p q r s rest)
  let ?v = base64url_value
  let ?n = "push_bit 18 (word_of_int (?v p) :: 32 word) OR push_bit 12 (word_of_int (?v q)) OR
     push_bit 6 (word_of_int (?v r)) OR word_of_int (?v s)"
  have pos: "\<not> (?v p < 0 \<or> ?v q < 0 \<or> ?v r < 0 \<or> ?v s < 0)"
  proof
    assume "?v p < 0 \<or> ?v q < 0 \<or> ?v r < 0 \<or> ?v s < 0"
    then have "decode_groups (p # q # r # s # rest) = None" by (simp only: decode_groups.simps Let_def if_True)
    then show False using "1.prems"(1) by simp
  qed
  then obtain out where out: "decode_groups rest = Some out"
      "bs = ucast (drop_bit 16 ?n) # ucast (drop_bit 8 ?n) # ucast ?n # out"
    using "1.prems"(1)
    by (simp only: decode_groups.simps Let_def if_False) (auto split: option.splits)
  have "length rest mod 4 \<noteq> 1" using "1.prems"(2) by simp
  then have rest: "base64url_encode out = rest"
    using "1.IH" [OF refl refl refl refl pos refl out(1)] by blast
  show ?case
    unfolding out(2) base64url_encode.simps Let_def
    using pos four_back [of p q r s] rest by simp
next
  case (2 p q)
  let ?n = "push_bit 18 (word_of_int (base64url_value p) :: 32 word) OR
     push_bit 12 (word_of_int (base64url_value q))"
  have ok: "\<not> (base64url_value p < 0 \<or> base64url_value q < 0 \<or> base64url_value q AND 15 \<noteq> 0)"
    using "2.prems"(1) by (auto simp only: decode_groups.simps Let_def if_True split: if_splits)
  then have bs: "bs = [ucast (drop_bit 16 ?n)]"
    using "2.prems"(1) by (simp only: decode_groups.simps Let_def if_False option.inject)
  show ?case
    unfolding bs base64url_encode.simps Let_def
    using ok two_back [of p q] by simp
next
  case (3 p q r)
  let ?n = "push_bit 18 (word_of_int (base64url_value p) :: 32 word) OR
     push_bit 12 (word_of_int (base64url_value q)) OR push_bit 6 (word_of_int (base64url_value r))"
  have ok: "\<not> (base64url_value p < 0 \<or> base64url_value q < 0 \<or> base64url_value r < 0 \<or>
      base64url_value r AND 3 \<noteq> 0)"
    using "3.prems"(1) by (auto simp only: decode_groups.simps Let_def if_True split: if_splits)
  then have bs: "bs = [ucast (drop_bit 16 ?n), ucast (drop_bit 8 ?n)]"
    using "3.prems"(1) by (simp only: decode_groups.simps Let_def if_False option.inject)
  show ?case
    unfolding bs base64url_encode.simps Let_def
    using ok three_back [of p q r] by simp
qed simp_all

text \<open>The decoder accepts exactly what the encoder writes: decoding an encoding gives the bytes
  back, and a text that decodes at all is the encoding of what it decodes to, so no two texts
  stand for the same bytes.\<close>

theorem base64url_exact: "base64url_decode s = Some bs \<longleftrightarrow> s = base64url_encode bs"
proof
  assume "base64url_decode s = Some bs"
  then have "decode_groups s = Some bs" "length s mod 4 \<noteq> 1"
    by (auto simp: base64url_decode_def split: if_splits)
  then show "s = base64url_encode bs" using encode_decode by simp
next
  assume "s = base64url_encode bs"
  then show "base64url_decode s = Some bs"
    using encode_length [of bs] decode_encode by (simp add: base64url_decode_def)
qed

lemma base64url_decode_encode [simp]: "base64url_decode (base64url_encode bs) = Some bs"
  using encode_length [of bs] decode_encode by (simp add: base64url_decode_def)

lemma alphabet_no_dot: "CHR ''.'' \<notin> set b64url_alphabet"
  by (simp add: b64url_alphabet_def)

lemma b64_char_no_dot: "b64_char n \<noteq> CHR ''.''"
proof -
  have "0 \<le> base64url_value (b64_char n)" using b64_char_nonneg [of n] by simp
  moreover have "base64url_value CHR ''.'' < 0" by code_simp
  ultimately show ?thesis by auto
qed

lemma encode_no_dot [simp]: "CHR ''.'' \<notin> set (base64url_encode bs)"
  by (induction bs rule: base64url_encode.induct) (simp_all add: Let_def b64_char_no_dot [symmetric])

end
