(* ===== verification/Auth_Store.thy ===== *)
theory Auth_Store
  imports Complex_Main MB_Prelude Base64url
begin

text \<open>
  \<open>src/oauth/auth.c\<close>: the session tokens of an account (HS256 JSON Web Tokens and the table of
  refresh tokens behind them) and the rows of its second factor. cJSON's printer and parser and
  OpenSSL's HMAC are the functions of the record \<open>jwt_lib\<close>; a double cJSON holds is the
  rational number it stands for. The clock is a function of the number of the reading, the random
  bytes and the outcome of each SQLite statement are arguments, a failed transaction is rolled
  back.
\<close>

unbundle bit_operations_syntax

section \<open>Constants and state\<close>

definition ACCESS_LIFETIME_SECONDS :: int where "ACCESS_LIFETIME_SECONDS = 2 * 60 * 60"

definition REFRESH_LIFETIME_SECONDS :: int where "REFRESH_LIFETIME_SECONDS = 90 * 24 * 60 * 60"

definition REFRESH_GRACE_SECONDS :: int where "REFRESH_GRACE_SECONDS = 2 * 60 * 60"

definition JWT_KEY_BYTES :: nat where "JWT_KEY_BYTES = 32"

definition JWT_MAX_BYTES :: nat where "JWT_MAX_BYTES = 8192"

datatype token_kind = TOKEN_ACCESS | TOKEN_REFRESH

text \<open>The access scope is the integer of its enumeration: the table stores it as one, and what comes
  back is checked.\<close>

abbreviation METALBEAR_ACCESS_FULL :: int where "METALBEAR_ACCESS_FULL \<equiv> 0"
abbreviation METALBEAR_ACCESS_APP_PASSWORD :: int where "METALBEAR_ACCESS_APP_PASSWORD \<equiv> 1"
abbreviation METALBEAR_ACCESS_APP_PASSWORD_PRIVILEGED :: int where
  "METALBEAR_ACCESS_APP_PASSWORD_PRIVILEGED \<equiv> 2"
abbreviation METALBEAR_ACCESS_TAKENDOWN :: int where "METALBEAR_ACCESS_TAKENDOWN \<equiv> 3"

record refresh_row =
  rf_jti :: string
  rf_did :: string
  rf_expires_at :: int
  rf_next_jti :: "string option"
  rf_grace_expires_at :: "int option"
  rf_revoked :: bool
  rf_access_scope :: int
  rf_app_password_name :: "string option"

record totp_row =
  tp_secret :: "byte list"
  tp_active :: bool
  tp_last_step :: int

record auth_store =
  au_key :: "byte list"
  au_service_did :: string
  au_account_did :: string
  au_meta_key :: "byte list option"
  au_refresh_token :: "refresh_row list"
  au_totp_secret :: "totp_row option"
  au_totp_backup :: "byte list list"

section \<open>JSON and signatures\<close>

datatype json = JString string | JNumber rat | JObject "(string \<times> json) list" | JOther

record jwt_lib =
  jl_print :: "json \<Rightarrow> string option"
  jl_parse :: "byte list \<Rightarrow> json option"
  jl_hmac :: "byte list \<Rightarrow> byte list \<Rightarrow> byte list option"

text \<open>\<open>cJSON_GetObjectItemCaseSensitive\<close> with the type test that follows it.\<close>

definition json_item :: "json \<Rightarrow> string \<Rightarrow> json option" where
  "json_item j k = (case j of JObject items \<Rightarrow> map_of items k | _ \<Rightarrow> None)"

definition json_string :: "json \<Rightarrow> string \<Rightarrow> string option" where
  "json_string j k = (case json_item j k of Some (JString s) \<Rightarrow> Some s | _ \<Rightarrow> None)"

definition json_number :: "json \<Rightarrow> string \<Rightarrow> rat option" where
  "json_number j k = (case json_item j k of Some (JNumber x) \<Rightarrow> Some x | _ \<Rightarrow> None)"

text \<open>The conversion of a double to \<open>int64_t\<close>.\<close>

definition truncate_number :: "rat \<Rightarrow> int" where
  "truncate_number x = (if x < 0 then - floor (- x) else floor x)"

definition hex_digits :: string where "hex_digits = ''0123456789abcdef''"

definition random_jti :: "byte list option \<Rightarrow> wf_status + string" where
  "random_jti random =
     (case random of
        None \<Rightarrow> Inl WF_ERR_CRYPTO
      | Some bytes \<Rightarrow>
          Inr (concat (map (\<lambda>b. [hex_digits ! unat (drop_bit 4 b), hex_digits ! unat (b AND 15)])
                 bytes)))"

definition sign_hs256 :: "jwt_lib \<Rightarrow> auth_store \<Rightarrow> string \<Rightarrow> wf_status + byte list" where
  "sign_hs256 lib store input =
     (case jl_hmac lib (au_key store) (bytes_of input) of
        None \<Rightarrow> Inl WF_ERR_CRYPTO
      | Some output \<Rightarrow> if length output \<noteq> 32 then Inl WF_ERR_CRYPTO else Inr output)"

definition access_scope_name :: "int \<Rightarrow> string" where
  "access_scope_name scope =
     (if scope = METALBEAR_ACCESS_APP_PASSWORD then ''com.atproto.appPass''
      else if scope = METALBEAR_ACCESS_APP_PASSWORD_PRIVILEGED then ''com.atproto.appPassPrivileged''
      else if scope = METALBEAR_ACCESS_TAKENDOWN then ''com.atproto.takendown''
      else ''com.atproto.access'')"

definition valid_access_scope :: "int \<Rightarrow> bool" where
  "valid_access_scope scope \<longleftrightarrow>
     scope = METALBEAR_ACCESS_FULL \<or> scope = METALBEAR_ACCESS_APP_PASSWORD \<or>
     scope = METALBEAR_ACCESS_APP_PASSWORD_PRIVILEGED \<or> scope = METALBEAR_ACCESS_TAKENDOWN"

definition parse_access_scope :: "string \<Rightarrow> int option" where
  "parse_access_scope value =
     (if value = ''com.atproto.access'' then Some METALBEAR_ACCESS_FULL
      else if value = ''com.atproto.appPass'' then Some METALBEAR_ACCESS_APP_PASSWORD
      else if value = ''com.atproto.appPassPrivileged'' then
        Some METALBEAR_ACCESS_APP_PASSWORD_PRIVILEGED
      else if value = ''com.atproto.takendown'' then Some METALBEAR_ACCESS_TAKENDOWN
      else None)"

definition required_type :: "token_kind \<Rightarrow> string" where
  "required_type kind = (case kind of TOKEN_ACCESS \<Rightarrow> ''at+jwt'' | TOKEN_REFRESH \<Rightarrow> ''refresh+jwt'')"

definition jwt_header :: "token_kind \<Rightarrow> json" where
  "jwt_header kind = JObject [(''typ'', JString (required_type kind)), (''alg'', JString ''HS256'')]"

definition jwt_payload ::
  "auth_store \<Rightarrow> token_kind \<Rightarrow> int \<Rightarrow> string \<Rightarrow> int \<Rightarrow> int \<Rightarrow> json" where
  "jwt_payload store kind access_scope jti now expires_at =
     JObject
       ([(''scope'', JString (case kind of TOKEN_ACCESS \<Rightarrow> access_scope_name access_scope
                                         | TOKEN_REFRESH \<Rightarrow> ''com.atproto.refresh'')),
         (''aud'', JString (au_service_did store)), (''sub'', JString (au_account_did store))] @
        (if kind = TOKEN_REFRESH then [(''jti'', JString jti)] else []) @
        [(''iat'', JNumber (of_int now)), (''exp'', JNumber (of_int expires_at))])"

definition create_jwt ::
  "jwt_lib \<Rightarrow> int \<Rightarrow> auth_store \<Rightarrow> token_kind \<Rightarrow> int \<Rightarrow> string \<Rightarrow> int \<Rightarrow> string option" where
  "create_jwt lib now store kind access_scope jti expires_at =
     (case (jl_print lib (jwt_header kind),
            jl_print lib (jwt_payload store kind access_scope jti now expires_at)) of
        (Some header_json, Some payload_json) \<Rightarrow>
          let signing_input = base64url_encode (bytes_of header_json) @ ''.'' @
                              base64url_encode (bytes_of payload_json)
          in (case sign_hs256 lib store signing_input of
                Inl _ \<Rightarrow> None
              | Inr signature \<Rightarrow> Some (signing_input @ ''.'' @ base64url_encode signature))
      | _ \<Rightarrow> None)"

text \<open>The claims: the JTI of a refresh token, the expiry, the access scope.\<close>

definition check_claims ::
  "int \<Rightarrow> auth_store \<Rightarrow> token_kind \<Rightarrow> bool \<Rightarrow> json \<Rightarrow> json \<Rightarrow>
   (string option \<times> int \<times> int) option" where
  "check_claims now store kind allow_expired header payload =
     (let scope = (case json_string payload ''scope'' of
                     None \<Rightarrow> None
                   | Some s \<Rightarrow>
                       if kind = TOKEN_ACCESS then parse_access_scope s
                       else if s = ''com.atproto.refresh'' then Some METALBEAR_ACCESS_FULL
                       else None)
      in case (scope, json_number payload ''iat'', json_number payload ''exp'') of
           (Some parsed_scope, Some iat, Some expiry) \<Rightarrow>
             if json_string header ''alg'' = Some ''HS256'' \<and>
                json_string header ''typ'' = Some (required_type kind) \<and>
                json_string payload ''aud'' = Some (au_service_did store) \<and>
                json_string payload ''sub'' = Some (au_account_did store) \<and>
                iat \<le> of_int (now + 60) \<and>
                (allow_expired \<or> expiry > of_int now) \<and>
                (kind = TOKEN_ACCESS \<or> json_string payload ''jti'' \<noteq> None)
             then Some (if kind = TOKEN_REFRESH then json_string payload ''jti'' else None,
                        truncate_number expiry, parsed_scope)
             else None
         | _ \<Rightarrow> None)"

definition verify_jwt ::
  "jwt_lib \<Rightarrow> int \<Rightarrow> auth_store \<Rightarrow> string \<Rightarrow> token_kind \<Rightarrow> bool \<Rightarrow>
   wf_status + (string option \<times> int \<times> int)" where
  "verify_jwt lib now store token kind allow_expired =
     (if token = [] \<or> length token > JWT_MAX_BYTES then Inl WF_ERR_INVALID_ARG
      else case strchr_cut CHR ''.'' token of
        (_, None) \<Rightarrow> Inl WF_ERR_PERMISSION
      | (header_b64, Some after_first) \<Rightarrow>
          (case strchr_cut CHR ''.'' after_first of
             (_, None) \<Rightarrow> Inl WF_ERR_PERMISSION
           | (payload_b64, Some signature_b64) \<Rightarrow>
               if CHR ''.'' \<in> set signature_b64 then Inl WF_ERR_PERMISSION
               else
                 (case (base64url_decode signature_b64,
                        sign_hs256 lib store (header_b64 @ ''.'' @ payload_b64)) of
                    (Some signature, Inr expected) \<Rightarrow>
                      if length signature \<noteq> 32 \<or> signature \<noteq> expected then Inl WF_ERR_PERMISSION
                      else
                        (case (Option.bind (base64url_decode header_b64) (jl_parse lib),
                               Option.bind (base64url_decode payload_b64) (jl_parse lib)) of
                           (Some header, Some payload) \<Rightarrow>
                             (case check_claims now store kind allow_expired header payload of
                                Some claims \<Rightarrow> Inr claims
                              | None \<Rightarrow> Inl WF_ERR_PERMISSION)
                         | _ \<Rightarrow> Inl WF_ERR_PERMISSION)
                  | _ \<Rightarrow> Inl WF_ERR_PERMISSION)))"

section \<open>Opening\<close>

record key_env =
  ke_select :: sql_fate
  ke_random :: "byte list option"
  ke_insert_ok :: bool

definition load_or_create_key :: "key_env \<Rightarrow> auth_store \<Rightarrow> wf_status \<times> auth_store" where
  "load_or_create_key env store =
     (if ke_select env = SQL_UNPREPARED then (WF_ERR_INTERNAL, store)
      else if ke_select env = SQL_STEP_FAILS then (WF_ERR_CRYPTO, store)
      else case au_meta_key store of
        Some stored \<Rightarrow>
          if length stored = JWT_KEY_BYTES then (WF_OK, store\<lparr>au_key := stored\<rparr>)
          else (WF_ERR_CONFIG, store)
      | None \<Rightarrow>
          (case ke_random env of
             None \<Rightarrow> (WF_ERR_CRYPTO, store)
           | Some fresh \<Rightarrow>
               if ke_insert_ok env
               then (WF_OK, store\<lparr>au_key := fresh, au_meta_key := Some fresh\<rparr>)
               else (WF_ERR_INTERNAL, store\<lparr>au_key := fresh\<rparr>)))"

text \<open>\<open>tables\<close> is what the file at the path holds.\<close>

definition metalbear_auth_store_open ::
  "bool \<Rightarrow> key_env \<Rightarrow> string \<Rightarrow> string \<Rightarrow> auth_store \<Rightarrow> wf_status \<times> auth_store option" where
  "metalbear_auth_store_open tables_ok env service_did account_did tables =
     (if \<not> tables_ok then (WF_ERR_INTERNAL, None)
      else case load_or_create_key env (tables\<lparr>au_key := replicate JWT_KEY_BYTES 0,
                  au_service_did := service_did, au_account_did := account_did\<rparr>) of
        (status, store) \<Rightarrow> if status \<noteq> WF_OK then (WF_ERR_INTERNAL, None) else (WF_OK, Some store))"

section \<open>Sessions\<close>

type_synonym clock = "nat \<Rightarrow> int"

record session_tokens =
  st_access_jwt :: string
  st_refresh_jwt :: string

definition persist_refresh ::
  "bool \<Rightarrow> string \<Rightarrow> int \<Rightarrow> int \<Rightarrow> string option \<Rightarrow> auth_store \<Rightarrow> wf_status \<times> auth_store" where
  "persist_refresh ok jti expires_at scope app_password_name store =
     (if \<not> ok \<or> jti \<in> rf_jti ` set (au_refresh_token store) then (WF_ERR_INTERNAL, store)
      else (WF_OK, store\<lparr>au_refresh_token := au_refresh_token store @
              [\<lparr>rf_jti = jti, rf_did = au_account_did store, rf_expires_at = expires_at,
                rf_next_jti = None, rf_grace_expires_at = None, rf_revoked = False,
                rf_access_scope = scope, rf_app_password_name = app_password_name\<rparr>]\<rparr>))"

text \<open>The row of a token SQL compares with NULL is kept: \<open>grace_expires_at <= now\<close> is then
  not true.\<close>

definition expired_refresh :: "int \<Rightarrow> refresh_row \<Rightarrow> bool" where
  "expired_refresh now r \<longleftrightarrow>
     rf_expires_at r \<le> now \<or>
     (rf_next_jti r \<noteq> None \<and>
      (case rf_grace_expires_at r of Some g \<Rightarrow> g \<le> now | None \<Rightarrow> False))"

definition prune_expired_refreshes :: "bool \<Rightarrow> int \<Rightarrow> auth_store \<Rightarrow> auth_store" where
  "prune_expired_refreshes ok now store =
     (if ok then store\<lparr>au_refresh_token :=
                   filter (\<lambda>r. \<not> expired_refresh now r) (au_refresh_token store)\<rparr>
      else store)"

definition issue_pair ::
  "jwt_lib \<Rightarrow> int \<Rightarrow> int \<Rightarrow> int \<Rightarrow> auth_store \<Rightarrow> string \<Rightarrow> int \<Rightarrow> int \<Rightarrow>
   wf_status + session_tokens" where
  "issue_pair lib now now_access now_refresh store jti refresh_expiry scope =
     (case (create_jwt lib now_access store TOKEN_ACCESS scope [] (now + ACCESS_LIFETIME_SECONDS),
            create_jwt lib now_refresh store TOKEN_REFRESH scope jti refresh_expiry) of
        (Some access, Some refresh) \<Rightarrow> Inr \<lparr>st_access_jwt = access, st_refresh_jwt = refresh\<rparr>
      | _ \<Rightarrow> Inl WF_ERR_CRYPTO)"

definition metalbear_auth_create_scoped_session ::
  "jwt_lib \<Rightarrow> clock \<Rightarrow> bool \<Rightarrow> byte list option \<Rightarrow> bool \<Rightarrow> int \<Rightarrow> string option \<Rightarrow> auth_store \<Rightarrow>
   (wf_status + session_tokens) \<times> auth_store" where
  "metalbear_auth_create_scoped_session lib clk prune_ok random persist_ok scope name store =
     (if \<not> valid_access_scope scope \<or>
         (scope \<noteq> METALBEAR_ACCESS_FULL \<and> scope \<noteq> METALBEAR_ACCESS_TAKENDOWN \<and>
          (case name of None \<Rightarrow> True | Some n \<Rightarrow> n = []))
      then (Inl WF_ERR_INVALID_ARG, store)
      else
        let now = clk 0;
            expiry = now + REFRESH_LIFETIME_SECONDS;
            store1 = prune_expired_refreshes prune_ok now store
        in case random_jti random of
             Inl status \<Rightarrow> (Inl status, store1)
           | Inr jti \<Rightarrow>
               (case (if scope \<noteq> METALBEAR_ACCESS_TAKENDOWN
                      then persist_refresh persist_ok jti expiry scope name store1
                      else (WF_OK, store1)) of
                  (status, store2) \<Rightarrow>
                    if status \<noteq> WF_OK then (Inl status, store2)
                    else (issue_pair lib (clk 1) (clk 2) (clk 3) store2 jti expiry scope, store2)))"

definition metalbear_auth_create_session ::
  "jwt_lib \<Rightarrow> clock \<Rightarrow> bool \<Rightarrow> byte list option \<Rightarrow> bool \<Rightarrow> auth_store \<Rightarrow>
   (wf_status + session_tokens) \<times> auth_store" where
  "metalbear_auth_create_session lib clk prune_ok random persist_ok store =
     metalbear_auth_create_scoped_session lib clk prune_ok random persist_ok
       METALBEAR_ACCESS_FULL None store"

definition metalbear_auth_verify_access :: "jwt_lib \<Rightarrow> int \<Rightarrow> auth_store \<Rightarrow> string \<Rightarrow> wf_status" where
  "metalbear_auth_verify_access lib now store token =
     (case verify_jwt lib now store token TOKEN_ACCESS False of Inl status \<Rightarrow> status | Inr _ \<Rightarrow> WF_OK)"

definition metalbear_auth_verify_access_scope ::
  "jwt_lib \<Rightarrow> int \<Rightarrow> auth_store \<Rightarrow> string \<Rightarrow> wf_status + int" where
  "metalbear_auth_verify_access_scope lib now store token =
     (case verify_jwt lib now store token TOKEN_ACCESS False of
        Inl status \<Rightarrow> Inl status
      | Inr (_, _, scope) \<Rightarrow> Inr scope)"

section \<open>Rotation\<close>

text \<open>
  One pass of \<open>metalbear_auth_rotate_refresh\<close>. Between its first read and its transaction other
  requests may change the table: \<open>ra_between\<close> is what they do to it. When the transaction then
  finds the row no longer free the function calls itself, which takes the next pass of the list.
\<close>

record rotate_attempt =
  ra_clock :: clock
  ra_prune_ok :: bool
  ra_select :: sql_fate
  ra_random :: "byte list option"
  ra_between :: "refresh_row list \<Rightarrow> refresh_row list"
  ra_begin_ok :: bool
  ra_update_ok :: bool
  ra_persist_ok :: bool
  ra_commit_ok :: bool
  ra_successor :: sql_fate

definition select_refresh :: "auth_store \<Rightarrow> string \<Rightarrow> refresh_row option" where
  "select_refresh store jti =
     find (\<lambda>r. rf_jti r = jti \<and> rf_did r = au_account_did store) (au_refresh_token store)"

definition takes_successor :: "string \<Rightarrow> refresh_row \<Rightarrow> bool" where
  "takes_successor jti r \<longleftrightarrow> rf_jti r = jti \<and> rf_next_jti r = None \<and> \<not> rf_revoked r"

datatype rotate_result = RETRY | DONE "wf_status + session_tokens"

text \<open>The branch of a row without a successor, from the generation of its JTI on.\<close>

definition rotate_fresh ::
  "jwt_lib \<Rightarrow> rotate_attempt \<Rightarrow> string \<Rightarrow> refresh_row \<Rightarrow> auth_store \<Rightarrow> rotate_result \<times> auth_store" where
  "rotate_fresh lib atp jti row store =
     (case random_jti (ra_random atp) of
        Inl _ \<Rightarrow> (DONE (Inl WF_ERR_CRYPTO), store)
      | Inr generated \<Rightarrow>
          let clk = ra_clock atp; now = clk 2;
              grace = (if now + REFRESH_GRACE_SECONDS > rf_expires_at row then rf_expires_at row
                       else now + REFRESH_GRACE_SECONDS);
              next_expiry = now + REFRESH_LIFETIME_SECONDS;
              store1 = store\<lparr>au_refresh_token := ra_between atp (au_refresh_token store)\<rparr>
          in if \<not> ra_begin_ok atp then (DONE (Inl WF_ERR_INTERNAL), store1)
             else if \<not> ra_update_ok atp then (DONE (Inl WF_ERR_INTERNAL), store1)
             else if filter (takes_successor jti) (au_refresh_token store1) = [] then (RETRY, store1)
             else
               let store2 = store1\<lparr>au_refresh_token :=
                     map (\<lambda>r. if takes_successor jti r
                              then r\<lparr>rf_next_jti := Some generated, rf_grace_expires_at := Some grace\<rparr>
                              else r) (au_refresh_token store1)\<rparr>
               in (case persist_refresh (ra_persist_ok atp) generated next_expiry
                          (rf_access_scope row) (rf_app_password_name row) store2 of
                     (status, store3) \<Rightarrow>
                       if status \<noteq> WF_OK \<or> \<not> ra_commit_ok atp
                       then (DONE (Inl WF_ERR_INTERNAL), store1)
                       else (DONE (issue_pair lib (clk 3) (clk 4) (clk 5) store3 generated
                                     next_expiry (rf_access_scope row)), store3)))"

text \<open>The branch of a row that already has one.\<close>

definition rotate_reuse ::
  "jwt_lib \<Rightarrow> rotate_attempt \<Rightarrow> string \<Rightarrow> auth_store \<Rightarrow> wf_status + session_tokens" where
  "rotate_reuse lib atp next_jti store =
     (if ra_successor atp = SQL_UNPREPARED then Inl WF_ERR_INTERNAL
      else if ra_successor atp = SQL_STEP_FAILS then Inl WF_ERR_PERMISSION
      else case find (\<lambda>r. rf_jti r = next_jti \<and> \<not> rf_revoked r) (au_refresh_token store) of
        None \<Rightarrow> Inl WF_ERR_PERMISSION
      | Some r \<Rightarrow>
          if \<not> valid_access_scope (rf_access_scope r) then Inl WF_ERR_PERMISSION
          else issue_pair lib (ra_clock atp 3) (ra_clock atp 4) (ra_clock atp 5) store next_jti
                 (rf_expires_at r) (rf_access_scope r))"

definition rotate_once ::
  "jwt_lib \<Rightarrow> rotate_attempt \<Rightarrow> string \<Rightarrow> auth_store \<Rightarrow> rotate_result \<times> auth_store" where
  "rotate_once lib atp refresh_token store =
     (case verify_jwt lib (ra_clock atp 0) store refresh_token TOKEN_REFRESH False of
        Inl status \<Rightarrow> (DONE (Inl status), store)
      | Inr (jti_claim, _, _) \<Rightarrow>
          let jti = (case jti_claim of Some j \<Rightarrow> j | None \<Rightarrow> []);
              store1 = prune_expired_refreshes (ra_prune_ok atp) (ra_clock atp 1) store;
              now = ra_clock atp 2
          in if ra_select atp = SQL_UNPREPARED then (DONE (Inl WF_ERR_INTERNAL), store1)
             else if ra_select atp = SQL_STEP_FAILS then (DONE (Inl WF_ERR_PERMISSION), store1)
             else (case select_refresh store1 jti of
                     None \<Rightarrow> (DONE (Inl WF_ERR_PERMISSION), store1)
                   | Some row \<Rightarrow>
                       let grace_expiry = (case rf_grace_expires_at row of Some g \<Rightarrow> g | None \<Rightarrow> 0)
                       in if \<not> valid_access_scope (rf_access_scope row) \<or> rf_revoked row \<or>
                             rf_expires_at row \<le> now \<or>
                             (rf_next_jti row \<noteq> None \<and> grace_expiry \<le> now)
                          then (DONE (Inl WF_ERR_PERMISSION), store1)
                          else (case rf_next_jti row of
                                  None \<Rightarrow> rotate_fresh lib atp jti row store1
                                | Some next_jti \<Rightarrow>
                                    (DONE (rotate_reuse lib atp next_jti store1), store1))))"

text \<open>\<open>None\<close> when every pass of the list ended in a retry.\<close>

fun metalbear_auth_rotate_refresh ::
  "jwt_lib \<Rightarrow> rotate_attempt list \<Rightarrow> string \<Rightarrow> auth_store \<Rightarrow>
   ((wf_status + session_tokens) \<times> auth_store) option" where
  "metalbear_auth_rotate_refresh lib [] refresh_token store = None"
| "metalbear_auth_rotate_refresh lib (atp # ats) refresh_token store =
     (case rotate_once lib atp refresh_token store of
        (RETRY, store1) \<Rightarrow> metalbear_auth_rotate_refresh lib ats refresh_token store1
      | (DONE res, store1) \<Rightarrow> Some (res, store1))"

section \<open>Revocation\<close>

definition metalbear_auth_revoke_refresh ::
  "jwt_lib \<Rightarrow> int \<Rightarrow> bool \<Rightarrow> bool \<Rightarrow> string \<Rightarrow> auth_store \<Rightarrow> wf_status \<times> auth_store" where
  "metalbear_auth_revoke_refresh lib now prepare_ok step_ok refresh_token store =
     (case verify_jwt lib now store refresh_token TOKEN_REFRESH True of
        Inl status \<Rightarrow> (status, store)
      | Inr (jti_claim, _, _) \<Rightarrow>
          let jti = (case jti_claim of Some j \<Rightarrow> j | None \<Rightarrow> []);
              hit = (\<lambda>r. rf_jti r = jti \<and> rf_did r = au_account_did store)
          in if \<not> prepare_ok then (WF_ERR_INTERNAL, store)
             else if \<not> step_ok then (WF_ERR_PERMISSION, store)
             else (if length (filter hit (au_refresh_token store)) = 1 then WF_OK
                   else WF_ERR_PERMISSION,
                   store\<lparr>au_refresh_token :=
                     map (\<lambda>r. if hit r then r\<lparr>rf_revoked := True\<rparr> else r) (au_refresh_token store)\<rparr>))"

definition metalbear_auth_revoke_app_password_sessions ::
  "bool \<Rightarrow> bool \<Rightarrow> string option \<Rightarrow> auth_store \<Rightarrow> wf_status \<times> auth_store" where
  "metalbear_auth_revoke_app_password_sessions prepare_ok step_ok name store =
     (case name of
        None \<Rightarrow> (WF_ERR_INVALID_ARG, store)
      | Some n \<Rightarrow>
          if n = [] then (WF_ERR_INVALID_ARG, store)
          else if \<not> prepare_ok \<or> \<not> step_ok then (WF_ERR_INTERNAL, store)
          else (WF_OK, store\<lparr>au_refresh_token :=
                  map (\<lambda>r. if rf_did r = au_account_did store \<and> rf_app_password_name r = Some n
                           then r\<lparr>rf_revoked := True\<rparr> else r) (au_refresh_token store)\<rparr>))"

text \<open>Two statements, run until one fails.\<close>

definition metalbear_auth_delete_all :: "bool \<Rightarrow> bool \<Rightarrow> auth_store \<Rightarrow> wf_status \<times> auth_store" where
  "metalbear_auth_delete_all tokens_ok meta_ok store =
     (if \<not> tokens_ok then (WF_ERR_INTERNAL, store)
      else if \<not> meta_ok then (WF_ERR_INTERNAL, store\<lparr>au_refresh_token := []\<rparr>)
      else (WF_OK, store\<lparr>au_refresh_token := [], au_meta_key := None\<rparr>))"

section \<open>The second factor's rows\<close>

definition metalbear_auth_totp_put_pending ::
  "bool \<Rightarrow> byte list \<Rightarrow> auth_store \<Rightarrow> wf_status \<times> auth_store" where
  "metalbear_auth_totp_put_pending ok sealed store =
     (if sealed = [] then (WF_ERR_INVALID_ARG, store)
      else if \<not> ok then (WF_ERR_INTERNAL, store)
      else
        let pending = \<lparr>tp_secret = sealed, tp_active = False, tp_last_step = -1\<rparr>
        in case au_totp_secret store of
             None \<Rightarrow> (WF_OK, store\<lparr>au_totp_secret := Some pending\<rparr>)
           | Some row \<Rightarrow>
               if \<not> tp_active row then (WF_OK, store\<lparr>au_totp_secret := Some pending\<rparr>)
               else (WF_ERR_CONFLICT, store))"

definition metalbear_auth_totp_get :: "bool \<Rightarrow> auth_store \<Rightarrow> wf_status + totp_row option" where
  "metalbear_auth_totp_get ok store =
     (if \<not> ok then Inl WF_ERR_INTERNAL else Inr (au_totp_secret store))"

record activate_env =
  ac_begin_ok :: bool
  ac_update_ok :: bool
  ac_delete_ok :: bool
  ac_insert_ok :: "nat \<Rightarrow> bool"
  ac_commit_ok :: bool

text \<open>The insertions of the hashes, up to the first that fails; a duplicate is one.\<close>

fun insert_backups ::
  "(nat \<Rightarrow> bool) \<Rightarrow> nat \<Rightarrow> byte list list \<Rightarrow> byte list list \<Rightarrow> byte list list option" where
  "insert_backups ok i [] table = Some table"
| "insert_backups ok i (h # hs) table =
     (if \<not> ok i \<or> h \<in> set table then None else insert_backups ok (Suc i) hs (table @ [h]))"

definition metalbear_auth_totp_activate ::
  "activate_env \<Rightarrow> byte list list \<Rightarrow> int \<Rightarrow> auth_store \<Rightarrow> wf_status \<times> auth_store" where
  "metalbear_auth_totp_activate env hashes step store =
     (if \<not> ac_begin_ok env then (WF_ERR_INTERNAL, store)
      else if \<not> ac_update_ok env then (WF_ERR_INTERNAL, store)
      else case au_totp_secret store of
        None \<Rightarrow> (WF_ERR_CONFLICT, store)
      | Some row \<Rightarrow>
          if tp_active row then (WF_ERR_CONFLICT, store)
          else if \<not> ac_delete_ok env then (WF_ERR_INTERNAL, store)
          else (case insert_backups (ac_insert_ok env) 0 hashes [] of
                  None \<Rightarrow> (WF_ERR_INTERNAL, store)
                | Some table \<Rightarrow>
                    if \<not> ac_commit_ok env then (WF_ERR_INTERNAL, store)
                    else (WF_OK, store\<lparr>au_totp_secret :=
                            Some (row\<lparr>tp_active := True, tp_last_step := step\<rparr>),
                            au_totp_backup := table\<rparr>)))"

definition metalbear_auth_totp_use_step ::
  "bool \<Rightarrow> int \<Rightarrow> auth_store \<Rightarrow> (wf_status + bool) \<times> auth_store" where
  "metalbear_auth_totp_use_step ok step store =
     (if \<not> ok then (Inl WF_ERR_INTERNAL, store)
      else case au_totp_secret store of
        Some row \<Rightarrow>
          if tp_active row \<and> tp_last_step row < step
          then (Inr True, store\<lparr>au_totp_secret := Some (row\<lparr>tp_last_step := step\<rparr>)\<rparr>)
          else (Inr False, store)
      | None \<Rightarrow> (Inr False, store))"

definition metalbear_auth_totp_consume_backup ::
  "bool \<Rightarrow> byte list \<Rightarrow> auth_store \<Rightarrow> (wf_status + bool) \<times> auth_store" where
  "metalbear_auth_totp_consume_backup ok code_hash store =
     (if \<not> ok then (Inl WF_ERR_INTERNAL, store)
      else (Inr (length (filter (\<lambda>h. h = code_hash) (au_totp_backup store)) = 1),
            store\<lparr>au_totp_backup := filter (\<lambda>h. h \<noteq> code_hash) (au_totp_backup store)\<rparr>))"

definition metalbear_auth_totp_disable :: "bool \<Rightarrow> bool \<Rightarrow> auth_store \<Rightarrow> wf_status \<times> auth_store" where
  "metalbear_auth_totp_disable backup_ok secret_ok store =
     (if \<not> backup_ok then (WF_ERR_INTERNAL, store)
      else if \<not> secret_ok then (WF_ERR_INTERNAL, store\<lparr>au_totp_backup := []\<rparr>)
      else (WF_OK, store\<lparr>au_totp_backup := [], au_totp_secret := None\<rparr>))"

section \<open>Tokens: laws\<close>

lemma json_item_simps [simp]: "json_item (JObject items) k = map_of items k"
  by (simp add: json_item_def)

lemma truncate_of_int [simp]: "truncate_number (of_int i) = i"
proof -
  have "floor (- (of_int i :: rat)) = - i" by (metis floor_of_int of_int_minus)
  then show ?thesis by (simp add: truncate_number_def)
qed

lemma parse_access_scope_name: "valid_access_scope scope \<Longrightarrow> parse_access_scope (access_scope_name scope) = Some scope"
  by (auto simp: valid_access_scope_def parse_access_scope_def access_scope_name_def)

text \<open>The claims \<open>create_jwt\<close> writes, checked as a token of a kind.\<close>

lemma check_own_claims:
  assumes "valid_access_scope scope" and "now \<le> now' + 60" and "allow \<or> now' < expires"
  shows "check_claims now' store kind allow (jwt_header kind)
           (jwt_payload store kind scope jti now expires) =
         Some (if kind = TOKEN_REFRESH then Some jti else None, expires,
               if kind = TOKEN_ACCESS then scope else METALBEAR_ACCESS_FULL)"
proof -
  have "(of_int now :: rat) \<le> of_int (now' + 60)" using assms(2) by (simp only: of_int_le_iff)
  moreover have "allow \<or> (of_int now' :: rat) < of_int expires" using assms(3) by simp
  ultimately show ?thesis
    using parse_access_scope_name [OF assms(1)]
    by (cases kind) (simp_all add: check_claims_def jwt_header_def jwt_payload_def json_string_def
        json_number_def required_type_def)
qed

lemma check_other_claims:
  assumes "kind \<noteq> kind'"
  shows "check_claims now' store kind' allow (jwt_header kind) payload = None"
proof -
  have "required_type kind \<noteq> required_type kind'"
    using assms by (cases kind; cases kind') (simp_all add: required_type_def)
  then show ?thesis
    by (auto simp: check_claims_def jwt_header_def json_string_def Let_def split: option.splits)
qed

text \<open>What the shape of a token means to the verifier.\<close>

lemma verify_jwt_parts:
  assumes "CHR ''.'' \<notin> set a" and "CHR ''.'' \<notin> set b" and "CHR ''.'' \<notin> set c"
    and "length (a @ ''.'' @ b @ ''.'' @ c) \<le> JWT_MAX_BYTES"
  shows "verify_jwt lib now store (a @ ''.'' @ b @ ''.'' @ c) kind allow =
    (case (base64url_decode c, sign_hs256 lib store (a @ ''.'' @ b)) of
       (Some signature, Inr expected) \<Rightarrow>
         if length signature \<noteq> 32 \<or> signature \<noteq> expected then Inl WF_ERR_PERMISSION
         else
           (case (Option.bind (base64url_decode a) (jl_parse lib),
                  Option.bind (base64url_decode b) (jl_parse lib)) of
              (Some header, Some payload) \<Rightarrow>
                (case check_claims now store kind allow header payload of
                   Some claims \<Rightarrow> Inr claims
                 | None \<Rightarrow> Inl WF_ERR_PERMISSION)
            | _ \<Rightarrow> Inl WF_ERR_PERMISSION)
     | _ \<Rightarrow> Inl WF_ERR_PERMISSION)"
  using assms by (simp add: verify_jwt_def)

lemma sign_hs256_length: "sign_hs256 lib store input = Inr sig \<Longrightarrow> length sig = 32"
  by (auto simp: sign_hs256_def split: option.splits if_splits)

lemma create_jwt_SomeD:
  assumes "create_jwt lib now store kind scope jti expires = Some token"
  obtains h p sig where "jl_print lib (jwt_header kind) = Some h"
    and "jl_print lib (jwt_payload store kind scope jti now expires) = Some p"
    and "sign_hs256 lib store (base64url_encode (bytes_of h) @ ''.'' @ base64url_encode (bytes_of p)) = Inr sig"
    and "token = base64url_encode (bytes_of h) @ ''.'' @ base64url_encode (bytes_of p) @ ''.'' @
           base64url_encode sig"
  using assms by (auto simp: create_jwt_def Let_def split: option.splits sum.splits)

text \<open>The parser reads what the printer prints.\<close>

definition json_codec :: "jwt_lib \<Rightarrow> bool" where
  "json_codec lib \<longleftrightarrow> (\<forall>j s. jl_print lib j = Some s \<longrightarrow> jl_parse lib (bytes_of s) = Some j)"

lemma verify_created:
  assumes "create_jwt lib now store kind scope jti expires = Some token"
    and "json_codec lib" and "length token \<le> JWT_MAX_BYTES"
  shows "verify_jwt lib now' store token kind' allow =
    (case check_claims now' store kind' allow (jwt_header kind)
            (jwt_payload store kind scope jti now expires) of
       Some claims \<Rightarrow> Inr claims | None \<Rightarrow> Inl WF_ERR_PERMISSION)"
proof (rule create_jwt_SomeD [OF assms(1)])
  fix h p sig
  assume print: "jl_print lib (jwt_header kind) = Some h"
      "jl_print lib (jwt_payload store kind scope jti now expires) = Some p"
    and sign: "sign_hs256 lib store (base64url_encode (bytes_of h) @ ''.'' @ base64url_encode (bytes_of p)) = Inr sig"
    and token: "token = base64url_encode (bytes_of h) @ ''.'' @ base64url_encode (bytes_of p) @ ''.'' @
           base64url_encode sig"
  have "jl_parse lib (bytes_of h) = Some (jwt_header kind)"
    "jl_parse lib (bytes_of p) = Some (jwt_payload store kind scope jti now expires)"
    using print assms(2) by (simp_all add: json_codec_def)
  then show ?thesis
    using assms(3) verify_jwt_parts [of "base64url_encode (bytes_of h)" "base64url_encode (bytes_of p)"
        "base64url_encode sig" lib now' store kind' allow] sign sign_hs256_length [OF sign]
    by (simp add: token)
qed

text \<open>C16. A token the store mints is accepted by the same store as the kind it was minted as, with
  the claims it was minted with, from a minute before its issue until it expires, and it is
  refused as the other kind: an access token never rotates and a refresh token opens nothing.\<close>

theorem jwt_roundtrip:
  assumes "create_jwt lib now store kind scope jti expires = Some token"
    and "json_codec lib" and "length token \<le> JWT_MAX_BYTES" and "valid_access_scope scope"
    and "now \<le> now' + 60"
  shows "(allow \<or> now' < expires \<longrightarrow>
            verify_jwt lib now' store token kind allow =
              Inr (if kind = TOKEN_REFRESH then Some jti else None, expires,
                   if kind = TOKEN_ACCESS then scope else METALBEAR_ACCESS_FULL)) \<and>
         (\<not> allow \<and> expires \<le> now' \<longrightarrow>
            verify_jwt lib now' store token kind allow = Inl WF_ERR_PERMISSION) \<and>
         (kind' \<noteq> kind \<longrightarrow>
            verify_jwt lib now' store token kind' allow = Inl WF_ERR_PERMISSION)"
proof (intro conjI impI)
  assume live: "allow \<or> now' < expires"
  show "verify_jwt lib now' store token kind allow =
      Inr (if kind = TOKEN_REFRESH then Some jti else None, expires,
           if kind = TOKEN_ACCESS then scope else METALBEAR_ACCESS_FULL)"
    unfolding verify_created [OF assms(1-3)] check_own_claims [OF assms(4,5) live] by simp
next
  assume "\<not> allow \<and> expires \<le> now'"
  then have "check_claims now' store kind allow (jwt_header kind)
      (jwt_payload store kind scope jti now expires) = None"
    by (auto simp: check_claims_def jwt_payload_def json_number_def Let_def split: option.splits)
  then show "verify_jwt lib now' store token kind allow = Inl WF_ERR_PERMISSION"
    unfolding verify_created [OF assms(1-3)] by simp
next
  assume "kind' \<noteq> kind"
  then show "verify_jwt lib now' store token kind' allow = Inl WF_ERR_PERMISSION"
    unfolding verify_created [OF assms(1-3)] by (simp add: check_other_claims)
qed

lemma verify_jwt_InrD:
  assumes "verify_jwt lib now store token kind allow = Inr claims"
  obtains a b sig header payload where "token = a @ ''.'' @ b @ ''.'' @ base64url_encode sig"
    and "sign_hs256 lib store (a @ ''.'' @ b) = Inr sig"
    and "Option.bind (base64url_decode b) (jl_parse lib) = Some payload"
    and "check_claims now store kind allow header payload = Some claims"
    and "\<And>now' allow'. verify_jwt lib now' store token kind allow' =
           (case check_claims now' store kind allow' header payload of
              Some claims \<Rightarrow> Inr claims | None \<Rightarrow> Inl WF_ERR_PERMISSION)"
proof -
  have "token \<noteq> []" "length token \<le> JWT_MAX_BYTES"
    using assms by (auto simp: verify_jwt_def split: if_splits)
  then obtain a r where a: "strchr_cut CHR ''.'' token = (a, Some r)"
    using assms by (cases "strchr_cut CHR ''.'' token"; cases "snd (strchr_cut CHR ''.'' token)")
      (auto simp: verify_jwt_def)
  then obtain b c where b: "strchr_cut CHR ''.'' r = (b, Some c)"
    using assms by (cases "strchr_cut CHR ''.'' r"; cases "snd (strchr_cut CHR ''.'' r)")
      (auto simp: verify_jwt_def split: if_splits)
  have shape: "token = a @ CHR ''.'' # b @ CHR ''.'' # c" "CHR ''.'' \<notin> set a" "CHR ''.'' \<notin> set b"
    using strchr_cut_SomeD [OF a] strchr_cut_SomeD [OF b] by auto
  have c: "CHR ''.'' \<notin> set c"
    using assms a b by (auto simp: verify_jwt_def split: if_splits)
  have shape': "token = a @ ''.'' @ b @ ''.'' @ c" using shape(1) by simp
  note step = verify_jwt_parts [OF shape(2,3) c, folded shape', OF \<open>length token \<le> JWT_MAX_BYTES\<close>]
  obtain sig where sig: "base64url_decode c = Some sig" "sign_hs256 lib store (a @ ''.'' @ b) = Inr sig"
    using assms unfolding step by (auto split: option.splits sum.splits if_splits)
  obtain header payload where header: "Option.bind (base64url_decode a) (jl_parse lib) = Some header"
      and payload: "Option.bind (base64url_decode b) (jl_parse lib) = Some payload"
      and "check_claims now store kind allow header payload = Some claims"
    using assms unfolding step sig option.case sum.case
    by (auto split: option.splits if_splits)
  moreover have "length sig = 32" using sign_hs256_length [OF sig(2)] .
  then have "verify_jwt lib now' store token kind allow' =
      (case check_claims now' store kind allow' header payload of
         Some claims \<Rightarrow> Inr claims | None \<Rightarrow> Inl WF_ERR_PERMISSION)" for now' allow'
    unfolding step sig header payload by simp
  moreover have "c = base64url_encode sig"
    using sig(1) encode_decode by (auto simp: base64url_decode_def split: if_splits)
  ultimately show thesis using that sig(2) shape' by metis
qed

text \<open>C9. Nothing but the store's key makes a token: a token that is accepted ends in the one
  encoding of the HMAC of what precedes it, so that no other signature text passes for the same
  content, and it names this service as audience, this account as subject, a known scope, an issue
  time not in the future and, unless expired tokens are asked for, an expiry still ahead.\<close>

theorem jwt_authentic:
  assumes "verify_jwt lib now store token kind allow = Inr (jti, expires, scope)"
  shows "\<exists>a b sig payload.
           token = a @ ''.'' @ b @ ''.'' @ base64url_encode sig \<and>
           jl_hmac lib (au_key store) (bytes_of (a @ ''.'' @ b)) = Some sig \<and> length sig = 32 \<and>
           Option.bind (base64url_decode b) (jl_parse lib) = Some payload \<and>
           json_string payload ''aud'' = Some (au_service_did store) \<and>
           json_string payload ''sub'' = Some (au_account_did store) \<and>
           valid_access_scope scope \<and> (kind = TOKEN_REFRESH \<longleftrightarrow> jti \<noteq> None) \<and>
           (allow \<or> (\<exists>x. json_number payload ''exp'' = Some x \<and> x > of_int now)) \<and>
           (\<exists>x. json_number payload ''iat'' = Some x \<and> x \<le> of_int (now + 60))"
proof (rule verify_jwt_InrD [OF assms])
  fix a b sig header payload
  assume *: "token = a @ ''.'' @ b @ ''.'' @ base64url_encode sig"
    "sign_hs256 lib store (a @ ''.'' @ b) = Inr sig"
    "Option.bind (base64url_decode b) (jl_parse lib) = Some payload"
    "check_claims now store kind allow header payload = Some (jti, expires, scope)"
  have claims: "json_string payload ''aud'' = Some (au_service_did store)"
    "json_string payload ''sub'' = Some (au_account_did store)"
    "valid_access_scope scope" "kind = TOKEN_REFRESH \<longleftrightarrow> jti \<noteq> None"
    "allow \<or> (\<exists>x. json_number payload ''exp'' = Some x \<and> x > of_int now)"
    "\<exists>x. json_number payload ''iat'' = Some x \<and> x \<le> of_int (now + 60)"
    using *(4) unfolding check_claims_def Let_def
    by (cases kind; auto simp: parse_access_scope_def valid_access_scope_def
        split: option.splits if_splits)+
  have "jl_hmac lib (au_key store) (bytes_of (a @ ''.'' @ b)) = Some sig" "length sig = 32"
    using *(2) by (auto simp: sign_hs256_def split: option.splits if_splits)
  then show ?thesis using *(1,3) claims by blast
qed

section \<open>Rotation: laws\<close>

lemma verify_same_claims:
  assumes "verify_jwt lib now store token kind allow = Inr (jti, e, sc)"
    and "verify_jwt lib now' store token kind allow' = Inr c'"
  shows "c' = (jti, e, sc)"
proof (rule verify_jwt_InrD [OF assms(1)])
  fix header payload
  assume c: "check_claims now store kind allow header payload = Some (jti, e, sc)"
    and v: "\<And>now' allow'. verify_jwt lib now' store token kind allow' =
           (case check_claims now' store kind allow' header payload of
              Some claims \<Rightarrow> Inr claims | None \<Rightarrow> Inl WF_ERR_PERMISSION)"
  have "check_claims now' store kind allow' header payload = Some c'"
    using assms(2) v [of now' allow'] by (simp split: option.splits)
  then show ?thesis using c by (auto simp: check_claims_def Let_def split: option.splits if_splits)
qed

lemma store_sign: "sign_hs256 lib (store\<lparr>au_refresh_token := rows\<rparr>) = sign_hs256 lib store"
  by (rule ext) (simp add: sign_hs256_def)

lemma store_claims: "check_claims now (store\<lparr>au_refresh_token := rows\<rparr>) = check_claims now store"
proof -
  have "au_service_did (store\<lparr>au_refresh_token := rows\<rparr>) = au_service_did store"
    "au_account_did (store\<lparr>au_refresh_token := rows\<rparr>) = au_account_did store" by simp_all
  then show ?thesis by (intro ext) (simp only: check_claims_def)
qed

lemma store_payload: "jwt_payload (store\<lparr>au_refresh_token := rows\<rparr>) = jwt_payload store"
  by (intro ext) (simp add: jwt_payload_def)

lemma store_irrelevant [simp]:
  "verify_jwt lib now (store\<lparr>au_refresh_token := rows\<rparr>) token kind allow = verify_jwt lib now store token kind allow"
  "issue_pair lib n a r (store\<lparr>au_refresh_token := rows\<rparr>) jti e sc = issue_pair lib n a r store jti e sc"
  unfolding verify_jwt_def issue_pair_def create_jwt_def store_sign store_claims store_payload
  by (rule refl)+

lemma prune_update:
  "\<exists>P. prune_expired_refreshes ok now store =
     store\<lparr>au_refresh_token := filter P (au_refresh_token store)\<rparr> \<and>
     (\<forall>r. \<not> expired_refresh now r \<longrightarrow> P r)"
proof (cases ok)
  case False
  then show ?thesis by (intro exI [of _ "\<lambda>_. True"]) (simp add: prune_expired_refreshes_def)
next
  case True
  then show ?thesis
    by (intro exI [of _ "\<lambda>r. \<not> expired_refresh now r"]) (simp add: prune_expired_refreshes_def)
qed

lemma find_unique:
  assumes "distinct (map f xs)" and "x \<in> set xs" and "P x"
  shows "find (\<lambda>r. f r = f x \<and> P r) xs = Some x"
  using assms by (induction xs) (auto simp: image_iff)

lemma rotate_single:
  "metalbear_auth_rotate_refresh lib [a] token store = Some (res, store') \<longleftrightarrow>
   rotate_once lib a token store = (DONE res, store')"
  by (auto split: prod.splits rotate_result.splits)

text \<open>A pass without interference does not retry.\<close>

lemma rotate_once_no_retry:
  assumes "ra_between a = id"
  shows "fst (rotate_once lib a token store) \<noteq> RETRY"
proof -
  have "fst (rotate_fresh lib a jti row store1) \<noteq> RETRY"
    if "select_refresh store1 jti = Some row" "rf_next_jti row = None" "\<not> rf_revoked row"
    for jti row store1
  proof -
    have "row \<in> set (au_refresh_token store1)" "takes_successor jti row"
      using that find_SomeD [OF that(1) [unfolded select_refresh_def]]
      by (simp_all add: takes_successor_def)
    then have "filter (takes_successor jti) (au_refresh_token store1) \<noteq> []"
      by (auto simp: filter_empty_conv)
    then show ?thesis
      using assms by (simp add: rotate_fresh_def Let_def split: sum.split prod.split)
  qed
  then show ?thesis
    unfolding rotate_once_def by (auto simp: Let_def split: sum.split prod.split option.split)
qed

text \<open>C36. Rotation comes to an end: the retry after a lost race is taken only when another request
  changed the table in between, so a refresh returns as soon as one of its passes runs
  undisturbed.\<close>

theorem rotation_returns:
  assumes "\<exists>a \<in> set ats. ra_between a = id"
  shows "\<exists>res store'. metalbear_auth_rotate_refresh lib ats token store = Some (res, store')"
  using assms
proof (induction ats arbitrary: store)
  case (Cons a ats)
  show ?case
  proof (cases "rotate_once lib a token store")
    case (Pair r store1)
    show ?thesis
    proof (cases r)
      case RETRY
      then have "ra_between a \<noteq> id" using rotate_once_no_retry [of a lib token store] Pair by auto
      then show ?thesis using Cons Pair RETRY by auto
    qed (simp add: Pair)
  qed
qed simp

text \<open>What a first successful rotation leaves behind.\<close>

lemma rotate_fresh_DoneD:
  assumes "rotate_fresh lib a jti row store = (DONE (Inr toks), store')" and "ra_between a = id"
  obtains j2 where "random_jti (ra_random a) = Inr j2" and "j2 \<notin> rf_jti ` set (au_refresh_token store)"
    and "issue_pair lib (ra_clock a 3) (ra_clock a 4) (ra_clock a 5) store j2
           (ra_clock a 2 + REFRESH_LIFETIME_SECONDS) (rf_access_scope row) = Inr toks"
    and "store' = store\<lparr>au_refresh_token :=
           map (\<lambda>r. if takes_successor jti r
                    then r\<lparr>rf_next_jti := Some j2,
                           rf_grace_expires_at := Some (min (rf_expires_at row)
                             (ra_clock a 2 + REFRESH_GRACE_SECONDS))\<rparr>
                    else r) (au_refresh_token store) @
           [\<lparr>rf_jti = j2, rf_did = au_account_did store,
             rf_expires_at = ra_clock a 2 + REFRESH_LIFETIME_SECONDS, rf_next_jti = None,
             rf_grace_expires_at = None, rf_revoked = False, rf_access_scope = rf_access_scope row,
             rf_app_password_name = rf_app_password_name row\<rparr>]\<rparr>"
proof -
  obtain j2 where j2: "random_jti (ra_random a) = Inr j2"
    using assms(1) by (auto simp: rotate_fresh_def split: sum.splits)
  let ?g = "if ra_clock a 2 + REFRESH_GRACE_SECONDS > rf_expires_at row then rf_expires_at row
       else ra_clock a 2 + REFRESH_GRACE_SECONDS"
  let ?upd = "\<lambda>r. if takes_successor jti r
       then r\<lparr>rf_next_jti := Some j2, rf_grace_expires_at := Some ?g\<rparr> else r"
  have g: "?g = min (rf_expires_at row) (ra_clock a 2 + REFRESH_GRACE_SECONDS)" by simp
  have "rf_jti (?upd r) = rf_jti r" for r by simp
  then have jtis: "rf_jti ` set (map ?upd rows) = rf_jti ` set rows" for rows
    by (simp only: set_map image_image)
  have out: "ra_persist_ok a \<and> j2 \<notin> rf_jti ` set (map ?upd (au_refresh_token store)) \<and>
      issue_pair lib (ra_clock a 3) (ra_clock a 4) (ra_clock a 5) store j2
        (ra_clock a 2 + REFRESH_LIFETIME_SECONDS) (rf_access_scope row) = Inr toks \<and>
      store' = store\<lparr>au_refresh_token := map ?upd (au_refresh_token store) @
           [\<lparr>rf_jti = j2, rf_did = au_account_did store,
             rf_expires_at = ra_clock a 2 + REFRESH_LIFETIME_SECONDS, rf_next_jti = None,
             rf_grace_expires_at = None, rf_revoked = False, rf_access_scope = rf_access_scope row,
             rf_app_password_name = rf_app_password_name row\<rparr>]\<rparr>"
    using assms unfolding rotate_fresh_def j2 sum.case Let_def
    by (simp only: id_apply persist_refresh_def) (auto split: if_splits)
  note jtis' = jtis [unfolded g]
  from out [unfolded g jtis'] show thesis using that [OF j2] by blast
qed

lemma rotate_once_verified:
  assumes "verify_jwt lib (ra_clock a 0) store token TOKEN_REFRESH False = Inr (Some jti, e, sc)"
    and "prune_expired_refreshes (ra_prune_ok a) (ra_clock a 1) store = store1"
  shows "rotate_once lib a token store =
    (if ra_select a = SQL_UNPREPARED then (DONE (Inl WF_ERR_INTERNAL), store1)
     else if ra_select a = SQL_STEP_FAILS then (DONE (Inl WF_ERR_PERMISSION), store1)
     else (case select_refresh store1 jti of
             None \<Rightarrow> (DONE (Inl WF_ERR_PERMISSION), store1)
           | Some row \<Rightarrow>
               if \<not> valid_access_scope (rf_access_scope row) \<or> rf_revoked row \<or>
                  rf_expires_at row \<le> ra_clock a 2 \<or>
                  (rf_next_jti row \<noteq> None \<and>
                   (case rf_grace_expires_at row of Some g \<Rightarrow> g | None \<Rightarrow> 0) \<le> ra_clock a 2)
               then (DONE (Inl WF_ERR_PERMISSION), store1)
               else (case rf_next_jti row of
                       None \<Rightarrow> rotate_fresh lib a jti row store1
                     | Some next_jti \<Rightarrow> (DONE (rotate_reuse lib a next_jti store1), store1))))"
  by (simp only: rotate_once_def assms sum.case prod.case option.case Let_def)

text \<open>A token whose row has a successor, presented again.\<close>

lemma rotate_once_successor:
  assumes "verify_jwt lib (ra_clock a 0) store token TOKEN_REFRESH False = Inr (Some jti, e, sc)"
    and "ra_select a = SQL_RUNS"
    and "distinct (map rf_jti (au_refresh_token store))" and "row \<in> set (au_refresh_token store)"
    and "rf_jti row = jti" and "rf_did row = au_account_did store" and "\<not> rf_revoked row"
    and "valid_access_scope (rf_access_scope row)" and "rf_next_jti row = Some j2"
    and "rf_grace_expires_at row = Some g" and "g \<le> rf_expires_at row"
    and "ra_clock a 1 < g" and "ra_clock a 2 < g"
    and "succ \<in> set (au_refresh_token store)" and "rf_jti succ = j2" and "\<not> rf_revoked succ"
    and "valid_access_scope (rf_access_scope succ)" and "rf_next_jti succ = None"
    and "ra_clock a 1 < rf_expires_at succ" and "ra_successor a = SQL_RUNS"
  shows "rotate_once lib a token store =
    (DONE (issue_pair lib (ra_clock a 3) (ra_clock a 4) (ra_clock a 5) store j2
       (rf_expires_at succ) (rf_access_scope succ)),
     prune_expired_refreshes (ra_prune_ok a) (ra_clock a 1) store)"
proof -
  obtain P where P: "prune_expired_refreshes (ra_prune_ok a) (ra_clock a 1) store =
        store\<lparr>au_refresh_token := filter P (au_refresh_token store)\<rparr>"
      "\<forall>r. \<not> expired_refresh (ra_clock a 1) r \<longrightarrow> P r"
    using prune_update by blast
  let ?rows = "filter P (au_refresh_token store)"
  have dist: "distinct (map rf_jti ?rows)"
    using assms(3) by (simp add: distinct_map_filter)
  have "\<not> expired_refresh (ra_clock a 1) row" "\<not> expired_refresh (ra_clock a 1) succ"
    using assms(9-12,18,19) by (simp_all add: expired_refresh_def)
  then have mem: "row \<in> set ?rows" "succ \<in> set ?rows"
    using P(2) assms(4,14) by simp_all
  have sel: "find (\<lambda>r. rf_jti r = jti \<and> rf_did r = au_account_did store) ?rows = Some row"
    using find_unique [OF dist mem(1), of "\<lambda>r. rf_did r = au_account_did store"] assms(5,6) by simp
  have nxt: "find (\<lambda>r. rf_jti r = j2 \<and> \<not> rf_revoked r) ?rows = Some succ"
    using find_unique [OF dist mem(2), of "\<lambda>r. \<not> rf_revoked r"] assms(15,16) by simp
  have live: "\<not> rf_expires_at row \<le> ra_clock a 2" "\<not> g \<le> ra_clock a 2"
    using assms(11,13) by simp_all
  show ?thesis
    using assms(2,7-10,17,20) live
    unfolding rotate_once_verified [OF assms(1) P(1)] P(1)
    by (simp add: select_refresh_def sel rotate_reuse_def nxt)
qed

lemma rotate_once_late:
  assumes "verify_jwt lib now store token TOKEN_REFRESH allow = Inr (Some jti, e, sc)"
    and "\<forall>r \<in> set (au_refresh_token store). rf_jti r = jti \<and> rf_did r = au_account_did store \<longrightarrow>
           rf_revoked r \<or> (rf_next_jti r \<noteq> None \<and>
             (\<exists>g. rf_grace_expires_at r = Some g \<and> g \<le> ra_clock a 2))"
  shows "\<exists>status store'. rotate_once lib a token store = (DONE (Inl status), store')"
proof (cases "verify_jwt lib (ra_clock a 0) store token TOKEN_REFRESH False")
  case (Inl st)
  then show ?thesis by (simp add: rotate_once_def)
next
  case (Inr c)
  then have c: "verify_jwt lib (ra_clock a 0) store token TOKEN_REFRESH False = Inr (Some jti, e, sc)"
    using verify_same_claims [OF assms(1) Inr] by simp
  obtain P where P: "prune_expired_refreshes (ra_prune_ok a) (ra_clock a 1) store =
        store\<lparr>au_refresh_token := filter P (au_refresh_token store)\<rparr>"
    using prune_update by blast
  show ?thesis
  proof (cases "find (\<lambda>r. rf_jti r = jti \<and> rf_did r = au_account_did store)
      (filter P (au_refresh_token store))")
    case None
    then show ?thesis
      unfolding rotate_once_verified [OF c P] by (simp add: select_refresh_def)
  next
    case (Some row)
    from find_SomeD [OF this] have "row \<in> set (au_refresh_token store)" "rf_jti row = jti"
      "rf_did row = au_account_did store" by simp_all
    then have "rf_revoked row \<or> (rf_next_jti row \<noteq> None \<and>
        (\<exists>g. rf_grace_expires_at row = Some g \<and> g \<le> ra_clock a 2))"
      using assms(2) by blast
    then show ?thesis
      unfolding rotate_once_verified [OF c P] using Some by (auto simp: select_refresh_def)
  qed
qed

lemma rotate_once_freshD:
  assumes "verify_jwt lib (ra_clock a 0) store token TOKEN_REFRESH False = Inr (Some jti, e, sc)"
    and "rotate_once lib a token store = (DONE (Inr toks), store')"
    and "prune_expired_refreshes (ra_prune_ok a) (ra_clock a 1) store = store1"
    and "select_refresh store1 jti = Some row" and "rf_next_jti row = None"
  shows "rotate_fresh lib a jti row store1 = (DONE (Inr toks), store')"
    and "\<not> rf_revoked row" and "valid_access_scope (rf_access_scope row)"
    and "ra_clock a 2 < rf_expires_at row"
  using assms(2) unfolding rotate_once_verified [OF assms(1,3)] assms(4) option.case assms(5)
  by (simp_all split: if_splits)

text \<open>The table after a first rotation, and what presenting the token again does on it.\<close>

definition successor_row :: "auth_store \<Rightarrow> int \<Rightarrow> string \<Rightarrow> refresh_row \<Rightarrow> refresh_row" where
  "successor_row s expires j2 row =
     \<lparr>rf_jti = j2, rf_did = au_account_did s, rf_expires_at = expires, rf_next_jti = None,
      rf_grace_expires_at = None, rf_revoked = False, rf_access_scope = rf_access_scope row,
      rf_app_password_name = rf_app_password_name row\<rparr>"

definition rotated_rows ::
  "auth_store \<Rightarrow> int \<Rightarrow> int \<Rightarrow> string \<Rightarrow> string \<Rightarrow> refresh_row \<Rightarrow> refresh_row list" where
  "rotated_rows s expires g jti j2 row =
     map (\<lambda>r. if takes_successor jti r
              then r\<lparr>rf_next_jti := Some j2, rf_grace_expires_at := Some g\<rparr> else r)
       (au_refresh_token s) @ [successor_row s expires j2 row]"

lemma rotated_rows_facts:
  assumes "distinct (map rf_jti (au_refresh_token s))" and "row \<in> set (au_refresh_token s)"
    and "takes_successor jti row" and "j2 \<notin> rf_jti ` set (au_refresh_token s)"
  shows "distinct (map rf_jti (rotated_rows s expires g jti j2 row))"
    and "row\<lparr>rf_next_jti := Some j2, rf_grace_expires_at := Some g\<rparr> \<in> set (rotated_rows s expires g jti j2 row)"
    and "successor_row s expires j2 row \<in> set (rotated_rows s expires g jti j2 row)"
proof -
  let ?upd = "\<lambda>r. if takes_successor jti r
      then r\<lparr>rf_next_jti := Some j2, rf_grace_expires_at := Some g\<rparr> else r"
  have "rf_jti (?upd r) = rf_jti r" for r by simp
  then have "map rf_jti (map ?upd xs) = map rf_jti xs" for xs by simp
  then show "distinct (map rf_jti (rotated_rows s expires g jti j2 row))"
    using assms(1,4) by (simp only: rotated_rows_def map_append) (simp add: successor_row_def image_iff)
  have "?upd row \<in> ?upd ` set (au_refresh_token s)" using assms(2) by (rule imageI)
  then show "row\<lparr>rf_next_jti := Some j2, rf_grace_expires_at := Some g\<rparr> \<in> set (rotated_rows s expires g jti j2 row)"
    using assms(3) by (simp add: rotated_rows_def)
  show "successor_row s expires j2 row \<in> set (rotated_rows s expires g jti j2 row)"
    by (simp add: rotated_rows_def)
qed

lemma distinct_key_eq:
  "distinct (map f xs) \<Longrightarrow> x \<in> set xs \<Longrightarrow> y \<in> set xs \<Longrightarrow> f x = f y \<Longrightarrow> x = y"
  by (simp add: distinct_map inj_on_def)


lemma rotated_again:
  assumes "distinct (map rf_jti (au_refresh_token s))" and "row \<in> set (au_refresh_token s)"
    and "takes_successor jti row" and "j2 \<notin> rf_jti ` set (au_refresh_token s)"
    and "rf_did row = au_account_did s" and "valid_access_scope (rf_access_scope row)"
    and "verify_jwt lib (ra_clock b 0) s token TOKEN_REFRESH False = Inr (Some jti, e, sc)"
    and "ra_select b = SQL_RUNS" and "ra_successor b = SQL_RUNS" and "g \<le> rf_expires_at row"
    and "ra_clock b 1 < g" and "ra_clock b 2 < g" and "ra_clock b 1 < expires"
  shows "rotate_once lib b token (s\<lparr>au_refresh_token := rotated_rows s expires g jti j2 row\<rparr>) =
    (DONE (issue_pair lib (ra_clock b 3) (ra_clock b 4) (ra_clock b 5) s j2 expires (rf_access_scope row)),
     prune_expired_refreshes (ra_prune_ok b) (ra_clock b 1)
       (s\<lparr>au_refresh_token := rotated_rows s expires g jti j2 row\<rparr>))"
proof -
  let ?s1 = "s\<lparr>au_refresh_token := rotated_rows s expires g jti j2 row\<rparr>"
  let ?row = "row\<lparr>rf_next_jti := Some j2, rf_grace_expires_at := Some g\<rparr>"
  let ?succ = "successor_row s expires j2 row"
  note facts = rotated_rows_facts [OF assms(1-4), where expires = expires and g = g]
  have "distinct (map rf_jti (au_refresh_token ?s1))" "?row \<in> set (au_refresh_token ?s1)"
    "?succ \<in> set (au_refresh_token ?s1)" using facts by simp_all
  note step = rotate_once_successor [of lib b ?s1 token jti e sc ?row j2 g ?succ,
      OF _ assms(8) this(1,2) _ _ _ _ _ _ _ assms(11,12) this(3) _ _ _ _ _ assms(9)]
  show ?thesis
    by (rule step [THEN trans])
      (use assms(3,5-7,10,13) in \<open>simp_all add: successor_row_def takes_successor_def\<close>)
qed

lemma rotated_late:
  assumes "distinct (map rf_jti (au_refresh_token s))" and "row \<in> set (au_refresh_token s)"
    and "takes_successor jti row" and "j2 \<notin> rf_jti ` set (au_refresh_token s)"
    and "verify_jwt lib now s token TOKEN_REFRESH allow = Inr (Some jti, e, sc)"
    and "g \<le> ra_clock b 2"
  shows "\<exists>status s2. rotate_once lib b token
    (s\<lparr>au_refresh_token := rotated_rows s expires g jti j2 row\<rparr>) = (DONE (Inl status), s2)"
proof (rule rotate_once_late)
  show "verify_jwt lib now (s\<lparr>au_refresh_token := rotated_rows s expires g jti j2 row\<rparr>) token
      TOKEN_REFRESH allow = Inr (Some jti, e, sc)"
    using assms(5) by simp
  note facts = rotated_rows_facts [OF assms(1-4), where expires = expires and g = g]
  have "rf_jti row = jti" using assms(3) by (simp add: takes_successor_def)
  then have only: "rf_next_jti r = Some j2 \<and> rf_grace_expires_at r = Some g"
    if "r \<in> set (rotated_rows s expires g jti j2 row)" "rf_jti r = jti" for r
    using distinct_key_eq [OF facts(1) that(1) facts(2)] that(2) by simp
  show "\<forall>r \<in> set (au_refresh_token (s\<lparr>au_refresh_token := rotated_rows s expires g jti j2 row\<rparr>)).
      rf_jti r = jti \<and> rf_did r = au_account_did (s\<lparr>au_refresh_token := rotated_rows s expires g jti j2 row\<rparr>) \<longrightarrow>
      rf_revoked r \<or> (rf_next_jti r \<noteq> None \<and> (\<exists>g. rf_grace_expires_at r = Some g \<and> g \<le> ra_clock b 2))"
    using assms(6) only by simp
qed

text \<open>The grace period: once a refresh token has been rotated, presenting it again before
  its grace expires, that is for two hours but not beyond its own expiry, gives a pair for the
  very same successor and rotates nothing; from the end of the grace on it is refused.\<close>

theorem rotation_grace:
  assumes "verify_jwt lib (ra_clock a 0) s token TOKEN_REFRESH False = Inr (Some jti, e, sc)"
    and "metalbear_auth_rotate_refresh lib [a] token s = Some (Inr toks, s1)" and "ra_between a = id"
    and "select_refresh (prune_expired_refreshes (ra_prune_ok a) (ra_clock a 1) s) jti = Some row"
    and "rf_next_jti row = None" and "distinct (map rf_jti (au_refresh_token s))"
  shows "\<exists>j2. random_jti (ra_random a) = Inr j2 \<and>
    issue_pair lib (ra_clock a 3) (ra_clock a 4) (ra_clock a 5) s j2
      (ra_clock a 2 + REFRESH_LIFETIME_SECONDS) (rf_access_scope row) = Inr toks \<and>
    (\<forall>b. verify_jwt lib (ra_clock b 0) s token TOKEN_REFRESH False = Inr (Some jti, e, sc) \<and>
         ra_select b = SQL_RUNS \<and> ra_successor b = SQL_RUNS \<and>
         ra_clock b 1 < min (rf_expires_at row) (ra_clock a 2 + REFRESH_GRACE_SECONDS) \<and>
         ra_clock b 2 < min (rf_expires_at row) (ra_clock a 2 + REFRESH_GRACE_SECONDS) \<longrightarrow>
         metalbear_auth_rotate_refresh lib [b] token s1 =
           Some (issue_pair lib (ra_clock b 3) (ra_clock b 4) (ra_clock b 5) s j2
                   (ra_clock a 2 + REFRESH_LIFETIME_SECONDS) (rf_access_scope row),
                 prune_expired_refreshes (ra_prune_ok b) (ra_clock b 1) s1)) \<and>
    (\<forall>b. min (rf_expires_at row) (ra_clock a 2 + REFRESH_GRACE_SECONDS) \<le> ra_clock b 2 \<longrightarrow>
         (\<exists>status s2. metalbear_auth_rotate_refresh lib [b] token s1 = Some (Inl status, s2)))"
proof -
  let ?g = "min (rf_expires_at row) (ra_clock a 2 + REFRESH_GRACE_SECONDS)"
  let ?ex = "ra_clock a 2 + REFRESH_LIFETIME_SECONDS"
  obtain P where P: "prune_expired_refreshes (ra_prune_ok a) (ra_clock a 1) s =
      s\<lparr>au_refresh_token := filter P (au_refresh_token s)\<rparr>"
    using prune_update by blast
  let ?s0 = "s\<lparr>au_refresh_token := filter P (au_refresh_token s)\<rparr>"
  have once: "rotate_once lib a token s = (DONE (Inr toks), s1)"
    using assms(2) unfolding rotate_single .
  note fresh = rotate_once_freshD [OF assms(1) once P assms(4) [unfolded P] assms(5)]
  have row: "row \<in> set (au_refresh_token ?s0)" "takes_successor jti row" "rf_did row = au_account_did ?s0"
    using find_SomeD [OF assms(4) [unfolded P select_refresh_def]] assms(5) fresh(2)
    by (simp_all add: takes_successor_def)
  have dist: "distinct (map rf_jti (au_refresh_token ?s0))"
    using assms(6) by (simp add: distinct_map_filter)
  obtain j2 where j2: "random_jti (ra_random a) = Inr j2" "j2 \<notin> rf_jti ` set (au_refresh_token ?s0)"
      "issue_pair lib (ra_clock a 3) (ra_clock a 4) (ra_clock a 5) ?s0 j2 ?ex (rf_access_scope row) = Inr toks"
      "s1 = ?s0\<lparr>au_refresh_token := rotated_rows ?s0 ?ex ?g jti j2 row\<rparr>"
    by (rule rotate_fresh_DoneD [OF fresh(1) assms(3)], rule that)
      (assumption | simp only: rotated_rows_def successor_row_def)+
  have again: "rotate_once lib b token s1 =
      (DONE (issue_pair lib (ra_clock b 3) (ra_clock b 4) (ra_clock b 5) s j2 ?ex (rf_access_scope row)),
       prune_expired_refreshes (ra_prune_ok b) (ra_clock b 1) s1)"
    if b: "verify_jwt lib (ra_clock b 0) s token TOKEN_REFRESH False = Inr (Some jti, e, sc)"
      "ra_select b = SQL_RUNS" "ra_successor b = SQL_RUNS" "ra_clock b 1 < ?g" "ra_clock b 2 < ?g" for b
  proof -
    have ex: "ra_clock b 1 < ?ex"
      using b(4) by (simp add: REFRESH_GRACE_SECONDS_def REFRESH_LIFETIME_SECONDS_def)
    have "verify_jwt lib (ra_clock b 0) ?s0 token TOKEN_REFRESH False = Inr (Some jti, e, sc)"
      using b(1) by simp
    from rotated_again [OF dist row(1,2) j2(2) row(3) fresh(3) this b(2,3) _ b(4,5) ex]
    show ?thesis unfolding j2(4) by simp
  qed
  have late: "\<exists>status s2. rotate_once lib b token s1 = (DONE (Inl status), s2)"
    if "?g \<le> ra_clock b 2" for b
  proof -
    have "verify_jwt lib (ra_clock a 0) ?s0 token TOKEN_REFRESH False = Inr (Some jti, e, sc)"
      using assms(1) by simp
    from rotated_late [OF dist row(1,2) j2(2) this that] show ?thesis unfolding j2(4) .
  qed
  have "issue_pair lib (ra_clock a 3) (ra_clock a 4) (ra_clock a 5) s j2 ?ex (rf_access_scope row) = Inr toks"
    using j2(3) by simp
  then show ?thesis unfolding rotate_single using j2(1) again late by blast
qed

section \<open>Revocation: laws\<close>

lemma verify_jwt_cong:
  assumes "au_key t = au_key s" and "au_service_did t = au_service_did s"
    and "au_account_did t = au_account_did s"
  shows "verify_jwt lib now t token kind allow = verify_jwt lib now s token kind allow"
proof -
  have "sign_hs256 lib t = sign_hs256 lib s"
    by (rule ext) (simp only: sign_hs256_def assms)
  moreover have "check_claims now t = check_claims now s"
    by (intro ext) (simp only: check_claims_def assms)
  ultimately show ?thesis by (simp only: verify_jwt_def)
qed

text \<open>What every operation keeps of the rows of one JTI: their account, and that they are revoked.\<close>

definition rows_keep :: "string \<Rightarrow> refresh_row list \<Rightarrow> refresh_row list \<Rightarrow> bool" where
  "rows_keep jti rows rows' \<longleftrightarrow>
     (\<forall>r' \<in> set rows'. rf_jti r' = jti \<longrightarrow>
        (\<exists>r \<in> set rows. rf_jti r = jti \<and> rf_did r = rf_did r' \<and> (rf_revoked r \<longrightarrow> rf_revoked r')))"

definition auth_keeps :: "string \<Rightarrow> auth_store \<Rightarrow> auth_store \<Rightarrow> bool" where
  "auth_keeps jti s t \<longleftrightarrow>
     au_key t = au_key s \<and> au_service_did t = au_service_did s \<and> au_account_did t = au_account_did s \<and>
     rows_keep jti (au_refresh_token s) (au_refresh_token t)"

lemma rows_keep_subset: "set rows' \<subseteq> set rows \<Longrightarrow> rows_keep jti rows rows'"
  unfolding rows_keep_def by blast

lemma rows_keep_trans: "rows_keep jti a b \<Longrightarrow> rows_keep jti b c \<Longrightarrow> rows_keep jti a c"
  unfolding rows_keep_def by fastforce

lemma auth_keeps_refl [simp]: "auth_keeps jti s s"
  by (simp add: auth_keeps_def rows_keep_subset)

lemma auth_keeps_trans: "auth_keeps jti a b \<Longrightarrow> auth_keeps jti b c \<Longrightarrow> auth_keeps jti a c"
  unfolding auth_keeps_def by (metis rows_keep_trans)

lemma auth_keeps_prune: "auth_keeps jti s (prune_expired_refreshes ok now s)"
  by (auto simp: auth_keeps_def prune_expired_refreshes_def intro!: rows_keep_subset)

lemma auth_keeps_persist:
  "jti' \<noteq> jti \<Longrightarrow> auth_keeps jti s (snd (persist_refresh ok jti' e sc name s))"
  by (auto simp: auth_keeps_def persist_refresh_def rows_keep_def)

lemma rows_keep_map:
  assumes "\<And>r. rf_jti (f r) = rf_jti r \<and> rf_did (f r) = rf_did r \<and> (rf_revoked r \<longrightarrow> rf_revoked (f r))"
  shows "rows_keep jti rows (map f rows)"
  using assms by (fastforce simp: rows_keep_def)

lemma auth_keeps_create:
  assumes "random_jti random \<noteq> Inr jti"
  shows "auth_keeps jti s (snd (metalbear_auth_create_scoped_session lib clk ok random pok sc name s))"
proof -
  let ?s1 = "prune_expired_refreshes ok (clk 0) s"
  have 1: "auth_keeps jti s ?s1" by (rule auth_keeps_prune)
  have 2: "auth_keeps jti s (snd (persist_refresh pok j e sc name ?s1))" if "j \<noteq> jti" for j e
    using auth_keeps_trans [OF 1 auth_keeps_persist [OF that]] .
  show ?thesis
    unfolding metalbear_auth_create_scoped_session_def Let_def
    using assms 1 2 by (auto split: sum.split prod.split dest!: sndI)
qed

lemma auth_keeps_fresh:
  assumes "random_jti (ra_random a) \<noteq> Inr jti" and "ra_between a = id"
  shows "auth_keeps jti s (snd (rotate_fresh lib a jti' row s))"
proof (cases "random_jti (ra_random a)")
  case (Inr j2)
  have upd: "auth_keeps jti s (s\<lparr>au_refresh_token :=
      map (\<lambda>r. if takes_successor jti' r
               then r\<lparr>rf_next_jti := Some j2, rf_grace_expires_at := Some g\<rparr> else r)
        (au_refresh_token s)\<rparr>)" for g
    by (simp add: auth_keeps_def rows_keep_map)
  show ?thesis
    unfolding rotate_fresh_def Let_def Inr sum.case assms(2) id_apply
    using assms(1) Inr auth_keeps_trans [OF upd auth_keeps_persist [of j2 jti]]
    by (auto split: prod.split dest!: sndI)
qed (simp add: rotate_fresh_def)

lemma auth_keeps_rotate:
  assumes "random_jti (ra_random a) \<noteq> Inr jti" and "ra_between a = id"
  shows "auth_keeps jti s (snd (rotate_once lib a token s))"
proof -
  let ?s1 = "prune_expired_refreshes (ra_prune_ok a) (ra_clock a 1) s"
  have 1: "auth_keeps jti s ?s1" by (rule auth_keeps_prune)
  have 2: "auth_keeps jti s (snd (rotate_fresh lib a j row ?s1))" for j row
    by (rule auth_keeps_trans [OF 1 auth_keeps_fresh [OF assms]])
  show ?thesis
    unfolding rotate_once_def Let_def using 1 2
    by (simp split: sum.split prod.split option.split if_split)
qed

text \<open>What other requests do to the store, as long as the random generator does not repeat the JTI;
  a rotation's interference is the steps around it.\<close>

inductive auth_step :: "jwt_lib \<Rightarrow> string \<Rightarrow> auth_store \<Rightarrow> auth_store \<Rightarrow> bool"
  for lib :: jwt_lib and jti :: string where
  auth_create: "random_jti random \<noteq> Inr jti \<Longrightarrow> auth_step lib jti s
     (snd (metalbear_auth_create_scoped_session lib clk ok random pok sc name s))"
| auth_rotate: "random_jti (ra_random a) \<noteq> Inr jti \<Longrightarrow> ra_between a = id \<Longrightarrow>
     auth_step lib jti s (snd (rotate_once lib a token s))"
| auth_revoke: "auth_step lib jti s (snd (metalbear_auth_revoke_refresh lib now p q token s))"
| auth_revoke_app: "auth_step lib jti s
     (snd (metalbear_auth_revoke_app_password_sessions p q name s))"

lemma auth_keeps_revoke: "auth_keeps jti s (snd (metalbear_auth_revoke_refresh lib now p q token s))"
  unfolding metalbear_auth_revoke_refresh_def Let_def
  by (simp add: auth_keeps_def rows_keep_map rows_keep_subset split: sum.split prod.split)

lemma auth_keeps_revoke_app:
  "auth_keeps jti s (snd (metalbear_auth_revoke_app_password_sessions p q name s))"
  unfolding metalbear_auth_revoke_app_password_sessions_def
  by (simp add: auth_keeps_def rows_keep_map rows_keep_subset split: option.split)

lemma step_auth_keeps: "auth_step lib jti s t \<Longrightarrow> auth_keeps jti s t"
  by (induction rule: auth_step.induct)
    (simp_all add: auth_keeps_create auth_keeps_rotate auth_keeps_revoke auth_keeps_revoke_app)

interpretation auth_run: transition_system "\<lambda>s. s = s0" "auth_step lib jti" "auth_keeps jti s0"
  for s0 lib jti
proof
  fix s t assume "auth_keeps jti s0 s" and "auth_step lib jti s t"
  then show "auth_keeps jti s0 t" by (blast intro: auth_keeps_trans step_auth_keeps)
qed simp

text \<open>A revoked refresh token is dead: whatever sessions are created, rotated and revoked
  afterwards, presenting it never yields tokens again, not even through the retry after a race.\<close>

theorem revoked_never_rotates:
  assumes "verify_jwt lib now s token TOKEN_REFRESH True = Inr (Some jti, e, sc)"
    and "metalbear_auth_revoke_refresh lib now True True token s = (WF_OK, s1)"
    and "(auth_step lib jti)\<^sup>*\<^sup>* s1 t"
  shows "\<exists>status t'. metalbear_auth_rotate_refresh lib (a # ats) token t = Some (Inl status, t')"
proof -
  let ?hit = "\<lambda>r. rf_jti r = jti \<and> rf_did r = au_account_did s"
  have s1: "s1 = s\<lparr>au_refresh_token :=
      map (\<lambda>r. if ?hit r then r\<lparr>rf_revoked := True\<rparr> else r) (au_refresh_token s)\<rparr>"
    using assms(2) by (simp add: metalbear_auth_revoke_refresh_def assms(1))
  have keeps: "auth_keeps jti s1 t"
    by (rule auth_run.inv_reachable [OF refl assms(3)])
  then have keys: "au_key t = au_key s" "au_service_did t = au_service_did s"
    "au_account_did t = au_account_did s"
    by (simp_all add: auth_keeps_def s1)
  have dead: "\<forall>r \<in> set (au_refresh_token s1). ?hit r \<longrightarrow> rf_revoked r"
    by (simp add: s1 ball_Un, blast)
  have kept: "rows_keep jti (au_refresh_token s1) (au_refresh_token t)"
    using keeps by (simp add: auth_keeps_def)
  have "rf_revoked r'" if r': "r' \<in> set (au_refresh_token t)" "?hit r'" for r'
  proof -
    obtain r where "r \<in> set (au_refresh_token s1)" "rf_jti r = jti" "rf_did r = rf_did r'"
        "rf_revoked r \<longrightarrow> rf_revoked r'"
      using kept r' unfolding rows_keep_def by blast
    then show ?thesis using dead r'(2) by simp
  qed
  then have "\<forall>r \<in> set (au_refresh_token t). ?hit r \<longrightarrow> rf_revoked r" by blast
  then have all: "\<forall>r \<in> set (au_refresh_token t). rf_jti r = jti \<and> rf_did r = au_account_did t \<longrightarrow>
      rf_revoked r \<or> (rf_next_jti r \<noteq> None \<and> (\<exists>g. rf_grace_expires_at r = Some g \<and> g \<le> ra_clock a 2))"
    using keys(3) by simp
  have "verify_jwt lib now t token TOKEN_REFRESH True = Inr (Some jti, e, sc)"
    using assms(1) verify_jwt_cong [OF keys] by simp
  from rotate_once_late [OF this all] show ?thesis by auto
qed

section \<open>The second factor: laws\<close>

text \<open>The calls a login makes on an enrolled second factor, and what they let through.\<close>

datatype totp_call =
    USE_STEP bool int
  | CONSUME_BACKUP bool "byte list"
  | PUT_PENDING bool "byte list"
  | ACTIVATE activate_env "byte list list" int

datatype totp_pass = PASS_STEP int | PASS_BACKUP "byte list"

fun totp_call_run :: "totp_call \<Rightarrow> auth_store \<Rightarrow> totp_pass list \<times> auth_store" where
  "totp_call_run (USE_STEP ok step) s =
     (case metalbear_auth_totp_use_step ok step s of
        (Inr True, t) \<Rightarrow> ([PASS_STEP step], t) | (_, t) \<Rightarrow> ([], t))"
| "totp_call_run (CONSUME_BACKUP ok h) s =
     (case metalbear_auth_totp_consume_backup ok h s of
        (Inr True, t) \<Rightarrow> ([PASS_BACKUP h], t) | (_, t) \<Rightarrow> ([], t))"
| "totp_call_run (PUT_PENDING ok sealed) s = ([], snd (metalbear_auth_totp_put_pending ok sealed s))"
| "totp_call_run (ACTIVATE env hashes step) s =
     ([], snd (metalbear_auth_totp_activate env hashes step s))"

fun totp_run :: "totp_call list \<Rightarrow> auth_store \<Rightarrow> totp_pass list \<times> auth_store" where
  "totp_run [] s = ([], s)"
| "totp_run (c # cs) s =
     (case totp_call_run c s of (ps, t) \<Rightarrow> (case totp_run cs t of (qs, u) \<Rightarrow> (ps @ qs, u)))"

definition passed_steps :: "totp_pass list \<Rightarrow> int list" where
  "passed_steps ps = concat (map (\<lambda>p. case p of PASS_STEP n \<Rightarrow> [n] | _ \<Rightarrow> []) ps)"

definition passed_backups :: "totp_pass list \<Rightarrow> byte list list" where
  "passed_backups ps = concat (map (\<lambda>p. case p of PASS_BACKUP h \<Rightarrow> [h] | _ \<Rightarrow> []) ps)"

lemma passed_simps [simp]:
  "passed_steps [] = []" "passed_backups [] = []"
  "passed_steps (PASS_STEP n # ps) = n # passed_steps ps"
  "passed_steps (PASS_BACKUP h # ps) = passed_steps ps"
  "passed_backups (PASS_STEP n # ps) = passed_backups ps"
  "passed_backups (PASS_BACKUP h # ps) = h # passed_backups ps"
  by (simp_all add: passed_steps_def passed_backups_def)

definition enrolled :: "auth_store \<Rightarrow> int \<Rightarrow> bool" where
  "enrolled s latest \<longleftrightarrow>
     (case au_totp_secret s of Some row \<Rightarrow> tp_active row \<and> tp_last_step row = latest | None \<Rightarrow> False)"

text \<open>One call on an enrolled store.\<close>

lemma totp_call_enrolled:
  assumes "enrolled s latest"
  obtains (idle) "totp_call_run c s = ([], s)"
  | (step) n t where "totp_call_run c s = ([PASS_STEP n], t)" and "latest < n" and "enrolled t n"
      and "au_totp_backup t = au_totp_backup s"
  | (backup) h ps t where "totp_call_run c s = (ps, t)" and "ps = [PASS_BACKUP h] \<or> ps = []"
      and "ps = [PASS_BACKUP h] \<longrightarrow> h \<in> set (au_totp_backup s)"
      and "enrolled t latest" and "au_totp_backup t = filter (\<lambda>x. x \<noteq> h) (au_totp_backup s)"
proof -
  obtain row where row: "au_totp_secret s = Some row" "tp_active row" "tp_last_step row = latest"
    using assms by (auto simp: enrolled_def split: option.splits)
  show thesis
  proof (cases c)
    case (USE_STEP ok n)
    show thesis
    proof (cases "ok \<and> latest < n")
      case True
      then show thesis
        using row USE_STEP
        by (intro step [of n "s\<lparr>au_totp_secret := Some (row\<lparr>tp_last_step := n\<rparr>)\<rparr>"])
          (simp_all add: metalbear_auth_totp_use_step_def enrolled_def)
    next
      case False
      then show thesis
        using row USE_STEP by (intro idle) (auto simp: metalbear_auth_totp_use_step_def)
    qed
  next
    case (CONSUME_BACKUP ok h)
    show thesis
    proof (cases ok)
      case True
      let ?t = "s\<lparr>au_totp_backup := filter (\<lambda>x. x \<noteq> h) (au_totp_backup s)\<rparr>"
      let ?one = "length (filter (\<lambda>x. x = h) (au_totp_backup s)) = 1"
      have "?one \<longrightarrow> filter (\<lambda>x. x = h) (au_totp_backup s) \<noteq> []" by auto
      then have "?one \<longrightarrow> h \<in> set (au_totp_backup s)" by (auto simp: filter_empty_conv)
      then show thesis
        using row True CONSUME_BACKUP
        by (intro backup [of "if ?one then [PASS_BACKUP h] else []" ?t h])
          (auto simp: metalbear_auth_totp_consume_backup_def enrolled_def)
    qed (use CONSUME_BACKUP idle in \<open>simp add: metalbear_auth_totp_consume_backup_def\<close>)
  next
    case (PUT_PENDING ok sealed)
    then show thesis
      using row by (intro idle) (simp add: metalbear_auth_totp_put_pending_def)
  next
    case (ACTIVATE env hashes n)
    then show thesis
      using row by (intro idle) (simp add: metalbear_auth_totp_activate_def)
  qed
qed

lemma totp_run_enrolled:
  "enrolled s latest \<Longrightarrow> totp_run cs s = (ps, t) \<Longrightarrow>
   sorted_wrt (<) (latest # passed_steps ps) \<and> distinct (passed_backups ps) \<and>
   set (passed_backups ps) \<subseteq> set (au_totp_backup s)"
proof (induction cs arbitrary: s latest ps t)
  case (Cons c cs)
  from Cons.prems(1) show ?case
  proof (cases rule: totp_call_enrolled [where c = c])
    case idle
    then show ?thesis using Cons by (auto split: prod.splits)
  next
    case (step n u)
    obtain qs where qs: "totp_run cs u = (qs, t)" "ps = PASS_STEP n # qs"
      using Cons.prems(2) step(1) by (auto split: prod.splits)
    then show ?thesis
      using Cons.IH [OF step(3) qs(1)] step(2,4) by fastforce
  next
    case (backup h ps1 u)
    obtain qs where qs: "totp_run cs u = (qs, t)" "ps = ps1 @ qs"
      using Cons.prems(2) backup(1) by (auto split: prod.splits)
    then show ?thesis
      using Cons.IH [OF backup(4) qs(1)] backup(2,3,5) by auto
  qed
qed simp

text \<open>C14. Nothing that once proved the second factor proves it again: after an activation,
  whatever is attempted short of disabling it, the time steps let through grow strictly from above
  the step of the confirming code, and each backup code is let through at most once and only if
  it was handed out.\<close>

theorem totp_no_replay:
  assumes "metalbear_auth_totp_activate env hashes step s = (WF_OK, s1)"
    and "totp_run calls s1 = (passes, t)"
  shows "sorted_wrt (<) (step # passed_steps passes) \<and> distinct (passed_backups passes) \<and>
         set (passed_backups passes) \<subseteq> set hashes"
proof -
  have table: "insert_backups ok i hs tab = Some tab' \<Longrightarrow> tab' = tab @ hs" for ok i hs tab tab'
    by (induction ok i hs tab rule: insert_backups.induct) (auto split: if_splits)
  have "enrolled s1 step \<and> au_totp_backup s1 = hashes"
    using assms(1) table [of _ 0 hashes "[]"]
    by (auto simp: metalbear_auth_totp_activate_def enrolled_def split: if_splits option.splits)
  then show ?thesis using totp_run_enrolled [of s1 step calls passes t] assms(2) by auto
qed

section \<open>The properties at concrete inputs\<close>

definition demo_auth :: auth_store where
  "demo_auth = \<lparr>au_key = [1], au_service_did = ''did:web:s'', au_account_did = ''did:plc:a'',
     au_meta_key = None, au_refresh_token =
       [\<lparr>rf_jti = ''j1'', rf_did = ''did:plc:a'', rf_expires_at = 100000, rf_next_jti = None,
         rf_grace_expires_at = None, rf_revoked = False, rf_access_scope = 1,
         rf_app_password_name = Some ''phone''\<rparr>],
     au_totp_secret = Some \<lparr>tp_secret = [9], tp_active = False, tp_last_step = -1\<rparr>,
     au_totp_backup = []\<rparr>"

definition demo_payload :: json where
  "demo_payload = jwt_payload demo_auth TOKEN_REFRESH 0 ''j1'' 0 100000"

definition demo_lib :: jwt_lib where
  "demo_lib =
     \<lparr>jl_print = (\<lambda>j. case j of
                    JObject ((k, JString t) # _) \<Rightarrow>
                      if k = ''typ'' then (if t = ''refresh+jwt'' then Some ''R'' else Some ''A'')
                      else Some ''P''
                  | _ \<Rightarrow> Some ''P''),
      jl_parse = (\<lambda>bs. if bs = [82] then Some (jwt_header TOKEN_REFRESH)
                       else if bs = [80] then Some demo_payload else None),
      jl_hmac = (\<lambda>k m. Some (replicate 32 0))\<rparr>"

text \<open>The same, printing the two values of one token only, which it then parses back.\<close>

definition demo_codec :: jwt_lib where
  "demo_codec = demo_lib\<lparr>jl_print := (\<lambda>j. if j = jwt_header TOKEN_REFRESH then Some ''R''
                                          else if j = demo_payload then Some ''P'' else None)\<rparr>"

definition demo_token :: string where
  "demo_token = ''Ug.UA.AAAAAAAAAAAAAAAAAAAAAAAAAAAAAAAAAAAAAAAAAAA''"

definition demo_attempt :: "int \<Rightarrow> rotate_attempt" where
  "demo_attempt now =
     \<lparr>ra_clock = (\<lambda>_. now), ra_prune_ok = True, ra_select = SQL_RUNS,
      ra_random = Some (replicate 16 0), ra_between = id, ra_begin_ok = True, ra_update_ok = True,
      ra_persist_ok = True, ra_commit_ok = True, ra_successor = SQL_RUNS\<rparr>"

lemma demo_encodings:
  "base64url_encode [82] = ''Ug''" "base64url_encode [80] = ''UA''"
  "base64url_encode (replicate 32 0) = ''AAAAAAAAAAAAAAAAAAAAAAAAAAAAAAAAAAAAAAAAAAA''"
  "bytes_of ''R'' = [82]" "bytes_of ''P'' = [80]"
  by code_simp+

lemma demo_codec_ok: "json_codec demo_codec"
  by (simp add: json_codec_def demo_codec_def demo_lib_def demo_encodings)

lemma demo_created: "create_jwt demo_codec 0 demo_auth TOKEN_REFRESH 0 ''j1'' 100000 = Some demo_token"
proof -
  have "demo_payload \<noteq> jwt_header TOKEN_REFRESH"
    by (simp add: demo_payload_def jwt_payload_def jwt_header_def)
  then show ?thesis
    by (simp add: create_jwt_def demo_codec_def demo_payload_def [symmetric] demo_encodings
        sign_hs256_def demo_lib_def demo_token_def del: base64url_encode.simps)
qed

theorem jwt_roundtrip_witness:
  "verify_jwt demo_codec 500 demo_auth demo_token TOKEN_REFRESH False = Inr (Some ''j1'', 100000, 0) \<and>
   verify_jwt demo_codec 500 demo_auth demo_token TOKEN_ACCESS False = Inl WF_ERR_PERMISSION"
  using jwt_roundtrip [OF demo_created demo_codec_ok, of 500 False TOKEN_ACCESS]
  by (simp add: demo_token_def JWT_MAX_BYTES_def valid_access_scope_def)

lemma demo_verified:
  assumes "now < 100000 \<or> allow" and "0 \<le> now + 60"
  shows "verify_jwt demo_lib now demo_auth demo_token TOKEN_REFRESH allow = Inr (Some ''j1'', 100000, 0)"
proof -
  have parts: "demo_token = base64url_encode [82] @ ''.'' @ base64url_encode [80] @ ''.'' @
      base64url_encode (replicate 32 0)"
    by (simp only: demo_encodings) (simp add: demo_token_def)
  have "length demo_token \<le> JWT_MAX_BYTES" by (simp add: demo_token_def JWT_MAX_BYTES_def)
  moreover have "check_claims now demo_auth TOKEN_REFRESH allow (jwt_header TOKEN_REFRESH) demo_payload
      = Some (Some ''j1'', 100000, 0)"
    using check_own_claims [where scope = 0 and now = 0 and now' = now and allow = allow
        and expires = 100000 and kind = TOKEN_REFRESH and store = demo_auth and jti = "''j1''"] assms
    by (auto simp: demo_payload_def valid_access_scope_def)
  ultimately show ?thesis
    unfolding parts by (subst verify_jwt_parts) (simp_all add: sign_hs256_def demo_lib_def del: base64url_encode.simps)
qed

theorem jwt_authentic_witness:
  "\<exists>a b sig. demo_token = a @ ''.'' @ b @ ''.'' @ base64url_encode sig \<and> length sig = 32"
  using jwt_authentic [OF demo_verified [of 500 False]] by auto

theorem rotation_returns_witness:
  "\<exists>res store'. metalbear_auth_rotate_refresh demo_lib [demo_attempt 100] demo_token demo_auth =
     Some (res, store')"
  using rotation_returns [of "[demo_attempt 100]" demo_lib demo_token demo_auth]
  by (simp add: demo_attempt_def)

lemma demo_row: "select_refresh (prune_expired_refreshes True 100 demo_auth) ''j1'' = Some (hd (au_refresh_token demo_auth))"
  by (simp add: demo_auth_def prune_expired_refreshes_def expired_refresh_def select_refresh_def)

lemma demo_rotated:
  "\<exists>toks s1. metalbear_auth_rotate_refresh demo_lib [demo_attempt 100] demo_token demo_auth = Some (Inr toks, s1)"
proof -
  have issued: "\<exists>toks. issue_pair demo_lib x y z st j ex sc = Inr toks" for x y z st j ex sc
    by (simp add: issue_pair_def create_jwt_def demo_lib_def jwt_header_def jwt_payload_def sign_hs256_def
        required_type_def)
  have "random_jti (Some (replicate 16 0)) = Inr ''00000000000000000000000000000000''"
    by code_simp
  then have jti: "\<exists>j2. random_jti (Some (replicate 16 0)) = Inr j2 \<and> j2 \<noteq> ''j1''" by simp
  have v: "verify_jwt demo_lib (ra_clock (demo_attempt 100) 0) demo_auth demo_token TOKEN_REFRESH False =
      Inr (Some ''j1'', 100000, 0)"
    using demo_verified [of 100 False] by (simp add: demo_attempt_def)
  have p: "prune_expired_refreshes (ra_prune_ok (demo_attempt 100)) (ra_clock (demo_attempt 100) 1) demo_auth = demo_auth"
    by (simp add: demo_attempt_def demo_auth_def prune_expired_refreshes_def expired_refresh_def)
  obtain j2 where j2: "random_jti (Some (replicate 16 0)) = Inr j2" "j2 \<noteq> ''j1''" using jti by blast
  show ?thesis
    unfolding rotate_single rotate_once_verified [OF v p]
    using j2 issued
    by (simp add: demo_auth_def demo_attempt_def select_refresh_def valid_access_scope_def rotate_fresh_def
        Let_def takes_successor_def persist_refresh_def)
qed

theorem rotation_grace_witness:
  "\<exists>toks s1. metalbear_auth_rotate_refresh demo_lib [demo_attempt 100] demo_token demo_auth = Some (Inr toks, s1) \<and>
     (\<exists>status s2. metalbear_auth_rotate_refresh demo_lib [demo_attempt 8000] demo_token s1 = Some (Inl status, s2))"
proof -
  obtain toks s1 where first: "metalbear_auth_rotate_refresh demo_lib [demo_attempt 100] demo_token demo_auth = Some (Inr toks, s1)"
    using demo_rotated by blast
  have "verify_jwt demo_lib (ra_clock (demo_attempt 100) 0) demo_auth demo_token TOKEN_REFRESH False =
      Inr (Some ''j1'', 100000, 0)"
    using demo_verified [of 100 False] by (simp add: demo_attempt_def)
  note grace = rotation_grace [OF this first, of "hd (au_refresh_token demo_auth)"]
  have "ra_between (demo_attempt 100) = id"
    "select_refresh (prune_expired_refreshes (ra_prune_ok (demo_attempt 100))
       (ra_clock (demo_attempt 100) 1) demo_auth) ''j1'' = Some (hd (au_refresh_token demo_auth))"
    "rf_next_jti (hd (au_refresh_token demo_auth)) = None"
    "distinct (map rf_jti (au_refresh_token demo_auth))"
    using demo_row by (simp_all add: demo_attempt_def) (simp_all add: demo_auth_def)
  note grace = grace [OF this]
  have "min (rf_expires_at (hd (au_refresh_token demo_auth)))
      (ra_clock (demo_attempt 100) 2 + REFRESH_GRACE_SECONDS) \<le> ra_clock (demo_attempt 8000) 2"
    by (simp add: demo_attempt_def demo_auth_def REFRESH_GRACE_SECONDS_def)
  then show ?thesis using first grace by blast
qed

theorem revoked_never_rotates_witness:
  "\<exists>status t'. metalbear_auth_rotate_refresh demo_lib [demo_attempt 100] demo_token
     (snd (metalbear_auth_revoke_refresh demo_lib 100 True True demo_token demo_auth)) = Some (Inl status, t')"
proof -
  have "metalbear_auth_revoke_refresh demo_lib 100 True True demo_token demo_auth =
      (WF_OK, snd (metalbear_auth_revoke_refresh demo_lib 100 True True demo_token demo_auth))"
    by (simp add: metalbear_auth_revoke_refresh_def demo_verified) (simp add: demo_auth_def)
  from revoked_never_rotates [OF demo_verified [of 100 True] this rtranclp.rtrancl_refl] show ?thesis by simp
qed

definition demo_activate :: activate_env where
  "demo_activate = \<lparr>ac_begin_ok = True, ac_update_ok = True, ac_delete_ok = True,
     ac_insert_ok = (\<lambda>_. True), ac_commit_ok = True\<rparr>"

theorem totp_no_replay_witness:
  "passed_steps (fst (totp_run [USE_STEP True 7, USE_STEP True 8, USE_STEP True 8, CONSUME_BACKUP True [2],
       CONSUME_BACKUP True [2]] (snd (metalbear_auth_totp_activate demo_activate [[1], [2]] 7 demo_auth)))) = [8] \<and>
   sorted_wrt (<) (7 # passed_steps (fst (totp_run [USE_STEP True 7, USE_STEP True 8, USE_STEP True 8,
       CONSUME_BACKUP True [2], CONSUME_BACKUP True [2]]
       (snd (metalbear_auth_totp_activate demo_activate [[1], [2]] 7 demo_auth)))))"
proof -
  let ?s1 = "snd (metalbear_auth_totp_activate demo_activate [[1], [2]] 7 demo_auth)"
  let ?calls = "[USE_STEP True 7, USE_STEP True 8, USE_STEP True 8, CONSUME_BACKUP True [2], CONSUME_BACKUP True [2]]"
  have "metalbear_auth_totp_activate demo_activate [[1], [2]] 7 demo_auth = (WF_OK, ?s1)"
    by (simp add: metalbear_auth_totp_activate_def demo_activate_def demo_auth_def)
  from totp_no_replay [OF this, of ?calls "fst (totp_run ?calls ?s1)" "snd (totp_run ?calls ?s1)"]
  have "sorted_wrt (<) (7 # passed_steps (fst (totp_run ?calls ?s1)))" by simp
  moreover have "passed_steps (fst (totp_run ?calls ?s1)) = [8]"
    by (simp add: metalbear_auth_totp_activate_def demo_activate_def demo_auth_def
        metalbear_auth_totp_use_step_def metalbear_auth_totp_consume_backup_def)
  ultimately show ?thesis by blast
qed

end
