(* ===== verification/Totp.thy ===== *)
theory Totp
  imports MB_Prelude
begin

text \<open>
  \<open>src/twofactor/totp.c\<close>: base32, the time-based codes and their verification, the key file,
  the sealing of secrets and the hashes of backup codes. HMAC and AES-GCM are OpenSSL's and are
  arguments; the random bytes and the outcomes of the system calls are too.
\<close>

unbundle bit_operations_syntax

section \<open>Constants\<close>

definition GCM_NONCE_BYTES :: nat where "GCM_NONCE_BYTES = 12"
definition GCM_TAG_BYTES :: nat where "GCM_TAG_BYTES = 16"
definition METALBEAR_TOTP_STEP_SECONDS :: int where "METALBEAR_TOTP_STEP_SECONDS = 30"
definition METALBEAR_TWOFACTOR_KEY_BYTES :: nat where "METALBEAR_TWOFACTOR_KEY_BYTES = 32"
definition METALBEAR_BACKUP_CODE_BYTES :: nat where "METALBEAR_BACKUP_CODE_BYTES = 10"
definition METALBEAR_BACKUP_CODE_CHARS :: nat where "METALBEAR_BACKUP_CODE_CHARS = 16"
definition METALBEAR_TOTP_SECRET_BYTES :: nat where "METALBEAR_TOTP_SECRET_BYTES = 20"

section \<open>Base32\<close>

definition base32_alphabet :: string where
  "base32_alphabet = ''ABCDEFGHIJKLMNOPQRSTUVWXYZ234567''"

text \<open>\<open>while (bits >= 5)\<close>: the characters it writes and the bits left.\<close>

function emit_sextets :: "32 word \<Rightarrow> nat \<Rightarrow> string \<times> nat" where
  "emit_sextets buffer bits =
     (if bits \<ge> 5
      then (case emit_sextets buffer (bits - 5) of
              (out, left) \<Rightarrow> (base32_alphabet ! unat (drop_bit (bits - 5) buffer AND 31) # out, left))
      else ([], bits))"
  by pat_completeness auto
termination by (relation "measure snd") auto

declare emit_sextets.simps [simp del]

fun base32_encode_loop :: "32 word \<Rightarrow> nat \<Rightarrow> byte list \<Rightarrow> string" where
  "base32_encode_loop buffer bits [] =
     (if bits > 0 then [base32_alphabet ! unat (push_bit (5 - bits) buffer AND 31)] else [])"
| "base32_encode_loop buffer bits (b # bs) =
     (let buffer1 = (push_bit 8 buffer OR ucast b) AND 0xFFFF
      in case emit_sextets buffer1 (bits + 8) of
           (out, left) \<Rightarrow> out @ base32_encode_loop buffer1 left bs)"

definition metalbear_base32_encode :: "byte list \<Rightarrow> nat \<Rightarrow> wf_status + string" where
  "metalbear_base32_encode input out_cap =
     (if out_cap < ((length input + 4) div 5) * 8 + 1 then Inl WF_ERR_INVALID_ARG
      else Inr (base32_encode_loop 0 0 input))"

definition c_toupper :: "char \<Rightarrow> char" where
  "c_toupper c = (if 97 \<le> (of_char c :: nat) \<and> (of_char c :: nat) \<le> 122
                  then char_of ((of_char c :: nat) - 32) else c)"

text \<open>\<open>strchr(base32_alphabet, c) - base32_alphabet\<close>.\<close>

fun char_index :: "char \<Rightarrow> string \<Rightarrow> nat option" where
  "char_index c [] = None"
| "char_index c (x # xs) = (if x = c then Some 0 else map_option Suc (char_index c xs))"

text \<open>\<open>room\<close> is the space left in the output.\<close>

fun base32_decode_loop :: "32 word \<Rightarrow> nat \<Rightarrow> nat \<Rightarrow> string \<Rightarrow> byte list option" where
  "base32_decode_loop buffer bits room [] = Some []"
| "base32_decode_loop buffer bits room (c # cs) =
     (if c = CHR '' '' then base32_decode_loop buffer bits room cs
      else case char_index (c_toupper c) base32_alphabet of
        None \<Rightarrow> None
      | Some v \<Rightarrow>
          let buffer1 = (push_bit 5 buffer OR of_nat v) AND 0xFFFF; bits1 = bits + 5
          in if bits1 \<ge> 8
             then (if room = 0 then None
                   else map_option (Cons (ucast (drop_bit (bits1 - 8) buffer1 AND 0xFF)))
                          (base32_decode_loop buffer1 (bits1 - 8) (room - 1) cs))
             else base32_decode_loop buffer1 bits1 room cs)"

definition metalbear_base32_decode :: "string \<Rightarrow> nat \<Rightarrow> wf_status + byte list" where
  "metalbear_base32_decode input out_cap =
     (case base32_decode_loop 0 0 out_cap input of
        None \<Rightarrow> Inl WF_ERR_INVALID_ARG
      | Some out \<Rightarrow> Inr out)"

section \<open>Codes\<close>

type_synonym hmac = "byte list \<Rightarrow> byte list \<Rightarrow> byte list option"

definition metalbear_totp_secret_new :: "byte list option \<Rightarrow> wf_status + byte list" where
  "metalbear_totp_secret_new random = (case random of None \<Rightarrow> Inl WF_ERR_CRYPTO | Some r \<Rightarrow> Inr r)"

text \<open>The counter, most significant byte first.\<close>

definition totp_counter :: "64 word \<Rightarrow> byte list" where
  "totp_counter c = map (\<lambda>i. ucast (drop_bit (8 * (7 - i)) c AND 0xFF)) [0..<8]"

definition metalbear_totp_code :: "hmac \<Rightarrow> byte list \<Rightarrow> int \<Rightarrow> wf_status + 32 word" where
  "metalbear_totp_code hmac_sha1 secret step =
     (if secret = [] \<or> step < 0 then Inl WF_ERR_INVALID_ARG
      else case hmac_sha1 secret (totp_counter (word_of_int step)) of
        None \<Rightarrow> Inl WF_ERR_CRYPTO
      | Some mac \<Rightarrow>
          if length mac \<noteq> 20 then Inl WF_ERR_CRYPTO
          else
            let offset = unat (mac ! 19 AND 0x0F);
                bin = push_bit 24 (ucast (mac ! offset AND 0x7F) :: 32 word) OR
                      push_bit 16 (ucast (mac ! (offset + 1))) OR
                      push_bit 8 (ucast (mac ! (offset + 2))) OR ucast (mac ! (offset + 3))
            in Inr (bin mod 1000000))"

text \<open>The loop over the window, from \<open>d\<close> on: \<open>None\<close> for the early \<open>return false\<close>.\<close>

fun totp_window ::
  "hmac \<Rightarrow> byte list \<Rightarrow> 32 word \<Rightarrow> int \<Rightarrow> int \<Rightarrow> int list \<Rightarrow> int option \<Rightarrow> int option option" where
  "totp_window hmac_sha1 secret code now_step last_step [] match = Some match"
| "totp_window hmac_sha1 secret code now_step last_step (d # ds) match =
     (let step = now_step + d
      in if step < 0 \<or> step \<le> last_step
         then totp_window hmac_sha1 secret code now_step last_step ds match
         else case metalbear_totp_code hmac_sha1 secret step of
           Inl _ \<Rightarrow> None
         | Inr expected \<Rightarrow>
             totp_window hmac_sha1 secret code now_step last_step ds
               (if expected = code \<and> match = None then Some step else match))"

text \<open>The accepted step, \<open>None\<close> for \<open>false\<close>.\<close>

definition metalbear_totp_verify ::
  "hmac \<Rightarrow> byte list \<Rightarrow> 32 word \<Rightarrow> int \<Rightarrow> int \<Rightarrow> int option" where
  "metalbear_totp_verify hmac_sha1 secret code unix_time last_step =
     (if secret = [] \<or> unix_time < 0 \<or> code > 999999 then None
      else case totp_window hmac_sha1 secret code (unix_time div METALBEAR_TOTP_STEP_SECONDS)
                  last_step [-1, 0, 1] None of
             None \<Rightarrow> None
           | Some match \<Rightarrow> match)"

section \<open>The key file\<close>

record key_file =
  kf_private :: bool
  kf_content :: "byte list"

record key_io =
  io_fopen_ok :: bool
  io_fread :: "byte list \<Rightarrow> byte list"
  io_random :: "byte list option"
  io_create_ok :: bool
  io_written :: nat
  io_synced :: bool
  io_closed :: bool

definition key_read :: "key_io \<Rightarrow> key_file option \<Rightarrow> wf_status + byte list" where
  "key_read io file =
     (case file of
        None \<Rightarrow> Inl WF_ERR_NOT_FOUND
      | Some f \<Rightarrow>
          if \<not> kf_private f then Inl WF_ERR_INVALID_ARG
          else if length (kf_content f) \<noteq> METALBEAR_TWOFACTOR_KEY_BYTES then Inl WF_ERR_INVALID_ARG
          else if \<not> io_fopen_ok io then Inl WF_ERR_NOT_FOUND
          else if length (io_fread io (kf_content f)) = METALBEAR_TWOFACTOR_KEY_BYTES
          then Inr (io_fread io (kf_content f)) else Inl WF_ERR_INTERNAL)"

text \<open>Creation is exclusive; a file that could not be written whole is unlinked.\<close>

definition metalbear_twofactor_key_load_or_create ::
  "key_io \<Rightarrow> string \<Rightarrow> key_file option \<Rightarrow> (wf_status + byte list) \<times> key_file option" where
  "metalbear_twofactor_key_load_or_create io path file =
     (if path = [] then (Inl WF_ERR_INVALID_ARG, file)
      else case key_read io file of
        Inr key \<Rightarrow> (Inr key, file)
      | Inl status \<Rightarrow>
          if status \<noteq> WF_ERR_NOT_FOUND then (Inl status, file)
          else (case io_random io of
                  None \<Rightarrow> (Inl WF_ERR_CRYPTO, file)
                | Some key \<Rightarrow>
                    if file \<noteq> None \<or> \<not> io_create_ok io then (Inl WF_ERR_INTERNAL, file)
                    else if io_written io \<noteq> METALBEAR_TWOFACTOR_KEY_BYTES \<or> \<not> io_synced io \<or>
                            \<not> io_closed io
                    then (Inl WF_ERR_INTERNAL, None)
                    else (Inr key, Some \<lparr>kf_private = True, kf_content = key\<rparr>)))"

section \<open>Sealing\<close>

text \<open>
  \<open>gcm_ready\<close>: the context, the key setup and the update of a decryption succeed;
  \<open>gcm_decrypt\<close> is then \<open>None\<close> for a tag that does not verify.
\<close>

record gcm =
  gcm_ready :: bool
  gcm_encrypt :: "byte list \<Rightarrow> byte list \<Rightarrow> byte list \<Rightarrow> (byte list \<times> byte list) option"
  gcm_decrypt :: "byte list \<Rightarrow> byte list \<Rightarrow> byte list \<Rightarrow> byte list \<Rightarrow> byte list option"

definition metalbear_twofactor_seal ::
  "gcm \<Rightarrow> byte list option \<Rightarrow> byte list \<Rightarrow> byte list \<Rightarrow> wf_status + byte list" where
  "metalbear_twofactor_seal lib random key plain =
     (case random of
        None \<Rightarrow> Inl WF_ERR_CRYPTO
      | Some nonce \<Rightarrow>
          (case gcm_encrypt lib key nonce plain of
             None \<Rightarrow> Inl WF_ERR_CRYPTO
           | Some (cipher, tag) \<Rightarrow> Inr (nonce @ cipher @ tag)))"

definition metalbear_twofactor_open ::
  "gcm \<Rightarrow> byte list \<Rightarrow> byte list \<Rightarrow> wf_status + byte list" where
  "metalbear_twofactor_open lib key sealed =
     (if length sealed < GCM_NONCE_BYTES + GCM_TAG_BYTES then Inl WF_ERR_INVALID_ARG
      else
        let plain_len = length sealed - GCM_NONCE_BYTES - GCM_TAG_BYTES;
            nonce = take GCM_NONCE_BYTES sealed;
            cipher = take plain_len (drop GCM_NONCE_BYTES sealed);
            tag = take GCM_TAG_BYTES (drop (GCM_NONCE_BYTES + plain_len) sealed)
        in if \<not> gcm_ready lib then Inl WF_ERR_CRYPTO
           else case gcm_decrypt lib key nonce cipher tag of
             None \<Rightarrow> Inl WF_ERR_INVALID_ARG
           | Some plain \<Rightarrow> Inr plain)"

section \<open>Backup codes\<close>

definition metalbear_backup_code_new :: "byte list option \<Rightarrow> wf_status + string" where
  "metalbear_backup_code_new random =
     (case random of
        None \<Rightarrow> Inl WF_ERR_CRYPTO
      | Some raw \<Rightarrow> metalbear_base32_encode raw (METALBEAR_BACKUP_CODE_CHARS + 1))"

definition BACKUP_NORM_SIZE :: nat where "BACKUP_NORM_SIZE = 64"

fun normalize_code :: "string \<Rightarrow> string \<Rightarrow> string option" where
  "normalize_code [] norm = Some norm"
| "normalize_code (c # cs) norm =
     (if c = CHR ''-'' \<or> c = CHR '' '' then normalize_code cs norm
      else if length norm + 1 \<ge> BACKUP_NORM_SIZE then None
      else normalize_code cs (norm @ [c_toupper c]))"

definition metalbear_backup_code_hash ::
  "hmac \<Rightarrow> byte list \<Rightarrow> string \<Rightarrow> wf_status + byte list" where
  "metalbear_backup_code_hash hmac_sha256 key code =
     (case normalize_code code [] of
        None \<Rightarrow> Inl WF_ERR_INVALID_ARG
      | Some norm \<Rightarrow>
          if norm = [] then Inl WF_ERR_INVALID_ARG
          else case hmac_sha256 key (bytes_of norm) of
            None \<Rightarrow> Inl WF_ERR_CRYPTO
          | Some out \<Rightarrow> if length out \<noteq> 32 then Inl WF_ERR_CRYPTO else Inr out)"

section \<open>Base32: laws\<close>

text \<open>The low \<open>k\<close> bits of a word, most significant first.\<close>

definition low_bits :: "nat \<Rightarrow> 'a::len word \<Rightarrow> bool list" where
  "low_bits k w = map (bit w) (rev [0..<k])"

lemma low_bits_length [simp]: "length (low_bits k w) = k"
  by (simp add: low_bits_def)

lemma low_bits_cong: "(\<And>i. i < k \<Longrightarrow> bit w i = bit w' i) \<Longrightarrow> low_bits k w = low_bits k w'"
  by (simp add: low_bits_def)

lemma low_bits_split: "low_bits (m + n) w = low_bits m (drop_bit n w) @ low_bits n w"
proof -
  have "[0..<m + n] = [0..<n] @ map (\<lambda>i. i + n) [0..<m]"
    using upt_add_eq_append [of 0 n m] by (simp add: map_add_upt add.commute [of m n])
  then have "rev [0..<m + n] = map (\<lambda>i. i + n) (rev [0..<m]) @ rev [0..<n]"
    by (simp only: rev_append rev_map)
  moreover have "bit w (i + n) = bit (drop_bit n w) i" for i
    by (simp only: bit_drop_bit_eq comp_apply add.commute [of i n])
  ultimately show ?thesis by (simp add: low_bits_def)
qed

lemma mask_ffff: "(0xFFFF :: 32 word) = mask 16"
  by (simp add: mask_eq_exp_minus_1)

lemma bit_ffff: "bit ((0xFFFF) :: 32 word) i \<longleftrightarrow> i < 16"
  unfolding mask_ffff by (auto simp: bit_mask_iff)

lemma low_bits_shift:
  assumes "m + n \<le> 16" and "\<And>i. i < n \<Longrightarrow> bit w' i = bit v i" and "\<And>i. n \<le> i \<Longrightarrow> \<not> bit w' i"
  shows "low_bits (m + n) ((push_bit n buffer OR w') AND 0xFFFF :: 32 word) =
    low_bits m buffer @ low_bits n v"
proof -
  have b: "bit ((push_bit n buffer OR w') AND 0xFFFF :: 32 word) i \<longleftrightarrow>
      ((n \<le> i \<and> i < 32 \<and> bit buffer (i - n)) \<or> bit w' i) \<and> i < 16" for i
    unfolding bit_and_iff bit_or_iff bit_push_bit_iff bit_ffff by auto
  let ?x = "(push_bit n buffer OR w') AND 0xFFFF :: 32 word"
  have "low_bits m (drop_bit n ?x) = low_bits m buffer"
  proof (rule low_bits_cong)
    fix i assume "i < m"
    then show "bit (drop_bit n ?x) i = bit buffer i"
      using assms(1) assms(3) [of "n + i"] by (simp only: bit_drop_bit_eq comp_apply b) simp
  qed
  moreover have "low_bits n ?x = low_bits n v"
    by (rule low_bits_cong) (use assms(1,2) in \<open>simp only: b, simp\<close>)
  ultimately show ?thesis by (simp only: low_bits_split)
qed

lemma base32_codes:
  "map of_char base32_alphabet = [65..<91] @ [50..<56 :: nat]"
  by code_simp

lemma length_base32: "length base32_alphabet = 32"
  using base32_codes [THEN arg_cong [where f = length]] by simp

lemma distinct_base32: "distinct base32_alphabet"
  by (simp add: base32_alphabet_def)

lemma char_index_nth: "distinct xs \<Longrightarrow> k < length xs \<Longrightarrow> char_index (xs ! k) xs = Some k"
proof (induction xs arbitrary: k)
  case (Cons x xs)
  then show ?case by (cases k) auto
qed simp

lemma char_index_SomeD: "char_index c xs = Some k \<Longrightarrow> k < length xs \<and> xs ! k = c"
  by (induction xs arbitrary: k) (auto split: if_splits)

lemma base32_upper: "c \<in> set base32_alphabet \<Longrightarrow> c_toupper c = c \<and> c \<noteq> CHR '' '' \<and> c \<noteq> CHR ''-''"
proof -
  have "\<forall>c \<in> set base32_alphabet. c_toupper c = c \<and> c \<noteq> CHR '' '' \<and> c \<noteq> CHR ''-''"
    unfolding base32_alphabet_def by code_simp
  then show "c \<in> set base32_alphabet \<Longrightarrow> ?thesis" by blast
qed

definition char_bits :: "char \<Rightarrow> bool list" where
  "char_bits c = (case char_index c base32_alphabet of
                    Some v \<Rightarrow> low_bits 5 (of_nat v :: 32 word) | None \<Rightarrow> [])"

lemma mask_31: "(31 :: 32 word) = mask 5"
  by (simp add: mask_eq_exp_minus_1)

lemma char_bits_nth:
  "base32_alphabet ! unat (w AND 31) \<in> set base32_alphabet"
  "char_bits (base32_alphabet ! unat (w AND 31)) = low_bits 5 (w :: 32 word)"
proof -
  have "unat (take_bit 5 w) < 2 ^ 5"
    unfolding unsigned_take_bit_eq by (rule take_bit_nat_less_exp)
  then have k: "unat (w AND 31) < 32"
    by (simp only: mask_31 take_bit_eq_mask [symmetric]) simp
  then show "base32_alphabet ! unat (w AND 31) \<in> set base32_alphabet"
    by (simp add: length_base32)
  have "low_bits 5 (w AND 31) = low_bits 5 w"
    by (rule low_bits_cong) (simp add: mask_31 bit_and_iff bit_mask_iff)
  then show "char_bits (base32_alphabet ! unat (w AND 31)) = low_bits 5 w"
    using k by (simp add: char_bits_def char_index_nth [OF distinct_base32] length_base32)
qed

lemma emit_sextets_bits:
  "emit_sextets buffer bits = (out, left) \<Longrightarrow>
   low_bits bits buffer = concat (map char_bits out) @ low_bits left buffer \<and> left < 5 \<and>
   set out \<subseteq> set base32_alphabet"
proof (induction buffer bits arbitrary: out left rule: emit_sextets.induct)
  case (1 buffer bits)
  show ?case
  proof (cases "bits \<ge> 5")
    case True
    obtain rest where rest: "emit_sextets buffer (bits - 5) = (rest, left)"
        "out = base32_alphabet ! unat (drop_bit (bits - 5) buffer AND 31) # rest"
      using "1.prems" True by (subst (asm) emit_sextets.simps) (auto split: prod.splits)
    have "low_bits bits buffer = low_bits 5 (drop_bit (bits - 5) buffer) @ low_bits (bits - 5) buffer"
      using low_bits_split [of 5 "bits - 5" buffer] True by simp
    then show ?thesis
      using "1.IH" [OF True rest(1)] rest(2) char_bits_nth [of "drop_bit (bits - 5) buffer"] by simp
  next
    case False
    then show ?thesis using "1.prems" by (subst (asm) emit_sextets.simps) auto
  qed
qed

lemma encode_loop_bits:
  "bits < 5 \<Longrightarrow>
   \<exists>z. length z < 5 \<and> set (base32_encode_loop buffer bits bs) \<subseteq> set base32_alphabet \<and>
       concat (map char_bits (base32_encode_loop buffer bits bs)) =
         low_bits bits buffer @ concat (map (low_bits 8) bs) @ z"
proof (induction buffer bits bs rule: base32_encode_loop.induct)
  case (1 buffer bits)
  show ?case
  proof (cases "bits > 0")
    case True
    let ?w = "push_bit (5 - bits) buffer"
    have "low_bits 5 ?w = low_bits bits (drop_bit (5 - bits) ?w) @ low_bits (5 - bits) ?w"
      using low_bits_split [of bits "5 - bits" ?w] "1.prems" by simp
    moreover have "low_bits bits (drop_bit (5 - bits) ?w) = low_bits bits buffer"
      using "1.prems" by (intro low_bits_cong) (auto simp: bit_drop_bit_eq bit_push_bit_iff)
    ultimately show ?thesis
      using True char_bits_nth [of ?w] by (intro exI [of _ "low_bits (5 - bits) ?w"]) simp
  next
    case False
    then show ?thesis by (intro exI [of _ "[]"]) (simp add: low_bits_def)
  qed
next
  case (2 buffer bits b bs)
  let ?buf = "(push_bit 8 buffer OR ucast b) AND 0xFFFF :: 32 word"
  obtain out left where em: "emit_sextets ?buf (bits + 8) = (out, left)"
    by (cases "emit_sextets ?buf (bits + 8)") auto
  have grown: "low_bits (bits + 8) ?buf = low_bits bits buffer @ low_bits 8 b"
    using "2.prems" by (intro low_bits_shift) (auto simp: bit_ucast_iff dest: bit_imp_le_length)
  note parts = emit_sextets_bits [OF em]
  obtain z where z: "length z < 5" "set (base32_encode_loop ?buf left bs) \<subseteq> set base32_alphabet"
      "concat (map char_bits (base32_encode_loop ?buf left bs)) =
         low_bits left ?buf @ concat (map (low_bits 8) bs) @ z"
    using "2.IH" [OF refl em [symmetric]] parts by blast
  have "low_bits bits buffer @ low_bits 8 b = concat (map char_bits out) @ low_bits left ?buf"
    using parts grown by simp
  moreover have "base32_encode_loop buffer bits (b # bs) = out @ base32_encode_loop ?buf left bs"
    by (simp only: base32_encode_loop.simps Let_def em prod.case)
  ultimately show ?case
    using z parts by (intro exI [of _ z]) simp
qed

lemma low_bits_8_inj: "low_bits 8 a = low_bits 8 (b :: byte) \<Longrightarrow> a = b"
proof (rule bit_word_eqI)
  fix i assume eq: "low_bits 8 a = low_bits 8 b" and "i < LENGTH(8)"
  then have "low_bits 8 a ! (7 - i) = low_bits 8 b ! (7 - i)" by simp
  then show "bit a i = bit b i"
    using \<open>i < LENGTH(8)\<close> by (simp add: low_bits_def rev_nth)
qed

lemma concat_bytes_inj:
  "concat (map (low_bits 8) xs) @ y = concat (map (low_bits 8) (ys :: byte list)) @ z \<Longrightarrow>
   length xs = length ys \<Longrightarrow> xs = ys"
  by (induction xs ys rule: list_induct2') (auto dest: low_bits_8_inj)

lemma mask_ff: "(0xFF :: 32 word) = mask 8"
  by (simp add: mask_eq_exp_minus_1)

lemma low_bits_byte: "low_bits 8 (ucast (w AND 0xFF :: 32 word) :: byte) = low_bits 8 w"
  by (rule low_bits_cong) (simp only: mask_ff bit_ucast_iff bit_and_iff bit_mask_iff, simp)

lemma decode_loop_bits:
  "bits < 8 \<Longrightarrow> set cs \<subseteq> set base32_alphabet \<Longrightarrow> bits + 5 * length cs < 8 * room + 8 \<Longrightarrow>
   \<exists>out q. base32_decode_loop buffer bits room cs = Some out \<and> length q < 8 \<and>
     low_bits bits buffer @ concat (map char_bits cs) = concat (map (low_bits 8) out) @ q"
proof (induction cs arbitrary: buffer bits room)
  case Nil
  then show ?case by simp
next
  case (Cons c cs)
  have c: "c_toupper c = c" "c \<noteq> CHR '' ''" "c \<in> set base32_alphabet"
    using base32_upper Cons.prems(2) by auto
  then obtain v where v: "char_index c base32_alphabet = Some v"
    using char_index_nth [OF distinct_base32] by (metis in_set_conv_nth)
  have "v < 32" using char_index_SomeD [OF v] by (simp add: length_base32)
  let ?v = "of_nat v :: 32 word"
  have high: "\<not> bit ?v i" if "5 \<le> i" for i
  proof -
    have "(2::nat) ^ 5 \<le> 2 ^ i" using that by (intro power_increasing) simp_all
    then have "v div 2 ^ i = 0" using \<open>v < 32\<close> by (intro div_less) simp
    then have "\<not> bit v i" by (simp add: bit_iff_odd)
    then show ?thesis by (simp add: bit_of_nat_iff)
  qed
  let ?buf = "(push_bit 5 buffer OR ?v) AND 0xFFFF :: 32 word"
  have grown: "low_bits (bits + 5) ?buf = low_bits bits buffer @ char_bits c"
    unfolding char_bits_def v option.case
    using Cons.prems(1) high by (intro low_bits_shift) simp_all
  show ?case
  proof (cases "bits + 5 \<ge> 8")
    case False
    obtain out q where "base32_decode_loop ?buf (bits + 5) room cs = Some out" "length q < 8"
        "low_bits (bits + 5) ?buf @ concat (map char_bits cs) = concat (map (low_bits 8) out) @ q"
      using Cons.IH [of "bits + 5" room ?buf] Cons.prems False by auto
    moreover have "base32_decode_loop buffer bits room (c # cs) = base32_decode_loop ?buf (bits + 5) room cs"
      using c v False by (simp only: base32_decode_loop.simps Let_def if_False option.case)
    ultimately show ?thesis using grown by (intro exI [of _ out] exI [of _ q]) simp
  next
    case True
    have "room \<noteq> 0" using Cons.prems(3) True by auto
    obtain out q where ih: "base32_decode_loop ?buf (bits - 3) (room - 1) cs = Some out" "length q < 8"
        "low_bits (bits - 3) ?buf @ concat (map char_bits cs) = concat (map (low_bits 8) out) @ q"
    proof -
      have small: "bits - 3 < 8" "bits - 3 + 5 * length cs < 8 * (room - 1) + 8"
        using Cons.prems(1,3) True \<open>room \<noteq> 0\<close> by (cases room; simp)+
      have alpha: "set cs \<subseteq> set base32_alphabet" using Cons.prems(2) by simp
      show thesis using that Cons.IH [OF small(1) alpha small(2), of ?buf] by blast
    qed
    let ?b = "ucast (drop_bit (bits - 3) ?buf AND 0xFF) :: byte"
    have eight: "bits + 5 - 8 = bits - 3" by simp
    have "base32_decode_loop buffer bits room (c # cs) = Some (?b # out)"
      using c v True \<open>room \<noteq> 0\<close>
      by (simp only: base32_decode_loop.simps Let_def if_False if_True option.case eight ih(1) option.map)
    moreover have pieces: "low_bits (bits + 5) ?buf = low_bits 8 ?b @ low_bits (bits - 3) ?buf"
    proof -
      have "8 + (bits - 3) = bits + 5" using True by simp
      then show ?thesis using low_bits_split [of 8 "bits - 3" ?buf] by (simp only: low_bits_byte)
    qed
    moreover have "low_bits bits buffer @ concat (map char_bits (c # cs)) =
        concat (map (low_bits 8) (?b # out)) @ q"
    proof -
      have "low_bits bits buffer @ concat (map char_bits (c # cs)) =
          low_bits (bits + 5) ?buf @ concat (map char_bits cs)"
        by (simp only: grown list.map concat.simps append_assoc)
      also have "\<dots> = low_bits 8 ?b @ (low_bits (bits - 3) ?buf @ concat (map char_bits cs))"
        by (simp only: pieces append_assoc)
      also have "\<dots> = concat (map (low_bits 8) (?b # out)) @ q"
        by (simp only: ih(3) list.map concat.simps append_assoc)
      finally show ?thesis .
    qed
    ultimately show ?thesis using ih(2) by blast
  qed
qed

text \<open>What decoding ignores: spaces and case.\<close>

definition base32_fold :: "string \<Rightarrow> string" where
  "base32_fold s = map c_toupper (filter (\<lambda>c. c \<noteq> CHR '' '') s)"

lemma upper_nat:
  "(of_char (c_toupper c) :: nat) =
     (if 97 \<le> (of_char c :: nat) \<and> (of_char c :: nat) \<le> 122 then of_char c - 32 else of_char c)"
proof (cases "97 \<le> (of_char c :: nat) \<and> (of_char c :: nat) \<le> 122")
  case True
  then have "((of_char c :: nat) - 32) mod 256 = of_char c - 32" by (intro mod_less) linarith
  then show ?thesis using True by (simp only: c_toupper_def if_True of_char_of simp_thms)
next
  case False
  then show ?thesis by (simp only: c_toupper_def if_False)
qed

lemma char_nat_eq: "c = d \<longleftrightarrow> (of_char c :: nat) = of_char d"
  by simp

lemma upper_upper: "c_toupper (c_toupper c) = c_toupper c"
  unfolding char_nat_eq [of "c_toupper (c_toupper c)"] upper_nat by presburger

lemma upper_space: "c_toupper c = CHR '' '' \<longleftrightarrow> c = CHR '' ''"
proof -
  have space: "(of_char CHR '' '' :: nat) = 32" by simp
  show ?thesis
    unfolding char_nat_eq [of "c_toupper c"] char_nat_eq [of c] upper_nat space by presburger
qed

lemma decode_fold: "base32_decode_loop buffer bits room (base32_fold s) = base32_decode_loop buffer bits room s"
proof (induction s arbitrary: buffer bits room)
  case (Cons c s)
  show ?case
  proof (cases "c = CHR '' ''")
    case False
    have "base32_fold (c # s) = c_toupper c # base32_fold s" using False by (simp add: base32_fold_def)
    then show ?thesis
      using False Cons by (simp only: base32_decode_loop.simps upper_upper upper_space if_False)
  qed (use Cons in \<open>simp add: base32_fold_def\<close>)
qed (simp add: base32_fold_def)

lemma encode_loop_length:
  assumes "concat (map char_bits s) = concat (map (low_bits 8) (bs :: byte list)) @ z" and "length z < 5"
    and "set s \<subseteq> set base32_alphabet"
  shows "5 * length s = 8 * length bs + length z"
proof -
  have five: "length (char_bits c) = 5" if "c \<in> set base32_alphabet" for c
    using that char_index_nth [OF distinct_base32] by (auto simp: char_bits_def in_set_conv_nth)
  have "length (concat (map char_bits s)) = 5 * length s"
    using assms(3) by (induction s) (auto simp: five)
  moreover have "length (concat (map (low_bits 8) bs)) = 8 * length bs"
    by (induction bs) auto
  ultimately show ?thesis using arg_cong [OF assms(1), of length] by simp
qed

text \<open>A secret or backup code survives being typed: what base32 encodes, decodes to the same
  bytes with room for just that many, also when written in lower case and with spaces, and the
  text stays within the capacity the encoder demands.\<close>

theorem base32_roundtrip:
  assumes "metalbear_base32_encode bs cap = Inr s" and "base32_fold typed = s" and "length bs \<le> room"
  shows "metalbear_base32_decode typed room = Inr bs \<and> length s < cap"
proof -
  have s: "s = base32_encode_loop 0 0 bs" and cap: "((length bs + 4) div 5) * 8 + 1 \<le> cap"
    using assms(1) by (auto simp: metalbear_base32_encode_def split: if_splits)
  obtain z where z: "length z < 5" "set s \<subseteq> set base32_alphabet"
      "concat (map char_bits s) = concat (map (low_bits 8) bs) @ z"
    using encode_loop_bits [of 0 0 bs] by (auto simp: s low_bits_def)
  note len = encode_loop_length [OF z(3,1,2)]
  have "5 * length s < 8 * room + 8" using len z(1) assms(3) by simp
  then obtain out q where out: "base32_decode_loop 0 0 room s = Some out" "length q < 8"
      "concat (map char_bits s) = concat (map (low_bits 8) out) @ q"
    using decode_loop_bits [of 0 s room 0] z(2) by (auto simp: low_bits_def)
  have "length (concat (map (low_bits 8) (xs :: byte list))) = 8 * length xs" for xs
    by (induction xs) auto
  then have "8 * length bs + length z = 8 * length out + length q"
    using arg_cong [OF trans [OF z(3) [symmetric] out(3)], of length] by simp
  then have "length bs = length out" using z(1) out(2) by simp
  then have "bs = out" using concat_bytes_inj [of bs z out q] z(3) out(3) by simp
  moreover have "length bs \<le> 5 * ((length bs + 4) div 5)" by linarith
  then have "length s \<le> ((length bs + 4) div 5) * 8" using len z(1) by linarith
  then have "length s < cap" using cap by linarith
  moreover have "base32_decode_loop 0 0 room typed = Some out"
    using decode_fold [of 0 0 room typed] out(1) by (simp only: assms(2))
  ultimately show ?thesis
    using cap by (simp add: metalbear_base32_decode_def)
qed


theorem base32_roundtrip_witness:
  "metalbear_base32_decode ''mz xq'' 2 = Inr [102, 111]"
proof -
  have "metalbear_base32_encode [102, 111] 17 = Inr ''MZXQ''"
    "base32_fold ''mz xq'' = ''MZXQ''"
    by code_simp+
  from base32_roundtrip [OF this, of 2] show ?thesis by simp
qed

section \<open>Codes: laws\<close>

lemma totp_code_bound:
  "metalbear_totp_code h secret step = Inr c \<Longrightarrow> \<not> c > 999999"
proof -
  assume "metalbear_totp_code h secret step = Inr c"
  then obtain bin :: "32 word" where "c = bin mod 1000000"
    by (auto simp: metalbear_totp_code_def Let_def split: if_splits option.splits)
  then have "unat c < 1000000" by (simp add: unat_mod)
  then show ?thesis by (simp add: word_less_nat_alt)
qed

text \<open>The bytes dynamic truncation reads are inside the 20-byte MAC.\<close>

lemma truncation_in_bounds: "unat ((b :: byte) AND 0x0F) + 3 < 20"
proof -
  have "(15 :: byte) = mask 4" by (simp add: mask_eq_exp_minus_1)
  then have "b AND 15 = take_bit 4 b" by (simp only: take_bit_eq_mask)
  moreover have "unat (take_bit 4 b) < 2 ^ 4"
    unfolding unsigned_take_bit_eq by (rule take_bit_nat_less_exp)
  ultimately show ?thesis by simp
qed

text \<open>The first acceptable step of a window.\<close>

definition step_matches :: "hmac \<Rightarrow> byte list \<Rightarrow> 32 word \<Rightarrow> int \<Rightarrow> int \<Rightarrow> bool" where
  "step_matches h secret code last_step step \<longleftrightarrow>
     0 \<le> step \<and> last_step < step \<and> metalbear_totp_code h secret step = Inr code"

lemma totp_window_find:
  assumes "secret \<noteq> []" and "\<forall>k m. \<exists>mac. h k m = Some mac \<and> length mac = 20"
  shows "totp_window h secret code now_step last_step ds match =
    Some (case match of
            Some s \<Rightarrow> Some s
          | None \<Rightarrow> find (step_matches h secret code last_step) (map (\<lambda>d. now_step + d) ds))"
proof (induction ds arbitrary: match)
  case Nil
  then show ?case by (simp split: option.split)
next
  case (Cons d ds)
  show ?case
  proof (cases "now_step + d < 0 \<or> now_step + d \<le> last_step")
    case True
    then have "\<not> step_matches h secret code last_step (now_step + d)"
      by (auto simp: step_matches_def)
    then show ?thesis using True Cons by (simp split: option.split)
  next
    case False
    obtain mac where "h secret (totp_counter (word_of_int (now_step + d))) = Some mac" "length mac = 20"
      using assms(2) by blast
    then obtain c where c: "metalbear_totp_code h secret (now_step + d) = Inr c"
      using assms(1) False by (auto simp: metalbear_totp_code_def Let_def)
    then have "step_matches h secret code last_step (now_step + d) \<longleftrightarrow> c = code"
      using False by (auto simp: step_matches_def)
    then show ?thesis using False c Cons by (simp split: option.split)
  qed
qed

text \<open>With a MAC that works, a code is accepted exactly for the earliest step of the
  three around the current one that is later than the last step used and whose code it is; every
  code the generator can give passes the range check.\<close>

theorem totp_verify_exact:
  assumes "\<forall>k m. \<exists>mac. hmac_sha1 k m = Some mac \<and> length mac = 20"
    and "secret \<noteq> []" and "0 \<le> unix_time"
  shows "metalbear_totp_verify hmac_sha1 secret code unix_time last_step = Some step \<longleftrightarrow>
         (step \<in> {unix_time div 30 - 1, unix_time div 30, unix_time div 30 + 1} \<and>
          0 \<le> step \<and> last_step < step \<and> metalbear_totp_code hmac_sha1 secret step = Inr code \<and>
          (\<forall>s \<in> {unix_time div 30 - 1, unix_time div 30}.
             s < step \<and> 0 \<le> s \<and> last_step < s \<longrightarrow> metalbear_totp_code hmac_sha1 secret s \<noteq> Inr code))"
proof -
  define n where "n = unix_time div 30"
  define m where "m = step_matches hmac_sha1 secret code last_step"
  have window: "totp_window hmac_sha1 secret code n last_step [-1, 0, 1] None =
      Some (find m [n - 1, n, n + 1])"
    unfolding totp_window_find [OF assms(2,1)] m_def [symmetric] by simp
  have verify: "metalbear_totp_verify hmac_sha1 secret code unix_time last_step =
      (if code > 999999 then None else find m [n - 1, n, n + 1])"
    unfolding metalbear_totp_verify_def METALBEAR_TOTP_STEP_SECONDS_def n_def [symmetric] window
    using assms(2,3) by (simp only: if_False option.case) simp
  have bound: "m s \<Longrightarrow> \<not> code > 999999" for s
    unfolding m_def step_matches_def using totp_code_bound by blast
  have "find m [n - 1, n, n + 1] = Some step \<longleftrightarrow>
      step \<in> {n - 1, n, n + 1} \<and> m step \<and> (\<forall>s \<in> {n - 1, n}. s < step \<longrightarrow> \<not> m s)"
    by auto
  then have "metalbear_totp_verify hmac_sha1 secret code unix_time last_step = Some step \<longleftrightarrow>
      step \<in> {n - 1, n, n + 1} \<and> m step \<and> (\<forall>s \<in> {n - 1, n}. s < step \<longrightarrow> \<not> m s)"
    unfolding verify using bound [of step] by (simp only: split: if_split) blast
  then show ?thesis
    unfolding n_def [symmetric] m_def step_matches_def by blast
qed

theorem totp_verify_exact_witness:
  "metalbear_totp_verify (\<lambda>k m. Some (replicate 20 0)) [1] 0 65 1 = Some 2"
  by (subst totp_verify_exact)
    (simp_all add: metalbear_totp_code_def Let_def)

section \<open>Sealing: laws\<close>

text \<open>What AES-GCM promises: a tag of 16 bytes, a ciphertext as long as the text, and decryption
  under the same key and nonce.\<close>

definition gcm_ok :: "gcm \<Rightarrow> bool" where
  "gcm_ok lib \<longleftrightarrow> gcm_ready lib \<and>
     (\<forall>key nonce plain cipher tag. gcm_encrypt lib key nonce plain = Some (cipher, tag) \<longrightarrow>
        length tag = GCM_TAG_BYTES \<and> length cipher = length plain \<and>
        gcm_decrypt lib key nonce cipher tag = Some plain)"

text \<open>A sealed secret opens under the key it was sealed with, to the same bytes; what is shorter
  than a nonce and a tag never opens.\<close>

theorem seal_open_roundtrip:
  assumes "gcm_ok lib" and "length nonce = GCM_NONCE_BYTES"
    and "metalbear_twofactor_seal lib (Some nonce) key plain = Inr sealed"
  shows "metalbear_twofactor_open lib key sealed = Inr plain \<and>
         length sealed = length plain + 28 \<and>
         (\<forall>k. k < 28 \<longrightarrow> metalbear_twofactor_open lib key (take k sealed) = Inl WF_ERR_INVALID_ARG)"
proof -
  obtain cipher tag where c: "gcm_encrypt lib key nonce plain = Some (cipher, tag)"
      "sealed = nonce @ cipher @ tag"
    using assms(3) by (auto simp: metalbear_twofactor_seal_def split: option.splits)
  then have len: "length tag = GCM_TAG_BYTES" "length cipher = length plain"
    and dec: "gcm_decrypt lib key nonce cipher tag = Some plain" "gcm_ready lib"
    using assms(1) by (auto simp: gcm_ok_def)
  have "metalbear_twofactor_open lib key sealed = Inr plain"
    using len dec assms(2) by (simp add: metalbear_twofactor_open_def c(2))
  moreover have "metalbear_twofactor_open lib key (take k sealed) = Inl WF_ERR_INVALID_ARG"
    if "k < 28" for k
  proof -
    have "length (take k sealed) < GCM_NONCE_BYTES + GCM_TAG_BYTES"
      using that by (simp add: GCM_NONCE_BYTES_def GCM_TAG_BYTES_def)
    then show ?thesis unfolding metalbear_twofactor_open_def by (simp only: if_True)
  qed
  moreover have "length sealed = length plain + 28"
    using len assms(2) by (simp add: c(2) GCM_NONCE_BYTES_def GCM_TAG_BYTES_def)
  ultimately show ?thesis by blast
qed

definition demo_gcm :: gcm where
  "demo_gcm = \<lparr>gcm_ready = True, gcm_encrypt = (\<lambda>key nonce plain. Some (plain, replicate 16 0)),
               gcm_decrypt = (\<lambda>key nonce cipher tag. Some cipher)\<rparr>"

theorem seal_open_roundtrip_witness:
  "metalbear_twofactor_open demo_gcm [1] (replicate 12 5 @ [7, 8] @ replicate 16 0) = Inr [7, 8]"
  using seal_open_roundtrip [of demo_gcm "replicate 12 5" "[1]" "[7, 8]"]
  by (simp add: gcm_ok_def demo_gcm_def GCM_NONCE_BYTES_def GCM_TAG_BYTES_def metalbear_twofactor_seal_def)

section \<open>Backup codes: laws\<close>

definition code_fold :: "string \<Rightarrow> string" where
  "code_fold s = map c_toupper (filter (\<lambda>c. c \<noteq> CHR ''-'' \<and> c \<noteq> CHR '' '') s)"

lemma normalize_code_fold:
  "length norm < BACKUP_NORM_SIZE \<Longrightarrow>
   normalize_code s norm =
     (if length norm + length (code_fold s) < BACKUP_NORM_SIZE then Some (norm @ code_fold s) else None)"
proof (induction s norm rule: normalize_code.induct)
  case (2 c cs norm)
  show ?case
  proof (cases "c = CHR ''-'' \<or> c = CHR '' ''")
    case True
    then show ?thesis using 2 by (auto simp: code_fold_def)
  next
    case False
    then show ?thesis using 2 by (auto simp: code_fold_def)
  qed
qed (simp add: code_fold_def)

text \<open>A backup code hashes the same however its separators and case are typed.\<close>

lemma backup_hash_typed:
  "code_fold typed = code_fold code \<Longrightarrow>
   metalbear_backup_code_hash h key typed = metalbear_backup_code_hash h key code"
  by (simp add: metalbear_backup_code_hash_def normalize_code_fold BACKUP_NORM_SIZE_def)

end
