(* ===== verification/Dns_Update.thy ===== *)
theory Dns_Update
  imports MB_Prelude
begin

text \<open>
  \<open>src/dns/handle_dns_rfc2136.c\<close>: the DNS messages the server builds for its handle records,
  their signature, one exchange with the name server and the reading of its reply. HMAC, the
  clock, the random identifier and the outcomes of the socket calls are arguments. A read beyond
  the bytes received is a fault, the value \<open>None\<close> of the reading functions.
\<close>

unbundle bit_operations_syntax

section \<open>Messages under construction\<close>

definition DNS_TYPE_TXT :: "32 word" where "DNS_TYPE_TXT = 16"
definition DNS_TYPE_SOA :: "32 word" where "DNS_TYPE_SOA = 6"
definition DNS_TYPE_TSIG :: "32 word" where "DNS_TYPE_TSIG = 250"
definition DNS_CLASS_IN :: "32 word" where "DNS_CLASS_IN = 1"
definition DNS_CLASS_ANY :: "32 word" where "DNS_CLASS_ANY = 255"
definition DNS_OPCODE_UPDATE :: "32 word" where "DNS_OPCODE_UPDATE = 5"
definition TSIG_FUDGE :: "32 word" where "TSIG_FUDGE = 300"
definition MSG_SIZE :: nat where "MSG_SIZE = 4096"

text \<open>\<open>msg_data\<close> holds the bytes written so far, so its length is the field \<open>len\<close>.\<close>

record msg =
  msg_data :: "byte list"
  msg_overflow :: bool

definition msg_empty :: msg where
  "msg_empty = \<lparr>msg_data = [], msg_overflow = False\<rparr>"

definition put_bytes :: "msg \<Rightarrow> byte list \<Rightarrow> msg" where
  "put_bytes m bs =
     (if msg_overflow m \<or> length (msg_data m) + length bs > MSG_SIZE
      then m\<lparr>msg_overflow := True\<rparr>
      else m\<lparr>msg_data := msg_data m @ bs\<rparr>)"

definition put_u8 :: "msg \<Rightarrow> 32 word \<Rightarrow> msg" where
  "put_u8 m value = put_bytes m [ucast value]"

definition put_u16 :: "msg \<Rightarrow> 32 word \<Rightarrow> msg" where
  "put_u16 m value = put_bytes m [ucast (drop_bit 8 value), ucast value]"

definition put_u32 :: "msg \<Rightarrow> 64 word \<Rightarrow> msg" where
  "put_u32 m value =
     put_bytes m [ucast (drop_bit 24 value), ucast (drop_bit 16 value),
                  ucast (drop_bit 8 value), ucast value]"

text \<open>An empty label ends the name, as a trailing dot does; a label over 63 bytes poisons the
  message.\<close>

function put_name :: "msg \<Rightarrow> string \<Rightarrow> msg" where
  "put_name m p =
     (if p = [] then put_u8 m 0
      else case strchr_cut CHR ''.'' p of (label, dot) \<Rightarrow>
        if label = [] then put_u8 m 0
        else if length label > 63 then m\<lparr>msg_overflow := True\<rparr>
        else
          let m1 = put_bytes (put_u8 m (of_nat (length label))) (bytes_of label)
          in case dot of
               None \<Rightarrow> put_u8 m1 0
             | Some rest \<Rightarrow> put_name m1 rest)"
  by pat_completeness auto
termination
  by (relation "measure (\<lambda>(m, p). length p)") (auto dest: strchr_cut_length [OF sym])

declare put_name.simps [simp del]

definition LOWERED_SIZE :: nat where "LOWERED_SIZE = 256"

definition dns_tolower :: "char \<Rightarrow> char" where
  "dns_tolower c = (if 65 \<le> (of_char c :: nat) \<and> (of_char c :: nat) \<le> 90
                    then char_of ((of_char c :: nat) + 32) else c)"

definition put_name_canonical :: "msg \<Rightarrow> string \<Rightarrow> msg" where
  "put_name_canonical m name = put_name m (map dns_tolower (take (LOWERED_SIZE - 1) name))"

section \<open>The signature\<close>

type_synonym hmac_sha256 = "byte list \<Rightarrow> byte list \<Rightarrow> byte list option"

definition put_time :: "msg \<Rightarrow> 64 word \<Rightarrow> msg" where
  "put_time m now = put_u32 (put_u16 m (ucast (drop_bit 32 now))) (now AND 0xffffffff)"

definition tsig_vars :: "string \<Rightarrow> 64 word \<Rightarrow> msg" where
  "tsig_vars key_name now =
     (let vars = put_name_canonical msg_empty key_name;
          vars = put_u16 vars DNS_CLASS_ANY;
          vars = put_u32 vars 0;
          vars = put_name_canonical vars ''hmac-sha256'';
          vars = put_time vars now;
          vars = put_u16 vars TSIG_FUDGE;
          vars = put_u16 vars 0
      in put_u16 vars 0)"

definition tsig_rdata :: "msg \<Rightarrow> 64 word \<Rightarrow> byte list \<Rightarrow> 32 word \<Rightarrow> msg" where
  "tsig_rdata m now mac original_id =
     (let m = put_name_canonical m ''hmac-sha256'';
          m = put_time m now;
          m = put_u16 m TSIG_FUDGE;
          m = put_u16 m (of_nat (length mac));
          m = put_bytes m mac;
          m = put_u16 m original_id;
          m = put_u16 m 0
      in put_u16 m 0)"

text \<open>A 16-bit number at a place of the message, read and written.\<close>

definition be16 :: "byte \<Rightarrow> byte \<Rightarrow> 32 word" where
  "be16 a b = push_bit 8 (ucast a) OR ucast b"

definition set_u16 :: "byte list \<Rightarrow> nat \<Rightarrow> 32 word \<Rightarrow> byte list" where
  "set_u16 bs i v = bs[i := ucast (drop_bit 8 v), Suc i := ucast v]"

text \<open>The signed message, \<open>None\<close> for \<open>false\<close>.\<close>

definition tsig_sign ::
  "hmac_sha256 \<Rightarrow> 64 word \<Rightarrow> msg \<Rightarrow> string \<Rightarrow> byte list \<Rightarrow> 32 word \<Rightarrow> msg option" where
  "tsig_sign hmac now m key_name secret original_id =
     (let vars = tsig_vars key_name now
      in if msg_overflow vars \<or> msg_overflow m then None
         else case hmac secret (msg_data m @ msg_data vars) of
           None \<Rightarrow> None
         | Some mac \<Rightarrow>
             (let m1 = put_u32 (put_u16 (put_u16 (put_name m key_name) DNS_TYPE_TSIG) DNS_CLASS_ANY) 0;
                  rdlength_at = length (msg_data m1);
                  m2 = put_u16 m1 0;
                  rdata_at = length (msg_data m2);
                  m3 = tsig_rdata m2 now mac original_id
              in if msg_overflow m3 then None
                 else
                   let data = set_u16 (msg_data m3) rdlength_at
                                (of_nat (length (msg_data m3) - rdata_at));
                       arcount = be16 (data ! 10) (data ! 11) + 1
                   in Some (m3\<lparr>msg_data := set_u16 data 10 arcount\<rparr>)))"

section \<open>One exchange\<close>

text \<open>
  The outcomes of the socket calls: the addresses found, with whether \<open>socket\<close> and
  \<open>connect\<close> succeed on each; the value \<open>send\<close> returns; and what successive
  \<open>recv\<close> calls find, an empty piece (or none) standing for a return value of 0 or less.
\<close>

record net =
  net_addrs :: "(bool \<times> bool) list"
  net_resolve_error :: string
  net_send :: "byte list \<Rightarrow> int"
  net_recv :: "byte list list"

record rfc2136_config =
  cfg_server :: string
  cfg_port :: string
  cfg_zone :: string
  cfg_key_name :: string
  cfg_secret :: "byte list"

fun connect_any :: "(bool \<times> bool) list \<Rightarrow> bool" where
  "connect_any [] = False"
| "connect_any ((socket_ok, connect_ok) # rest) =
     (if \<not> socket_ok then connect_any rest else if connect_ok then True else connect_any rest)"

text \<open>\<open>while (got < want)\<close>: the bytes read so far and the stream left.\<close>

function recv_loop :: "nat \<Rightarrow> byte list \<Rightarrow> byte list list \<Rightarrow> byte list \<times> byte list list" where
  "recv_loop want got pieces =
     (if length got \<ge> want then (got, pieces)
      else case pieces of
        [] \<Rightarrow> (got, [])
      | piece # rest \<Rightarrow>
          if piece = [] then (got, rest)
          else let n = want - length got
               in recv_loop want (got @ take n piece)
                    (if length piece \<le> n then rest else drop n piece # rest))"
  by pat_completeness auto
termination
  by (relation "measure (\<lambda>(want, got, pieces). want - length got)") (auto simp: neq_Nil_conv)

declare recv_loop.simps [simp del]

definition send_all :: "net \<Rightarrow> byte list \<Rightarrow> bool" where
  "send_all io bs \<longleftrightarrow> net_send io bs = int (length bs)"

text \<open>The reply or the text left in \<open>error\<close>, and the bytes handed to \<open>send\<close>.\<close>

definition exchange ::
  "net \<Rightarrow> string \<Rightarrow> string \<Rightarrow> byte list \<Rightarrow> nat \<Rightarrow> (string + byte list) \<times> byte list list" where
  "exchange io server port request reply_cap =
     (if net_addrs io = [] then (Inl (''cannot resolve '' @ server @ '': '' @ net_resolve_error io), [])
      else if \<not> connect_any (net_addrs io)
      then (Inl (''cannot connect to '' @ server @ '':'' @ port), [])
      else
        let prefix = [ucast (drop_bit 8 (of_nat (length request) :: 64 word)),
                      ucast (of_nat (length request) :: 64 word)]
        in if \<not> send_all io prefix
           then (Inl (''cannot send to '' @ server @ '':'' @ port), [prefix])
           else if \<not> send_all io request
           then (Inl (''cannot send to '' @ server @ '':'' @ port), [prefix, request])
           else
             case recv_loop 2 [] (net_recv io) of (len_buf, pieces) \<Rightarrow>
               (if length len_buf \<noteq> 2 then Inl (''no reply from '' @ server @ '':'' @ port)
                else
                  let want = unat (be16 (len_buf ! 0) (len_buf ! 1))
                  in if want > reply_cap then Inl (''reply from '' @ server @ '' too large'')
                     else case recv_loop want [] pieces of (reply, _) \<Rightarrow>
                       if length reply \<noteq> want then Inl (''short reply from '' @ server)
                       else Inr reply,
                [prefix, request]))"

definition rcode_name :: "32 word \<Rightarrow> string" where
  "rcode_name rcode =
     (if rcode = 0 then ''NOERROR'' else if rcode = 1 then ''FORMERR''
      else if rcode = 2 then ''SERVFAIL'' else if rcode = 3 then ''NXDOMAIN''
      else if rcode = 4 then ''NOTIMP'' else if rcode = 5 then ''REFUSED''
      else if rcode = 6 then ''YXDOMAIN'' else if rcode = 7 then ''YXRRSET''
      else if rcode = 8 then ''NXRRSET'' else if rcode = 9 then ''NOTAUTH''
      else if rcode = 10 then ''NOTZONE'' else if rcode = 16 then ''BADSIG or BADVERS''
      else if rcode = 17 then ''BADKEY'' else if rcode = 18 then ''BADTIME''
      else ''unknown'')"

text \<open>The identifier: two bytes of \<open>/dev/urandom\<close>, or the low bits of the clock.\<close>

definition random_id :: "(byte \<times> byte) option \<Rightarrow> 64 word \<Rightarrow> 32 word" where
  "random_id random now =
     (case random of Some (a, b) \<Rightarrow> be16 a b | None \<Rightarrow> ucast (now AND 0xffff))"

section \<open>Reading a reply\<close>

definition rd :: "byte list \<Rightarrow> nat \<Rightarrow> byte option" where
  "rd reply i = (if i < length reply then Some (reply ! i) else None)"

definition rd16 :: "byte list \<Rightarrow> nat \<Rightarrow> 32 word option" where
  "rd16 reply i =
     (case rd reply i of None \<Rightarrow> None
      | Some a \<Rightarrow> (case rd reply (i + 1) of None \<Rightarrow> None | Some b \<Rightarrow> Some (be16 a b)))"

text \<open>Past a name: two bytes for a compression pointer, or the labels and the final zero.\<close>

function skip_name :: "byte list \<Rightarrow> nat \<Rightarrow> nat option" where
  "skip_name reply i =
     (if \<not> i < length reply then Some (i + 1)
      else case rd reply i of
        None \<Rightarrow> None
      | Some b \<Rightarrow>
          if b = 0 then Some (i + 1)
          else if b AND 0xc0 = 0xc0 then Some (i + 2)
          else skip_name reply (i + unat b + 1))"
  by pat_completeness auto
termination by (relation "measure (\<lambda>(reply, i). length reply - i)") auto

declare skip_name.simps [simp del]

fun skip_questions :: "byte list \<Rightarrow> nat \<Rightarrow> nat \<Rightarrow> nat option" where
  "skip_questions reply 0 i = Some i"
| "skip_questions reply (Suc n) i =
     (if i < length reply
      then (case skip_name reply i of None \<Rightarrow> None | Some j \<Rightarrow> skip_questions reply n (j + 4))
      else Some i)"

text \<open>
  The walk over the answers: \<open>None\<close> for a fault, \<open>Some None\<close> when there is no TXT
  record that fits, \<open>Some (Some text)\<close> for the bytes copied out.
\<close>

fun find_txt :: "byte list \<Rightarrow> nat \<Rightarrow> nat \<Rightarrow> nat \<Rightarrow> byte list option option" where
  "find_txt reply out_len 0 i = Some None"
| "find_txt reply out_len (Suc n) i =
     (if \<not> i + 10 \<le> length reply then Some None
      else case skip_name reply i of None \<Rightarrow> None
      | Some j \<Rightarrow>
          if j + 10 > length reply then Some None
          else case (rd16 reply j, rd16 reply (j + 8)) of
            (Some type, Some rdlength) \<Rightarrow>
              (let k = j + 10; len = unat rdlength in
               if k + len > length reply then Some None
               else if type = DNS_TYPE_TXT \<and> len \<ge> 1
               then (case rd reply k of None \<Rightarrow> None
                     | Some segment \<Rightarrow>
                         if unat segment + 1 \<le> len \<and> unat segment < out_len
                         then (if k + 1 + unat segment \<le> length reply
                               then Some (Some (take (unat segment) (drop (k + 1) reply)))
                               else None)
                         else find_txt reply out_len n (k + len))
               else find_txt reply out_len n (k + len))
          | _ \<Rightarrow> None)"

section \<open>The two operations\<close>

text \<open>
  What an operation leaves: its status, the text of \<open>error\<close> when it wrote one, the text
  found, and the bytes it handed to \<open>send\<close>.
\<close>

record dns_result =
  dr_status :: wf_status
  dr_error :: "string option"
  dr_found :: "byte list option"
  dr_sent :: "byte list list"

text \<open>\<open>error_len\<close> is the size of the caller's \<open>error\<close>, not 0.\<close>

definition dns_fail :: "nat \<Rightarrow> wf_status \<Rightarrow> string \<Rightarrow> byte list list \<Rightarrow> dns_result" where
  "dns_fail error_len st e sent =
     \<lparr>dr_status = st, dr_error = Some (snprintf_cut error_len e), dr_found = None, dr_sent = sent\<rparr>"

definition dns_ok :: "byte list option \<Rightarrow> byte list list \<Rightarrow> dns_result" where
  "dns_ok found sent = \<lparr>dr_status = WF_OK, dr_error = None, dr_found = found, dr_sent = sent\<rparr>"

definition put_header :: "msg \<Rightarrow> 32 word \<Rightarrow> 32 word \<Rightarrow> 32 word \<Rightarrow> msg" where
  "put_header m qid flags upcount =
     put_u16 (put_u16 (put_u16 (put_u16 (put_u16 (put_u16 m qid) flags) 1) 0) upcount) 0"

definition query_message :: "32 word \<Rightarrow> string \<Rightarrow> msg" where
  "query_message qid name =
     put_u16 (put_u16 (put_name (put_header msg_empty qid 0x0100 0) name) DNS_TYPE_TXT) DNS_CLASS_IN"

definition put_delete :: "msg \<Rightarrow> string \<Rightarrow> msg" where
  "put_delete m name =
     put_u16 (put_u32 (put_u16 (put_u16 (put_name m name) DNS_TYPE_TXT) DNS_CLASS_ANY) 0) 0"

text \<open>The record added, after its name.\<close>

definition put_txt :: "msg \<Rightarrow> int \<Rightarrow> string \<Rightarrow> msg" where
  "put_txt m ttl value =
     (let m = put_u32 (put_u16 (put_u16 m DNS_TYPE_TXT) DNS_CLASS_IN)
                (word_of_int (if ttl > 0 then ttl else 300));
          m = put_u16 m (of_nat (length value) + 1);
          m = put_u8 m (of_nat (length value))
      in put_bytes m (bytes_of value))"

definition update_message :: "rfc2136_config \<Rightarrow> 32 word \<Rightarrow> string \<Rightarrow> string option \<Rightarrow> int \<Rightarrow> msg" where
  "update_message config qid name value ttl =
     (let m = put_header msg_empty qid (push_bit 11 DNS_OPCODE_UPDATE) (if value = None then 1 else 2);
          m = put_u16 (put_u16 (put_name m (cfg_zone config)) DNS_TYPE_SOA) DNS_CLASS_IN;
          m = put_delete m name
      in case value of None \<Rightarrow> m | Some v \<Rightarrow> put_txt (put_name m name) ttl v)"

definition reply_cap :: nat where "reply_cap = 4096"

definition read_query_reply :: "nat \<Rightarrow> byte list \<Rightarrow> nat \<Rightarrow> byte list list \<Rightarrow> dns_result option" where
  "read_query_reply error_len reply out_len sent =
     (if length reply < 12 then Some (dns_fail error_len WF_ERR_NETWORK ''truncated reply'' sent)
      else
        let rcode = (ucast (reply ! 3) :: 32 word) AND 0x0f
        in if rcode = 3 then Some (dns_ok None sent)
           else if rcode \<noteq> 0
           then Some (dns_fail error_len WF_ERR_NETWORK (''query refused: '' @ rcode_name rcode) sent)
           else
             let ancount = be16 (reply ! 6) (reply ! 7); qdcount = be16 (reply ! 4) (reply ! 5)
             in if ancount = 0 then Some (dns_ok None sent)
                else case skip_questions reply (unat qdcount) 12 of None \<Rightarrow> None
                | Some i \<Rightarrow> (case find_txt reply out_len (unat ancount) i of None \<Rightarrow> None
                            | Some found \<Rightarrow> Some (dns_ok found sent)))"

text \<open>The clock is read once for the id, if the random source fails, and once for the signature.\<close>

definition metalbear_rfc2136_query_txt ::
  "hmac_sha256 \<Rightarrow> net \<Rightarrow> (byte \<times> byte) option \<Rightarrow> (nat \<Rightarrow> 64 word) \<Rightarrow> rfc2136_config \<Rightarrow> string \<Rightarrow> nat \<Rightarrow>
   nat \<Rightarrow> dns_result option" where
  "metalbear_rfc2136_query_txt hmac io random clock config name out_len error_len =
     (let qid = random_id random (clock 0); m = query_message qid name
      in if msg_overflow m then Some (dns_fail error_len WF_ERR_INVALID_ARG (''name too long: '' @ name) [])
         else case tsig_sign hmac (clock 1) m (cfg_key_name config) (cfg_secret config) qid of
           None \<Rightarrow> Some (dns_fail error_len WF_ERR_INTERNAL ''could not sign the query'' [])
         | Some m1 \<Rightarrow>
             (case exchange io (cfg_server config) (cfg_port config) (msg_data m1) reply_cap of
                (Inl e, sent) \<Rightarrow> Some (dns_fail error_len WF_ERR_NETWORK e sent)
              | (Inr reply, sent) \<Rightarrow> read_query_reply error_len reply out_len sent))"

definition read_update_reply :: "nat \<Rightarrow> byte list \<Rightarrow> byte list list \<Rightarrow> dns_result" where
  "read_update_reply error_len reply sent =
     (if length reply < 12 then dns_fail error_len WF_ERR_NETWORK ''truncated reply to the update'' sent
      else
        let rcode = (ucast (reply ! 3) :: 32 word) AND 0x0f
        in if rcode \<noteq> 0
           then dns_fail error_len WF_ERR_NETWORK (''update refused: '' @ rcode_name rcode) sent
           else dns_ok None sent)"

definition metalbear_rfc2136_update_txt ::
  "hmac_sha256 \<Rightarrow> net \<Rightarrow> (byte \<times> byte) option \<Rightarrow> (nat \<Rightarrow> 64 word) \<Rightarrow> rfc2136_config \<Rightarrow> string \<Rightarrow>
   string option \<Rightarrow> int \<Rightarrow> nat \<Rightarrow> dns_result" where
  "metalbear_rfc2136_update_txt hmac io random clock config name value ttl error_len =
     (let qid = random_id random (clock 0); m = update_message config qid name value ttl
      in if value \<noteq> None \<and> length (the value) > 255
         then dns_fail error_len WF_ERR_INVALID_ARG ''record value too long'' []
         else if msg_overflow m then dns_fail error_len WF_ERR_INVALID_ARG ''update message too large'' []
         else case tsig_sign hmac (clock 1) m (cfg_key_name config) (cfg_secret config) qid of
           None \<Rightarrow> dns_fail error_len WF_ERR_INTERNAL ''could not sign the update'' []
         | Some m1 \<Rightarrow>
             (case exchange io (cfg_server config) (cfg_port config) (msg_data m1) reply_cap of
                (Inl e, sent) \<Rightarrow> dns_fail error_len WF_ERR_NETWORK e sent
              | (Inr reply, sent) \<Rightarrow> read_update_reply error_len reply sent))"

section \<open>Building: laws\<close>

text \<open>A name in wire format, \<open>None\<close> for a label over 63 bytes.\<close>

function wire_name :: "string \<Rightarrow> byte list option" where
  "wire_name p =
     (if p = [] then Some [0]
      else case strchr_cut CHR ''.'' p of (label, dot) \<Rightarrow>
        if label = [] then Some [0]
        else if length label > 63 then None
        else case dot of
          None \<Rightarrow> Some (of_nat (length label) # bytes_of label @ [0])
        | Some rest \<Rightarrow>
            map_option (\<lambda>w. of_nat (length label) # bytes_of label @ w) (wire_name rest))"
  by pat_completeness auto
termination by (relation "measure length") (auto dest: strchr_cut_length [OF sym])

declare wire_name.simps [simp del]

text \<open>
  The reference for a message: its parts in order, each a list of bytes, concatenated when every
  part exists and the whole fits the buffer.
\<close>

definition wire :: "byte list option list \<Rightarrow> byte list option" where
  "wire parts =
     (case those parts of
        None \<Rightarrow> None
      | Some bss \<Rightarrow> if length (concat bss) \<le> MSG_SIZE then Some (concat bss) else None)"

definition msg_abs :: "msg \<Rightarrow> byte list option" where
  "msg_abs m = (if msg_overflow m then None else Some (msg_data m))"

definition u16 :: "32 word \<Rightarrow> byte list" where
  "u16 v = [ucast (drop_bit 8 v), ucast v]"

definition u32 :: "64 word \<Rightarrow> byte list" where
  "u32 v = [ucast (drop_bit 24 v), ucast (drop_bit 16 v), ucast (drop_bit 8 v), ucast v]"

named_theorems putters \<comment> \<open>each writing operation appends one part\<close>

lemma those_append:
  "those (xs @ ys) =
     (case those xs of None \<Rightarrow> None
      | Some a \<Rightarrow> (case those ys of None \<Rightarrow> None | Some b \<Rightarrow> Some (a @ b)))"
  by (induction xs) (auto simp: option.map_comp split: option.splits)

lemma ucast_small: "(ucast (of_nat n :: 32 word) :: byte) = of_nat n"
  by transfer simp

lemma wire_append_None: "wire ps = None \<Longrightarrow> wire (ps @ qs) = None"
  by (auto simp: wire_def those_append split: option.splits if_splits)

lemma wire_snoc:
  "wire (ps @ [Some bs]) =
     (case wire ps of
        None \<Rightarrow> None
      | Some xs \<Rightarrow> if length xs + length bs \<le> MSG_SIZE then Some (xs @ bs) else None)"
  by (auto simp: wire_def those_append split: option.splits)

lemma wire_None_part: "wire (ps @ None # qs) = None"
  by (auto simp: wire_def those_append split: option.splits)

lemma msg_abs_empty [putters]: "msg_abs msg_empty = wire []"
  by (simp add: msg_abs_def msg_empty_def wire_def)

lemma abs_put_bytes [putters]: "msg_abs m = wire ps \<Longrightarrow> msg_abs (put_bytes m bs) = wire (ps @ [Some bs])"
  unfolding wire_snoc by (auto simp: msg_abs_def put_bytes_def split: option.splits if_splits)

lemma abs_put_u8 [putters]:
  "msg_abs m = wire ps \<Longrightarrow> msg_abs (put_u8 m v) = wire (ps @ [Some [ucast v]])"
  unfolding put_u8_def by (rule abs_put_bytes)

lemma abs_put_u16 [putters]:
  "msg_abs m = wire ps \<Longrightarrow> msg_abs (put_u16 m v) = wire (ps @ [Some (u16 v)])"
  unfolding put_u16_def u16_def by (rule abs_put_bytes)

lemma abs_put_u32 [putters]:
  "msg_abs m = wire ps \<Longrightarrow> msg_abs (put_u32 m w) = wire (ps @ [Some (u32 w)])"
  unfolding put_u32_def u32_def by (rule abs_put_bytes)

lemma wire_merge:
  "wire (ps @ [Some a, Some b, w]) = wire (ps @ [map_option (\<lambda>x. a @ b @ x) w])"
  by (cases w) (auto simp: wire_def those_append split: option.splits)

lemma abs_put_name [putters]:
  "msg_abs m = wire ps \<Longrightarrow> msg_abs (put_name m p) = wire (ps @ [wire_name p])"
proof (induction m p arbitrary: ps rule: put_name.induct)
  case (1 m p)
  obtain label dot where cut: "strchr_cut CHR ''.'' p = (label, dot)" by fastforce
  show ?case
  proof (cases "p = [] \<or> label = []")
    case True
    then have "put_name m p = put_u8 m 0" and "wire_name p = Some [ucast (0 :: 32 word)]"
      using cut by (auto simp: put_name.simps [of m p] wire_name.simps [of p])
    then show ?thesis using abs_put_u8 [OF 1(2)] by simp
  next
    case False
    let ?m1 = "put_bytes (put_u8 m (of_nat (length label))) (bytes_of label)"
    show ?thesis
    proof (cases "length label > 63")
      case True
      then have "put_name m p = m\<lparr>msg_overflow := True\<rparr>" and "wire_name p = None"
        using cut False by (auto simp: put_name.simps [of m p] wire_name.simps [of p])
      then show ?thesis by (simp add: wire_None_part msg_abs_def)
    next
      case short: False
      have m1: "msg_abs ?m1 =
          wire (ps @ [Some [of_nat (length label)], Some (bytes_of label)])"
        using abs_put_bytes [OF abs_put_u8 [OF 1(2)], of "of_nat (length label)" "bytes_of label"]
        by (simp add: ucast_small)
      show ?thesis
      proof (cases dot)
        case None
        then have "put_name m p = put_u8 ?m1 0"
            "wire_name p = map_option (\<lambda>x. [of_nat (length label)] @ bytes_of label @ x) (Some [0])"
          using cut False short by (auto simp: put_name.simps [of m p] wire_name.simps [of p])
        then show ?thesis using abs_put_u8 [OF m1, of 0] by (simp only: wire_merge) (simp add: wire_merge)
      next
        case (Some rest)
        then have "put_name m p = put_name ?m1 rest"
            "wire_name p = map_option (\<lambda>x. [of_nat (length label)] @ bytes_of label @ x) (wire_name rest)"
          using cut False short
          by (auto simp: put_name.simps [of m p] wire_name.simps [of p] Let_def)
        moreover have "msg_abs (put_name ?m1 rest) =
            wire ((ps @ [Some [of_nat (length label)], Some (bytes_of label)]) @ [wire_name rest])"
          by (rule 1(1)) (use cut False short Some m1 in \<open>auto\<close>)
        ultimately show ?thesis by (simp add: wire_merge)
      qed
    qed
  qed
qed

section \<open>The update as a reference message\<close>

definition canonical_name :: "string \<Rightarrow> string" where
  "canonical_name name = map dns_tolower (take 255 name)"

lemma abs_put_canonical [putters]:
  "msg_abs m = wire ps \<Longrightarrow> msg_abs (put_name_canonical m p) = wire (ps @ [wire_name (canonical_name p)])"
  unfolding put_name_canonical_def canonical_name_def LOWERED_SIZE_def
  by (simp add: abs_put_name)

definition time_parts :: "64 word \<Rightarrow> byte list option list" where
  "time_parts now = [Some (u16 (ucast (drop_bit 32 now))), Some (u32 (now AND 0xffffffff))]"

lemma abs_put_time [putters]:
  "msg_abs m = wire ps \<Longrightarrow> msg_abs (put_time m now) = wire (ps @ time_parts now)"
  using abs_put_u32 [OF abs_put_u16] by (simp add: put_time_def time_parts_def)

text \<open>The fields of an update, in the order of RFC 2136, and those of the signature.\<close>

definition update_parts ::
  "rfc2136_config \<Rightarrow> 32 word \<Rightarrow> string \<Rightarrow> string option \<Rightarrow> int \<Rightarrow> byte list option list" where
  "update_parts config qid name value ttl =
     [Some (u16 qid), Some [0x28, 0], Some [0, 1], Some [0, 0],
      Some [0, if value = None then 1 else 2], Some [0, 0],
      wire_name (cfg_zone config), Some [0, 6], Some [0, 1],
      wire_name name, Some [0, 16], Some [0, 255], Some [0, 0, 0, 0], Some [0, 0]] @
     (case value of None \<Rightarrow> []
      | Some v \<Rightarrow>
          [wire_name name, Some [0, 16], Some [0, 1],
           Some (u32 (word_of_int (if ttl > 0 then ttl else 300))),
           Some (u16 (of_nat (length v) + 1)), Some [of_nat (length v)], Some (bytes_of v)])"

definition vars_parts :: "string \<Rightarrow> 64 word \<Rightarrow> byte list option list" where
  "vars_parts key_name now =
     [wire_name (canonical_name key_name), Some [0, 255], Some [0, 0, 0, 0],
      wire_name ''hmac-sha256''] @ time_parts now @ [Some [1, 44], Some [0, 0], Some [0, 0]]"

definition rdata_parts :: "64 word \<Rightarrow> byte list \<Rightarrow> 32 word \<Rightarrow> byte list option list" where
  "rdata_parts now mac qid =
     [wire_name ''hmac-sha256''] @ time_parts now @
     [Some [1, 44], Some (u16 (of_nat (length mac))), Some mac, Some (u16 qid), Some [0, 0], Some [0, 0]]"

text \<open>
  The signed message: the body with the count of additional records raised, followed by the
  signature record with its length.
\<close>

definition signed ::
  "hmac_sha256 \<Rightarrow> 64 word \<Rightarrow> byte list \<Rightarrow> string \<Rightarrow> byte list \<Rightarrow> 32 word \<Rightarrow> byte list option" where
  "signed hmac now body key_name secret qid =
     (case wire (vars_parts key_name now) of None \<Rightarrow> None
      | Some vars \<Rightarrow>
          (case hmac secret (body @ vars) of None \<Rightarrow> None
           | Some mac \<Rightarrow>
               (case wire (rdata_parts now mac qid) of None \<Rightarrow> None
                | Some rdata \<Rightarrow>
                    wire [Some (take 10 body), Some (u16 (be16 (body ! 10) (body ! 11) + 1)),
                          Some (drop 12 body), wire_name key_name, Some [0, 250], Some [0, 255],
                          Some [0, 0, 0, 0], Some (u16 (of_nat (length rdata))), Some rdata])))"

lemma u16_simps:
  "u16 0 = [0, 0]" "u16 1 = [0, 1]" "u16 2 = [0, 2]" "u16 6 = [0, 6]" "u16 16 = [0, 16]"
  "u16 250 = [0, 250]" "u16 255 = [0, 255]" "u16 300 = [1, 44]" "u16 0x2800 = [0x28, 0]"
  "u16 0x100 = [1, 0]"
  by code_simp+

lemma u32_0: "u32 0 = [0, 0, 0, 0]"
  by (simp add: u32_def)

lemma abs_vars: "msg_abs (tsig_vars key_name now) = wire (vars_parts key_name now)"
proof -
  note chain = abs_put_u16 [OF abs_put_u16 [OF abs_put_u16 [OF abs_put_time
    [OF abs_put_canonical [OF abs_put_u32 [OF abs_put_u16 [OF abs_put_canonical [OF msg_abs_empty]]]]]]]]
  have "canonical_name ''hmac-sha256'' = ''hmac-sha256''" by code_simp
  then show ?thesis
    unfolding tsig_vars_def Let_def vars_parts_def
    by (subst chain) (simp add: DNS_CLASS_ANY_def TSIG_FUDGE_def u16_simps u32_0)
qed

lemma abs_rdata:
  assumes "msg_abs m = wire ps"
  shows "msg_abs (tsig_rdata m now mac qid) = wire (ps @ rdata_parts now mac qid)"
proof -
  note chain = abs_put_u16 [OF abs_put_u16 [OF abs_put_u16 [OF abs_put_bytes [OF abs_put_u16
    [OF abs_put_u16 [OF abs_put_time [OF abs_put_canonical [OF assms]]]]]]]]
  have "canonical_name ''hmac-sha256'' = ''hmac-sha256''" by code_simp
  then show ?thesis
    unfolding tsig_rdata_def Let_def rdata_parts_def
    by (subst chain) (simp add: TSIG_FUDGE_def u16_simps)
qed

lemma abs_header:
  "msg_abs (put_header msg_empty qid flags n) =
   wire [Some (u16 qid), Some (u16 flags), Some [0, 1], Some [0, 0], Some (u16 n), Some [0, 0]]"
  unfolding put_header_def
  by (subst abs_put_u16 [OF abs_put_u16 [OF abs_put_u16 [OF abs_put_u16 [OF abs_put_u16
    [OF abs_put_u16 [OF msg_abs_empty]]]]]]) (simp add: u16_simps)

lemma abs_delete:
  assumes "msg_abs m = wire ps"
  shows "msg_abs (put_delete m name) =
    wire (ps @ [wire_name name, Some [0, 16], Some [0, 255], Some [0, 0, 0, 0], Some [0, 0]])"
  unfolding put_delete_def
  by (subst abs_put_u16 [OF abs_put_u32 [OF abs_put_u16 [OF abs_put_u16 [OF abs_put_name [OF assms]]]]])
    (simp add: u16_simps u32_0 DNS_TYPE_TXT_def DNS_CLASS_ANY_def)

lemma abs_txt:
  assumes "msg_abs m = wire ps"
  shows "msg_abs (put_txt m ttl v) =
    wire (ps @ [Some [0, 16], Some [0, 1], Some (u32 (word_of_int (if ttl > 0 then ttl else 300))),
                Some (u16 (of_nat (length v) + 1)), Some [of_nat (length v)], Some (bytes_of v)])"
  unfolding put_txt_def Let_def
  by (subst abs_put_bytes [OF abs_put_u8 [OF abs_put_u16 [OF abs_put_u32 [OF abs_put_u16
    [OF abs_put_u16 [OF assms]]]]]])
    (simp add: u16_simps DNS_TYPE_TXT_def DNS_CLASS_IN_def ucast_small)

lemma opcode_bits: "u16 (push_bit 11 DNS_OPCODE_UPDATE) = [0x28, 0]"
  by code_simp

lemma abs_update:
  "msg_abs (update_message config qid name value ttl) = wire (update_parts config qid name value ttl)"
proof -
  define n :: "32 word" where "n = (if value = None then 1 else 2)"
  note zone = abs_put_u16 [OF abs_put_u16 [OF abs_put_name
    [OF abs_header [of qid "push_bit 11 DNS_OPCODE_UPDATE" n]]]]
  have n: "u16 n = [0, if value = None then 1 else 2]" by (simp add: n_def u16_simps)
  have msg: "update_message config qid name value ttl =
    (let m = put_delete (put_u16 (put_u16 (put_name (put_header msg_empty qid (push_bit 11 DNS_OPCODE_UPDATE) n)
               (cfg_zone config)) DNS_TYPE_SOA) DNS_CLASS_IN) name
     in case value of None \<Rightarrow> m | Some v \<Rightarrow> put_txt (put_name m name) ttl v)"
    by (simp only: update_message_def Let_def n_def)
  show ?thesis
  proof (cases "value")
    case None
    show ?thesis
      unfolding msg Let_def unfolding None option.case
      by (subst abs_delete [OF zone])
        (simp add: update_parts_def n None opcode_bits u16_simps DNS_TYPE_SOA_def DNS_CLASS_IN_def)
  next
    case (Some v)
    show ?thesis
      unfolding msg Let_def unfolding Some option.case
      by (subst abs_txt [OF abs_put_name [OF abs_delete [OF zone]]])
        (simp add: update_parts_def n Some opcode_bits u16_simps DNS_TYPE_SOA_def DNS_CLASS_IN_def)
  qed
qed

lemma wire_append:
  "wire (ps @ qs) =
     (case (wire ps, wire qs) of
        (Some a, Some b) \<Rightarrow> if length a + length b \<le> MSG_SIZE then Some (a @ b) else None
      | _ \<Rightarrow> None)"
  by (auto simp: wire_def those_append split: option.splits)

lemma set_u16_at: "set_u16 (a @ [x, y] @ b) (length a) v = a @ u16 v @ b"
  by (simp add: set_u16_def u16_def list_update_append)

lemma set_u16_ten:
  assumes "12 \<le> length body"
  shows "set_u16 (body @ rest) 10 v = take 10 body @ u16 v @ drop 12 body @ rest"
proof -
  have "body = take 10 body @ [body ! 10, body ! 11] @ drop 12 body"
    using assms id_take_nth_drop [of 10 body] id_take_nth_drop [of 0 "drop 11 body"] by simp
  then have e: "body @ rest = take 10 body @ [body ! 10, body ! 11] @ drop 12 body @ rest"
    by (metis append_assoc)
  have "length (take 10 body) = 10" using assms by simp
  then show ?thesis
    unfolding e using set_u16_at [of "take 10 body" "body ! 10" "body ! 11" "drop 12 body @ rest" v]
    by simp
qed

lemma abs_sign:
  assumes "msg_abs m = Some body" and "12 \<le> length body" and "length body \<le> MSG_SIZE"
  shows "map_option msg_data (tsig_sign hmac now m key_name secret qid) =
    signed hmac now body key_name secret qid"
proof (cases "wire (vars_parts key_name now)")
  case None
  then show ?thesis
    using abs_vars [of key_name now]
    by (simp add: tsig_sign_def signed_def msg_abs_def split: if_splits)
next
  case (Some vars)
  then have vars: "\<not> msg_overflow (tsig_vars key_name now)" "msg_data (tsig_vars key_name now) = vars"
    using abs_vars [of key_name now] by (auto simp: msg_abs_def split: if_splits)
  have m: "\<not> msg_overflow m" "msg_data m = body"
    using assms(1) by (auto simp: msg_abs_def split: if_splits)
  show ?thesis
  proof (cases "hmac secret (body @ vars)")
    case None
    then show ?thesis using vars m Some by (simp add: tsig_sign_def signed_def)
  next
    case mac: (Some mac)
    define m1 where "m1 = put_u32 (put_u16 (put_u16 (put_name m key_name) DNS_TYPE_TSIG) DNS_CLASS_ANY) 0"
    define m2 where "m2 = put_u16 m1 0"
    define m3 where "m3 = tsig_rdata m2 now mac qid"
    have "msg_abs m = wire [Some body]" using assms by (simp add: wire_def)
    from abs_put_u32 [OF abs_put_u16 [OF abs_put_u16 [OF abs_put_name [OF this]]]]
    have a1: "msg_abs m1 = wire [Some body, wire_name key_name, Some [0, 250], Some [0, 255], Some [0, 0, 0, 0]]"
      unfolding m1_def by (simp add: u16_simps u32_0 DNS_TYPE_TSIG_def DNS_CLASS_ANY_def)
    have a2: "msg_abs m2 = wire [Some body, wire_name key_name, Some [0, 250], Some [0, 255], Some [0, 0, 0, 0], Some [0, 0]]"
      unfolding m2_def using abs_put_u16 [OF a1, of 0] by (simp add: u16_simps)
    note a3 = abs_rdata [OF a2, of now mac qid, folded m3_def]
    have sign: "map_option msg_data (tsig_sign hmac now m key_name secret qid) =
        (if msg_overflow m3 then None
         else Some (let data = set_u16 (msg_data m3) (length (msg_data m1))
                                 (of_nat (length (msg_data m3) - length (msg_data m2)))
                    in set_u16 data 10 (be16 (data ! 10) (data ! 11) + 1)))"
      using vars m mac by (simp add: tsig_sign_def Let_def m1_def m2_def m3_def)
    show ?thesis
    proof (cases "wire_name key_name = None \<or> wire (rdata_parts now mac qid) = None")
      case True
      then have "msg_abs m3 = None"
        unfolding a3 wire_append
        using wire_None_part [of "[Some body]"] by (auto split: option.splits)
      then show ?thesis using True Some mac
        unfolding sign by (auto simp: signed_def msg_abs_def wire_def split: if_splits option.splits)
    next
      case False
      then obtain kn r where kr: "wire_name key_name = Some kn" "wire (rdata_parts now mac qid) = Some r"
        by auto
      let ?h = "body @ kn @ [0, 250, 0, 255, 0, 0, 0, 0]"
      show ?thesis
      proof (cases "length ?h + 2 + length r \<le> MSG_SIZE")
        case fit: True
        have d1: "msg_data m1 = ?h" and d2: "msg_data m2 = ?h @ [0, 0]"
          using a1 a2 fit by (auto simp: kr wire_def msg_abs_def split: if_splits)
        have d3: "msg_data m3 = ?h @ [0, 0] @ r" "\<not> msg_overflow m3"
          using a3 fit unfolding wire_append kr by (auto simp: kr wire_def msg_abs_def split: if_splits)
        have len: "length (msg_data m3) - length (msg_data m2) = length r"
          unfolding d2 d3 by simp
        let ?rest = "kn @ [0, 250, 0, 255, 0, 0, 0, 0] @ u16 (of_nat (length r)) @ r"
        have e: "set_u16 (msg_data m3) (length (msg_data m1))
            (of_nat (length (msg_data m3) - length (msg_data m2))) = body @ ?rest"
          unfolding len unfolding d3 d1 using set_u16_at [of ?h 0 0 r] by simp
        have i: "(body @ ?rest) ! 10 = body ! 10" "(body @ ?rest) ! 11 = body ! 11"
          using assms(2) by (simp_all add: nth_append)
        have sl: "signed hmac now body key_name secret qid =
            Some (take 10 body @ u16 (be16 (body ! 10) (body ! 11) + 1) @ drop 12 body @ ?rest)"
          using fit assms(2) unfolding signed_def Some option.case mac kr
          by (simp add: wire_def u16_def)
        show ?thesis
          unfolding sign sl Let_def e i set_u16_ten [OF assms(2)] using d3(2) by (simp only: if_False)
      next
        case big: False
        have "msg_abs m3 = None"
          using a3 big unfolding wire_append kr by (auto simp: kr wire_def split: if_splits)
        moreover have "signed hmac now body key_name secret qid = None"
          using big assms(2) unfolding signed_def Some option.case mac kr
          by (simp add: wire_def u16_def)
        ultimately show ?thesis unfolding sign by (simp add: msg_abs_def split: if_splits)
      qed
    qed
  qed
qed

lemma update_parts_header:
  "wire (update_parts config qid name value ttl) = Some body \<Longrightarrow> 12 \<le> length body \<and> length body \<le> MSG_SIZE"
  by (auto simp: update_parts_def wire_def u16_def split: option.splits if_splits)

lemma msg_abs_SomeD: "msg_abs m = Some body \<Longrightarrow> \<not> msg_overflow m \<and> msg_data m = body"
  by (simp add: msg_abs_def split: if_splits)

text \<open>C37. An update is, whatever the names, the value and the key, the plain concatenation of its
  fields and of its signature: the operation that writes through a buffer of 4096 bytes behaves as
  the reference that concatenates and then compares the length, sends the same bytes and leaves
  the same status and text.\<close>

theorem update_equals_reference:
  "metalbear_rfc2136_update_txt hmac io random clock config name value ttl error_len =
     (let qid = random_id random (clock 0)
      in if value \<noteq> None \<and> length (the value) > 255
         then dns_fail error_len WF_ERR_INVALID_ARG ''record value too long'' []
         else case wire (update_parts config qid name value ttl) of
           None \<Rightarrow> dns_fail error_len WF_ERR_INVALID_ARG ''update message too large'' []
         | Some body \<Rightarrow>
             (case signed hmac (clock 1) body (cfg_key_name config) (cfg_secret config) qid of
                None \<Rightarrow> dns_fail error_len WF_ERR_INTERNAL ''could not sign the update'' []
              | Some request \<Rightarrow>
                  (case exchange io (cfg_server config) (cfg_port config) request reply_cap of
                     (Inl e, sent) \<Rightarrow> dns_fail error_len WF_ERR_NETWORK e sent
                   | (Inr reply, sent) \<Rightarrow> read_update_reply error_len reply sent)))"
proof (cases "wire (update_parts config (random_id random (clock 0)) name value ttl)")
  case None
  then have "msg_overflow (update_message config (random_id random (clock 0)) name value ttl)"
    using abs_update [of config "random_id random (clock 0)" name "value" ttl]
    by (simp add: msg_abs_def split: if_splits)
  then show ?thesis
    by (simp only: None metalbear_rfc2136_update_txt_def Let_def option.case if_True)
next
  case (Some body)
  let ?m = "update_message config (random_id random (clock 0)) name value ttl"
  have m: "msg_abs ?m = Some body" using Some by (simp add: abs_update)
  have s: "map_option msg_data (tsig_sign hmac (clock 1) ?m (cfg_key_name config) (cfg_secret config)
        (random_id random (clock 0))) =
      signed hmac (clock 1) body (cfg_key_name config) (cfg_secret config) (random_id random (clock 0))"
    using abs_sign [OF m] update_parts_header [OF Some] by blast
  have over: "msg_overflow ?m = False" using msg_abs_SomeD [OF m] by simp
  show ?thesis
  proof (cases "tsig_sign hmac (clock 1) ?m (cfg_key_name config) (cfg_secret config) (random_id random (clock 0))")
    case None
    then show ?thesis
      using s
      by (simp only: metalbear_rfc2136_update_txt_def Let_def Some over if_False option.case
          option.map)
  next
    case signed: (Some m1)
    then show ?thesis
      using s [symmetric]
      by (simp only: metalbear_rfc2136_update_txt_def Let_def Some over if_False option.case
          option.map)
  qed
qed

section \<open>Reading: laws\<close>

lemma skip_name_total: "\<exists>j > i. skip_name reply i = Some j"
proof (induction reply i rule: skip_name.induct)
  case (1 reply i)
  show ?case
  proof (cases "i < length reply \<and> reply ! i \<noteq> 0 \<and> reply ! i AND 0xc0 \<noteq> 0xc0")
    case True
    then have r: "skip_name reply i = skip_name reply (i + unat (reply ! i) + 1)"
      by (simp add: skip_name.simps [of reply i] rd_def)
    have "\<exists>j > i + unat (reply ! i) + 1. skip_name reply (i + unat (reply ! i) + 1) = Some j"
      by (rule 1) (use True in \<open>auto simp: rd_def\<close>)
    then show ?thesis unfolding r using less_trans [of i] by fastforce
  next
    case False
    then show ?thesis by (auto simp: skip_name.simps [of reply i] rd_def)
  qed
qed

lemma skip_questions_total: "\<exists>j. skip_questions reply n i = Some j"
proof (induction n arbitrary: i)
  case (Suc n)
  then show ?case using skip_name_total [of i reply] by (auto split: option.split)
qed simp

lemma rd16_some: "i + 1 < length reply \<Longrightarrow> \<exists>v. rd16 reply i = Some v"
  by (simp add: rd16_def rd_def)

text \<open>What a text read from a reply is: a block of the bytes received, behind its length byte,
  short enough for the buffer.\<close>

definition segment_of :: "byte list \<Rightarrow> nat \<Rightarrow> byte list \<Rightarrow> bool" where
  "segment_of reply out_len txt \<longleftrightarrow>
     length txt < out_len \<and>
     (\<exists>k. k + 1 + length txt \<le> length reply \<and> unat (reply ! k) = length txt \<and>
          txt = take (length txt) (drop (k + 1) reply))"

lemma find_txt_total:
  "\<exists>found. find_txt reply out_len n i = Some found \<and>
           (\<forall>txt. found = Some txt \<longrightarrow> segment_of reply out_len txt)"
proof (induction n arbitrary: i)
  case (Suc n)
  obtain j where j: "skip_name reply i = Some j" using skip_name_total by blast
  show ?case
  proof (cases "i + 10 \<le> length reply \<and> j + 10 \<le> length reply")
    case True
    then obtain ty len where r: "rd16 reply j = Some ty" "rd16 reply (j + 8) = Some len"
      using rd16_some [of j reply] rd16_some [of "j + 8" reply] by auto
    let ?k = "j + 10"
    show ?thesis
    proof (cases "?k + unat len \<le> length reply \<and> ty = DNS_TYPE_TXT \<and> unat len \<ge> 1")
      case rec: True
      then have b: "rd reply ?k = Some (reply ! ?k)" by (simp add: rd_def)
      show ?thesis
      proof (cases "unat (reply ! ?k) + 1 \<le> unat len \<and> unat (reply ! ?k) < out_len")
        case hit: True
        then have fit: "?k + 1 + unat (reply ! ?k) \<le> length reply" using rec by linarith
        let ?t = "take (unat (reply ! ?k)) (drop (?k + 1) reply)"
        have "length ?t = unat (reply ! ?k)" using fit by simp
        then have "segment_of reply out_len ?t"
          unfolding segment_of_def using hit fit by (intro conjI exI [of _ ?k]) simp_all
        then show ?thesis
          using True rec hit fit j r b by (simp add: Let_def)
      next
        case False
        then show ?thesis
          using True rec j r b Suc [of "?k + unat len"] by (auto simp: Let_def)
      qed
    next
      case False
      then show ?thesis
        using True j r Suc [of "?k + unat len"] by (auto simp: Let_def)
    qed
  next
    case False
    then show ?thesis using j by auto
  qed
qed simp

lemma read_query_total:
  "\<exists>r. read_query_reply error_len reply out_len sent = Some r \<and> dr_sent r = sent \<and>
       (\<forall>txt. dr_found r = Some txt \<longrightarrow> dr_status r = WF_OK \<and> segment_of reply out_len txt)"
proof -
  obtain i where i: "skip_questions reply (unat (be16 (reply ! 4) (reply ! 5))) 12 = Some i"
    using skip_questions_total by blast
  obtain found where f: "find_txt reply out_len (unat (be16 (reply ! 6) (reply ! 7))) i = Some found"
      "\<And>txt. found = Some txt \<Longrightarrow> segment_of reply out_len txt"
    using find_txt_total by blast
  show ?thesis
    using i f by (auto simp: read_query_reply_def Let_def dns_fail_def dns_ok_def)
qed

lemma exchange_reply_cap:
  "exchange io server port request cap = (Inr reply, sent) \<Longrightarrow> length reply \<le> cap"
  by (auto simp: exchange_def Let_def split: if_splits prod.splits)

text \<open>No reply makes the walk over its names and records read beyond the bytes received, nor
  run for ever: a query always returns, and the text it gives is a block of the reply behind its
  own length byte that fits the caller's buffer with its terminator.\<close>

theorem query_reply_in_bounds:
  "\<exists>r. metalbear_rfc2136_query_txt hmac io random clock config name out_len error_len = Some r \<and>
       (case dr_found r of
          None \<Rightarrow> True
        | Some txt \<Rightarrow>
            dr_status r = WF_OK \<and>
            (\<exists>request reply.
               exchange io (cfg_server config) (cfg_port config) request reply_cap =
                 (Inr reply, dr_sent r) \<and>
               length reply \<le> reply_cap \<and> segment_of reply out_len txt))"
proof -
  let ?qid = "random_id random (clock 0)"
  let ?m = "query_message ?qid name"
  show ?thesis
  proof (cases "msg_overflow ?m")
    case True
    then show ?thesis by (simp add: metalbear_rfc2136_query_txt_def Let_def dns_fail_def)
  next
    case False
    show ?thesis
    proof (cases "tsig_sign hmac (clock 1) ?m (cfg_key_name config) (cfg_secret config) ?qid")
      case None
      then show ?thesis using False by (simp add: metalbear_rfc2136_query_txt_def Let_def dns_fail_def)
    next
      case (Some m1)
      obtain res sent where ex:
          "exchange io (cfg_server config) (cfg_port config) (msg_data m1) reply_cap = (res, sent)"
        by fastforce
      show ?thesis
      proof (cases res)
        case (Inl e)
        then show ?thesis
          using False Some ex by (simp add: metalbear_rfc2136_query_txt_def Let_def dns_fail_def)
      next
        case (Inr reply)
        obtain r where r: "read_query_reply error_len reply out_len sent = Some r" "dr_sent r = sent"
            "\<And>txt. dr_found r = Some txt \<Longrightarrow> dr_status r = WF_OK \<and> segment_of reply out_len txt"
          using read_query_total by blast
        have q: "metalbear_rfc2136_query_txt hmac io random clock config name out_len error_len = Some r"
          using False Some ex r(1) Inr by (simp add: metalbear_rfc2136_query_txt_def Let_def)
        note ex' = ex [unfolded Inr]
        show ?thesis
        proof (cases "dr_found r")
          case None
          then show ?thesis using q by simp
        next
          case found: (Some t)
          show ?thesis
            unfolding q
            using found r(2) r(3) [OF found] ex' exchange_reply_cap [OF ex'] by auto
        qed
      qed
    qed
  qed
qed

lemma exchange_sent:
  "exchange io server port request cap = (res, sent) \<Longrightarrow>
   length sent < 2 \<and> (\<exists>e. res = Inl e) \<or> (\<exists>prefix. sent = [prefix, request])"
  by (auto simp: exchange_def Let_def split: if_splits prod.splits)

text \<open>The ways an update ends.\<close>

lemma update_ends:
  obtains (early) st e where "st \<in> {WF_ERR_INVALID_ARG, WF_ERR_INTERNAL}"
      "metalbear_rfc2136_update_txt hmac io random clock config name value ttl error_len = dns_fail error_len st e []"
  | (sent) request res sent where
      "exchange io (cfg_server config) (cfg_port config) request reply_cap = (res, sent)"
      "metalbear_rfc2136_update_txt hmac io random clock config name value ttl error_len =
        (case res of Inl e \<Rightarrow> dns_fail error_len WF_ERR_NETWORK e sent | Inr reply \<Rightarrow> read_update_reply error_len reply sent)"
proof -
  let ?r = "metalbear_rfc2136_update_txt hmac io random clock config name value ttl error_len"
  let ?m = "update_message config (random_id random (clock 0)) name value ttl"
  let ?s = "tsig_sign hmac (clock 1) ?m (cfg_key_name config) (cfg_secret config) (random_id random (clock 0))"
  consider (a) "value \<noteq> None \<and> length (the value) > 255"
    | (b) "(value \<noteq> None \<and> length (the value) > 255) = False" "msg_overflow ?m"
    | (c) "(value \<noteq> None \<and> length (the value) > 255) = False" "msg_overflow ?m = False" "?s = None"
    | (d) m1 where "(value \<noteq> None \<and> length (the value) > 255) = False" "msg_overflow ?m = False" "?s = Some m1"
    by blast
  then show ?thesis
  proof cases
    case a
    then have "?r = dns_fail error_len WF_ERR_INVALID_ARG ''record value too long'' []"
      by (simp only: metalbear_rfc2136_update_txt_def Let_def if_True simp_thms)
    then show ?thesis by (rule that(1) [rotated]) simp
  next
    case b
    then have "?r = dns_fail error_len WF_ERR_INVALID_ARG ''update message too large'' []"
      by (simp only: metalbear_rfc2136_update_txt_def Let_def if_True if_False)
    then show ?thesis by (rule that(1) [rotated]) simp
  next
    case c
    then have "?r = dns_fail error_len WF_ERR_INTERNAL ''could not sign the update'' []"
      by (simp only: metalbear_rfc2136_update_txt_def Let_def if_True if_False option.case)
    then show ?thesis by (rule that(1) [rotated]) simp
  next
    case d
    obtain res sent where ex:
      "exchange io (cfg_server config) (cfg_port config) (msg_data m1) reply_cap = (res, sent)"
      by fastforce
    have "?r = (case res of Inl e \<Rightarrow> dns_fail error_len WF_ERR_NETWORK e sent
              | Inr reply \<Rightarrow> read_update_reply error_len reply sent)"
      using d by (simp only: metalbear_rfc2136_update_txt_def Let_def if_False option.case prod.case ex)
    then show ?thesis by (rule that(2) [OF ex])
  qed
qed

text \<open>An update reports success exactly when the server took the whole signed request and
  answered NOERROR in a reply of at least a header; every other outcome leaves a text in
  \<open>error\<close>; and with a bad argument or without a signature nothing reaches the network.\<close>

theorem update_error_exact:
  fixes hmac io random clock config name "value" ttl error_len
  defines "r \<equiv> metalbear_rfc2136_update_txt hmac io random clock config name value ttl error_len"
  shows "(dr_status r = WF_OK \<longleftrightarrow>
           (\<exists>prefix request reply.
              dr_sent r = [prefix, request] \<and>
              exchange io (cfg_server config) (cfg_port config) request reply_cap =
                (Inr reply, dr_sent r) \<and>
              12 \<le> length reply \<and> (ucast (reply ! 3) :: 32 word) AND 0x0f = 0)) \<and>
         (dr_error r = None \<longleftrightarrow> dr_status r = WF_OK) \<and>
         dr_status r \<in> {WF_OK, WF_ERR_INVALID_ARG, WF_ERR_INTERNAL, WF_ERR_NETWORK} \<and>
         (if dr_status r \<in> {WF_ERR_INVALID_ARG, WF_ERR_INTERNAL} then dr_sent r = [] else True)"
proof -
  have fail: "dr_status (dns_fail error_len st e s) = st" "dr_error (dns_fail error_len st e s) = Some (snprintf_cut error_len e)"
    "dr_sent (dns_fail error_len st e s) = s" for st e s
    by (simp_all add: dns_fail_def)
  have ok: "dr_status (dns_ok f s) = WF_OK" "dr_error (dns_ok f s) = None" "dr_sent (dns_ok f s) = s" for f s
    by (simp_all add: dns_ok_def)
  show ?thesis
  proof (rule update_ends [of hmac io random clock config name "value" ttl error_len, folded r_def], goal_cases early sent)
    case (early st e)
    then show ?case by (auto simp: fail)
  next
    case sent: (sent request res sent)
    note e = exchange_sent [OF sent(1)]
    show ?case
    proof (cases res)
      case (Inl err)
      then show ?thesis using sent e by (auto simp: fail)
    next
      case (Inr reply)
      then have r: "r = read_update_reply error_len reply sent" using sent(2) by simp
      obtain prefix where p: "sent = [prefix, request]" using e Inr by auto
      show ?thesis
        using sent(1) unfolding r p Inr read_update_reply_def Let_def by (auto simp: fail ok)
    qed
  qed
qed

section \<open>What is written is read back\<close>

lemma rd_drop: "drop j reply = xs \<Longrightarrow> m < length xs \<Longrightarrow> rd reply (j + m) = Some (xs ! m)"
  by (auto simp: rd_def)

lemma rd16_drop:
  "drop j reply = xs \<Longrightarrow> m + 1 < length xs \<Longrightarrow> rd16 reply (j + m) = Some (be16 (xs ! m) (xs ! (m + 1)))"
  using rd_drop [of j reply xs m] rd_drop [of j reply xs "m + 1"] by (simp add: rd16_def add.assoc)

lemma be16_u16: "be16 (ucast (drop_bit 8 v)) (ucast v) = take_bit 16 v"
proof (rule bit_word_eqI)
  fix n assume "n < LENGTH(32)"
  then show "bit (be16 (ucast (drop_bit 8 v)) (ucast v)) n = bit (take_bit 16 v) n"
    unfolding be16_def bit_or_iff bit_push_bit_iff bit_ucast_iff bit_drop_bit_eq bit_take_bit_iff
    by auto
qed

lemma unat_be16:
  assumes "n < 2 ^ 16"
  shows "unat (be16 (u16 (of_nat n) ! 0) (u16 (of_nat n) ! 1)) = n"
proof -
  have "unat (take_bit 16 (of_nat n :: 32 word)) = n"
    using assms by (simp add: unsigned_take_bit_eq take_bit_nat_eq_self unsigned_of_nat)
  then show ?thesis by (simp only: u16_def nth_Cons_0 nth_Cons_Suc One_nat_def be16_u16)
qed

lemma label_byte:
  assumes "0 < n" and "n \<le> 63"
  shows "unat (of_nat n :: byte) = n" and "(of_nat n :: byte) \<noteq> 0" and "(of_nat n :: byte) AND 0xc0 \<noteq> 0xc0"
proof -
  show u: "unat (of_nat n :: byte) = n" using assms by (simp add: unat_of_nat)
  then show "(of_nat n :: byte) \<noteq> 0" using assms(1) by auto
  have "\<forall>n \<in> set [0..<64]. (of_nat n :: byte) AND 0xc0 \<noteq> 0xc0" by code_simp
  then show "(of_nat n :: byte) AND 0xc0 \<noteq> 0xc0" using assms(2) by auto
qed

lemma skip_wire:
  "wire_name p = Some w \<Longrightarrow> drop i reply = w @ rest \<Longrightarrow> skip_name reply i = Some (i + length w)"
proof (induction p arbitrary: w i rule: wire_name.induct)
  case (1 p)
  obtain label dot where cut: "strchr_cut CHR ''.'' p = (label, dot)" by fastforce
  have i: "i < length reply" if "w \<noteq> []"
    using 1(3) that by (metis append_is_Nil_conv drop_all not_le)
  have zero: "skip_name reply j = Some (j + 1)" if "drop j reply = 0 # r" for j r
    using rd_drop [OF that, of 0] that by (auto simp: skip_name.simps [of reply j])
  show ?case
  proof (cases "p = [] \<or> label = []")
    case True
    then have "w = [0]" using 1(2) cut by (auto simp: wire_name.simps [of p] split: if_splits)
    then show ?thesis using zero 1(3) by simp
  next
    case False
    then obtain w' where w': "w = of_nat (length label) # bytes_of label @ w'" "length label \<le> 63"
        "w' = [0] \<and> dot = None \<or> (\<exists>q. dot = Some q \<and> wire_name q = Some w')"
      using 1(2) cut by (auto simp: wire_name.simps [of p] split: if_splits option.splits)
    have n: "0 < length label" using False by simp
    note b = label_byte [OF n w'(2)]
    have len: "length (bytes_of label) = length label" by (simp add: bytes_of_def)
    have d: "drop (i + length label + 1) reply = w' @ rest"
    proof -
      have "drop (i + length label + 1) reply = drop (length label + 1) (drop i reply)"
        by (simp add: add.commute)
      then show ?thesis using 1(3) len by (simp add: w'(1))
    qed
    have step: "skip_name reply i = skip_name reply (i + length label + 1)"
      using i w'(1) rd_drop [OF 1(3), of 0] b by (simp add: skip_name.simps [of reply i])
    show ?thesis
    proof (cases dot)
      case None
      then have "w' = [0]" using w'(3) by simp
      then show ?thesis unfolding step using zero [of "i + length label + 1" rest] d len by (simp add: w'(1))
    next
      case (Some q)
      then have q: "wire_name q = Some w'" using w'(3) by simp
      have "skip_name reply (i + length label + 1) = Some (i + length label + 1 + length w')"
        by (rule 1(1) [OF _ cut [symmetric] _ _ Some q d]) (use False w'(2) in auto)
      then show ?thesis unfolding step using len by (simp add: w'(1))
    qed
  qed
qed

text \<open>
  A name server's answer to the query for a name: any header with RCODE 0, one question and at
  least one answer; the question as it was asked; the owner, in full or as a pointer; and the
  record an update adds, with anything behind it.
\<close>

definition answer_header :: "byte list \<Rightarrow> bool" where
  "answer_header h \<longleftrightarrow>
     length h = 12 \<and> (ucast (h ! 3) :: 32 word) AND 0x0f = 0 \<and>
     be16 (h ! 4) (h ! 5) = 1 \<and> be16 (h ! 6) (h ! 7) \<noteq> 0"

lemma question_bytes:
  assumes "\<not> msg_overflow (query_message qid name)"
  obtains w where "wire_name name = Some w" "drop 12 (msg_data (query_message qid name)) = w @ [0, 16, 0, 1]"
proof -
  have "msg_abs (query_message qid name) =
      wire ([Some (u16 qid), Some [1, 0], Some [0, 1], Some [0, 0], Some [0, 0], Some [0, 0]] @
        [wire_name name, Some [0, 16], Some [0, 1]])"
    unfolding query_message_def
    by (subst abs_put_u16 [OF abs_put_u16 [OF abs_put_name [OF abs_header]]])
      (simp add: u16_simps DNS_TYPE_TXT_def DNS_CLASS_IN_def)
  then show thesis
    using assms that by (auto simp: msg_abs_def wire_def u16_def split: if_splits option.splits)
qed

lemma txt_bytes:
  assumes "\<not> msg_overflow (put_txt msg_empty ttl v)"
  shows "msg_data (put_txt msg_empty ttl v) =
    [0, 16, 0, 1] @ u32 (word_of_int (if ttl > 0 then ttl else 300)) @
    u16 (of_nat (length v) + 1) @ of_nat (length v) # bytes_of v"
  using abs_txt [OF msg_abs_empty, of ttl v] assms
  by (auto simp: msg_abs_def wire_def split: if_splits)

lemma find_txt_hit:
  assumes "length v \<le> 255" and "length v < out_len" and "skip_name reply i = Some j"
    and "i + 10 \<le> length reply"
    and rr: "drop j reply = [0, 16, 0, 1] @ u32 t @ u16 (of_nat (length v) + 1) @
          of_nat (length v) # bytes_of v @ rest"
  shows "find_txt reply out_len (Suc n) i = Some (Some (bytes_of v))"
proof -
  have l: "length (bytes_of v) = length v" by (simp add: bytes_of_def)
  have jl: "j + 11 + length v \<le> length reply"
    using arg_cong [OF rr, of length] l by (simp add: u32_def u16_def)
  have t: "rd16 reply j = Some DNS_TYPE_TXT"
    using rd16_drop [OF rr, of 0] by (simp add: DNS_TYPE_TXT_def be16_def)
  have "rd16 reply (j + 8) = Some (be16 (u16 (of_nat (length v + 1)) ! 0) (u16 (of_nat (length v + 1)) ! 1))"
    using rd16_drop [OF rr, of 8] by (simp add: u32_def u16_def add.commute)
  then obtain len where len: "rd16 reply (j + 8) = Some len" "unat len = length v + 1"
    using unat_be16 [of "length v + 1"] assms(1) by simp
  have seg: "rd reply (j + 10) = Some (of_nat (length v))"
    using rd_drop [OF rr, of 10] by (simp add: u32_def u16_def)
  have segn: "unat (of_nat (length v) :: byte) = length v"
    using assms(1) by (simp add: unat_of_nat)
  have "drop (j + 11) reply = drop 11 (drop j reply)" by (simp add: add.commute)
  then have d: "drop (j + 11) reply = bytes_of v @ rest"
    unfolding rr by (simp add: u32_def u16_def)
  show ?thesis
    using assms(2,3,4) jl t len seg segn d l by (simp add: Let_def add.commute)
qed

text \<open>The two operations agree on the records: when the server answers the query for a name
  with the question it was asked and the record an update adds, the query gives back exactly the
  value the update wrote, whether the owner is written out or is a pointer to the question.\<close>

theorem update_query_roundtrip:
  assumes "\<not> msg_overflow (query_message qid name)" and "\<not> msg_overflow (put_txt msg_empty ttl v)"
    and "length v \<le> 255" and "length v < out_len" and "answer_header h"
    and "owner = [0xc0, 12] \<or> Some owner = wire_name name"
  shows "read_query_reply error_len
           (h @ drop 12 (msg_data (query_message qid name)) @ owner @
            msg_data (put_txt msg_empty ttl v) @ rest) out_len sent =
         Some (dns_ok (Some (bytes_of v)) sent)"
proof -
  obtain w where w: "wire_name name = Some w"
      "drop 12 (msg_data (query_message qid name)) = w @ [0, 16, 0, 1]"
    using question_bytes [OF assms(1)] .
  define t where "t = (word_of_int (if ttl > 0 then ttl else 300) :: 64 word)"
  define rr where "rr = [0, 16, 0, 1] @ u32 t @ u16 (of_nat (length v) + 1) @
      of_nat (length v) # bytes_of v @ rest"
  define reply where "reply = h @ w @ [0, 16, 0, 1] @ owner @ rr"
  have h: "length h = 12" "(ucast (h ! 3) :: 32 word) AND 0x0f = 0" "be16 (h ! 4) (h ! 5) = 1"
      "be16 (h ! 6) (h ! 7) \<noteq> 0"
    using assms(5) by (auto simp: answer_header_def)
  let ?i = "12 + length w + 4"
  have "drop 12 reply = w @ [0, 16, 0, 1] @ owner @ rr" using h(1) by (simp add: reply_def)
  then have "skip_name reply 12 = Some (12 + length w)" by (rule skip_wire [OF w(1)])
  then have q: "skip_questions reply 1 12 = Some ?i"
    using h(1) by (simp add: reply_def add.commute)
  have o: "drop ?i reply = owner @ rr" using h(1) by (simp add: reply_def)
  have j: "skip_name reply ?i = Some (?i + length owner)"
  proof (cases "owner = [0xc0, 12]")
    case True
    then have "rd reply ?i = Some 0xc0" "?i < length reply"
      using rd_drop [OF o, of 0] h(1) by (simp_all add: reply_def)
    then show ?thesis using True by (subst skip_name.simps) simp
  next
    case False
    then have "wire_name name = Some owner" using assms(6) by auto
    then show ?thesis by (rule skip_wire [OF _ o])
  qed
  have dj: "drop (?i + length owner) reply = rr"
    using o by (simp add: drop_drop [symmetric] add.commute [of _ "length owner"] del: drop_drop)
  have i10: "?i + 10 \<le> length reply"
    using h(1) by (simp add: reply_def rr_def u32_def u16_def)
  obtain n where n: "unat (be16 (h ! 6) (h ! 7)) = Suc n"
    using h(4) by (metis not0_implies_Suc unat_eq_zero)
  have hit: "find_txt reply out_len (unat (be16 (h ! 6) (h ! 7))) ?i = Some (Some (bytes_of v))"
    unfolding n by (rule find_txt_hit [OF assms(3,4) j i10 dj [unfolded rr_def]])
  have nth: "reply ! k = h ! k" if "k < 12" for k
    using that h(1) by (simp add: reply_def nth_append)
  have eq: "h @ drop 12 (msg_data (query_message qid name)) @ owner @
      msg_data (put_txt msg_empty ttl v) @ rest = reply"
    unfolding w(2) txt_bytes [OF assms(2)] reply_def rr_def t_def by simp
  have "12 \<le> length reply" using h(1) by (simp add: reply_def)
  then show ?thesis
    unfolding eq read_query_reply_def Let_def
    using h nth hit q by simp
qed

theorem update_query_roundtrip_witness:
  "read_query_reply 200
     ([0, 7, 0x84, 0, 0, 1, 0, 1, 0, 0, 0, 0] @ drop 12 (msg_data (query_message 7 ''_atproto.a'')) @
      [0xc0, 12] @ msg_data (put_txt msg_empty 60 ''did=x'') @ []) 64 [] =
   Some (dns_ok (Some [100, 105, 100, 61, 120]) [])"
proof -
  have q: "\<not> msg_overflow (query_message 7 ''_atproto.a'')" by code_simp
  have p: "\<not> msg_overflow (put_txt msg_empty 60 ''did=x'')" by code_simp
  have h: "answer_header [0, 7, 0x84, 0, 0, 1, 0, 1, 0, 0, 0, 0]" by code_simp
  have b: "bytes_of ''did=x'' = [100, 105, 100, 61, 120]" by code_simp
  show ?thesis
    using update_query_roundtrip [OF q p _ _ h, of 64 "[0xc0, 12]" 200 "[]" "[]"] unfolding b by simp
qed

end
