(* ===== verification/Cjson.thy ===== *)
theory Cjson
  imports Complex_Main MB_Prelude
begin

text \<open>
  The value trees of the cJSON library as the source walks them: the kinds it tests for, the
  children of a container in their order, and the lookup that returns the first item of a name.
  A number carries the value of its double; \<open>CInfinite\<close> is a number too large for one.
  Parsing and printing belong to the library and are arguments where the source uses them.
\<close>

datatype cjson =
    CNull
  | CBool bool
  | CNumber rat
  | CInfinite
  | CString string
  | CArray "cjson list"
  | CObject "(string \<times> cjson) list"

text \<open>\<open>cJSON_GetObjectItemCaseSensitive\<close>: nothing for a value that is not an object.\<close>

definition cj_item :: "cjson \<Rightarrow> string \<Rightarrow> cjson option" where
  "cj_item j k = (case j of CObject items \<Rightarrow> map_of items k | _ \<Rightarrow> None)"

text \<open>An item that passes \<open>cJSON_IsString\<close>.\<close>

definition cj_string :: "cjson \<Rightarrow> string \<Rightarrow> string option" where
  "cj_string j k = (case cj_item j k of Some (CString s) \<Rightarrow> Some s | _ \<Rightarrow> None)"

lemma cj_item_object [simp]: "cj_item (CObject items) k = map_of items k"
  by (simp add: cj_item_def)

end
