(* ===== verification/Blob_Store.thy ===== *)
theory Blob_Store
  imports Cjson
begin

text \<open>
  \<open>src/repo/blob_store.c\<close>, in the build with encryption: the index of blobs, the files behind
  it, the associations with records and the listings. A byte is a character here, for payloads and
  side files alike. The directory is a map from names to contents; the outcome of each write,
  read and renaming, the clock and libsodium are arguments, and allocation succeeds.
\<close>

section \<open>The store and its directory\<close>

record blob_node =
  bn_cid :: string
  bn_mime :: string
  bn_data :: "string option"
  bn_len :: nat
  bn_refs :: "string list"
  bn_rev :: string

record blob_store =
  bs_file_backed :: bool
  bs_nodes :: "blob_node list"
  bs_key :: "string option"
  bs_encrypted :: bool

type_synonym files = "string \<Rightarrow> string option"

text \<open>
  How a write ends: the file holds the bytes, could not be opened, or was opened and holds
  something else.
\<close>

datatype write_end = Written | Not_opened | Partly string

record blob_io =
  bio_write :: "string \<Rightarrow> write_end"
  bio_open :: "string \<Rightarrow> bool"
  bio_read :: "string \<Rightarrow> bool"
  bio_rename :: "string \<Rightarrow> bool"
  bio_tid :: "string option"
  bio_salt :: string
  bio_nonce :: string

record sodium =
  sd_box :: "string \<Rightarrow> string \<Rightarrow> string \<Rightarrow> string option"
  sd_open :: "string \<Rightarrow> string \<Rightarrow> string \<Rightarrow> string option"
  sd_pwhash :: "string \<Rightarrow> string \<Rightarrow> string option"

definition REV_SIZE :: nat where "REV_SIZE = 15"
definition NONCEBYTES :: nat where "NONCEBYTES = 24"
definition MACBYTES :: nat where "MACBYTES = 16"
definition SALTBYTES :: nat where "SALTBYTES = 16"

definition blob_tid_now :: "blob_io \<Rightarrow> string" where
  "blob_tid_now io = (case bio_tid io of Some tid \<Rightarrow> tid | None \<Rightarrow> '''')"

definition blob_node_push ::
  "blob_store \<Rightarrow> string \<Rightarrow> string \<Rightarrow> string option \<Rightarrow> nat \<Rightarrow> string \<Rightarrow> blob_store" where
  "blob_node_push store cid mime data len trev =
     store\<lparr>bs_nodes := \<lparr>bn_cid = cid, bn_mime = mime, bn_data = data, bn_len = len, bn_refs = [],
                         bn_rev = snprintf_cut REV_SIZE trev\<rparr> # bs_nodes store\<rparr>"

definition blob_node_find :: "blob_store \<Rightarrow> string \<Rightarrow> blob_node option" where
  "blob_node_find store cid = find (\<lambda>n. bn_cid n = cid) (bs_nodes store)"

text \<open>Writing through the pointer to the first node with the identifier.\<close>

fun update_node :: "string \<Rightarrow> (blob_node \<Rightarrow> blob_node) \<Rightarrow> blob_node list \<Rightarrow> blob_node list" where
  "update_node cid f [] = []"
| "update_node cid f (n # ns) = (if bn_cid n = cid then f n # ns else n # update_node cid f ns)"

fun refs_index_of :: "string list \<Rightarrow> string \<Rightarrow> nat" where
  "refs_index_of [] uri = 0"
| "refs_index_of (r # rs) uri = (if r = uri then 0 else Suc (refs_index_of rs uri))"

definition refs_append :: "blob_node \<Rightarrow> string \<Rightarrow> blob_node" where
  "refs_append n uri = n\<lparr>bn_refs := bn_refs n @ [uri]\<rparr>"

definition refs_remove_at :: "blob_node \<Rightarrow> nat \<Rightarrow> blob_node" where
  "refs_remove_at n idx =
     n\<lparr>bn_refs := butlast ((bn_refs n)[idx := bn_refs n ! (length (bn_refs n) - 1)])\<rparr>"

section \<open>Files\<close>

definition write_file :: "blob_io \<Rightarrow> files \<Rightarrow> string \<Rightarrow> string \<Rightarrow> bool \<times> files" where
  "write_file io fs name data =
     (case bio_write io name of
        Written \<Rightarrow> (True, fs(name \<mapsto> data))
      | Not_opened \<Rightarrow> (False, fs)
      | Partly junk \<Rightarrow> (False, fs(name \<mapsto> junk)))"

definition blob_write_file :: "blob_io \<Rightarrow> files \<Rightarrow> string \<Rightarrow> string \<Rightarrow> wf_status \<times> files" where
  "blob_write_file io fs name data =
     (case write_file io fs name data of (ok, fs') \<Rightarrow> (if ok then WF_OK else WF_ERR_INTERNAL, fs'))"

definition blob_read_file :: "blob_io \<Rightarrow> files \<Rightarrow> string \<Rightarrow> wf_status + string" where
  "blob_read_file io fs name =
     (case fs name of
        None \<Rightarrow> Inl WF_ERR_NOT_FOUND
      | Some data \<Rightarrow>
          if \<not> bio_open io name then Inl WF_ERR_NOT_FOUND
          else if \<not> bio_read io name then Inl WF_ERR_INTERNAL else Inr data)"

definition remove_file :: "files \<Rightarrow> string \<Rightarrow> files" where
  "remove_file fs name = fs(name := None)"

text \<open>\<open>rename\<close> fails on a source that is not there.\<close>

definition rename_file :: "blob_io \<Rightarrow> files \<Rightarrow> string \<Rightarrow> string \<Rightarrow> bool \<times> files" where
  "rename_file io fs a b =
     (case fs a of
        None \<Rightarrow> (False, fs)
      | Some data \<Rightarrow> if bio_rename io a then (True, (fs(a := None))(b \<mapsto> data)) else (False, fs))"

definition newline :: char where "newline = CHR 0x0A"

definition refs_text :: "string list \<Rightarrow> string" where
  "refs_text refs = concat (map (\<lambda>uri. uri @ [newline]) refs)"

definition persist_refs :: "blob_io \<Rightarrow> blob_store \<Rightarrow> files \<Rightarrow> blob_node \<Rightarrow> files" where
  "persist_refs io store fs n =
     (if \<not> bs_file_backed store then fs
      else if bn_refs n = [] then remove_file fs (bn_cid n @ ''.refs'')
      else snd (write_file io fs (bn_cid n @ ''.refs'') (refs_text (bn_refs n))))"

definition persist_rev :: "blob_io \<Rightarrow> blob_store \<Rightarrow> files \<Rightarrow> blob_node \<Rightarrow> files" where
  "persist_rev io store fs n =
     (if \<not> bs_file_backed store \<or> bn_rev n = '''' then fs
      else snd (write_file io fs (bn_cid n @ ''.rev'') (bn_rev n @ [newline])))"

text \<open>\<open>fgets(line, width, f)\<close>: the line read and what is left of the file.\<close>

definition fgets :: "nat \<Rightarrow> string \<Rightarrow> string \<times> string" where
  "fgets width s =
     (let l = takeWhile (\<lambda>c. c \<noteq> newline) s
      in if length l < width - 1 \<and> length l < length s
         then (l @ [newline], drop (Suc (length l)) s)
         else (take (width - 1) s, drop (width - 1) s))"

definition chop_eol :: "string \<Rightarrow> string" where
  "chop_eol line = rev (dropWhile (\<lambda>c. c = newline \<or> c = CHR 0x0D) (rev (c_str line)))"

definition REFS_LINE :: nat where "REFS_LINE = 2048"
definition REV_LINE :: nat where "REV_LINE = 16"

function load_refs_loop :: "string \<Rightarrow> string list \<Rightarrow> string list" where
  "load_refs_loop s refs =
     (if s = [] then refs
      else case fgets REFS_LINE s of (line, rest) \<Rightarrow>
        let uri = chop_eol line
        in if uri = [] \<or> refs_index_of refs uri \<noteq> length refs then load_refs_loop rest refs
           else load_refs_loop rest (refs @ [uri]))"
  by pat_completeness auto
termination
  by (relation "measure (\<lambda>(s, refs). length s)")
    (auto simp: fgets_def REFS_LINE_def Let_def split: if_splits)

declare load_refs_loop.simps [simp del]

definition load_refs :: "blob_io \<Rightarrow> files \<Rightarrow> blob_node \<Rightarrow> blob_node" where
  "load_refs io fs n =
     (case fs (bn_cid n @ ''.refs'') of
        None \<Rightarrow> n
      | Some s \<Rightarrow>
          if bio_open io (bn_cid n @ ''.refs'') then n\<lparr>bn_refs := load_refs_loop s (bn_refs n)\<rparr> else n)"

definition load_rev :: "blob_io \<Rightarrow> files \<Rightarrow> blob_node \<Rightarrow> blob_node" where
  "load_rev io fs n =
     (case fs (bn_cid n @ ''.rev'') of
        None \<Rightarrow> n
      | Some s \<Rightarrow>
          if \<not> bio_open io (bn_cid n @ ''.rev'') \<or> s = [] then n
          else let line = chop_eol (fst (fgets REV_LINE s))
               in if line = [] then n else n\<lparr>bn_rev := snprintf_cut REV_SIZE line\<rparr>)"
section \<open>Encryption\<close>

definition SALT_NAME :: string where "SALT_NAME = ''.blobstore.salt''"

text \<open>The salt kept in the directory, made on first use.\<close>

definition store_read_or_create_salt :: "blob_io \<Rightarrow> files \<Rightarrow> (wf_status + string) \<times> files" where
  "store_read_or_create_salt io fs =
     (case (fs SALT_NAME, bio_open io SALT_NAME) of
        (Some s, True) \<Rightarrow>
          (if length (take SALTBYTES s) = SALTBYTES \<and> bio_read io SALT_NAME
           then Inr (take SALTBYTES s) else Inl WF_ERR_INVALID_ARG, fs)
      | _ \<Rightarrow>
          (case blob_write_file io fs SALT_NAME (bio_salt io) of
             (st, fs') \<Rightarrow> (if st = WF_OK then Inr (bio_salt io) else Inl WF_ERR_INTERNAL, fs')))"

definition blob_encrypt_payload :: "sodium \<Rightarrow> blob_io \<Rightarrow> blob_store \<Rightarrow> string \<Rightarrow> wf_status + string" where
  "blob_encrypt_payload lib io store plain =
     (case bs_key store of
        None \<Rightarrow> Inl WF_ERR_INVALID_ARG
      | Some key \<Rightarrow>
          (case sd_box lib key (bio_nonce io) plain of
             None \<Rightarrow> Inl WF_ERR_INVALID_ARG
           | Some ct \<Rightarrow> Inr (bio_nonce io @ ct)))"

definition blob_decrypt_payload :: "sodium \<Rightarrow> blob_store \<Rightarrow> string \<Rightarrow> wf_status + string" where
  "blob_decrypt_payload lib store ct =
     (case bs_key store of
        None \<Rightarrow> Inl WF_ERR_INVALID_ARG
      | Some key \<Rightarrow>
          if length ct < NONCEBYTES + MACBYTES then Inl WF_ERR_INVALID_ARG
          else (case sd_open lib key (take NONCEBYTES ct) (drop NONCEBYTES ct) of
                  None \<Rightarrow> Inl WF_ERR_INVALID_ARG
                | Some plain \<Rightarrow> Inr plain))"

definition blob_write_payload_encrypted ::
  "sodium \<Rightarrow> blob_io \<Rightarrow> blob_store \<Rightarrow> files \<Rightarrow> string \<Rightarrow> string \<Rightarrow> wf_status \<times> files" where
  "blob_write_payload_encrypted lib io store fs data name =
     (case blob_encrypt_payload lib io store data of
        Inl st \<Rightarrow> (st, fs)
      | Inr ct \<Rightarrow> blob_write_file io fs name ct)"

definition blob_read_payload_encrypted ::
  "sodium \<Rightarrow> blob_io \<Rightarrow> blob_store \<Rightarrow> files \<Rightarrow> string \<Rightarrow> wf_status + string" where
  "blob_read_payload_encrypted lib io store fs name =
     (case blob_read_file io fs name of
        Inl st \<Rightarrow> Inl st
      | Inr ct \<Rightarrow> blob_decrypt_payload lib store ct)"

definition metalbear_blob_store_set_crypto_passphrase ::
  "sodium \<Rightarrow> blob_io \<Rightarrow> blob_store \<Rightarrow> files \<Rightarrow> string \<Rightarrow> wf_status \<times> blob_store \<times> files" where
  "metalbear_blob_store_set_crypto_passphrase lib io store fs passphrase =
     (if passphrase = '''' then (WF_ERR_INVALID_ARG, store, fs)
      else if \<not> bs_file_backed store then (WF_ERR_INVALID_ARG, store, fs)
      else if bs_key store \<noteq> None then (WF_ERR_INVALID_ARG, store, fs)
      else case store_read_or_create_salt io fs of
        (Inl st, fs') \<Rightarrow> (st, store, fs')
      | (Inr salt, fs') \<Rightarrow>
          (case sd_pwhash lib passphrase salt of
             None \<Rightarrow> (WF_ERR_ALLOC, store, fs')
           | Some key \<Rightarrow> (WF_OK, store\<lparr>bs_key := Some key, bs_encrypted := True\<rparr>, fs')))"

section \<open>Writing payloads\<close>

definition COPY_BUFFER :: nat where "COPY_BUFFER = 64 * 1024"

text \<open>
  The copying loop on what is left of the source: whether it ends well, and what was written.
\<close>

function copy_loop :: "nat \<Rightarrow> string \<Rightarrow> string \<Rightarrow> bool \<times> string" where
  "copy_loop expected_len source dest =
     (let got = take COPY_BUFFER source
      in if got \<noteq> [] \<and> (length dest > expected_len \<or> length got > expected_len - length dest)
         then (False, dest)
         else if length got < COPY_BUFFER then (True, dest @ got)
         else copy_loop expected_len (drop COPY_BUFFER source) (dest @ got))"
  by pat_completeness auto
termination
  by (relation "measure (\<lambda>(expected_len, source, dest). length source)") (auto simp: COPY_BUFFER_def)

declare copy_loop.simps [simp del]

text \<open>\<open>source\<close> is the content of the source file, \<open>None\<close> when it cannot be opened;
  \<open>source_ok\<close> that no read of it fails.\<close>

definition blob_copy_file ::
  "blob_io \<Rightarrow> files \<Rightarrow> string option \<Rightarrow> bool \<Rightarrow> string \<Rightarrow> nat \<Rightarrow> wf_status \<times> files" where
  "blob_copy_file io fs source source_ok dest expected_len =
     (case source of
        None \<Rightarrow> (WF_ERR_NOT_FOUND, fs)
      | Some s \<Rightarrow>
          if bio_write io dest = Not_opened then (WF_ERR_INTERNAL, fs)
          else case copy_loop expected_len s [] of (ok, written) \<Rightarrow>
            if ok \<and> length written = expected_len \<and> source_ok \<and> bio_write io dest = Written
            then (WF_OK, fs(dest \<mapsto> written))
            else (WF_ERR_INTERNAL, fs(dest := None)))"

text \<open>The side file and the two renamings that publish a payload already written.\<close>

definition publish_backing_files ::
  "blob_io \<Rightarrow> string \<Rightarrow> string \<Rightarrow> wf_status \<times> files \<Rightarrow> wf_status \<times> files" where
  "publish_backing_files io cid mime_type written =
     (case written of (st, fs) \<Rightarrow>
        let (st, fs) = (if st = WF_OK then blob_write_file io fs (cid @ ''.mime.tmp'') mime_type else (st, fs));
            (st, fs) = (if st = WF_OK
                        then (case rename_file io fs (cid @ ''.tmp'') cid of
                                (ok, fs') \<Rightarrow> (if ok then WF_OK else WF_ERR_INTERNAL, fs'))
                        else (st, fs));
            (st, fs) = (if st = WF_OK
                        then (case rename_file io fs (cid @ ''.mime.tmp'') (cid @ ''.mime'') of
                                (ok, fs') \<Rightarrow> (if ok then WF_OK else WF_ERR_INTERNAL, fs'))
                        else (st, fs))
        in (st, if st = WF_OK then fs
                else remove_file (remove_file fs (cid @ ''.tmp'')) (cid @ ''.mime.tmp'')))"

definition clear_tmp :: "files \<Rightarrow> string \<Rightarrow> files" where
  "clear_tmp fs cid = remove_file (remove_file fs (cid @ ''.tmp'')) (cid @ ''.mime.tmp'')"

definition blob_write_backing_files ::
  "sodium \<Rightarrow> blob_io \<Rightarrow> blob_store \<Rightarrow> files \<Rightarrow> string \<Rightarrow> string \<Rightarrow> string \<Rightarrow> wf_status \<times> files" where
  "blob_write_backing_files lib io store fs cid mime_type data =
     (let fs = clear_tmp fs cid
      in publish_backing_files io cid mime_type
           (if bs_key store \<noteq> None
            then blob_write_payload_encrypted lib io store fs data (cid @ ''.tmp'')
            else blob_write_file io fs (cid @ ''.tmp'') data))"

section \<open>Opening\<close>

definition blob_ends_with :: "string \<Rightarrow> string \<Rightarrow> bool" where
  "blob_ends_with s ending \<longleftrightarrow>
     length ending \<le> length s \<and> drop (length s - length ending) s = ending"

definition cid_char :: "char \<Rightarrow> bool" where
  "cid_char c = (let n = (of_char c :: nat)
                 in 97 \<le> n \<and> n \<le> 122 \<or> 65 \<le> n \<and> n \<le> 90 \<or> 48 \<le> n \<and> n \<le> 57)"

definition blob_cid_is_valid :: "string \<Rightarrow> bool" where
  "blob_cid_is_valid cid \<longleftrightarrow> cid \<noteq> [] \<and> list_all cid_char cid"

definition load_entry :: "blob_io \<Rightarrow> files \<Rightarrow> string \<Rightarrow> blob_store \<Rightarrow> blob_store" where
  "load_entry io fs name store =
     (if name = ''.'' \<or> name = ''..'' \<or> blob_ends_with name ''.mime'' \<or>
         blob_ends_with name ''.refs'' \<or> blob_ends_with name ''.rev'' \<or> \<not> blob_cid_is_valid name
      then store
      else case fs name of
        None \<Rightarrow> store
      | Some payload \<Rightarrow>
          (case blob_read_file io fs (name @ ''.mime'') of
             Inl _ \<Rightarrow> store
           | Inr mraw \<Rightarrow>
               let store1 = blob_node_push store name (c_str mraw) None (length payload) ''''
               in store1\<lparr>bs_nodes := load_rev io fs (load_refs io fs (hd (bs_nodes store1))) #
                                     tl (bs_nodes store1)\<rparr>))"

text \<open>\<open>entries\<close> is what \<open>readdir\<close> lists, \<open>None\<close> when the directory does not open.\<close>

definition metalbear_blob_store_new ::
  "blob_io \<Rightarrow> string \<Rightarrow> string list option \<Rightarrow> files \<Rightarrow> blob_store" where
  "metalbear_blob_store_new io path entries fs =
     (let store = \<lparr>bs_file_backed = (path \<noteq> ''''), bs_nodes = [], bs_key = None, bs_encrypted = False\<rparr>
      in if path = '''' then store
         else
           let store = store\<lparr>bs_encrypted := (fs SALT_NAME \<noteq> None)\<rparr>
           in case entries of None \<Rightarrow> store
              | Some names \<Rightarrow> fold (load_entry io fs) names store)"

section \<open>Operations\<close>

text \<open>A blob already in the index keeps its associations, and its first-seen time if it has one.\<close>

definition stamp_rev :: "blob_io \<Rightarrow> blob_node \<Rightarrow> blob_node" where
  "stamp_rev io n = (if bn_rev n = '''' then n\<lparr>bn_rev := blob_tid_now io\<rparr> else n)"

definition stamp_file :: "blob_io \<Rightarrow> blob_store \<Rightarrow> files \<Rightarrow> blob_node \<Rightarrow> files" where
  "stamp_file io store fs n = (if bn_rev n = '''' then persist_rev io store fs (stamp_rev io n) else fs)"

definition metalbear_blob_store_put ::
  "sodium \<Rightarrow> blob_io \<Rightarrow> blob_store \<Rightarrow> files \<Rightarrow> string \<Rightarrow> string \<Rightarrow> string \<Rightarrow>
   wf_status \<times> blob_store \<times> files" where
  "metalbear_blob_store_put lib io store fs cid mime_type data =
     (if \<not> blob_cid_is_valid cid then (WF_ERR_INVALID_ARG, store, fs)
      else
        let data_copy = (if bs_file_backed store then None else Some data);
            (st, fs) = (if bs_file_backed store
                        then blob_write_backing_files lib io store fs cid mime_type data
                        else (WF_OK, fs))
        in if st \<noteq> WF_OK then (st, store, fs)
           else case blob_node_find store cid of
             Some n \<Rightarrow>
               let n1 = n\<lparr>bn_mime := mime_type, bn_data := data_copy, bn_len := length data\<rparr>
               in (WF_OK, store\<lparr>bs_nodes := update_node cid (\<lambda>_. stamp_rev io n1) (bs_nodes store)\<rparr>,
                   stamp_file io store fs n1)
           | None \<Rightarrow>
               let store1 = blob_node_push store cid mime_type data_copy (length data) (blob_tid_now io)
               in (WF_OK, store1, persist_rev io store1 fs (hd (bs_nodes store1))))"

definition metalbear_blob_store_put_file ::
  "sodium \<Rightarrow> blob_io \<Rightarrow> blob_store \<Rightarrow> files \<Rightarrow> string \<Rightarrow> string \<Rightarrow> string option \<Rightarrow> bool \<Rightarrow> nat \<Rightarrow>
   wf_status \<times> blob_store \<times> files" where
  "metalbear_blob_store_put_file lib io store fs cid mime_type source source_ok expected_len =
     (if \<not> blob_cid_is_valid cid then (WF_ERR_INVALID_ARG, store, fs)
      else if \<not> bs_file_backed store
      then (case source of
              None \<Rightarrow> (WF_ERR_NOT_FOUND, store, fs)
            | Some data \<Rightarrow>
                if \<not> source_ok then (WF_ERR_INTERNAL, store, fs)
                else if length data \<noteq> expected_len then (WF_ERR_INVALID_ARG, store, fs)
                else metalbear_blob_store_put lib io store fs cid mime_type data)
      else
        let fs = clear_tmp fs cid;
            written =
              (if bs_key store \<noteq> None
               then (case source of
                       None \<Rightarrow> (WF_ERR_NOT_FOUND, fs)
                     | Some plain \<Rightarrow>
                         if \<not> source_ok then (WF_ERR_INTERNAL, fs)
                         else if length plain \<noteq> expected_len then (WF_ERR_INVALID_ARG, fs)
                         else blob_write_payload_encrypted lib io store fs plain (cid @ ''.tmp''))
               else blob_copy_file io fs source source_ok (cid @ ''.tmp'') expected_len);
            (st, fs) = publish_backing_files io cid mime_type written
        in if st \<noteq> WF_OK then (st, store, fs)
           else case blob_node_find store cid of
             Some n \<Rightarrow>
               let n1 = n\<lparr>bn_mime := mime_type, bn_len := expected_len\<rparr>
               in (WF_OK, store\<lparr>bs_nodes := update_node cid (\<lambda>_. stamp_rev io n1) (bs_nodes store)\<rparr>,
                   stamp_file io store fs n1)
           | None \<Rightarrow>
               let store1 = blob_node_push store cid mime_type None expected_len (blob_tid_now io)
               in (WF_OK, store1, persist_rev io store1 fs (hd (bs_nodes store1))))"

text \<open>The payload of an indexed blob.\<close>

definition blob_payload ::
  "sodium \<Rightarrow> blob_io \<Rightarrow> blob_store \<Rightarrow> files \<Rightarrow> blob_node \<Rightarrow> wf_status + string" where
  "blob_payload lib io store fs n =
     (if bs_file_backed store
      then (if bs_encrypted store \<and> bs_key store = None then Inl WF_ERR_INVALID_ARG
            else if bs_key store \<noteq> None then blob_read_payload_encrypted lib io store fs (bn_cid n)
            else blob_read_file io fs (bn_cid n))
      else Inr (take (bn_len n) (the (bn_data n))))"

definition metalbear_blob_store_get ::
  "sodium \<Rightarrow> blob_io \<Rightarrow> blob_store \<Rightarrow> files \<Rightarrow> string \<Rightarrow> (wf_status + string \<times> string) \<times> blob_store" where
  "metalbear_blob_store_get lib io store fs cid =
     (if \<not> blob_cid_is_valid cid then (Inl WF_ERR_INVALID_ARG, store)
      else case blob_node_find store cid of
        None \<Rightarrow> (Inl WF_ERR_NOT_FOUND, store)
      | Some n \<Rightarrow>
          (case blob_payload lib io store fs n of
             Inl st \<Rightarrow> (Inl st, store)
           | Inr data \<Rightarrow>
               (Inr (data, bn_mime n),
                store\<lparr>bs_nodes := update_node cid (\<lambda>n. n\<lparr>bn_len := length data\<rparr>) (bs_nodes store)\<rparr>)))"

definition metalbear_blob_store_exists :: "blob_store \<Rightarrow> string \<Rightarrow> wf_status" where
  "metalbear_blob_store_exists store cid =
     (if \<not> blob_cid_is_valid cid then WF_ERR_INVALID_ARG
      else if blob_node_find store cid \<noteq> None then WF_OK else WF_ERR_NOT_FOUND)"

fun unlink_node :: "string \<Rightarrow> blob_node list \<Rightarrow> blob_node list" where
  "unlink_node cid [] = []"
| "unlink_node cid (n # ns) = (if bn_cid n \<noteq> cid then n # unlink_node cid ns else ns)"

definition blob_store_delete_locked ::
  "blob_io \<Rightarrow> blob_store \<Rightarrow> files \<Rightarrow> string \<Rightarrow> wf_status \<times> blob_store \<times> files" where
  "blob_store_delete_locked io store fs cid =
     (if blob_node_find store cid = None then (WF_ERR_NOT_FOUND, store, fs)
      else
        let store1 = store\<lparr>bs_nodes := unlink_node cid (bs_nodes store)\<rparr>
        in if \<not> bs_file_backed store then (WF_OK, store1, fs)
           else
             let fs = remove_file (remove_file fs (cid @ ''.delete'')) (cid @ ''.mime.delete'')
             in case rename_file io fs cid (cid @ ''.delete'') of (ok, fs1) \<Rightarrow>
                  if \<not> ok then (WF_ERR_INTERNAL, store, fs1)
                  else case rename_file io fs1 (cid @ ''.mime'') (cid @ ''.mime.delete'') of (ok, fs2) \<Rightarrow>
                    if \<not> ok then (WF_ERR_INTERNAL, store, snd (rename_file io fs2 (cid @ ''.delete'') cid))
                    else (WF_OK, store1,
                          foldl remove_file fs2
                            [cid @ ''.delete'', cid @ ''.mime.delete'', cid @ ''.refs'', cid @ ''.rev'']))"

definition metalbear_blob_store_delete ::
  "blob_io \<Rightarrow> blob_store \<Rightarrow> files \<Rightarrow> string \<Rightarrow> wf_status \<times> blob_store \<times> files" where
  "metalbear_blob_store_delete io store fs cid =
     (if \<not> blob_cid_is_valid cid then (WF_ERR_INVALID_ARG, store, fs)
      else blob_store_delete_locked io store fs cid)"

definition metalbear_blob_store_associate ::
  "blob_io \<Rightarrow> blob_store \<Rightarrow> files \<Rightarrow> string \<Rightarrow> string \<Rightarrow> wf_status \<times> blob_store \<times> files" where
  "metalbear_blob_store_associate io store fs cid record_uri =
     (if \<not> blob_cid_is_valid cid \<or> record_uri = '''' then (WF_ERR_INVALID_ARG, store, fs)
      else case blob_node_find store cid of
        None \<Rightarrow> (WF_ERR_NOT_FOUND, store, fs)
      | Some n \<Rightarrow>
          let fs = stamp_file io store fs n;
              n1 = stamp_rev io n;
              n2 = (if refs_index_of (bn_refs n1) record_uri \<noteq> length (bn_refs n1) then n1
                    else refs_append n1 record_uri)
          in (WF_OK, store\<lparr>bs_nodes := update_node cid (\<lambda>_. n2) (bs_nodes store)\<rparr>,
              persist_refs io store fs n2))"

definition metalbear_blob_store_dissociate ::
  "blob_io \<Rightarrow> blob_store \<Rightarrow> files \<Rightarrow> string \<Rightarrow> string \<Rightarrow> wf_status \<times> blob_store \<times> files" where
  "metalbear_blob_store_dissociate io store fs cid record_uri =
     (if \<not> blob_cid_is_valid cid \<or> record_uri = '''' then (WF_ERR_INVALID_ARG, store, fs)
      else case blob_node_find store cid of
        None \<Rightarrow> (WF_ERR_NOT_FOUND, store, fs)
      | Some n \<Rightarrow>
          let idx = refs_index_of (bn_refs n) record_uri
          in if idx = length (bn_refs n) then (WF_OK, store, fs)
             else
               let n1 = refs_remove_at n idx;
                   store1 = store\<lparr>bs_nodes := update_node cid (\<lambda>_. n1) (bs_nodes store)\<rparr>
               in if bn_refs n1 = [] then blob_store_delete_locked io store1 fs cid
                  else (WF_OK, store1, persist_refs io store1 fs n1))"

definition metalbear_blob_store_is_referenced :: "blob_store \<Rightarrow> string \<Rightarrow> wf_status" where
  "metalbear_blob_store_is_referenced store cid =
     (if \<not> blob_cid_is_valid cid then WF_ERR_INVALID_ARG
      else case blob_node_find store cid of
        None \<Rightarrow> WF_ERR_NOT_FOUND
      | Some n \<Rightarrow> if bn_refs n \<noteq> [] then WF_OK else WF_ERR_NOT_FOUND)"

section \<open>Listings and the blobs of a record\<close>

definition since_ok :: "string option \<Rightarrow> blob_node \<Rightarrow> bool" where
  "since_ok since n \<longleftrightarrow>
     (case since of None \<Rightarrow> True | Some t \<Rightarrow> bn_rev n \<noteq> '''' \<and> text_less t (bn_rev n))"

definition blob_collect_cids :: "blob_store \<Rightarrow> string option \<Rightarrow> string list" where
  "blob_collect_cids store since = map bn_cid (filter (since_ok since) (bs_nodes store))"

definition metalbear_blob_store_list :: "blob_store \<Rightarrow> string list" where
  "metalbear_blob_store_list store = blob_collect_cids store None"

definition metalbear_blob_store_list_since :: "blob_store \<Rightarrow> string \<Rightarrow> string list" where
  "metalbear_blob_store_list_since store since = blob_collect_cids store (Some since)"

text \<open>\<open>qsort\<close> with the comparator: ascending in the order of \<open>strcmp\<close>.\<close>

fun insert_cid :: "string \<Rightarrow> string list \<Rightarrow> string list" where
  "insert_cid c [] = [c]"
| "insert_cid c (d # ds) = (if text_less d c then d # insert_cid c ds else c # d # ds)"

definition sort_cids :: "string list \<Rightarrow> string list" where
  "sort_cids cids = foldr insert_cid cids []"

definition cursor_ok :: "string option \<Rightarrow> string \<Rightarrow> bool" where
  "cursor_ok cursor cid \<longleftrightarrow>
     (case cursor of None \<Rightarrow> True | Some c \<Rightarrow> c = '''' \<or> text_less c cid)"

text \<open>The page and whether there is more.\<close>

definition metalbear_blob_store_list_page ::
  "blob_store \<Rightarrow> string option \<Rightarrow> string option \<Rightarrow> nat \<Rightarrow> wf_status + string list \<times> bool" where
  "metalbear_blob_store_list_page store since cursor limit =
     (if limit = 0 then Inl WF_ERR_INVALID_ARG
      else
        let matched = sort_cids (map bn_cid
              (filter (\<lambda>n. since_ok since n \<and> cursor_ok cursor (bn_cid n)) (bs_nodes store)))
        in Inr (take limit matched, length matched > limit))"

text \<open>The identifiers the callback is given, in order.\<close>

fun metalbear_blob_walk_refs :: "cjson \<Rightarrow> string list" where
  "metalbear_blob_walk_refs (CObject items) =
     (let type = cj_item (CObject items) ''$type'' in
      if type = Some (CString ''blob'')
      then (case cj_item (CObject items) ''ref'' of
              Some (CObject r) \<Rightarrow> (case cj_string (CObject r) ''$link'' of Some c \<Rightarrow> [c] | None \<Rightarrow> [])
            | _ \<Rightarrow> [])
      else
        case (cj_string (CObject items) ''$type'', cj_string (CObject items) ''cid'',
              cj_string (CObject items) ''mimeType'') of
          (None, Some c, Some _) \<Rightarrow> [c]
        | _ \<Rightarrow> concat (map (\<lambda>(k, v). metalbear_blob_walk_refs v) items))"
| "metalbear_blob_walk_refs (CArray vs) = concat (map metalbear_blob_walk_refs vs)"
| "metalbear_blob_walk_refs _ = []"

section \<open>Names and nodes: laws\<close>

lemma no_dot: "blob_cid_is_valid cid \<Longrightarrow> CHR ''.'' \<notin> set cid"
  by (auto simp: blob_cid_is_valid_def list_all_iff cid_char_def Let_def)

lemma side_name_eq:
  assumes "blob_cid_is_valid c" and "blob_cid_is_valid d"
  shows "c @ CHR ''.'' # x = d @ CHR ''.'' # y \<longleftrightarrow> c = d \<and> x = y"
proof
  assume e: "c @ CHR ''.'' # x = d @ CHR ''.'' # y"
  have "(c, Some x) = strchr_cut CHR ''.'' (c @ CHR ''.'' # x)"
    by (simp only: strchr_cut_at [OF no_dot [OF assms(1)]])
  also have "\<dots> = (d, Some y)"
    unfolding e by (simp only: strchr_cut_at [OF no_dot [OF assms(2)]])
  finally show "c = d \<and> x = y" by simp
qed simp

lemma side_name_neq:
  assumes "blob_cid_is_valid c"
  shows "c \<noteq> d @ CHR ''.'' # y" and "d @ CHR ''.'' # y \<noteq> c"
  using no_dot [OF assms] by auto

lemma salt_name_neq:
  assumes "blob_cid_is_valid c"
  shows "SALT_NAME \<noteq> c" "SALT_NAME \<noteq> c @ x" "c @ x \<noteq> SALT_NAME" "c \<noteq> SALT_NAME"
  using no_dot [OF assms] assms by (cases c; auto simp: SALT_NAME_def blob_cid_is_valid_def)+

lemmas names = side_name_eq side_name_neq salt_name_neq

lemma find_cons:
  "blob_node_find (s\<lparr>bs_nodes := n # ns\<rparr>) cid =
     (if bn_cid n = cid then Some n else blob_node_find (s\<lparr>bs_nodes := ns\<rparr>) cid)"
  by (simp add: blob_node_find_def)

lemma blob_find_SomeD:
  "blob_node_find s cid = Some n \<Longrightarrow> n \<in> set (bs_nodes s) \<and> bn_cid n = cid"
  by (auto simp: blob_node_find_def find_Some_iff)

lemma find_update:
  assumes "blob_node_find s c = Some n" and "bn_cid n' = c"
  shows "blob_node_find (s\<lparr>bs_nodes := update_node c (\<lambda>_. n') (bs_nodes s)\<rparr>) d =
    (if d = c then Some n' else blob_node_find s d)"
proof -
  have "find (\<lambda>n. bn_cid n = c) ns = Some n \<Longrightarrow>
      find (\<lambda>n. bn_cid n = d) (update_node c (\<lambda>_. n') ns) =
      (if d = c then Some n' else find (\<lambda>n. bn_cid n = d) ns)" for ns
    using assms(2) by (induction ns) auto
  then show ?thesis using assms(1) by (simp add: blob_node_find_def)
qed

lemma update_node_cids:
  "bn_cid n' = c \<Longrightarrow> map bn_cid (update_node c (\<lambda>_. n') ns) = map bn_cid ns"
  by (induction ns) auto

lemma unlink_node_subset: "set (unlink_node c ns) \<subseteq> set ns"
  by (induction ns) auto

lemma unlink_node_distinct: "distinct (map bn_cid ns) \<Longrightarrow> distinct (map bn_cid (unlink_node c ns))"
  using unlink_node_subset [of c] by (induction ns) (auto dest!: subsetD)

lemma find_unlink:
  assumes "distinct (map bn_cid (bs_nodes s))"
  shows "blob_node_find (s\<lparr>bs_nodes := unlink_node c (bs_nodes s)\<rparr>) d =
    (if d = c then None else blob_node_find s d)"
proof -
  have "distinct (map bn_cid ns) \<Longrightarrow> find (\<lambda>n. bn_cid n = d) (unlink_node c ns) =
      (if d = c then None else find (\<lambda>n. bn_cid n = d) ns)" for ns
    by (induction ns) (auto simp: find_None_iff image_iff)
  then show ?thesis using assms by (simp add: blob_node_find_def)
qed

lemma find_push:
  "blob_node_find (blob_node_push s c mime data len r) d =
   (if d = c then Some \<lparr>bn_cid = c, bn_mime = mime, bn_data = data, bn_len = len, bn_refs = [],
                        bn_rev = snprintf_cut REV_SIZE r\<rparr>
    else blob_node_find s d)"
  by (simp add: blob_node_push_def blob_node_find_def)

lemma refs_index_eq: "refs_index_of rs uri = length rs \<longleftrightarrow> uri \<notin> set rs"
  by (induction rs) auto

lemma refs_index_nth: "uri \<in> set rs \<Longrightarrow> refs_index_of rs uri < length rs \<and> rs ! refs_index_of rs uri = uri"
  by (induction rs) auto

text \<open>Taking a reference out by moving the last one over it removes it from the set.\<close>

lemma refs_remove_set:
  assumes "distinct rs" and "uri \<in> set rs"
  defines "rs' \<equiv> butlast (rs[refs_index_of rs uri := rs ! (length rs - 1)])"
  shows "distinct rs'" and "set rs' = set rs - {uri}"
proof -
  define i where "i = refs_index_of rs uri"
  have i: "i < length rs" "rs ! i = uri" using refs_index_nth [OF assms(2)] by (simp_all add: i_def)
  have ne: "rs \<noteq> []" using assms(2) by auto
  then have split: "rs = butlast rs @ [last rs]" by simp
  have l: "rs ! (length rs - 1) = last rs" using ne by (simp add: last_conv_nth)
  have *: "distinct rs' \<and> set rs' = set rs - {uri}"
  proof (cases "i = length rs - 1")
    case True
    then have "rs' = butlast rs" and "uri = last rs"
      using i ne by (auto simp: rs'_def i_def [symmetric] last_conv_nth list_update_id)
    moreover have "distinct (butlast rs @ [last rs])" "set rs = insert (last rs) (set (butlast rs))"
      using split assms(1) by (metis, metis list.simps(15) rotate1.simps(2) set_rotate1 split)
    ultimately show ?thesis by auto
  next
    case False
    then have lt: "i < length (butlast rs)" using i by simp
    have b: "butlast rs ! i = uri" using lt i by (simp add: nth_butlast)
    have "rs[i := last rs] = (butlast rs)[i := last rs] @ [last rs]"
      using split lt by (metis list_update_append1)
    then have r: "rs' = (butlast rs)[i := last rs]"
      unfolding rs'_def i_def [symmetric] l by simp
    have d: "distinct (butlast rs)" "last rs \<notin> set (butlast rs)"
      using split assms(1) by (metis distinct_butlast, metis distinct_append not_distinct_conv_prefix)
    have "uri \<in> set (butlast rs)" using b lt by (metis nth_mem)
    then have u: "uri \<noteq> last rs" using d(2) by auto
    have s: "set rs = insert (last rs) (set (butlast rs))"
      using split by (metis list.simps(15) rotate1.simps(2) set_rotate1)
    have "distinct rs'"
      unfolding r using d by (intro distinct_list_update) auto
    moreover have "set rs' = set rs - {uri}"
      unfolding r set_update_distinct [OF d(1) lt] b s using u by auto
    ultimately show ?thesis by blast
  qed
  then show "distinct rs'" and "set rs' = set rs - {uri}" by auto
qed

section \<open>When nothing fails\<close>

definition plain_text :: "string \<Rightarrow> bool" where
  "plain_text s \<longleftrightarrow> list_all (\<lambda>c. c \<noteq> CHR 0x00 \<and> c \<noteq> newline \<and> c \<noteq> CHR 0x0D) s"

definition io_good :: "blob_io \<Rightarrow> bool" where
  "io_good io \<longleftrightarrow>
     bio_write io = (\<lambda>_. Written) \<and> bio_open io = (\<lambda>_. True) \<and> bio_read io = (\<lambda>_. True) \<and>
     bio_rename io = (\<lambda>_. True) \<and> length (bio_nonce io) = NONCEBYTES \<and>
     length (bio_salt io) = SALTBYTES \<and>
     (case bio_tid io of
        None \<Rightarrow> False
      | Some tid \<Rightarrow> tid \<noteq> '''' \<and> length tid < REV_SIZE \<and> plain_text tid)"

text \<open>What libsodium documents of the secret box and of the derivation of keys.\<close>

definition sodium_ok :: "sodium \<Rightarrow> bool" where
  "sodium_ok lib \<longleftrightarrow>
     (\<forall>key nonce plain. length nonce = NONCEBYTES \<longrightarrow>
        (case sd_box lib key nonce plain of
           None \<Rightarrow> False
         | Some ct \<Rightarrow> length ct = length plain + MACBYTES \<and> sd_open lib key nonce ct = Some plain)) \<and>
     (\<forall>pw salt. sd_pwhash lib pw salt \<noteq> None)"

lemma io_goodD:
  assumes "io_good io"
  shows "blob_write_file io fs name data = (WF_OK, fs(name \<mapsto> data))"
    and "snd (write_file io fs name data) = fs(name \<mapsto> data)"
    and "blob_read_file io fs name = (case fs name of None \<Rightarrow> Inl WF_ERR_NOT_FOUND | Some d \<Rightarrow> Inr d)"
    and "rename_file io fs a b =
      (case fs a of None \<Rightarrow> (False, fs) | Some d \<Rightarrow> (True, (fs(a := None))(b \<mapsto> d)))"
    and "blob_tid_now io \<noteq> ''''" and "length (blob_tid_now io) < REV_SIZE" and "plain_text (blob_tid_now io)"
  using assms
  by (auto simp: io_good_def blob_write_file_def write_file_def blob_read_file_def rename_file_def
      blob_tid_now_def split: option.splits)

lemma copy_loop_all:
  "length dest + length s \<le> n \<Longrightarrow> copy_loop n s dest = (True, dest @ s)"
proof (induction n s dest rule: copy_loop.induct)
  case (1 n s dest)
  show ?case
  proof (cases "length s < COPY_BUFFER")
    case True
    then show ?thesis using 1(2) by (subst copy_loop.simps) (auto simp: Let_def)
  next
    case False
    then have "copy_loop n s dest = copy_loop n (drop COPY_BUFFER s) (dest @ take COPY_BUFFER s)"
      using 1(2) by (subst copy_loop.simps) (auto simp: Let_def)
    also have "\<dots> = (True, (dest @ take COPY_BUFFER s) @ drop COPY_BUFFER s)"
      by (rule 1(1) [OF refl]) (use False 1(2) in auto)
    finally show ?thesis by simp
  qed
qed

text \<open>Whatever the outcomes of the calls, a copy that reports success is the whole source.\<close>

lemma copy_loop_prefix:
  "copy_loop n s dest = (True, d) \<Longrightarrow> d = dest @ s"
proof (induction n s dest rule: copy_loop.induct)
  case (1 n s dest)
  then show ?case
    by (subst (asm) (2) copy_loop.simps) (auto simp: Let_def split: if_splits)
qed

lemma blob_copy_file_ok:
  "blob_copy_file io fs source source_ok dest n = (WF_OK, fs') \<Longrightarrow>
   \<exists>s. source = Some s \<and> length s = n \<and> fs' = fs(dest \<mapsto> s)"
  by (auto simp: blob_copy_file_def dest: copy_loop_prefix split: option.splits if_splits prod.splits)

lemma publish_good:
  assumes "io_good io" and "blob_cid_is_valid cid" and "fs (cid @ ''.tmp'') = Some x"
  shows "publish_backing_files io cid mime (WF_OK, fs) =
    (WF_OK, (clear_tmp fs cid)(cid \<mapsto> x, cid @ ''.mime'' \<mapsto> mime))"
  using assms(3) side_name_neq [OF assms(2)] side_name_eq [OF assms(2) assms(2)]
  by (auto simp: publish_backing_files_def io_goodD [OF assms(1)] clear_tmp_def remove_file_def
      fun_eq_iff)

section \<open>Reloading side files\<close>

lemma plain_takeWhile:
  "plain_text u \<Longrightarrow> takeWhile (\<lambda>c. c \<noteq> newline) (u @ newline # s) = u"
  by (induction u) (auto simp: plain_text_def)

lemma chop_plain:
  assumes "plain_text u"
  shows "chop_eol (u @ [newline]) = u" and "c_str u = u"
proof -
  have c: "c_str v = v" if "plain_text v" for v
    using that by (induction v) (auto simp: plain_text_def c_str_def)
  have "c_str (u @ [newline]) = u @ [newline]"
    using assms by (induction u) (auto simp: plain_text_def c_str_def newline_def)
  moreover have "dropWhile (\<lambda>c. c = newline \<or> c = CHR 0x0D) (rev u) = rev u"
    using assms by (cases u rule: rev_cases) (auto simp: plain_text_def)
  ultimately show "chop_eol (u @ [newline]) = u" by (simp add: chop_eol_def)
  show "c_str u = u" using c assms .
qed

definition uri_ok :: "string \<Rightarrow> bool" where
  "uri_ok u \<longleftrightarrow> u \<noteq> '''' \<and> plain_text u \<and> length u < REFS_LINE - 1"

lemma load_refs_text:
  "distinct (acc @ us) \<Longrightarrow> list_all uri_ok us \<Longrightarrow> load_refs_loop (refs_text us) acc = acc @ us"
proof (induction us arbitrary: acc)
  case Nil
  then show ?case by (simp add: refs_text_def load_refs_loop.simps [of "[]"])
next
  case (Cons u us)
  then have u: "u \<noteq> ''''" "plain_text u" "length u < REFS_LINE - 1" by (simp_all add: uri_ok_def)
  have t: "refs_text (u # us) = u @ newline # refs_text us" by (simp add: refs_text_def)
  have "fgets REFS_LINE (refs_text (u # us)) = (u @ [newline], refs_text us)"
    unfolding t fgets_def Let_def plain_takeWhile [OF u(2)] using u(3) by simp
  moreover have "refs_index_of acc u = length acc"
    using Cons.prems(1) by (simp add: refs_index_eq)
  ultimately have "load_refs_loop (refs_text (u # us)) acc = load_refs_loop (refs_text us) (acc @ [u])"
    using u(1) chop_plain(1) [OF u(2)] by (subst load_refs_loop.simps) (simp add: t)
  then show ?case using Cons by simp
qed

lemma load_rev_text:
  assumes "plain_text r" and "length r < REV_SIZE"
  shows "chop_eol (fst (fgets REV_LINE (r @ [newline]))) = r"
proof -
  have "takeWhile (\<lambda>c. c \<noteq> newline) (r @ [newline]) = r" using plain_takeWhile [OF assms(1), of "[]"] .
  then show ?thesis
    using assms(2) chop_plain(1) [OF assms(1)] by (simp add: fgets_def REV_LINE_def REV_SIZE_def)
qed

section \<open>The store as a map\<close>

text \<open>
  What a store promises: a map from identifiers to the type, the payload, the set of records that
  reference the blob and the time it was first seen.
\<close>

record blob_entry =
  be_mime :: string
  be_data :: string
  be_refs :: "string set"
  be_rev :: string

definition decode :: "sodium \<Rightarrow> blob_store \<Rightarrow> string \<Rightarrow> string option" where
  "decode lib store x =
     (if bs_key store = None then Some x
      else case blob_decrypt_payload lib store x of Inl _ \<Rightarrow> None | Inr plain \<Rightarrow> Some plain)"

definition entry_at :: "sodium \<Rightarrow> blob_store \<Rightarrow> files \<Rightarrow> string \<Rightarrow> blob_entry option" where
  "entry_at lib store fs cid =
     (case blob_node_find store cid of
        None \<Rightarrow> None
      | Some n \<Rightarrow>
          (case Option.bind (fs cid) (decode lib store) of
             None \<Rightarrow> None
           | Some d \<Rightarrow> Some \<lparr>be_mime = bn_mime n, be_data = d, be_refs = set (bn_refs n), be_rev = bn_rev n\<rparr>))"

definition blob_abs :: "sodium \<Rightarrow> blob_store \<Rightarrow> files \<Rightarrow> string \<Rightarrow> blob_entry option" where
  "blob_abs lib store fs = entry_at lib store fs"

definition on_disk :: "sodium \<Rightarrow> blob_store \<Rightarrow> files \<Rightarrow> string \<Rightarrow> bool" where
  "on_disk lib store fs cid \<longleftrightarrow>
     (case blob_node_find store cid of
        None \<Rightarrow>
          fs cid = None \<and> fs (cid @ ''.mime'') = None \<and> fs (cid @ ''.refs'') = None \<and>
          fs (cid @ ''.rev'') = None
      | Some n \<Rightarrow>
          bn_data n = None \<and> (\<exists>x d. fs cid = Some x \<and> decode lib store x = Some d) \<and>
          fs (cid @ ''.mime'') = Some (bn_mime n) \<and> c_str (bn_mime n) = bn_mime n \<and>
          fs (cid @ ''.refs'') = (if bn_refs n = [] then None else Some (refs_text (bn_refs n))) \<and>
          fs (cid @ ''.rev'') = Some (bn_rev n @ [newline]) \<and>
          distinct (bn_refs n) \<and> list_all uri_ok (bn_refs n) \<and>
          bn_rev n \<noteq> '''' \<and> length (bn_rev n) < REV_SIZE \<and> plain_text (bn_rev n))"

text \<open>The key in use is the one the passphrase of the session gives with the salt on disk.\<close>

definition keyed :: "sodium \<Rightarrow> string option \<Rightarrow> blob_store \<Rightarrow> files \<Rightarrow> bool" where
  "keyed lib pass store fs \<longleftrightarrow>
     (case pass of
        None \<Rightarrow> bs_key store = None \<and> \<not> bs_encrypted store \<and> fs SALT_NAME = None
      | Some pw \<Rightarrow>
          (\<exists>salt. pw \<noteq> '''' \<and> fs SALT_NAME = Some salt \<and> length salt = SALTBYTES \<and>
             sd_pwhash lib pw salt \<noteq> None \<and> bs_key store = sd_pwhash lib pw salt))"

definition store_ok :: "sodium \<Rightarrow> string option \<Rightarrow> blob_store \<Rightarrow> files \<Rightarrow> bool" where
  "store_ok lib pass store fs \<longleftrightarrow>
     bs_file_backed store \<and> distinct (map bn_cid (bs_nodes store)) \<and>
     list_all blob_cid_is_valid (map bn_cid (bs_nodes store)) \<and> keyed lib pass store fs \<and>
     (\<forall>cid. blob_cid_is_valid cid \<longrightarrow> on_disk lib store fs cid)"

definition same_disk :: "files \<Rightarrow> files \<Rightarrow> string \<Rightarrow> bool" where
  "same_disk fs fs' d \<longleftrightarrow>
     fs' d = fs d \<and> fs' (d @ ''.mime'') = fs (d @ ''.mime'') \<and>
     fs' (d @ ''.refs'') = fs (d @ ''.refs'') \<and> fs' (d @ ''.rev'') = fs (d @ ''.rev'')"

lemma find_invalid:
  "store_ok lib pass store fs \<Longrightarrow> \<not> blob_cid_is_valid cid \<Longrightarrow> blob_node_find store cid = None"
  by (auto simp: store_ok_def list_all_iff dest: blob_find_SomeD intro: ccontr split: option.splits)

text \<open>One lemma carries every operation: it may touch one blob, and must leave it on disk.\<close>

lemma store_step:
  assumes "store_ok lib pass store fs"
    and "bs_file_backed store' = bs_file_backed store" "bs_key store' = bs_key store"
      "bs_encrypted store' = bs_encrypted store" "fs' SALT_NAME = fs SALT_NAME"
    and "distinct (map bn_cid (bs_nodes store'))"
      "list_all blob_cid_is_valid (map bn_cid (bs_nodes store'))"
    and "\<And>d. d \<noteq> cid \<Longrightarrow> blob_node_find store' d = blob_node_find store d"
    and "\<And>d. d \<noteq> cid \<Longrightarrow> blob_cid_is_valid d \<Longrightarrow> same_disk fs fs' d"
    and "on_disk lib store' fs' cid"
  shows "store_ok lib pass store' fs' \<and>
    blob_abs lib store' fs' = (blob_abs lib store fs)(cid := entry_at lib store' fs' cid)"
proof (rule conjI)
  have dec: "decode lib store' = decode lib store"
    using assms(3) by (simp add: fun_eq_iff decode_def blob_decrypt_payload_def)
  have "on_disk lib store' fs' d" if "blob_cid_is_valid d" for d
  proof (cases "d = cid")
    case False
    then have "on_disk lib store' fs' d = on_disk lib store fs d"
      using assms(8) [OF False] assms(9) [OF False that] dec
      by (simp add: on_disk_def same_disk_def split: option.split)
    then show ?thesis using assms(1) that by (simp add: store_ok_def)
  qed (use assms(10) in simp)
  moreover have "keyed lib pass store' fs'"
    using assms(1,3,4,5) by (simp add: store_ok_def keyed_def split: option.splits)
  ultimately show "store_ok lib pass store' fs'"
    using assms(1,2,6,7) by (simp add: store_ok_def)
  show "blob_abs lib store' fs' = (blob_abs lib store fs)(cid := entry_at lib store' fs' cid)"
  proof
    fix d
    show "blob_abs lib store' fs' d = ((blob_abs lib store fs)(cid := entry_at lib store' fs' cid)) d"
    proof (cases "d = cid")
      case other: False
      have f: "blob_node_find store' d = blob_node_find store d" using assms(8) [OF other] .
      show ?thesis
      proof (cases "blob_cid_is_valid d")
        case True
        then show ?thesis
          using assms(9) [OF other True] f dec other
          by (simp add: blob_abs_def entry_at_def same_disk_def split: option.split)
      next
        case False
        then show ?thesis
          using f other find_invalid [OF assms(1) False] by (simp add: blob_abs_def entry_at_def)
      qed
    qed (simp add: blob_abs_def)
  qed
qed

lemma payload_good:
  assumes "io_good io" and "sodium_ok lib"
  shows "\<exists>x. (if bs_key store \<noteq> None then blob_write_payload_encrypted lib io store fs data name
              else blob_write_file io fs name data) = (WF_OK, fs(name \<mapsto> x)) \<and>
             decode lib store x = Some data"
proof (cases "bs_key store")
  case None
  then show ?thesis by (simp add: io_goodD(1) [OF assms(1)] decode_def)
next
  case (Some key)
  have n: "length (bio_nonce io) = NONCEBYTES" using assms(1) by (simp add: io_good_def)
  then obtain ct where ct: "sd_box lib key (bio_nonce io) data = Some ct"
      "length ct = length data + MACBYTES" "sd_open lib key (bio_nonce io) ct = Some data"
    using assms(2) by (fastforce simp: sodium_ok_def split: option.splits)
  then show ?thesis
    using Some n
    by (intro exI [of _ "bio_nonce io @ ct"])
      (simp add: blob_write_payload_encrypted_def blob_encrypt_payload_def io_goodD(1) [OF assms(1)]
        decode_def blob_decrypt_payload_def)
qed

section \<open>Each operation on the map\<close>

definition spec_put ::
  "string \<Rightarrow> string \<Rightarrow> string \<Rightarrow> string \<Rightarrow> (string \<Rightarrow> blob_entry option) \<Rightarrow> string \<Rightarrow> blob_entry option" where
  "spec_put cid mime data tid m =
     m(cid \<mapsto> (case m cid of
                 None \<Rightarrow> \<lparr>be_mime = mime, be_data = data, be_refs = {}, be_rev = tid\<rparr>
               | Some e \<Rightarrow> e\<lparr>be_mime := mime, be_data := data\<rparr>))"

definition spec_dissociate ::
  "string \<Rightarrow> string \<Rightarrow> (string \<Rightarrow> blob_entry option) \<Rightarrow> string \<Rightarrow> blob_entry option" where
  "spec_dissociate cid uri m =
     (case m cid of
        None \<Rightarrow> m
      | Some e \<Rightarrow>
          if uri \<notin> be_refs e then m
          else if be_refs e = {uri} then m(cid := None)
          else m(cid \<mapsto> e\<lparr>be_refs := be_refs e - {uri}\<rparr>))"

definition spec_associate ::
  "string \<Rightarrow> string \<Rightarrow> (string \<Rightarrow> blob_entry option) \<Rightarrow> string \<Rightarrow> blob_entry option" where
  "spec_associate cid uri m =
     (case m cid of None \<Rightarrow> m | Some e \<Rightarrow> m(cid \<mapsto> e\<lparr>be_refs := insert uri (be_refs e)\<rparr>))"

lemma on_diskD:
  assumes "store_ok lib pass store fs" and "blob_node_find store cid = Some n"
  obtains x d where "blob_cid_is_valid cid" "bn_cid n = cid" "bn_data n = None" "fs cid = Some x" "decode lib store x = Some d"
    "fs (cid @ ''.mime'') = Some (bn_mime n)" "c_str (bn_mime n) = bn_mime n"
    "fs (cid @ ''.refs'') = (if bn_refs n = [] then None else Some (refs_text (bn_refs n)))"
    "fs (cid @ ''.rev'') = Some (bn_rev n @ [newline])" "distinct (bn_refs n)"
    "list_all uri_ok (bn_refs n)" "bn_rev n \<noteq> ''''" "length (bn_rev n) < REV_SIZE" "plain_text (bn_rev n)"
    "entry_at lib store fs cid =
       Some \<lparr>be_mime = bn_mime n, be_data = d, be_refs = set (bn_refs n), be_rev = bn_rev n\<rparr>"
proof -
  have v: "blob_cid_is_valid cid" "bn_cid n = cid"
    using assms blob_find_SomeD [OF assms(2)] by (auto simp: store_ok_def list_all_iff)
  then have "on_disk lib store fs cid" using assms(1) by (simp add: store_ok_def)
  then show thesis
    using that v assms(2) unfolding on_disk_def entry_at_def by auto
qed

lemma on_disk_None:
  assumes "store_ok lib pass store fs" and "blob_cid_is_valid cid" and "blob_node_find store cid = None"
  shows "fs cid = None" "fs (cid @ ''.mime'') = None" "fs (cid @ ''.refs'') = None"
    "fs (cid @ ''.rev'') = None" "entry_at lib store fs cid = None"
  using assms by (auto simp: store_ok_def on_disk_def entry_at_def)

lemma entry_None: "store_ok lib pass store fs \<Longrightarrow> blob_abs lib store fs cid = None \<longleftrightarrow> blob_node_find store cid = None"
  by (cases "blob_node_find store cid") (auto simp: blob_abs_def entry_at_def elim: on_diskD)

text \<open>Publishing and indexing, what both writing operations share.\<close>

definition index_blob ::
  "blob_io \<Rightarrow> blob_store \<Rightarrow> files \<Rightarrow> string \<Rightarrow> string \<Rightarrow> nat \<Rightarrow> wf_status \<times> blob_store \<times> files" where
  "index_blob io store fs cid mime len =
     (case blob_node_find store cid of
        Some n \<Rightarrow>
          let n1 = n\<lparr>bn_mime := mime, bn_len := len\<rparr>
          in (WF_OK, store\<lparr>bs_nodes := update_node cid (\<lambda>_. stamp_rev io n1) (bs_nodes store)\<rparr>,
              stamp_file io store fs n1)
      | None \<Rightarrow>
          let store1 = blob_node_push store cid mime None len (blob_tid_now io)
          in (WF_OK, store1, persist_rev io store1 fs (hd (bs_nodes store1))))"

lemma index_blob_ok:
  assumes ok: "store_ok lib pass store fs" and io: "io_good io" and v: "blob_cid_is_valid cid"
    and mime: "c_str mime = mime" and x: "decode lib store x = Some data"
    and fs1: "fs1 = (clear_tmp fs cid)(cid \<mapsto> x, cid @ ''.mime'' \<mapsto> mime)"
  obtains store' fs' where "index_blob io store fs1 cid mime len = (WF_OK, store', fs')"
    "store_ok lib pass store' fs'"
    "blob_abs lib store' fs' = spec_put cid mime data (blob_tid_now io) (blob_abs lib store fs)"
proof (cases "blob_node_find store cid")
  case None
  let ?s = "blob_node_push store cid mime None len (blob_tid_now io)"
  let ?f = "fs1(cid @ ''.rev'' \<mapsto> blob_tid_now io @ [newline])"
  have eq: "index_blob io store fs1 cid mime len = (WF_OK, ?s, ?f)"
    using None ok io_goodD(2,5,6) [OF io]
    by (simp add: index_blob_def Let_def blob_node_push_def persist_rev_def store_ok_def)
  note n = names [OF v] side_name_eq [OF v v]
  have d: "decode lib ?s = decode lib store"
    by (simp add: fun_eq_iff decode_def blob_decrypt_payload_def blob_node_push_def)
  have f: "blob_node_find ?s cid = Some \<lparr>bn_cid = cid, bn_mime = mime, bn_data = None, bn_len = len,
      bn_refs = [], bn_rev = blob_tid_now io\<rparr>"
    using io_goodD(6) [OF io] by (simp add: find_push)
  have disk: "on_disk lib ?s ?f cid"
    using on_disk_None [OF ok v None] io_goodD(5,6,7) [OF io] mime x v side_name_neq [OF v] side_name_eq [OF v v]
    by (simp add: on_disk_def f d fs1 clear_tmp_def remove_file_def)
  have e: "entry_at lib ?s ?f cid =
      Some \<lparr>be_mime = mime, be_data = data, be_refs = {}, be_rev = blob_tid_now io\<rparr>"
    using x side_name_neq [OF v] by (simp add: entry_at_def f d fs1)
  have dist: "distinct (map bn_cid (bs_nodes ?s))"
    using None ok by (auto simp: blob_node_find_def find_None_iff blob_node_push_def store_ok_def)
  have val: "list_all blob_cid_is_valid (map bn_cid (bs_nodes ?s))"
    using ok v by (simp add: blob_node_push_def store_ok_def)
  have other: "blob_node_find ?s d = blob_node_find store d" if "d \<noteq> cid" for d
    using that by (simp add: find_push)
  have same: "same_disk fs ?f d" if "d \<noteq> cid" "blob_cid_is_valid d" for d
    using that v side_name_neq [OF v] side_name_neq [OF that(2)] side_name_eq [OF v that(2)] side_name_eq [OF that(2) v]
    by (simp add: same_disk_def fs1 clear_tmp_def remove_file_def)
  have salt: "?f SALT_NAME = fs SALT_NAME"
    using salt_name_neq [OF v] by (simp add: fs1 clear_tmp_def remove_file_def)
  have flags: "bs_file_backed ?s = bs_file_backed store" "bs_key ?s = bs_key store"
    "bs_encrypted ?s = bs_encrypted store"
    by (simp_all add: blob_node_push_def)
  note step = store_step [OF ok flags salt dist val other same disk]
  then show thesis
    using that [OF eq] on_disk_None(5) [OF ok v None] by (simp add: spec_put_def blob_abs_def e)
next
  case (Some n)
  obtain x0 d0 where n: "bn_cid n = cid" "fs cid = Some x0" "decode lib store x0 = Some d0"
    "fs (cid @ ''.refs'') = (if bn_refs n = [] then None else Some (refs_text (bn_refs n)))"
    "fs (cid @ ''.rev'') = Some (bn_rev n @ [newline])" "distinct (bn_refs n)"
    "list_all uri_ok (bn_refs n)" "bn_rev n \<noteq> ''''" "length (bn_rev n) < REV_SIZE" "plain_text (bn_rev n)"
    "entry_at lib store fs cid =
       Some \<lparr>be_mime = bn_mime n, be_data = d0, be_refs = set (bn_refs n), be_rev = bn_rev n\<rparr>"
    and nd: "bn_data n = None"
    using on_diskD [OF ok Some] by metis
  let ?n = "n\<lparr>bn_mime := mime, bn_len := len\<rparr>"
  let ?s = "store\<lparr>bs_nodes := update_node cid (\<lambda>_. ?n) (bs_nodes store)\<rparr>"
  have eq: "index_blob io store fs1 cid mime len = (WF_OK, ?s, fs1)"
    using Some n(8) by (simp add: index_blob_def Let_def stamp_rev_def stamp_file_def)
  have f: "blob_node_find ?s d = (if d = cid then Some ?n else blob_node_find store d)" for d
    using find_update [OF Some, of ?n d] n(1) by simp
  have d: "decode lib ?s = decode lib store"
    by (simp add: fun_eq_iff decode_def blob_decrypt_payload_def)
  have disk: "on_disk lib ?s fs1 cid"
    using n nd mime x side_name_neq [OF v] side_name_eq [OF v v]
    by (simp add: on_disk_def f d fs1 clear_tmp_def remove_file_def)
  have e: "entry_at lib ?s fs1 cid =
      Some \<lparr>be_mime = mime, be_data = data, be_refs = set (bn_refs n), be_rev = bn_rev n\<rparr>"
    using x side_name_neq [OF v] by (simp add: entry_at_def f d fs1)
  have cids: "map bn_cid (bs_nodes ?s) = map bn_cid (bs_nodes store)"
    using n(1) by (simp add: update_node_cids)
  have dist: "distinct (map bn_cid (bs_nodes ?s))"
    and val: "list_all blob_cid_is_valid (map bn_cid (bs_nodes ?s))"
    unfolding cids using ok by (simp_all add: store_ok_def)
  have other: "blob_node_find ?s d = blob_node_find store d" if "d \<noteq> cid" for d
    using that by (simp add: f)
  have same: "same_disk fs fs1 d" if "d \<noteq> cid" "blob_cid_is_valid d" for d
    using that v side_name_neq [OF v] side_name_neq [OF that(2)] side_name_eq [OF v that(2)] side_name_eq [OF that(2) v]
    by (simp add: same_disk_def fs1 clear_tmp_def remove_file_def)
  have salt: "fs1 SALT_NAME = fs SALT_NAME"
    using salt_name_neq [OF v] by (simp add: fs1 clear_tmp_def remove_file_def)
  have flags: "bs_file_backed ?s = bs_file_backed store" "bs_key ?s = bs_key store"
    "bs_encrypted ?s = bs_encrypted store"
    by simp_all
  note step = store_step [OF ok flags salt dist val other same disk]
  then show thesis
    using that [OF eq] n(11) by (simp add: spec_put_def blob_abs_def e)
qed

lemma put_ok:
  assumes ok: "store_ok lib pass store fs" and io: "io_good io" and lib: "sodium_ok lib"
    and v: "blob_cid_is_valid cid" and mime: "c_str mime = mime"
  obtains store' fs' where "metalbear_blob_store_put lib io store fs cid mime data = (WF_OK, store', fs')"
    "store_ok lib pass store' fs'"
    "blob_abs lib store' fs' = spec_put cid mime data (blob_tid_now io) (blob_abs lib store fs)"
proof -
  let ?tmp = "clear_tmp fs cid"
  obtain x where x: "(if bs_key store \<noteq> None
        then blob_write_payload_encrypted lib io store ?tmp data (cid @ ''.tmp'')
        else blob_write_file io ?tmp (cid @ ''.tmp'') data) = (WF_OK, ?tmp(cid @ ''.tmp'' \<mapsto> x))"
      "decode lib store x = Some data"
    using payload_good [OF io lib] by blast
  let ?fs1 = "?tmp(cid \<mapsto> x, cid @ ''.mime'' \<mapsto> mime)"
  have clr: "clear_tmp (?tmp(cid @ ''.tmp'' \<mapsto> x)) cid = ?tmp"
    by (simp add: clear_tmp_def remove_file_def fun_eq_iff)
  have "blob_write_backing_files lib io store fs cid mime data = (WF_OK, ?fs1)"
    unfolding blob_write_backing_files_def Let_def x(1)
    using publish_good [OF io v, of "?tmp(cid @ ''.tmp'' \<mapsto> x)" x mime] unfolding clr by simp
  moreover have "n\<lparr>bn_mime := mime, bn_data := None, bn_len := l\<rparr> = n\<lparr>bn_mime := mime, bn_len := l\<rparr>"
    if "blob_node_find store cid = Some n" for n l
  proof -
    have "bn_data n = None" using on_diskD [OF ok that] by metis
    then show ?thesis by (cases n) simp
  qed
  moreover have "bs_file_backed store" using ok by (simp add: store_ok_def)
  ultimately have "metalbear_blob_store_put lib io store fs cid mime data =
      index_blob io store ?fs1 cid mime (length data)"
    using v by (simp add: metalbear_blob_store_put_def index_blob_def Let_def split: option.split)
  then show thesis
    using index_blob_ok [OF ok io v mime x(2) refl, of "length data"] that by metis
qed

lemma put_file_ok:
  assumes ok: "store_ok lib pass store fs" and io: "io_good io" and lib: "sodium_ok lib"
    and v: "blob_cid_is_valid cid" and mime: "c_str mime = mime"
  obtains store' fs' where
    "metalbear_blob_store_put_file lib io store fs cid mime (Some data) True (length data) =
      (WF_OK, store', fs')"
    "store_ok lib pass store' fs'"
    "blob_abs lib store' fs' = spec_put cid mime data (blob_tid_now io) (blob_abs lib store fs)"
proof -
  let ?tmp = "clear_tmp fs cid"
  have copy: "blob_copy_file io ?tmp (Some data) True (cid @ ''.tmp'') (length data) =
      blob_write_file io ?tmp (cid @ ''.tmp'') data"
    using io copy_loop_all [of "[]" data "length data"]
    by (simp add: blob_copy_file_def io_goodD(1) [OF io] io_good_def)
  obtain x where x: "(if bs_key store \<noteq> None
        then blob_write_payload_encrypted lib io store ?tmp data (cid @ ''.tmp'')
        else blob_write_file io ?tmp (cid @ ''.tmp'') data) = (WF_OK, ?tmp(cid @ ''.tmp'' \<mapsto> x))"
      "decode lib store x = Some data"
    using payload_good [OF io lib] by blast
  let ?fs1 = "?tmp(cid \<mapsto> x, cid @ ''.mime'' \<mapsto> mime)"
  have clr: "clear_tmp (?tmp(cid @ ''.tmp'' \<mapsto> x)) cid = ?tmp"
    by (simp add: clear_tmp_def remove_file_def fun_eq_iff)
  have p: "publish_backing_files io cid mime (WF_OK, ?tmp(cid @ ''.tmp'' \<mapsto> x)) = (WF_OK, ?fs1)"
    using publish_good [OF io v, of "?tmp(cid @ ''.tmp'' \<mapsto> x)" x mime] unfolding clr by simp
  have "metalbear_blob_store_put_file lib io store fs cid mime (Some data) True (length data) =
      index_blob io store ?fs1 cid mime (length data)"
    using ok v x(1) p unfolding metalbear_blob_store_put_file_def Let_def copy
    by (auto simp: index_blob_def Let_def store_ok_def split: option.split)
  then show thesis
    using index_blob_ok [OF ok io v mime x(2) refl, of "length data"] that by metis
qed

lemma get_ok:
  assumes ok: "store_ok lib pass store fs" and io: "io_good io" and v: "blob_cid_is_valid cid"
  shows "fst (metalbear_blob_store_get lib io store fs cid) =
    (case blob_abs lib store fs cid of
       None \<Rightarrow> Inl WF_ERR_NOT_FOUND | Some e \<Rightarrow> Inr (be_data e, be_mime e))"
proof (cases "blob_node_find store cid")
  case None
  then show ?thesis using v by (simp add: metalbear_blob_store_get_def blob_abs_def entry_at_def)
next
  case (Some n)
  obtain x d where n: "bn_cid n = cid" "fs cid = Some x" "decode lib store x = Some d"
    "entry_at lib store fs cid =
       Some \<lparr>be_mime = bn_mime n, be_data = d, be_refs = set (bn_refs n), be_rev = bn_rev n\<rparr>"
    using on_diskD [OF ok Some] by metis
  have "bs_encrypted store \<Longrightarrow> bs_key store \<noteq> None"
    using ok by (auto simp: store_ok_def keyed_def split: option.splits)
  then have "blob_payload lib io store fs n = Inr d"
    using n ok io_goodD(3) [OF io]
    by (auto simp: blob_payload_def store_ok_def decode_def blob_read_payload_encrypted_def
        split: if_splits sum.splits)
  then show ?thesis
    using Some v n(4) by (simp add: metalbear_blob_store_get_def blob_abs_def)
qed

definition wipe :: "files \<Rightarrow> string \<Rightarrow> files" where
  "wipe fs cid =
     fs(cid := None, cid @ ''.mime'' := None, cid @ ''.delete'' := None, cid @ ''.mime.delete'' := None,
        cid @ ''.refs'' := None, cid @ ''.rev'' := None)"

lemma delete_locked_good:
  assumes "io_good io" and "blob_cid_is_valid cid" and "blob_node_find store cid \<noteq> None"
    and "bs_file_backed store" and "fs cid \<noteq> None" and "fs (cid @ ''.mime'') \<noteq> None"
  shows "blob_store_delete_locked io store fs cid =
    (WF_OK, store\<lparr>bs_nodes := unlink_node cid (bs_nodes store)\<rparr>, wipe fs cid)"
  using assms(3-6) side_name_neq [OF assms(2)]
  by (auto simp: blob_store_delete_locked_def io_goodD(4) [OF assms(1)] remove_file_def wipe_def fun_eq_iff)

lemma wiped_ok:
  assumes ok: "store_ok lib pass store fs" and v: "blob_cid_is_valid cid"
  shows "store_ok lib pass (store\<lparr>bs_nodes := unlink_node cid (bs_nodes store)\<rparr>) (wipe fs cid) \<and>
    blob_abs lib (store\<lparr>bs_nodes := unlink_node cid (bs_nodes store)\<rparr>) (wipe fs cid) =
      (blob_abs lib store fs)(cid := None)"
proof -
  let ?s = "store\<lparr>bs_nodes := unlink_node cid (bs_nodes store)\<rparr>"
  have dis: "distinct (map bn_cid (bs_nodes store))" using ok by (simp add: store_ok_def)
  note f = find_unlink [OF dis, of cid]
  have dist: "distinct (map bn_cid (bs_nodes ?s))" using unlink_node_distinct [OF dis] by simp
  have val: "list_all blob_cid_is_valid (map bn_cid (bs_nodes ?s))"
    using ok unlink_node_subset [of cid "bs_nodes store"] by (auto simp: store_ok_def list_all_iff)
  have other: "blob_node_find ?s d = blob_node_find store d" if "d \<noteq> cid" for d
    using that f by simp
  have same: "same_disk fs (wipe fs cid) d" if "d \<noteq> cid" "blob_cid_is_valid d" for d
    using that v side_name_neq [OF v] side_name_neq [OF that(2)] side_name_eq [OF v that(2)] side_name_eq [OF that(2) v]
    by (simp add: same_disk_def wipe_def)
  have salt: "wipe fs cid SALT_NAME = fs SALT_NAME"
    using salt_name_neq [OF v] by (simp add: wipe_def)
  have disk: "on_disk lib ?s (wipe fs cid) cid"
    using f side_name_neq [OF v] by (simp add: on_disk_def wipe_def)
  have e: "entry_at lib ?s (wipe fs cid) cid = None" using f by (simp add: entry_at_def)
  have flags: "bs_file_backed ?s = bs_file_backed store" "bs_key ?s = bs_key store"
    "bs_encrypted ?s = bs_encrypted store"
    by simp_all
  show ?thesis
    using store_step [OF ok flags salt dist val other same disk] unfolding e by simp
qed

lemma delete_ok:
  assumes ok: "store_ok lib pass store fs" and io: "io_good io" and v: "blob_cid_is_valid cid"
  obtains store' fs' where
    "metalbear_blob_store_delete io store fs cid =
      (if blob_abs lib store fs cid = None then WF_ERR_NOT_FOUND else WF_OK, store', fs')"
    "store_ok lib pass store' fs'" "blob_abs lib store' fs' = (blob_abs lib store fs)(cid := None)"
proof (cases "blob_node_find store cid")
  case None
  then have "blob_abs lib store fs cid = None" using entry_None [OF ok] by simp
  then have "metalbear_blob_store_delete io store fs cid = (if blob_abs lib store fs cid = None then WF_ERR_NOT_FOUND else WF_OK, store, fs)"
    "blob_abs lib store fs = (blob_abs lib store fs)(cid := None)"
    using None v by (auto simp: metalbear_blob_store_delete_def blob_store_delete_locked_def)
  then show thesis using that ok by metis
next
  case (Some n)
  then have ne: "blob_abs lib store fs cid \<noteq> None" using entry_None [OF ok] by simp
  have "fs cid \<noteq> None" "fs (cid @ ''.mime'') \<noteq> None" "bs_file_backed store"
    using on_diskD [OF ok Some] ok by (metis option.discI, metis option.discI, simp add: store_ok_def)
  then show thesis
    using that delete_locked_good [OF io v, of store fs] wiped_ok [OF ok v] Some ne v
    by (simp add: metalbear_blob_store_delete_def)
qed

text \<open>Changing the associations of one blob, with the side file rewritten.\<close>

lemma refs_changed_ok:
  assumes ok: "store_ok lib pass store fs" and io: "io_good io"
    and n: "blob_node_find store cid = Some n" and refs: "distinct us" "list_all uri_ok us"
  defines "n1 \<equiv> n\<lparr>bn_refs := us\<rparr>"
  defines "store1 \<equiv> store\<lparr>bs_nodes := update_node cid (\<lambda>_. n1) (bs_nodes store)\<rparr>"
  shows "store_ok lib pass store1 (persist_refs io store1 fs n1) \<and>
    blob_abs lib store1 (persist_refs io store1 fs n1) =
      (blob_abs lib store fs)(cid := map_option (\<lambda>e. e\<lparr>be_refs := set us\<rparr>) (blob_abs lib store fs cid))"
proof -
  let ?f = "persist_refs io store1 fs n1"
  obtain x d where v: "blob_cid_is_valid cid" and c: "bn_cid n = cid" "bn_data n = None" "fs cid = Some x"
    "decode lib store x = Some d" "fs (cid @ ''.mime'') = Some (bn_mime n)" "c_str (bn_mime n) = bn_mime n"
    "fs (cid @ ''.rev'') = Some (bn_rev n @ [newline])" "bn_rev n \<noteq> ''''"
    "length (bn_rev n) < REV_SIZE" "plain_text (bn_rev n)"
    "entry_at lib store fs cid =
       Some \<lparr>be_mime = bn_mime n, be_data = d, be_refs = set (bn_refs n), be_rev = bn_rev n\<rparr>"
    using on_diskD [OF ok n] by metis
  have fb: "bs_file_backed store1" using ok by (simp add: store1_def store_ok_def)
  have p: "?f = fs(cid @ ''.refs'' := (if us = [] then None else Some (refs_text us)))"
    using fb c(1) io_goodD(2) [OF io] by (simp add: persist_refs_def n1_def remove_file_def)
  have f: "blob_node_find store1 e = (if e = cid then Some n1 else blob_node_find store e)" for e
    unfolding store1_def using find_update [OF n, of n1 e] c(1) by (simp add: n1_def)
  have dd: "decode lib store1 = decode lib store"
    by (simp add: fun_eq_iff decode_def blob_decrypt_payload_def store1_def)
  have cids: "map bn_cid (bs_nodes store1) = map bn_cid (bs_nodes store)"
    using c(1) by (simp add: store1_def n1_def update_node_cids)
  have dist: "distinct (map bn_cid (bs_nodes store1))"
    and val: "list_all blob_cid_is_valid (map bn_cid (bs_nodes store1))"
    unfolding cids using ok by (simp_all add: store_ok_def)
  have other: "blob_node_find store1 e = blob_node_find store e" if "e \<noteq> cid" for e
    using that by (simp add: f)
  have same: "same_disk fs ?f e" if "e \<noteq> cid" "blob_cid_is_valid e" for e
    using that side_name_neq [OF v] side_name_neq [OF that(2)] side_name_eq [OF v that(2)] side_name_eq [OF that(2) v]
    by (simp add: same_disk_def p)
  have salt: "?f SALT_NAME = fs SALT_NAME" using salt_name_neq [OF v] by (simp add: p)
  have disk: "on_disk lib store1 ?f cid"
    unfolding on_disk_def p
    using c refs side_name_neq [OF v] side_name_eq [OF v v] by (simp add: f dd n1_def)
  have e: "entry_at lib store1 ?f cid =
      Some \<lparr>be_mime = bn_mime n, be_data = d, be_refs = set us, be_rev = bn_rev n\<rparr>"
    unfolding entry_at_def p using c side_name_neq [OF v] by (simp add: f dd n1_def)
  have flags: "bs_file_backed store1 = bs_file_backed store" "bs_key store1 = bs_key store"
    "bs_encrypted store1 = bs_encrypted store"
    by (simp_all add: store1_def)
  show ?thesis
    using store_step [OF ok flags salt dist val other same disk] unfolding e
    by (simp add: blob_abs_def c(11))
qed

lemma associate_ok:
  assumes ok: "store_ok lib pass store fs" and io: "io_good io" and v: "blob_cid_is_valid cid"
    and uri: "uri_ok uri"
  obtains store' fs' where
    "metalbear_blob_store_associate io store fs cid uri =
      (if blob_abs lib store fs cid = None then WF_ERR_NOT_FOUND else WF_OK, store', fs')"
    "store_ok lib pass store' fs'"
    "blob_abs lib store' fs' = spec_associate cid uri (blob_abs lib store fs)"
proof (cases "blob_node_find store cid")
  case None
  then have "blob_abs lib store fs cid = None" using entry_None [OF ok] by simp
  moreover have "metalbear_blob_store_associate io store fs cid uri = (WF_ERR_NOT_FOUND, store, fs)"
    using None v uri by (simp add: metalbear_blob_store_associate_def uri_ok_def)
  ultimately show thesis using that [of store fs] ok by (simp add: spec_associate_def)
next
  case (Some n)
  obtain d where n: "distinct (bn_refs n)" "list_all uri_ok (bn_refs n)" "bn_rev n \<noteq> ''''"
    "entry_at lib store fs cid =
       Some \<lparr>be_mime = bn_mime n, be_data = d, be_refs = set (bn_refs n), be_rev = bn_rev n\<rparr>"
    using on_diskD [OF ok Some] by metis
  define us where "us = (if uri \<in> set (bn_refs n) then bn_refs n else bn_refs n @ [uri])"
  have us: "distinct us" "list_all uri_ok us" "set us = insert uri (set (bn_refs n))"
    using n uri by (auto simp: us_def)
  have n2: "(if refs_index_of (bn_refs n) uri \<noteq> length (bn_refs n) then n else refs_append n uri) =
      n\<lparr>bn_refs := us\<rparr>"
    by (simp add: refs_index_eq refs_append_def us_def)
  let ?s = "store\<lparr>bs_nodes := update_node cid (\<lambda>_. n\<lparr>bn_refs := us\<rparr>) (bs_nodes store)\<rparr>"
  have "metalbear_blob_store_associate io store fs cid uri =
      (WF_OK, ?s, persist_refs io ?s fs (n\<lparr>bn_refs := us\<rparr>))"
    using Some v uri n(3) unfolding n2 [symmetric]
    by (simp add: metalbear_blob_store_associate_def Let_def stamp_rev_def stamp_file_def
        uri_ok_def persist_refs_def)
  then show thesis
    using that refs_changed_ok [OF ok io Some us(1,2)] n(4) us(3)
    by (simp add: spec_associate_def blob_abs_def)
qed

lemma dissociate_ok:
  assumes ok: "store_ok lib pass store fs" and io: "io_good io" and v: "blob_cid_is_valid cid"
    and uri: "uri_ok uri"
  obtains store' fs' where
    "metalbear_blob_store_dissociate io store fs cid uri =
      (if blob_abs lib store fs cid = None then WF_ERR_NOT_FOUND else WF_OK, store', fs')"
    "store_ok lib pass store' fs'"
    "blob_abs lib store' fs' = spec_dissociate cid uri (blob_abs lib store fs)"
proof (cases "blob_node_find store cid")
  case None
  then have "blob_abs lib store fs cid = None" using entry_None [OF ok] by simp
  moreover have "metalbear_blob_store_dissociate io store fs cid uri = (WF_ERR_NOT_FOUND, store, fs)"
    using None v uri by (simp add: metalbear_blob_store_dissociate_def uri_ok_def)
  ultimately show thesis using that [of store fs] ok by (simp add: spec_dissociate_def)
next
  case (Some n)
  obtain x d where c: "bn_cid n = cid" and n: "distinct (bn_refs n)" "list_all uri_ok (bn_refs n)"
    "fs cid = Some x" "fs (cid @ ''.mime'') = Some (bn_mime n)"
    "entry_at lib store fs cid =
       Some \<lparr>be_mime = bn_mime n, be_data = d, be_refs = set (bn_refs n), be_rev = bn_rev n\<rparr>"
    using on_diskD [OF ok Some] by metis
  have ne: "blob_abs lib store fs cid \<noteq> None" using n(5) by (simp add: blob_abs_def)
  show thesis
  proof (cases "uri \<in> set (bn_refs n)")
    case False
    then have "metalbear_blob_store_dissociate io store fs cid uri = (WF_OK, store, fs)"
      using Some v uri by (simp add: metalbear_blob_store_dissociate_def Let_def refs_index_eq uri_ok_def)
    then show thesis
      using that [of store fs] ok ne False n(5) by (simp add: spec_dissociate_def blob_abs_def)
  next
    case True
    define n1 where "n1 = refs_remove_at n (refs_index_of (bn_refs n) uri)"
    let ?s1 = "store\<lparr>bs_nodes := update_node cid (\<lambda>_. n1) (bs_nodes store)\<rparr>"
    have us: "distinct (bn_refs n1)" "set (bn_refs n1) = set (bn_refs n) - {uri}"
      using refs_remove_set [OF n(1) True] by (simp_all add: n1_def refs_remove_at_def)
    then have uok: "list_all uri_ok (bn_refs n1)" using n(2) by (auto simp: list_all_iff)
    have n1: "n1 = n\<lparr>bn_refs := bn_refs n1\<rparr>" by (simp add: n1_def refs_remove_at_def)
    have c1: "bn_cid n1 = cid" by (simp add: n1_def refs_remove_at_def c)
    have dis: "metalbear_blob_store_dissociate io store fs cid uri =
        (if bn_refs n1 = [] then blob_store_delete_locked io ?s1 fs cid
         else (WF_OK, ?s1, persist_refs io ?s1 fs n1))"
      using Some v uri True
      by (simp add: metalbear_blob_store_dissociate_def Let_def refs_index_eq uri_ok_def n1_def)
    show thesis
    proof (cases "bn_refs n1 = []")
      case True
      have u: "unlink_node cid (update_node cid (\<lambda>_. n1) ns) = unlink_node cid ns" for ns
        using c1 by (induction ns) auto
      have "blob_node_find ?s1 cid = Some n1"
        using find_update [OF Some c1, of cid] by simp
      then have "blob_store_delete_locked io ?s1 fs cid =
          (WF_OK, store\<lparr>bs_nodes := unlink_node cid (bs_nodes store)\<rparr>, wipe fs cid)"
        using delete_locked_good [OF io v, of ?s1 fs] ok n(3,4) u by (simp add: store_ok_def)
      moreover have "set (bn_refs n) = {uri}"
        using us(2) True \<open>uri \<in> set (bn_refs n)\<close> by (metis Diff_eq_empty_iff set_empty subset_singletonD empty_iff)
      ultimately show thesis
        using that wiped_ok [OF ok v] dis True ne n(5) by (simp add: spec_dissociate_def blob_abs_def)
    next
      case False
      then have "set (bn_refs n) \<noteq> {uri}" using us(2) by (metis Diff_cancel set_empty)
      moreover have "store_ok lib pass ?s1 (persist_refs io ?s1 fs n1) \<and>
          blob_abs lib ?s1 (persist_refs io ?s1 fs n1) =
            (blob_abs lib store fs)(cid := map_option (\<lambda>e. e\<lparr>be_refs := set (bn_refs n1)\<rparr>)
              (blob_abs lib store fs cid))"
        using refs_changed_ok [OF ok io Some us(1) uok] unfolding n1 [symmetric] .
      ultimately show thesis
        using that dis False ne n(5) us(2) True
        by (simp add: spec_dissociate_def blob_abs_def)
    qed
  qed
qed

section \<open>Closing and opening again\<close>

definition open_session ::
  "sodium \<Rightarrow> blob_io \<Rightarrow> string option \<Rightarrow> string \<Rightarrow> string list \<Rightarrow> files \<Rightarrow> blob_store \<times> files" where
  "open_session lib io pass path entries fs =
     (let store = metalbear_blob_store_new io path (Some entries) fs
      in case pass of
           None \<Rightarrow> (store, fs)
         | Some pw \<Rightarrow> snd (metalbear_blob_store_set_crypto_passphrase lib io store fs pw))"

definition loadable :: "files \<Rightarrow> string \<Rightarrow> bool" where
  "loadable fs name \<longleftrightarrow> blob_cid_is_valid name \<and> fs name \<noteq> None \<and> fs (name @ ''.mime'') \<noteq> None"

definition loaded :: "files \<Rightarrow> string \<Rightarrow> blob_node" where
  "loaded fs name =
     \<lparr>bn_cid = name, bn_mime = c_str (the (fs (name @ ''.mime''))), bn_data = None,
      bn_len = length (the (fs name)),
      bn_refs = (case fs (name @ ''.refs'') of None \<Rightarrow> [] | Some s \<Rightarrow> load_refs_loop s []),
      bn_rev = (case fs (name @ ''.rev'') of
                  None \<Rightarrow> ''''
                | Some s \<Rightarrow>
                    let line = chop_eol (fst (fgets REV_LINE s))
                    in if s = [] \<or> line = [] then '''' else snprintf_cut REV_SIZE line)\<rparr>"

lemma valid_ending:
  assumes "blob_cid_is_valid name"
  shows "\<not> blob_ends_with name (CHR ''.'' # x)" and "name \<noteq> ''.''" and "name \<noteq> ''..''"
proof -
  note d = no_dot [OF assms]
  show "\<not> blob_ends_with name (CHR ''.'' # x)"
  proof
    assume "blob_ends_with name (CHR ''.'' # x)"
    then have "CHR ''.'' \<in> set (drop (length name - length (CHR ''.'' # x)) name)"
      unfolding blob_ends_with_def by (metis list.set_intros(1))
    then show False using d by (meson in_set_dropD)
  qed
  show "name \<noteq> ''.''" "name \<noteq> ''..''" using d by auto
qed

lemma load_entry_good:
  assumes "io_good io"
  shows "load_entry io fs name store =
    (if loadable fs name then store\<lparr>bs_nodes := loaded fs name # bs_nodes store\<rparr> else store)"
proof (cases "blob_cid_is_valid name \<and> fs name \<noteq> None \<and> fs (name @ ''.mime'') \<noteq> None")
  case True
  have o: "bio_open io f" for f using assms by (simp add: io_good_def)
  show ?thesis
    using True valid_ending [of name] io_goodD(3) [OF assms]
    by (auto simp: load_entry_def loadable_def loaded_def blob_node_push_def load_refs_def load_rev_def
        o Let_def snprintf_cut_def split: option.splits)
next
  case False
  then show ?thesis
    using io_goodD(3) [OF assms] by (auto simp: load_entry_def loadable_def split: option.splits)
qed

lemma load_all:
  assumes "io_good io"
  shows "fold (load_entry io fs) names store =
    store\<lparr>bs_nodes := rev (map (loaded fs) (filter (loadable fs) names)) @ bs_nodes store\<rparr>"
  by (induction names arbitrary: store) (simp_all add: load_entry_good [OF assms])

lemma find_loaded:
  "find (\<lambda>n. bn_cid n = d) (map (loaded fs) xs) = (if d \<in> set xs then Some (loaded fs d) else None)"
  by (induction xs) (auto simp: loaded_def)

text \<open>What the side files of a blob on disk load to.\<close>

lemma loaded_fields:
  assumes "store_ok lib pass store fs" and "blob_node_find store cid = Some n"
  shows "loadable fs cid" "bn_mime (loaded fs cid) = bn_mime n" "bn_refs (loaded fs cid) = bn_refs n"
    "bn_rev (loaded fs cid) = bn_rev n" "bn_data (loaded fs cid) = None"
proof -
  obtain x d where c: "blob_cid_is_valid cid" "fs cid = Some x"
    "fs (cid @ ''.mime'') = Some (bn_mime n)" "c_str (bn_mime n) = bn_mime n"
    "fs (cid @ ''.refs'') = (if bn_refs n = [] then None else Some (refs_text (bn_refs n)))"
    "fs (cid @ ''.rev'') = Some (bn_rev n @ [newline])" "distinct (bn_refs n)"
    "list_all uri_ok (bn_refs n)" "bn_rev n \<noteq> ''''" "length (bn_rev n) < REV_SIZE" "plain_text (bn_rev n)"
    using on_diskD [OF assms] by metis
  show "loadable fs cid" "bn_mime (loaded fs cid) = bn_mime n" "bn_data (loaded fs cid) = None"
    using c by (simp_all add: loadable_def loaded_def)
  show "bn_refs (loaded fs cid) = bn_refs n"
    using c load_refs_text [of "[]" "bn_refs n"] by (simp add: loaded_def)
  show "bn_rev (loaded fs cid) = bn_rev n"
    using c load_rev_text [OF c(11,10)] by (simp add: loaded_def Let_def)
qed

lemma reopen_ok:
  assumes ok: "store_ok lib pass store fs" and io: "io_good io" and path: "path \<noteq> ''''"
    and names: "distinct entries" "set entries = {''.'', ''..''} \<union> dom fs"
  obtains store' where "open_session lib io pass path entries fs = (store', fs)"
    "store_ok lib pass store' fs" "blob_abs lib store' fs = blob_abs lib store fs"
proof -
  let ?xs = "rev (filter (loadable fs) entries)"
  let ?s = "\<lparr>bs_file_backed = True, bs_nodes = map (loaded fs) ?xs, bs_key = None,
             bs_encrypted = (fs SALT_NAME \<noteq> None)\<rparr>"
  have new: "metalbear_blob_store_new io path (Some entries) fs = ?s"
    using path by (simp add: metalbear_blob_store_new_def load_all [OF io] rev_map)
  define s1 where "s1 = ?s\<lparr>bs_key := bs_key store, bs_encrypted := (pass \<noteq> None)\<rparr>"
  have session: "open_session lib io pass path entries fs = (s1, fs)"
  proof (cases pass)
    case None
    then have "bs_key store = None" "fs SALT_NAME = None"
      using ok by (simp_all add: store_ok_def keyed_def)
    then show ?thesis using None new by (simp add: open_session_def s1_def)
  next
    case (Some pw)
    then obtain salt key where k: "pw \<noteq> ''''" "fs SALT_NAME = Some salt" "length salt = SALTBYTES"
        "sd_pwhash lib pw salt = Some key" "bs_key store = Some key"
      using ok by (auto simp: store_ok_def keyed_def)
    then show ?thesis
      using Some new io
      by (simp add: open_session_def s1_def metalbear_blob_store_set_crypto_passphrase_def
          store_read_or_create_salt_def io_good_def)
  qed
  have f: "blob_node_find s1 d = map_option (\<lambda>_. loaded fs d) (blob_node_find store d)" for d
  proof -
    have "blob_node_find s1 d = (if loadable fs d \<and> d \<in> set entries then Some (loaded fs d) else None)"
      by (simp add: blob_node_find_def s1_def find_loaded)
    also have "\<dots> = map_option (\<lambda>_. loaded fs d) (blob_node_find store d)"
    proof (cases "blob_node_find store d")
      case None
      then have "\<not> loadable fs d" using on_disk_None(1) [OF ok _ None] by (auto simp: loadable_def)
      then show ?thesis using None by simp
    next
      case (Some n)
      then have "loadable fs d" by (rule loaded_fields(1) [OF ok])
      then show ?thesis using Some names(2) by (auto simp: loadable_def)
    qed
    finally show ?thesis .
  qed
  have d: "decode lib s1 = decode lib store"
    by (simp add: fun_eq_iff decode_def blob_decrypt_payload_def s1_def)
  have "on_disk lib s1 fs cid" if "blob_cid_is_valid cid" for cid
  proof -
    have "on_disk lib store fs cid" using ok that by (simp add: store_ok_def)
    then show ?thesis
      using loaded_fields [OF ok, of cid] by (auto simp: on_disk_def f d split: option.splits)
  qed
  moreover have "keyed lib pass s1 fs"
    using ok by (auto simp: keyed_def store_ok_def s1_def split: option.splits)
  moreover have "map bn_cid (bs_nodes s1) = ?xs"
    by (induction ?xs) (simp_all add: s1_def loaded_def comp_def)
  moreover have "distinct ?xs" "list_all blob_cid_is_valid ?xs"
    using names(1) by (auto simp: list_all_iff loadable_def)
  ultimately have "store_ok lib pass s1 fs" by (simp add: store_ok_def s1_def)
  moreover have "blob_abs lib s1 fs = blob_abs lib store fs"
  proof
    fix cid
    show "blob_abs lib s1 fs cid = blob_abs lib store fs cid"
      using loaded_fields [OF ok, of cid]
      by (auto simp: blob_abs_def entry_at_def f d split: option.splits)
  qed
  ultimately show thesis using that session by blast
qed

lemma start_ok:
  assumes io: "io_good io" and lib: "sodium_ok lib" and path: "path \<noteq> ''''" and pass: "pass \<noteq> Some ''''"
    and s: "open_session lib io pass path [''.'', ''..''] Map.empty = (store, fs)"
  shows "store_ok lib pass store fs \<and> blob_abs lib store fs = Map.empty"
proof -
  let ?s = "\<lparr>bs_file_backed = True, bs_nodes = [], bs_key = None, bs_encrypted = False\<rparr>"
  have new: "metalbear_blob_store_new io path (Some [''.'', ''..'']) Map.empty = ?s"
    using path by (simp add: metalbear_blob_store_new_def load_entry_good [OF io] loadable_def)
  show ?thesis
  proof (cases pass)
    case None
    then have "store = ?s" "fs = Map.empty" using s new by (simp_all add: open_session_def)
    then show ?thesis
      using None by (simp add: store_ok_def keyed_def on_disk_def blob_node_find_def blob_abs_def entry_at_def
          fun_eq_iff)
  next
    case (Some pw)
    have salt: "length (bio_salt io) = SALTBYTES" using io by (simp add: io_good_def)
    have "sd_pwhash lib pw (bio_salt io) \<noteq> None" using lib unfolding sodium_ok_def by blast
    then obtain key where k: "sd_pwhash lib pw (bio_salt io) = Some key" by blast
    have "store = ?s\<lparr>bs_key := Some key, bs_encrypted := True\<rparr>" "fs = [SALT_NAME \<mapsto> bio_salt io]"
      using s new Some pass k
      by (simp_all add: open_session_def metalbear_blob_store_set_crypto_passphrase_def
          store_read_or_create_salt_def io_goodD(1) [OF io])
    then show ?thesis
      using Some salt pass k salt_name_neq
      by (simp add: store_ok_def keyed_def on_disk_def blob_node_find_def blob_abs_def entry_at_def fun_eq_iff)
  qed
qed

text \<open>
  Operations on a store, and what they answer. A store is driven by one session after another:
  \<open>Reopen\<close> frees it and opens it again on the files left, listed in any order.
\<close>

datatype blob_op =
    Put string string string string
  | Put_file string string string string
  | Get string
  | Delete string
  | Associate string string
  | Dissociate string string
  | Reopen

datatype blob_answer = Status wf_status | Blob "wf_status + string \<times> string" | Opened

inductive blob_step ::
  "sodium \<Rightarrow> string option \<Rightarrow> string \<Rightarrow> blob_op \<Rightarrow> blob_store \<times> files \<Rightarrow> blob_answer \<Rightarrow>
   blob_store \<times> files \<Rightarrow> bool" for lib pass path where
  put: "io_good io \<Longrightarrow> blob_tid_now io = tid \<Longrightarrow>
    metalbear_blob_store_put lib io store fs cid mime data = (st, s') \<Longrightarrow>
    blob_step lib pass path (Put cid mime data tid) (store, fs) (Status st) s'"
| put_file: "io_good io \<Longrightarrow> blob_tid_now io = tid \<Longrightarrow>
    metalbear_blob_store_put_file lib io store fs cid mime (Some data) True (length data) = (st, s') \<Longrightarrow>
    blob_step lib pass path (Put_file cid mime data tid) (store, fs) (Status st) s'"
| get: "io_good io \<Longrightarrow> metalbear_blob_store_get lib io store fs cid = (r, store') \<Longrightarrow>
    blob_step lib pass path (Get cid) (store, fs) (Blob r) (store', fs)"
| delete: "io_good io \<Longrightarrow> metalbear_blob_store_delete io store fs cid = (st, s') \<Longrightarrow>
    blob_step lib pass path (Delete cid) (store, fs) (Status st) s'"
| associate: "io_good io \<Longrightarrow> metalbear_blob_store_associate io store fs cid uri = (st, s') \<Longrightarrow>
    blob_step lib pass path (Associate cid uri) (store, fs) (Status st) s'"
| dissociate: "io_good io \<Longrightarrow> metalbear_blob_store_dissociate io store fs cid uri = (st, s') \<Longrightarrow>
    blob_step lib pass path (Dissociate cid uri) (store, fs) (Status st) s'"
| reopen: "io_good io \<Longrightarrow> distinct entries \<Longrightarrow> set entries = {''.'', ''..''} \<union> dom fs \<Longrightarrow>
    open_session lib io pass path entries fs = s' \<Longrightarrow>
    blob_step lib pass path Reopen (store, fs) Opened s'"

inductive_cases blob_stepE: "blob_step lib pass path op (store, fs) a s'"

fun op_ok :: "blob_op \<Rightarrow> bool" where
  "op_ok (Put cid mime data tid) \<longleftrightarrow> c_str mime = mime"
| "op_ok (Put_file cid mime data tid) \<longleftrightarrow> c_str mime = mime"
| "op_ok (Associate cid uri) \<longleftrightarrow> uri_ok uri"
| "op_ok (Dissociate cid uri) \<longleftrightarrow> uri_ok uri"
| "op_ok _ \<longleftrightarrow> True"

fun op_cid :: "blob_op \<Rightarrow> string option" where
  "op_cid (Put cid mime data tid) = Some cid"
| "op_cid (Put_file cid mime data tid) = Some cid"
| "op_cid (Get cid) = Some cid"
| "op_cid (Delete cid) = Some cid"
| "op_cid (Associate cid uri) = Some cid"
| "op_cid (Dissociate cid uri) = Some cid"
| "op_cid Reopen = None"

text \<open>The map kept in memory that a store refines.\<close>

fun spec_valid :: "blob_op \<Rightarrow> (string \<Rightarrow> blob_entry option) \<Rightarrow> blob_answer \<times> (string \<Rightarrow> blob_entry option)" where
  "spec_valid (Put cid mime data tid) m = (Status WF_OK, spec_put cid mime data tid m)"
| "spec_valid (Put_file cid mime data tid) m = (Status WF_OK, spec_put cid mime data tid m)"
| "spec_valid (Get cid) m =
     (Blob (case m cid of None \<Rightarrow> Inl WF_ERR_NOT_FOUND | Some e \<Rightarrow> Inr (be_data e, be_mime e)), m)"
| "spec_valid (Delete cid) m = (Status (if m cid = None then WF_ERR_NOT_FOUND else WF_OK), m(cid := None))"
| "spec_valid (Associate cid uri) m =
     (Status (if m cid = None then WF_ERR_NOT_FOUND else WF_OK), spec_associate cid uri m)"
| "spec_valid (Dissociate cid uri) m =
     (Status (if m cid = None then WF_ERR_NOT_FOUND else WF_OK), spec_dissociate cid uri m)"
| "spec_valid Reopen m = (Opened, m)"

definition spec_op ::
  "blob_op \<Rightarrow> (string \<Rightarrow> blob_entry option) \<Rightarrow> blob_answer \<times> (string \<Rightarrow> blob_entry option)" where
  "spec_op op m =
     (case op_cid op of
        Some cid \<Rightarrow>
          if \<not> blob_cid_is_valid cid
          then (case op of Get _ \<Rightarrow> Blob (Inl WF_ERR_INVALID_ARG) | _ \<Rightarrow> Status WF_ERR_INVALID_ARG, m)
          else spec_valid op m
      | None \<Rightarrow> spec_valid op m)"

fun spec_run ::
  "blob_op list \<Rightarrow> (string \<Rightarrow> blob_entry option) \<Rightarrow> blob_answer list \<times> (string \<Rightarrow> blob_entry option)" where
  "spec_run [] m = ([], m)"
| "spec_run (op # ops) m =
     (case spec_op op m of (a, m1) \<Rightarrow> (case spec_run ops m1 of (as, m2) \<Rightarrow> (a # as, m2)))"

inductive blob_run ::
  "sodium \<Rightarrow> string option \<Rightarrow> string \<Rightarrow> blob_op list \<Rightarrow> blob_store \<times> files \<Rightarrow> blob_answer list \<Rightarrow>
   blob_store \<times> files \<Rightarrow> bool" for lib pass path where
  run_nil: "blob_run lib pass path [] s [] s"
| run_cons: "blob_step lib pass path op s a s1 \<Longrightarrow> blob_run lib pass path ops s1 as s2 \<Longrightarrow>
    blob_run lib pass path (op # ops) s (a # as) s2"

lemma get_keeps:
  assumes "store_ok lib pass store fs"
  shows "store_ok lib pass (snd (metalbear_blob_store_get lib io store fs cid)) fs \<and>
    blob_abs lib (snd (metalbear_blob_store_get lib io store fs cid)) fs = blob_abs lib store fs"
proof -
  have "snd (metalbear_blob_store_get lib io store fs cid) = store \<or>
      (\<exists>n l. blob_node_find store cid = Some n \<and> snd (metalbear_blob_store_get lib io store fs cid) =
         store\<lparr>bs_nodes := update_node cid (\<lambda>n. n\<lparr>bn_len := l\<rparr>) (bs_nodes store)\<rparr>)"
    by (auto simp: metalbear_blob_store_get_def split: option.split sum.split)
  moreover have "store_ok lib pass (store\<lparr>bs_nodes := update_node cid (\<lambda>n. n\<lparr>bn_len := l\<rparr>) (bs_nodes store)\<rparr>) fs \<and>
      blob_abs lib (store\<lparr>bs_nodes := update_node cid (\<lambda>n. n\<lparr>bn_len := l\<rparr>) (bs_nodes store)\<rparr>) fs =
        blob_abs lib store fs" (is "store_ok lib pass ?s fs \<and> _") for l
  proof -
    have fi: "find (\<lambda>n. bn_cid n = d) (update_node cid (\<lambda>n. n\<lparr>bn_len := l\<rparr>) ns) =
        map_option (\<lambda>n. if d = cid then n\<lparr>bn_len := l\<rparr> else n) (find (\<lambda>n. bn_cid n = d) ns)" for d ns
      by (induction ns) (auto simp: option.map_ident)
    then have f: "blob_node_find ?s d =
        map_option (\<lambda>n. if d = cid then n\<lparr>bn_len := l\<rparr> else n) (blob_node_find store d)" for d
      by (simp add: blob_node_find_def)
    have d: "decode lib ?s = decode lib store"
      by (simp add: fun_eq_iff decode_def blob_decrypt_payload_def)
    have cids: "map bn_cid (update_node cid (\<lambda>n. n\<lparr>bn_len := l\<rparr>) ns) = map bn_cid ns" for ns
      by (induction ns) auto
    have "on_disk lib ?s fs c = on_disk lib store fs c" for c
      by (auto simp: on_disk_def f d split: option.split)
    moreover have "entry_at lib ?s fs c = entry_at lib store fs c" for c
      by (auto simp: entry_at_def f d split: option.split)
    ultimately show ?thesis
      using assms by (simp add: store_ok_def cids keyed_def blob_abs_def fun_eq_iff cong: option.case_cong)
  qed
  ultimately show ?thesis using assms by auto
qed

lemma step_refines:
  assumes "blob_step lib pass path op (store, fs) a (store', fs')"
    and ok: "store_ok lib pass store fs" and op: "op_ok op" and lib: "sodium_ok lib" and path: "path \<noteq> ''''"
  shows "store_ok lib pass store' fs' \<and> (a, blob_abs lib store' fs') = spec_op op (blob_abs lib store fs)"
  using assms(1)
proof (cases rule: blob_step.cases)
  case (put io tid cid mime data st)
  show ?thesis
  proof (cases "blob_cid_is_valid cid")
    case True
    obtain s1 f1 where r: "metalbear_blob_store_put lib io store fs cid mime data = (WF_OK, s1, f1)"
        "store_ok lib pass s1 f1" "blob_abs lib s1 f1 = spec_put cid mime data (blob_tid_now io) (blob_abs lib store fs)"
      by (rule put_ok [OF ok put(3) lib True, of mime data]) (use put(1) op in simp)
    then show ?thesis using put True by (simp add: spec_op_def)
  next
    case False
    then show ?thesis using put ok by (simp add: metalbear_blob_store_put_def spec_op_def)
  qed
next
  case (put_file io tid cid mime data st)
  show ?thesis
  proof (cases "blob_cid_is_valid cid")
    case True
    obtain s1 f1 where r: "metalbear_blob_store_put_file lib io store fs cid mime (Some data) True (length data) = (WF_OK, s1, f1)"
        "store_ok lib pass s1 f1" "blob_abs lib s1 f1 = spec_put cid mime data (blob_tid_now io) (blob_abs lib store fs)"
      by (rule put_file_ok [OF ok put_file(3) lib True, of mime data]) (use put_file(1) op in simp)
    then show ?thesis using put_file True by (simp add: spec_op_def)
  next
    case False
    then show ?thesis using put_file ok by (simp add: metalbear_blob_store_put_file_def spec_op_def)
  qed
next
  case (get io cid r)
  show ?thesis
  proof (cases "blob_cid_is_valid cid")
    case True
    have "r = (case blob_abs lib store fs cid of
        None \<Rightarrow> Inl WF_ERR_NOT_FOUND | Some e \<Rightarrow> Inr (be_data e, be_mime e))"
      using get_ok [OF ok get(4) True] get(5) by simp
    moreover have "store' = snd (metalbear_blob_store_get lib io store fs cid)" using get(5) by simp
    ultimately show ?thesis
      using get(1,2,3) True get_keeps [OF ok, of io cid] by (simp add: spec_op_def)
  next
    case False
    then show ?thesis using get ok by (simp add: metalbear_blob_store_get_def spec_op_def)
  qed
next
  case (delete io cid st)
  show ?thesis
  proof (cases "blob_cid_is_valid cid")
    case True
    obtain s1 f1 where r: "metalbear_blob_store_delete io store fs cid = (if blob_abs lib store fs cid = None then WF_ERR_NOT_FOUND else WF_OK, s1, f1)"
        "store_ok lib pass s1 f1" "blob_abs lib s1 f1 = (blob_abs lib store fs)(cid := None)"
      by (rule delete_ok [OF ok delete(3) True])
    then show ?thesis using delete True by (simp add: spec_op_def)
  next
    case False
    then show ?thesis using delete ok by (simp add: metalbear_blob_store_delete_def spec_op_def)
  qed
next
  case (associate io cid uri st)
  show ?thesis
  proof (cases "blob_cid_is_valid cid")
    case True
    obtain s1 f1 where r: "metalbear_blob_store_associate io store fs cid uri = (if blob_abs lib store fs cid = None then WF_ERR_NOT_FOUND else WF_OK, s1, f1)"
        "store_ok lib pass s1 f1" "blob_abs lib s1 f1 = spec_associate cid uri (blob_abs lib store fs)"
      by (rule associate_ok [OF ok associate(3) True, of uri]) (use associate(1) op in simp)
    then show ?thesis using associate True by (simp add: spec_op_def)
  next
    case False
    then show ?thesis using associate ok by (simp add: metalbear_blob_store_associate_def spec_op_def)
  qed
next
  case (dissociate io cid uri st)
  show ?thesis
  proof (cases "blob_cid_is_valid cid")
    case True
    obtain s1 f1 where r: "metalbear_blob_store_dissociate io store fs cid uri = (if blob_abs lib store fs cid = None then WF_ERR_NOT_FOUND else WF_OK, s1, f1)"
        "store_ok lib pass s1 f1" "blob_abs lib s1 f1 = spec_dissociate cid uri (blob_abs lib store fs)"
      by (rule dissociate_ok [OF ok dissociate(3) True, of uri]) (use dissociate(1) op in simp)
    then show ?thesis using dissociate True by (simp add: spec_op_def)
  next
    case False
    then show ?thesis using dissociate ok by (simp add: metalbear_blob_store_dissociate_def spec_op_def)
  qed
next
  case (reopen io entries)
  obtain store1 where "open_session lib io pass path entries fs = (store1, fs)"
      "store_ok lib pass store1 fs" "blob_abs lib store1 fs = blob_abs lib store fs"
    by (rule reopen_ok [OF ok reopen(3) path reopen(4,5)])
  then show ?thesis using reopen by (simp add: spec_op_def)
qed

lemma run_refines:
  assumes "blob_run lib pass path ops s as s'" and "sodium_ok lib" and "path \<noteq> ''''"
    and "store_ok lib pass (fst s) (snd s)" and "list_all op_ok ops"
  shows "store_ok lib pass (fst s') (snd s') \<and>
    (as, blob_abs lib (fst s') (snd s')) = spec_run ops (blob_abs lib (fst s) (snd s))"
  using assms(1,4,5)
proof (induction rule: blob_run.induct)
  case (run_cons op s a s1 ops as s2)
  then have "store_ok lib pass (fst s1) (snd s1) \<and>
      (a, blob_abs lib (fst s1) (snd s1)) = spec_op op (blob_abs lib (fst s) (snd s))"
    using step_refines [of lib pass path op "fst s" "snd s" a "fst s1" "snd s1"] assms(2,3) by simp
  then show ?case
    using run_cons by (simp add: spec_run.simps(2) split: prod.split) (metis fst_conv snd_conv)
qed simp

text \<open>C12. A store on disk, encrypted or not, is a map. It starts empty, its file operations do not
  fail, it is opened each time with the same passphrase or each time without, and the record URIs are
  of 1 to 2046 characters without NUL or line breaks. Then through any sequence of uploads, reads,
  deletions and associations, with the store closed and opened again at any point on whatever
  order the directory lists, every answer and the final content are those of a map kept in
  memory, in which a blob disappears exactly when its last record lets go of it.\<close>

theorem blob_store_refines_map:
  assumes "sodium_ok lib" and "path \<noteq> ''''" and "pass \<noteq> Some ''''" and "io_good io"
    and "list_all op_ok ops"
    and "blob_run lib pass path ops
           (open_session lib io pass path [''.'', ''..''] Map.empty) answers (store, fs)"
  shows "(answers, blob_abs lib store fs) = spec_run ops Map.empty"
proof -
  obtain s0 f0 where s: "open_session lib io pass path [''.'', ''..''] Map.empty = (s0, f0)"
    by fastforce
  then have "store_ok lib pass s0 f0 \<and> blob_abs lib s0 f0 = Map.empty"
    by (rule start_ok [OF assms(4,1,2,3)])
  then show ?thesis
    using run_refines [OF assms(6) assms(1,2)] assms(5) s by simp
qed

text \<open>A libsodium and a run of the calls for a concrete sequence.\<close>

definition demo_sodium :: sodium where
  "demo_sodium = \<lparr>sd_box = (\<lambda>key nonce plain. Some (replicate 16 CHR ''m'' @ plain)),
     sd_open = (\<lambda>key nonce ct. Some (drop 16 ct)), sd_pwhash = (\<lambda>pw salt. Some (pw @ salt))\<rparr>"

definition demo_io :: blob_io where
  "demo_io = \<lparr>bio_write = (\<lambda>_. Written), bio_open = (\<lambda>_. True), bio_read = (\<lambda>_. True),
     bio_rename = (\<lambda>_. True), bio_tid = Some ''3kabc'', bio_salt = replicate 16 CHR ''s'',
     bio_nonce = replicate 24 CHR ''n''\<rparr>"

lemma demo_good: "io_good demo_io" "blob_tid_now demo_io = ''3kabc''" "sodium_ok demo_sodium"
proof -
  have "plain_text ''3kabc''" by code_simp
  then show "io_good demo_io"
    by (simp add: io_good_def demo_io_def NONCEBYTES_def SALTBYTES_def REV_SIZE_def)
  show "blob_tid_now demo_io = ''3kabc''" by (simp add: demo_io_def blob_tid_now_def)
  show "sodium_ok demo_sodium" by (simp add: sodium_ok_def demo_sodium_def MACBYTES_def)
qed

theorem blob_store_refines_map_witness:
  "\<exists>answers store fs.
     blob_run demo_sodium (Some ''pw'') ''/b''
       [Put ''a'' ''text'' ''xyz'' ''3kabc'', Associate ''a'' ''at://r'', Get ''a'',
        Dissociate ''a'' ''at://r'', Get ''a'']
       (open_session demo_sodium demo_io (Some ''pw'') ''/b'' [''.'', ''..''] Map.empty)
       answers (store, fs) \<and>
     answers = [Status WF_OK, Status WF_OK, Blob (Inr (''xyz'', ''text'')), Status WF_OK,
                Blob (Inl WF_ERR_NOT_FOUND)]"
proof -
  let ?ops = "[Put ''a'' ''text'' ''xyz'' ''3kabc'', Associate ''a'' ''at://r'', Get ''a'',
      Dissociate ''a'' ''at://r'', Get ''a'']"
  let ?s = "open_session demo_sodium demo_io (Some ''pw'') ''/b'' [''.'', ''..''] Map.empty"
  have step: "\<exists>a s'. blob_step demo_sodium (Some ''pw'') ''/b'' op s a s'" if "op \<in> set ?ops" for op s
  proof -
    obtain store fs where s: "s = (store, fs)" by fastforce
    note put = blob_step.put [OF demo_good(1,2) prod.collapse [symmetric]]
      and associate = blob_step.associate [OF demo_good(1) prod.collapse [symmetric]]
      and get = blob_step.get [OF demo_good(1) prod.collapse [symmetric]]
      and dissociate = blob_step.dissociate [OF demo_good(1) prod.collapse [symmetric]]
    note mem = that
    consider "op = Put ''a'' ''text'' ''xyz'' ''3kabc''" | "op = Associate ''a'' ''at://r''"
      | "op = Get ''a''" | "op = Dissociate ''a'' ''at://r''"
      using mem by auto
    then show ?thesis
      unfolding s
      by cases (simp only:; rule exI, rule exI, rule put associate get dissociate)+
  qed
  have run: "\<exists>as s'. blob_run demo_sodium (Some ''pw'') ''/b'' ops s as s'" if "set ops \<subseteq> set ?ops" for ops s
    using that
  proof (induction ops arbitrary: s)
    case Nil
    then show ?case by (blast intro: run_nil)
  next
    case (Cons op ops)
    then have "op \<in> set ?ops" "set ops \<subseteq> set ?ops" by auto
    then obtain a s1 where a: "blob_step demo_sodium (Some ''pw'') ''/b'' op s a s1"
      using step by blast
    obtain as s2 where "blob_run demo_sodium (Some ''pw'') ''/b'' ops s1 as s2"
      using Cons.IH \<open>set ops \<subseteq> set ?ops\<close> by blast
    then show ?case using a by (blast intro: run_cons)
  qed
  obtain answers store fs where r: "blob_run demo_sodium (Some ''pw'') ''/b'' ?ops ?s answers (store, fs)"
    using run [of ?ops ?s] by auto
  have ok: "list_all op_ok ?ops" by code_simp
  have "(answers, blob_abs demo_sodium store fs) = spec_run ?ops Map.empty"
    by (rule blob_store_refines_map [OF demo_good(3) _ _ demo_good(1) ok r]) simp_all
  moreover have "blob_cid_is_valid ''a''" by code_simp
  ultimately have "answers = [Status WF_OK, Status WF_OK, Blob (Inr (''xyz'', ''text'')), Status WF_OK,
      Blob (Inl WF_ERR_NOT_FOUND)]"
    by (simp add: spec_op_def spec_put_def spec_associate_def spec_dissociate_def)
  then show ?thesis using r by blast
qed

section \<open>When calls fail\<close>

text \<open>An operation on a blob touches the files named after it and nothing else.\<close>

definition touches :: "string \<Rightarrow> files \<Rightarrow> files \<Rightarrow> bool" where
  "touches cid fs fs' \<longleftrightarrow> (\<forall>name. fs' name = fs name \<or> name = cid \<or> (\<exists>x. name = cid @ CHR ''.'' # x))"

named_theorems touching \<comment> \<open>the file operations on the names of one blob\<close>

lemma touches_refl [touching]: "touches cid fs fs"
  by (simp add: touches_def)

lemma touches_trans: "touches cid fs fs1 \<Longrightarrow> touches cid fs1 fs2 \<Longrightarrow> touches cid fs fs2"
  unfolding touches_def by metis

definition own_name :: "string \<Rightarrow> string \<Rightarrow> bool" where
  "own_name cid name \<longleftrightarrow> name = cid \<or> (\<exists>x. name = cid @ CHR ''.'' # x)"

lemma own_names [touching]: "own_name cid cid" "own_name cid (cid @ CHR ''.'' # x)"
  by (auto simp: own_name_def)

lemma touches_upd: "own_name cid name \<Longrightarrow> touches cid fs f \<Longrightarrow> touches cid fs (f(name := v))"
  by (auto simp: touches_def own_name_def)

lemma touches_write:
  "own_name cid name \<Longrightarrow> touches cid fs f \<Longrightarrow> touches cid fs (snd (write_file io f name data))"
  by (auto simp: write_file_def touches_upd split: write_end.split)

lemma touches_blob_write:
  "own_name cid name \<Longrightarrow> touches cid fs f \<Longrightarrow> touches cid fs (snd (blob_write_file io f name data))"
  using touches_write [of cid name fs f io data]
  by (auto simp: blob_write_file_def split: prod.split)

lemma touches_remove: "own_name cid name \<Longrightarrow> touches cid fs f \<Longrightarrow> touches cid fs (remove_file f name)"
  by (simp add: remove_file_def touches_upd)

lemma touches_rename:
  "own_name cid a \<Longrightarrow> own_name cid b \<Longrightarrow> touches cid fs f \<Longrightarrow> touches cid fs (snd (rename_file io f a b))"
  by (simp add: rename_file_def touches_upd split: option.split)

lemma touches_eqs:
  "blob_write_file io f name data = (st, f') \<Longrightarrow> own_name cid name \<Longrightarrow> touches cid fs f \<Longrightarrow> touches cid fs f'"
  "rename_file io f a b = (ok, f') \<Longrightarrow> own_name cid a \<Longrightarrow> own_name cid b \<Longrightarrow> touches cid fs f \<Longrightarrow>
   touches cid fs f'"
  using touches_blob_write [of cid name fs f io data] touches_rename [of cid a b fs f io] by simp_all

lemmas touching_ops = touches_upd touches_write touches_blob_write touches_remove touches_rename

lemma touches_clear: "touches cid fs (clear_tmp fs cid)"
  by (simp add: clear_tmp_def touching touching_ops)

lemma touches_publish:
  "touches cid fs (snd w) \<Longrightarrow> touches cid fs (snd (publish_backing_files io cid mime w))"
  unfolding publish_backing_files_def Let_def
  by (auto split: prod.splits if_splits simp: touching
      intro!: touches_remove elim!: touches_eqs dest: touches_eqs)

lemma touches_payload:
  "touches cid fs f \<Longrightarrow> touches cid fs (snd (if b then blob_write_payload_encrypted lib io store f data (cid @ ''.tmp'')
      else blob_write_file io f (cid @ ''.tmp'') data))"
  by (auto simp: blob_write_payload_encrypted_def touching touching_ops split: sum.split)

lemma touches_backing: "touches cid fs (snd (blob_write_backing_files lib io store fs cid mime data))"
  unfolding blob_write_backing_files_def Let_def
  by (rule touches_publish, rule touches_payload, rule touches_clear)

lemma touches_persist:
  "bn_cid n = cid \<Longrightarrow> touches cid fs f \<Longrightarrow> touches cid fs (persist_refs io store f n)"
  "bn_cid n = cid \<Longrightarrow> touches cid fs f \<Longrightarrow> touches cid fs (persist_rev io store f n)"
  "bn_cid n = cid \<Longrightarrow> touches cid fs f \<Longrightarrow> touches cid fs (stamp_file io store f n)"
  by (auto simp: persist_refs_def persist_rev_def stamp_file_def stamp_rev_def touching touching_ops)

lemma touches_same:
  assumes "touches cid fs fs'" and "blob_cid_is_valid cid" and "blob_cid_is_valid d" and "d \<noteq> cid"
  shows "same_disk fs fs' d"
  using assms(1,4) side_name_neq [OF assms(2)] side_name_neq [OF assms(3)]
    side_name_eq [OF assms(2,3)] side_name_eq [OF assms(3,2)]
  unfolding touches_def same_disk_def by (metis append_Cons append_Nil)

definition keeps_others :: "string \<Rightarrow> blob_store \<Rightarrow> files \<Rightarrow> wf_status \<times> blob_store \<times> files \<Rightarrow> bool" where
  "keeps_others cid store fs result \<longleftrightarrow>
     (case result of (st, store', fs') \<Rightarrow>
        touches cid fs fs' \<and> bs_key store' = bs_key store \<and>
        (\<forall>d. d \<noteq> cid \<longrightarrow> blob_node_find store' d = blob_node_find store d))"

lemma keeps_entry:
  assumes "keeps_others cid store fs (st, store', fs')"
    and "blob_cid_is_valid cid" and "blob_cid_is_valid d" and "d \<noteq> cid"
  shows "entry_at lib store' fs' d = entry_at lib store fs d"
proof -
  have "decode lib store' = decode lib store"
    using assms(1) by (simp add: fun_eq_iff decode_def blob_decrypt_payload_def keeps_others_def)
  then show ?thesis
    using assms(1,4) touches_same [OF _ assms(2-4), of fs fs']
    by (simp add: keeps_others_def entry_at_def same_disk_def split: option.split)
qed

lemma find_update_other:
  "blob_node_find store cid = Some n \<Longrightarrow> bn_cid n' = cid \<Longrightarrow> d \<noteq> cid \<Longrightarrow>
   blob_node_find (store\<lparr>bs_nodes := update_node cid (\<lambda>_. n') (bs_nodes store)\<rparr>) d = blob_node_find store d"
  using find_update by simp

lemma stamp_cid [simp]: "bn_cid (stamp_rev io n) = bn_cid n"
  by (simp add: stamp_rev_def)

lemma keeps_indexed:
  assumes "touches cid fs fs1"
    and "blob_node_find store cid = Some n" and "bn_cid n1 = cid"
    and "touches cid fs fs1 \<Longrightarrow> touches cid fs fs2"
  shows "keeps_others cid store fs
    (st, store\<lparr>bs_nodes := update_node cid (\<lambda>_. stamp_rev io n1) (bs_nodes store)\<rparr>, fs2)"
  using assms find_update_other [OF assms(2)] by (simp add: keeps_others_def)

lemma keeps_pushed:
  "touches cid fs fs1 \<Longrightarrow>
   keeps_others cid store fs
     (st, blob_node_push store cid mime data len r,
      persist_rev io (blob_node_push store cid mime data len r) fs1
        (hd (bs_nodes (blob_node_push store cid mime data len r))))"
  using touches_persist(2) [of "hd (bs_nodes (blob_node_push store cid mime data len r))" cid fs fs1 io]
  by (simp add: keeps_others_def find_push) (simp add: blob_node_push_def)

lemma put_keeps: "keeps_others cid store fs (metalbear_blob_store_put lib io store fs cid mime data)"
proof -
  obtain st f where w: "(if bs_file_backed store then blob_write_backing_files lib io store fs cid mime data
      else (WF_OK, fs)) = (st, f)" by fastforce
  then have t: "touches cid fs f"
    using touches_backing [of cid fs lib io store mime data] by (auto simp: touching split: if_splits)
  show ?thesis
  proof (cases "blob_node_find store cid")
    case None
    then show ?thesis
      using w t keeps_pushed [OF t]
      by (simp add: metalbear_blob_store_put_def keeps_others_def touching Let_def)
  next
    case (Some n)
    have c: "bn_cid n = cid" using blob_find_SomeD [OF Some] by simp
    show ?thesis
      using w t Some c keeps_indexed [OF t Some, of "n\<lparr>bn_mime := mime, bn_data := d, bn_len := l\<rparr>" for d l]
        touches_persist(3) [of "n\<lparr>bn_mime := mime, bn_data := d, bn_len := l\<rparr>" cid fs f io store for d l]
      by (auto simp: metalbear_blob_store_put_def keeps_others_def touching Let_def)
  qed
qed

lemma touches_copy:
  "touches cid fs f \<Longrightarrow> own_name cid dest \<Longrightarrow> touches cid fs (snd (blob_copy_file io f source ok dest n))"
  by (auto simp: blob_copy_file_def touches_upd split: option.split prod.split)

lemma put_file_keeps:
  "keeps_others cid store fs (metalbear_blob_store_put_file lib io store fs cid mime source ok n)"
proof (cases "bs_file_backed store")
  case False
  then show ?thesis
    using put_keeps by (simp add: metalbear_blob_store_put_file_def keeps_others_def touching split: option.split)
next
  case True
  let ?w = "if bs_key store \<noteq> None
      then (case source of None \<Rightarrow> (WF_ERR_NOT_FOUND, clear_tmp fs cid)
            | Some plain \<Rightarrow>
                if \<not> ok then (WF_ERR_INTERNAL, clear_tmp fs cid)
                else if length plain \<noteq> n then (WF_ERR_INVALID_ARG, clear_tmp fs cid)
                else blob_write_payload_encrypted lib io store (clear_tmp fs cid) plain (cid @ ''.tmp''))
      else blob_copy_file io (clear_tmp fs cid) source ok (cid @ ''.tmp'') n"
  have "touches cid fs (snd ?w)"
    using touches_clear [of cid fs] touches_copy [OF touches_clear own_names(2)]
      touches_payload [OF touches_clear, of cid fs True lib io store]
    by (auto split: option.split)
  then have t: "touches cid fs (snd (publish_backing_files io cid mime ?w))"
    by (rule touches_publish)
  obtain st f where p: "publish_backing_files io cid mime ?w = (st, f)" by fastforce
  then have t: "touches cid fs f" using t by simp
  show ?thesis
  proof (cases "blob_node_find store cid")
    case None
    then show ?thesis
      using p t True keeps_pushed [OF t]
      by (simp add: metalbear_blob_store_put_file_def keeps_others_def touching Let_def)
  next
    case (Some m)
    have c: "bn_cid m = cid" using blob_find_SomeD [OF Some] by simp
    show ?thesis
      using p t True Some c keeps_indexed [OF t Some, of "m\<lparr>bn_mime := mime, bn_len := n\<rparr>"]
        touches_persist(3) [of "m\<lparr>bn_mime := mime, bn_len := n\<rparr>" cid fs f io store]
      by (auto simp: metalbear_blob_store_put_file_def keeps_others_def touching Let_def)
  qed
qed

lemma find_unlink_other:
  "d \<noteq> cid \<Longrightarrow> blob_node_find (store\<lparr>bs_nodes := unlink_node cid (bs_nodes store)\<rparr>) d = blob_node_find store d"
proof -
  assume "d \<noteq> cid"
  then have "find (\<lambda>n. bn_cid n = d) (unlink_node cid ns) = find (\<lambda>n. bn_cid n = d) ns" for ns
    by (induction ns) auto
  then show ?thesis by (simp add: blob_node_find_def)
qed

lemma delete_locked_keeps:
  assumes "touches cid fs f" and "bs_key store1 = bs_key store"
    and "\<And>d. d \<noteq> cid \<Longrightarrow> blob_node_find store1 d = blob_node_find store d"
  shows "keeps_others cid store fs (blob_store_delete_locked io store1 f cid)"
proof -
  let ?f0 = "remove_file (remove_file f (cid @ ''.delete'')) (cid @ ''.mime.delete'')"
  have t0: "touches cid fs ?f0" using assms(1) by (simp add: touching touching_ops)
  obtain ok1 f1 where r1: "rename_file io ?f0 cid (cid @ ''.delete'') = (ok1, f1)" by fastforce
  then have t1: "touches cid fs f1" using touches_eqs(2) [OF r1] t0 by (simp add: touching)
  obtain ok2 f2 where r2: "rename_file io f1 (cid @ ''.mime'') (cid @ ''.mime.delete'') = (ok2, f2)"
    by fastforce
  then have t2: "touches cid fs f2" using touches_eqs(2) [OF r2] t1 by (simp add: touching)
  have t3: "touches cid fs (snd (rename_file io f2 (cid @ ''.delete'') cid))"
    using t2 by (simp add: touching touching_ops)
  show ?thesis
    using assms r1 r2 t0 t1 t2 t3 find_unlink_other [of _ cid store1]
    by (simp add: blob_store_delete_locked_def keeps_others_def Let_def touching touching_ops)
qed

lemma associate_keeps: "keeps_others cid store fs (metalbear_blob_store_associate io store fs cid uri)"
proof (cases "blob_node_find store cid")
  case (Some n)
  have c: "bn_cid n = cid" using blob_find_SomeD [OF Some] by simp
  define n2 where "n2 = (if refs_index_of (bn_refs (stamp_rev io n)) uri \<noteq> length (bn_refs (stamp_rev io n))
      then stamp_rev io n else refs_append (stamp_rev io n) uri)"
  have c2: "bn_cid n2 = cid" using c by (simp add: n2_def refs_append_def)
  have "touches cid fs (persist_refs io s (stamp_file io store fs n) n2)" for s
    by (rule touches_persist(1) [OF c2 touches_persist(3) [OF c touches_refl]])
  then show ?thesis
    using Some find_update_other [OF Some c2]
    by (simp add: metalbear_blob_store_associate_def keeps_others_def touching Let_def n2_def [symmetric])
qed (simp add: metalbear_blob_store_associate_def keeps_others_def touching)

lemma dissociate_keeps: "keeps_others cid store fs (metalbear_blob_store_dissociate io store fs cid uri)"
proof (cases "blob_node_find store cid")
  case (Some n)
  have c: "bn_cid n = cid" using blob_find_SomeD [OF Some] by simp
  define n1 where "n1 = refs_remove_at n (refs_index_of (bn_refs n) uri)"
  have c1: "bn_cid n1 = cid" using c by (simp add: n1_def refs_remove_at_def)
  note f = find_update_other [OF Some c1]
  have "keeps_others cid store fs
      (blob_store_delete_locked io (store\<lparr>bs_nodes := update_node cid (\<lambda>_. n1) (bs_nodes store)\<rparr>) fs cid)"
    using f by (intro delete_locked_keeps) (simp_all add: touching)
  then show ?thesis
    using Some f touches_persist(1) [OF c1 touches_refl, of fs io]
    by (simp add: metalbear_blob_store_dissociate_def Let_def n1_def [symmetric])
      (simp add: keeps_others_def touching)
qed (simp add: metalbear_blob_store_dissociate_def keeps_others_def touching)

text \<open>A success is a payload on disk, whatever else failed.\<close>

lemma publish_ok:
  assumes "publish_backing_files io cid mime w = (WF_OK, fs')" and "blob_cid_is_valid cid"
  shows "fst w = WF_OK \<and> fs' cid = snd w (cid @ ''.tmp'') \<and> fs' cid \<noteq> None"
  using assms(1) side_name_neq [OF assms(2)] side_name_eq [OF assms(2,2)]
  by (auto simp: publish_backing_files_def Let_def blob_write_file_def write_file_def rename_file_def
      split: prod.splits if_splits option.splits write_end.splits)

lemma payload_ok:
  assumes "sodium_ok lib" and "length (bio_nonce io) = NONCEBYTES"
    and "(if bs_key store \<noteq> None then blob_write_payload_encrypted lib io store f data name
          else blob_write_file io f name data) = (WF_OK, f')"
  shows "Option.bind (f' name) (decode lib store) = Some data"
proof (cases "bs_key store")
  case None
  then show ?thesis
    using assms(3) by (auto simp: blob_write_file_def write_file_def decode_def split: write_end.splits)
next
  case (Some key)
  obtain ct where "sd_box lib key (bio_nonce io) data = Some ct"
      "length ct = length data + MACBYTES" "sd_open lib key (bio_nonce io) ct = Some data"
    using assms(1,2) by (fastforce simp: sodium_ok_def split: option.splits)
  then show ?thesis
    using assms(2,3) Some
    by (auto simp: blob_write_payload_encrypted_def blob_encrypt_payload_def blob_write_file_def
        write_file_def decode_def blob_decrypt_payload_def split: write_end.splits)
qed

lemma stamp_keeps_data:
  assumes "blob_cid_is_valid cid" and "bn_cid n = cid"
  shows "stamp_file io store f n cid = f cid" "persist_rev io store f n cid = f cid"
  using assms(2) side_name_neq [OF assms(1)]
  by (auto simp: stamp_file_def persist_rev_def stamp_rev_def write_file_def split: write_end.split)

text \<open>The written part of an upload from a file.\<close>

definition file_written ::
  "sodium \<Rightarrow> blob_io \<Rightarrow> blob_store \<Rightarrow> files \<Rightarrow> string \<Rightarrow> string \<Rightarrow> bool \<Rightarrow> nat \<Rightarrow> wf_status \<times> files" where
  "file_written lib io store fs cid data source_ok n =
     (if bs_key store \<noteq> None
      then (if \<not> source_ok then (WF_ERR_INTERNAL, fs)
            else if length data \<noteq> n then (WF_ERR_INVALID_ARG, fs)
            else blob_write_payload_encrypted lib io store fs data (cid @ ''.tmp''))
      else blob_copy_file io fs (Some data) source_ok (cid @ ''.tmp'') n)"

lemma pair_fst: "fst w = a \<Longrightarrow> w = (a, snd w)"
  by (cases w) simp

lemma pushed_cid: "bn_cid (hd (bs_nodes (blob_node_push store cid mime data len r))) = cid"
  by (simp add: blob_node_push_def)

lemma put_stored:
  assumes v: "blob_cid_is_valid cid" and lib: "sodium_ok lib" "length (bio_nonce io) = NONCEBYTES"
    and put: "metalbear_blob_store_put lib io store fs cid mime data = (WF_OK, store', fs')"
    and fb: "bs_file_backed store"
  shows "Option.bind (fs' cid) (decode lib store) = Some data"
proof -
  obtain st f where w: "blob_write_backing_files lib io store fs cid mime data = (st, f)"
    by fastforce
  have "st = WF_OK \<and> fs' cid = f cid"
  proof (cases "blob_node_find store cid")
    case None
    then have "st = WF_OK" "fs' = persist_rev io store' f (hd (bs_nodes store'))"
        "store' = blob_node_push store cid mime None (length data) (blob_tid_now io)"
      using put fb v w by (auto simp: metalbear_blob_store_put_def Let_def split: if_splits)
    then show ?thesis using stamp_keeps_data(2) [OF v] pushed_cid by simp
  next
    case (Some n)
    then have c: "bn_cid n = cid" using blob_find_SomeD by blast
    have "st = WF_OK" "fs' = stamp_file io store f (n\<lparr>bn_mime := mime, bn_data := None, bn_len := length data\<rparr>)"
      using put fb v w Some by (auto simp: metalbear_blob_store_put_def Let_def split: if_splits)
    then show ?thesis using stamp_keeps_data(1) [OF v] c by simp
  qed
  then have f: "blob_write_backing_files lib io store fs cid mime data = (WF_OK, f)" "fs' cid = f cid"
    using w by auto
  let ?w = "if bs_key store \<noteq> None
      then blob_write_payload_encrypted lib io store (clear_tmp fs cid) data (cid @ ''.tmp'')
      else blob_write_file io (clear_tmp fs cid) (cid @ ''.tmp'') data"
  note p = publish_ok [OF f(1) [unfolded blob_write_backing_files_def Let_def] v]
  then have "?w = (WF_OK, snd ?w)" by (intro pair_fst) (rule conjunct1)
  from payload_ok [OF lib this] show ?thesis using p f(2) by simp
qed

lemma put_file_stored:
  assumes v: "blob_cid_is_valid cid" and lib: "sodium_ok lib" "length (bio_nonce io) = NONCEBYTES"
    and put: "metalbear_blob_store_put_file lib io store fs cid mime (Some data) source_ok n = (WF_OK, store', fs')"
    and fb: "bs_file_backed store"
  shows "length data = n \<and> Option.bind (fs' cid) (decode lib store) = Some data"
proof -
  let ?w = "file_written lib io store (clear_tmp fs cid) cid data source_ok n"
  obtain st f where w: "publish_backing_files io cid mime ?w = (st, f)" by fastforce
  have "st = WF_OK \<and> fs' cid = f cid"
  proof (cases "blob_node_find store cid")
    case None
    then have "st = WF_OK" "fs' = persist_rev io store' f (hd (bs_nodes store'))"
        "store' = blob_node_push store cid mime None n (blob_tid_now io)"
      using put fb v w unfolding file_written_def
      by (auto simp: metalbear_blob_store_put_file_def Let_def split: if_splits)
    then show ?thesis using stamp_keeps_data(2) [OF v] pushed_cid by simp
  next
    case (Some m)
    then have c: "bn_cid m = cid" using blob_find_SomeD by blast
    have "st = WF_OK" "fs' = stamp_file io store f (m\<lparr>bn_mime := mime, bn_len := n\<rparr>)"
      using put fb v w Some unfolding file_written_def
      by (auto simp: metalbear_blob_store_put_file_def Let_def split: if_splits)
    then show ?thesis using stamp_keeps_data(1) [OF v] c by simp
  qed
  then have f: "publish_backing_files io cid mime ?w = (WF_OK, f)" "fs' cid = f cid" using w by auto
  note p = publish_ok [OF f(1) v]
  then have wok: "?w = (WF_OK, snd ?w)" by (intro pair_fst) (rule conjunct1)
  have "length data = n \<and> Option.bind (snd ?w (cid @ ''.tmp'')) (decode lib store) = Some data"
  proof (cases "bs_key store")
    case None
    then have "blob_copy_file io (clear_tmp fs cid) (Some data) source_ok (cid @ ''.tmp'') n = (WF_OK, snd ?w)"
      using wok by (simp add: file_written_def)
    from blob_copy_file_ok [OF this] None show ?thesis by (auto simp: decode_def)
  next
    case (Some key)
    then have ok: "source_ok" "length data = n" using p by (auto simp: file_written_def split: if_splits)
    then have "(if bs_key store \<noteq> None
        then blob_write_payload_encrypted lib io store (clear_tmp fs cid) data (cid @ ''.tmp'')
        else blob_write_file io (clear_tmp fs cid) (cid @ ''.tmp'') data) = (WF_OK, snd ?w)"
      using wok Some by (simp add: file_written_def)
    from payload_ok [OF lib this] ok show ?thesis by blast
  qed
  then show ?thesis using p f(2) by simp
qed

text \<open>Whatever call fails - a write left half done, a renaming refused, a clock without an
  answer - an operation on one blob leaves every other blob readable as it was, and an upload to
  a directory that reports success can be read back whole.\<close>

theorem blob_failures_isolated:
  assumes "blob_cid_is_valid cid" and "blob_cid_is_valid d" and "d \<noteq> cid"
    and "result \<in> {metalbear_blob_store_put lib io store fs cid mime data,
                   metalbear_blob_store_put_file lib io store fs cid mime (Some data) source_ok n,
                   metalbear_blob_store_delete io store fs cid,
                   metalbear_blob_store_associate io store fs cid uri,
                   metalbear_blob_store_dissociate io store fs cid uri}"
    and "result = (st, store', fs')"
    and "sodium_ok lib" and "length (bio_nonce io) = NONCEBYTES" and "bs_file_backed store"
  shows "entry_at lib store' fs' d = entry_at lib store fs d \<and>
    ((WF_OK, store', fs') \<in> {metalbear_blob_store_put lib io store fs cid mime data,
         metalbear_blob_store_put_file lib io store fs cid mime (Some data) source_ok n} \<longrightarrow>
       Option.bind (fs' cid) (decode lib store) = Some data)"
proof
  have "keeps_others cid store fs (metalbear_blob_store_delete io store fs cid)"
    using delete_locked_keeps [of cid fs fs store store] assms(1)
    by (simp add: metalbear_blob_store_delete_def keeps_others_def touching)
  then have "keeps_others cid store fs result"
    using assms(4) put_keeps put_file_keeps associate_keeps dissociate_keeps by auto
  then show "entry_at lib store' fs' d = entry_at lib store fs d"
    unfolding assms(5) by (rule keeps_entry [OF _ assms(1,2,3)])
qed (use put_stored [OF assms(1,6,7) _ assms(8)] put_file_stored [OF assms(1,6,7) _ assms(8)] in
     \<open>metis insertE singletonD\<close>)

theorem blob_failures_isolated_witness:
  "entry_at demo_sodium
     (fst (snd (metalbear_blob_store_put demo_sodium (demo_io\<lparr>bio_rename := (\<lambda>_. False)\<rparr>)
        \<lparr>bs_file_backed = True, bs_nodes = [], bs_key = None, bs_encrypted = False\<rparr> Map.empty ''a'' ''t'' ''x'')))
     (snd (snd (metalbear_blob_store_put demo_sodium (demo_io\<lparr>bio_rename := (\<lambda>_. False)\<rparr>)
        \<lparr>bs_file_backed = True, bs_nodes = [], bs_key = None, bs_encrypted = False\<rparr> Map.empty ''a'' ''t'' ''x'')))
     ''b'' = None"
proof -
  let ?io = "demo_io\<lparr>bio_rename := (\<lambda>_. False)\<rparr>"
  let ?s = "\<lparr>bs_file_backed = True, bs_nodes = [], bs_key = None, bs_encrypted = False\<rparr>"
  let ?r = "metalbear_blob_store_put demo_sodium ?io ?s Map.empty ''a'' ''t'' ''x''"
  have v: "blob_cid_is_valid ''a''" "blob_cid_is_valid ''b''" by code_simp+
  have "length (bio_nonce ?io) = NONCEBYTES" by (simp add: demo_io_def NONCEBYTES_def)
  then have "entry_at demo_sodium (fst (snd ?r)) (snd (snd ?r)) ''b'' = entry_at demo_sodium ?s Map.empty ''b''"
    using blob_failures_isolated [OF v, of ?r demo_sodium ?io ?s Map.empty "''t''" "''x''" _ _ "''u''"
        "fst ?r" "fst (snd ?r)" "snd (snd ?r)"] demo_good(3) by simp
  then show ?thesis by (simp add: entry_at_def blob_node_find_def)
qed

section \<open>Listings\<close>

lemma text_less_irrefl [simp]: "\<not> text_less a a"
  by (induction a) auto

lemma text_less_trans: "text_less a b \<Longrightarrow> text_less b c \<Longrightarrow> text_less a c"
proof (induction a b arbitrary: c rule: text_less.induct)
  case (2 b bs)
  then show ?case by (cases c) auto
next
  case (4 a as b bs)
  then show ?case by (cases c) auto
qed auto

lemma text_less_total: "a \<noteq> b \<Longrightarrow> text_less a b \<or> text_less b a"
proof (induction a b rule: text_less.induct)
  case (4 a as b bs)
  then show ?case by (cases "a = b") (auto simp: linorder_neq_iff [symmetric])
qed auto

lemma sorted_text_unique:
  "sorted_wrt text_less xs \<Longrightarrow> sorted_wrt text_less ys \<Longrightarrow> set xs = set ys \<Longrightarrow> xs = ys"
proof (induction xs arbitrary: ys)
  case (Cons x xs)
  then obtain y ys' where ys: "ys = y # ys'" by (cases ys) auto
  have "x = y"
  proof (rule ccontr)
    assume "x \<noteq> y"
    then have "x \<in> set ys'" "y \<in> set xs" using Cons.prems(3) ys by auto
    then have "text_less x y" "text_less y x" using Cons.prems(1,2) ys by auto
    then show False using text_less_trans text_less_irrefl by blast
  qed
  moreover have "x \<notin> set xs" "y \<notin> set ys'" using Cons.prems(1,2) ys by auto
  ultimately have "set xs = set ys'" using Cons.prems(3) ys by auto
  then show ?case using Cons ys \<open>x = y\<close> by simp
qed simp

lemma insert_cid_set: "set (insert_cid c ds) = insert c (set ds)"
  by (induction ds) auto

lemma insert_cid_sorted:
  "sorted_wrt text_less ds \<Longrightarrow> c \<notin> set ds \<Longrightarrow> sorted_wrt text_less (insert_cid c ds)"
proof (induction ds)
  case (Cons d ds)
  then show ?case
    using text_less_total [of c d] by (auto simp: insert_cid_set intro: text_less_trans)
qed simp

lemma sort_cids_set: "set (sort_cids cs) = set cs"
  by (induction cs) (auto simp: sort_cids_def insert_cid_set)

lemma sort_cids_length: "length (sort_cids cs) = length cs"
proof -
  have "length (insert_cid c ds) = Suc (length ds)" for c ds by (induction ds) auto
  then show ?thesis by (induction cs) (auto simp: sort_cids_def)
qed

lemma sort_cids_sorted: "distinct cs \<Longrightarrow> sorted_wrt text_less (sort_cids cs)"
proof (induction cs)
  case (Cons c cs)
  then show ?case
    using insert_cid_sorted [of "sort_cids cs" c] sort_cids_set [of cs] by (simp add: sort_cids_def)
qed (simp add: sort_cids_def)

lemma sort_cids_filter: "distinct cs \<Longrightarrow> sort_cids (filter P cs) = filter P (sort_cids cs)"
  by (rule sorted_text_unique)
    (auto simp: sort_cids_sorted sort_cids_set intro: sorted_wrt_filter)

lemma sorted_filter_drop:
  assumes "sorted_wrt text_less xs" and "k < length xs"
  shows "filter (text_less (xs ! k)) xs = drop (Suc k) xs"
proof -
  have "filter (text_less (xs ! k)) (take (Suc k) xs) = []"
  proof (rule filter_False, rule ballI)
    fix y assume "y \<in> set (take (Suc k) xs)"
    then obtain i where "i \<le> k" "y = xs ! i" by (auto simp: in_set_conv_nth less_Suc_eq_le)
    then show "\<not> text_less (xs ! k) y"
      using assms sorted_wrt_nth_less [OF assms(1), of i k] text_less_trans
      by (cases "i = k") (auto dest: text_less_trans)
  qed
  moreover have "filter (text_less (xs ! k)) (drop (Suc k) xs) = drop (Suc k) xs"
  proof (rule filter_True, rule ballI)
    fix y assume "y \<in> set (drop (Suc k) xs)"
    then obtain i where "i < length (drop (Suc k) xs)" "drop (Suc k) xs ! i = y"
      unfolding in_set_conv_nth by blast
    then have "Suc k + i < length xs" "y = xs ! (Suc k + i)" by auto
    then show "text_less (xs ! k) y" using sorted_wrt_nth_less [OF assms(1), of k "Suc k + i"] by simp
  qed
  ultimately show ?thesis
    by (metis append_Nil append_take_drop_id filter_append)
qed

text \<open>A client that asks for page after page, each with the last identifier of the one before.\<close>

fun all_pages :: "blob_store \<Rightarrow> string option \<Rightarrow> nat \<Rightarrow> nat \<Rightarrow> string option \<Rightarrow> string list list" where
  "all_pages store since limit 0 cursor = []"
| "all_pages store since limit (Suc fuel) cursor =
     (case metalbear_blob_store_list_page store since cursor limit of
        Inl _ \<Rightarrow> []
      | Inr (page, left) \<Rightarrow>
          page # (if left then all_pages store since limit fuel (Some (last page)) else []))"

lemma page_from:
  assumes "distinct (map bn_cid (bs_nodes store))" and "0 < limit"
    and "S = sort_cids (blob_collect_cids store since)"
    and "cursor = None \<and> k = 0 \<or> (\<exists>i. k = Suc i \<and> i < length S \<and> cursor = Some (S ! i) \<and> S ! i \<noteq> '''')"
  shows "metalbear_blob_store_list_page store since cursor limit =
    Inr (take limit (drop k S), length (drop k S) > limit)"
proof -
  let ?cs = "blob_collect_cids store since"
  have d: "distinct ?cs" unfolding blob_collect_cids_def using assms(1) by (rule distinct_map_filter)
  have m: "map bn_cid (filter (\<lambda>n. since_ok since n \<and> cursor_ok cursor (bn_cid n)) (bs_nodes store)) =
      filter (cursor_ok cursor) ?cs"
    by (simp add: blob_collect_cids_def filter_map comp_def conj_commute flip: filter_filter)
  have "sort_cids (filter (cursor_ok cursor) ?cs) = drop k S"
  proof (cases cursor)
    case None
    then show ?thesis using assms(3,4) by (simp add: cursor_ok_def)
  next
    case (Some c)
    then obtain i where i: "k = Suc i" "i < length S" "c = S ! i" "c \<noteq> ''''" using assms(4) by auto
    have "filter (cursor_ok cursor) S = filter (text_less (S ! i)) S"
      using Some i(3,4) by (intro filter_cong) (auto simp: cursor_ok_def)
    then show ?thesis
      using sort_cids_filter [OF d, of "cursor_ok cursor"] sorted_filter_drop [of S i] i
        sort_cids_sorted [OF d] assms(3) by simp
  qed
  then show ?thesis
    using assms(2) by (simp add: metalbear_blob_store_list_page_def m)
qed

lemma all_pages_from:
  assumes "distinct (map bn_cid (bs_nodes store))" and "0 < limit"
    and S: "S = sort_cids (blob_collect_cids store since)" and "'''' \<notin> set S"
    and "cursor = None \<and> k = 0 \<or> (\<exists>i. k = Suc i \<and> i < length S \<and> cursor = Some (S ! i) \<and> S ! i \<noteq> '''')"
    and "length (drop k S) < fuel"
  shows "concat (all_pages store since limit fuel cursor) = drop k S \<and>
    list_all (\<lambda>p. length p \<le> limit) (all_pages store since limit fuel cursor)"
  using assms(5,6)
proof (induction fuel arbitrary: cursor k)
  case (Suc fuel)
  note page = page_from [OF assms(1,2) S Suc.prems(1)]
  show ?case
  proof (cases "length (drop k S) > limit")
    case False
    then show ?thesis by (simp add: page)
  next
    case True
    let ?j = "k + limit - 1"
    have j: "Suc ?j = k + limit" "?j < length S" using True assms(2) by auto
    have l: "last (take limit (drop k S)) = S ! ?j"
      using True assms(2) j by (simp add: last_conv_nth)
    have "S ! ?j \<noteq> ''''" using j assms(4) by (metis nth_mem)
    then have ih: "concat (all_pages store since limit fuel (Some (S ! ?j))) = drop (k + limit) S \<and>
        list_all (\<lambda>p. length p \<le> limit) (all_pages store since limit fuel (Some (S ! ?j)))"
      using j Suc.prems(2) True assms(2) by (intro Suc.IH disjI2 exI [of _ ?j] conjI) auto
    have "take limit (drop k S) @ drop (k + limit) S = drop k S"
      by (metis add.commute append_take_drop_id drop_drop)
    then show ?thesis using ih True by (simp add: page l)
  qed
qed simp

text \<open>Paging is the listing: asking page after page with the last identifier as the cursor
  gives, in pages of at most \<open>limit\<close>, exactly the blobs first seen after \<open>since\<close>, each once
  and in ascending order, and needs no more requests than there are blobs and one.\<close>

theorem blob_pages_equal_listing:
  assumes "distinct (map bn_cid (bs_nodes store))" and "'''' \<notin> bn_cid ` set (bs_nodes store)"
    and "0 < limit" and "length (bs_nodes store) < fuel"
  shows "concat (all_pages store since limit fuel None) = sort_cids (blob_collect_cids store since) \<and>
    list_all (\<lambda>p. length p \<le> limit) (all_pages store since limit fuel None) \<and>
    sorted_wrt text_less (concat (all_pages store since limit fuel None)) \<and>
    set (concat (all_pages store since limit fuel None)) =
      bn_cid ` {n \<in> set (bs_nodes store). since_ok since n}"
proof -
  let ?cs = "blob_collect_cids store since"
  have d: "distinct ?cs" unfolding blob_collect_cids_def using assms(1) by (rule distinct_map_filter)
  have "'''' \<notin> set (sort_cids ?cs)"
    using assms(2) by (auto simp: sort_cids_set blob_collect_cids_def)
  moreover have "length (sort_cids ?cs) = length ?cs"
    by (rule sort_cids_length)
  then have "length (drop 0 (sort_cids ?cs)) < fuel"
    using le_less_trans [OF length_filter_le assms(4), of "since_ok since"] by (simp add: blob_collect_cids_def)
  ultimately have "concat (all_pages store since limit fuel None) = sort_cids ?cs \<and>
      list_all (\<lambda>p. length p \<le> limit) (all_pages store since limit fuel None)"
    using all_pages_from [OF assms(1,3) refl, of since None 0 fuel] by simp
  then show ?thesis
    using sort_cids_sorted [OF d] by (auto simp: sort_cids_set blob_collect_cids_def)
qed

theorem blob_pages_equal_listing_witness:
  "concat (all_pages
     \<lparr>bs_file_backed = False,
      bs_nodes = map (\<lambda>c. \<lparr>bn_cid = c, bn_mime = ''t'', bn_data = Some '''', bn_len = 0, bn_refs = [],
                          bn_rev = ''3k''\<rparr>) [''b'', ''c'', ''a''],
      bs_key = None, bs_encrypted = False\<rparr> None 2 4 None) = [''a'', ''b'', ''c'']"
proof -
  let ?s = "\<lparr>bs_file_backed = False,
      bs_nodes = map (\<lambda>c. \<lparr>bn_cid = c, bn_mime = ''t'', bn_data = Some '''', bn_len = 0, bn_refs = [],
                          bn_rev = ''3k''\<rparr>) [''b'', ''c'', ''a''],
      bs_key = None, bs_encrypted = False\<rparr>"
  have "sort_cids (blob_collect_cids ?s None) = [''a'', ''b'', ''c'']" by code_simp
  then show ?thesis using blob_pages_equal_listing [of ?s 2 4 None] by simp
qed

section \<open>An encrypted store without its passphrase\<close>

text \<open>
  An upload while the passphrase of an encrypted store has not been set goes to disk in the
  clear, and setting the passphrase afterwards makes that blob unreadable.
\<close>

definition opened_without_passphrase :: blob_store where
  "opened_without_passphrase =
     metalbear_blob_store_new demo_io ''/b'' (Some [''.'', ''..'', SALT_NAME])
       [SALT_NAME \<mapsto> replicate 16 CHR ''s'']"

lemma plaintext_in_encrypted_store:
  "bs_encrypted opened_without_passphrase \<and>
   (case metalbear_blob_store_put demo_sodium demo_io opened_without_passphrase
           [SALT_NAME \<mapsto> replicate 16 CHR ''s''] ''a'' ''t'' ''secret'' of
      (st, store1, fs1) \<Rightarrow>
        st = WF_OK \<and> fs1 ''a'' = Some ''secret'' \<and>
        (case metalbear_blob_store_set_crypto_passphrase demo_sodium demo_io store1 fs1 ''pw'' of
           (st2, store2, fs2) \<Rightarrow>
             st2 = WF_OK \<and>
             fst (metalbear_blob_store_get demo_sodium demo_io store2 fs2 ''a'') = Inl WF_ERR_INVALID_ARG))"
  by code_simp

end
