(* ===== verification/Repo_Cbor.thy ===== *)
theory Repo_Cbor
  imports Cjson
begin

text \<open>
  The first part of \<open>src/repo/repo_store.c\<close>: a record's JSON as DAG-CBOR and back. Wolfram's
  CID and base64url codecs, its CBOR serializer and cJSON's parser are arguments.
\<close>

section \<open>DAG-CBOR items\<close>

datatype cbor =
    CB_UNSIGNED "64 word"
  | CB_NEGATIVE "64 word"
  | CB_BYTES "byte list"
  | CB_STRING string
  | CB_ARRAY "cbor list"
  | CB_MAP "(cbor \<times> cbor) list"
  | CB_LINK "byte list"
  | CB_SIMPLE nat

type_synonym cid = "byte list"

text \<open>Wolfram's text codecs. Decoding may fail; so may encoding, for want of memory.\<close>

record text_codecs =
  tc_cid_from_string :: "string \<Rightarrow> cid option"
  tc_cid_to_string :: "cid \<Rightarrow> string option"
  tc_b64_decode :: "string \<Rightarrow> byte list option"
  tc_b64_encode :: "byte list \<Rightarrow> string option"

section \<open>JSON to CBOR\<close>

definition MAX_SAFE :: rat where "MAX_SAFE = 9007199254740991"

definition cbor_from_number :: "rat \<Rightarrow> cbor option" where
  "cbor_from_number d =
     (if d \<noteq> of_int \<lfloor>d\<rfloor> \<or> \<bar>d\<bar> > MAX_SAFE then None
      else if d \<ge> 0 then Some (CB_UNSIGNED (of_int \<lfloor>d\<rfloor>))
      else Some (CB_NEGATIVE (of_int \<lfloor>- 1 - d\<rfloor>)))"

text \<open>The single-key objects \<open>$link\<close> and \<open>$bytes\<close>; anything that does not decode is a map.\<close>

definition cbor_from_special :: "text_codecs \<Rightarrow> (string \<times> cjson) list \<Rightarrow> cbor option" where
  "cbor_from_special tc items =
     (case items of
        [(name, CString s)] \<Rightarrow>
          if name = ''$link'' then map_option CB_LINK (tc_cid_from_string tc s)
          else if name = ''$bytes'' then map_option CB_BYTES (tc_b64_decode tc s)
          else None
      | _ \<Rightarrow> None)"

fun cbor_from_json :: "text_codecs \<Rightarrow> cjson \<Rightarrow> cbor option"
and cbor_from_array :: "text_codecs \<Rightarrow> cjson list \<Rightarrow> cbor list option"
and cbor_from_object :: "text_codecs \<Rightarrow> (string \<times> cjson) list \<Rightarrow> (cbor \<times> cbor) list option" where
  "cbor_from_json tc CNull = Some (CB_SIMPLE 22)"
| "cbor_from_json tc (CBool b) = Some (CB_SIMPLE (if b then 21 else 20))"
| "cbor_from_json tc (CNumber d) = cbor_from_number d"
| "cbor_from_json tc CInfinite = None"
| "cbor_from_json tc (CString s) = Some (CB_STRING s)"
| "cbor_from_json tc (CArray js) = map_option CB_ARRAY (cbor_from_array tc js)"
| "cbor_from_json tc (CObject items) =
     (case cbor_from_special tc items of
        Some c \<Rightarrow> Some c
      | None \<Rightarrow> map_option CB_MAP (cbor_from_object tc items))"
| "cbor_from_array tc [] = Some []"
| "cbor_from_array tc (j # js) =
     (case cbor_from_json tc j of
        None \<Rightarrow> None
      | Some c \<Rightarrow> map_option ((#) c) (cbor_from_array tc js))"
| "cbor_from_object tc [] = Some []"
| "cbor_from_object tc ((name, j) # items) =
     (case cbor_from_json tc j of
        None \<Rightarrow> None
      | Some c \<Rightarrow> map_option ((#) (CB_STRING name, c)) (cbor_from_object tc items))"

section \<open>CBOR to JSON\<close>

text \<open>
  The conversion of an integer to a double: the nearest one of 53 significant bits, ties to the
  even mantissa.
\<close>

fun to_double :: "nat \<Rightarrow> nat \<Rightarrow> nat" where
  "to_double 0 n = n"
| "to_double (Suc bits) n =
     (let unit = 2 ^ Suc bits; q = n div unit; r = n mod unit
      in if n < 2 ^ (53 + bits) then to_double bits n
         else if 2 * r < unit \<or> 2 * r = unit \<and> even q then q * unit else (q + 1) * unit)"

definition double_of :: "nat \<Rightarrow> rat" where
  "double_of n = of_nat (to_double 12 n)"

fun cbor_to_json :: "text_codecs \<Rightarrow> cbor \<Rightarrow> cjson option"
and cbor_to_array :: "text_codecs \<Rightarrow> cbor list \<Rightarrow> cjson list option"
and cbor_to_object :: "text_codecs \<Rightarrow> (cbor \<times> cbor) list \<Rightarrow> (string \<times> cjson) list option" where
  "cbor_to_json tc (CB_UNSIGNED u) = Some (CNumber (double_of (unat u)))"
| "cbor_to_json tc (CB_NEGATIVE u) = Some (CNumber (- double_of (1 + to_double 12 (unat u))))"
| "cbor_to_json tc (CB_STRING s) = Some (CString (c_str s))"
| "cbor_to_json tc (CB_BYTES bs) =
     (let b64 = (if bs = [] then None else tc_b64_encode tc bs)
      in Some (CObject [(''$bytes'', CString (case b64 of Some s \<Rightarrow> s | None \<Rightarrow> ''''))]))"
| "cbor_to_json tc (CB_LINK cid) =
     Some (CObject [(''$link'', CString (case tc_cid_to_string tc cid of Some s \<Rightarrow> s | None \<Rightarrow> ''''))])"
| "cbor_to_json tc (CB_ARRAY cs) = map_option CArray (cbor_to_array tc cs)"
| "cbor_to_json tc (CB_MAP ps) = map_option CObject (cbor_to_object tc ps)"
| "cbor_to_json tc (CB_SIMPLE n) =
     Some (if n = 21 then CBool True else if n = 20 then CBool False else CNull)"
| "cbor_to_array tc [] = Some []"
| "cbor_to_array tc (c # cs) =
     (case cbor_to_json tc c of
        None \<Rightarrow> None
      | Some j \<Rightarrow> map_option ((#) j) (cbor_to_array tc cs))"
| "cbor_to_object tc [] = Some []"
| "cbor_to_object tc ((k, c) # ps) =
     (case cbor_to_json tc c of
        None \<Rightarrow> None
      | Some j \<Rightarrow>
          (case k of
             CB_STRING name \<Rightarrow> map_option ((#) (c_str name, j)) (cbor_to_object tc ps)
           | _ \<Rightarrow> None))"

section \<open>Encoding a record\<close>

text \<open>
  \<open>parse\<close> is \<open>cJSON_Parse\<close> and \<open>serialize\<close> is \<open>wf_cbor_serialize\<close>, which orders the keys.
\<close>

definition encode_record_json ::
  "(string \<Rightarrow> cjson option) \<Rightarrow> text_codecs \<Rightarrow> (cbor \<Rightarrow> byte list option) \<Rightarrow> string \<Rightarrow>
   wf_status + byte list" where
  "encode_record_json parse tc serialize record_json =
     (case parse record_json of
        Some (CObject items) \<Rightarrow>
          if cj_item (CObject items) ''$type'' = None then Inl WF_ERR_INVALID_ARG
          else (case cbor_from_json tc (CObject items) of
                  None \<Rightarrow> Inl WF_ERR_INVALID_ARG
                | Some item \<Rightarrow>
                    (case serialize item of Some bytes \<Rightarrow> Inr bytes | None \<Rightarrow> Inl WF_ERR_ALLOC))
      | _ \<Rightarrow> Inl WF_ERR_INVALID_ARG)"

section \<open>What can be stored, and what comes back\<close>

definition storable_number :: "rat \<Rightarrow> bool" where
  "storable_number d \<longleftrightarrow> d = of_int \<lfloor>d\<rfloor> \<and> \<bar>d\<bar> \<le> MAX_SAFE"

fun storable :: "cjson \<Rightarrow> bool" where
  "storable (CNumber d) = storable_number d"
| "storable CInfinite = False"
| "storable (CArray js) = list_all storable js"
| "storable (CObject items) = list_all (\<lambda>(name, j). storable j) items"
| "storable _ = True"

text \<open>
  Text the store gives back as it is: no NUL inside a string, and links and bytes written the way
  Wolfram's encoders write them.
\<close>

definition canonical_special :: "text_codecs \<Rightarrow> (string \<times> cjson) list \<Rightarrow> bool" where
  "canonical_special tc items \<longleftrightarrow>
     (case items of
        [(name, CString s)] \<Rightarrow>
          if name = ''$link'' then
            (case tc_cid_from_string tc s of None \<Rightarrow> True | Some cid \<Rightarrow> tc_cid_to_string tc cid = Some s)
          else if name = ''$bytes'' then
            (case tc_b64_decode tc s of
               None \<Rightarrow> True
             | Some bs \<Rightarrow> if bs = [] then s = '''' else tc_b64_encode tc bs = Some s)
          else True
      | _ \<Rightarrow> True)"

fun canonical :: "text_codecs \<Rightarrow> cjson \<Rightarrow> bool" where
  "canonical tc (CString s) = (c_str s = s)"
| "canonical tc (CArray js) = list_all (canonical tc) js"
| "canonical tc (CObject items) =
     (canonical_special tc items \<and>
      list_all (\<lambda>(name, j). c_str name = name \<and> canonical tc j) items)"
| "canonical tc _ = True"

lemma to_double_small [simp]: "n < 2 ^ 53 \<Longrightarrow> to_double bits n = n"
proof (induction bits)
  case (Suc bits)
  have "(2::nat) ^ 53 \<le> 2 ^ (53 + bits)" by (intro power_increasing) auto
  then show ?case using Suc by (simp add: Let_def)
qed simp

lemma number_None: "cbor_from_number d = None \<longleftrightarrow> \<not> storable_number d"
  by (auto simp: cbor_from_number_def storable_number_def)

lemma floor_bound:
  assumes "storable_number d"
  shows "\<bar>\<lfloor>d\<rfloor>\<bar> \<le> 9007199254740991"
proof -
  have "\<bar>of_int \<lfloor>d\<rfloor> :: rat\<bar> \<le> of_int 9007199254740991"
    using assms by (simp add: storable_number_def MAX_SAFE_def)
  then show ?thesis by (simp only: of_int_abs [symmetric] of_int_le_iff)
qed

lemma unat_of_int_small: "0 \<le> i \<Longrightarrow> i < 2 ^ 64 \<Longrightarrow> unat (of_int i :: 64 word) = nat i"
  by (simp add: unat_eq_nat_uint uint_word_of_int take_bit_int_eq_self)

lemma number_roundtrip:
  assumes "storable_number d"
  shows "\<exists>c. cbor_from_number d = Some c \<and> cbor_to_json tc c = Some (CNumber d)"
proof -
  obtain i where i: "d = of_int i" "\<lfloor>d\<rfloor> = i" "\<bar>i\<bar> \<le> 9007199254740991"
    using assms floor_bound [OF assms] by (metis storable_number_def)
  have ok: "\<not> (d \<noteq> of_int \<lfloor>d\<rfloor> \<or> \<bar>d\<bar> > MAX_SAFE)"
    using assms by (simp add: storable_number_def not_less)
  show ?thesis
  proof (cases "0 \<le> d")
    case True
    then have "unat (of_int i :: 64 word) = nat i"
      using i by (intro unat_of_int_small) auto
    moreover have "nat i < 2 ^ 53" using i by simp
    ultimately show ?thesis
      using True ok i by (auto simp: cbor_from_number_def double_of_def of_nat_nat)
  next
    case False
    then have neg: "i < 0" using i by simp
    have f: "\<lfloor>- 1 - d\<rfloor> = - 1 - i" using i(1) by (metis floor_of_int of_int_1 of_int_diff of_int_minus)
    have u: "unat (of_int (- 1 - i) :: 64 word) = nat (- 1 - i)"
      using i neg by (intro unat_of_int_small) auto
    have n: "nat (- 1 - i) < 2 ^ 53" "1 + nat (- 1 - i) = nat (- i)" "nat (- i) < 2 ^ 53"
      using i neg by auto
    have "- double_of (1 + to_double 12 (nat (- 1 - i))) = d"
      using n neg i(1) by (simp add: double_of_def of_nat_nat)
    then show ?thesis
      using False ok i u f by (simp add: cbor_from_number_def)
  qed
qed

lemma special_storable: "cbor_from_special tc items = Some c \<Longrightarrow> storable (CObject items)"
  by (auto simp: cbor_from_special_def split: list.splits prod.splits cjson.splits)

lemma special_roundtrip:
  "cbor_from_special tc items = Some c \<Longrightarrow> canonical_special tc items \<Longrightarrow>
   cbor_to_json tc c = Some (CObject items)"
  by (auto simp: cbor_from_special_def canonical_special_def
      split: list.splits prod.splits cjson.splits if_splits option.splits)

lemma from_json_None:
  "cbor_from_json tc j = None \<longleftrightarrow> \<not> storable j"
  "cbor_from_array tc js = None \<longleftrightarrow> \<not> list_all storable js"
  "cbor_from_object tc items = None \<longleftrightarrow> \<not> list_all (\<lambda>(name, j). storable j) items"
proof (induction tc j and tc js and tc items
    rule: cbor_from_json_cbor_from_array_cbor_from_object.induct)
  case (7 tc items)
  then show ?case
    using special_storable [of tc items] by (auto split: option.split)
qed (auto simp: number_None split: option.split)

lemma json_roundtrip:
  "canonical tc j \<Longrightarrow> storable j \<Longrightarrow>
     \<exists>c. cbor_from_json tc j = Some c \<and> cbor_to_json tc c = Some j"
  "list_all (canonical tc) js \<Longrightarrow> list_all storable js \<Longrightarrow>
     \<exists>cs. cbor_from_array tc js = Some cs \<and> cbor_to_array tc cs = Some js"
  "list_all (\<lambda>(name, j). c_str name = name \<and> canonical tc j) items \<Longrightarrow>
   list_all (\<lambda>(name, j). storable j) items \<Longrightarrow>
     \<exists>ps. cbor_from_object tc items = Some ps \<and> cbor_to_object tc ps = Some items"
proof (induction tc j and tc js and tc items
    rule: cbor_from_json_cbor_from_array_cbor_from_object.induct)
  case (3 tc d)
  then show ?case using number_roundtrip [of d tc] by simp
next
  case (7 tc items)
  then show ?case
    by (cases "cbor_from_special tc items") (auto intro: special_roundtrip)
next
  case (9 tc j js)
  then obtain c cs where "cbor_from_json tc j = Some c" "cbor_to_json tc c = Some j"
    "cbor_from_array tc js = Some cs" "cbor_to_array tc cs = Some js" by fastforce
  then show ?case by simp
next
  case (11 tc name j items)
  then obtain c ps where "cbor_from_json tc j = Some c" "cbor_to_json tc c = Some j"
    "cbor_from_object tc items = Some ps" "cbor_to_object tc ps = Some items" by fastforce
  then show ?case using 11(3) by simp
qed auto

text \<open>C38. Any record is refused exactly when some number in it, at any depth, is not an integer of at
  most 53 bits. A record that is not refused, and whose strings and names hold no NUL and whose links
  and bytes are written the way the encoders write them, comes back from decoding what was encoded,
  links and bytes included.\<close>

theorem record_json_roundtrip:
  "(cbor_from_json tc j = None \<longleftrightarrow> \<not> storable j) \<and>
   (canonical tc j \<and> storable j \<longrightarrow>
      (\<exists>c. cbor_from_json tc j = Some c \<and> cbor_to_json tc c = Some j))"
  using json_roundtrip(1) from_json_None(1) by blast

text \<open>The texts of the example: a CID or base64url text is the bytes of its characters.\<close>

definition plain_codecs :: text_codecs where
  "plain_codecs =
     \<lparr>tc_cid_from_string = \<lambda>s. if s = '''' then None else Some (bytes_of s),
      tc_cid_to_string = \<lambda>c. Some (map (char_of \<circ> unat) c),
      tc_b64_decode = \<lambda>s. Some (bytes_of s), tc_b64_encode = \<lambda>bs. Some (map (char_of \<circ> unat) bs)\<rparr>"

theorem record_json_roundtrip_witness:
  "\<exists>c. cbor_from_json plain_codecs
         (CObject [(''n'', CNumber (- 5)), (''l'', CObject [(''$link'', CString ''bafy'')])]) = Some c \<and>
       cbor_to_json plain_codecs c =
         Some (CObject [(''n'', CNumber (- 5)), (''l'', CObject [(''$link'', CString ''bafy'')])])"
proof -
  let ?j = "CObject [(''n'', CNumber (- 5)), (''l'', CObject [(''$link'', CString ''bafy'')])]"
  have s: "storable ?j" by (simp add: storable_number_def MAX_SAFE_def)
  have c: "canonical plain_codecs ?j" by code_simp
  show ?thesis using record_json_roundtrip [of plain_codecs ?j] s c by blast
qed

end
