(* ===== verification/Repo_Store.thy ===== *)
theory Repo_Store
  imports Repo_Cbor "HOL-Library.List_Lexorder" "HOL-Library.Char_ord" "HOL-Library.Product_Lexorder"
begin

text \<open>
  \<open>src/repo/repo_store.c\<close> after its codec: the block store, the head, the index of records and
  the operations on them. The car and the head are the process's memory, the tables are SQLite's,
  on this connection and on disk. Wolfram (commits, the Merkle search tree, CAR and CBOR bytes,
  text syntax), cJSON's parser and printer and SQLite's \<open>json_extract\<close> are the functions of a
  record \<open>wolfram\<close>; the outcome of each statement, the clock and the TID generator are those of a
  record \<open>repo_io\<close>. A CID of length 0 is none, as in the source. Memory is only seen to run out
  where Wolfram's text encoder reports it, and required pointers are not NULL. Each function runs
  under the store's mutex.
\<close>

section \<open>Wolfram's values and functions\<close>

type_synonym signing_key = "nat \<times> byte list"

record car_block =
  cb_cid :: cid
  cb_data :: "byte list"

type_synonym car = "car_block list"

record wf_commit =
  cm_rev :: string
  cm_data :: cid

record mst_entry =
  me_key :: string
  me_value :: cid
  me_subtree :: cid

record mst_node =
  mn_left :: cid
  mn_entries :: "mst_entry list"

datatype write_action = WF_REPO_WRITE_CREATE | WF_REPO_WRITE_UPDATE | WF_REPO_WRITE_DELETE

record repo_write =
  rw_action :: write_action
  rw_collection :: string
  rw_rkey :: string
  rw_body :: "byte list"

text \<open>
  The writing functions return the car they were given with the blocks they appended, whether they
  succeed or not; \<open>wl_apply_writes\<close> also gives the CID of the record of each write.
\<close>

record wolfram =
  wl_codecs :: text_codecs
  wl_parse :: "string \<Rightarrow> cjson option"
  wl_print :: "cjson \<Rightarrow> string"
  wl_json_extract :: "string \<Rightarrow> string \<Rightarrow> string option"
  wl_cbor_serialize :: "cbor \<Rightarrow> byte list option"
  wl_cbor_parse :: "byte list \<Rightarrow> cbor option"
  wl_cid_of_block :: "byte list \<Rightarrow> cid option"
  wl_find_block :: "car \<Rightarrow> cid \<Rightarrow> car_block option"
  wl_commit_parse :: "byte list \<Rightarrow> wf_status + wf_commit"
  wl_node_parse :: "byte list \<Rightarrow> cid \<Rightarrow> wf_status + mst_node"
  wl_get_record :: "car \<Rightarrow> cid \<Rightarrow> string \<Rightarrow> string \<Rightarrow> wf_status + byte list \<times> cid"
  wl_create_record :: "car \<Rightarrow> cid option \<Rightarrow> string \<Rightarrow> string \<Rightarrow> string \<Rightarrow> byte list \<Rightarrow> signing_key \<Rightarrow>
    (wf_status + cid \<times> cid) \<times> car"
  wl_update_record :: "car \<Rightarrow> cid \<Rightarrow> string \<Rightarrow> string \<Rightarrow> string \<Rightarrow> byte list \<Rightarrow> signing_key \<Rightarrow>
    (wf_status + cid \<times> cid) \<times> car"
  wl_delete_record :: "car \<Rightarrow> cid \<Rightarrow> string \<Rightarrow> string \<Rightarrow> string \<Rightarrow> signing_key \<Rightarrow>
    (wf_status + cid) \<times> car"
  wl_apply_writes :: "car \<Rightarrow> cid option \<Rightarrow> string \<Rightarrow> repo_write list \<Rightarrow> signing_key \<Rightarrow>
    (wf_status + cid \<times> (nat \<Rightarrow> cid)) \<times> car"
  wl_record_key_valid :: "string \<Rightarrow> bool"
  wl_handle_valid :: "string \<Rightarrow> bool"
  wl_didkey :: "signing_key \<Rightarrow> string option"
  wl_car_write :: "cid list \<Rightarrow> car \<Rightarrow> wf_status + byte list"
  wl_record_proof :: "car \<Rightarrow> cid \<Rightarrow> string \<Rightarrow> string \<Rightarrow> wf_status + cid list \<times> cid"
  wl_verify :: "car \<Rightarrow> cid list \<Rightarrow> string \<Rightarrow> string \<Rightarrow> wf_status \<times> wf_commit"

definition cid_string :: "wolfram \<Rightarrow> cid \<Rightarrow> string option" where
  "cid_string w c = tc_cid_to_string (wl_codecs w) c"

definition cid_parse :: "wolfram \<Rightarrow> string \<Rightarrow> cid option" where
  "cid_parse w t = tc_cid_from_string (wl_codecs w) t"

definition encode_record :: "wolfram \<Rightarrow> string \<Rightarrow> wf_status + byte list" where
  "encode_record w js = encode_record_json (wl_parse w) (wl_codecs w) (wl_cbor_serialize w) js"

section \<open>The tables\<close>

record block_row =
  br_cid :: string
  br_data :: "byte list"
  br_rev :: "string option"

record record_row =
  rr_collection :: string
  rr_rkey :: string
  rr_cid :: string
  rr_value :: string
  rr_rev :: "string option"
  rr_indexed_at :: "string option"

record repo_tables =
  t_meta :: "(string \<times> string \<times> signing_key) option"
  t_blocks :: "block_row list"
  t_head :: "(string option \<times> string option) option"
  t_records :: "record_row list"

text \<open>
  What this connection sees, what is on disk, and whether a transaction is open. Outside one every
  statement is its own transaction.
\<close>

record repo_db =
  rd_now :: repo_tables
  rd_disk :: repo_tables
  rd_tx :: bool

definition db_write :: "(repo_tables \<Rightarrow> repo_tables) \<Rightarrow> repo_db \<Rightarrow> repo_db" where
  "db_write f db =
     db\<lparr>rd_now := f (rd_now db), rd_disk := (if rd_tx db then rd_disk db else f (rd_now db))\<rparr>"

definition sql_begin :: "bool \<Rightarrow> repo_db \<Rightarrow> repo_db option" where
  "sql_begin ok db = (if ok \<and> \<not> rd_tx db then Some (db\<lparr>rd_tx := True\<rparr>) else None)"

definition sql_commit :: "bool \<Rightarrow> repo_db \<Rightarrow> repo_db" where
  "sql_commit ok db = (if ok then db\<lparr>rd_disk := rd_now db, rd_tx := False\<rparr> else db)"

definition sql_rollback :: "repo_db \<Rightarrow> repo_db" where
  "sql_rollback db = db\<lparr>rd_now := rd_disk db, rd_tx := False\<rparr>"

text \<open>\<open>INSERT OR IGNORE INTO blocks\<close>, whose primary key is the CID.\<close>

definition insert_block_row :: "block_row \<Rightarrow> repo_tables \<Rightarrow> repo_tables" where
  "insert_block_row row t =
     (if br_cid row \<in> br_cid ` set (t_blocks t) then t else t\<lparr>t_blocks := t_blocks t @ [row]\<rparr>)"

definition delete_record_row :: "string \<Rightarrow> string \<Rightarrow> repo_tables \<Rightarrow> repo_tables" where
  "delete_record_row collection rkey t =
     t\<lparr>t_records := filter (\<lambda>r. \<not> (rr_collection r = collection \<and> rr_rkey r = rkey)) (t_records t)\<rparr>"

text \<open>\<open>INSERT OR REPLACE INTO records\<close>, whose primary key is the collection and the record key.\<close>

definition replace_record_row :: "record_row \<Rightarrow> repo_tables \<Rightarrow> repo_tables" where
  "replace_record_row row t =
     (let t' = delete_record_row (rr_collection row) (rr_rkey row) t
      in t'\<lparr>t_records := t_records t' @ [row]\<rparr>)"

section \<open>The store\<close>

datatype event_kind = METALBEAR_REPO_STORE_EVENT_COMMIT | METALBEAR_REPO_STORE_EVENT_SYNC

record repo_store_op =
  ro_action :: string
  ro_collection :: string
  ro_rkey :: string
  ro_cid :: cid
  ro_has_cid :: bool
  ro_prev :: cid
  ro_has_prev :: bool

record repo_store_event =
  re_kind :: event_kind
  re_did :: string
  re_commit_cid :: cid
  re_rev :: string
  re_since :: "string option"
  re_prev_data :: cid
  re_has_prev_data :: bool
  re_ops :: "repo_store_op list"
  re_blocks :: "byte list"

text \<open>\<open>rs_events\<close> is what the observer has been handed so far; without one nothing is recorded.\<close>

record repo_store =
  rs_did :: string
  rs_handle :: string
  rs_key :: signing_key
  rs_didkey :: string
  rs_db :: repo_db
  rs_car :: car
  rs_head :: cid
  rs_root_count :: nat
  rs_persisted :: nat
  rs_override :: "string option"
  rs_callback :: bool
  rs_events :: "repo_store_event list"

text \<open>
  The outcomes of the statements of one call, by the order in which they are made, what
  \<open>strftime\<close> gives and the TIDs.
\<close>

record repo_io =
  io_begin :: bool
  io_block :: "nat \<Rightarrow> bool"
  io_head :: bool
  io_commit :: bool
  io_index :: "nat \<Rightarrow> bool"
  io_read :: bool
  io_now :: string
  io_tid :: "nat \<Rightarrow> string option"

definition make_uri :: "string \<Rightarrow> string \<Rightarrow> string \<Rightarrow> string" where
  "make_uri did collection rkey = ''at://'' @ did @ ''/'' @ collection @ ''/'' @ rkey"

definition set_root :: "repo_store \<Rightarrow> repo_store" where
  "set_root s = s\<lparr>rs_root_count := (if rs_head s \<noteq> [] then 1 else 0)\<rparr>"

text \<open>\<open>roots\<close> points at \<open>head\<close>.\<close>

definition car_roots :: "repo_store \<Rightarrow> cid list" where
  "car_roots s = replicate (rs_root_count s) (rs_head s)"

definition parse_commit_at :: "wolfram \<Rightarrow> repo_store \<Rightarrow> cid \<Rightarrow> wf_commit option" where
  "parse_commit_at w s cid =
     (if cid = [] then None
      else (case wl_find_block w (rs_car s) cid of
              None \<Rightarrow> None
            | Some b \<Rightarrow> (case wl_commit_parse w (cb_data b) of Inr cm \<Rightarrow> Some cm | Inl _ \<Rightarrow> None)))"

text \<open>What the source does in place on a CID it knows to be present.\<close>

definition commit_of :: "wolfram \<Rightarrow> repo_store \<Rightarrow> cid \<Rightarrow> wf_commit option" where
  "commit_of w s cid =
     (case wl_find_block w (rs_car s) cid of
        None \<Rightarrow> None
      | Some b \<Rightarrow> (case wl_commit_parse w (cb_data b) of Inr cm \<Rightarrow> Some cm | Inl _ \<Rightarrow> None))"

definition REV_BUF :: nat where "REV_BUF = 64"

definition get_effective_rev :: "wolfram \<Rightarrow> repo_store \<Rightarrow> nat \<Rightarrow> string" where
  "get_effective_rev w s out_len =
     (case rs_override s of
        Some ov \<Rightarrow> snprintf_cut out_len ov
      | None \<Rightarrow>
          if rs_head s = [] then ''''
          else (case commit_of w s (rs_head s) of
                  Some cm \<Rightarrow> snprintf_cut out_len (cm_rev cm)
                | None \<Rightarrow> ''''))"

definition head_cid_string :: "wolfram \<Rightarrow> repo_store \<Rightarrow> string option" where
  "head_cid_string w s = (if rs_head s \<noteq> [] then cid_string w (rs_head s) else Some '''')"

definition add_commit_meta :: "wolfram \<Rightarrow> repo_store \<Rightarrow> (string \<times> cjson) list \<Rightarrow> (string \<times> cjson) list" where
  "add_commit_meta w s parent =
     parent @ [(''commit'', CObject
       [(''cid'', CString (case head_cid_string w s of Some c \<Rightarrow> c | None \<Rightarrow> '''')),
        (''rev'', CString (get_effective_rev w s REV_BUF))])]"

definition get_record_cbor ::
  "wolfram \<Rightarrow> repo_store \<Rightarrow> string \<Rightarrow> string \<Rightarrow> wf_status + byte list \<times> cid" where
  "get_record_cbor w s collection rkey =
     (if rs_head s = [] then Inl WF_ERR_NOT_FOUND
      else wl_get_record w (rs_car s) (rs_head s) collection rkey)"

definition check_swap :: "string option \<Rightarrow> string option \<Rightarrow> wf_status" where
  "check_swap requested current =
     (case requested of
        None \<Rightarrow> WF_OK
      | Some r \<Rightarrow> if r = '''' then WF_OK else if current = Some r then WF_OK else WF_ERR_CONFLICT)"

definition record_type_matches :: "wolfram \<Rightarrow> string \<Rightarrow> string \<Rightarrow> bool" where
  "record_type_matches w record_json collection =
     (case wl_parse w record_json of
        None \<Rightarrow> True
      | Some j \<Rightarrow>
          (case cj_string j ''$type'' of Some t \<Rightarrow> t = collection | None \<Rightarrow> True))"

section \<open>Validation against lexicons\<close>

datatype validation_status = METALBEAR_VALIDATION_UNKNOWN | METALBEAR_VALIDATION_VALID

text \<open>
  Wolfram's registry: the collections it has schemas for and, for a record that does not match, the
  first error, when there is one, with its path and message.
\<close>

record lexicon_registry =
  lx_contains :: "string \<Rightarrow> bool"
  lx_validate :: "string \<Rightarrow> string \<Rightarrow> (string option \<times> string option) option + unit"

definition metalbear_validate_record ::
  "lexicon_registry option \<Rightarrow> string \<Rightarrow> string \<Rightarrow> bool \<Rightarrow>
   wf_status \<times> validation_status \<times> string option" where
  "metalbear_validate_record lexicons collection record_json require_schema =
     (case lexicons of
        None \<Rightarrow> (if require_schema then WF_ERR_NOT_FOUND else WF_OK, METALBEAR_VALIDATION_UNKNOWN, None)
      | Some lx \<Rightarrow>
          if \<not> lx_contains lx collection
          then (if require_schema then WF_ERR_NOT_FOUND else WF_OK, METALBEAR_VALIDATION_UNKNOWN, None)
          else (case lx_validate lx collection record_json of
                  Inr _ \<Rightarrow> (WF_OK, METALBEAR_VALIDATION_VALID, None)
                | Inl errors \<Rightarrow>
                    (WF_ERR_VALIDATION, METALBEAR_VALIDATION_UNKNOWN,
                     map_option (\<lambda>(path, msg).
                       ''Invalid '' @ collection @ '' record: '' @
                       (case path of Some p \<Rightarrow> p | None \<Rightarrow> ''record'') @ '' '' @
                       (case msg of Some t \<Rightarrow> t | None \<Rightarrow> ''is invalid'')) errors)))"

section \<open>Persistence\<close>

text \<open>The loop over the new blocks; \<open>i\<close> counts the statements.\<close>

fun insert_blocks :: "wolfram \<Rightarrow> repo_io \<Rightarrow> string \<Rightarrow> nat \<Rightarrow> car \<Rightarrow> repo_db \<Rightarrow> wf_status \<times> repo_db" where
  "insert_blocks w io revision i [] db = (WF_OK, db)"
| "insert_blocks w io revision i (b # bs) db =
     (case cid_string w (cb_cid b) of
        None \<Rightarrow> (WF_ERR_ALLOC, db)
      | Some c \<Rightarrow>
          if \<not> io_block io i then (WF_ERR_INTERNAL, db)
          else insert_blocks w io revision (Suc i) bs
                 (db_write (insert_block_row \<lparr>br_cid = c, br_data = cb_data b, br_rev = Some revision\<rparr>) db))"

definition persist_new_blocks :: "wolfram \<Rightarrow> repo_io \<Rightarrow> repo_store \<Rightarrow> wf_status \<times> repo_store" where
  "persist_new_blocks w io s =
     (let revision = (case commit_of w s (rs_head s) of
                        Some cm \<Rightarrow> snprintf_cut REV_BUF (cm_rev cm) | None \<Rightarrow> '''')
      in case insert_blocks w io revision 0 (drop (rs_persisted s) (rs_car s)) (rs_db s) of
           (st, db) \<Rightarrow>
             if st = WF_OK then (WF_OK, s\<lparr>rs_db := db, rs_persisted := length (rs_car s)\<rparr>)
             else (st, s\<lparr>rs_db := db\<rparr>))"

definition index_upsert_record ::
  "wolfram \<Rightarrow> repo_io \<Rightarrow> nat \<Rightarrow> repo_store \<Rightarrow> string \<Rightarrow> string \<Rightarrow> string \<Rightarrow> string \<Rightarrow> repo_store" where
  "index_upsert_record w io i s collection rkey cidstr json =
     (let rev_buf = (case parse_commit_at w s (rs_head s) of
                       Some cm \<Rightarrow> snprintf_cut REV_BUF (cm_rev cm) | None \<Rightarrow> '''');
          row = \<lparr>rr_collection = collection, rr_rkey = rkey, rr_cid = cidstr, rr_value = json,
                 rr_rev = (if rev_buf \<noteq> '''' then Some rev_buf else None),
                 rr_indexed_at = Some (io_now io)\<rparr>
      in if io_index io i then s\<lparr>rs_db := db_write (replace_record_row row) (rs_db s)\<rparr> else s)"

definition index_delete_record ::
  "repo_io \<Rightarrow> nat \<Rightarrow> repo_store \<Rightarrow> string \<Rightarrow> string \<Rightarrow> repo_store" where
  "index_delete_record io i s collection rkey =
     (if io_index io i then s\<lparr>rs_db := db_write (delete_record_row collection rkey) (rs_db s)\<rparr> else s)"

definition persist_head :: "wolfram \<Rightarrow> repo_io \<Rightarrow> repo_store \<Rightarrow> wf_status \<times> repo_store" where
  "persist_head w io s =
     (let cidstr = (if rs_head s \<noteq> [] then cid_string w (rs_head s) else None)
      in if \<not> io_head io then (WF_ERR_INTERNAL, s)
         else (WF_OK, s\<lparr>rs_db := db_write (\<lambda>t. t\<lparr>t_head := Some (cidstr, rs_override s)\<rparr>) (rs_db s)\<rparr>))"

text \<open>The result of \<open>COMMIT\<close> is not looked at.\<close>

definition commit_persist :: "wolfram \<Rightarrow> repo_io \<Rightarrow> repo_store \<Rightarrow> cid \<Rightarrow> wf_status \<times> repo_store" where
  "commit_persist w io s new_head =
     (let s1 = (set_root (s\<lparr>rs_head := new_head\<rparr>))\<lparr>rs_override := None\<rparr>
      in case sql_begin (io_begin io) (rs_db s1) of
           None \<Rightarrow> (WF_ERR_INTERNAL, s1)
         | Some db \<Rightarrow>
             (case persist_new_blocks w io (s1\<lparr>rs_db := db\<rparr>) of
                (st2, s2) \<Rightarrow>
                  (case (if st2 = WF_OK then persist_head w io s2 else (st2, s2)) of
                     (st3, s3) \<Rightarrow>
                       if st3 = WF_OK then (WF_OK, s3\<lparr>rs_db := sql_commit (io_commit io) (rs_db s3)\<rparr>)
                       else (st3, s3\<lparr>rs_db := sql_rollback (rs_db s3)\<rparr>))))"

definition set_rev_override :: "wolfram \<Rightarrow> repo_io \<Rightarrow> repo_store \<Rightarrow> string \<Rightarrow> wf_status \<times> repo_store" where
  "set_rev_override w io s new_rev = persist_head w io (s\<lparr>rs_override := Some new_rev\<rparr>)"

section \<open>Opening\<close>

text \<open>\<open>steps\<close> is how many of the statement's steps succeed, the last one included that finds no more rows.\<close>

fun load_all_blocks :: "wolfram \<Rightarrow> nat \<Rightarrow> block_row list \<Rightarrow> wf_status + car" where
  "load_all_blocks w 0 rows = Inl WF_ERR_INTERNAL"
| "load_all_blocks w (Suc steps) [] = Inr []"
| "load_all_blocks w (Suc steps) (r # rs) =
     (case cid_parse w (br_cid r) of
        None \<Rightarrow> Inl WF_ERR_PARSE
      | Some c \<Rightarrow>
          (case load_all_blocks w steps rs of
             Inl st \<Rightarrow> Inl st
           | Inr bs \<Rightarrow> Inr (\<lparr>cb_cid = c, cb_data = br_data r\<rparr> # bs)))"

text \<open>
  The outcomes of the statements of an opening: the reads of the meta row, of the blocks and of the
  head, and the insertion of a new store's meta row.
\<close>

record opening_io =
  oo_meta :: sql_fate
  oo_blocks :: bool
  oo_steps :: nat
  oo_head :: sql_fate
  oo_insert :: bool

text \<open>The head row, if one is read: a failed step counts as no row.\<close>

definition load_head :: "wolfram \<Rightarrow> opening_io \<Rightarrow> repo_tables \<Rightarrow> repo_store \<Rightarrow> wf_status + repo_store" where
  "load_head w io disk s =
     (if oo_head io = SQL_UNPREPARED then Inl WF_ERR_INTERNAL
      else (case (if oo_head io = SQL_RUNS then t_head disk else None) of
              None \<Rightarrow> Inr (set_root s)
            | Some (None, ov) \<Rightarrow> Inr (set_root (s\<lparr>rs_override := ov\<rparr>))
            | Some (Some hc, ov) \<Rightarrow>
                (case cid_parse w hc of
                   None \<Rightarrow> Inl WF_ERR_PARSE
                 | Some c \<Rightarrow> Inr (set_root (s\<lparr>rs_head := c, rs_override := ov\<rparr>)))))"

text \<open>
  The tables exist and have their columns. \<open>did\<close> and \<open>signing_key\<close> may be NULL; \<open>fresh\<close>
  is the generated key, if generating succeeds. A failed step of the first read counts as no meta
  row; the insertion then fails if there is one.
\<close>

definition metalbear_repo_store_open_with_key ::
  "wolfram \<Rightarrow> opening_io \<Rightarrow> repo_tables \<Rightarrow> string option \<Rightarrow> string option \<Rightarrow> signing_key option \<Rightarrow>
   signing_key option \<Rightarrow> wf_status + repo_store" where
  "metalbear_repo_store_open_with_key w io disk did handle signing_key fresh =
     (let given = (case did of Some d \<Rightarrow> d | None \<Rightarrow> '''');
          blank = \<lparr>rs_did = given, rs_handle = (case handle of Some h \<Rightarrow> h | None \<Rightarrow> ''''),
                   rs_key = (0, []), rs_didkey = '''',
                   rs_db = \<lparr>rd_now = disk, rd_disk = disk, rd_tx = False\<rparr>,
                   rs_car = [], rs_head = [], rs_root_count = 0, rs_persisted = 0,
                   rs_override = None, rs_callback = False, rs_events = []\<rparr>
      in if oo_meta io = SQL_UNPREPARED then Inl WF_ERR_INTERNAL
         else case (if oo_meta io = SQL_RUNS then t_meta disk else None) of
           Some (d, h, key) \<Rightarrow>
             if given \<noteq> '''' \<and> d \<noteq> '''' \<and> given \<noteq> d then Inl WF_ERR_INVALID_ARG
             else (case wl_didkey w key of
                     None \<Rightarrow> Inl WF_ERR_INTERNAL
                   | Some didkey \<Rightarrow>
                       if \<not> oo_blocks io then Inl WF_ERR_INTERNAL
                       else (case load_all_blocks w (oo_steps io) (t_blocks disk) of
                          Inl st \<Rightarrow> Inl st
                        | Inr blocks \<Rightarrow>
                            load_head w io disk
                              (blank\<lparr>rs_did := d, rs_handle := h, rs_key := key, rs_didkey := didkey,
                                     rs_car := blocks, rs_persisted := length blocks\<rparr>)))
         | None \<Rightarrow>
             if given = '''' then Inl WF_ERR_INVALID_ARG
             else (case (case signing_key of Some k \<Rightarrow> Some k | None \<Rightarrow> fresh) of
                     None \<Rightarrow> Inl WF_ERR_INTERNAL
                   | Some key \<Rightarrow>
                       (case wl_didkey w key of
                          None \<Rightarrow> Inl WF_ERR_INTERNAL
                        | Some didkey \<Rightarrow>
                            if \<not> oo_insert io \<or> t_meta disk \<noteq> None then Inl WF_ERR_INTERNAL
                            else Inr (set_root (blank\<lparr>rs_key := key, rs_didkey := didkey,
                                   rs_db := db_write (\<lambda>t. t\<lparr>t_meta := Some (given, rs_handle blank, key)\<rparr>)
                                              (rs_db blank)\<rparr>)))))"

text \<open>\<open>written\<close> is the outcome of the update, whose row is there.\<close>

definition metalbear_repo_store_set_handle ::
  "wolfram \<Rightarrow> bool \<Rightarrow> repo_store \<Rightarrow> string \<Rightarrow> wf_status \<times> repo_store" where
  "metalbear_repo_store_set_handle w written s handle =
     (if \<not> wl_handle_valid w handle then (WF_ERR_INVALID_ARG, s)
      else if \<not> written \<or> t_meta (rd_now (rs_db s)) = None then (WF_ERR_INTERNAL, s)
      else (WF_OK,
            s\<lparr>rs_handle := handle,
              rs_db := db_write (\<lambda>t. t\<lparr>t_meta := map_option (\<lambda>(d, h, k). (d, handle, k)) (t_meta t)\<rparr>)
                         (rs_db s)\<rparr>))"

definition metalbear_repo_store_get_stats :: "bool \<Rightarrow> repo_store \<Rightarrow> wf_status \<times> nat \<times> nat" where
  "metalbear_repo_store_get_stats read s =
     (if \<not> read then (WF_ERR_INTERNAL, 0, 0)
      else (WF_OK, length (t_blocks (rd_now (rs_db s))), length (t_records (rd_now (rs_db s)))))"

definition metalbear_repo_store_set_event_callback :: "repo_store \<Rightarrow> bool \<Rightarrow> repo_store" where
  "metalbear_repo_store_set_event_callback s installed = s\<lparr>rs_callback := installed\<rparr>"

section \<open>Exports\<close>

text \<open>
  \<open>ORDER BY repo_rev DESC, cid DESC\<close>, where NULL is the smallest value; \<open>repo_rev > ?\<close> does not
  hold of NULL.
\<close>

definition block_order :: "block_row \<Rightarrow> string list \<times> string" where
  "block_order r = ((case br_rev r of None \<Rightarrow> [] | Some t \<Rightarrow> [t]), br_cid r)"

definition rows_since :: "string option \<Rightarrow> block_row list \<Rightarrow> block_row list" where
  "rows_since since rows =
     (case since of
        None \<Rightarrow> rows
      | Some t \<Rightarrow>
          if t = '''' then rows
          else filter (\<lambda>r. case br_rev r of None \<Rightarrow> False | Some u \<Rightarrow> t < u) rows)"

fun collect_blocks :: "wolfram \<Rightarrow> car \<Rightarrow> string list \<Rightarrow> wf_status + car" where
  "collect_blocks w car [] = Inr []"
| "collect_blocks w car (t # ts) =
     (case cid_parse w t of
        None \<Rightarrow> Inl WF_ERR_PARSE
      | Some c \<Rightarrow>
          (case wl_find_block w car c of
             None \<Rightarrow> Inl WF_ERR_NOT_FOUND
           | Some b \<Rightarrow>
               (case collect_blocks w car ts of Inl st \<Rightarrow> Inl st | Inr bs \<Rightarrow> Inr (b # bs))))"

definition metalbear_repo_store_export ::
  "wolfram \<Rightarrow> repo_io \<Rightarrow> repo_store \<Rightarrow> string option \<Rightarrow> wf_status + byte list" where
  "metalbear_repo_store_export w io s since =
     (if rs_head s = [] then Inl WF_ERR_NOT_FOUND
      else if \<not> io_read io then Inl WF_ERR_INTERNAL
      else (case collect_blocks w (rs_car s)
                   (map br_cid (rev (sort_key block_order (rows_since since (t_blocks (rd_now (rs_db s))))))) of
              Inl st \<Rightarrow> Inl st
            | Inr bs \<Rightarrow> wl_car_write w [rs_head s] bs))"

definition metalbear_repo_store_export_commit :: "wolfram \<Rightarrow> repo_store \<Rightarrow> wf_status + byte list" where
  "metalbear_repo_store_export_commit w s =
     (if rs_head s = [] then Inl WF_ERR_NOT_FOUND
      else (case wl_find_block w (rs_car s) (rs_head s) of
              None \<Rightarrow> Inl WF_ERR_NOT_FOUND
            | Some b \<Rightarrow> wl_car_write w [rs_head s] [b]))"

text \<open>The blocks asked for, each once; \<open>taken\<close> are the ones already selected.\<close>

fun select_blocks :: "wolfram \<Rightarrow> car \<Rightarrow> car \<Rightarrow> string list \<Rightarrow> wf_status + car" where
  "select_blocks w car taken [] = Inr taken"
| "select_blocks w car taken (t # ts) =
     (case cid_parse w t of
        None \<Rightarrow> Inl WF_ERR_INVALID_ARG
      | Some c \<Rightarrow>
          if c \<in> cb_cid ` set taken then select_blocks w car taken ts
          else (case wl_find_block w car c of
                  None \<Rightarrow> Inl WF_ERR_NOT_FOUND
                | Some b \<Rightarrow> select_blocks w car (taken @ [b]) ts))"

definition metalbear_repo_store_get_blocks ::
  "wolfram \<Rightarrow> repo_store \<Rightarrow> string list \<Rightarrow> wf_status + byte list" where
  "metalbear_repo_store_get_blocks w s cids =
     (if cids = [] then Inl WF_ERR_INVALID_ARG
      else if rs_head s = [] then Inl WF_ERR_NOT_FOUND
      else (case select_blocks w (rs_car s) [] cids of
              Inl st \<Rightarrow> Inl st
            | Inr bs \<Rightarrow> wl_car_write w [] bs))"

fun find_all :: "wolfram \<Rightarrow> car \<Rightarrow> cid list \<Rightarrow> car option" where
  "find_all w car [] = Some []"
| "find_all w car (c # cs) =
     (case wl_find_block w car c of
        None \<Rightarrow> None
      | Some b \<Rightarrow> map_option ((#) b) (find_all w car cs))"

definition metalbear_repo_store_get_record_car ::
  "wolfram \<Rightarrow> repo_store \<Rightarrow> string \<Rightarrow> string \<Rightarrow> wf_status + byte list" where
  "metalbear_repo_store_get_record_car w s collection rkey =
     (if rs_head s = [] then Inl WF_ERR_NOT_FOUND
      else (case wl_find_block w (rs_car s) (rs_head s) of
              None \<Rightarrow> Inl WF_ERR_NOT_FOUND
            | Some commit_block \<Rightarrow>
                (case wl_record_proof w (rs_car s) (rs_head s) collection rkey of
                   Inl st \<Rightarrow> Inl st
                 | Inr (proof_cids, record_cid) \<Rightarrow>
                     (case find_all w (rs_car s) (if record_cid \<noteq> [] then [record_cid] else []) of
                        None \<Rightarrow> Inl WF_ERR_INTERNAL
                      | Some leaf \<Rightarrow>
                          (case find_all w (rs_car s) proof_cids of
                             None \<Rightarrow> Inl WF_ERR_INTERNAL
                           | Some path \<Rightarrow>
                               wl_car_write w [rs_head s] (commit_block # path @ leaf))))))"

section \<open>Events\<close>

definition commit_event ::
  "repo_store \<Rightarrow> wf_commit \<Rightarrow> wf_commit option \<Rightarrow> repo_store_op list \<Rightarrow> byte list \<Rightarrow> repo_store_event" where
  "commit_event s current previous ops blocks =
     \<lparr>re_kind = METALBEAR_REPO_STORE_EVENT_COMMIT, re_did = rs_did s,
      re_commit_cid = rs_head s, re_rev = cm_rev current, re_since = map_option cm_rev previous,
      re_prev_data = (case previous of Some p \<Rightarrow> cm_data p | None \<Rightarrow> []),
      re_has_prev_data = (previous \<noteq> None), re_ops = ops, re_blocks = blocks\<rparr>"

definition emit_commit_event_ops ::
  "wolfram \<Rightarrow> repo_io \<Rightarrow> repo_store \<Rightarrow> cid \<Rightarrow> repo_store_op list \<Rightarrow> repo_store" where
  "emit_commit_event_ops w io s old_head ops =
     (if \<not> rs_callback s then s
      else (case parse_commit_at w s (rs_head s) of
              None \<Rightarrow> s
            | Some current \<Rightarrow>
                (case metalbear_repo_store_export w io s
                        (map_option cm_rev (parse_commit_at w s old_head)) of
                   Inl _ \<Rightarrow> s
                 | Inr blocks \<Rightarrow>
                     s\<lparr>rs_events := rs_events s @
                       [commit_event s current (parse_commit_at w s old_head) ops blocks]\<rparr>)))"

definition emit_commit_event ::
  "wolfram \<Rightarrow> repo_io \<Rightarrow> repo_store \<Rightarrow> cid \<Rightarrow> string \<Rightarrow> string \<Rightarrow> string \<Rightarrow> cid option \<Rightarrow> cid option \<Rightarrow>
   repo_store" where
  "emit_commit_event w io s old_head action collection rkey c p =
     emit_commit_event_ops w io s old_head
       [\<lparr>ro_action = action, ro_collection = collection, ro_rkey = rkey,
         ro_cid = (case c of Some x \<Rightarrow> x | None \<Rightarrow> []), ro_has_cid = (c \<noteq> None),
         ro_prev = (case p of Some x \<Rightarrow> x | None \<Rightarrow> []), ro_has_prev = (p \<noteq> None)\<rparr>]"

definition emit_sync_event :: "wolfram \<Rightarrow> repo_store \<Rightarrow> repo_store" where
  "emit_sync_event w s =
     (if \<not> rs_callback s then s
      else (case parse_commit_at w s (rs_head s) of
              None \<Rightarrow> s
            | Some current \<Rightarrow>
                (case metalbear_repo_store_export_commit w s of
                   Inl _ \<Rightarrow> s
                 | Inr blocks \<Rightarrow>
                     s\<lparr>rs_events := rs_events s @
                       [\<lparr>re_kind = METALBEAR_REPO_STORE_EVENT_SYNC, re_did = rs_did s,
                         re_commit_cid = rs_head s, re_rev = cm_rev current, re_since = None,
                         re_prev_data = [], re_has_prev_data = False, re_ops = [],
                         re_blocks = blocks\<rparr>]\<rparr>)))"

section \<open>Applying a batch\<close>

definition action_of :: "string \<Rightarrow> write_action option" where
  "action_of t =
     (if t = ''com.atproto.repo.applyWrites#create'' then Some WF_REPO_WRITE_CREATE
      else if t = ''com.atproto.repo.applyWrites#update'' then Some WF_REPO_WRITE_UPDATE
      else if t = ''com.atproto.repo.applyWrites#delete'' then Some WF_REPO_WRITE_DELETE
      else None)"

definition stage_rkey ::
  "wolfram \<Rightarrow> repo_io \<Rightarrow> nat \<Rightarrow> write_action \<Rightarrow> string option \<Rightarrow> wf_status + string" where
  "stage_rkey w io i action rk =
     (case rk of
        Some r \<Rightarrow>
          if r \<noteq> '''' then (if wl_record_key_valid w r then Inr r else Inl WF_ERR_INVALID_ARG)
          else if action \<noteq> WF_REPO_WRITE_CREATE then Inl WF_ERR_INVALID_ARG
          else (case io_tid io i of None \<Rightarrow> Inl WF_ERR_INTERNAL | Some t \<Rightarrow> Inr t)
      | None \<Rightarrow>
          if action \<noteq> WF_REPO_WRITE_CREATE then Inl WF_ERR_INVALID_ARG
          else (case io_tid io i of None \<Rightarrow> Inl WF_ERR_INTERNAL | Some t \<Rightarrow> Inr t))"

text \<open>One turn of the staging loop: the write and the text of its value.\<close>

definition stage_write ::
  "wolfram \<Rightarrow> repo_io \<Rightarrow> nat \<Rightarrow> cjson \<Rightarrow> wf_status + repo_write \<times> string" where
  "stage_write w io i op =
     (case cj_string op ''$type'' of
        None \<Rightarrow> Inl WF_ERR_INVALID_ARG
      | Some t \<Rightarrow>
          (case cj_string op ''collection'' of
             None \<Rightarrow> Inl WF_ERR_INVALID_ARG
           | Some collection \<Rightarrow>
               if collection = '''' then Inl WF_ERR_INVALID_ARG
               else (case action_of t of
                       None \<Rightarrow> Inl WF_ERR_INVALID_ARG
                     | Some action \<Rightarrow>
                         (case stage_rkey w io i action (cj_string op ''rkey'') of
                            Inl st \<Rightarrow> Inl st
                          | Inr rkey \<Rightarrow>
                              if action = WF_REPO_WRITE_DELETE
                              then Inr (\<lparr>rw_action = action, rw_collection = collection,
                                         rw_rkey = rkey, rw_body = []\<rparr>, '''')
                              else (case cj_item op ''value'' of
                                      None \<Rightarrow> Inl WF_ERR_INVALID_ARG
                                    | Some val \<Rightarrow>
                                        let rec_json = wl_print w val in
                                        if \<not> record_type_matches w rec_json collection
                                        then Inl WF_ERR_INVALID_ARG
                                        else (case encode_record w rec_json of
                                                Inl st \<Rightarrow> Inl st
                                              | Inr body \<Rightarrow>
                                                  Inr (\<lparr>rw_action = action, rw_collection = collection,
                                                        rw_rkey = rkey, rw_body = body\<rparr>, rec_json)))))))"

fun stage_all ::
  "wolfram \<Rightarrow> repo_io \<Rightarrow> nat \<Rightarrow> cjson list \<Rightarrow> wf_status + (repo_write \<times> string) list" where
  "stage_all w io i [] = Inr []"
| "stage_all w io i (op # ops) =
     (case stage_write w io i op of
        Inl st \<Rightarrow> Inl st
      | Inr x \<Rightarrow> (case stage_all w io (Suc i) ops of Inl st \<Rightarrow> Inl st | Inr xs \<Rightarrow> Inr (x # xs)))"

text \<open>The loop after the commit: the index, the firehose's operations and the results.\<close>

fun index_batch ::
  "wolfram \<Rightarrow> repo_io \<Rightarrow> (nat \<Rightarrow> cid) \<Rightarrow> nat \<Rightarrow> (repo_write \<times> string) list \<Rightarrow> repo_store \<Rightarrow> repo_store" where
  "index_batch w io outs i [] s = s"
| "index_batch w io outs i ((b, json) # rest) s =
     index_batch w io outs (Suc i) rest
       (if rw_action b = WF_REPO_WRITE_DELETE
        then index_delete_record io i s (rw_collection b) (rw_rkey b)
        else index_upsert_record w io i s (rw_collection b) (rw_rkey b)
               (case cid_string w (outs i) of Some c \<Rightarrow> c | None \<Rightarrow> '''') json)"

definition batch_op :: "(nat \<Rightarrow> cid) \<Rightarrow> nat \<Rightarrow> repo_write \<Rightarrow> repo_store_op" where
  "batch_op outs i b =
     \<lparr>ro_action = (case rw_action b of
                     WF_REPO_WRITE_CREATE \<Rightarrow> ''create''
                   | WF_REPO_WRITE_UPDATE \<Rightarrow> ''update''
                   | WF_REPO_WRITE_DELETE \<Rightarrow> ''delete''),
      ro_collection = rw_collection b, ro_rkey = rw_rkey b, ro_cid = outs i,
      ro_has_cid = (rw_action b \<noteq> WF_REPO_WRITE_DELETE), ro_prev = [], ro_has_prev = False\<rparr>"

definition batch_result :: "wolfram \<Rightarrow> string \<Rightarrow> (nat \<Rightarrow> cid) \<Rightarrow> nat \<Rightarrow> repo_write \<Rightarrow> cjson" where
  "batch_result w did outs i b =
     (if rw_action b = WF_REPO_WRITE_DELETE
      then CObject [(''$type'', CString ''com.atproto.repo.applyWrites#deleteResult'')]
      else CObject
        [(''$type'', CString (if rw_action b = WF_REPO_WRITE_CREATE
                              then ''com.atproto.repo.applyWrites#createResult''
                              else ''com.atproto.repo.applyWrites#updateResult'')),
         (''uri'', CString (make_uri did (rw_collection b) (rw_rkey b))),
         (''cid'', CString (case cid_string w (outs i) of Some c \<Rightarrow> c | None \<Rightarrow> '''')),
         (''validationStatus'', CString ''unknown'')])"

definition MAX_WRITES :: nat where "MAX_WRITES = 200"

definition prev_of :: "repo_store \<Rightarrow> cid option" where
  "prev_of s = (if rs_head s \<noteq> [] then Some (rs_head s) else None)"

text \<open>The batch to the firehose, and the answer: the commit's CID, its revision, the results printed.\<close>

definition announce_batch ::
  "wolfram \<Rightarrow> repo_io \<Rightarrow> cid \<Rightarrow> (nat \<Rightarrow> cid) \<Rightarrow> repo_write list \<Rightarrow> repo_store \<Rightarrow> repo_store" where
  "announce_batch w io old_head outs batch s =
     emit_commit_event_ops w io s old_head (map (\<lambda>(i, b). batch_op outs i b) (enumerate 0 batch))"

definition answer_batch ::
  "wolfram \<Rightarrow> string \<Rightarrow> (nat \<Rightarrow> cid) \<Rightarrow> repo_write list \<Rightarrow> repo_store \<Rightarrow>
   (wf_status + string \<times> string option \<times> string) \<times> repo_store" where
  "answer_batch w did outs batch s =
     (case head_cid_string w s of
        None \<Rightarrow> (Inl WF_ERR_ALLOC, s)
      | Some c \<Rightarrow>
          (Inr (c,
                (if rs_head s = [] then None else map_option cm_rev (commit_of w s (rs_head s))),
                wl_print w (CArray (map (\<lambda>(i, b). batch_result w did outs i b) (enumerate 0 batch)))), s))"

text \<open>What happens once every write is staged.\<close>

definition land_batch ::
  "wolfram \<Rightarrow> repo_io \<Rightarrow> repo_store \<Rightarrow> (repo_write \<times> string) list \<Rightarrow>
   (wf_status + string \<times> string option \<times> string) \<times> repo_store" where
  "land_batch w io s staged =
     (case wl_apply_writes w (rs_car s) (prev_of s) (rs_did s) (map fst staged) (rs_key s) of
        (Inl st, car) \<Rightarrow> (Inl st, s\<lparr>rs_car := car\<rparr>)
      | (Inr (new_commit, outs), car) \<Rightarrow>
          (case commit_persist w io (s\<lparr>rs_car := car\<rparr>) new_commit of
             (st, s1) \<Rightarrow>
               if st \<noteq> WF_OK then (Inl st, s1)
               else answer_batch w (rs_did s) outs (map fst staged)
                      (announce_batch w io (rs_head s) outs (map fst staged)
                        (index_batch w io outs 0 staged s1))))"

definition apply_writes_locked ::
  "wolfram \<Rightarrow> repo_io \<Rightarrow> repo_store \<Rightarrow> string \<Rightarrow> string option \<Rightarrow>
   (wf_status + string \<times> string option \<times> string) \<times> repo_store" where
  "apply_writes_locked w io s writes_json swap_commit =
     (case wl_parse w writes_json of
        Some (CArray ops) \<Rightarrow>
          if check_swap swap_commit (head_cid_string w s) \<noteq> WF_OK
          then (Inl (check_swap swap_commit (head_cid_string w s)), s)
          else if length ops > MAX_WRITES then (Inl WF_ERR_INVALID_ARG, s)
          else (case stage_all w io 0 ops of
                  Inl st \<Rightarrow> (Inl st, s)
                | Inr staged \<Rightarrow> land_batch w io s staged)
      | _ \<Rightarrow> (Inl WF_ERR_INVALID_ARG, s))"

definition metalbear_repo_store_apply_writes ::
  "wolfram \<Rightarrow> repo_io \<Rightarrow> repo_store \<Rightarrow> string \<Rightarrow> string option \<Rightarrow>
   (wf_status + string \<times> string option \<times> string) \<times> repo_store" where
  "metalbear_repo_store_apply_writes w io s writes_json swap_commit =
     apply_writes_locked w io s writes_json swap_commit"

section \<open>One record\<close>

definition backlink_path_for_collection :: "string \<Rightarrow> string option" where
  "backlink_path_for_collection collection =
     (if collection = ''app.bsky.graph.follow'' \<or> collection = ''app.bsky.graph.block''
      then Some ''$.subject''
      else if collection = ''app.bsky.feed.like'' \<or> collection = ''app.bsky.feed.repost''
      then Some ''$.subject.uri'' else None)"

definition backlink_target :: "wolfram \<Rightarrow> string \<Rightarrow> string \<Rightarrow> string option" where
  "backlink_target w record_json path =
     (case wl_parse w record_json of
        None \<Rightarrow> None
      | Some j \<Rightarrow>
          (case (if path = ''$.subject'' then cj_string j ''subject''
                 else case cj_item j ''subject'' of
                        Some subject \<Rightarrow> cj_string subject ''uri'' | None \<Rightarrow> None) of
             Some t \<Rightarrow> if t \<noteq> '''' then Some t else None
           | None \<Rightarrow> None))"

text \<open>The rows the query gives, in the order of the table; a failing query gives none.\<close>

definition find_backlink_conflicts ::
  "wolfram \<Rightarrow> repo_io \<Rightarrow> repo_store \<Rightarrow> string \<Rightarrow> string \<Rightarrow> string \<Rightarrow> string list" where
  "find_backlink_conflicts w io s collection path target =
     (if \<not> io_read io then []
      else map rr_rkey
             (filter (\<lambda>r. rr_collection r = collection \<and> wl_json_extract w (rr_value r) path = Some target)
               (t_records (rd_now (rs_db s)))))"

text \<open>The first conflict with the record's own key is overwritten by the last one.\<close>

fun swap_out :: "string \<Rightarrow> string \<Rightarrow> string list \<Rightarrow> string list" where
  "swap_out rkey final [] = []"
| "swap_out rkey final (c # cs) = (if c = rkey then final # cs else c # swap_out rkey final cs)"

definition drop_conflict :: "string \<Rightarrow> string list \<Rightarrow> string list" where
  "drop_conflict rkey cs = (if rkey \<in> set cs then butlast (swap_out rkey (last cs) cs) else cs)"

definition delete_op :: "string \<Rightarrow> string \<Rightarrow> cjson" where
  "delete_op collection rkey =
     CObject [(''$type'', CString ''com.atproto.repo.applyWrites#delete''),
              (''collection'', CString collection), (''rkey'', CString rkey)]"

definition create_op :: "string \<Rightarrow> string \<Rightarrow> cjson \<Rightarrow> cjson" where
  "create_op collection rkey j =
     CObject [(''$type'', CString ''com.atproto.repo.applyWrites#create''),
              (''collection'', CString collection), (''rkey'', CString rkey), (''value'', j)]"

definition create_record_with_backlink_cleanup ::
  "wolfram \<Rightarrow> repo_io \<Rightarrow> repo_store \<Rightarrow> string \<Rightarrow> string \<Rightarrow> string \<Rightarrow> string list \<Rightarrow>
   (wf_status + string \<times> string) \<times> repo_store" where
  "create_record_with_backlink_cleanup w io s collection rkey record_json conflicts =
     (case wl_parse w record_json of
        None \<Rightarrow> (Inl WF_ERR_ALLOC, s)
      | Some j \<Rightarrow>
          (case apply_writes_locked w io s
                  (wl_print w (CArray (map (delete_op collection) conflicts @ [create_op collection rkey j])))
                  None of
             (Inl st, s1) \<Rightarrow> (Inl st, s1)
           | (Inr (c, r, results_json), s1) \<Rightarrow>
               (case wl_parse w results_json of
                  Some (CArray results) \<Rightarrow>
                    if results = [] then (Inl WF_ERR_INTERNAL, s1)
                    else (case (cj_string (last results) ''uri'', cj_string (last results) ''cid'') of
                            (Some uri, Some cid) \<Rightarrow> (Inr (uri, cid), s1)
                          | _ \<Rightarrow> (Inl WF_ERR_INTERNAL, s1))
                | _ \<Rightarrow> (Inl WF_ERR_INTERNAL, s1))))"

text \<open>What follows a signed commit that wrote one record, shared by creating and putting.\<close>

definition land_record ::
  "wolfram \<Rightarrow> repo_io \<Rightarrow> repo_store \<Rightarrow> cid \<Rightarrow> string \<Rightarrow> string \<Rightarrow> string \<Rightarrow> string \<Rightarrow> cid option \<Rightarrow>
   (wf_status + cid \<times> cid) \<times> car \<Rightarrow> (wf_status + string \<times> string) \<times> repo_store" where
  "land_record w io s old_head action collection rkey record_json prev outcome =
     (case outcome of
        (Inl st, car) \<Rightarrow> (Inl st, s\<lparr>rs_car := car\<rparr>)
      | (Inr (out_commit, out_record), car) \<Rightarrow>
          (case commit_persist w io (s\<lparr>rs_car := car\<rparr>) out_commit of
             (st, s1) \<Rightarrow>
               if st \<noteq> WF_OK then (Inl st, s1)
               else (case cid_string w out_record of
                       None \<Rightarrow> (Inl WF_ERR_ALLOC, s1)
                     | Some c \<Rightarrow>
                         (Inr (make_uri (rs_did s) collection rkey, c),
                          emit_commit_event w io (index_upsert_record w io 0 s1 collection rkey c record_json)
                            old_head action collection rkey (Some out_record) prev))))"

definition create_record_locked ::
  "wolfram \<Rightarrow> repo_io \<Rightarrow> repo_store \<Rightarrow> string \<Rightarrow> string option \<Rightarrow> string \<Rightarrow> string option \<Rightarrow>
   (wf_status + string \<times> string) \<times> repo_store" where
  "create_record_locked w io s collection rkey_or_null record_json swap_commit =
     (if collection = '''' then (Inl WF_ERR_INVALID_ARG, s)
      else
        let given = (case rkey_or_null of Some r \<Rightarrow> r | None \<Rightarrow> '''')
        in case (if given = '''' then io_tid io 0
                 else if wl_record_key_valid w given then Some given else None) of
             None \<Rightarrow> (Inl WF_ERR_INVALID_ARG, s)
           | Some rkey \<Rightarrow>
               if \<not> record_type_matches w record_json collection then (Inl WF_ERR_INVALID_ARG, s)
               else if check_swap swap_commit (head_cid_string w s) \<noteq> WF_OK
               then (Inl (check_swap swap_commit (head_cid_string w s)), s)
               else
                 let conflicts =
                       (case backlink_path_for_collection collection of
                          None \<Rightarrow> []
                        | Some path \<Rightarrow>
                            (case backlink_target w record_json path of
                               None \<Rightarrow> []
                             | Some target \<Rightarrow>
                                 drop_conflict rkey (find_backlink_conflicts w io s collection path target)))
                 in if conflicts \<noteq> []
                    then create_record_with_backlink_cleanup w io s collection rkey record_json conflicts
                    else (case encode_record w record_json of
                            Inl st \<Rightarrow> (Inl st, s)
                          | Inr cbor \<Rightarrow>
                              land_record w io s (rs_head s) ''create'' collection rkey record_json None
                                (wl_create_record w (rs_car s) (prev_of s) (rs_did s) collection rkey cbor
                                  (rs_key s))))"

definition metalbear_repo_store_create_record ::
  "wolfram \<Rightarrow> repo_io \<Rightarrow> repo_store \<Rightarrow> string \<Rightarrow> string option \<Rightarrow> string \<Rightarrow> string option \<Rightarrow>
   (wf_status + string \<times> string) \<times> repo_store" where
  "metalbear_repo_store_create_record w io s collection rkey_or_null record_json swap_commit =
     create_record_locked w io s collection rkey_or_null record_json swap_commit"

definition swap_record_ok :: "wolfram \<Rightarrow> string option \<Rightarrow> cid option \<Rightarrow> wf_status" where
  "swap_record_ok w swap_record existing =
     (case swap_record of
        None \<Rightarrow> WF_OK
      | Some r \<Rightarrow>
          if r = '''' then WF_OK
          else (case existing of
                  None \<Rightarrow> WF_ERR_CONFLICT
                | Some c \<Rightarrow> check_swap swap_record (cid_string w c)))"

definition put_record_locked ::
  "wolfram \<Rightarrow> repo_io \<Rightarrow> repo_store \<Rightarrow> string \<Rightarrow> string \<Rightarrow> string \<Rightarrow> string option \<Rightarrow> string option \<Rightarrow>
   (wf_status + string \<times> string) \<times> repo_store" where
  "put_record_locked w io s collection rkey record_json swap_commit swap_record =
     (if collection = '''' \<or> rkey = '''' \<or> \<not> wl_record_key_valid w rkey \<or>
         \<not> record_type_matches w record_json collection
      then (Inl WF_ERR_INVALID_ARG, s)
      else
        (case (case get_record_cbor w s collection rkey of
                 Inr (_, c) \<Rightarrow> Inr (Some c)
               | Inl st \<Rightarrow> if st = WF_ERR_NOT_FOUND then Inr None else Inl st) of
           Inl st \<Rightarrow> (Inl st, s)
         | Inr existing \<Rightarrow>
             if check_swap swap_commit (head_cid_string w s) \<noteq> WF_OK
             then (Inl (check_swap swap_commit (head_cid_string w s)), s)
             else if swap_record_ok w swap_record existing \<noteq> WF_OK
             then (Inl (swap_record_ok w swap_record existing), s)
             else (case encode_record w record_json of
                     Inl st \<Rightarrow> (Inl st, s)
                   | Inr cbor \<Rightarrow>
                       if existing \<noteq> None \<and> wl_cid_of_block w cbor = existing
                       then (case cid_string w (the existing) of
                               None \<Rightarrow> (Inl WF_ERR_ALLOC, s)
                             | Some c \<Rightarrow> (Inr (make_uri (rs_did s) collection rkey, c), s))
                       else if existing \<noteq> None
                       then land_record w io s (rs_head s) ''update'' collection rkey record_json existing
                              (wl_update_record w (rs_car s) (rs_head s) (rs_did s) collection rkey cbor
                                (rs_key s))
                       else land_record w io s (rs_head s) ''create'' collection rkey record_json None
                              (wl_create_record w (rs_car s) (prev_of s) (rs_did s) collection rkey cbor
                                (rs_key s)))))"

definition metalbear_repo_store_put_record ::
  "wolfram \<Rightarrow> repo_io \<Rightarrow> repo_store \<Rightarrow> string \<Rightarrow> string \<Rightarrow> string \<Rightarrow> string option \<Rightarrow> string option \<Rightarrow>
   (wf_status + string \<times> string) \<times> repo_store" where
  "metalbear_repo_store_put_record w io s collection rkey record_json swap_commit swap_record =
     put_record_locked w io s collection rkey record_json swap_commit swap_record"

definition delete_record_locked ::
  "wolfram \<Rightarrow> repo_io \<Rightarrow> repo_store \<Rightarrow> string \<Rightarrow> string \<Rightarrow> string option \<Rightarrow> string option \<Rightarrow>
   wf_status \<times> repo_store" where
  "delete_record_locked w io s collection rkey swap_commit swap_record =
     (if collection = '''' \<or> rkey = '''' \<or> \<not> wl_record_key_valid w rkey then (WF_ERR_INVALID_ARG, s)
      else if rs_head s = [] then (WF_ERR_NOT_FOUND, s)
      else (case get_record_cbor w s collection rkey of
              Inl st \<Rightarrow> (st, s)
            | Inr (_, c) \<Rightarrow>
                if check_swap swap_commit (head_cid_string w s) \<noteq> WF_OK
                then (check_swap swap_commit (head_cid_string w s), s)
                else if swap_record_ok w swap_record (Some c) \<noteq> WF_OK
                then (swap_record_ok w swap_record (Some c), s)
                else (case wl_delete_record w (rs_car s) (rs_head s) (rs_did s) collection rkey (rs_key s) of
                        (Inl st, car) \<Rightarrow> (st, s\<lparr>rs_car := car\<rparr>)
                      | (Inr out_commit, car) \<Rightarrow>
                          (case commit_persist w io (s\<lparr>rs_car := car\<rparr>) out_commit of
                             (st, s1) \<Rightarrow>
                               if st \<noteq> WF_OK then (st, s1)
                               else (WF_OK,
                                     emit_commit_event w io (index_delete_record io 0 s1 collection rkey)
                                       (rs_head s) ''delete'' collection rkey None (Some c))))))"

definition metalbear_repo_store_delete_record ::
  "wolfram \<Rightarrow> repo_io \<Rightarrow> repo_store \<Rightarrow> string \<Rightarrow> string \<Rightarrow> string option \<Rightarrow> string option \<Rightarrow>
   wf_status \<times> repo_store" where
  "metalbear_repo_store_delete_record w io s collection rkey swap_commit swap_record =
     delete_record_locked w io s collection rkey swap_commit swap_record"

definition metalbear_repo_store_get_record ::
  "wolfram \<Rightarrow> repo_store \<Rightarrow> string \<Rightarrow> string \<Rightarrow> wf_status + string \<times> string" where
  "metalbear_repo_store_get_record w s collection rkey =
     (if collection = '''' \<or> rkey = '''' then Inl WF_ERR_INVALID_ARG
      else (case get_record_cbor w s collection rkey of
              Inl st \<Rightarrow> Inl st
            | Inr (data, c) \<Rightarrow>
                (case wl_cbor_parse w data of
                   None \<Rightarrow> Inl WF_ERR_PARSE
                 | Some item \<Rightarrow>
                     (case cbor_to_json (wl_codecs w) item of
                        None \<Rightarrow> Inl WF_ERR_PARSE
                      | Some j \<Rightarrow>
                          (case cid_string w c of
                             None \<Rightarrow> Inl WF_ERR_ALLOC
                           | Some t \<Rightarrow> Inr (wl_print w j, t))))))"

section \<open>Reading the index\<close>

definition page_limit :: "int \<Rightarrow> nat \<Rightarrow> nat" where
  "page_limit limit dflt = (if limit \<le> 0 \<or> limit > 100 then dflt else nat limit)"

text \<open>The four queries, without their LIMIT.\<close>

definition listed_rows :: "record_row list \<Rightarrow> string \<Rightarrow> string option \<Rightarrow> bool \<Rightarrow> record_row list" where
  "listed_rows rows collection cursor reverse =
     (let mine = sort_key rr_rkey (filter (\<lambda>r. rr_collection r = collection) rows)
      in if reverse
         then (case cursor of None \<Rightarrow> mine | Some c \<Rightarrow> filter (\<lambda>r. c < rr_rkey r) mine)
         else (case cursor of None \<Rightarrow> rev mine | Some c \<Rightarrow> filter (\<lambda>r. rr_rkey r < c) (rev mine)))"

text \<open>The rows of a page and the cursor of the next one.\<close>

definition records_page ::
  "record_row list \<Rightarrow> string \<Rightarrow> string option \<Rightarrow> bool \<Rightarrow> nat \<Rightarrow> record_row list \<times> string option" where
  "records_page rows collection cursor reverse limit =
     (let fetched = take (limit + 1) (listed_rows rows collection cursor reverse);
          page = take limit fetched
      in (page, if length fetched > limit then Some (rr_rkey (last page)) else None))"

definition value_member :: "wolfram \<Rightarrow> string \<Rightarrow> (string \<times> cjson) list" where
  "value_member w text = (case wl_parse w text of Some j \<Rightarrow> [(''value'', j)] | None \<Rightarrow> [])"

definition list_records_locked ::
  "wolfram \<Rightarrow> repo_io \<Rightarrow> repo_store \<Rightarrow> string \<Rightarrow> string option \<Rightarrow> bool \<Rightarrow> int \<Rightarrow> wf_status + string" where
  "list_records_locked w io s collection cursor reverse limit =
     (if collection = '''' then Inl WF_ERR_INVALID_ARG
      else if \<not> io_read io then Inl WF_ERR_INTERNAL
      else
        (case records_page (t_records (rd_now (rs_db s))) collection
                (if cursor = Some '''' then None else cursor) reverse (page_limit limit 50) of
           (page, nxt) \<Rightarrow>
             Inr (wl_print w (CObject
               ([(''records'', CArray (map (\<lambda>r. CObject
                   ([(''uri'', CString (make_uri (rs_did s) collection (rr_rkey r))),
                     (''cid'', CString (rr_cid r))] @ value_member w (rr_value r))) page))] @
                (case nxt of Some c \<Rightarrow> [(''cursor'', CString c)] | None \<Rightarrow> []))))))"

definition metalbear_repo_store_list_records ::
  "wolfram \<Rightarrow> repo_io \<Rightarrow> repo_store \<Rightarrow> string \<Rightarrow> string option \<Rightarrow> bool \<Rightarrow> int \<Rightarrow> wf_status + string" where
  "metalbear_repo_store_list_records w io s collection cursor reverse limit =
     list_records_locked w io s collection cursor reverse limit"

definition recent_rows :: "record_row list \<Rightarrow> string \<Rightarrow> record_row list" where
  "recent_rows rows since =
     (if \<exists>r \<in> set rows. \<exists>t \<in> set_option (rr_rev r). t \<le> since
      then sort_key (\<lambda>r. the (rr_rev r))
             (filter (\<lambda>r. case rr_rev r of Some t \<Rightarrow> since < t | None \<Rightarrow> False) rows)
      else [])"

definition records_since_rev_locked ::
  "wolfram \<Rightarrow> repo_io \<Rightarrow> repo_store \<Rightarrow> string \<Rightarrow> int \<Rightarrow> wf_status + string" where
  "records_since_rev_locked w io s since limit =
     (if since = '''' then Inl WF_ERR_INVALID_ARG
      else if \<not> io_read io then Inl WF_ERR_INTERNAL
      else Inr (wl_print w (CObject [(''records'', CArray (map (\<lambda>r. CObject
             ([(''uri'', CString (make_uri (rs_did s) (rr_collection r) (rr_rkey r))),
               (''cid'', CString (rr_cid r)), (''collection'', CString (rr_collection r)),
               (''indexedAt'', CString (case rr_indexed_at r of Some t \<Rightarrow> t | None \<Rightarrow> ''''))] @
              value_member w (rr_value r)))
            (take (page_limit limit 10) (recent_rows (t_records (rd_now (rs_db s))) since))))])))"

definition metalbear_repo_store_records_since_rev ::
  "wolfram \<Rightarrow> repo_io \<Rightarrow> repo_store \<Rightarrow> string \<Rightarrow> int \<Rightarrow> wf_status + string" where
  "metalbear_repo_store_records_since_rev w io s since limit = records_since_rev_locked w io s since limit"

text \<open>The visitor threads a context and stops the walk with its first failure.\<close>

fun visit_rows ::
  "(string \<Rightarrow> string \<Rightarrow> string \<Rightarrow> 'c \<Rightarrow> wf_status \<times> 'c) \<Rightarrow> record_row list \<Rightarrow> 'c \<Rightarrow> wf_status \<times> 'c" where
  "visit_rows visit [] c = (WF_OK, c)"
| "visit_rows visit (r # rs) c =
     (case visit (rr_collection r) (rr_rkey r) (rr_value r) c of
        (st, c') \<Rightarrow> if st = WF_OK then visit_rows visit rs c' else (st, c'))"

definition metalbear_repo_store_foreach_record ::
  "repo_io \<Rightarrow> repo_store \<Rightarrow> (string \<Rightarrow> string \<Rightarrow> string \<Rightarrow> 'c \<Rightarrow> wf_status \<times> 'c) \<Rightarrow> 'c \<Rightarrow> wf_status \<times> 'c" where
  "metalbear_repo_store_foreach_record io s visit c =
     (if \<not> io_read io then (WF_ERR_INTERNAL, c)
      else visit_rows visit
             (sort_key (\<lambda>r. (rr_collection r, rr_rkey r)) (t_records (rd_now (rs_db s)))) c)"

definition metalbear_repo_store_get_head :: "wolfram \<Rightarrow> repo_store \<Rightarrow> wf_status + string \<times> string" where
  "metalbear_repo_store_get_head w s =
     (if rs_head s = [] then Inl WF_ERR_NOT_FOUND
      else (case cid_string w (rs_head s) of
              None \<Rightarrow> Inl WF_ERR_ALLOC
            | Some c \<Rightarrow> Inr (get_effective_rev w s REV_BUF, c)))"

definition metalbear_repo_store_verify_head ::
  "wolfram \<Rightarrow> repo_store \<Rightarrow> wf_status \<times> bool \<times> wf_commit option" where
  "metalbear_repo_store_verify_head w s =
     (if rs_head s = [] then (WF_OK, False, None)
      else (case wl_verify w (rs_car s) (car_roots s) (rs_did s) (rs_didkey s) of
              (st, cm) \<Rightarrow> (st, st = WF_OK, Some cm)))"

section \<open>Walking the tree\<close>

text \<open>
  The recursion of the two walks follows CIDs, so it carries a bound on its depth: \<open>None\<close> is a
  walk that has not come back within it.
\<close>

definition key_parts :: "string \<Rightarrow> (string \<times> string) option" where
  "key_parts key = (case strchr_cut CHR ''/'' key of (a, Some b) \<Rightarrow> Some (a, b) | (_, None) \<Rightarrow> None)"

definition add_collection :: "string \<Rightarrow> string list \<Rightarrow> string list" where
  "add_collection key cols =
     (case key_parts key of
        None \<Rightarrow> cols
      | Some (a, b) \<Rightarrow> if a \<in> set cols then cols else cols @ [c_str a])"

fun walk_mst_collections :: "nat \<Rightarrow> wolfram \<Rightarrow> car \<Rightarrow> cid \<Rightarrow> string list \<Rightarrow> string list option"
and walk_entries :: "nat \<Rightarrow> wolfram \<Rightarrow> car \<Rightarrow> mst_entry list \<Rightarrow> string list \<Rightarrow> string list option" where
  "walk_mst_collections 0 w car cid cols = None"
| "walk_mst_collections (Suc n) w car cid cols =
     (if cid = [] then Some cols
      else (case wl_find_block w car cid of
              None \<Rightarrow> Some cols
            | Some b \<Rightarrow>
                (case wl_node_parse w (cb_data b) cid of
                   Inl st \<Rightarrow> Some cols
                 | Inr node \<Rightarrow>
                     (case (if mn_left node \<noteq> [] then walk_mst_collections n w car (mn_left node) cols
                            else Some cols) of
                        None \<Rightarrow> None
                      | Some cols1 \<Rightarrow> walk_entries n w car (mn_entries node) cols1))))"
| "walk_entries n w car [] cols = Some cols"
| "walk_entries n w car (e # es) cols =
     (case (if me_subtree e \<noteq> [] then walk_mst_collections n w car (me_subtree e) (add_collection (me_key e) cols)
            else Some (add_collection (me_key e) cols)) of
        None \<Rightarrow> None
      | Some cols1 \<Rightarrow> walk_entries n w car es cols1)"

definition metalbear_repo_store_describe :: "nat \<Rightarrow> wolfram \<Rightarrow> repo_store \<Rightarrow> string option" where
  "metalbear_repo_store_describe depth w s =
     (let cm = (if rs_head s = [] then None else commit_of w s (rs_head s))
      in map_option (\<lambda>cols. wl_print w (CObject
           ([(''handle'', CString (rs_handle s)), (''did'', CString (rs_did s)),
             (''collections'', CArray (map CString cols))] @
            (case cm of Some c \<Rightarrow> [(''rev'', CString (cm_rev c))] | None \<Rightarrow> []))))
          (case cm of
             None \<Rightarrow> Some []
           | Some c \<Rightarrow> walk_mst_collections depth w (rs_car s) (cm_data c) []))"

definition decode_record_json :: "wolfram \<Rightarrow> repo_store \<Rightarrow> cid \<Rightarrow> string option" where
  "decode_record_json w s record_cid =
     (case wl_find_block w (rs_car s) record_cid of
        None \<Rightarrow> None
      | Some b \<Rightarrow>
          (case wl_cbor_parse w (cb_data b) of
             None \<Rightarrow> None
           | Some item \<Rightarrow> map_option (wl_print w) (cbor_to_json (wl_codecs w) item)))"

text \<open>What the walk does with an entry that has no subtree; \<open>i\<close> counts the rows written.\<close>

definition reindex_entry :: "wolfram \<Rightarrow> repo_io \<Rightarrow> mst_entry \<Rightarrow> nat \<times> repo_store \<Rightarrow> nat \<times> repo_store" where
  "reindex_entry w io e st =
     (case st of (i, s) \<Rightarrow>
        (case key_parts (me_key e) of
           None \<Rightarrow> (i, s)
         | Some (a, b) \<Rightarrow>
             (case (cid_string w (me_value e), decode_record_json w s (me_value e)) of
                (Some c, Some json) \<Rightarrow> (Suc i, index_upsert_record w io i s (c_str a) (c_str b) c json)
              | _ \<Rightarrow> (i, s))))"

fun reindex_collect ::
  "nat \<Rightarrow> wolfram \<Rightarrow> repo_io \<Rightarrow> cid \<Rightarrow> nat \<times> repo_store \<Rightarrow> (wf_status \<times> nat \<times> repo_store) option"
and reindex_entries ::
  "nat \<Rightarrow> wolfram \<Rightarrow> repo_io \<Rightarrow> mst_entry list \<Rightarrow> nat \<times> repo_store \<Rightarrow>
   (wf_status \<times> nat \<times> repo_store) option" where
  "reindex_collect 0 w io cid st = None"
| "reindex_collect (Suc n) w io cid st =
     (if cid = [] then Some (WF_OK, st)
      else (case wl_find_block w (rs_car (snd st)) cid of
              None \<Rightarrow> Some (WF_OK, st)
            | Some b \<Rightarrow>
                (case wl_node_parse w (cb_data b) cid of
                   Inl status \<Rightarrow> Some (status, st)
                 | Inr node \<Rightarrow>
                     (case (if mn_left node \<noteq> [] then reindex_collect n w io (mn_left node) st
                            else Some (WF_OK, st)) of
                        None \<Rightarrow> None
                      | Some (status, st1) \<Rightarrow>
                          if status \<noteq> WF_OK then Some (status, st1)
                          else reindex_entries n w io (mn_entries node) st1))))"
| "reindex_entries n w io [] st = Some (WF_OK, st)"
| "reindex_entries n w io (e # es) st =
     (if me_subtree e = [] then reindex_entries n w io es (reindex_entry w io e st)
      else (case reindex_collect n w io (me_subtree e) st of
              None \<Rightarrow> None
            | Some (status, st1) \<Rightarrow>
                if status \<noteq> WF_OK then Some (status, st1) else reindex_entries n w io es st1))"

text \<open>\<open>cleared\<close> is the outcome of the deletion, which is not looked at.\<close>

definition reindex_all :: "nat \<Rightarrow> wolfram \<Rightarrow> repo_io \<Rightarrow> bool \<Rightarrow> repo_store \<Rightarrow> (wf_status \<times> repo_store) option" where
  "reindex_all depth w io cleared s =
     (let s1 = (if cleared then s\<lparr>rs_db := db_write (\<lambda>t. t\<lparr>t_records := []\<rparr>) (rs_db s)\<rparr> else s)
      in if rs_head s1 = [] then Some (WF_OK, s1)
         else (case wl_find_block w (rs_car s1) (rs_head s1) of
                 None \<Rightarrow> Some (WF_OK, s1)
               | Some b \<Rightarrow>
                   (case wl_commit_parse w (cb_data b) of
                      Inl status \<Rightarrow> Some (status, s1)
                    | Inr cm \<Rightarrow>
                        map_option (\<lambda>(status, i, s2). (status, s2))
                          (reindex_collect depth w io (cm_data cm) (0, s1)))))"

end
