(* ===== verification/Repo_Demo.thy ===== *)
theory Repo_Demo
  imports Repo_Store
begin

text \<open>
  A Wolfram small enough to compute with, for the concrete inputs of the repository's theorems. Its
  CIDs are identity hashes: a CID is the block it names, and a head is the list of its records. The
  JSON parser is an argument; text prints as \<open>{}\<close>.
\<close>

section \<open>Records as bytes\<close>

definition text_of :: "byte list \<Rightarrow> string" where
  "text_of bs = map (\<lambda>b. char_of (unat b)) bs"

fun enc :: "byte list \<Rightarrow> byte list" where
  "enc [] = [0]"
| "enc (b # bs) = 1 # b # enc bs"

fun dec :: "byte list \<Rightarrow> byte list \<times> byte list" where
  "dec (x # y # r) = (if x = 1 then (case dec r of (bs, r') \<Rightarrow> (y # bs, r')) else ([], y # r))"
| "dec [x] = ([], [])"
| "dec [] = ([], [])"

type_synonym demo_row = "(string \<times> string) \<times> cid"

fun enc_rows :: "demo_row list \<Rightarrow> byte list" where
  "enc_rows [] = []"
| "enc_rows (((c, k), x) # rs) = enc (bytes_of c) @ enc (bytes_of k) @ enc x @ enc_rows rs"

fun dec_rows :: "nat \<Rightarrow> byte list \<Rightarrow> demo_row list" where
  "dec_rows 0 bs = []"
| "dec_rows (Suc n) bs =
     (if bs = [] then []
      else (case dec bs of
              (c, r1) \<Rightarrow>
                (case dec r1 of
                   (k, r2) \<Rightarrow>
                     (case dec r2 of (x, r3) \<Rightarrow> ((text_of c, text_of k), x) # dec_rows n r3))))"

definition demo_head :: "demo_row list \<Rightarrow> cid" where
  "demo_head rows = 7 # enc_rows rows"

definition demo_rows :: "cid \<Rightarrow> demo_row list" where
  "demo_rows h = dec_rows (length h) (tl h)"

definition plain_block :: "byte list \<Rightarrow> car_block" where
  "plain_block bs = \<lparr>cb_cid = bs, cb_data = bs\<rparr>"

section \<open>The functions\<close>

definition demo_create ::
  "car \<Rightarrow> demo_row list \<Rightarrow> string \<Rightarrow> string \<Rightarrow> byte list \<Rightarrow> (wf_status + cid \<times> cid) \<times> car" where
  "demo_create car rows c k body =
     (if map_of rows (c, k) \<noteq> None then (Inl WF_ERR_CONFLICT, car)
      else (Inr (demo_head (((c, k), body) # rows), body),
            car @ [plain_block body, plain_block (demo_head (((c, k), body) # rows))]))"

definition demo_update ::
  "car \<Rightarrow> demo_row list \<Rightarrow> string \<Rightarrow> string \<Rightarrow> byte list \<Rightarrow> (wf_status + cid \<times> cid) \<times> car" where
  "demo_update car rows c k body =
     (if map_of rows (c, k) = None then (Inl WF_ERR_NOT_FOUND, car)
      else (Inr (demo_head (((c, k), body) # rows), body),
            car @ [plain_block body, plain_block (demo_head (((c, k), body) # rows))]))"

definition demo_delete :: "car \<Rightarrow> demo_row list \<Rightarrow> string \<Rightarrow> string \<Rightarrow> (wf_status + cid) \<times> car" where
  "demo_delete car rows c k =
     (if map_of rows (c, k) = None then (Inl WF_ERR_NOT_FOUND, car)
      else (Inr (demo_head (filter (\<lambda>r. fst r \<noteq> (c, k)) rows)),
            car @ [plain_block (demo_head (filter (\<lambda>r. fst r \<noteq> (c, k)) rows))]))"

fun demo_batch :: "repo_write list \<Rightarrow> demo_row list \<Rightarrow> demo_row list option" where
  "demo_batch [] rows = Some rows"
| "demo_batch (b # bs) rows =
     (let key = (rw_collection b, rw_rkey b)
      in if (map_of rows key = None) \<noteq> (rw_action b = WF_REPO_WRITE_CREATE) then None
         else if rw_action b = WF_REPO_WRITE_DELETE then demo_batch bs (filter (\<lambda>r. fst r \<noteq> key) rows)
         else demo_batch bs ((key, rw_body b) # rows))"

definition demo_apply ::
  "car \<Rightarrow> demo_row list \<Rightarrow> repo_write list \<Rightarrow> (wf_status + cid \<times> (nat \<Rightarrow> cid)) \<times> car" where
  "demo_apply car rows ws =
     (case demo_batch ws rows of
        None \<Rightarrow> (Inl WF_ERR_CONFLICT, car)
      | Some rows' \<Rightarrow>
          (Inr (demo_head rows', \<lambda>i. rw_body (ws ! i)),
           car @ map (\<lambda>b. plain_block (rw_body b)) ws @ [plain_block (demo_head rows')]))"

definition demo_prev :: "cid option \<Rightarrow> demo_row list" where
  "demo_prev prev = (case prev of None \<Rightarrow> [] | Some h \<Rightarrow> demo_rows h)"

definition demo :: "(string \<Rightarrow> cjson option) \<Rightarrow> wolfram" where
  "demo parse =
     \<lparr>wl_codecs = \<lparr>tc_cid_from_string = \<lambda>t. Some (bytes_of t), tc_cid_to_string = \<lambda>c. Some (text_of c),
                   tc_b64_decode = \<lambda>t. Some (bytes_of t), tc_b64_encode = \<lambda>bs. Some (text_of bs)\<rparr>,
      wl_parse = parse, wl_print = \<lambda>j. ''{}'', wl_json_extract = \<lambda>v p. None,
      wl_cbor_serialize = \<lambda>item. (case item of CB_MAP ps \<Rightarrow> Some [of_nat (length ps)] | _ \<Rightarrow> None),
      wl_cbor_parse = \<lambda>bs. Some (CB_SIMPLE 22), wl_cid_of_block = \<lambda>bs. Some bs,
      wl_find_block = \<lambda>car c. find (\<lambda>b. cb_cid b = c) car,
      wl_commit_parse = \<lambda>bs. Inr \<lparr>cm_rev = ''3k'', cm_data = bs\<rparr>,
      wl_node_parse = \<lambda>bs c. Inl WF_ERR_PARSE,
      wl_get_record = \<lambda>car h c k.
        (case map_of (demo_rows h) (c, k) of None \<Rightarrow> Inl WF_ERR_NOT_FOUND | Some x \<Rightarrow> Inr (x, x)),
      wl_create_record = \<lambda>car prev did c k body key. demo_create car (demo_prev prev) c k body,
      wl_update_record = \<lambda>car h did c k body key. demo_update car (demo_rows h) c k body,
      wl_delete_record = \<lambda>car h did c k key. demo_delete car (demo_rows h) c k,
      wl_apply_writes = \<lambda>car prev did ws key. demo_apply car (demo_prev prev) ws,
      wl_record_key_valid = \<lambda>k. True, wl_handle_valid = \<lambda>h. True, wl_didkey = \<lambda>k. Some ''did:key:z'',
      wl_car_write = \<lambda>roots bs. Inr (concat (map cb_data bs)),
      wl_record_proof = \<lambda>car h c k. Inl WF_ERR_NOT_FOUND,
      wl_verify = \<lambda>car roots did key. (WF_OK, \<lparr>cm_rev = ''3k'', cm_data = []\<rparr>)\<rparr>"

definition demo_tables :: repo_tables where
  "demo_tables = \<lparr>t_meta = Some (''did:a'', ''h'', (1, [1])), t_blocks = [], t_head = None, t_records = []\<rparr>"

definition demo_store :: repo_store where
  "demo_store =
     \<lparr>rs_did = ''did:a'', rs_handle = ''h'', rs_key = (1, [1]), rs_didkey = ''did:key:z'',
      rs_db = \<lparr>rd_now = demo_tables, rd_disk = demo_tables, rd_tx = False\<rparr>,
      rs_car = [], rs_head = [], rs_root_count = 0, rs_persisted = 0, rs_override = None,
      rs_callback = True, rs_events = []\<rparr>"

definition demo_io :: repo_io where
  "demo_io = \<lparr>io_begin = True, io_block = \<lambda>_. True, io_head = True, io_commit = True,
              io_index = \<lambda>_. True, io_read = True, io_now = ''t'', io_tid = \<lambda>_. Some ''3k''\<rparr>"

text \<open>The text \<open>b\<close> is a batch of two creates, any other a record.\<close>

definition demo_parse :: "string \<Rightarrow> cjson option" where
  "demo_parse t =
     (if t = ''b''
      then Some (CArray [CObject [(''$type'', CString ''com.atproto.repo.applyWrites#create''),
                                  (''collection'', CString ''c''), (''rkey'', CString ''n''),
                                  (''value'', CObject [])],
                         CObject [(''$type'', CString ''com.atproto.repo.applyWrites#create''),
                                  (''collection'', CString ''c''), (''rkey'', CString ''m''),
                                  (''value'', CObject [])]])
      else Some (CObject [(''$type'', CString ''c'')]))"

section \<open>It reads what it writes\<close>

lemma char_of_byte [simp]: "char_of (unat (of_char c :: byte)) = c"
proof -
  have "unat (of_nat (of_char c) :: byte) = (of_char c :: nat)"
    by (simp add: unat_of_nat take_bit_eq_mod)
  then have "unat (of_char c :: byte) = (of_char c :: nat)" by (simp only: of_nat_of_char)
  then show ?thesis by simp
qed

lemma byte_of_char [simp]: "of_char (char_of (unat b) :: char) = (b :: byte)"
proof -
  have "unat b < 256" using unsigned_less [of b] by simp
  then have "(of_char (char_of (unat b) :: char) :: nat) = unat b" by (simp only: of_char_of mod_less)
  then have "(of_nat (of_char (char_of (unat b) :: char)) :: byte) = of_nat (unat b)" by (simp only:)
  then show ?thesis by (simp add: of_nat_of_char del: of_char_of)
qed

lemma text_of_bytes [simp]: "text_of (bytes_of s) = s"
  by (simp add: text_of_def bytes_of_def comp_def)

lemma bytes_of_text [simp]: "bytes_of (text_of bs) = bs"
  by (induction bs) (simp_all add: text_of_def bytes_of_def)

lemma dec_enc [simp]: "dec (enc bs @ r) = (bs, r)"
proof (induction bs)
  case Nil
  then show ?case by (cases r) simp_all
qed simp

lemma enc_nonempty [simp]: "enc bs \<noteq> []"
  by (cases bs) simp_all

lemma dec_enc_rows: "length rs \<le> n \<Longrightarrow> dec_rows n (enc_rows rs) = rs"
proof (induction rs arbitrary: n)
  case Nil
  then show ?case by (cases n) simp_all
next
  case (Cons r rs)
  obtain c k x where r: "r = ((c, k), x)" by (metis prod.exhaust)
  obtain m where n: "n = Suc m" using Cons.prems by (cases n) auto
  show ?case using Cons by (simp add: r n)
qed

lemma enc_rows_length: "length rs \<le> length (enc_rows rs)"
proof (induction rs rule: enc_rows.induct)
  case (2 c k x rs)
  then show ?case by (cases "enc x") auto
qed simp

lemma demo_rows_head [simp]: "demo_rows (demo_head rows) = rows"
proof -
  have "length rows \<le> length (demo_head rows)"
    using enc_rows_length [of rows] by (simp add: demo_head_def)
  from dec_enc_rows [OF this] show ?thesis by (simp only: demo_rows_def demo_head_def list.sel)
qed

lemma demo_rows_Nil [simp]: "demo_rows [] = []"
  by (simp add: demo_rows_def)

lemma demo_head_nonempty [simp]: "demo_head rows \<noteq> []"
  by (simp add: demo_head_def)

end
