(* ===== verification/Repo_Guards.thy ===== *)
theory Repo_Guards
  imports Repo_Demo
begin

text \<open>
  What the guards of \<open>src/repo/repo_store.c\<close> promise: a stale compare-and-swap changes nothing, a
  batch lands as one commit and one event or leaves the tables alone; and the walks of the tree.
\<close>

section \<open>Committing\<close>

lemma set_root_simps [simp]:
  "rs_db (set_root s) = rs_db s" "rs_head (set_root s) = rs_head s" "rs_car (set_root s) = rs_car s"
  "rs_events (set_root s) = rs_events s" "rs_persisted (set_root s) = rs_persisted s"
  "rs_callback (set_root s) = rs_callback s" "rs_did (set_root s) = rs_did s"
  "rs_override (set_root s) = rs_override s" "rs_key (set_root s) = rs_key s"
  by (simp_all add: set_root_def)

lemma db_write_disk [simp]: "rd_tx db \<Longrightarrow> rd_disk (db_write f db) = rd_disk db"
  and db_write_tx [simp]: "rd_tx (db_write f db) = rd_tx db"
  and db_write_now [simp]: "rd_now (db_write f db) = f (rd_now db)"
  by (simp_all add: db_write_def)

lemma insert_blocks_keeps:
  assumes "insert_blocks w io revision i bs db = (st, db')"
  shows "rd_tx db' = rd_tx db" and "rd_tx db \<Longrightarrow> rd_disk db' = rd_disk db"
    and "t_records (rd_now db') = t_records (rd_now db)"
  using assms
  by (induction w io revision i bs db rule: insert_blocks.induct)
    (auto simp: insert_block_row_def split: option.splits if_splits)

text \<open>What persisting leaves alone; and, inside a transaction, the disk.\<close>

definition beside :: "repo_store \<Rightarrow> repo_store \<Rightarrow> bool" where
  "beside s s' \<longleftrightarrow>
     rs_car s' = rs_car s \<and> rs_events s' = rs_events s \<and> rs_did s' = rs_did s \<and>
     rs_callback s' = rs_callback s \<and> rs_head s' = rs_head s \<and> rs_key s' = rs_key s \<and>
     rs_override s' = rs_override s \<and> rs_root_count s' = rs_root_count s \<and>
     rd_tx (rs_db s') = rd_tx (rs_db s) \<and>
     (rd_tx (rs_db s) \<longrightarrow> rd_disk (rs_db s') = rd_disk (rs_db s)) \<and>
     t_records (rd_now (rs_db s')) = t_records (rd_now (rs_db s))"

lemma persist_new_blocks_beside: "persist_new_blocks w io s = (st, s') \<Longrightarrow> beside s s'"
  unfolding persist_new_blocks_def Let_def beside_def
  by (auto split: prod.splits if_splits dest: insert_blocks_keeps)

lemma persist_head_beside: "persist_head w io s = (st, s') \<Longrightarrow> beside s s'"
  unfolding persist_head_def Let_def beside_def by (auto split: if_splits)

definition settled :: "repo_store \<Rightarrow> bool" where
  "settled s \<longleftrightarrow> \<not> rd_tx (rs_db s) \<and> rd_now (rs_db s) = rd_disk (rs_db s)"

lemma begin_settled:
  "settled s \<Longrightarrow> sql_begin ok (rs_db s) = (if ok then Some ((rs_db s)\<lparr>rd_tx := True\<rparr>) else None)"
  by (simp add: settled_def sql_begin_def)

lemma commit_persist_cases:
  assumes "commit_persist w io s c = (st, s')" and "settled s"
  shows "rs_car s' = rs_car s" "rs_events s' = rs_events s" "rs_did s' = rs_did s"
    "rs_callback s' = rs_callback s" "rs_head s' = c" "rs_override s' = None" "rs_key s' = rs_key s"
    "st \<noteq> WF_OK \<Longrightarrow> rs_db s' = rs_db s"
    "st = WF_OK \<Longrightarrow> t_records (rd_now (rs_db s')) = t_records (rd_now (rs_db s))"
    "st = WF_OK \<Longrightarrow> io_commit io \<Longrightarrow> settled s'"
proof -
  define s1 where "s1 = (set_root (s\<lparr>rs_head := c\<rparr>))\<lparr>rs_override := None\<rparr>"
  have s1: "rs_db s1 = rs_db s" "rs_car s1 = rs_car s" "rs_events s1 = rs_events s"
    "rs_did s1 = rs_did s" "rs_callback s1 = rs_callback s" "rs_head s1 = c" "rs_override s1 = None"
    "rs_key s1 = rs_key s"
    by (simp_all add: s1_def)
  have undone: "sql_rollback db = rs_db s" if "rd_disk db = rd_disk (rs_db s)" for db
    using assms(2) that by (simp add: sql_rollback_def settled_def)
  note body = assms(1) [unfolded commit_persist_def, folded s1_def, unfolded Let_def s1(1) begin_settled [OF assms(2)]]
  show "rs_car s' = rs_car s" "rs_events s' = rs_events s" "rs_did s' = rs_did s"
    "rs_callback s' = rs_callback s" "rs_head s' = c" "rs_override s' = None" "rs_key s' = rs_key s"
    "st \<noteq> WF_OK \<Longrightarrow> rs_db s' = rs_db s"
    "st = WF_OK \<Longrightarrow> t_records (rd_now (rs_db s')) = t_records (rd_now (rs_db s))"
    "st = WF_OK \<Longrightarrow> io_commit io \<Longrightarrow> settled s'"
    using body s1
    by (auto simp: undone sql_commit_def settled_def
        beside_def dest!: persist_new_blocks_beside persist_head_beside
        split: if_splits option.splits prod.splits)
qed

section \<open>Compare and swap\<close>

definition stale_commit :: "wolfram \<Rightarrow> repo_store \<Rightarrow> string option \<Rightarrow> bool" where
  "stale_commit w s swap \<longleftrightarrow> swap \<notin> {None, Some ''''} \<and> head_cid_string w s \<noteq> swap"

text \<open>The CID of the record as it is, if it is there.\<close>

definition record_cid :: "wolfram \<Rightarrow> repo_store \<Rightarrow> string \<Rightarrow> string \<Rightarrow> string option" where
  "record_cid w s collection rkey =
     (case get_record_cbor w s collection rkey of Inr (_, c) \<Rightarrow> cid_string w c | Inl _ \<Rightarrow> None)"

definition stale_record :: "wolfram \<Rightarrow> repo_store \<Rightarrow> string \<Rightarrow> string \<Rightarrow> string option \<Rightarrow> bool" where
  "stale_record w s collection rkey swap \<longleftrightarrow>
     swap \<notin> {None, Some ''''} \<and> record_cid w s collection rkey \<noteq> swap"

lemma check_swap_stale: "check_swap swap current \<noteq> WF_OK \<longleftrightarrow> swap \<notin> {None, Some ''''} \<and> current \<noteq> swap"
  by (auto simp: check_swap_def split: option.splits)

lemma check_swap_range: "check_swap swap current \<in> {WF_OK, WF_ERR_CONFLICT}"
  by (auto simp: check_swap_def split: option.splits)

lemma swap_record_stale:
  assumes "get_record_cbor w s collection rkey = Inr (data, c)"
  shows "swap_record_ok w swap (Some c) \<noteq> WF_OK \<longleftrightarrow> stale_record w s collection rkey swap"
  using assms
  by (auto simp: swap_record_ok_def stale_record_def record_cid_def check_swap_def split: option.splits)

lemma swap_record_absent:
  assumes "get_record_cbor w s collection rkey = Inl st"
  shows "swap_record_ok w swap None \<noteq> WF_OK \<longleftrightarrow> stale_record w s collection rkey swap"
  using assms
  by (auto simp: swap_record_ok_def stale_record_def record_cid_def split: option.splits)

lemma create_stale:
  assumes "stale_commit w s swap"
  shows "\<exists>st. st \<noteq> WF_OK \<and> create_record_locked w io s collection rkey json swap = (Inl st, s)"
  using assms check_swap_stale [of swap "head_cid_string w s"]
  unfolding create_record_locked_def stale_commit_def Let_def
  by (auto split: option.split)

lemma apply_stale:
  assumes "stale_commit w s swap"
  shows "\<exists>st. st \<noteq> WF_OK \<and> apply_writes_locked w io s json swap = (Inl st, s)"
  using assms check_swap_stale [of swap "head_cid_string w s"]
  unfolding apply_writes_locked_def stale_commit_def
  by (auto split: option.split cjson.split)

definition lookup_ok :: "wolfram \<Rightarrow> repo_store \<Rightarrow> string \<Rightarrow> string \<Rightarrow> bool" where
  "lookup_ok w s collection rkey \<longleftrightarrow> get_record_cbor w s collection rkey \<noteq> Inl WF_OK"

lemma put_stale:
  assumes "stale_commit w s swap \<or> stale_record w s collection rkey swap_rec"
    and "lookup_ok w s collection rkey"
  shows "\<exists>st. st \<noteq> WF_OK \<and>
    put_record_locked w io s collection rkey json swap swap_rec = (Inl st, s)"
proof (cases "get_record_cbor w s collection rkey")
  case (Inl st)
  then show ?thesis
    using assms swap_record_absent [OF Inl, of swap_rec] check_swap_stale [of swap "head_cid_string w s"]
    unfolding put_record_locked_def lookup_ok_def stale_commit_def by auto
next
  case (Inr x)
  then obtain data c where x: "get_record_cbor w s collection rkey = Inr (data, c)" by (cases x) auto
  then show ?thesis
    using assms swap_record_stale [OF x, of swap_rec] check_swap_stale [of swap "head_cid_string w s"]
    unfolding put_record_locked_def stale_commit_def by auto
qed

lemma delete_stale:
  assumes "stale_commit w s swap \<or> stale_record w s collection rkey swap_rec"
    and "lookup_ok w s collection rkey"
  shows "\<exists>st. st \<noteq> WF_OK \<and>
    delete_record_locked w io s collection rkey swap swap_rec = (st, s)"
proof (cases "get_record_cbor w s collection rkey")
  case (Inl st)
  then show ?thesis
    using assms unfolding delete_record_locked_def lookup_ok_def by auto
next
  case (Inr x)
  then obtain data c where x: "get_record_cbor w s collection rkey = Inr (data, c)" by (cases x) auto
  then show ?thesis
    using assms swap_record_stale [OF x, of swap_rec] check_swap_stale [of swap "head_cid_string w s"]
    unfolding delete_record_locked_def stale_commit_def by auto
qed

text \<open>C13. An optimistic write whose \<open>swapCommit\<close> is not the head, or whose \<open>swapRecord\<close> is not
  the record's CID (or names a record that is not there), fails and leaves the store exactly as it
  was: car, head, tables, override and events, whichever of the four routes it takes.\<close>

theorem stale_swap_changes_nothing:
  assumes "lookup_ok w s collection rkey"
  shows "(if stale_commit w s swap
          then (\<exists>st. st \<noteq> WF_OK \<and>
                 metalbear_repo_store_create_record w io s collection key_or_null json swap = (Inl st, s)) \<and>
               (\<exists>st. st \<noteq> WF_OK \<and>
                 metalbear_repo_store_apply_writes w io s json swap = (Inl st, s))
          else True) \<and>
         (if stale_commit w s swap \<or> stale_record w s collection rkey swap_rec
          then (\<exists>st. st \<noteq> WF_OK \<and>
                 metalbear_repo_store_put_record w io s collection rkey json swap swap_rec = (Inl st, s)) \<and>
               (\<exists>st. st \<noteq> WF_OK \<and>
                 metalbear_repo_store_delete_record w io s collection rkey swap swap_rec = (st, s))
          else True)"
  using create_stale apply_stale put_stale [OF _ assms] delete_stale [OF _ assms]
  by (simp add: metalbear_repo_store_create_record_def metalbear_repo_store_apply_writes_def
      metalbear_repo_store_put_record_def metalbear_repo_store_delete_record_def)

section \<open>A batch lands whole or not at all\<close>

lemma stage_all_length: "stage_all w io i ops = Inr staged \<Longrightarrow> length staged = length ops"
  by (induction ops arbitrary: i staged) (auto split: sum.splits)

lemma index_batch_keeps [simp]:
  "rs_events (index_batch w io outs i staged s) = rs_events s"
  "rs_head (index_batch w io outs i staged s) = rs_head s"
  "rs_callback (index_batch w io outs i staged s) = rs_callback s"
  "rs_car (index_batch w io outs i staged s) = rs_car s"
  "rs_did (index_batch w io outs i staged s) = rs_did s"
  by (induction w io outs i staged s rule: index_batch.induct)
    (auto simp: index_delete_record_def index_upsert_record_def Let_def)

lemma emit_keeps [simp]:
  "rs_db (emit_commit_event_ops w io s old ops) = rs_db s"
  "rs_head (emit_commit_event_ops w io s old ops) = rs_head s"
  "rs_car (emit_commit_event_ops w io s old ops) = rs_car s"
  "rs_did (emit_commit_event_ops w io s old ops) = rs_did s"
  by (auto simp: emit_commit_event_ops_def split: option.split sum.split)

lemma emit_events:
  "rs_events (emit_commit_event_ops w io s old ops) = rs_events s \<or>
   (\<exists>e. rs_events (emit_commit_event_ops w io s old ops) = rs_events s @ [e] \<and>
        re_kind e = METALBEAR_REPO_STORE_EVENT_COMMIT \<and> re_did e = rs_did s \<and>
        re_commit_cid e = rs_head s \<and> re_ops e = ops)"
  by (auto simp: emit_commit_event_ops_def commit_event_def split: option.split sum.split)

lemma land_batch_ends:
  assumes "settled s" and "\<And>c. cid_string w c \<noteq> None" and "land_batch w io s staged = (res, s')"
  shows "case res of
      Inl st \<Rightarrow> rs_db s' = rs_db s \<and> rs_events s' = rs_events s
    | Inr (c, r, answer) \<Rightarrow>
        (\<exists>outs car.
           wl_apply_writes w (rs_car s) (prev_of s) (rs_did s) (map fst staged) (rs_key s) =
             (Inr (rs_head s', outs), car)) \<and>
        (rs_events s' = rs_events s \<or>
         (\<exists>e. rs_events s' = rs_events s @ [e] \<and>
              re_kind e = METALBEAR_REPO_STORE_EVENT_COMMIT \<and> re_commit_cid e = rs_head s' \<and>
              map ro_rkey (re_ops e) = map (rw_rkey \<circ> fst) staged \<and>
              map ro_collection (re_ops e) = map (rw_collection \<circ> fst) staged)) \<and>
        (\<exists>rs. answer = wl_print w (CArray rs) \<and> length rs = length staged)"
proof -
  obtain ans car where w: "wl_apply_writes w (rs_car s) (prev_of s) (rs_did s) (map fst staged) (rs_key s) = (ans, car)"
    by force
  show ?thesis
  proof (cases ans)
    case (Inl e)
    then show ?thesis using assms(3) by (auto simp: land_batch_def w)
  next
    case (Inr a)
    obtain new outs where a: "ans = Inr (new, outs)" using Inr by (cases a) auto
    obtain code s1 where c: "commit_persist w io (s\<lparr>rs_car := car\<rparr>) new = (code, s1)" by force
    have "settled (s\<lparr>rs_car := car\<rparr>)" using assms(1) by (simp add: settled_def)
    note s1 = commit_persist_cases [OF c this]
    show ?thesis
    proof (cases "code = WF_OK")
      case False
      then show ?thesis using assms(3) s1 by (auto simp: land_batch_def w a c)
    next
      case ok: True
      define ev where "ev = map (\<lambda>(i, b). batch_op outs i b) (enumerate 0 (map fst staged))"
      define s2 where "s2 = index_batch w io outs 0 staged s1"
      have fields: "map ro_rkey ev = map (rw_rkey \<circ> fst) staged"
        "map ro_collection ev = map (rw_collection \<circ> fst) staged"
        unfolding ev_def by (auto intro!: nth_equalityI simp: nth_enumerate_eq batch_op_def)
      have s2: "rs_events s2 = rs_events s" "rs_head s2 = new" using s1 by (simp_all add: s2_def)
      obtain hc where hc: "head_cid_string w (emit_commit_event_ops w io s2 (rs_head s) ev) = Some hc"
        using assms(2) [of "rs_head s2"] by (cases "rs_head s2 = []") (auto simp: head_cid_string_def)
      have s': "s' = emit_commit_event_ops w io s2 (rs_head s) ev"
        and res: "\<exists>c r. res = Inr (c, r, wl_print w (CArray (map (\<lambda>(i, b). batch_result w (rs_did s) outs i b)
           (enumerate 0 (map fst staged)))))"
        using assms(3) ok hc unfolding land_batch_def w a ev_def s2_def
        by (auto simp: c answer_batch_def announce_batch_def)
      then show ?thesis
        using emit_events [of w io s2 "rs_head s" ev] s2 fields w a by fastforce
    qed
  qed
qed

lemma apply_writes_ends:
  assumes "settled s" and "\<And>c. cid_string w c \<noteq> None"
  shows "case metalbear_repo_store_apply_writes w io s json swap of
      (Inl st, s') \<Rightarrow> rs_db s' = rs_db s \<and> rs_events s' = rs_events s
    | (Inr (c, r, answer), s') \<Rightarrow>
        (\<exists>ops staged outs car.
           wl_parse w json = Some (CArray ops) \<and> length ops \<le> 200 \<and>
           stage_all w io 0 ops = Inr staged \<and> length staged = length ops \<and>
           wl_apply_writes w (rs_car s) (prev_of s) (rs_did s) (map fst staged) (rs_key s) =
             (Inr (rs_head s', outs), car) \<and>
           (rs_events s' = rs_events s \<or>
            (\<exists>e. rs_events s' = rs_events s @ [e] \<and>
                 re_kind e = METALBEAR_REPO_STORE_EVENT_COMMIT \<and> re_commit_cid e = rs_head s' \<and>
                 map ro_rkey (re_ops e) = map (rw_rkey \<circ> fst) staged \<and>
                 map ro_collection (re_ops e) = map (rw_collection \<circ> fst) staged)) \<and>
           (\<exists>rs. answer = wl_print w (CArray rs) \<and> length rs = length ops))"
proof (cases "metalbear_repo_store_apply_writes w io s json swap")
  case run: (Pair res s')
  show ?thesis
  proof (cases "\<exists>ops staged. wl_parse w json = Some (CArray ops) \<and> length ops \<le> 200 \<and>
      stage_all w io 0 ops = Inr staged \<and> metalbear_repo_store_apply_writes w io s json swap = land_batch w io s staged")
    case False
    then have "s' = s \<and> (\<exists>st. res = Inl st)"
      using run unfolding metalbear_repo_store_apply_writes_def apply_writes_locked_def MAX_WRITES_def
      by (auto split: option.splits cjson.splits if_splits sum.splits)
    then show ?thesis by (auto simp: run)
  next
    case True
    then obtain ops staged where st: "wl_parse w json = Some (CArray ops)" "length ops \<le> 200"
      "stage_all w io 0 ops = Inr staged" "land_batch w io s staged = (res, s')" using run by auto
    show ?thesis
      using land_batch_ends [OF assms st(4)] st(1-3) stage_all_length [OF st(3)]
      by (auto simp: run split: sum.split)
  qed
qed

text \<open>When a landed batch is heard: a listener is set, the new commit can be read back and the
  blocks since the old one can be exported. And the rows of the index a batch does not name.\<close>

definition heard :: "wolfram \<Rightarrow> repo_io \<Rightarrow> repo_store \<Rightarrow> repo_store \<Rightarrow> bool" where
  "heard w io s s' \<longleftrightarrow>
     rs_callback s \<and> parse_commit_at w s' (rs_head s') \<noteq> None \<and>
     \<not> isl (metalbear_repo_store_export w io s' (map_option cm_rev (parse_commit_at w s' (rs_head s))))"

definition other_rows :: "(repo_write \<times> string) list \<Rightarrow> repo_db \<Rightarrow> record_row list" where
  "other_rows staged db =
     filter (\<lambda>r. (rr_collection r, rr_rkey r) \<notin> (\<lambda>x. (rw_collection (fst x), rw_rkey (fst x))) ` set staged)
       (t_records (rd_now db))"

lemma parse_commit_at_events [simp]:
  "parse_commit_at w (s\<lparr>rs_events := es\<rparr>) c = parse_commit_at w s c"
  by (simp add: parse_commit_at_def)

lemma export_events [simp]:
  "metalbear_repo_store_export w io (s\<lparr>rs_events := es\<rparr>) since = metalbear_repo_store_export w io s since"
  by (simp add: metalbear_repo_store_export_def cong: sum.case_cong)

lemma emit_heard:
  assumes "s' = emit_commit_event_ops w io s1 (rs_head s) ops" and "rs_callback s1 = rs_callback s"
  shows "if heard w io s s' then rs_events s' \<noteq> rs_events s1 else rs_events s' = rs_events s1"
  using assms by (auto simp: heard_def emit_commit_event_ops_def split: option.splits sum.splits)

lemma filter_outside:
  "(c, k) \<in> K \<Longrightarrow> filter (\<lambda>r. (f r, g r) \<notin> K) (filter (\<lambda>r. f r = c \<longrightarrow> g r \<noteq> k) rs) =
     filter (\<lambda>r. (f r, g r) \<notin> K) rs"
  by (induction rs) auto

lemma index_batch_rows:
  assumes "(\<lambda>x. (rw_collection (fst x), rw_rkey (fst x))) ` set staged \<subseteq> K"
  shows "filter (\<lambda>r. (rr_collection r, rr_rkey r) \<notin> K)
           (t_records (rd_now (rs_db (index_batch w io outs i staged s)))) =
         filter (\<lambda>r. (rr_collection r, rr_rkey r) \<notin> K) (t_records (rd_now (rs_db s)))"
  using assms
proof (induction w io outs i staged s rule: index_batch.induct)
  case (2 w io outs i b json rest s)
  have k: "(rw_collection b, rw_rkey b) \<in> K" using 2(2) by simp
  show ?case
    using 2 by (simp add: k filter_outside [OF k] index_delete_record_def index_upsert_record_def
        replace_record_row_def delete_record_row_def Let_def del: filter_filter)
qed simp

lemma index_batch_head [simp]:
  "t_head (rd_now (rs_db (index_batch w io outs i staged s))) = t_head (rd_now (rs_db s))"
  by (induction w io outs i staged s rule: index_batch.induct)
    (auto simp: index_delete_record_def index_upsert_record_def Let_def replace_record_row_def delete_record_row_def)

lemma commit_persist_head:
  assumes "commit_persist w io s c = (WF_OK, s')"
  shows "t_head (rd_now (rs_db s')) = Some (if c = [] then None else cid_string w c, None)"
proof -
  have keeps: "persist_new_blocks w io t = (WF_OK, t') \<Longrightarrow> rs_head t' = rs_head t \<and> rs_override t' = rs_override t" for t t'
    by (auto dest: persist_new_blocks_beside simp: beside_def)
  show ?thesis
    using assms
    by (auto simp: commit_persist_def Let_def persist_head_def sql_commit_def
        split: option.splits prod.splits if_splits dest!: keeps)
qed

lemma land_batch_lands:
  assumes "settled s" and "land_batch w io s staged = (Inr a, s')"
  shows "t_head (rd_now (rs_db s')) = Some (if rs_head s' = [] then None else cid_string w (rs_head s'), None)"
    and "other_rows staged (rs_db s') = other_rows staged (rs_db s)"
    and "if heard w io s s' then rs_events s' \<noteq> rs_events s else rs_events s' = rs_events s"
proof -
  obtain new outs car where w: "wl_apply_writes w (rs_car s) (prev_of s) (rs_did s) (map fst staged) (rs_key s) =
      (Inr (new, outs), car)"
    using assms(2) by (auto simp: land_batch_def split: prod.splits sum.splits)
  obtain st s1 where c: "commit_persist w io (s\<lparr>rs_car := car\<rparr>) new = (st, s1)" by force
  have ok: "st = WF_OK" and s': "s' = announce_batch w io (rs_head s) outs (map fst staged) (index_batch w io outs 0 staged s1)"
    using assms(2) by (auto simp: land_batch_def w c answer_batch_def split: if_splits option.splits)
  have "settled (s\<lparr>rs_car := car\<rparr>)" using assms(1) by (simp add: settled_def)
  note s1 = commit_persist_cases [OF c this]
  show "t_head (rd_now (rs_db s')) = Some (if rs_head s' = [] then None else cid_string w (rs_head s'), None)"
    using commit_persist_head [OF c [unfolded ok]] s1 by (simp add: s' announce_batch_def)
  show "other_rows staged (rs_db s') = other_rows staged (rs_db s)"
    using index_batch_rows [OF subset_refl, of staged w io outs 0 s1] s1(9) ok
    by (simp add: other_rows_def s' announce_batch_def)
  show "if heard w io s s' then rs_events s' \<noteq> rs_events s else rs_events s' = rs_events s"
    using emit_heard [OF s' [unfolded announce_batch_def]] s1 by (simp split: if_splits)
qed

lemma apply_writes_lands:
  assumes "metalbear_repo_store_apply_writes w io s json swap = (Inr a, s')"
  obtains ops staged where "wl_parse w json = Some (CArray ops)" "stage_all w io 0 ops = Inr staged"
    "land_batch w io s staged = (Inr a, s')"
  using assms unfolding metalbear_repo_store_apply_writes_def apply_writes_locked_def
  by (auto split: option.splits cjson.splits if_splits sum.splits)

text \<open>C15. \<open>applyWrites\<close> is one transaction: a batch that fails leaves the tables, on disk and as
  seen, and the firehose as they were. One that succeeds was an array of at most 200 writes, all of
  them staged, moved the head once, to the commit the head row now names, left the index rows of every
  key it does not name, and answers one result per write. Exactly when a listener is set and the new
  commit can be read back and exported it announces one event, which lists every write in its order;
  otherwise none.\<close>

theorem apply_writes_all_or_nothing:
  assumes "settled s" and "\<And>c. cid_string w c \<noteq> None"
  shows "case metalbear_repo_store_apply_writes w io s json swap of
      (Inl st, s') \<Rightarrow> rs_db s' = rs_db s \<and> rs_events s' = rs_events s
    | (Inr (c, r, answer), s') \<Rightarrow>
        (\<exists>ops staged outs car.
           wl_parse w json = Some (CArray ops) \<and> length ops \<le> 200 \<and>
           stage_all w io 0 ops = Inr staged \<and> length staged = length ops \<and>
           wl_apply_writes w (rs_car s) (prev_of s) (rs_did s) (map fst staged) (rs_key s) =
             (Inr (rs_head s', outs), car) \<and>
           t_head (rd_now (rs_db s')) = Some (if rs_head s' = [] then None else cid_string w (rs_head s'), None) \<and>
           other_rows staged (rs_db s') = other_rows staged (rs_db s) \<and>
           (if heard w io s s'
            then \<exists>e. rs_events s' = rs_events s @ [e] \<and> re_commit_cid e = rs_head s' \<and>
                 map ro_rkey (re_ops e) = map (rw_rkey \<circ> fst) staged \<and>
                 map ro_collection (re_ops e) = map (rw_collection \<circ> fst) staged
            else rs_events s' = rs_events s) \<and>
           (\<exists>rs. answer = wl_print w (CArray rs) \<and> length rs = length ops))"
proof (cases "metalbear_repo_store_apply_writes w io s json swap")
  case run: (Pair res s')
  note ends = apply_writes_ends [OF assms, where io = io and json = json and swap = swap, unfolded run]
  show ?thesis
  proof (cases res)
    case (Inl st)
    then show ?thesis using ends by (simp add: run)
  next
    case (Inr a)
    obtain c r answer where a: "a = (c, r, answer)" by (cases a)
    obtain ops' staged' where l: "wl_parse w json = Some (CArray ops')" "stage_all w io 0 ops' = Inr staged'"
      "land_batch w io s staged' = (Inr a, s')"
      using apply_writes_lands [OF run [unfolded Inr]] .
    note lands = land_batch_lands [OF assms(1) l(3)]
    obtain ops staged outs car where e: "wl_parse w json = Some (CArray ops)" "length ops \<le> 200"
      "stage_all w io 0 ops = Inr staged" "length staged = length ops"
      "wl_apply_writes w (rs_car s) (prev_of s) (rs_did s) (map fst staged) (rs_key s) = (Inr (rs_head s', outs), car)"
      "rs_events s' = rs_events s \<or>
         (\<exists>e. rs_events s' = rs_events s @ [e] \<and>
              re_kind e = METALBEAR_REPO_STORE_EVENT_COMMIT \<and> re_commit_cid e = rs_head s' \<and>
              map ro_rkey (re_ops e) = map (rw_rkey \<circ> fst) staged \<and>
              map ro_collection (re_ops e) = map (rw_collection \<circ> fst) staged)"
      "\<exists>rs. answer = wl_print w (CArray rs) \<and> length rs = length ops"
      using ends unfolding Inr a by (simp del: map_map) blast
    have same: "staged' = staged" using e(1,3) l(1,2) by simp
    have ev: "if heard w io s s'
        then \<exists>e. rs_events s' = rs_events s @ [e] \<and> re_commit_cid e = rs_head s' \<and>
             map ro_rkey (re_ops e) = map (rw_rkey \<circ> fst) staged \<and>
             map ro_collection (re_ops e) = map (rw_collection \<circ> fst) staged
        else rs_events s' = rs_events s"
      using e(6) lands(3) by (auto split: if_splits)
    show ?thesis
      unfolding run Inr a prod.case sum.case
      using e(1-5,7) ev lands(1,2) [unfolded same] by blast
  qed
qed

section \<open>The two walks of the tree\<close>

text \<open>
  A Merkle search tree as a value: the left subtree, then each key with its record and the subtree
  to its right. \<open>stored\<close> says that the car holds it under a CID.
\<close>

datatype mst = Tip | Tree mst "(string \<times> cid \<times> mst) list"

fun stored :: "wolfram \<Rightarrow> car \<Rightarrow> mst \<Rightarrow> cid \<Rightarrow> bool"
and stored_entries :: "wolfram \<Rightarrow> car \<Rightarrow> (string \<times> cid \<times> mst) list \<Rightarrow> mst_entry list \<Rightarrow> bool" where
  "stored w car Tip cid = (cid = [])"
| "stored w car (Tree l es) cid =
     (case (if cid = [] then None else wl_find_block w car cid) of
        None \<Rightarrow> False
      | Some b \<Rightarrow>
          (case wl_node_parse w (cb_data b) cid of
             Inl _ \<Rightarrow> False
           | Inr node \<Rightarrow> stored w car l (mn_left node) \<and> stored_entries w car es (mn_entries node)))"
| "stored_entries w car [] xs = (xs = [])"
| "stored_entries w car ((k, v, t) # es) xs =
     (case xs of
        [] \<Rightarrow> False
      | x # ys \<Rightarrow> me_key x = k \<and> me_value x = v \<and> stored w car t (me_subtree x) \<and>
                  stored_entries w car es ys)"

text \<open>The keys in the order of the tree, each with its record and whether a subtree hangs right of it.\<close>

fun tree_entries :: "mst \<Rightarrow> (string \<times> cid \<times> bool) list"
and tree_row :: "(string \<times> cid \<times> mst) list \<Rightarrow> (string \<times> cid \<times> bool) list" where
  "tree_entries Tip = []"
| "tree_entries (Tree l es) = tree_entries l @ tree_row es"
| "tree_row [] = []"
| "tree_row ((k, v, t) # es) = (k, v, t \<noteq> Tip) # tree_entries t @ tree_row es"

fun tree_height :: "mst \<Rightarrow> nat"
and row_height :: "(string \<times> cid \<times> mst) list \<Rightarrow> nat" where
  "tree_height Tip = 0"
| "tree_height (Tree l es) = Suc (max (tree_height l) (row_height es))"
| "row_height [] = 0"
| "row_height ((k, v, t) # es) = max (tree_height t) (row_height es)"

lemma stored_Tip_iff: "stored w car t cid \<Longrightarrow> t = Tip \<longleftrightarrow> cid = []"
  by (cases t) (auto split: if_splits)

lemma walk_collects:
  "stored w car t cid \<Longrightarrow> tree_height t < n \<Longrightarrow>
     walk_mst_collections n w car cid cols = Some (fold (\<lambda>x. add_collection (fst x)) (tree_entries t) cols)"
  "stored_entries w car es xs \<Longrightarrow> row_height es < n \<Longrightarrow>
     walk_entries n w car xs cols = Some (fold (\<lambda>x. add_collection (fst x)) (tree_row es) cols)"
proof (induction w car t cid and w car es xs arbitrary: n cols and n cols
    rule: stored_stored_entries.induct)
  case (1 w car cid)
  then show ?case by (cases n) auto
next
  case (2 w car l es cid)
  from 2(3) obtain b node where b: "cid \<noteq> []" "wl_find_block w car cid = Some b"
    "wl_node_parse w (cb_data b) cid = Inr node" "stored w car l (mn_left node)"
    "stored_entries w car es (mn_entries node)"
    by (auto split: option.splits if_splits sum.splits)
  obtain m where n: "n = Suc m" using 2(4) by (cases n) auto
  then have h: "tree_height l < m" "row_height es < m" using 2(4) by auto
  have left: "(if mn_left node \<noteq> [] then walk_mst_collections m w car (mn_left node) cols else Some cols) =
      Some (fold (\<lambda>x. add_collection (fst x)) (tree_entries l) cols)"
  proof (cases "mn_left node = []")
    case True
    then have "l = Tip" using stored_Tip_iff [OF b(4)] by simp
    then show ?thesis using True by simp
  next
    case False
    then show ?thesis using 2(1) [of b node] b h by simp
  qed
  show ?case
    using b n left 2(2) [of b node, OF _ _ _ h(2)] by simp
next
  case (4 w car k v t es xs)
  from 4(3) obtain x ys where x: "xs = x # ys" "me_key x = k" "me_value x = v"
    "stored w car t (me_subtree x)" "stored_entries w car es ys"
    by (cases xs) auto
  have h: "tree_height t < n" "row_height es < n" using 4(4) by auto
  have sub: "(if me_subtree x \<noteq> [] then walk_mst_collections n w car (me_subtree x) (add_collection (me_key x) cols)
       else Some (add_collection (me_key x) cols)) =
      Some (fold (\<lambda>x. add_collection (fst x)) (tree_entries t) (add_collection k cols))"
  proof (cases "me_subtree x = []")
    case True
    then have "t = Tip" using stored_Tip_iff [OF x(4)] by simp
    then show ?thesis using True x by simp
  next
    case False
    then show ?thesis using 4(1) [of x ys] x h by simp
  qed
  show ?case using x sub 4(2) [of x ys, OF _ _ h(2)] by simp
qed auto

text \<open>What \<open>reindex_entry\<close> is given of an entry.\<close>

definition leaf_entry :: "string \<times> cid \<times> bool \<Rightarrow> mst_entry" where
  "leaf_entry x = \<lparr>me_key = fst x, me_value = fst (snd x), me_subtree = []\<rparr>"

definition leaves :: "(string \<times> cid \<times> bool) list \<Rightarrow> (string \<times> cid \<times> bool) list" where
  "leaves xs = filter (\<lambda>x. \<not> snd (snd x)) xs"

lemma reindex_entry_car: "rs_car (snd (reindex_entry w io e st)) = rs_car (snd st)"
  by (auto simp: reindex_entry_def index_upsert_record_def Let_def split: prod.split option.split)

lemma reindex_fold_car: "rs_car (snd (fold (\<lambda>x. reindex_entry w io (leaf_entry x)) xs st)) = rs_car (snd st)"
  by (induction xs arbitrary: st) (simp_all add: reindex_entry_car)

lemma reindex_entry_leaf:
  "me_key x = k \<Longrightarrow> me_value x = v \<Longrightarrow> me_subtree x = [] \<Longrightarrow> leaf_entry (k, v, False) = x"
  by (simp add: leaf_entry_def)

lemma reindex_visits:
  "stored w car t cid \<Longrightarrow> tree_height t < n \<Longrightarrow> rs_car (snd st) = car \<Longrightarrow>
     reindex_collect n w io cid st =
       Some (WF_OK, fold (\<lambda>x. reindex_entry w io (leaf_entry x)) (leaves (tree_entries t)) st)"
  "stored_entries w car es xs \<Longrightarrow> row_height es < n \<Longrightarrow> rs_car (snd st) = car \<Longrightarrow>
     reindex_entries n w io xs st =
       Some (WF_OK, fold (\<lambda>x. reindex_entry w io (leaf_entry x)) (leaves (tree_row es)) st)"
proof (induction w car t cid and w car es xs arbitrary: n st and n st
    rule: stored_stored_entries.induct)
  case (1 w car cid)
  then show ?case by (cases n) (auto simp: leaves_def)
next
  case (2 w car l es cid)
  from 2(3) obtain b node where b: "cid \<noteq> []" "wl_find_block w car cid = Some b"
    "wl_node_parse w (cb_data b) cid = Inr node" "stored w car l (mn_left node)"
    "stored_entries w car es (mn_entries node)"
    by (auto split: option.splits if_splits sum.splits)
  obtain m where n: "n = Suc m" using 2(4) by (cases n) auto
  then have h: "tree_height l < m" "row_height es < m" using 2(4) by auto
  have left: "(if mn_left node \<noteq> [] then reindex_collect m w io (mn_left node) st else Some (WF_OK, st)) =
      Some (WF_OK, fold (\<lambda>x. reindex_entry w io (leaf_entry x)) (leaves (tree_entries l)) st)"
  proof (cases "mn_left node = []")
    case True
    then have "l = Tip" using stored_Tip_iff [OF b(4)] by simp
    then show ?thesis using True by (simp add: leaves_def)
  next
    case False
    then show ?thesis using 2(1) [of b node] b h 2(5) by simp
  qed
  show ?case
    using b n left 2(5) 2(2) [of b node, OF _ _ _ h(2)] reindex_fold_car by (simp add: leaves_def)
next
  case (4 w car k v t es xs)
  from 4(3) obtain x ys where x: "xs = x # ys" "me_key x = k" "me_value x = v"
    "stored w car t (me_subtree x)" "stored_entries w car es ys"
    by (cases xs) auto
  have h: "tree_height t < n" "row_height es < n" using 4(4) by auto
  show ?case
  proof (cases "me_subtree x = []")
    case True
    then have "t = Tip" using stored_Tip_iff [OF x(4)] by simp
    then show ?thesis
      using True x 4(2) [of x ys, OF _ _ h(2)] 4(5)
      by (simp add: leaves_def reindex_entry_leaf reindex_entry_car)
  next
    case False
    then have "t \<noteq> Tip" using stored_Tip_iff [OF x(4)] by simp
    then show ?thesis
      using False x h 4(1) [of x ys, OF _ _ h(1)] 4(2) [of x ys, OF _ _ h(2)] 4(5) reindex_fold_car
      by (simp add: leaves_def)
  qed
qed (auto simp: leaves_def)

text \<open>On the same tree the two walks differ. The one behind \<open>describeRepo\<close> takes in every
  key; the one that rebuilds the index after an import writes only the entries with nothing to their
  right, so a record whose entry has a right subtree is not indexed, though the call succeeds. A
  depth beyond the height of the tree is enough for both.\<close>

theorem reindex_skips_inner_entries:
  assumes "stored w (rs_car s) t cid" and "tree_height t < depth"
  shows "walk_mst_collections depth w (rs_car s) cid [] =
           Some (fold (\<lambda>x. add_collection (fst x)) (tree_entries t) []) \<and>
         reindex_collect depth w io cid (0, s) =
           Some (WF_OK, fold (\<lambda>x. reindex_entry w io (leaf_entry x))
                          (filter (\<lambda>x. \<not> snd (snd x)) (tree_entries t)) (0, s))"
  using walk_collects(1) [OF assms] reindex_visits(1) [OF assms(1) assms(2), of "(0, s)" io]
  by (simp add: leaves_def)

section \<open>Concrete inputs\<close>

theorem stale_swap_changes_nothing_witness:
  "\<exists>st. st \<noteq> WF_OK \<and>
     metalbear_repo_store_put_record (demo demo_parse) demo_io demo_store ''c'' ''k'' ''j'' None (Some ''old'') =
       (Inl st, demo_store)"
proof -
  have l: "lookup_ok (demo demo_parse) demo_store ''c'' ''k''" unfolding lookup_ok_def by code_simp
  have s: "stale_record (demo demo_parse) demo_store ''c'' ''k'' (Some ''old'')"
    unfolding stale_record_def by code_simp
  show ?thesis
    using stale_swap_changes_nothing [OF l, where swap = None and swap_rec = "Some ''old''" and io = demo_io
        and json = "''j''" and key_or_null = None] s by simp
qed

text \<open>The same functions over two fixed blocks, a record and a head.\<close>

definition demo_fixed :: wolfram where
  "demo_fixed = (demo demo_parse)
     \<lparr>wl_codecs := \<lparr>tc_cid_from_string = \<lambda>t. Some (if t = ''h'' then [7] else [1]),
                    tc_cid_to_string = \<lambda>c. Some (if c = [7] then ''h'' else ''r''),
                    tc_b64_decode = \<lambda>t. None, tc_b64_encode = \<lambda>bs. None\<rparr>,
      wl_apply_writes := \<lambda>car prev did ws key. (Inr ([7], \<lambda>i. [1]), map plain_block [[1], [7]])\<rparr>"

lemma demo_fixed_text: "cid_string demo_fixed c \<noteq> None"
  by (simp add: cid_string_def demo_fixed_def)

definition demo_batch_run :: "(wf_status + string \<times> string option \<times> string) \<times> repo_store" where
  "demo_batch_run = metalbear_repo_store_apply_writes demo_fixed demo_io demo_store ''b'' None"

lemma demo_fixed_sel:
  "wl_parse demo_fixed = demo_parse" "wl_print demo_fixed = (\<lambda>j. ''{}'')"
  "wl_find_block demo_fixed = (\<lambda>car c. find (\<lambda>b. cb_cid b = c) car)"
  "wl_commit_parse demo_fixed = (\<lambda>bs. Inr \<lparr>cm_rev = ''3k'', cm_data = bs\<rparr>)"
  "wl_record_key_valid demo_fixed = (\<lambda>k. True)"
  "wl_car_write demo_fixed = (\<lambda>roots bs. Inr (concat (map cb_data bs)))"
  "wl_apply_writes demo_fixed = (\<lambda>car prev did ws key. (Inr ([7], \<lambda>i. [1]), map plain_block [[1], [7]]))"
  "cid_string demo_fixed c = Some (if c = [7] then ''h'' else ''r'')"
  "cid_parse demo_fixed t = Some (if t = ''h'' then [7] else [1])"
  "encode_record demo_fixed ''{}'' = Inr [1]"
proof -
  show "encode_record demo_fixed ''{}'' = Inr [1]" unfolding encode_record_def by code_simp
qed (simp_all add: demo_fixed_def demo_def cid_string_def cid_parse_def)

lemma demo_batch_ok: "(case demo_batch_run of (res, s') \<Rightarrow> \<not> isl res \<and> length (rs_events s') = 1)"
  by (simp add: demo_batch_run_def metalbear_repo_store_apply_writes_def apply_writes_locked_def demo_fixed_sel
   demo_parse_def check_swap_def MAX_WRITES_def stage_write_def action_of_def stage_rkey_def cj_string_def
   record_type_matches_def land_batch_def demo_store_def demo_tables_def demo_io_def commit_persist_def Let_def sql_begin_def
   set_root_def persist_new_blocks_def persist_head_def plain_block_def db_write_def insert_block_row_def sql_commit_def
   commit_of_def REV_BUF_def answer_batch_def announce_batch_def emit_commit_event_ops_def parse_commit_at_def
   metalbear_repo_store_export_def rows_since_def block_order_def head_cid_string_def index_upsert_record_def
   replace_record_row_def delete_record_row_def)

theorem apply_writes_all_or_nothing_witness:
  "\<exists>e. rs_events (snd demo_batch_run) = [e] \<and> map ro_rkey (re_ops e) = [''n'', ''m'']"
proof -
  let ?w = demo_fixed
  obtain res s' where run: "demo_batch_run = (res, s')" by force
  note ok = demo_batch_ok
  have st: "settled demo_store" "rs_events demo_store = []" by (simp_all add: settled_def demo_store_def)
  obtain c r a where res: "res = Inr (c, r, a)" using ok by (cases res) (auto simp: run)
  obtain ops staged e where e: "wl_parse ?w ''b'' = Some (CArray ops)" "stage_all ?w demo_io 0 ops = Inr staged"
    "rs_events s' = [e]" "map ro_rkey (re_ops e) = map (rw_rkey \<circ> fst) staged"
    using apply_writes_all_or_nothing [OF st(1) demo_fixed_text, where io = demo_io and json = "''b''" and swap = None] st(2) ok
    by (auto simp: demo_batch_run_def [symmetric] run res split: if_splits)
  have "case wl_parse ?w ''b'' of
      Some (CArray ops) \<Rightarrow>
        (case stage_all ?w demo_io 0 ops of Inr st \<Rightarrow> map (rw_rkey \<circ> fst) st = [''n'', ''m''] | Inl _ \<Rightarrow> False)
    | _ \<Rightarrow> False" by code_simp
  then have keys: "map ro_rkey (re_ops e) = [''n'', ''m'']" using e by simp
  have one: "rs_events (snd demo_batch_run) = [e]" using e(3) unfolding run snd_conv .
  show ?thesis by (rule exI [of _ e], rule conjI, rule one, rule keys)
qed

text \<open>A tree of two entries, the first with a subtree of one entry at its right.\<close>

definition demo_nodes :: wolfram where
  "demo_nodes = (demo demo_parse)
     \<lparr>wl_node_parse := \<lambda>bs c.
        (if bs = [1] then Inr \<lparr>mn_left = [], mn_entries =
           [\<lparr>me_key = ''c/a'', me_value = [9], me_subtree = [2]\<rparr>,
            \<lparr>me_key = ''e/z'', me_value = [9], me_subtree = []\<rparr>]\<rparr>
         else Inr \<lparr>mn_left = [], mn_entries = [\<lparr>me_key = ''d/m'', me_value = [9], me_subtree = []\<rparr>]\<rparr>)\<rparr>"

definition demo_forest :: repo_store where
  "demo_forest = demo_store\<lparr>rs_car := map plain_block [[1], [2], [9]]\<rparr>"

definition demo_tree :: mst where
  "demo_tree = Tree Tip [(''c/a'', [9], Tree Tip [(''d/m'', [9], Tip)]), (''e/z'', [9], Tip)]"

theorem reindex_skips_inner_entries_witness:
  "walk_mst_collections 3 demo_nodes (rs_car demo_forest) [1] [] = Some [''c'', ''d'', ''e''] \<and>
   (\<exists>i s. reindex_collect 3 demo_nodes demo_io [1] (0, demo_forest) = Some (WF_OK, i, s) \<and>
      map rr_collection (t_records (rd_now (rs_db s))) = [''d'', ''e''])"
proof -
  have st: "stored demo_nodes (rs_car demo_forest) demo_tree [1]" and h: "tree_height demo_tree < 3"
    by code_simp+
  let ?f = "fold (\<lambda>x. reindex_entry demo_nodes demo_io (leaf_entry x))
    (filter (\<lambda>x. \<not> snd (snd x)) (tree_entries demo_tree)) (0, demo_forest)"
  have "fold (\<lambda>x. add_collection (fst x)) (tree_entries demo_tree) [] = [''c'', ''d'', ''e'']"
    and "map rr_collection (t_records (rd_now (rs_db (snd ?f)))) = [''d'', ''e'']" by code_simp+
  then show ?thesis
    using reindex_skips_inner_entries [OF st h, of demo_io] by (cases ?f) auto
qed

end
