(* ===== verification/Repo_Index.thy ===== *)
theory Repo_Index
  imports Repo_Guards
begin

text \<open>
  The contract of \<open>src/repo/repo_store.c\<close>: the head commit holds a map from collection and key to
  record, the writing operations refine that map, and the index and the disk follow it. What
  Wolfram's functions do to the map is the hypothesis \<open>lawful\<close>; a small Wolfram that meets it, with
  identity CIDs, stands at the end of the theory and serves the witnesses.
\<close>

section \<open>The map in a head\<close>

type_synonym record_map = "string \<times> string \<Rightarrow> cid option"

definition tree_at :: "wolfram \<Rightarrow> car \<Rightarrow> cid \<Rightarrow> record_map" where
  "tree_at w car h =
     (\<lambda>(c, k). if h = [] then None
               else (case wl_get_record w car h c k of Inr (_, x) \<Rightarrow> Some x | Inl _ \<Rightarrow> None))"

definition tree_of :: "wolfram \<Rightarrow> repo_store \<Rightarrow> record_map" where
  "tree_of w s = tree_at w (rs_car s) (rs_head s)"

definition head_of :: "cid option \<Rightarrow> cid" where
  "head_of prev = (case prev of None \<Rightarrow> [] | Some h \<Rightarrow> h)"

fun batch_effect :: "(nat \<Rightarrow> cid) \<Rightarrow> nat \<Rightarrow> repo_write list \<Rightarrow> record_map \<Rightarrow> record_map" where
  "batch_effect outs i [] m = m"
| "batch_effect outs i (b # bs) m =
     batch_effect outs (Suc i) bs
       (m((rw_collection b, rw_rkey b) :=
            (if rw_action b = WF_REPO_WRITE_DELETE then None else Some (outs i))))"

text \<open>
  What is relied on: CIDs print, and read back as themselves; a writing function leaves the map of
  the head it was given as it was, and gives a new, non-empty head whose map has the write.
\<close>

definition law_text :: "wolfram \<Rightarrow> bool" where
  "law_text w \<longleftrightarrow> (\<forall>c. \<exists>t. cid_string w c = Some t \<and> cid_parse w t = Some c)"

definition law_create :: "wolfram \<Rightarrow> bool" where
  "law_create w \<longleftrightarrow>
     (\<forall>car prev did c k body key res car'.
        wl_create_record w car prev did c k body key = (res, car') \<longrightarrow>
        tree_at w car' (head_of prev) = tree_at w car (head_of prev) \<and>
        (\<forall>out x. res = Inr (out, x) \<longrightarrow>
           out \<noteq> [] \<and> tree_at w car (head_of prev) (c, k) = None \<and>
           tree_at w car' out = (tree_at w car (head_of prev))((c, k) \<mapsto> x)))"

definition law_update :: "wolfram \<Rightarrow> bool" where
  "law_update w \<longleftrightarrow>
     (\<forall>car h did c k body key res car'.
        wl_update_record w car h did c k body key = (res, car') \<longrightarrow>
        tree_at w car' h = tree_at w car h \<and>
        (\<forall>out x. res = Inr (out, x) \<longrightarrow>
           out \<noteq> [] \<and> tree_at w car h (c, k) \<noteq> None \<and>
           tree_at w car' out = (tree_at w car h)((c, k) \<mapsto> x)))"

definition law_delete :: "wolfram \<Rightarrow> bool" where
  "law_delete w \<longleftrightarrow>
     (\<forall>car h did c k key res car'.
        wl_delete_record w car h did c k key = (res, car') \<longrightarrow>
        tree_at w car' h = tree_at w car h \<and> res \<noteq> Inl WF_OK \<and>
        (\<forall>out. res = Inr out \<longrightarrow>
           out \<noteq> [] \<and> tree_at w car h (c, k) \<noteq> None \<and>
           tree_at w car' out = (tree_at w car h)((c, k) := None)))"

definition law_apply :: "wolfram \<Rightarrow> bool" where
  "law_apply w \<longleftrightarrow>
     (\<forall>car prev did ws key res car'.
        wl_apply_writes w car prev did ws key = (res, car') \<longrightarrow>
        tree_at w car' (head_of prev) = tree_at w car (head_of prev) \<and>
        (\<forall>out outs. res = Inr (out, outs) \<longrightarrow>
           out \<noteq> [] \<and>
           tree_at w car' out = batch_effect outs 0 ws (tree_at w car (head_of prev))))"

definition law_get :: "wolfram \<Rightarrow> bool" where
  "law_get w \<longleftrightarrow> (\<forall>car h c k. wl_get_record w car h c k \<noteq> Inl WF_OK)"

definition lawful :: "wolfram \<Rightarrow> bool" where
  "lawful w \<longleftrightarrow>
     law_text w \<and> law_create w \<and> law_update w \<and> law_delete w \<and> law_apply w \<and> law_get w"

definition io_ok :: "repo_io \<Rightarrow> bool" where
  "io_ok io \<longleftrightarrow> io_begin io \<and> (\<forall>i. io_block io i) \<and> io_head io \<and> io_commit io \<and> (\<forall>i. io_index io i)"

definition cid_text :: "wolfram \<Rightarrow> cid \<Rightarrow> string" where
  "cid_text w c = (case cid_string w c of Some t \<Rightarrow> t | None \<Rightarrow> '''')"

lemma lawful_text: "lawful w \<Longrightarrow> cid_string w c = Some (cid_text w c)"
  by (auto simp: lawful_def law_text_def cid_text_def dest: spec [of _ c])

lemma lawful_parse: "lawful w \<Longrightarrow> cid_parse w (cid_text w c) = Some c"
  using lawful_text [of w c] unfolding lawful_def law_text_def by (metis option.inject)

lemma lawful_create:
  assumes "lawful w" and "wl_create_record w car prev did c k body key = (res, car')"
  shows "tree_at w car' (head_of prev) = tree_at w car (head_of prev)"
    and "res = Inr (out, x) \<Longrightarrow> out \<noteq> [] \<and> tree_at w car (head_of prev) (c, k) = None \<and>
           tree_at w car' out = (tree_at w car (head_of prev))((c, k) \<mapsto> x)"
proof -
  have "law_create w" using assms(1) by (simp add: lawful_def)
  note law = this [unfolded law_create_def, rule_format, OF assms(2)]
  show "tree_at w car' (head_of prev) = tree_at w car (head_of prev)"
    and "res = Inr (out, x) \<Longrightarrow> out \<noteq> [] \<and> tree_at w car (head_of prev) (c, k) = None \<and>
           tree_at w car' out = (tree_at w car (head_of prev))((c, k) \<mapsto> x)"
    using law by blast+
qed

lemma lawful_update:
  assumes "lawful w" and "wl_update_record w car h did c k body key = (res, car')"
  shows "tree_at w car' h = tree_at w car h"
    and "res = Inr (out, x) \<Longrightarrow> out \<noteq> [] \<and> tree_at w car h (c, k) \<noteq> None \<and>
           tree_at w car' out = (tree_at w car h)((c, k) \<mapsto> x)"
proof -
  have "law_update w" using assms(1) by (simp add: lawful_def)
  note law = this [unfolded law_update_def, rule_format, OF assms(2)]
  show "tree_at w car' h = tree_at w car h"
    and "res = Inr (out, x) \<Longrightarrow> out \<noteq> [] \<and> tree_at w car h (c, k) \<noteq> None \<and>
           tree_at w car' out = (tree_at w car h)((c, k) \<mapsto> x)"
    using law by blast+
qed

lemma lawful_delete:
  assumes "lawful w" and "wl_delete_record w car h did c k key = (res, car')"
  shows "tree_at w car' h = tree_at w car h" and "res \<noteq> Inl WF_OK"
    and "res = Inr out \<Longrightarrow> out \<noteq> [] \<and> tree_at w car h (c, k) \<noteq> None \<and>
           tree_at w car' out = (tree_at w car h)((c, k) := None)"
proof -
  have "law_delete w" using assms(1) by (simp add: lawful_def)
  note law = this [unfolded law_delete_def, rule_format, OF assms(2)]
  show "tree_at w car' h = tree_at w car h" and "res \<noteq> Inl WF_OK"
    and "res = Inr out \<Longrightarrow> out \<noteq> [] \<and> tree_at w car h (c, k) \<noteq> None \<and>
           tree_at w car' out = (tree_at w car h)((c, k) := None)"
    using law by blast+
qed

lemma lawful_apply:
  assumes "lawful w" and "wl_apply_writes w car prev did ws key = (res, car')"
  shows "tree_at w car' (head_of prev) = tree_at w car (head_of prev)"
    and "res = Inr (out, outs) \<Longrightarrow> out \<noteq> [] \<and>
           tree_at w car' out = batch_effect outs 0 ws (tree_at w car (head_of prev))"
proof -
  have "law_apply w" using assms(1) by (simp add: lawful_def)
  note law = this [unfolded law_apply_def, rule_format, OF assms(2)]
  show "tree_at w car' (head_of prev) = tree_at w car (head_of prev)"
    and "res = Inr (out, outs) \<Longrightarrow> out \<noteq> [] \<and>
           tree_at w car' out = batch_effect outs 0 ws (tree_at w car (head_of prev))"
    using law by blast+
qed

lemma head_of_prev [simp]: "head_of (prev_of s) = rs_head s"
  by (simp add: head_of_def prev_of_def)

lemma lookup_lawful: "lawful w \<Longrightarrow> lookup_ok w s collection rkey"
  by (auto simp: lawful_def law_get_def lookup_ok_def get_record_cbor_def)

section \<open>Commits that go through\<close>

lemma insert_blocks_ok:
  assumes "lawful w" and "io_ok io"
  shows "fst (insert_blocks w io revision i bs db) = WF_OK"
  using assms(2) by (induction bs arbitrary: i db) (simp_all add: lawful_text [OF assms(1)] io_ok_def)

lemma commit_ok:
  assumes "lawful w" and "io_ok io" and "settled s"
  obtains s' where "commit_persist w io s c = (WF_OK, s')"
proof -
  have io: "io_begin io" "io_head io" using assms(2) by (simp_all add: io_ok_def)
  have b: "fst (persist_new_blocks w io x) = WF_OK" for x
    using insert_blocks_ok [OF assms(1,2)]
    by (auto simp: persist_new_blocks_def Let_def split: prod.split) (metis fst_conv)+
  have "fst (commit_persist w io s c) = WF_OK"
    using b io begin_settled [OF assms(3), of True]
    by (auto simp: commit_persist_def Let_def persist_head_def split: prod.split) (metis fst_conv)+
  then show thesis using that by (metis prod.collapse)
qed

section \<open>The index follows the head\<close>

definition index_map :: "record_row list \<Rightarrow> string \<times> string \<Rightarrow> string option" where
  "index_map rows = map_of (map (\<lambda>r. ((rr_collection r, rr_rkey r), rr_cid r)) rows)"

definition index_of :: "repo_store \<Rightarrow> string \<times> string \<Rightarrow> string option" where
  "index_of s = index_map (t_records (rd_now (rs_db s)))"

definition mirrors :: "wolfram \<Rightarrow> repo_store \<Rightarrow> bool" where
  "mirrors w s \<longleftrightarrow> settled s \<and> index_of s = map_option (cid_text w) \<circ> tree_of w s"

lemma index_map_filter:
  "index_map (filter (\<lambda>r. \<not> (rr_collection r = c \<and> rr_rkey r = k)) rows) = (index_map rows)((c, k) := None)"
  by (induction rows) (auto simp: index_map_def fun_eq_iff)

lemma index_map_append: "index_map (rows @ [row]) =
    (\<lambda>x. case index_map rows x of Some v \<Rightarrow> Some v
         | None \<Rightarrow> if x = (rr_collection row, rr_rkey row) then Some (rr_cid row) else None)"
  by (auto simp: index_map_def fun_eq_iff map_add_def split: option.split)

lemma index_delete: "index_map (t_records (delete_record_row c k t)) = (index_map (t_records t))((c, k) := None)"
  unfolding index_map_filter [symmetric] by (simp add: delete_record_row_def)

lemma index_replace:
  "index_map (t_records (replace_record_row row t)) =
     (index_map (t_records t))((rr_collection row, rr_rkey row) \<mapsto> rr_cid row)"
  by (auto simp: replace_record_row_def Let_def index_map_append index_delete fun_eq_iff split: option.split)

lemma settled_write: "settled s \<Longrightarrow> settled (s\<lparr>rs_db := db_write f (rs_db s)\<rparr>)"
  by (simp add: settled_def db_write_def)

lemma upsert_ok:
  assumes "io_ok io"
  shows "index_of (index_upsert_record w io i s c k t json) = (index_of s)((c, k) \<mapsto> t)"
    and "settled s \<Longrightarrow> settled (index_upsert_record w io i s c k t json)"
    and "tree_of v (index_upsert_record w io i s c k t json) = tree_of v s"
  using assms
  by (simp_all add: index_upsert_record_def Let_def io_ok_def index_of_def index_replace settled_write tree_of_def)

lemma index_delete_ok:
  assumes "io_ok io"
  shows "index_of (index_delete_record io i s c k) = (index_of s)((c, k) := None)"
    and "settled s \<Longrightarrow> settled (index_delete_record io i s c k)"
    and "tree_of v (index_delete_record io i s c k) = tree_of v s"
  using assms
  by (simp_all add: index_delete_record_def io_ok_def index_of_def index_delete settled_write tree_of_def)

lemma emit_ok [simp]:
  "settled (emit_commit_event_ops w io s old ops) = settled s"
  "index_of (emit_commit_event_ops w io s old ops) = index_of s"
  "tree_of v (emit_commit_event_ops w io s old ops) = tree_of v s"
  "settled (emit_commit_event w io s old a c k x p) = settled s"
  "index_of (emit_commit_event w io s old a c k x p) = index_of s"
  "tree_of v (emit_commit_event w io s old a c k x p) = tree_of v s"
  by (simp_all add: settled_def index_of_def tree_of_def emit_commit_event_def)

text \<open>The commit under a new car: the head's map and, still, the old index.\<close>

lemma commit_moves:
  assumes "lawful w" and "io_ok io" and "settled s"
  obtains s' where "commit_persist w io (s\<lparr>rs_car := car\<rparr>) out = (WF_OK, s')"
    and "settled s'" and "tree_of w s' = tree_at w car out" and "index_of s' = index_of s"
    and "rs_head s' = out" and "rs_did s' = rs_did s"
proof -
  have st: "settled (s\<lparr>rs_car := car\<rparr>)" using assms(3) by (simp add: settled_def)
  obtain s' where s': "commit_persist w io (s\<lparr>rs_car := car\<rparr>) out = (WF_OK, s')"
    by (rule commit_ok [OF assms(1,2) st])
  note c = commit_persist_cases [OF s' st]
  have "io_commit io" using assms(2) by (simp add: io_ok_def)
  then show thesis
    using that [OF s'] c by (simp add: tree_of_def index_of_def)
qed

text \<open>Which maps a call may leave, and what it answers.\<close>

lemma land_record_ok:
  assumes "lawful w" and "io_ok io" and "mirrors w s"
    and "tree_at w (snd outcome) (rs_head s) = tree_of w s"
    and "\<And>out x. fst outcome = Inr (out, x) \<Longrightarrow>
           tree_at w (snd outcome) out = (tree_of w s)((c, k) \<mapsto> x)"
    and "land_record w io s old action c k json prev outcome = (res, s')"
  shows "mirrors w s' \<and>
    (case res of
       Inl _ \<Rightarrow> tree_of w s' = tree_of w s
     | Inr (uri, t) \<Rightarrow>
         uri = make_uri (rs_did s) c k \<and>
         (\<exists>x out. fst outcome = Inr (out, x) \<and> t = cid_text w x \<and> tree_of w s' = (tree_of w s)((c, k) \<mapsto> x)))"
proof -
  obtain r car where o: "outcome = (r, car)" by force
  have st: "settled s" and ix: "index_of s = map_option (cid_text w) \<circ> tree_of w s"
    using assms(3) by (simp_all add: mirrors_def)
  show ?thesis
  proof (cases r)
    case (Inl e)
    then have "s' = s\<lparr>rs_car := car\<rparr>" "res = Inl e"
      using assms(6) by (simp_all add: land_record_def o)
    then show ?thesis
      using assms(4) st ix by (simp add: o mirrors_def tree_of_def index_of_def settled_def)
  next
    case (Inr a)
    obtain out x where a: "r = Inr (out, x)" using Inr by (cases a) auto
    obtain s1 where s1: "commit_persist w io (s\<lparr>rs_car := car\<rparr>) out = (WF_OK, s1)" "settled s1"
      "tree_of w s1 = tree_at w car out" "index_of s1 = index_of s"
      by (rule commit_moves [OF assms(1,2) st])
    have m: "tree_at w car out = (tree_of w s)((c, k) \<mapsto> x)" using assms(5) by (simp add: o a)
    have fin: "res = Inr (make_uri (rs_did s) c k, cid_text w x)"
      "s' = emit_commit_event w io (index_upsert_record w io 0 s1 c k (cid_text w x) json) old action c k
              (Some x) prev"
      using assms(6) by (simp_all add: land_record_def o a s1(1) lawful_text [OF assms(1)])
    show ?thesis
      using s1 m ix by (auto simp: fin o a mirrors_def upsert_ok [OF assms(2)] fun_eq_iff)
  qed
qed

lemma index_batch_ok:
  assumes "lawful w" and "io_ok io" and "index_of s = map_option (cid_text w) \<circ> m"
  shows "index_of (index_batch w io outs i staged s) =
           map_option (cid_text w) \<circ> batch_effect outs i (map fst staged) m"
  using assms(3)
proof (induction staged arbitrary: i s m)
  case (Cons x staged)
  obtain b json where x: "x = (b, json)" by force
  have t: "cid_string w (outs i) = Some (cid_text w (outs i))" by (rule lawful_text [OF assms(1)])
  show ?case
  proof (cases "rw_action b = WF_REPO_WRITE_DELETE")
    case True
    have "index_of (index_delete_record io i s (rw_collection b) (rw_rkey b)) =
        map_option (cid_text w) \<circ> m((rw_collection b, rw_rkey b) := None)"
      using Cons.prems by (simp add: index_delete_ok [OF assms(2)] fun_eq_iff)
    from Cons.IH [OF this] show ?thesis
      by (simp only: x list.map fst_conv index_batch.simps batch_effect.simps True simp_thms if_True)
  next
    case False
    have "index_of (index_upsert_record w io i s (rw_collection b) (rw_rkey b) (cid_text w (outs i)) json) =
        map_option (cid_text w) \<circ> m((rw_collection b, rw_rkey b) \<mapsto> outs i)"
      using Cons.prems by (simp add: upsert_ok [OF assms(2)] fun_eq_iff)
    from Cons.IH [OF this] show ?thesis
      by (simp only: x t list.map fst_conv index_batch.simps batch_effect.simps False if_False option.case)
  qed
qed simp

lemma index_batch_settled:
  assumes "io_ok io"
  shows "settled s \<Longrightarrow> settled (index_batch w io outs i staged s)"
    and "tree_of v (index_batch w io outs i staged s) = tree_of v s"
proof -
  show "settled s \<Longrightarrow> settled (index_batch w io outs i staged s)"
    by (induction w io outs i staged s rule: index_batch.induct)
      (use assms in \<open>auto simp: index_upsert_record_def index_delete_record_def Let_def settled_write\<close>)
  show "tree_of v (index_batch w io outs i staged s) = tree_of v s"
    by (simp add: tree_of_def)
qed

lemma apply_ok:
  assumes "lawful w" and "io_ok io" and "mirrors w s"
    and "apply_writes_locked w io s json swap = (res, s')"
  shows "mirrors w s' \<and>
    (case res of
       Inl _ \<Rightarrow> tree_of w s' = tree_of w s
     | Inr _ \<Rightarrow>
         (\<exists>ops staged outs. wl_parse w json = Some (CArray ops) \<and> stage_all w io 0 ops = Inr staged \<and>
            tree_of w s' = batch_effect outs 0 (map fst staged) (tree_of w s)))"
proof (cases "\<exists>ops staged. wl_parse w json = Some (CArray ops) \<and> stage_all w io 0 ops = Inr staged \<and>
    apply_writes_locked w io s json swap = land_batch w io s staged")
  case False
  then have "s' = s \<and> (\<exists>st. res = Inl st)"
    using assms(4) unfolding apply_writes_locked_def
    by (auto split: option.splits cjson.splits if_splits sum.splits)
  then show ?thesis using assms(3) by auto
next
  case True
  then obtain ops staged where st: "wl_parse w json = Some (CArray ops)"
    "stage_all w io 0 ops = Inr staged" "land_batch w io s staged = (res, s')" using assms(4) by auto
  have sd: "settled s" and ix: "index_of s = map_option (cid_text w) \<circ> tree_of w s"
    using assms(3) by (simp_all add: mirrors_def)
  obtain ans car where w: "wl_apply_writes w (rs_car s) (prev_of s) (rs_did s) (map fst staged) (rs_key s) = (ans, car)"
    by force
  note laws = lawful_apply [OF assms(1) w, unfolded head_of_prev]
  show ?thesis
  proof (cases ans)
    case (Inl e)
    then show ?thesis
      using st(3) laws(1) sd ix
      by (auto simp: land_batch_def w mirrors_def tree_of_def index_of_def settled_def)
  next
    case (Inr a)
    obtain out outs where a: "ans = Inr (out, outs)" using Inr by (cases a) auto
    obtain s1 where s1: "commit_persist w io (s\<lparr>rs_car := car\<rparr>) out = (WF_OK, s1)" "settled s1"
      "tree_of w s1 = tree_at w car out" "index_of s1 = index_of s" "rs_head s1 = out" "rs_did s1 = rs_did s"
      by (rule commit_moves [OF assms(1,2) sd])
    have m: "tree_of w s1 = batch_effect outs 0 (map fst staged) (tree_of w s)"
      using laws(2) [OF a] s1(3) by (simp add: tree_of_def)
    let ?s3 = "emit_commit_event_ops w io (index_batch w io outs 0 staged s1) (rs_head s)
      (map (\<lambda>(i, b). batch_op outs i b) (enumerate 0 (map fst staged)))"
    have "s' = ?s3" and "\<exists>a. res = Inr a"
      using st(3) by (auto simp: land_batch_def w a s1(1) answer_batch_def announce_batch_def head_cid_string_def
          lawful_text [OF assms(1)] split: if_splits)
    moreover have "mirrors w ?s3"
      using index_batch_ok [OF assms(1,2), of s1 "tree_of w s"] ix s1(2,4) m index_batch_settled [OF assms(2)]
      by (simp add: mirrors_def)
    ultimately show ?thesis
      using m st(1,2) index_batch_settled(2) [OF assms(2)] by (auto split: sum.split)
  qed
qed

lemma create_plain:
  assumes "lawful w" and "io_ok io" and "mirrors w s"
    and "create_record_locked w io s c key_or_null json swap = (res, s')"
    and "backlink_path_for_collection c = None"
  shows "mirrors w s' \<and>
    (case res of
       Inl _ \<Rightarrow> tree_of w s' = tree_of w s
     | Inr (uri, t) \<Rightarrow>
         (\<exists>k x. uri = make_uri (rs_did s) c k \<and> t = cid_text w x \<and>
            tree_of w s (c, k) = None \<and> tree_of w s' = (tree_of w s)((c, k) \<mapsto> x)))"
proof (cases "\<exists>k cbor. land_record w io s (rs_head s) ''create'' c k json None
        (wl_create_record w (rs_car s) (prev_of s) (rs_did s) c k cbor (rs_key s)) = (res, s')")
  case False
  then have "s' = s \<and> (\<exists>st. res = Inl st)"
    using assms(4,5) unfolding create_record_locked_def Let_def
    by (auto split: option.splits if_splits sum.splits)
  then show ?thesis using assms(3) by auto
next
  case True
  then obtain k cbor where l: "land_record w io s (rs_head s) ''create'' c k json None
        (wl_create_record w (rs_car s) (prev_of s) (rs_did s) c k cbor (rs_key s)) = (res, s')"
    using assms(4) by auto
  obtain ans car where w: "wl_create_record w (rs_car s) (prev_of s) (rs_did s) c k cbor (rs_key s) = (ans, car)"
    by force
  note laws = lawful_create [OF assms(1) w, unfolded head_of_prev]
  have "mirrors w s' \<and>
    (case res of
       Inl _ \<Rightarrow> tree_of w s' = tree_of w s
     | Inr (uri, t) \<Rightarrow>
         uri = make_uri (rs_did s) c k \<and>
         (\<exists>x out. fst (ans, car) = Inr (out, x) \<and> t = cid_text w x \<and>
            tree_of w s' = (tree_of w s)((c, k) \<mapsto> x)))"
    by (rule land_record_ok [OF assms(1,2,3) _ _ l [unfolded w]]) (use laws in \<open>auto simp: tree_of_def\<close>)
  then show ?thesis
    using laws(2) by (fastforce simp: tree_of_def split: sum.splits)
qed

lemma cleanup_mirrors:
  assumes "lawful w" and "io_ok io" and "mirrors w s"
  shows "mirrors w (snd (create_record_with_backlink_cleanup w io s c k json cs))"
proof -
  have "mirrors w (snd (apply_writes_locked w io s j None))" for j
    using apply_ok [OF assms, of j None "fst (apply_writes_locked w io s j None)"
        "snd (apply_writes_locked w io s j None)"] by simp
  then have "mirrors w s'" if "apply_writes_locked w io s j None = (r, s')" for j r s'
    using that by (metis snd_conv)
  then show ?thesis
    using assms(3) unfolding create_record_with_backlink_cleanup_def
    by (auto split: option.split prod.split sum.split cjson.split)
qed

lemma create_mirrors:
  assumes "lawful w" and "io_ok io" and "mirrors w s"
  shows "mirrors w (snd (create_record_locked w io s c key_or_null json swap))"
proof -
  have land: "mirrors w (snd (land_record w io s (rs_head s) ''create'' c k json None
        (wl_create_record w (rs_car s) (prev_of s) (rs_did s) c k cbor (rs_key s))))" for k cbor
  proof -
    obtain ans car where w: "wl_create_record w (rs_car s) (prev_of s) (rs_did s) c k cbor (rs_key s) = (ans, car)"
      by force
    obtain res s' where l: "land_record w io s (rs_head s) ''create'' c k json None (ans, car) = (res, s')"
      by force
    note laws = lawful_create [OF assms(1) w, unfolded head_of_prev]
    have "mirrors w s'"
      by (rule land_record_ok [OF assms _ _ l, THEN conjunct1]) (use laws in \<open>auto simp: tree_of_def\<close>)
    then show ?thesis by (simp add: w l)
  qed
  show ?thesis
    using cleanup_mirrors [OF assms] land assms(3)
    unfolding create_record_locked_def Let_def by (auto split: option.split sum.split)
qed

lemma record_at_tree:
  "get_record_cbor w s c k = Inr (data, x) \<Longrightarrow> tree_of w s (c, k) = Some x"
  by (auto simp: get_record_cbor_def tree_of_def tree_at_def split: if_splits)

lemma repo_put_ok:
  assumes "lawful w" and "io_ok io" and "mirrors w s"
    and "put_record_locked w io s c k json swap swap_rec = (res, s')"
  shows "mirrors w s' \<and>
    (case res of
       Inl _ \<Rightarrow> tree_of w s' = tree_of w s
     | Inr (uri, t) \<Rightarrow>
         uri = make_uri (rs_did s) c k \<and>
         (\<exists>x. t = cid_text w x \<and> tree_of w s' = (tree_of w s)((c, k) \<mapsto> x)))"
proof -
  have same: ?thesis if "res = Inl e" "s' = s" for e using that assms(3) by simp
  have land: ?thesis
    if w: "op = (ans, car)" and l: "land_record w io s (rs_head s) action c k json prev op = (res, s')"
      and laws: "tree_at w car (rs_head s) = tree_at w (rs_car s) (rs_head s)"
        "\<And>out x. ans = Inr (out, x) \<Longrightarrow>
           tree_at w car out = (tree_at w (rs_car s) (rs_head s))((c, k) \<mapsto> x)"
    for op ans car action prev
  proof -
    have "mirrors w s' \<and>
      (case res of
         Inl _ \<Rightarrow> tree_of w s' = tree_of w s
       | Inr (uri, t) \<Rightarrow>
           uri = make_uri (rs_did s) c k \<and>
           (\<exists>x out. fst (ans, car) = Inr (out, x) \<and> t = cid_text w x \<and>
              tree_of w s' = (tree_of w s)((c, k) \<mapsto> x)))"
      by (rule land_record_ok [OF assms(1,2,3) _ _ l [unfolded w]]) (use laws in \<open>auto simp: tree_of_def\<close>)
    then show ?thesis by (auto split: sum.splits)
  qed
  consider (err) e where "res = Inl e" "s' = s"
    | (noop) data x where "get_record_cbor w s c k = Inr (data, x)" "s' = s"
        "res = Inr (make_uri (rs_did s) c k, cid_text w x)"
    | (update) cbor prev where "land_record w io s (rs_head s) ''update'' c k json prev
        (wl_update_record w (rs_car s) (rs_head s) (rs_did s) c k cbor (rs_key s)) = (res, s')"
    | (create) cbor where "land_record w io s (rs_head s) ''create'' c k json None
        (wl_create_record w (rs_car s) (prev_of s) (rs_did s) c k cbor (rs_key s)) = (res, s')"
    using assms(4) unfolding put_record_locked_def
    by (auto simp: lawful_text [OF assms(1)] split: sum.splits if_splits prod.splits option.splits)
  then show ?thesis
  proof cases
    case err
    then show ?thesis by (rule same)
  next
    case noop
    then have "tree_of w s (c, k) = Some x" by (intro record_at_tree)
    then have "tree_of w s = (tree_of w s)((c, k) \<mapsto> x)" by (simp add: fun_upd_idem)
    then show ?thesis using noop assms(3) by auto
  next
    case update
    obtain ans car where w: "wl_update_record w (rs_car s) (rs_head s) (rs_did s) c k cbor (rs_key s) = (ans, car)"
      by force
    show ?thesis by (rule land [OF w update]) (use lawful_update [OF assms(1) w] in auto)
  next
    case create
    obtain ans car where w: "wl_create_record w (rs_car s) (prev_of s) (rs_did s) c k cbor (rs_key s) = (ans, car)"
      by force
    show ?thesis
      by (rule land [OF w create]) (use lawful_create [OF assms(1) w, unfolded head_of_prev] in auto)
  qed
qed

lemma repo_delete_ok:
  assumes "lawful w" and "io_ok io" and "mirrors w s"
    and "delete_record_locked w io s c k swap swap_rec = (st, s')"
  shows "mirrors w s' \<and>
    (if st = WF_OK then tree_of w s (c, k) \<noteq> None \<and> tree_of w s' = (tree_of w s)((c, k) := None)
     else tree_of w s' = tree_of w s)"
proof -
  have sd: "settled s" and ix: "index_of s = map_option (cid_text w) \<circ> tree_of w s"
    using assms(3) by (simp_all add: mirrors_def)
  obtain ans car where w: "wl_delete_record w (rs_car s) (rs_head s) (rs_did s) c k (rs_key s) = (ans, car)"
    by force
  note laws = lawful_delete [OF assms(1) w]
  consider (err) "st \<noteq> WF_OK" "s' = s"
    | (go) x where "(case (ans, car) of
         (Inl st, car) \<Rightarrow> (st, s\<lparr>rs_car := car\<rparr>)
       | (Inr out_commit, car) \<Rightarrow>
           (case commit_persist w io (s\<lparr>rs_car := car\<rparr>) out_commit of
              (st, s1) \<Rightarrow>
                if st \<noteq> WF_OK then (st, s1)
                else (WF_OK, emit_commit_event w io (index_delete_record io 0 s1 c k)
                               (rs_head s) ''delete'' c k None (Some x)))) = (st, s')"
    using assms(4) lookup_lawful [OF assms(1)] unfolding delete_record_locked_def w lookup_ok_def
    by (auto split: sum.splits if_splits prod.splits)
  then show ?thesis
  proof cases
    case err
    then show ?thesis using assms(3) by simp
  next
    case go
    show ?thesis
    proof (cases ans)
      case (Inl e)
      then show ?thesis
        using go laws sd ix by (auto simp: mirrors_def tree_of_def index_of_def settled_def)
    next
      case (Inr out)
      obtain s1 where s1: "commit_persist w io (s\<lparr>rs_car := car\<rparr>) out = (WF_OK, s1)" "settled s1"
        "tree_of w s1 = tree_at w car out" "index_of s1 = index_of s"
        by (rule commit_moves [OF assms(1,2) sd])
      have m: "tree_of w s (c, k) \<noteq> None" "tree_of w s1 = (tree_of w s)((c, k) := None)"
        using laws(3) [OF Inr] s1(3) by (simp_all add: tree_of_def)
      have "s' = emit_commit_event w io (index_delete_record io 0 s1 c k) (rs_head s) ''delete'' c k None (Some x)"
        "st = WF_OK" using go by (simp_all add: Inr s1(1))
      then show ?thesis
        using s1(1,2,4) m ix by (auto simp: mirrors_def index_delete_ok [OF assms(2)] fun_eq_iff)
    qed
  qed
qed

section \<open>Runs\<close>

datatype repo_call =
    Create_call string "string option" string "string option"
  | Put_call string string string "string option" "string option"
  | Delete_call string string "string option" "string option"
  | Apply_call string "string option"

fun repo_call_state :: "wolfram \<Rightarrow> repo_io \<Rightarrow> repo_call \<Rightarrow> repo_store \<Rightarrow> repo_store" where
  "repo_call_state w io (Create_call c k json swap) s =
     snd (metalbear_repo_store_create_record w io s c k json swap)"
| "repo_call_state w io (Put_call c k json swap swap_rec) s =
     snd (metalbear_repo_store_put_record w io s c k json swap swap_rec)"
| "repo_call_state w io (Delete_call c k swap swap_rec) s =
     snd (metalbear_repo_store_delete_record w io s c k swap swap_rec)"
| "repo_call_state w io (Apply_call json swap) s =
     snd (metalbear_repo_store_apply_writes w io s json swap)"

inductive repo_step :: "wolfram \<Rightarrow> repo_store \<Rightarrow> repo_store \<Rightarrow> bool" for w where
  call: "io_ok io \<Longrightarrow> repo_step w s (repo_call_state w io call s)"

definition empty_repo :: "repo_store \<Rightarrow> bool" where
  "empty_repo s \<longleftrightarrow> settled s \<and> rs_head s = [] \<and> t_records (rd_now (rs_db s)) = []"

lemma call_mirrors:
  assumes "lawful w" and "io_ok io" and "mirrors w s"
  shows "mirrors w (repo_call_state w io call s)"
proof (cases call)
  case (Create_call c k json swap)
  then show ?thesis
    using create_mirrors [OF assms] by (simp add: metalbear_repo_store_create_record_def)
next
  case (Put_call c k json swap swap_rec)
  then show ?thesis
    using repo_put_ok [OF assms, of c k json swap swap_rec] prod.collapse
    by (metis metalbear_repo_store_put_record_def repo_call_state.simps(2))
next
  case (Delete_call c k swap swap_rec)
  then show ?thesis
    using repo_delete_ok [OF assms, of c k swap swap_rec] prod.collapse
    by (metis metalbear_repo_store_delete_record_def repo_call_state.simps(3))
next
  case (Apply_call json swap)
  then show ?thesis
    using apply_ok [OF assms, of json swap] prod.collapse
    by (metis metalbear_repo_store_apply_writes_def repo_call_state.simps(4))
qed

interpretation repo_runs: transition_system empty_repo "\<lambda>s t. lawful w \<and> repo_step w s t" "mirrors w"
  for w :: wolfram
proof
  fix s :: repo_store
  assume "empty_repo s"
  then show "mirrors w s"
    by (auto simp: empty_repo_def mirrors_def index_of_def index_map_def tree_of_def tree_at_def fun_eq_iff)
next
  fix s t :: repo_store
  assume "mirrors w s" and "lawful w \<and> repo_step w s t"
  then show "mirrors w t" by (auto elim!: repo_step.cases intro: call_mirrors)
qed

lemma runs_lawful: "lawful w \<Longrightarrow> (repo_step w)\<^sup>*\<^sup>* s t \<Longrightarrow> (\<lambda>s t. lawful w \<and> repo_step w s t)\<^sup>*\<^sup>* s t"
  by (rotate_tac 1, induction rule: rtranclp_induct) (auto intro: rtranclp.rtrancl_into_rtrancl)

text \<open>The outcome of the index's statement is not looked at. When it fails, a put still answers the
  new record, and the index keeps the row it had.\<close>

lemma index_write_lost:
  assumes "settled s" and "\<not> io_index io 0"
    and "metalbear_repo_store_put_record w io s c k json swap swap_rec = (Inr a, s')"
  shows "index_of s' = index_of s"
proof -
  have land: "index_of s' = index_of s"
    if l: "land_record w io s old act c k json prev r = (Inr a, s')" for old act prev r
  proof -
    obtain ans car where rc: "r = (ans, car)" by force
    obtain new rec where "ans = Inr (new, rec)"
      using l by (cases ans) (auto simp: land_record_def rc)
    note r = rc [unfolded this]
    obtain st s1 where p: "commit_persist w io (s\<lparr>rs_car := car\<rparr>) new = (st, s1)" by force
    have "settled (s\<lparr>rs_car := car\<rparr>)" using assms(1) by (simp add: settled_def)
    note s1 = commit_persist_cases [OF p this]
    have "st = WF_OK \<Longrightarrow> index_of s1 = index_of s" using s1(9) by (simp add: index_of_def)
    then show ?thesis
      using l assms(2)
      by (auto simp: land_record_def r p index_upsert_record_def Let_def split: if_splits option.splits)
  qed
  show ?thesis
    using assms(3) land unfolding metalbear_repo_store_put_record_def put_record_locked_def
    by (auto split: if_splits option.splits sum.splits)
qed

text \<open>C1. The index never drifts: from an empty repository, after any sequence of creates, puts,
  deletes and batches, refused or not, all of whose statements succeed, those of the index included
  (their outcome is not looked at, so that after a failed one the index lags), a collection and key
  have a row in the index exactly when the head's tree has them, and the row carries that record's CID.\<close>

theorem index_mirrors_head:
  assumes "lawful w" and "empty_repo s0" and "(repo_step w)\<^sup>*\<^sup>* s0 s"
  shows "index_of s (c, k) = map_option (cid_text w) (tree_of w s (c, k))"
  using repo_runs.inv_reachable [OF assms(2) runs_lawful [OF assms(1,3)]] by (simp add: mirrors_def)

text \<open>C11. The record operations refine a map, as long as their statements succeed and the index mirrors
  the head at the start. Over the map of the head, a create that answers has
  added a key that was not there, a put has set its key, a delete has removed a key that was there,
  and the answer names the record by its CID; and a call that fails all the same, for its arguments,
  its swaps or Wolfram's answer, has left the map as it was. Creates are covered in collections that
  have no backlink path, whose duplicates are not removed first. A failed statement voids the claim: the
  head in memory moves before the head row is written.\<close>

theorem repo_refines_map:
  assumes "lawful w" and "io_ok io" and "mirrors w s"
  shows "(case metalbear_repo_store_put_record w io s c k json swap swap_rec of
            (Inl _, s') \<Rightarrow> tree_of w s' = tree_of w s
          | (Inr (uri, t), s') \<Rightarrow>
              uri = make_uri (rs_did s) c k \<and>
              (\<exists>x. t = cid_text w x \<and> tree_of w s' = (tree_of w s)((c, k) \<mapsto> x))) \<and>
         (case metalbear_repo_store_delete_record w io s c k swap swap_rec of
            (st, s') \<Rightarrow>
              if st = WF_OK
              then tree_of w s (c, k) \<noteq> None \<and> tree_of w s' = (tree_of w s)((c, k) := None)
              else tree_of w s' = tree_of w s) \<and>
         (if backlink_path_for_collection c = None
          then (case metalbear_repo_store_create_record w io s c key_or_null json swap of
                  (Inl _, s') \<Rightarrow> tree_of w s' = tree_of w s
                | (Inr (uri, t), s') \<Rightarrow>
                    (\<exists>k' x. uri = make_uri (rs_did s) c k' \<and> t = cid_text w x \<and>
                       tree_of w s (c, k') = None \<and> tree_of w s' = (tree_of w s)((c, k') \<mapsto> x)))
          else True)"
  using repo_put_ok [OF assms, of c k json swap swap_rec] repo_delete_ok [OF assms, of c k swap swap_rec]
    create_plain [OF assms, of c key_or_null json swap]
  unfolding metalbear_repo_store_put_record_def metalbear_repo_store_delete_record_def
    metalbear_repo_store_create_record_def
  by (auto split: prod.split sum.split)

section \<open>Concrete inputs\<close>

lemma demo_tree: "tree_at (demo p) car h = map_of (demo_rows h)"
  by (auto simp: tree_at_def demo_def fun_eq_iff split: option.split)

lemma demo_prev_rows: "demo_prev prev = demo_rows (head_of prev)"
  by (simp add: demo_prev_def head_of_def split: option.split)

lemma map_of_drop: "map_of (filter (\<lambda>r. fst r \<noteq> key) rows) = (map_of rows)(key := None)"
  by (induction rows) auto

lemma demo_batch_effect:
  "demo_batch ws rows = Some rows' \<Longrightarrow> (\<forall>i < length ws. outs (n + i) = rw_body (ws ! i)) \<Longrightarrow>
   map_of rows' = batch_effect outs n ws (map_of rows)"
proof (induction ws arbitrary: rows n)
  case (Cons b bs)
  have "outs n = rw_body b" using Cons.prems(2) by (auto dest: spec [of _ 0])
  moreover have "\<forall>i < length bs. outs (Suc n + i) = rw_body (bs ! i)"
    using Cons.prems(2) by (auto dest: spec [of _ "Suc i" for i])
  moreover have "map_of (((rw_collection b, rw_rkey b), rw_body b) # rows) =
      (map_of rows)((rw_collection b, rw_rkey b) \<mapsto> rw_body b)" by simp
  ultimately show ?case
    using Cons.prems(1) Cons.IH [of _ "Suc n"] by (auto simp: Let_def map_of_drop split: if_splits)
qed simp

lemma demo_lawful: "lawful (demo p)"
  unfolding lawful_def
proof (intro conjI)
  show "law_text (demo p)"
    by (simp add: law_text_def cid_string_def cid_parse_def demo_def)
  show "law_create (demo p)"
    unfolding law_create_def demo_tree
    by (auto simp: demo_def demo_create_def demo_prev_rows split: if_splits)
  show "law_update (demo p)"
    unfolding law_update_def demo_tree by (auto simp: demo_def demo_update_def split: if_splits)
  show "law_delete (demo p)"
    unfolding law_delete_def demo_tree
    by (auto simp: demo_def demo_delete_def map_of_drop split: if_splits)
  show "law_apply (demo p)"
    unfolding law_apply_def demo_tree
    by (auto simp: demo_def demo_apply_def demo_prev_rows demo_batch_effect split: option.splits)
  show "law_get (demo p)"
    by (auto simp: law_get_def demo_def split: option.splits)
qed

lemma demo_io_ok: "io_ok demo_io"
  by (simp add: io_ok_def demo_io_def)

lemma demo_empty: "empty_repo demo_store" "mirrors w demo_store"
proof -
  show e: "empty_repo demo_store"
    by (simp add: empty_repo_def settled_def demo_store_def demo_tables_def)
  show "mirrors w demo_store"
    using e by (auto simp: empty_repo_def mirrors_def index_of_def index_map_def tree_of_def tree_at_def fun_eq_iff)
qed

definition demo_run :: repo_store where
  "demo_run = repo_call_state (demo demo_parse) demo_io (Create_call ''c'' (Some ''k'') ''j'' None) demo_store"

theorem index_mirrors_head_witness:
  "index_of demo_run (''c'', ''k'') \<noteq> None \<and>
   index_of demo_run (''c'', ''k'') =
     map_option (cid_text (demo demo_parse)) (tree_of (demo demo_parse) demo_run (''c'', ''k''))"
proof -
  have r: "(repo_step (demo demo_parse))\<^sup>*\<^sup>* demo_store demo_run"
    unfolding demo_run_def by (intro r_into_rtranclp repo_step.call demo_io_ok)
  have "index_of demo_run (''c'', ''k'') \<noteq> None" by code_simp
  then show ?thesis using index_mirrors_head [OF demo_lawful demo_empty(1) r] by simp
qed

theorem repo_refines_map_witness:
  "case metalbear_repo_store_create_record (demo demo_parse) demo_io demo_store ''c'' (Some ''k'') ''j'' None of
     (Inl _, s') \<Rightarrow> tree_of (demo demo_parse) s' = tree_of (demo demo_parse) demo_store
   | (Inr (uri, t), s') \<Rightarrow>
       (\<exists>k' x. uri = make_uri (rs_did demo_store) ''c'' k' \<and> t = cid_text (demo demo_parse) x \<and>
          tree_of (demo demo_parse) demo_store (''c'', k') = None \<and>
          tree_of (demo demo_parse) s' = (tree_of (demo demo_parse) demo_store)((''c'', k') \<mapsto> x))"
proof -
  have "backlink_path_for_collection ''c'' = None" by (simp add: backlink_path_for_collection_def)
  then show ?thesis
    using repo_refines_map [OF demo_lawful demo_io_ok demo_empty(2), of demo_parse "''c''" _ "''j''" None None
        "Some ''k''"] by simp
qed

end
