(* ===== verification/Repo_Durable.thy ===== *)
theory Repo_Durable
  imports Repo_Index
begin

text \<open>
  What is on disk when a call of \<open>src/repo/repo_store.c\<close> has answered: opening the file again gives
  the same repository. Also the pages of \<open>listRecords\<close>, which read the index.
\<close>

section \<open>Blocks by CID\<close>

definition car_data :: "car \<Rightarrow> cid \<Rightarrow> byte list option" where
  "car_data car = map_of (map (\<lambda>b. (cb_cid b, cb_data b)) car)"

definition row_data :: "block_row list \<Rightarrow> string \<Rightarrow> byte list option" where
  "row_data rows = map_of (map (\<lambda>r. (br_cid r, br_data r)) rows)"

lemma car_data_append: "car_data (xs @ ys) c = (case car_data xs c of Some d \<Rightarrow> Some d | None \<Rightarrow> car_data ys c)"
  by (auto simp: car_data_def map_add_def split: option.split)

lemma row_data_append: "row_data (xs @ ys) t = (case row_data xs t of Some d \<Rightarrow> Some d | None \<Rightarrow> row_data ys t)"
  by (auto simp: row_data_def map_add_def split: option.split)

lemma row_data_None: "row_data rows t = None \<longleftrightarrow> t \<notin> br_cid ` set rows"
  by (auto simp: row_data_def map_of_eq_None_iff image_image)

lemma text_inject: "lawful w \<Longrightarrow> cid_text w c = cid_text w d \<longleftrightarrow> c = d"
  using lawful_parse by (metis option.inject)

text \<open>The rows name CIDs, and hold for each what the car holds first.\<close>

definition rows_hold :: "wolfram \<Rightarrow> block_row list \<Rightarrow> car \<Rightarrow> bool" where
  "rows_hold w rows car \<longleftrightarrow>
     (\<forall>r \<in> set rows. \<exists>c. br_cid r = cid_text w c) \<and> (\<forall>c. row_data rows (cid_text w c) = car_data car c)"

lemma insert_row_holds:
  assumes "lawful w" and "rows_hold w (t_blocks t) car"
  shows "rows_hold w (t_blocks (insert_block_row \<lparr>br_cid = cid_text w (cb_cid b), br_data = cb_data b,
           br_rev = v\<rparr> t)) (car @ [b])"
proof (cases "row_data (t_blocks t) (cid_text w (cb_cid b))")
  case None
  then have "cid_text w (cb_cid b) \<notin> br_cid ` set (t_blocks t)" by (simp add: row_data_None)
  then show ?thesis
    using assms text_inject [OF assms(1)]
    by (auto simp: insert_block_row_def rows_hold_def row_data_append car_data_append
        row_data_def [of "[_]"] car_data_def [of "[_]"] split: option.split)
next
  case (Some d)
  then have "cid_text w (cb_cid b) \<in> br_cid ` set (t_blocks t)" by (metis option.distinct(1) row_data_None)
  moreover have "car_data car (cb_cid b) = Some d" using assms(2) Some by (simp add: rows_hold_def)
  ultimately show ?thesis
    using assms(2)
    by (auto simp: insert_block_row_def rows_hold_def car_data_append car_data_def [of "[_]"] split: option.split)
qed

lemma insert_blocks_hold:
  assumes "lawful w" and "\<forall>i. io_block io i"
  shows "rows_hold w (t_blocks (rd_now db)) car \<Longrightarrow>
    rows_hold w (t_blocks (rd_now (snd (insert_blocks w io v i bs db)))) (car @ bs)"
proof (induction bs arbitrary: i db car)
  case (Cons b bs)
  let ?db = "db_write (insert_block_row \<lparr>br_cid = cid_text w (cb_cid b), br_data = cb_data b, br_rev = Some v\<rparr>) db"
  have "rows_hold w (t_blocks (rd_now ?db)) (car @ [b])"
    using insert_row_holds [OF assms(1) Cons.prems] by simp
  from Cons.IH [OF this, of "Suc i"] show ?case
    using assms(2) by (simp add: lawful_text [OF assms(1)])
qed simp

lemma insert_blocks_tables:
  "insert_blocks w io v i bs db = (st, db') \<Longrightarrow>
   t_meta (rd_now db') = t_meta (rd_now db) \<and> t_head (rd_now db') = t_head (rd_now db)"
  by (induction w io v i bs db rule: insert_blocks.induct)
    (auto simp: insert_block_row_def split: option.splits if_splits)

text \<open>The rows that a run of insertions adds are those of its blocks, whatever fails.\<close>

lemma insert_blocks_only:
  assumes "lawful w"
  shows "br_cid ` set (t_blocks (rd_now (snd (insert_blocks w io v i bs db)))) \<subseteq>
    br_cid ` set (t_blocks (rd_now db)) \<union> cid_text w ` cb_cid ` set bs"
proof (induction bs arbitrary: i db)
  case (Cons b bs)
  let ?db = "db_write (insert_block_row \<lparr>br_cid = cid_text w (cb_cid b), br_data = cb_data b, br_rev = Some v\<rparr>) db"
  have one: "br_cid ` set (t_blocks (rd_now ?db)) \<subseteq>
      br_cid ` set (t_blocks (rd_now db)) \<union> {cid_text w (cb_cid b)}"
    by (auto simp: insert_block_row_def)
  have "br_cid ` set (t_blocks (rd_now (snd (insert_blocks w io v (Suc i) bs ?db)))) \<subseteq>
      br_cid ` set (t_blocks (rd_now db)) \<union> cid_text w ` cb_cid ` set (b # bs)"
    using Cons.IH [of "Suc i" ?db] one by (simp only: list.set image_insert) blast
  then show ?case by (auto simp: lawful_text [OF assms])
qed simp

section \<open>What the disk holds\<close>

definition head_saved ::
  "wolfram \<Rightarrow> (string option \<times> string option) option \<Rightarrow> cid \<Rightarrow> string option \<Rightarrow> bool" where
  "head_saved w row h over \<longleftrightarrow>
     (case row of
        None \<Rightarrow> h = [] \<and> over = None
      | Some (None, ov) \<Rightarrow> h = [] \<and> over = ov
      | Some (Some t, ov) \<Rightarrow> h \<noteq> [] \<and> t = cid_text w h \<and> over = ov)"

definition saved :: "wolfram \<Rightarrow> repo_store \<Rightarrow> bool" where
  "saved w s \<longleftrightarrow>
     settled s \<and> head_saved w (t_head (rd_disk (rs_db s))) (rs_head s) (rs_override s) \<and>
     t_meta (rd_disk (rs_db s)) = Some (rs_did s, rs_handle s, rs_key s) \<and>
     wl_didkey w (rs_key s) = Some (rs_didkey s) \<and>
     rs_persisted s \<le> length (rs_car s) \<and>
     rows_hold w (t_blocks (rd_disk (rs_db s))) (take (rs_persisted s) (rs_car s))"

text \<open>Wolfram only appends blocks.\<close>

definition appends :: "wolfram \<Rightarrow> bool" where
  "appends w \<longleftrightarrow>
     (\<forall>car prev did c k body key. \<exists>bs. snd (wl_create_record w car prev did c k body key) = car @ bs) \<and>
     (\<forall>car h did c k body key. \<exists>bs. snd (wl_update_record w car h did c k body key) = car @ bs) \<and>
     (\<forall>car h did c k key. \<exists>bs. snd (wl_delete_record w car h did c k key) = car @ bs) \<and>
     (\<forall>car prev did ws key. \<exists>bs. snd (wl_apply_writes w car prev did ws key) = car @ bs)"

lemma saved_grows: "saved w s \<Longrightarrow> saved w (s\<lparr>rs_car := rs_car s @ bs\<rparr>)"
  by (simp add: saved_def settled_def)

lemma saved_records:
  assumes "saved w s" and "\<And>t. t_blocks (f t) = t_blocks t \<and> t_head (f t) = t_head t \<and> t_meta (f t) = t_meta t"
  shows "saved w (s\<lparr>rs_db := db_write f (rs_db s)\<rparr>)"
  using assms by (simp add: saved_def settled_def db_write_def)

lemma saved_upsert: "saved w s \<Longrightarrow> saved w (index_upsert_record w' io i s c k t json)"
  by (auto simp: index_upsert_record_def Let_def replace_record_row_def delete_record_row_def intro!: saved_records)

lemma saved_index_delete: "saved w s \<Longrightarrow> saved w (index_delete_record io i s c k)"
  by (auto simp: index_delete_record_def delete_record_row_def intro!: saved_records)

lemma saved_batch: "saved w s \<Longrightarrow> saved w (index_batch w' io outs i staged s)"
  by (induction w' io outs i staged s rule: index_batch.induct) (simp_all add: saved_upsert saved_index_delete)

lemma saved_events: "saved w (s\<lparr>rs_events := es\<rparr>) = saved w s"
  by (simp add: saved_def settled_def)

lemma saved_emit: "saved w s \<Longrightarrow> saved w (emit_commit_event_ops w' io s old ops)"
  by (auto simp: emit_commit_event_ops_def saved_events split: option.split sum.split)

lemma saved_commit:
  assumes "lawful w" and "io_ok io" and "saved w s" and "out \<noteq> []"
  obtains s' where "commit_persist w io s out = (WF_OK, s')" and "saved w s'"
    and "rs_persisted s' = length (rs_car s)"
proof -
  have io: "io_begin io" "\<forall>i. io_block io i" "io_head io" "io_commit io"
    using assms(2) by (simp_all add: io_ok_def)
  have st: "settled s" using assms(3) by (simp add: saved_def)
  obtain s' where s': "commit_persist w io s out = (WF_OK, s')" by (rule commit_ok [OF assms(1,2) st])
  define s1 where "s1 = (set_root (s\<lparr>rs_head := out\<rparr>))\<lparr>rs_override := None\<rparr>"
  define db where "db = (rs_db s)\<lparr>rd_tx := True\<rparr>"
  define v where "v = (case commit_of w (s1\<lparr>rs_db := db\<rparr>) out of
    Some cm \<Rightarrow> snprintf_cut REV_BUF (cm_rev cm) | None \<Rightarrow> '''')"
  obtain st2 db2 where ins: "insert_blocks w io v 0 (drop (rs_persisted s) (rs_car s)) db = (st2, db2)"
    by force
  have flds: "rs_head s1 = out" "rs_persisted s1 = rs_persisted s" "rs_car s1 = rs_car s"
    by (simp_all add: s1_def)
  have new: "persist_new_blocks w io (s1\<lparr>rs_db := db\<rparr>) =
        (if st2 = WF_OK then (WF_OK, s1\<lparr>rs_db := db2, rs_persisted := length (rs_car s)\<rparr>)
         else (st2, s1\<lparr>rs_db := db2\<rparr>))"
    by (simp add: persist_new_blocks_def Let_def flds v_def [symmetric] ins)
  have ok: "st2 = WF_OK" using insert_blocks_ok [OF assms(1,2)] ins by (metis fst_conv)
  have s'_eq: "s' = s1\<lparr>rs_persisted := length (rs_car s),
      rs_db := sql_commit True (db_write (\<lambda>t. t\<lparr>t_head := Some (Some (cid_text w out), None)\<rparr>) db2)\<rparr>"
    using s' unfolding commit_persist_def Let_def s1_def [symmetric]
    by (simp add: begin_settled [OF st] s1_def io db_def [symmetric] new [unfolded s1_def] ok persist_head_def
        assms(4) lawful_text [OF assms(1)])
  have hold: "rows_hold w (t_blocks (rd_now db2)) (rs_car s)"
    using insert_blocks_hold [OF assms(1) io(2), of db "take (rs_persisted s) (rs_car s)" v 0
        "drop (rs_persisted s) (rs_car s)"] assms(3) ins st
    by (simp add: saved_def db_def settled_def)
  have "saved w s'"
    using hold insert_blocks_tables [OF ins] assms(3,4)
    by (simp add: s'_eq saved_def settled_def head_saved_def sql_commit_def s1_def db_def set_root_def)
  then show thesis using that [OF s'] by (simp add: s'_eq)
qed

lemma saved_emit_one: "saved w s \<Longrightarrow> saved w (emit_commit_event w' io s old a c k x p)"
  by (simp add: emit_commit_event_def saved_emit)

lemma saved_land_record:
  assumes "lawful w" and "io_ok io" and "saved w s"
    and "snd outcome = rs_car s @ bs" and "\<And>out x. fst outcome = Inr (out, x) \<Longrightarrow> out \<noteq> []"
  shows "saved w (snd (land_record w io s old action c k json prev outcome))"
proof -
  obtain r where o: "outcome = (r, rs_car s @ bs)" using assms(4) by (cases outcome) auto
  show ?thesis
  proof (cases r)
    case (Inl e)
    then show ?thesis using saved_grows [OF assms(3)] by (simp add: land_record_def o)
  next
    case (Inr a)
    obtain out x where a: "r = Inr (out, x)" using Inr by (cases a) auto
    have ne: "out \<noteq> []" using assms(5) [of out x] by (simp add: o a)
    obtain s1 where s1: "commit_persist w io (s\<lparr>rs_car := rs_car s @ bs\<rparr>) out = (WF_OK, s1)" "saved w s1"
      using saved_commit [OF assms(1,2) saved_grows [OF assms(3)] ne] by metis
    show ?thesis
      by (simp add: land_record_def o a s1(1) lawful_text [OF assms(1)] saved_emit_one saved_upsert s1(2))
  qed
qed

lemma saved_create:
  assumes "lawful w" and "appends w" and "io_ok io" and "saved w s"
  shows "saved w (snd (land_record w io s old a c k json p
           (wl_create_record w (rs_car s) (prev_of s) (rs_did s) c k cbor key)))"
proof -
  obtain bs where "snd (wl_create_record w (rs_car s) (prev_of s) (rs_did s) c k cbor key) = rs_car s @ bs"
    using assms(2) unfolding appends_def by metis
  then show ?thesis
    by (rule saved_land_record [OF assms(1,3,4)])
      (use lawful_create(2) [OF assms(1)] in \<open>metis prod.collapse\<close>)
qed

lemma saved_update:
  assumes "lawful w" and "appends w" and "io_ok io" and "saved w s"
  shows "saved w (snd (land_record w io s old a c k json p
           (wl_update_record w (rs_car s) (rs_head s) (rs_did s) c k cbor key)))"
proof -
  obtain bs where "snd (wl_update_record w (rs_car s) (rs_head s) (rs_did s) c k cbor key) = rs_car s @ bs"
    using assms(2) unfolding appends_def by metis
  then show ?thesis
    by (rule saved_land_record [OF assms(1,3,4)])
      (use lawful_update(2) [OF assms(1)] in \<open>metis prod.collapse\<close>)
qed

lemma saved_apply:
  assumes "lawful w" and "appends w" and "io_ok io" and "saved w s"
  shows "saved w (snd (apply_writes_locked w io s json swap))"
proof -
  have land: "saved w (snd (land_batch w io s staged))" for staged
  proof -
    obtain ans car where w: "wl_apply_writes w (rs_car s) (prev_of s) (rs_did s) (map fst staged) (rs_key s) = (ans, car)"
      by force
    obtain bs where car: "car = rs_car s @ bs" using assms(2) w unfolding appends_def by (metis snd_conv)
    show ?thesis
    proof (cases ans)
      case (Inl e)
      then show ?thesis using saved_grows [OF assms(4)] by (simp add: land_batch_def w car)
    next
      case (Inr x)
      obtain out outs where x: "ans = Inr (out, outs)" using Inr by (cases x) auto
      have ne: "out \<noteq> []" using lawful_apply(2) [OF assms(1) w x] by simp
      obtain s1 where s1: "commit_persist w io (s\<lparr>rs_car := rs_car s @ bs\<rparr>) out = (WF_OK, s1)" "saved w s1"
        using saved_commit [OF assms(1,3) saved_grows [OF assms(4)] ne] by metis
      have "saved w (announce_batch w io (rs_head s) outs (map fst staged) (index_batch w io outs 0 staged s1))"
        using s1(2) by (simp add: announce_batch_def saved_emit saved_batch)
      then show ?thesis
        by (simp add: land_batch_def w x car s1(1) answer_batch_def split: option.split)
    qed
  qed
  show ?thesis
    using land assms(4) unfolding apply_writes_locked_def
    by (auto split: option.split cjson.split sum.split)
qed

lemma saved_cleanup:
  assumes "lawful w" and "appends w" and "io_ok io" and "saved w s"
  shows "saved w (snd (create_record_with_backlink_cleanup w io s c k json cs))"
proof -
  have "saved w s'" if "apply_writes_locked w io s j None = (r, s')" for j r s'
    using saved_apply [OF assms, of j None] that by simp
  then show ?thesis
    using assms(4) unfolding create_record_with_backlink_cleanup_def
    by (auto split: option.split prod.split sum.split cjson.split)
qed

lemma saved_delete:
  assumes "lawful w" and "appends w" and "io_ok io" and "saved w s"
  shows "saved w (snd (delete_record_locked w io s c k swap swap_rec))"
proof -
  obtain ans car where w: "wl_delete_record w (rs_car s) (rs_head s) (rs_did s) c k (rs_key s) = (ans, car)"
    by force
  obtain bs where car: "car = rs_car s @ bs" using assms(2) w unfolding appends_def by (metis snd_conv)
  note grown = saved_grows [OF assms(4), of bs]
  have "saved w (snd (commit_persist w io (s\<lparr>rs_car := rs_car s @ bs\<rparr>) out)) \<and>
      fst (commit_persist w io (s\<lparr>rs_car := rs_car s @ bs\<rparr>) out) = WF_OK" if "ans = Inr out" for out
    using saved_commit [OF assms(1,3) grown] lawful_delete(3) [OF assms(1) w that] by (metis fst_conv snd_conv)
  then show ?thesis
    using grown assms(4) unfolding delete_record_locked_def w car
    by (auto simp: saved_emit_one saved_index_delete split: sum.split prod.split)
qed

lemma call_saved:
  assumes "lawful w" and "appends w" and "io_ok io" and "saved w s"
  shows "saved w (repo_call_state w io call s)"
proof (cases call)
  case (Create_call c k json swap)
  have "saved w (snd (create_record_locked w io s c k json swap))"
    using saved_create [OF assms] saved_cleanup [OF assms] assms(4)
    unfolding create_record_locked_def Let_def by (auto split: option.split sum.split)
  then show ?thesis by (simp add: Create_call metalbear_repo_store_create_record_def)
next
  case (Put_call c k json swap swap_rec)
  have "saved w (snd (put_record_locked w io s c k json swap swap_rec))"
    using saved_create [OF assms] saved_update [OF assms] assms(4)
    unfolding put_record_locked_def by (auto split: option.split sum.split prod.split)
  then show ?thesis by (simp add: Put_call metalbear_repo_store_put_record_def)
next
  case (Delete_call c k swap swap_rec)
  then show ?thesis using saved_delete [OF assms] by (simp add: metalbear_repo_store_delete_record_def)
next
  case (Apply_call json swap)
  then show ?thesis using saved_apply [OF assms] by (simp add: metalbear_repo_store_apply_writes_def)
qed

section \<open>Opening again\<close>

lemma load_rows:
  assumes "lawful w"
  shows "\<forall>r \<in> set rows. \<exists>c. br_cid r = cid_text w c \<Longrightarrow> length rows < steps \<Longrightarrow>
    \<exists>bs. load_all_blocks w steps rows = Inr bs \<and> (\<forall>c. car_data bs c = row_data rows (cid_text w c))"
proof (induction rows arbitrary: steps)
  case Nil
  then show ?case by (cases steps) (simp_all add: car_data_def row_data_def)
next
  case (Cons r rows)
  obtain n where n: "steps = Suc n" using Cons.prems(2) by (cases steps) auto
  obtain c where r: "br_cid r = cid_text w c" using Cons.prems(1) by auto
  obtain bs where bs: "load_all_blocks w n rows = Inr bs" "\<forall>c. car_data bs c = row_data rows (cid_text w c)"
    using Cons.IH [of n] Cons.prems n by auto
  then show ?case
    using text_inject [OF assms] by (auto simp: n r bs(1) lawful_parse [OF assms] car_data_def row_data_def)
qed

text \<open>The reads of an opening run, every row of the blocks included.\<close>

definition reads_run :: "opening_io \<Rightarrow> repo_tables \<Rightarrow> bool" where
  "reads_run io disk \<longleftrightarrow>
     oo_meta io = SQL_RUNS \<and> oo_blocks io \<and> length (t_blocks disk) < oo_steps io \<and> oo_head io = SQL_RUNS"

definition opened_new :: "wolfram \<Rightarrow> repo_store \<Rightarrow> bool" where
  "opened_new w s \<longleftrightarrow>
     (\<exists>io disk did handle key fresh.
        t_meta disk = None \<and> t_blocks disk = [] \<and> t_head disk = None \<and>
        metalbear_repo_store_open_with_key w io disk did handle key fresh = Inr s)"

lemma opened_new_saved:
  assumes "opened_new w s"
  shows "saved w s"
proof -
  from assms obtain io disk did handle signing fresh where d: "t_meta disk = None" "t_blocks disk = []"
    "t_head disk = None" and o: "metalbear_repo_store_open_with_key w io disk did handle signing fresh = Inr s"
    unfolding opened_new_def by blast
  obtain key didkey g h where k: "wl_didkey w key = Some didkey" and s: "s = set_root
      \<lparr>rs_did = g, rs_handle = h, rs_key = key, rs_didkey = didkey,
       rs_db = db_write (\<lambda>t. t\<lparr>t_meta := Some (g, h, key)\<rparr>) \<lparr>rd_now = disk, rd_disk = disk, rd_tx = False\<rparr>,
       rs_car = [], rs_head = [], rs_root_count = 0, rs_persisted = 0, rs_override = None,
       rs_callback = False, rs_events = []\<rparr>"
    using o unfolding metalbear_repo_store_open_with_key_def Let_def d(1)
    by (auto split: if_split_asm option.split_asm)
  then show ?thesis
    using d by (auto simp: saved_def settled_def head_saved_def rows_hold_def row_data_def car_data_def
        db_write_def set_root_def)
qed

lemma reopen_saved:
  assumes "lawful w" and "saved w s" and "reads_run io (rd_disk (rs_db s))"
  shows "\<exists>s'. metalbear_repo_store_open_with_key w io (rd_disk (rs_db s)) (Some (rs_did s)) h key fresh = Inr s' \<and>
    rs_did s' = rs_did s \<and> rs_handle s' = rs_handle s \<and> rs_key s' = rs_key s \<and>
    rs_head s' = rs_head s \<and> rs_override s' = rs_override s \<and> rd_now (rs_db s') = rd_now (rs_db s) \<and>
    (\<forall>c. car_data (rs_car s') c = car_data (take (rs_persisted s) (rs_car s)) c)"
proof -
  let ?d = "rd_disk (rs_db s)"
  have m: "t_meta ?d = Some (rs_did s, rs_handle s, rs_key s)" "wl_didkey w (rs_key s) = Some (rs_didkey s)"
    and hd: "head_saved w (t_head ?d) (rs_head s) (rs_override s)"
    and rows: "rows_hold w (t_blocks ?d) (take (rs_persisted s) (rs_car s))"
    and now: "rd_now (rs_db s) = ?d"
    using assms(2) by (simp_all add: saved_def settled_def)
  obtain bs where bs: "load_all_blocks w (oo_steps io) (t_blocks ?d) = Inr bs"
    "\<forall>c. car_data bs c = row_data (t_blocks ?d) (cid_text w c)"
    using load_rows [OF assms(1), of "t_blocks ?d" "oo_steps io"] rows assms(3) by (auto simp: rows_hold_def reads_run_def)
  then have data: "\<forall>c. car_data bs c = car_data (take (rs_persisted s) (rs_car s)) c"
    using rows by (simp add: rows_hold_def)
  show ?thesis
    using hd data assms(3)
    by (auto simp: metalbear_repo_store_open_with_key_def load_head_def reads_run_def Let_def m bs(1) now head_saved_def set_root_def
        lawful_parse [OF assms(1)] split: option.splits)
qed

interpretation saved_runs: transition_system "opened_new w"
  "\<lambda>s t. lawful w \<and> appends w \<and> repo_step w s t" "saved w" for w :: wolfram
proof
  fix s :: repo_store
  assume "opened_new w s"
  then show "saved w s" by (rule opened_new_saved)
next
  fix s t :: repo_store
  assume "saved w s" and "lawful w \<and> appends w \<and> repo_step w s t"
  then show "saved w t" by (auto elim!: repo_step.cases intro: call_saved)
qed

lemma runs_appending:
  assumes "lawful w" and "appends w"
  shows "(repo_step w)\<^sup>*\<^sup>* s t \<Longrightarrow> (\<lambda>s t. lawful w \<and> appends w \<and> repo_step w s t)\<^sup>*\<^sup>* s t"
  by (induction rule: rtranclp_induct) (auto intro: rtranclp.rtrancl_into_rtrancl simp: assms)

text \<open>C2. What was answered is on disk. Whatever creates, puts, deletes and batches a new repository
  has been through, all of whose statements succeeded, opening its file again with reads that run
  succeeds and gives the same identity, head, revision override and tables, and for every CID the
  block that was in memory at the last commit. Of Wolfram it is assumed that its operations do on the
  tree what they are for, that they only add blocks to the car, and that texts of CIDs are read back.\<close>

theorem reopen_restores_repository:
  assumes "lawful w" and "appends w" and "opened_new w s0" and "(repo_step w)\<^sup>*\<^sup>* s0 s"
    and "reads_run io (rd_disk (rs_db s))"
  shows "\<exists>s'. metalbear_repo_store_open_with_key w io (rd_disk (rs_db s)) (Some (rs_did s)) h key fresh = Inr s' \<and>
    rs_did s' = rs_did s \<and> rs_handle s' = rs_handle s \<and> rs_key s' = rs_key s \<and>
    rs_head s' = rs_head s \<and> rs_override s' = rs_override s \<and> rd_now (rs_db s') = rd_now (rs_db s) \<and>
    (\<forall>c. car_data (rs_car s') c = car_data (take (rs_persisted s) (rs_car s)) c)"
  by (rule reopen_saved [OF assms(1) saved_runs.inv_reachable [OF assms(3) runs_appending [OF assms(1,2,4)]] assms(5)])

text \<open>A failed step of the read of the head is taken for an empty repository: the file opens, without a
  head and without its override.\<close>

lemma unread_head_opens_empty:
  assumes "t_meta disk = Some (d, h, key)" and "wl_didkey w key \<noteq> None" and "oo_meta io = SQL_RUNS" and "oo_blocks io"
    and "load_all_blocks w (oo_steps io) (t_blocks disk) = Inr bs" and "oo_head io = SQL_STEP_FAILS"
  shows "\<exists>s'. metalbear_repo_store_open_with_key w io disk (Some d) handle signing fresh = Inr s' \<and>
    rs_head s' = [] \<and> rs_override s' = None \<and> rs_db s' = \<lparr>rd_now = disk, rd_disk = disk, rd_tx = False\<rparr>"
  using assms by (auto simp: metalbear_repo_store_open_with_key_def load_head_def Let_def set_root_def)

section \<open>A failed write of the head\<close>

text \<open>Blocks can be lost for good. When the write of the head fails, the transaction is rolled
  back and the tables are as before, but the head in memory has moved and the blocks count as
  persisted; so the next commit, though it succeeds, writes only blocks added since, and the head row
  it stores names a tree whose older blocks the disk never gets.\<close>

theorem failed_head_write_loses_blocks:
  assumes "lawful w" and "settled s" and "io_begin io" and "\<forall>i. io_block io i" and "\<not> io_head io"
    and "commit_persist w io s out = (st, s1)"
    and "commit_persist w io' (s1\<lparr>rs_car := rs_car s1 @ added\<rparr>) out' = (st', s2)"
  shows "st = WF_ERR_INTERNAL \<and> rs_db s1 = rs_db s \<and> rs_head s1 = out \<and>
    rs_persisted s1 = length (rs_car s) \<and>
    br_cid ` set (t_blocks (rd_now (rs_db s2))) \<subseteq>
      br_cid ` set (t_blocks (rd_now (rs_db s))) \<union> cid_text w ` cb_cid ` set added"
proof -
  have first: "st = WF_ERR_INTERNAL" "rs_persisted s1 = length (rs_car s)"
  proof -
    have ins: "fst (insert_blocks w io v i bs db) = WF_OK" for v i bs db
      using assms(4) by (induction bs arbitrary: i db) (simp_all add: lawful_text [OF assms(1)])
    have pn: "\<exists>db'. persist_new_blocks w io x = (WF_OK, x\<lparr>rs_db := db', rs_persisted := length (rs_car x)\<rparr>)" for x
      using ins by (auto simp: persist_new_blocks_def Let_def split: prod.split) (metis fst_conv)+
    show "st = WF_ERR_INTERNAL" "rs_persisted s1 = length (rs_car s)"
      using assms(3,5,6) pn [of "(set_root (s\<lparr>rs_head := out\<rparr>))\<lparr>rs_override := None, rs_db := (rs_db s)\<lparr>rd_tx := True\<rparr>\<rparr>"]
      by (auto simp: commit_persist_def Let_def begin_settled [OF assms(2)] persist_head_def)
  qed
  note c1 = commit_persist_cases [OF assms(6,2)]
  have db: "rs_db s1 = rs_db s" using c1(8) first(1) by simp
  have st1: "settled (s1\<lparr>rs_car := rs_car s1 @ added\<rparr>)" using assms(2) db by (simp add: settled_def)
  have second: "br_cid ` set (t_blocks (rd_now (rs_db s2))) \<subseteq>
      br_cid ` set (t_blocks (rd_now (rs_db s))) \<union> cid_text w ` cb_cid ` set added"
  proof (cases "st' = WF_OK")
    case False
    then show ?thesis using commit_persist_cases(8) [OF assms(7) st1] db by simp
  next
    case True
    let ?x = "(set_root (s1\<lparr>rs_car := rs_car s1 @ added, rs_head := out'\<rparr>))\<lparr>rs_override := None,
        rs_db := (rs_db s)\<lparr>rd_tx := True\<rparr>\<rparr>"
    obtain r y where y: "persist_new_blocks w io' ?x = (r, y)" by force
    have new: "drop (rs_persisted s1) (rs_car s1 @ added) = added" using c1(1) first(2) by simp
    have "\<exists>v. rs_db y = snd (insert_blocks w io' v 0 added ((rs_db s)\<lparr>rd_tx := True\<rparr>))"
      using y new by (auto simp: persist_new_blocks_def Let_def split: prod.splits if_splits) (metis snd_conv)+
    then have "br_cid ` set (t_blocks (rd_now (rs_db y))) \<subseteq>
        br_cid ` set (t_blocks (rd_now (rs_db s))) \<union> cid_text w ` cb_cid ` set added"
      using insert_blocks_only [OF assms(1)] by (metis repo_db.select_convs(1) repo_db.surjective repo_db.update_convs(3))
    moreover have "t_blocks (rd_now (rs_db s2)) = t_blocks (rd_now (rs_db y))"
      using assms(7) True y begin_settled [OF st1] db
      by (auto simp: commit_persist_def Let_def persist_head_def sql_commit_def split: if_splits prod.splits)
    ultimately show ?thesis by simp
  qed
  show ?thesis using first db c1(5) second by simp
qed

section \<open>The pages of a collection\<close>

text \<open>Page after page, each asked for with the last key of the one before.\<close>

fun record_pages ::
  "nat \<Rightarrow> record_row list \<Rightarrow> string \<Rightarrow> bool \<Rightarrow> nat \<Rightarrow> string option \<Rightarrow> record_row list list" where
  "record_pages 0 rows collection reverse limit cursor = []"
| "record_pages (Suc n) rows collection reverse limit cursor =
     (case records_page rows collection (if cursor = Some '''' then None else cursor) reverse limit of
        (page, nxt) \<Rightarrow>
          page # (case nxt of
                    None \<Rightarrow> []
                  | Some c \<Rightarrow> record_pages n rows collection reverse limit (Some c)))"

lemma listed_strict:
  assumes "distinct (map rr_rkey (filter (\<lambda>r. rr_collection r = collection) rows))"
  shows "sorted_wrt (\<lambda>a b. if reverse then rr_rkey a < rr_rkey b else rr_rkey b < rr_rkey a)
    (listed_rows rows collection None reverse)"
proof -
  let ?m = "sort_key rr_rkey (filter (\<lambda>r. rr_collection r = collection) rows)"
  have d: "distinct (map rr_rkey ?m)"
    using assms by (metis distinct_map distinct_sort set_sort)
  have "sorted_wrt (<) (map rr_rkey ?m)"
    using d by (simp add: strict_sorted_iff)
  then have s: "sorted_wrt (\<lambda>a b. rr_rkey a < rr_rkey b) ?m" by (simp add: sorted_wrt_map)
  then have "sorted_wrt (\<lambda>a b. rr_rkey b < rr_rkey a) (rev ?m)" by (simp add: sorted_wrt_rev)
  then show ?thesis using s by (cases reverse) (simp_all add: listed_rows_def Let_def)
qed

lemma listed_from:
  assumes "distinct (map rr_rkey (filter (\<lambda>r. rr_collection r = collection) rows))"
    and "k < length (listed_rows rows collection None reverse)"
  shows "listed_rows rows collection (Some (rr_rkey (listed_rows rows collection None reverse ! k))) reverse =
    drop (Suc k) (listed_rows rows collection None reverse)"
proof -
  let ?S = "listed_rows rows collection None reverse"
  let ?R = "\<lambda>a b. if reverse then a < b else b < (a :: string)"
  have "filter (\<lambda>r. ?R (rr_rkey (?S ! k)) (rr_rkey r)) ?S = drop (Suc k) ?S"
    by (rule filter_past [where R = ?R and f = rr_rkey])
      (use listed_strict [OF assms(1), of reverse] assms(2) in \<open>auto split: if_splits\<close>)
  then show ?thesis by (cases reverse) (simp_all add: listed_rows_def Let_def)
qed

lemma page_of:
  assumes "0 < limit"
  shows "records_page rows collection cursor reverse limit =
     (take limit (listed_rows rows collection cursor reverse),
      if length (listed_rows rows collection cursor reverse) > limit
      then Some (rr_rkey (listed_rows rows collection cursor reverse ! (limit - 1))) else None)"
proof -
  have "last (take limit xs) = xs ! (limit - 1)" if "limit < length xs" for xs :: "record_row list"
    using that assms by (subst last_conv_nth) auto
  then show ?thesis using assms by (simp add: records_page_def Let_def min_def)
qed

lemma record_pages_from:
  assumes "distinct (map rr_rkey (filter (\<lambda>r. rr_collection r = collection) rows))"
    and S: "S = listed_rows rows collection None reverse" and "0 < limit"
    and "\<forall>r \<in> set rows. rr_rkey r \<noteq> ''''"
    and "cursor = None \<and> k = 0 \<or> (\<exists>i. k = Suc i \<and> i < length S \<and> cursor = Some (rr_rkey (S ! i)))"
    and "length S - k < fuel"
  shows "concat (record_pages fuel rows collection reverse limit cursor) = drop k S \<and>
    (\<forall>p \<in> set (record_pages fuel rows collection reverse limit cursor). length p \<le> limit)"
  using assms(5,6)
proof (induction fuel arbitrary: cursor k)
  case (Suc fuel)
  have mem: "set S \<subseteq> set rows" by (auto simp: S listed_rows_def Let_def)
  have here: "listed_rows rows collection (if cursor = Some '''' then None else cursor) reverse = drop k S"
    using Suc.prems(1)
  proof
    assume "\<exists>i. k = Suc i \<and> i < length S \<and> cursor = Some (rr_rkey (S ! i))"
    then obtain i where i: "k = Suc i" "i < length S" "cursor = Some (rr_rkey (S ! i))" by blast
    moreover have "rr_rkey (S ! i) \<noteq> ''''" using assms(4) mem i(2) by (meson nth_mem subsetD)
    ultimately show ?thesis using listed_from [OF assms(1)] by (simp add: S)
  qed (simp add: S)
  show ?case
  proof (cases "length (drop k S) > limit")
    case False
    then show ?thesis using assms(3) by (simp add: page_of here)
  next
    case True
    let ?i = "k + limit - 1"
    have i: "Suc ?i = k + limit" "?i < length S" "drop k S ! (limit - 1) = S ! ?i"
      using True assms(3) by (auto simp: nth_drop)
    have "concat (record_pages fuel rows collection reverse limit (Some (rr_rkey (S ! ?i)))) = drop (k + limit) S \<and>
        (\<forall>p \<in> set (record_pages fuel rows collection reverse limit (Some (rr_rkey (S ! ?i)))). length p \<le> limit)"
      using i Suc.prems(2) assms(3) True by (intro Suc.IH disjI2 exI [of _ ?i] conjI) auto
    moreover have "take limit (drop k S) @ drop (k + limit) S = drop k S"
      by (metis add.commute append_take_drop_id drop_drop)
    ultimately show ?thesis using True assms(3) i(3) by (simp add: page_of here)
  qed
qed simp

text \<open>Paging \<open>listRecords\<close> gives the collection: following the cursors, in either direction, from
  the first page, the pages hold at most \<open>limit\<close> records each and together exactly the records of the
  collection, each once, in the order of their keys, after at most one page more than there are
  records.\<close>

theorem record_pages_cover_collection:
  assumes "distinct (map rr_rkey (filter (\<lambda>r. rr_collection r = collection) rows))"
    and "\<forall>r \<in> set rows. rr_rkey r \<noteq> ''''" and "0 < limit" and "length rows < fuel"
  shows "concat (record_pages fuel rows collection reverse limit None) = listed_rows rows collection None reverse \<and>
    (\<forall>p \<in> set (record_pages fuel rows collection reverse limit None). length p \<le> limit) \<and>
    sorted_wrt (\<lambda>a b. if reverse then rr_rkey a < rr_rkey b else rr_rkey b < rr_rkey a)
      (concat (record_pages fuel rows collection reverse limit None)) \<and>
    set (concat (record_pages fuel rows collection reverse limit None)) =
      {r \<in> set rows. rr_collection r = collection}"
proof -
  let ?S = "listed_rows rows collection None reverse"
  have "length ?S \<le> length rows" by (simp add: listed_rows_def Let_def)
  then have "length ?S - 0 < fuel" using assms(4) by simp
  then have "concat (record_pages fuel rows collection reverse limit None) = ?S \<and>
      (\<forall>p \<in> set (record_pages fuel rows collection reverse limit None). length p \<le> limit)"
    using record_pages_from [OF assms(1) refl assms(3,2), of None 0] by simp
  moreover have "set ?S = {r \<in> set rows. rr_collection r = collection}"
    by (auto simp: listed_rows_def Let_def)
  ultimately show ?thesis using listed_strict [OF assms(1)] by simp
qed

section \<open>Concrete inputs\<close>

lemma demo_appends: "appends (demo p)"
  unfolding appends_def
  by (auto simp: demo_def demo_create_def demo_update_def demo_delete_def demo_apply_def split: option.split)

definition demo_opening :: opening_io where
  "demo_opening = \<lparr>oo_meta = SQL_RUNS, oo_blocks = True, oo_steps = 100, oo_head = SQL_RUNS, oo_insert = True\<rparr>"

definition demo_new :: repo_store where
  "demo_new = (case metalbear_repo_store_open_with_key (demo demo_parse) demo_opening (demo_tables\<lparr>t_meta := None\<rparr>)
       (Some ''did:a'') (Some ''h'') (Some (1, [1])) None of Inr s \<Rightarrow> s | Inl _ \<Rightarrow> demo_store)"

lemma demo_new_opened: "opened_new (demo demo_parse) demo_new"
proof -
  have "wl_didkey (demo demo_parse) (1, [1]) = Some ''did:key:z''" by (simp add: demo_def)
  then have "\<exists>s. metalbear_repo_store_open_with_key (demo demo_parse) demo_opening (demo_tables\<lparr>t_meta := None\<rparr>)
       (Some ''did:a'') (Some ''h'') (Some (1, [1])) None = Inr s"
    by (simp add: metalbear_repo_store_open_with_key_def demo_opening_def Let_def)
  then have "metalbear_repo_store_open_with_key (demo demo_parse) demo_opening (demo_tables\<lparr>t_meta := None\<rparr>)
       (Some ''did:a'') (Some ''h'') (Some (1, [1])) None = Inr demo_new"
    by (auto simp: demo_new_def)
  then show ?thesis
    unfolding opened_new_def
    by (intro exI [of _ demo_opening] exI [of _ "demo_tables\<lparr>t_meta := None\<rparr>"] exI conjI) (simp_all add: demo_tables_def)
qed

definition demo_written :: repo_store where
  "demo_written = repo_call_state (demo demo_parse) demo_io (Create_call ''c'' (Some ''k'') ''j'' None) demo_new"

theorem reopen_restores_repository_witness:
  "\<exists>s'. metalbear_repo_store_open_with_key (demo demo_parse) demo_opening (rd_disk (rs_db demo_written))
      (Some (rs_did demo_written)) None None None = Inr s' \<and>
    rs_head s' = rs_head demo_written \<and> rd_now (rs_db s') = rd_now (rs_db demo_written)"
proof -
  have "(repo_step (demo demo_parse))\<^sup>*\<^sup>* demo_new demo_written"
    unfolding demo_written_def by (intro r_into_rtranclp repo_step.call demo_io_ok)
  moreover have "reads_run demo_opening (rd_disk (rs_db demo_written))" unfolding reads_run_def by code_simp
  ultimately show ?thesis
    using reopen_restores_repository [OF demo_lawful demo_appends demo_new_opened, of demo_written demo_opening None None None]
    by blast
qed

text \<open>A block under the CID \<open>[1]\<close>, lost with the head write; then one under \<open>[2]\<close> and a good commit.\<close>

definition lost_first :: repo_store where
  "lost_first = snd (commit_persist (demo demo_parse) (demo_io\<lparr>io_head := False\<rparr>)
     (demo_store\<lparr>rs_car := [plain_block [1]]\<rparr>) [1])"

definition lost_second :: repo_store where
  "lost_second = snd (commit_persist (demo demo_parse) demo_io
     (lost_first\<lparr>rs_car := rs_car lost_first @ [plain_block [2]]\<rparr>) [2])"

theorem failed_head_write_loses_blocks_witness:
  "rs_persisted lost_first = 1 \<and>
   text_of [1] \<notin> br_cid ` set (t_blocks (rd_now (rs_db lost_second)))"
proof -
  let ?w = "demo demo_parse" and ?s = "demo_store\<lparr>rs_car := [plain_block [1]]\<rparr>"
  have st: "settled ?s" and io: "io_begin (demo_io\<lparr>io_head := False\<rparr>)"
    "\<forall>i. io_block (demo_io\<lparr>io_head := False\<rparr>) i" "\<not> io_head (demo_io\<lparr>io_head := False\<rparr>)"
    by (simp_all add: settled_def demo_store_def demo_io_def)
  obtain r1 r2 where c: "commit_persist ?w (demo_io\<lparr>io_head := False\<rparr>) ?s [1] = (r1, lost_first)"
    "commit_persist ?w demo_io (lost_first\<lparr>rs_car := rs_car lost_first @ [plain_block [2]]\<rparr>) [2] = (r2, lost_second)"
    unfolding lost_first_def lost_second_def by (metis prod.collapse)
  have "cid_text ?w [2] = text_of [2]" by (simp add: cid_text_def cid_string_def demo_def)
  moreover have "text_of [2] \<noteq> text_of [1]"
  proof
    assume "text_of [2] = text_of [1]"
    then have "bytes_of (text_of [2]) = bytes_of (text_of [1])" by (rule arg_cong)
    then show False by simp
  qed
  ultimately show ?thesis
    using failed_head_write_loses_blocks [OF demo_lawful st io c]
    by (auto simp: demo_store_def demo_tables_def plain_block_def)
qed

theorem record_pages_cover_collection_witness:
  "concat (record_pages 4
     (map (\<lambda>(c, k). \<lparr>rr_collection = c, rr_rkey = k, rr_cid = '''', rr_value = '''', rr_rev = None, rr_indexed_at = None\<rparr>)
       [(''c'', ''1''), (''d'', ''2''), (''c'', ''3'')]) ''c'' False 1 None) =
   map (\<lambda>k. \<lparr>rr_collection = ''c'', rr_rkey = k, rr_cid = '''', rr_value = '''', rr_rev = None, rr_indexed_at = None\<rparr>)
     [''3'', ''1'']"
proof -
  let ?rows = "map (\<lambda>(c, k). \<lparr>rr_collection = c, rr_rkey = k, rr_cid = '''', rr_value = '''', rr_rev = None,
    rr_indexed_at = None\<rparr>) [(''c'', ''1''), (''d'', ''2''), (''c'', ''3'')]"
  have d: "distinct (map rr_rkey (filter (\<lambda>r. rr_collection r = ''c'') ?rows))"
    and n: "\<forall>r \<in> set ?rows. rr_rkey r \<noteq> ''''" and l: "(0::nat) < 1" and f: "length ?rows < 4" by simp_all
  have "listed_rows ?rows ''c'' None False =
    map (\<lambda>k. \<lparr>rr_collection = ''c'', rr_rkey = k, rr_cid = '''', rr_value = '''', rr_rev = None, rr_indexed_at = None\<rparr>)
     [''3'', ''1'']" by code_simp
  then show ?thesis using record_pages_cover_collection [OF d n l f, of False] by simp
qed

end
