(* ===== verification/Server_Guards.thy ===== *)
theory Server_Guards
  imports Cjson
begin

text \<open>
  \<open>src/server_guards.c\<close>: the parameters of a query, the account's status, the availability of a
  repository, and the rate limits of the writes. The takedown table, the activity of an account, the
  resolution of a request to its account and Wolfram's rate limiters are arguments; a response is the
  headers added to it and the error set on it.
\<close>

section \<open>Query parameters\<close>

text \<open>
  A number is converted to \<open>long\<close> toward zero; outside its range the conversion is undefined and
  gives \<open>ub\<close>.
\<close>

definition long_of :: "int \<Rightarrow> cjson \<Rightarrow> int" where
  "long_of ub j =
     (case j of
        CNumber d \<Rightarrow>
          (let t = (if d < 0 then - \<lfloor>- d\<rfloor> else \<lfloor>d\<rfloor>)
           in if - (2 ^ 63) \<le> t \<and> t \<le> 2 ^ 63 - 1 then t else ub)
      | _ \<Rightarrow> ub)"

definition query_item :: "cjson option \<Rightarrow> string \<Rightarrow> cjson option" where
  "query_item params name = (case params of None \<Rightarrow> None | Some j \<Rightarrow> cj_item j name)"

definition clamp :: "int \<Rightarrow> int \<Rightarrow> int \<Rightarrow> int" where
  "clamp lo hi v =
     (let v1 = (if v < lo then lo else v) in if v1 > hi then hi else v1)"

definition query_param_int :: "int \<Rightarrow> cjson option \<Rightarrow> string \<Rightarrow> int \<Rightarrow> int \<Rightarrow> int \<Rightarrow> int" where
  "query_param_int ub params name fallback lo hi =
     (case query_item params name of
        Some (CString s) \<Rightarrow>
          if s = '''' then clamp lo hi fallback
          else (case strtoll10 s of
                  (v, rest, erange) \<Rightarrow> if rest \<noteq> '''' then fallback else clamp lo hi v)
      | Some (CNumber d) \<Rightarrow> clamp lo hi (long_of ub (CNumber d))
      | Some CInfinite \<Rightarrow> clamp lo hi (long_of ub CInfinite)
      | _ \<Rightarrow> clamp lo hi fallback)"

definition query_param_bool :: "cjson option \<Rightarrow> string \<Rightarrow> bool \<Rightarrow> bool" where
  "query_param_bool params name fallback =
     (case query_item params name of
        Some (CBool b) \<Rightarrow> b
      | Some (CString s) \<Rightarrow>
          if s = ''true'' \<or> s = ''1'' then True
          else if s = ''false'' \<or> s = ''0'' then False
          else fallback
      | _ \<Rightarrow> fallback)"

section \<open>Responses\<close>

record xrpc_response =
  xr_headers :: "(string \<times> string) list"
  xr_error :: "(nat \<times> string \<times> string) option"

definition set_error :: "nat \<Rightarrow> string \<Rightarrow> string \<Rightarrow> xrpc_response \<Rightarrow> xrpc_response" where
  "set_error code name message resp = resp\<lparr>xr_error := Some (code, name, message)\<rparr>"

definition add_header :: "string \<Rightarrow> string \<Rightarrow> xrpc_response \<Rightarrow> xrpc_response" where
  "add_header name text resp = resp\<lparr>xr_headers := xr_headers resp @ [(name, text)]\<rparr>"

section \<open>Accounts\<close>

text \<open>
  The registry's takedown of a subject, by account or by record, and whether an account's own store
  says that it is active.
\<close>

record guard_registry =
  gr_did_takedown :: "string \<Rightarrow> string option"
  gr_uri_takedown :: "string \<Rightarrow> string option"
  gr_active :: "string \<Rightarrow> bool"

definition account_takedown_ref :: "guard_registry \<Rightarrow> string option \<Rightarrow> string option" where
  "account_takedown_ref reg did =
     (case did of None \<Rightarrow> None | Some d \<Rightarrow> if d = '''' then None else gr_did_takedown reg d)"

definition account_is_taken_down :: "guard_registry \<Rightarrow> string option \<Rightarrow> bool" where
  "account_is_taken_down reg did = (account_takedown_ref reg did \<noteq> None)"

text \<open>The status, if any, and whether the account is active.\<close>

definition account_status_string :: "guard_registry \<Rightarrow> string \<Rightarrow> string option \<times> bool" where
  "account_status_string reg did =
     (let taken_down = (account_takedown_ref reg (Some did) \<noteq> None);
          active = (\<not> taken_down \<and> gr_active reg did)
      in (if taken_down then Some ''takendown'' else if active then None else Some ''deactivated'', active))"

text \<open>What the guards read of a request.\<close>

record xrpc_request =
  rq_nsid :: "string option"
  rq_params :: "cjson option"
  rq_subject :: "string option"

definition assert_repo_available ::
  "guard_registry \<Rightarrow> string option \<Rightarrow> xrpc_request \<Rightarrow> xrpc_response \<Rightarrow> bool \<times> xrpc_response" where
  "assert_repo_available reg acct req resp =
     (case acct of
        None \<Rightarrow> (False, set_error 400 ''RepoNotFound'' ''Could not find repo'' resp)
      | Some did \<Rightarrow>
          if rq_subject req = Some did then (True, resp)
          else if account_takedown_ref reg (Some did) \<noteq> None
          then (False, set_error 400 ''RepoTakendown'' ''Repo has been takendown'' resp)
          else if \<not> gr_active reg did
          then (False, set_error 400 ''RepoDeactivated'' ''Repo has been deactivated'' resp)
          else (True, resp))"

section \<open>The cost of a write\<close>

definition op_cost :: "cjson \<Rightarrow> nat" where
  "op_cost op =
     (let t = (case cj_string op ''$type'' of Some s \<Rightarrow> s | None \<Rightarrow> '''')
      in if t = ''com.atproto.repo.applyWrites#create'' then 3
         else if t = ''com.atproto.repo.applyWrites#update'' then 2 else 1)"

fun sum_cost :: "cjson list \<Rightarrow> 32 word \<Rightarrow> 32 word" where
  "sum_cost [] cost = cost"
| "sum_cost (op # ops) cost = sum_cost ops (cost + of_nat (op_cost op))"

definition apply_writes_rate_limit_cost :: "cjson option \<Rightarrow> 32 word" where
  "apply_writes_rate_limit_cost params =
     (case query_item params ''writes'' of Some (CArray ops) \<Rightarrow> sum_cost ops 0 | _ \<Rightarrow> 0)"

definition repo_write_rate_limit_cost :: "xrpc_request \<Rightarrow> 32 word" where
  "repo_write_rate_limit_cost req =
     (let nsid = (case rq_nsid req of Some n \<Rightarrow> n | None \<Rightarrow> '''')
      in if nsid = ''com.atproto.repo.createRecord'' then 3
         else if nsid = ''com.atproto.repo.putRecord'' then 2
         else if nsid = ''com.atproto.repo.deleteRecord'' then 1
         else if nsid = ''com.atproto.repo.applyWrites'' then apply_writes_rate_limit_cost (rq_params req)
         else 0)"

section \<open>Rate limits\<close>

record rate_status =
  rl_limit :: "32 word"
  rl_remaining :: "32 word"
  rl_reset_at :: "32 word"
  rl_duration :: "32 word"

text \<open>
  A limiter is what a consumption of some cost under some key makes of it: whether there was enough,
  the figures, and the limiter afterwards. A tier may be absent.
\<close>

type_synonym 'l consume = "'l \<Rightarrow> string \<Rightarrow> 32 word \<Rightarrow> bool \<times> rate_status \<times> 'l"

definition consume_tier ::
  "'l consume \<Rightarrow> string \<Rightarrow> 32 word \<Rightarrow> 'l option \<Rightarrow> (bool \<times> rate_status) option \<times> 'l option" where
  "consume_tier consume key cost tier =
     (case tier of
        None \<Rightarrow> (None, None)
      | Some l \<Rightarrow> (case consume l key cost of (ok, st, l') \<Rightarrow> (Some (ok, st), Some l')))"

text \<open>\<open>%u\<close>.\<close>

definition print_u :: "32 word \<Rightarrow> string" where
  "print_u n = decimal_digits (unat n)"

text \<open>The loop over the two tiers picks the first with the fewest points left.\<close>

definition reported_tier ::
  "(bool \<times> rate_status) option \<Rightarrow> (bool \<times> rate_status) option \<Rightarrow> rate_status option" where
  "reported_tier a b =
     (case a of
        None \<Rightarrow> map_option snd b
      | Some (ok, st) \<Rightarrow>
          (case b of
             None \<Rightarrow> Some st
           | Some (ok', st') \<Rightarrow> Some (if rl_remaining st' < rl_remaining st then st' else st)))"

definition NUM_BUF :: nat where "NUM_BUF = 16"

definition add_rate_headers :: "rate_status \<Rightarrow> xrpc_response \<Rightarrow> xrpc_response" where
  "add_rate_headers st resp =
     add_header ''RateLimit-Policy'' (snprintf_cut NUM_BUF (print_u (rl_limit st) @ '';w='' @ print_u (rl_duration st)))
       (add_header ''RateLimit-Remaining'' (snprintf_cut NUM_BUF (print_u (rl_remaining st)))
         (add_header ''RateLimit-Reset'' (snprintf_cut NUM_BUF (print_u (rl_reset_at st)))
           (add_header ''RateLimit-Limit'' (snprintf_cut NUM_BUF (print_u (rl_limit st))) resp)))"

definition limited :: "(bool \<times> rate_status) option \<Rightarrow> bool" where
  "limited r = (case r of Some (ok, st) \<Rightarrow> \<not> ok | None \<Rightarrow> False)"

text \<open>How long one tier asks to wait; \<open>now\<close> is the clock, cut to 32 bits.\<close>

definition tier_wait :: "32 word \<Rightarrow> (bool \<times> rate_status) option \<Rightarrow> 32 word" where
  "tier_wait now r =
     (case r of
        Some (False, st) \<Rightarrow> (if rl_reset_at st > now then rl_reset_at st - now else 1)
      | _ \<Rightarrow> 0)"

definition retry_after ::
  "32 word \<Rightarrow> (bool \<times> rate_status) option \<Rightarrow> (bool \<times> rate_status) option \<Rightarrow> 32 word" where
  "retry_after now a b =
     (if tier_wait now b > tier_wait now a then tier_wait now b else tier_wait now a)"

definition MESSAGE_BUF :: nat where "MESSAGE_BUF = 128"

definition check_endpoint_rate_limit ::
  "'l consume \<Rightarrow> 32 word \<Rightarrow> 'l option \<Rightarrow> 'l option \<Rightarrow> string option \<Rightarrow> 32 word \<Rightarrow> xrpc_response \<Rightarrow>
   bool \<times> xrpc_response \<times> 'l option \<times> 'l option" where
  "check_endpoint_rate_limit consume now tier_a tier_b key cost resp =
     (let k = (case key of Some t \<Rightarrow> t | None \<Rightarrow> ''unknown'');
          c = (if cost = 0 then 1 else cost)
      in case consume_tier consume k c tier_a of
           (ra, a) \<Rightarrow>
             (case consume_tier consume k c tier_b of
                (rb, b) \<Rightarrow>
                  let resp1 = (case reported_tier ra rb of
                                 Some st \<Rightarrow> add_rate_headers st resp | None \<Rightarrow> resp)
                  in if \<not> (limited ra \<or> limited rb) then (True, resp1, a, b)
                     else
                       let wait = retry_after now ra rb
                       in (False,
                           add_header ''Retry-After'' (snprintf_cut NUM_BUF (print_u wait))
                             (set_error 429 ''RateLimitExceeded''
                               (snprintf_cut MESSAGE_BUF
                                 (''Rate limit exceeded. Retry after '' @ print_u wait @ '' seconds.'')) resp1),
                           a, b)))"

section \<open>The access guard of the repository routes\<close>

text \<open>\<open>resolve\<close> is the account a request names. The two limiters are those of an hour and a day.\<close>

definition metalbear_repo_access_guard ::
  "guard_registry \<Rightarrow> (xrpc_request \<Rightarrow> string option) \<Rightarrow> 'l consume \<Rightarrow> 32 word \<Rightarrow> 'l option \<Rightarrow> 'l option \<Rightarrow>
   xrpc_request \<Rightarrow> string option \<Rightarrow> xrpc_response \<Rightarrow> bool \<times> xrpc_response \<times> 'l option \<times> 'l option" where
  "metalbear_repo_access_guard reg resolve consume now hour day req record_uri resp =
     (case record_uri of
        Some uri \<Rightarrow>
          (case gr_uri_takedown reg uri of
             None \<Rightarrow> (True, resp, hour, day)
           | Some r \<Rightarrow>
               (False, set_error 400 ''RecordNotFound'' ''Could not locate record'' resp, hour, day))
      | None \<Rightarrow>
          (case resolve req of
             None \<Rightarrow> (True, resp, hour, day)
           | Some did \<Rightarrow>
               (case assert_repo_available reg (Some did) req resp of
                  (available, resp1) \<Rightarrow>
                    if \<not> available then (False, resp1, hour, day)
                    else if repo_write_rate_limit_cost req > 0
                    then check_endpoint_rate_limit consume now hour day (Some did)
                           (repo_write_rate_limit_cost req) resp1
                    else (True, resp1, hour, day))))"

section \<open>Ranges and costs\<close>

lemma clamp_range: "lo \<le> hi \<Longrightarrow> lo \<le> clamp lo hi v \<and> clamp lo hi v \<le> hi"
  by (simp add: clamp_def Let_def)

lemma clamp_inside: "lo \<le> v \<Longrightarrow> v \<le> hi \<Longrightarrow> clamp lo hi v = v"
  by (simp add: clamp_def Let_def)

text \<open>An integer parameter is within its bounds whatever the request holds, also for numbers a
  double or a \<open>long\<close> cannot represent, provided the default is; text that is not one whole decimal
  number gives the default.\<close>

theorem query_param_int_in_range:
  assumes "lo \<le> fallback" and "fallback \<le> hi"
  shows "lo \<le> query_param_int ub params name fallback lo hi \<and>
    query_param_int ub params name fallback lo hi \<le> hi \<and>
    (case query_item params name of
       Some (CString s) \<Rightarrow>
         (if s = '''' \<or> fst (snd (strtoll10 s)) \<noteq> '''' then query_param_int ub params name fallback lo hi = fallback
          else query_param_int ub params name fallback lo hi = clamp lo hi (fst (strtoll10 s)))
     | _ \<Rightarrow> True)"
  using clamp_range [of lo hi] clamp_inside [OF assms] assms
  by (auto simp: query_param_int_def split: option.split cjson.split prod.split)

theorem query_param_int_in_range_witness:
  "query_param_int 0 (Some (CObject [(''limit'', CString ''999999999999999999999'')])) ''limit'' 50 1 100 = 100"
proof -
  let ?p = "Some (CObject [(''limit'', CString ''999999999999999999999'')])"
  have "strtoll10 ''999999999999999999999'' = (2 ^ 63 - 1, '''', True)" by code_simp
  moreover have "clamp 1 100 (2 ^ 63 - 1) = 100" by (simp add: clamp_def)
  ultimately show ?thesis
    using query_param_int_in_range [of 1 50 100 0 ?p "''limit''"] by (simp add: query_item_def)
qed

lemma sum_cost_add: "sum_cost ops c = c + sum_cost ops 0"
proof (induction ops arbitrary: c)
  case (Cons op ops)
  show ?case using Cons [of "c + of_nat (op_cost op)"] Cons [of "of_nat (op_cost op)"] by simp
qed simp

lemma sum_cost_list: "sum_cost ops 0 = of_nat (sum_list (map op_cost ops))"
proof (induction ops)
  case (Cons op ops)
  then show ?case using sum_cost_add [of ops "of_nat (op_cost op)"] by simp
qed simp

text \<open>The cost of a batch does not wrap, and is 0 only for the empty batch.\<close>

lemma batch_cost_exact:
  assumes "length ops < 2 ^ 30"
  shows "unat (sum_cost ops 0) = sum_list (map op_cost ops)" and "sum_cost ops 0 = 0 \<longleftrightarrow> ops = []"
proof -
  have one: "1 \<le> op_cost op \<and> op_cost op \<le> 3" for op by (simp add: op_cost_def Let_def)
  have "sum_list (map op_cost ops) \<le> 3 * length ops \<and> length ops \<le> sum_list (map op_cost ops)"
  proof (induction ops)
    case (Cons op ops)
    then show ?case using one [of op] by simp
  qed simp
  then have b: "sum_list (map op_cost ops) < 2 ^ 32" "length ops \<le> sum_list (map op_cost ops)"
    using assms by simp_all
  show u: "unat (sum_cost ops 0) = sum_list (map op_cost ops)"
    using b(1) by (simp add: sum_cost_list unat_of_nat take_bit_nat_eq_self)
  show "sum_cost ops 0 = 0 \<longleftrightarrow> ops = []"
  proof (cases ops)
    case (Cons op ops')
    then have "0 < unat (sum_cost ops 0)" unfolding u using b(2) by (auto intro: less_le_trans [rotated])
    then have "sum_cost ops 0 \<noteq> 0" by (metis less_irrefl unat_0)
    then show ?thesis using Cons by blast
  qed simp
qed

section \<open>What the guard lets through and what it charges\<close>

lemma print_u_fits [simp]: "snprintf_cut NUM_BUF (print_u n) = print_u n"
proof -
  have "unat n < 10 ^ 10" using unsigned_less [of n, where 'a = nat] by simp
  then have "length (print_u n) \<le> 10" unfolding print_u_def by (intro decimal_digits_short) auto
  then show ?thesis by (simp add: NUM_BUF_def)
qed

lemma consume_tier_after:
  "consume_tier consume k c tier = (r, t) \<Longrightarrow>
   t = map_option (\<lambda>l. snd (snd (consume l k c))) tier \<and>
   (limited r \<longleftrightarrow> (\<exists>l \<in> set_option tier. \<not> fst (consume l k c)))"
  by (auto simp: consume_tier_def limited_def split: option.splits prod.splits)

lemma wait_positive: "limited r \<Longrightarrow> 0 < tier_wait now r"
proof (cases r)
  case (Some x)
  obtain ok st where x: "x = (ok, st)" by force
  have "0 < a - b" if "b < a" for a b :: "32 word"
    using that by (metis eq_iff_diff_eq_0 less_irrefl word_gt_0)
  then show "limited r \<Longrightarrow> 0 < tier_wait now r"
    using Some x by (cases ok) (auto simp: limited_def tier_wait_def)
qed (simp add: limited_def)

lemma retry_after_positive: "limited a \<or> limited b \<Longrightarrow> 0 < retry_after now a b"
proof -
  assume "limited a \<or> limited b"
  then show ?thesis
  proof
    assume "limited a"
    then show ?thesis using wait_positive [of a now] by (auto simp: retry_after_def dest: less_trans)
  next
    assume "limited b"
    then show ?thesis
      using wait_positive [of b now] by (auto simp: retry_after_def not_less dest: less_le_trans)
  qed
qed

lemma rate_headers_error [simp]: "xr_error (add_rate_headers st resp) = xr_error resp"
  by (simp add: add_rate_headers_def add_header_def)

lemma rate_limit_outcome:
  assumes "check_endpoint_rate_limit consume now hour day (Some k) c resp = (ok, resp', hour', day')" and "c > 0"
  shows "hour' = map_option (\<lambda>l. snd (snd (consume l k c))) hour \<and>
    day' = map_option (\<lambda>l. snd (snd (consume l k c))) day \<and>
    (ok \<longleftrightarrow> (\<forall>l \<in> set_option hour \<union> set_option day. fst (consume l k c))) \<and>
    (if ok then xr_error resp' = xr_error resp
     else (\<exists>n > 0. (''Retry-After'', print_u n) \<in> set (xr_headers resp') \<and>
                   (\<exists>text. xr_error resp' = Some (429, ''RateLimitExceeded'', text))))"
proof -
  obtain ra a where a: "consume_tier consume k c hour = (ra, a)" by force
  obtain rb b where b: "consume_tier consume k c day = (rb, b)" by force
  have c: "(if c = 0 then 1 else c) = c" using assms(2) by (cases "c = 0") auto
  note fa = consume_tier_after [OF a] and fb = consume_tier_after [OF b]
  show ?thesis
  proof (cases "limited ra \<or> limited rb")
    case False
    then show ?thesis
      using assms(1) fa fb by (auto simp: check_endpoint_rate_limit_def Let_def c a b split: option.splits)
  next
    case True
    define wait where "wait = retry_after now ra rb"
    have w: "0 < wait" unfolding wait_def using True by (rule retry_after_positive)
    define r where "r = (case reported_tier ra rb of Some st \<Rightarrow> add_rate_headers st resp | None \<Rightarrow> resp)"
    define msg where "msg = snprintf_cut MESSAGE_BUF
      (''Rate limit exceeded. Retry after '' @ print_u wait @ '' seconds.'')"
    have "(False, add_header ''Retry-After'' (snprintf_cut NUM_BUF (print_u wait))
        (set_error 429 ''RateLimitExceeded'' msg r), a, b) = (ok, resp', hour', day')"
      using assms(1) unfolding check_endpoint_rate_limit_def Let_def option.case prod.case c a b wait_def r_def msg_def
      by (simp only: True not_True_eq_False if_False)
    then have eq: "\<not> ok" "hour' = a" "day' = b"
      and r: "resp' = add_header ''Retry-After'' (print_u wait) (set_error 429 ''RateLimitExceeded'' msg r)"
      by simp_all
    have "(''Retry-After'', print_u wait) \<in> set (xr_headers resp')"
      and "xr_error resp' = Some (429, ''RateLimitExceeded'', msg)"
      by (simp_all add: r add_header_def set_error_def)
    then show ?thesis
      using w eq(1-3) fa fb True by auto
  qed
qed

text \<open>A write to a repository passes the guard exactly when the repository is available to who
  asks (its own account, or neither taken down nor deactivated) and every limiter had the points.
  Both limiters are charged the write's cost under the account even when one of them refuses; a write
  to an unavailable repository is charged nowhere. A refusal is a 429 with a wait of at least a second,
  or a 400 that tells a takedown from a deactivation.\<close>

theorem write_guard_charges:
  assumes "resolve req = Some did" and "did \<noteq> ''''" and "0 < repo_write_rate_limit_cost req"
  shows "case metalbear_repo_access_guard reg resolve consume now hour day req None resp of
      (ok, resp', hour', day') \<Rightarrow>
        (if rq_subject req = Some did \<or> gr_did_takedown reg did = None \<and> gr_active reg did
         then hour' = map_option (\<lambda>l. snd (snd (consume l did (repo_write_rate_limit_cost req)))) hour \<and>
              day' = map_option (\<lambda>l. snd (snd (consume l did (repo_write_rate_limit_cost req)))) day \<and>
              (ok \<longleftrightarrow> (\<forall>l \<in> set_option hour \<union> set_option day.
                            fst (consume l did (repo_write_rate_limit_cost req)))) \<and>
              (if ok then xr_error resp' = xr_error resp
               else (\<exists>n > 0. (''Retry-After'', print_u n) \<in> set (xr_headers resp') \<and>
                             (\<exists>text. xr_error resp' = Some (429, ''RateLimitExceeded'', text))))
         else \<not> ok \<and> hour' = hour \<and> day' = day \<and>
              map_option (\<lambda>e. fst (snd e)) (xr_error resp') =
                Some (if gr_did_takedown reg did \<noteq> None then ''RepoTakendown'' else ''RepoDeactivated''))"
proof (cases "rq_subject req = Some did \<or> gr_did_takedown reg did = None \<and> gr_active reg did")
  case True
  then have "assert_repo_available reg (Some did) req resp = (True, resp)"
    by (auto simp: assert_repo_available_def account_takedown_ref_def)
  then have g: "metalbear_repo_access_guard reg resolve consume now hour day req None resp =
      check_endpoint_rate_limit consume now hour day (Some did) (repo_write_rate_limit_cost req) resp"
    using assms by (simp add: metalbear_repo_access_guard_def)
  show ?thesis
    using True rate_limit_outcome [OF _ assms(3), of consume now hour day did resp]
    unfolding g by (auto split: prod.split)
next
  case False
  then show ?thesis
    using assms
    by (auto simp: metalbear_repo_access_guard_def assert_repo_available_def account_takedown_ref_def set_error_def)
qed

text \<open>A limiter of the example is its remaining points.\<close>

definition demo_consume :: "nat consume" where
  "demo_consume l key cost =
     (unat cost \<le> l, \<lparr>rl_limit = 5, rl_remaining = of_nat (l - unat cost), rl_reset_at = 9, rl_duration = 60\<rparr>,
      l - unat cost)"

theorem write_guard_charges_witness:
  "case metalbear_repo_access_guard
      \<lparr>gr_did_takedown = \<lambda>d. None, gr_uri_takedown = \<lambda>u. None, gr_active = \<lambda>d. True\<rparr> (\<lambda>r. Some ''did:a'')
      demo_consume 4 (Some 2) (Some 5)
      \<lparr>rq_nsid = Some ''com.atproto.repo.createRecord'', rq_params = None, rq_subject = None\<rparr> None
      \<lparr>xr_headers = [], xr_error = None\<rparr> of
    (ok, resp, hour, day) \<Rightarrow> \<not> ok \<and> hour = Some 0 \<and> day = Some 2"
proof -
  let ?req = "\<lparr>rq_nsid = Some ''com.atproto.repo.createRecord'', rq_params = None, rq_subject = None\<rparr>"
  have c: "repo_write_rate_limit_cost ?req = 3" by (simp add: repo_write_rate_limit_cost_def)
  have p: "(0 :: 32 word) < repo_write_rate_limit_cost ?req" by (simp add: c)
  show ?thesis
    using write_guard_charges [of "\<lambda>r. Some ''did:a''" ?req "''did:a''", OF refl _ p,
        where reg = "\<lparr>gr_did_takedown = \<lambda>d. None, gr_uri_takedown = \<lambda>u. None, gr_active = \<lambda>d. True\<rparr>"
          and consume = demo_consume and now = 4 and hour = "Some 2" and day = "Some 5"
          and resp = "\<lparr>xr_headers = [], xr_error = None\<rparr>"]
    by (auto simp: c demo_consume_def split: prod.splits)
qed

end
