(* ===== verification/Oauth_Store.thy ===== *)
theory Oauth_Store
  imports Cjson
begin

text \<open>
  \<open>src/oauth/oauth.c\<close>: the pushed authorisation requests, codes, refresh tokens, device sessions and
  passkeys of the host, and the access tokens it signs. Wolfram, OpenSSL and cJSON's printer and
  parser are the functions of the record \<open>oauth_lib\<close>. What the world answers a call is the record
  \<open>oauth_io\<close>: the readings of the clock and the random bytes by their number, and the fate of each
  SQLite statement. Memory does not run out, and a clock reading is small enough to be its own
  double. Each call holds the store's mutex over its statements, so a call is one step.
\<close>

section \<open>The library and the world\<close>

record oauth_lib =
  ol_sha256 :: "byte list \<Rightarrow> byte list"
  ol_b64 :: "byte list \<Rightarrow> string"
  ol_unb64 :: "string \<Rightarrow> byte list option"
  ol_pkce :: "string \<Rightarrow> wf_status + string"
  ol_sign :: "byte list \<Rightarrow> string \<Rightarrow> byte list option"
  ol_public :: "byte list \<Rightarrow> (byte list \<times> byte list) option"
  ol_print :: "cjson \<Rightarrow> string"
  ol_parse :: "string \<Rightarrow> cjson option"

text \<open>\<open>oi_reads\<close> is how many rows a query gives before it fails.\<close>

record oauth_io =
  oi_clock :: "nat \<Rightarrow> int"
  oi_random :: "nat \<Rightarrow> byte list option"
  oi_prune :: "nat \<Rightarrow> bool"
  oi_sql :: "nat \<Rightarrow> sql_fate"
  oi_reads :: nat

section \<open>The store\<close>

record par_row =
  pr_uri :: string
  pr_client :: string
  pr_redirect :: string
  pr_scope :: string
  pr_state :: "string option"
  pr_challenge :: string
  pr_jkt :: "string option"
  pr_expires :: int

record code_row =
  cr_hash :: "byte list"
  cr_client :: string
  cr_redirect :: string
  cr_scope :: string
  cr_challenge :: string
  cr_jkt :: "string option"
  cr_subject :: string
  cr_expires :: int

record refresh_grant_row =
  gr_hash :: "byte list"
  gr_client :: string
  gr_scope :: string
  gr_jkt :: "string option"
  gr_subject :: string
  gr_expires :: int

record device_row =
  dv_hash :: "byte list"
  dv_subject :: string
  dv_expires :: int

record passkey_row =
  pk_id :: "byte list"
  pk_subject :: string
  pk_x :: "byte list"
  pk_y :: "byte list"
  pk_count :: int
  pk_name :: "string option"
  pk_created :: int
  pk_used :: "int option"

datatype ceremony = METALBEAR_WEBAUTHN_CEREMONY_REGISTRATION | METALBEAR_WEBAUTHN_CEREMONY_AUTHENTICATION

record challenge_row =
  ch_challenge :: string
  ch_ceremony :: ceremony
  ch_subject :: string
  ch_expires :: int

text \<open>The tables are the file; an open store adds the key in memory, the issuer and the trusted keys.\<close>

record oauth_tables =
  ot_meta_key :: "byte list option"
  ot_par :: "par_row list"
  ot_code :: "code_row list"
  ot_refresh :: "refresh_grant_row list"
  ot_device :: "device_row list"
  ot_passkey :: "passkey_row list"
  ot_challenge :: "challenge_row list"

record oauth_store = oauth_tables +
  os_issuer :: string
  os_key :: "byte list"
  os_trusted :: "string list"

text \<open>A request as the route read it: a parameter may be missing.\<close>

record oauth_request =
  oq_client_id :: "string option"
  oq_redirect_uri :: "string option"
  oq_scope :: "string option"
  oq_state :: "string option"
  oq_code_challenge :: "string option"
  oq_dpop_jkt :: "string option"

record oauth_grant =
  og_access_token :: string
  og_refresh_token :: string
  og_expires_in :: int

definition PAR_LIFETIME :: int where "PAR_LIFETIME = 300"
definition CODE_LIFETIME :: int where "CODE_LIFETIME = 300"
definition OAUTH_ACCESS_LIFETIME :: int where "OAUTH_ACCESS_LIFETIME = 3600"
definition OAUTH_REFRESH_LIFETIME :: int where "OAUTH_REFRESH_LIFETIME = 90 * 24 * 60 * 60"
definition DEVICE_SESSION_LIFETIME :: int where "DEVICE_SESSION_LIFETIME = 30 * 24 * 60 * 60"
definition CHALLENGE_LIFETIME :: int where "CHALLENGE_LIFETIME = 120"

section \<open>Random values, hashes and expiry\<close>

definition random_value :: "oauth_lib \<Rightarrow> oauth_io \<Rightarrow> nat \<Rightarrow> wf_status + string" where
  "random_value lib io i =
     (case oi_random io i of None \<Rightarrow> Inl WF_ERR_CRYPTO | Some bytes \<Rightarrow> Inr (ol_b64 lib bytes))"

definition token_hash :: "oauth_lib \<Rightarrow> string \<Rightarrow> byte list" where
  "token_hash lib token = ol_sha256 lib (bytes_of token)"

text \<open>The five deletions, each of which may fail on its own.\<close>

definition unexpired :: "bool \<Rightarrow> int \<Rightarrow> ('a \<Rightarrow> int) \<Rightarrow> 'a list \<Rightarrow> 'a list" where
  "unexpired ok now expires rows = (if ok then filter (\<lambda>r. \<not> expires r \<le> now) rows else rows)"

definition prune :: "oauth_io \<Rightarrow> int \<Rightarrow> oauth_store \<Rightarrow> oauth_store" where
  "prune io now s =
     s\<lparr>ot_par := unexpired (oi_prune io 0) now pr_expires (ot_par s),
       ot_code := unexpired (oi_prune io 1) now cr_expires (ot_code s),
       ot_refresh := unexpired (oi_prune io 2) now gr_expires (ot_refresh s),
       ot_device := unexpired (oi_prune io 3) now dv_expires (ot_device s),
       ot_challenge := unexpired (oi_prune io 4) now ch_expires (ot_challenge s)\<rparr>"

text \<open>A query that fails on the way ends its loop early.\<close>

definition rows_read :: "oauth_io \<Rightarrow> nat \<Rightarrow> 'a list \<Rightarrow> 'a list" where
  "rows_read io i rows = (if oi_sql io i = SQL_RUNS then rows else take (oi_reads io) rows)"

text \<open>A query for one row by its key, none of whose rows is read when it fails.\<close>

definition select_row :: "oauth_io \<Rightarrow> nat \<Rightarrow> ('a \<Rightarrow> bool) \<Rightarrow> 'a list \<Rightarrow> 'a option" where
  "select_row io i P rows = (if oi_sql io i = SQL_RUNS then find P rows else None)"

section \<open>The signing key and opening\<close>

definition oauth_load_or_create_key ::
  "oauth_io \<Rightarrow> byte list option \<Rightarrow> oauth_tables \<Rightarrow> (wf_status + byte list) \<times> oauth_tables" where
  "oauth_load_or_create_key io generated t =
     (if oi_sql io 0 = SQL_UNPREPARED then (Inl WF_ERR_INTERNAL, t)
      else if oi_sql io 0 = SQL_STEP_FAILS then (Inl WF_ERR_CRYPTO, t)
      else (case ot_meta_key t of
              Some k \<Rightarrow> (if length k = 32 then Inr k else Inl WF_ERR_CONFIG, t)
            | None \<Rightarrow>
                (case generated of
                   None \<Rightarrow> (Inl WF_ERR_CRYPTO, t)
                 | Some k \<Rightarrow>
                     if oi_sql io 1 = SQL_RUNS then (Inr k, t\<lparr>ot_meta_key := Some k\<rparr>)
                     else (Inl WF_ERR_INTERNAL, t))))"

definition metalbear_oauth_public_jwk :: "oauth_lib \<Rightarrow> byte list \<Rightarrow> wf_status + string" where
  "metalbear_oauth_public_jwk lib k =
     (case ol_public lib k of
        None \<Rightarrow> Inl WF_ERR_CRYPTO
      | Some (x, y) \<Rightarrow>
          Inr (ol_print lib (CObject
            [(''kty'', CString ''EC''), (''crv'', CString ''P-256''),
             (''x'', CString (ol_b64 lib x)), (''y'', CString (ol_b64 lib y)),
             (''use'', CString ''sig''), (''alg'', CString ''ES256''),
             (''kid'', CString ''metalbear-oauth'')])))"

definition metalbear_oauth_jwks :: "oauth_lib \<Rightarrow> byte list \<Rightarrow> wf_status + string" where
  "metalbear_oauth_jwks lib k =
     (case metalbear_oauth_public_jwk lib k of
        Inl st \<Rightarrow> Inl st
      | Inr jwk \<Rightarrow>
          (case ol_parse lib jwk of
             None \<Rightarrow> Inl WF_ERR_ALLOC
           | Some j \<Rightarrow> Inr (ol_print lib (CObject [(''keys'', CArray [j])]))))"

text \<open>Opening after the schema statements; \<open>trusts\<close> is whether Wolfram takes the key's JWK.\<close>

definition metalbear_oauth_store_open ::
  "oauth_lib \<Rightarrow> oauth_io \<Rightarrow> byte list option \<Rightarrow> (string \<Rightarrow> bool) \<Rightarrow> string \<Rightarrow> oauth_tables \<Rightarrow>
   (wf_status + oauth_store) \<times> oauth_tables" where
  "metalbear_oauth_store_open lib io generated trusts issuer t =
     (case oauth_load_or_create_key io generated t of
        (Inl st, t1) \<Rightarrow> (Inl WF_ERR_INTERNAL, t1)
      | (Inr k, t1) \<Rightarrow>
          (case metalbear_oauth_public_jwk lib k of
             Inl st \<Rightarrow> (Inl WF_ERR_INTERNAL, t1)
           | Inr jwk \<Rightarrow>
               if trusts jwk
               then (Inr (oauth_tables.extend t1
                            \<lparr>os_issuer = issuer, os_key = k, os_trusted = [jwk]\<rparr>), t1)
               else (Inl WF_ERR_INTERNAL, t1)))"

section \<open>Pushed authorisation requests\<close>

text \<open>The scope's tokens, split at single spaces.\<close>

function has_atproto :: "string \<Rightarrow> bool" where
  "has_atproto p =
     (if p = [] then False
      else (case strchr_cut (CHR '' '') p of
              (token, rest) \<Rightarrow>
                if token = ''atproto'' then True
                else (case rest of None \<Rightarrow> False | Some r \<Rightarrow> has_atproto r)))"
  by pat_completeness auto
termination
  by (relation "measure length") (auto dest: sym strchr_cut_length)

declare has_atproto.simps [simp del]

definition given :: "string option \<Rightarrow> bool" where
  "given t = (case t of None \<Rightarrow> False | Some s \<Rightarrow> s \<noteq> '''')"

definition of_length :: "nat \<Rightarrow> string option \<Rightarrow> bool" where
  "of_length n t = (case t of None \<Rightarrow> False | Some s \<Rightarrow> length s = n)"

definition valid_request :: "oauth_request \<Rightarrow> bool" where
  "valid_request req =
     (if \<not> given (oq_client_id req) \<or> \<not> given (oq_redirect_uri req) \<or> \<not> given (oq_scope req) \<or>
         \<not> of_length 43 (oq_code_challenge req) then False
      else if \<not> of_length 43 (oq_dpop_jkt req) then False
      else has_atproto (the (oq_scope req)))"

definition par_prefix :: string where "par_prefix = ''urn:ietf:params:oauth:request_uri:''"

definition metalbear_oauth_create_par ::
  "oauth_lib \<Rightarrow> oauth_io \<Rightarrow> oauth_request \<Rightarrow> oauth_store \<Rightarrow> (wf_status + string \<times> int) \<times> oauth_store" where
  "metalbear_oauth_create_par lib io req s =
     (if \<not> valid_request req then (Inl WF_ERR_INVALID_ARG, s)
      else (case random_value lib io 0 of
              Inl st \<Rightarrow> (Inl st, s)
            | Inr random \<Rightarrow>
                let uri = par_prefix @ random;
                    now = oi_clock io 0;
                    s1 = prune io now s;
                    row = \<lparr>pr_uri = uri, pr_client = the (oq_client_id req),
                           pr_redirect = the (oq_redirect_uri req), pr_scope = the (oq_scope req),
                           pr_state = oq_state req, pr_challenge = the (oq_code_challenge req),
                           pr_jkt = oq_dpop_jkt req, pr_expires = now + PAR_LIFETIME\<rparr>
                in if oi_sql io 0 = SQL_RUNS \<and> (\<forall>r \<in> set (ot_par s1). pr_uri r \<noteq> uri)
                   then (Inr (uri, PAR_LIFETIME), s1\<lparr>ot_par := ot_par s1 @ [row]\<rparr>)
                   else (Inl WF_ERR_INTERNAL, s1)))"

definition metalbear_oauth_par_peek ::
  "oauth_io \<Rightarrow> string \<Rightarrow> string \<Rightarrow> oauth_store \<Rightarrow> wf_status + string \<times> string" where
  "metalbear_oauth_par_peek io uri client s =
     (if oi_sql io 0 = SQL_UNPREPARED then Inl WF_ERR_INTERNAL
      else (case select_row io 0 (\<lambda>r. pr_uri r = uri \<and> pr_expires r > oi_clock io 0) (ot_par s) of
              None \<Rightarrow> Inl WF_ERR_NOT_FOUND
            | Some r \<Rightarrow>
                if pr_client r \<noteq> client then Inl WF_ERR_PERMISSION
                else Inr (pr_scope r, pr_redirect r)))"

section \<open>Codes\<close>

text \<open>The transaction that turns a request into a code: statements 1 to 4, all or nothing.\<close>

definition take_par ::
  "oauth_io \<Rightarrow> par_row \<Rightarrow> byte list \<Rightarrow> string \<Rightarrow> int \<Rightarrow> oauth_store \<Rightarrow> wf_status \<times> oauth_store" where
  "take_par io r hash subject now s =
     (if oi_sql io 1 \<noteq> SQL_RUNS then (WF_ERR_INTERNAL, s)
      else if oi_sql io 2 = SQL_UNPREPARED then (WF_ERR_INTERNAL, s)
      else if oi_sql io 2 = SQL_STEP_FAILS \<or>
              length (filter (\<lambda>p. pr_uri p = pr_uri r) (ot_par s)) \<noteq> 1 then (WF_ERR_CONFLICT, s)
      else if oi_sql io 3 \<noteq> SQL_RUNS \<or> (\<exists>c \<in> set (ot_code s). cr_hash c = hash) then (WF_ERR_INTERNAL, s)
      else if oi_sql io 4 \<noteq> SQL_RUNS then (WF_ERR_INTERNAL, s)
      else (WF_OK,
            s\<lparr>ot_par := filter (\<lambda>p. pr_uri p \<noteq> pr_uri r) (ot_par s),
              ot_code := ot_code s @
                [\<lparr>cr_hash = hash, cr_client = pr_client r, cr_redirect = pr_redirect r,
                  cr_scope = pr_scope r, cr_challenge = pr_challenge r, cr_jkt = pr_jkt r,
                  cr_subject = subject, cr_expires = now + CODE_LIFETIME\<rparr>]\<rparr>))"

text \<open>The code, the redirect URI and the state.\<close>

definition metalbear_oauth_authorize ::
  "oauth_lib \<Rightarrow> oauth_io \<Rightarrow> string \<Rightarrow> string \<Rightarrow> string \<Rightarrow> oauth_store \<Rightarrow>
   (wf_status + string \<times> string \<times> string option) \<times> oauth_store" where
  "metalbear_oauth_authorize lib io uri client subject s =
     (case random_value lib io 0 of
        Inl st \<Rightarrow> (Inl st, s)
      | Inr code \<Rightarrow>
          let now = oi_clock io 0; s1 = prune io now s
          in if oi_sql io 0 = SQL_UNPREPARED then (Inl WF_ERR_INTERNAL, s1)
             else (case select_row io 0 (\<lambda>r. pr_uri r = uri \<and> pr_expires r > now) (ot_par s1) of
                     None \<Rightarrow> (Inl WF_ERR_NOT_FOUND, s1)
                   | Some r \<Rightarrow>
                       if pr_client r \<noteq> client then (Inl WF_ERR_PERMISSION, s1)
                       else (case take_par io r (token_hash lib code) subject now s1 of
                               (st, s2) \<Rightarrow>
                                 if st \<noteq> WF_OK then (Inl st, s2)
                                 else (Inr (code, pr_redirect r, pr_state r), s2))))"

section \<open>Tokens\<close>

definition access_header :: cjson where
  "access_header = CObject
     [(''typ'', CString ''at+jwt''), (''alg'', CString ''ES256''), (''kid'', CString ''metalbear-oauth'')]"

definition access_payload ::
  "string \<Rightarrow> string \<Rightarrow> string \<Rightarrow> string \<Rightarrow> string \<Rightarrow> string \<Rightarrow> int \<Rightarrow> int \<Rightarrow> cjson" where
  "access_payload issuer client scope jkt subject jti now expires = CObject
     [(''iss'', CString issuer), (''sub'', CString subject), (''aud'', CString issuer),
      (''scope'', CString scope), (''client_id'', CString client), (''jti'', CString jti),
      (''iat'', CNumber (of_int now)), (''exp'', CNumber (of_int expires)),
      (''cnf'', CObject [(''jkt'', CString jkt)])]"

definition jwt_part :: "oauth_lib \<Rightarrow> cjson \<Rightarrow> string" where
  "jwt_part lib j = ol_b64 lib (bytes_of (ol_print lib j))"

text \<open>The second reading of the clock and the first random value belong to the access token.\<close>

definition create_access_jwt ::
  "oauth_lib \<Rightarrow> oauth_io \<Rightarrow> oauth_store \<Rightarrow> string \<Rightarrow> string \<Rightarrow> string \<Rightarrow> string \<Rightarrow> int \<Rightarrow> string option" where
  "create_access_jwt lib io s client scope jkt subject expires =
     (case random_value lib io 0 of
        Inl st \<Rightarrow> None
      | Inr jti \<Rightarrow>
          let input = jwt_part lib access_header @ ''.'' @
                jwt_part lib (access_payload (os_issuer s) client scope jkt subject jti (oi_clock io 2) expires)
          in (case ol_sign lib (os_key s) input of
                None \<Rightarrow> None
              | Some signature \<Rightarrow> Some (input @ ''.'' @ ol_b64 lib signature)))"

definition oauth_persist_refresh ::
  "oauth_lib \<Rightarrow> oauth_io \<Rightarrow> string \<Rightarrow> string \<Rightarrow> string \<Rightarrow> string \<Rightarrow> string \<Rightarrow> int \<Rightarrow> oauth_store \<Rightarrow>
   wf_status \<times> oauth_store" where
  "oauth_persist_refresh lib io token client scope jkt subject expires s =
     (let hash = token_hash lib token
      in if oi_sql io 2 = SQL_RUNS \<and> (\<forall>r \<in> set (ot_refresh s). gr_hash r \<noteq> hash)
         then (WF_OK, s\<lparr>ot_refresh := ot_refresh s @
                 [\<lparr>gr_hash = hash, gr_client = client, gr_scope = scope, gr_jkt = Some jkt,
                   gr_subject = subject, gr_expires = expires\<rparr>]\<rparr>)
         else (WF_ERR_INTERNAL, s))"

definition issue_grant ::
  "oauth_lib \<Rightarrow> oauth_io \<Rightarrow> string \<Rightarrow> string \<Rightarrow> string \<Rightarrow> string \<Rightarrow> oauth_store \<Rightarrow>
   (wf_status + oauth_grant) \<times> oauth_store" where
  "issue_grant lib io client scope jkt subject s =
     (let now = oi_clock io 1
      in case create_access_jwt lib io s client scope jkt subject (now + OAUTH_ACCESS_LIFETIME) of
           None \<Rightarrow> (Inl WF_ERR_CRYPTO, s)
         | Some access \<Rightarrow>
             (case random_value lib io 1 of
                Inl st \<Rightarrow> (Inl st, s)
              | Inr refresh \<Rightarrow>
                  (case oauth_persist_refresh lib io refresh client scope jkt subject
                          (now + OAUTH_REFRESH_LIFETIME) s of
                     (st, s1) \<Rightarrow>
                       if st \<noteq> WF_OK then (Inl st, s1)
                       else (Inr \<lparr>og_access_token = access, og_refresh_token = refresh,
                                  og_expires_in = OAUTH_ACCESS_LIFETIME\<rparr>, s1))))"

definition metalbear_oauth_exchange_code ::
  "oauth_lib \<Rightarrow> oauth_io \<Rightarrow> string \<Rightarrow> string \<Rightarrow> string \<Rightarrow> string \<Rightarrow> string \<Rightarrow> oauth_store \<Rightarrow>
   (wf_status + oauth_grant) \<times> oauth_store" where
  "metalbear_oauth_exchange_code lib io code client redirect verifier jkt s =
     (if jkt = '''' then (Inl WF_ERR_INVALID_ARG, s)
      else
        let hash = token_hash lib code; now = oi_clock io 0; s1 = prune io now s
        in case ol_pkce lib verifier of
             Inl st \<Rightarrow> (Inl st, s1)
           | Inr challenge \<Rightarrow>
               if oi_sql io 0 = SQL_UNPREPARED then (Inl WF_ERR_INTERNAL, s1)
               else (case select_row io 0 (\<lambda>r. cr_hash r = hash \<and> cr_expires r > now) (ot_code s1) of
                       None \<Rightarrow> (Inl WF_ERR_PERMISSION, s1)
                     | Some r \<Rightarrow>
                         if cr_client r \<noteq> client \<or> cr_redirect r \<noteq> redirect \<or>
                            cr_challenge r \<noteq> challenge \<or> cr_jkt r \<noteq> Some jkt
                         then (Inl WF_ERR_PERMISSION, s1)
                         else if oi_sql io 1 = SQL_UNPREPARED then (Inl WF_ERR_INTERNAL, s1)
                         else if oi_sql io 1 = SQL_STEP_FAILS \<or>
                                 length (filter (\<lambda>c. cr_hash c = hash) (ot_code s1)) \<noteq> 1
                         then (Inl WF_ERR_PERMISSION, s1)
                         else issue_grant lib io client (cr_scope r) jkt (cr_subject r)
                                (s1\<lparr>ot_code := filter (\<lambda>c. cr_hash c \<noteq> hash) (ot_code s1)\<rparr>)))"

definition metalbear_oauth_refresh ::
  "oauth_lib \<Rightarrow> oauth_io \<Rightarrow> string \<Rightarrow> string \<Rightarrow> string \<Rightarrow> oauth_store \<Rightarrow>
   (wf_status + oauth_grant) \<times> oauth_store" where
  "metalbear_oauth_refresh lib io token client jkt s =
     (if jkt = '''' then (Inl WF_ERR_INVALID_ARG, s)
      else
        let hash = token_hash lib token; now = oi_clock io 0; s1 = prune io now s
        in if oi_sql io 0 = SQL_UNPREPARED then (Inl WF_ERR_INTERNAL, s1)
           else (case select_row io 0 (\<lambda>r. gr_hash r = hash \<and> gr_expires r > now) (ot_refresh s1) of
                   None \<Rightarrow> (Inl WF_ERR_PERMISSION, s1)
                 | Some r \<Rightarrow>
                     if gr_client r \<noteq> client \<or> gr_jkt r \<noteq> Some jkt then (Inl WF_ERR_PERMISSION, s1)
                     else if oi_sql io 1 = SQL_UNPREPARED then (Inl WF_ERR_INTERNAL, s1)
                     else if oi_sql io 1 = SQL_STEP_FAILS \<or>
                             length (filter (\<lambda>c. gr_hash c = hash) (ot_refresh s1)) \<noteq> 1
                     then (Inl WF_ERR_PERMISSION, s1)
                     else issue_grant lib io client (gr_scope r) jkt (gr_subject r)
                            (s1\<lparr>ot_refresh := filter (\<lambda>c. gr_hash c \<noteq> hash) (ot_refresh s1)\<rparr>)))"

definition metalbear_oauth_revoke ::
  "oauth_lib \<Rightarrow> oauth_io \<Rightarrow> string \<Rightarrow> oauth_store \<Rightarrow> wf_status \<times> oauth_store" where
  "metalbear_oauth_revoke lib io token s =
     (if oi_sql io 0 = SQL_RUNS
      then (WF_OK, s\<lparr>ot_refresh := filter (\<lambda>r. gr_hash r \<noteq> token_hash lib token) (ot_refresh s)\<rparr>)
      else (WF_ERR_INTERNAL, s))"

text \<open>
  What Wolfram verifies of an access token and its proof is the argument \<open>verify\<close>, the cache of
  proofs seen its state.
\<close>

record verified_token =
  vt_sub :: "string option"
  vt_iss :: "string option"
  vt_aud :: "string option"
  vt_scope :: "string option"
  vt_dpop_bound :: bool

definition metalbear_oauth_verify_request ::
  "(string list \<Rightarrow> 'c \<Rightarrow> (wf_status + verified_token) \<times> 'c) \<Rightarrow> oauth_store \<Rightarrow> 'c \<Rightarrow>
   (wf_status + verified_token) \<times> 'c" where
  "metalbear_oauth_verify_request verify s seen =
     (case verify (os_trusted s) seen of
        (Inl st, seen1) \<Rightarrow> (Inl st, seen1)
      | (Inr t, seen1) \<Rightarrow>
          if \<not> given (vt_sub t) \<or> vt_iss t \<noteq> Some (os_issuer s) \<or> vt_aud t \<noteq> Some (os_issuer s) \<or>
             (case vt_scope t of None \<Rightarrow> True | Some sc \<Rightarrow> \<not> occurs_in sc ''atproto'') \<or>
             \<not> vt_dpop_bound t
          then (Inl WF_ERR_PERMISSION, seen1)
          else (Inr t, seen1))"

section \<open>Device sessions\<close>

definition metalbear_oauth_device_session_create ::
  "oauth_lib \<Rightarrow> oauth_io \<Rightarrow> string \<Rightarrow> oauth_store \<Rightarrow> (wf_status + string) \<times> oauth_store" where
  "metalbear_oauth_device_session_create lib io subject s =
     (if subject = '''' then (Inl WF_ERR_INVALID_ARG, s)
      else (case random_value lib io 0 of
              Inl st \<Rightarrow> (Inl st, s)
            | Inr token \<Rightarrow>
                let hash = token_hash lib token;
                    expires = oi_clock io 0 + DEVICE_SESSION_LIFETIME;
                    s1 = prune io (oi_clock io 1) s
                in if oi_sql io 0 = SQL_RUNS \<and> (\<forall>r \<in> set (ot_device s1). dv_hash r \<noteq> hash)
                   then (Inr token, s1\<lparr>ot_device := ot_device s1 @
                           [\<lparr>dv_hash = hash, dv_subject = subject, dv_expires = expires\<rparr>]\<rparr>)
                   else (Inl WF_ERR_INTERNAL, s1)))"

text \<open>The subject goes into a buffer of \<open>out_len\<close> bytes; 0 is refused.\<close>

definition metalbear_oauth_device_session_verify ::
  "oauth_lib \<Rightarrow> oauth_io \<Rightarrow> string option \<Rightarrow> nat \<Rightarrow> oauth_store \<Rightarrow> wf_status + string" where
  "metalbear_oauth_device_session_verify lib io token out_len s =
     (if out_len = 0 then Inl WF_ERR_INVALID_ARG
      else if \<not> given token then Inl WF_ERR_NOT_FOUND
      else (case select_row io 0
                  (\<lambda>r. dv_hash r = token_hash lib (the token) \<and> dv_expires r > oi_clock io 0)
                  (ot_device s) of
              None \<Rightarrow> Inl WF_ERR_NOT_FOUND
            | Some r \<Rightarrow> Inr (snprintf_cut out_len (dv_subject r))))"

definition metalbear_oauth_device_session_revoke ::
  "oauth_lib \<Rightarrow> oauth_io \<Rightarrow> string option \<Rightarrow> oauth_store \<Rightarrow> wf_status \<times> oauth_store" where
  "metalbear_oauth_device_session_revoke lib io token s =
     (if \<not> given token then (WF_OK, s)
      else if oi_sql io 0 = SQL_RUNS
      then (WF_OK, s\<lparr>ot_device := filter (\<lambda>r. dv_hash r \<noteq> token_hash lib (the token)) (ot_device s)\<rparr>)
      else (WF_ERR_INTERNAL, s))"

text \<open>
  The listings: the rows in descending order of a time, rows of one time in the order of the table
  (SQL leaves it open). One row that cannot be printed fails the whole listing.
\<close>

fun list_devices :: "oauth_lib \<Rightarrow> device_row list \<Rightarrow> wf_status + (string \<times> int) list" where
  "list_devices lib [] = Inr []"
| "list_devices lib (r # rs) =
     (if dv_hash r = [] then Inl WF_ERR_INTERNAL
      else (case list_devices lib rs of
              Inl st \<Rightarrow> Inl st
            | Inr xs \<Rightarrow> Inr ((ol_b64 lib (dv_hash r), dv_expires r) # xs)))"

definition metalbear_oauth_device_session_list ::
  "oauth_lib \<Rightarrow> oauth_io \<Rightarrow> string \<Rightarrow> oauth_store \<Rightarrow> (wf_status + (string \<times> int) list) \<times> oauth_store" where
  "metalbear_oauth_device_session_list lib io subject s =
     (if subject = '''' then (Inl WF_ERR_INVALID_ARG, s)
      else
        let s1 = prune io (oi_clock io 0) s
        in (if oi_sql io 0 = SQL_UNPREPARED then Inl WF_ERR_INTERNAL
            else list_devices lib (rows_read io 0
                   (sort_key (\<lambda>r. - dv_expires r)
                     (filter (\<lambda>r. dv_subject r = subject \<and> dv_expires r > oi_clock io 1) (ot_device s1)))),
            s1))"

definition metalbear_oauth_device_session_revoke_by_id ::
  "oauth_lib \<Rightarrow> oauth_io \<Rightarrow> string \<Rightarrow> string \<Rightarrow> oauth_store \<Rightarrow> wf_status \<times> oauth_store" where
  "metalbear_oauth_device_session_revoke_by_id lib io subject session_id s =
     (if subject = '''' \<or> session_id = '''' then (WF_ERR_INVALID_ARG, s)
      else (case ol_unb64 lib session_id of
              None \<Rightarrow> (WF_ERR_INVALID_ARG, s)
            | Some hash \<Rightarrow>
                if oi_sql io 0 \<noteq> SQL_RUNS then (WF_ERR_INTERNAL, s)
                else
                  (if filter (\<lambda>r. dv_hash r = hash \<and> dv_subject r = subject) (ot_device s) \<noteq> []
                   then WF_OK else WF_ERR_NOT_FOUND,
                   s\<lparr>ot_device := filter (\<lambda>r. \<not> (dv_hash r = hash \<and> dv_subject r = subject)) (ot_device s)\<rparr>)))"

section \<open>Connected applications\<close>

text \<open>
  \<open>GROUP BY client_id\<close> with \<open>MAX(expires_at)\<close>: the other columns come from a row of the maximum, the
  first one here.
\<close>

definition latest :: "refresh_grant_row list \<Rightarrow> refresh_grant_row" where
  "latest rows = foldl (\<lambda>best r. if gr_expires r > gr_expires best then r else best) (hd rows) (tl rows)"

definition grouped_grants :: "string \<Rightarrow> int \<Rightarrow> refresh_grant_row list \<Rightarrow> refresh_grant_row list" where
  "grouped_grants subject now rows =
     (let mine = filter (\<lambda>r. gr_subject r = subject \<and> gr_expires r > now) rows
      in sort_key (\<lambda>r. - gr_expires r)
           (map (\<lambda>c. latest (filter (\<lambda>r. gr_client r = c) mine)) (remdups (map gr_client mine))))"

definition metalbear_oauth_grants_list ::
  "oauth_io \<Rightarrow> string \<Rightarrow> oauth_store \<Rightarrow> (wf_status + (string \<times> string \<times> int) list) \<times> oauth_store" where
  "metalbear_oauth_grants_list io subject s =
     (if subject = '''' then (Inl WF_ERR_INVALID_ARG, s)
      else
        let s1 = prune io (oi_clock io 0) s
        in (if oi_sql io 0 = SQL_UNPREPARED then Inl WF_ERR_INTERNAL
            else Inr (map (\<lambda>r. (gr_client r, gr_scope r, gr_expires r))
                   (rows_read io 0 (grouped_grants subject (oi_clock io 1) (ot_refresh s1)))),
            s1))"

definition metalbear_oauth_grants_revoke ::
  "oauth_io \<Rightarrow> string \<Rightarrow> string \<Rightarrow> oauth_store \<Rightarrow> wf_status \<times> oauth_store" where
  "metalbear_oauth_grants_revoke io subject client s =
     (if subject = '''' \<or> client = '''' then (WF_ERR_INVALID_ARG, s)
      else if oi_sql io 0 = SQL_RUNS
      then (WF_OK, s\<lparr>ot_refresh :=
              filter (\<lambda>r. \<not> (gr_subject r = subject \<and> gr_client r = client)) (ot_refresh s)\<rparr>)
      else (WF_ERR_INTERNAL, s))"

section \<open>Passkeys\<close>

definition metalbear_oauth_passkey_challenge_create ::
  "oauth_lib \<Rightarrow> oauth_io \<Rightarrow> ceremony \<Rightarrow> string \<Rightarrow> oauth_store \<Rightarrow> (wf_status + string) \<times> oauth_store" where
  "metalbear_oauth_passkey_challenge_create lib io kind subject s =
     (if subject = '''' then (Inl WF_ERR_INVALID_ARG, s)
      else (case random_value lib io 0 of
              Inl st \<Rightarrow> (Inl st, s)
            | Inr challenge \<Rightarrow>
                let expires = oi_clock io 0 + CHALLENGE_LIFETIME; s1 = prune io (oi_clock io 1) s
                in if oi_sql io 0 = SQL_RUNS \<and> (\<forall>r \<in> set (ot_challenge s1). ch_challenge r \<noteq> challenge)
                   then (Inr challenge, s1\<lparr>ot_challenge := ot_challenge s1 @
                           [\<lparr>ch_challenge = challenge, ch_ceremony = kind, ch_subject = subject,
                             ch_expires = expires\<rparr>]\<rparr>)
                   else (Inl WF_ERR_INTERNAL, s1)))"

text \<open>The outcome of the deletion is not looked at.\<close>

definition metalbear_oauth_passkey_challenge_consume ::
  "oauth_io \<Rightarrow> string option \<Rightarrow> ceremony \<Rightarrow> nat \<Rightarrow> oauth_store \<Rightarrow> (wf_status + string) \<times> oauth_store" where
  "metalbear_oauth_passkey_challenge_consume io challenge kind out_len s =
     (if out_len = 0 then (Inl WF_ERR_INVALID_ARG, s)
      else if \<not> given challenge then (Inl WF_ERR_NOT_FOUND, s)
      else (case select_row io 0
                  (\<lambda>r. ch_challenge r = the challenge \<and> ch_ceremony r = kind \<and> ch_expires r > oi_clock io 0)
                  (ot_challenge s) of
              None \<Rightarrow> (Inl WF_ERR_NOT_FOUND, s)
            | Some r \<Rightarrow>
                (Inr (snprintf_cut out_len (ch_subject r)),
                 if oi_sql io 1 = SQL_RUNS
                 then s\<lparr>ot_challenge := filter (\<lambda>c. ch_challenge c \<noteq> the challenge) (ot_challenge s)\<rparr>
                 else s)))"

definition metalbear_oauth_passkey_add ::
  "oauth_io \<Rightarrow> string \<Rightarrow> byte list \<Rightarrow> byte list \<Rightarrow> byte list \<Rightarrow> string option \<Rightarrow> oauth_store \<Rightarrow>
   wf_status \<times> oauth_store" where
  "metalbear_oauth_passkey_add io subject cred x y name s =
     (if subject = '''' \<or> cred = [] then (WF_ERR_INVALID_ARG, s)
      else if oi_sql io 0 \<noteq> SQL_RUNS then (WF_ERR_INTERNAL, s)
      else if \<exists>r \<in> set (ot_passkey s). pk_id r = cred then (WF_ERR_DUPLICATE, s)
      else (WF_OK, s\<lparr>ot_passkey := ot_passkey s @
              [\<lparr>pk_id = cred, pk_subject = subject, pk_x = take 32 x, pk_y = take 32 y, pk_count = 0,
                pk_name = (if given name then name else None), pk_created = oi_clock io 0,
                pk_used = None\<rparr>]\<rparr>))"

text \<open>The subject, the two coordinates and the counter, which is read as 32 bits.\<close>

definition metalbear_oauth_passkey_lookup ::
  "oauth_io \<Rightarrow> byte list \<Rightarrow> nat \<Rightarrow> oauth_store \<Rightarrow> wf_status + string \<times> byte list \<times> byte list \<times> 32 word" where
  "metalbear_oauth_passkey_lookup io cred out_len s =
     (if cred = [] \<or> out_len = 0 then Inl WF_ERR_INVALID_ARG
      else (case select_row io 0 (\<lambda>r. pk_id r = cred) (ot_passkey s) of
              None \<Rightarrow> Inl WF_ERR_NOT_FOUND
            | Some r \<Rightarrow>
                if length (pk_x r) = 32 \<and> length (pk_y r) = 32
                then Inr (snprintf_cut out_len (pk_subject r), pk_x r, pk_y r, word_of_int (pk_count r))
                else Inl WF_ERR_NOT_FOUND))"

definition metalbear_oauth_passkey_touch ::
  "oauth_io \<Rightarrow> byte list \<Rightarrow> 32 word \<Rightarrow> oauth_store \<Rightarrow> wf_status \<times> oauth_store" where
  "metalbear_oauth_passkey_touch io cred count s =
     (if cred = [] then (WF_ERR_INVALID_ARG, s)
      else if oi_sql io 0 \<noteq> SQL_RUNS then (WF_ERR_INTERNAL, s)
      else (WF_OK, s\<lparr>ot_passkey :=
              map (\<lambda>r. if pk_id r = cred
                       then r\<lparr>pk_count := uint count, pk_used := Some (oi_clock io 0)\<rparr> else r)
                (ot_passkey s)\<rparr>))"

text \<open>The id, the name, when it was made and when it was last used, 0 for never.\<close>

fun list_passkeys :: "oauth_lib \<Rightarrow> passkey_row list \<Rightarrow> wf_status + (string \<times> string option \<times> int \<times> int) list" where
  "list_passkeys lib [] = Inr []"
| "list_passkeys lib (r # rs) =
     (if pk_id r = [] then Inl WF_ERR_INTERNAL
      else (case list_passkeys lib rs of
              Inl st \<Rightarrow> Inl st
            | Inr xs \<Rightarrow>
                Inr ((ol_b64 lib (pk_id r), pk_name r, pk_created r,
                      case pk_used r of None \<Rightarrow> 0 | Some t \<Rightarrow> t) # xs)))"

definition metalbear_oauth_passkey_list ::
  "oauth_lib \<Rightarrow> oauth_io \<Rightarrow> string \<Rightarrow> oauth_store \<Rightarrow>
   wf_status + (string \<times> string option \<times> int \<times> int) list" where
  "metalbear_oauth_passkey_list lib io subject s =
     (if subject = '''' then Inl WF_ERR_INVALID_ARG
      else if oi_sql io 0 = SQL_UNPREPARED then Inl WF_ERR_INTERNAL
      else list_passkeys lib (rows_read io 0
             (sort_key (\<lambda>r. - pk_created r) (filter (\<lambda>r. pk_subject r = subject) (ot_passkey s)))))"

definition metalbear_oauth_passkey_remove ::
  "oauth_lib \<Rightarrow> oauth_io \<Rightarrow> string \<Rightarrow> string \<Rightarrow> oauth_store \<Rightarrow> wf_status \<times> oauth_store" where
  "metalbear_oauth_passkey_remove lib io subject id_text s =
     (if subject = '''' \<or> id_text = '''' then (WF_ERR_INVALID_ARG, s)
      else (case ol_unb64 lib id_text of
              None \<Rightarrow> (WF_ERR_INVALID_ARG, s)
            | Some cred \<Rightarrow>
                if oi_sql io 0 \<noteq> SQL_RUNS then (WF_ERR_INTERNAL, s)
                else
                  (if filter (\<lambda>r. pk_id r = cred \<and> pk_subject r = subject) (ot_passkey s) \<noteq> []
                   then WF_OK else WF_ERR_NOT_FOUND,
                   s\<lparr>ot_passkey := filter (\<lambda>r. \<not> (pk_id r = cred \<and> pk_subject r = subject)) (ot_passkey s)\<rparr>)))"

definition metalbear_oauth_passkey_exists ::
  "oauth_io \<Rightarrow> string \<Rightarrow> oauth_store \<Rightarrow> wf_status + bool" where
  "metalbear_oauth_passkey_exists io subject s =
     (if subject = '''' then Inl WF_ERR_INVALID_ARG
      else if oi_sql io 0 = SQL_UNPREPARED then Inl WF_ERR_INTERNAL
      else Inr (select_row io 0 (\<lambda>r. pk_subject r = subject) (ot_passkey s) \<noteq> None))"

end
