(* ===== verification/Oauth_Chain.thy ===== *)
theory Oauth_Chain
  imports Oauth_Store "HOL-Library.Multiset"
begin

text \<open>
  What the calls of \<open>src/oauth/oauth.c\<close> promise over any sequence of them: every token was consented
  to, every code and refresh token is spent at most as often as it was issued, and a refresh token
  once spent or revoked stays dead. A run is a sequence of calls with the events that report what
  succeeded.
\<close>

section \<open>Calls and events\<close>

datatype oauth_call =
    Call_par oauth_request
  | Call_authorize string string string
  | Call_exchange string string string string string
  | Call_refresh string string string
  | Call_revoke string
  | Call_grants_list string
  | Call_grants_revoke string string
  | Call_device_create string
  | Call_device_revoke "string option"
  | Call_device_list string
  | Call_device_revoke_by_id string string
  | Call_challenge_create ceremony string
  | Call_challenge_consume "string option" ceremony nat
  | Call_passkey_add string "byte list" "byte list" "byte list" "string option"
  | Call_passkey_touch "byte list" "32 word"
  | Call_passkey_remove string string

text \<open>
  A request pushed, under its URI; a code issued for a URI, a client and a subject; the grant for a
  code, and the one for a refresh token; each with the time of its call.
\<close>

datatype oauth_event =
    EvPar string oauth_request int
  | EvCode string string string string int
  | EvGrant string string string string string oauth_grant int
  | EvRefresh string string string oauth_grant int

definition event_of :: "('a \<Rightarrow> oauth_event) \<Rightarrow> (wf_status + 'a) \<times> oauth_store \<Rightarrow> oauth_event list \<times> oauth_store" where
  "event_of f r = (case r of (Inl st, s) \<Rightarrow> ([], s) | (Inr x, s) \<Rightarrow> ([f x], s))"

fun oauth_call_run :: "oauth_lib \<Rightarrow> oauth_io \<Rightarrow> oauth_call \<Rightarrow> oauth_store \<Rightarrow> oauth_event list \<times> oauth_store" where
  "oauth_call_run lib io (Call_par req) s =
     event_of (\<lambda>(uri, expires). EvPar uri req (oi_clock io 0)) (metalbear_oauth_create_par lib io req s)"
| "oauth_call_run lib io (Call_authorize uri client subject) s =
     event_of (\<lambda>(code, redirect, st). EvCode code uri client subject (oi_clock io 0))
       (metalbear_oauth_authorize lib io uri client subject s)"
| "oauth_call_run lib io (Call_exchange code client redirect verifier jkt) s =
     event_of (\<lambda>g. EvGrant code client redirect verifier jkt g (oi_clock io 0))
       (metalbear_oauth_exchange_code lib io code client redirect verifier jkt s)"
| "oauth_call_run lib io (Call_refresh token client jkt) s =
     event_of (\<lambda>g. EvRefresh token client jkt g (oi_clock io 0))
       (metalbear_oauth_refresh lib io token client jkt s)"
| "oauth_call_run lib io (Call_revoke token) s = ([], snd (metalbear_oauth_revoke lib io token s))"
| "oauth_call_run lib io (Call_grants_list subject) s = ([], snd (metalbear_oauth_grants_list io subject s))"
| "oauth_call_run lib io (Call_grants_revoke subject client) s =
     ([], snd (metalbear_oauth_grants_revoke io subject client s))"
| "oauth_call_run lib io (Call_device_create subject) s =
     ([], snd (metalbear_oauth_device_session_create lib io subject s))"
| "oauth_call_run lib io (Call_device_revoke token) s =
     ([], snd (metalbear_oauth_device_session_revoke lib io token s))"
| "oauth_call_run lib io (Call_device_list subject) s =
     ([], snd (metalbear_oauth_device_session_list lib io subject s))"
| "oauth_call_run lib io (Call_device_revoke_by_id subject sid) s =
     ([], snd (metalbear_oauth_device_session_revoke_by_id lib io subject sid s))"
| "oauth_call_run lib io (Call_challenge_create kind subject) s =
     ([], snd (metalbear_oauth_passkey_challenge_create lib io kind subject s))"
| "oauth_call_run lib io (Call_challenge_consume ch kind n) s =
     ([], snd (metalbear_oauth_passkey_challenge_consume io ch kind n s))"
| "oauth_call_run lib io (Call_passkey_add subject cred x y name) s =
     ([], snd (metalbear_oauth_passkey_add io subject cred x y name s))"
| "oauth_call_run lib io (Call_passkey_touch cred n) s =
     ([], snd (metalbear_oauth_passkey_touch io cred n s))"
| "oauth_call_run lib io (Call_passkey_remove subject id_text) s =
     ([], snd (metalbear_oauth_passkey_remove lib io subject id_text s))"

text \<open>The state of a run: what has been reported, and the store.\<close>

inductive oauth_step :: "oauth_lib \<Rightarrow> oauth_event list \<times> oauth_store \<Rightarrow> oauth_event list \<times> oauth_store \<Rightarrow> bool"
  for lib :: oauth_lib where
  oauth_call: "oauth_call_run lib io c s = (new, t) \<Longrightarrow> oauth_step lib (es, s) (es @ new, t)"

inductive_cases oauth_stepE: "oauth_step lib p q"

text \<open>The same as a function of the list of calls.\<close>

fun oauth_calls ::
  "oauth_lib \<Rightarrow> (oauth_io \<times> oauth_call) list \<Rightarrow> oauth_event list \<times> oauth_store \<Rightarrow> oauth_event list \<times> oauth_store" where
  "oauth_calls lib [] p = p"
| "oauth_calls lib ((io, c) # cs) p =
     oauth_calls lib cs (case oauth_call_run lib io c (snd p) of (new, t) \<Rightarrow> (fst p @ new, t))"

lemma oauth_calls_reach: "(oauth_step lib)\<^sup>*\<^sup>* p (oauth_calls lib cs p)"
proof (induction cs arbitrary: p)
  case (Cons x cs)
  obtain io c where x: "x = (io, c)" by force
  obtain new t where run: "oauth_call_run lib io c (snd p) = (new, t)" by force
  have "oauth_step lib p (fst p @ new, t)"
    using oauth_call [OF run, of "fst p"] by simp
  then show ?case using Cons [of "(fst p @ new, t)"] by (simp add: x run)
qed simp

definition fresh_oauth :: "string \<Rightarrow> byte list \<Rightarrow> oauth_event list \<times> oauth_store \<Rightarrow> bool" where
  "fresh_oauth issuer k p \<longleftrightarrow>
     fst p = [] \<and> ot_par (snd p) = [] \<and> ot_code (snd p) = [] \<and> ot_refresh (snd p) = [] \<and>
     os_issuer (snd p) = issuer \<and> os_key (snd p) = k"

section \<open>How the calls change the tables\<close>

text \<open>Nothing is added to the three tables of the grant flow.\<close>

definition shrinks :: "oauth_store \<Rightarrow> oauth_store \<Rightarrow> bool" where
  "shrinks s t \<longleftrightarrow>
     mset (ot_par t) \<subseteq># mset (ot_par s) \<and> mset (ot_code t) \<subseteq># mset (ot_code s) \<and>
     mset (ot_refresh t) \<subseteq># mset (ot_refresh s) \<and> os_issuer t = os_issuer s \<and> os_key t = os_key s"

lemma shrinks_refl [simp]: "shrinks s s" by (simp add: shrinks_def)

lemma shrinks_trans: "shrinks s t \<Longrightarrow> shrinks t u \<Longrightarrow> shrinks s u"
  unfolding shrinks_def by (auto elim: subset_mset.order_trans)

lemma unexpired_subset [simp]: "mset (unexpired ok now f rows) \<subseteq># mset rows"
  by (simp add: unexpired_def)

lemma shrinks_prune [simp]: "shrinks s (prune io now s)"
  by (simp add: shrinks_def prune_def)

lemma prune_fields [simp]:
  "os_issuer (prune io now s) = os_issuer s" "os_key (prune io now s) = os_key s"
  "ot_passkey (prune io now s) = ot_passkey s"
  by (simp_all add: prune_def)

definition tally :: "('a \<Rightarrow> bool) \<Rightarrow> 'a list \<Rightarrow> nat" where
  "tally P xs = length (filter P xs)"

lemma tally_append [simp]: "tally P (xs @ ys) = tally P xs + tally P ys"
  by (simp add: tally_def)

lemma tally_nil [simp]: "tally P [] = 0" by (simp add: tally_def)

lemma tally_one [simp]: "tally P [x] = (if P x then 1 else 0)" by (simp add: tally_def)

lemma tally_mono: "mset xs \<subseteq># mset ys \<Longrightarrow> tally P xs \<le> tally P ys"
  unfolding tally_def by (metis multiset_filter_mono mset_filter size_mset size_mset_mono)

lemma tally_out: "tally P (filter (\<lambda>x. \<not> Q x) xs) + tally (\<lambda>x. P x \<and> Q x) xs = tally P xs"
  by (induction xs) (auto simp: tally_def)

text \<open>The calls outside the grant flow, and the failed ones, only shrink its tables.\<close>

lemma take_par_result:
  "take_par io r h subject now s = (st, t) \<Longrightarrow>
   (st \<noteq> WF_OK \<and> t = s) \<or>
   (st = WF_OK \<and> t = s\<lparr>ot_par := filter (\<lambda>p. pr_uri p \<noteq> pr_uri r) (ot_par s),
      ot_code := ot_code s @ [\<lparr>cr_hash = h, cr_client = pr_client r, cr_redirect = pr_redirect r,
        cr_scope = pr_scope r, cr_challenge = pr_challenge r, cr_jkt = pr_jkt r,
        cr_subject = subject, cr_expires = now + CODE_LIFETIME\<rparr>]\<rparr>)"
  by (auto simp: take_par_def split: if_splits)

lemma select_row_SomeD: "select_row io i P rows = Some r \<Longrightarrow> r \<in> set rows \<and> P r"
  by (auto simp: select_row_def dest: find_SomeD split: if_splits)

lemma authorize_result:
  assumes "metalbear_oauth_authorize lib io uri client subject s = (res, t)"
  shows "(\<exists>st. res = Inl st \<and> shrinks s t) \<or>
    (\<exists>code r. res = Inr (code, pr_redirect r, pr_state r) \<and>
       r \<in> set (ot_par (prune io (oi_clock io 0) s)) \<and> pr_uri r = uri \<and>
       pr_expires r > oi_clock io 0 \<and> pr_client r = client \<and>
       take_par io r (token_hash lib code) subject (oi_clock io 0) (prune io (oi_clock io 0) s) = (WF_OK, t))"
proof (cases "random_value lib io 0")
  case (Inl st)
  then show ?thesis using assms by (auto simp: metalbear_oauth_authorize_def)
next
  case (Inr code)
  let ?s1 = "prune io (oi_clock io 0) s"
  show ?thesis
  proof (cases "select_row io 0 (\<lambda>r. pr_uri r = uri \<and> pr_expires r > oi_clock io 0) (ot_par ?s1)")
    case None
    then show ?thesis
      using assms Inr by (auto simp: metalbear_oauth_authorize_def Let_def split: if_splits)
  next
    case (Some r)
    note row = select_row_SomeD [OF Some]
    obtain st t' where tp: "take_par io r (token_hash lib code) subject (oi_clock io 0) ?s1 = (st, t')" by force
    show ?thesis
      using assms Inr Some row tp take_par_result [OF tp]
      by (auto simp: metalbear_oauth_authorize_def Let_def split: if_splits)
  qed
qed

lemma create_par_result:
  assumes "metalbear_oauth_create_par lib io req s = (res, t)"
  shows "(\<exists>st. res = Inl st \<and> shrinks s t) \<or>
    (\<exists>uri r. res = Inr (uri, PAR_LIFETIME) \<and> valid_request req \<and>
       t = (prune io (oi_clock io 0) s)\<lparr>ot_par := ot_par (prune io (oi_clock io 0) s) @ [r]\<rparr> \<and>
       r = \<lparr>pr_uri = uri, pr_client = the (oq_client_id req), pr_redirect = the (oq_redirect_uri req),
            pr_scope = the (oq_scope req), pr_state = oq_state req,
            pr_challenge = the (oq_code_challenge req), pr_jkt = oq_dpop_jkt req,
            pr_expires = oi_clock io 0 + PAR_LIFETIME\<rparr>)"
  using assms by (auto simp: metalbear_oauth_create_par_def Let_def split: if_splits sum.splits)

text \<open>What an access token says, and that the host's key signed it.\<close>

definition speaks_for ::
  "oauth_lib \<Rightarrow> string \<Rightarrow> byte list \<Rightarrow> string \<Rightarrow> string \<Rightarrow> string \<Rightarrow> string \<Rightarrow> string \<Rightarrow> bool" where
  "speaks_for lib issuer k token client scope jkt subject \<longleftrightarrow>
     (\<exists>jti iat expires signature input.
        input = jwt_part lib access_header @ ''.'' @
          jwt_part lib (access_payload issuer client scope jkt subject jti iat expires) \<and>
        ol_sign lib k input = Some signature \<and> token = input @ ''.'' @ ol_b64 lib signature)"

lemma access_jwt_speaks:
  "create_access_jwt lib io s client scope jkt subject expires = Some token \<Longrightarrow>
   speaks_for lib (os_issuer s) (os_key s) token client scope jkt subject"
  by (fastforce simp: create_access_jwt_def speaks_for_def Let_def split: sum.splits option.splits)

definition grant_row :: "oauth_lib \<Rightarrow> oauth_grant \<Rightarrow> string \<Rightarrow> string \<Rightarrow> string \<Rightarrow> string \<Rightarrow> int \<Rightarrow> refresh_grant_row" where
  "grant_row lib g client scope jkt subject expires =
     \<lparr>gr_hash = token_hash lib (og_refresh_token g), gr_client = client, gr_scope = scope,
      gr_jkt = Some jkt, gr_subject = subject, gr_expires = expires\<rparr>"

lemma grant_row_fields [simp]:
  "gr_hash (grant_row lib g client scope jkt subject expires) = token_hash lib (og_refresh_token g)"
  "gr_client (grant_row lib g client scope jkt subject expires) = client"
  "gr_scope (grant_row lib g client scope jkt subject expires) = scope"
  "gr_jkt (grant_row lib g client scope jkt subject expires) = Some jkt"
  "gr_subject (grant_row lib g client scope jkt subject expires) = subject"
  "gr_expires (grant_row lib g client scope jkt subject expires) = expires"
  by (simp_all add: grant_row_def)

lemma issue_grant_result:
  assumes "issue_grant lib io client scope jkt subject s = (res, t)"
  shows "(\<exists>st. res = Inl st \<and> t = s) \<or>
    (\<exists>g. res = Inr g \<and> speaks_for lib (os_issuer s) (os_key s) (og_access_token g) client scope jkt subject \<and>
       t = s\<lparr>ot_refresh := ot_refresh s @
         [grant_row lib g client scope jkt subject (oi_clock io 1 + OAUTH_REFRESH_LIFETIME)]\<rparr>)"
proof (cases "create_access_jwt lib io s client scope jkt subject (oi_clock io 1 + OAUTH_ACCESS_LIFETIME)")
  case None
  then show ?thesis using assms by (auto simp: issue_grant_def)
next
  case (Some access)
  then show ?thesis
    using assms access_jwt_speaks [OF Some]
    by (auto simp: issue_grant_def oauth_persist_refresh_def Let_def grant_row_def split: sum.splits if_splits)
qed

lemma exchange_result:
  assumes "metalbear_oauth_exchange_code lib io code client redirect verifier jkt s = (res, t)"
  shows "(\<exists>st. res = Inl st \<and> shrinks s t) \<or>
    (\<exists>g r. res = Inr g \<and> ol_pkce lib verifier = Inr (cr_challenge r) \<and>
       r \<in> set (ot_code (prune io (oi_clock io 0) s)) \<and> cr_hash r = token_hash lib code \<and>
       cr_expires r > oi_clock io 0 \<and> cr_client r = client \<and> cr_redirect r = redirect \<and> cr_jkt r = Some jkt \<and>
       issue_grant lib io client (cr_scope r) jkt (cr_subject r)
         ((prune io (oi_clock io 0) s)\<lparr>ot_code :=
            filter (\<lambda>c. cr_hash c \<noteq> cr_hash r) (ot_code (prune io (oi_clock io 0) s))\<rparr>) = (Inr g, t))"
proof (cases "jkt = ''''")
  case False
  let ?s1 = "prune io (oi_clock io 0) s" and ?h = "token_hash lib code"
  let ?s2 = "?s1\<lparr>ot_code := filter (\<lambda>c. cr_hash c \<noteq> ?h) (ot_code ?s1)\<rparr>"
  have sh: "shrinks s ?s2" by (rule shrinks_trans [OF shrinks_prune [of s io "oi_clock io 0"]]) (simp add: shrinks_def)
  have fails: ?thesis if "res = Inl st" "t = ?s1" for st using that by simp
  show ?thesis
  proof (cases "ol_pkce lib verifier")
    case (Inl st)
    then show ?thesis using assms False by (auto simp: metalbear_oauth_exchange_code_def Let_def)
  next
    case (Inr challenge)
    show ?thesis
    proof (cases "select_row io 0 (\<lambda>r. cr_hash r = ?h \<and> cr_expires r > oi_clock io 0) (ot_code ?s1)")
      case None
      then show ?thesis
        using assms False Inr fails by (auto simp: metalbear_oauth_exchange_code_def Let_def split: if_splits)
    next
      case (Some r)
      note row = select_row_SomeD [OF Some]
      obtain res' t' where ig: "issue_grant lib io client (cr_scope r) jkt (cr_subject r) ?s2 = (res', t')" by force
      show ?thesis
        using assms False Inr Some row ig issue_grant_result [OF ig] sh fails
        by (auto simp: metalbear_oauth_exchange_code_def Let_def split: if_splits)
    qed
  qed
qed (use assms in \<open>auto simp: metalbear_oauth_exchange_code_def\<close>)

lemma refresh_result:
  assumes "metalbear_oauth_refresh lib io token client jkt s = (res, t)"
  shows "(\<exists>st. res = Inl st \<and> shrinks s t) \<or>
    (\<exists>g r. res = Inr g \<and> r \<in> set (ot_refresh (prune io (oi_clock io 0) s)) \<and>
       gr_hash r = token_hash lib token \<and> gr_expires r > oi_clock io 0 \<and>
       gr_client r = client \<and> gr_jkt r = Some jkt \<and>
       issue_grant lib io client (gr_scope r) jkt (gr_subject r)
         ((prune io (oi_clock io 0) s)\<lparr>ot_refresh :=
            filter (\<lambda>c. gr_hash c \<noteq> gr_hash r) (ot_refresh (prune io (oi_clock io 0) s))\<rparr>) = (Inr g, t))"
proof (cases "jkt = ''''")
  case False
  let ?s1 = "prune io (oi_clock io 0) s" and ?h = "token_hash lib token"
  let ?s2 = "?s1\<lparr>ot_refresh := filter (\<lambda>c. gr_hash c \<noteq> ?h) (ot_refresh ?s1)\<rparr>"
  have sh: "shrinks s ?s2" by (rule shrinks_trans [OF shrinks_prune [of s io "oi_clock io 0"]]) (simp add: shrinks_def)
  show ?thesis
  proof (cases "select_row io 0 (\<lambda>r. gr_hash r = ?h \<and> gr_expires r > oi_clock io 0) (ot_refresh ?s1)")
    case None
    then show ?thesis
      using assms False by (auto simp: metalbear_oauth_refresh_def Let_def split: if_splits)
  next
    case (Some r)
    note row = select_row_SomeD [OF Some]
    obtain res' t' where ig: "issue_grant lib io client (gr_scope r) jkt (gr_subject r) ?s2 = (res', t')" by force
    show ?thesis
      using assms False Some row ig issue_grant_result [OF ig] sh
      by (auto simp: metalbear_oauth_refresh_def Let_def split: if_splits)
  qed
qed (use assms in \<open>auto simp: metalbear_oauth_refresh_def\<close>)

lemma exchange_ok:
  assumes "metalbear_oauth_exchange_code lib io code client redirect verifier jkt s = (Inr g, t)"
  obtains r where "r \<in> set (ot_code (prune io (oi_clock io 0) s))" "cr_hash r = token_hash lib code"
    "issue_grant lib io client (cr_scope r) jkt (cr_subject r)
       ((prune io (oi_clock io 0) s)\<lparr>ot_code :=
          filter (\<lambda>c. cr_hash c \<noteq> cr_hash r) (ot_code (prune io (oi_clock io 0) s))\<rparr>) = (Inr g, t)"
  using exchange_result [OF assms] that by blast

lemma refresh_ok:
  assumes "metalbear_oauth_refresh lib io token client jkt s = (Inr g, t)"
  obtains r where "r \<in> set (ot_refresh (prune io (oi_clock io 0) s))" "gr_hash r = token_hash lib token"
    "issue_grant lib io client (gr_scope r) jkt (gr_subject r)
       ((prune io (oi_clock io 0) s)\<lparr>ot_refresh :=
          filter (\<lambda>c. gr_hash c \<noteq> gr_hash r) (ot_refresh (prune io (oi_clock io 0) s))\<rparr>) = (Inr g, t)"
  using refresh_result [OF assms] that by blast

lemma other_calls_shrink:
  "shrinks s (snd (metalbear_oauth_revoke lib io token s))"
  "shrinks s (snd (metalbear_oauth_grants_list io subject s))"
  "shrinks s (snd (metalbear_oauth_grants_revoke io subject client s))"
  "shrinks s (snd (metalbear_oauth_device_session_create lib io subject s))"
  "shrinks s (snd (metalbear_oauth_device_session_revoke lib io tok s))"
  "shrinks s (snd (metalbear_oauth_device_session_list lib io subject s))"
  "shrinks s (snd (metalbear_oauth_device_session_revoke_by_id lib io subject sid s))"
  "shrinks s (snd (metalbear_oauth_passkey_challenge_create lib io kind subject s))"
  "shrinks s (snd (metalbear_oauth_passkey_challenge_consume io ch kind n s))"
  "shrinks s (snd (metalbear_oauth_passkey_add io subject cred x y name s))"
  "shrinks s (snd (metalbear_oauth_passkey_touch io cred cnt s))"
  "shrinks s (snd (metalbear_oauth_passkey_remove lib io subject sid s))"
  using shrinks_prune [of s io "oi_clock io 0"] shrinks_prune [of s io "oi_clock io 1"]
  by (auto simp: metalbear_oauth_revoke_def metalbear_oauth_grants_list_def metalbear_oauth_grants_revoke_def
      metalbear_oauth_device_session_create_def metalbear_oauth_device_session_revoke_def
      metalbear_oauth_device_session_list_def metalbear_oauth_device_session_revoke_by_id_def
      metalbear_oauth_passkey_challenge_create_def metalbear_oauth_passkey_challenge_consume_def
      metalbear_oauth_passkey_add_def metalbear_oauth_passkey_touch_def metalbear_oauth_passkey_remove_def
      Let_def shrinks_def split: sum.splits option.splits)

text \<open>A step that reports nothing shrinks; the others are the four results above.\<close>

lemma call_cases:
  assumes "oauth_call_run lib io c s = (new, t)"
  obtains (quiet) "new = []" "shrinks s t"
  | (par) req where "c = Call_par req" "new \<noteq> []"
  | (code) uri client subject where "c = Call_authorize uri client subject" "new \<noteq> []"
  | (grant) code client redirect verifier jkt where
      "c = Call_exchange code client redirect verifier jkt" "new \<noteq> []"
  | (rotate) token client jkt where "c = Call_refresh token client jkt" "new \<noteq> []"
proof -
  have "new = [] \<Longrightarrow> shrinks s t"
    using assms other_calls_shrink
    by (cases c)
      (auto simp: event_of_def split: sum.splits prod.splits
        dest!: create_par_result authorize_result exchange_result refresh_result)
  moreover have "new \<noteq> [] \<Longrightarrow> (\<exists>req. c = Call_par req) \<or> (\<exists>uri client subject. c = Call_authorize uri client subject) \<or>
      (\<exists>code client redirect verifier jkt. c = Call_exchange code client redirect verifier jkt) \<or>
      (\<exists>token client jkt. c = Call_refresh token client jkt)"
    using assms by (cases c) auto
  ultimately show ?thesis using that by (cases "new = []") auto
qed

section \<open>Every token was consented to\<close>

text \<open>
  Among the events: a valid request of the client was pushed, and within its lifetime the subject
  let a code be issued for it.
\<close>

definition consent ::
  "oauth_lib \<Rightarrow> oauth_event list \<Rightarrow> string \<Rightarrow> string \<Rightarrow> string \<Rightarrow> string \<Rightarrow> string \<Rightarrow> string \<Rightarrow> int \<Rightarrow> byte list \<Rightarrow> bool" where
  "consent lib es client scope jkt subject redirect challenge issued hash \<longleftrightarrow>
     (\<exists>uri req pushed code.
        EvPar uri req pushed \<in> set es \<and> valid_request req \<and> oq_client_id req = Some client \<and>
        oq_redirect_uri req = Some redirect \<and> oq_scope req = Some scope \<and>
        oq_code_challenge req = Some challenge \<and> oq_dpop_jkt req = Some jkt \<and>
        EvCode code uri client subject issued \<in> set es \<and> token_hash lib code = hash \<and>
        issued < pushed + PAR_LIFETIME)"

lemma consent_mono: "consent lib es c sc j sub r ch i h \<Longrightarrow> set es \<subseteq> set es' \<Longrightarrow> consent lib es' c sc j sub r ch i h"
  unfolding consent_def by blast

definition par_origin :: "oauth_event list \<Rightarrow> par_row \<Rightarrow> bool" where
  "par_origin es r \<longleftrightarrow>
     (\<exists>req pushed. EvPar (pr_uri r) req pushed \<in> set es \<and> valid_request req \<and>
        oq_client_id req = Some (pr_client r) \<and> oq_redirect_uri req = Some (pr_redirect r) \<and>
        oq_scope req = Some (pr_scope r) \<and> oq_code_challenge req = Some (pr_challenge r) \<and>
        oq_dpop_jkt req = pr_jkt r \<and> pr_expires r = pushed + PAR_LIFETIME)"

definition code_origin :: "oauth_lib \<Rightarrow> oauth_event list \<Rightarrow> code_row \<Rightarrow> bool" where
  "code_origin lib es r \<longleftrightarrow>
     (\<exists>jkt issued. cr_jkt r = Some jkt \<and> cr_expires r = issued + CODE_LIFETIME \<and>
        consent lib es (cr_client r) (cr_scope r) jkt (cr_subject r) (cr_redirect r) (cr_challenge r) issued (cr_hash r))"

definition refresh_origin :: "oauth_lib \<Rightarrow> oauth_event list \<Rightarrow> refresh_grant_row \<Rightarrow> bool" where
  "refresh_origin lib es r \<longleftrightarrow>
     (\<exists>jkt redirect challenge issued hash. gr_jkt r = Some jkt \<and>
        consent lib es (gr_client r) (gr_scope r) jkt (gr_subject r) redirect challenge issued hash)"

definition origins :: "oauth_lib \<Rightarrow> oauth_event list \<Rightarrow> oauth_store \<Rightarrow> bool" where
  "origins lib es s \<longleftrightarrow>
     (\<forall>r \<in> set (ot_par s). par_origin es r) \<and> (\<forall>r \<in> set (ot_code s). code_origin lib es r) \<and>
     (\<forall>r \<in> set (ot_refresh s). refresh_origin lib es r)"

text \<open>What a grant rests on, among the events before it.\<close>

fun justified :: "oauth_lib \<Rightarrow> string \<Rightarrow> byte list \<Rightarrow> oauth_event list \<Rightarrow> oauth_event \<Rightarrow> bool" where
  "justified lib issuer k es (EvGrant code client redirect verifier jkt g now) \<longleftrightarrow>
     (\<exists>scope subject challenge issued.
        ol_pkce lib verifier = Inr challenge \<and> now < issued + CODE_LIFETIME \<and>
        consent lib es client scope jkt subject redirect challenge issued (token_hash lib code) \<and>
        speaks_for lib issuer k (og_access_token g) client scope jkt subject)"
| "justified lib issuer k es (EvRefresh token client jkt g now) \<longleftrightarrow>
     (\<exists>scope subject redirect challenge issued hash.
        consent lib es client scope jkt subject redirect challenge issued hash \<and>
        speaks_for lib issuer k (og_access_token g) client scope jkt subject)"
| "justified lib issuer k es e \<longleftrightarrow> True"

lemma origins_shrink:
  assumes "origins lib es s" and "shrinks s t" and "set es \<subseteq> set es'"
  shows "origins lib es' t"
proof -
  have "par_origin es r \<Longrightarrow> par_origin es' r" for r using assms(3) unfolding par_origin_def by blast
  moreover have "code_origin lib es r \<Longrightarrow> code_origin lib es' r" for r
    using consent_mono [OF _ assms(3)] unfolding code_origin_def by blast
  moreover have "refresh_origin lib es r \<Longrightarrow> refresh_origin lib es' r" for r
    using consent_mono [OF _ assms(3)] unfolding refresh_origin_def by blast
  moreover have "set (ot_par t) \<subseteq> set (ot_par s)" "set (ot_code t) \<subseteq> set (ot_code s)"
      "set (ot_refresh t) \<subseteq> set (ot_refresh s)"
    using assms(2) unfolding shrinks_def by (metis set_mset_mono set_mset_mset)+
  ultimately show ?thesis using assms(1) unfolding origins_def by blast
qed

definition all_justified :: "oauth_lib \<Rightarrow> string \<Rightarrow> byte list \<Rightarrow> oauth_event list \<Rightarrow> bool" where
  "all_justified lib issuer k es \<longleftrightarrow> (\<forall>i < length es. justified lib issuer k (take i es) (es ! i))"

lemma all_justified_snoc:
  "all_justified lib issuer k es \<Longrightarrow> justified lib issuer k es e \<Longrightarrow> all_justified lib issuer k (es @ [e])"
  unfolding all_justified_def by (auto simp: nth_append less_Suc_eq)

lemma all_justified_split: "all_justified lib issuer k (es1 @ e # es2) \<Longrightarrow> justified lib issuer k es1 e"
  unfolding all_justified_def by (drule spec [of _ "length es1"]) simp

definition chain_inv :: "oauth_lib \<Rightarrow> string \<Rightarrow> byte list \<Rightarrow> oauth_event list \<times> oauth_store \<Rightarrow> bool" where
  "chain_inv lib issuer k p \<longleftrightarrow>
     os_issuer (snd p) = issuer \<and> os_key (snd p) = k \<and> origins lib (fst p) (snd p) \<and>
     all_justified lib issuer k (fst p)"

lemma valid_request_given:
  "valid_request req \<Longrightarrow>
   oq_client_id req = Some (the (oq_client_id req)) \<and> oq_redirect_uri req = Some (the (oq_redirect_uri req)) \<and>
   oq_scope req = Some (the (oq_scope req)) \<and> oq_code_challenge req = Some (the (oq_code_challenge req)) \<and>
   oq_dpop_jkt req = Some (the (oq_dpop_jkt req)) \<and> has_atproto (the (oq_scope req))"
  by (auto simp: valid_request_def given_def of_length_def split: option.splits if_splits)

lemma origins_prune: "origins lib es s \<Longrightarrow> origins lib es (prune io now s)"
  by (rule origins_shrink [OF _ shrinks_prune subset_refl])

lemma chain_par:
  assumes "metalbear_oauth_create_par lib io req s = (Inr (uri, n), t)" and "origins lib es s"
  shows "origins lib (es @ [EvPar uri req (oi_clock io 0)]) t \<and> os_issuer t = os_issuer s \<and> os_key t = os_key s"
proof -
  let ?es = "es @ [EvPar uri req (oi_clock io 0)]" and ?s1 = "prune io (oi_clock io 0) s"
  obtain r where r: "valid_request req" "t = ?s1\<lparr>ot_par := ot_par ?s1 @ [r]\<rparr>"
    "r = \<lparr>pr_uri = uri, pr_client = the (oq_client_id req), pr_redirect = the (oq_redirect_uri req),
          pr_scope = the (oq_scope req), pr_state = oq_state req, pr_challenge = the (oq_code_challenge req),
          pr_jkt = oq_dpop_jkt req, pr_expires = oi_clock io 0 + PAR_LIFETIME\<rparr>"
    using create_par_result [OF assms(1)] by auto
  have "par_origin ?es r"
    unfolding par_origin_def using valid_request_given [OF r(1)] r(1)
    by (intro exI [of _ req] exI [of _ "oi_clock io 0"]) (simp add: r(3))
  moreover have "origins lib ?es ?s1"
    by (rule origins_shrink [OF assms(2)]) auto
  ultimately show ?thesis using r(2) by (auto simp: origins_def)
qed

lemma chain_code:
  assumes "metalbear_oauth_authorize lib io uri client subject s = (Inr (code, redirect, st), t)"
    and "origins lib es s"
  shows "origins lib (es @ [EvCode code uri client subject (oi_clock io 0)]) t \<and>
    os_issuer t = os_issuer s \<and> os_key t = os_key s"
proof -
  let ?e = "EvCode code uri client subject (oi_clock io 0)" and ?s1 = "prune io (oi_clock io 0) s"
  obtain r where r: "r \<in> set (ot_par ?s1)" "pr_uri r = uri" "pr_expires r > oi_clock io 0" "pr_client r = client"
    "take_par io r (token_hash lib code) subject (oi_clock io 0) ?s1 = (WF_OK, t)"
    using authorize_result [OF assms(1)] by auto
  have "par_origin es r" using origins_prune [OF assms(2)] r(1) by (auto simp: origins_def)
  then obtain req pushed where q: "EvPar uri req pushed \<in> set es" "valid_request req"
    "oq_client_id req = Some client" "oq_redirect_uri req = Some (pr_redirect r)"
    "oq_scope req = Some (pr_scope r)" "oq_code_challenge req = Some (pr_challenge r)"
    "oq_dpop_jkt req = pr_jkt r" "pr_expires r = pushed + PAR_LIFETIME"
    using r(2,4) by (auto simp: par_origin_def)
  obtain jkt where jkt: "pr_jkt r = Some jkt" using valid_request_given [OF q(2)] q(7) by metis
  have c: "consent lib (es @ [?e]) client (pr_scope r) jkt subject (pr_redirect r) (pr_challenge r)
      (oi_clock io 0) (token_hash lib code)"
    unfolding consent_def using q jkt r(3)
    by (intro exI [of _ uri] exI [of _ req] exI [of _ pushed] exI [of _ code]) simp
  have o: "origins lib (es @ [?e]) ?s1" by (rule origins_shrink [OF assms(2)]) auto
  show ?thesis
    using take_par_result [OF r(5)] o c jkt r(4) by (auto simp: origins_def code_origin_def)
qed

lemma chain_issue:
  assumes "issue_grant lib io client scope jkt subject s = (Inr g, t)" and "origins lib es s"
    and "consent lib es client scope jkt subject redirect challenge issued hash"
  shows "origins lib es t \<and> os_issuer t = os_issuer s \<and> os_key t = os_key s \<and>
    speaks_for lib (os_issuer s) (os_key s) (og_access_token g) client scope jkt subject"
  using issue_grant_result [OF assms(1)] assms(2,3) by (auto simp: origins_def refresh_origin_def)

lemma chain_grant:
  assumes "metalbear_oauth_exchange_code lib io code client redirect verifier jkt s = (Inr g, t)"
    and "origins lib es s"
  shows "origins lib es t \<and> os_issuer t = os_issuer s \<and> os_key t = os_key s \<and>
    justified lib (os_issuer s) (os_key s) es (EvGrant code client redirect verifier jkt g (oi_clock io 0))"
proof -
  let ?s1 = "prune io (oi_clock io 0) s"
  obtain r where r: "ol_pkce lib verifier = Inr (cr_challenge r)" "r \<in> set (ot_code ?s1)"
    "cr_hash r = token_hash lib code" "cr_expires r > oi_clock io 0" "cr_client r = client"
    "cr_redirect r = redirect" "cr_jkt r = Some jkt"
    "issue_grant lib io client (cr_scope r) jkt (cr_subject r)
       (?s1\<lparr>ot_code := filter (\<lambda>c. cr_hash c \<noteq> cr_hash r) (ot_code ?s1)\<rparr>) = (Inr g, t)"
    using exchange_result [OF assms(1)] by auto
  have "code_origin lib es r" using origins_prune [OF assms(2)] r(2) by (auto simp: origins_def)
  then obtain issued where c: "cr_expires r = issued + CODE_LIFETIME"
    "consent lib es client (cr_scope r) jkt (cr_subject r) redirect (cr_challenge r) issued (token_hash lib code)"
    using r by (auto simp: code_origin_def)
  have o: "origins lib es (?s1\<lparr>ot_code := filter (\<lambda>c. cr_hash c \<noteq> cr_hash r) (ot_code ?s1)\<rparr>)"
    using origins_prune [OF assms(2), of io "oi_clock io 0"] by (simp add: origins_def)
  show ?thesis using chain_issue [OF r(8) o c(2)] c r(1,4) by auto
qed

lemma chain_rotate:
  assumes "metalbear_oauth_refresh lib io token client jkt s = (Inr g, t)" and "origins lib es s"
  shows "origins lib es t \<and> os_issuer t = os_issuer s \<and> os_key t = os_key s \<and>
    justified lib (os_issuer s) (os_key s) es (EvRefresh token client jkt g (oi_clock io 0))"
proof -
  let ?s1 = "prune io (oi_clock io 0) s"
  obtain r where r: "r \<in> set (ot_refresh ?s1)" "gr_hash r = token_hash lib token" "gr_client r = client"
    "gr_jkt r = Some jkt"
    "issue_grant lib io client (gr_scope r) jkt (gr_subject r)
       (?s1\<lparr>ot_refresh := filter (\<lambda>c. gr_hash c \<noteq> gr_hash r) (ot_refresh ?s1)\<rparr>) = (Inr g, t)"
    using refresh_result [OF assms(1)] by auto
  have "refresh_origin lib es r" using origins_prune [OF assms(2)] r(1) by (auto simp: origins_def)
  then obtain redirect challenge issued hash where c:
    "consent lib es client (gr_scope r) jkt (gr_subject r) redirect challenge issued hash"
    using r by (auto simp: refresh_origin_def)
  have o: "origins lib es (?s1\<lparr>ot_refresh := filter (\<lambda>c. gr_hash c \<noteq> gr_hash r) (ot_refresh ?s1)\<rparr>)"
    using origins_prune [OF assms(2), of io "oi_clock io 0"] by (simp add: origins_def)
  note i = chain_issue [OF r(5) o c]
  have "justified lib (os_issuer s) (os_key s) es (EvRefresh token client jkt g (oi_clock io 0))"
    unfolding justified.simps using i c by (simp, blast)
  then show ?thesis using i by simp
qed

lemma origins_more: "origins lib es s \<Longrightarrow> origins lib (es @ es') s"
  by (rule origins_shrink) auto

lemma chain_inv_step:
  assumes "chain_inv lib issuer k p" and "oauth_step lib p q"
  shows "chain_inv lib issuer k q"
proof -
  obtain es s where p: "p = (es, s)" by force
  from assms(2) obtain io c new t where run: "oauth_call_run lib io c s = (new, t)" and q: "q = (es @ new, t)"
    by (auto simp: p elim: oauth_stepE)
  have inv: "os_issuer s = issuer" "os_key s = k" "origins lib es s" "all_justified lib issuer k es"
    using assms(1) by (simp_all add: chain_inv_def p)
  from run show ?thesis
  proof (cases rule: call_cases)
    case quiet
    then show ?thesis
      using inv origins_shrink [OF inv(3) quiet(2)] by (auto simp: chain_inv_def q shrinks_def)
  next
    case (par req)
    then show ?thesis
      using run inv chain_par [OF _ inv(3)] all_justified_snoc [OF inv(4)]
      by (auto simp: chain_inv_def q event_of_def split: sum.splits prod.splits)
  next
    case (code uri client subject)
    then show ?thesis
      using run inv chain_code [OF _ inv(3)] all_justified_snoc [OF inv(4)]
      by (auto simp: chain_inv_def q event_of_def split: sum.splits prod.splits)
  next
    case (grant cd client redirect verifier jkt)
    then obtain g where g: "metalbear_oauth_exchange_code lib io cd client redirect verifier jkt s = (Inr g, t)"
      "new = [EvGrant cd client redirect verifier jkt g (oi_clock io 0)]"
      using run by (auto simp: event_of_def split: sum.splits prod.splits)
    show ?thesis
      using inv chain_grant [OF g(1) inv(3)] all_justified_snoc [OF inv(4)]
      by (auto simp: chain_inv_def q g(2) simp del: justified.simps intro: origins_more)
  next
    case (rotate token client jkt)
    then obtain g where g: "metalbear_oauth_refresh lib io token client jkt s = (Inr g, t)"
      "new = [EvRefresh token client jkt g (oi_clock io 0)]"
      using run by (auto simp: event_of_def split: sum.splits prod.splits)
    show ?thesis
      using inv chain_rotate [OF g(1) inv(3)] all_justified_snoc [OF inv(4)]
      by (auto simp: chain_inv_def q g(2) simp del: justified.simps intro: origins_more)
  qed
qed

interpretation oauth_runs: transition_system "fresh_oauth issuer k" "oauth_step lib" "chain_inv lib issuer k"
  for lib issuer k
proof
  fix p assume "fresh_oauth issuer k p"
  then show "chain_inv lib issuer k p"
    by (simp add: chain_inv_def fresh_oauth_def origins_def all_justified_def)
qed (rule chain_inv_step)

text \<open>C3. Every token was consented to. Whatever calls a new store has been through, each access
  token it has handed out, for a code or for a refresh token, carries a client, a scope, a proof key
  and a subject that go back to a valid request of that client, with that scope and that key, which
  the subject turned into a code within the request's lifetime; the token is signed by the host's
  key; and a grant for a code came within the code's lifetime to the request's redirect URI with the
  verifier of its challenge.\<close>

theorem oauth_consent_chain:
  assumes "fresh_oauth issuer k p" and "(oauth_step lib)\<^sup>*\<^sup>* p (es1 @ e # es2, s)"
  shows "case e of
      EvGrant code client redirect verifier jkt g now \<Rightarrow>
        (\<exists>scope subject challenge issued.
           ol_pkce lib verifier = Inr challenge \<and> now < issued + CODE_LIFETIME \<and>
           consent lib es1 client scope jkt subject redirect challenge issued (token_hash lib code) \<and>
           speaks_for lib issuer k (og_access_token g) client scope jkt subject)
    | EvRefresh token client jkt g now \<Rightarrow>
        (\<exists>scope subject redirect challenge issued hash.
           consent lib es1 client scope jkt subject redirect challenge issued hash \<and>
           speaks_for lib issuer k (og_access_token g) client scope jkt subject)
    | _ \<Rightarrow> True"
proof -
  have "justified lib issuer k es1 e"
    using oauth_runs.inv_reachable [OF assms] all_justified_split [of lib issuer k es1 e es2]
    by (simp add: chain_inv_def)
  then show ?thesis by (cases e) simp_all
qed

section \<open>Nothing is spent twice\<close>

fun makes_code :: "oauth_lib \<Rightarrow> byte list \<Rightarrow> oauth_event \<Rightarrow> bool" where
  "makes_code lib h (EvCode code uri client subject now) \<longleftrightarrow> token_hash lib code = h"
| "makes_code lib h e \<longleftrightarrow> False"

fun spends_code :: "oauth_lib \<Rightarrow> byte list \<Rightarrow> oauth_event \<Rightarrow> bool" where
  "spends_code lib h (EvGrant code client redirect verifier jkt g now) \<longleftrightarrow> token_hash lib code = h"
| "spends_code lib h e \<longleftrightarrow> False"

fun makes_refresh :: "oauth_lib \<Rightarrow> byte list \<Rightarrow> oauth_event \<Rightarrow> bool" where
  "makes_refresh lib h (EvGrant code client redirect verifier jkt g now) \<longleftrightarrow>
     token_hash lib (og_refresh_token g) = h"
| "makes_refresh lib h (EvRefresh token client jkt g now) \<longleftrightarrow> token_hash lib (og_refresh_token g) = h"
| "makes_refresh lib h e \<longleftrightarrow> False"

fun spends_refresh :: "oauth_lib \<Rightarrow> byte list \<Rightarrow> oauth_event \<Rightarrow> bool" where
  "spends_refresh lib h (EvRefresh token client jkt g now) \<longleftrightarrow> token_hash lib token = h"
| "spends_refresh lib h e \<longleftrightarrow> False"

definition ledger :: "oauth_lib \<Rightarrow> byte list \<Rightarrow> oauth_event list \<times> oauth_store \<Rightarrow> bool" where
  "ledger lib h p \<longleftrightarrow>
     tally (spends_code lib h) (fst p) + tally (\<lambda>r. cr_hash r = h) (ot_code (snd p))
       \<le> tally (makes_code lib h) (fst p) \<and>
     tally (spends_refresh lib h) (fst p) + tally (\<lambda>r. gr_hash r = h) (ot_refresh (snd p))
       \<le> tally (makes_refresh lib h) (fst p)"

lemma shrinks_tally:
  "shrinks s t \<Longrightarrow> tally P (ot_code t) \<le> tally P (ot_code s) \<and> tally Q (ot_refresh t) \<le> tally Q (ot_refresh s)"
  by (simp add: shrinks_def tally_mono)

lemma prune_tally:
  "tally P (ot_code (prune io now s)) \<le> tally P (ot_code s) \<and>
   tally Q (ot_refresh (prune io now s)) \<le> tally Q (ot_refresh s)"
  by (rule shrinks_tally) simp

lemma tally_taken:
  assumes "r \<in> set rows"
  shows "Suc (tally (\<lambda>c. f c = f r) (filter (\<lambda>c. f c \<noteq> f r) rows)) \<le> tally (\<lambda>c. f c = f r) rows"
    and "tally (\<lambda>c. f c = h) (filter (\<lambda>c. f c \<noteq> f r) rows) \<le> tally (\<lambda>c. f c = h) rows"
proof -
  have "filter (\<lambda>c. f c = f r) (filter (\<lambda>c. f c \<noteq> f r) rows) = []" by (simp add: filter_empty_conv)
  moreover have "filter (\<lambda>c. f c = f r) rows \<noteq> []" using assms by (auto simp: filter_empty_conv)
  ultimately show "Suc (tally (\<lambda>c. f c = f r) (filter (\<lambda>c. f c \<noteq> f r) rows)) \<le> tally (\<lambda>c. f c = f r) rows"
    by (simp add: tally_def Suc_le_eq)
  show "tally (\<lambda>c. f c = h) (filter (\<lambda>c. f c \<noteq> f r) rows) \<le> tally (\<lambda>c. f c = h) rows"
    by (rule tally_mono) simp
qed

lemma ledger_step:
  assumes "ledger lib h p" and "oauth_step lib p q"
  shows "ledger lib h q"
proof -
  obtain es s where p: "p = (es, s)" by force
  from assms(2) obtain io c new t where run: "oauth_call_run lib io c s = (new, t)" and q: "q = (es @ new, t)"
    by (auto simp: p elim: oauth_stepE)
  let ?s1 = "prune io (oi_clock io 0) s"
  note inv = assms(1) [unfolded ledger_def p fst_conv snd_conv]
  note pr = prune_tally [of "\<lambda>r. cr_hash r = h" io "oi_clock io 0" s "\<lambda>r. gr_hash r = h"]
  from run show ?thesis
  proof (cases rule: call_cases)
    case quiet
    then show ?thesis
      using inv shrinks_tally [OF quiet(2), of "\<lambda>r. cr_hash r = h" "\<lambda>r. gr_hash r = h"]
      by (auto simp: ledger_def q)
  next
    case (par req)
    then obtain uri n where g: "metalbear_oauth_create_par lib io req s = (Inr (uri, n), t)"
      "new = [EvPar uri req (oi_clock io 0)]"
      using run by (auto simp: event_of_def split: sum.splits prod.splits)
    then show ?thesis
      using inv pr create_par_result [OF g(1)] by (auto simp: ledger_def q g(2))
  next
    case (code uri client subject)
    then obtain cd x y where g: "metalbear_oauth_authorize lib io uri client subject s = (Inr (cd, x, y), t)"
      "new = [EvCode cd uri client subject (oi_clock io 0)]"
      using run by (auto simp: event_of_def split: sum.splits prod.splits)
    obtain r where "take_par io r (token_hash lib cd) subject (oi_clock io 0) ?s1 = (WF_OK, t)"
      using authorize_result [OF g(1)] by auto
    then show ?thesis
      using inv pr take_par_result [of io r "token_hash lib cd" subject "oi_clock io 0" ?s1 WF_OK t]
      by (auto simp: ledger_def q g(2))
  next
    case (grant cd client redirect verifier jkt)
    then obtain g where g: "metalbear_oauth_exchange_code lib io cd client redirect verifier jkt s = (Inr g, t)"
      "new = [EvGrant cd client redirect verifier jkt g (oi_clock io 0)]"
      using run by (auto simp: event_of_def split: sum.splits prod.splits)
    obtain r where r: "r \<in> set (ot_code ?s1)" "cr_hash r = token_hash lib cd"
      "issue_grant lib io client (cr_scope r) jkt (cr_subject r)
         (?s1\<lparr>ot_code := filter (\<lambda>c. cr_hash c \<noteq> cr_hash r) (ot_code ?s1)\<rparr>) = (Inr g, t)"
      by (rule exchange_ok [OF g(1)])
    show ?thesis
      using inv pr issue_grant_result [OF r(3)] r(2) tally_taken(1) [OF r(1), of cr_hash]
        tally_taken(2) [OF r(1), of cr_hash h]
      by (cases "cr_hash r = h") (auto simp: ledger_def q g(2))
  next
    case (rotate token client jkt)
    then obtain g where g: "metalbear_oauth_refresh lib io token client jkt s = (Inr g, t)"
      "new = [EvRefresh token client jkt g (oi_clock io 0)]"
      using run by (auto simp: event_of_def split: sum.splits prod.splits)
    obtain r where r: "r \<in> set (ot_refresh ?s1)" "gr_hash r = token_hash lib token"
      "issue_grant lib io client (gr_scope r) jkt (gr_subject r)
         (?s1\<lparr>ot_refresh := filter (\<lambda>c. gr_hash c \<noteq> gr_hash r) (ot_refresh ?s1)\<rparr>) = (Inr g, t)"
      by (rule refresh_ok [OF g(1)])
    show ?thesis
      using inv pr issue_grant_result [OF r(3)] r(2) tally_taken(1) [OF r(1), of gr_hash]
        tally_taken(2) [OF r(1), of gr_hash h]
      by (cases "gr_hash r = h") (auto simp: ledger_def q g(2))
  qed
qed

interpretation oauth_ledger: transition_system "fresh_oauth issuer k" "oauth_step lib" "ledger lib h"
  for lib issuer k h
proof
  fix p assume "fresh_oauth issuer k p"
  then show "ledger lib h p" by (simp add: ledger_def fresh_oauth_def)
qed (rule ledger_step)

text \<open>C20. A code or a refresh token is spent at most as often as it was issued: in any run of a new
  store, the grants for a code never outnumber the codes of that hash, and the rotations of a refresh
  token never outnumber the grants that handed one of that hash out; and no row is left for what has
  been spent.\<close>

theorem oauth_spent_once:
  assumes "fresh_oauth issuer k p" and "(oauth_step lib)\<^sup>*\<^sup>* p (es, s)"
  shows "tally (spends_code lib h) es + tally (\<lambda>r. cr_hash r = h) (ot_code s) \<le> tally (makes_code lib h) es \<and>
    tally (spends_refresh lib h) es + tally (\<lambda>r. gr_hash r = h) (ot_refresh s) \<le> tally (makes_refresh lib h) es"
  using oauth_ledger.inv_reachable [OF assms] by (simp add: ledger_def)

section \<open>A dead refresh token stays dead\<close>

definition no_row :: "byte list \<Rightarrow> oauth_store \<Rightarrow> bool" where
  "no_row h s \<longleftrightarrow> (\<forall>r \<in> set (ot_refresh s). gr_hash r \<noteq> h)"

text \<open>No row of the hash, unless a grant since the start handed such a token out.\<close>

definition dead_or_reissued :: "oauth_lib \<Rightarrow> byte list \<Rightarrow> oauth_event list \<times> oauth_store \<Rightarrow> bool" where
  "dead_or_reissued lib h p \<longleftrightarrow> (\<exists>e \<in> set (fst p). makes_refresh lib h e) \<or> no_row h (snd p)"

lemma no_row_shrinks:
  assumes "no_row h s" and "shrinks s t"
  shows "no_row h t"
proof -
  have "set (ot_refresh t) \<subseteq> set (ot_refresh s)"
    using assms(2) unfolding shrinks_def by (metis set_mset_mono set_mset_mset)
  then show ?thesis using assms(1) by (auto simp: no_row_def)
qed

lemma no_row_prune: "no_row h s \<Longrightarrow> no_row h (prune io now s)"
  by (rule no_row_shrinks) auto

lemma dead_step:
  assumes "dead_or_reissued lib h p" and "oauth_step lib p q"
  shows "dead_or_reissued lib h q"
proof -
  obtain es s where p: "p = (es, s)" by force
  from assms(2) obtain io c new t where run: "oauth_call_run lib io c s = (new, t)" and q: "q = (es @ new, t)"
    by (auto simp: p elim: oauth_stepE)
  let ?s1 = "prune io (oi_clock io 0) s"
  show ?thesis
  proof (cases "\<exists>e \<in> set es. makes_refresh lib h e")
    case False
    then have s: "no_row h s" using assms(1) by (auto simp: dead_or_reissued_def p)
    note s1 = no_row_prune [OF s, of io "oi_clock io 0"]
    from run show ?thesis
    proof (cases rule: call_cases)
      case quiet
      then show ?thesis using no_row_shrinks [OF s quiet(2)] by (simp add: dead_or_reissued_def q)
    next
      case (par req)
      then show ?thesis
        using run s1
        by (auto simp: dead_or_reissued_def q event_of_def no_row_def split: sum.splits prod.splits
            dest!: create_par_result)
    next
      case (code uri client subject)
      then obtain cd x y where g: "metalbear_oauth_authorize lib io uri client subject s = (Inr (cd, x, y), t)"
        using run by (auto simp: event_of_def split: sum.splits prod.splits)
      obtain r where "take_par io r (token_hash lib cd) subject (oi_clock io 0) ?s1 = (WF_OK, t)"
        using authorize_result [OF g(1)] by auto
      then show ?thesis
        using s1 take_par_result [of io r "token_hash lib cd" subject "oi_clock io 0" ?s1 WF_OK t]
        by (auto simp: dead_or_reissued_def q no_row_def)
    next
      case (grant cd client redirect verifier jkt)
      then obtain g where g: "metalbear_oauth_exchange_code lib io cd client redirect verifier jkt s = (Inr g, t)"
        "new = [EvGrant cd client redirect verifier jkt g (oi_clock io 0)]"
        using run by (auto simp: event_of_def split: sum.splits prod.splits)
      obtain r :: code_row where r: "issue_grant lib io client (cr_scope r) jkt (cr_subject r)
           (?s1\<lparr>ot_code := filter (\<lambda>c. cr_hash c \<noteq> cr_hash r) (ot_code ?s1)\<rparr>) = (Inr g, t)"
        by (rule exchange_ok [OF g(1)])
      show ?thesis
        using s1 issue_grant_result [OF r] by (auto simp: dead_or_reissued_def q g(2) no_row_def)
    next
      case (rotate token client jkt)
      then obtain g where g: "metalbear_oauth_refresh lib io token client jkt s = (Inr g, t)"
        "new = [EvRefresh token client jkt g (oi_clock io 0)]"
        using run by (auto simp: event_of_def split: sum.splits prod.splits)
      obtain r :: refresh_grant_row where r: "issue_grant lib io client (gr_scope r) jkt (gr_subject r)
           (?s1\<lparr>ot_refresh := filter (\<lambda>c. gr_hash c \<noteq> gr_hash r) (ot_refresh ?s1)\<rparr>) = (Inr g, t)"
        by (rule refresh_ok [OF g(1)])
      show ?thesis
        using s1 issue_grant_result [OF r] by (auto simp: dead_or_reissued_def q g(2) no_row_def)
    qed
  qed (auto simp: dead_or_reissued_def q)
qed

interpretation oauth_dead: transition_system "\<lambda>p. p = ([], s0) \<and> no_row h s0" "oauth_step lib" "dead_or_reissued lib h"
  for lib s0 h
proof
  fix p :: "oauth_event list \<times> oauth_store" assume "p = ([], s0) \<and> no_row h s0"
  then show "dead_or_reissued lib h p" by (simp add: dead_or_reissued_def)
qed (rule dead_step)

lemma no_row_refused: "no_row (token_hash lib token) s \<Longrightarrow> \<exists>st. fst (metalbear_oauth_refresh lib io token client jkt s) = Inl st"
  using refresh_result [of lib io token client jkt s] no_row_prune [of "token_hash lib token" s io "oi_clock io 0"]
  by (cases "metalbear_oauth_refresh lib io token client jkt s") (auto simp: no_row_def)

text \<open>The three ways a refresh token dies: revoked, rotated, or its connection revoked.\<close>

definition killed :: "oauth_lib \<Rightarrow> oauth_io \<Rightarrow> string \<Rightarrow> oauth_store \<Rightarrow> oauth_store \<Rightarrow> bool" where
  "killed lib io token s t \<longleftrightarrow>
     metalbear_oauth_revoke lib io token s = (WF_OK, t) \<or>
     (\<exists>client jkt g. metalbear_oauth_refresh lib io token client jkt s = (Inr g, t) \<and>
        token_hash lib (og_refresh_token g) \<noteq> token_hash lib token) \<or>
     (\<exists>subject client. metalbear_oauth_grants_revoke io subject client s = (WF_OK, t) \<and>
        (\<forall>r \<in> set (ot_refresh s). gr_hash r = token_hash lib token \<longrightarrow> gr_subject r = subject \<and> gr_client r = client))"

lemma killed_no_row:
  assumes "killed lib io token s t"
  shows "no_row (token_hash lib token) t"
proof -
  have "no_row (token_hash lib token) t"
    if ok: "metalbear_oauth_refresh lib io token client jkt s = (Inr g, t)"
      and other: "token_hash lib (og_refresh_token g) \<noteq> token_hash lib token" for client jkt g
  proof -
    let ?s1 = "prune io (oi_clock io 0) s"
    obtain r :: refresh_grant_row where r: "gr_hash r = token_hash lib token" "issue_grant lib io client (gr_scope r) jkt (gr_subject r)
         (?s1\<lparr>ot_refresh := filter (\<lambda>c. gr_hash c \<noteq> gr_hash r) (ot_refresh ?s1)\<rparr>) = (Inr g, t)"
      by (rule refresh_ok [OF ok])
    show ?thesis using issue_grant_result [OF r(2)] r(1) other by (auto simp: no_row_def)
  qed
  then have "no_row (token_hash lib token) t"
    if "\<exists>client jkt g. metalbear_oauth_refresh lib io token client jkt s = (Inr g, t) \<and>
        token_hash lib (og_refresh_token g) \<noteq> token_hash lib token"
    using that by blast
  moreover have "no_row (token_hash lib token) t" if "metalbear_oauth_revoke lib io token s = (WF_OK, t)"
    using that by (auto simp: no_row_def metalbear_oauth_revoke_def split: if_splits)
  moreover have "no_row (token_hash lib token) t"
    if "metalbear_oauth_grants_revoke io subject client s = (WF_OK, t)"
      and "\<forall>r \<in> set (ot_refresh s). gr_hash r = token_hash lib token \<longrightarrow> gr_subject r = subject \<and> gr_client r = client"
    for subject client
    using that by (auto simp: no_row_def metalbear_oauth_grants_revoke_def split: if_splits)
  ultimately show ?thesis using assms unfolding killed_def by blast
qed

text \<open>C21. A dead refresh token stays dead: once it is revoked, rotated, or the connection of its subject
  and client is, then whatever calls follow, presenting it never yields tokens again, unless the
  random generator hands the same token out anew.\<close>

theorem oauth_dead_stays_dead:
  assumes "killed lib io token s s1" and "(oauth_step lib)\<^sup>*\<^sup>* ([], s1) (es, t)"
    and "\<forall>e \<in> set es. \<not> makes_refresh lib (token_hash lib token) e"
  shows "\<exists>st. fst (metalbear_oauth_refresh lib io' token client jkt t) = Inl st"
proof (rule no_row_refused)
  have "dead_or_reissued lib (token_hash lib token) (es, t)"
    by (rule oauth_dead.inv_reachable [OF conjI [OF refl killed_no_row [OF assms(1)]] assms(2)])
  then show "no_row (token_hash lib token) t" using assms(3) by (simp add: dead_or_reissued_def)
qed

section \<open>A rotation that fails\<close>

text \<open>C39. A rotation is not atomic: when the old token's row is gone and the new one cannot be issued,
  the call fails and the session with it: whatever calls follow, the old token is refused, unless the
  random generator hands the same token out anew.\<close>

theorem oauth_failed_rotation_ends_session:
  assumes "r \<in> set (ot_refresh s)" and "gr_hash r = token_hash lib token" and "gr_jkt r = Some jkt" and "jkt \<noteq> ''''"
    and "gr_expires r > oi_clock io 0" and "distinct (map gr_hash (ot_refresh s))"
    and "oi_sql io 0 = SQL_RUNS" and "oi_sql io 1 = SQL_RUNS" and "oi_sql io 2 \<noteq> SQL_RUNS"
    and "metalbear_oauth_refresh lib io token (gr_client r) jkt s = (res, t)"
    and "(oauth_step lib)\<^sup>*\<^sup>* ([], t) (es, t')"
    and "\<forall>e \<in> set es. \<not> makes_refresh lib (token_hash lib token) e"
  shows "(\<exists>st. res = Inl st) \<and> (\<exists>st. fst (metalbear_oauth_refresh lib io' token client' jkt' t') = Inl st)"
proof -
  let ?s1 = "prune io (oi_clock io 0) s" and ?h = "token_hash lib token"
  let ?s2 = "?s1\<lparr>ot_refresh := filter (\<lambda>c. gr_hash c \<noteq> ?h) (ot_refresh ?s1)\<rparr>"
  let ?live = "\<lambda>q. gr_hash q = ?h \<and> gr_expires q > oi_clock io 0"
  have in1: "r \<in> set (ot_refresh ?s1)" using assms(1,5) by (simp add: prune_def unexpired_def)
  have d1: "distinct (map gr_hash (ot_refresh ?s1))"
    using assms(6) by (simp add: prune_def unexpired_def distinct_map_filter)
  have only: "q = r" if "q \<in> set (ot_refresh ?s1)" "gr_hash q = ?h" for q
    using d1 in1 that assms(2) by (metis distinct_map inj_onD)
  have sel: "select_row io 0 ?live (ot_refresh ?s1) = Some r"
  proof (cases "select_row io 0 ?live (ot_refresh ?s1)")
    case None
    then show ?thesis using in1 assms(2,5,7) by (auto simp: select_row_def find_None_iff)
  next
    case (Some q)
    then show ?thesis using only select_row_SomeD [OF Some] by simp
  qed
  have one: "length (filter (\<lambda>c. gr_hash c = ?h) (ot_refresh ?s1)) = 1"
  proof -
    have "set (filter (\<lambda>c. gr_hash c = ?h) (ot_refresh ?s1)) = {r}"
      unfolding set_filter using only in1 assms(2) by blast
    moreover have "distinct (filter (\<lambda>c. gr_hash c = ?h) (ot_refresh ?s1))"
      using d1 by (auto simp: distinct_map)
    ultimately show ?thesis by (metis distinct_card is_singletonI is_singleton_altdef)
  qed
  have eq: "metalbear_oauth_refresh lib io token (gr_client r) jkt s =
      issue_grant lib io (gr_client r) (gr_scope r) jkt (gr_subject r) ?s2"
    using assms(3,4,7,8) sel one by (simp add: metalbear_oauth_refresh_def Let_def)
  have fails: "issue_grant lib io c sc j sub x \<noteq> (Inr g, y)" for c sc j sub x g y
    using assms(9) by (auto simp: issue_grant_def oauth_persist_refresh_def Let_def split: option.splits sum.splits)
  have ig: "issue_grant lib io (gr_client r) (gr_scope r) jkt (gr_subject r) ?s2 = (res, t)"
    using assms(10) eq by metis
  have "res \<noteq> Inr g" for g using fails ig by blast
  then have "t = ?s2 \<and> (\<exists>st. res = Inl st)" using issue_grant_result [OF ig] by blast
  moreover have "no_row ?h ?s2" by (simp add: no_row_def)
  ultimately have gone: "\<exists>st. res = Inl st" "no_row ?h t" by auto
  have "dead_or_reissued lib ?h (es, t')"
    by (rule oauth_dead.inv_reachable [OF conjI [OF refl gone(2)] assms(11)])
  then have "no_row ?h t'" using assms(12) by (simp add: dead_or_reissued_def)
  then show ?thesis using gone(1) no_row_refused by blast
qed

section \<open>Concrete inputs\<close>

text \<open>A library small enough to compute with: the hash is the text, the key is its own signature.\<close>

definition demo_oauth :: oauth_lib where
  "demo_oauth = \<lparr>ol_sha256 = \<lambda>b. b, ol_b64 = map (char_of \<circ> unat), ol_unb64 = \<lambda>t. Some (bytes_of t),
     ol_pkce = Inr, ol_sign = \<lambda>k m. Some k, ol_public = \<lambda>k. Some (k, k), ol_print = \<lambda>j. ''{}'',
     ol_parse = \<lambda>t. Some (CObject [])\<rparr>"

definition demo_world :: "int \<Rightarrow> byte \<Rightarrow> oauth_io" where
  "demo_world now b = \<lparr>oi_clock = \<lambda>i. now, oi_random = \<lambda>i. Some [b + of_nat i], oi_prune = \<lambda>i. True,
     oi_sql = \<lambda>i. SQL_RUNS, oi_reads = 0\<rparr>"

definition demo_request :: oauth_request where
  "demo_request = \<lparr>oq_client_id = Some ''c'', oq_redirect_uri = Some ''r'', oq_scope = Some ''atproto'',
     oq_state = None, oq_code_challenge = Some (replicate 43 CHR ''v''),
     oq_dpop_jkt = Some (replicate 43 CHR ''k'')\<rparr>"

definition demo_oauth_start :: "oauth_event list \<times> oauth_store" where
  "demo_oauth_start = ([], \<lparr>ot_meta_key = Some [7], ot_par = [], ot_code = [], ot_refresh = [], ot_device = [],
     ot_passkey = [], ot_challenge = [], os_issuer = ''i'', os_key = [72], os_trusted = []\<rparr>)"

definition demo_jkt :: string where "demo_jkt = replicate 43 CHR ''k''"

definition demo_grant_calls :: "(oauth_io \<times> oauth_call) list" where
  "demo_grant_calls =
     [(demo_world 0 65, Call_par demo_request),
      (demo_world 10 67, Call_authorize (par_prefix @ ''A'') ''c'' ''did:a''),
      (demo_world 20 70, Call_exchange ''C'' ''c'' ''r'' (replicate 43 CHR ''v'') demo_jkt),
      (demo_world 30 75, Call_refresh ''G'' ''c'' demo_jkt)]"

definition demo_token :: string where "demo_token = ''{}.{}.H''"

lemma demo_grant_run:
  "oauth_calls demo_oauth demo_grant_calls demo_oauth_start =
     ([EvPar (par_prefix @ ''A'') demo_request 0, EvCode ''C'' (par_prefix @ ''A'') ''c'' ''did:a'' 10,
       EvGrant ''C'' ''c'' ''r'' (replicate 43 CHR ''v'') demo_jkt
         \<lparr>og_access_token = demo_token, og_refresh_token = ''G'', og_expires_in = 3600\<rparr> 20,
       EvRefresh ''G'' ''c'' demo_jkt
         \<lparr>og_access_token = demo_token, og_refresh_token = ''L'', og_expires_in = 3600\<rparr> 30],
      (snd demo_oauth_start)\<lparr>ot_refresh :=
        [\<lparr>gr_hash = [76], gr_client = ''c'', gr_scope = ''atproto'', gr_jkt = Some demo_jkt,
          gr_subject = ''did:a'', gr_expires = 7776030\<rparr>]\<rparr>)"
  by code_simp

lemma demo_oauth_fresh: "fresh_oauth ''i'' [72] demo_oauth_start"
  by (simp add: fresh_oauth_def demo_oauth_start_def)

theorem oauth_consent_chain_witness:
  "\<exists>scope subject challenge issued.
     ol_pkce demo_oauth (replicate 43 CHR ''v'') = Inr challenge \<and> 20 < issued + CODE_LIFETIME \<and>
     consent demo_oauth
       [EvPar (par_prefix @ ''A'') demo_request 0, EvCode ''C'' (par_prefix @ ''A'') ''c'' ''did:a'' 10]
       ''c'' scope demo_jkt subject ''r'' challenge issued (token_hash demo_oauth ''C'') \<and>
     speaks_for demo_oauth ''i'' [72] demo_token ''c'' scope demo_jkt subject"
  using oauth_consent_chain [OF demo_oauth_fresh, of demo_oauth
      "[EvPar (par_prefix @ ''A'') demo_request 0, EvCode ''C'' (par_prefix @ ''A'') ''c'' ''did:a'' 10]"
      "EvGrant ''C'' ''c'' ''r'' (replicate 43 CHR ''v'') demo_jkt
         \<lparr>og_access_token = demo_token, og_refresh_token = ''G'', og_expires_in = 3600\<rparr> 20"]
    oauth_calls_reach [of demo_oauth demo_oauth_start demo_grant_calls]
  unfolding demo_grant_run by simp

theorem oauth_spent_once_witness:
  "\<exists>es s. oauth_calls demo_oauth demo_grant_calls demo_oauth_start = (es, s) \<and>
     tally (spends_code demo_oauth [67]) es + tally (\<lambda>r. cr_hash r = [67]) (ot_code s)
       \<le> tally (makes_code demo_oauth [67]) es \<and>
     tally (spends_code demo_oauth [67]) es = 1"
proof -
  obtain es s where run: "oauth_calls demo_oauth demo_grant_calls demo_oauth_start = (es, s)" by force
  have "tally (spends_code demo_oauth [67]) es = 1"
    using run unfolding demo_grant_run
    by (auto simp: tally_def token_hash_def demo_oauth_def bytes_of_def)
  then show ?thesis
    using oauth_spent_once [OF demo_oauth_fresh, of demo_oauth es s "[67]"] run
      oauth_calls_reach [of demo_oauth demo_oauth_start demo_grant_calls] by auto
qed

definition demo_connected :: oauth_store where
  "demo_connected = snd (oauth_calls demo_oauth (take 3 demo_grant_calls) demo_oauth_start)"

definition demo_rotated :: oauth_store where
  "demo_rotated = snd (metalbear_oauth_refresh demo_oauth (demo_world 30 75) ''G'' ''c'' demo_jkt demo_connected)"

theorem oauth_dead_stays_dead_witness:
  "\<exists>st. fst (metalbear_oauth_refresh demo_oauth (demo_world 40 80) ''G'' ''c'' demo_jkt demo_rotated) = Inl st"
proof (rule oauth_dead_stays_dead [of demo_oauth "demo_world 30 75" _ demo_connected, OF _ rtranclp.rtrancl_refl])
  have "metalbear_oauth_refresh demo_oauth (demo_world 30 75) ''G'' ''c'' demo_jkt demo_connected =
      (Inr \<lparr>og_access_token = demo_token, og_refresh_token = ''L'', og_expires_in = 3600\<rparr>, demo_rotated)"
    by code_simp
  moreover have "token_hash demo_oauth ''L'' \<noteq> token_hash demo_oauth ''G''" by code_simp
  ultimately show "killed demo_oauth (demo_world 30 75) ''G'' demo_connected demo_rotated"
    unfolding killed_def
    by (intro disjI2 disjI1 exI [of _ "''c''"] exI [of _ demo_jkt]
        exI [of _ "\<lparr>og_access_token = demo_token, og_refresh_token = ''L'', og_expires_in = 3600\<rparr>"]) simp
qed simp

definition demo_full_disk :: oauth_io where
  "demo_full_disk = (demo_world 30 75)\<lparr>oi_sql := \<lambda>i. if i = 2 then SQL_STEP_FAILS else SQL_RUNS\<rparr>"

theorem oauth_failed_rotation_ends_session_witness:
  "\<exists>st. fst (metalbear_oauth_refresh demo_oauth (demo_world 40 80) ''G'' ''c'' demo_jkt
     (snd (metalbear_oauth_refresh demo_oauth demo_full_disk ''G'' ''c'' demo_jkt demo_connected))) = Inl st"
proof -
  let ?r = "\<lparr>gr_hash = [71], gr_client = ''c'', gr_scope = ''atproto'', gr_jkt = Some demo_jkt,
    gr_subject = ''did:a'', gr_expires = 7776020\<rparr>"
  have rows: "ot_refresh demo_connected = [?r]" by code_simp
  have h: "token_hash demo_oauth ''G'' = [71]" by code_simp
  have j: "demo_jkt \<noteq> ''''" by (simp add: demo_jkt_def)
  obtain res t where t: "metalbear_oauth_refresh demo_oauth demo_full_disk ''G'' (gr_client ?r) demo_jkt demo_connected = (res, t)"
    by force
  have "(\<exists>st. fst (metalbear_oauth_refresh demo_oauth (demo_world 40 80) ''G'' ''c'' demo_jkt t) = Inl st)"
    using oauth_failed_rotation_ends_session [OF _ _ _ j _ _ _ _ _ t rtranclp.rtrancl_refl]
    by (simp add: rows h demo_full_disk_def demo_world_def)
  then show ?thesis using t by simp
qed

end
