(* ===== verification/Oauth_Accounts.thy ===== *)
theory Oauth_Accounts
  imports Oauth_Chain
begin

text \<open>
  The account's side of \<open>src/oauth/oauth.c\<close>: the list of connected applications and its revocation,
  the binding of a passkey to its account, the single use of a challenge, and the host's key across
  openings.
\<close>

section \<open>Connected applications\<close>

lemma foldl_latest:
  "foldl (\<lambda>best r. if gr_expires r > gr_expires best then r else best) b rows \<in> set (b # rows) \<and>
   (\<forall>r \<in> set (b # rows).
      gr_expires r \<le> gr_expires (foldl (\<lambda>best r. if gr_expires r > gr_expires best then r else best) b rows))"
proof (induction rows arbitrary: b)
  case (Cons q rows)
  show ?case using Cons [of "if gr_expires q > gr_expires b then q else b"] by (auto split: if_splits)
qed simp

lemma latest_max:
  assumes "rows \<noteq> []"
  shows "latest rows \<in> set rows" and "r \<in> set rows \<Longrightarrow> gr_expires r \<le> gr_expires (latest rows)"
proof -
  have "set (hd rows # tl rows) = set rows" using assms by simp
  then show "latest rows \<in> set rows" and "r \<in> set rows \<Longrightarrow> gr_expires r \<le> gr_expires (latest rows)"
    using foldl_latest [of "hd rows" "tl rows"] unfolding latest_def by blast+
qed

definition live_grant :: "string \<Rightarrow> int \<Rightarrow> refresh_grant_row list \<Rightarrow> refresh_grant_row \<Rightarrow> bool" where
  "live_grant subject now rows r \<longleftrightarrow> r \<in> set rows \<and> gr_subject r = subject \<and> gr_expires r > now"

lemma latest_of_client:
  assumes "c \<in> gr_client ` set mine"
  shows "latest (filter (\<lambda>r. gr_client r = c) mine) \<in> set mine"
    and "gr_client (latest (filter (\<lambda>r. gr_client r = c) mine)) = c"
    and "r \<in> set mine \<Longrightarrow> gr_client r = c \<Longrightarrow> gr_expires r \<le> gr_expires (latest (filter (\<lambda>r. gr_client r = c) mine))"
proof -
  have ne: "filter (\<lambda>r. gr_client r = c) mine \<noteq> []" using assms by (auto simp: filter_empty_conv)
  show "latest (filter (\<lambda>r. gr_client r = c) mine) \<in> set mine"
    and "gr_client (latest (filter (\<lambda>r. gr_client r = c) mine)) = c"
    using latest_max(1) [OF ne] by auto
  show "r \<in> set mine \<Longrightarrow> gr_client r = c \<Longrightarrow> gr_expires r \<le> gr_expires (latest (filter (\<lambda>r. gr_client r = c) mine))"
    using latest_max(2) [OF ne] by simp
qed

lemma grouped_rows:
  fixes rows :: "refresh_grant_row list" and subject :: string and now :: int
  defines "mine \<equiv> filter (\<lambda>r. gr_subject r = subject \<and> gr_expires r > now) rows"
  shows "set (grouped_grants subject now rows) =
      (\<lambda>c. latest (filter (\<lambda>r. gr_client r = c) mine)) ` gr_client ` set mine"
    and "distinct (map gr_client (grouped_grants subject now rows))"
    and "sorted_wrt (\<lambda>a b. gr_expires b \<le> gr_expires a) (grouped_grants subject now rows)"
    and "gr_client ` set (grouped_grants subject now rows) = gr_client ` set mine"
proof -
  let ?pick = "\<lambda>c. latest (filter (\<lambda>r. gr_client r = c) mine)" and ?cs = "remdups (map gr_client mine)"
  have g: "grouped_grants subject now rows = sort_key (\<lambda>r. - gr_expires r) (map ?pick ?cs)"
    by (simp add: grouped_grants_def mine_def Let_def)
  show "set (grouped_grants subject now rows) = ?pick ` gr_client ` set mine" by (simp add: g)
  then show "gr_client ` set (grouped_grants subject now rows) = gr_client ` set mine"
    by (simp add: image_image latest_of_client(2))
  have "map (gr_client \<circ> ?pick) ?cs = ?cs"
    by (rule map_idI) (auto simp: latest_of_client(2) comp_def)
  then have "distinct (map gr_client (map ?pick ?cs))" by simp
  moreover have "mset (map gr_client (sort_key (\<lambda>r. - gr_expires r) (map ?pick ?cs))) =
      mset (map gr_client (map ?pick ?cs))"
    by (simp only: mset_map mset_sort)
  ultimately show "distinct (map gr_client (grouped_grants subject now rows))"
    unfolding g by (metis mset_eq_imp_distinct_iff)
  have "sorted (map (\<lambda>r. - gr_expires r) (grouped_grants subject now rows))" by (simp add: g)
  then show "sorted_wrt (\<lambda>a b. gr_expires b \<le> gr_expires a) (grouped_grants subject now rows)"
    by (simp add: sorted_map)
qed

text \<open>What is listed: for every client the subject has a live refresh token of, the one that lives longest.\<close>

definition lists_grants :: "string \<Rightarrow> int \<Rightarrow> refresh_grant_row list \<Rightarrow> (string \<times> string \<times> int) list \<Rightarrow> bool" where
  "lists_grants subject now rows xs \<longleftrightarrow>
     fst ` set xs = gr_client ` Collect (live_grant subject now rows) \<and> distinct (map fst xs) \<and>
     sorted_wrt (\<lambda>a b. snd (snd b) \<le> snd (snd a)) xs \<and>
     (\<forall>(c, scope, expires) \<in> set xs.
        \<exists>r. live_grant subject now rows r \<and> gr_client r = c \<and> gr_scope r = scope \<and> gr_expires r = expires \<and>
            (\<forall>q. live_grant subject now rows q \<longrightarrow> gr_client q = c \<longrightarrow> gr_expires q \<le> expires))"

lemma grants_listed:
  "lists_grants subject now rows (map (\<lambda>r. (gr_client r, gr_scope r, gr_expires r)) (grouped_grants subject now rows))"
proof -
  let ?mine = "filter (\<lambda>r. gr_subject r = subject \<and> gr_expires r > now) rows"
  have live: "live_grant subject now rows r \<longleftrightarrow> r \<in> set ?mine" for r by (auto simp: live_grant_def)
  note g = grouped_rows [of subject now rows]
  have 2: "\<exists>c \<in> gr_client ` set ?mine. r = latest (filter (\<lambda>q. gr_client q = c) ?mine)"
    if "r \<in> set (grouped_grants subject now rows)" for r
    using that unfolding g(1) by blast
  have 3: "r \<in> set ?mine \<and> (\<forall>q \<in> set ?mine. gr_client q = gr_client r \<longrightarrow> gr_expires q \<le> gr_expires r)"
    if r: "r \<in> set (grouped_grants subject now rows)" for r
  proof -
    obtain c where c: "c \<in> gr_client ` set ?mine" "r = latest (filter (\<lambda>q. gr_client q = c) ?mine)"
      using 2 [OF r] by blast
    show ?thesis using latest_of_client [OF c(1)] c(2) by simp
  qed
  show ?thesis
    unfolding lists_grants_def live
    using g(2,3,4) 3 by (auto simp: image_image comp_def sorted_wrt_map)
qed

lemma unexpired_later:
  "now0 \<le> now \<Longrightarrow> filter (\<lambda>r. P r \<and> f r > now) (unexpired ok now0 f rows) = filter (\<lambda>r. P r \<and> f r > now) rows"
  unfolding unexpired_def by (cases ok) (auto intro!: filter_cong)

lemma grouped_prune:
  "oi_clock io 0 \<le> now \<Longrightarrow>
   grouped_grants subject now (ot_refresh (prune io (oi_clock io 0) s)) = grouped_grants subject now (ot_refresh s)"
  by (simp add: grouped_grants_def prune_def unexpired_later)

lemma grants_list_result:
  assumes "subject \<noteq> ''''" and "oi_sql io 0 = SQL_RUNS" and "oi_clock io 0 \<le> oi_clock io 1"
  shows "fst (metalbear_oauth_grants_list io subject s) =
    Inr (map (\<lambda>r. (gr_client r, gr_scope r, gr_expires r)) (grouped_grants subject (oi_clock io 1) (ot_refresh s)))"
  using assms grouped_prune [OF assms(3)] by (simp add: metalbear_oauth_grants_list_def rows_read_def Let_def)

text \<open>The list of connected applications shows each client the account has an unexpired refresh
  token of, once, with the scope and expiry of the one that lives longest, the latest first. Revoking
  one removes it from the list, leaves the account's others, and no other account's list changes.\<close>

theorem oauth_connections_listed_and_revoked:
  assumes "subject \<noteq> ''''" and "client \<noteq> ''''" and "oi_sql io 0 = SQL_RUNS" and "oi_sql io' 0 = SQL_RUNS"
    and "oi_clock io 0 \<le> oi_clock io 1"
  shows "\<exists>xs ys. fst (metalbear_oauth_grants_list io subject s) = Inr xs \<and>
    lists_grants subject (oi_clock io 1) (ot_refresh s) xs \<and>
    fst (metalbear_oauth_grants_revoke io' subject client s) = WF_OK \<and>
    fst (metalbear_oauth_grants_list io subject (snd (metalbear_oauth_grants_revoke io' subject client s))) = Inr ys \<and>
    fst ` set ys = fst ` set xs - {client} \<and>
    (\<forall>other. other \<noteq> subject \<longrightarrow>
       fst (metalbear_oauth_grants_list io other (snd (metalbear_oauth_grants_revoke io' subject client s))) =
         fst (metalbear_oauth_grants_list io other s))"
proof -
  let ?now = "oi_clock io 1" and ?t = "snd (metalbear_oauth_grants_revoke io' subject client s)"
  let ?list = "\<lambda>sub x. map (\<lambda>r. (gr_client r, gr_scope r, gr_expires r)) (grouped_grants sub ?now (ot_refresh x))"
  have t: "fst (metalbear_oauth_grants_revoke io' subject client s) = WF_OK"
    "ot_refresh ?t = filter (\<lambda>r. \<not> (gr_subject r = subject \<and> gr_client r = client)) (ot_refresh s)"
    using assms by (simp_all add: metalbear_oauth_grants_revoke_def)
  have live: "live_grant subject ?now (ot_refresh ?t) r \<longleftrightarrow>
      live_grant subject ?now (ot_refresh s) r \<and> gr_client r \<noteq> client" for r
    unfolding t(2) by (auto simp: live_grant_def)
  have other: "fst (metalbear_oauth_grants_list io other ?t) = fst (metalbear_oauth_grants_list io other s)"
    if o: "other \<noteq> subject" for other
  proof (cases "other = ''''")
    case False
    have eq: "filter (\<lambda>r. gr_subject r = other \<and> gr_expires r > ?now) (ot_refresh ?t) =
        filter (\<lambda>r. gr_subject r = other \<and> gr_expires r > ?now) (ot_refresh s)"
      unfolding t(2) using o by (auto intro!: filter_cong)
    show ?thesis
      by (simp only: grants_list_result [OF False assms(3,5)] grouped_grants_def Let_def eq)
  qed (simp add: metalbear_oauth_grants_list_def)
  have c: "fst ` set (?list subject x) = gr_client ` Collect (live_grant subject ?now (ot_refresh x))" for x
    using grants_listed [of subject ?now "ot_refresh x"] unfolding lists_grants_def by blast
  have "fst ` set (?list subject ?t) = fst ` set (?list subject s) - {client}"
    unfolding c live by blast
  then show ?thesis
    using grants_list_result [OF assms(1,3,5)] grants_listed [of subject ?now "ot_refresh s"] t(1) other
    by blast
qed

section \<open>Passkeys\<close>

definition passkey_of :: "oauth_store \<Rightarrow> byte list \<Rightarrow> passkey_row option" where
  "passkey_of s cred = find (\<lambda>r. pk_id r = cred) (ot_passkey s)"

lemma other_calls_keep_passkeys:
  "ot_passkey (snd (metalbear_oauth_create_par lib io req s)) = ot_passkey s"
  "ot_passkey (snd (metalbear_oauth_authorize lib io uri client subject s)) = ot_passkey s"
  "ot_passkey (snd (metalbear_oauth_exchange_code lib io code client redirect verifier jkt s)) = ot_passkey s"
  "ot_passkey (snd (metalbear_oauth_refresh lib io token client jkt s)) = ot_passkey s"
  "ot_passkey (snd (metalbear_oauth_revoke lib io token s)) = ot_passkey s"
  "ot_passkey (snd (metalbear_oauth_grants_list io subject s)) = ot_passkey s"
  "ot_passkey (snd (metalbear_oauth_grants_revoke io subject client s)) = ot_passkey s"
  "ot_passkey (snd (metalbear_oauth_device_session_create lib io subject s)) = ot_passkey s"
  "ot_passkey (snd (metalbear_oauth_device_session_revoke lib io tok s)) = ot_passkey s"
  "ot_passkey (snd (metalbear_oauth_device_session_list lib io subject s)) = ot_passkey s"
  "ot_passkey (snd (metalbear_oauth_device_session_revoke_by_id lib io subject sid s)) = ot_passkey s"
  "ot_passkey (snd (metalbear_oauth_passkey_challenge_create lib io kind subject s)) = ot_passkey s"
  "ot_passkey (snd (metalbear_oauth_passkey_challenge_consume io ch kind n s)) = ot_passkey s"
proof -
  have ig: "ot_passkey (snd (issue_grant lib io c sc j sub x)) = ot_passkey x" for c sc j sub x
    by (auto simp: issue_grant_def oauth_persist_refresh_def Let_def split: option.splits sum.splits)
  have tp: "ot_passkey (snd (take_par io r h sub now x)) = ot_passkey x" for r h sub now x
    by (simp add: take_par_def)
  show "ot_passkey (snd (metalbear_oauth_exchange_code lib io code client redirect verifier jkt s)) = ot_passkey s"
    by (auto simp: metalbear_oauth_exchange_code_def Let_def ig split: sum.splits option.splits)
  show "ot_passkey (snd (metalbear_oauth_refresh lib io token client jkt s)) = ot_passkey s"
    by (auto simp: metalbear_oauth_refresh_def Let_def ig split: option.splits)
  show "ot_passkey (snd (metalbear_oauth_authorize lib io uri client subject s)) = ot_passkey s"
    using tp by (auto simp: metalbear_oauth_authorize_def Let_def split: sum.splits option.splits prod.splits)
      (metis prune_fields(3) snd_conv)+
qed (auto simp: metalbear_oauth_create_par_def metalbear_oauth_revoke_def metalbear_oauth_grants_list_def
    metalbear_oauth_grants_revoke_def metalbear_oauth_device_session_create_def
    metalbear_oauth_device_session_revoke_def metalbear_oauth_device_session_list_def
    metalbear_oauth_device_session_revoke_by_id_def metalbear_oauth_passkey_challenge_create_def
    metalbear_oauth_passkey_challenge_consume_def Let_def split: sum.splits option.splits)

lemma snd_event_of [simp]: "snd (event_of f r) = snd r"
  by (simp add: event_of_def split: prod.split sum.split)

text \<open>The same owner, key and name; only the counter and the time of use may differ.\<close>

definition same_passkey :: "passkey_row \<Rightarrow> passkey_row \<Rightarrow> bool" where
  "same_passkey r q \<longleftrightarrow> pk_id q = pk_id r \<and> pk_subject q = pk_subject r \<and> pk_x q = pk_x r \<and> pk_y q = pk_y r \<and>
     pk_name q = pk_name r \<and> pk_created q = pk_created r"

definition removes :: "oauth_lib \<Rightarrow> string \<Rightarrow> byte list \<Rightarrow> oauth_call \<Rightarrow> bool" where
  "removes lib subject cred c \<longleftrightarrow>
     (case c of Call_passkey_remove sub id_text \<Rightarrow> sub = subject \<and> ol_unb64 lib id_text = Some cred | _ \<Rightarrow> False)"

lemma find_append_Some: "find P xs = Some x \<Longrightarrow> find P (xs @ ys) = Some x"
  by (induction xs) auto

lemma find_touched:
  "find (\<lambda>r. pk_id r = cred) rows = Some r \<Longrightarrow>
   \<exists>q. find (\<lambda>r. pk_id r = cred) (map (\<lambda>r. if pk_id r = c then r\<lparr>pk_count := n, pk_used := u\<rparr> else r) rows) = Some q \<and>
       same_passkey r q"
  by (induction rows) (auto simp: same_passkey_def)

lemma find_kept:
  "find (\<lambda>r. pk_id r = cred) rows = Some r \<Longrightarrow> distinct (map pk_id rows) \<Longrightarrow> \<not> Q r \<Longrightarrow>
   find (\<lambda>r. pk_id r = cred) (filter (\<lambda>r. \<not> Q r) rows) = Some r"
  by (induction rows) (auto simp: find_None_iff split: if_splits)

lemma passkey_call:
  assumes "passkey_of s cred = Some r" and "distinct (map pk_id (ot_passkey s))"
    and "\<not> removes lib (pk_subject r) cred c"
  shows "(\<exists>q. passkey_of (snd (oauth_call_run lib io c s)) cred = Some q \<and> same_passkey r q) \<and>
    distinct (map pk_id (ot_passkey (snd (oauth_call_run lib io c s))))"
proof (cases c)
  case (Call_passkey_add subject cr x y name)
  then show ?thesis
    using assms find_append_Some
    by (auto simp: passkey_of_def metalbear_oauth_passkey_add_def same_passkey_def find_append_Some)
next
  case (Call_passkey_touch cr n)
  have "pk_id \<circ> (\<lambda>r :: passkey_row. if pk_id r = cr then r\<lparr>pk_count := uint n, pk_used := u\<rparr> else r) = pk_id" for u
    by (auto simp: fun_eq_iff)
  then show ?thesis
    using assms Call_passkey_touch find_touched [where cred = cred and rows = "ot_passkey s" and r = r and c = cr]
    by (auto simp: passkey_of_def metalbear_oauth_passkey_touch_def same_passkey_def)
next
  case (Call_passkey_remove subject id_text)
  have id: "pk_id r = cred" using assms(1) find_SomeD by (fastforce simp: passkey_of_def)
  show ?thesis
  proof (cases "ol_unb64 lib id_text")
    case None
    then show ?thesis
      using assms by (simp add: Call_passkey_remove metalbear_oauth_passkey_remove_def same_passkey_def)
  next
    case (Some h)
    have "\<not> (pk_id r = h \<and> pk_subject r = subject)"
      using assms(3) Some id by (auto simp: removes_def Call_passkey_remove)
    then show ?thesis
      using assms(1,2) Some find_kept [of cred "ot_passkey s" r "\<lambda>r. pk_id r = h \<and> pk_subject r = subject"]
      by (auto simp: Call_passkey_remove metalbear_oauth_passkey_remove_def passkey_of_def same_passkey_def
          distinct_map_filter)
  qed
qed (use assms(1,2) in \<open>simp_all add: passkey_of_def other_calls_keep_passkeys same_passkey_def\<close>)

text \<open>C22. A passkey stays its owner's. Once a credential is registered, whatever calls are made, by its
  owner or by others, registrations of the same credential included, it keeps its subject, its public
  key, its name and its time of creation, as long as the owner does not remove it; and a lookup whose
  read runs, and into whose buffer the subject fits, answers the subject and the key.\<close>

theorem passkey_stays_bound:
  assumes "passkey_of s cred = Some r" and "distinct (map pk_id (ot_passkey s))"
    and "length (pk_x r) = 32" and "length (pk_y r) = 32" and "cred \<noteq> []"
    and "\<forall>(io, c) \<in> set cs. \<not> removes lib (pk_subject r) cred c"
    and "oi_sql io 0 = SQL_RUNS" and "length (pk_subject r) < n"
  shows "(\<exists>q. passkey_of (snd (oauth_calls lib cs (es, s))) cred = Some q \<and> pk_subject q = pk_subject r \<and>
      pk_x q = pk_x r \<and> pk_y q = pk_y r \<and> pk_name q = pk_name r \<and> pk_created q = pk_created r) \<and>
    (\<exists>count. metalbear_oauth_passkey_lookup io cred n (snd (oauth_calls lib cs (es, s))) =
      Inr (pk_subject r, pk_x r, pk_y r, count))"
proof -
  have "\<exists>q. passkey_of (snd (oauth_calls lib cs p)) cred = Some q \<and> same_passkey r q"
    if "passkey_of (snd p) cred = Some q" and "same_passkey r q" and "distinct (map pk_id (ot_passkey (snd p)))" for p q
    using that assms(6)
  proof (induction cs arbitrary: p q)
    case (Cons x cs)
    obtain io c where x: "x = (io, c)" by force
    have "\<not> removes lib (pk_subject q) cred c" using Cons.prems(2,4) by (auto simp: x same_passkey_def)
    from passkey_call [OF Cons.prems(1,3) this, where io = io]
    obtain q' where q': "passkey_of (snd (oauth_call_run lib io c (snd p))) cred = Some q'" "same_passkey q q'"
      "distinct (map pk_id (ot_passkey (snd (oauth_call_run lib io c (snd p)))))" by blast
    have "same_passkey r q'" using Cons.prems(2) q'(2) by (simp add: same_passkey_def)
    then show ?case
      using Cons.IH [of "(fst p @ fst (oauth_call_run lib io c (snd p)), snd (oauth_call_run lib io c (snd p)))"]
        q'(1,3) Cons.prems(4) by (simp add: x split_beta)
  qed auto
  from this [of "(es, s)" r] obtain q where
    q: "passkey_of (snd (oauth_calls lib cs (es, s))) cred = Some q" "same_passkey r q"
    using assms(1,2) by (auto simp: same_passkey_def)
  show ?thesis
    using q assms(3-5,7,8)
    by (auto simp: metalbear_oauth_passkey_lookup_def select_row_def passkey_of_def same_passkey_def)
qed

section \<open>Challenges\<close>

text \<open>A challenge that was let through is gone, when its deletion did not fail, and still there when it did.\<close>

lemma challenge_consumed:
  assumes "fst (metalbear_oauth_passkey_challenge_consume io (Some ch) kind n s) = Inr subject"
  shows "oi_sql io 1 = SQL_RUNS \<Longrightarrow>
      fst (metalbear_oauth_passkey_challenge_consume io' (Some ch) kind' n'
        (snd (metalbear_oauth_passkey_challenge_consume io (Some ch) kind n s))) \<noteq> Inr subject'"
    and "oi_sql io 1 \<noteq> SQL_RUNS \<Longrightarrow>
      fst (metalbear_oauth_passkey_challenge_consume io (Some ch) kind n
        (snd (metalbear_oauth_passkey_challenge_consume io (Some ch) kind n s))) = Inr subject"
  using assms
  by (auto simp: metalbear_oauth_passkey_challenge_consume_def select_row_def find_None_iff
      split: if_splits option.splits dest!: find_SomeD)

section \<open>The host's key\<close>

lemma key_survives_reopening:
  assumes "metalbear_oauth_store_open lib io generated trusts issuer t = (Inr s, t')"
    and "\<And>k. generated = Some k \<Longrightarrow> length k = 32"
    and "oi_sql io' 0 = SQL_RUNS"
  shows "\<exists>s'. metalbear_oauth_store_open lib io' generated' trusts issuer (oauth_tables.truncate s) =
      (Inr s', oauth_tables.truncate s) \<and> os_key s' = os_key s \<and> os_trusted s' = os_trusted s"
proof -
  have "oauth_tables.truncate (oauth_tables.extend t1 r) = t1" for t1 and r :: "'x"
    by (simp add: oauth_tables.truncate_def oauth_tables.extend_def)
  then show ?thesis
    using assms
    by (auto simp: metalbear_oauth_store_open_def oauth_load_or_create_key_def oauth_tables.defs
        split: if_splits option.splits sum.splits)
qed

section \<open>Concrete inputs of the account's side\<close>

theorem oauth_connections_listed_and_revoked_witness:
  "\<exists>xs ys. fst (metalbear_oauth_grants_list (demo_world 40 80) ''did:a'' demo_connected) = Inr xs \<and>
    fst (metalbear_oauth_grants_list (demo_world 40 80) ''did:a''
      (snd (metalbear_oauth_grants_revoke (demo_world 41 81) ''did:a'' ''c'' demo_connected))) = Inr ys \<and>
    fst ` set xs = {''c''} \<and> fst ` set ys = {}"
proof -
  have "fst (metalbear_oauth_grants_list (demo_world 40 80) ''did:a'' demo_connected) =
      Inr [(''c'', ''atproto'', 7776020)]" by code_simp
  then show ?thesis
    using oauth_connections_listed_and_revoked [of "''did:a''" "''c''" "demo_world 40 80" "demo_world 41 81" demo_connected]
    by (auto simp: demo_world_def)
qed

definition demo_passkey :: passkey_row where
  "demo_passkey = \<lparr>pk_id = [1, 2], pk_subject = ''did:a'', pk_x = replicate 32 3, pk_y = replicate 32 4,
     pk_count = 0, pk_name = None, pk_created = 5, pk_used = None\<rparr>"

definition demo_passkey_calls :: "(oauth_io \<times> oauth_call) list" where
  "demo_passkey_calls =
     [(demo_world 6 65, Call_passkey_add ''did:b'' [1, 2] (replicate 32 8) (replicate 32 9) None),
      (demo_world 7 65, Call_passkey_remove ''did:b'' [CHR 0x01, CHR 0x02]),
      (demo_world 8 65, Call_passkey_touch [1, 2] 17)]"

theorem passkey_stays_bound_witness:
  "let s = snd (oauth_calls demo_oauth demo_passkey_calls ([], demo_connected\<lparr>ot_passkey := [demo_passkey]\<rparr>))
   in (\<exists>q. passkey_of s [1, 2] = Some q \<and> pk_subject q = ''did:a'' \<and> pk_name q = None) \<and>
      (\<exists>count. metalbear_oauth_passkey_lookup (demo_world 9 65) [1, 2] 100 s =
         Inr (''did:a'', replicate 32 3, replicate 32 4, count))"
proof -
  have row: "pk_id demo_passkey = [1, 2]" "pk_subject demo_passkey = ''did:a''" "pk_x demo_passkey = replicate 32 3"
    "pk_y demo_passkey = replicate 32 4" "pk_name demo_passkey = None"
    by (simp_all add: demo_passkey_def)
  have start: "passkey_of (demo_connected\<lparr>ot_passkey := [demo_passkey]\<rparr>) [1, 2] = Some demo_passkey"
    "distinct (map pk_id (ot_passkey (demo_connected\<lparr>ot_passkey := [demo_passkey]\<rparr>)))"
    by (simp_all add: passkey_of_def row)
  have kept: "\<forall>(io, c) \<in> set demo_passkey_calls. \<not> removes demo_oauth (pk_subject demo_passkey) [1, 2] c"
    by (simp add: demo_passkey_calls_def removes_def row)
  have long: "length (pk_x demo_passkey) = 32" "length (pk_y demo_passkey) = 32" "length (pk_subject demo_passkey) < 100"
    unfolding row by simp_all
  have read: "oi_sql (demo_world 9 65) 0 = SQL_RUNS" and id: "[1, 2] \<noteq> ([] :: byte list)"
    by (simp_all add: demo_world_def)
  show ?thesis
    using passkey_stays_bound [OF start long(1,2) id kept read long(3), of "[]"] unfolding row Let_def by blast
qed

end
