(* ===== verification/Webauthn.thy ===== *)
theory Webauthn
  imports MB_Prelude
begin

text \<open>
  \<open>src/oauth/webauthn.c\<close>: the parser of what a browser's authenticator sends, bytes of an
  unauthenticated client. A run gives a value, fails with a status, or has undefined behaviour: a
  read outside the buffer, or the overflow of a signed integer. Positions and lengths are natural
  numbers, a buffer being shorter than \<open>2 ^ 63\<close> bytes.
\<close>

unbundle bit_operations_syntax

section \<open>Runs\<close>

datatype fault = OUT_OF_BOUNDS | SIGNED_OVERFLOW

datatype 'a run = Fault fault | Fails wf_status | Gives 'a

fun on_run :: "'a run \<Rightarrow> ('a \<Rightarrow> 'b run) \<Rightarrow> 'b run" where
  "on_run (Fault e) f = Fault e"
| "on_run (Fails st) f = Fails st"
| "on_run (Gives x) f = f x"

text \<open>The caller answers every failure with its own status.\<close>

fun or_parse :: "'a run \<Rightarrow> 'a run" where
  "or_parse (Fault e) = Fault e"
| "or_parse (Fails st) = Fails WF_ERR_PARSE"
| "or_parse (Gives x) = Gives x"

definition rd_slice :: "byte list \<Rightarrow> nat \<Rightarrow> nat \<Rightarrow> byte list run" where
  "rd_slice data p n = (if p + n \<le> length data then Gives (take n (drop p data)) else Fault OUT_OF_BOUNDS)"

text \<open>Bytes most significant first, as the shifts of the source put them together.\<close>

definition be_value :: "byte list \<Rightarrow> 64 word" where
  "be_value bs = foldl (\<lambda>v b. push_bit 8 v OR ucast b) 0 bs"

section \<open>CBOR\<close>

definition WEBAUTHN_CBOR_MAX_DEPTH :: nat where "WEBAUTHN_CBOR_MAX_DEPTH = 32"

text \<open>The argument of \<open>n\<close> bytes at \<open>p\<close>: its major type, value and the position behind it.\<close>

definition read_argument :: "byte list \<Rightarrow> nat \<Rightarrow> nat \<Rightarrow> byte \<Rightarrow> (byte \<times> 64 word \<times> nat) run" where
  "read_argument data p n mt =
     (if p + n > length data then Fails WF_ERR_PARSE
      else on_run (rd_slice data p n) (\<lambda>bs. Gives (mt, be_value bs, p + n)))"

definition read_head :: "byte list \<Rightarrow> nat \<Rightarrow> (byte \<times> 64 word \<times> nat) run" where
  "read_head data pos =
     (if pos \<ge> length data then Fails WF_ERR_PARSE
      else on_run (rd_slice data pos 1) (\<lambda>bs.
        let initial = hd bs; mt = drop_bit 5 initial; info = initial AND 0x1f; p = pos + 1
        in if info < 24 then Gives (mt, ucast info, p)
           else if info = 24 then read_argument data p 1 mt
           else if info = 25 then read_argument data p 2 mt
           else if info = 26 then read_argument data p 4 mt
           else if info = 27 then read_argument data p 8 mt
           else Fails WF_ERR_PARSE))"

text \<open>
  \<open>skip_value\<close> at depth \<open>k\<close> has \<open>33 - k\<close> levels left; at none it is too deep. \<open>skip_items\<close> is the loop
  over the items of an array, or twice the pairs of a map.
\<close>

fun skip_value :: "byte list \<Rightarrow> nat \<Rightarrow> nat \<Rightarrow> nat run"
and skip_items :: "byte list \<Rightarrow> nat \<Rightarrow> nat \<Rightarrow> nat \<Rightarrow> nat run" where
  "skip_value data 0 pos = Fails WF_ERR_PARSE"
| "skip_value data (Suc left) pos =
     on_run (read_head data pos) (\<lambda>(mt, arg, p).
       if mt = 0 \<or> mt = 1 \<or> mt = 7 then Gives p
       else if mt = 2 \<or> mt = 3 then
         (if unat arg > length data - p then Fails WF_ERR_PARSE else Gives (p + unat arg))
       else if mt = 4 then skip_items data left (unat arg) p
       else if mt = 5 then skip_items data left (2 * unat arg) p
       else if mt = 6 then skip_value data left p
       else Fails WF_ERR_PARSE)"
| "skip_items data left 0 pos = Gives pos"
| "skip_items data left (Suc n) pos =
     on_run (skip_value data left pos) (\<lambda>p. skip_items data left n p)"

definition skip_any :: "byte list \<Rightarrow> nat \<Rightarrow> nat run" where
  "skip_any data pos = skip_value data (WEBAUTHN_CBOR_MAX_DEPTH + 1) pos"

section \<open>The key\<close>

record cose_state =
  cs_x :: "byte list option"
  cs_y :: "byte list option"
  cs_kty :: bool
  cs_crv :: bool

definition cose_start :: cose_state where
  "cose_start = \<lparr>cs_x = None, cs_y = None, cs_kty = False, cs_crv = False\<rparr>"

text \<open>
  The label: an unsigned argument cast to a signed one, or minus the cast of one more than the
  argument, which overflows for the least integer.
\<close>

definition cose_label :: "byte \<Rightarrow> 64 word \<Rightarrow> int run" where
  "cose_label mt arg =
     (if mt = 0 then Gives (sint arg)
      else if sint (1 + arg) = - (2 ^ 63) then Fault SIGNED_OVERFLOW
      else Gives (- sint (1 + arg)))"

definition read_coordinate :: "byte list \<Rightarrow> nat \<Rightarrow> (byte list \<times> nat) run" where
  "read_coordinate data pos =
     on_run (or_parse (read_head data pos)) (\<lambda>(mt, n, p).
       if mt \<noteq> 2 \<or> n \<noteq> 32 then Fails WF_ERR_PARSE
       else if 32 > length data - p then Fails WF_ERR_PARSE
       else on_run (rd_slice data p 32) (\<lambda>bs. Gives (bs, p + 32)))"

definition read_small :: "64 word \<Rightarrow> byte list \<Rightarrow> nat \<Rightarrow> nat run" where
  "read_small wanted data pos =
     on_run (or_parse (read_head data pos)) (\<lambda>(mt, v, p).
       if mt \<noteq> 0 \<or> v \<noteq> wanted then Fails WF_ERR_PARSE else Gives p)"

text \<open>One turn of the loop over the pairs.\<close>

definition cose_pair :: "byte list \<Rightarrow> nat \<Rightarrow> cose_state \<Rightarrow> (nat \<times> cose_state) run" where
  "cose_pair data pos st =
     on_run (or_parse (read_head data pos)) (\<lambda>(mt, arg, p).
       if mt \<noteq> 0 \<and> mt \<noteq> 1 then Fails WF_ERR_PARSE
       else on_run (cose_label mt arg) (\<lambda>key.
         if key = -2 then on_run (read_coordinate data p) (\<lambda>(bs, q). Gives (q, st\<lparr>cs_x := Some bs\<rparr>))
         else if key = -3 then on_run (read_coordinate data p) (\<lambda>(bs, q). Gives (q, st\<lparr>cs_y := Some bs\<rparr>))
         else if key = 1 then on_run (read_small 2 data p) (\<lambda>q. Gives (q, st\<lparr>cs_kty := True\<rparr>))
         else if key = -1 then on_run (read_small 1 data p) (\<lambda>q. Gives (q, st\<lparr>cs_crv := True\<rparr>))
         else on_run (skip_any data p) (\<lambda>q. Gives (q, st))))"

fun cose_pairs :: "byte list \<Rightarrow> nat \<Rightarrow> nat \<Rightarrow> cose_state \<Rightarrow> (nat \<times> cose_state) run" where
  "cose_pairs data 0 pos st = Gives (pos, st)"
| "cose_pairs data (Suc n) pos st =
     on_run (cose_pair data pos st) (\<lambda>(p, st'). cose_pairs data n p st')"

definition parse_cose_p256_key :: "byte list \<Rightarrow> nat \<Rightarrow> (byte list \<times> byte list \<times> nat) run" where
  "parse_cose_p256_key data pos =
     on_run (or_parse (read_head data pos)) (\<lambda>(mt, n, p).
       if mt \<noteq> 5 then Fails WF_ERR_PARSE
       else on_run (cose_pairs data (unat n) p cose_start) (\<lambda>(q, st).
         case (cs_x st, cs_y st) of
           (Some x, Some y) \<Rightarrow> if cs_kty st \<and> cs_crv st then Gives (x, y, q) else Fails WF_ERR_PARSE
         | _ \<Rightarrow> Fails WF_ERR_PARSE))"

section \<open>Authenticator data\<close>

definition METALBEAR_WEBAUTHN_FLAG_AT :: byte where "METALBEAR_WEBAUTHN_FLAG_AT = 0x40"

record attested_credential =
  ac_rp_id_hash :: "byte list"
  ac_flags :: byte
  ac_sign_count :: "32 word"
  ac_credential_id :: "byte list"
  ac_x :: "byte list"
  ac_y :: "byte list"

text \<open>The 37 bytes both ceremonies share.\<close>

definition metalbear_webauthn_parse_assertion_auth_data ::
  "byte list \<Rightarrow> (byte list \<times> byte \<times> 32 word) run" where
  "metalbear_webauthn_parse_assertion_auth_data data =
     (if length data < 37 then Fails WF_ERR_PARSE
      else on_run (rd_slice data 0 32) (\<lambda>rp.
           on_run (rd_slice data 32 1) (\<lambda>flags.
           on_run (rd_slice data 33 4) (\<lambda>count. Gives (rp, hd flags, ucast (be_value count))))))"

definition metalbear_webauthn_parse_registration_auth_data :: "byte list \<Rightarrow> attested_credential run" where
  "metalbear_webauthn_parse_registration_auth_data data =
     on_run (metalbear_webauthn_parse_assertion_auth_data data) (\<lambda>(rp, flags, count).
       if flags AND METALBEAR_WEBAUTHN_FLAG_AT = 0 then Fails WF_ERR_PARSE
       else if 37 + 16 + 2 > length data then Fails WF_ERR_PARSE
       else on_run (rd_slice data 53 2) (\<lambda>bs.
         let n = unat (be_value bs); pos = 55
         in if n > length data - pos then Fails WF_ERR_PARSE
            else on_run (rd_slice data pos n) (\<lambda>cred.
                 on_run (parse_cose_p256_key data (pos + n)) (\<lambda>(x, y, q).
                   Gives \<lparr>ac_rp_id_hash = rp, ac_flags = flags, ac_sign_count = count,
                          ac_credential_id = cred, ac_x = x, ac_y = y\<rparr>))))"

section \<open>The attestation object\<close>

text \<open>One turn of its loop; what was found is the position and length of the data.\<close>

definition attestation_pair ::
  "byte list \<Rightarrow> nat \<Rightarrow> (nat \<times> nat) option \<Rightarrow> (nat \<times> (nat \<times> nat) option) run" where
  "attestation_pair data pos found =
     on_run (or_parse (read_head data pos)) (\<lambda>(mt, n, p).
       if mt \<noteq> 3 then Fails WF_ERR_PARSE
       else if unat n > length data - p then Fails WF_ERR_PARSE
       else on_run (if unat n = 8 then rd_slice data p 8 else Gives []) (\<lambda>name.
         if name = bytes_of ''authData''
         then on_run (or_parse (read_head data (p + unat n))) (\<lambda>(vt, vn, q).
                if vt \<noteq> 2 then Fails WF_ERR_PARSE
                else if unat vn > length data - q then Fails WF_ERR_PARSE
                else Gives (q + unat vn, Some (q, unat vn)))
         else on_run (skip_any data (p + unat n)) (\<lambda>q. Gives (q, found))))"

fun attestation_pairs ::
  "byte list \<Rightarrow> nat \<Rightarrow> nat \<Rightarrow> (nat \<times> nat) option \<Rightarrow> (nat \<times> nat) option run" where
  "attestation_pairs data 0 pos found = Gives found"
| "attestation_pairs data (Suc n) pos found =
     on_run (attestation_pair data pos found) (\<lambda>(p, found'). attestation_pairs data n p found')"

definition metalbear_webauthn_parse_attestation_object :: "byte list \<Rightarrow> (nat \<times> nat) run" where
  "metalbear_webauthn_parse_attestation_object data =
     on_run (or_parse (read_head data 0)) (\<lambda>(mt, n, p).
       if mt \<noteq> 5 then Fails WF_ERR_PARSE
       else on_run (attestation_pairs data (unat n) p None) (\<lambda>found.
         case found of None \<Rightarrow> Fails WF_ERR_PARSE | Some f \<Rightarrow> Gives f))"

section \<open>No read outside the buffer\<close>

text \<open>
  A run that reads only inside the buffer, fails only with the parse error, and gives only what \<open>Q\<close>
  allows.
\<close>

definition run_safe :: "('a \<Rightarrow> bool) \<Rightarrow> 'a run \<Rightarrow> bool" where
  "run_safe Q r \<longleftrightarrow>
     (case r of Fault e \<Rightarrow> e = SIGNED_OVERFLOW | Fails st \<Rightarrow> st = WF_ERR_PARSE | Gives x \<Rightarrow> Q x)"

lemma run_safe_simps [simp]:
  "run_safe Q (Fault e) \<longleftrightarrow> e = SIGNED_OVERFLOW"
  "run_safe Q (Fails st) \<longleftrightarrow> st = WF_ERR_PARSE"
  "run_safe Q (Gives x) \<longleftrightarrow> Q x"
  by (simp_all add: run_safe_def)

lemma run_safe_bind: "run_safe P m \<Longrightarrow> (\<And>x. P x \<Longrightarrow> run_safe Q (f x)) \<Longrightarrow> run_safe Q (on_run m f)"
  by (cases m) auto

lemma run_safe_bind2:
  "run_safe (\<lambda>(a, b). P a b) m \<Longrightarrow> (\<And>a b. P a b \<Longrightarrow> run_safe Q (f a b)) \<Longrightarrow> run_safe Q (on_run m (\<lambda>(a, b). f a b))"
  by (cases m) auto

lemma run_safe_bind3:
  "run_safe (\<lambda>(a, b, c). P a b c) m \<Longrightarrow> (\<And>a b c. P a b c \<Longrightarrow> run_safe Q (f a b c)) \<Longrightarrow>
   run_safe Q (on_run m (\<lambda>(a, b, c). f a b c))"
  by (cases m) auto

lemma run_safe_mono: "run_safe P m \<Longrightarrow> (\<And>x. P x \<Longrightarrow> Q x) \<Longrightarrow> run_safe Q m"
  by (cases m) auto

lemma run_safe_or_parse: "run_safe P m \<Longrightarrow> run_safe P (or_parse m)"
  by (cases m) auto

lemma rd_slice_safe: "p + n \<le> length data \<Longrightarrow> run_safe (\<lambda>bs. length bs = n) (rd_slice data p n)"
  by (simp add: rd_slice_def)

lemma read_argument_safe:
  "pos < p \<Longrightarrow> run_safe (\<lambda>(mt, arg, q). pos < q \<and> q \<le> length data) (read_argument data p n mt)"
  by (simp add: read_argument_def rd_slice_def)

lemma read_head_safe: "run_safe (\<lambda>(mt, arg, q). pos < q \<and> q \<le> length data) (read_head data pos)"
  by (simp add: read_head_def rd_slice_def Let_def read_argument_safe)

lemma head_safe: "run_safe (\<lambda>(mt, arg, q). pos < q \<and> q \<le> length data) (or_parse (read_head data pos))"
  by (rule run_safe_or_parse [OF read_head_safe])

abbreviation ends_in :: "byte list \<Rightarrow> nat \<Rightarrow> nat \<Rightarrow> bool" where
  "ends_in data pos q \<equiv> pos \<le> q \<and> q \<le> length data"

lemma skip_items_safe:
  assumes "\<And>p. run_safe (ends_in data p) (skip_value data left p)"
  shows "pos \<le> length data \<Longrightarrow> run_safe (ends_in data pos) (skip_items data left n pos)"
proof (induction n arbitrary: pos)
  case (Suc n)
  show ?case
    unfolding skip_items.simps
  proof (rule run_safe_bind [OF assms])
    fix p assume p: "ends_in data pos p"
    show "run_safe (ends_in data pos) (skip_items data left n p)"
      by (rule run_safe_mono [OF Suc.IH]) (use p in auto)
  qed
qed simp

lemma skip_value_safe: "run_safe (ends_in data pos) (skip_value data left pos)"
proof (induction left arbitrary: pos)
  case (Suc left)
  have items: "run_safe (ends_in data pos) (skip_items data left n p)" if "pos < p" "p \<le> length data" for n p
    by (rule run_safe_mono [OF skip_items_safe [OF Suc]]) (use that in auto)
  have tagged: "run_safe (ends_in data pos) (skip_value data left p)" if "pos < p" for p
    by (rule run_safe_mono [OF Suc]) (use that in auto)
  show ?case
    unfolding skip_value.simps
    by (rule run_safe_bind [OF read_head_safe]) (auto simp: items tagged)
qed simp

lemma skip_any_safe: "run_safe (ends_in data pos) (skip_any data pos)"
  unfolding skip_any_def by (rule skip_value_safe)

lemma cose_label_safe: "run_safe (\<lambda>k. True) (cose_label mt arg)"
  by (simp add: cose_label_def)

lemma read_coordinate_safe: "run_safe (\<lambda>(bs, q). length bs = 32 \<and> q \<le> length data) (read_coordinate data pos)"
  unfolding read_coordinate_def by (rule run_safe_bind [OF head_safe]) (auto simp: rd_slice_def)

lemma read_small_safe: "run_safe (\<lambda>q. q \<le> length data) (read_small v data pos)"
  unfolding read_small_def by (rule run_safe_bind [OF head_safe]) auto

definition coordinates_ok :: "cose_state \<Rightarrow> bool" where
  "coordinates_ok st \<longleftrightarrow> (\<forall>x \<in> set_option (cs_x st) \<union> set_option (cs_y st). length x = 32)"

lemma cose_pair_safe:
  assumes "coordinates_ok st"
  shows "run_safe (\<lambda>(q, st'). q \<le> length data \<and> coordinates_ok st') (cose_pair data pos st)"
proof -
  let ?Q = "\<lambda>(q, st'). q \<le> length data \<and> coordinates_ok st'"
  have x: "run_safe ?Q (on_run (read_coordinate data p) (\<lambda>(bs, q). Gives (q, st\<lparr>cs_x := Some bs\<rparr>)))" for p
    by (rule run_safe_bind [OF read_coordinate_safe]) (use assms in \<open>auto simp: coordinates_ok_def\<close>)
  have y: "run_safe ?Q (on_run (read_coordinate data p) (\<lambda>(bs, q). Gives (q, st\<lparr>cs_y := Some bs\<rparr>)))" for p
    by (rule run_safe_bind [OF read_coordinate_safe]) (use assms in \<open>auto simp: coordinates_ok_def\<close>)
  have k: "run_safe ?Q (on_run (read_small v data p) (\<lambda>q. Gives (q, st\<lparr>cs_kty := True\<rparr>)))"
    "run_safe ?Q (on_run (read_small v data p) (\<lambda>q. Gives (q, st\<lparr>cs_crv := True\<rparr>)))" for v p
    by (rule run_safe_bind [OF read_small_safe]; use assms in \<open>auto simp: coordinates_ok_def\<close>)+
  have sk: "run_safe ?Q (on_run (skip_any data p) (\<lambda>q. Gives (q, st)))" for p
    by (rule run_safe_bind [OF skip_any_safe]) (use assms in auto)
  show ?thesis
    unfolding cose_pair_def
  proof (rule run_safe_bind3 [OF head_safe])
    fix mt :: byte and arg :: "64 word" and p assume "pos < p \<and> p \<le> length data"
    show "run_safe ?Q (if mt \<noteq> 0 \<and> mt \<noteq> 1 then Fails WF_ERR_PARSE
       else on_run (cose_label mt arg) (\<lambda>key.
         if key = -2 then on_run (read_coordinate data p) (\<lambda>(bs, q). Gives (q, st\<lparr>cs_x := Some bs\<rparr>))
         else if key = -3 then on_run (read_coordinate data p) (\<lambda>(bs, q). Gives (q, st\<lparr>cs_y := Some bs\<rparr>))
         else if key = 1 then on_run (read_small 2 data p) (\<lambda>q. Gives (q, st\<lparr>cs_kty := True\<rparr>))
         else if key = -1 then on_run (read_small 1 data p) (\<lambda>q. Gives (q, st\<lparr>cs_crv := True\<rparr>))
         else on_run (skip_any data p) (\<lambda>q. Gives (q, st))))"
      using x y k sk by (auto intro!: run_safe_bind [OF cose_label_safe] simp del: on_run.simps)
  qed
qed

lemma cose_pairs_safe:
  "pos \<le> length data \<Longrightarrow> coordinates_ok st \<Longrightarrow>
   run_safe (\<lambda>(q, st'). q \<le> length data \<and> coordinates_ok st') (cose_pairs data n pos st)"
proof (induction n arbitrary: pos st)
  case (Suc n)
  show ?case
    unfolding cose_pairs.simps
    by (rule run_safe_bind [OF cose_pair_safe [OF Suc.prems(2)]]) (auto intro: Suc.IH)
qed simp

lemma parse_cose_safe:
  "run_safe (\<lambda>(x, y, q). length x = 32 \<and> length y = 32 \<and> q \<le> length data) (parse_cose_p256_key data pos)"
  unfolding parse_cose_p256_key_def
proof (rule run_safe_bind3 [OF head_safe])
  fix mt :: byte and n :: "64 word" and p assume p: "pos < p \<and> p \<le> length data"
  have "coordinates_ok cose_start" by (simp add: coordinates_ok_def cose_start_def)
  note pairs = cose_pairs_safe [OF conjunct2 [OF p] this]
  show "run_safe (\<lambda>(x, y, q). length x = 32 \<and> length y = 32 \<and> q \<le> length data)
      (if mt \<noteq> 5 then Fails WF_ERR_PARSE
       else on_run (cose_pairs data (unat n) p cose_start) (\<lambda>(q, st).
         case (cs_x st, cs_y st) of
           (Some x, Some y) \<Rightarrow> if cs_kty st \<and> cs_crv st then Gives (x, y, q) else Fails WF_ERR_PARSE
         | _ \<Rightarrow> Fails WF_ERR_PARSE))"
    by (auto intro!: run_safe_bind2 [OF pairs] simp: coordinates_ok_def split: option.split)
qed

lemma attestation_pair_safe:
  assumes "\<forall>f \<in> set_option found. fst f + snd f \<le> length data"
  shows "run_safe (\<lambda>(q, found'). q \<le> length data \<and> (\<forall>f \<in> set_option found'. fst f + snd f \<le> length data))
    (attestation_pair data pos found)"
proof -
  let ?Q = "\<lambda>(q, found'). q \<le> length data \<and> (\<forall>f \<in> set_option found'. fst f + snd f \<le> length data)"
  have sk: "run_safe ?Q (on_run (skip_any data p) (\<lambda>q. Gives (q, found)))" for p
    by (rule run_safe_bind [OF skip_any_safe]) (use assms in auto)
  have found: "run_safe ?Q (on_run (or_parse (read_head data p)) (\<lambda>(vt, vn, q).
      if vt \<noteq> 2 then Fails WF_ERR_PARSE
      else if unat vn > length data - q then Fails WF_ERR_PARSE
      else Gives (q + unat vn, Some (q, unat vn))))" for p
    by (rule run_safe_bind3 [OF head_safe]) auto
  show ?thesis
    unfolding attestation_pair_def
  proof (rule run_safe_bind3 [OF head_safe])
    fix mt :: byte and n :: "64 word" and p assume "pos < p \<and> p \<le> length data"
    then show "run_safe ?Q (if mt \<noteq> 3 then Fails WF_ERR_PARSE
       else if unat n > length data - p then Fails WF_ERR_PARSE
       else on_run (if unat n = 8 then rd_slice data p 8 else Gives []) (\<lambda>name.
         if name = bytes_of ''authData''
         then on_run (or_parse (read_head data (p + unat n))) (\<lambda>(vt, vn, q).
                if vt \<noteq> 2 then Fails WF_ERR_PARSE
                else if unat vn > length data - q then Fails WF_ERR_PARSE
                else Gives (q + unat vn, Some (q, unat vn)))
         else on_run (skip_any data (p + unat n)) (\<lambda>q. Gives (q, found))))"
      using found [of "p + unat n"] sk [of "p + unat n"] by (auto simp: rd_slice_def)
  qed
qed

lemma attestation_pairs_safe:
  "\<forall>f \<in> set_option found. fst f + snd f \<le> length data \<Longrightarrow>
   run_safe (\<lambda>found'. \<forall>f \<in> set_option found'. fst f + snd f \<le> length data) (attestation_pairs data n pos found)"
proof (induction n arbitrary: pos found)
  case (Suc n)
  show ?case
    unfolding attestation_pairs.simps
    by (rule run_safe_bind2 [OF attestation_pair_safe [OF Suc.prems]]) (rule Suc.IH, simp)
qed simp

lemma assertion_safe:
  "run_safe (\<lambda>(rp, flags, count). length rp = 32 \<and> 37 \<le> length data)
     (metalbear_webauthn_parse_assertion_auth_data data)"
  by (simp add: metalbear_webauthn_parse_assertion_auth_data_def rd_slice_def)

text \<open>C23. Whatever bytes a client sends, the three parsers read nothing outside them. They fail with
  the parse error, or give slices of them: an attestation object's data lies inside it, a credential
  id is the block after its length, and both coordinates have 32 bytes; or they meet the one
  undefined behaviour that is left, the overflow of a signed integer in the label of a key's entry.\<close>

theorem webauthn_in_bounds:
  "run_safe (\<lambda>(p, n). p + n \<le> length data) (metalbear_webauthn_parse_attestation_object data) \<and>
   run_safe (\<lambda>(rp, flags, count). rp = take 32 data \<and> length rp = 32)
     (metalbear_webauthn_parse_assertion_auth_data data) \<and>
   run_safe (\<lambda>c. \<exists>n. 55 + n \<le> length data \<and> ac_credential_id c = take n (drop 55 data) \<and>
       length (ac_rp_id_hash c) = 32 \<and> length (ac_x c) = 32 \<and> length (ac_y c) = 32)
     (metalbear_webauthn_parse_registration_auth_data data)"
proof (intro conjI)
  show "run_safe (\<lambda>(p, n). p + n \<le> length data) (metalbear_webauthn_parse_attestation_object data)"
    unfolding metalbear_webauthn_parse_attestation_object_def
    by (rule run_safe_bind3 [OF head_safe])
      (auto intro!: run_safe_bind [OF attestation_pairs_safe] split: option.split)
  show "run_safe (\<lambda>(rp, flags, count). rp = take 32 data \<and> length rp = 32)
      (metalbear_webauthn_parse_assertion_auth_data data)"
    by (simp add: metalbear_webauthn_parse_assertion_auth_data_def rd_slice_def)
  show "run_safe (\<lambda>c. \<exists>n. 55 + n \<le> length data \<and> ac_credential_id c = take n (drop 55 data) \<and>
        length (ac_rp_id_hash c) = 32 \<and> length (ac_x c) = 32 \<and> length (ac_y c) = 32)
      (metalbear_webauthn_parse_registration_auth_data data)" (is "run_safe ?Q _")
    unfolding metalbear_webauthn_parse_registration_auth_data_def
  proof (rule run_safe_bind3 [OF assertion_safe])
    fix rp :: "byte list" and flags :: byte and count :: "32 word"
    assume rp: "length rp = 32 \<and> 37 \<le> length data"
    have cred: "run_safe ?Q (on_run (parse_cose_p256_key data (55 + n)) (\<lambda>(x, y, q).
        Gives \<lparr>ac_rp_id_hash = rp, ac_flags = flags, ac_sign_count = count,
               ac_credential_id = take n (drop 55 data), ac_x = x, ac_y = y\<rparr>))"
      if "55 + n \<le> length data" for n
      by (rule run_safe_bind3 [OF parse_cose_safe]) (use that rp in auto)
    show "run_safe ?Q (if flags AND METALBEAR_WEBAUTHN_FLAG_AT = 0 then Fails WF_ERR_PARSE
       else if 37 + 16 + 2 > length data then Fails WF_ERR_PARSE
       else on_run (rd_slice data 53 2) (\<lambda>bs.
         let n = unat (be_value bs); pos = 55
         in if n > length data - pos then Fails WF_ERR_PARSE
            else on_run (rd_slice data pos n) (\<lambda>cred.
                 on_run (parse_cose_p256_key data (pos + n)) (\<lambda>(x, y, q).
                   Gives \<lparr>ac_rp_id_hash = rp, ac_flags = flags, ac_sign_count = count,
                          ac_credential_id = cred, ac_x = x, ac_y = y\<rparr>))))"
      using cred by (auto simp: rd_slice_def Let_def)
  qed
qed

text \<open>The overflow can be reached by any client: a key map whose first label is the negative integer
  of argument \<open>2 ^ 63 - 1\<close> negates the least signed integer; and the unsigned label
  \<open>2 ^ 64 - 2\<close> is taken for the label -2 of the first coordinate.\<close>

theorem webauthn_label_overflow:
  "parse_cose_p256_key [0xA1, 0x3B, 0x7F, 0xFF, 0xFF, 0xFF, 0xFF, 0xFF, 0xFF, 0xFF] 0 = Fault SIGNED_OVERFLOW \<and>
   cose_pair ([0x1B, 0xFF, 0xFF, 0xFF, 0xFF, 0xFF, 0xFF, 0xFF, 0xFE, 0x58, 0x20] @ replicate 32 7) 0 cose_start =
     Gives (43, cose_start\<lparr>cs_x := Some (replicate 32 7)\<rparr>)"
proof
  show "parse_cose_p256_key [0xA1, 0x3B, 0x7F, 0xFF, 0xFF, 0xFF, 0xFF, 0xFF, 0xFF, 0xFF] 0 = Fault SIGNED_OVERFLOW"
    by code_simp
  show "cose_pair ([0x1B, 0xFF, 0xFF, 0xFF, 0xFF, 0xFF, 0xFF, 0xFF, 0xFE, 0x58, 0x20] @ replicate 32 7) 0 cose_start =
     Gives (43, cose_start\<lparr>cs_x := Some (replicate 32 7)\<rparr>)"
    by code_simp
qed

section \<open>What an authenticator encodes is what is parsed\<close>

datatype cose_entry = Entry_kty | Entry_alg | Entry_crv | Entry_x "byte list" | Entry_y "byte list"

fun entry_bytes :: "cose_entry \<Rightarrow> byte list" where
  "entry_bytes Entry_kty = [0x01, 0x02]"
| "entry_bytes Entry_alg = [0x03, 0x26]"
| "entry_bytes Entry_crv = [0x20, 0x01]"
| "entry_bytes (Entry_x x) = [0x21, 0x58, 0x20] @ x"
| "entry_bytes (Entry_y y) = [0x22, 0x58, 0x20] @ y"

fun entry_effect :: "cose_entry \<Rightarrow> cose_state \<Rightarrow> cose_state" where
  "entry_effect Entry_kty st = st\<lparr>cs_kty := True\<rparr>"
| "entry_effect Entry_alg st = st"
| "entry_effect Entry_crv st = st\<lparr>cs_crv := True\<rparr>"
| "entry_effect (Entry_x x) st = st\<lparr>cs_x := Some x\<rparr>"
| "entry_effect (Entry_y y) st = st\<lparr>cs_y := Some y\<rparr>"

text \<open>The five entries of a key, in any order.\<close>

definition key_entries :: "byte list \<Rightarrow> byte list \<Rightarrow> cose_entry list \<Rightarrow> bool" where
  "key_entries x y es \<longleftrightarrow>
     distinct es \<and> set es = {Entry_kty, Entry_alg, Entry_crv, Entry_x x, Entry_y y}"

definition be_bytes :: "nat \<Rightarrow> nat \<Rightarrow> byte list" where
  "be_bytes n v = map (\<lambda>i. of_nat (v div 256 ^ (n - 1 - i))) [0..<n]"

definition auth_data :: "byte list \<Rightarrow> byte \<Rightarrow> nat \<Rightarrow> byte list \<Rightarrow> byte list \<Rightarrow> cose_entry list \<Rightarrow> byte list" where
  "auth_data rp flags count aaguid cred es =
     rp @ [flags] @ be_bytes 4 count @ aaguid @ be_bytes 2 (length cred) @ cred @
     [0xA5] @ concat (map entry_bytes es)"

lemma read_head_at:
  "read_head (pre @ b # rest) (length pre) =
     (if b AND 0x1f < 24 then Gives (drop_bit 5 b, ucast (b AND 0x1f), length pre + 1)
      else if b AND 0x1f = 24 then read_argument (pre @ b # rest) (length pre + 1) 1 (drop_bit 5 b)
      else if b AND 0x1f = 25 then read_argument (pre @ b # rest) (length pre + 1) 2 (drop_bit 5 b)
      else if b AND 0x1f = 26 then read_argument (pre @ b # rest) (length pre + 1) 4 (drop_bit 5 b)
      else if b AND 0x1f = 27 then read_argument (pre @ b # rest) (length pre + 1) 8 (drop_bit 5 b)
      else Fails WF_ERR_PARSE)"
  by (simp add: read_head_def rd_slice_def Let_def)

lemma read_argument_one: "read_argument (pre @ b # c # rest) (length pre + 1) 1 mt = Gives (mt, ucast c, length pre + 2)"
  by (simp add: read_argument_def rd_slice_def be_value_def)

lemma heads:
  "read_head (pre @ 0x01 # rest) (length pre) = Gives (0, 1, length pre + 1)"
  "read_head (pre @ 0x02 # rest) (length pre) = Gives (0, 2, length pre + 1)"
  "read_head (pre @ 0x03 # rest) (length pre) = Gives (0, 3, length pre + 1)"
  "read_head (pre @ 0x20 # rest) (length pre) = Gives (1, 0, length pre + 1)"
  "read_head (pre @ 0x21 # rest) (length pre) = Gives (1, 1, length pre + 1)"
  "read_head (pre @ 0x22 # rest) (length pre) = Gives (1, 2, length pre + 1)"
  "read_head (pre @ 0x26 # rest) (length pre) = Gives (1, 6, length pre + 1)"
  "read_head (pre @ 0xA5 # rest) (length pre) = Gives (5, 5, length pre + 1)"
  "read_head (pre @ 0x58 # 0x20 # rest) (length pre) = Gives (2, 32, length pre + 2)"
  by (simp_all add: read_head_at read_argument_one [simplified])

lemma labels:
  "cose_label 0 1 = Gives 1" "cose_label 0 3 = Gives 3" "cose_label 1 0 = Gives (-1)"
  "cose_label 1 1 = Gives (-2)" "cose_label 1 2 = Gives (-3)"
  by code_simp+

lemma skip_any_flat: "read_head data pos = Gives (mt, arg, p) \<Longrightarrow> mt = 0 \<or> mt = 1 \<Longrightarrow> skip_any data pos = Gives p"
  by (auto simp: skip_any_def)

fun entry_sized :: "cose_entry \<Rightarrow> bool" where
  "entry_sized (Entry_x x) \<longleftrightarrow> length x = 32"
| "entry_sized (Entry_y y) \<longleftrightarrow> length y = 32"
| "entry_sized e \<longleftrightarrow> True"

lemma read_coordinate_at:
  "length bs = 32 \<Longrightarrow> read_coordinate (pre @ 0x58 # 0x20 # bs @ rest) (length pre) = Gives (bs, length pre + 34)"
  by (simp add: read_coordinate_def heads rd_slice_def)

lemma cose_pair_entry:
  assumes "entry_sized e"
  shows "cose_pair (pre @ entry_bytes e @ rest) (length pre) st = Gives (length pre + length (entry_bytes e), entry_effect e st)"
proof (cases e)
  case Entry_kty
  then show ?thesis
    using heads(2) [of "pre @ [0x01]" rest]
    by (simp add: cose_pair_def heads labels read_small_def)
next
  case Entry_alg
  then show ?thesis
    using heads(7) [of "pre @ [0x03]" rest] skip_any_flat [OF heads(7) [of "pre @ [0x03]" rest]]
    by (simp add: cose_pair_def heads labels)
next
  case Entry_crv
  then show ?thesis
    using heads(1) [of "pre @ [0x20]" rest]
    by (simp add: cose_pair_def heads labels read_small_def)
next
  case (Entry_x x)
  then show ?thesis
    using assms read_coordinate_at [of x "pre @ [0x21]" rest]
    by (simp add: cose_pair_def heads labels)
next
  case (Entry_y y)
  then show ?thesis
    using assms read_coordinate_at [of y "pre @ [0x22]" rest]
    by (simp add: cose_pair_def heads labels)
qed

lemma cose_pairs_entries:
  "\<forall>e \<in> set es. entry_sized e \<Longrightarrow>
   cose_pairs (pre @ concat (map entry_bytes es) @ rest) (length es) (length pre) st =
     Gives (length pre + length (concat (map entry_bytes es)), foldl (\<lambda>st e. entry_effect e st) st es)"
proof (induction es arbitrary: pre st)
  case (Cons e es)
  have "cose_pair (pre @ entry_bytes e @ (concat (map entry_bytes es) @ rest)) (length pre) st =
      Gives (length pre + length (entry_bytes e), entry_effect e st)"
    by (rule cose_pair_entry) (use Cons.prems in simp)
  then show ?case
    using Cons.IH [of "pre @ entry_bytes e" "entry_effect e st"] Cons.prems by (simp add: algebra_simps)
qed simp

lemma fold_effects:
  assumes "set es \<subseteq> {Entry_kty, Entry_alg, Entry_crv, Entry_x x, Entry_y y}"
  shows "foldl (\<lambda>st e. entry_effect e st) st es =
    \<lparr>cs_x = (if Entry_x x \<in> set es then Some x else cs_x st),
     cs_y = (if Entry_y y \<in> set es then Some y else cs_y st),
     cs_kty = (Entry_kty \<in> set es \<or> cs_kty st), cs_crv = (Entry_crv \<in> set es \<or> cs_crv st)\<rparr>"
  using assms
proof (induction es arbitrary: st)
  case (Cons e es)
  then show ?case by auto
qed simp

lemma parse_entries:
  assumes "key_entries x y es" and "length x = 32" and "length y = 32"
  shows "\<exists>q. parse_cose_p256_key (pre @ 0xA5 # concat (map entry_bytes es) @ rest) (length pre) = Gives (x, y, q)"
proof -
  have set: "set es = {Entry_kty, Entry_alg, Entry_crv, Entry_x x, Entry_y y}" and "distinct es"
    using assms(1) by (simp_all add: key_entries_def)
  then have len: "length es = 5" using distinct_card [of es] by simp
  have sized: "\<forall>e \<in> set es. entry_sized e" using set assms(2,3) by auto
  have "cose_pairs (pre @ 0xA5 # concat (map entry_bytes es) @ rest) 5 (length pre + 1) cose_start =
      Gives (length pre + 1 + length (concat (map entry_bytes es)), foldl (\<lambda>st e. entry_effect e st) cose_start es)"
    using cose_pairs_entries [OF sized, of "pre @ [0xA5]" rest cose_start] by (simp add: len)
  then show ?thesis
    using fold_effects [of es x y cose_start] set by (simp add: parse_cose_p256_key_def heads)
qed

lemma be_value_snoc: "be_value (bs @ [b]) = 256 * be_value bs + ucast b"
proof -
  have "push_bit 8 v OR ucast b = push_bit 8 v + (ucast b :: 64 word)" for v
    by (rule disjunctive_add [symmetric]) (auto simp: bit_simps dest: bit_imp_le_length)
  then show ?thesis by (simp add: be_value_def push_bit_eq_mult)
qed

lemma be_bytes_Suc: "be_bytes (Suc n) v = be_bytes n (v div 256) @ [of_nat v]"
  by (auto simp: be_bytes_def div_mult2_eq [symmetric] power_Suc [symmetric] Suc_diff_Suc simp del: power_Suc
      intro!: arg_cong [of _ _ "\<lambda>e. of_nat (v div 256 ^ e)"])

lemma be_bytes_length [simp]: "length (be_bytes n v) = n" by (simp add: be_bytes_def)

lemma be_value_bytes: "v < 256 ^ n \<Longrightarrow> be_value (be_bytes n v) = of_nat v"
proof (induction n arbitrary: v)
  case 0
  then show ?case by (simp add: be_bytes_def be_value_def)
next
  case (Suc n)
  have "v div 256 < 256 ^ n" using Suc.prems by (simp add: less_mult_imp_div_less mult.commute)
  then have "be_value (be_bytes (Suc n) v) = 256 * of_nat (v div 256) + ucast (of_nat v :: byte)"
    by (simp add: be_bytes_Suc be_value_snoc Suc.IH)
  also have "ucast (of_nat v :: byte) = (of_nat (v mod 256) :: 64 word)"
    by (simp add: unsigned_of_nat take_bit_eq_mod)
  also have "256 * of_nat (v div 256) + of_nat (v mod 256) = (of_nat (256 * (v div 256) + v mod 256) :: 64 word)"
    by (simp only: of_nat_add of_nat_mult of_nat_numeral)
  finally show ?case by simp
qed

lemma rd_slice_at: "p = length pre \<Longrightarrow> n = length bs \<Longrightarrow> rd_slice (pre @ bs @ rest) p n = Gives bs"
  by (simp add: rd_slice_def)

text \<open>What an authenticator registers is what the server reads: authenticator data with the flag of
  attested data, any counter of 32 bits, any credential id a length of 16 bits can name and the five
  entries of a P-256 key in any order, followed by anything, parses to exactly that identity hash,
  those flags, that counter, that id and those coordinates.\<close>

theorem webauthn_registration_roundtrip:
  assumes "length rp = 32" and "flags AND METALBEAR_WEBAUTHN_FLAG_AT \<noteq> 0" and "count < 2 ^ 32"
    and "length aaguid = 16" and "length cred < 2 ^ 16"
    and "key_entries x y es" and "length x = 32" and "length y = 32"
  shows "metalbear_webauthn_parse_registration_auth_data (auth_data rp flags count aaguid cred es @ rest) =
    Gives \<lparr>ac_rp_id_hash = rp, ac_flags = flags, ac_sign_count = of_nat count,
           ac_credential_id = cred, ac_x = x, ac_y = y\<rparr>"
proof -
  let ?tail = "cred @ 0xA5 # concat (map entry_bytes es) @ rest"
  let ?data = "auth_data rp flags count aaguid cred es @ rest"
  have data: "?data = rp @ [flags] @ be_bytes 4 count @ aaguid @ be_bytes 2 (length cred) @ ?tail"
    by (simp add: auth_data_def)
  have c: "be_value (be_bytes 4 count) = of_nat count" "be_value (be_bytes 2 (length cred)) = of_nat (length cred)"
    using assms(3,5) by (simp_all add: be_value_bytes)
  have n: "unat (of_nat (length cred) :: 64 word) = length cred"
    using assms(5) by (simp add: unat_of_nat take_bit_nat_eq_self)
  have u: "ucast (of_nat count :: 64 word) = (of_nat count :: 32 word)"
    using assms(3) by (simp add: unsigned_of_nat take_bit_nat_eq_self)
  have head: "metalbear_webauthn_parse_assertion_auth_data ?data = Gives (rp, flags, of_nat count)"
    using rd_slice_at [of 0 "[]" 32 rp] rd_slice_at [of 32 rp 1 "[flags]"]
      rd_slice_at [of 33 "rp @ [flags]" 4 "be_bytes 4 count"] assms(1) c(1) u
    by (simp add: metalbear_webauthn_parse_assertion_auth_data_def data)
  have len: "rd_slice ?data 53 2 = Gives (be_bytes 2 (length cred))"
    using rd_slice_at [of 53 "rp @ [flags] @ be_bytes 4 count @ aaguid" 2 "be_bytes 2 (length cred)"] assms(1,4)
    by (simp add: data)
  have id: "rd_slice ?data 55 (length cred) = Gives cred"
    using rd_slice_at [of 55 "rp @ [flags] @ be_bytes 4 count @ aaguid @ be_bytes 2 (length cred)" "length cred" cred]
      assms(1,4) by (simp add: data)
  obtain q where "parse_cose_p256_key ?data (55 + length cred) = Gives (x, y, q)"
    using parse_entries [OF assms(6-8),
        of "rp @ [flags] @ be_bytes 4 count @ aaguid @ be_bytes 2 (length cred) @ cred" rest] assms(1,4)
    by (auto simp: data)
  then show ?thesis
    using assms(1,2,4) head len id c(2) n
    by (simp add: metalbear_webauthn_parse_registration_auth_data_def Let_def data)
qed

theorem webauthn_registration_roundtrip_witness:
  "metalbear_webauthn_parse_registration_auth_data
     (auth_data (replicate 32 9) 0x45 258 (replicate 16 0) [1, 2, 3]
        [Entry_y (replicate 32 4), Entry_crv, Entry_alg, Entry_x (replicate 32 3), Entry_kty] @ [0xFF]) =
   Gives \<lparr>ac_rp_id_hash = replicate 32 9, ac_flags = 0x45, ac_sign_count = 258,
          ac_credential_id = [1, 2, 3], ac_x = replicate 32 3, ac_y = replicate 32 4\<rparr>"
  using webauthn_registration_roundtrip [of "replicate 32 9" "0x45" 258 "replicate 16 0" "[1, 2, 3]"
      "replicate 32 3" "replicate 32 4"
      "[Entry_y (replicate 32 4), Entry_crv, Entry_alg, Entry_x (replicate 32 3), Entry_kty]" "[0xFF]"]
  by (auto simp: METALBEAR_WEBAUTHN_FLAG_AT_def key_entries_def simp del: replicate.simps)

end
