(* ===== verification/Schema_Version.thy ===== *)
theory Schema_Version
  imports MB_Prelude
begin

text \<open>
  \<open>src/storage/schema_version.c\<close>: the version each SQLite file carries, checked and stamped by every
  store that opens one. Whether the query of it runs and the stamp is written are the arguments.
\<close>

record schema_io =
  ro_version_query :: sql_fate
  ro_stamp :: bool

definition METALBEAR_SCHEMA_VERSION :: int where "METALBEAR_SCHEMA_VERSION = 1"

definition metalbear_schema_open :: "'a schema_io_scheme \<Rightarrow> int \<Rightarrow> wf_status \<times> int" where
  "metalbear_schema_open io version =
     (if ro_version_query io = SQL_UNPREPARED then (WF_ERR_INTERNAL, version)
      else (let found = (if ro_version_query io = SQL_RUNS then version else 0)
            in if found > METALBEAR_SCHEMA_VERSION then (WF_ERR_INTERNAL, version)
               else if found = 0
               then (if ro_stamp io then (WF_OK, METALBEAR_SCHEMA_VERSION) else (WF_ERR_INTERNAL, version))
               else (WF_OK, version)))"

end
