(* ===== verification/Account_Registry.thy ===== *)
theory Account_Registry
  imports Schema_Version "HOL-Library.List_Lexorder" "HOL-Library.Char_ord" "HOL-Library.Product_Lexorder"
begin

text \<open>
  \<open>cpp/metalbear/account_registry.cpp\<close>: the host's table of accounts, its invite codes and their
  redemptions, and the takedowns of accounts, records and blobs; and the opening of its file with the
  migrations. A table is the list of its rows
  in the order of their row numbers. What the world answers a call is the record \<open>registry_io\<close>: the
  fate of each SQLite statement by its number, the reading of SQLite's clock by that number, and how
  many rows a listing gives before its step fails. Memory does not run out. A call holds the mutex
  throughout, so a call is one step.
\<close>

section \<open>The tables\<close>

record account_row =
  aw_did :: string
  aw_handle :: string
  aw_password_hash :: string
  aw_data_directory :: string
  aw_active :: int
  aw_email :: "string option"
  aw_created_at :: string

record invite_row =
  iv_code :: string
  iv_for_account :: string
  iv_uses_remaining :: int
  iv_disabled :: bool
  iv_created_by :: "string option"
  iv_created_at :: string

record invite_use_row =
  iu_code :: string
  iu_used_by :: string
  iu_used_at :: string

record takedown_row =
  td_did :: "string option"
  td_uri :: "string option"
  td_blob_cid :: "string option"
  td_ref :: string
  td_created_at :: string

record account_registry =
  rg_accounts :: "account_row list"
  rg_invites :: "invite_row list"
  rg_uses :: "invite_use_row list"
  rg_takedowns :: "takedown_row list"

record registry_io =
  ri_now :: "nat \<Rightarrow> string"
  ri_sql :: "nat \<Rightarrow> sql_fate"
  ri_reads :: nat

section \<open>The directory of an account\<close>

definition metalbear_account_dir_for_did :: "string \<Rightarrow> string \<Rightarrow> wf_status + string" where
  "metalbear_account_dir_for_did root_dir did =
     (if did = '''' then Inl WF_ERR_INVALID_ARG
      else (let enc = map (\<lambda>c. if c = CHR '':'' then CHR ''_'' else c) did
            in Inr (if root_dir \<noteq> '''' \<and> last root_dir = CHR ''/'' then root_dir @ enc
                    else root_dir @ ''/'' @ enc)))"

section \<open>Accounts\<close>

text \<open>The entry a caller gets of a row.\<close>

record account_entry =
  en_did :: string
  en_handle :: string
  en_password_hash :: string
  en_data_directory :: string
  en_active :: int
  en_email :: string
  en_created_at :: string

definition read_entry :: "account_row \<Rightarrow> account_entry" where
  "read_entry r =
     \<lparr>en_did = aw_did r, en_handle = aw_handle r, en_password_hash = aw_password_hash r,
      en_data_directory = aw_data_directory r, en_active = aw_active r,
      en_email = (case aw_email r of Some e \<Rightarrow> e | None \<Rightarrow> ''''), en_created_at = aw_created_at r\<rparr>"

text \<open>The primary key and the unique handle are SQLite's to refuse.\<close>

definition metalbear_account_registry_add_with_email ::
  "registry_io \<Rightarrow> string \<Rightarrow> string \<Rightarrow> string \<Rightarrow> string \<Rightarrow> string option \<Rightarrow> bool \<Rightarrow>
   account_registry \<Rightarrow> wf_status \<times> account_registry" where
  "metalbear_account_registry_add_with_email io did handle password_hash data_directory email active reg =
     (case ri_sql io 0 of
        SQL_RUNS \<Rightarrow>
          if list_ex (\<lambda>r. aw_did r = did \<or> aw_handle r = handle) (rg_accounts reg)
          then (WF_ERR_CONFLICT, reg)
          else (WF_OK, reg\<lparr>rg_accounts := rg_accounts reg @
                 [\<lparr>aw_did = did, aw_handle = handle, aw_password_hash = password_hash,
                   aw_data_directory = data_directory, aw_active = (if active then 1 else 0),
                   aw_email = (if email = Some '''' then None else email),
                   aw_created_at = ri_now io 0\<rparr>]\<rparr>)
      | _ \<Rightarrow> (WF_ERR_INTERNAL, reg))"

definition metalbear_account_registry_add ::
  "registry_io \<Rightarrow> string \<Rightarrow> string \<Rightarrow> string \<Rightarrow> string \<Rightarrow> account_registry \<Rightarrow> wf_status \<times> account_registry" where
  "metalbear_account_registry_add io did handle password_hash data_directory reg =
     metalbear_account_registry_add_with_email io did handle password_hash data_directory None True reg"

text \<open>A step that fails is answered as a row that is not there.\<close>

definition found_account :: "registry_io \<Rightarrow> (account_row \<Rightarrow> bool) \<Rightarrow> account_registry \<Rightarrow> wf_status + account_entry" where
  "found_account io matches reg =
     (case ri_sql io 0 of
        SQL_UNPREPARED \<Rightarrow> Inl WF_ERR_INTERNAL
      | SQL_STEP_FAILS \<Rightarrow> Inl WF_ERR_NOT_FOUND
      | SQL_RUNS \<Rightarrow> (case find matches (rg_accounts reg) of
                      Some r \<Rightarrow> Inr (read_entry r) | None \<Rightarrow> Inl WF_ERR_NOT_FOUND))"

definition metalbear_account_registry_find_by_handle ::
  "registry_io \<Rightarrow> string \<Rightarrow> account_registry \<Rightarrow> wf_status + account_entry" where
  "metalbear_account_registry_find_by_handle io handle reg = found_account io (\<lambda>r. aw_handle r = handle) reg"

definition metalbear_account_registry_find_by_did ::
  "registry_io \<Rightarrow> string \<Rightarrow> account_registry \<Rightarrow> wf_status + account_entry" where
  "metalbear_account_registry_find_by_did io did reg = found_account io (\<lambda>r. aw_did r = did) reg"

definition metalbear_account_registry_find_by_email ::
  "registry_io \<Rightarrow> string \<Rightarrow> account_registry \<Rightarrow> wf_status + account_entry" where
  "metalbear_account_registry_find_by_email io email reg =
     (if email = '''' then Inl WF_ERR_INVALID_ARG
      else found_account io (\<lambda>r. aw_email r = Some email) reg)"

text \<open>A listing stops at the first step that gives no row, whether there is none or it failed.\<close>

definition listed :: "registry_io \<Rightarrow> ('a \<Rightarrow> 'b) \<Rightarrow> 'a list \<Rightarrow> wf_status + 'b list" where
  "listed io entry rows =
     (if ri_sql io 0 = SQL_UNPREPARED then Inl WF_ERR_INTERNAL
      else Inr (map entry (take (ri_reads io) rows)))"

definition metalbear_account_registry_list :: "registry_io \<Rightarrow> account_registry \<Rightarrow> wf_status + account_entry list" where
  "metalbear_account_registry_list io reg = listed io read_entry (sort_key aw_handle (rg_accounts reg))"

definition metalbear_account_registry_list_after ::
  "registry_io \<Rightarrow> string option \<Rightarrow> nat \<Rightarrow> account_registry \<Rightarrow> wf_status + account_entry list" where
  "metalbear_account_registry_list_after io after limit reg =
     (if limit = 0 then Inl WF_ERR_INVALID_ARG
      else listed io read_entry
        (take limit (sort_key aw_did
          (filter (\<lambda>r. (case after of Some a \<Rightarrow> a | None \<Rightarrow> '''') < aw_did r) (rg_accounts reg)))))"

definition metalbear_account_registry_remove ::
  "registry_io \<Rightarrow> string \<Rightarrow> account_registry \<Rightarrow> wf_status \<times> account_registry" where
  "metalbear_account_registry_remove io did reg =
     (case ri_sql io 0 of
        SQL_RUNS \<Rightarrow> (WF_OK, reg\<lparr>rg_accounts := filter (\<lambda>r. aw_did r \<noteq> did) (rg_accounts reg)\<rparr>)
      | _ \<Rightarrow> (WF_ERR_INTERNAL, reg))"

definition metalbear_account_registry_update_handle ::
  "registry_io \<Rightarrow> string \<Rightarrow> string \<Rightarrow> account_registry \<Rightarrow> wf_status \<times> account_registry" where
  "metalbear_account_registry_update_handle io did new_handle reg =
     (case ri_sql io 0 of
        SQL_RUNS \<Rightarrow>
          if list_ex (\<lambda>r. aw_did r = did) (rg_accounts reg) \<and>
             list_ex (\<lambda>r. aw_did r \<noteq> did \<and> aw_handle r = new_handle) (rg_accounts reg)
          then (WF_ERR_INTERNAL, reg)
          else (WF_OK, reg\<lparr>rg_accounts :=
                 map (\<lambda>r. if aw_did r = did then r\<lparr>aw_handle := new_handle\<rparr> else r) (rg_accounts reg)\<rparr>)
      | _ \<Rightarrow> (WF_ERR_INTERNAL, reg))"

section \<open>Invite codes\<close>

text \<open>Each code is inserted on its own; the first that cannot be ends the call, those before it stay.\<close>

fun insert_invites ::
  "registry_io \<Rightarrow> string \<Rightarrow> int \<Rightarrow> nat \<Rightarrow> string list \<Rightarrow> invite_row list \<Rightarrow> wf_status \<times> invite_row list" where
  "insert_invites io for_account use_count i [] rows = (WF_OK, rows)"
| "insert_invites io for_account use_count i (code # codes) rows =
     (if ri_sql io i \<noteq> SQL_RUNS \<or> list_ex (\<lambda>r. iv_code r = code) rows then (WF_ERR_INTERNAL, rows)
      else insert_invites io for_account use_count (Suc i) codes
             (rows @ [\<lparr>iv_code = code, iv_for_account = for_account, iv_uses_remaining = use_count,
                       iv_disabled = False, iv_created_by = None, iv_created_at = ri_now io i\<rparr>]))"

definition metalbear_account_registry_create_invite_codes ::
  "registry_io \<Rightarrow> string \<Rightarrow> string list \<Rightarrow> int \<Rightarrow> account_registry \<Rightarrow> wf_status \<times> account_registry" where
  "metalbear_account_registry_create_invite_codes io for_account codes use_count reg =
     (if codes = [] \<or> use_count < 1 then (WF_ERR_INVALID_ARG, reg)
      else (case insert_invites io for_account use_count 0 codes (rg_invites reg) of
              (status, rows) \<Rightarrow> (status, reg\<lparr>rg_invites := rows\<rparr>)))"

text \<open>The statements are the query, the decrement and the record of the use; only the query's fate counts.\<close>

definition invite_status :: "registry_io \<Rightarrow> string \<Rightarrow> account_registry \<Rightarrow> wf_status" where
  "invite_status io code reg =
     (if ri_sql io 0 \<noteq> SQL_RUNS then WF_ERR_NOT_FOUND
      else (case find (\<lambda>r. iv_code r = code) (rg_invites reg) of
              None \<Rightarrow> WF_ERR_NOT_FOUND
            | Some r \<Rightarrow> if iv_disabled r then WF_ERR_CONFLICT
                        else if iv_uses_remaining r > 0 then WF_OK else WF_ERR_NOT_FOUND))"

definition spend_invite :: "string \<Rightarrow> invite_row list \<Rightarrow> invite_row list" where
  "spend_invite code rows =
     map (\<lambda>r. if iv_code r = code \<and> iv_uses_remaining r > 0
              then r\<lparr>iv_uses_remaining := iv_uses_remaining r - 1\<rparr> else r) rows"

definition metalbear_account_registry_consume_invite_code ::
  "registry_io \<Rightarrow> string \<Rightarrow> string \<Rightarrow> account_registry \<Rightarrow> wf_status \<times> account_registry" where
  "metalbear_account_registry_consume_invite_code io code used_by reg =
     (let status = invite_status io code reg
      in if status \<noteq> WF_OK then (status, reg)
         else (WF_OK,
           reg\<lparr>rg_invites := (if ri_sql io 1 = SQL_RUNS then spend_invite code (rg_invites reg)
                              else rg_invites reg),
               rg_uses := (if ri_sql io 2 = SQL_RUNS
                           then rg_uses reg @ [\<lparr>iu_code = code, iu_used_by = used_by, iu_used_at = ri_now io 2\<rparr>]
                           else rg_uses reg)\<rparr>))"

definition metalbear_account_registry_get_invite_codes ::
  "registry_io \<Rightarrow> string \<Rightarrow> account_registry \<Rightarrow> wf_status + invite_row list" where
  "metalbear_account_registry_get_invite_codes io did reg =
     listed io id (sort_desc iv_created_at
       (filter (\<lambda>r. iv_for_account r = did \<or> iv_created_by r = Some did) (rg_invites reg)))"

text \<open>A missing and an empty cursor are the same.\<close>

definition given_text :: "string option \<Rightarrow> bool" where
  "given_text s = (s \<noteq> None \<and> s \<noteq> Some '''')"

definition newest_first :: "invite_row \<Rightarrow> string \<times> string" where
  "newest_first r = (iv_created_at r, iv_code r)"

definition metalbear_account_registry_list_invite_codes ::
  "registry_io \<Rightarrow> string option \<Rightarrow> string option \<Rightarrow> nat \<Rightarrow> account_registry \<Rightarrow> wf_status + invite_row list" where
  "metalbear_account_registry_list_invite_codes io after_created_at after_code limit reg =
     (if limit = 0 then Inl WF_ERR_INVALID_ARG
      else listed io id (take limit (sort_desc newest_first
        (if given_text after_created_at \<and> given_text after_code
         then filter (\<lambda>r. iv_created_at r < the after_created_at \<or>
                iv_created_at r = the after_created_at \<and> iv_code r < the after_code) (rg_invites reg)
         else rg_invites reg))))"

definition use_count :: "account_registry \<Rightarrow> string \<Rightarrow> int" where
  "use_count reg code = int (length (filter (\<lambda>u. iu_code u = code) (rg_uses reg)))"

definition most_used_first :: "account_registry \<Rightarrow> invite_row \<Rightarrow> int \<times> string" where
  "most_used_first reg r = (use_count reg (iv_code r), iv_code r)"

definition metalbear_account_registry_list_invite_codes_by_usage ::
  "registry_io \<Rightarrow> int \<Rightarrow> string option \<Rightarrow> nat \<Rightarrow> account_registry \<Rightarrow> wf_status + invite_row list" where
  "metalbear_account_registry_list_invite_codes_by_usage io after_uses after_code limit reg =
     (if limit = 0 then Inl WF_ERR_INVALID_ARG
      else listed io id (take limit (sort_desc (most_used_first reg)
        (if given_text after_code
         then filter (\<lambda>r. use_count reg (iv_code r) < after_uses \<or>
                use_count reg (iv_code r) = after_uses \<and> iv_code r < the after_code) (rg_invites reg)
         else rg_invites reg))))"

text \<open>The code of the earliest of the account's uses whose code is in the table.\<close>

definition bound_text :: "string option \<Rightarrow> string" where
  "bound_text s = (case s of Some t \<Rightarrow> t | None \<Rightarrow> '''')"

definition metalbear_account_registry_get_invite_code_for_account ::
  "registry_io \<Rightarrow> string option \<Rightarrow> string option \<Rightarrow> account_registry \<Rightarrow> wf_status + invite_row" where
  "metalbear_account_registry_get_invite_code_for_account io did handle reg =
     (if did = None \<and> handle = None then Inl WF_ERR_INVALID_ARG
      else if ri_sql io 0 \<noteq> SQL_RUNS then Inl WF_ERR_NOT_FOUND
      else (case sort_key iu_used_at (filter (\<lambda>u.
                   (iu_used_by u = bound_text did \<or> iu_used_by u = bound_text handle) \<and>
                   list_ex (\<lambda>r. iv_code r = iu_code u) (rg_invites reg)) (rg_uses reg)) of
              [] \<Rightarrow> Inl WF_ERR_NOT_FOUND
            | u # us \<Rightarrow> (case find (\<lambda>r. iv_code r = iu_code u) (rg_invites reg) of
                          Some r \<Rightarrow> Inr r | None \<Rightarrow> Inl WF_ERR_NOT_FOUND)))"

definition metalbear_account_registry_get_invite_code_uses ::
  "registry_io \<Rightarrow> string \<Rightarrow> account_registry \<Rightarrow> wf_status + (string \<times> string) list" where
  "metalbear_account_registry_get_invite_code_uses io code reg =
     listed io (\<lambda>u. (iu_used_by u, iu_used_at u))
       (sort_key iu_used_at (filter (\<lambda>u. iu_code u = code) (rg_uses reg)))"

text \<open>The rows an update matches count as changed, disabled before or not.\<close>

fun disable_each ::
  "registry_io \<Rightarrow> (invite_row \<Rightarrow> string) \<Rightarrow> nat \<Rightarrow> string list \<Rightarrow> nat \<Rightarrow> invite_row list \<Rightarrow> nat \<times> nat \<times> invite_row list" where
  "disable_each io column i [] touched rows = (i, touched, rows)"
| "disable_each io column i (x # xs) touched rows =
     (if x = '''' then disable_each io column i xs touched rows
      else if ri_sql io i \<noteq> SQL_RUNS then disable_each io column (Suc i) xs touched rows
      else disable_each io column (Suc i) xs (touched + length (filter (\<lambda>r. column r = x) rows))
             (map (\<lambda>r. if column r = x then r\<lparr>iv_disabled := True\<rparr> else r) rows))"

definition metalbear_account_registry_disable_invite_codes ::
  "registry_io \<Rightarrow> string list \<Rightarrow> string list \<Rightarrow> account_registry \<Rightarrow> wf_status \<times> account_registry" where
  "metalbear_account_registry_disable_invite_codes io codes accounts reg =
     (if codes = [] \<and> accounts = [] then (WF_ERR_INVALID_ARG, reg)
      else (case disable_each io iv_code 0 codes 0 (rg_invites reg) of
              (i, touched, rows) \<Rightarrow>
                (case disable_each io iv_for_account i accounts touched rows of
                   (_, touched', rows') \<Rightarrow>
                     (if touched' > 0 then WF_OK else WF_ERR_NOT_FOUND, reg\<lparr>rg_invites := rows'\<rparr>))))"

section \<open>Takedowns\<close>

definition takedown_subject_valid :: "string option \<Rightarrow> string option \<Rightarrow> string option \<Rightarrow> bool" where
  "takedown_subject_valid did uri blob_cid =
     (let has_did = given_text did; has_uri = given_text uri; has_cid = given_text blob_cid
      in if has_uri then \<not> has_did \<and> \<not> has_cid else if has_cid then has_did else has_did)"

text \<open>An empty text is bound as NULL, and \<open>IS\<close> makes NULL equal to itself.\<close>

definition bind_text_or_null :: "string option \<Rightarrow> string option" where
  "bind_text_or_null s = (if given_text s then s else None)"

definition is_subject :: "string option \<Rightarrow> string option \<Rightarrow> string option \<Rightarrow> takedown_row \<Rightarrow> bool" where
  "is_subject did uri blob_cid r =
     (td_did r = bind_text_or_null did \<and> td_uri r = bind_text_or_null uri \<and>
      td_blob_cid r = bind_text_or_null blob_cid)"

definition metalbear_account_registry_set_takedown ::
  "registry_io \<Rightarrow> string option \<Rightarrow> string option \<Rightarrow> string option \<Rightarrow> string option \<Rightarrow>
   account_registry \<Rightarrow> wf_status \<times> account_registry" where
  "metalbear_account_registry_set_takedown io did uri blob_cid ref reg =
     (if \<not> takedown_subject_valid did uri blob_cid then (WF_ERR_INVALID_ARG, reg)
      else (let kept = (if ri_sql io 0 = SQL_RUNS
                        then filter (\<lambda>r. \<not> is_subject did uri blob_cid r) (rg_takedowns reg)
                        else rg_takedowns reg)
            in (WF_OK, reg\<lparr>rg_takedowns :=
                 (if given_text ref \<and> ri_sql io 1 = SQL_RUNS
                  then kept @ [\<lparr>td_did = bind_text_or_null did, td_uri = bind_text_or_null uri,
                                td_blob_cid = bind_text_or_null blob_cid, td_ref = the ref,
                                td_created_at = ri_now io 1\<rparr>]
                  else kept)\<rparr>)))"

text \<open>A step that fails is answered as a subject that is not taken down.\<close>

definition metalbear_account_registry_get_takedown ::
  "registry_io \<Rightarrow> string option \<Rightarrow> string option \<Rightarrow> string option \<Rightarrow> account_registry \<Rightarrow>
   wf_status + string option" where
  "metalbear_account_registry_get_takedown io did uri blob_cid reg =
     (if \<not> takedown_subject_valid did uri blob_cid then Inl WF_ERR_INVALID_ARG
      else (case ri_sql io 0 of
              SQL_UNPREPARED \<Rightarrow> Inl WF_ERR_INTERNAL
            | SQL_STEP_FAILS \<Rightarrow> Inr None
            | SQL_RUNS \<Rightarrow> Inr (map_option td_ref (find (is_subject did uri blob_cid) (rg_takedowns reg)))))"

text \<open>
  The prefix is cut to its 512 bytes, the length compared is not. \<open>substr\<close> counts characters, which
  are bytes in the ASCII of a DID and a record's URI.
\<close>

definition records_prefix :: "string \<Rightarrow> string" where
  "records_prefix did = ''at://'' @ did @ ''/''"

definition metalbear_account_registry_clear_takedowns_for_did ::
  "registry_io \<Rightarrow> string \<Rightarrow> account_registry \<Rightarrow> wf_status \<times> account_registry" where
  "metalbear_account_registry_clear_takedowns_for_did io did reg =
     (if did = '''' then (WF_ERR_INVALID_ARG, reg)
      else if ri_sql io 0 \<noteq> SQL_RUNS then (WF_ERR_INTERNAL, reg)
      else (WF_OK, reg\<lparr>rg_takedowns := filter (\<lambda>r. \<not> (td_did r = Some did \<or>
              (case td_uri r of
                 Some uri \<Rightarrow> take (length (records_prefix did)) uri = snprintf_cut 512 (records_prefix did)
               | None \<Rightarrow> False))) (rg_takedowns reg)\<rparr>))"

section \<open>Opening the file\<close>

text \<open>
  The file as its schema stands: its version, whether it has the table of accounts and that table
  the two columns added later. A row without the column of its creation carries the empty text.
\<close>

record registry_file =
  rf_version :: int
  rf_accounts_table :: bool
  rf_created_column :: bool
  rf_email_column :: bool
  rf_tables :: account_registry

text \<open>
  What the world answers: \<open>ro_create\<close> is how many of the five statements that create the tables ran,
  \<open>ro_fix\<close> how many of the four that correct timestamps did.
\<close>

record open_io = schema_io +
  ro_open :: bool
  ro_create :: nat
  ro_add_created :: bool
  ro_date_rows :: bool
  ro_add_email :: bool
  ro_fix :: nat
  ro_now :: string

definition create_tables :: "open_io \<Rightarrow> registry_file \<Rightarrow> bool \<times> registry_file" where
  "create_tables io f =
     (5 \<le> ro_create io,
      if \<not> rf_accounts_table f \<and> 2 \<le> ro_create io
      then f\<lparr>rf_accounts_table := True, rf_created_column := True, rf_email_column := False\<rparr> else f)"

text \<open>The column that exists is a duplicate, the error that is let pass; the rows are then not dated.\<close>

definition add_created_at :: "open_io \<Rightarrow> registry_file \<Rightarrow> bool \<times> registry_file" where
  "add_created_at io f =
     (if \<not> ro_add_created io then (False, f)
      else if rf_created_column f then (True, f)
      else if ro_date_rows io
      then (True, f\<lparr>rf_created_column := True, rf_tables := (rf_tables f)\<lparr>rg_accounts :=
              map (\<lambda>r. if aw_created_at r = '''' then r\<lparr>aw_created_at := ro_now io\<rparr> else r)
                (rg_accounts (rf_tables f))\<rparr>\<rparr>)
      else (False, f\<lparr>rf_created_column := True\<rparr>))"

definition add_email :: "open_io \<Rightarrow> registry_file \<Rightarrow> bool \<times> registry_file" where
  "add_email io f = (if ro_add_email io then (True, f\<lparr>rf_email_column := True\<rparr>) else (False, f))"

text \<open>\<open>LIKE\<close> takes small letters for capital ones.\<close>

definition rfc3339 :: "string \<Rightarrow> string" where
  "rfc3339 s =
     (if CHR '' '' \<in> set s \<and> CHR ''T'' \<notin> set s \<and> CHR ''t'' \<notin> set s
      then map (\<lambda>c. if c = CHR '' '' then CHR ''T'' else c) s @ ''.000Z'' else s)"

definition fix_times :: "nat \<Rightarrow> account_registry \<Rightarrow> account_registry" where
  "fix_times n reg = reg
     \<lparr>rg_accounts := (if 1 \<le> n then map (\<lambda>r. r\<lparr>aw_created_at := rfc3339 (aw_created_at r)\<rparr>) (rg_accounts reg)
                      else rg_accounts reg),
      rg_invites := (if 2 \<le> n then map (\<lambda>r. r\<lparr>iv_created_at := rfc3339 (iv_created_at r)\<rparr>) (rg_invites reg)
                     else rg_invites reg),
      rg_uses := (if 3 \<le> n then map (\<lambda>r. r\<lparr>iu_used_at := rfc3339 (iu_used_at r)\<rparr>) (rg_uses reg)
                  else rg_uses reg),
      rg_takedowns := (if 4 \<le> n then map (\<lambda>r. r\<lparr>td_created_at := rfc3339 (td_created_at r)\<rparr>) (rg_takedowns reg)
                       else rg_takedowns reg)\<rparr>"

definition metalbear_account_registry_open :: "open_io \<Rightarrow> registry_file \<Rightarrow> wf_status \<times> registry_file" where
  "metalbear_account_registry_open io f0 =
     (if \<not> ro_open io then (WF_ERR_INTERNAL, f0)
      else (case metalbear_schema_open io (rf_version f0) of
        (status, version) \<Rightarrow>
          (let f1 = f0\<lparr>rf_version := version\<rparr>
           in if status \<noteq> WF_OK then (WF_ERR_INTERNAL, f1)
              else (case create_tables io f1 of
                (ok2, f2) \<Rightarrow>
                  if \<not> ok2 then (WF_ERR_INTERNAL, f2)
                  else (case add_created_at io f2 of
                    (ok3, f3) \<Rightarrow>
                      if \<not> ok3 then (WF_ERR_INTERNAL, f3)
                      else (case add_email io f3 of
                        (ok4, f4) \<Rightarrow>
                          if \<not> ok4 then (WF_ERR_INTERNAL, f4)
                          else (WF_OK, f4\<lparr>rf_tables := fix_times (ro_fix io) (rf_tables f4)\<rparr>)))))))"

section \<open>Calls and runs\<close>

text \<open>The calls that change the registry; a run keeps the list of the codes redeemed.\<close>

datatype registry_call =
    AddAccount string string string string "string option" bool
  | RemoveAccount string
  | UpdateHandle string string
  | CreateInvites string "string list" int
  | ConsumeInvite string string
  | DisableInvites "string list" "string list"
  | SetTakedown "string option" "string option" "string option" "string option"
  | ClearTakedowns string

fun run_call :: "registry_io \<Rightarrow> registry_call \<Rightarrow> account_registry \<Rightarrow> wf_status \<times> account_registry" where
  "run_call io (AddAccount did handle pw dir email active) reg =
     metalbear_account_registry_add_with_email io did handle pw dir email active reg"
| "run_call io (RemoveAccount did) reg = metalbear_account_registry_remove io did reg"
| "run_call io (UpdateHandle did handle) reg = metalbear_account_registry_update_handle io did handle reg"
| "run_call io (CreateInvites account codes n) reg =
     metalbear_account_registry_create_invite_codes io account codes n reg"
| "run_call io (ConsumeInvite code used_by) reg =
     metalbear_account_registry_consume_invite_code io code used_by reg"
| "run_call io (DisableInvites codes accounts) reg =
     metalbear_account_registry_disable_invite_codes io codes accounts reg"
| "run_call io (SetTakedown did uri cid ref) reg = metalbear_account_registry_set_takedown io did uri cid ref reg"
| "run_call io (ClearTakedowns did) reg = metalbear_account_registry_clear_takedowns_for_did io did reg"

fun redeems :: "registry_call \<Rightarrow> wf_status \<Rightarrow> string list" where
  "redeems (ConsumeInvite code used_by) WF_OK = [code]"
| "redeems c status = []"

text \<open>\<open>spends\<close> says what is assumed of the statements of a redemption.\<close>

inductive registry_step ::
  "(registry_io \<Rightarrow> bool) \<Rightarrow> string list \<times> account_registry \<Rightarrow> string list \<times> account_registry \<Rightarrow> bool"
  for spends :: "registry_io \<Rightarrow> bool" where
  call: "run_call io c reg = (status, reg') \<Longrightarrow> redeems c status \<noteq> [] \<longrightarrow> spends io \<Longrightarrow>
         registry_step spends (used, reg) (used @ redeems c status, reg')"

inductive_cases registry_stepE: "registry_step spends p q"

definition empty_registry :: account_registry where
  "empty_registry = \<lparr>rg_accounts = [], rg_invites = [], rg_uses = [], rg_takedowns = []\<rparr>"

lemmas registry_defs =
  metalbear_account_registry_add_with_email_def metalbear_account_registry_remove_def
  metalbear_account_registry_update_handle_def metalbear_account_registry_create_invite_codes_def
  metalbear_account_registry_consume_invite_code_def metalbear_account_registry_disable_invite_codes_def
  metalbear_account_registry_set_takedown_def metalbear_account_registry_clear_takedowns_for_did_def

section \<open>The table of accounts is a map\<close>

definition accounts_ok :: "account_registry \<Rightarrow> bool" where
  "accounts_ok reg \<longleftrightarrow>
     distinct (map aw_did (rg_accounts reg)) \<and> distinct (map aw_handle (rg_accounts reg))"

definition account_of :: "account_registry \<Rightarrow> string \<Rightarrow> account_row option" where
  "account_of reg did = find (\<lambda>r. aw_did r = did) (rg_accounts reg)"

lemma find_by_key:
  "distinct (map f xs) \<Longrightarrow> find (\<lambda>r. f r = k) xs = Some x \<longleftrightarrow> x \<in> set xs \<and> f x = k"
  by (induction xs) (auto simp: image_iff)

lemma account_of_iff:
  "accounts_ok reg \<Longrightarrow> account_of reg did = Some r \<longleftrightarrow> r \<in> set (rg_accounts reg) \<and> aw_did r = did"
  by (simp add: accounts_ok_def account_of_def find_by_key)

lemma find_None_ball: "find P xs = None \<longleftrightarrow> (\<forall>x \<in> set xs. \<not> P x)"
  by (induction xs) auto

lemma find_append: "find P (xs @ ys) = (case find P xs of None \<Rightarrow> find P ys | r \<Rightarrow> r)"
  by (induction xs) auto

lemma find_filter_other:
  "find (\<lambda>r. f r = k) (filter (\<lambda>r. f r \<noteq> d) xs) = (if k = d then None else find (\<lambda>r. f r = k) xs)"
  by (induction xs) auto

lemma find_map_same:
  assumes "\<And>r. P (g r) = P r"
  shows "find P (map g xs) = map_option g (find P xs)"
  by (induction xs) (auto simp: assms)

lemma run_accounts:
  assumes "run_call io c reg = (status, reg')"
    and "case c of AddAccount _ _ _ _ _ _ \<Rightarrow> False | RemoveAccount _ \<Rightarrow> False | UpdateHandle _ _ \<Rightarrow> False | _ \<Rightarrow> True"
  shows "rg_accounts reg' = rg_accounts reg"
  using assms by (cases c) (auto simp: registry_defs Let_def split: prod.splits if_splits)

lemma rename_handle:
  assumes "accounts_ok reg"
    and "(\<forall>r \<in> set (rg_accounts reg). aw_did r \<noteq> did) \<or>
         (\<forall>r \<in> set (rg_accounts reg). aw_did r = did \<or> aw_handle r \<noteq> handle)"
  shows "accounts_ok (reg\<lparr>rg_accounts :=
    map (\<lambda>r. if aw_did r = did then r\<lparr>aw_handle := handle\<rparr> else r) (rg_accounts reg)\<rparr>)"
proof -
  let ?g = "\<lambda>r :: account_row. if aw_did r = did then r\<lparr>aw_handle := handle\<rparr> else r"
  have dids: "map aw_did (map ?g xs) = map aw_did xs" for xs by simp
  have "distinct (map aw_handle (map ?g xs))"
    if "distinct (map aw_did xs)" "distinct (map aw_handle xs)"
      "(\<forall>r \<in> set xs. aw_did r \<noteq> did) \<or> (\<forall>r \<in> set xs. aw_did r = did \<or> aw_handle r \<noteq> handle)" for xs
    using that by (induction xs) (auto simp: image_iff)
  then show ?thesis using assms dids by (simp add: accounts_ok_def del: map_map)
qed

lemma accounts_ok_run:
  assumes "accounts_ok reg" and "run_call io c reg = (status, reg')"
  shows "accounts_ok reg'"
proof (cases c)
  case (AddAccount did handle pw dir email active)
  then show ?thesis
    using assms by (auto simp: accounts_ok_def registry_defs list_ex_iff split: sql_fate.splits if_splits)
next
  case (RemoveAccount did)
  then show ?thesis
    using assms by (auto simp: accounts_ok_def registry_defs distinct_map inj_on_def split: sql_fate.splits)
next
  case (UpdateHandle did handle)
  then show ?thesis
    using assms rename_handle [of reg did handle]
    by (auto simp: accounts_ok_def registry_defs list_ex_iff split: sql_fate.splits if_splits)
qed (use assms run_accounts [OF assms(2)] in \<open>simp_all add: accounts_ok_def\<close>)

interpretation registry_accounts: transition_system
  "\<lambda>p. p = ([], empty_registry)" "registry_step spends" "\<lambda>p. accounts_ok (snd p)" for spends
proof
  show "accounts_ok (snd p)" if "p = ([], empty_registry)" for p :: "string list \<times> account_registry"
    using that by (simp add: accounts_ok_def empty_registry_def)
  show "accounts_ok (snd q)" if "accounts_ok (snd p)" "registry_step spends p q" for p q
    using that by (auto elim!: registry_stepE intro: accounts_ok_run)
qed

lemma account_of_add:
  assumes "aw_did r = did" and "\<forall>x \<in> set (rg_accounts reg). aw_did x \<noteq> did"
  shows "account_of (reg\<lparr>rg_accounts := rg_accounts reg @ [r]\<rparr>) = (account_of reg)(did \<mapsto> r)"
proof
  fix d
  have "find (\<lambda>x. aw_did x = did) (rg_accounts reg) = None" using assms(2) by (simp add: find_None_ball)
  then show "account_of (reg\<lparr>rg_accounts := rg_accounts reg @ [r]\<rparr>) d = ((account_of reg)(did \<mapsto> r)) d"
    using assms(1) by (auto simp: account_of_def find_append split: option.split)
qed

lemma account_of_remove:
  "account_of (reg\<lparr>rg_accounts := filter (\<lambda>r. aw_did r \<noteq> did) (rg_accounts reg)\<rparr>) = (account_of reg)(did := None)"
  by (auto simp: account_of_def fun_eq_iff find_filter_other)

lemma account_of_rename:
  "account_of (reg\<lparr>rg_accounts :=
       map (\<lambda>r. if aw_did r = did then r\<lparr>aw_handle := handle\<rparr> else r) (rg_accounts reg)\<rparr>) =
     (account_of reg)(did := map_option (\<lambda>r. r\<lparr>aw_handle := handle\<rparr>) (account_of reg did))"
proof
  fix d
  have "find (\<lambda>r. aw_did r = d) (map (\<lambda>r. if aw_did r = did then r\<lparr>aw_handle := handle\<rparr> else r) xs) =
      map_option (\<lambda>r. if aw_did r = did then r\<lparr>aw_handle := handle\<rparr> else r) (find (\<lambda>r. aw_did r = d) xs)" for xs :: "account_row list"
    by (rule find_map_same) simp
  then show "account_of (reg\<lparr>rg_accounts :=
       map (\<lambda>r. if aw_did r = did then r\<lparr>aw_handle := handle\<rparr> else r) (rg_accounts reg)\<rparr>) d =
     ((account_of reg)(did := map_option (\<lambda>r. r\<lparr>aw_handle := handle\<rparr>) (account_of reg did))) d"
    by (cases "find (\<lambda>r. aw_did r = d) (rg_accounts reg)")
      (auto simp: account_of_def dest: find_SomeD)
qed

lemma find_by_did_map:
  assumes "ri_sql io 0 = SQL_RUNS"
  shows "metalbear_account_registry_find_by_did io did reg =
    (case account_of reg did of Some r \<Rightarrow> Inr (read_entry r) | None \<Rightarrow> Inl WF_ERR_NOT_FOUND)"
  using assms by (simp add: metalbear_account_registry_find_by_did_def found_account_def account_of_def)

lemma find_by_handle_map:
  assumes "accounts_ok reg" and "ri_sql io 0 = SQL_RUNS"
  shows "metalbear_account_registry_find_by_handle io handle reg = Inr e \<longleftrightarrow>
    (\<exists>did r. account_of reg did = Some r \<and> aw_handle r = handle \<and> e = read_entry r)"
proof -
  have d: "distinct (map aw_handle (rg_accounts reg))" using assms(1) by (simp add: accounts_ok_def)
  have "metalbear_account_registry_find_by_handle io handle reg = Inr e \<longleftrightarrow>
      (\<exists>r. find (\<lambda>r. aw_handle r = handle) (rg_accounts reg) = Some r \<and> e = read_entry r)"
    using assms(2) by (auto simp: metalbear_account_registry_find_by_handle_def found_account_def split: option.splits)
  then show ?thesis by (auto simp: find_by_key [OF d] account_of_iff [OF assms(1)])
qed


section \<open>No invite code outlives its uses\<close>

definition invites_ok :: "account_registry \<Rightarrow> bool" where
  "invites_ok reg \<longleftrightarrow> distinct (map iv_code (rg_invites reg))"

lemma insert_invites_grow:
  assumes "insert_invites io for_account n i codes rows = (status, rows')" and "distinct (map iv_code rows)"
  shows "distinct (map iv_code rows') \<and> (\<exists>new. rows' = rows @ new)"
  using assms
proof (induction io for_account n i codes rows rule: insert_invites.induct)
  case (2 io for_account n i code codes rows)
  then show ?case by (auto simp: list_ex_iff split: if_splits)
qed auto

text \<open>What a disabling may do to a row.\<close>

definition disables :: "(invite_row \<Rightarrow> invite_row) \<Rightarrow> bool" where
  "disables g \<longleftrightarrow> (\<forall>r. g r = r \<or> g r = r\<lparr>iv_disabled := True\<rparr>)"

lemma disables_comp: "disables g \<Longrightarrow> disables h \<Longrightarrow> disables (g \<circ> h)"
  unfolding disables_def
proof
  fix r
  assume g: "\<forall>r. g r = r \<or> g r = r\<lparr>iv_disabled := True\<rparr>" and h: "\<forall>r. h r = r \<or> h r = r\<lparr>iv_disabled := True\<rparr>"
  from h have "h r = r \<or> h r = r\<lparr>iv_disabled := True\<rparr>" by blast
  then show "(g \<circ> h) r = r \<or> (g \<circ> h) r = r\<lparr>iv_disabled := True\<rparr>"
    using g [rule_format, of "h r"] by auto
qed

lemma disable_each_rows:
  assumes "disable_each io column i xs touched rows = (j, touched', rows')"
  shows "\<exists>g. disables g \<and> rows' = map g rows"
  using assms
proof (induction xs arbitrary: i touched rows)
  case Nil
  then show ?case by (auto simp: disables_def intro!: exI [of _ id])
next
  case (Cons x xs)
  let ?f = "\<lambda>r :: invite_row. if column r = x then r\<lparr>iv_disabled := True\<rparr> else r"
  show ?case
  proof (cases "x = '''' \<or> ri_sql io i \<noteq> SQL_RUNS")
    case False
    then have "disable_each io column (Suc i) xs (touched + length (filter (\<lambda>r. column r = x) rows))
        (map ?f rows) = (j, touched', rows')"
      using Cons.prems by simp
    from Cons.IH [OF this] obtain g where g: "disables g" "rows' = map g (map ?f rows)" by blast
    have "disables ?f" by (simp add: disables_def)
    with g(1) have "disables (g \<circ> ?f)" by (rule disables_comp)
    moreover have "rows' = map (g \<circ> ?f) rows" using g(2) by simp
    ultimately show ?thesis by blast
  qed (use Cons in \<open>auto split: if_splits\<close>)
qed

text \<open>What is left of the uses of the code of \<open>r\<close> after the redemptions \<open>used\<close>.\<close>

definition uses_left :: "invite_row \<Rightarrow> string list \<times> account_registry \<Rightarrow> bool" where
  "uses_left r p \<longleftrightarrow> invites_ok (snd p) \<and>
     (\<exists>r' \<in> set (rg_invites (snd p)). iv_code r' = iv_code r \<and>
        iv_uses_remaining r' + int (count_list (fst p) (iv_code r)) = iv_uses_remaining r \<and>
        (0 \<le> iv_uses_remaining r \<longrightarrow> 0 \<le> iv_uses_remaining r') \<and>
        (iv_disabled r \<longrightarrow> iv_disabled r' \<and> iv_code r \<notin> set (fst p)))"

lemma run_invites:
  assumes "run_call io c reg = (status, reg')"
    and "case c of CreateInvites _ _ _ \<Rightarrow> False | ConsumeInvite _ _ \<Rightarrow> False | DisableInvites _ _ \<Rightarrow> False | _ \<Rightarrow> True"
  shows "rg_invites reg' = rg_invites reg \<and> redeems c status = []"
  using assms by (cases c) (auto simp: registry_defs Let_def split: prod.splits if_splits sql_fate.splits)

lemma invite_status_OK:
  assumes "invite_status io code reg = WF_OK" and "invites_ok reg"
    and "r \<in> set (rg_invites reg)" and "iv_code r = code"
  shows "\<not> iv_disabled r \<and> 0 < iv_uses_remaining r"
proof -
  have "find (\<lambda>r. iv_code r = code) (rg_invites reg) = Some r"
    using assms(2-4) by (simp add: invites_ok_def find_by_key)
  then show ?thesis using assms(1) by (simp add: invite_status_def split: if_splits)
qed

lemma spend_codes [simp]: "map iv_code (spend_invite code rows) = map iv_code rows"
  by (simp add: spend_invite_def)

lemma uses_left_consume:
  assumes "uses_left r (used, reg)" and "ri_sql io 1 = SQL_RUNS" and "invite_status io code reg = WF_OK"
    and "reg' = reg\<lparr>rg_invites := spend_invite code (rg_invites reg), rg_uses := uses\<rparr>"
  shows "uses_left r (used @ [code], reg')"
proof -
  obtain r' where r': "r' \<in> set (rg_invites reg)" "iv_code r' = iv_code r"
    "iv_uses_remaining r' + int (count_list used (iv_code r)) = iv_uses_remaining r"
    "0 \<le> iv_uses_remaining r \<longrightarrow> 0 \<le> iv_uses_remaining r'"
    "iv_disabled r \<longrightarrow> iv_disabled r' \<and> iv_code r \<notin> set used" and ok: "invites_ok reg"
    using assms(1) by (auto simp: uses_left_def)
  let ?r = "if iv_code r' = code then r'\<lparr>iv_uses_remaining := iv_uses_remaining r' - 1\<rparr> else r'"
  have pos: "iv_code r' = code \<Longrightarrow> \<not> iv_disabled r' \<and> 0 < iv_uses_remaining r'"
    using invite_status_OK [OF assms(3) ok r'(1)] .
  then have "?r \<in> set (rg_invites reg')"
    using r'(1) by (auto simp: assms(4) spend_invite_def image_iff intro!: bexI [of _ r'])
  moreover have "invites_ok reg'" using ok by (simp add: invites_ok_def assms(4))
  ultimately show ?thesis
    using r' pos by (auto simp: uses_left_def intro!: bexI [of _ ?r])
qed

lemma uses_left_same:
  "uses_left r (used, reg) \<Longrightarrow> rg_invites reg' = rg_invites reg \<Longrightarrow> uses_left r (used, reg')"
  by (simp add: uses_left_def invites_ok_def)

lemma uses_left_disabled:
  assumes "uses_left r (used, reg)" and "disables g" and "rg_invites reg' = map g (rg_invites reg)"
  shows "uses_left r (used, reg')"
proof -
  have g: "iv_code (g x) = iv_code x \<and> iv_uses_remaining (g x) = iv_uses_remaining x \<and>
      (iv_disabled x \<longrightarrow> iv_disabled (g x))" for x
    using assms(2) [unfolded disables_def, rule_format, of x] by auto
  have "map iv_code (map g xs) = map iv_code xs" for xs using g by simp
  then have "invites_ok reg'" using assms(1,3) by (simp add: uses_left_def invites_ok_def del: map_map)
  moreover obtain r' where "r' \<in> set (rg_invites reg)" "iv_code r' = iv_code r"
    "iv_uses_remaining r' + int (count_list used (iv_code r)) = iv_uses_remaining r"
    "0 \<le> iv_uses_remaining r \<longrightarrow> 0 \<le> iv_uses_remaining r'"
    "iv_disabled r \<longrightarrow> iv_disabled r' \<and> iv_code r \<notin> set used"
    using assms(1) by (auto simp: uses_left_def)
  ultimately show ?thesis using g by (auto simp: uses_left_def assms(3))
qed

lemma uses_left_run:
  assumes "uses_left r (used, reg)" and "run_call io c reg = (status, reg')"
    and "redeems c status \<noteq> [] \<longrightarrow> ri_sql io 1 = SQL_RUNS"
  shows "uses_left r (used @ redeems c status, reg')"
proof (cases c)
  case (CreateInvites account codes n)
  show ?thesis
  proof (cases "codes = [] \<or> n < 1")
    case False
    then obtain rows where rows: "insert_invites io account n 0 codes (rg_invites reg) = (status, rows)"
      "reg' = reg\<lparr>rg_invites := rows\<rparr>"
      using assms(2) CreateInvites by (auto simp: registry_defs split: prod.splits)
    then show ?thesis
      using insert_invites_grow [OF rows(1)] assms(1) CreateInvites
      by (auto simp: uses_left_def invites_ok_def)
  qed (use assms CreateInvites in \<open>auto simp: registry_defs\<close>)
next
  case (ConsumeInvite code used_by)
  show ?thesis
  proof (cases "invite_status io code reg = WF_OK")
    case True
    then have "status = WF_OK" and reg': "reg' = reg\<lparr>rg_invites := (if ri_sql io 1 = SQL_RUNS
          then spend_invite code (rg_invites reg) else rg_invites reg), rg_uses := rg_uses reg'\<rparr>"
      using assms(2) ConsumeInvite by (auto simp: registry_defs Let_def)
    then show ?thesis
      using uses_left_consume [OF assms(1) _ True, of reg' "rg_uses reg'"] assms(3) ConsumeInvite by simp
  next
    case False
    then have "redeems c status = [] \<and> reg' = reg"
      using assms(2) ConsumeInvite by (cases status) (auto simp: registry_defs Let_def)
    then show ?thesis using assms(1) by simp
  qed
next
  case (DisableInvites codes accounts)
  show ?thesis
  proof (cases "codes = [] \<and> accounts = []")
    case False
    then obtain i touched rows j touched' rows' where
      d: "disable_each io iv_code 0 codes 0 (rg_invites reg) = (i, touched, rows)"
        "disable_each io iv_for_account i accounts touched rows = (j, touched', rows')"
        "reg' = reg\<lparr>rg_invites := rows'\<rparr>"
      using assms(2) DisableInvites by (auto simp: registry_defs split: prod.splits)
    obtain g h where "disables g" "rows = map g (rg_invites reg)" "disables h" "rows' = map h rows"
      using disable_each_rows [OF d(1)] disable_each_rows [OF d(2)] by blast
    then have "uses_left r (used, reg')"
      using uses_left_disabled [OF assms(1), of "h \<circ> g" reg'] d(3) disables_comp by simp
    then show ?thesis using DisableInvites by simp
  qed (use assms DisableInvites in \<open>auto simp: registry_defs\<close>)
qed (use run_invites [OF assms(2)] uses_left_same [OF assms(1)] in simp_all)

interpretation registry_invites: transition_system
  "\<lambda>p. p = ([], reg) \<and> invites_ok reg \<and> r \<in> set (rg_invites reg)"
  "registry_step (\<lambda>io. ri_sql io 1 = SQL_RUNS)" "uses_left r" for reg r
proof
  show "uses_left r p" if "p = ([], reg) \<and> invites_ok reg \<and> r \<in> set (rg_invites reg)" for p
    using that by (auto simp: uses_left_def)
  show "uses_left r q" if "uses_left r p" "registry_step (\<lambda>io. ri_sql io 1 = SQL_RUNS) p q" for p q
    using that by (auto elim!: registry_stepE intro: uses_left_run)
qed

text \<open>The same for a code that is disabled, whatever fails.\<close>

definition stays_disabled :: "string \<Rightarrow> string list \<times> account_registry \<Rightarrow> bool" where
  "stays_disabled code p \<longleftrightarrow> invites_ok (snd p) \<and> code \<notin> set (fst p) \<and>
     (\<exists>r \<in> set (rg_invites (snd p)). iv_code r = code \<and> iv_disabled r)"

text \<open>C26. An invite code is redeemed at most as often as it was made for, and never once disabled.
  Whatever calls follow, as long as the decrement of a redemption that was answered with success ran,
  the redemptions of a code and the uses it has left add up to those it had, and what is left is not
  negative; a code that is disabled is not redeemed and stays disabled. A redemption whose decrement
  fails is answered with success all the same, and leaves the code as it was.\<close>

theorem invite_uses_bounded:
  assumes "invites_ok reg" and "r \<in> set (rg_invites reg)"
    and "(registry_step (\<lambda>io. ri_sql io 1 = SQL_RUNS))\<^sup>*\<^sup>* ([], reg) (used, reg')"
  shows "(\<exists>r' \<in> set (rg_invites reg'). iv_code r' = iv_code r \<and>
        iv_uses_remaining r' + int (count_list used (iv_code r)) = iv_uses_remaining r \<and>
        (0 \<le> iv_uses_remaining r \<longrightarrow> 0 \<le> iv_uses_remaining r') \<and>
        (iv_disabled r \<longrightarrow> iv_disabled r' \<and> iv_code r \<notin> set used)) \<and>
    (ri_sql io 1 \<noteq> SQL_RUNS \<and> invite_status io code reg = WF_OK \<longrightarrow>
       (case metalbear_account_registry_consume_invite_code io code used_by reg of
          (status, reg'') \<Rightarrow> status = WF_OK \<and> rg_invites reg'' = rg_invites reg))"
  using registry_invites.inv_reachable [OF _ assms(3), of reg r] assms(1,2)
  by (auto simp: uses_left_def registry_defs Let_def)

section \<open>Takedowns\<close>

lemma find_filter_not:
  "find P (filter (\<lambda>x. \<not> Q x) xs) = find (\<lambda>x. P x \<and> \<not> Q x) xs"
  by (induction xs) auto

definition same_subject :: "string option \<Rightarrow> string option \<Rightarrow> string option \<Rightarrow>
    string option \<Rightarrow> string option \<Rightarrow> string option \<Rightarrow> bool" where
  "same_subject did uri cid did' uri' cid' \<longleftrightarrow>
     bind_text_or_null did = bind_text_or_null did' \<and> bind_text_or_null uri = bind_text_or_null uri' \<and>
     bind_text_or_null cid = bind_text_or_null cid'"

lemma is_subject_same:
  "same_subject did uri cid did' uri' cid' \<Longrightarrow> is_subject did uri cid = is_subject did' uri' cid'"
  by (simp add: same_subject_def is_subject_def fun_eq_iff)

lemma is_subject_other:
  "\<not> same_subject did uri cid did' uri' cid' \<Longrightarrow> is_subject did' uri' cid' r \<Longrightarrow> \<not> is_subject did uri cid r"
  by (auto simp: same_subject_def is_subject_def)

definition takedown_of :: "account_registry \<Rightarrow> string option \<Rightarrow> string option \<Rightarrow> string option \<Rightarrow> string option" where
  "takedown_of reg did uri cid = map_option td_ref (find (is_subject did uri cid) (rg_takedowns reg))"

lemma get_takedown:
  "ri_sql io 0 = SQL_RUNS \<Longrightarrow> takedown_subject_valid did uri cid \<Longrightarrow>
   metalbear_account_registry_get_takedown io did uri cid reg = Inr (takedown_of reg did uri cid)"
  by (simp add: metalbear_account_registry_get_takedown_def takedown_of_def)

lemma takedown_of_set:
  assumes "takedown_subject_valid did uri cid" and "ri_sql io 0 = SQL_RUNS" and "given_text ref \<longrightarrow> ri_sql io 1 = SQL_RUNS"
    and "metalbear_account_registry_set_takedown io did uri cid ref reg = (status, reg')"
  shows "status = WF_OK \<and> takedown_of reg' did' uri' cid' =
    (if same_subject did uri cid did' uri' cid' then bind_text_or_null ref else takedown_of reg did' uri' cid')"
proof (cases "same_subject did uri cid did' uri' cid'")
  case True
  then have "is_subject did' uri' cid' = is_subject did uri cid" using is_subject_same by metis
  moreover have "find (is_subject did uri cid) (filter (\<lambda>r. \<not> is_subject did uri cid r) xs) = None" for xs
    by (simp add: find_None_ball)
  moreover have "is_subject did uri cid \<lparr>td_did = bind_text_or_null did, td_uri = bind_text_or_null uri,
      td_blob_cid = bind_text_or_null cid, td_ref = x, td_created_at = y\<rparr>" for x y
    by (simp add: is_subject_def)
  ultimately show ?thesis
    using assms True
    by (auto simp: registry_defs takedown_of_def find_append bind_text_or_null_def [of ref] given_text_def Let_def
        split: if_splits)
next
  case False
  have "(\<lambda>r. is_subject did' uri' cid' r \<and> \<not> is_subject did uri cid r) = is_subject did' uri' cid'"
    using is_subject_other [OF False] by blast
  moreover have "\<not> is_subject did' uri' cid' \<lparr>td_did = bind_text_or_null did, td_uri = bind_text_or_null uri,
      td_blob_cid = bind_text_or_null cid, td_ref = x, td_created_at = y\<rparr>" for x y
    using False by (auto simp: is_subject_def same_subject_def)
  ultimately show ?thesis
    using assms False
    by (auto simp: registry_defs takedown_of_def find_append find_filter_not Let_def split: option.splits if_splits)
qed

text \<open>The subjects an account's deletion clears: itself, its blobs and its records.\<close>

definition belongs_to :: "string \<Rightarrow> string option \<Rightarrow> string option \<Rightarrow> bool" where
  "belongs_to account did uri \<longleftrightarrow>
     did = Some account \<or> (\<exists>u. uri = Some u \<and> take (length (records_prefix account)) u = records_prefix account)"

lemma takedown_of_clear:
  assumes "account \<noteq> ''''" and "length (records_prefix account) < 512" and "ri_sql io 0 = SQL_RUNS"
    and "metalbear_account_registry_clear_takedowns_for_did io account reg = (status, reg')"
  shows "status = WF_OK \<and> takedown_of reg' did uri cid =
    (if belongs_to account (bind_text_or_null did) (bind_text_or_null uri) then None else takedown_of reg did uri cid)"
proof -
  have gone: "rg_takedowns reg' = filter (\<lambda>r. \<not> belongs_to account (td_did r) (td_uri r)) (rg_takedowns reg)"
    and ok: "status = WF_OK"
    using assms by (auto simp: registry_defs belongs_to_def split: option.splits intro!: filter_cong)
  have same: "is_subject did uri cid r \<Longrightarrow> belongs_to account (td_did r) (td_uri r) =
      belongs_to account (bind_text_or_null did) (bind_text_or_null uri)" for r
    by (simp add: is_subject_def)
  have "find (is_subject did uri cid) (filter (\<lambda>r. \<not> belongs_to account (td_did r) (td_uri r)) xs) =
      (if belongs_to account (bind_text_or_null did) (bind_text_or_null uri) then None else find (is_subject did uri cid) xs)" for xs
    by (induction xs) (auto simp: same)
  then show ?thesis using ok by (simp add: takedown_of_def gone)
qed

text \<open>A takedown is what was last set, and is of its subject alone. When the statements run, a
  subject of a valid shape, an account, a record, or a blob of an account, reads back the reference
  last set on it, or nothing once it was set to none, and no other subject's takedown changes; clearing
  an account's takedowns removes those of the account, its blobs and its records and no others, for a
  DID whose prefix fits the buffer. And set answers success even when its insertion failed: then the
  subject that was taken down is not any more.\<close>

theorem takedown_exact:
  assumes "takedown_subject_valid did uri cid" and "takedown_subject_valid did' uri' cid'"
    and "ri_sql io 0 = SQL_RUNS" and "ri_sql io2 0 = SQL_RUNS" and "account \<noteq> ''''"
    and "length account < 506"
  shows "(case metalbear_account_registry_set_takedown io did uri cid ref reg of (status, reg') \<Rightarrow>
      status = WF_OK \<and>
      metalbear_account_registry_get_takedown io2 did' uri' cid' reg' = Inr
        (if same_subject did uri cid did' uri' cid'
         then (if ri_sql io 1 = SQL_RUNS then bind_text_or_null ref else None)
         else takedown_of reg did' uri' cid')) \<and>
    (case metalbear_account_registry_clear_takedowns_for_did io account reg of (status, reg') \<Rightarrow>
      status = WF_OK \<and>
      metalbear_account_registry_get_takedown io2 did' uri' cid' reg' = Inr
        (if belongs_to account (bind_text_or_null did') (bind_text_or_null uri') then None
         else takedown_of reg did' uri' cid'))"
proof -
  obtain status reg' where s: "metalbear_account_registry_set_takedown io did uri cid ref reg = (status, reg')"
    by fastforce
  have none: "metalbear_account_registry_set_takedown io did uri cid None reg = (status, reg')"
    if "ri_sql io 1 \<noteq> SQL_RUNS"
    using that s assms(1) by (simp add: registry_defs given_text_def Let_def)
  have "status = WF_OK \<and> takedown_of reg' did' uri' cid' =
      (if same_subject did uri cid did' uri' cid'
       then (if ri_sql io 1 = SQL_RUNS then bind_text_or_null ref else None) else takedown_of reg did' uri' cid')"
    using takedown_of_set [OF assms(1,3) _ s, of did' uri' cid'] takedown_of_set [OF assms(1,3) _ none, of did' uri' cid']
    by (cases "ri_sql io 1 = SQL_RUNS") (auto simp: bind_text_or_null_def given_text_def)
  moreover have "length (records_prefix account) < 512" using assms(6) by (simp add: records_prefix_def)
  ultimately show ?thesis
    using takedown_of_clear [OF assms(5) _ assms(3), of reg]
    by (auto simp: s get_takedown [OF assms(4,2)] split: prod.splits)
qed

section \<open>Pages\<close>

definition page_rows :: "wf_status + 'a list \<Rightarrow> 'a list" where
  "page_rows r = (case r of Inr rows \<Rightarrow> rows | Inl _ \<Rightarrow> [])"

definition accounts_page :: "registry_io \<Rightarrow> account_registry \<Rightarrow> nat \<Rightarrow> string option \<Rightarrow> account_entry list" where
  "accounts_page io reg limit cursor = page_rows (metalbear_account_registry_list_after io cursor limit reg)"

definition invites_page ::
  "registry_io \<Rightarrow> account_registry \<Rightarrow> nat \<Rightarrow> (string \<times> string) option \<Rightarrow> invite_row list" where
  "invites_page io reg limit cursor = page_rows (metalbear_account_registry_list_invite_codes io
     (map_option fst cursor) (map_option snd cursor) limit reg)"

definition usage_page ::
  "registry_io \<Rightarrow> account_registry \<Rightarrow> nat \<Rightarrow> (int \<times> string) option \<Rightarrow> invite_row list" where
  "usage_page io reg limit cursor = page_rows (metalbear_account_registry_list_invite_codes_by_usage io
     (case cursor of Some c \<Rightarrow> fst c | None \<Rightarrow> 0) (map_option snd cursor) limit reg)"

lemma listed_all:
  "ri_sql io 0 \<noteq> SQL_UNPREPARED \<Longrightarrow> length rows \<le> ri_reads io \<Longrightarrow> page_rows (listed io f rows) = map f rows"
  by (simp add: listed_def page_rows_def)

lemma sort_asc_past:
  assumes "distinct (map key xs)" and "i < length xs"
  shows "sort_key key (filter (\<lambda>r. key (sort_key key xs ! i) < key r) xs) = drop (Suc i) (sort_key key xs)"
proof -
  have "distinct (map key (sort_key key xs))" using assms(1) by (metis distinct_map distinct_sort set_sort)
  then have "sorted_wrt (<) (map key (sort_key key xs))" by (simp add: strict_sorted_iff)
  then have "sorted_wrt (\<lambda>a b. key a < key b) (sort_key key xs)" by (simp add: sorted_wrt_map)
  then show ?thesis using filter_past [where R = "(<)" and f = key and S = "sort_key key xs"] assms(2)
    by (auto simp: filter_sort [symmetric])
qed

lemma filter_sort_desc: "filter P (sort_desc key xs) = sort_desc key (filter P xs)"
  by (simp add: sort_desc_def filter_sort rev_filter [symmetric])

lemma filtered_page: "length xs \<le> n \<Longrightarrow> min (length (filter P xs)) limit \<le> n"
  using length_filter_le [of P xs] by linarith

lemma sort_desc_past:
  assumes "distinct (map key xs)" and "i < length xs"
  shows "sort_desc key (filter (\<lambda>r. key r < key (sort_desc key xs ! i)) xs) = drop (Suc i) (sort_desc key xs)"
proof -
  have "distinct (map key (sort_key key (rev xs)))"
    using assms(1) by (metis distinct_map distinct_rev distinct_sort set_rev set_sort)
  then have "sorted_wrt (<) (map key (sort_key key (rev xs)))" by (simp add: strict_sorted_iff)
  then have "sorted_wrt (\<lambda>a b. key b < key a) (sort_desc key xs)"
    by (simp add: sort_desc_def sorted_wrt_map sorted_wrt_rev)
  then have "filter (\<lambda>r. key r < key (sort_desc key xs ! i)) (sort_desc key xs) = drop (Suc i) (sort_desc key xs)"
    using filter_past [where R = "\<lambda>a b. b < a" and f = key and S = "sort_desc key xs"] assms(2)
    by (auto simp: sort_desc_def)
  then show ?thesis by (simp add: filter_sort_desc)
qed

definition reads_all :: "registry_io \<Rightarrow> account_registry \<Rightarrow> bool" where
  "reads_all io reg \<longleftrightarrow> ri_sql io 0 \<noteq> SQL_UNPREPARED \<and>
     length (rg_accounts reg) \<le> ri_reads io \<and> length (rg_invites reg) \<le> ri_reads io"

interpretation accounts_keyset: keyset
  "\<lambda>reg. map read_entry (sort_key aw_did (rg_accounts reg))" "accounts_page io" en_did
  "\<lambda>reg. reads_all io reg \<and> accounts_ok reg \<and> (\<forall>r \<in> set (rg_accounts reg). aw_did r \<noteq> '''')" for io
proof
  fix reg limit
  assume ok: "reads_all io reg \<and> accounts_ok reg \<and> (\<forall>r \<in> set (rg_accounts reg). aw_did r \<noteq> '''')" and "(0 :: nat) < limit"
  then have pg: "accounts_page io reg limit c = map read_entry (take limit (sort_key aw_did
      (filter (\<lambda>r. (case c of Some a \<Rightarrow> a | None \<Rightarrow> '''') < aw_did r) (rg_accounts reg))))" for c
    unfolding accounts_page_def metalbear_account_registry_list_after_def
    by (subst if_not_P, simp, subst listed_all) (auto simp: reads_all_def filtered_page)
  have "filter (\<lambda>r. '''' < aw_did r) (rg_accounts reg) = rg_accounts reg"
    using ok by (auto simp: filter_id_conv neq_Nil_conv)
  then show "accounts_page io reg limit None = take limit (map read_entry (sort_key aw_did (rg_accounts reg)))"
    by (simp add: pg take_map)
  fix i assume i: "i < length (map read_entry (sort_key aw_did (rg_accounts reg)))"
  then have "en_did (map read_entry (sort_key aw_did (rg_accounts reg)) ! i) = aw_did (sort_key aw_did (rg_accounts reg) ! i)"
    by (simp add: read_entry_def)
  then show "accounts_page io reg limit (Some (en_did (map read_entry (sort_key aw_did (rg_accounts reg)) ! i))) =
      take limit (drop (Suc i) (map read_entry (sort_key aw_did (rg_accounts reg))))"
    using sort_asc_past [of aw_did "rg_accounts reg" i] ok i
    by (simp add: pg take_map drop_map accounts_ok_def)
qed

definition dated :: "account_registry \<Rightarrow> bool" where
  "dated reg \<longleftrightarrow> invites_ok reg \<and> (\<forall>r \<in> set (rg_invites reg). iv_code r \<noteq> '''' \<and> iv_created_at r \<noteq> '''')"

lemma newest_first_less:
  "newest_first r < newest_first r' \<longleftrightarrow>
     iv_created_at r < iv_created_at r' \<or> iv_created_at r = iv_created_at r' \<and> iv_code r < iv_code r'"
  by (auto simp: newest_first_def less_prod_def)

lemma most_used_first_less:
  "most_used_first reg r < most_used_first reg r' \<longleftrightarrow> use_count reg (iv_code r) < use_count reg (iv_code r') \<or>
     use_count reg (iv_code r) = use_count reg (iv_code r') \<and> iv_code r < iv_code r'"
  by (auto simp: most_used_first_def less_prod_def)

lemma distinct_map_snd: "distinct (map f xs) \<Longrightarrow> (\<And>x. f x = snd (g x)) \<Longrightarrow> distinct (map g xs)"
  by (auto simp: distinct_map inj_on_def)

interpretation invites_keyset: keyset
  "\<lambda>reg. sort_desc newest_first (rg_invites reg)" "invites_page io" newest_first
  "\<lambda>reg. reads_all io reg \<and> dated reg" for io
proof
  fix reg limit
  assume ok: "reads_all io reg \<and> dated reg" and pos: "(0 :: nat) < limit"
  let ?S = "sort_desc newest_first (rg_invites reg)"
  show "invites_page io reg limit None = take limit ?S"
    using pos ok unfolding invites_page_def metalbear_account_registry_list_invite_codes_def
    by (subst if_not_P, simp, subst listed_all) (auto simp: reads_all_def given_text_def)
  fix i assume i: "i < length ?S"
  then have "?S ! i \<in> set (rg_invites reg)" by (metis nth_mem sort_desc_simps(2))
  then have given: "given_text (Some (iv_created_at (?S ! i)))" "given_text (Some (iv_code (?S ! i)))"
    using ok by (auto simp: dated_def given_text_def)
  have "invites_page io reg limit (Some (newest_first (?S ! i))) =
      take limit (sort_desc newest_first (filter (\<lambda>r. newest_first r < newest_first (?S ! i)) (rg_invites reg)))"
    unfolding invites_page_def metalbear_account_registry_list_invite_codes_def newest_first_less
    using pos ok given by (subst if_not_P, simp, subst listed_all)
      (auto simp: reads_all_def filtered_page newest_first_def)
  then show "invites_page io reg limit (Some (newest_first (?S ! i))) = take limit (drop (Suc i) ?S)"
    using sort_desc_past [of newest_first "rg_invites reg" i] i ok
      distinct_map_snd [of iv_code "rg_invites reg" newest_first]
    by (simp add: dated_def invites_ok_def newest_first_def)
qed

interpretation usage_keyset: keyset
  "\<lambda>reg. sort_desc (most_used_first reg) (rg_invites reg)" "usage_page io" "most_used_first reg"
  "\<lambda>s. s = reg \<and> reads_all io reg \<and> dated reg" for io reg
proof
  fix s limit
  assume "s = reg \<and> reads_all io reg \<and> dated reg" and pos: "(0 :: nat) < limit"
  then have s: "s = reg" and ok: "reads_all io reg" "dated reg" by auto
  let ?S = "sort_desc (most_used_first s) (rg_invites s)"
  show "usage_page io s limit None = take limit ?S"
    using pos ok unfolding s usage_page_def metalbear_account_registry_list_invite_codes_by_usage_def
    by (subst if_not_P, simp, subst listed_all) (auto simp: reads_all_def given_text_def)
  fix i assume i: "i < length ?S"
  then have "?S ! i \<in> set (rg_invites s)" by (metis nth_mem sort_desc_simps(2))
  then have given: "given_text (Some (iv_code (?S ! i)))"
    using ok by (auto simp: dated_def given_text_def s)
  have "usage_page io s limit (Some (most_used_first reg (?S ! i))) =
      take limit (sort_desc (most_used_first s)
        (filter (\<lambda>r. most_used_first s r < most_used_first s (?S ! i)) (rg_invites s)))"
    unfolding usage_page_def metalbear_account_registry_list_invite_codes_by_usage_def most_used_first_less
    using pos ok given by (subst if_not_P, simp, subst listed_all)
      (auto simp: reads_all_def filtered_page most_used_first_def s)
  then show "usage_page io s limit (Some (most_used_first reg (?S ! i))) = take limit (drop (Suc i) ?S)"
    using sort_desc_past [of "most_used_first s" "rg_invites s" i] i ok
      distinct_map_snd [of iv_code "rg_invites s" "most_used_first s"]
    by (simp add: dated_def invites_ok_def most_used_first_def s)
qed

text \<open>Paging loses and repeats nothing. When the reads do not fail, following the keys of the
  pages of accounts, by DID, and of invite codes, newest first and most used first, gives each row
  once, in the listing's order, in pages of at most \<open>limit\<close>, after at most one page more than there
  are rows. (A read that fails ends a page early without an error, and so the walk.)\<close>

theorem registry_pages_cover:
  assumes "reads_all io reg" and "accounts_ok reg" and "\<forall>r \<in> set (rg_accounts reg). aw_did r \<noteq> ''''"
    and "dated reg" and "0 < limit" and "length (rg_accounts reg) < fuel" and "length (rg_invites reg) < fuel"
  shows "concat (keyset_walk (accounts_page io reg limit) en_did limit fuel None) =
      map read_entry (sort_key aw_did (rg_accounts reg)) \<and>
    concat (keyset_walk (invites_page io reg limit) newest_first limit fuel None) =
      sort_desc newest_first (rg_invites reg) \<and>
    concat (keyset_walk (usage_page io reg limit) (most_used_first reg) limit fuel None) =
      sort_desc (most_used_first reg) (rg_invites reg) \<and>
    list_all (\<lambda>p. length p \<le> limit) (keyset_walk (accounts_page io reg limit) en_did limit fuel None) \<and>
    list_all (\<lambda>p. length p \<le> limit) (keyset_walk (invites_page io reg limit) newest_first limit fuel None) \<and>
    list_all (\<lambda>p. length p \<le> limit) (keyset_walk (usage_page io reg limit) (most_used_first reg) limit fuel None)"
  using accounts_keyset.walk_covers [of io reg limit fuel] invites_keyset.walk_covers [of io reg limit fuel]
    usage_keyset.walk_covers [of reg reg io limit fuel] assms
  by (simp add: list_all_iff)

section \<open>What opening promises\<close>

text \<open>A file of a newer build is left as it is.\<close>

lemma newer_file_refused:
  assumes "rf_version f > METALBEAR_SCHEMA_VERSION" and "ro_version_query io = SQL_RUNS"
  shows "metalbear_account_registry_open io f = (WF_ERR_INTERNAL, f)"
  using assms by (simp add: metalbear_account_registry_open_def metalbear_schema_open_def Let_def)

lemma rfc3339_shape: "CHR '' '' \<in> set (rfc3339 s) \<Longrightarrow> CHR ''T'' \<in> set (rfc3339 s) \<or> CHR ''t'' \<in> set (rfc3339 s)"
  by (auto simp: rfc3339_def)

lemma rfc3339_idem [simp]: "rfc3339 (rfc3339 s) = rfc3339 s"
  by (auto simp: rfc3339_def image_iff)

lemma rfc3339_empty [simp]: "rfc3339 '''' = ''''"
  by (simp add: rfc3339_def)

lemma fix_times_idem: "4 \<le> n \<Longrightarrow> fix_times m (fix_times n reg) = fix_times n reg"
  by (simp add: fix_times_def comp_def)

lemma open_OK:
  assumes "metalbear_account_registry_open io f = (WF_OK, f')"
  shows "rf_accounts_table f' \<and> rf_created_column f' \<and> rf_email_column f' \<and>
    (\<exists>reg. rf_tables f' = fix_times (ro_fix io) reg \<and> (rf_created_column f \<and> rf_accounts_table f \<longrightarrow> reg = rf_tables f))"
  using assms
  by (auto simp: metalbear_account_registry_open_def create_tables_def add_created_at_def add_email_def Let_def
      split: prod.splits if_splits)

text \<open>Once an opening has run to its end, the next finds nothing to change.\<close>

lemma reopening_changes_nothing:
  assumes "metalbear_account_registry_open io f = (WF_OK, f')" and "4 \<le> ro_fix io"
    and "metalbear_account_registry_open io2 f' = (WF_OK, f'')"
  shows "rf_tables f'' = rf_tables f'"
  using open_OK [OF assms(1)] open_OK [OF assms(3)] assms(2) by (auto simp: fix_times_idem)

text \<open>
  The column of the creation times is added and filled by two statements outside a transaction: when
  the second fails, the opening fails, and every later one takes the column for the sign that the rows
  are dated.
\<close>

lemma interrupted_dating:
  assumes "rf_accounts_table f" and "\<not> rf_created_column f" and "rf_version f = 1"
    and "ro_open io" and "ro_version_query io = SQL_RUNS" and "5 \<le> ro_create io" and "ro_add_created io"
    and "\<not> ro_date_rows io" and "metalbear_account_registry_open io f = (status, f1)"
    and "metalbear_account_registry_open io2 f1 = (WF_OK, f2)"
    and "r \<in> set (rg_accounts (rf_tables f))" and "aw_created_at r = ''''"
  shows "status = WF_ERR_INTERNAL \<and> (\<exists>r' \<in> set (rg_accounts (rf_tables f2)). aw_did r' = aw_did r \<and> aw_created_at r' = '''')"
proof -
  have f1: "status = WF_ERR_INTERNAL" "rf_accounts_table f1" "rf_created_column f1" "rf_tables f1 = rf_tables f"
    using assms(1-9)
    by (auto simp: metalbear_account_registry_open_def metalbear_schema_open_def METALBEAR_SCHEMA_VERSION_def
        create_tables_def add_created_at_def Let_def)
  then have "rf_tables f2 = fix_times (ro_fix io2) (rf_tables f)" using open_OK [OF assms(10)] by auto
  then show ?thesis using f1(1) assms(11,12) by (auto simp: fix_times_def intro!: bexI [of _ r])
qed

text \<open>Two DIDs have one directory exactly when they differ in colons against underscores only.\<close>

lemma dir_of_did_unique:
  assumes "metalbear_account_dir_for_did d did = Inr path" and "metalbear_account_dir_for_did d did' = Inr path"
    and "CHR ''_'' \<notin> set did" and "CHR ''_'' \<notin> set did'"
  shows "did = did'"
proof -
  let ?f = "\<lambda>c. if c = CHR '':'' then CHR ''_'' else c"
  have "map ?f did = map ?f did'"
    using assms(1,2) by (auto simp: metalbear_account_dir_for_did_def Let_def split: if_splits)
  then show ?thesis
    using assms(3,4)
  proof (induction did arbitrary: did')
    case (Cons c cs)
    then obtain c' cs' where "did' = c' # cs'" by (cases did') auto
    with Cons show ?case by (auto split: if_splits)
  qed simp
qed

lemma dir_of_did_shared:
  "metalbear_account_dir_for_did ''/data'' ''did:web:a_b'' = metalbear_account_dir_for_did ''/data'' ''did:web:a:b''"
  by (simp add: metalbear_account_dir_for_did_def)

section \<open>Concrete inputs\<close>

definition demo_rio :: registry_io where
  "demo_rio = \<lparr>ri_now = (\<lambda>_. ''2026-01-02T03:04:05.000Z''), ri_sql = (\<lambda>_. SQL_RUNS), ri_reads = 10\<rparr>"

definition demo_registry :: account_registry where
  "demo_registry = snd (metalbear_account_registry_create_invite_codes demo_rio ''admin'' [''i1'', ''i2''] 2
     (snd (metalbear_account_registry_add demo_rio ''did:a'' ''ann.example'' ''h'' ''/a'' empty_registry)))"

lemmas demo_registry_simps = demo_registry_def demo_rio_def metalbear_account_registry_add_def registry_defs
  empty_registry_def

lemma demo_registry_value:
  "demo_registry = \<lparr>rg_accounts = [\<lparr>aw_did = ''did:a'', aw_handle = ''ann.example'', aw_password_hash = ''h'',
       aw_data_directory = ''/a'', aw_active = 1, aw_email = None, aw_created_at = ''2026-01-02T03:04:05.000Z''\<rparr>],
     rg_invites = [\<lparr>iv_code = ''i1'', iv_for_account = ''admin'', iv_uses_remaining = 2, iv_disabled = False,
         iv_created_by = None, iv_created_at = ''2026-01-02T03:04:05.000Z''\<rparr>,
       \<lparr>iv_code = ''i2'', iv_for_account = ''admin'', iv_uses_remaining = 2, iv_disabled = False,
         iv_created_by = None, iv_created_at = ''2026-01-02T03:04:05.000Z''\<rparr>],
     rg_uses = [], rg_takedowns = []\<rparr>"
  by (simp add: demo_registry_simps)

lemma demo_registry_reached: "(registry_step spends)\<^sup>*\<^sup>* ([], empty_registry) ([], demo_registry)"
proof -
  let ?s1 = "snd (metalbear_account_registry_add demo_rio ''did:a'' ''ann.example'' ''h'' ''/a'' empty_registry)"
  have "registry_step spends ([], empty_registry) ([], ?s1)"
    using registry_step.call [of demo_rio "AddAccount ''did:a'' ''ann.example'' ''h'' ''/a'' None True" empty_registry
        "fst (metalbear_account_registry_add demo_rio ''did:a'' ''ann.example'' ''h'' ''/a'' empty_registry)" ?s1 spends "[]"]
    by (simp add: metalbear_account_registry_add_def)
  moreover have "registry_step spends ([], ?s1) ([], demo_registry)"
    using registry_step.call [of demo_rio "CreateInvites ''admin'' [''i1'', ''i2''] 2" ?s1
        "fst (metalbear_account_registry_create_invite_codes demo_rio ''admin'' [''i1'', ''i2''] 2 ?s1)" demo_registry spends "[]"]
    by (simp add: demo_registry_def)
  ultimately show ?thesis by (rule converse_rtranclp_into_rtranclp [OF _ r_into_rtranclp])
qed


theorem invite_uses_bounded_witness:
  "\<exists>r' \<in> set (rg_invites (snd (metalbear_account_registry_consume_invite_code demo_rio ''i1'' ''bob'' demo_registry))).
     iv_code r' = ''i1'' \<and> iv_uses_remaining r' = 1"
proof -
  let ?reg = "snd (metalbear_account_registry_consume_invite_code demo_rio ''i1'' ''bob'' demo_registry)"
  have ok: "invites_ok demo_registry" by (simp add: invites_ok_def demo_registry_value)
  have mem: "hd (rg_invites demo_registry) \<in> set (rg_invites demo_registry)" by (simp add: demo_registry_value)
  have "metalbear_account_registry_consume_invite_code demo_rio ''i1'' ''bob'' demo_registry = (WF_OK, ?reg)"
    by (simp add: demo_registry_value demo_rio_def registry_defs invite_status_def)
  then have "registry_step (\<lambda>io. ri_sql io 1 = SQL_RUNS) ([], demo_registry) ([''i1''], ?reg)"
    using registry_step.call [of demo_rio "ConsumeInvite ''i1'' ''bob''" demo_registry WF_OK ?reg
        "\<lambda>io. ri_sql io 1 = SQL_RUNS" "[]"] by (simp add: demo_rio_def)
  then have "(registry_step (\<lambda>io. ri_sql io 1 = SQL_RUNS))\<^sup>*\<^sup>* ([], demo_registry) ([''i1''], ?reg)" by blast
  from invite_uses_bounded [OF ok mem this, THEN conjunct1] obtain r' where "r' \<in> set (rg_invites ?reg)"
    "iv_code r' = iv_code (hd (rg_invites demo_registry))"
    "iv_uses_remaining r' + int (count_list [''i1''] (iv_code (hd (rg_invites demo_registry)))) =
       iv_uses_remaining (hd (rg_invites demo_registry))"
    by blast
  moreover have "iv_code (hd (rg_invites demo_registry)) = ''i1''" "iv_uses_remaining (hd (rg_invites demo_registry)) = 2"
    by (simp_all add: demo_registry_value)
  ultimately show ?thesis by auto
qed

theorem takedown_exact_witness:
  "metalbear_account_registry_get_takedown demo_rio (Some ''did:a'') None None
     (snd (metalbear_account_registry_set_takedown demo_rio (Some ''did:a'') None None (Some ''spam'') demo_registry)) =
   Inr (Some ''spam'')"
proof -
  have "takedown_subject_valid (Some ''did:a'') None None"
    by (simp add: takedown_subject_valid_def given_text_def)
  moreover have "ri_sql demo_rio 0 = SQL_RUNS" "ri_sql demo_rio 1 = SQL_RUNS" by (simp_all add: demo_rio_def)
  ultimately show ?thesis
    using takedown_exact [of "Some ''did:a''" None None "Some ''did:a''" None None demo_rio demo_rio "''did:a''"
        "Some ''spam''" demo_registry]
    by (auto simp: same_subject_def bind_text_or_null_def given_text_def split: prod.splits)
qed

theorem registry_pages_cover_witness:
  "concat (keyset_walk (invites_page demo_rio demo_registry 1) newest_first 1 3 None) =
     sort_desc newest_first (rg_invites demo_registry)"
proof -
  have "reads_all demo_rio demo_registry" "accounts_ok demo_registry" "dated demo_registry"
    "\<forall>r \<in> set (rg_accounts demo_registry). aw_did r \<noteq> ''''"
    by (simp_all add: reads_all_def demo_rio_def demo_registry_value accounts_ok_def dated_def invites_ok_def)
  then show ?thesis using registry_pages_cover [of demo_rio demo_registry 1 3] by (simp add: demo_registry_value)
qed

end
