(* ===== verification/Account_Store.thy ===== *)
theory Account_Store
  imports Schema_Version "HOL-Library.List_Lexorder" "HOL-Library.Char_ord"
begin

text \<open>
  \<open>cpp/metalbear/account.cpp\<close>, the store of one account: its state, its password and app passwords,
  the tokens it is mailed, its preferences; and \<open>cpp/metalbear/key_rotation.cpp\<close>, the store of a
  signing key. Scrypt, Wolfram's key generation and its did:key are arguments. What the world answers
  a call is the record \<open>account_io\<close>: the fate of each SQLite statement by its number, the clock, the
  random bytes by their number, how many rows a query gives before its step fails, and what
  \<open>sqlite3_changes\<close> says after a step that failed, of which SQLite promises nothing. Memory does not
  run out. A call holds the store's mutex over its statements, so a call is one step; only the check of
  a credential lets go of it in between, and takes the store of each of its two holds.
\<close>

unbundle bit_operations_syntax

section \<open>The store\<close>

record account_state =
  st_active :: bool
  st_email :: "string option"
  st_email_confirmed :: bool
  st_deactivated_at :: "string option"
  st_delete_after :: "string option"
  st_invites_enabled :: bool

record app_password_row =
  pw_name :: string
  pw_salt :: "byte list"
  pw_hash :: "byte list"
  pw_created_at :: string
  pw_privileged :: bool

record email_token_row =
  et_token :: string
  et_kind :: string
  et_created_at :: string
  et_expires_at :: int

record account_store =
  as_state :: account_state
  as_credentials :: "(byte list \<times> byte list) option"
  as_app_passwords :: "app_password_row list"
  as_email_tokens :: "email_token_row list"
  as_preferences :: "string option"

record account_io =
  ai_sql :: "nat \<Rightarrow> sql_fate"
  ai_reads :: nat
  ai_now :: string
  ai_datetime :: "string option"
  ai_time :: int
  ai_random :: "nat \<Rightarrow> byte list option"
  ai_changes :: nat

type_synonym scrypt = "string \<Rightarrow> byte list \<Rightarrow> byte list option"

section \<open>Passwords\<close>

text \<open>Salt and hash must have their lengths; the comparison is of the whole hash.\<close>

definition password_matches :: "scrypt \<Rightarrow> string \<Rightarrow> byte list \<Rightarrow> byte list \<Rightarrow> bool" where
  "password_matches scrypt password salt hash =
     (length salt = 16 \<and> length hash = 32 \<and> scrypt password salt = Some hash)"

definition metalbear_account_verify_password :: "scrypt \<Rightarrow> account_io \<Rightarrow> string \<Rightarrow> account_store \<Rightarrow> bool" where
  "metalbear_account_verify_password scrypt io password s =
     (ai_sql io 0 = SQL_RUNS \<and>
      (case as_credentials s of
         Some (salt, hash) \<Rightarrow> password_matches scrypt password salt hash
       | None \<Rightarrow> False))"

datatype credential_kind =
    METALBEAR_CREDENTIAL_INVALID
  | METALBEAR_CREDENTIAL_ACCOUNT
  | METALBEAR_CREDENTIAL_APP_PASSWORD
  | METALBEAR_CREDENTIAL_APP_PASSWORD_PRIVILEGED

definition metalbear_account_verify_credential ::
  "scrypt \<Rightarrow> account_io \<Rightarrow> string \<Rightarrow> account_store \<Rightarrow> account_store \<Rightarrow> credential_kind \<times> string option" where
  "metalbear_account_verify_credential scrypt io password s t =
     (if metalbear_account_verify_password scrypt io password s then (METALBEAR_CREDENTIAL_ACCOUNT, None)
      else if ai_sql io 1 = SQL_UNPREPARED then (METALBEAR_CREDENTIAL_INVALID, None)
      else (case find (\<lambda>r. password_matches scrypt password (pw_salt r) (pw_hash r))
                   (take (ai_reads io) (as_app_passwords t)) of
              None \<Rightarrow> (METALBEAR_CREDENTIAL_INVALID, None)
            | Some r \<Rightarrow>
                (if pw_privileged r then METALBEAR_CREDENTIAL_APP_PASSWORD_PRIVILEGED
                 else METALBEAR_CREDENTIAL_APP_PASSWORD, Some (pw_name r))))"

definition app_alphabet :: string where
  "app_alphabet = ''abcdefghijklmnopqrstuvwxyz234567''"

definition format_app_password :: "byte list \<Rightarrow> string" where
  "format_app_password random =
     (let compact = map (\<lambda>b. app_alphabet ! unat (b AND 31)) random
      in take 4 compact @ ''-'' @ take 4 (drop 4 compact) @ ''-'' @ take 4 (drop 8 compact) @ ''-'' @
         take 4 (drop 12 compact))"

definition metalbear_account_create_app_password ::
  "scrypt \<Rightarrow> account_io \<Rightarrow> string \<Rightarrow> bool \<Rightarrow> account_store \<Rightarrow>
   (wf_status + string \<times> string) \<times> account_store" where
  "metalbear_account_create_app_password scrypt io name privileged s =
     (if name = '''' \<or> length name > 256 then (Inl WF_ERR_INVALID_ARG, s)
      else (case (ai_random io 0, ai_random io 1, ai_datetime io) of
              (Some random, Some salt, Some created_at) \<Rightarrow>
                (case scrypt (format_app_password random) salt of
                   None \<Rightarrow> (Inl WF_ERR_INTERNAL, s)
                 | Some hash \<Rightarrow>
                     if ai_sql io 0 \<noteq> SQL_RUNS then (Inl WF_ERR_INTERNAL, s)
                     else if list_ex (\<lambda>r. pw_name r = name) (as_app_passwords s) then (Inl WF_ERR_CONFLICT, s)
                     else (Inr (format_app_password random, created_at),
                           s\<lparr>as_app_passwords := as_app_passwords s @
                             [\<lparr>pw_name = name, pw_salt = salt, pw_hash = hash, pw_created_at = created_at,
                               pw_privileged = privileged\<rparr>]\<rparr>))
            | _ \<Rightarrow> (Inl WF_ERR_CRYPTO, s)))"

definition metalbear_account_list_app_passwords ::
  "account_io \<Rightarrow> account_store \<Rightarrow> wf_status + (string \<times> string \<times> bool) list" where
  "metalbear_account_list_app_passwords io s =
     (if ai_sql io 0 = SQL_UNPREPARED then Inl WF_ERR_INTERNAL
      else Inr (map (\<lambda>r. (pw_name r, pw_created_at r, pw_privileged r))
             (take (ai_reads io) (sort_desc pw_created_at (sort_key pw_name (as_app_passwords s))))))"

definition metalbear_account_revoke_app_password ::
  "account_io \<Rightarrow> string \<Rightarrow> account_store \<Rightarrow> wf_status \<times> account_store" where
  "metalbear_account_revoke_app_password io name s =
     (if name = '''' then (WF_ERR_INVALID_ARG, s)
      else if ai_sql io 0 \<noteq> SQL_RUNS then (WF_ERR_INTERNAL, s)
      else (WF_OK, s\<lparr>as_app_passwords := filter (\<lambda>r. pw_name r \<noteq> name) (as_app_passwords s)\<rparr>))"

text \<open>The step is not checked; the status is what \<open>sqlite3_changes\<close> says.\<close>

definition metalbear_account_reset_password ::
  "scrypt \<Rightarrow> account_io \<Rightarrow> string \<Rightarrow> account_store \<Rightarrow> wf_status \<times> account_store" where
  "metalbear_account_reset_password scrypt io new_password s =
     (if new_password = '''' then (WF_ERR_INVALID_ARG, s)
      else (case ai_random io 0 of
              None \<Rightarrow> (WF_ERR_INTERNAL, s)
            | Some salt \<Rightarrow>
                (case scrypt new_password salt of
                   None \<Rightarrow> (WF_ERR_INTERNAL, s)
                 | Some hash \<Rightarrow>
                     (case ai_sql io 0 of
                        SQL_UNPREPARED \<Rightarrow> (WF_ERR_INTERNAL, s)
                      | SQL_STEP_FAILS \<Rightarrow> (if ai_changes io > 0 then WF_OK else WF_ERR_INTERNAL, s)
                      | SQL_RUNS \<Rightarrow> (if as_credentials s = None then (WF_ERR_INTERNAL, s)
                                     else (WF_OK, s\<lparr>as_credentials := Some (salt, hash)\<rparr>))))))"

definition metalbear_account_hash_password :: "scrypt \<Rightarrow> account_io \<Rightarrow> string \<Rightarrow> string option" where
  "metalbear_account_hash_password scrypt io password =
     (if password = '''' then None
      else (case ai_random io 0 of
              None \<Rightarrow> None
            | Some salt \<Rightarrow> map_option (\<lambda>hash. hex_of salt @ hex_of hash) (scrypt password salt)))"

section \<open>The state of the account\<close>

definition metalbear_account_is_active :: "account_io \<Rightarrow> account_store \<Rightarrow> bool" where
  "metalbear_account_is_active io s = (ai_sql io 0 = SQL_RUNS \<and> st_active (as_state s))"

definition metalbear_account_get_deactivated_at :: "account_io \<Rightarrow> account_store \<Rightarrow> wf_status + string option" where
  "metalbear_account_get_deactivated_at io s =
     (if ai_sql io 0 = SQL_RUNS then Inr (st_deactivated_at (as_state s)) else Inl WF_ERR_INTERNAL)"

text \<open>An update of the one row of the state.\<close>

definition update_state :: "account_io \<Rightarrow> (account_state \<Rightarrow> account_state) \<Rightarrow> account_store \<Rightarrow> wf_status \<times> account_store" where
  "update_state io f s =
     (if ai_sql io 0 = SQL_RUNS then (WF_OK, s\<lparr>as_state := f (as_state s)\<rparr>) else (WF_ERR_INTERNAL, s))"

definition metalbear_account_deactivate ::
  "account_io \<Rightarrow> string option \<Rightarrow> account_store \<Rightarrow> wf_status \<times> account_store" where
  "metalbear_account_deactivate io delete_after s =
     update_state io (\<lambda>st. st\<lparr>st_active := False, st_deactivated_at := Some (ai_now io),
                             st_delete_after := delete_after\<rparr>) s"

definition metalbear_account_activate :: "account_io \<Rightarrow> account_store \<Rightarrow> wf_status \<times> account_store" where
  "metalbear_account_activate io s =
     update_state io (\<lambda>st. st\<lparr>st_active := True, st_deactivated_at := None, st_delete_after := None\<rparr>) s"

definition metalbear_account_store_email ::
  "account_io \<Rightarrow> string option \<Rightarrow> account_store \<Rightarrow> wf_status \<times> account_store" where
  "metalbear_account_store_email io email s =
     update_state io (\<lambda>st. st\<lparr>st_email := email, st_email_confirmed := False\<rparr>) s"

text \<open>Without an address the status is the one of memory running out.\<close>

definition metalbear_account_get_email :: "account_io \<Rightarrow> account_store \<Rightarrow> wf_status \<times> string option \<times> bool" where
  "metalbear_account_get_email io s =
     (if ai_sql io 0 = SQL_RUNS
      then (if st_email (as_state s) = None then WF_ERR_ALLOC else WF_OK,
            st_email (as_state s), st_email_confirmed (as_state s))
      else (WF_ERR_ALLOC, None, False))"

definition metalbear_account_invites_enabled :: "account_io \<Rightarrow> account_store \<Rightarrow> bool" where
  "metalbear_account_invites_enabled io s =
     (if ai_sql io 0 = SQL_RUNS then st_invites_enabled (as_state s) else True)"

definition metalbear_account_set_invites_enabled ::
  "account_io \<Rightarrow> bool \<Rightarrow> account_store \<Rightarrow> wf_status \<times> account_store" where
  "metalbear_account_set_invites_enabled io enabled s =
     update_state io (\<lambda>st. st\<lparr>st_invites_enabled := enabled\<rparr>) s"

text \<open>Of the three statements only the last one's outcome is the answer.\<close>

definition metalbear_account_delete :: "account_io \<Rightarrow> account_store \<Rightarrow> wf_status \<times> account_store" where
  "metalbear_account_delete io s =
     (let s1 = (if ai_sql io 0 = SQL_RUNS then s\<lparr>as_app_passwords := []\<rparr> else s);
          s2 = (if ai_sql io 1 = SQL_RUNS then s1\<lparr>as_credentials := None\<rparr> else s1)
      in if ai_sql io 2 = SQL_RUNS then (WF_OK, s2\<lparr>as_state := (as_state s2)\<lparr>st_active := False\<rparr>\<rparr>)
         else (WF_ERR_INTERNAL, s2))"

section \<open>Tokens by mail\<close>

definition metalbear_account_create_email_token ::
  "account_io \<Rightarrow> string \<Rightarrow> nat \<Rightarrow> account_store \<Rightarrow> (wf_status + string) \<times> account_store" where
  "metalbear_account_create_email_token io kind token_len s =
     (if token_len < 33 then (Inl WF_ERR_INVALID_ARG, s)
      else (case ai_random io 0 of
              None \<Rightarrow> (Inl WF_ERR_CRYPTO, s)
            | Some random \<Rightarrow>
                (case ai_datetime io of
                   None \<Rightarrow> (Inl WF_ERR_INTERNAL, s)
                 | Some created_at \<Rightarrow>
                     if ai_sql io 0 \<noteq> SQL_RUNS \<or> list_ex (\<lambda>r. et_token r = hex_of random) (as_email_tokens s)
                     then (Inl WF_ERR_INTERNAL, s)
                     else (Inr (hex_of random),
                           s\<lparr>as_email_tokens := as_email_tokens s @
                             [\<lparr>et_token = hex_of random, et_kind = kind, et_created_at = created_at,
                               et_expires_at = ai_time io + 3600\<rparr>]\<rparr>))))"

definition token_valid :: "account_io \<Rightarrow> string \<Rightarrow> string \<Rightarrow> email_token_row \<Rightarrow> bool" where
  "token_valid io kind token r = (et_token r = token \<and> et_kind r = kind \<and> et_expires_at r > ai_time io)"

definition metalbear_account_verify_email_token ::
  "account_io \<Rightarrow> string \<Rightarrow> string \<Rightarrow> account_store \<Rightarrow> wf_status \<times> account_store" where
  "metalbear_account_verify_email_token io kind token s =
     (case ai_sql io 0 of
        SQL_UNPREPARED \<Rightarrow> (WF_ERR_INTERNAL, s)
      | fate \<Rightarrow>
          (let runs = (fate = SQL_RUNS);
               changes = (if runs then length (filter (token_valid io kind token) (as_email_tokens s)) else ai_changes io);
               s1 = (if runs then s\<lparr>as_email_tokens := filter (\<lambda>r. \<not> token_valid io kind token r) (as_email_tokens s)\<rparr> else s)
           in if changes = 0 then (WF_ERR_PERMISSION, s1)
              else if kind = ''confirm'' \<and> ai_sql io 1 = SQL_RUNS
              then (WF_OK, s1\<lparr>as_state := (as_state s1)\<lparr>st_email_confirmed := True\<rparr>\<rparr>)
              else (WF_OK, s1)))"

definition metalbear_account_delete_email_tokens_by_kind ::
  "account_io \<Rightarrow> string \<Rightarrow> account_store \<Rightarrow> wf_status \<times> account_store" where
  "metalbear_account_delete_email_tokens_by_kind io kind s =
     (if ai_sql io 0 = SQL_RUNS
      then (WF_OK, s\<lparr>as_email_tokens := filter (\<lambda>r. et_kind r \<noteq> kind) (as_email_tokens s)\<rparr>)
      else (WF_ERR_INTERNAL, s))"

definition metalbear_account_delete_all_email_tokens :: "account_io \<Rightarrow> account_store \<Rightarrow> wf_status \<times> account_store" where
  "metalbear_account_delete_all_email_tokens io s =
     (if ai_sql io 0 = SQL_RUNS then (WF_OK, s\<lparr>as_email_tokens := []\<rparr>) else (WF_ERR_INTERNAL, s))"

section \<open>Preferences\<close>

definition no_preferences :: string where
  "no_preferences = ''{'' @ [CHR 0x22] @ ''preferences'' @ [CHR 0x22] @ '':[]}''"

definition metalbear_account_store_prefs_get :: "account_io \<Rightarrow> account_store \<Rightarrow> string" where
  "metalbear_account_store_prefs_get io s =
     (if ai_sql io 0 \<noteq> SQL_RUNS then no_preferences
      else (case as_preferences s of Some data \<Rightarrow> data | None \<Rightarrow> no_preferences))"

definition metalbear_account_store_prefs_put ::
  "account_io \<Rightarrow> string \<Rightarrow> account_store \<Rightarrow> wf_status \<times> account_store" where
  "metalbear_account_store_prefs_put io json s =
     (if ai_sql io 0 = SQL_RUNS then (WF_OK, s\<lparr>as_preferences := Some json\<rparr>) else (WF_ERR_INTERNAL, s))"

section \<open>Opening\<close>

text \<open>
  A file holds a store once its tables were made, or nothing; a file older than the column of the
  invites reads every account as allowed them. A run of the statements that make the tables that stops
  half way leaves what the next one makes anyway.
\<close>

record account_file =
  af_version :: int
  af_invites_column :: bool
  af_store :: "account_store option"

record account_open_io = schema_io +
  ao_open :: bool
  ao_create :: bool
  ao_add_column :: bool
  ao_query :: sql_fate
  ao_insert :: sql_fate
  ao_salt :: "byte list option"

definition fresh_account :: account_store where
  "fresh_account =
     \<lparr>as_state = \<lparr>st_active = True, st_email = None, st_email_confirmed = False, st_deactivated_at = None,
                 st_delete_after = None, st_invites_enabled = True\<rparr>,
      as_credentials = None, as_app_passwords = [], as_email_tokens = [], as_preferences = None\<rparr>"

definition create_account_tables :: "account_open_io \<Rightarrow> account_file \<Rightarrow> bool \<times> account_file" where
  "create_account_tables io f =
     (if \<not> ao_create io then (False, f)
      else (case af_store f of
              Some s \<Rightarrow> (True, f)
            | None \<Rightarrow> (True, f\<lparr>af_store := Some fresh_account, af_invites_column := True\<rparr>)))"

definition add_invites_enabled :: "account_open_io \<Rightarrow> account_file \<Rightarrow> bool \<times> account_file" where
  "add_invites_enabled io f =
     (if \<not> ao_add_column io then (False, f)
      else if af_invites_column f then (True, f)
      else (True, f\<lparr>af_invites_column := True,
                    af_store := map_option (\<lambda>s. s\<lparr>as_state := (as_state s)\<lparr>st_invites_enabled := True\<rparr>\<rparr>) (af_store f)\<rparr>))"

text \<open>The row that is there already, when the query could not see it, makes the insertion fail.\<close>

definition bootstrap_credentials ::
  "scrypt \<Rightarrow> account_open_io \<Rightarrow> string \<Rightarrow> account_store \<Rightarrow> wf_status \<times> account_store" where
  "bootstrap_credentials scrypt io bootstrap_password s =
     (if ao_query io = SQL_RUNS \<and> as_credentials s \<noteq> None then (WF_OK, s)
      else if bootstrap_password = '''' then (WF_ERR_INVALID_ARG, s)
      else (case ao_salt io of
              None \<Rightarrow> (WF_ERR_INTERNAL, s)
            | Some salt \<Rightarrow>
                (case scrypt bootstrap_password salt of
                   None \<Rightarrow> (WF_ERR_INTERNAL, s)
                 | Some hash \<Rightarrow>
                     if ao_insert io \<noteq> SQL_RUNS \<or> as_credentials s \<noteq> None then (WF_ERR_INTERNAL, s)
                     else (WF_OK, s\<lparr>as_credentials := Some (salt, hash)\<rparr>))))"

definition metalbear_account_store_open ::
  "scrypt \<Rightarrow> account_open_io \<Rightarrow> string \<Rightarrow> account_file \<Rightarrow> wf_status \<times> account_file" where
  "metalbear_account_store_open scrypt io bootstrap_password f0 =
     (if \<not> ao_open io then (WF_ERR_INTERNAL, f0)
      else (case metalbear_schema_open io (af_version f0) of
        (status, version) \<Rightarrow>
          (let f1 = f0\<lparr>af_version := version\<rparr>
           in if status \<noteq> WF_OK then (WF_ERR_INTERNAL, f1)
              else (case create_account_tables io f1 of
                (ok2, f2) \<Rightarrow>
                  if \<not> ok2 then (WF_ERR_INTERNAL, f2)
                  else (case add_invites_enabled io f2 of
                    (ok3, f3) \<Rightarrow>
                      if \<not> ok3 then (WF_ERR_INTERNAL, f3)
                      else (case af_store f3 of
                              None \<Rightarrow> (WF_ERR_INTERNAL, f3)
                            | Some s \<Rightarrow>
                                (case bootstrap_credentials scrypt io bootstrap_password s of
                                   (status4, s4) \<Rightarrow> (status4, f3\<lparr>af_store := Some s4\<rparr>))))))))"

section \<open>The signing key\<close>

text \<open>The one row of the table; a call generates at most one key.\<close>

record key_store =
  ks_key :: "byte list option"

record signing_key_file =
  kf_version :: int
  kf_store :: "key_store option"

definition metalbear_key_rotation_open :: "schema_io \<Rightarrow> bool \<Rightarrow> bool \<Rightarrow> signing_key_file \<Rightarrow> wf_status \<times> signing_key_file" where
  "metalbear_key_rotation_open io open_ok create_ok f0 =
     (if \<not> open_ok then (WF_ERR_INTERNAL, f0)
      else (case metalbear_schema_open io (kf_version f0) of
        (status, version) \<Rightarrow>
          (let f1 = f0\<lparr>kf_version := version\<rparr>
           in if status \<noteq> WF_OK \<or> \<not> create_ok then (WF_ERR_INTERNAL, f1)
              else (WF_OK, f1\<lparr>kf_store := (case kf_store f1 of Some s \<Rightarrow> Some s | None \<Rightarrow> Some \<lparr>ks_key = None\<rparr>)\<rparr>))))"

definition store_key :: "account_io \<Rightarrow> nat \<Rightarrow> byte list \<Rightarrow> key_store \<Rightarrow> key_store" where
  "store_key io i key s = (if ai_sql io i = SQL_RUNS then s\<lparr>ks_key := Some key\<rparr> else s)"

text \<open>A row that cannot be read is taken for one that is not there.\<close>

definition metalbear_key_rotation_current_key ::
  "account_io \<Rightarrow> byte list option \<Rightarrow> key_store \<Rightarrow> (wf_status + byte list) \<times> key_store" where
  "metalbear_key_rotation_current_key io generated s =
     (case (if ai_sql io 0 = SQL_RUNS then ks_key s else None) of
        Some key \<Rightarrow>
          if length key = 32 then (Inr key, s)
          else (case generated of None \<Rightarrow> (Inl WF_ERR_CRYPTO, s) | Some new \<Rightarrow> (Inr new, store_key io 1 new s))
      | None \<Rightarrow> (case generated of None \<Rightarrow> (Inl WF_ERR_CRYPTO, s) | Some new \<Rightarrow> (Inr new, store_key io 1 new s)))"

definition metalbear_key_rotation_import ::
  "account_io \<Rightarrow> bool \<Rightarrow> byte list \<Rightarrow> key_store \<Rightarrow> wf_status \<times> key_store" where
  "metalbear_key_rotation_import io is_secp256k1 key s =
     (if \<not> is_secp256k1 then (WF_ERR_INVALID_ARG, s)
      else (if ai_sql io 0 = SQL_RUNS then WF_OK else WF_ERR_INTERNAL, store_key io 0 key s))"

text \<open>The new key goes out through its own pointer, whatever becomes of its did:key.\<close>

definition metalbear_key_rotation_rotate ::
  "(byte list \<Rightarrow> wf_status + string) \<Rightarrow> account_io \<Rightarrow> bool \<Rightarrow> byte list option \<Rightarrow> key_store \<Rightarrow>
   (wf_status \<times> byte list option \<times> string option) \<times> key_store" where
  "metalbear_key_rotation_rotate didkey io wants_didkey generated s =
     (case generated of
        None \<Rightarrow> ((WF_ERR_CRYPTO, None, None), s)
      | Some new \<Rightarrow>
          (if wants_didkey
           then (case didkey new of
                   Inl status \<Rightarrow> (status, Some new, None)
                 | Inr key_text \<Rightarrow> (WF_OK, Some new, Some key_text))
           else (WF_OK, Some new, None), store_key io 0 new s))"

definition metalbear_key_rotation_reserve ::
  "(byte list \<Rightarrow> wf_status + string) \<Rightarrow> byte list option \<Rightarrow> key_store \<Rightarrow> (wf_status + string) \<times> key_store" where
  "metalbear_key_rotation_reserve didkey generated s =
     (case generated of None \<Rightarrow> (Inl WF_ERR_CRYPTO, s) | Some new \<Rightarrow> (didkey new, s))"

section \<open>Runs\<close>

text \<open>
  What is done to the file of an account: openings, and calls on its store. The events of a run, newest
  first, are what was asked and came through: a password with its salt, an app password, a token.
\<close>

datatype account_change =
    Password_set string "byte list"
  | Password_cleared
  | App_created string string "byte list" bool
  | App_revoked string
  | Apps_cleared
  | Token_issued string string int
  | Token_accepted string string int
  | Token_unchecked string string

datatype account_call =
    Create_app_password string bool
  | Revoke_app_password string
  | Reset_password string
  | Deactivate "string option"
  | Activate
  | Store_email "string option"
  | Set_invites_enabled bool
  | Delete
  | Create_email_token string nat
  | Verify_email_token string string
  | Delete_email_tokens_by_kind string
  | Delete_all_email_tokens
  | Prefs_put string

definition salt_of :: "byte list option \<Rightarrow> byte list" where
  "salt_of salt = (case salt of Some b \<Rightarrow> b | None \<Rightarrow> [])"

text \<open>A call with its events; a token accepted though its deletion failed is reported apart.\<close>

fun call_account :: "scrypt \<Rightarrow> account_io \<Rightarrow> account_call \<Rightarrow> account_store \<Rightarrow> account_change list \<times> account_store" where
  "call_account scrypt io (Create_app_password name privileged) s =
     (case metalbear_account_create_app_password scrypt io name privileged s of
        (Inr (password, _), s') \<Rightarrow> ([App_created name password (salt_of (ai_random io 1)) privileged], s')
      | (Inl _, s') \<Rightarrow> ([], s'))"
| "call_account scrypt io (Revoke_app_password name) s =
     (case metalbear_account_revoke_app_password io name s of
        (status, s') \<Rightarrow> (if status = WF_OK then [App_revoked name] else [], s'))"
| "call_account scrypt io (Reset_password password) s =
     (case metalbear_account_reset_password scrypt io password s of
        (status, s') \<Rightarrow>
          (if status = WF_OK \<and> ai_sql io 0 = SQL_RUNS then [Password_set password (salt_of (ai_random io 0))] else [], s'))"
| "call_account scrypt io (Deactivate delete_after) s = ([], snd (metalbear_account_deactivate io delete_after s))"
| "call_account scrypt io Activate s = ([], snd (metalbear_account_activate io s))"
| "call_account scrypt io (Store_email email) s = ([], snd (metalbear_account_store_email io email s))"
| "call_account scrypt io (Set_invites_enabled enabled) s = ([], snd (metalbear_account_set_invites_enabled io enabled s))"
| "call_account scrypt io Delete s =
     ((if ai_sql io 1 = SQL_RUNS then [Password_cleared] else []) @
      (if ai_sql io 0 = SQL_RUNS then [Apps_cleared] else []), snd (metalbear_account_delete io s))"
| "call_account scrypt io (Create_email_token kind token_len) s =
     (case metalbear_account_create_email_token io kind token_len s of
        (Inr token, s') \<Rightarrow> ([Token_issued kind token (ai_time io)], s')
      | (Inl _, s') \<Rightarrow> ([], s'))"
| "call_account scrypt io (Verify_email_token kind token) s =
     (case metalbear_account_verify_email_token io kind token s of
        (status, s') \<Rightarrow>
          (if status \<noteq> WF_OK then []
           else if ai_sql io 0 = SQL_RUNS then [Token_accepted kind token (ai_time io)]
           else [Token_unchecked kind token], s'))"
| "call_account scrypt io (Delete_email_tokens_by_kind kind) s =
     ([], snd (metalbear_account_delete_email_tokens_by_kind io kind s))"
| "call_account scrypt io Delete_all_email_tokens s = ([], snd (metalbear_account_delete_all_email_tokens io s))"
| "call_account scrypt io (Prefs_put json) s = ([], snd (metalbear_account_store_prefs_put io json s))"

type_synonym account_run = "account_change list \<times> account_file"

inductive account_step :: "scrypt \<Rightarrow> account_run \<Rightarrow> account_run \<Rightarrow> bool" for scrypt where
  open_file: "metalbear_account_store_open scrypt io password f = (status, f') \<Longrightarrow>
    account_step scrypt (h, f)
      ((if status = WF_OK \<and> Option.bind (af_store f) as_credentials = None
        then [Password_set password (salt_of (ao_salt io))] else []) @ h, f')"
| call_store: "af_store f = Some s \<Longrightarrow> call_account scrypt io c s = (evs, s') \<Longrightarrow>
    account_step scrypt (h, f) (evs @ h, f\<lparr>af_store := Some s'\<rparr>)"

definition no_account :: "account_run \<Rightarrow> bool" where
  "no_account r \<longleftrightarrow> fst r = [] \<and> af_store (snd r) = None"

text \<open>The tables as the user sees them, with the passwords themselves: what the events add up to.\<close>

fun password_now :: "account_change list \<Rightarrow> (string \<times> byte list) option" where
  "password_now [] = None"
| "password_now (e # h) =
     (case e of
        Password_set password salt \<Rightarrow> Some (password, salt)
      | Password_cleared \<Rightarrow> None
      | _ \<Rightarrow> password_now h)"

fun app_passwords_now :: "account_change list \<Rightarrow> (string \<times> string \<times> byte list \<times> bool) list" where
  "app_passwords_now [] = []"
| "app_passwords_now (e # h) =
     (case e of
        App_created name password salt privileged \<Rightarrow> app_passwords_now h @ [(name, password, salt, privileged)]
      | App_revoked name \<Rightarrow> filter (\<lambda>(n, _). n \<noteq> name) (app_passwords_now h)
      | Apps_cleared \<Rightarrow> []
      | _ \<Rightarrow> app_passwords_now h)"

definition shown_as :: "scrypt \<Rightarrow> app_password_row \<Rightarrow> string \<times> string \<times> byte list \<times> bool \<Rightarrow> bool" where
  "shown_as scrypt r = (\<lambda>(name, password, salt, privileged).
     pw_name r = name \<and> pw_salt r = salt \<and> pw_privileged r = privileged \<and>
     scrypt password salt = Some (pw_hash r))"

definition hash_of :: "scrypt \<Rightarrow> (byte list \<times> byte list) option \<Rightarrow> (string \<times> byte list) option \<Rightarrow> bool" where
  "hash_of scrypt row shown =
     (case shown of
        None \<Rightarrow> row = None
      | Some (password, salt) \<Rightarrow> \<exists>hash. row = Some (salt, hash) \<and> scrypt password salt = Some hash)"

lemma hash_of_None [simp]: "hash_of scrypt None None"
  by (simp add: hash_of_def)

definition hashed_ok :: "scrypt \<Rightarrow> account_change list \<Rightarrow> account_store \<Rightarrow> bool" where
  "hashed_ok scrypt h s \<longleftrightarrow>
     hash_of scrypt (as_credentials s) (password_now h) \<and>
     list_all2 (shown_as scrypt) (as_app_passwords s) (app_passwords_now h) \<and>
     distinct (map pw_name (as_app_passwords s))"

definition passwords_ok :: "scrypt \<Rightarrow> account_run \<Rightarrow> bool" where
  "passwords_ok scrypt r \<longleftrightarrow>
     (case af_store (snd r) of
        None \<Rightarrow> fst r = []
      | Some s \<Rightarrow> hashed_ok scrypt (fst r) s)"

named_theorems account_defs

lemmas [account_defs] =
  metalbear_account_create_app_password_def metalbear_account_revoke_app_password_def
  metalbear_account_reset_password_def metalbear_account_deactivate_def metalbear_account_activate_def
  metalbear_account_store_email_def metalbear_account_set_invites_enabled_def metalbear_account_delete_def
  metalbear_account_create_email_token_def metalbear_account_verify_email_token_def
  metalbear_account_delete_email_tokens_by_kind_def metalbear_account_delete_all_email_tokens_def
  metalbear_account_store_prefs_put_def update_state_def

lemma list_all2_filter:
  assumes "list_all2 P xs ys" and "\<And>x y. P x y \<Longrightarrow> Q x = R y"
  shows "list_all2 P (filter Q xs) (filter R ys)"
  using assms(1) by (induction rule: list_all2_induct) (auto simp: assms(2))

lemma hashed_ok_unchanged:
  assumes "hashed_ok scrypt h s" and "as_credentials s' = as_credentials s" and "as_app_passwords s' = as_app_passwords s"
  shows "hashed_ok scrypt h s'"
  using assms by (simp add: hashed_ok_def)

lemma hashed_ok_call:
  assumes "hashed_ok scrypt h s" and "call_account scrypt io c s = (evs, s')"
  shows "hashed_ok scrypt (evs @ h) s'"
proof (cases c)
  case (Create_app_password name privileged)
  then show ?thesis
    using assms by (auto simp: hashed_ok_def account_defs salt_of_def shown_as_def list_ex_iff
      intro!: list_all2_appendI split: prod.splits sum.splits option.splits if_splits)
next
  case (Revoke_app_password name)
  have "shown_as scrypt r p \<Longrightarrow> (pw_name r \<noteq> name) = (case p of (n, _) \<Rightarrow> n \<noteq> name)" for r p
    by (auto simp: shown_as_def)
  then have "list_all2 (shown_as scrypt) (filter (\<lambda>r. pw_name r \<noteq> name) (as_app_passwords s))
      (filter (\<lambda>(n, _). n \<noteq> name) (app_passwords_now h))"
    using assms(1) by (intro list_all2_filter [of "shown_as scrypt"]) (auto simp: hashed_ok_def)
  then show ?thesis
    using assms Revoke_app_password
    by (auto simp: hashed_ok_def account_defs distinct_map_filter split: if_splits)
next
  case (Reset_password password)
  then show ?thesis
    using assms by (auto simp: hashed_ok_def hash_of_def account_defs salt_of_def split: prod.splits option.splits if_splits sql_fate.splits)
next
  case (Create_email_token kind token_len)
  then show ?thesis
    using assms by (auto simp: account_defs hashed_ok_def split: prod.splits sum.splits option.splits if_splits)
next
  case (Verify_email_token kind token)
  then have "as_credentials s' = as_credentials s" "as_app_passwords s' = as_app_passwords s"
    "password_now (evs @ h) = password_now h" "app_passwords_now (evs @ h) = app_passwords_now h"
    using assms(2) by (auto simp: account_defs Let_def split: prod.splits option.splits if_splits sql_fate.splits)
  then show ?thesis using assms(1) by (simp add: hashed_ok_def)
next
  case Delete
  then show ?thesis
    using assms by (auto simp: hashed_ok_def account_defs Let_def split: if_splits)
qed (use assms in \<open>auto simp: account_defs intro: hashed_ok_unchanged split: if_splits\<close>)

definition found :: "account_file \<Rightarrow> account_store" where
  "found f = (case af_store f of None \<Rightarrow> fresh_account | Some s \<Rightarrow> s)"

lemma found_simps [simp]:
  "found (f\<lparr>af_version := v\<rparr>) = found f" "af_store f = Some s \<Longrightarrow> found f = s"
  by (simp_all add: found_def)

lemma bootstrap_cases:
  assumes "bootstrap_credentials scrypt io password s = (status, s')"
  shows "as_app_passwords s' = as_app_passwords s" and "as_email_tokens s' = as_email_tokens s"
    and "status = WF_OK \<Longrightarrow> as_credentials s = None \<Longrightarrow>
      \<exists>salt hash. ao_salt io = Some salt \<and> scrypt password salt = Some hash \<and> as_credentials s' = Some (salt, hash)"
    and "status \<noteq> WF_OK \<or> as_credentials s \<noteq> None \<Longrightarrow> as_credentials s' = as_credentials s"
  using assms by (auto simp: bootstrap_credentials_def split: if_splits option.splits)

definition same_rows :: "account_store \<Rightarrow> account_store \<Rightarrow> bool" where
  "same_rows s t \<longleftrightarrow> as_app_passwords s = as_app_passwords t \<and> as_email_tokens s = as_email_tokens t \<and>
     as_credentials s = as_credentials t"

lemma create_tables_found:
  "create_account_tables io f = (ok, f') \<Longrightarrow> af_store f' = (if ok then Some (found f) else af_store f)"
  by (auto simp: create_account_tables_def found_def split: if_splits option.splits)

lemma add_invites_same:
  "add_invites_enabled io f = (ok, f') \<Longrightarrow> af_store f = Some s \<Longrightarrow> \<exists>t. af_store f' = Some t \<and> same_rows t s"
  by (auto simp: add_invites_enabled_def same_rows_def split: if_splits)

lemma open_forms:
  assumes "metalbear_account_store_open scrypt io password f = (status, f')"
  shows "(\<exists>s. same_rows s (found f) \<and> (\<exists>t. bootstrap_credentials scrypt io password s = (status, t) \<and> af_store f' = Some t)) \<or>
    status \<noteq> WF_OK \<and> (af_store f' = af_store f \<or> (\<exists>s. af_store f' = Some s \<and> same_rows s (found f)))"
  using assms
  by (auto simp: metalbear_account_store_open_def Let_def split: if_splits option.splits prod.splits
      dest!: create_tables_found add_invites_same)

lemma open_cases:
  assumes "metalbear_account_store_open scrypt io password f = (status, f')"
  obtains (unmade) "af_store f' = None" "af_store f = None" "status \<noteq> WF_OK"
  | (kept) s where "af_store f' = Some s" "same_rows s (found f)"
      "status \<noteq> WF_OK \<or> as_credentials (found f) \<noteq> None"
  | (stored) s salt hash where "af_store f' = Some s" "as_app_passwords s = as_app_passwords (found f)"
      "as_email_tokens s = as_email_tokens (found f)" "status = WF_OK" "as_credentials (found f) = None"
      "ao_salt io = Some salt" "scrypt password salt = Some hash" "as_credentials s = Some (salt, hash)"
  using open_forms [OF assms]
proof (elim disjE conjE exE)
  fix s t
  assume s: "same_rows s (found f)" and b: "bootstrap_credentials scrypt io password s = (status, t)" "af_store f' = Some t"
  show thesis
  proof (cases "status = WF_OK \<and> as_credentials s = None")
    case True
    then obtain salt hash where "ao_salt io = Some salt" "scrypt password salt = Some hash" "as_credentials t = Some (salt, hash)"
      using bootstrap_cases(3) [OF b(1)] by blast
    then show thesis using stored [of t salt hash] bootstrap_cases(1,2) [OF b(1)] s b True by (simp add: same_rows_def)
  next
    case False
    then show thesis using kept [of t] bootstrap_cases(1,2,4) [OF b(1)] s b by (auto simp: same_rows_def)
  qed
next
  assume "status \<noteq> WF_OK" and "af_store f' = af_store f"
  then show thesis using unmade kept [of "found f"]
    by (cases "af_store f") (simp_all add: same_rows_def)
qed (use kept in blast)

lemma hashed_ok_fresh: "hashed_ok scrypt [] fresh_account"
  by (simp add: hashed_ok_def hash_of_def fresh_account_def)

lemma passwords_ok_found: "passwords_ok scrypt (h, f) \<Longrightarrow> hashed_ok scrypt h (found f)"
  by (auto simp: passwords_ok_def found_def hashed_ok_fresh split: option.splits)

lemma passwords_ok_step:
  assumes "passwords_ok scrypt r" and "account_step scrypt r r'"
  shows "passwords_ok scrypt r'"
  using assms(2,1)
proof (induction rule: account_step.induct)
  case (open_file io password f status f' h)
  have ok: "hashed_ok scrypt h (found f)" using open_file.prems by (rule passwords_ok_found)
  have found_creds: "Option.bind (af_store f) as_credentials = as_credentials (found f)"
    by (simp add: found_def fresh_account_def split: option.splits)
  from open_file.hyps show ?case
  proof (cases rule: open_cases)
    case unmade
    then show ?thesis using open_file.prems by (simp add: passwords_ok_def)
  next
    case (kept s)
    then have "hashed_ok scrypt h s" using ok by (simp add: hashed_ok_def same_rows_def)
    then show ?thesis using kept by (auto simp: passwords_ok_def found_creds)
  next
    case (stored s salt hash)
    then show ?thesis
      using ok by (simp add: passwords_ok_def found_creds hashed_ok_def hash_of_def salt_of_def)
  qed
next
  case (call_store f s io c evs s' h)
  then show ?case using hashed_ok_call [of scrypt h s io c evs s'] by (simp add: passwords_ok_def)
qed

interpretation account_passwords: transition_system no_account "account_step scrypt" "passwords_ok scrypt"
proof
  show "passwords_ok scrypt r" if "no_account r" for r
    using that by (simp add: no_account_def passwords_ok_def)
qed (rule passwords_ok_step)

lemma verify_password_sound:
  assumes "hashed_ok scrypt h s" and "metalbear_account_verify_password scrypt io password s"
  shows "\<exists>q salt. password_now h = Some (q, salt) \<and> scrypt q salt = scrypt password salt"
  using assms
  by (auto simp: hashed_ok_def hash_of_def metalbear_account_verify_password_def password_matches_def
      split: option.splits)

lemma list_all2_left: "list_all2 P xs ys \<Longrightarrow> x \<in> set xs \<Longrightarrow> \<exists>y \<in> set ys. P x y"
  by (induction rule: list_all2_induct) auto

lemma list_all2_right: "list_all2 P xs ys \<Longrightarrow> y \<in> set ys \<Longrightarrow> \<exists>x \<in> set xs. P x y"
  by (induction rule: list_all2_induct) auto

lemma app_password_sound:
  assumes "hashed_ok scrypt h t" and "r \<in> set (as_app_passwords t)"
    and "password_matches scrypt password (pw_salt r) (pw_hash r)"
  shows "\<exists>q salt. (pw_name r, q, salt, pw_privileged r) \<in> set (app_passwords_now h) \<and> scrypt q salt = scrypt password salt"
proof -
  obtain p where p: "p \<in> set (app_passwords_now h)" "shown_as scrypt r p"
    using list_all2_left [of "shown_as scrypt" "as_app_passwords t" "app_passwords_now h" r] assms(1,2)
    unfolding hashed_ok_def by blast
  then obtain q where "(pw_name r, q, pw_salt r, pw_privileged r) \<in> set (app_passwords_now h)"
    "scrypt q (pw_salt r) = Some (pw_hash r)"
    by (cases p) (auto simp: shown_as_def)
  then show ?thesis using assms(3) by (metis password_matches_def)
qed

lemma app_password_complete:
  assumes "hashed_ok scrypt h t" and "(name, password, salt, privileged) \<in> set (app_passwords_now h)"
    and "length salt = 16" and "\<And>hash. scrypt password salt = Some hash \<Longrightarrow> length hash = 32"
  shows "\<exists>r \<in> set (as_app_passwords t). password_matches scrypt password (pw_salt r) (pw_hash r)"
proof -
  obtain r where "r \<in> set (as_app_passwords t)" "shown_as scrypt r (name, password, salt, privileged)"
    using list_all2_right [of "shown_as scrypt" "as_app_passwords t" "app_passwords_now h"] assms(1,2)
    unfolding hashed_ok_def by blast
  then show ?thesis using assms(3,4) by (intro bexI [of _ r]) (auto simp: shown_as_def password_matches_def)
qed

lemma verify_credential_cases:
  obtains (account) "metalbear_account_verify_password scrypt io password s"
      "metalbear_account_verify_credential scrypt io password s t = (METALBEAR_CREDENTIAL_ACCOUNT, None)"
  | (invalid) "metalbear_account_verify_credential scrypt io password s t = (METALBEAR_CREDENTIAL_INVALID, None)"
      "\<not> metalbear_account_verify_password scrypt io password s"
      "ai_sql io 1 = SQL_UNPREPARED \<or>
       (\<forall>r \<in> set (take (ai_reads io) (as_app_passwords t)). \<not> password_matches scrypt password (pw_salt r) (pw_hash r))"
  | (app) r where "r \<in> set (as_app_passwords t)" "password_matches scrypt password (pw_salt r) (pw_hash r)"
      "metalbear_account_verify_credential scrypt io password s t =
         (if pw_privileged r then METALBEAR_CREDENTIAL_APP_PASSWORD_PRIVILEGED else METALBEAR_CREDENTIAL_APP_PASSWORD,
          Some (pw_name r))"
proof (cases "metalbear_account_verify_password scrypt io password s \<or> ai_sql io 1 = SQL_UNPREPARED")
  case True
  then show thesis
    using account invalid
    by (cases "metalbear_account_verify_password scrypt io password s") (simp_all add: metalbear_account_verify_credential_def)
next
  case False
  show thesis
  proof (cases "find (\<lambda>r. password_matches scrypt password (pw_salt r) (pw_hash r)) (take (ai_reads io) (as_app_passwords t))")
    case None
    then show thesis
      using invalid False None [unfolded find_None_iff] by (simp add: metalbear_account_verify_credential_def)
  next
    case (Some r)
    then have "r \<in> set (as_app_passwords t)" "password_matches scrypt password (pw_salt r) (pw_hash r)"
      using find_SomeD in_set_takeD by fastforce+
    then show thesis using app [of r] Some False by (simp add: metalbear_account_verify_credential_def)
  qed
qed

lemma credential_complete:
  assumes "hashed_ok scrypt h s" and "hashed_ok scrypt h' t" and "ai_sql io 0 = SQL_RUNS" and "length salt = 16"
    and "\<And>hash. scrypt password salt = Some hash \<Longrightarrow> length hash = 32"
  shows "password_now h = Some (password, salt) \<Longrightarrow>
      metalbear_account_verify_credential scrypt io password s t = (METALBEAR_CREDENTIAL_ACCOUNT, None)"
    and "ai_sql io 1 \<noteq> SQL_UNPREPARED \<Longrightarrow> length (as_app_passwords t) \<le> ai_reads io \<Longrightarrow>
      (name, password, salt, privileged) \<in> set (app_passwords_now h') \<Longrightarrow>
      fst (metalbear_account_verify_credential scrypt io password s t) \<noteq> METALBEAR_CREDENTIAL_INVALID"
proof -
  show "metalbear_account_verify_credential scrypt io password s t = (METALBEAR_CREDENTIAL_ACCOUNT, None)"
    if "password_now h = Some (password, salt)"
    using that assms by (auto simp: hashed_ok_def hash_of_def metalbear_account_verify_password_def password_matches_def
        metalbear_account_verify_credential_def)
  assume here: "ai_sql io 1 \<noteq> SQL_UNPREPARED" "length (as_app_passwords t) \<le> ai_reads io"
    "(name, password, salt, privileged) \<in> set (app_passwords_now h')"
  obtain r where "r \<in> set (as_app_passwords t)" "password_matches scrypt password (pw_salt r) (pw_hash r)"
    using app_password_complete [OF assms(2) here(3) assms(4,5)] by blast
  then show "fst (metalbear_account_verify_credential scrypt io password s t) \<noteq> METALBEAR_CREDENTIAL_INVALID"
    using here(1,2) by (cases rule: verify_credential_cases [of scrypt io password s t]) auto
qed

text \<open>C27. Whatever has been done to an account since its file was made, failures and openings included, a
  credential is accepted only if it hashes as the password now set, or as an app password created under
  the name it is reported with, with that privilege, and neither revoked nor cleared since; and when the
  reads run, the password now set and every app password now valid are accepted. The account's
  password is looked at as it stood in the first hold of the lock, the app passwords in the second.
\<close>

theorem credential_authentic:
  assumes "no_account r" and "(account_step scrypt)\<^sup>*\<^sup>* r (h, f)" and "(account_step scrypt)\<^sup>*\<^sup>* (h, f) (h', f')"
    and "af_store f = Some s" and "af_store f' = Some t"
  shows "(case metalbear_account_verify_credential scrypt io password s t of
      (METALBEAR_CREDENTIAL_INVALID, name) \<Rightarrow> name = None
    | (METALBEAR_CREDENTIAL_ACCOUNT, name) \<Rightarrow>
        name = None \<and> (\<exists>q salt. password_now h = Some (q, salt) \<and> scrypt q salt = scrypt password salt)
    | (kind, name) \<Rightarrow>
        \<exists>n q salt. name = Some n \<and> scrypt q salt = scrypt password salt \<and>
          (n, q, salt, kind = METALBEAR_CREDENTIAL_APP_PASSWORD_PRIVILEGED) \<in> set (app_passwords_now h')) \<and>
    (\<forall>salt. ai_sql io 0 = SQL_RUNS \<and> length salt = 16 \<and> (\<forall>hash. scrypt password salt = Some hash \<longrightarrow> length hash = 32) \<longrightarrow>
       (password_now h = Some (password, salt) \<longrightarrow>
          metalbear_account_verify_credential scrypt io password s t = (METALBEAR_CREDENTIAL_ACCOUNT, None)) \<and>
       (ai_sql io 1 \<noteq> SQL_UNPREPARED \<and> length (as_app_passwords t) \<le> ai_reads io \<and>
        (\<exists>n privileged. (n, password, salt, privileged) \<in> set (app_passwords_now h')) \<longrightarrow>
          fst (metalbear_account_verify_credential scrypt io password s t) \<noteq> METALBEAR_CREDENTIAL_INVALID))"
proof -
  have ok: "hashed_ok scrypt h s"
    using account_passwords.inv_reachable [OF assms(1,2)] assms(4) by (simp add: passwords_ok_def)
  have ok': "hashed_ok scrypt h' t"
    using account_passwords.inv_reachable [OF assms(1) rtranclp_trans [OF assms(2,3)]] assms(5) by (simp add: passwords_ok_def)
  have complete: "\<forall>salt. ai_sql io 0 = SQL_RUNS \<and> length salt = 16 \<and> (\<forall>hash. scrypt password salt = Some hash \<longrightarrow> length hash = 32) \<longrightarrow>
       (password_now h = Some (password, salt) \<longrightarrow>
          metalbear_account_verify_credential scrypt io password s t = (METALBEAR_CREDENTIAL_ACCOUNT, None)) \<and>
       (ai_sql io 1 \<noteq> SQL_UNPREPARED \<and> length (as_app_passwords t) \<le> ai_reads io \<and>
        (\<exists>n privileged. (n, password, salt, privileged) \<in> set (app_passwords_now h')) \<longrightarrow>
          fst (metalbear_account_verify_credential scrypt io password s t) \<noteq> METALBEAR_CREDENTIAL_INVALID)"
    using credential_complete [OF ok ok'] by blast
  show ?thesis
  proof (cases rule: verify_credential_cases [of scrypt io password s t])
    case account
    then show ?thesis using verify_password_sound [OF ok] complete by simp
  next
    case invalid
    then show ?thesis using complete by (intro conjI) simp_all
  next
    case (app r)
    then show ?thesis using complete app_password_sound [OF ok' app(1,2)] by (intro conjI) (auto, metis+)
  qed
qed

section \<open>A mailed token is spent once\<close>

text \<open>
  What the events say of one token: how often it was issued, and how often accepted by a call whose
  deletion ran.
\<close>

definition issued :: "string \<Rightarrow> account_change list \<Rightarrow> nat" where
  "issued token h = length (filter (\<lambda>e. case e of Token_issued _ tok _ \<Rightarrow> tok = token | _ \<Rightarrow> False) h)"

definition accepted :: "string \<Rightarrow> account_change list \<Rightarrow> nat" where
  "accepted token h = length (filter (\<lambda>e. case e of Token_accepted _ tok _ \<Rightarrow> tok = token | _ \<Rightarrow> False) h)"

definition issued_in_time :: "string \<Rightarrow> string \<Rightarrow> int \<Rightarrow> account_change list \<Rightarrow> bool" where
  "issued_in_time kind token now h \<longleftrightarrow> (\<exists>time. Token_issued kind token time \<in> set h \<and> now < time + 3600)"

definition ledger_ok :: "account_change list \<Rightarrow> email_token_row list \<Rightarrow> bool" where
  "ledger_ok h rows \<longleftrightarrow>
     (\<forall>token. accepted token h + length (filter (\<lambda>r. et_token r = token) rows) \<le> issued token h) \<and>
     (\<forall>r \<in> set rows. Token_issued (et_kind r) (et_token r) (et_expires_at r - 3600) \<in> set h) \<and>
     (\<forall>kind token now. Token_accepted kind token now \<in> set h \<longrightarrow> issued_in_time kind token now h)"

definition tokens_ok :: "account_run \<Rightarrow> bool" where
  "tokens_ok r \<longleftrightarrow> ledger_ok (fst r) (as_email_tokens (found (snd r)))"

lemma event_counts [simp]:
  "issued token [] = 0" "accepted token [] = 0"
  "issued token (h @ h') = issued token h + issued token h'"
  "accepted token (h @ h') = accepted token h + accepted token h'"
  "issued token (e # h) = (case e of Token_issued _ tok _ \<Rightarrow> if tok = token then 1 else 0 | _ \<Rightarrow> 0) + issued token h"
  "accepted token (e # h) = (case e of Token_accepted _ tok _ \<Rightarrow> if tok = token then 1 else 0 | _ \<Rightarrow> 0) + accepted token h"
  by (auto simp: issued_def accepted_def split: account_change.splits)

lemma issued_in_time_mono: "issued_in_time kind token now h \<Longrightarrow> set h \<subseteq> set h' \<Longrightarrow> issued_in_time kind token now h'"
  by (auto simp: issued_in_time_def)

lemma issued_in_time_Cons: "issued_in_time kind token now h \<Longrightarrow> issued_in_time kind token now (e # h)"
  by (auto simp: issued_in_time_def)

lemma filter_filter_le: "length (filter P (filter Q xs)) \<le> length (filter P xs)"
  by (induction xs) auto

lemma filter_filter_less:
  assumes "x \<in> set xs" and "P x" and "\<not> Q x"
  shows "length (filter P (filter Q xs)) < length (filter P xs)"
proof -
  have "filter P (filter Q xs) = filter Q (filter P xs)" by (simp add: conj_commute)
  then show ?thesis using length_filter_less [of x "filter P xs" Q] assms by simp
qed

text \<open>Rows may go, and events that are not of tokens may come.\<close>

lemma ledger_ok_fewer:
  assumes "ledger_ok h rows" and "\<And>kind token time. Token_issued kind token time \<notin> set evs"
    and "\<And>kind token time. Token_accepted kind token time \<notin> set evs"
  shows "ledger_ok (evs @ h) (filter Q rows)"
proof -
  have none: "issued token evs = 0" "accepted token evs = 0" for token
    using assms(2,3) by (auto simp: issued_def accepted_def filter_empty_conv split: account_change.splits)
  have "accepted token h + length (filter (\<lambda>r. et_token r = token) (filter Q rows)) \<le> issued token h" for token
  proof -
    have "accepted token h + length (filter (\<lambda>r. et_token r = token) rows) \<le> issued token h"
      using assms(1) by (simp add: ledger_ok_def)
    then show ?thesis using filter_filter_le [of "\<lambda>r. et_token r = token" Q rows] by linarith
  qed
  moreover have "issued_in_time kind token now (evs @ h)" if "issued_in_time kind token now h" for kind token now
    using that by (rule issued_in_time_mono) simp
  ultimately show ?thesis using assms none by (auto simp: ledger_ok_def)
qed

lemma ledger_ok_issue:
  assumes "ledger_ok h rows"
  shows "ledger_ok (Token_issued kind token time # h)
    (rows @ [\<lparr>et_token = token, et_kind = kind, et_created_at = created, et_expires_at = time + 3600\<rparr>])"
  using assms by (auto simp: ledger_ok_def intro: issued_in_time_Cons)

lemma ledger_ok_accept:
  assumes "ledger_ok h rows" and "r \<in> set rows" and "et_token r = token" and "et_kind r = kind" and "now < et_expires_at r"
    and "\<And>x. Q x \<Longrightarrow> \<not> (et_token x = token \<and> et_kind x = kind \<and> now < et_expires_at x)"
  shows "ledger_ok (Token_accepted kind token now # h) (filter Q rows)"
proof -
  have "\<not> Q r" using assms(3-6) by blast
  then have fewer: "length (filter (\<lambda>r. et_token r = token) (filter Q rows)) < length (filter (\<lambda>r. et_token r = token) rows)"
    using filter_filter_less [of r rows "\<lambda>r. et_token r = token" Q] assms(2,3) by blast
  have counts: "accepted t (Token_accepted kind token now # h) + length (filter (\<lambda>r. et_token r = t) (filter Q rows)) \<le>
      issued t (Token_accepted kind token now # h)" for t
  proof -
    have "accepted t h + length (filter (\<lambda>r. et_token r = t) rows) \<le> issued t h"
      using assms(1) by (simp add: ledger_ok_def)
    moreover have "length (filter (\<lambda>r. et_token r = t) (filter Q rows)) \<le> length (filter (\<lambda>r. et_token r = t) rows)"
      by (rule filter_filter_le)
    ultimately show ?thesis using fewer by (cases "t = token") (simp_all del: filter_filter)
  qed
  have "issued_in_time kind token now h"
    using assms(1-5) unfolding ledger_ok_def issued_in_time_def by (metis add.commute diff_add_cancel)
  then have "issued_in_time k t time (Token_accepted kind token now # h)"
    if "Token_accepted k t time \<in> set (Token_accepted kind token now # h)" for k t time
    using that assms(1) by (auto simp: ledger_ok_def intro: issued_in_time_Cons)
  then show ?thesis using counts assms(1) by (auto simp: ledger_ok_def)
qed

lemma ledger_ok_call:
  assumes "ledger_ok h (as_email_tokens s)" and "call_account scrypt io c s = (evs, s')"
  shows "ledger_ok (evs @ h) (as_email_tokens s')"
proof (cases "as_email_tokens s' = as_email_tokens s \<and>
    (\<forall>e \<in> set evs. case e of Token_issued _ _ _ \<Rightarrow> False | Token_accepted _ _ _ \<Rightarrow> False | _ \<Rightarrow> True)")
  case True
  then show ?thesis
    using ledger_ok_fewer [where Q = "\<lambda>_. True" and evs = evs, OF assms(1)] by fastforce
next
  case False
  show ?thesis
  proof (cases c)
    case (Create_email_token kind token_len)
    then show ?thesis
      using assms False ledger_ok_issue [OF assms(1), of kind _ "ai_time io"]
      by (auto simp: account_defs split: prod.splits sum.splits option.splits if_splits)
  next
    case (Verify_email_token kind token)
    let ?keep = "\<lambda>r. \<not> token_valid io kind token r"
    have rows: "as_email_tokens s' = filter ?keep (as_email_tokens s)"
      and evs: "evs = [] \<or> evs = [Token_accepted kind token (ai_time io)] \<and> (\<exists>r \<in> set (as_email_tokens s). token_valid io kind token r)"
      using assms(2) False Verify_email_token
      by (auto simp: account_defs Let_def filter_empty_conv split: prod.splits if_splits sql_fate.splits)
    then show ?thesis
      using ledger_ok_fewer [where Q = ?keep and evs = "[]", OF assms(1)]
        ledger_ok_accept [where Q = ?keep and token = token and kind = kind and now = "ai_time io", OF assms(1)]
      by (auto simp: token_valid_def)
  next
    case (Delete_email_tokens_by_kind kind)
    then show ?thesis
      using assms False ledger_ok_fewer [where Q = "\<lambda>r. et_kind r \<noteq> kind" and evs = "[]", OF assms(1)]
      by (auto simp: account_defs split: if_splits)
  next
    case Delete_all_email_tokens
    then show ?thesis
      using assms False ledger_ok_fewer [where Q = "\<lambda>r. False" and evs = "[]", OF assms(1)]
      by (auto simp: account_defs split: if_splits)
  qed (use assms False in \<open>auto simp: account_defs Let_def split: prod.splits sum.splits option.splits if_splits sql_fate.splits\<close>)
qed

lemma tokens_ok_step:
  assumes "tokens_ok r" and "account_step scrypt r r'"
  shows "tokens_ok r'"
  using assms(2,1)
proof (induction rule: account_step.induct)
  case (open_file io password f status f' h)
  have "as_email_tokens (found f') = as_email_tokens (found f)"
    using open_file.hyps
    by (cases rule: open_cases) (simp_all add: same_rows_def, simp add: found_def)
  then show ?case
    using open_file.prems ledger_ok_fewer [where Q = "\<lambda>_. True" and h = h and rows = "as_email_tokens (found f)" and
        evs = "if status = WF_OK \<and> Option.bind (af_store f) as_credentials = None
          then [Password_set password (salt_of (ao_salt io))] else []"]
    by (auto simp: tokens_ok_def)
next
  case (call_store f s io c evs s' h)
  then show ?case using ledger_ok_call [of h s scrypt io c evs s'] by (simp add: tokens_ok_def found_def)
qed

interpretation account_tokens: transition_system no_account "account_step scrypt" tokens_ok
proof
  show "tokens_ok r" if "no_account r" for r
    using that by (simp add: no_account_def tokens_ok_def ledger_ok_def found_def fresh_account_def)
qed (rule tokens_ok_step)

text \<open>C28. Whatever is done to an account, a mailed token is accepted, by calls whose deletion ran, at most as
  often as it was issued, each time for the kind it was issued for and within an hour of it; and when
  the deletion runs, an unexpired token of the account is accepted and gone afterwards, and any other
  answers that permission is lacking and changes nothing. The step of the deletion is not checked:
  when it fails no token is gone, and the call succeeds, for any text, exactly when the statement before it
  on the connection had changed a row.
\<close>

theorem email_token_single_use:
  assumes "no_account r" and "(account_step scrypt)\<^sup>*\<^sup>* r (h, f)"
  shows "accepted token h \<le> issued token h \<and>
    (Token_accepted kind token now \<in> set h \<longrightarrow> issued_in_time kind token now h) \<and>
    (\<forall>s. af_store f = Some s \<and> ai_sql io 0 = SQL_RUNS \<longrightarrow>
       (case metalbear_account_verify_email_token io kind token s of (status, s') \<Rightarrow>
          if \<exists>r \<in> set (as_email_tokens s). token_valid io kind token r
          then status = WF_OK \<and> issued_in_time kind token (ai_time io) h \<and>
            fst (metalbear_account_verify_email_token io kind token s') = WF_ERR_PERMISSION
          else status = WF_ERR_PERMISSION \<and> s' = s)) \<and>
    (\<forall>s. ai_sql io 0 = SQL_STEP_FAILS \<longrightarrow>
       (case metalbear_account_verify_email_token io kind token s of (status, s') \<Rightarrow>
          as_email_tokens s' = as_email_tokens s \<and>
          status = (if ai_changes io \<noteq> 0 then WF_OK else WF_ERR_PERMISSION)))"
proof -
  have ok: "ledger_ok h (as_email_tokens (found f))"
    using account_tokens.inv_reachable [OF assms] by (simp add: tokens_ok_def)
  have counts: "accepted token h \<le> issued token h"
    using ok by (auto simp: ledger_ok_def intro: le_trans [OF le_add1])
  have "issued_in_time kind token (ai_time io) h"
    if "af_store f = Some s" "r \<in> set (as_email_tokens s)" "token_valid io kind token r" for s r
  proof -
    have "Token_issued (et_kind r) (et_token r) (et_expires_at r - 3600) \<in> set h"
      using that(1,2) ok by (auto simp: ledger_ok_def)
    then show ?thesis
      using that(3) unfolding issued_in_time_def token_valid_def
      by (intro exI [of _ "et_expires_at r - 3600"]) auto
  qed
  then show ?thesis
    using counts ok by (auto simp: ledger_ok_def metalbear_account_verify_email_token_def Let_def filter_empty_conv)
qed

section \<open>The signing key\<close>

text \<open>
  While the row can be read every call answers with the stored key and leaves it; one failed read
  replaces the key for good, and the answer does not tell.
\<close>

lemma signing_key_kept:
  assumes "ks_key s = Some key" and "length key = 32" and "ai_sql io 0 = SQL_RUNS"
  shows "metalbear_key_rotation_current_key io generated s = (Inr key, s)"
  using assms by (simp add: metalbear_key_rotation_current_key_def)

lemma signing_key_lost:
  assumes "ai_sql io 0 \<noteq> SQL_RUNS" and "ai_sql io 1 = SQL_RUNS"
  shows "metalbear_key_rotation_current_key io (Some new) s = (Inr new, s\<lparr>ks_key := Some new\<rparr>)"
  using assms by (simp add: metalbear_key_rotation_current_key_def store_key_def)

lemma reserved_key_not_kept: "snd (metalbear_key_rotation_reserve didkey generated s) = s"
  by (simp add: metalbear_key_rotation_reserve_def split: option.splits)

lemma rotated_key_is_current:
  assumes "ai_sql io 0 = SQL_RUNS" and "ai_sql io' 0 = SQL_RUNS" and "length new = 32"
  shows "fst (metalbear_key_rotation_current_key io' generated
      (snd (metalbear_key_rotation_rotate didkey io wants_didkey (Some new) s))) = Inr new"
  using assms by (simp add: metalbear_key_rotation_rotate_def metalbear_key_rotation_current_key_def store_key_def)

section \<open>Concrete inputs\<close>

definition demo_scrypt :: scrypt where
  "demo_scrypt password salt = Some (take 32 (map (\<lambda>c. of_nat (of_char c)) password @ salt @ replicate 32 0))"

definition demo_account_io :: account_io where
  "demo_account_io =
     \<lparr>ai_sql = (\<lambda>_. SQL_RUNS), ai_reads = 10, ai_now = ''now'', ai_datetime = Some ''now'', ai_time = 100,
      ai_random = (\<lambda>i. Some (replicate 16 (of_nat i))), ai_changes = 0\<rparr>"

definition demo_opening :: account_open_io where
  "demo_opening =
     \<lparr>ro_version_query = SQL_RUNS, ro_stamp = True, ao_open = True, ao_create = True, ao_add_column = True,
      ao_query = SQL_RUNS, ao_insert = SQL_RUNS, ao_salt = Some (replicate 16 7)\<rparr>"

definition empty_account_file :: account_file where
  "empty_account_file = \<lparr>af_version = 0, af_invites_column = False, af_store = None\<rparr>"

definition opened_store :: account_store where
  "opened_store = fresh_account\<lparr>as_credentials :=
     Some (replicate 16 7, the (demo_scrypt ''secret'' (replicate 16 7)))\<rparr>"

definition opened_file :: account_file where
  "opened_file = \<lparr>af_version = 1, af_invites_column = True, af_store = Some opened_store\<rparr>"

lemma demo_opens:
  "account_step demo_scrypt ([], empty_account_file) ([Password_set ''secret'' (replicate 16 7)], opened_file)"
proof -
  have "metalbear_account_store_open demo_scrypt demo_opening ''secret'' empty_account_file = (WF_OK, opened_file)"
    by (simp add: metalbear_account_store_open_def metalbear_schema_open_def METALBEAR_SCHEMA_VERSION_def
        create_account_tables_def add_invites_enabled_def bootstrap_credentials_def demo_opening_def
        empty_account_file_def opened_file_def opened_store_def fresh_account_def demo_scrypt_def)
  from account_step.open_file [OF this, of "[]"] show ?thesis
    by (simp add: empty_account_file_def demo_opening_def salt_of_def)
qed

definition phone_store :: account_store where
  "phone_store = opened_store\<lparr>as_app_passwords :=
     [\<lparr>pw_name = ''phone'', pw_salt = replicate 16 1,
       pw_hash = the (demo_scrypt ''aaaa-aaaa-aaaa-aaaa'' (replicate 16 1)),
       pw_created_at = ''now'', pw_privileged = False\<rparr>]\<rparr>"

lemma demo_creates_app_password:
  "account_step demo_scrypt ([Password_set ''secret'' (replicate 16 7)], opened_file)
     ([App_created ''phone'' ''aaaa-aaaa-aaaa-aaaa'' (replicate 16 1) False, Password_set ''secret'' (replicate 16 7)],
      opened_file\<lparr>af_store := Some phone_store\<rparr>)"
proof -
  have "call_account demo_scrypt demo_account_io (Create_app_password ''phone'' False) opened_store =
      ([App_created ''phone'' ''aaaa-aaaa-aaaa-aaaa'' (replicate 16 1) False], phone_store)"
    by (simp add: metalbear_account_create_app_password_def demo_account_io_def demo_scrypt_def format_app_password_def
        app_alphabet_def salt_of_def phone_store_def opened_store_def fresh_account_def Let_def numeral_eq_Suc)
  from account_step.call_store [of opened_file, OF _ this, of "[Password_set ''secret'' (replicate 16 7)]"]
  show ?thesis by (simp add: opened_file_def)
qed

theorem credential_authentic_witness:
  "metalbear_account_verify_credential demo_scrypt demo_account_io ''secret'' opened_store phone_store =
     (METALBEAR_CREDENTIAL_ACCOUNT, None) \<and>
   fst (metalbear_account_verify_credential demo_scrypt demo_account_io ''aaaa-aaaa-aaaa-aaaa'' opened_store phone_store) \<noteq>
     METALBEAR_CREDENTIAL_INVALID"
proof -
  have lengths: "length hash = 32" if "demo_scrypt password salt = Some hash" for password salt hash
    using that by (auto simp: demo_scrypt_def)
  have start: "no_account ([], empty_account_file)" by (simp add: no_account_def empty_account_file_def)
  have stores: "af_store opened_file = Some opened_store" "af_store (opened_file\<lparr>af_store := Some phone_store\<rparr>) = Some phone_store"
    by (simp_all add: opened_file_def)
  have io: "ai_sql demo_account_io i = SQL_RUNS" "length (as_app_passwords phone_store) \<le> ai_reads demo_account_io" for i
    by (simp_all add: demo_account_io_def phone_store_def opened_store_def fresh_account_def)
  note run = credential_authentic [OF start r_into_rtranclp [of "account_step demo_scrypt", OF demo_opens]
    r_into_rtranclp [of "account_step demo_scrypt", OF demo_creates_app_password] stores]
  show ?thesis
    using run [where io = demo_account_io and password = "''secret''", THEN conjunct2, rule_format, of "replicate 16 7"]
      run [where io = demo_account_io and password = "''aaaa-aaaa-aaaa-aaaa''", THEN conjunct2, rule_format, of "replicate 16 1"]
      lengths io by auto
qed

definition mailed_store :: account_store where
  "mailed_store = opened_store\<lparr>as_email_tokens :=
     [\<lparr>et_token = ''00000000000000000000000000000000'', et_kind = ''confirm'', et_created_at = ''now'',
       et_expires_at = 3700\<rparr>]\<rparr>"

lemma demo_mails_token:
  "account_step demo_scrypt ([Password_set ''secret'' (replicate 16 7)], opened_file)
     ([Token_issued ''confirm'' ''00000000000000000000000000000000'' 100, Password_set ''secret'' (replicate 16 7)],
      opened_file\<lparr>af_store := Some mailed_store\<rparr>)"
proof -
  have "call_account demo_scrypt demo_account_io (Create_email_token ''confirm'' 33) opened_store =
      ([Token_issued ''confirm'' ''00000000000000000000000000000000'' 100], mailed_store)"
    by (simp add: metalbear_account_create_email_token_def demo_account_io_def hex_of_def lower_hex_def
        mailed_store_def opened_store_def fresh_account_def numeral_eq_Suc)
  from account_step.call_store [of opened_file, OF _ this, of "[Password_set ''secret'' (replicate 16 7)]"]
  show ?thesis by (simp add: opened_file_def)
qed

theorem email_token_single_use_witness:
  "fst (metalbear_account_verify_email_token demo_account_io ''confirm'' ''00000000000000000000000000000000'' mailed_store) =
     WF_OK"
proof -
  have start: "no_account ([], empty_account_file)" by (simp add: no_account_def empty_account_file_def)
  note run = email_token_single_use [OF start rtranclp_trans [OF r_into_rtranclp [of "account_step demo_scrypt", OF demo_opens]
    r_into_rtranclp [of "account_step demo_scrypt", OF demo_mails_token]],
    where io = demo_account_io and kind = "''confirm''" and token = "''00000000000000000000000000000000''"]
  have "\<exists>r \<in> set (as_email_tokens mailed_store).
      token_valid demo_account_io ''confirm'' ''00000000000000000000000000000000'' r"
    by (simp add: mailed_store_def token_valid_def demo_account_io_def)
  moreover have "ai_sql demo_account_io 0 = SQL_RUNS" by (simp add: demo_account_io_def)
  ultimately show ?thesis
    using run [THEN conjunct2, THEN conjunct2, THEN conjunct1, rule_format, of mailed_store] by (simp split: prod.splits)
qed

end
