(* ===== verification/Video_Upload.thy ===== *)
theory Video_Upload
  imports Schema_Version
begin

text \<open>
  \<open>cpp/metalbear/video_upload.cpp\<close>, the store of videos uploaded in parts: the table of uploads, the
  table of parts received, the directory of each upload and the set of parts being written. A byte is a
  character, as in the blob store. What the world answers a call is the record \<open>video_io\<close>: the fate of
  each SQLite statement and the rows a query gives before its step fails, by the number of the
  statement; the readings of the clock and the outcomes of the file calls, by their number; the random
  bytes; and which files survive the removal of a directory. Wolfram's CID of a block is an argument,
  and so is the outcome of handing the video to the blob store. Memory does not run out. The file a
  video is assembled in, which nobody but its finisher reads, is the finisher's own.
\<close>

section \<open>The store\<close>

datatype metalbear_video_upload_state =
    METALBEAR_VIDEO_UPLOAD_CREATED
  | METALBEAR_VIDEO_UPLOAD_FINISHING
  | METALBEAR_VIDEO_UPLOAD_COMPLETED
  | METALBEAR_VIDEO_UPLOAD_FAILED
  | METALBEAR_VIDEO_UPLOAD_ABORTED
  | METALBEAR_VIDEO_UPLOAD_EXPIRED

datatype metalbear_video_upload_result =
    METALBEAR_VIDEO_UPLOAD_OK
  | METALBEAR_VIDEO_UPLOAD_NOT_FOUND
  | METALBEAR_VIDEO_UPLOAD_EXPIRED_RESULT
  | METALBEAR_VIDEO_UPLOAD_INVALID_PART
  | METALBEAR_VIDEO_UPLOAD_PART_SIZE_MISMATCH
  | METALBEAR_VIDEO_UPLOAD_NOT_READY
  | METALBEAR_VIDEO_UPLOAD_FAILED_RESULT
  | METALBEAR_VIDEO_UPLOAD_ABORTED_RESULT
  | METALBEAR_VIDEO_UPLOAD_ALREADY_COMPLETED
  | METALBEAR_VIDEO_UPLOAD_MISSING_PARTS
  | METALBEAR_VIDEO_UPLOAD_UNSUPPORTED_CONTENT_TYPE
  | METALBEAR_VIDEO_UPLOAD_TOO_LARGE
  | METALBEAR_VIDEO_UPLOAD_DAILY_LIMIT
  | METALBEAR_VIDEO_UPLOAD_TOO_MANY_OPEN
  | METALBEAR_VIDEO_UPLOAD_SERVICE_OVERLOADED
  | METALBEAR_VIDEO_UPLOAD_INVALID_REQUEST
  | METALBEAR_VIDEO_UPLOAD_INTERNAL

definition METALBEAR_VIDEO_MAX_BYTES :: nat where "METALBEAR_VIDEO_MAX_BYTES = 300000000"
definition METALBEAR_VIDEO_PART_BYTES :: nat where "METALBEAR_VIDEO_PART_BYTES = 5000000"
definition METALBEAR_VIDEO_MAX_PARTS :: nat where "METALBEAR_VIDEO_MAX_PARTS = 60"
definition METALBEAR_VIDEO_MAX_OPEN_UPLOADS :: nat where "METALBEAR_VIDEO_MAX_OPEN_UPLOADS = 4"
definition METALBEAR_VIDEO_DAILY_BYTES :: nat where "METALBEAR_VIDEO_DAILY_BYTES = 1073741824"
definition METALBEAR_VIDEO_DAILY_COUNT :: nat where "METALBEAR_VIDEO_DAILY_COUNT = 100"
definition kUploadLifetimeSeconds :: int where "kUploadLifetimeSeconds = 24 * 60 * 60"

record upload_row =
  up_job :: string
  up_size :: nat
  up_mime :: string
  up_name :: "string option"
  up_part_size :: nat
  up_part_count :: nat
  up_expires_at :: int
  up_state :: metalbear_video_upload_state
  up_completed :: "string option"
  up_cid :: "string option"
  up_failure :: "string option"
  up_created_at :: int

text \<open>The files of an upload's directory: \<open>part-00001\<close>, and \<open>part-00001.up-...tmp\<close> with its nonce.\<close>

datatype part_file = Part nat | Temporary nat string

type_synonym part_directory = "(part_file \<times> string) list"

record video_store =
  vs_uploads :: "upload_row list"
  vs_parts :: "(string \<times> nat \<times> nat) list"
  vs_dirs :: "string \<Rightarrow> part_directory option"
  vs_active :: "(string \<times> nat) list"

record video_io =
  vi_sql :: "nat \<Rightarrow> sql_fate"
  vi_reads :: "nat \<Rightarrow> nat"
  vi_now :: "nat \<Rightarrow> int"
  vi_file :: "nat \<Rightarrow> bool"
  vi_random :: "byte list option"
  vi_survives :: "part_file \<Rightarrow> bool"

definition random_job_id :: "video_io \<Rightarrow> string option" where
  "random_job_id io = map_option (\<lambda>b. ''up-'' @ hex_of b) (vi_random io)"

definition file_of :: "part_directory \<Rightarrow> part_file \<Rightarrow> string option" where
  "file_of d name = map_of d name"

definition put_file :: "part_file \<Rightarrow> string \<Rightarrow> part_directory \<Rightarrow> part_directory" where
  "put_file name content d = (name, content) # filter (\<lambda>(n, _). n \<noteq> name) d"

definition delete_file :: "part_file \<Rightarrow> part_directory \<Rightarrow> part_directory" where
  "delete_file name d = filter (\<lambda>(n, _). n \<noteq> name) d"

definition in_directory :: "string \<Rightarrow> (part_directory \<Rightarrow> part_directory) \<Rightarrow> video_store \<Rightarrow> video_store" where
  "in_directory job f s = s\<lparr>vs_dirs := (vs_dirs s)(job := map_option f (vs_dirs s job))\<rparr>"

text \<open>\<open>remove_all\<close>, with its errors dropped: what cannot be removed stays, and its directory with it.\<close>

definition remove_all :: "video_io \<Rightarrow> string \<Rightarrow> video_store \<Rightarrow> video_store" where
  "remove_all io job s =
     (case vs_dirs s job of
        None \<Rightarrow> s
      | Some d \<Rightarrow>
          (let left = filter (\<lambda>(n, _). vi_survives io n) d
           in s\<lparr>vs_dirs := (vs_dirs s)(job := if left = [] then None else Some left)\<rparr>))"

section \<open>Expiry, status and limits\<close>

definition overdue :: "int \<Rightarrow> upload_row \<Rightarrow> bool" where
  "overdue now r = (up_state r = METALBEAR_VIDEO_UPLOAD_CREATED \<and> up_expires_at r \<le> now)"

text \<open>The query and the update read the clock one after the other.\<close>

definition expire_sessions_locked :: "video_io \<Rightarrow> video_store \<Rightarrow> video_store" where
  "expire_sessions_locked io s =
     (let expired = (if vi_sql io 0 = SQL_UNPREPARED then []
                     else take (vi_reads io 0) (map up_job (filter (overdue (vi_now io 0)) (vs_uploads s))));
          s1 = (if vi_sql io 1 = SQL_RUNS
                then s\<lparr>vs_uploads := map (\<lambda>r. if overdue (vi_now io 1) r
                                               then r\<lparr>up_state := METALBEAR_VIDEO_UPLOAD_EXPIRED\<rparr> else r) (vs_uploads s)\<rparr>
                else s)
      in fold (remove_all io) expired s1)"

record video_status =
  vt_job :: string
  vt_size :: nat
  vt_part_size :: nat
  vt_part_count :: nat
  vt_received :: "nat list"
  vt_expires_at :: int
  vt_state :: metalbear_video_upload_state
  vt_completed :: string
  vt_cid :: string
  vt_mime :: string
  vt_failure :: string

definition copy_text :: "nat \<Rightarrow> string option \<Rightarrow> string" where
  "copy_text width shown = (case shown of None \<Rightarrow> '''' | Some t \<Rightarrow> snprintf_cut width t)"

definition find_upload :: "string \<Rightarrow> video_store \<Rightarrow> upload_row option" where
  "find_upload job s = find (\<lambda>r. up_job r = job) (vs_uploads s)"

text \<open>The expiry is kept as its number; the code prints it.\<close>

definition load_status_locked :: "video_io \<Rightarrow> nat \<Rightarrow> string \<Rightarrow> video_store \<Rightarrow> video_status option" where
  "load_status_locked io n job s =
     (if vi_sql io n \<noteq> SQL_RUNS then None
      else (case find_upload job s of
              None \<Rightarrow> None
            | Some r \<Rightarrow>
                if vi_sql io (n + 1) = SQL_UNPREPARED then None
                else Some \<lparr>vt_job = snprintf_cut 257 job, vt_size = up_size r, vt_part_size = up_part_size r,
                           vt_part_count = up_part_count r,
                           vt_received = take METALBEAR_VIDEO_MAX_PARTS (take (vi_reads io (n + 1))
                             (sort (map (\<lambda>(_, k, _). k) (filter (\<lambda>(j, _, _). j = job) (vs_parts s))))),
                           vt_expires_at = up_expires_at r, vt_state = up_state r,
                           vt_completed = copy_text 257 (up_completed r), vt_cid = copy_text 128 (up_cid r),
                           vt_mime = snprintf_cut 256 (up_mime r), vt_failure = copy_text 1025 (up_failure r)\<rparr>))"

definition state_result :: "metalbear_video_upload_state \<Rightarrow> metalbear_video_upload_result" where
  "state_result state =
     (case state of
        METALBEAR_VIDEO_UPLOAD_CREATED \<Rightarrow> METALBEAR_VIDEO_UPLOAD_OK
      | METALBEAR_VIDEO_UPLOAD_FINISHING \<Rightarrow> METALBEAR_VIDEO_UPLOAD_NOT_READY
      | METALBEAR_VIDEO_UPLOAD_COMPLETED \<Rightarrow> METALBEAR_VIDEO_UPLOAD_ALREADY_COMPLETED
      | METALBEAR_VIDEO_UPLOAD_FAILED \<Rightarrow> METALBEAR_VIDEO_UPLOAD_FAILED_RESULT
      | METALBEAR_VIDEO_UPLOAD_ABORTED \<Rightarrow> METALBEAR_VIDEO_UPLOAD_ABORTED_RESULT
      | METALBEAR_VIDEO_UPLOAD_EXPIRED \<Rightarrow> METALBEAR_VIDEO_UPLOAD_EXPIRED_RESULT)"

definition counted :: "int \<Rightarrow> upload_row \<Rightarrow> bool" where
  "counted now r =
     (up_state r \<in> {METALBEAR_VIDEO_UPLOAD_CREATED, METALBEAR_VIDEO_UPLOAD_FINISHING, METALBEAR_VIDEO_UPLOAD_COMPLETED} \<and>
      up_created_at r > now - 86400)"

definition used_bytes :: "int \<Rightarrow> video_store \<Rightarrow> nat" where
  "used_bytes now s = sum_list (map up_size (filter (counted now) (vs_uploads s)))"

definition used_videos :: "int \<Rightarrow> video_store \<Rightarrow> nat" where
  "used_videos now s = length (filter (counted now) (vs_uploads s))"

definition open_videos :: "int \<Rightarrow> video_store \<Rightarrow> nat" where
  "open_videos now s =
     length (filter (\<lambda>r. counted now r \<and> up_state r \<noteq> METALBEAR_VIDEO_UPLOAD_COMPLETED) (vs_uploads s))"

text \<open>Bytes and videos that remain of the day, and uploads open; a query that fails leaves the day untouched.\<close>

definition limits_locked :: "video_io \<Rightarrow> nat \<Rightarrow> int \<Rightarrow> video_store \<Rightarrow> nat \<times> nat \<times> nat" where
  "limits_locked io n now s =
     (if vi_sql io n = SQL_RUNS
      then (METALBEAR_VIDEO_DAILY_BYTES - used_bytes now s, METALBEAR_VIDEO_DAILY_COUNT - used_videos now s,
            open_videos now s)
      else (METALBEAR_VIDEO_DAILY_BYTES, METALBEAR_VIDEO_DAILY_COUNT, 0))"

definition metalbear_video_upload_get_status ::
  "video_io \<Rightarrow> string \<Rightarrow> video_store \<Rightarrow> (metalbear_video_upload_result \<times> video_status option) \<times> video_store" where
  "metalbear_video_upload_get_status io job s0 =
     (let s = expire_sessions_locked io s0
      in (case load_status_locked io 2 job s of
            None \<Rightarrow> (METALBEAR_VIDEO_UPLOAD_NOT_FOUND, None)
          | Some status \<Rightarrow> (METALBEAR_VIDEO_UPLOAD_OK, Some status), s))"

definition metalbear_video_upload_get_limits :: "video_io \<Rightarrow> video_store \<Rightarrow> (nat \<times> nat \<times> nat) \<times> video_store" where
  "metalbear_video_upload_get_limits io s0 =
     (let s = expire_sessions_locked io s0 in (limits_locked io 2 (vi_now io 2) s, s))"

section \<open>Starting an upload\<close>

definition metalbear_video_upload_start ::
  "video_io \<Rightarrow> nat \<Rightarrow> string \<Rightarrow> string option \<Rightarrow> video_store \<Rightarrow>
   (metalbear_video_upload_result \<times> video_status option) \<times> video_store" where
  "metalbear_video_upload_start io size_bytes mime_type name s0 =
     (if size_bytes = 0 then ((METALBEAR_VIDEO_UPLOAD_INVALID_REQUEST, None), s0)
      else if size_bytes > METALBEAR_VIDEO_MAX_BYTES then ((METALBEAR_VIDEO_UPLOAD_TOO_LARGE, None), s0)
      else if mime_type \<noteq> ''video/mp4'' then ((METALBEAR_VIDEO_UPLOAD_UNSUPPORTED_CONTENT_TYPE, None), s0)
      else if (case name of Some t \<Rightarrow> length t > 256 | None \<Rightarrow> False) then ((METALBEAR_VIDEO_UPLOAD_INVALID_REQUEST, None), s0)
      else
        (let s = expire_sessions_locked io s0
         in case limits_locked io 2 (vi_now io 2) s of (remaining_bytes, remaining_videos, open_uploads) \<Rightarrow>
           if open_uploads \<ge> METALBEAR_VIDEO_MAX_OPEN_UPLOADS then ((METALBEAR_VIDEO_UPLOAD_TOO_MANY_OPEN, None), s)
           else if remaining_videos = 0 \<or> size_bytes > remaining_bytes then ((METALBEAR_VIDEO_UPLOAD_DAILY_LIMIT, None), s)
           else (case random_job_id io of
                   None \<Rightarrow> ((METALBEAR_VIDEO_UPLOAD_INTERNAL, None), s)
                 | Some job \<Rightarrow>
                     if vi_sql io 3 = SQL_UNPREPARED then ((METALBEAR_VIDEO_UPLOAD_INTERNAL, None), s)
                     else if vi_sql io 3 \<noteq> SQL_RUNS \<or> find_upload job s \<noteq> None
                     then ((METALBEAR_VIDEO_UPLOAD_SERVICE_OVERLOADED, None), s)
                     else
                       (let row = \<lparr>up_job = job, up_size = size_bytes, up_mime = mime_type, up_name = name,
                                   up_part_size = METALBEAR_VIDEO_PART_BYTES,
                                   up_part_count = (size_bytes + METALBEAR_VIDEO_PART_BYTES - 1) div METALBEAR_VIDEO_PART_BYTES,
                                   up_expires_at = vi_now io 3 + kUploadLifetimeSeconds,
                                   up_state = METALBEAR_VIDEO_UPLOAD_CREATED, up_completed = None, up_cid = None,
                                   up_failure = None, up_created_at = vi_now io 3\<rparr>;
                            s1 = s\<lparr>vs_uploads := vs_uploads s @ [row]\<rparr>
                        in if \<not> vi_file io 0
                           then ((METALBEAR_VIDEO_UPLOAD_SERVICE_OVERLOADED, None),
                                 if vi_sql io 4 = SQL_RUNS
                                 then s1\<lparr>vs_uploads := filter (\<lambda>r. up_job r \<noteq> job) (vs_uploads s1)\<rparr> else s1)
                           else
                             (let s2 = s1\<lparr>vs_dirs := (vs_dirs s1)(job := Some (case vs_dirs s1 job of
                                             None \<Rightarrow> [] | Some d \<Rightarrow> d))\<rparr>
                              in (case load_status_locked io 5 job s2 of
                                    None \<Rightarrow> (METALBEAR_VIDEO_UPLOAD_INTERNAL, None)
                                  | Some status \<Rightarrow> (METALBEAR_VIDEO_UPLOAD_OK, Some status), s2))))))"

section \<open>Writing a part\<close>

text \<open>The file of a writer is open until it is closed; what goes into it is in the directory.\<close>

record part_writer =
  wr_job :: string
  wr_part :: nat
  wr_expected :: nat
  wr_written :: nat
  wr_nonce :: string
  wr_open :: bool
  wr_committed :: bool

definition wr_temporary :: "part_writer \<Rightarrow> part_file" where
  "wr_temporary w = Temporary (wr_part w) (wr_nonce w)"

definition expected_part :: "video_status \<Rightarrow> nat \<Rightarrow> nat" where
  "expected_part status part =
     (if part = vt_part_count status then vt_size status - (part - 1) * vt_part_size status else vt_part_size status)"

definition metalbear_video_upload_part_begin ::
  "video_io \<Rightarrow> string \<Rightarrow> nat \<Rightarrow> nat \<Rightarrow> video_store \<Rightarrow>
   (metalbear_video_upload_result \<times> part_writer option) \<times> video_store" where
  "metalbear_video_upload_part_begin io job part content_length s0 =
     (let s = expire_sessions_locked io s0
      in case load_status_locked io 2 job s of
           None \<Rightarrow> ((METALBEAR_VIDEO_UPLOAD_NOT_FOUND, None), s)
         | Some status \<Rightarrow>
             if state_result (vt_state status) \<noteq> METALBEAR_VIDEO_UPLOAD_OK then ((state_result (vt_state status), None), s)
             else if part = 0 \<or> part > vt_part_count status then ((METALBEAR_VIDEO_UPLOAD_INVALID_PART, None), s)
             else if content_length \<noteq> expected_part status part
             then ((METALBEAR_VIDEO_UPLOAD_PART_SIZE_MISMATCH, None), s)
             else if (job, part) \<in> set (vs_active s) then ((METALBEAR_VIDEO_UPLOAD_NOT_READY, None), s)
             else (case random_job_id io of
                     None \<Rightarrow> ((METALBEAR_VIDEO_UPLOAD_INTERNAL, None), s)
                   | Some nonce \<Rightarrow>
                       (case vs_dirs s job of
                          Some d \<Rightarrow>
                            if \<not> vi_file io 0 then ((METALBEAR_VIDEO_UPLOAD_SERVICE_OVERLOADED, None), s)
                            else ((METALBEAR_VIDEO_UPLOAD_OK,
                                   Some \<lparr>wr_job = job, wr_part = part, wr_expected = expected_part status part,
                                         wr_written = 0, wr_nonce = nonce, wr_open = True, wr_committed = False\<rparr>),
                                  in_directory job (put_file (Temporary part nonce) '''')
                                    (s\<lparr>vs_active := (job, part) # vs_active s\<rparr>))
                        | None \<Rightarrow> ((METALBEAR_VIDEO_UPLOAD_SERVICE_OVERLOADED, None), s))))"

text \<open>A write that fails may have put the beginning of the data, \<open>partial\<close> bytes of it, into the file.\<close>

definition append_file :: "part_writer \<Rightarrow> string \<Rightarrow> video_store \<Rightarrow> video_store" where
  "append_file w data s =
     in_directory (wr_job w) (\<lambda>d. case file_of d (wr_temporary w) of
         None \<Rightarrow> d | Some content \<Rightarrow> put_file (wr_temporary w) (content @ data) d) s"

definition metalbear_video_upload_part_write ::
  "bool \<Rightarrow> nat \<Rightarrow> part_writer \<Rightarrow> string \<Rightarrow> video_store \<Rightarrow>
   metalbear_video_upload_result \<times> part_writer \<times> video_store" where
  "metalbear_video_upload_part_write write_ok partial w data s =
     (if \<not> wr_open w then (METALBEAR_VIDEO_UPLOAD_INVALID_REQUEST, w, s)
      else if wr_written w > wr_expected w \<or> length data > wr_expected w - wr_written w
      then (METALBEAR_VIDEO_UPLOAD_PART_SIZE_MISMATCH, w, s)
      else if data \<noteq> [] \<and> \<not> write_ok
      then (METALBEAR_VIDEO_UPLOAD_SERVICE_OVERLOADED, w, append_file w (take partial data) s)
      else (METALBEAR_VIDEO_UPLOAD_OK, w\<lparr>wr_written := wr_written w + length data\<rparr>, append_file w data s))"

definition replace_part :: "string \<Rightarrow> nat \<Rightarrow> nat \<Rightarrow> (string \<times> nat \<times> nat) list \<Rightarrow> (string \<times> nat \<times> nat) list" where
  "replace_part job part len rows = filter (\<lambda>(j, k, _). \<not> (j = job \<and> k = part)) rows @ [(job, part, len)]"

text \<open>The file calls: 0 is the flush, 1 the closing, 2 the renaming.\<close>

definition metalbear_video_upload_part_finish ::
  "video_io \<Rightarrow> part_writer \<Rightarrow> video_store \<Rightarrow> metalbear_video_upload_result \<times> part_writer \<times> video_store" where
  "metalbear_video_upload_part_finish io w s =
     (if \<not> wr_open w then (METALBEAR_VIDEO_UPLOAD_INVALID_REQUEST, w, s)
      else if wr_written w \<noteq> wr_expected w then (METALBEAR_VIDEO_UPLOAD_PART_SIZE_MISMATCH, w, s)
      else
        (let w1 = w\<lparr>wr_open := False\<rparr>
         in if \<not> vi_file io 0 \<or> \<not> vi_file io 1 then (METALBEAR_VIDEO_UPLOAD_SERVICE_OVERLOADED, w1, s)
            else case load_status_locked io 0 (wr_job w) s of
              None \<Rightarrow> (METALBEAR_VIDEO_UPLOAD_NOT_FOUND, w1, s)
            | Some status \<Rightarrow>
                if state_result (vt_state status) \<noteq> METALBEAR_VIDEO_UPLOAD_OK
                then (state_result (vt_state status), w1, s)
                else (case Option.bind (vs_dirs s (wr_job w)) (\<lambda>d. file_of d (wr_temporary w)) of
                        None \<Rightarrow> (METALBEAR_VIDEO_UPLOAD_SERVICE_OVERLOADED, w1, s)
                      | Some content \<Rightarrow>
                          if \<not> vi_file io 2 then (METALBEAR_VIDEO_UPLOAD_SERVICE_OVERLOADED, w1, s)
                          else
                            (let s1 = in_directory (wr_job w)
                                   (\<lambda>d. put_file (Part (wr_part w)) content (delete_file (wr_temporary w) d)) s
                             in if vi_sql io 2 \<noteq> SQL_RUNS then (METALBEAR_VIDEO_UPLOAD_INTERNAL, w1, s1)
                                else (METALBEAR_VIDEO_UPLOAD_OK, w1\<lparr>wr_committed := True\<rparr>,
                                      s1\<lparr>vs_parts := replace_part (wr_job w) (wr_part w) (wr_written w) (vs_parts s1)\<rparr>)))))"

definition metalbear_video_upload_part_free :: "bool \<Rightarrow> part_writer \<Rightarrow> video_store \<Rightarrow> video_store" where
  "metalbear_video_upload_part_free removed w s =
     (let s1 = (if \<not> wr_committed w \<and> removed then in_directory (wr_job w) (delete_file (wr_temporary w)) s else s)
      in s1\<lparr>vs_active := filter (\<lambda>k. k \<noteq> (wr_job w, wr_part w)) (vs_active s1)\<rparr>)"

section \<open>Assembling\<close>

record assembly =
  am_result :: metalbear_video_upload_result
  am_data :: string
  am_header :: bool

text \<open>
  What the world answers the assembly: whether the file it writes opens, by part whether the part opens,
  reads to its end and closes, by the number of bytes so far whether a write succeeds, and the flush and
  the closing of the end.
\<close>

record assembly_io =
  ai_output :: bool
  ai_open :: "nat \<Rightarrow> bool"
  ai_read :: "nat \<Rightarrow> bool"
  ai_write :: "nat \<Rightarrow> bool"
  ai_close :: "nat \<Rightarrow> bool"
  ai_finish :: bool

definition BUFFER :: nat where "BUFFER = 64 * 1024"

definition take_block :: "assembly_io \<Rightarrow> nat \<Rightarrow> string \<Rightarrow> assembly \<Rightarrow> assembly" where
  "take_block io size_bytes got a =
     (let a1 = (if am_data a = [] \<and> length got \<ge> 12 then a\<lparr>am_header := take 4 (drop 4 got) = ''ftyp''\<rparr> else a);
          total = length (am_data a)
      in if total > size_bytes \<or> length got > size_bytes - total \<or> \<not> ai_write io total
         then a1\<lparr>am_result := METALBEAR_VIDEO_UPLOAD_INTERNAL\<rparr>
         else a1\<lparr>am_data := am_data a @ got\<rparr>)"

text \<open>The loop over a part in blocks of the buffer; a read that fails ends the input early.\<close>

function copy_part :: "assembly_io \<Rightarrow> nat \<Rightarrow> bool \<Rightarrow> string \<Rightarrow> assembly \<Rightarrow> assembly" where
  "copy_part io size_bytes read_ok input a =
     (let got = take BUFFER input;
          a1 = (if got = [] then a else take_block io size_bytes got a)
      in if am_result a1 \<noteq> METALBEAR_VIDEO_UPLOAD_OK then a1
         else if length got < BUFFER
         then (if read_ok then a1 else a1\<lparr>am_result := METALBEAR_VIDEO_UPLOAD_INTERNAL\<rparr>)
         else copy_part io size_bytes read_ok (drop BUFFER input) a1)"
  by pat_completeness auto

termination
  by (relation "measure (\<lambda>(io, n, ok, input, a). length input)") (auto simp: BUFFER_def)

definition assemble_begin :: "assembly_io \<Rightarrow> assembly" where
  "assemble_begin io =
     \<lparr>am_result = (if ai_output io then METALBEAR_VIDEO_UPLOAD_OK else METALBEAR_VIDEO_UPLOAD_SERVICE_OVERLOADED),
      am_data = [], am_header = False\<rparr>"

definition assemble_part :: "assembly_io \<Rightarrow> nat \<Rightarrow> nat \<Rightarrow> string option \<Rightarrow> assembly \<Rightarrow> assembly" where
  "assemble_part io size_bytes part content a =
     (case content of
        None \<Rightarrow> a\<lparr>am_result := METALBEAR_VIDEO_UPLOAD_SERVICE_OVERLOADED\<rparr>
      | Some input \<Rightarrow>
          if \<not> ai_open io part then a\<lparr>am_result := METALBEAR_VIDEO_UPLOAD_SERVICE_OVERLOADED\<rparr>
          else (let a1 = copy_part io size_bytes (ai_read io part) input a
                in if \<not> ai_close io part \<and> am_result a1 = METALBEAR_VIDEO_UPLOAD_OK
                   then a1\<lparr>am_result := METALBEAR_VIDEO_UPLOAD_INTERNAL\<rparr> else a1))"

text \<open>The size and the closing are checked whatever happened before, unless the output never opened.\<close>

definition assemble_end ::
  "(string \<Rightarrow> string option) \<Rightarrow> assembly_io \<Rightarrow> nat \<Rightarrow> assembly \<Rightarrow> metalbear_video_upload_result \<times> string" where
  "assemble_end cid_of io size_bytes a =
     (if \<not> ai_output io then (METALBEAR_VIDEO_UPLOAD_SERVICE_OVERLOADED, '''')
      else
        (let r1 = (if length (am_data a) \<noteq> size_bytes then METALBEAR_VIDEO_UPLOAD_INTERNAL else am_result a);
             r2 = (if \<not> ai_finish io then METALBEAR_VIDEO_UPLOAD_INTERNAL else r1);
             r3 = (if r2 = METALBEAR_VIDEO_UPLOAD_OK \<and> \<not> am_header a
                   then METALBEAR_VIDEO_UPLOAD_UNSUPPORTED_CONTENT_TYPE else r2)
         in if r3 \<noteq> METALBEAR_VIDEO_UPLOAD_OK then (r3, '''')
            else (case cid_of (am_data a) of
                    None \<Rightarrow> (METALBEAR_VIDEO_UPLOAD_INTERNAL, '''')
                  | Some cid \<Rightarrow> (METALBEAR_VIDEO_UPLOAD_OK, cid))))"

fun assemble_parts :: "assembly_io \<Rightarrow> nat \<Rightarrow> (nat \<Rightarrow> string option) \<Rightarrow> nat list \<Rightarrow> assembly \<Rightarrow> assembly" where
  "assemble_parts io size_bytes content [] a = a"
| "assemble_parts io size_bytes content (part # parts) a =
     (let a1 = assemble_part io size_bytes part (content part) a
      in if am_result a1 \<noteq> METALBEAR_VIDEO_UPLOAD_OK then a1
         else assemble_parts io size_bytes content parts a1)"

definition assemble_upload ::
  "(string \<Rightarrow> string option) \<Rightarrow> assembly_io \<Rightarrow> video_status \<Rightarrow> (nat \<Rightarrow> string option) \<Rightarrow>
   metalbear_video_upload_result \<times> string \<times> string" where
  "assemble_upload cid_of io status content =
     (let a0 = assemble_begin io;
          a = (if ai_output io then assemble_parts io (vt_size status) content [1..<Suc (vt_part_count status)] a0 else a0)
      in case assemble_end cid_of io (vt_size status) a of (result, cid) \<Rightarrow> (result, cid, am_data a))"

section \<open>Finishing and aborting\<close>

fun missing_text :: "nat list \<Rightarrow> nat list \<Rightarrow> string" where
  "missing_text [] received = ''''"
| "missing_text (part # parts) received =
     (case received of
        r # rest \<Rightarrow>
          if r = part then missing_text parts rest
          else '' '' @ decimal_digits part @ missing_text parts received
      | [] \<Rightarrow> '' '' @ decimal_digits part @ missing_text parts [])"

definition missing_parts :: "video_status \<Rightarrow> string" where
  "missing_parts status = ''missing parts:'' @ missing_text [1..<Suc (vt_part_count status)] (vt_received status)"

definition job_has_active_part :: "string \<Rightarrow> video_store \<Rightarrow> bool" where
  "job_has_active_part job s = list_ex (\<lambda>(j, _). j = job) (vs_active s)"

definition set_upload_state ::
  "string \<Rightarrow> (upload_row \<Rightarrow> bool) \<Rightarrow> (upload_row \<Rightarrow> upload_row) \<Rightarrow> video_store \<Rightarrow> video_store" where
  "set_upload_state job P f s =
     s\<lparr>vs_uploads := map (\<lambda>r. if up_job r = job \<and> P r then f r else r) (vs_uploads s)\<rparr>"

definition in_state :: "metalbear_video_upload_state \<Rightarrow> upload_row \<Rightarrow> bool" where
  "in_state state r = (up_state r = state)"

text \<open>The first hold of the lock: an answer with its detail, or the status of an upload now being finished.\<close>

definition finish_begin ::
  "video_io \<Rightarrow> nat \<Rightarrow> string \<Rightarrow> video_store \<Rightarrow>
   ((metalbear_video_upload_result \<times> video_status option \<times> string) + video_status) \<times> video_store" where
  "finish_begin io detail_size job s0 =
     (let s = expire_sessions_locked io s0
      in case load_status_locked io 2 job s of
           None \<Rightarrow> (Inl (METALBEAR_VIDEO_UPLOAD_NOT_FOUND, None, ''''), s)
         | Some status \<Rightarrow>
             if vt_state status = METALBEAR_VIDEO_UPLOAD_COMPLETED
             then (Inl (METALBEAR_VIDEO_UPLOAD_OK, Some status, ''''), s)
             else if state_result (vt_state status) \<noteq> METALBEAR_VIDEO_UPLOAD_OK
             then (Inl (state_result (vt_state status), None, ''''), s)
             else if job_has_active_part job s then (Inl (METALBEAR_VIDEO_UPLOAD_NOT_READY, None, ''''), s)
             else if length (vt_received status) \<noteq> vt_part_count status
             then (Inl (METALBEAR_VIDEO_UPLOAD_MISSING_PARTS, None, snprintf_cut detail_size (missing_parts status)), s)
             else if vi_sql io 4 = SQL_UNPREPARED then (Inl (METALBEAR_VIDEO_UPLOAD_INTERNAL, None, ''''), s)
             else if vi_sql io 4 \<noteq> SQL_RUNS \<or>
                  length (filter (\<lambda>r. up_job r = job \<and> in_state METALBEAR_VIDEO_UPLOAD_CREATED r) (vs_uploads s)) \<noteq> 1
             then (Inl (METALBEAR_VIDEO_UPLOAD_NOT_READY, None, ''''), s)
             else (Inr status, set_upload_state job (in_state METALBEAR_VIDEO_UPLOAD_CREATED)
                     (\<lambda>r. r\<lparr>up_state := METALBEAR_VIDEO_UPLOAD_FINISHING\<rparr>) s))"

definition completed_job_id :: "int \<Rightarrow> string \<Rightarrow> nat \<Rightarrow> string" where
  "completed_job_id now cid size_bytes =
     ''vid-'' @ (if now < 0 then ''-'' else '''') @ decimal_digits (nat \<bar>now\<bar>) @ ''-'' @ cid @ ''-'' @ decimal_digits size_bytes"

definition not_mp4 :: string where "not_mp4 = ''assembled object is not video/mp4''"

text \<open>The second hold, once the video was assembled and handed to the blob store.\<close>

definition finish_end ::
  "video_io \<Rightarrow> string \<Rightarrow> video_status \<Rightarrow> metalbear_video_upload_result \<Rightarrow> string \<Rightarrow> video_store \<Rightarrow>
   (metalbear_video_upload_result \<times> video_status option) \<times> video_store" where
  "finish_end io job status result cid s =
     (if result = METALBEAR_VIDEO_UPLOAD_OK \<and> vi_sql io 0 \<noteq> SQL_RUNS then ((METALBEAR_VIDEO_UPLOAD_INTERNAL, None), s)
      else
        (let s1 =
           (if vi_sql io 0 \<noteq> SQL_RUNS then s
            else if result = METALBEAR_VIDEO_UPLOAD_OK
            then remove_all io job
                   (set_upload_state job (\<lambda>r. True)
                      (\<lambda>r. r\<lparr>up_state := METALBEAR_VIDEO_UPLOAD_COMPLETED,
                             up_completed := Some (completed_job_id (vi_now io 0) cid (vt_size status)),
                             up_cid := Some cid, up_failure := None\<rparr>) s)
            else if result = METALBEAR_VIDEO_UPLOAD_UNSUPPORTED_CONTENT_TYPE
            then set_upload_state job (\<lambda>r. True)
                   (\<lambda>r. r\<lparr>up_state := METALBEAR_VIDEO_UPLOAD_FAILED, up_failure := Some not_mp4\<rparr>) s
            else set_upload_state job (in_state METALBEAR_VIDEO_UPLOAD_FINISHING)
                   (\<lambda>r. r\<lparr>up_state := METALBEAR_VIDEO_UPLOAD_CREATED\<rparr>) s)
         in (case load_status_locked io 1 job s1 of
               None \<Rightarrow> (METALBEAR_VIDEO_UPLOAD_INTERNAL, None)
             | Some after \<Rightarrow> (result, Some after), s1)))"

definition after_put ::
  "(string \<Rightarrow> string \<Rightarrow> string \<Rightarrow> wf_status) \<Rightarrow> video_status \<Rightarrow> metalbear_video_upload_result \<times> string \<Rightarrow> string \<Rightarrow>
   metalbear_video_upload_result" where
  "after_put put status assembled video =
     (case assembled of (result, cid) \<Rightarrow>
        if result = METALBEAR_VIDEO_UPLOAD_OK \<and> put cid (vt_mime status) video \<noteq> WF_OK
        then METALBEAR_VIDEO_UPLOAD_SERVICE_OVERLOADED else result)"

definition part_content :: "video_store \<Rightarrow> string \<Rightarrow> nat \<Rightarrow> string option" where
  "part_content s job part = Option.bind (vs_dirs s job) (\<lambda>d. file_of d (Part part))"

text \<open>The whole call, when nobody else comes in between; the two holds of the lock have answers of their own.\<close>

definition metalbear_video_upload_finish ::
  "(string \<Rightarrow> string option) \<Rightarrow> (string \<Rightarrow> string \<Rightarrow> string \<Rightarrow> wf_status) \<Rightarrow> assembly_io \<Rightarrow> video_io \<Rightarrow> video_io \<Rightarrow>
   nat \<Rightarrow> string \<Rightarrow> video_store \<Rightarrow> (metalbear_video_upload_result \<times> video_status option \<times> string) \<times> video_store" where
  "metalbear_video_upload_finish cid_of put aio io io' detail_size job s =
     (case finish_begin io detail_size job s of
        (Inl answer, s1) \<Rightarrow> (answer, s1)
      | (Inr status, s1) \<Rightarrow>
          (case assemble_upload cid_of aio status (part_content s1 job) of (result, cid, video) \<Rightarrow>
             (case finish_end io' job status (after_put put status (result, cid) video) cid s1 of
                ((answer, after), s2) \<Rightarrow> ((answer, after, ''''), s2))))"

definition metalbear_video_upload_abort ::
  "video_io \<Rightarrow> string \<Rightarrow> video_store \<Rightarrow> (metalbear_video_upload_result \<times> video_status option) \<times> video_store" where
  "metalbear_video_upload_abort io job s0 =
     (let s = expire_sessions_locked io s0
      in case load_status_locked io 2 job s of
           None \<Rightarrow> ((METALBEAR_VIDEO_UPLOAD_NOT_FOUND, None), s)
         | Some status \<Rightarrow>
             if vt_state status = METALBEAR_VIDEO_UPLOAD_FINISHING \<or> job_has_active_part job s
             then ((METALBEAR_VIDEO_UPLOAD_NOT_READY, Some status), s)
             else if vt_state status \<noteq> METALBEAR_VIDEO_UPLOAD_CREATED
             then ((METALBEAR_VIDEO_UPLOAD_OK, Some status), s)
             else if vi_sql io 4 \<noteq> SQL_RUNS then ((METALBEAR_VIDEO_UPLOAD_INTERNAL, Some status), s)
             else
               (let s1 = remove_all io job
                      (set_upload_state job (in_state METALBEAR_VIDEO_UPLOAD_CREATED)
                         (\<lambda>r. r\<lparr>up_state := METALBEAR_VIDEO_UPLOAD_ABORTED\<rparr>) s);
                    s2 = (if vi_sql io 5 = SQL_RUNS
                          then s1\<lparr>vs_parts := filter (\<lambda>(j, _, _). j \<noteq> job) (vs_parts s1)\<rparr> else s1)
                in case load_status_locked io 6 job s2 of
                     None \<Rightarrow> ((METALBEAR_VIDEO_UPLOAD_INTERNAL, None), s2)
                   | Some after \<Rightarrow> ((METALBEAR_VIDEO_UPLOAD_OK, Some after), s2)))"

section \<open>Opening\<close>

text \<open>
  What is on disk; the set of parts being written is the process's. The statements of the opening are one
  script, whose last takes back the uploads that were being finished.
\<close>

record video_file =
  vf_version :: int
  vf_store :: "video_store option"

record video_open_io = schema_io +
  vo_directory :: bool
  vo_open :: bool
  vo_tables :: bool
  vo_script :: bool

definition no_uploads :: video_store where
  "no_uploads = \<lparr>vs_uploads = [], vs_parts = [], vs_dirs = (\<lambda>_. None), vs_active = []\<rparr>"

definition taken_back :: "video_store \<Rightarrow> video_store" where
  "taken_back s = s\<lparr>vs_uploads := map (\<lambda>r. if in_state METALBEAR_VIDEO_UPLOAD_FINISHING r
       then r\<lparr>up_state := METALBEAR_VIDEO_UPLOAD_CREATED\<rparr> else r) (vs_uploads s)\<rparr>"

definition metalbear_video_upload_store_open ::
  "video_open_io \<Rightarrow> video_io \<Rightarrow> video_file \<Rightarrow> (wf_status + video_store) \<times> video_file" where
  "metalbear_video_upload_store_open oio io f0 =
     (if \<not> vo_directory oio \<or> \<not> vo_open oio then (Inl WF_ERR_INTERNAL, f0)
      else (case metalbear_schema_open oio (vf_version f0) of
        (status, version) \<Rightarrow>
          (let f1 = f0\<lparr>vf_version := version\<rparr>
           in if status \<noteq> WF_OK \<or> \<not> vo_tables oio then (Inl WF_ERR_INTERNAL, f1)
              else
                (let s = (case vf_store f1 of None \<Rightarrow> no_uploads | Some s \<Rightarrow> s)\<lparr>vs_active := []\<rparr>
                 in if \<not> vo_script oio then (Inl WF_ERR_INTERNAL, f1\<lparr>vf_store := Some s\<rparr>)
                    else
                      (let s1 = expire_sessions_locked io (taken_back s)
                       in (Inr s1, f1\<lparr>vf_store := Some s1\<rparr>))))))"

section \<open>Runs\<close>

text \<open>
  Several requests drive one store: each hold of its lock is a step, and so are a write to a part and the
  reading of one part by a finisher. A writer carries what its request sent so far, as long as no write
  was answered with an error: after one the request only closes it. The process may end after any step
  and open the files again. The history has what was put in place of a part and what was handed to the
  blob store, newest first.
\<close>

datatype video_event =
    Placed string nat string
  | Stored string string string string

record finisher =
  fn_job :: string
  fn_status :: video_status
  fn_io :: assembly_io
  fn_next :: nat
  fn_assembly :: assembly

record video_run =
  vr_store :: video_store
  vr_writers :: "(part_writer \<times> string option) list"
  vr_finishers :: "finisher list"
  vr_history :: "video_event list"

definition no_videos :: "video_run \<Rightarrow> bool" where
  "no_videos v \<longleftrightarrow> v = \<lparr>vr_store = no_uploads, vr_writers = [], vr_finishers = [], vr_history = []\<rparr>"

definition removed_at :: "nat \<Rightarrow> 'a list \<Rightarrow> 'a list" where
  "removed_at i xs = take i xs @ drop (Suc i) xs"

inductive video_step :: "(string \<Rightarrow> string option) \<Rightarrow> video_run \<Rightarrow> video_run \<Rightarrow> bool" for cid_of where
  start_upload: "metalbear_video_upload_start io size_bytes mime name (vr_store v) = (ans, s') \<Longrightarrow>
    video_step cid_of v (v\<lparr>vr_store := s'\<rparr>)"
| ask_status: "metalbear_video_upload_get_status io job (vr_store v) = (ans, s') \<Longrightarrow>
    video_step cid_of v (v\<lparr>vr_store := s'\<rparr>)"
| ask_limits: "metalbear_video_upload_get_limits io (vr_store v) = (limits, s') \<Longrightarrow>
    video_step cid_of v (v\<lparr>vr_store := s'\<rparr>)"
| abort_upload: "metalbear_video_upload_abort io job (vr_store v) = (ans, s') \<Longrightarrow>
    video_step cid_of v (v\<lparr>vr_store := s'\<rparr>)"
| begin_part: "metalbear_video_upload_part_begin io job part len (vr_store v) = ((result, w), s') \<Longrightarrow>
    video_step cid_of v (v\<lparr>vr_store := s',
      vr_writers := vr_writers v @ (case w of None \<Rightarrow> [] | Some w \<Rightarrow> [(w, Some '''')])\<rparr>)"
| write_part: "i < length (vr_writers v) \<Longrightarrow> vr_writers v ! i = (w, Some sent) \<Longrightarrow>
    metalbear_video_upload_part_write ok partial w data (vr_store v) = (result, w', s') \<Longrightarrow>
    video_step cid_of v (v\<lparr>vr_store := s', vr_writers := (vr_writers v)[i :=
      (w', if result = METALBEAR_VIDEO_UPLOAD_OK then Some (sent @ data) else None)]\<rparr>)"
| finish_part: "i < length (vr_writers v) \<Longrightarrow> vr_writers v ! i = (w, Some sent) \<Longrightarrow>
    metalbear_video_upload_part_finish io w (vr_store v) = (result, w', s') \<Longrightarrow>
    video_step cid_of v (v\<lparr>vr_store := s', vr_writers := (vr_writers v)[i := (w', None)],
      vr_history := (if result \<in> {METALBEAR_VIDEO_UPLOAD_OK, METALBEAR_VIDEO_UPLOAD_INTERNAL}
                     then [Placed (wr_job w) (wr_part w) sent] else []) @ vr_history v\<rparr>)"
| free_part: "i < length (vr_writers v) \<Longrightarrow>
    video_step cid_of v (v\<lparr>vr_store := metalbear_video_upload_part_free removed (fst (vr_writers v ! i)) (vr_store v),
      vr_writers := removed_at i (vr_writers v)\<rparr>)"
| refuse_finish: "finish_begin io detail_size job (vr_store v) = (Inl ans, s') \<Longrightarrow>
    video_step cid_of v (v\<lparr>vr_store := s'\<rparr>)"
| accept_finish: "finish_begin io detail_size job (vr_store v) = (Inr status, s') \<Longrightarrow>
    video_step cid_of v (v\<lparr>vr_store := s', vr_finishers := vr_finishers v @
      [\<lparr>fn_job = job, fn_status = status, fn_io = aio, fn_next = 1, fn_assembly = assemble_begin aio\<rparr>]\<rparr>)"
| read_part: "i < length (vr_finishers v) \<Longrightarrow> f = vr_finishers v ! i \<Longrightarrow>
    am_result (fn_assembly f) = METALBEAR_VIDEO_UPLOAD_OK \<Longrightarrow> fn_next f \<le> vt_part_count (fn_status f) \<Longrightarrow>
    video_step cid_of v (v\<lparr>vr_finishers := (vr_finishers v)[i := f\<lparr>fn_next := Suc (fn_next f),
      fn_assembly := assemble_part (fn_io f) (vt_size (fn_status f)) (fn_next f)
        (part_content (vr_store v) (fn_job f) (fn_next f)) (fn_assembly f)\<rparr>]\<rparr>)"
| end_finish: "i < length (vr_finishers v) \<Longrightarrow> f = vr_finishers v ! i \<Longrightarrow>
    am_result (fn_assembly f) \<noteq> METALBEAR_VIDEO_UPLOAD_OK \<or> fn_next f > vt_part_count (fn_status f) \<Longrightarrow>
    assemble_end cid_of (fn_io f) (vt_size (fn_status f)) (fn_assembly f) = (result, cid) \<Longrightarrow>
    result' = after_put put (fn_status f) (result, cid) (am_data (fn_assembly f)) \<Longrightarrow>
    finish_end io (fn_job f) (fn_status f) result' cid (vr_store v) = (ans, s') \<Longrightarrow>
    video_step cid_of v (v\<lparr>vr_store := s', vr_finishers := removed_at i (vr_finishers v),
      vr_history := (if result' = METALBEAR_VIDEO_UPLOAD_OK
                     then [Stored (fn_job f) cid (vt_mime (fn_status f)) (am_data (fn_assembly f))] else []) @ vr_history v\<rparr>)"
| restart: "metalbear_video_upload_store_open oio io \<lparr>vf_version = version, vf_store = Some (vr_store v)\<rparr> = (Inr s', f') \<Longrightarrow>
    video_step cid_of v \<lparr>vr_store = s', vr_writers = [], vr_finishers = [], vr_history = vr_history v\<rparr>"

text \<open>What was last put in place of a part.\<close>

fun placed :: "video_event list \<Rightarrow> string \<Rightarrow> nat \<Rightarrow> string option" where
  "placed [] job part = None"
| "placed (e # h) job part =
     (case e of
        Placed j k content \<Rightarrow> if j = job \<and> k = part then Some content else placed h job part
      | _ \<Rightarrow> placed h job part)"

text \<open>The video made of the parts in their order.\<close>

definition video_of :: "video_event list \<Rightarrow> string \<Rightarrow> nat \<Rightarrow> string option" where
  "video_of h job n =
     (if list_all (\<lambda>k. placed h job k \<noteq> None) [1..<Suc n]
      then Some (concat (map (\<lambda>k. the (placed h job k)) [1..<Suc n])) else None)"

section \<open>Rows and files\<close>

definition content :: "video_store \<Rightarrow> string \<Rightarrow> part_file \<Rightarrow> string option" where
  "content s job name = Option.bind (vs_dirs s job) (\<lambda>d. file_of d name)"

lemma part_content_eq: "part_content s job part = content s job (Part part)"
  by (simp add: part_content_def content_def)

lemma file_of_filter: "file_of (filter (\<lambda>(n, _). P n) d) name = (if P name then file_of d name else None)"
  by (induction d) (auto simp: file_of_def)

lemma file_of_simps [simp]:
  "file_of (put_file n c d) name = (if name = n then Some c else file_of d name)"
  "file_of (delete_file n d) name = (if name = n then None else file_of d name)"
  "file_of [] name = None"
  using file_of_filter [of "\<lambda>m. m \<noteq> n" d name]
  by (auto simp: put_file_def delete_file_def file_of_def)

lemma content_in_directory:
  "content (in_directory j f s) job name =
     (if job = j then Option.bind (vs_dirs s j) (\<lambda>d. file_of (f d) name) else content s job name)"
  by (cases "vs_dirs s j") (auto simp: content_def in_directory_def)

lemma content_updates [simp]:
  "content (s\<lparr>vs_uploads := u\<rparr>) = content s" "content (s\<lparr>vs_parts := p\<rparr>) = content s"
  "content (s\<lparr>vs_active := a\<rparr>) = content s"
  by (auto simp: content_def fun_eq_iff)

lemma in_directory_simps [simp]:
  "vs_uploads (in_directory j f s) = vs_uploads s" "vs_parts (in_directory j f s) = vs_parts s"
  "vs_active (in_directory j f s) = vs_active s"
  by (simp_all add: in_directory_def)

lemma remove_all_simps [simp]:
  "vs_uploads (remove_all io job s) = vs_uploads s" "vs_parts (remove_all io job s) = vs_parts s"
  "vs_active (remove_all io job s) = vs_active s"
  by (simp_all add: remove_all_def Let_def split: option.split)

lemma content_remove_all: "content (remove_all io j s) job name = Some c \<Longrightarrow> content s job name = Some c"
  by (auto simp: remove_all_def content_def file_of_filter Let_def split: option.splits if_splits)

lemma set_upload_state_simps [simp]:
  "vs_parts (set_upload_state job P f s) = vs_parts s" "vs_active (set_upload_state job P f s) = vs_active s"
  "vs_dirs (set_upload_state job P f s) = vs_dirs s" "content (set_upload_state job P f s) = content s"
  by (simp_all add: set_upload_state_def)

text \<open>What expiry and abortion may do: give up uploads that were only created, and lose files.\<close>

definition gives_up :: "(upload_row \<Rightarrow> upload_row) \<Rightarrow> bool" where
  "gives_up f \<longleftrightarrow> (\<forall>r. f r = r \<or> up_state r = METALBEAR_VIDEO_UPLOAD_CREATED \<and>
     (\<exists>state \<in> {METALBEAR_VIDEO_UPLOAD_EXPIRED, METALBEAR_VIDEO_UPLOAD_ABORTED}. f r = r\<lparr>up_state := state\<rparr>))"

definition quiet :: "video_store \<Rightarrow> video_store \<Rightarrow> bool" where
  "quiet s s' \<longleftrightarrow> vs_active s' = vs_active s \<and>
     (\<forall>job name c. content s' job name = Some c \<longrightarrow> content s job name = Some c) \<and>
     (\<exists>f. gives_up f \<and> vs_uploads s' = map f (vs_uploads s))"

lemma quiet_refl [simp]: "quiet s s"
  by (auto simp: quiet_def gives_up_def intro!: exI [of _ id])

lemma gives_up_comp:
  assumes "gives_up f" and "gives_up g"
  shows "gives_up (g \<circ> f)"
  unfolding gives_up_def
proof
  fix r :: upload_row
  have f: "f r = r \<or> up_state r = METALBEAR_VIDEO_UPLOAD_CREATED \<and>
      (\<exists>state \<in> {METALBEAR_VIDEO_UPLOAD_EXPIRED, METALBEAR_VIDEO_UPLOAD_ABORTED}. f r = r\<lparr>up_state := state\<rparr>)"
    and g: "g x = x \<or> up_state x = METALBEAR_VIDEO_UPLOAD_CREATED \<and>
      (\<exists>state \<in> {METALBEAR_VIDEO_UPLOAD_EXPIRED, METALBEAR_VIDEO_UPLOAD_ABORTED}. g x = x\<lparr>up_state := state\<rparr>)" for x
    using assms unfolding gives_up_def by blast+
  show "(g \<circ> f) r = r \<or> up_state r = METALBEAR_VIDEO_UPLOAD_CREATED \<and>
      (\<exists>state \<in> {METALBEAR_VIDEO_UPLOAD_EXPIRED, METALBEAR_VIDEO_UPLOAD_ABORTED}. (g \<circ> f) r = r\<lparr>up_state := state\<rparr>)"
  proof (cases "f r = r")
    case True
    then show ?thesis using g [of r] by simp
  next
    case False
    then have "up_state (f r) \<noteq> METALBEAR_VIDEO_UPLOAD_CREATED" using f by auto
    then have "g (f r) = f r" using g [of "f r"] by blast
    then show ?thesis using f by simp
  qed
qed

lemma quiet_trans: "quiet s t \<Longrightarrow> quiet t u \<Longrightarrow> quiet s u"
  unfolding quiet_def by (metis gives_up_comp map_map)

lemma quiet_remove_all: "quiet s (remove_all io job s)"
  by (auto simp: quiet_def gives_up_def intro: content_remove_all intro!: exI [of _ id])

lemma quiet_parts: "quiet s s' \<Longrightarrow> quiet s (s'\<lparr>vs_parts := p\<rparr>)"
  by (simp add: quiet_def)

lemma quiet_fold: "quiet s t \<Longrightarrow> quiet s (fold (remove_all io) jobs t)"
proof (induction jobs arbitrary: t)
  case (Cons job jobs)
  show ?case using Cons.IH [OF quiet_trans [OF Cons.prems quiet_remove_all]] by simp
qed simp

lemma gives_up_if:
  assumes "\<And>r. P r \<Longrightarrow> up_state r = METALBEAR_VIDEO_UPLOAD_CREATED"
    and "state \<in> {METALBEAR_VIDEO_UPLOAD_EXPIRED, METALBEAR_VIDEO_UPLOAD_ABORTED}"
  shows "gives_up (\<lambda>r. if P r then r\<lparr>up_state := state\<rparr> else r)"
  using assms unfolding gives_up_def by (metis (full_types))

lemma quiet_give_up: "gives_up f \<Longrightarrow> quiet s (s\<lparr>vs_uploads := map f (vs_uploads s)\<rparr>)"
  by (auto simp: quiet_def)

lemma quiet_expire: "quiet s (expire_sessions_locked io s)"
  unfolding expire_sessions_locked_def Let_def
  by (intro quiet_fold) (auto intro!: quiet_give_up gives_up_if simp: overdue_def)

lemma quiet_abort_state: "quiet s (set_upload_state job (in_state METALBEAR_VIDEO_UPLOAD_CREATED)
    (\<lambda>r. r\<lparr>up_state := METALBEAR_VIDEO_UPLOAD_ABORTED\<rparr>) s)"
  unfolding set_upload_state_def by (intro quiet_give_up gives_up_if) (auto simp: in_state_def)

lemma quiet_abort:
  assumes "metalbear_video_upload_abort io job s = (ans, s')"
  shows "quiet s s'"
proof -
  let ?s = "expire_sessions_locked io s"
  let ?t = "remove_all io job (set_upload_state job (in_state METALBEAR_VIDEO_UPLOAD_CREATED)
    (\<lambda>r. r\<lparr>up_state := METALBEAR_VIDEO_UPLOAD_ABORTED\<rparr>) ?s)"
  have t: "quiet s ?t" by (rule quiet_trans [OF quiet_trans [OF quiet_expire quiet_abort_state] quiet_remove_all])
  have "s' = ?s \<or> s' = ?t \<or> (\<exists>p. s' = ?t\<lparr>vs_parts := p\<rparr>)"
    using assms by (auto simp: metalbear_video_upload_abort_def Let_def split: option.splits if_splits)
  then show ?thesis using t quiet_parts [OF t] quiet_expire [of s io] by auto
qed

section \<open>What each call does to rows, files and parts being written\<close>

lemma find_uploadD: "find_upload job s = Some r \<Longrightarrow> r \<in> set (vs_uploads s) \<and> up_job r = job"
  unfolding find_upload_def by (drule find_SomeD) simp

lemma find_upload_None: "find_upload job s = None \<longleftrightarrow> (\<forall>r \<in> set (vs_uploads s). up_job r \<noteq> job)"
  by (auto simp: find_upload_def find_None_iff)

lemma load_status_row:
  assumes "load_status_locked io n job s = Some status"
  shows "\<exists>r. find_upload job s = Some r \<and> vt_state status = up_state r \<and> vt_size status = up_size r \<and>
    vt_part_count status = up_part_count r \<and> vt_mime status = snprintf_cut 256 (up_mime r)"
  using assms by (auto simp: load_status_locked_def split: if_splits option.splits)

lemma state_result_ok: "state_result state = METALBEAR_VIDEO_UPLOAD_OK \<longleftrightarrow> state = METALBEAR_VIDEO_UPLOAD_CREATED"
  by (cases state) (simp_all add: state_result_def)

lemma filter_new_row:
  "find_upload (up_job row) s = None \<Longrightarrow> filter (\<lambda>r. up_job r \<noteq> up_job row) (vs_uploads s @ [row]) = vs_uploads s"
  by (auto simp: find_upload_None filter_id_conv)

lemma content_make_directory:
  "content (s\<lparr>vs_dirs := (vs_dirs s)(job := Some (case vs_dirs s job of None \<Rightarrow> [] | Some d \<Rightarrow> d))\<rparr>) = content s"
  by (auto simp: content_def fun_eq_iff split: option.split)

lemma start_effect:
  assumes "metalbear_video_upload_start io size_bytes mime name s = (ans, s')"
  shows "quiet s s' \<or> (\<exists>t row. quiet s t \<and> up_state row = METALBEAR_VIDEO_UPLOAD_CREATED \<and>
    find_upload (up_job row) t = None \<and> vs_uploads s' = vs_uploads t @ [row] \<and>
    vs_active s' = vs_active t \<and> content s' = content t)"
proof (cases "s' = s \<or> s' = expire_sessions_locked io s")
  case True
  then show ?thesis using quiet_expire by auto
next
  case False
  define t where "t = expire_sessions_locked io s"
  have t: "quiet s t" unfolding t_def by (rule quiet_expire)
  obtain row u where row: "up_state row = METALBEAR_VIDEO_UPLOAD_CREATED" "find_upload (up_job row) t = None"
    and u: "u = t\<lparr>vs_uploads := vs_uploads t @ [row]\<rparr>"
    and s': "s' = u \<or> s' = u\<lparr>vs_uploads := filter (\<lambda>r. up_job r \<noteq> up_job row) (vs_uploads u)\<rparr> \<or>
       s' = u\<lparr>vs_dirs := (vs_dirs u)(up_job row := Some (case vs_dirs u (up_job row) of None \<Rightarrow> [] | Some d \<Rightarrow> d))\<rparr>"
  proof -
    let ?row = "\<lambda>job. \<lparr>up_job = job, up_size = size_bytes, up_mime = mime, up_name = name,
        up_part_size = METALBEAR_VIDEO_PART_BYTES,
        up_part_count = (size_bytes + METALBEAR_VIDEO_PART_BYTES - 1) div METALBEAR_VIDEO_PART_BYTES,
        up_expires_at = vi_now io 3 + kUploadLifetimeSeconds,
        up_state = METALBEAR_VIDEO_UPLOAD_CREATED, up_completed = None, up_cid = None,
        up_failure = None, up_created_at = vi_now io 3\<rparr>"
    obtain job where "find_upload job t = None"
      and "s' = (if \<not> vi_file io 0
          then (if vi_sql io 4 = SQL_RUNS
                then t\<lparr>vs_uploads := filter (\<lambda>r. up_job r \<noteq> job) (vs_uploads t @ [?row job])\<rparr>
                else t\<lparr>vs_uploads := vs_uploads t @ [?row job]\<rparr>)
          else t\<lparr>vs_uploads := vs_uploads t @ [?row job],
                 vs_dirs := (vs_dirs t)(job := Some (case vs_dirs t job of None \<Rightarrow> [] | Some d \<Rightarrow> d))\<rparr>)"
      using assms False unfolding metalbear_video_upload_start_def t_def [symmetric] Let_def
      by (simp split: if_split_asm prod.split_asm option.split_asm)
    then show thesis
      by (cases "vi_file io 0"; cases "vi_sql io 4 = SQL_RUNS";
          intro that [of "?row job" "t\<lparr>vs_uploads := vs_uploads t @ [?row job]\<rparr>"]) simp_all
  qed
  show ?thesis
  proof (cases "s' = u\<lparr>vs_uploads := filter (\<lambda>r. up_job r \<noteq> up_job row) (vs_uploads u)\<rparr>")
    case True
    then show ?thesis using filter_new_row [OF row(2)] u t by simp
  next
    case False
    then have "content s' = content u" "vs_uploads s' = vs_uploads u" "vs_active s' = vs_active u"
      using s' content_make_directory [of u "up_job row"] by auto
    then show ?thesis using row u t by (intro disjI2 exI [of _ t] exI [of _ row]) simp
  qed
qed

lemma begin_effect:
  assumes "metalbear_video_upload_part_begin io job part len s = ((result, w), s')"
  obtains (refused) "w = None" "quiet s s'"
  | (begun) t w' r where "w = Some w'" "quiet s t" "wr_job w' = job" "wr_part w' = part" "wr_open w'"
      "find_upload job t = Some r" "up_state r = METALBEAR_VIDEO_UPLOAD_CREATED"
      "(job, part) \<notin> set (vs_active t)" "vs_active s' = (job, part) # vs_active t" "vs_uploads s' = vs_uploads t"
      "\<And>j n. content s' j n = (if j = job \<and> n = wr_temporary w' then Some '''' else content t j n)"
proof -
  let ?t = "expire_sessions_locked io s"
  show thesis
  proof (cases w)
    case None
    then have "s' = ?t"
      using assms by (auto simp: metalbear_video_upload_part_begin_def Let_def split: if_splits option.splits)
    then show ?thesis using None refused quiet_expire by simp
  next
    case (Some w')
    then obtain status nonce d where
      st: "load_status_locked io 2 job ?t = Some status" "state_result (vt_state status) = METALBEAR_VIDEO_UPLOAD_OK"
      and new: "(job, part) \<notin> set (vs_active ?t)" and d: "vs_dirs ?t job = Some d"
      and w': "w' = \<lparr>wr_job = job, wr_part = part, wr_expected = expected_part status part,
          wr_written = 0, wr_nonce = nonce, wr_open = True, wr_committed = False\<rparr>"
      and s': "s' = in_directory job (put_file (Temporary part nonce) '''') (?t\<lparr>vs_active := (job, part) # vs_active ?t\<rparr>)"
      using assms by (auto simp: metalbear_video_upload_part_begin_def Let_def split: if_splits option.splits)
    obtain r where r: "find_upload job ?t = Some r" "up_state r = METALBEAR_VIDEO_UPLOAD_CREATED"
      using load_status_row [OF st(1)] st(2) by (auto simp: state_result_ok)
    have "content s' j n = (if j = job \<and> n = wr_temporary w' then Some '''' else content ?t j n)" for j n
      using d by (simp add: s' content_in_directory w' wr_temporary_def, simp add: content_def)
    then show ?thesis
      using Some r new w' s' by (intro begun [of w' ?t r] quiet_expire) simp_all
  qed
qed

lemma write_effect:
  assumes "metalbear_video_upload_part_write ok partial w data s = (result, w', s')"
  shows "vs_uploads s' = vs_uploads s \<and> vs_active s' = vs_active s \<and>
    wr_job w' = wr_job w \<and> wr_part w' = wr_part w \<and> wr_nonce w' = wr_nonce w \<and> wr_open w' = wr_open w \<and>
    (\<forall>j n. j \<noteq> wr_job w \<or> n \<noteq> wr_temporary w \<longrightarrow> content s' j n = content s j n) \<and>
    (result = METALBEAR_VIDEO_UPLOAD_OK \<longrightarrow>
       content s' (wr_job w) (wr_temporary w) = map_option (\<lambda>c. c @ data) (content s (wr_job w) (wr_temporary w)))"
proof -
  have append: "content (append_file w x s) j n =
      (if j = wr_job w \<and> n = wr_temporary w then map_option (\<lambda>c. c @ x) (content s j n) else content s j n)" for x j n
    by (cases "vs_dirs s (wr_job w)") (auto simp: append_file_def content_in_directory, auto simp: content_def split: option.splits)
  have "vs_uploads (append_file w x s) = vs_uploads s" "vs_active (append_file w x s) = vs_active s" for x
    by (simp_all add: append_file_def)
  then show ?thesis
    using assms append unfolding metalbear_video_upload_part_write_def by (auto split: if_split_asm)
qed

lemma finish_part_effect:
  assumes "metalbear_video_upload_part_finish io w s = (result, w', s')"
  obtains (refused) "s' = s" "result \<notin> {METALBEAR_VIDEO_UPLOAD_OK, METALBEAR_VIDEO_UPLOAD_INTERNAL}"
      "wr_job w' = wr_job w" "wr_part w' = wr_part w"
  | (placed) c r where "result \<in> {METALBEAR_VIDEO_UPLOAD_OK, METALBEAR_VIDEO_UPLOAD_INTERNAL}" "wr_open w"
      "wr_job w' = wr_job w" "wr_part w' = wr_part w" "content s (wr_job w) (wr_temporary w) = Some c"
      "find_upload (wr_job w) s = Some r" "up_state r = METALBEAR_VIDEO_UPLOAD_CREATED"
      "vs_uploads s' = vs_uploads s" "vs_active s' = vs_active s"
      "\<And>j n. content s' j n = (if j = wr_job w \<and> n = Part (wr_part w) then Some c
        else if j = wr_job w \<and> n = wr_temporary w then None else content s j n)"
proof (cases "result \<in> {METALBEAR_VIDEO_UPLOAD_OK, METALBEAR_VIDEO_UPLOAD_INTERNAL}")
  case False
  have "s' = s \<and> wr_job w' = wr_job w \<and> wr_part w' = wr_part w"
    using assms False unfolding metalbear_video_upload_part_finish_def Let_def
    by (simp split: if_split_asm option.split_asm) auto
  then show ?thesis using False refused by simp
next
  case True
  let ?f = "\<lambda>c d. put_file (Part (wr_part w)) c (delete_file (wr_temporary w) d)"
  have no_internal: "state_result x \<noteq> METALBEAR_VIDEO_UPLOAD_INTERNAL" for x by (cases x) (simp_all add: state_result_def)
  note finish = metalbear_video_upload_part_finish_def Let_def
  have ok: "wr_open w" "wr_written w = wr_expected w" "vi_file io 0" "vi_file io 1"
    using assms True by (auto simp: finish split: if_split_asm)
  obtain status where st: "load_status_locked io 0 (wr_job w) s = Some status"
    using assms True ok by (cases "load_status_locked io 0 (wr_job w) s") (auto simp: finish)
  have created: "state_result (vt_state status) = METALBEAR_VIDEO_UPLOAD_OK"
    using assms True ok st no_internal by (auto simp: finish split: if_split_asm)
  obtain c where c: "Option.bind (vs_dirs s (wr_job w)) (\<lambda>d. file_of d (wr_temporary w)) = Some c"
    using assms True ok st created
    by (cases "Option.bind (vs_dirs s (wr_job w)) (\<lambda>d. file_of d (wr_temporary w))") (auto simp: finish)
  have w: "wr_open w" "wr_job w' = wr_job w" "wr_part w' = wr_part w"
    and s': "s' = in_directory (wr_job w) (?f c) s \<or> (\<exists>p. s' = (in_directory (wr_job w) (?f c) s)\<lparr>vs_parts := p\<rparr>)"
    using assms True ok st created c by (auto simp: finish split: if_split_asm)
  obtain r where r: "find_upload (wr_job w) s = Some r" "up_state r = METALBEAR_VIDEO_UPLOAD_CREATED"
    using load_status_row [OF st] created by (auto simp: state_result_ok)
  obtain d where d: "vs_dirs s (wr_job w) = Some d" using c by (cases "vs_dirs s (wr_job w)") auto
  have "content s' j n = (if j = wr_job w \<and> n = Part (wr_part w) then Some c
      else if j = wr_job w \<and> n = wr_temporary w then None else content s j n)" for j n
    using s' d by (auto simp: content_in_directory, auto simp: content_def)
  moreover have "content s (wr_job w) (wr_temporary w) = Some c" using c by (simp add: content_def)
  ultimately show ?thesis using placed True w r s' by auto
qed

lemma free_effect:
  fixes s defines "s' \<equiv> \<lambda>removed w. metalbear_video_upload_part_free removed w s"
  shows "vs_uploads (s' removed w) = vs_uploads s"
    and "vs_active (s' removed w) = filter (\<lambda>k. k \<noteq> (wr_job w, wr_part w)) (vs_active s)"
    and "content (s' removed w) j n = Some c \<Longrightarrow> content s j n = Some c"
proof -
  have deleted: "content (in_directory (wr_job w) (delete_file (wr_temporary w)) s) j n = Some c \<Longrightarrow> content s j n = Some c"
    by (cases "vs_dirs s (wr_job w)") (auto simp: content_in_directory split: if_splits, auto simp: content_def split: if_splits)
  show "content (s' removed w) j n = Some c \<Longrightarrow> content s j n = Some c"
    using deleted by (simp add: s'_def metalbear_video_upload_part_free_def Let_def split: if_splits)
qed (simp_all add: s'_def metalbear_video_upload_part_free_def Let_def)

text \<open>How a row of an upload being finished stands to the status its finisher took.\<close>

definition finishing_row :: "string \<Rightarrow> video_status \<Rightarrow> upload_row \<Rightarrow> bool" where
  "finishing_row job status r \<longleftrightarrow> up_job r = job \<and> up_state r = METALBEAR_VIDEO_UPLOAD_FINISHING \<and>
     vt_size status = up_size r \<and> vt_part_count status = up_part_count r \<and> vt_mime status = snprintf_cut 256 (up_mime r)"

lemma finish_begin_refuses:
  assumes "finish_begin io detail_size job s = (Inl ans, s')"
  shows "quiet s s'"
proof -
  have "s' = expire_sessions_locked io s"
    using assms unfolding finish_begin_def Let_def by (simp split: option.split_asm if_split_asm)
  then show ?thesis using quiet_expire by simp
qed

lemma finish_begin_accepts:
  assumes "finish_begin io detail_size job s = (Inr status, s')"
  obtains t r where "quiet s t" "find_upload job t = Some r" "up_state r = METALBEAR_VIDEO_UPLOAD_CREATED"
    "finishing_row job status (r\<lparr>up_state := METALBEAR_VIDEO_UPLOAD_FINISHING\<rparr>)"
    "\<not> job_has_active_part job t" "vs_active s' = vs_active t" "content s' = content t"
    "vs_uploads s' = map (\<lambda>r. if up_job r = job \<and> up_state r = METALBEAR_VIDEO_UPLOAD_CREATED
       then r\<lparr>up_state := METALBEAR_VIDEO_UPLOAD_FINISHING\<rparr> else r) (vs_uploads t)"
proof -
  define t where "t = expire_sessions_locked io s"
  have st: "load_status_locked io 2 job t = Some status" "state_result (vt_state status) = METALBEAR_VIDEO_UPLOAD_OK"
      "\<not> job_has_active_part job t"
    and s': "s' = set_upload_state job (in_state METALBEAR_VIDEO_UPLOAD_CREATED)
       (\<lambda>r. r\<lparr>up_state := METALBEAR_VIDEO_UPLOAD_FINISHING\<rparr>) t"
    using assms unfolding finish_begin_def Let_def t_def [symmetric] by (simp_all split: option.split_asm if_split_asm)
  obtain r where r: "find_upload job t = Some r" "vt_state status = up_state r" "vt_size status = up_size r"
      "vt_part_count status = up_part_count r" "vt_mime status = snprintf_cut 256 (up_mime r)"
    using load_status_row [OF st(1)] by blast
  have "quiet s t" unfolding t_def by (rule quiet_expire)
  then show ?thesis
    using r st(2,3) find_uploadD [OF r(1)]
    by (intro that [of t r]) (simp_all add: s' set_upload_state_def in_state_def finishing_row_def state_result_ok)
qed

text \<open>The row is completed, failed, given back or left; nothing else moves but files going.\<close>

definition settled_row ::
  "metalbear_video_upload_result \<Rightarrow> string \<Rightarrow> video_status \<Rightarrow> upload_row \<Rightarrow> upload_row \<Rightarrow> bool" where
  "settled_row result cid status r r' \<longleftrightarrow>
     r' = r \<or>
     (result = METALBEAR_VIDEO_UPLOAD_OK \<and> (\<exists>now. r' = r\<lparr>up_state := METALBEAR_VIDEO_UPLOAD_COMPLETED,
        up_completed := Some (completed_job_id now cid (vt_size status)), up_cid := Some cid, up_failure := None\<rparr>)) \<or>
     (\<exists>failure. r' = r\<lparr>up_state := METALBEAR_VIDEO_UPLOAD_FAILED, up_failure := failure\<rparr>) \<or>
     (up_state r = METALBEAR_VIDEO_UPLOAD_FINISHING \<and> r' = r\<lparr>up_state := METALBEAR_VIDEO_UPLOAD_CREATED\<rparr>)"

lemma finish_end_effect:
  assumes "finish_end io job status result cid s = (ans, s')"
  obtains g where "vs_uploads s' = map (\<lambda>r. if up_job r = job then g r else r) (vs_uploads s)"
    "\<And>r. settled_row result cid status r (g r)" "vs_active s' = vs_active s"
    "\<And>j n c. content s' j n = Some c \<Longrightarrow> content s j n = Some c"
proof (cases "vi_sql io 0 = SQL_RUNS")
  case False
  then have "s' = s"
    using assms unfolding finish_end_def Let_def by (simp split: option.split_asm if_split_asm)
  then show ?thesis by (intro that [of "\<lambda>r. r"]) (simp_all add: settled_row_def)
next
  case True
  let ?ok = "\<lambda>r. r\<lparr>up_state := METALBEAR_VIDEO_UPLOAD_COMPLETED,
      up_completed := Some (completed_job_id (vi_now io 0) cid (vt_size status)), up_cid := Some cid, up_failure := None\<rparr>"
  let ?returned = "\<lambda>r. if in_state METALBEAR_VIDEO_UPLOAD_FINISHING r then r\<lparr>up_state := METALBEAR_VIDEO_UPLOAD_CREATED\<rparr> else r"
  let ?fail = "\<lambda>r. r\<lparr>up_state := METALBEAR_VIDEO_UPLOAD_FAILED, up_failure := Some not_mp4\<rparr>"
  consider (ok) "result = METALBEAR_VIDEO_UPLOAD_OK" "s' = remove_all io job (set_upload_state job (\<lambda>r. True) ?ok s)"
    | (mp4) "s' = set_upload_state job (\<lambda>r. True) ?fail s"
    | (given) "s' = set_upload_state job (in_state METALBEAR_VIDEO_UPLOAD_FINISHING)
        (\<lambda>r. r\<lparr>up_state := METALBEAR_VIDEO_UPLOAD_CREATED\<rparr>) s"
    using assms True unfolding finish_end_def Let_def by (simp split: option.split_asm if_split_asm)
  then show ?thesis
  proof cases
    case ok
    then show ?thesis
      by (intro that [of ?ok]) (auto simp: set_upload_state_def settled_row_def dest: content_remove_all)
  next
    case mp4
    then show ?thesis by (intro that [of ?fail]) (auto simp: set_upload_state_def settled_row_def)
  next
    case given
    then show ?thesis by (intro that [of ?returned]) (auto simp: set_upload_state_def settled_row_def in_state_def)
  qed
qed

lemma restart_effect:
  assumes "metalbear_video_upload_store_open oio io \<lparr>vf_version = version, vf_store = Some s\<rparr> = (Inr s', f')"
  shows "quiet (taken_back (s\<lparr>vs_active := []\<rparr>)) s'"
  using assms quiet_expire [of "taken_back (s\<lparr>vs_active := []\<rparr>)" io]
  by (auto simp: metalbear_video_upload_store_open_def Let_def split: if_splits prod.splits)

section \<open>The video of a completed upload\<close>

definition is_mp4 :: "string \<Rightarrow> bool" where
  "is_mp4 data \<longleftrightarrow> take 4 (drop 4 data) = ''ftyp''"

text \<open>The video was handed over under its CID when its parts were those in place.\<close>

definition made :: "(string \<Rightarrow> string option) \<Rightarrow> video_event list \<Rightarrow> upload_row \<Rightarrow> bool" where
  "made cid_of h r \<longleftrightarrow>
     (\<exists>later earlier cid data now. h = later @ Stored (up_job r) cid (snprintf_cut 256 (up_mime r)) data # earlier \<and>
        video_of earlier (up_job r) (up_part_count r) = Some data \<and> length data = up_size r \<and> is_mp4 data \<and>
        cid_of data = Some cid \<and> up_cid r = Some cid \<and> up_completed r = Some (completed_job_id now cid (up_size r)))"

definition rows_ok :: "(string \<Rightarrow> string option) \<Rightarrow> video_event list \<Rightarrow> video_store \<Rightarrow> bool" where
  "rows_ok cid_of h s \<longleftrightarrow> distinct (map up_job (vs_uploads s)) \<and>
     (\<forall>r \<in> set (vs_uploads s). up_state r = METALBEAR_VIDEO_UPLOAD_COMPLETED \<longrightarrow> made cid_of h r)"

definition files_ok :: "video_event list \<Rightarrow> video_store \<Rightarrow> bool" where
  "files_ok h s \<longleftrightarrow> (\<forall>job k c. content s job (Part k) = Some c \<longrightarrow> placed h job k = Some c)"

definition writer_key :: "part_writer \<times> string option \<Rightarrow> string \<times> nat" where
  "writer_key p = (wr_job (fst p), wr_part (fst p))"

definition writers_ok :: "(part_writer \<times> string option) list \<Rightarrow> video_store \<Rightarrow> bool" where
  "writers_ok ws s \<longleftrightarrow> distinct (map writer_key ws) \<and>
     (\<forall>p \<in> set ws. writer_key p \<in> set (vs_active s) \<and>
        (\<forall>sent c. snd p = Some sent \<and> wr_open (fst p) \<and> content s (wr_job (fst p)) (wr_temporary (fst p)) = Some c \<longrightarrow> c = sent))"

definition assembled :: "video_event list \<Rightarrow> finisher \<Rightarrow> bool" where
  "assembled h f \<longleftrightarrow> 1 \<le> fn_next f \<and> fn_next f \<le> Suc (vt_part_count (fn_status f)) \<and>
     (am_result (fn_assembly f) = METALBEAR_VIDEO_UPLOAD_OK \<longrightarrow>
        video_of h (fn_job f) (fn_next f - 1) = Some (am_data (fn_assembly f)) \<and>
        (am_header (fn_assembly f) \<longrightarrow> is_mp4 (am_data (fn_assembly f))))"

definition finishers_ok :: "video_event list \<Rightarrow> finisher list \<Rightarrow> video_store \<Rightarrow> bool" where
  "finishers_ok h fs s \<longleftrightarrow> distinct (map fn_job fs) \<and>
     (\<forall>f \<in> set fs. (\<exists>r \<in> set (vs_uploads s). finishing_row (fn_job f) (fn_status f) r) \<and>
        \<not> job_has_active_part (fn_job f) s \<and> assembled h f)"

definition video_inv :: "(string \<Rightarrow> string option) \<Rightarrow> video_run \<Rightarrow> bool" where
  "video_inv cid_of v \<longleftrightarrow> rows_ok cid_of (vr_history v) (vr_store v) \<and> files_ok (vr_history v) (vr_store v) \<and>
     writers_ok (vr_writers v) (vr_store v) \<and> finishers_ok (vr_history v) (vr_finishers v) (vr_store v)"

lemma made_later: "made cid_of h r \<Longrightarrow> made cid_of (evs @ h) r"
  unfolding made_def by (metis append.assoc)

lemma row_unique:
  assumes "distinct (map up_job rows)" and "r \<in> set rows" and "r' \<in> set rows" and "up_job r = up_job r'"
  shows "r = r'"
  using assms by (metis distinct_map inj_onD)

lemma gives_up_simps:
  assumes "gives_up f"
  shows "up_job (f r) = up_job r" and "up_state r \<noteq> METALBEAR_VIDEO_UPLOAD_CREATED \<Longrightarrow> f r = r"
    and "up_state (f r) \<notin> {METALBEAR_VIDEO_UPLOAD_EXPIRED, METALBEAR_VIDEO_UPLOAD_ABORTED} \<Longrightarrow> f r = r"
proof -
  have "f r = r \<or> up_state r = METALBEAR_VIDEO_UPLOAD_CREATED \<and>
      (\<exists>state \<in> {METALBEAR_VIDEO_UPLOAD_EXPIRED, METALBEAR_VIDEO_UPLOAD_ABORTED}. f r = r\<lparr>up_state := state\<rparr>)"
    using assms unfolding gives_up_def by blast
  then show "up_job (f r) = up_job r" and "up_state r \<noteq> METALBEAR_VIDEO_UPLOAD_CREATED \<Longrightarrow> f r = r"
    and "up_state (f r) \<notin> {METALBEAR_VIDEO_UPLOAD_EXPIRED, METALBEAR_VIDEO_UPLOAD_ABORTED} \<Longrightarrow> f r = r"
    by auto
qed

lemma rows_ok_quiet:
  assumes "rows_ok cid_of h s" and "quiet s s'"
  shows "rows_ok cid_of h s'"
proof -
  obtain f where f: "gives_up f" "vs_uploads s' = map f (vs_uploads s)" using assms(2) by (auto simp: quiet_def)
  have "map up_job (vs_uploads s') = map up_job (vs_uploads s)" using f gives_up_simps(1) by simp
  then have "distinct (map up_job (vs_uploads s'))" using assms(1) by (simp add: rows_ok_def)
  moreover have "made cid_of h (f r)" if "r \<in> set (vs_uploads s)" "up_state (f r) = METALBEAR_VIDEO_UPLOAD_COMPLETED" for r
    using that assms(1) gives_up_simps(3) [OF f(1), of r] by (auto simp: rows_ok_def)
  ultimately show ?thesis unfolding rows_ok_def using f(2) by auto
qed

lemma files_ok_fewer:
  "files_ok h s \<Longrightarrow> (\<And>j n c. content s' j n = Some c \<Longrightarrow> content s j n = Some c) \<Longrightarrow> files_ok h s'"
  by (simp add: files_ok_def)

lemma writers_ok_fewer:
  "writers_ok ws s \<Longrightarrow> vs_active s' = vs_active s \<Longrightarrow>
   (\<And>j n c. content s' j n = Some c \<Longrightarrow> content s j n = Some c) \<Longrightarrow> writers_ok ws s'"
  unfolding writers_ok_def by metis

lemma finishers_ok_quiet:
  assumes "finishers_ok h fs s" and "quiet s s'"
  shows "finishers_ok h fs s'"
proof -
  obtain f where f: "gives_up f" "vs_uploads s' = map f (vs_uploads s)" and a: "vs_active s' = vs_active s"
    using assms(2) by (auto simp: quiet_def)
  have "r \<in> set (vs_uploads s')" if "r \<in> set (vs_uploads s)" "finishing_row job status r" for job status r
  proof -
    have "f r = r" using gives_up_simps(2) [OF f(1)] that(2) by (simp add: finishing_row_def)
    then show ?thesis using that(1) f(2) by force
  qed
  then show ?thesis using assms(1) a unfolding finishers_ok_def job_has_active_part_def by metis
qed

lemma inv_quiet:
  assumes "video_inv cid_of v" and "quiet (vr_store v) s'"
  shows "video_inv cid_of (v\<lparr>vr_store := s'\<rparr>)"
proof -
  have "vs_active s' = vs_active (vr_store v)"
    and "content s' j n = Some c \<Longrightarrow> content (vr_store v) j n = Some c" for j n c
    using assms(2) by (simp_all add: quiet_def)
  then show ?thesis
    using assms(1) rows_ok_quiet [OF _ assms(2)] finishers_ok_quiet [OF _ assms(2)]
      files_ok_fewer [of "vr_history v" "vr_store v" s'] writers_ok_fewer [of "vr_writers v" "vr_store v" s']
    by (simp add: video_inv_def)
qed

lemma video_of_0 [simp]: "video_of h job 0 = Some []"
  by (simp add: video_of_def)

lemma video_of_Suc:
  "video_of h job n = Some d \<Longrightarrow> placed h job (Suc n) = Some c \<Longrightarrow> video_of h job (Suc n) = Some (d @ c)"
  by (auto simp: video_of_def split: if_splits)

lemma video_of_other [simp]:
  "j \<noteq> job \<Longrightarrow> video_of (Placed j k c # h) job n = video_of h job n"
  "video_of (Stored j cid mime data # h) job n = video_of h job n"
  by (simp_all add: video_of_def)

lemma is_mp4_append: "is_mp4 d \<Longrightarrow> is_mp4 (d @ x)"
  by (cases "length d \<ge> 8") (auto simp: is_mp4_def min_def)

lemma take_block_ok:
  assumes "am_result (take_block io n got a) = METALBEAR_VIDEO_UPLOAD_OK" and "am_header a \<longrightarrow> is_mp4 (am_data a)"
  shows "am_data (take_block io n got a) = am_data a @ got"
    and "am_header (take_block io n got a) \<longrightarrow> is_mp4 (am_data a @ got)"
  using assms is_mp4_append [of "am_data a" got]
  by (auto simp: take_block_def Let_def is_mp4_def split: if_splits)

declare copy_part.simps [simp del]

lemma copy_part_ok:
  assumes "am_result (copy_part io n ok input a) = METALBEAR_VIDEO_UPLOAD_OK" and "am_header a \<longrightarrow> is_mp4 (am_data a)"
  shows "am_data (copy_part io n ok input a) = am_data a @ input \<and>
    (am_header (copy_part io n ok input a) \<longrightarrow> is_mp4 (am_data a @ input))"
  using assms
proof (induction io n ok input a rule: copy_part.induct)
  case (1 io n ok input a)
  let ?got = "take BUFFER input"
  let ?a = "if ?got = [] then a else take_block io n ?got a"
  have ok: "am_result ?a = METALBEAR_VIDEO_UPLOAD_OK"
    using "1.prems"(1) by (subst (asm) copy_part.simps) (auto simp: Let_def split: if_splits)
  have block: "am_data ?a = am_data a @ ?got" "am_header ?a \<longrightarrow> is_mp4 (am_data ?a)"
    using take_block_ok [of io n ?got a] ok "1.prems"(2) by auto
  show ?case
  proof (cases "length ?got < BUFFER")
    case True
    then have "?got = input" by simp
    have "copy_part io n ok input a = (if ok then ?a else ?a\<lparr>am_result := METALBEAR_VIDEO_UPLOAD_INTERNAL\<rparr>)"
      unfolding copy_part.simps [of io n ok input a] Let_def using True ok by (simp only: if_True if_False simp_thms)
    then have "copy_part io n ok input a = ?a" using "1.prems"(1) by (simp split: if_splits)
    then show ?thesis using block \<open>?got = input\<close> by simp
  next
    case False
    then have next_block: "copy_part io n ok input a = copy_part io n ok (drop BUFFER input) ?a"
      using ok by (subst copy_part.simps) (simp add: Let_def)
    have step: "am_data (copy_part io n ok (drop BUFFER input) ?a) = am_data ?a @ drop BUFFER input \<and>
        (am_header (copy_part io n ok (drop BUFFER input) ?a) \<longrightarrow> is_mp4 (am_data ?a @ drop BUFFER input))"
    proof (rule "1.IH" [OF refl refl])
      show "\<not> am_result ?a \<noteq> METALBEAR_VIDEO_UPLOAD_OK" using ok by (simp only: not_not simp_thms)
      show "am_result (copy_part io n ok (drop BUFFER input) ?a) = METALBEAR_VIDEO_UPLOAD_OK"
        using "1.prems"(1) unfolding next_block .
    qed (rule False, rule block(2))
    have joined: "am_data ?a @ drop BUFFER input = am_data a @ input"
      unfolding block(1) by (simp only: append.assoc append_take_drop_id)
    show ?thesis using step unfolding joined next_block .
  qed
qed

lemma assemble_part_ok:
  assumes "am_result (assemble_part io n part held a) = METALBEAR_VIDEO_UPLOAD_OK" and "am_header a \<longrightarrow> is_mp4 (am_data a)"
  shows "\<exists>input. held = Some input \<and> am_data (assemble_part io n part held a) = am_data a @ input \<and>
    (am_header (assemble_part io n part held a) \<longrightarrow> is_mp4 (am_data a @ input))"
proof (cases held)
  case (Some input)
  then show ?thesis
    using assms copy_part_ok [of io n "ai_read io part" input a]
    by (auto simp: assemble_part_def Let_def split: if_splits)
qed (use assms in \<open>simp add: assemble_part_def\<close>)

lemma assemble_end_ok:
  assumes "assemble_end cid_of io n a = (METALBEAR_VIDEO_UPLOAD_OK, cid)"
  shows "length (am_data a) = n \<and> am_result a = METALBEAR_VIDEO_UPLOAD_OK \<and> am_header a \<and> cid_of (am_data a) = Some cid"
  using assms by (auto simp: assemble_end_def Let_def split: if_splits option.splits)

text \<open>An upload being finished is not one that was only created.\<close>

lemma finishing_not_created:
  assumes "rows_ok cid_of h s" and "finishers_ok h fs s" and "f \<in> set fs"
    and "r \<in> set (vs_uploads s)" and "up_state r = METALBEAR_VIDEO_UPLOAD_CREATED"
  shows "fn_job f \<noteq> up_job r"
proof
  assume same: "fn_job f = up_job r"
  obtain r' where "r' \<in> set (vs_uploads s)" "finishing_row (fn_job f) (fn_status f) r'"
    using assms(2,3) unfolding finishers_ok_def by blast
  then have "up_state r' = METALBEAR_VIDEO_UPLOAD_FINISHING" "r' = r"
    using row_unique [of "vs_uploads s" r' r] assms(1,4) same by (auto simp: rows_ok_def finishing_row_def)
  then show False using assms(5) by simp
qed

lemma finishers_ok_frame:
  assumes "finishers_ok h fs s" and "set (vs_uploads s) \<subseteq> set (vs_uploads s')"
    and "\<And>f. f \<in> set fs \<Longrightarrow> job_has_active_part (fn_job f) s' \<Longrightarrow> job_has_active_part (fn_job f) s"
    and "\<And>f n. f \<in> set fs \<Longrightarrow> video_of h' (fn_job f) n = video_of h (fn_job f) n"
  shows "finishers_ok h' fs s'"
  using assms unfolding finishers_ok_def assembled_def by (metis subsetD)

lemma inv_new_row:
  assumes "video_inv cid_of v" and "quiet (vr_store v) t" and "up_state row = METALBEAR_VIDEO_UPLOAD_CREATED"
    and "find_upload (up_job row) t = None" and "vs_uploads s' = vs_uploads t @ [row]"
    and "vs_active s' = vs_active t" and "content s' = content t"
  shows "video_inv cid_of (v\<lparr>vr_store := s'\<rparr>)"
proof -
  have inv: "rows_ok cid_of (vr_history v) t" "files_ok (vr_history v) t" "writers_ok (vr_writers v) t"
    "finishers_ok (vr_history v) (vr_finishers v) t"
    using inv_quiet [OF assms(1,2)] by (simp_all add: video_inv_def)
  have "rows_ok cid_of (vr_history v) s'"
    using inv(1) assms(3-5) by (auto simp: rows_ok_def find_upload_None)
  moreover have "finishers_ok (vr_history v) (vr_finishers v) s'"
    by (rule finishers_ok_frame [OF inv(4)]) (auto simp: assms(5,6) job_has_active_part_def)
  ultimately show ?thesis
    using inv(2,3) assms(6,7) by (simp add: video_inv_def files_ok_def writers_ok_def)
qed

lemma writer_temporary_other:
  "(wr_job w, wr_part w) \<noteq> (wr_job w', wr_part w') \<Longrightarrow> wr_job w = wr_job w' \<Longrightarrow> wr_temporary w \<noteq> wr_temporary w'"
  by (simp add: wr_temporary_def)

lemma inv_begin_part:
  assumes "video_inv cid_of v" and "metalbear_video_upload_part_begin io job part len (vr_store v) = ((result, w), s')"
  shows "video_inv cid_of (v\<lparr>vr_store := s', vr_writers := vr_writers v @ (case w of None \<Rightarrow> [] | Some w \<Rightarrow> [(w, Some '''')])\<rparr>)"
  using assms(2)
proof (cases rule: begin_effect)
  case refused
  then show ?thesis using inv_quiet [OF assms(1), of s'] by (simp add: video_inv_def)
next
  case (begun t w' r)
  have inv: "rows_ok cid_of (vr_history v) t" "files_ok (vr_history v) t" "writers_ok (vr_writers v) t"
    "finishers_ok (vr_history v) (vr_finishers v) t"
    using inv_quiet [OF assms(1) begun(2)] by (simp_all add: video_inv_def)
  have r: "r \<in> set (vs_uploads t)" "up_job r = job" using find_uploadD [OF begun(6)] by auto
  have others: "fn_job f \<noteq> job" if "f \<in> set (vr_finishers v)" for f
    using finishing_not_created [OF inv(1,4) that r(1) begun(7)] r(2) by simp
  have "rows_ok cid_of (vr_history v) s'" using inv(1) begun(10) by (simp add: rows_ok_def)
  moreover have "files_ok (vr_history v) s'"
    using inv(2) begun(11) by (auto simp: files_ok_def wr_temporary_def)
  moreover have "finishers_ok (vr_history v) (vr_finishers v) s'"
    using others by (intro finishers_ok_frame [OF inv(4)]) (auto simp: begun(9,10) job_has_active_part_def)
  moreover have "writers_ok (vr_writers v @ [(w', Some '''')]) s'"
  proof -
    have fresh: "writer_key p \<noteq> (job, part)" if "p \<in> set (vr_writers v)" for p
      using that begun(8) inv(3) by (auto simp: writers_ok_def)
    have same: "content s' (wr_job (fst p)) (wr_temporary (fst p)) = content t (wr_job (fst p)) (wr_temporary (fst p))"
      if "p \<in> set (vr_writers v)" for p
      using fresh [OF that] begun(3,4,11) writer_temporary_other [of "fst p" w'] by (auto simp: writer_key_def)
    have "distinct (map writer_key (vr_writers v @ [(w', Some '''')]))"
      using inv(3) fresh begun(3,4) unfolding writers_ok_def by (force simp: writer_key_def)
    moreover have "content s' (wr_job w') (wr_temporary w') = Some ''''" using begun(3,11) by simp
    moreover have "writer_key (w', Some '''') = (job, part)" using begun(3,4) by (simp add: writer_key_def)
    ultimately show ?thesis
      using inv(3) same unfolding writers_ok_def begun(9) by simp
  qed
  ultimately show ?thesis using begun(1) by (simp add: video_inv_def)
qed

lemma writers_ok_replace:
  assumes "writers_ok ws s" and "i < length ws" and "fst (ws ! i) = w" and "wr_job w' = wr_job w" and "wr_part w' = wr_part w"
    and "vs_active s' = vs_active s"
    and "\<And>p. p \<in> set ws \<Longrightarrow> writer_key p \<noteq> writer_key (ws ! i) \<Longrightarrow>
      content s' (wr_job (fst p)) (wr_temporary (fst p)) = content s (wr_job (fst p)) (wr_temporary (fst p))"
    and "\<And>sent c. x = Some sent \<Longrightarrow> wr_open w' \<Longrightarrow> content s' (wr_job w') (wr_temporary w') = Some c \<Longrightarrow> c = sent"
  shows "writers_ok (ws[i := (w', x)]) s'"
proof -
  have key: "writer_key (w', x) = writer_key (ws ! i)" using assms(3-5) by (simp add: writer_key_def)
  have keys: "map writer_key (ws[i := (w', x)]) = map writer_key ws"
    using assms(2) key by (simp add: map_update list_update_same_conv)
  have other: "writer_key (ws ! j) \<noteq> writer_key (ws ! i)" if "j < length ws" "j \<noteq> i" for j
    using that assms(1,2) by (auto simp: writers_ok_def distinct_conv_nth)
  have "writer_key p \<in> set (vs_active s') \<and>
      (\<forall>sent c. snd p = Some sent \<and> wr_open (fst p) \<and> content s' (wr_job (fst p)) (wr_temporary (fst p)) = Some c \<longrightarrow> c = sent)"
    if p: "p \<in> set (ws[i := (w', x)])" for p
  proof -
    obtain j where j: "j < length ws" "p = ws[i := (w', x)] ! j" using p by (auto simp: in_set_conv_nth)
    show ?thesis
    proof (cases "j = i")
      case True
      then have "p = (w', x)" using j assms(2) by simp
      moreover have "writer_key (ws ! i) \<in> set (vs_active s)" using assms(1,2) by (simp add: writers_ok_def)
      ultimately show ?thesis using assms(6,8) key by simp
    next
      case False
      then have "p = ws ! j" "p \<in> set ws" using j by simp_all
      moreover have "content s' (wr_job (fst p)) (wr_temporary (fst p)) = content s (wr_job (fst p)) (wr_temporary (fst p))"
        using assms(7) [of p] other [OF j(1) False] calculation by simp
      ultimately show ?thesis using assms(1,6) unfolding writers_ok_def by metis
    qed
  qed
  then show ?thesis using assms(1) keys by (simp add: writers_ok_def)
qed

lemma inv_write_part:
  assumes inv: "video_inv cid_of v" and i: "i < length (vr_writers v)" "vr_writers v ! i = (w, Some sent)"
    and w: "metalbear_video_upload_part_write ok partial w data (vr_store v) = (result, w', s')"
  shows "video_inv cid_of (v\<lparr>vr_store := s', vr_writers := (vr_writers v)[i :=
      (w', if result = METALBEAR_VIDEO_UPLOAD_OK then Some (sent @ data) else None)]\<rparr>)"
proof -
  note same = write_effect [OF w]
  have "(w, Some sent) \<in> set (vr_writers v)" using i by (metis nth_mem)
  then have held: "c = sent" if "wr_open w" "content (vr_store v) (wr_job w) (wr_temporary w) = Some c" for c
    using inv that unfolding video_inv_def writers_ok_def by force
  have temporary: "wr_temporary w' = wr_temporary w" using same by (simp add: wr_temporary_def)
  have "writers_ok ((vr_writers v)[i := (w', if result = METALBEAR_VIDEO_UPLOAD_OK then Some (sent @ data) else None)]) s'"
  proof (rule writers_ok_replace [where s = "vr_store v" and w = w])
    show "content s' (wr_job (fst p)) (wr_temporary (fst p)) = content (vr_store v) (wr_job (fst p)) (wr_temporary (fst p))"
      if "p \<in> set (vr_writers v)" "writer_key p \<noteq> writer_key (vr_writers v ! i)" for p
      using that(2) same i(2) writer_temporary_other [of "fst p" w] unfolding writer_key_def by force
    show "c = x" if "(if result = METALBEAR_VIDEO_UPLOAD_OK then Some (sent @ data) else None) = Some x" "wr_open w'"
      "content s' (wr_job w') (wr_temporary w') = Some c" for x c
    proof -
      note here = that
      have ok: "result = METALBEAR_VIDEO_UPLOAD_OK" "x = sent @ data" "wr_open w"
        using that(1,2) same by (simp_all split: if_splits)
      then obtain c' where "content (vr_store v) (wr_job w) (wr_temporary w) = Some c'" "c = c' @ data"
        using here(3) same temporary by (auto simp: map_option_case split: option.splits)
      then show ?thesis using ok held by simp
    qed
  qed (use inv i same in \<open>simp_all add: video_inv_def\<close>)
  moreover have "files_ok (vr_history v) s'"
    using inv same unfolding video_inv_def files_ok_def wr_temporary_def by (metis part_file.distinct(1))
  moreover have "rows_ok cid_of (vr_history v) s'" using inv same by (simp add: video_inv_def rows_ok_def)
  moreover have "finishers_ok (vr_history v) (vr_finishers v) s'"
    using inv same by (simp add: video_inv_def finishers_ok_def job_has_active_part_def)
  ultimately show ?thesis by (simp add: video_inv_def)
qed

lemma inv_finish_part:
  assumes inv: "video_inv cid_of v" and i: "i < length (vr_writers v)" "vr_writers v ! i = (w, Some sent)"
    and w: "metalbear_video_upload_part_finish io w (vr_store v) = (result, w', s')"
  shows "video_inv cid_of (v\<lparr>vr_store := s', vr_writers := (vr_writers v)[i := (w', None)],
      vr_history := (if result \<in> {METALBEAR_VIDEO_UPLOAD_OK, METALBEAR_VIDEO_UPLOAD_INTERNAL}
                     then [Placed (wr_job w) (wr_part w) sent] else []) @ vr_history v\<rparr>)"
  using w
proof (cases rule: finish_part_effect)
  case refused
  have "writers_ok ((vr_writers v)[i := (w', None)]) (vr_store v)"
    by (rule writers_ok_replace [where s = "vr_store v" and w = w]) (use inv i refused in \<open>simp_all add: video_inv_def\<close>)
  then show ?thesis using inv refused by (auto simp: video_inv_def)
next
  case (placed c r)
  let ?h = "Placed (wr_job w) (wr_part w) sent # vr_history v"
  have old: "rows_ok cid_of (vr_history v) (vr_store v)" "files_ok (vr_history v) (vr_store v)"
    "finishers_ok (vr_history v) (vr_finishers v) (vr_store v)" "writers_ok (vr_writers v) (vr_store v)"
    using inv by (simp_all add: video_inv_def)
  have "(w, Some sent) \<in> set (vr_writers v)" using i by (metis nth_mem)
  then have c: "c = sent" using old(4) placed(2,5) unfolding writers_ok_def by force
  have r: "r \<in> set (vs_uploads (vr_store v))" "up_job r = wr_job w" using find_uploadD [OF placed(6)] by auto
  have others: "fn_job f \<noteq> wr_job w" if "f \<in> set (vr_finishers v)" for f
    using finishing_not_created [OF old(1,3) that r(1) placed(7)] r(2) by simp
  have "rows_ok cid_of ?h s'"
    using old(1) made_later [of cid_of "vr_history v" _ "[Placed (wr_job w) (wr_part w) sent]"] placed(8) by (auto simp: rows_ok_def)
  moreover have "files_ok ?h s'"
    using old(2) placed(10) c by (auto simp: files_ok_def)
  moreover have "finishers_ok ?h (vr_finishers v) s'"
  proof (rule finishers_ok_frame [OF old(3)])
    show "video_of ?h (fn_job f) n = video_of (vr_history v) (fn_job f) n" if "f \<in> set (vr_finishers v)" for f n
      using others [OF that] by (metis video_of_other(1))
  qed (simp_all add: placed(8,9) job_has_active_part_def)
  moreover have "writers_ok ((vr_writers v)[i := (w', None)]) s'"
  proof (rule writers_ok_replace [where s = "vr_store v" and w = w])
    show "content s' (wr_job (fst p)) (wr_temporary (fst p)) = content (vr_store v) (wr_job (fst p)) (wr_temporary (fst p))"
      if "p \<in> set (vr_writers v)" "writer_key p \<noteq> writer_key (vr_writers v ! i)" for p
      using that(2) placed(10) i(2) writer_temporary_other [of "fst p" w]
      unfolding writer_key_def by (auto simp: wr_temporary_def)
  qed (use old(4) i placed(3,4,9) in simp_all)
  ultimately show ?thesis using placed(1) by (simp add: video_inv_def)
qed

lemma set_removed_at: "set (removed_at i xs) \<subseteq> set xs"
  by (auto simp: removed_at_def dest: in_set_takeD in_set_dropD)

lemma distinct_removed_at:
  assumes "distinct (map f xs)" and "i < length xs"
  shows "distinct (map f (removed_at i xs))" and "p \<in> set (removed_at i xs) \<Longrightarrow> f p \<noteq> f (xs ! i)"
proof -
  have xs: "xs = take i xs @ xs ! i # drop (Suc i) xs" using assms(2) by (rule id_take_nth_drop)
  have "distinct (map f (take i xs @ xs ! i # drop (Suc i) xs))" using assms(1) xs by simp
  then show "distinct (map f (removed_at i xs))" and "p \<in> set (removed_at i xs) \<Longrightarrow> f p \<noteq> f (xs ! i)"
    unfolding removed_at_def by (auto, (metis imageI)+)
qed

lemma inv_free_part:
  assumes inv: "video_inv cid_of v" and i: "i < length (vr_writers v)"
  shows "video_inv cid_of (v\<lparr>vr_store := metalbear_video_upload_part_free removed (fst (vr_writers v ! i)) (vr_store v),
      vr_writers := removed_at i (vr_writers v)\<rparr>)"
proof -
  let ?w = "fst (vr_writers v ! i)"
  let ?s = "metalbear_video_upload_part_free removed ?w (vr_store v)"
  note free = free_effect [of removed ?w "vr_store v"]
  have old: "rows_ok cid_of (vr_history v) (vr_store v)" "files_ok (vr_history v) (vr_store v)"
    "finishers_ok (vr_history v) (vr_finishers v) (vr_store v)" "writers_ok (vr_writers v) (vr_store v)"
    using inv by (simp_all add: video_inv_def)
  have "finishers_ok (vr_history v) (vr_finishers v) ?s"
    by (rule finishers_ok_frame [OF old(3)]) (auto simp: free(1,2) job_has_active_part_def list_ex_iff)
  moreover have "files_ok (vr_history v) ?s" using files_ok_fewer [OF old(2)] free(3) by blast
  moreover have "rows_ok cid_of (vr_history v) ?s" using old(1) free(1) by (simp add: rows_ok_def)
  moreover have "writers_ok (removed_at i (vr_writers v)) ?s"
  proof -
    have keys: "distinct (map writer_key (vr_writers v))" using old(4) by (simp add: writers_ok_def)
    have "writer_key p \<in> set (vs_active ?s)" if "p \<in> set (removed_at i (vr_writers v))" for p
    proof -
      have "writer_key p \<in> set (vs_active (vr_store v))"
        using that set_removed_at [of i "vr_writers v"] old(4) by (auto simp: writers_ok_def)
      moreover have "writer_key p \<noteq> (wr_job ?w, wr_part ?w)"
        using distinct_removed_at(2) [OF keys i that] by (simp add: writer_key_def)
      ultimately show ?thesis using free(2) by simp
    qed
    then show ?thesis
      using old(4) distinct_removed_at(1) [OF keys i] set_removed_at [of i "vr_writers v"] free(3)
      unfolding writers_ok_def by blast
  qed
  ultimately show ?thesis by (simp add: video_inv_def)
qed


lemma inv_accept_finish:
  assumes inv: "video_inv cid_of v" and begun: "finish_begin io detail_size job (vr_store v) = (Inr status, s')"
  shows "video_inv cid_of (v\<lparr>vr_store := s', vr_finishers := vr_finishers v @
      [\<lparr>fn_job = job, fn_status = status, fn_io = aio, fn_next = 1, fn_assembly = assemble_begin aio\<rparr>]\<rparr>)"
  using begun
proof (rule finish_begin_accepts)
  fix t r
  assume t: "quiet (vr_store v) t" and r: "find_upload job t = Some r" "up_state r = METALBEAR_VIDEO_UPLOAD_CREATED"
    and row: "finishing_row job status (r\<lparr>up_state := METALBEAR_VIDEO_UPLOAD_FINISHING\<rparr>)"
    and idle: "\<not> job_has_active_part job t" and same: "vs_active s' = vs_active t" "content s' = content t"
    and rows: "vs_uploads s' = map (\<lambda>r. if up_job r = job \<and> up_state r = METALBEAR_VIDEO_UPLOAD_CREATED
       then r\<lparr>up_state := METALBEAR_VIDEO_UPLOAD_FINISHING\<rparr> else r) (vs_uploads t)"
  have old: "rows_ok cid_of (vr_history v) t" "files_ok (vr_history v) t" "writers_ok (vr_writers v) t"
    "finishers_ok (vr_history v) (vr_finishers v) t"
    using inv_quiet [OF inv t] by (simp_all add: video_inv_def)
  let ?g = "\<lambda>r. if up_job r = job \<and> up_state r = METALBEAR_VIDEO_UPLOAD_CREATED
       then r\<lparr>up_state := METALBEAR_VIDEO_UPLOAD_FINISHING\<rparr> else r"
  let ?f = "\<lparr>fn_job = job, fn_status = status, fn_io = aio, fn_next = 1, fn_assembly = assemble_begin aio\<rparr>"
  have r_in: "r \<in> set (vs_uploads t)" "up_job r = job" using find_uploadD [OF r(1)] by auto
  have others: "fn_job f \<noteq> job" if "f \<in> set (vr_finishers v)" for f
    using finishing_not_created [OF old(1,4) that r_in(1) r(2)] r_in(2) by simp
  have jobs: "map up_job (vs_uploads s') = map up_job (vs_uploads t)" by (simp add: rows)
  have "made cid_of (vr_history v) x" if "x \<in> set (vs_uploads s')" "up_state x = METALBEAR_VIDEO_UPLOAD_COMPLETED" for x
    using that old(1) unfolding rows_ok_def by (auto simp: rows split: if_splits)
  then have "rows_ok cid_of (vr_history v) s'"
    using old(1) unfolding rows_ok_def jobs by blast
  moreover have "finishers_ok (vr_history v) (vr_finishers v @ [?f]) s'"
  proof -
    have "?g r = r\<lparr>up_state := METALBEAR_VIDEO_UPLOAD_FINISHING\<rparr>" using r(2) r_in(2) by simp
    moreover have "?g r \<in> set (vs_uploads s')" using r_in(1) unfolding rows set_map by (rule imageI)
    ultimately have new: "\<exists>r \<in> set (vs_uploads s'). finishing_row job status r" using row by (intro bexI [of _ "?g r"]) (simp only:)
    have kept: "x \<in> set (vs_uploads s')" if "x \<in> set (vs_uploads t)" "finishing_row j st x" for x j st
    proof -
      have "?g x = x" using that(2) by (simp add: finishing_row_def)
      moreover have "?g x \<in> set (vs_uploads s')" using that(1) unfolding rows set_map by (rule imageI)
      ultimately show ?thesis by (simp only:)
    qed
    have "assembled (vr_history v) ?f" by (simp add: assembled_def assemble_begin_def)
    moreover have "\<exists>r \<in> set (vs_uploads s'). finishing_row (fn_job f) (fn_status f) r" if "f \<in> set (vr_finishers v)" for f
      using old(4) that kept unfolding finishers_ok_def by blast
    ultimately show ?thesis
      using old(4) others new idle same(1) unfolding finishers_ok_def job_has_active_part_def by auto
  qed
  ultimately show ?thesis using old(2,3) same by (simp add: video_inv_def files_ok_def writers_ok_def)
qed

lemma inv_read_part:
  assumes inv: "video_inv cid_of v" and i: "i < length (vr_finishers v)" and f: "f = vr_finishers v ! i"
    and ok: "am_result (fn_assembly f) = METALBEAR_VIDEO_UPLOAD_OK" "fn_next f \<le> vt_part_count (fn_status f)"
  shows "video_inv cid_of (v\<lparr>vr_finishers := (vr_finishers v)[i := f\<lparr>fn_next := Suc (fn_next f),
      fn_assembly := assemble_part (fn_io f) (vt_size (fn_status f)) (fn_next f)
        (part_content (vr_store v) (fn_job f) (fn_next f)) (fn_assembly f)\<rparr>]\<rparr>)"
proof -
  let ?a = "assemble_part (fn_io f) (vt_size (fn_status f)) (fn_next f)
        (part_content (vr_store v) (fn_job f) (fn_next f)) (fn_assembly f)"
  let ?f = "f\<lparr>fn_next := Suc (fn_next f), fn_assembly := ?a\<rparr>"
  have old: "files_ok (vr_history v) (vr_store v)" "finishers_ok (vr_history v) (vr_finishers v) (vr_store v)"
    using inv by (simp_all add: video_inv_def)
  have f_in: "f \<in> set (vr_finishers v)" using i f by simp
  have was: "assembled (vr_history v) f" using old(2) f_in by (simp add: finishers_ok_def)
  have now: "assembled (vr_history v) ?f"
  proof (cases "am_result ?a = METALBEAR_VIDEO_UPLOAD_OK")
    case False
    then show ?thesis using was ok(2) by (simp add: assembled_def)
  next
    case True
    have header: "am_header (fn_assembly f) \<longrightarrow> is_mp4 (am_data (fn_assembly f))" using was ok(1) by (simp add: assembled_def)
    obtain input where input: "part_content (vr_store v) (fn_job f) (fn_next f) = Some input"
      "am_data ?a = am_data (fn_assembly f) @ input" "am_header ?a \<longrightarrow> is_mp4 (am_data (fn_assembly f) @ input)"
      using assemble_part_ok [OF True header] by blast
    have "placed (vr_history v) (fn_job f) (fn_next f) = Some input"
      using old(1) input(1) by (simp add: files_ok_def part_content_eq)
    moreover have "Suc (fn_next f - 1) = fn_next f" using was by (simp add: assembled_def)
    ultimately have "video_of (vr_history v) (fn_job f) (fn_next f) = Some (am_data ?a)"
      using video_of_Suc [of "vr_history v" "fn_job f" "fn_next f - 1" "am_data (fn_assembly f)" input] was ok(1) input(2)
      by (simp add: assembled_def)
    then show ?thesis using ok(2) input(2,3) by (simp add: assembled_def)
  qed
  have jobs: "map fn_job ((vr_finishers v)[i := ?f]) = map fn_job (vr_finishers v)"
    using i f by (simp add: map_update list_update_same_conv)
  have "finishers_ok (vr_history v) ((vr_finishers v)[i := ?f]) (vr_store v)"
  proof -
    have "x = ?f \<or> x \<in> set (vr_finishers v)" if "x \<in> set ((vr_finishers v)[i := ?f])" for x
      using that set_update_subset_insert [of "vr_finishers v" i ?f] by auto
    moreover have "(\<exists>r \<in> set (vs_uploads (vr_store v)). finishing_row (fn_job ?f) (fn_status ?f) r) \<and>
        \<not> job_has_active_part (fn_job ?f) (vr_store v)"
      using old(2) f_in by (simp add: finishers_ok_def)
    ultimately show ?thesis using old(2) now jobs unfolding finishers_ok_def by metis
  qed
  then show ?thesis using inv by (simp add: video_inv_def)
qed

lemma inv_end_finish:
  assumes inv: "video_inv cid_of v" and i: "i < length (vr_finishers v)" and f: "f = vr_finishers v ! i"
    and over: "am_result (fn_assembly f) \<noteq> METALBEAR_VIDEO_UPLOAD_OK \<or> fn_next f > vt_part_count (fn_status f)"
    and end_result: "assemble_end cid_of (fn_io f) (vt_size (fn_status f)) (fn_assembly f) = (result, cid)"
    and after: "result' = after_put put (fn_status f) (result, cid) (am_data (fn_assembly f))"
    and settle: "finish_end io (fn_job f) (fn_status f) result' cid (vr_store v) = (ans, s')"
  shows "video_inv cid_of (v\<lparr>vr_store := s', vr_finishers := removed_at i (vr_finishers v),
      vr_history := (if result' = METALBEAR_VIDEO_UPLOAD_OK
                     then [Stored (fn_job f) cid (vt_mime (fn_status f)) (am_data (fn_assembly f))] else []) @ vr_history v\<rparr>)"
  using settle
proof (rule finish_end_effect)
  fix g
  assume rows: "vs_uploads s' = map (\<lambda>r. if up_job r = fn_job f then g r else r) (vs_uploads (vr_store v))"
    and g: "\<And>r. settled_row result' cid (fn_status f) r (g r)" and active: "vs_active s' = vs_active (vr_store v)"
    and fewer: "\<And>j n c. content s' j n = Some c \<Longrightarrow> content (vr_store v) j n = Some c"
  let ?evs = "if result' = METALBEAR_VIDEO_UPLOAD_OK
     then [Stored (fn_job f) cid (vt_mime (fn_status f)) (am_data (fn_assembly f))] else []"
  have old: "rows_ok cid_of (vr_history v) (vr_store v)" "files_ok (vr_history v) (vr_store v)"
    "finishers_ok (vr_history v) (vr_finishers v) (vr_store v)" "writers_ok (vr_writers v) (vr_store v)"
    using inv by (simp_all add: video_inv_def)
  have f_in: "f \<in> set (vr_finishers v)" using i f by simp
  have was: "assembled (vr_history v) f" using old(3) f_in by (simp add: finishers_ok_def)
  obtain r0 where r0: "r0 \<in> set (vs_uploads (vr_store v))" "finishing_row (fn_job f) (fn_status f) r0"
    using old(3) f_in unfolding finishers_ok_def by blast
  have only: "r = r0" if "r \<in> set (vs_uploads (vr_store v))" "up_job r = fn_job f" for r
    using row_unique [of "vs_uploads (vr_store v)" r r0] old(1) that r0 by (simp add: rows_ok_def finishing_row_def)
  have same_job: "up_job (g r) = up_job r" for r using g [of r] by (auto simp: settled_row_def)
  have jobs: "map up_job (vs_uploads s') = map up_job (vs_uploads (vr_store v))" by (simp add: rows same_job)
  have made: "made cid_of (?evs @ vr_history v) (g r0)" if completed: "up_state (g r0) = METALBEAR_VIDEO_UPLOAD_COMPLETED"
  proof -
    obtain now where ok: "result' = METALBEAR_VIDEO_UPLOAD_OK"
      and r: "g r0 = r0\<lparr>up_state := METALBEAR_VIDEO_UPLOAD_COMPLETED,
        up_completed := Some (completed_job_id now cid (vt_size (fn_status f))), up_cid := Some cid, up_failure := None\<rparr>"
      using g [of r0] completed r0(2) by (auto simp: settled_row_def finishing_row_def)
    have "assemble_end cid_of (fn_io f) (vt_size (fn_status f)) (fn_assembly f) = (METALBEAR_VIDEO_UPLOAD_OK, cid)"
      using end_result after ok by (auto simp: after_put_def split: if_splits)
    from assemble_end_ok [OF this] have e: "length (am_data (fn_assembly f)) = vt_size (fn_status f)"
      "am_result (fn_assembly f) = METALBEAR_VIDEO_UPLOAD_OK" "am_header (fn_assembly f)"
      "cid_of (am_data (fn_assembly f)) = Some cid" by auto
    have "fn_next f - 1 = up_part_count r0"
      using was over e(2) r0(2) by (auto simp: assembled_def finishing_row_def)
    then have "video_of (vr_history v) (fn_job f) (up_part_count r0) = Some (am_data (fn_assembly f))"
      "is_mp4 (am_data (fn_assembly f))"
      using was e(2,3) by (auto simp: assembled_def)
    then show ?thesis
      using e r r0(2) ok unfolding made_def finishing_row_def
      by (intro exI [of _ "[]"] exI [of _ "vr_history v"] exI [of _ cid] exI [of _ "am_data (fn_assembly f)"] exI [of _ now]) simp
  qed
  have "made cid_of (?evs @ vr_history v) x" if here: "x \<in> set (vs_uploads s')" "up_state x = METALBEAR_VIDEO_UPLOAD_COMPLETED" for x
  proof -
    obtain r where r: "r \<in> set (vs_uploads (vr_store v))" "x = (if up_job r = fn_job f then g r else r)"
      using here(1) unfolding rows by auto
    show ?thesis
    proof (cases "up_job r = fn_job f")
      case True
      then show ?thesis using made here(2) r only by simp
    next
      case False
      then show ?thesis using old(1) r here(2) made_later [of cid_of "vr_history v" r ?evs] by (simp add: rows_ok_def)
    qed
  qed
  then have "rows_ok cid_of (?evs @ vr_history v) s'" using old(1) unfolding rows_ok_def jobs by blast
  moreover have "finishers_ok (?evs @ vr_history v) (removed_at i (vr_finishers v)) s'"
  proof -
    have keys: "distinct (map fn_job (vr_finishers v))" using old(3) by (simp add: finishers_ok_def)
    have video: "video_of (?evs @ vr_history v) job n = video_of (vr_history v) job n" for job n by simp
    have "(\<exists>r \<in> set (vs_uploads s'). finishing_row (fn_job x) (fn_status x) r) \<and>
        \<not> job_has_active_part (fn_job x) s' \<and> assembled (?evs @ vr_history v) x"
      if x: "x \<in> set (removed_at i (vr_finishers v))" for x
    proof -
      have x_in: "x \<in> set (vr_finishers v)" using x by (rule subsetD [OF set_removed_at])
      have other: "fn_job x \<noteq> fn_job f" using distinct_removed_at(2) [OF keys i x] f by simp
      obtain r where r: "r \<in> set (vs_uploads (vr_store v))" "finishing_row (fn_job x) (fn_status x) r"
        using old(3) x_in unfolding finishers_ok_def by blast
      have "(if up_job r = fn_job f then g r else r) = r" using r(2) other by (simp add: finishing_row_def)
      moreover have "(if up_job r = fn_job f then g r else r) \<in> set (vs_uploads s')"
        using r(1) unfolding rows set_map by (rule imageI)
      ultimately have "r \<in> set (vs_uploads s')" by (simp only:)
      moreover have "assembled (?evs @ vr_history v) x"
        using old(3) x_in unfolding finishers_ok_def assembled_def video by blast
      moreover have "\<not> job_has_active_part (fn_job x) s'"
        using old(3) x_in active unfolding finishers_ok_def job_has_active_part_def by simp
      ultimately show ?thesis using r(2) by blast
    qed
    then show ?thesis using distinct_removed_at(1) [OF keys i] unfolding finishers_ok_def by blast
  qed
  moreover have "files_ok (?evs @ vr_history v) s'"
    using old(2) fewer by (simp add: files_ok_def)
  moreover have "writers_ok (vr_writers v) s'" using writers_ok_fewer [OF old(4) active fewer] .
  ultimately show ?thesis by (simp add: video_inv_def)
qed

lemma inv_restart:
  assumes inv: "video_inv cid_of v"
    and opened: "metalbear_video_upload_store_open oio io \<lparr>vf_version = version, vf_store = Some (vr_store v)\<rparr> = (Inr s', f')"
  shows "video_inv cid_of \<lparr>vr_store = s', vr_writers = [], vr_finishers = [], vr_history = vr_history v\<rparr>"
proof -
  let ?t = "taken_back ((vr_store v)\<lparr>vs_active := []\<rparr>)"
  have jobs: "map up_job (vs_uploads ?t) = map up_job (vs_uploads (vr_store v))" by (simp add: taken_back_def)
  have "made cid_of (vr_history v) x" if "x \<in> set (vs_uploads ?t)" "up_state x = METALBEAR_VIDEO_UPLOAD_COMPLETED" for x
    using that inv by (auto simp: taken_back_def video_inv_def rows_ok_def in_state_def split: if_splits)
  then have "rows_ok cid_of (vr_history v) ?t" using inv unfolding video_inv_def rows_ok_def jobs by blast
  moreover have "files_ok (vr_history v) ?t"
    using inv by (simp add: taken_back_def video_inv_def files_ok_def)
  ultimately have "video_inv cid_of \<lparr>vr_store = ?t, vr_writers = [], vr_finishers = [], vr_history = vr_history v\<rparr>"
    by (simp add: video_inv_def writers_ok_def finishers_ok_def)
  from inv_quiet [OF this, of s'] restart_effect [OF opened] show ?thesis by simp
qed

lemma video_inv_step:
  assumes "video_inv cid_of v" and "video_step cid_of v v'"
  shows "video_inv cid_of v'"
  using assms(2,1)
proof (induction rule: video_step.induct)
  case (start_upload io size_bytes mime name v ans s')
  show ?case using start_effect [OF start_upload.hyps] inv_quiet [OF start_upload.prems] inv_new_row [OF start_upload.prems] by blast
next
  case (ask_status io job v ans s')
  then have "quiet (vr_store v) s'" using quiet_expire by (auto simp: metalbear_video_upload_get_status_def Let_def)
  then show ?case using inv_quiet [OF ask_status.prems] by blast
next
  case (ask_limits io v limits s')
  then have "quiet (vr_store v) s'" using quiet_expire by (auto simp: metalbear_video_upload_get_limits_def Let_def)
  then show ?case using inv_quiet [OF ask_limits.prems] by blast
next
  case (abort_upload io job v ans s')
  show ?case using inv_quiet [OF abort_upload.prems] quiet_abort [OF abort_upload.hyps] by blast
next
  case (refuse_finish io detail_size job v ans s')
  show ?case using inv_quiet [OF refuse_finish.prems] finish_begin_refuses [OF refuse_finish.hyps] by blast
qed (fact inv_begin_part inv_write_part inv_finish_part inv_free_part inv_accept_finish inv_read_part inv_end_finish inv_restart | blast intro: inv_begin_part inv_write_part inv_finish_part inv_free_part inv_accept_finish inv_read_part inv_end_finish inv_restart)+

interpretation video_runs: transition_system no_videos "video_step cid_of" "video_inv cid_of"
proof
  show "video_inv cid_of v" if "no_videos v" for v
    using that by (simp add: no_videos_def video_inv_def rows_ok_def files_ok_def writers_ok_def finishers_ok_def no_uploads_def content_def)
qed (rule video_inv_step)

text \<open>C29. The video of a completed upload is made of its parts. However requests, abortions, expiries, failures
  and restarts interleave, an upload that is completed names a block that was handed to the blob store:
  its bytes are those sent for the parts, one after the other in their order, each as it was last put in
  place, they are as many as were announced, they are an MP4, their CID is the one recorded, and the id
  of the completed job carries that CID and that size.\<close>

theorem video_is_its_parts:
  assumes "no_videos v0" and "(video_step cid_of)\<^sup>*\<^sup>* v0 v"
    and "r \<in> set (vs_uploads (vr_store v))" and "up_state r = METALBEAR_VIDEO_UPLOAD_COMPLETED"
  shows "\<exists>later earlier cid parts now.
    vr_history v = later @ Stored (up_job r) cid (snprintf_cut 256 (up_mime r)) (concat parts) # earlier \<and>
    length parts = up_part_count r \<and> (\<forall>k < up_part_count r. placed earlier (up_job r) (Suc k) = Some (parts ! k)) \<and>
    length (concat parts) = up_size r \<and> take 4 (drop 4 (concat parts)) = ''ftyp'' \<and>
    cid_of (concat parts) = Some cid \<and> up_cid r = Some cid \<and>
    up_completed r = Some (completed_job_id now cid (up_size r))"
proof -
  have "rows_ok cid_of (vr_history v) (vr_store v)"
    using video_runs.inv_reachable [OF assms(1,2)] by (simp add: video_inv_def)
  then have "made cid_of (vr_history v) r" using assms(3,4) by (simp add: rows_ok_def)
  then obtain later earlier cid data now where m:
      "vr_history v = later @ Stored (up_job r) cid (snprintf_cut 256 (up_mime r)) data # earlier"
      "video_of earlier (up_job r) (up_part_count r) = Some data" "length data = up_size r" "is_mp4 data"
      "cid_of data = Some cid" "up_cid r = Some cid" "up_completed r = Some (completed_job_id now cid (up_size r))"
    unfolding made_def by blast
  let ?parts = "map (\<lambda>k. the (placed earlier (up_job r) k)) [1..<Suc (up_part_count r)]"
  have parts: "data = concat ?parts"
      "list_all (\<lambda>k. placed earlier (up_job r) k \<noteq> None) [1..<Suc (up_part_count r)]"
    using m(2) by (simp_all add: video_of_def del: upt_Suc split: if_split_asm)
  have "placed earlier (up_job r) (Suc k) = Some (?parts ! k)" if "k < up_part_count r" for k
    using parts(2) that by (auto simp: list_all_length nth_append simp del: upt_Suc)
  then show ?thesis
    using m(1,3-7) parts(1) unfolding is_mp4_def
    by (intro exI [of _ later] exI [of _ earlier] exI [of _ cid] exI [of _ ?parts] exI [of _ now])
      (simp del: upt_Suc)
qed

section \<open>What becomes of an upload\<close>

definition terminal :: "metalbear_video_upload_state \<Rightarrow> bool" where
  "terminal state \<longleftrightarrow> state \<notin> {METALBEAR_VIDEO_UPLOAD_CREATED, METALBEAR_VIDEO_UPLOAD_FINISHING}"

text \<open>The later row of an upload: what was announced stays, and an upload that is over stays as it is.\<close>

definition continues :: "upload_row \<Rightarrow> upload_row \<Rightarrow> bool" where
  "continues r r' \<longleftrightarrow> up_job r' = up_job r \<and> up_size r' = up_size r \<and> up_mime r' = up_mime r \<and>
     up_part_size r' = up_part_size r \<and> up_part_count r' = up_part_count r \<and> up_expires_at r' = up_expires_at r \<and>
     (terminal (up_state r) \<longrightarrow> r' = r)"

definition rows_continue :: "video_store \<Rightarrow> video_store \<Rightarrow> bool" where
  "rows_continue s s' \<longleftrightarrow> (\<forall>r \<in> set (vs_uploads s). \<exists>r' \<in> set (vs_uploads s'). continues r r')"

lemma continues_trans: "continues r r' \<Longrightarrow> continues r' r'' \<Longrightarrow> continues r r''"
  by (auto simp: continues_def)

lemma rows_continue_trans: "rows_continue s t \<Longrightarrow> rows_continue t u \<Longrightarrow> rows_continue s u"
  unfolding rows_continue_def by (meson continues_trans)

lemma rows_continue_more: "set (vs_uploads s) \<subseteq> set (vs_uploads s') \<Longrightarrow> rows_continue s s'"
  unfolding rows_continue_def continues_def by blast

lemma rows_continue_map:
  assumes "vs_uploads s' = map f (vs_uploads s)" and "\<And>r. r \<in> set (vs_uploads s) \<Longrightarrow> continues r (f r)"
  shows "rows_continue s s'"
  using assms by (auto simp: rows_continue_def)

lemma rows_continue_quiet:
  assumes "quiet s s'"
  shows "rows_continue s s'"
proof -
  obtain f where f: "gives_up f" "vs_uploads s' = map f (vs_uploads s)" using assms by (auto simp: quiet_def)
  have "f r = r \<or> up_state r = METALBEAR_VIDEO_UPLOAD_CREATED \<and> (\<exists>state. f r = r\<lparr>up_state := state\<rparr>)" for r
    using f(1) unfolding gives_up_def by blast
  then have "continues r (f r)" for r
    unfolding continues_def terminal_def by (metis insertI1 upload_row.select_convs upload_row.surjective upload_row.update_convs(8))
  then show ?thesis using rows_continue_map [OF f(2)] by blast
qed

lemma rows_continue_step:
  assumes "video_inv cid_of v" and "video_step cid_of v v'"
  shows "rows_continue (vr_store v) (vr_store v')"
  using assms(2,1)
proof (induction rule: video_step.induct)
  case (start_upload io size_bytes mime name v ans s')
  from start_effect [OF start_upload.hyps] show ?case
  proof (elim disjE exE conjE)
    fix t row
    assume "quiet (vr_store v) t" and "vs_uploads s' = vs_uploads t @ [row]"
    then have "rows_continue (vr_store v) t" "rows_continue t s'"
      by (simp_all add: rows_continue_quiet rows_continue_more subset_insertI)
    then show ?thesis using rows_continue_trans by simp
  qed (simp add: rows_continue_quiet)
next
  case (ask_status io job v ans s')
  then have "quiet (vr_store v) s'" using quiet_expire by (auto simp: metalbear_video_upload_get_status_def Let_def)
  then show ?case by (simp add: rows_continue_quiet)
next
  case (ask_limits io v limits s')
  then have "quiet (vr_store v) s'" using quiet_expire by (auto simp: metalbear_video_upload_get_limits_def Let_def)
  then show ?case by (simp add: rows_continue_quiet)
next
  case (abort_upload io job v ans s')
  show ?case using quiet_abort [OF abort_upload.hyps] by (simp add: rows_continue_quiet)
next
  case (begin_part io job part len v result w s')
  from begin_part.hyps show ?case
    by (cases rule: begin_effect) (simp_all add: rows_continue_quiet, metis order_refl rows_continue_more rows_continue_quiet rows_continue_trans)
next
  case (write_part i v w sent ok partial data result w' s')
  show ?case using write_effect [OF write_part.hyps(3)] by (simp add: rows_continue_more)
next
  case (finish_part i v w sent io result w' s')
  from finish_part.hyps(3) show ?case by (cases rule: finish_part_effect) (simp_all add: rows_continue_more)
next
  case (free_part i v removed)
  show ?case by (simp add: rows_continue_more free_effect(1))
next
  case (refuse_finish io detail_size job v ans s')
  show ?case using finish_begin_refuses [OF refuse_finish.hyps] by (simp add: rows_continue_quiet)
next
  case (accept_finish io detail_size job v status s' aio)
  from accept_finish.hyps obtain t where t: "quiet (vr_store v) t"
    "vs_uploads s' = map (\<lambda>r. if up_job r = job \<and> up_state r = METALBEAR_VIDEO_UPLOAD_CREATED
       then r\<lparr>up_state := METALBEAR_VIDEO_UPLOAD_FINISHING\<rparr> else r) (vs_uploads t)"
    by (rule finish_begin_accepts) blast
  have "rows_continue t s'" by (rule rows_continue_map [OF t(2)]) (simp add: continues_def terminal_def)
  then show ?case using rows_continue_trans [OF rows_continue_quiet [OF t(1)]] by simp
next
  case (read_part i v f)
  show ?case by (simp add: rows_continue_more)
next
  case (end_finish i v f result cid result' put io ans s')
  from end_finish.hyps(6) obtain g where
    rows: "vs_uploads s' = map (\<lambda>r. if up_job r = fn_job f then g r else r) (vs_uploads (vr_store v))"
    and g: "\<And>r. settled_row result' cid (fn_status f) r (g r)"
    by (rule finish_end_effect) blast
  have old: "rows_ok cid_of (vr_history v) (vr_store v)" "finishers_ok (vr_history v) (vr_finishers v) (vr_store v)"
    using end_finish.prems by (simp_all add: video_inv_def)
  have "f \<in> set (vr_finishers v)" using end_finish.hyps(1,2) by simp
  then obtain r0 where r0: "r0 \<in> set (vs_uploads (vr_store v))" "finishing_row (fn_job f) (fn_status f) r0"
    using old(2) unfolding finishers_ok_def by blast
  have "up_state r = METALBEAR_VIDEO_UPLOAD_FINISHING" if "r \<in> set (vs_uploads (vr_store v))" "up_job r = fn_job f" for r
    using row_unique [of "vs_uploads (vr_store v)" r r0] old(1) that r0 by (simp add: rows_ok_def finishing_row_def)
  then have "continues r (if up_job r = fn_job f then g r else r)" if "r \<in> set (vs_uploads (vr_store v))" for r
    using that g [of r] by (auto simp: continues_def terminal_def settled_row_def)
  then have "rows_continue (vr_store v) s'" by (rule rows_continue_map [OF rows])
  then show ?case by simp
next
  case (restart oio io version v s' f')
  let ?t = "taken_back ((vr_store v)\<lparr>vs_active := []\<rparr>)"
  have "rows_continue (vr_store v) ?t"
    by (rule rows_continue_map [where f = "\<lambda>r. if in_state METALBEAR_VIDEO_UPLOAD_FINISHING r
       then r\<lparr>up_state := METALBEAR_VIDEO_UPLOAD_CREATED\<rparr> else r"])
      (simp_all add: taken_back_def continues_def terminal_def in_state_def)
  then show ?case
    using rows_continue_trans [OF _ rows_continue_quiet [OF restart_effect [OF restart.hyps]]] by simp
qed

interpretation video_rows: transition_system
  "\<lambda>w. w = v \<and> video_inv cid_of v" "video_step cid_of" "\<lambda>w. video_inv cid_of w \<and> rows_continue (vr_store v) (vr_store w)" for v
proof
  show "video_inv cid_of w \<and> rows_continue (vr_store v) (vr_store w)" if "w = v \<and> video_inv cid_of v" for w
    using that by (simp add: rows_continue_more)
next
  fix w w'
  assume "video_inv cid_of w \<and> rows_continue (vr_store v) (vr_store w)" and "video_step cid_of w w'"
  then show "video_inv cid_of w' \<and> rows_continue (vr_store v) (vr_store w')"
    using video_inv_step rows_continue_step rows_continue_trans by blast
qed

text \<open>C30. An upload is never forgotten and never changes what was announced: from any reachable state on,
  whatever requests and restarts follow, it keeps its size, type, parts and expiry, and once it is
  completed, failed, aborted or expired its row stays exactly as it is.\<close>

theorem upload_terminal_stays:
  assumes "no_videos v0" and "(video_step cid_of)\<^sup>*\<^sup>* v0 v" and "(video_step cid_of)\<^sup>*\<^sup>* v v'"
    and "r \<in> set (vs_uploads (vr_store v))"
  shows "\<exists>r' \<in> set (vs_uploads (vr_store v')). up_job r' = up_job r \<and> up_size r' = up_size r \<and> up_mime r' = up_mime r \<and>
    up_part_size r' = up_part_size r \<and> up_part_count r' = up_part_count r \<and> up_expires_at r' = up_expires_at r \<and>
    (up_state r \<in> {METALBEAR_VIDEO_UPLOAD_COMPLETED, METALBEAR_VIDEO_UPLOAD_FAILED, METALBEAR_VIDEO_UPLOAD_ABORTED,
       METALBEAR_VIDEO_UPLOAD_EXPIRED} \<longrightarrow> r' = r)"
proof -
  have "video_inv cid_of v" using video_runs.inv_reachable [OF assms(1,2)] .
  then have "rows_continue (vr_store v) (vr_store v')" using video_rows.inv_reachable [OF _ assms(3)] by blast
  then show ?thesis using assms(4) by (fastforce simp: rows_continue_def continues_def terminal_def)
qed

section \<open>Limits\<close>

lemma find_new: "find P xs = None \<Longrightarrow> P y \<Longrightarrow> find P (xs @ [y]) = Some y"
  by (induction xs) (auto split: if_splits)

lemma start_succeeds:
  assumes "metalbear_video_upload_start io size_bytes mime name s = ((METALBEAR_VIDEO_UPLOAD_OK, st), s')"
    and "vi_sql io 2 = SQL_RUNS"
  obtains t row status where "t = expire_sessions_locked io s" "vs_uploads s' = vs_uploads t @ [row]"
    "up_size row = size_bytes" "size_bytes \<noteq> 0" "size_bytes \<le> METALBEAR_VIDEO_MAX_BYTES" "mime = ''video/mp4''"
    "open_videos (vi_now io 2) t < METALBEAR_VIDEO_MAX_OPEN_UPLOADS" "used_videos (vi_now io 2) t < METALBEAR_VIDEO_DAILY_COUNT"
    "size_bytes \<le> METALBEAR_VIDEO_DAILY_BYTES - used_bytes (vi_now io 2) t"
    "st = Some status" "vt_size status = size_bytes" "vt_part_size status = METALBEAR_VIDEO_PART_BYTES"
    "vt_part_count status = (size_bytes + METALBEAR_VIDEO_PART_BYTES - 1) div METALBEAR_VIDEO_PART_BYTES"
    "vt_state status = METALBEAR_VIDEO_UPLOAD_CREATED"
proof -
  define t where "t = expire_sessions_locked io s"
  have sizes: "size_bytes \<noteq> 0" "size_bytes \<le> METALBEAR_VIDEO_MAX_BYTES" "mime = ''video/mp4''"
    using assms(1) by (auto simp: metalbear_video_upload_start_def split: if_split_asm)
  have day: "open_videos (vi_now io 2) t < METALBEAR_VIDEO_MAX_OPEN_UPLOADS"
      "METALBEAR_VIDEO_DAILY_COUNT - used_videos (vi_now io 2) t \<noteq> 0"
      "size_bytes \<le> METALBEAR_VIDEO_DAILY_BYTES - used_bytes (vi_now io 2) t"
    using assms unfolding metalbear_video_upload_start_def t_def [symmetric] Let_def limits_locked_def
    by (simp_all split: if_split_asm)
  let ?row = "\<lambda>job. \<lparr>up_job = job, up_size = size_bytes, up_mime = mime, up_name = name,
      up_part_size = METALBEAR_VIDEO_PART_BYTES,
      up_part_count = (size_bytes + METALBEAR_VIDEO_PART_BYTES - 1) div METALBEAR_VIDEO_PART_BYTES,
      up_expires_at = vi_now io 3 + kUploadLifetimeSeconds,
      up_state = METALBEAR_VIDEO_UPLOAD_CREATED, up_completed = None, up_cid = None,
      up_failure = None, up_created_at = vi_now io 3\<rparr>"
  note start = assms(1) [unfolded metalbear_video_upload_start_def t_def [symmetric] Let_def limits_locked_def]
  obtain job where job: "random_job_id io = Some job"
    using start sizes day assms(2) by (cases "random_job_id io") (auto split: if_split_asm)
  have created: "vi_sql io 3 = SQL_RUNS" "find_upload job t = None" "vi_file io 0"
    using start sizes day assms(2) job by (auto split: if_split_asm)
  have rows: "vs_uploads s' = vs_uploads t @ [?row job]"
    and loaded: "load_status_locked io 5 job s' = st"
    using start sizes day assms(2) job created by (auto split: if_split_asm option.split_asm)
  have "st \<noteq> None"
    using start sizes day assms(2) job created by (cases st) (auto split: if_split_asm option.split_asm)
  then obtain status where status: "st = Some status" "load_status_locked io 5 job s' = Some status" using loaded by auto
  note st = status and none = created(2)
  have "find_upload job s' = Some (?row job)"
    using none unfolding find_upload_def rows by (rule find_new) simp
  then have "vt_size status = size_bytes" "vt_part_size status = METALBEAR_VIDEO_PART_BYTES"
    "vt_part_count status = (size_bytes + METALBEAR_VIDEO_PART_BYTES - 1) div METALBEAR_VIDEO_PART_BYTES"
    "vt_state status = METALBEAR_VIDEO_UPLOAD_CREATED"
    using st(2) by (auto simp: load_status_locked_def split: if_split_asm)
  then show thesis using that [OF t_def rows] sizes day st(1) by simp
qed

lemma counted_later: "counted now r \<Longrightarrow> earlier \<le> now \<Longrightarrow> counted earlier r"
  by (auto simp: counted_def)

lemma filter_length_mono: "(\<And>x. P x \<Longrightarrow> Q x) \<Longrightarrow> length (filter P xs) \<le> length (filter Q xs)"
  by (induction xs) (auto intro: le_SucI)

lemma filter_sum_mono: "(\<And>x. P x \<Longrightarrow> Q x) \<Longrightarrow> sum_list (map g (filter P xs)) \<le> sum_list (map g (filter Q xs))" for g :: "'a \<Rightarrow> nat"
  by (induction xs) (auto intro: trans_le_add2)

lemma parts_add_up:
  assumes "0 < n" and "(n - 1) * part_size \<le> whole"
  shows "sum_list (map (\<lambda>k. if k = n then whole - (k - 1) * part_size else part_size) [1..<Suc n]) = (whole :: nat)"
proof -
  have "[1..<Suc n] = [1..<n] @ [n]" using assms(1) by simp
  moreover have "map (\<lambda>k. if k = n then whole - (k - 1) * part_size else part_size) [1..<n] = replicate (n - 1) part_size"
    by (auto simp: list_eq_iff_nth_eq)
  ultimately show ?thesis using assms(2) by (simp add: sum_list_replicate)
qed

lemma ceiling_division:
  fixes s q :: nat
  assumes "0 < s" and "0 < q"
  shows "1 \<le> (s + q - 1) div q" and "((s + q - 1) div q - 1) * q < s" and "s \<le> (s + q - 1) div q * q"
proof -
  let ?n = "(s + q - 1) div q"
  have low: "?n * q \<le> s + q - 1" by (rule div_times_less_eq_dividend)
  have high: "s + q - 1 < q + ?n * q" using dividend_less_div_times [OF assms(2), of "s + q - 1"] by simp
  then show "s \<le> ?n * q" by linarith
  show "1 \<le> ?n" using assms by (simp add: Suc_le_eq div_greater_zero_iff)
  then have "(?n - 1) * q + q = ?n * q" by (simp add: diff_mult_distrib)
  then show "(?n - 1) * q < s" using low assms by linarith
qed

text \<open>C31. An upload that is accepted keeps the account within its limits, from the moment its limits were
  read on: at most four uploads open, a hundred videos and a gibibyte in a day, at most 300 million bytes
  in one. It comes in at most sixty parts, none empty and none larger than five million bytes, which add
  up to the size announced.\<close>

theorem start_within_limits:
  assumes "metalbear_video_upload_start io size_bytes mime name s = ((METALBEAR_VIDEO_UPLOAD_OK, st), s')"
    and "vi_sql io 2 = SQL_RUNS" and "vi_now io 2 \<le> now"
  shows "open_videos now s' \<le> METALBEAR_VIDEO_MAX_OPEN_UPLOADS \<and> used_videos now s' \<le> METALBEAR_VIDEO_DAILY_COUNT \<and>
    used_bytes now s' \<le> METALBEAR_VIDEO_DAILY_BYTES \<and> size_bytes \<le> METALBEAR_VIDEO_MAX_BYTES \<and>
    (\<exists>status. st = Some status \<and> vt_size status = size_bytes \<and>
       1 \<le> vt_part_count status \<and> vt_part_count status \<le> METALBEAR_VIDEO_MAX_PARTS \<and>
       (\<forall>k. 1 \<le> k \<and> k \<le> vt_part_count status \<longrightarrow>
          0 < expected_part status k \<and> expected_part status k \<le> METALBEAR_VIDEO_PART_BYTES) \<and>
       sum_list (map (expected_part status) [1..<Suc (vt_part_count status)]) = size_bytes)"
proof -
  obtain t row status where t: "vs_uploads s' = vs_uploads t @ [row]" "up_size row = size_bytes"
    and sizes: "size_bytes \<noteq> 0" "size_bytes \<le> METALBEAR_VIDEO_MAX_BYTES"
    and day: "open_videos (vi_now io 2) t < METALBEAR_VIDEO_MAX_OPEN_UPLOADS"
      "used_videos (vi_now io 2) t < METALBEAR_VIDEO_DAILY_COUNT"
      "size_bytes \<le> METALBEAR_VIDEO_DAILY_BYTES - used_bytes (vi_now io 2) t"
    and st: "st = Some status" "vt_size status = size_bytes" "vt_part_size status = METALBEAR_VIDEO_PART_BYTES"
      "vt_part_count status = (size_bytes + METALBEAR_VIDEO_PART_BYTES - 1) div METALBEAR_VIDEO_PART_BYTES"
    using start_succeeds [OF assms(1,2)] by metis
  have less: "open_videos now t \<le> open_videos (vi_now io 2) t" "used_videos now t \<le> used_videos (vi_now io 2) t"
    "used_bytes now t \<le> used_bytes (vi_now io 2) t"
    using counted_later [OF _ assms(3)]
    unfolding open_videos_def used_videos_def used_bytes_def
    by (auto intro!: filter_length_mono filter_sum_mono)
  have "open_videos now s' \<le> Suc (open_videos now t)" "used_videos now s' \<le> Suc (used_videos now t)"
    "used_bytes now s' \<le> used_bytes now t + size_bytes"
    by (simp_all add: open_videos_def used_videos_def used_bytes_def t)
  then have limits: "open_videos now s' \<le> METALBEAR_VIDEO_MAX_OPEN_UPLOADS"
      "used_videos now s' \<le> METALBEAR_VIDEO_DAILY_COUNT" "used_bytes now s' \<le> METALBEAR_VIDEO_DAILY_BYTES"
    using less day sizes(1) by linarith+
  let ?n = "vt_part_count status"
  have n: "1 \<le> ?n" "?n \<le> METALBEAR_VIDEO_MAX_PARTS" "(?n - 1) * METALBEAR_VIDEO_PART_BYTES < size_bytes"
    "size_bytes \<le> ?n * METALBEAR_VIDEO_PART_BYTES"
    using ceiling_division [of size_bytes METALBEAR_VIDEO_PART_BYTES] sizes
    unfolding st(4) METALBEAR_VIDEO_MAX_PARTS_def METALBEAR_VIDEO_MAX_BYTES_def METALBEAR_VIDEO_PART_BYTES_def
    by linarith+
  have expected: "expected_part status = (\<lambda>k. if k = ?n then size_bytes - (k - 1) * METALBEAR_VIDEO_PART_BYTES
      else METALBEAR_VIDEO_PART_BYTES)"
    by (simp add: fun_eq_iff expected_part_def st(2,3))
  have "0 < expected_part status k \<and> expected_part status k \<le> METALBEAR_VIDEO_PART_BYTES" for k
  proof (cases "k = ?n")
    case True
    have "size_bytes \<le> (?n - 1) * METALBEAR_VIDEO_PART_BYTES + METALBEAR_VIDEO_PART_BYTES"
      using n(1,4) by (metis add.commute le_add_diff_inverse mult.commute mult_Suc_right plus_1_eq_Suc)
    then show ?thesis using True n(3) unfolding expected by simp
  next
    case False
    then show ?thesis unfolding expected by (simp add: METALBEAR_VIDEO_PART_BYTES_def)
  qed
  moreover have "sum_list (map (expected_part status) [1..<Suc ?n]) = size_bytes"
    unfolding expected using n(1,3) by (intro parts_add_up) simp_all
  ultimately show ?thesis using limits sizes(2) st(1,2) n(1,2) by blast
qed

section \<open>The id of a completed job\<close>

text \<open>
  \<open>video_parse_job_id\<close> of \<open>src/video/video_routes.c\<close>, which reads the CID and the size back from the id a
  finished upload is answered with.
\<close>

definition video_parse_job_id :: "string \<Rightarrow> (string \<times> int) option" where
  "video_parse_job_id job =
     (if \<not> strncmp_eq job ''vid-'' 4 then None
      else (case strtoll10 (drop 4 job) of (_, rest, _) \<Rightarrow>
        if rest = '''' \<or> hd rest \<noteq> CHR ''-'' then None
        else (case strchr_cut CHR ''-'' (tl rest) of
                (cid, None) \<Rightarrow> None
              | (cid, Some digits) \<Rightarrow>
                  if cid = '''' then None
                  else (case strtoll10 digits of (size_bytes, end_text, _) \<Rightarrow>
                    if end_text \<noteq> '''' \<or> size_bytes < 0 then None else Some (cid, size_bytes)))))"

lemma strchr_cut_first: "c \<notin> set xs \<Longrightarrow> strchr_cut c (xs @ c # ys) = (xs, Some ys)"
  by (induction xs) auto

lemma strtoll10_minus:
  assumes "rest = [] \<or> \<not> c_isdigit (hd rest)"
  shows "fst (snd (strtoll10 (CHR ''-'' # decimal_digits n @ rest))) = rest"
proof -
  have "takeWhile c_isdigit (decimal_digits n @ rest) = decimal_digits n"
    "dropWhile c_isdigit (decimal_digits n @ rest) = rest"
    using decimal_digits_are_digits [of n] assms
    by (auto simp: list_all_iff takeWhile_append2 dropWhile_append2 takeWhile_eq_Nil_iff dropWhile_eq_self_iff)
  moreover have "\<not> c_isspace CHR ''-''" by (simp add: c_isspace_def)
  ultimately show ?thesis by (simp add: strtoll10_def Let_def)
qed

text \<open>The id a finished upload is answered with carries its video: whatever the clock says, parsing it
  gives back the CID and the size, for every CID without a dash and every size of a signed 64-bit
  integer.\<close>

theorem video_job_id_roundtrip:
  assumes "cid \<noteq> ''''" and "CHR ''-'' \<notin> set cid" and "int size_bytes < 2 ^ 63"
  shows "video_parse_job_id (completed_job_id now cid size_bytes) = Some (cid, int size_bytes)"
proof -
  let ?tail = "''-'' @ cid @ ''-'' @ decimal_digits size_bytes"
  let ?stamp = "(if now < 0 then ''-'' else '''') @ decimal_digits (nat \<bar>now\<bar>) @ ?tail"
  have dash: "\<not> c_isdigit CHR ''-''" by (simp add: c_isdigit_def)
  have "fst (snd (strtoll10 ((if now < 0 then ''-'' else '''') @ decimal_digits n @ ?tail))) = ?tail" for n
    using strtoll10_minus [of ?tail n] strtoll10_decimal [of ?tail n] dash by (cases "now < 0") simp_all
  then have stamp: "fst (snd (strtoll10 ?stamp)) = ?tail" .
  have digits: "strtoll10 (decimal_digits size_bytes) = (int size_bytes, '''', False)"
    using strtoll10_decimal [of "''''" size_bytes] assms(3) by simp
  have "strchr_cut CHR ''-'' (cid @ ''-'' @ decimal_digits size_bytes) = (cid, Some (decimal_digits size_bytes))"
    using strchr_cut_first [OF assms(2), of "decimal_digits size_bytes"] by simp
  moreover obtain v b where "strtoll10 (drop 4 (completed_job_id now cid size_bytes)) = (v, ?tail, b)"
    using stamp by (cases "strtoll10 ?stamp") (simp add: completed_job_id_def)
  moreover have "strncmp_eq (completed_job_id now cid size_bytes) ''vid-'' 4"
    by (simp add: completed_job_id_def strncmp_eq_def)
  ultimately show ?thesis
    using digits assms(1) unfolding video_parse_job_id_def by simp
qed

theorem video_job_id_roundtrip_witness:
  "video_parse_job_id (completed_job_id 1700000000 ''bafkrei'' 300000000) = Some (''bafkrei'', 300000000)"
  using video_job_id_roundtrip [of "''bafkrei''" 300000000 1700000000] by simp

section \<open>Concrete inputs\<close>

text \<open>A video of twelve bytes, uploaded in one part and finished.\<close>

definition sample_video_io :: video_io where
  "sample_video_io =
     \<lparr>vi_sql = (\<lambda>_. SQL_RUNS), vi_reads = (\<lambda>_. 10), vi_now = (\<lambda>_. 0), vi_file = (\<lambda>_. True),
      vi_random = Some (replicate 16 0), vi_survives = (\<lambda>_. False)\<rparr>"

definition sample_assembly_io :: assembly_io where
  "sample_assembly_io =
     \<lparr>ai_output = True, ai_open = (\<lambda>_. True), ai_read = (\<lambda>_. True), ai_write = (\<lambda>_. True),
      ai_close = (\<lambda>_. True), ai_finish = True\<rparr>"

definition sample_job :: string where
  "sample_job = ''up-00000000000000000000000000000000''"

definition sample_data :: string where
  "sample_data = ''0000ftyp0000''"

definition sample_row :: "metalbear_video_upload_state \<Rightarrow> upload_row" where
  "sample_row state =
     \<lparr>up_job = sample_job, up_size = 12, up_mime = ''video/mp4'', up_name = None, up_part_size = 5000000,
      up_part_count = 1, up_expires_at = 86400, up_state = state, up_completed = None, up_cid = None,
      up_failure = None, up_created_at = 0\<rparr>"

definition sample_store ::
  "metalbear_video_upload_state \<Rightarrow> (string \<times> nat \<times> nat) list \<Rightarrow> part_directory \<Rightarrow> (string \<times> nat) list \<Rightarrow> video_store" where
  "sample_store state parts d active =
     \<lparr>vs_uploads = [sample_row state], vs_parts = parts, vs_dirs = (\<lambda>_. None)(sample_job := Some d), vs_active = active\<rparr>"

definition sample_writer :: "nat \<Rightarrow> bool \<Rightarrow> part_writer" where
  "sample_writer written active =
     \<lparr>wr_job = sample_job, wr_part = 1, wr_expected = 12, wr_written = written, wr_nonce = sample_job, wr_open = active,
      wr_committed = \<not> active\<rparr>"

definition sample_status :: "nat list \<Rightarrow> video_status" where
  "sample_status received =
     \<lparr>vt_job = sample_job, vt_size = 12, vt_part_size = 5000000, vt_part_count = 1, vt_received = received,
      vt_expires_at = 86400, vt_state = METALBEAR_VIDEO_UPLOAD_CREATED, vt_completed = '''', vt_cid = '''',
      vt_mime = ''video/mp4'', vt_failure = ''''\<rparr>"

definition sample_cid :: "string \<Rightarrow> string option" where
  "sample_cid data = Some (''b'' @ data)"

lemma sample_random: "random_job_id sample_video_io = Some sample_job"
  by (simp add: random_job_id_def sample_video_io_def hex_of_def lower_hex_def sample_job_def numeral_eq_Suc)

lemma sample_cut: "snprintf_cut 257 sample_job = sample_job" "snprintf_cut 256 ''video/mp4'' = ''video/mp4''"
  by (simp_all add: snprintf_cut_def sample_job_def)

lemma sample_expire: "expire_sessions_locked sample_video_io (sample_store state parts d active) = sample_store state parts d active"
  "expire_sessions_locked sample_video_io no_uploads = no_uploads"
  by (simp_all add: expire_sessions_locked_def sample_store_def sample_video_io_def sample_row_def overdue_def no_uploads_def)

lemma sample_load: "load_status_locked sample_video_io n sample_job (sample_store METALBEAR_VIDEO_UPLOAD_CREATED parts d active) =
    Some (sample_status (take 60 (take 10 (sort (map (\<lambda>(_, k, _). k) (filter (\<lambda>(j, _, _). j = sample_job) parts))))))"
  by (simp add: load_status_locked_def sample_video_io_def sample_store_def find_upload_def sample_row_def sample_status_def
      sample_cut copy_text_def METALBEAR_VIDEO_MAX_PARTS_def)

lemma sample_start:
  "metalbear_video_upload_start sample_video_io 12 ''video/mp4'' None no_uploads =
     ((METALBEAR_VIDEO_UPLOAD_OK, Some (sample_status [])), sample_store METALBEAR_VIDEO_UPLOAD_CREATED [] [] [])"
proof -
  have store: "no_uploads\<lparr>vs_uploads := [sample_row METALBEAR_VIDEO_UPLOAD_CREATED], vs_dirs := (\<lambda>_. None)(sample_job := Some [])\<rparr> =
      sample_store METALBEAR_VIDEO_UPLOAD_CREATED [] [] []"
    by (simp add: no_uploads_def sample_store_def)
  have none: "find_upload sample_job no_uploads = None" "vs_uploads no_uploads = []" "vs_dirs no_uploads = (\<lambda>_. None)"
    by (simp_all add: find_upload_def no_uploads_def)
  have row: "\<lparr>up_job = sample_job, up_size = 12, up_mime = ''video/mp4'', up_name = None, up_part_size = METALBEAR_VIDEO_PART_BYTES,
      up_part_count = (11 + METALBEAR_VIDEO_PART_BYTES) div METALBEAR_VIDEO_PART_BYTES,
      up_expires_at = vi_now sample_video_io 3 + kUploadLifetimeSeconds, up_state = METALBEAR_VIDEO_UPLOAD_CREATED,
      up_completed = None, up_cid = None, up_failure = None, up_created_at = vi_now sample_video_io 3\<rparr> =
      sample_row METALBEAR_VIDEO_UPLOAD_CREATED"
    by (simp add: sample_row_def METALBEAR_VIDEO_PART_BYTES_def kUploadLifetimeSeconds_def sample_video_io_def)
  have io: "vi_sql sample_video_io n = SQL_RUNS" "vi_file sample_video_io n" for n by (simp_all add: sample_video_io_def)
  have limits: "limits_locked sample_video_io 2 (vi_now sample_video_io 2) no_uploads = (1073741824, 100, 0)"
    by (simp add: limits_locked_def io used_bytes_def used_videos_def open_videos_def no_uploads_def
        METALBEAR_VIDEO_DAILY_BYTES_def METALBEAR_VIDEO_DAILY_COUNT_def)
  show ?thesis
    unfolding metalbear_video_upload_start_def Let_def sample_expire sample_random
    by (simp add: METALBEAR_VIDEO_MAX_BYTES_def limits METALBEAR_VIDEO_MAX_OPEN_UPLOADS_def io none sample_random row store sample_load
        del: One_nat_def)
qed
lemma sample_in_directory: "in_directory sample_job f (sample_store state parts d active) = sample_store state parts (f d) active"
  by (simp add: in_directory_def sample_store_def)

lemma sample_begin:
  "metalbear_video_upload_part_begin sample_video_io sample_job 1 12 (sample_store METALBEAR_VIDEO_UPLOAD_CREATED [] [] []) =
     ((METALBEAR_VIDEO_UPLOAD_OK, Some (sample_writer 0 True)),
      sample_store METALBEAR_VIDEO_UPLOAD_CREATED [] [(Temporary 1 sample_job, '''')] [(sample_job, 1)])"
proof -
  have store: "sample_store METALBEAR_VIDEO_UPLOAD_CREATED [] [] []\<lparr>vs_active := [(sample_job, 1)]\<rparr> =
      sample_store METALBEAR_VIDEO_UPLOAD_CREATED [] [] [(sample_job, 1)]"
    "vs_active (sample_store METALBEAR_VIDEO_UPLOAD_CREATED [] [] []) = []"
    "vs_dirs (sample_store METALBEAR_VIDEO_UPLOAD_CREATED [] [] []) sample_job = Some []" by (simp_all add: sample_store_def)
  have status: "vt_state (sample_status []) = METALBEAR_VIDEO_UPLOAD_CREATED" "vt_part_count (sample_status []) = 1"
    "expected_part (sample_status []) 1 = 12" by (simp_all add: sample_status_def expected_part_def)
  have writer: "\<lparr>wr_job = sample_job, wr_part = 1, wr_expected = 12, wr_written = 0, wr_nonce = sample_job, wr_open = True,
      wr_committed = False\<rparr> = sample_writer 0 True" by (simp add: sample_writer_def)
  have made: "vi_file sample_video_io 0" by (simp add: sample_video_io_def)
  show ?thesis
    unfolding metalbear_video_upload_part_begin_def Let_def sample_expire sample_load
    by (simp add: status store writer made sample_random sample_in_directory state_result_def put_file_def del: One_nat_def)
qed

lemma sample_write:
  "metalbear_video_upload_part_write True 0 (sample_writer 0 True) sample_data
     (sample_store METALBEAR_VIDEO_UPLOAD_CREATED [] [(Temporary 1 sample_job, '''')] [(sample_job, 1)]) =
     (METALBEAR_VIDEO_UPLOAD_OK, sample_writer 12 True,
      sample_store METALBEAR_VIDEO_UPLOAD_CREATED [] [(Temporary 1 sample_job, sample_data)] [(sample_job, 1)])"
proof -
  have w: "wr_open (sample_writer 0 True)" "wr_expected (sample_writer 0 True) = 12" "wr_written (sample_writer 0 True) = 0"
    "wr_job (sample_writer 0 True) = sample_job" "wr_temporary (sample_writer 0 True) = Temporary 1 sample_job"
    "(sample_writer 0 True)\<lparr>wr_written := 12\<rparr> = sample_writer 12 True"
    by (simp_all add: sample_writer_def wr_temporary_def)
  have "length sample_data = 12" by (simp add: sample_data_def)
  then show ?thesis
    by (simp add: metalbear_video_upload_part_write_def append_file_def w sample_in_directory file_of_def put_file_def)
qed

lemma sample_finish_part:
  "metalbear_video_upload_part_finish sample_video_io (sample_writer 12 True)
     (sample_store METALBEAR_VIDEO_UPLOAD_CREATED [] [(Temporary 1 sample_job, sample_data)] [(sample_job, 1)]) =
     (METALBEAR_VIDEO_UPLOAD_OK, sample_writer 12 False,
      sample_store METALBEAR_VIDEO_UPLOAD_CREATED [(sample_job, 1, 12)] [(Part 1, sample_data)] [(sample_job, 1)])"
proof -
  let ?s = "sample_store METALBEAR_VIDEO_UPLOAD_CREATED [] [(Temporary 1 sample_job, sample_data)] [(sample_job, 1)]"
  have w: "wr_open (sample_writer 12 True)" "wr_expected (sample_writer 12 True) = 12" "wr_written (sample_writer 12 True) = 12"
    "wr_job (sample_writer 12 True) = sample_job" "wr_temporary (sample_writer 12 True) = Temporary 1 sample_job"
    "wr_part (sample_writer 12 True) = 1"
    "(sample_writer 12 True)\<lparr>wr_open := False, wr_committed := True\<rparr> = sample_writer 12 False"
    "(sample_writer 12 True)\<lparr>wr_committed := True, wr_open := False\<rparr> = sample_writer 12 False"
    by (simp_all add: sample_writer_def wr_temporary_def)
  have io: "vi_sql sample_video_io n = SQL_RUNS" "vi_file sample_video_io n" for n by (simp_all add: sample_video_io_def)
  have s: "vs_dirs ?s sample_job = Some [(Temporary 1 sample_job, sample_data)]"
    "vs_parts (sample_store state parts d active) = parts"
    "(sample_store state parts d active)\<lparr>vs_parts := p\<rparr> = sample_store state p d active" for state parts d active p
    by (simp_all add: sample_store_def)
  show ?thesis
    by (simp add: metalbear_video_upload_part_finish_def w io sample_load state_result_def sample_status_def s file_of_def
        sample_in_directory put_file_def delete_file_def replace_part_def del: One_nat_def)
qed

lemma sample_free:
  "metalbear_video_upload_part_free True (sample_writer 12 False)
     (sample_store METALBEAR_VIDEO_UPLOAD_CREATED [(sample_job, 1, 12)] [(Part 1, sample_data)] [(sample_job, 1)]) =
     sample_store METALBEAR_VIDEO_UPLOAD_CREATED [(sample_job, 1, 12)] [(Part 1, sample_data)] []"
  by (simp add: metalbear_video_upload_part_free_def sample_writer_def sample_store_def)

lemma sample_finish_begin:
  "finish_begin sample_video_io 256 sample_job
     (sample_store METALBEAR_VIDEO_UPLOAD_CREATED [(sample_job, 1, 12)] [(Part 1, sample_data)] []) =
     (Inr (sample_status [1]),
      sample_store METALBEAR_VIDEO_UPLOAD_FINISHING [(sample_job, 1, 12)] [(Part 1, sample_data)] [])"
proof -
  let ?s = "sample_store METALBEAR_VIDEO_UPLOAD_CREATED [(sample_job, 1, 12)] [(Part 1, sample_data)] []"
  have status: "vt_state (sample_status [1]) = METALBEAR_VIDEO_UPLOAD_CREATED" "vt_part_count (sample_status [1]) = 1"
    "vt_received (sample_status [1]) = [1]" by (simp_all add: sample_status_def)
  have s: "\<not> job_has_active_part sample_job ?s"
    "filter (\<lambda>r. up_job r = sample_job \<and> in_state METALBEAR_VIDEO_UPLOAD_CREATED r) (vs_uploads ?s) =
       [sample_row METALBEAR_VIDEO_UPLOAD_CREATED]"
    "set_upload_state sample_job (in_state METALBEAR_VIDEO_UPLOAD_CREATED)
       (\<lambda>r. r\<lparr>up_state := METALBEAR_VIDEO_UPLOAD_FINISHING\<rparr>) ?s =
     sample_store METALBEAR_VIDEO_UPLOAD_FINISHING [(sample_job, 1, 12)] [(Part 1, sample_data)] []"
    by (simp_all add: job_has_active_part_def sample_store_def in_state_def sample_row_def set_upload_state_def)
  have io: "vi_sql sample_video_io n = SQL_RUNS" for n by (simp add: sample_video_io_def)
  show ?thesis
    unfolding finish_begin_def Let_def sample_expire sample_load
    by (simp add: status s io state_result_def del: One_nat_def)
qed

lemma sample_part:
  "assemble_part sample_assembly_io 12 1 (Some sample_data) (assemble_begin sample_assembly_io) =
     \<lparr>am_result = METALBEAR_VIDEO_UPLOAD_OK, am_data = sample_data, am_header = True\<rparr>"
proof -
  have "take BUFFER sample_data = sample_data" "length sample_data < BUFFER" by (simp_all add: BUFFER_def sample_data_def)
  then have "copy_part sample_assembly_io 12 True sample_data (assemble_begin sample_assembly_io) =
      \<lparr>am_result = METALBEAR_VIDEO_UPLOAD_OK, am_data = sample_data, am_header = True\<rparr>"
    by (subst copy_part.simps) (simp add: take_block_def assemble_begin_def sample_assembly_io_def sample_data_def)
  then show ?thesis by (simp add: assemble_part_def sample_assembly_io_def)
qed

lemma sample_end: "assemble_end sample_cid sample_assembly_io 12
    \<lparr>am_result = METALBEAR_VIDEO_UPLOAD_OK, am_data = sample_data, am_header = True\<rparr> =
    (METALBEAR_VIDEO_UPLOAD_OK, CHR ''b'' # sample_data)"
  by (simp add: assemble_end_def sample_assembly_io_def sample_data_def sample_cid_def)
definition sample_done :: upload_row where
  "sample_done = (sample_row METALBEAR_VIDEO_UPLOAD_COMPLETED)
     \<lparr>up_completed := Some ''vid-0-b0000ftyp0000-12'', up_cid := Some (CHR ''b'' # sample_data)\<rparr>"

lemma sample_digits: "char_of (48::nat) = CHR ''0''" "char_of (49::nat) = CHR ''1''" "char_of (50::nat) = CHR ''2''"
  by code_simp+

lemma sample_finish_end:
  "snd (finish_end sample_video_io sample_job (sample_status [1]) METALBEAR_VIDEO_UPLOAD_OK (CHR ''b'' # sample_data)
     (sample_store METALBEAR_VIDEO_UPLOAD_FINISHING [(sample_job, 1, 12)] [(Part 1, sample_data)] [])) =
   \<lparr>vs_uploads = [sample_done], vs_parts = [(sample_job, 1, 12)], vs_dirs = (\<lambda>_. None), vs_active = []\<rparr>"
proof -
  let ?f = "\<lambda>r. r\<lparr>up_state := METALBEAR_VIDEO_UPLOAD_COMPLETED,
      up_completed := Some (completed_job_id (vi_now sample_video_io 0) (CHR ''b'' # sample_data) (vt_size (sample_status [1]))),
      up_cid := Some (CHR ''b'' # sample_data), up_failure := None\<rparr>"
  have "completed_job_id 0 (CHR ''b'' # sample_data) 12 = ''vid-0-b0000ftyp0000-12''"
    by (simp add: completed_job_id_def sample_data_def decimal_digits.simps sample_digits)
  then have row: "?f (sample_row METALBEAR_VIDEO_UPLOAD_FINISHING) = sample_done"
    by (simp add: sample_row_def sample_done_def sample_video_io_def sample_status_def)
  have io: "vi_sql sample_video_io n = SQL_RUNS" for n by (simp add: sample_video_io_def)
  have job: "up_job (sample_row state) = sample_job" for state by (simp add: sample_row_def)
  let ?s = "sample_store METALBEAR_VIDEO_UPLOAD_FINISHING [(sample_job, 1, 12)] [(Part 1, sample_data)] []"
  have "set_upload_state sample_job (\<lambda>r. True) ?f ?s =
     \<lparr>vs_uploads = [sample_done], vs_parts = [(sample_job, 1, 12)],
      vs_dirs = (\<lambda>_. None)(sample_job := Some [(Part 1, sample_data)]), vs_active = []\<rparr>"
    by (simp add: set_upload_state_def sample_store_def job row del: One_nat_def)
  then have "remove_all sample_video_io sample_job (set_upload_state sample_job (\<lambda>r. True) ?f ?s) =
      \<lparr>vs_uploads = [sample_done], vs_parts = [(sample_job, 1, 12)], vs_dirs = (\<lambda>_. None), vs_active = []\<rparr>"
    by (simp add: remove_all_def sample_video_io_def)
  then show ?thesis by (simp add: finish_end_def io Let_def)
qed

text \<open>The run, with its histories: the video is assembled from the one part.\<close>

definition sample_run :: "video_store \<Rightarrow> (part_writer \<times> string option) list \<Rightarrow> finisher list \<Rightarrow> video_event list \<Rightarrow> video_run" where
  "sample_run s ws fs h = \<lparr>vr_store = s, vr_writers = ws, vr_finishers = fs, vr_history = h\<rparr>"

definition sample_finisher :: "nat \<Rightarrow> assembly \<Rightarrow> finisher" where
  "sample_finisher n a = \<lparr>fn_job = sample_job, fn_status = sample_status [1], fn_io = sample_assembly_io, fn_next = n, fn_assembly = a\<rparr>"

definition sample_history :: "video_event list" where
  "sample_history = [Stored sample_job (CHR ''b'' # sample_data) ''video/mp4'' sample_data, Placed sample_job 1 sample_data]"


lemma sample_before:
  assumes "s0 = sample_store METALBEAR_VIDEO_UPLOAD_CREATED [] [] []"
    and "s1 = sample_store METALBEAR_VIDEO_UPLOAD_CREATED [] [(Temporary 1 sample_job, [])] [(sample_job, 1)]"
    and "s2 = sample_store METALBEAR_VIDEO_UPLOAD_CREATED [] [(Temporary 1 sample_job, sample_data)] [(sample_job, 1)]"
    and "s3 = sample_store METALBEAR_VIDEO_UPLOAD_CREATED [(sample_job, 1, 12)] [(Part 1, sample_data)] [(sample_job, 1)]"
    and "s4 = sample_store METALBEAR_VIDEO_UPLOAD_CREATED [(sample_job, 1, 12)] [(Part 1, sample_data)] []"
  shows "video_step sample_cid (sample_run no_uploads [] [] []) (sample_run s0 [] [] [])"
    "video_step sample_cid (sample_run s0 [] [] []) (sample_run s1 [(sample_writer 0 True, Some [])] [] [])"
    "video_step sample_cid (sample_run s1 [(sample_writer 0 True, Some [])] [] [])
       (sample_run s2 [(sample_writer 12 True, Some sample_data)] [] [])"
    "video_step sample_cid (sample_run s2 [(sample_writer 12 True, Some sample_data)] [] [])
       (sample_run s3 [(sample_writer 12 False, None)] [] [Placed sample_job 1 sample_data])"
    "video_step sample_cid (sample_run s3 [(sample_writer 12 False, None)] [] [Placed sample_job 1 sample_data])
       (sample_run s4 [] [] [Placed sample_job 1 sample_data])"
proof -
  have w: "wr_job (sample_writer 12 True) = sample_job" "wr_part (sample_writer 12 True) = 1"
    by (simp_all add: sample_writer_def)
  show "video_step sample_cid (sample_run no_uploads [] [] []) (sample_run s0 [] [] [])"
    using start_upload [of sample_video_io 12 "''video/mp4''" None "sample_run no_uploads [] [] []", where cid_of = sample_cid]
    by (simp add: sample_run_def sample_start assms(1))
  show "video_step sample_cid (sample_run s0 [] [] []) (sample_run s1 [(sample_writer 0 True, Some [])] [] [])"
    using begin_part [of sample_video_io sample_job 1 12 "sample_run s0 [] [] []", where cid_of = sample_cid]
    by (simp add: sample_run_def sample_begin assms(1,2) del: One_nat_def)
  show "video_step sample_cid (sample_run s1 [(sample_writer 0 True, Some [])] [] [])
      (sample_run s2 [(sample_writer 12 True, Some sample_data)] [] [])"
    using write_part [of 0 "sample_run s1 [(sample_writer 0 True, Some [])] [] []" "sample_writer 0 True" "[]" True 0 sample_data
      METALBEAR_VIDEO_UPLOAD_OK "sample_writer 12 True" s2 sample_cid]
    by (simp add: sample_run_def sample_write assms(2,3) del: One_nat_def)
  show "video_step sample_cid (sample_run s2 [(sample_writer 12 True, Some sample_data)] [] [])
      (sample_run s3 [(sample_writer 12 False, None)] [] [Placed sample_job 1 sample_data])"
    using finish_part [of 0 "sample_run s2 [(sample_writer 12 True, Some sample_data)] [] []" "sample_writer 12 True" sample_data
      sample_video_io METALBEAR_VIDEO_UPLOAD_OK "sample_writer 12 False" s3 sample_cid]
    by (simp add: sample_run_def sample_finish_part assms(3,4) w del: One_nat_def)
  show "video_step sample_cid (sample_run s3 [(sample_writer 12 False, None)] [] [Placed sample_job 1 sample_data])
      (sample_run s4 [] [] [Placed sample_job 1 sample_data])"
    using free_part [of 0 "sample_run s3 [(sample_writer 12 False, None)] [] [Placed sample_job 1 sample_data]" sample_cid True]
    by (simp add: sample_run_def sample_free assms(4,5) removed_at_def del: One_nat_def)
qed

lemma sample_after:
  assumes "s4 = sample_store METALBEAR_VIDEO_UPLOAD_CREATED [(sample_job, 1, 12)] [(Part 1, sample_data)] []"
    and "s5 = sample_store METALBEAR_VIDEO_UPLOAD_FINISHING [(sample_job, 1, 12)] [(Part 1, sample_data)] []"
    and "s6 = \<lparr>vs_uploads = [sample_done], vs_parts = [(sample_job, 1, 12)], vs_dirs = (\<lambda>_. None), vs_active = []\<rparr>"
    and "a = \<lparr>am_result = METALBEAR_VIDEO_UPLOAD_OK, am_data = sample_data, am_header = True\<rparr>"
  shows "video_step sample_cid (sample_run s4 [] [] h) (sample_run s5 [] [sample_finisher 1 (assemble_begin sample_assembly_io)] h)"
    "video_step sample_cid (sample_run s5 [] [sample_finisher 1 (assemble_begin sample_assembly_io)] h)
       (sample_run s5 [] [sample_finisher 2 a] h)"
    "video_step sample_cid (sample_run s5 [] [sample_finisher 2 a] h)
       (sample_run s6 [] [] (Stored sample_job (CHR ''b'' # sample_data) ''video/mp4'' sample_data # h))"
proof -
  have status: "vt_part_count (sample_status [1]) = 1" "vt_size (sample_status [1]) = 12" "vt_mime (sample_status [1]) = ''video/mp4''"
    by (simp_all add: sample_status_def)
  have begun: "am_result (assemble_begin sample_assembly_io) = METALBEAR_VIDEO_UPLOAD_OK"
    by (simp add: assemble_begin_def sample_assembly_io_def)
  have part: "part_content s5 sample_job 1 = Some sample_data"
    by (simp add: part_content_def assms(2) sample_store_def file_of_def)
  show "video_step sample_cid (sample_run s4 [] [] h) (sample_run s5 [] [sample_finisher 1 (assemble_begin sample_assembly_io)] h)"
    using accept_finish [of sample_video_io 256 sample_job "sample_run s4 [] [] h" "sample_status [1]" s5 sample_cid sample_assembly_io]
    by (simp add: sample_run_def sample_finish_begin sample_finisher_def assms(1,2) del: One_nat_def)
  show "video_step sample_cid (sample_run s5 [] [sample_finisher 1 (assemble_begin sample_assembly_io)] h)
      (sample_run s5 [] [sample_finisher 2 a] h)"
    using read_part [of 0 "sample_run s5 [] [sample_finisher 1 (assemble_begin sample_assembly_io)] h"
      "sample_finisher 1 (assemble_begin sample_assembly_io)" sample_cid]
    by (simp add: sample_run_def sample_finisher_def begun status part sample_part assms(4) Suc_1 del: One_nat_def)
  show "video_step sample_cid (sample_run s5 [] [sample_finisher 2 a] h)
      (sample_run s6 [] [] (Stored sample_job (CHR ''b'' # sample_data) ''video/mp4'' sample_data # h))"
    using end_finish [of 0 "sample_run s5 [] [sample_finisher 2 a] h" "sample_finisher 2 a" sample_cid METALBEAR_VIDEO_UPLOAD_OK
      "CHR ''b'' # sample_data" METALBEAR_VIDEO_UPLOAD_OK "\<lambda>_ _ _. WF_OK" sample_video_io
      "fst (finish_end sample_video_io sample_job (sample_status [1]) METALBEAR_VIDEO_UPLOAD_OK (CHR ''b'' # sample_data) s5)" s6]
      sample_finish_end
    by (simp add: sample_run_def sample_finisher_def status sample_end assms(2-4) after_put_def removed_at_def prod_eq_iff
        del: One_nat_def)
qed

lemma sample_reaches:
  "(video_step sample_cid)\<^sup>*\<^sup>* (sample_run no_uploads [] [] [])
     (sample_run \<lparr>vs_uploads = [sample_done], vs_parts = [(sample_job, 1, 12)], vs_dirs = (\<lambda>_. None), vs_active = []\<rparr> [] []
        sample_history)"
  unfolding sample_history_def
  by (rule rtranclp.rtrancl_into_rtrancl [where r = "video_step sample_cid", OF _ sample_after(3) [OF refl refl refl refl]]
      rtranclp.rtrancl_into_rtrancl [where r = "video_step sample_cid", OF _ sample_after(2) [OF refl refl refl refl]]
      rtranclp.rtrancl_into_rtrancl [where r = "video_step sample_cid", OF _ sample_after(1) [OF refl refl refl refl]]
      rtranclp.rtrancl_into_rtrancl [where r = "video_step sample_cid", OF _ sample_before(5) [OF refl refl refl refl refl]]
      rtranclp.rtrancl_into_rtrancl [where r = "video_step sample_cid", OF _ sample_before(4) [OF refl refl refl refl refl]]
      rtranclp.rtrancl_into_rtrancl [where r = "video_step sample_cid", OF _ sample_before(3) [OF refl refl refl refl refl]]
      rtranclp.rtrancl_into_rtrancl [where r = "video_step sample_cid", OF _ sample_before(2) [OF refl refl refl refl refl]]
      rtranclp.rtrancl_into_rtrancl [where r = "video_step sample_cid", OF _ sample_before(1) [OF refl refl refl refl refl]]
      rtranclp.rtrancl_refl)+
text \<open>Aborting the finished upload leaves it as it is.\<close>

definition sample_finished :: video_store where
  "sample_finished = \<lparr>vs_uploads = [sample_done], vs_parts = [(sample_job, 1, 12)], vs_dirs = (\<lambda>_. None), vs_active = []\<rparr>"

lemma sample_abort: "snd (metalbear_video_upload_abort sample_video_io sample_job sample_finished) = sample_finished"
proof -
  have row: "up_state sample_done = METALBEAR_VIDEO_UPLOAD_COMPLETED" "up_job sample_done = sample_job"
    by (simp_all add: sample_done_def sample_row_def)
  have io: "vi_sql sample_video_io n = SQL_RUNS" for n by (simp add: sample_video_io_def)
  have "expire_sessions_locked sample_video_io sample_finished = sample_finished"
    by (simp add: expire_sessions_locked_def sample_finished_def io overdue_def row)
  moreover have "\<not> job_has_active_part sample_job sample_finished" by (simp add: job_has_active_part_def sample_finished_def)
  moreover have "find_upload sample_job sample_finished = Some sample_done" by (simp add: find_upload_def sample_finished_def row)
  ultimately show ?thesis
    by (simp add: metalbear_video_upload_abort_def load_status_locked_def io row)
qed

lemma sample_aborts: "(video_step sample_cid)\<^sup>*\<^sup>* (sample_run sample_finished [] [] sample_history) (sample_run sample_finished [] [] sample_history)"
  using abort_upload [of sample_video_io sample_job "sample_run sample_finished [] [] sample_history"
      "fst (metalbear_video_upload_abort sample_video_io sample_job sample_finished)" sample_finished sample_cid] sample_abort
  by (simp add: sample_run_def prod_eq_iff)

lemma sample_done_row: "up_job sample_done = sample_job" "up_mime sample_done = ''video/mp4''" "up_part_count sample_done = 1"
  "up_size sample_done = 12" "up_state sample_done = METALBEAR_VIDEO_UPLOAD_COMPLETED"
  by (simp_all add: sample_done_def sample_row_def)

theorem video_is_its_parts_witness:
  "(video_step sample_cid)\<^sup>*\<^sup>* (sample_run no_uploads [] [] []) (sample_run sample_finished [] [] sample_history) \<and>
   (\<exists>later earlier cid parts. sample_history = later @ Stored sample_job cid ''video/mp4'' (concat parts) # earlier \<and>
      length parts = 1 \<and> placed earlier sample_job 1 = Some (parts ! 0) \<and> length (concat parts) = 12 \<and>
      sample_cid (concat parts) = Some cid)"
proof -
  have "no_videos (sample_run no_uploads [] [] [])" by (simp add: no_videos_def sample_run_def)
  from video_is_its_parts [OF this sample_reaches, of sample_done] show ?thesis
    using sample_reaches by (fastforce simp: sample_run_def sample_done_row sample_cut sample_finished_def)
qed

theorem upload_terminal_stays_witness:
  "(video_step sample_cid)\<^sup>*\<^sup>* (sample_run no_uploads [] [] []) (sample_run sample_finished [] [] sample_history) \<and>
   sample_done \<in> set (vs_uploads sample_finished) \<and> up_state sample_done = METALBEAR_VIDEO_UPLOAD_COMPLETED"
proof -
  have "no_videos (sample_run no_uploads [] [] [])" by (simp add: no_videos_def sample_run_def)
  from upload_terminal_stays [OF this sample_reaches sample_aborts [unfolded sample_finished_def], of sample_done] show ?thesis
    using sample_reaches by (auto simp: sample_run_def sample_done_row sample_finished_def)
qed

theorem start_within_limits_witness:
  "open_videos 0 (sample_store METALBEAR_VIDEO_UPLOAD_CREATED [] [] []) \<le> METALBEAR_VIDEO_MAX_OPEN_UPLOADS \<and>
   vt_part_count (sample_status []) \<le> METALBEAR_VIDEO_MAX_PARTS \<and>
   sum_list (map (expected_part (sample_status [])) [1..<Suc (vt_part_count (sample_status []))]) = 12"
  using start_within_limits [OF sample_start, of 0] by (simp add: sample_video_io_def del: upt_Suc)

end
