(* ===== verification/Server_Auth.thy ===== *)
theory Server_Auth
  imports Oauth_Scope Oauth_Store Auth_Store Account_Registry Server_Guards Ops_Metrics Account_Cache
begin

text \<open>
  \<open>src/server_auth.c\<close>, the authentication callback every request passes and the rules that decide who
  may call what, with the verifier of a moderator's token of \<open>src/account/preferences_routes.c\<close>. A request
  is what the guards read of it with the headers the callback reads. The server holds the registry, what
  the cache answers for an account, and the OAuth store. Arguments of the world are Wolfram's base64url
  and NSID and DID syntax, its OAuth and service token verification, the resolution of a signing key,
  OpenSSL's base64, the clock and the outcome of the registry's reads. Memory does not run out, but for
  the parsing of a scope: the copies \<open>authenticate_oauth\<close> makes of the subject and the scope are taken
  to succeed (in the source a scope whose copy fails is a missing one, which is not looked at).
\<close>

section \<open>Requests and the server\<close>

datatype wf_xrpc_principal = WF_XRPC_PRINCIPAL_USER | WF_XRPC_PRINCIPAL_SERVICE

record auth_request = xrpc_request +
  ar_method :: "string option"
  ar_auth :: "string option"
  ar_dpop :: "string option"
  ar_content_type :: "string option"
  ar_proxy :: "string option"
  ar_principal :: wf_xrpc_principal

text \<open>\<open>sv_accounts\<close> gives the session store of the account the cache answers a DID with.\<close>

record auth_server =
  sv_admin_password :: "string option"
  sv_service_did :: "string option"
  sv_mod_service_did :: "string option"
  sv_public_url :: "string option"
  sv_appview_did :: "string option"
  sv_oauth :: "oauth_store option"
  sv_registry :: account_registry
  sv_guards :: guard_registry
  sv_accounts :: "string \<Rightarrow> auth_store option"

record 'c auth_world =
  wd_lib :: jwt_lib
  wd_now :: int
  wd_b64 :: "string \<Rightarrow> byte list option"
  wd_oauth :: "string option \<Rightarrow> string option \<Rightarrow> string \<Rightarrow> string \<Rightarrow> string list \<Rightarrow> 'c \<Rightarrow>
    (wf_status + verified_token) \<times> 'c"
  wd_nsid_ok :: "string \<Rightarrow> bool"
  wd_did_ok :: "string \<Rightarrow> bool"
  wd_scope_alloc :: bool
  wd_service_key :: "string \<Rightarrow> string \<Rightarrow> string option"
  wd_service_claims :: "string \<Rightarrow> string \<Rightarrow> (string option \<times> string option) option"
  wd_encode :: "string \<Rightarrow> string"
  wd_registry :: "nat \<Rightarrow> registry_io"

definition nsid_of :: "auth_request \<Rightarrow> string" where
  "nsid_of req = (case rq_nsid req of Some n \<Rightarrow> n | None \<Rightarrow> '''')"

definition text_or :: "string \<Rightarrow> string option \<Rightarrow> string" where
  "text_or d t = (case t of Some s \<Rightarrow> s | None \<Rightarrow> d)"

definition param_string :: "auth_request \<Rightarrow> string \<Rightarrow> string option" where
  "param_string req name = Option.bind (rq_params req) (\<lambda>p. cj_string p name)"

section \<open>Routes\<close>

definition is_public_route :: "string \<Rightarrow> bool" where
  "is_public_route nsid = (nsid \<in> set
     [''com.atproto.server.describeServer'', ''_health'', ''com.atproto.server.createSession'',
      ''com.atproto.server.createAccount'', ''com.atproto.server.requestPasswordReset'',
      ''com.atproto.server.resetPassword'', ''com.atproto.server.reserveSigningKey'',
      ''com.atproto.identity.resolveHandle'', ''com.atproto.identity.resolveDid'',
      ''com.atproto.identity.resolveIdentity'', ''com.atproto.identity.refreshIdentity'',
      ''com.atproto.repo.getRecord'', ''com.atproto.repo.describeRepo'', ''com.atproto.repo.listRecords'',
      ''com.atproto.label.queryLabels'', ''com.atproto.sync.getLatestCommit'', ''com.atproto.sync.getBlob'',
      ''com.atproto.sync.getRepo'', ''com.atproto.sync.getBlocks'', ''com.atproto.sync.getRepoStatus'',
      ''com.atproto.sync.listRepos'', ''com.atproto.sync.listReposByCollection'', ''com.atproto.sync.listBlobs'',
      ''com.atproto.sync.getRecord'', ''com.atproto.sync.subscribeRepos'', ''com.atproto.sync.requestCrawl''])"

definition is_admin_route :: "string \<Rightarrow> bool" where
  "is_admin_route nsid = (nsid \<in> set
     [''com.atproto.server.createInviteCode'', ''com.atproto.server.createInviteCodes'',
      ''com.atproto.admin.getAccountInfo'', ''com.atproto.admin.getAccountInfos'',
      ''com.atproto.admin.getSubjectStatus'', ''com.atproto.admin.updateSubjectStatus'',
      ''com.atproto.admin.sendEmail'', ''com.atproto.admin.updateAccountHandle'',
      ''com.atproto.admin.updateAccountEmail'', ''com.atproto.admin.updateAccountPassword'',
      ''com.atproto.admin.enableAccountInvites'', ''com.atproto.admin.disableAccountInvites'',
      ''com.atproto.admin.getInviteCodes'', ''com.atproto.admin.disableInviteCodes'',
      ''com.atproto.admin.deleteAccount''])"

definition inactive_route_allowed :: "string \<Rightarrow> bool" where
  "inactive_route_allowed nsid = (nsid \<in> set
     [''com.atproto.server.getSession'', ''com.atproto.server.checkAccountStatus'',
      ''com.atproto.server.activateAccount'', ''com.atproto.server.deactivateAccount'',
      ''com.atproto.server.refreshSession'', ''com.atproto.server.deleteSession''])"

definition oauth_forbidden_route :: "string \<Rightarrow> bool" where
  "oauth_forbidden_route nsid = (nsid \<in> set
     [''com.atproto.server.createAppPassword'', ''com.atproto.server.activateAccount'',
      ''com.atproto.server.deactivateAccount'', ''com.atproto.server.requestAccountDelete'',
      ''com.atproto.server.requestEmailUpdate'', ''com.atproto.server.getAccountInviteCodes''])"

definition full_access_route :: "string \<Rightarrow> bool" where
  "full_access_route nsid = (nsid \<in> set
     [''com.atproto.server.createAppPassword'', ''com.atproto.server.activateAccount'',
      ''com.atproto.server.deactivateAccount'', ''com.atproto.repo.importRepo'',
      ''com.atproto.identity.requestPlcOperationSignature'', ''com.atproto.identity.signPlcOperation'',
      ''com.atproto.server.requestAccountDelete'', ''com.atproto.server.requestEmailUpdate'',
      ''com.atproto.server.getAccountInviteCodes''])"

definition takendown_route_allowed :: "string \<Rightarrow> bool" where
  "takendown_route_allowed nsid = (nsid \<in> set
     [''com.atproto.server.deactivateAccount'', ''com.atproto.sync.getRepo'', ''com.atproto.sync.getBlob'',
      ''com.atproto.sync.listBlobs'', ''com.atproto.moderation.createReport'',
      ''com.atproto.server.getServiceAuth'', ''com.atproto.identity.requestPlcOperationSignature'',
      ''com.atproto.identity.signPlcOperation'', ''app.bsky.actor.getPreferences''])"

definition refresh_route :: "string \<Rightarrow> bool" where
  "refresh_route nsid = (nsid = ''com.atproto.server.refreshSession'' \<or> nsid = ''com.atproto.server.deleteSession'')"

definition export_route :: "string \<Rightarrow> bool" where
  "export_route nsid = (nsid = ''com.atproto.sync.getRepo'' \<or> nsid = ''com.atproto.sync.getBlob'' \<or>
     nsid = ''com.atproto.sync.listBlobs'')"

definition proxied_appview_rpc_route :: "string \<Rightarrow> bool" where
  "proxied_appview_rpc_route nsid =
     (if strncmp_eq nsid ''app.bsky.'' 9
      then nsid \<noteq> ''app.bsky.actor.getPreferences'' \<and> nsid \<noteq> ''app.bsky.actor.putPreferences''
      else strncmp_eq nsid ''chat.bsky.'' 10 \<or> strncmp_eq nsid ''tools.ozone.'' 12)"

section \<open>Credentials\<close>

definition trim_end :: "(char \<Rightarrow> bool) \<Rightarrow> string \<Rightarrow> string" where
  "trim_end P s = rev (dropWhile P (rev s))"

definition line_end :: "char \<Rightarrow> bool" where
  "line_end c = (c = CHR 0x0D \<or> c = CHR 0x0A \<or> c = CHR '' '')"

definition admin_authenticated :: "'c auth_world \<Rightarrow> auth_server \<Rightarrow> auth_request \<Rightarrow> bool" where
  "admin_authenticated w server req =
     (case sv_admin_password server of
        None \<Rightarrow> False
      | Some password \<Rightarrow>
          if password = '''' then False
          else (case ar_auth req of
                  None \<Rightarrow> False
                | Some header \<Rightarrow>
                    if \<not> strncmp_eq header ''Basic '' 6 then False
                    else
                      (let provided = trim_end line_end (drop 6 header);
                           expected = ''admin:'' @ password;
                           encoded = wd_encode w expected
                       in if length expected \<ge> 512 then False
                          else if encoded = '''' then False
                          else trim_end line_end encoded = provided)))"

definition bearer_token :: "string option \<Rightarrow> string option" where
  "bearer_token header =
     (case header of
        None \<Rightarrow> None
      | Some h \<Rightarrow> if strncmp_eq h ''Bearer '' 7 then Some (drop 7 h) else None)"

text \<open>A claim read without looking at the signature.\<close>

definition jwt_claim :: "'c auth_world \<Rightarrow> string \<Rightarrow> string \<Rightarrow> string option" where
  "jwt_claim w token name =
     (case strchr_cut CHR ''.'' token of
        (_, None) \<Rightarrow> None
      | (_, Some rest) \<Rightarrow>
          (case strchr_cut CHR ''.'' rest of
             (_, None) \<Rightarrow> None
           | (segment, Some _) \<Rightarrow>
               (case Option.bind (wd_b64 w segment) (jl_parse (wd_lib w)) of
                  None \<Rightarrow> None
                | Some payload \<Rightarrow>
                    (case json_string payload name of
                       None \<Rightarrow> None
                     | Some s \<Rightarrow> if s = '''' then None else Some s))))"

definition jwt_subject :: "'c auth_world \<Rightarrow> string \<Rightarrow> string option" where
  "jwt_subject w token = jwt_claim w token ''sub''"

definition ascii_lower :: "char \<Rightarrow> char" where
  "ascii_lower c = (if 65 \<le> (of_char c :: nat) \<and> (of_char c :: nat) \<le> 90 then char_of (of_char c + 32 :: nat) else c)"

definition strncasecmp_eq :: "string \<Rightarrow> string \<Rightarrow> nat \<Rightarrow> bool" where
  "strncasecmp_eq a b n = strncmp_eq (map ascii_lower a) (map ascii_lower b) n"

definition is_dpop_request :: "string option \<Rightarrow> string option \<Rightarrow> bool" where
  "is_dpop_request auth dpop =
     (case auth of
        None \<Rightarrow> False
      | Some h \<Rightarrow> strncasecmp_eq h ''DPoP '' 5 \<or> dpop \<noteq> None \<and> strncasecmp_eq h ''Bearer '' 7)"

text \<open>A moderator's token: the issuer allowed, the key of its DID, the signature, the audience and the method.\<close>

definition metalbear_verify_mod_service_auth ::
  "'c auth_world \<Rightarrow> string option \<Rightarrow> string option \<Rightarrow> string \<Rightarrow> wf_status + string" where
  "metalbear_verify_mod_service_auth w mod_service_did local_service_did token =
     (case (mod_service_did, local_service_did) of
        (Some modder, Some here) \<Rightarrow>
          if modder = '''' \<or> here = '''' then Inl WF_ERR_PERMISSION
          else (case jwt_claim w token ''iss'' of
                  None \<Rightarrow> Inl WF_ERR_PERMISSION
                | Some iss \<Rightarrow>
                    if \<not> (iss = modder \<or> strncmp_eq iss modder (length modder) \<and> drop (length modder) iss = ''#atproto_labeler'')
                    then Inl WF_ERR_PERMISSION
                    else
                      (case strchr_cut CHR ''#'' iss of
                         (did, frag) \<Rightarrow>
                           (let key_id = (if frag = Some ''atproto_labeler'' then ''#atproto_label'' else ''#atproto'');
                                didkey = (if strncmp_eq did ''did:key:'' 8 then Some did else wd_service_key w did key_id)
                            in case didkey of
                                 None \<Rightarrow> Inl WF_ERR_PERMISSION
                               | Some key \<Rightarrow>
                                   (case wd_service_claims w token key of
                                      None \<Rightarrow> Inl WF_ERR_PERMISSION
                                    | Some (aud, lxm) \<Rightarrow>
                                        if aud \<noteq> Some here \<or> lxm \<noteq> Some ''app.bsky.actor.getPreferences''
                                        then Inl WF_ERR_PERMISSION else Inr iss))))
      | _ \<Rightarrow> Inl WF_ERR_PERMISSION)"

definition authenticate_oauth ::
  "'c auth_world \<Rightarrow> auth_server \<Rightarrow> auth_request \<Rightarrow> 'c \<Rightarrow> (wf_status + string \<times> string option) \<times> 'c" where
  "authenticate_oauth w server req seen =
     (case sv_oauth server of
        None \<Rightarrow> (Inl WF_ERR_PERMISSION, seen)
      | Some store \<Rightarrow>
          (let htu = text_or '''' (sv_public_url server) @ ''/xrpc/'' @ nsid_of req
           in if length htu \<ge> 1024 then (Inl WF_ERR_INTERNAL, seen)
              else (case metalbear_oauth_verify_request
                           (wd_oauth w (ar_auth req) (ar_dpop req) (text_or ''GET'' (ar_method req)) htu) store seen of
                      (Inl st, seen1) \<Rightarrow> (Inl st, seen1)
                    | (Inr verified, seen1) \<Rightarrow>
                        (case vt_sub verified of
                           None \<Rightarrow> (Inl WF_ERR_PERMISSION, seen1)
                         | Some sub \<Rightarrow>
                             if sub = '''' then (Inl WF_ERR_PERMISSION, seen1)
                             else (Inr (sub, vt_scope verified), seen1)))))"

section \<open>The account a request names\<close>

definition found_did :: "wf_status + account_entry \<Rightarrow> string option" where
  "found_did r = (case r of Inr e \<Rightarrow> Some (en_did e) | Inl _ \<Rightarrow> None)"

definition named_target :: "auth_request \<Rightarrow> string option" where
  "named_target req =
     (case param_string req ''repo'' of Some r \<Rightarrow> Some r | None \<Rightarrow> param_string req ''did'')"

text \<open>The authority of an \<open>at://\<close> URI, when it fits the buffer.\<close>

definition target_authority :: "nat \<Rightarrow> string \<Rightarrow> string option" where
  "target_authority bufsz cand =
     (if strncmp_eq cand ''at://'' 5
      then (let auth = takeWhile (\<lambda>c. c \<noteq> CHR ''/'') (drop 5 cand)
            in if auth = '''' \<or> length auth \<ge> bufsz then None else Some auth)
      else Some cand)"

text \<open>A DID is taken as it is; a handle is looked up, and the DID found has to fit the buffer.\<close>

definition request_account_did :: "'c auth_world \<Rightarrow> auth_server \<Rightarrow> auth_request \<Rightarrow> nat \<Rightarrow> string option" where
  "request_account_did w server req bufsz =
     (if rq_subject req \<noteq> None \<and> rq_subject req \<noteq> Some '''' then rq_subject req
      else (case Option.bind (named_target req) (target_authority bufsz) of
              None \<Rightarrow> None
            | Some cand \<Rightarrow>
                if strncmp_eq cand ''did:'' 4 then Some cand
                else (case found_did (metalbear_account_registry_find_by_handle (wd_registry w 1) cand (sv_registry server)) of
                        None \<Rightarrow> None
                      | Some did \<Rightarrow> if length did < bufsz then Some did else None)))"

text \<open>The context is the DID it was opened for with its session store.\<close>

definition context_for_did :: "auth_server \<Rightarrow> string option \<Rightarrow> (string \<times> auth_store) option" where
  "context_for_did server did =
     (case did of None \<Rightarrow> None | Some d \<Rightarrow> map_option (\<lambda>store. (d, store)) (sv_accounts server d))"

definition context_for_identifier :: "'c auth_world \<Rightarrow> auth_server \<Rightarrow> string \<Rightarrow> (string \<times> auth_store) option" where
  "context_for_identifier w server identifier =
     context_for_did server
       (case found_did (metalbear_account_registry_find_by_did (wd_registry w 0) identifier (sv_registry server)) of
          Some did \<Rightarrow> Some did
        | None \<Rightarrow> found_did (metalbear_account_registry_find_by_handle (wd_registry w 1) identifier (sv_registry server)))"

definition resolve_request_context :: "'c auth_world \<Rightarrow> auth_server \<Rightarrow> auth_request \<Rightarrow> (string \<times> auth_store) option" where
  "resolve_request_context w server req = context_for_did server (request_account_did w server req 256)"

text \<open>The stores Wolfram's routes work on are those of the account resolved.\<close>

definition metalbear_repo_resolver ::
  "'c auth_world \<Rightarrow> auth_server \<Rightarrow> (string \<Rightarrow> 'r \<times> 'b) \<Rightarrow> auth_request \<Rightarrow> wf_status + 'r \<times> 'b" where
  "metalbear_repo_resolver w server stores req =
     (case resolve_request_context w server req of
        None \<Rightarrow> Inl WF_ERR_NOT_FOUND | Some (did, _) \<Rightarrow> Inr (stores did))"

text \<open>Three parts of a URI, each of at least one character and fit for its buffer; \<open>parse\<close> is Wolfram's.\<close>

record wf_syntax_aturi =
  aturi_authority :: "string option"
  aturi_collection :: "string option"
  aturi_record_key :: "string option"
  aturi_fragment :: "string option"

definition fits :: "nat \<Rightarrow> string \<Rightarrow> bool" where
  "fits width s = (s \<noteq> '''' \<and> length s < width)"

definition split_at_uri ::
  "(string \<Rightarrow> wf_syntax_aturi option) \<Rightarrow> string option \<Rightarrow> nat \<Rightarrow> nat \<Rightarrow> nat \<Rightarrow> (string \<times> string \<times> string) option" where
  "split_at_uri parse uri authority_sz collection_sz rkey_sz =
     (case Option.bind uri parse of
        None \<Rightarrow> None
      | Some p \<Rightarrow>
          (case (aturi_authority p, aturi_collection p, aturi_record_key p, aturi_fragment p) of
             (Some a, Some c, Some k, None) \<Rightarrow>
               if fits authority_sz a \<and> fits collection_sz c \<and> fits rkey_sz k then Some (a, c, k) else None
           | _ \<Rightarrow> None))"

text \<open>
  The observer of a request that was answered: the contexts acquired on the thread are released, and
  the request is counted.
\<close>

definition METALBEAR_METRIC_REQUESTS :: int where "METALBEAR_METRIC_REQUESTS = 0"
definition METALBEAR_METRIC_REQUESTS_FAILED :: int where "METALBEAR_METRIC_REQUESTS_FAILED = 1"
definition METALBEAR_METRIC_AUTH_REFUSED :: int where "METALBEAR_METRIC_AUTH_REFUSED = 2"

definition metalbear_account_cache_request_observer ::
  "bool \<Rightarrow> string option \<Rightarrow> string option \<Rightarrow> 32 word \<Rightarrow> nat list \<Rightarrow> account_cache \<Rightarrow> metrics \<Rightarrow>
   (account_cache \<times> nat list) \<times> metrics" where
  "metalbear_account_cache_request_observer realloc_ok nsid path status acquired cache m =
     (let m1 = metalbear_metrics_inc m METALBEAR_METRIC_REQUESTS;
          m2 = (if status \<ge> 400 then metalbear_metrics_inc m1 METALBEAR_METRIC_REQUESTS_FAILED else m1)
      in (release_thread_local cache acquired, metalbear_metrics_record_request realloc_ok nsid path status m2))"

section \<open>What a granted scope admits\<close>

definition own_audience :: "auth_server \<Rightarrow> string" where
  "own_audience server = snprintf_cut 320 (text_or '''' (sv_service_did server) @ ''#atproto_pds'')"

definition appview_audience :: "auth_server \<Rightarrow> auth_request \<Rightarrow> string" where
  "appview_audience server req =
     (if ar_proxy req \<noteq> None \<and> ar_proxy req \<noteq> Some '''' then text_or '''' (ar_proxy req)
      else snprintf_cut 512 (text_or '''' (sv_appview_did server) @ ''#bsky_appview''))"

definition repo_action_of :: "string \<Rightarrow> action_mask" where
  "repo_action_of nsid =
     (if nsid = ''com.atproto.repo.createRecord'' then MB_REPO_ACTION_CREATE
      else if nsid = ''com.atproto.repo.putRecord'' then MB_REPO_ACTION_UPDATE
      else if nsid = ''com.atproto.repo.deleteRecord'' then MB_REPO_ACTION_DELETE
      else MB_REPO_ACTION_NONE)"

text \<open>A write without a collection is left to its handler; any other route is a read of its collection.\<close>

definition repo_scope_admits :: "mb_scope_permission list \<Rightarrow> auth_request \<Rightarrow> bool" where
  "repo_scope_admits perms req =
     (let action = repo_action_of (nsid_of req)
      in case param_string req ''collection'' of
           Some collection \<Rightarrow>
             if action \<noteq> MB_REPO_ACTION_NONE then mb_scope_set_allows_repo perms collection action
             else mb_scope_set_allows_read perms collection
         | None \<Rightarrow> action \<noteq> MB_REPO_ACTION_NONE)"

definition granular_scope_admits :: "mb_scope_permission list \<Rightarrow> auth_server \<Rightarrow> auth_request \<Rightarrow> bool" where
  "granular_scope_admits perms server req =
     (let nsid = nsid_of req
      in if nsid = ''com.atproto.repo.uploadBlob''
         then mb_scope_set_allows_blob perms
                (if ar_content_type req \<noteq> None \<and> ar_content_type req \<noteq> Some '''' then text_or '''' (ar_content_type req)
                 else ''application/octet-stream'')
         else if nsid = ''com.atproto.repo.importRepo''
         then mb_scope_set_allows_account perms ''repo'' MB_ACCOUNT_ACTION_MANAGE
         else if nsid = ''com.atproto.identity.requestPlcOperationSignature'' \<or> nsid = ''com.atproto.identity.signPlcOperation''
         then mb_scope_set_allows_identity perms ''*''
         else if nsid = ''com.atproto.identity.updateHandle'' then mb_scope_set_allows_identity perms ''handle''
         else if nsid = ''com.atproto.server.getServiceAuth''
         then (case param_string req ''aud'' of
                 None \<Rightarrow> False
               | Some aud \<Rightarrow>
                   mb_scope_set_allows_rpc perms
                     (if param_string req ''lxm'' \<noteq> None \<and> param_string req ''lxm'' \<noteq> Some ''''
                      then text_or '''' (param_string req ''lxm'') else ''*'') aud)
         else if nsid = ''com.atproto.moderation.createReport'' \<or> nsid = ''app.bsky.actor.getPreferences'' \<or>
                 nsid = ''app.bsky.actor.putPreferences''
         then mb_scope_set_allows_rpc perms nsid (own_audience server)
         else if proxied_appview_rpc_route nsid then mb_scope_set_allows_rpc perms nsid (appview_audience server req)
         else repo_scope_admits perms req)"

text \<open>A scope that is missing, empty, or cannot be parsed for want of memory is not looked at.\<close>

definition oauth_scope_admits :: "'c auth_world \<Rightarrow> auth_server \<Rightarrow> auth_request \<Rightarrow> string option \<Rightarrow> bool" where
  "oauth_scope_admits w server req scope =
     (case scope of
        None \<Rightarrow> True
      | Some text \<Rightarrow>
          if text = '''' \<or> \<not> wd_scope_alloc w then True
          else (let perms = permissions (mb_scope_set_parse (wd_nsid_ok w) (wd_did_ok w) text)
                in mb_scope_set_is_full_access perms \<or> granular_scope_admits perms server req))"

section \<open>The callback\<close>

text \<open>The last steps, shared by both kinds of token: the account is hosted, up and active.\<close>

definition bind_subject :: "auth_server \<Rightarrow> auth_request \<Rightarrow> string \<Rightarrow> int \<Rightarrow> wf_status \<times> auth_request" where
  "bind_subject server req sub scope =
     (case context_for_did server (Some sub) of
        None \<Rightarrow> (WF_ERR_PERMISSION, req)
      | Some (did, _) \<Rightarrow>
          if account_is_taken_down (sv_guards server) (Some sub) \<and>
             (scope \<noteq> METALBEAR_ACCESS_TAKENDOWN \<or> \<not> takendown_route_allowed (nsid_of req))
          then (WF_ERR_PERMISSION, req)
          else if \<not> gr_active (sv_guards server) did \<and> \<not> inactive_route_allowed (nsid_of req)
          then (WF_ERR_CONFLICT, req)
          else (WF_OK, req\<lparr>rq_subject := Some sub, ar_principal := WF_XRPC_PRINCIPAL_USER\<rparr>))"

text \<open>The moderator's token, for the one route and with the service configured; then the account the token names.\<close>

definition moderator_access :: "'c auth_world \<Rightarrow> auth_server \<Rightarrow> auth_request \<Rightarrow> string \<Rightarrow> wf_status + string" where
  "moderator_access w server req provided =
     (if nsid_of req = ''app.bsky.actor.getPreferences'' \<and> sv_mod_service_did server \<noteq> None \<and>
         sv_mod_service_did server \<noteq> Some ''''
      then metalbear_verify_mod_service_auth w (sv_mod_service_did server) (sv_service_did server) provided
      else Inl WF_ERR_PERMISSION)"

definition account_access :: "'c auth_world \<Rightarrow> auth_server \<Rightarrow> auth_request \<Rightarrow> string \<Rightarrow> wf_status \<times> auth_request" where
  "account_access w server req provided =
     (case jwt_subject w provided of
        None \<Rightarrow> (WF_ERR_PERMISSION, req)
      | Some sub \<Rightarrow>
          if refresh_route (nsid_of req) then bind_subject server req sub METALBEAR_ACCESS_FULL
          else (case context_for_did server (Some sub) of
                  None \<Rightarrow> (WF_ERR_PERMISSION, req)
                | Some (_, store) \<Rightarrow>
                    (case metalbear_auth_verify_access_scope (wd_lib w) (wd_now w) store provided of
                       Inl st \<Rightarrow> (st, req)
                     | Inr scope \<Rightarrow>
                         if full_access_route (nsid_of req) \<and> scope \<noteq> METALBEAR_ACCESS_FULL \<and>
                            \<not> (scope = METALBEAR_ACCESS_TAKENDOWN \<and> takendown_route_allowed (nsid_of req))
                         then (WF_ERR_PERMISSION, req)
                         else bind_subject server req sub scope)))"

definition session_access :: "'c auth_world \<Rightarrow> auth_server \<Rightarrow> auth_request \<Rightarrow> wf_status \<times> auth_request" where
  "session_access w server req =
     (case bearer_token (ar_auth req) of
        None \<Rightarrow> (WF_ERR_PERMISSION, req)
      | Some provided \<Rightarrow>
          (case moderator_access w server req provided of
             Inr iss \<Rightarrow> (WF_OK, req\<lparr>rq_subject := Some iss, ar_principal := WF_XRPC_PRINCIPAL_SERVICE\<rparr>)
           | Inl _ \<Rightarrow> account_access w server req provided))"

text \<open>
  A public route asks for no token. The reads of a deactivated repository are refused, and the holder
  of an account taken down may export it under a session of the narrow scope.
\<close>

definition public_access :: "'c auth_world \<Rightarrow> auth_server \<Rightarrow> auth_request \<Rightarrow> wf_status \<times> auth_request" where
  "public_access w server req =
     (if strncmp_eq (nsid_of req) ''com.atproto.repo.'' 17 \<and>
         (case Option.bind (named_target req) (context_for_identifier w server) of
            None \<Rightarrow> False
          | Some (did, _) \<Rightarrow> \<not> gr_active (sv_guards server) did \<and> \<not> account_is_taken_down (sv_guards server) (Some did))
      then (WF_ERR_CONFLICT, req)
      else if export_route (nsid_of req)
      then (case (context_for_did server (param_string req ''did''), bearer_token (ar_auth req)) of
              (Some (did, store), Some provided) \<Rightarrow>
                if account_is_taken_down (sv_guards server) (Some did) \<and>
                   metalbear_auth_verify_access_scope (wd_lib w) (wd_now w) store provided = Inr METALBEAR_ACCESS_TAKENDOWN
                then (WF_OK, req\<lparr>rq_subject := Some did, ar_principal := WF_XRPC_PRINCIPAL_USER\<rparr>)
                else (WF_OK, req)
            | _ \<Rightarrow> (WF_OK, req))
      else (WF_OK, req))"

definition authenticate_request ::
  "'c auth_world \<Rightarrow> auth_server \<Rightarrow> auth_request \<Rightarrow> 'c \<Rightarrow> (wf_status \<times> auth_request) \<times> 'c" where
  "authenticate_request w server req seen =
     (if is_admin_route (nsid_of req)
      then ((if admin_authenticated w server req then WF_OK else WF_ERR_PERMISSION, req), seen)
      else if is_public_route (nsid_of req) then (public_access w server req, seen)
      else if nsid_of req \<noteq> ''app.bsky.actor.getPreferences'' \<and>
              (case named_target req of None \<Rightarrow> False | Some t \<Rightarrow> context_for_identifier w server t = None)
      then ((WF_ERR_PERMISSION, req), seen)
      else if is_dpop_request (ar_auth req) (ar_dpop req)
      then (case authenticate_oauth w server req seen of
              (Inl st, seen1) \<Rightarrow> ((st, req), seen1)
            | (Inr (sub, scope), seen1) \<Rightarrow>
                (if oauth_forbidden_route (nsid_of req) \<or> \<not> oauth_scope_admits w server req scope
                 then (WF_ERR_PERMISSION, req) else bind_subject server req sub METALBEAR_ACCESS_FULL, seen1))
      else (session_access w server req, seen))"

definition metalbear_authenticate ::
  "'c auth_world \<Rightarrow> auth_server \<Rightarrow> auth_request \<Rightarrow> 'c \<Rightarrow> metrics \<Rightarrow> (wf_status \<times> auth_request) \<times> 'c \<times> metrics" where
  "metalbear_authenticate w server req seen m =
     (case authenticate_request w server req seen of
        ((status, req1), seen1) \<Rightarrow>
          ((status, req1), seen1,
           if status \<noteq> WF_OK then metalbear_metrics_inc m METALBEAR_METRIC_AUTH_REFUSED else m))"

lemma verify_access_scope_status: "metalbear_auth_verify_access_scope lib now store token \<noteq> Inl WF_OK"
  by (auto simp: metalbear_auth_verify_access_scope_def verify_jwt_def Let_def split: sum.splits option.splits prod.splits if_splits)

section \<open>What a grant rests on\<close>

lemma bind_subject_OK:
  "bind_subject server req sub scope = (WF_OK, req') \<longleftrightarrow>
     sv_accounts server sub \<noteq> None \<and>
     (account_is_taken_down (sv_guards server) (Some sub) \<longrightarrow>
        scope = METALBEAR_ACCESS_TAKENDOWN \<and> takendown_route_allowed (nsid_of req)) \<and>
     (gr_active (sv_guards server) sub \<or> inactive_route_allowed (nsid_of req)) \<and>
     req' = req\<lparr>rq_subject := Some sub, ar_principal := WF_XRPC_PRINCIPAL_USER\<rparr>"
  by (cases "sv_accounts server sub") (auto simp: bind_subject_def context_for_did_def)

text \<open>The evidence behind a session: the bearer token names the account and verifies under its store.\<close>

definition session_evidence :: "'c auth_world \<Rightarrow> auth_server \<Rightarrow> auth_request \<Rightarrow> string \<Rightarrow> int \<Rightarrow> bool" where
  "session_evidence w server req did scope \<longleftrightarrow>
     (\<exists>token store. bearer_token (ar_auth req) = Some token \<and> jwt_subject w token = Some did \<and>
        sv_accounts server did = Some store \<and>
        metalbear_auth_verify_access_scope (wd_lib w) (wd_now w) store token = Inr scope)"

text \<open>The evidence behind an OAuth grant: the access token and its proof verify for this route.\<close>

definition oauth_evidence :: "'c auth_world \<Rightarrow> auth_server \<Rightarrow> auth_request \<Rightarrow> 'c \<Rightarrow> string \<Rightarrow> string option \<Rightarrow> bool" where
  "oauth_evidence w server req seen did scope \<longleftrightarrow>
     (\<exists>store verified seen1. sv_oauth server = Some store \<and>
        metalbear_oauth_verify_request (wd_oauth w (ar_auth req) (ar_dpop req) (text_or ''GET'' (ar_method req))
          (text_or '''' (sv_public_url server) @ ''/xrpc/'' @ nsid_of req)) store seen = (Inr verified, seen1) \<and>
        vt_sub verified = Some did \<and> vt_scope verified = scope)"

lemma authenticate_oauth_OK:
  "authenticate_oauth w server req seen = (Inr (did, scope), seen') \<Longrightarrow> oauth_evidence w server req seen did scope"
  by (auto simp: authenticate_oauth_def oauth_evidence_def Let_def
      split: option.splits if_splits prod.splits sum.splits)

lemma authenticate_oauth_status:
  assumes "\<And>a d m h k c. fst (wd_oauth w a d m h k c) \<noteq> Inl WF_OK"
  shows "fst (authenticate_oauth w server req seen) \<noteq> Inl WF_OK"
proof -
  have "fst (metalbear_oauth_verify_request (wd_oauth w a d m h) store c) \<noteq> Inl WF_OK" for a d m h store c
    using assms [of a d m h "os_trusted store" c]
    by (auto simp: metalbear_oauth_verify_request_def split: prod.split sum.split)
  then show ?thesis
    by (auto simp: authenticate_oauth_def Let_def split: option.split prod.split sum.split) (metis fst_conv)
qed

lemma account_access_OK:
  assumes "account_access w server req token = (WF_OK, req')" and "\<not> refresh_route (nsid_of req)"
    and "bearer_token (ar_auth req) = Some token"
  obtains did scope where "session_evidence w server req did scope"
      "full_access_route (nsid_of req) \<longrightarrow>
         scope = METALBEAR_ACCESS_FULL \<or> scope = METALBEAR_ACCESS_TAKENDOWN \<and> takendown_route_allowed (nsid_of req)"
      "bind_subject server req did scope = (WF_OK, req')"
proof -
  obtain did where did: "jwt_subject w token = Some did"
    using assms(1) by (cases "jwt_subject w token") (simp_all add: account_access_def)
  obtain store where store: "sv_accounts server did = Some store"
    using assms(1,2) did by (cases "sv_accounts server did") (simp_all add: account_access_def context_for_did_def)
  obtain scope where scope: "metalbear_auth_verify_access_scope (wd_lib w) (wd_now w) store token = Inr scope"
    using assms(1,2) did store verify_access_scope_status [of "wd_lib w" "wd_now w" store token]
    by (cases "metalbear_auth_verify_access_scope (wd_lib w) (wd_now w) store token")
      (simp_all add: account_access_def context_for_did_def)
  show thesis
    using that [of did scope] assms did store scope
    by (auto simp: account_access_def context_for_did_def session_evidence_def split: if_split_asm)
qed

lemma moderator_access_OK:
  "moderator_access w server req token = Inr iss \<Longrightarrow> nsid_of req = ''app.bsky.actor.getPreferences'' \<and>
     metalbear_verify_mod_service_auth w (sv_mod_service_did server) (sv_service_did server) token = Inr iss"
  by (simp add: moderator_access_def split: if_split_asm)

text \<open>C5. Nothing is granted without evidence. A request let through on a route that is not public, not the
  administrator's and not the refresh pair is bound either to a moderator's service whose token verified
  for its one route, or to an account hosted here, active unless the route is one an inactive account
  may call, on the strength of a session token of that account, with the full scope where the route
  asks for it, or of an OAuth token and proof that verified for this very route with a scope that
  admits it; and an account taken down gets through under the narrow session alone, on its nine routes.\<close>

theorem grant_rests_on_evidence:
  assumes "authenticate_request w server req seen = ((WF_OK, req'), seen')"
    and "\<And>a d m h k c. fst (wd_oauth w a d m h k c) \<noteq> Inl WF_OK"
    and "\<not> is_admin_route (nsid_of req)" and "\<not> is_public_route (nsid_of req)" and "\<not> refresh_route (nsid_of req)"
  shows "(\<exists>token iss. nsid_of req = ''app.bsky.actor.getPreferences'' \<and> bearer_token (ar_auth req) = Some token \<and>
       metalbear_verify_mod_service_auth w (sv_mod_service_did server) (sv_service_did server) token = Inr iss \<and>
       req' = req\<lparr>rq_subject := Some iss, ar_principal := WF_XRPC_PRINCIPAL_SERVICE\<rparr>) \<or>
    (\<exists>did scope. req' = req\<lparr>rq_subject := Some did, ar_principal := WF_XRPC_PRINCIPAL_USER\<rparr> \<and>
       sv_accounts server did \<noteq> None \<and> (gr_active (sv_guards server) did \<or> inactive_route_allowed (nsid_of req)) \<and>
       (session_evidence w server req did scope \<or>
        scope = METALBEAR_ACCESS_FULL \<and> \<not> oauth_forbidden_route (nsid_of req) \<and>
        (\<exists>granted. oauth_evidence w server req seen did granted \<and> oauth_scope_admits w server req granted)) \<and>
       (full_access_route (nsid_of req) \<longrightarrow>
          scope = METALBEAR_ACCESS_FULL \<or> scope = METALBEAR_ACCESS_TAKENDOWN \<and> takendown_route_allowed (nsid_of req)) \<and>
       (account_is_taken_down (sv_guards server) (Some did) \<longrightarrow>
          scope = METALBEAR_ACCESS_TAKENDOWN \<and> takendown_route_allowed (nsid_of req)))"
proof (cases "is_dpop_request (ar_auth req) (ar_dpop req)")
  case True
  then obtain did granted where o: "authenticate_oauth w server req seen = (Inr (did, granted), seen')"
    "\<not> oauth_forbidden_route (nsid_of req)" "oauth_scope_admits w server req granted"
    "bind_subject server req did METALBEAR_ACCESS_FULL = (WF_OK, req')"
    using assms(1,3,4) authenticate_oauth_status [OF assms(2), of server req seen]
    by (cases "authenticate_oauth w server req seen")
      (auto simp: authenticate_request_def split: if_split_asm sum.split_asm)
  show ?thesis
    using o(2,3) authenticate_oauth_OK [OF o(1)] o(4)[unfolded bind_subject_OK]
    by (intro disjI2 exI [of _ did] exI [of _ METALBEAR_ACCESS_FULL]) auto
next
  case False
  then have s: "session_access w server req = (WF_OK, req')"
    using assms(1,3,4) by (auto simp: authenticate_request_def split: if_split_asm)
  then obtain token where token: "bearer_token (ar_auth req) = Some token"
    by (cases "bearer_token (ar_auth req)") (simp_all add: session_access_def)
  show ?thesis
  proof (cases "moderator_access w server req token")
    case (Inr iss)
    then show ?thesis using s token moderator_access_OK [OF Inr] by (auto simp: session_access_def)
  next
    case (Inl st)
    then have "account_access w server req token = (WF_OK, req')" using s token by (simp add: session_access_def)
    then show ?thesis
    proof (rule account_access_OK [OF _ assms(5) token])
      fix did scope
      assume e: "session_evidence w server req did scope" and b: "bind_subject server req did scope = (WF_OK, req')"
        and f: "full_access_route (nsid_of req) \<longrightarrow>
         scope = METALBEAR_ACCESS_FULL \<or> scope = METALBEAR_ACCESS_TAKENDOWN \<and> takendown_route_allowed (nsid_of req)"
      show ?thesis using e f b[unfolded bind_subject_OK]
        by (intro disjI2 exI [of _ did] exI [of _ scope]) auto
    qed
  qed
qed

section \<open>An account taken down\<close>

lemma account_access_binds:
  assumes "account_access w server req token = (WF_OK, req')" and "bearer_token (ar_auth req) = Some token"
  shows "\<exists>did scope. bind_subject server req did scope = (WF_OK, req') \<and>
    (scope = METALBEAR_ACCESS_FULL \<or> session_evidence w server req did scope)"
proof (cases "refresh_route (nsid_of req)")
  case True
  then show ?thesis using assms(1) by (auto simp: account_access_def split: option.split_asm)
next
  case False
  then show ?thesis using account_access_OK [OF assms(1) _ assms(2)] by metis
qed

lemma taken_down_narrow:
  assumes "authenticate_request w server req seen = ((WF_OK, req'), seen')"
    and "\<And>a d m h k c. fst (wd_oauth w a d m h k c) \<noteq> Inl WF_OK"
    and "\<not> is_admin_route (nsid_of req)" and "\<not> is_public_route (nsid_of req)"
    and "account_is_taken_down (sv_guards server) (Some did)"
    and "rq_subject req' = Some did" and "ar_principal req' = WF_XRPC_PRINCIPAL_USER"
  shows "session_evidence w server req did METALBEAR_ACCESS_TAKENDOWN \<and> takendown_route_allowed (nsid_of req)"
proof -
  have "\<exists>d scope. bind_subject server req d scope = (WF_OK, req') \<and>
      (scope = METALBEAR_ACCESS_FULL \<or> session_evidence w server req d scope)"
  proof (cases "is_dpop_request (ar_auth req) (ar_dpop req)")
    case True
    then obtain d where "bind_subject server req d METALBEAR_ACCESS_FULL = (WF_OK, req')"
      using assms(1,3,4) authenticate_oauth_status [OF assms(2), of server req seen]
      by (cases "authenticate_oauth w server req seen")
        (auto simp: authenticate_request_def split: if_split_asm sum.split_asm)
    then show ?thesis by blast
  next
    case False
    then have s: "session_access w server req = (WF_OK, req')"
      using assms(1,3,4) by (auto simp: authenticate_request_def split: if_split_asm)
    then obtain token where token: "bearer_token (ar_auth req) = Some token"
      by (cases "bearer_token (ar_auth req)") (simp_all add: session_access_def)
    then have "account_access w server req token = (WF_OK, req')"
      using s assms(7) by (auto simp: session_access_def split: sum.split_asm)
    then show ?thesis using account_access_binds token by blast
  qed
  then obtain d scope where b: "bind_subject server req d scope = (WF_OK, req')"
    and e: "scope = METALBEAR_ACCESS_FULL \<or> session_evidence w server req d scope" by blast
  note b = b [unfolded bind_subject_OK]
  have "d = did" using b assms(6) by auto
  then show ?thesis using b e assms(5) by auto
qed

section \<open>Scopes that do not confine\<close>

lemma atproto_parses: "mb_scope_permission_parse nsid_ok did_ok ''atproto'' = Some (Static_Scope ''atproto'')"
  by (simp add: mb_scope_permission_parse_def STATIC_SCOPES_def)

lemma atproto_is_full:
  assumes "''atproto'' \<in> set (scope_tokens [] text)"
  shows "mb_scope_set_is_full_access (permissions (mb_scope_set_parse nsid_ok did_ok text))"
proof -
  have "text \<noteq> ''''" using assms by auto
  then have "Static_Scope ''atproto'' \<in> set (permissions (mb_scope_set_parse nsid_ok did_ok text))"
    using assms atproto_parses [of nsid_ok did_ok]
    by (force simp: mb_scope_set_parse_def List.map_filter_def)
  then show ?thesis unfolding mb_scope_set_is_full_access_def list_ex_iff by force
qed

definition named_is_hosted :: "'c auth_world \<Rightarrow> auth_server \<Rightarrow> auth_request \<Rightarrow> bool" where
  "named_is_hosted w server req \<longleftrightarrow>
     (case named_target req of None \<Rightarrow> True | Some t \<Rightarrow> context_for_identifier w server t \<noteq> None)"

lemma authenticate_request_oauth:
  assumes "is_dpop_request (ar_auth req) (ar_dpop req)" and "\<not> is_admin_route (nsid_of req)"
    and "\<not> is_public_route (nsid_of req)" and "named_is_hosted w server req"
    and "authenticate_oauth w server req seen = (Inr (did, scope), seen1)"
  shows "authenticate_request w server req seen =
    (if oauth_forbidden_route (nsid_of req) \<or> \<not> oauth_scope_admits w server req scope
     then (WF_ERR_PERMISSION, req) else bind_subject server req did METALBEAR_ACCESS_FULL, seen1)"
  using assms by (cases "named_target req") (auto simp: authenticate_request_def named_is_hosted_def)

lemma verify_request_atproto:
  assumes "metalbear_oauth_verify_request verify store seen = (Inr verified, seen1)"
  shows "\<exists>tx. vt_scope verified = Some tx \<and> occurs_in tx ''atproto''"
proof (cases "verify (os_trusted store) seen")
  case (Pair r c)
  then show ?thesis
    using assms by (cases r) (auto simp: metalbear_oauth_verify_request_def split: if_split_asm option.split_asm)
qed

text \<open>C33. A granular scope confines nothing once \<open>atproto\<close> stands beside it. Every OAuth token the server
  accepts has \<open>atproto\<close> somewhere in its scope, and where it is one of the scope's words, as the
  protocol demands of every grant, whatever else the scope lists is never looked at: the answer is that
  of full access on every route that takes OAuth tokens at all.\<close>

theorem atproto_scope_is_everything:
  assumes "is_dpop_request (ar_auth req) (ar_dpop req)" and "\<not> is_admin_route (nsid_of req)"
    and "\<not> is_public_route (nsid_of req)" and "named_is_hosted w server req"
    and "authenticate_oauth w server req seen = (Inr (did, scope), seen1)"
  shows "\<exists>text. scope = Some text \<and> occurs_in text ''atproto'' \<and>
    (''atproto'' \<in> set (scope_tokens [] text) \<longrightarrow>
       authenticate_request w server req seen =
         (if oauth_forbidden_route (nsid_of req) then (WF_ERR_PERMISSION, req)
          else bind_subject server req did METALBEAR_ACCESS_FULL, seen1))"
proof -
  obtain tx where sc: "scope = Some tx" "occurs_in tx ''atproto''"
    using authenticate_oauth_OK [OF assms(5)] verify_request_atproto unfolding oauth_evidence_def by metis
  have "oauth_scope_admits w server req scope" if "''atproto'' \<in> set (scope_tokens [] tx)"
    using atproto_is_full [OF that, of "wd_nsid_ok w" "wd_did_ok w"] by (simp add: oauth_scope_admits_def sc(1))
  then show ?thesis using sc authenticate_request_oauth [OF assms] by auto
qed

lemma repo_routes:
  "\<not> is_admin_route ''com.atproto.repo.applyWrites'' \<and> \<not> is_public_route ''com.atproto.repo.applyWrites'' \<and>
   \<not> oauth_forbidden_route ''com.atproto.repo.applyWrites'' \<and> \<not> inactive_route_allowed ''com.atproto.repo.applyWrites''"
  "\<not> is_admin_route ''com.atproto.repo.deleteRecord'' \<and> \<not> is_public_route ''com.atproto.repo.deleteRecord'' \<and>
   \<not> oauth_forbidden_route ''com.atproto.repo.deleteRecord''"
  by (simp_all add: is_admin_route_def is_public_route_def oauth_forbidden_route_def inactive_route_allowed_def)

lemma granular_repo:
  "rq_nsid req = Some ''com.atproto.repo.applyWrites'' \<Longrightarrow> granular_scope_admits perms server req =
     (case param_string req ''collection'' of None \<Rightarrow> False | Some c \<Rightarrow> mb_scope_set_allows_read perms c)"
  "rq_nsid req = Some ''com.atproto.repo.deleteRecord'' \<Longrightarrow> granular_scope_admits perms server req =
     (case param_string req ''collection'' of None \<Rightarrow> True | Some c \<Rightarrow> mb_scope_set_allows_repo perms c MB_REPO_ACTION_DELETE)"
  by (simp_all add: granular_scope_admits_def repo_scope_admits_def nsid_of_def proxied_appview_rpc_route_def
      strncmp_eq_def repo_action_of_def MB_REPO_ACTION_NONE_def MB_REPO_ACTION_DELETE_def Let_def split: option.split)

lemma request_fields:
  "param_string (req\<lparr>rq_nsid := n\<rparr>) k = param_string req k" "named_target (req\<lparr>rq_nsid := n\<rparr>) = named_target req"
  "nsid_of (req\<lparr>rq_nsid := Some t\<rparr>) = t"
  "named_is_hosted w server (req\<lparr>rq_nsid := n\<rparr>) = named_is_hosted w server req"
  by (simp_all add: named_target_def param_string_def nsid_of_def named_is_hosted_def cong: option.case_cong)

section \<open>Scopes that confine\<close>

text \<open>A word of a scope that lets a record of the collection be written.\<close>

definition lets_write :: "'c auth_world \<Rightarrow> string \<Rightarrow> action_mask \<Rightarrow> string \<Rightarrow> bool" where
  "lets_write w collection action word =
     (case mb_scope_permission_parse (wd_nsid_ok w) (wd_did_ok w) word of
        Some (Static_Scope value) \<Rightarrow> value = ''atproto''
      | Some (Repo_Scope coll actions) \<Rightarrow> (coll = ''*'' \<or> coll = collection) \<and> actions AND action \<noteq> 0
      | _ \<Rightarrow> False)"

lemma all_actions: "action \<in> {MB_REPO_ACTION_CREATE, MB_REPO_ACTION_UPDATE, MB_REPO_ACTION_DELETE} \<Longrightarrow>
    MB_REPO_ACTION_ALL AND action \<noteq> 0"
  by (auto simp: MB_REPO_ACTION_ALL_def MB_REPO_ACTION_CREATE_def MB_REPO_ACTION_UPDATE_def MB_REPO_ACTION_DELETE_def)

lemma scope_allows_repo:
  assumes "action \<in> {MB_REPO_ACTION_CREATE, MB_REPO_ACTION_UPDATE, MB_REPO_ACTION_DELETE}" and "text \<noteq> ''''"
  shows "mb_scope_set_allows_repo (permissions (mb_scope_set_parse (wd_nsid_ok w) (wd_did_ok w) text)) collection action \<longleftrightarrow>
    (\<exists>word \<in> set (scope_tokens [] text). lets_write w collection action word)"
proof -
  have "(case perm of Static_Scope value \<Rightarrow> value = ''atproto''
        | Repo_Scope coll actions \<Rightarrow> coll = ''*'' \<and> actions = MB_REPO_ACTION_ALL | _ \<Rightarrow> False) \<or>
      (case perm of Repo_Scope coll actions \<Rightarrow> (coll = ''*'' \<or> coll = collection) \<and> actions AND action \<noteq> 0 | _ \<Rightarrow> False) \<longleftrightarrow>
      (case perm of Static_Scope value \<Rightarrow> value = ''atproto''
        | Repo_Scope coll actions \<Rightarrow> (coll = ''*'' \<or> coll = collection) \<and> actions AND action \<noteq> 0 | _ \<Rightarrow> False)" for perm
    using all_actions [OF assms(1)] by (cases perm) auto
  then have "mb_scope_set_allows_repo perms collection action \<longleftrightarrow>
      (\<exists>perm \<in> set perms. case perm of Static_Scope value \<Rightarrow> value = ''atproto''
        | Repo_Scope coll actions \<Rightarrow> (coll = ''*'' \<or> coll = collection) \<and> actions AND action \<noteq> 0 | _ \<Rightarrow> False)" for perms
    unfolding mb_scope_set_allows_repo_def mb_scope_set_is_full_access_def list_ex_iff by auto
  then show ?thesis
    using assms(2) by (auto simp: mb_scope_set_parse_def List.map_filter_def lets_write_def split: option.splits)
qed

lemma granular_write:
  assumes "(nsid_of req, action) \<in> {(''com.atproto.repo.createRecord'', MB_REPO_ACTION_CREATE),
      (''com.atproto.repo.putRecord'', MB_REPO_ACTION_UPDATE), (''com.atproto.repo.deleteRecord'', MB_REPO_ACTION_DELETE)}"
    and "param_string req ''collection'' = Some collection"
  shows "granular_scope_admits perms server req = mb_scope_set_allows_repo perms collection action"
    and "\<not> is_admin_route (nsid_of req)" and "\<not> is_public_route (nsid_of req)" and "\<not> oauth_forbidden_route (nsid_of req)"
proof -
  consider "nsid_of req = ''com.atproto.repo.createRecord''" "action = MB_REPO_ACTION_CREATE"
    | "nsid_of req = ''com.atproto.repo.putRecord''" "action = MB_REPO_ACTION_UPDATE"
    | "nsid_of req = ''com.atproto.repo.deleteRecord''" "action = MB_REPO_ACTION_DELETE"
    using assms(1) by blast
  note n = this
  from n show "granular_scope_admits perms server req = mb_scope_set_allows_repo perms collection action"
    by cases (simp_all add: granular_scope_admits_def repo_scope_admits_def proxied_appview_rpc_route_def strncmp_eq_def
        repo_action_of_def assms(2) MB_REPO_ACTION_NONE_def MB_REPO_ACTION_CREATE_def MB_REPO_ACTION_UPDATE_def
        MB_REPO_ACTION_DELETE_def)
  from n show "\<not> is_admin_route (nsid_of req)"
    by cases (simp_all add: is_admin_route_def)
  from n show "\<not> is_public_route (nsid_of req)"
    by cases (simp_all add: is_public_route_def)
  from n show "\<not> oauth_forbidden_route (nsid_of req)"
    by cases (simp_all add: oauth_forbidden_route_def)
qed

text \<open>C32. Record writes stay within the scope. A request with an OAuth token to create, put or delete a
  record, that names its collection as a string and no account but a hosted one, passes the check of
  the scope exactly when a word of the token's scope is \<open>atproto\<close>, or is a repo permission for that
  collection or for all of them whose actions hold the one of the route: create, update or delete. Any
  other is refused for want of permission and left unbound. The memory for parsing the scope is taken
  to be there; without it nothing is checked.\<close>

theorem record_writes_within_scope:
  assumes "(nsid_of req, action) \<in> {(''com.atproto.repo.createRecord'', MB_REPO_ACTION_CREATE),
      (''com.atproto.repo.putRecord'', MB_REPO_ACTION_UPDATE), (''com.atproto.repo.deleteRecord'', MB_REPO_ACTION_DELETE)}"
    and "param_string req ''collection'' = Some collection"
    and "is_dpop_request (ar_auth req) (ar_dpop req)" and "named_is_hosted w server req" and "wd_scope_alloc w"
    and "authenticate_oauth w server req seen = (Inr (did, scope), seen1)"
  shows "\<exists>text. scope = Some text \<and>
    authenticate_request w server req seen =
      (if \<exists>word \<in> set (scope_tokens [] text). lets_write w collection action word
       then bind_subject server req did METALBEAR_ACCESS_FULL else (WF_ERR_PERMISSION, req), seen1)"
proof -
  obtain tx where sc: "scope = Some tx" "occurs_in tx ''atproto''"
    using authenticate_oauth_OK [OF assms(6)] verify_request_atproto unfolding oauth_evidence_def by metis
  have tx: "tx \<noteq> ''''" using sc(2) by auto
  have act: "action \<in> {MB_REPO_ACTION_CREATE, MB_REPO_ACTION_UPDATE, MB_REPO_ACTION_DELETE}" using assms(1) by auto
  note route = granular_write [OF assms(1,2)]
  have "mb_scope_set_is_full_access perms \<or> mb_scope_set_allows_repo perms collection action \<longleftrightarrow>
      mb_scope_set_allows_repo perms collection action" for perms
    by (auto simp: mb_scope_set_allows_repo_def)
  then have "oauth_scope_admits w server req scope \<longleftrightarrow>
      (\<exists>word \<in> set (scope_tokens [] tx). lets_write w collection action word)"
    using assms(5) tx by (simp add: oauth_scope_admits_def sc(1) route(1) Let_def scope_allows_repo [OF act tx])
  then show ?thesis
    using sc(1) authenticate_request_oauth [OF assms(3) route(2,3) assms(4,6)] route(4) by auto
qed

section \<open>Batches\<close>

text \<open>A batch escapes the scope. Take a grant short of full access with a permission of any kind on a
  collection but none to delete in it, and a request naming that collection. Under \<open>deleteRecord\<close> it is
  refused; under \<open>applyWrites\<close> it is let through as a read of the collection, whatever its batch writes
  and wherever, deletions included.\<close>

theorem apply_writes_outside_scope:
  assumes "\<And>nsid. nsid \<in> {''com.atproto.repo.deleteRecord'', ''com.atproto.repo.applyWrites''} \<Longrightarrow>
      authenticate_oauth w server (req\<lparr>rq_nsid := Some nsid\<rparr>) seen = (Inr (did, Some text), seen1)"
    and "is_dpop_request (ar_auth req) (ar_dpop req)" and "named_is_hosted w server req"
    and "perms = permissions (mb_scope_set_parse (wd_nsid_ok w) (wd_did_ok w) text)" and "wd_scope_alloc w"
    and "Repo_Scope collection actions \<in> set perms" and "param_string req ''collection'' = Some collection"
    and "\<not> mb_scope_set_allows_repo perms collection MB_REPO_ACTION_DELETE"
    and "sv_accounts server did \<noteq> None" and "gr_active (sv_guards server) did"
    and "\<not> account_is_taken_down (sv_guards server) (Some did)"
  shows "fst (fst (authenticate_request w server (req\<lparr>rq_nsid := Some ''com.atproto.repo.deleteRecord''\<rparr>) seen)) =
      WF_ERR_PERMISSION \<and>
    (let batch = req\<lparr>rq_nsid := Some ''com.atproto.repo.applyWrites''\<rparr>
     in fst (authenticate_request w server batch seen) =
       (WF_OK, batch\<lparr>rq_subject := Some did, ar_principal := WF_XRPC_PRINCIPAL_USER\<rparr>))"
proof -
  let ?del = "req\<lparr>rq_nsid := Some ''com.atproto.repo.deleteRecord''\<rparr>"
  let ?batch = "req\<lparr>rq_nsid := Some ''com.atproto.repo.applyWrites''\<rparr>"
  have sc: "text \<noteq> ''''" using assms(4,6) by (auto simp: mb_scope_set_parse_def)
  have partial: "\<not> mb_scope_set_is_full_access perms" using assms(8) by (auto simp: mb_scope_set_allows_repo_def split: if_split_asm)
  have reads: "mb_scope_set_allows_read perms collection"
    using assms(6) by (force simp: mb_scope_set_allows_read_def list_ex_iff)
  have "\<not> oauth_scope_admits w server ?del (Some text)"
    using partial assms(5,7,8) by (simp add: oauth_scope_admits_def sc assms(4) [symmetric] granular_repo request_fields)
  then have del: "fst (fst (authenticate_request w server ?del seen)) = WF_ERR_PERMISSION"
    using authenticate_request_oauth [of ?del w server seen, OF _ _ _ _ assms(1)] assms(2,3) repo_routes(2)
    by (simp add: request_fields)
  have "oauth_scope_admits w server ?batch (Some text)"
    using assms(5,7) reads by (simp add: oauth_scope_admits_def sc assms(4) [symmetric] granular_repo request_fields)
  then have "fst (authenticate_request w server ?batch seen) = bind_subject server ?batch did METALBEAR_ACCESS_FULL"
    using authenticate_request_oauth [of ?batch w server seen, OF _ _ _ _ assms(1)] assms(2,3) repo_routes(1)
    by (simp add: request_fields)
  also have "\<dots> = (WF_OK, ?batch\<lparr>rq_subject := Some did, ar_principal := WF_XRPC_PRINCIPAL_USER\<rparr>)"
    using assms(9-11) by (simp only: bind_subject_OK) simp
  finally show ?thesis using del by (simp add: Let_def)
qed

section \<open>Administrators, refreshes and the account taken down\<close>

lemma admin_needs_password:
  "is_admin_route (nsid_of req) \<Longrightarrow> authenticate_request w server req seen = ((WF_OK, req'), seen') \<Longrightarrow>
   req' = req \<and> (\<exists>password header. sv_admin_password server = Some password \<and> password \<noteq> '''' \<and>
     ar_auth req = Some header \<and> strncmp_eq header ''Basic '' 6 \<and>
     trim_end line_end (drop 6 header) = trim_end line_end (wd_encode w (''admin:'' @ password)))"
  by (auto simp: authenticate_request_def admin_authenticated_def Let_def split: if_split_asm option.split_asm)

text \<open>The comment leaves the refresh pair to its handlers; an account taken down never reaches them.\<close>

lemma refresh_refused_when_taken_down:
  assumes "refresh_route (nsid_of req)" and "account_is_taken_down (sv_guards server) (Some did)"
    and "jwt_subject w token = Some did"
  shows "fst (account_access w server req token) = WF_ERR_PERMISSION"
  using assms
  by (auto simp: account_access_def bind_subject_def refresh_route_def takendown_route_allowed_def split: option.split)

text \<open>
  The narrow session is narrow only while the takedown lasts: once it is lifted the session reaches every
  route but those that ask for full access, writes included.
\<close>

lemma narrow_session_widens:
  assumes "bearer_token (ar_auth req) = Some token" and "jwt_subject w token = Some did"
    and "sv_accounts server did = Some store" and "gr_active (sv_guards server) did"
    and "metalbear_auth_verify_access_scope (wd_lib w) (wd_now w) store token = Inr METALBEAR_ACCESS_TAKENDOWN"
    and "\<not> account_is_taken_down (sv_guards server) (Some did)"
    and "rq_nsid req = Some ''com.atproto.repo.createRecord''"
  shows "account_access w server req token =
    (WF_OK, req\<lparr>rq_subject := Some did, ar_principal := WF_XRPC_PRINCIPAL_USER\<rparr>)"
  using assms
  by (simp add: account_access_def bind_subject_def context_for_did_def nsid_of_def refresh_route_def full_access_route_def)

text \<open>A public route binds a request only to the account that proved it holds the narrow session.\<close>

lemma public_access_binds:
  assumes "public_access w server req = (WF_OK, req')"
  shows "req' = req \<or> (\<exists>did store token. req' = req\<lparr>rq_subject := Some did, ar_principal := WF_XRPC_PRINCIPAL_USER\<rparr> \<and>
     export_route (nsid_of req) \<and> param_string req ''did'' = Some did \<and> sv_accounts server did = Some store \<and>
     bearer_token (ar_auth req) = Some token \<and> account_is_taken_down (sv_guards server) (Some did) \<and>
     metalbear_auth_verify_access_scope (wd_lib w) (wd_now w) store token = Inr METALBEAR_ACCESS_TAKENDOWN)"
  using assms
  by (auto simp: public_access_def context_for_did_def split: if_split_asm option.split_asm prod.split_asm)

lemma refusals_counted:
  "metalbear_authenticate w server req seen m = ((status, req'), seen', m') \<Longrightarrow>
   m' = (if status = WF_OK then m else metalbear_metrics_inc m METALBEAR_METRIC_AUTH_REFUSED)"
  by (auto simp: metalbear_authenticate_def split: prod.split_asm)

section \<open>Concrete inputs\<close>

text \<open>An account with an OAuth token that may create posts.\<close>

definition gate_lib :: jwt_lib where
  "gate_lib = \<lparr>jl_print = (\<lambda>_. None), jl_parse = (\<lambda>_. None), jl_hmac = (\<lambda>_ _. None)\<rparr>"

definition gate_scope :: string where
  "gate_scope = ''repo:app.bsky.feed.post?action=create rpc:com.atproto.moderation.createReport?aud=*''"

definition gate_world :: "string \<Rightarrow> unit auth_world" where
  "gate_world scope = \<lparr>wd_lib = gate_lib, wd_now = 0, wd_b64 = (\<lambda>_. None),
     wd_oauth = (\<lambda>_ _ _ _ _ c. (Inr \<lparr>vt_sub = Some ''did:a'', vt_iss = Some ''i'', vt_aud = Some ''i'',
       vt_scope = Some scope, vt_dpop_bound = True\<rparr>, c)),
     wd_nsid_ok = (\<lambda>_. True), wd_did_ok = (\<lambda>_. True), wd_scope_alloc = True, wd_service_key = (\<lambda>_ _. None),
     wd_service_claims = (\<lambda>_ _. None), wd_encode = (\<lambda>s. s), wd_registry = (\<lambda>_. demo_rio)\<rparr>"

definition gate_store :: auth_store where
  "gate_store = \<lparr>au_key = [1], au_service_did = ''s'', au_account_did = ''did:a'', au_meta_key = None,
     au_refresh_token = [], au_totp_secret = None, au_totp_backup = []\<rparr>"

definition gate_server :: auth_server where
  "gate_server = \<lparr>sv_admin_password = None, sv_service_did = Some ''s'', sv_mod_service_did = None,
     sv_public_url = Some ''u'', sv_appview_did = None,
     sv_oauth = Some \<lparr>ot_meta_key = None, ot_par = [], ot_code = [], ot_refresh = [], ot_device = [], ot_passkey = [],
       ot_challenge = [], os_issuer = ''i'', os_key = [], os_trusted = []\<rparr>,
     sv_registry = empty_registry,
     sv_guards = \<lparr>gr_did_takedown = (\<lambda>_. None), gr_uri_takedown = (\<lambda>_. None), gr_active = (\<lambda>_. True)\<rparr>,
     sv_accounts = (\<lambda>did. if did = ''did:a'' then Some gate_store else None)\<rparr>"

definition gate_request :: auth_request where
  "gate_request = \<lparr>rq_nsid = Some ''com.atproto.repo.createRecord'',
     rq_params = Some (CObject [(''collection'', CString ''app.bsky.feed.post'')]), rq_subject = None,
     ar_method = Some ''POST'', ar_auth = Some ''DPoP t'', ar_dpop = Some ''p'', ar_content_type = None,
     ar_proxy = None, ar_principal = WF_XRPC_PRINCIPAL_USER\<rparr>"

lemma gate_oauth:
  assumes "length nsid < 1000" and "occurs_in scope ''atproto''"
  shows "authenticate_oauth (gate_world scope) gate_server (gate_request\<lparr>rq_nsid := Some nsid\<rparr>) () =
    (Inr (''did:a'', Some scope), ())"
  using assms
  by (simp add: authenticate_oauth_def gate_world_def gate_server_def gate_request_def nsid_of_def text_or_def
      metalbear_oauth_verify_request_def given_def)

lemma gate_hosted: "sv_accounts gate_server ''did:a'' \<noteq> None" "gr_active (sv_guards gate_server) ''did:a''"
  "\<not> account_is_taken_down (sv_guards gate_server) (Some ''did:a'')" "named_is_hosted w gate_server gate_request"
  "is_dpop_request (ar_auth gate_request) (ar_dpop gate_request)"
  by (simp_all add: gate_server_def account_is_taken_down_def account_takedown_ref_def named_is_hosted_def
      named_target_def param_string_def gate_request_def cj_string_def is_dpop_request_def strncasecmp_eq_def
      strncmp_eq_def ascii_lower_def)

lemma gate_scope_occurs: "occurs_in gate_scope ''atproto''" by (simp add: gate_scope_def)

lemma gate_perms: "permissions (mb_scope_set_parse (\<lambda>_. True) (\<lambda>_. True) gate_scope) =
    [Repo_Scope ''app.bsky.feed.post'' MB_REPO_ACTION_CREATE,
     Rpc_Scope [''com.atproto.moderation.createReport''] False ''*'']"
  by code_simp

theorem apply_writes_outside_scope_witness:
  "fst (fst (authenticate_request (gate_world gate_scope) gate_server
      (gate_request\<lparr>rq_nsid := Some ''com.atproto.repo.deleteRecord''\<rparr>) ())) = WF_ERR_PERMISSION \<and>
   fst (fst (authenticate_request (gate_world gate_scope) gate_server
      (gate_request\<lparr>rq_nsid := Some ''com.atproto.repo.applyWrites''\<rparr>) ())) = WF_OK"
proof -
  have world: "wd_nsid_ok (gate_world gate_scope) = (\<lambda>_. True)" "wd_did_ok (gate_world gate_scope) = (\<lambda>_. True)"
    "wd_scope_alloc (gate_world gate_scope)" by (simp_all add: gate_world_def)
  have oauth: "authenticate_oauth (gate_world gate_scope) gate_server (gate_request\<lparr>rq_nsid := Some nsid\<rparr>) () =
      (Inr (''did:a'', Some gate_scope), ())"
    if "nsid \<in> {''com.atproto.repo.deleteRecord'', ''com.atproto.repo.applyWrites''}" for nsid
    by (rule gate_oauth [OF _ gate_scope_occurs]) (use that in auto)
  have names: "param_string gate_request ''collection'' = Some ''app.bsky.feed.post''"
    by (simp add: param_string_def gate_request_def cj_string_def)
  have cannot: "\<not> mb_scope_set_allows_repo
      [Repo_Scope ''app.bsky.feed.post'' MB_REPO_ACTION_CREATE,
       Rpc_Scope [''com.atproto.moderation.createReport''] False ''*''] ''app.bsky.feed.post'' MB_REPO_ACTION_DELETE"
    by code_simp
  have perms: "[Repo_Scope ''app.bsky.feed.post'' MB_REPO_ACTION_CREATE,
       Rpc_Scope [''com.atproto.moderation.createReport''] False ''*''] =
      scope_perms (wd_nsid_ok (gate_world gate_scope)) (wd_did_ok (gate_world gate_scope)) gate_scope"
    by (simp only: world gate_perms)
  from apply_writes_outside_scope [OF oauth gate_hosted(5,4) perms world(3) _ names cannot gate_hosted(1-3)]
  show ?thesis by (simp add: Let_def)
qed

theorem record_writes_within_scope_witness:
  "authenticate_request (gate_world gate_scope) gate_server gate_request () =
     ((WF_OK, gate_request\<lparr>rq_subject := Some ''did:a''\<rparr>), ()) \<and>
   authenticate_request (gate_world gate_scope) gate_server
     (gate_request\<lparr>rq_nsid := Some ''com.atproto.repo.putRecord''\<rparr>) () =
     ((WF_ERR_PERMISSION, gate_request\<lparr>rq_nsid := Some ''com.atproto.repo.putRecord''\<rparr>), ())"
proof -
  let ?w = "gate_world gate_scope" and ?create = "gate_request\<lparr>rq_nsid := Some ''com.atproto.repo.createRecord''\<rparr>"
  let ?put = "gate_request\<lparr>rq_nsid := Some ''com.atproto.repo.putRecord''\<rparr>"
  have names: "param_string ?create ''collection'' = Some ''app.bsky.feed.post''"
    "param_string ?put ''collection'' = Some ''app.bsky.feed.post''"
    by (simp_all add: param_string_def gate_request_def cj_string_def)
  have dpop: "is_dpop_request (ar_auth ?create) (ar_dpop ?create)" "is_dpop_request (ar_auth ?put) (ar_dpop ?put)"
    using gate_hosted(5) by simp_all
  have hosted: "named_is_hosted ?w gate_server ?create" "named_is_hosted ?w gate_server ?put"
    using gate_hosted(4) by (simp_all only: request_fields)
  have alloc: "wd_scope_alloc ?w" by (simp add: gate_world_def)
  have words: "\<exists>word \<in> set (scope_tokens [] gate_scope). lets_write ?w ''app.bsky.feed.post'' MB_REPO_ACTION_CREATE word"
    "\<not> (\<exists>word \<in> set (scope_tokens [] gate_scope). lets_write ?w ''app.bsky.feed.post'' MB_REPO_ACTION_UPDATE word)"
    by code_simp+
  have bind: "bind_subject gate_server ?create ''did:a'' METALBEAR_ACCESS_FULL =
      (WF_OK, ?create\<lparr>rq_subject := Some ''did:a'', ar_principal := WF_XRPC_PRINCIPAL_USER\<rparr>)"
    using gate_hosted(1-3) by (simp only: bind_subject_OK) simp
  have o: "authenticate_oauth ?w gate_server ?create () = (Inr (''did:a'', Some gate_scope), ())"
    "authenticate_oauth ?w gate_server ?put () = (Inr (''did:a'', Some gate_scope), ())"
    by (rule gate_oauth [OF _ gate_scope_occurs], simp)+
  have "authenticate_request ?w gate_server ?create () = (bind_subject gate_server ?create ''did:a'' METALBEAR_ACCESS_FULL, ())"
    using record_writes_within_scope [OF _ names(1) dpop(1) hosted(1) alloc o(1), of MB_REPO_ACTION_CREATE] words(1)
    by (simp add: request_fields)
  moreover have "authenticate_request ?w gate_server ?put () = ((WF_ERR_PERMISSION, ?put), ())"
    using record_writes_within_scope [OF _ names(2) dpop(2) hosted(2) alloc o(2), of MB_REPO_ACTION_UPDATE] words(2)
    by (simp add: request_fields)
  moreover have "?create = gate_request" by (simp add: gate_request_def)
  ultimately show ?thesis unfolding bind by (simp add: gate_request_def)
qed

theorem atproto_scope_is_everything_witness:
  "authenticate_request (gate_world ''atproto repo:app.bsky.feed.post?action=create'') gate_server gate_request () =
   ((WF_OK, gate_request\<lparr>rq_subject := Some ''did:a''\<rparr>), ())"
proof -
  let ?s = "''atproto repo:app.bsky.feed.post?action=create''"
  have "gate_request = gate_request\<lparr>rq_nsid := Some ''com.atproto.repo.createRecord''\<rparr>" by (simp add: gate_request_def)
  then have o: "authenticate_oauth (gate_world ?s) gate_server gate_request () = (Inr (''did:a'', Some ?s), ())"
    using gate_oauth [of "''com.atproto.repo.createRecord''" ?s] by simp
  have n: "nsid_of gate_request = ''com.atproto.repo.createRecord''" by (simp add: nsid_of_def gate_request_def)
  have route: "\<not> is_admin_route (nsid_of gate_request)" "\<not> is_public_route (nsid_of gate_request)"
    "\<not> oauth_forbidden_route (nsid_of gate_request)"
    unfolding n by (simp_all add: is_admin_route_def is_public_route_def oauth_forbidden_route_def)
  have "bind_subject gate_server gate_request ''did:a'' METALBEAR_ACCESS_FULL =
      (WF_OK, gate_request\<lparr>rq_subject := Some ''did:a'', ar_principal := WF_XRPC_PRINCIPAL_USER\<rparr>)"
    using gate_hosted(1-3) by (simp only: bind_subject_OK) simp
  then show ?thesis
    using atproto_scope_is_everything [OF gate_hosted(5) route(1,2) gate_hosted(4) o] route(3)
    by (simp add: gate_request_def)
qed

theorem grant_rests_on_evidence_witness:
  "\<exists>did granted. oauth_evidence (gate_world ''atproto'') gate_server gate_request () did granted \<and>
     oauth_scope_admits (gate_world ''atproto'') gate_server gate_request granted \<and>
     sv_accounts gate_server did \<noteq> None \<and> gr_active (sv_guards gate_server) did"
proof -
  have "gate_request = gate_request\<lparr>rq_nsid := Some ''com.atproto.repo.createRecord''\<rparr>" by (simp add: gate_request_def)
  then have o: "authenticate_oauth (gate_world ''atproto'') gate_server gate_request () = (Inr (''did:a'', Some ''atproto''), ())"
    using gate_oauth [of "''com.atproto.repo.createRecord''" "''atproto''"] by simp
  have n: "nsid_of gate_request = ''com.atproto.repo.createRecord''" by (simp add: nsid_of_def gate_request_def)
  have route: "\<not> is_admin_route (nsid_of gate_request)" "\<not> is_public_route (nsid_of gate_request)"
    "\<not> refresh_route (nsid_of gate_request)" "\<not> oauth_forbidden_route (nsid_of gate_request)"
    unfolding n by (simp_all add: is_admin_route_def is_public_route_def refresh_route_def oauth_forbidden_route_def)
  have "oauth_scope_admits (gate_world ''atproto'') gate_server gate_request (Some ''atproto'')"
    using atproto_is_full [of "''atproto''" "\<lambda>_. True" "\<lambda>_. True"]
    by (simp add: oauth_scope_admits_def gate_world_def)
  then have "fst (authenticate_request (gate_world ''atproto'') gate_server gate_request ()) =
      (WF_OK, gate_request\<lparr>rq_subject := Some ''did:a'', ar_principal := WF_XRPC_PRINCIPAL_USER\<rparr>)"
    using authenticate_request_oauth [OF gate_hosted(5) route(1,2) gate_hosted(4) o] gate_hosted(1-3) route(4)
    by (simp add: bind_subject_OK)
  then have a: "authenticate_request (gate_world ''atproto'') gate_server gate_request () =
      ((WF_OK, gate_request\<lparr>rq_subject := Some ''did:a'', ar_principal := WF_XRPC_PRINCIPAL_USER\<rparr>), ())"
    by (simp add: prod_eq_iff)
  have ok: "fst (wd_oauth (gate_world ''atproto'') x d m h k c) \<noteq> Inl WF_OK" for x d m h k c
    by (simp add: gate_world_def)
  have "gr_active (sv_guards gate_server) did" for did by (simp add: gate_server_def)
  moreover have "bearer_token (ar_auth gate_request) = None"
    by (simp add: gate_request_def bearer_token_def strncmp_eq_def)
  ultimately show ?thesis
    using grant_rests_on_evidence [OF a ok route(1-3)] by (auto simp: session_evidence_def)
qed


end
