(* ===== verification/Session_Routes.thy ===== *)
theory Session_Routes
  imports Server_Auth Account_Store Totp Sequencer
begin

text \<open>
  The handlers that open, renew and end sessions, \<open>src/session/session_routes.c\<close>, with the second factor
  of \<open>src/twofactor/totp_routes.c\<close> and the sign-in of \<open>src/oauth/oauth_credentials.c\<close>. A host is the server
  with the accounts it has open, the limiters of the sign-in and the counters. A handler answers with a
  response, as in the guards, and what its body carries; building the JSON is left out, and so is the
  logging. The password hash, the HMACs, AES-GCM, the random bytes, the clocks and the outcomes of the
  statements are the argument \<open>io\<close>.
\<close>

section \<open>The host\<close>

record account_ctx =
  cx_handle :: string
  cx_auth :: auth_store
  cx_account :: account_store

record 'l session_host =
  sh_server :: auth_server
  sh_accounts :: "string \<Rightarrow> account_ctx option"
  sh_totp_key :: "byte list option"
  sh_day :: "'l option"
  sh_five :: "'l option"
  sh_metrics :: metrics

record 'l session_io =
  si_consume :: "'l consume"
  si_now32 :: "32 word"
  si_scrypt :: scrypt
  si_account :: account_io
  si_lib :: jwt_lib
  si_clock :: clock
  si_random :: "nat \<Rightarrow> byte list option"
  si_sql :: "nat \<Rightarrow> bool"
  si_time :: int
  si_hmac_sha1 :: hmac
  si_hmac_sha256 :: hmac
  si_gcm :: gcm
  si_attempts :: "rotate_attempt list"
  si_activate :: activate_env

text \<open>What the callback sees of the host.\<close>

definition host_server :: "'l session_host \<Rightarrow> auth_server" where
  "host_server h = (sh_server h)\<lparr>sv_accounts := \<lambda>d. map_option cx_auth (sh_accounts h d)\<rparr>"

definition host_context :: "'l session_host \<Rightarrow> (string \<times> auth_store) option \<Rightarrow> (string \<times> account_ctx) option" where
  "host_context h hit = (case hit of None \<Rightarrow> None | Some (did, _) \<Rightarrow> map_option (Pair did) (sh_accounts h did))"

definition request_context :: "'c auth_world \<Rightarrow> 'l session_host \<Rightarrow> auth_request \<Rightarrow> (string \<times> account_ctx) option" where
  "request_context w h req = host_context h (resolve_request_context w (host_server h) req)"

definition identifier_context :: "'c auth_world \<Rightarrow> 'l session_host \<Rightarrow> string \<Rightarrow> (string \<times> account_ctx) option" where
  "identifier_context w h identifier = host_context h (context_for_identifier w (host_server h) identifier)"

definition set_ctx :: "string \<Rightarrow> account_ctx \<Rightarrow> 'l session_host \<Rightarrow> 'l session_host" where
  "set_ctx did ctx h = h\<lparr>sh_accounts := (sh_accounts h)(did := Some ctx)\<rparr>"

definition METALBEAR_METRIC_SESSIONS_CREATED :: int where "METALBEAR_METRIC_SESSIONS_CREATED = 5"
definition METALBEAR_METRIC_LOGIN_FAILURES :: int where "METALBEAR_METRIC_LOGIN_FAILURES = 6"

definition counting :: "int \<Rightarrow> 'l session_host \<Rightarrow> 'l session_host" where
  "counting metric h = h\<lparr>sh_metrics := metalbear_metrics_inc (sh_metrics h) metric\<rparr>"

section \<open>The second factor\<close>

definition parse_totp_code :: "string \<Rightarrow> 32 word option" where
  "parse_totp_code token =
     (if length token = 6 \<and> list_all c_isdigit token then Some (word_of_int (digits_value token)) else None)"

text \<open>A code is good once: the step it matched is recorded, and the answer is whether it could be.\<close>

definition check_totp ::
  "'l session_io \<Rightarrow> byte list \<Rightarrow> totp_row \<Rightarrow> 32 word \<Rightarrow> auth_store \<Rightarrow> (wf_status + bool) \<times> auth_store" where
  "check_totp io key row code store =
     (case metalbear_twofactor_open (si_gcm io) key (tp_secret row) of
        Inl st \<Rightarrow> (Inl st, store)
      | Inr secret \<Rightarrow>
          (case metalbear_totp_verify (si_hmac_sha1 io) secret code (si_time io) (tp_last_step row) of
             None \<Rightarrow> (Inr False, store)
           | Some step \<Rightarrow> metalbear_auth_totp_use_step (si_sql io 2) step store))"

definition check_backup ::
  "'l session_io \<Rightarrow> byte list \<Rightarrow> string \<Rightarrow> auth_store \<Rightarrow> (wf_status + bool) \<times> auth_store" where
  "check_backup io key token store =
     (case metalbear_backup_code_hash (si_hmac_sha256 io) key token of
        Inl _ \<Rightarrow> (Inr False, store)
      | Inr hash \<Rightarrow> metalbear_auth_totp_consume_backup (si_sql io 2) hash store)"

text \<open>A state that cannot be read asks for the factor.\<close>

definition metalbear_totp_login_required :: "'l session_io \<Rightarrow> auth_store \<Rightarrow> bool" where
  "metalbear_totp_login_required io store =
     (case metalbear_auth_totp_get (si_sql io 0) store of
        Inl _ \<Rightarrow> True
      | Inr row \<Rightarrow> (case row of Some r \<Rightarrow> tp_active r | None \<Rightarrow> False))"

definition metalbear_totp_check_login_token ::
  "'l session_io \<Rightarrow> byte list option \<Rightarrow> string \<Rightarrow> auth_store \<Rightarrow> (wf_status + bool) \<times> auth_store" where
  "metalbear_totp_check_login_token io key token store =
     (case key of
        None \<Rightarrow> (Inr False, store)
      | Some k \<Rightarrow>
          if token = '''' then (Inr False, store)
          else (case parse_totp_code token of
                  Some code \<Rightarrow>
                    (case metalbear_auth_totp_get (si_sql io 1) store of
                       Inl st \<Rightarrow> (Inl st, store)
                     | Inr (Some row) \<Rightarrow> if tp_active row then check_totp io k row code store else (Inr False, store)
                     | Inr None \<Rightarrow> (Inr False, store))
                | None \<Rightarrow> check_backup io k token store))"

section \<open>Opening a session\<close>

definition valid_login ::
  "'c auth_world \<Rightarrow> 'l session_io \<Rightarrow> 'l session_host \<Rightarrow> auth_request \<Rightarrow>
   (credential_kind \<times> string \<times> account_ctx \<times> string option) option" where
  "valid_login w io h req =
     (case (param_string req ''identifier'', param_string req ''password'') of
        (Some identifier, Some password) \<Rightarrow>
          (case identifier_context w h identifier of
             None \<Rightarrow> None
           | Some (did, ctx) \<Rightarrow>
               (case metalbear_account_verify_credential (si_scrypt io) (si_account io) password (cx_account ctx) (cx_account ctx) of
                  (kind, name) \<Rightarrow> if kind = METALBEAR_CREDENTIAL_INVALID then None else Some (kind, did, ctx, name)))
      | _ \<Rightarrow> None)"

definition login_key :: "auth_request \<Rightarrow> string option \<Rightarrow> string" where
  "login_key req client_ip =
     snprintf_cut 320 (text_or '''' (param_string req ''identifier'') @ ''-'' @ text_or ''unknown'' client_ip)"

text \<open>One attempt against the budgets of a day and of five minutes.\<close>

definition spend_login ::
  "'l session_io \<Rightarrow> auth_request \<Rightarrow> string option \<Rightarrow> 'l session_host \<Rightarrow> xrpc_response \<Rightarrow> bool \<times> xrpc_response \<times> 'l session_host" where
  "spend_login io req client_ip h resp =
     (case check_endpoint_rate_limit (si_consume io) (si_now32 io) (sh_day h) (sh_five h)
             (Some (login_key req client_ip)) 1 resp of
        (ok, resp1, day, five) \<Rightarrow> (ok, resp1, h\<lparr>sh_day := day, sh_five := five\<rparr>))"

record session_grant =
  sg_did :: string
  sg_scope :: int
  sg_tokens :: session_tokens

definition scope_of_credential :: "bool \<Rightarrow> credential_kind \<Rightarrow> int" where
  "scope_of_credential taken_down kind =
     (if taken_down then METALBEAR_ACCESS_TAKENDOWN
      else if kind = METALBEAR_CREDENTIAL_ACCOUNT then METALBEAR_ACCESS_FULL
      else if kind = METALBEAR_CREDENTIAL_APP_PASSWORD_PRIVILEGED then METALBEAR_ACCESS_APP_PASSWORD_PRIVILEGED
      else METALBEAR_ACCESS_APP_PASSWORD)"

definition allows_takendown :: "auth_request \<Rightarrow> bool" where
  "allows_takendown req =
     (Option.bind (rq_params req) (\<lambda>p. cj_item p ''allowTakendown'') = Some (CBool True))"

definition issue_session ::
  "'l session_io \<Rightarrow> string \<Rightarrow> account_ctx \<Rightarrow> int \<Rightarrow> string option \<Rightarrow> 'l session_host \<Rightarrow> xrpc_response \<Rightarrow>
   (session_grant option \<times> xrpc_response) \<times> 'l session_host" where
  "issue_session io did ctx scope name h resp =
     (case metalbear_auth_create_scoped_session (si_lib io) (si_clock io) (si_sql io 3) (si_random io 0) (si_sql io 4)
             scope name (cx_auth ctx) of
        (Inl _, store) \<Rightarrow>
          ((None, set_error 500 ''InternalError'' ''Could not create session'' resp), set_ctx did (ctx\<lparr>cx_auth := store\<rparr>) h)
      | (Inr tokens, store) \<Rightarrow>
          ((Some \<lparr>sg_did = did, sg_scope = scope, sg_tokens = tokens\<rparr>, resp),
           counting METALBEAR_METRIC_SESSIONS_CREATED (set_ctx did (ctx\<lparr>cx_auth := store\<rparr>) h)))"

text \<open>The second factor, for the password of the account alone; a new attempt is charged for it.\<close>

definition factor_checked ::
  "'l session_io \<Rightarrow> auth_request \<Rightarrow> string option \<Rightarrow> string \<Rightarrow> account_ctx \<Rightarrow> 'l session_host \<Rightarrow> xrpc_response \<Rightarrow>
   (account_ctx option \<times> xrpc_response) \<times> 'l session_host" where
  "factor_checked io req client_ip did ctx h resp =
     (case spend_login io req client_ip h resp of
        (ok, resp1, h1) \<Rightarrow>
          if \<not> ok then ((None, resp1), h1)
          else (case param_string req ''authFactorToken'' of
                  None \<Rightarrow> ((None, set_error 401 ''AuthFactorTokenRequired'' ''Two-factor authentication code required'' resp1), h1)
                | Some token \<Rightarrow>
                    if token = ''''
                    then ((None, set_error 401 ''AuthFactorTokenRequired'' ''Two-factor authentication code required'' resp1), h1)
                    else (case metalbear_totp_check_login_token io (sh_totp_key h1) token (cx_auth ctx) of
                            (checked, store) \<Rightarrow>
                              (let ctx1 = ctx\<lparr>cx_auth := store\<rparr>; h2 = set_ctx did ctx1 h1
                               in if checked = Inr True then ((Some ctx1, resp1), h2)
                                  else ((None, set_error 401 ''AuthFactorTokenRequired''
                                                 ''Invalid two-factor authentication code'' resp1),
                                        counting METALBEAR_METRIC_LOGIN_FAILURES h2)))))"

definition create_session ::
  "'c auth_world \<Rightarrow> 'l session_io \<Rightarrow> auth_request \<Rightarrow> string option \<Rightarrow> 'l session_host \<Rightarrow> xrpc_response \<Rightarrow>
   (session_grant option \<times> xrpc_response) \<times> 'l session_host" where
  "create_session w io req client_ip h0 resp0 =
     (case spend_login io req client_ip h0 resp0 of
        (ok, resp, h) \<Rightarrow>
          if \<not> ok then ((None, resp), h)
          else if (case param_string req ''password'' of Some p \<Rightarrow> length p > 512 | None \<Rightarrow> False)
          then ((None, set_error 401 ''AuthenticationRequired''
                         ''Password too long. Consider resetting your password.'' resp), h)
          else (case valid_login w io h req of
                  None \<Rightarrow>
                    ((None, set_error 401 ''AuthenticationRequired'' ''Invalid identifier or password'' resp),
                     counting METALBEAR_METRIC_LOGIN_FAILURES h)
                | Some (kind, did, ctx, name) \<Rightarrow>
                    (let taken_down = account_is_taken_down (sv_guards (sh_server h)) (Some did);
                         scope = scope_of_credential taken_down kind
                     in if taken_down \<and> \<not> allows_takendown req
                        then ((None, set_error 401 ''AccountTakedown'' ''Account has been taken down'' resp),
                              counting METALBEAR_METRIC_LOGIN_FAILURES h)
                        else if kind = METALBEAR_CREDENTIAL_ACCOUNT \<and> metalbear_totp_login_required io (cx_auth ctx)
                        then (case factor_checked io req client_ip did ctx h resp of
                                ((None, resp1), h1) \<Rightarrow> ((None, resp1), h1)
                              | ((Some ctx1, resp1), h1) \<Rightarrow> issue_session io did ctx1 scope name h1 resp1)
                        else issue_session io did ctx scope name h resp)))"

section \<open>Renewing and ending a session\<close>

definition invalid_token :: "string \<Rightarrow> xrpc_response \<Rightarrow> xrpc_response" where
  "invalid_token message resp = set_error 401 ''InvalidToken'' message resp"

text \<open>\<open>None\<close> is a rotation whose passes all ended in a retry, as in the store.\<close>

definition rotate_bearer ::
  "'l session_io \<Rightarrow> string option \<Rightarrow> auth_store \<Rightarrow> ((wf_status + session_tokens) \<times> auth_store) option" where
  "rotate_bearer io token store =
     (case token of
        None \<Rightarrow> Some (Inl WF_ERR_INVALID_ARG, store)
      | Some t \<Rightarrow> metalbear_auth_rotate_refresh (si_lib io) (si_attempts io) t store)"

definition revoke_bearer :: "'l session_io \<Rightarrow> string option \<Rightarrow> auth_store \<Rightarrow> wf_status \<times> auth_store" where
  "revoke_bearer io token store =
     (case token of
        None \<Rightarrow> (WF_ERR_INVALID_ARG, store)
      | Some t \<Rightarrow> metalbear_auth_revoke_refresh (si_lib io) (si_time io) (si_sql io 0) (si_sql io 1) t store)"

definition refresh_session ::
  "'c auth_world \<Rightarrow> 'l session_io \<Rightarrow> auth_request \<Rightarrow> 'l session_host \<Rightarrow> xrpc_response \<Rightarrow>
   ((session_tokens option \<times> xrpc_response) \<times> 'l session_host) option" where
  "refresh_session w io req h resp =
     (case request_context w h req of
        None \<Rightarrow> Some ((None, invalid_token ''Malformed token'' resp), h)
      | Some (did, ctx) \<Rightarrow>
          if account_is_taken_down (sv_guards (sh_server h)) (Some did)
          then Some ((None, set_error 401 ''AccountTakedown'' ''Account has been taken down'' resp), h)
          else (case rotate_bearer io (bearer_token (ar_auth req)) (cx_auth ctx) of
                  None \<Rightarrow> None
                | Some (Inr tokens, store) \<Rightarrow> Some ((Some tokens, resp), set_ctx did (ctx\<lparr>cx_auth := store\<rparr>) h)
                | Some (Inl status, store) \<Rightarrow>
                    (if status = WF_ERR_PERMISSION
                     then (case revoke_bearer io (bearer_token (ar_auth req)) store of
                             (revoked, store1) \<Rightarrow>
                               Some ((None, if revoked \<noteq> WF_OK then invalid_token ''Malformed token'' resp
                                            else set_error 401 ''ExpiredToken'' ''Refresh token is expired or revoked'' resp),
                                     set_ctx did (ctx\<lparr>cx_auth := store1\<rparr>) h))
                     else Some ((None, if status = WF_ERR_INVALID_ARG then invalid_token ''Malformed token'' resp
                                       else set_error 500 ''InternalError'' ''Could not rotate refresh token'' resp),
                                set_ctx did (ctx\<lparr>cx_auth := store\<rparr>) h))))"

definition delete_session ::
  "'c auth_world \<Rightarrow> 'l session_io \<Rightarrow> auth_request \<Rightarrow> 'l session_host \<Rightarrow> xrpc_response \<Rightarrow> xrpc_response \<times> 'l session_host" where
  "delete_session w io req h resp =
     (case request_context w h req of
        None \<Rightarrow> (invalid_token ''Refresh token is invalid or revoked'' resp, h)
      | Some (did, ctx) \<Rightarrow>
          (case revoke_bearer io (bearer_token (ar_auth req)) (cx_auth ctx) of
             (revoked, store) \<Rightarrow>
               (if revoked \<noteq> WF_OK then invalid_token ''Refresh token is invalid or revoked'' resp else resp,
                set_ctx did (ctx\<lparr>cx_auth := store\<rparr>) h)))"

section \<open>App passwords\<close>

definition given_name :: "auth_request \<Rightarrow> string option" where
  "given_name req = (case param_string req ''name'' of Some n \<Rightarrow> if n = '''' then None else Some n | None \<Rightarrow> None)"

definition create_app_password ::
  "'c auth_world \<Rightarrow> 'l session_io \<Rightarrow> auth_request \<Rightarrow> 'l session_host \<Rightarrow> xrpc_response \<Rightarrow>
   ((string \<times> string) option \<times> xrpc_response) \<times> 'l session_host" where
  "create_app_password w io req h resp =
     (let privileged = Option.bind (rq_params req) (\<lambda>p. cj_item p ''privileged'')
      in case given_name req of
           None \<Rightarrow> ((None, set_error 400 ''InvalidRequest'' ''A non-empty name is required'' resp), h)
         | Some name \<Rightarrow>
             if privileged \<notin> {None, Some (CBool True), Some (CBool False)}
             then ((None, set_error 400 ''InvalidRequest'' ''A non-empty name is required'' resp), h)
             else (case request_context w h req of
                     None \<Rightarrow> ((None, invalid_token ''Invalid access token'' resp), h)
                   | Some (did, ctx) \<Rightarrow>
                       (case metalbear_account_create_app_password (si_scrypt io) (si_account io) name
                               (privileged = Some (CBool True)) (cx_account ctx) of
                          (Inr made, account) \<Rightarrow> ((Some made, resp), set_ctx did (ctx\<lparr>cx_account := account\<rparr>) h)
                        | (Inl status, account) \<Rightarrow>
                            ((None, set_error (if status \<in> {WF_ERR_CONFLICT, WF_ERR_INVALID_ARG} then 400 else 500)
                                      (if status \<in> {WF_ERR_CONFLICT, WF_ERR_INVALID_ARG} then ''InvalidRequest'' else ''InternalError'')
                                      (if status = WF_ERR_CONFLICT then ''App password name already exists''
                                       else ''Could not create app password'') resp),
                             set_ctx did (ctx\<lparr>cx_account := account\<rparr>) h))))"

definition list_app_passwords ::
  "'c auth_world \<Rightarrow> 'l session_io \<Rightarrow> auth_request \<Rightarrow> 'l session_host \<Rightarrow> xrpc_response \<Rightarrow>
   (string \<times> string \<times> bool) list option \<times> xrpc_response" where
  "list_app_passwords w io req h resp =
     (case request_context w h req of
        None \<Rightarrow> (None, invalid_token ''Invalid access token'' resp)
      | Some (did, ctx) \<Rightarrow>
          (case metalbear_account_list_app_passwords (si_account io) (cx_account ctx) of
             Inl _ \<Rightarrow> (None, set_error 500 ''InternalError'' ''Could not list app passwords'' resp)
           | Inr rows \<Rightarrow> (Some rows, resp)))"

text \<open>The sessions are revoked only when the password was.\<close>

definition revoke_app_password ::
  "'c auth_world \<Rightarrow> 'l session_io \<Rightarrow> auth_request \<Rightarrow> 'l session_host \<Rightarrow> xrpc_response \<Rightarrow> xrpc_response \<times> 'l session_host" where
  "revoke_app_password w io req h resp =
     (case given_name req of
        None \<Rightarrow> (set_error 400 ''InvalidRequest'' ''A non-empty name is required'' resp, h)
      | Some name \<Rightarrow>
          (case request_context w h req of
             None \<Rightarrow> (invalid_token ''Invalid access token'' resp, h)
           | Some (did, ctx) \<Rightarrow>
               (case metalbear_account_revoke_app_password (si_account io) name (cx_account ctx) of
                  (status, account) \<Rightarrow>
                    (let ctx1 = ctx\<lparr>cx_account := account\<rparr>
                     in if status \<noteq> WF_OK
                        then (set_error 500 ''InternalError'' ''Could not revoke app password'' resp, set_ctx did ctx1 h)
                        else (case metalbear_auth_revoke_app_password_sessions (si_sql io 0) (si_sql io 1) (Some name) (cx_auth ctx) of
                                (ended, store) \<Rightarrow>
                                  (if ended \<noteq> WF_OK
                                   then set_error 500 ''InternalError'' ''Could not revoke app password'' resp else resp,
                                   set_ctx did (ctx1\<lparr>cx_auth := store\<rparr>) h))))))"

section \<open>Turning the second factor on and off\<close>

definition BACKUP_CODE_COUNT :: nat where "BACKUP_CODE_COUNT = 10"

definition totp_on :: "bool \<Rightarrow> auth_store \<Rightarrow> wf_status + bool" where
  "totp_on ok store =
     (case metalbear_auth_totp_get ok store of
        Inl st \<Rightarrow> Inl st | Inr row \<Rightarrow> Inr (case row of Some r \<Rightarrow> tp_active r | None \<Rightarrow> False))"

definition totp_enrol ::
  "'c auth_world \<Rightarrow> 'l session_io \<Rightarrow> auth_request \<Rightarrow> 'l session_host \<Rightarrow> xrpc_response \<Rightarrow>
   (string option \<times> xrpc_response) \<times> 'l session_host" where
  "totp_enrol w io req h resp =
     (case request_context w h req of
        None \<Rightarrow> ((None, invalid_token ''Invalid access token'' resp), h)
      | Some (did, ctx) \<Rightarrow>
          (case sh_totp_key h of
             None \<Rightarrow> ((None, set_error 500 ''InternalError'' ''Two-factor login is not configured on this server'' resp), h)
           | Some key \<Rightarrow>
               (case totp_on (si_sql io 0) (cx_auth ctx) of
                  Inl _ \<Rightarrow> ((None, set_error 500 ''InternalError'' ''Could not read two-factor state'' resp), h)
                | Inr True \<Rightarrow>
                    ((None, set_error 400 ''InvalidRequest'' ''Two-factor login is already on; disable it first'' resp), h)
                | Inr False \<Rightarrow>
                    (case metalbear_totp_secret_new (si_random io 0) of
                       Inl _ \<Rightarrow> ((None, set_error 500 ''InternalError'' ''Could not create a secret'' resp), h)
                     | Inr secret \<Rightarrow>
                         (case (case metalbear_twofactor_seal (si_gcm io) (si_random io 1) key secret of
                                  Inl st \<Rightarrow> (st, cx_auth ctx)
                                | Inr sealed \<Rightarrow> metalbear_auth_totp_put_pending (si_sql io 1) sealed (cx_auth ctx)) of
                            (st, store) \<Rightarrow>
                              (let h1 = set_ctx did (ctx\<lparr>cx_auth := store\<rparr>) h
                               in if st \<noteq> WF_OK
                                  then ((None, set_error 500 ''InternalError'' ''Could not store the secret'' resp), h1)
                                  else (case metalbear_base32_encode secret 64 of
                                          Inl _ \<Rightarrow> ((None, set_error 500 ''InternalError'' ''Could not encode the secret'' resp), h1)
                                        | Inr b32 \<Rightarrow> ((Some b32, resp), h1))))))))"

text \<open>Ten codes with their hashes, or nothing at the first that fails.\<close>

fun new_backups :: "hmac \<Rightarrow> byte list \<Rightarrow> (nat \<Rightarrow> byte list option) \<Rightarrow> nat list \<Rightarrow> (string list \<times> byte list list) option" where
  "new_backups hmac key random [] = Some ([], [])"
| "new_backups hmac key random (i # is) =
     (case metalbear_backup_code_new (random i) of
        Inl _ \<Rightarrow> None
      | Inr code \<Rightarrow>
          (case metalbear_backup_code_hash hmac key code of
             Inl _ \<Rightarrow> None
           | Inr hash \<Rightarrow> map_option (\<lambda>(cs, hs). (code # cs, hash # hs)) (new_backups hmac key random is)))"

definition totp_confirm ::
  "'c auth_world \<Rightarrow> 'l session_io \<Rightarrow> auth_request \<Rightarrow> 'l session_host \<Rightarrow> xrpc_response \<Rightarrow>
   (string list option \<times> xrpc_response) \<times> 'l session_host" where
  "totp_confirm w io req h resp =
     (case request_context w h req of
        None \<Rightarrow> ((None, invalid_token ''Invalid access token'' resp), h)
      | Some (did, ctx) \<Rightarrow>
          (case sh_totp_key h of
             None \<Rightarrow> ((None, set_error 500 ''InternalError'' ''Two-factor login is not configured on this server'' resp), h)
           | Some key \<Rightarrow>
               (case Option.bind (param_string req ''code'') parse_totp_code of
                  None \<Rightarrow> ((None, set_error 400 ''InvalidRequest'' ''code must be six digits'' resp), h)
                | Some code \<Rightarrow>
                    (case metalbear_auth_totp_get (si_sql io 0) (cx_auth ctx) of
                       Inl _ \<Rightarrow> ((None, set_error 500 ''InternalError'' ''Could not read two-factor state'' resp), h)
                     | Inr None \<Rightarrow>
                         ((None, set_error 400 ''InvalidRequest''
                                   ''No pending two-factor setup; start with uk.ewancroft.totp.enrol'' resp), h)
                     | Inr (Some row) \<Rightarrow>
                         if tp_active row
                         then ((None, set_error 400 ''InvalidRequest'' ''Two-factor login is already on'' resp), h)
                         else
                           (case metalbear_twofactor_open (si_gcm io) key (tp_secret row) of
                              Inl _ \<Rightarrow> ((None, set_error 500 ''InternalError'' ''Could not open the secret'' resp), h)
                            | Inr secret \<Rightarrow>
                                (case metalbear_totp_verify (si_hmac_sha1 io) secret code (si_time io) (- 1) of
                                   None \<Rightarrow> ((None, set_error 400 ''InvalidCode'' ''That code does not match'' resp), h)
                                 | Some step \<Rightarrow>
                                     (case new_backups (si_hmac_sha256 io) key (si_random io) [0..<BACKUP_CODE_COUNT] of
                                        None \<Rightarrow> ((None, set_error 500 ''InternalError'' ''Could not create backup codes'' resp), h)
                                      | Some (codes, hashes) \<Rightarrow>
                                          (case metalbear_auth_totp_activate (si_activate io) hashes step (cx_auth ctx) of
                                             (st, store) \<Rightarrow>
                                               (let h1 = set_ctx did (ctx\<lparr>cx_auth := store\<rparr>) h
                                                in if st = WF_ERR_CONFLICT
                                                   then ((None, set_error 400 ''InvalidRequest'' ''Two-factor login is already on'' resp), h1)
                                                   else if st \<noteq> WF_OK
                                                   then ((None, set_error 500 ''InternalError'' ''Could not turn two-factor login on'' resp), h1)
                                                   else ((Some codes, resp), h1))))))))))"

text \<open>The password of the account and a code, both, take it off.\<close>

definition totp_disable ::
  "'c auth_world \<Rightarrow> 'l session_io \<Rightarrow> auth_request \<Rightarrow> 'l session_host \<Rightarrow> xrpc_response \<Rightarrow> xrpc_response \<times> 'l session_host" where
  "totp_disable w io req h resp =
     (case request_context w h req of
        None \<Rightarrow> (invalid_token ''Invalid access token'' resp, h)
      | Some (did, ctx) \<Rightarrow>
          (case param_string req ''password'' of
             None \<Rightarrow> (set_error 400 ''InvalidRequest'' ''password is required'' resp, h)
           | Some password \<Rightarrow>
               if fst (metalbear_account_verify_credential (si_scrypt io) (si_account io) password (cx_account ctx) (cx_account ctx))
                  \<noteq> METALBEAR_CREDENTIAL_ACCOUNT
               then (set_error 401 ''AuthenticationRequired'' ''Invalid password'' resp, h)
               else
                 (case totp_on (si_sql io 3) (cx_auth ctx) of
                    Inl _ \<Rightarrow> (set_error 500 ''InternalError'' ''Could not read two-factor state'' resp, h)
                  | Inr False \<Rightarrow> (set_error 400 ''InvalidRequest'' ''Two-factor login is not on'' resp, h)
                  | Inr True \<Rightarrow>
                      if sh_totp_key h = None
                      then (set_error 500 ''InternalError'' ''Two-factor login is not configured on this server'' resp, h)
                      else
                        (case param_string req ''code'' of
                           None \<Rightarrow> (set_error 400 ''InvalidRequest'' ''code (a TOTP code or a backup code) is required'' resp, h)
                         | Some token \<Rightarrow>
                             if \<not> metalbear_totp_login_required io (cx_auth ctx)
                             then (set_error 401 ''AuthFactorTokenRequired'' ''That code does not match'' resp, h)
                             else
                               (case metalbear_totp_check_login_token io (sh_totp_key h) token (cx_auth ctx) of
                                  (checked, store) \<Rightarrow>
                                    if checked \<noteq> Inr True
                                    then (set_error 401 ''AuthFactorTokenRequired'' ''That code does not match'' resp,
                                          set_ctx did (ctx\<lparr>cx_auth := store\<rparr>) h)
                                    else (case metalbear_auth_totp_disable (si_sql io 4) (si_sql io 5) store of
                                            (st, store1) \<Rightarrow>
                                              (if st \<noteq> WF_OK
                                               then set_error 500 ''InternalError'' ''Could not turn two-factor login off'' resp
                                               else resp,
                                               set_ctx did (ctx\<lparr>cx_auth := store1\<rparr>) h)))))))"

section \<open>Signing in for OAuth\<close>

text \<open>The DID has to fit the caller's buffer.\<close>

definition resolve_oauth_subject :: "'c auth_world \<Rightarrow> 'l session_host \<Rightarrow> string \<Rightarrow> nat \<Rightarrow> string option" where
  "resolve_oauth_subject w h hint out_len =
     (if hint = '''' \<or> out_len = 0 then None
      else (case identifier_context w h hint of
              None \<Rightarrow> None
            | Some (did, _) \<Rightarrow> if did = '''' \<or> length did \<ge> out_len then None else Some did))"

definition verify_oauth_credential ::
  "'c auth_world \<Rightarrow> 'l session_io \<Rightarrow> 'l session_host \<Rightarrow> string \<Rightarrow> string \<Rightarrow> nat \<Rightarrow> string option" where
  "verify_oauth_credential w io h identifier password out_len =
     (if identifier = '''' \<or> out_len = 0 then None
      else (case identifier_context w h identifier of
              None \<Rightarrow> None
            | Some (did, ctx) \<Rightarrow>
                if did = '''' then None
                else if fst (metalbear_account_verify_credential (si_scrypt io) (si_account io) password (cx_account ctx) (cx_account ctx))
                        \<noteq> METALBEAR_CREDENTIAL_ACCOUNT then None
                else if length did \<ge> out_len then None else Some did))"

section \<open>Deactivating and activating\<close>

text \<open>The change of the account comes first; its announcement may fail after it.\<close>

definition deactivate_account ::
  "'c auth_world \<Rightarrow> 'l session_io \<Rightarrow> wf_sizes \<Rightarrow> publisher \<Rightarrow> append_env \<Rightarrow> auth_request \<Rightarrow> 'l session_host \<Rightarrow> sequencer \<Rightarrow>
   xrpc_response \<Rightarrow> xrpc_response \<times> 'l session_host \<times> sequencer" where
  "deactivate_account w io sz publish env req h q resp =
     (let delete_after = Option.bind (rq_params req) (\<lambda>p. cj_item p ''deleteAfter'')
      in if delete_after \<noteq> None \<and> param_string req ''deleteAfter'' = None
         then (set_error 400 ''InvalidRequest'' ''deleteAfter must be a datetime string'' resp, h, q)
         else (case request_context w h req of
                 None \<Rightarrow> (invalid_token ''Invalid access token'' resp, h, q)
               | Some (did, ctx) \<Rightarrow>
                   (case metalbear_account_deactivate (si_account io) (param_string req ''deleteAfter'') (cx_account ctx) of
                      (status, account) \<Rightarrow>
                        (let h1 = set_ctx did (ctx\<lparr>cx_account := account\<rparr>) h;
                             (status1, q1) = (if status = WF_OK
                               then metalbear_sequencer_account_status sz publish env (Some did) False (Some ''deactivated'') q
                               else (status, q))
                         in (if status1 \<noteq> WF_OK then set_error 500 ''InternalError'' ''Could not deactivate account'' resp else resp,
                             h1, q1)))))"

definition activate_account ::
  "'c auth_world \<Rightarrow> 'l session_io \<Rightarrow> wf_sizes \<Rightarrow> publisher \<Rightarrow> append_env \<Rightarrow> append_env \<Rightarrow> append_env \<Rightarrow> repo_view \<Rightarrow>
   auth_request \<Rightarrow> 'l session_host \<Rightarrow> sequencer \<Rightarrow> xrpc_response \<Rightarrow> xrpc_response \<times> 'l session_host \<times> sequencer" where
  "activate_account w io sz publish env1 env2 env3 repo req h q resp =
     (case request_context w h req of
        None \<Rightarrow> (invalid_token ''Invalid access token'' resp, h, q)
      | Some (did, ctx) \<Rightarrow>
          (case metalbear_account_activate (si_account io) (cx_account ctx) of
             (status, account) \<Rightarrow>
               (let h1 = set_ctx did (ctx\<lparr>cx_account := account\<rparr>) h;
                    (status1, q1) = (if status = WF_OK
                      then metalbear_sequencer_account_activation sz publish env1 env2 env3 (Some did) (Some (cx_handle ctx)) repo q
                      else (status, q))
                in (if status1 \<noteq> WF_OK then set_error 500 ''InternalError'' ''Could not activate account'' resp else resp,
                    h1, q1))))"

text \<open>An announcement that fails leaves the account inactive and the firehose silent.\<close>

lemma deactivated_unannounced:
  assumes "request_context w h req = Some (did, ctx)" and "rq_params req = None" and "ai_sql (si_account io) 0 = SQL_RUNS"
    and "metalbear_sequencer_account_status sz publish env (Some did) False (Some ''deactivated'') q = (WF_ERR_INTERNAL, q)"
    and "deactivate_account w io sz publish env req h q resp = (resp', h', q')"
  shows "\<exists>ctx'. sh_accounts h' did = Some ctx' \<and> \<not> st_active (as_state (cx_account ctx')) \<and> q' = q"
  using assms
  by (auto simp: deactivate_account_def metalbear_account_deactivate_def update_state_def param_string_def set_ctx_def Let_def)

section \<open>What a session was opened for\<close>

lemma spend_login_host:
  "spend_login io req ip h resp = (ok, resp', h') \<Longrightarrow> sh_accounts h' = sh_accounts h \<and> sh_server h' = sh_server h \<and>
     sh_totp_key h' = sh_totp_key h"
  by (auto simp: spend_login_def split: prod.split_asm)

lemma identifier_context_cong:
  "sh_accounts h' = sh_accounts h \<Longrightarrow> sh_server h' = sh_server h \<Longrightarrow>
   identifier_context w h' identifier = identifier_context w h identifier"
  by (simp add: identifier_context_def host_context_def host_server_def split: option.split)

lemma valid_login_SomeD:
  assumes "valid_login w io h req = Some (kind, did, ctx, name)"
  obtains ident password where "param_string req ''identifier'' = Some ident"
    "param_string req ''password'' = Some password" "identifier_context w h ident = Some (did, ctx)"
    "metalbear_account_verify_credential (si_scrypt io) (si_account io) password (cx_account ctx) (cx_account ctx) = (kind, name)"
    "kind \<noteq> METALBEAR_CREDENTIAL_INVALID"
  using assms by (auto simp: valid_login_def split: option.split_asm prod.split_asm if_split_asm)

text \<open>The second factor a sign-in spent: a code of a step not used before, now recorded, or a backup code, now gone.\<close>

definition factor_spent :: "'l session_io \<Rightarrow> byte list option \<Rightarrow> string \<Rightarrow> auth_store \<Rightarrow> auth_store \<Rightarrow> bool" where
  "factor_spent io key token store store' \<longleftrightarrow>
     (\<exists>k row. key = Some k \<and> au_totp_secret store = Some row \<and> tp_active row \<and>
        ((\<exists>code secret step. parse_totp_code token = Some code \<and>
            metalbear_twofactor_open (si_gcm io) k (tp_secret row) = Inr secret \<and>
            metalbear_totp_verify (si_hmac_sha1 io) secret code (si_time io) (tp_last_step row) = Some step \<and>
            tp_last_step row < step \<and> au_totp_secret store' = Some (row\<lparr>tp_last_step := step\<rparr>)) \<or>
         (\<exists>hash. parse_totp_code token = None \<and> metalbear_backup_code_hash (si_hmac_sha256 io) k token = Inr hash \<and>
            hash \<in> set (au_totp_backup store) \<and> hash \<notin> set (au_totp_backup store'))))"

lemma use_step_True:
  "metalbear_auth_totp_use_step ok step store = (Inr True, store') \<Longrightarrow>
   \<exists>row. au_totp_secret store = Some row \<and> tp_active row \<and> tp_last_step row < step \<and>
     au_totp_secret store' = Some (row\<lparr>tp_last_step := step\<rparr>)"
  by (auto simp: metalbear_auth_totp_use_step_def split: if_split_asm option.split_asm)

lemma consume_backup_True:
  assumes "metalbear_auth_totp_consume_backup ok hash store = (Inr True, store')"
  shows "hash \<in> set (au_totp_backup store) \<and> hash \<notin> set (au_totp_backup store')"
proof -
  have one: "length (filter (\<lambda>h. h = hash) (au_totp_backup store)) = 1"
    and s: "store' = store\<lparr>au_totp_backup := filter (\<lambda>h. h \<noteq> hash) (au_totp_backup store)\<rparr>"
    using assms by (auto simp: metalbear_auth_totp_consume_backup_def split: if_split_asm)
  have "filter (\<lambda>h. h = hash) (au_totp_backup store) \<noteq> []" using one by auto
  then show ?thesis using s by (auto simp: filter_empty_conv)
qed

lemma check_login_token_True:
  assumes "metalbear_totp_check_login_token io key token store = (Inr True, store')"
    and "au_totp_secret store = Some row" and "tp_active row"
  shows "factor_spent io key token store store'"
proof -
  obtain k where k: "key = Some k" "token \<noteq> ''''"
    using assms(1) by (cases key) (auto simp: metalbear_totp_check_login_token_def split: if_split_asm)
  show ?thesis
  proof (cases "parse_totp_code token")
    case None
    then obtain hash where hash: "metalbear_backup_code_hash (si_hmac_sha256 io) k token = Inr hash"
        "metalbear_auth_totp_consume_backup (si_sql io 2) hash store = (Inr True, store')"
      using assms(1) k by (auto simp: metalbear_totp_check_login_token_def check_backup_def split: sum.split_asm)
    show ?thesis
      unfolding factor_spent_def
      using k(1) None assms(2,3) hash(1) consume_backup_True [OF hash(2)] by blast
  next
    case (Some code)
    then have "check_totp io k row code store = (Inr True, store')"
      using assms k by (auto simp: metalbear_totp_check_login_token_def metalbear_auth_totp_get_def split: if_split_asm)
    then obtain secret step where s: "metalbear_twofactor_open (si_gcm io) k (tp_secret row) = Inr secret"
        "metalbear_totp_verify (si_hmac_sha1 io) secret code (si_time io) (tp_last_step row) = Some step"
        "metalbear_auth_totp_use_step (si_sql io 2) step store = (Inr True, store')"
      by (auto simp: check_totp_def split: sum.split_asm option.split_asm)
    then show ?thesis
      using use_step_True [OF s(3)] k(1) Some assms(2,3) unfolding factor_spent_def by auto
  qed
qed

lemma create_session_keeps_factor:
  "metalbear_auth_create_scoped_session lib clk p r q scope name store = (res, store') \<Longrightarrow>
   au_totp_secret store' = au_totp_secret store \<and> au_totp_backup store' = au_totp_backup store"
  by (auto simp: metalbear_auth_create_scoped_session_def prune_expired_refreshes_def persist_refresh_def Let_def
      split: if_split_asm sum.split_asm prod.split_asm)

lemma issue_session_SomeD:
  assumes "issue_session io did ctx scope name h resp = ((Some g, resp'), h')"
  shows "sg_did g = did \<and> sg_scope g = scope \<and>
    (\<exists>store. sh_accounts h' = (sh_accounts h)(did := Some (ctx\<lparr>cx_auth := store\<rparr>)) \<and>
       metalbear_auth_create_scoped_session (si_lib io) (si_clock io) (si_sql io 3) (si_random io 0) (si_sql io 4)
         scope name (cx_auth ctx) = (Inr (sg_tokens g), store) \<and>
       au_totp_secret store = au_totp_secret (cx_auth ctx) \<and> au_totp_backup store = au_totp_backup (cx_auth ctx))"
  using assms create_session_keeps_factor
  by (fastforce simp: issue_session_def counting_def set_ctx_def split: prod.split_asm sum.split_asm)

lemma factor_checked_SomeD:
  assumes "factor_checked io req ip did ctx h resp = ((Some ctx1, resp'), h')"
  shows "\<exists>token store. param_string req ''authFactorToken'' = Some token \<and>
    metalbear_totp_check_login_token io (sh_totp_key h) token (cx_auth ctx) = (Inr True, store) \<and>
    ctx1 = ctx\<lparr>cx_auth := store\<rparr> \<and> sh_accounts h' = (sh_accounts h)(did := Some ctx1)"
proof -
  obtain resp1 h1 where spend: "spend_login io req ip h resp = (True, resp1, h1)"
    using assms by (auto simp: factor_checked_def split: prod.split_asm if_split_asm)
  note host = spend_login_host [OF spend]
  obtain token where token: "param_string req ''authFactorToken'' = Some token" "token \<noteq> ''''"
    using assms unfolding factor_checked_def spend by (auto split: option.split_asm if_split_asm)
  obtain checked store where c: "metalbear_totp_check_login_token io (sh_totp_key h1) token (cx_auth ctx) = (checked, store)"
    by (cases "metalbear_totp_check_login_token io (sh_totp_key h1) token (cx_auth ctx)") auto
  show ?thesis
    using assms token host c unfolding factor_checked_def spend
    by (auto simp: set_ctx_def Let_def split: if_split_asm)
qed

text \<open>C7. A session is what its credential opens. Every session createSession grants is one of the account
  its identifier names, for a password of at most 512 characters that verifies as that account's, with
  the scope of the credential's kind, or the narrow scope when the account is taken down and the request
  asks for it; where the account's password was used and its second factor is on, a code not used before
  or a backup code was spent for it, which the store then no longer accepts; and no other account's
  state changes.\<close>

theorem session_matches_credential:
  assumes "create_session w io req ip h resp = ((Some g, resp'), h')"
  shows "\<exists>ident password did ctx ctx' kind name.
    param_string req ''identifier'' = Some ident \<and> param_string req ''password'' = Some password \<and> length password \<le> 512 \<and>
    identifier_context w h ident = Some (did, ctx) \<and>
    metalbear_account_verify_credential (si_scrypt io) (si_account io) password (cx_account ctx) (cx_account ctx) = (kind, name) \<and>
    kind \<noteq> METALBEAR_CREDENTIAL_INVALID \<and> sg_did g = did \<and>
    sg_scope g = scope_of_credential (account_is_taken_down (sv_guards (sh_server h)) (Some did)) kind \<and>
    (account_is_taken_down (sv_guards (sh_server h)) (Some did) \<longrightarrow> allows_takendown req) \<and>
    sh_accounts h' = (sh_accounts h)(did := Some ctx') \<and> cx_account ctx' = cx_account ctx \<and>
    (\<forall>row. kind = METALBEAR_CREDENTIAL_ACCOUNT \<longrightarrow> au_totp_secret (cx_auth ctx) = Some row \<longrightarrow> tp_active row \<longrightarrow>
       (\<exists>token. param_string req ''authFactorToken'' = Some token \<and>
          factor_spent io (sh_totp_key h) token (cx_auth ctx) (cx_auth ctx')))"
proof -
  obtain resp1 h1 where spend: "spend_login io req ip h resp = (True, resp1, h1)"
    using assms by (auto simp: create_session_def split: prod.split_asm if_split_asm)
  note host = spend_login_host [OF spend]
  have guards: "sv_guards (sh_server h1) = sv_guards (sh_server h)" using host by simp
  let ?down = "\<lambda>did. account_is_taken_down (sv_guards (sh_server h)) (Some did)"
  have short: "\<not> (case param_string req ''password'' of Some p \<Rightarrow> length p > 512 | None \<Rightarrow> False)"
    using assms unfolding create_session_def spend by (simp split: if_split_asm)
  obtain kind did ctx name where login: "valid_login w io h1 req = Some (kind, did, ctx, name)"
    using assms short unfolding create_session_def spend by (auto split: option.split_asm if_split_asm)
  obtain ident password where cred: "param_string req ''identifier'' = Some ident"
    "param_string req ''password'' = Some password" "identifier_context w h1 ident = Some (did, ctx)"
    "metalbear_account_verify_credential (si_scrypt io) (si_account io) password (cx_account ctx) (cx_account ctx) = (kind, name)"
    "kind \<noteq> METALBEAR_CREDENTIAL_INVALID"
    using valid_login_SomeD [OF login] by metis
  have ident: "identifier_context w h ident = Some (did, ctx)"
    using cred(3) host identifier_context_cong [of h1 h w ident] by simp
  have down: "?down did \<longrightarrow> allows_takendown req"
    using assms short login guards unfolding create_session_def spend by (auto simp: Let_def split: if_split_asm)
  define asks where "asks \<longleftrightarrow> kind = METALBEAR_CREDENTIAL_ACCOUNT \<and> metalbear_totp_login_required io (cx_auth ctx)"
  have rest: "(if asks
      then (case factor_checked io req ip did ctx h1 resp1 of
              ((None, r), h2) \<Rightarrow> ((None, r), h2)
            | ((Some ctx1, r), h2) \<Rightarrow> issue_session io did ctx1 (scope_of_credential (?down did) kind) name h2 r)
      else issue_session io did ctx (scope_of_credential (?down did) kind) name h1 resp1) = ((Some g, resp'), h')"
    using assms short login guards down unfolding create_session_def spend asks_def
    by (auto simp: Let_def split: if_split_asm)
  note found = cred(1,2) ident cred(4,5) down
  show ?thesis
  proof (cases asks)
    case False
    have "metalbear_totp_login_required io (cx_auth ctx)" if "au_totp_secret (cx_auth ctx) = Some row" "tp_active row" for row
      using that by (simp add: metalbear_totp_login_required_def metalbear_auth_totp_get_def)
    then have off: "\<not> (kind = METALBEAR_CREDENTIAL_ACCOUNT \<and> au_totp_secret (cx_auth ctx) = Some row \<and> tp_active row)" for row
      using False asks_def by blast
    from rest False have "issue_session io did ctx (scope_of_credential (?down did) kind) name h1 resp1 = ((Some g, resp'), h')"
      by simp
    from issue_session_SomeD [OF this] obtain store where
      "sg_did g = did" "sg_scope g = scope_of_credential (?down did) kind"
      "sh_accounts h' = (sh_accounts h)(did := Some (ctx\<lparr>cx_auth := store\<rparr>))" using host by auto
    then show ?thesis using found off short
      by (intro exI [of _ ident] exI [of _ password] exI [of _ did] exI [of _ ctx]
          exI [of _ "ctx\<lparr>cx_auth := store\<rparr>"] exI [of _ kind] exI [of _ name]) auto
  next
    case True
    then obtain ctx1 resp2 h2 where f: "factor_checked io req ip did ctx h1 resp1 = ((Some ctx1, resp2), h2)"
      and i: "issue_session io did ctx1 (scope_of_credential (?down did) kind) name h2 resp2 = ((Some g, resp'), h')"
      using rest by (auto split: prod.split_asm option.split_asm)
    obtain token store where t: "param_string req ''authFactorToken'' = Some token"
      "metalbear_totp_check_login_token io (sh_totp_key h) token (cx_auth ctx) = (Inr True, store)"
      "ctx1 = ctx\<lparr>cx_auth := store\<rparr>" "sh_accounts h2 = (sh_accounts h)(did := Some ctx1)"
      using factor_checked_SomeD [OF f] host by metis
    from issue_session_SomeD [OF i] obtain store' where
      g: "sg_did g = did" "sg_scope g = scope_of_credential (?down did) kind"
      "sh_accounts h' = (sh_accounts h)(did := Some (ctx\<lparr>cx_auth := store'\<rparr>))"
      "au_totp_secret store' = au_totp_secret store" "au_totp_backup store' = au_totp_backup store"
      using t(3,4) by auto
    have "factor_spent io (sh_totp_key h) token (cx_auth ctx) store'"
      if "au_totp_secret (cx_auth ctx) = Some row" "tp_active row" for row
      using check_login_token_True [OF t(2) that] g(4,5) unfolding factor_spent_def by auto
    then show ?thesis using found g(1-3) t(1) short
      by (intro exI [of _ ident] exI [of _ password] exI [of _ did] exI [of _ ctx]
          exI [of _ "ctx\<lparr>cx_auth := store'\<rparr>"] exI [of _ kind] exI [of _ name]) auto
  qed
qed

text \<open>The scope of a token is in its payload, whatever store reads it.\<close>

lemma created_scope:
  assumes "create_jwt lib now store TOKEN_ACCESS scope jti expires = Some token" and "json_codec lib"
    and "valid_access_scope scope" and "verify_jwt lib now' store' token TOKEN_ACCESS allow = Inr (j, e, scope')"
  shows "scope' = scope"
proof (rule create_jwt_SomeD [OF assms(1)])
  fix hd p sig
  assume "jl_print lib (jwt_header TOKEN_ACCESS) = Some hd"
    and p: "jl_print lib (jwt_payload store TOKEN_ACCESS scope jti now expires) = Some p"
    and sign: "sign_hs256 lib store (base64url_encode (bytes_of hd) @ ''.'' @ base64url_encode (bytes_of p)) = Inr sig"
    and token: "token = base64url_encode (bytes_of hd) @ ''.'' @ base64url_encode (bytes_of p) @ ''.'' @ base64url_encode sig"
  have len: "length token \<le> JWT_MAX_BYTES" using assms(4) by (auto simp: verify_jwt_def split: if_split_asm)
  have payload: "jl_parse lib (bytes_of p) = Some (jwt_payload store TOKEN_ACCESS scope jti now expires)"
    using p assms(2) by (simp add: json_codec_def)
  obtain header where "check_claims now' store' TOKEN_ACCESS allow header
      (jwt_payload store TOKEN_ACCESS scope jti now expires) = Some (j, e, scope')"
    using assms(4) verify_jwt_parts [of "base64url_encode (bytes_of hd)" "base64url_encode (bytes_of p)"
        "base64url_encode sig" lib now' store' TOKEN_ACCESS allow] len payload unfolding token
    by (auto split: sum.split_asm if_split_asm option.split_asm)
  then have "parse_access_scope (access_scope_name scope) = Some scope'"
    by (auto simp: check_claims_def jwt_payload_def json_string_def Let_def split: option.split_asm if_split_asm)
  then show ?thesis using parse_access_scope_name [OF assms(3)] by simp
qed

lemma session_token_created:
  assumes "metalbear_auth_create_scoped_session lib clk p r q scope name store = (Inr tokens, store')"
  shows "valid_access_scope scope \<and> (\<exists>st. create_jwt lib (clk 2) st TOKEN_ACCESS scope [] (clk 1 + ACCESS_LIFETIME_SECONDS) =
    Some (st_access_jwt tokens))"
  using assms
  by (auto simp: metalbear_auth_create_scoped_session_def issue_pair_def Let_def
      split: if_split_asm sum.split_asm prod.split_asm option.split_asm)

lemma create_session_issues:
  assumes "create_session w io req ip h resp = ((Some g, resp'), h')"
  shows "\<exists>kind did ctx ctx1 name h1 resp1. valid_login w io (snd (snd (spend_login io req ip h resp))) req = Some (kind, did, ctx, name) \<and>
    issue_session io did ctx1 (scope_of_credential (account_is_taken_down (sv_guards (sh_server h)) (Some did)) kind) name h1 resp1 =
      ((Some g, resp'), h')"
proof -
  obtain resp1 h1 where spend: "spend_login io req ip h resp = (True, resp1, h1)"
    using assms by (auto simp: create_session_def split: prod.split_asm if_split_asm)
  have "sh_server h1 = sh_server h" using spend_login_host [OF spend] by simp
  then show ?thesis
    using assms unfolding create_session_def spend
    by (auto simp: Let_def split: prod.split_asm if_split_asm option.split_asm)
qed

lemma bearer_not_dpop: "bearer_token auth = Some token \<Longrightarrow> \<not> is_dpop_request auth None"
proof -
  assume "bearer_token auth = Some token"
  then obtain header where h: "auth = Some header" "take 7 header = ''Bearer ''"
    by (auto simp: bearer_token_def strncmp_eq_def split: option.split_asm if_split_asm)
  have "take 5 header = ''Beare''" using arg_cong [OF h(2), of "take 5"] by (simp add: min_def)
  then have "take 5 (map ascii_lower header) = map ascii_lower ''Beare''" by (simp add: take_map)
  then show ?thesis by (simp add: is_dpop_request_def h(1) strncasecmp_eq_def strncmp_eq_def ascii_lower_def)
qed

text \<open>C8. An app password never gets full access. The access token of a session opened with one,
  privileged or not, sent as a bearer token without a DPoP proof, is refused by the callback on every
  route that asks for full access, whichever account it is presented for, whatever has become of the
  server since and for as long as the token lives; with one exception: an account taken down when it
  signed in holds the narrow scope instead, whatever password it came with, and may then use the three
  routes of migration that otherwise ask for full access. What is assumed of the JSON library is that
  it parses what it prints.\<close>

theorem app_password_confined:
  assumes "create_session w io req ip h resp = ((Some g, resp'), h')"
    and "param_string req ''identifier'' = Some ident" and "param_string req ''password'' = Some password"
    and "identifier_context w h ident = Some (did, ctx)"
    and "fst (metalbear_account_verify_credential (si_scrypt io) (si_account io) password (cx_account ctx) (cx_account ctx)) \<noteq>
      METALBEAR_CREDENTIAL_ACCOUNT"
    and "json_codec (si_lib io)" and "wd_lib w' = si_lib io"
    and "bearer_token (ar_auth use) = Some (st_access_jwt (sg_tokens g))" and "ar_dpop use = None"
    and "full_access_route (nsid_of use)"
  shows "fst (fst (authenticate_request w' server use seen)) \<noteq> WF_OK \<or>
    account_is_taken_down (sv_guards (sh_server h)) (Some did) \<and>
    nsid_of use \<in> {''com.atproto.server.deactivateAccount'', ''com.atproto.identity.requestPlcOperationSignature'',
      ''com.atproto.identity.signPlcOperation''}"
proof (cases "fst (fst (authenticate_request w' server use seen)) = WF_OK")
  case ok: True
  obtain kind did' ctx' c name h1 r where login: "valid_login w io (snd (snd (spend_login io req ip h resp))) req = Some (kind, did', ctx', name)"
    and issued: "issue_session io did' c (scope_of_credential (account_is_taken_down (sv_guards (sh_server h)) (Some did')) kind) name h1 r =
      ((Some g, resp'), h')"
    using create_session_issues [OF assms(1)] by blast
  obtain ok' resp1 h0 where spend: "spend_login io req ip h resp = (ok', resp1, h0)" by (cases "spend_login io req ip h resp") auto
  have "identifier_context w h0 ident = Some (did, ctx)"
    using assms(4) identifier_context_cong [of h0 h w ident] spend_login_host [OF spend] by simp
  with login have "kind \<noteq> METALBEAR_CREDENTIAL_ACCOUNT" "kind \<noteq> METALBEAR_CREDENTIAL_INVALID" "did' = did"
    using assms(2,3,5) spend by (auto elim!: valid_login_SomeD)
  with issued have scope: "sg_scope g \<noteq> METALBEAR_ACCESS_FULL"
    "sg_scope g = METALBEAR_ACCESS_TAKENDOWN \<Longrightarrow> account_is_taken_down (sv_guards (sh_server h)) (Some did)"
    using issue_session_SomeD [OF issued] by (auto simp: scope_of_credential_def split: if_splits)
  have routes: "\<not> is_admin_route (nsid_of use)" "\<not> is_public_route (nsid_of use)" "\<not> refresh_route (nsid_of use)"
    "nsid_of use \<noteq> ''app.bsky.actor.getPreferences''"
    using assms(10) by (auto simp: full_access_route_def is_admin_route_def is_public_route_def refresh_route_def)
  obtain req' where "session_access w' server use = (WF_OK, req')"
    using ok routes(1,2) bearer_not_dpop [OF assms(8)] assms(9)
    by (cases "session_access w' server use") (auto simp: authenticate_request_def split: if_split_asm)
  then have "account_access w' server use (st_access_jwt (sg_tokens g)) = (WF_OK, req')"
    using routes(4) assms(8) by (simp add: session_access_def moderator_access_def)
  from account_access_OK [OF this routes(3) assms(8)] obtain d s where
    e: "session_evidence w' server use d s" "s = METALBEAR_ACCESS_FULL \<or> s = METALBEAR_ACCESS_TAKENDOWN \<and> takendown_route_allowed (nsid_of use)"
    using assms(10) by metis
  then obtain store where v: "metalbear_auth_verify_access_scope (si_lib io) (wd_now w') store (st_access_jwt (sg_tokens g)) = Inr s"
    using assms(7,8) by (auto simp: session_evidence_def)
  from issue_session_SomeD [OF issued] obtain st where
    c: "valid_access_scope (sg_scope g)"
      "create_jwt (si_lib io) (si_clock io 2) st TOKEN_ACCESS (sg_scope g) [] (si_clock io 1 + ACCESS_LIFETIME_SECONDS) =
         Some (st_access_jwt (sg_tokens g))"
    using session_token_created by metis
  from v obtain j x where "verify_jwt (si_lib io) (wd_now w') store (st_access_jwt (sg_tokens g)) TOKEN_ACCESS False = Inr (j, x, s)"
    by (auto simp: metalbear_auth_verify_access_scope_def split: sum.split_asm)
  then have "s = sg_scope g" using created_scope [OF c(2) assms(6) c(1)] by blast
  then have "s = METALBEAR_ACCESS_TAKENDOWN" "takendown_route_allowed (nsid_of use)"
    "account_is_taken_down (sv_guards (sh_server h)) (Some did)" using e(2) scope by blast+
  then show ?thesis using assms(10) by (auto simp: takendown_route_allowed_def full_access_route_def)
qed simp

section \<open>Concrete inputs\<close>

text \<open>A sign-in at the account of the examples: with its password and a backup code, or with an app password.\<close>

definition login_payload :: "token_kind \<Rightarrow> int \<Rightarrow> string \<Rightarrow> int \<Rightarrow> json" where
  "login_payload kind scope jti expires = jwt_payload gate_store kind scope jti 0 expires"

definition login_jti :: string where "login_jti = ''00000000000000000000000000000000''"

definition login_lib :: "int \<Rightarrow> jwt_lib" where
  "login_lib scope =
     \<lparr>jl_print = (\<lambda>j. if j = jwt_header TOKEN_ACCESS then Some ''A''
                      else if j = jwt_header TOKEN_REFRESH then Some ''R''
                      else if j = login_payload TOKEN_ACCESS scope [] ACCESS_LIFETIME_SECONDS then Some ''P''
                      else if j = login_payload TOKEN_REFRESH scope login_jti REFRESH_LIFETIME_SECONDS then Some ''Q''
                      else None),
      jl_parse = (\<lambda>b. if b = [65] then Some (jwt_header TOKEN_ACCESS)
                      else if b = [82] then Some (jwt_header TOKEN_REFRESH)
                      else if b = [80] then Some (login_payload TOKEN_ACCESS scope [] ACCESS_LIFETIME_SECONDS)
                      else if b = [81] then Some (login_payload TOKEN_REFRESH scope login_jti REFRESH_LIFETIME_SECONDS)
                      else None),
      jl_hmac = (\<lambda>_ _. Some (replicate 32 0))\<rparr>"

lemma login_bytes: "bytes_of ''A'' = [65]" "bytes_of ''R'' = [82]" "bytes_of ''P'' = [80]" "bytes_of ''Q'' = [81]"
  by code_simp+

lemma login_codec: "json_codec (login_lib scope)"
  by (simp add: json_codec_def login_lib_def login_bytes)

definition login_io :: "int \<Rightarrow> nat session_io" where
  "login_io scope = \<lparr>si_consume = demo_consume, si_now32 = 0, si_scrypt = demo_scrypt, si_account = demo_account_io,
     si_lib = login_lib scope, si_clock = (\<lambda>_. 0), si_random = (\<lambda>_. Some (replicate 16 0)), si_sql = (\<lambda>_. True),
     si_time = 0, si_hmac_sha1 = (\<lambda>_ _. None), si_hmac_sha256 = (\<lambda>_ _. Some (replicate 32 3)), si_gcm = demo_gcm,
     si_attempts = [], si_activate = demo_activate\<rparr>"

definition login_auth :: auth_store where
  "login_auth = gate_store\<lparr>au_totp_secret := Some \<lparr>tp_secret = [9], tp_active = True, tp_last_step = 5\<rparr>,
     au_totp_backup := [replicate 32 3]\<rparr>"

definition login_ctx :: account_ctx where
  "login_ctx = \<lparr>cx_handle = ''ann.example'', cx_auth = login_auth, cx_account = phone_store\<rparr>"

definition login_host :: "nat session_host" where
  "login_host = \<lparr>sh_server = gate_server\<lparr>sv_registry := demo_registry\<rparr>,
     sh_accounts = (\<lambda>d. if d = ''did:a'' then Some login_ctx else None), sh_totp_key = Some [1],
     sh_day = Some 4, sh_five = Some 2,
     sh_metrics = \<lparr>mx_counters = [], mx_routes = [], mx_route_capacity = 0, mx_overflow_requests = 0, mx_overflow_errors = 0\<rparr>\<rparr>"

definition login_request :: "string \<Rightarrow> auth_request" where
  "login_request password = gate_request\<lparr>rq_nsid := Some ''com.atproto.server.createSession'',
     rq_params := Some (CObject [(''identifier'', CString ''did:a''), (''password'', CString password),
       (''authFactorToken'', CString ''code'')])\<rparr>"

lemma login_params:
  "param_string (login_request p) ''identifier'' = Some ''did:a''" "param_string (login_request p) ''password'' = Some p"
  "param_string (login_request p) ''authFactorToken'' = Some ''code''"
  by (simp_all add: param_string_def login_request_def cj_string_def)

lemma login_created:
  assumes "valid_access_scope scope" and "au_service_did store = au_service_did gate_store"
    and "au_account_did store = au_account_did gate_store" and "au_refresh_token store = []"
    and "scope = METALBEAR_ACCESS_FULL \<or> name = Some ''phone''"
  shows "\<exists>store'. metalbear_auth_create_scoped_session (login_lib scope) (\<lambda>_. 0) True (Some (replicate 16 0)) True scope name store =
    (Inr \<lparr>st_access_jwt = ''QQ.UA.AAAAAAAAAAAAAAAAAAAAAAAAAAAAAAAAAAAAAAAAAAA'',
          st_refresh_jwt = ''Ug.UQ.AAAAAAAAAAAAAAAAAAAAAAAAAAAAAAAAAAAAAAAAAAA''\<rparr>, store')"
proof -
  have enc: "base64url_encode [65] = ''QQ''" "base64url_encode [82] = ''Ug''" "base64url_encode [80] = ''UA''"
    "base64url_encode [81] = ''UQ''" "base64url_encode (replicate 32 0) = ''AAAAAAAAAAAAAAAAAAAAAAAAAAAAAAAAAAAAAAAAAAA''"
    by code_simp+
  have jti: "random_jti (Some (replicate 16 0)) = Inr login_jti" by code_simp
  have diff: "jwt_header k \<noteq> login_payload k' s j e" "jwt_header TOKEN_ACCESS \<noteq> jwt_header TOKEN_REFRESH"
    "login_payload TOKEN_REFRESH s j e \<noteq> login_payload TOKEN_ACCESS s' j' e'" for k k' s s' j j' e e'
    by (simp_all add: jwt_header_def login_payload_def jwt_payload_def required_type_def)
  have pay: "jwt_payload st k s j 0 e = login_payload k s j e"
    if "au_service_did st = au_service_did store" "au_account_did st = au_account_did store" for st k s j e
    using that assms(2,3) by (simp add: login_payload_def jwt_payload_def)
  have pair: "issue_pair (login_lib scope) 0 0 0 st login_jti REFRESH_LIFETIME_SECONDS scope =
      Inr \<lparr>st_access_jwt = ''QQ.UA.AAAAAAAAAAAAAAAAAAAAAAAAAAAAAAAAAAAAAAAAAAA'',
          st_refresh_jwt = ''Ug.UQ.AAAAAAAAAAAAAAAAAAAAAAAAAAAAAAAAAAAAAAAAAAA''\<rparr>"
    if "au_service_did st = au_service_did store" "au_account_did st = au_account_did store" for st
    using diff diff(1) [symmetric] diff(2,3) [symmetric]
    by (simp add: issue_pair_def create_jwt_def pay [OF that] login_lib_def sign_hs256_def login_bytes enc
        del: base64url_encode.simps)
  have pair2: "issue_pair (login_lib scope) 0 0 0 (store\<lparr>au_refresh_token := rows\<rparr>) login_jti REFRESH_LIFETIME_SECONDS scope =
      Inr \<lparr>st_access_jwt = ''QQ.UA.AAAAAAAAAAAAAAAAAAAAAAAAAAAAAAAAAAAAAAAAAAA'',
          st_refresh_jwt = ''Ug.UQ.AAAAAAAAAAAAAAAAAAAAAAAAAAAAAAAAAAAAAAAAAAA''\<rparr>" for rows
    by (rule pair) simp_all
  have name: "\<not> (scope \<noteq> METALBEAR_ACCESS_FULL \<and> scope \<noteq> METALBEAR_ACCESS_TAKENDOWN \<and>
      (case name of None \<Rightarrow> True | Some n \<Rightarrow> n = []))"
    using assms(5) by auto
  show ?thesis
    using assms(1) name assms(4) pair [of store] pair2
    by (auto simp: metalbear_auth_create_scoped_session_def prune_expired_refreshes_def jti persist_refresh_def Let_def)
qed

lemma login_found:
  assumes "wd_registry w = (\<lambda>_. demo_rio)"
  shows "identifier_context w login_host ''did:a'' = Some (''did:a'', login_ctx)"
  using assms
  by (simp add: identifier_context_def context_for_identifier_def host_server_def login_host_def demo_registry_value
      metalbear_account_registry_find_by_did_def found_account_def demo_rio_def found_did_def context_for_did_def
      host_context_def read_entry_def)

lemma login_spend: "\<exists>h resp. spend_login (login_io s) (login_request p) ip login_host r = (True, resp, h) \<and>
     sh_accounts h = sh_accounts login_host \<and> sh_server h = sh_server login_host \<and> sh_totp_key h = Some [1] \<and>
     (\<exists>h2 resp2. spend_login (login_io s) (login_request p) ip h resp = (True, resp2, h2) \<and>
        sh_accounts h2 = sh_accounts login_host \<and> sh_server h2 = sh_server login_host \<and> sh_totp_key h2 = Some [1])"
  by (simp add: spend_login_def check_endpoint_rate_limit_def login_io_def login_host_def consume_tier_def demo_consume_def
      limited_def reported_tier_def Let_def)

lemma login_kinds:
  "metalbear_account_verify_credential demo_scrypt demo_account_io ''secret'' phone_store phone_store = (METALBEAR_CREDENTIAL_ACCOUNT, None)"
  "metalbear_account_verify_credential demo_scrypt demo_account_io ''aaaa-aaaa-aaaa-aaaa'' phone_store phone_store =
     (METALBEAR_CREDENTIAL_APP_PASSWORD, Some ''phone'')"
  by code_simp+

lemma login_not_down: "\<not> account_is_taken_down (sv_guards (sh_server login_host)) (Some ''did:a'')"
  using gate_hosted(3) by (simp add: login_host_def)

lemma login_backup:
  "metalbear_totp_check_login_token (login_io s) (Some [1]) ''code'' login_auth =
     (Inr True, login_auth\<lparr>au_totp_backup := []\<rparr>)"
proof -
  have "parse_totp_code ''code'' = None" by (simp add: parse_totp_code_def)
  moreover have "normalize_code ''code'' [] = Some ''CODE''" by code_simp
  ultimately show ?thesis
    by (simp add: metalbear_totp_check_login_token_def check_backup_def metalbear_backup_code_hash_def
        metalbear_auth_totp_consume_backup_def login_auth_def login_io_def)
qed

abbreviation login_access :: string where
  "login_access \<equiv> ''QQ.UA.AAAAAAAAAAAAAAAAAAAAAAAAAAAAAAAAAAAAAAAAAAA''"

lemma login_issued:
  assumes "valid_access_scope s" and "s = METALBEAR_ACCESS_FULL \<or> name = Some ''phone''"
    and "cx_auth ctx = login_auth\<lparr>au_totp_backup := b\<rparr>"
  shows "\<exists>g h'. issue_session (login_io s) ''did:a'' ctx s name h r = ((Some g, r), h') \<and> sg_did g = ''did:a'' \<and>
     sg_scope g = s \<and> st_access_jwt (sg_tokens g) = login_access"
  using login_created [OF assms(1) _ _ _ assms(2), of "cx_auth ctx"] assms(3)
  by (auto simp: issue_session_def login_io_def login_auth_def gate_store_def)

lemma login_valid:
  assumes "wd_registry w = (\<lambda>_. demo_rio)" and "sh_accounts h = sh_accounts login_host" and "sh_server h = sh_server login_host"
    and "metalbear_account_verify_credential demo_scrypt demo_account_io p phone_store phone_store = (kind, name)"
    and "kind \<noteq> METALBEAR_CREDENTIAL_INVALID"
  shows "valid_login w (login_io s) h (login_request p) = Some (kind, ''did:a'', login_ctx, name)"
  using login_found [OF assms(1)] identifier_context_cong [OF assms(2,3), of w "''did:a''"] assms(4,5)
  by (simp add: valid_login_def login_params login_ctx_def login_io_def)

lemma login_with_phone:
  assumes "wd_registry w = (\<lambda>_. demo_rio)"
  shows "\<exists>g r' h'. create_session w (login_io METALBEAR_ACCESS_APP_PASSWORD) (login_request ''aaaa-aaaa-aaaa-aaaa'') ip login_host r =
      ((Some g, r'), h') \<and> sg_scope g = METALBEAR_ACCESS_APP_PASSWORD \<and> st_access_jwt (sg_tokens g) = login_access"
proof -
  let ?req = "login_request ''aaaa-aaaa-aaaa-aaaa''" and ?s = METALBEAR_ACCESS_APP_PASSWORD
  obtain h resp where h: "spend_login (login_io ?s) ?req ip login_host r = (True, resp, h)"
    "sh_accounts h = sh_accounts login_host" "sh_server h = sh_server login_host"
    using login_spend by meson
  have v: "valid_login w (login_io ?s) h ?req = Some (METALBEAR_CREDENTIAL_APP_PASSWORD, ''did:a'', login_ctx, Some ''phone'')"
    by (rule login_valid [OF assms h(2,3) login_kinds(2)]) simp
  obtain g h' where "issue_session (login_io ?s) ''did:a'' login_ctx ?s (Some ''phone'') h resp = ((Some g, resp), h')"
    "sg_scope g = ?s" "st_access_jwt (sg_tokens g) = login_access"
    using login_issued [of ?s "Some ''phone''" login_ctx "[replicate 32 3]" h resp]
    by (auto simp: valid_access_scope_def login_ctx_def login_auth_def)
  then show ?thesis
    using login_not_down h(3)
    by (simp add: create_session_def h(1) v login_params scope_of_credential_def)
qed

lemma login_with_password:
  assumes "wd_registry w = (\<lambda>_. demo_rio)"
  shows "\<exists>g r' h'. create_session w (login_io METALBEAR_ACCESS_FULL) (login_request ''secret'') ip login_host r = ((Some g, r'), h')"
proof -
  let ?req = "login_request ''secret''" and ?s = METALBEAR_ACCESS_FULL
  obtain h resp h2 resp2 where h: "spend_login (login_io ?s) ?req ip login_host r = (True, resp, h)"
    "sh_accounts h = sh_accounts login_host" "sh_server h = sh_server login_host"
    and h2: "spend_login (login_io ?s) ?req ip h resp = (True, resp2, h2)" "sh_totp_key h2 = Some [1]"
    using login_spend by meson
  have v: "valid_login w (login_io ?s) h ?req = Some (METALBEAR_CREDENTIAL_ACCOUNT, ''did:a'', login_ctx, None)"
    by (rule login_valid [OF assms h(2,3) login_kinds(1)]) simp
  have need: "metalbear_totp_login_required (login_io ?s) (cx_auth login_ctx)"
    by (simp add: metalbear_totp_login_required_def metalbear_auth_totp_get_def login_ctx_def login_auth_def login_io_def)
  have f: "\<exists>h3. factor_checked (login_io ?s) ?req ip ''did:a'' login_ctx h resp =
      ((Some (login_ctx\<lparr>cx_auth := login_auth\<lparr>au_totp_backup := []\<rparr>\<rparr>), resp2), h3)"
    using login_backup [of ?s] by (simp add: factor_checked_def h2 login_params Let_def) (simp add: login_ctx_def)
  then obtain h3 where f: "factor_checked (login_io ?s) ?req ip ''did:a'' login_ctx h resp =
      ((Some (login_ctx\<lparr>cx_auth := login_auth\<lparr>au_totp_backup := []\<rparr>\<rparr>), resp2), h3)" by blast
  obtain g h' where "issue_session (login_io ?s) ''did:a'' (login_ctx\<lparr>cx_auth := login_auth\<lparr>au_totp_backup := []\<rparr>\<rparr>) ?s None h3 resp2 =
      ((Some g, resp2), h')"
    using login_issued [of ?s None "login_ctx\<lparr>cx_auth := login_auth\<lparr>au_totp_backup := []\<rparr>\<rparr>" "[]" h3 resp2]
    by (auto simp: valid_access_scope_def)
  then show ?thesis
    using login_not_down h(3) need f
    by (simp add: create_session_def h(1) v login_params scope_of_credential_def)
qed

theorem session_matches_credential_witness:
  "\<exists>g r' h'. create_session (gate_world ''atproto'') (login_io METALBEAR_ACCESS_FULL) (login_request ''secret'') None login_host
       \<lparr>xr_headers = [], xr_error = None\<rparr> = ((Some g, r'), h') \<and> sg_did g = ''did:a'' \<and> sg_scope g = METALBEAR_ACCESS_FULL \<and>
     (\<exists>ctx'. sh_accounts h' ''did:a'' = Some ctx' \<and> replicate 32 3 \<notin> set (au_totp_backup (cx_auth ctx')))"
proof -
  have w: "wd_registry (gate_world ''atproto'') = (\<lambda>_. demo_rio)" by (simp add: gate_world_def)
  obtain g r' h' where c: "create_session (gate_world ''atproto'') (login_io METALBEAR_ACCESS_FULL) (login_request ''secret'') None
      login_host \<lparr>xr_headers = [], xr_error = None\<rparr> = ((Some g, r'), h')"
    using login_with_password [OF w] by blast
  have acc: "sh_totp_key login_host = Some [1]" by (simp add: login_host_def)
  have row: "au_totp_secret (cx_auth login_ctx) = Some \<lparr>tp_secret = [9], tp_active = True, tp_last_step = 5\<rparr>"
    by (simp add: login_ctx_def login_auth_def)
  have code: "parse_totp_code ''code'' = None" "normalize_code ''code'' [] = Some ''CODE''" by code_simp+
  have kind: "metalbear_account_verify_credential (si_scrypt (login_io METALBEAR_ACCESS_FULL)) (si_account (login_io METALBEAR_ACCESS_FULL))
      ''secret'' (cx_account login_ctx) (cx_account login_ctx) = (METALBEAR_CREDENTIAL_ACCOUNT, None)"
    using login_kinds(1) by (simp add: login_io_def login_ctx_def)
  from session_matches_credential [OF c] obtain ctx' where
    e: "sg_did g = ''did:a''" "sg_scope g = METALBEAR_ACCESS_FULL" "sh_accounts h' ''did:a'' = Some ctx'"
      "factor_spent (login_io METALBEAR_ACCESS_FULL) (Some [1]) ''code'' login_auth (cx_auth ctx')"
    using login_params [of "''secret''"] login_found [OF w] kind login_not_down row acc
    by (auto simp: scope_of_credential_def) (auto simp: login_ctx_def)
  then have "replicate 32 3 \<notin> set (au_totp_backup (cx_auth ctx'))"
    using code by (auto simp: factor_spent_def metalbear_backup_code_hash_def login_io_def)
  then show ?thesis using c e by blast
qed

theorem app_password_confined_witness:
  "fst (fst (authenticate_request ((gate_world ''atproto'')\<lparr>wd_lib := login_lib METALBEAR_ACCESS_APP_PASSWORD\<rparr>) gate_server
     (gate_request\<lparr>rq_nsid := Some ''com.atproto.server.createAppPassword'',
        ar_auth := Some (''Bearer '' @ login_access), ar_dpop := None\<rparr>) ())) \<noteq> WF_OK"
proof -
  let ?w = "gate_world ''atproto''" and ?io = "login_io METALBEAR_ACCESS_APP_PASSWORD"
  let ?use = "gate_request\<lparr>rq_nsid := Some ''com.atproto.server.createAppPassword'',
      ar_auth := Some (''Bearer '' @ login_access), ar_dpop := None\<rparr>"
  have "wd_registry ?w = (\<lambda>_. demo_rio)" by (simp add: gate_world_def)
  from login_with_phone [OF this] obtain g r' h' where
    c: "create_session ?w ?io (login_request ''aaaa-aaaa-aaaa-aaaa'') None login_host \<lparr>xr_headers = [], xr_error = None\<rparr> =
      ((Some g, r'), h')" and g: "sg_scope g = METALBEAR_ACCESS_APP_PASSWORD" "st_access_jwt (sg_tokens g) = login_access"
    by blast
  have w: "wd_registry ?w = (\<lambda>_. demo_rio)" by (simp add: gate_world_def)
  have kind: "fst (metalbear_account_verify_credential (si_scrypt ?io) (si_account ?io) ''aaaa-aaaa-aaaa-aaaa''
      (cx_account login_ctx) (cx_account login_ctx)) \<noteq> METALBEAR_CREDENTIAL_ACCOUNT"
    using login_kinds(2) by (simp add: login_io_def login_ctx_def)
  have codec: "json_codec (si_lib ?io)" by (simp add: login_io_def login_codec)
  have bearer: "bearer_token (ar_auth ?use) = Some (st_access_jwt (sg_tokens g))"
    by (simp add: g(2) bearer_token_def strncmp_eq_def)
  have route: "full_access_route (nsid_of ?use)" by (simp add: nsid_of_def full_access_route_def)
  have lib: "wd_lib (?w\<lparr>wd_lib := login_lib METALBEAR_ACCESS_APP_PASSWORD\<rparr>) = si_lib ?io"
    by (simp add: login_io_def)
  have no_proof: "ar_dpop ?use = None" by simp
  show ?thesis
    using app_password_confined [OF c login_params(1,2) login_found [OF w] kind codec lib bearer no_proof route]
      login_not_down by blast
qed

end
