(* ===== verification/Label_Store.thy ===== *)
theory Label_Store
  imports Schema_Version Server_Guards
begin

text \<open>
  The labels the server gives its own accounts, \<open>src/label/label_store.c\<close>, and the public query of them,
  \<open>src/label/labels_routes.c\<close>. The store is the rows of its table in the order of their ids, with the
  largest id SQLite has given. What the statements come to, how many rows can be stepped to and the
  clock are arguments; memory does not run out. A body is the cJSON tree before it is printed.
\<close>

section \<open>The store\<close>

record label_row =
  lb_id :: int
  lb_src :: string
  lb_uri :: string
  lb_val :: string
  lb_neg :: bool
  lb_cts :: string

record label_store =
  ls_rows :: "label_row list"
  ls_last :: int

record label_file =
  lf_version :: int
  lf_store :: "label_store option"

record label_open_io = schema_io +
  lo_open :: bool
  lo_create :: bool

definition metalbear_label_store_open :: "label_open_io \<Rightarrow> label_file \<Rightarrow> wf_status \<times> label_file" where
  "metalbear_label_store_open io f =
     (if \<not> lo_open io then (WF_ERR_INTERNAL, f)
      else (case metalbear_schema_open io (lf_version f) of
              (status, version) \<Rightarrow>
                (let f1 = f\<lparr>lf_version := version\<rparr>
                 in if status \<noteq> WF_OK \<or> \<not> lo_create io then (WF_ERR_INTERNAL, f1)
                    else (WF_OK, f1\<lparr>lf_store :=
                            Some (case lf_store f of Some s \<Rightarrow> s | None \<Rightarrow> \<lparr>ls_rows = [], ls_last = 0\<rparr>)\<rparr>))))"

definition given_arg :: "string option \<Rightarrow> bool" where
  "given_arg t = (t \<noteq> None \<and> t \<noteq> Some '''')"

text \<open>\<open>AUTOINCREMENT\<close>: an id beyond every id given before, and none once the ids have run out.\<close>

definition metalbear_label_store_insert ::
  "sql_fate \<Rightarrow> string option \<Rightarrow> string option \<Rightarrow> string option \<Rightarrow> string option \<Rightarrow> bool \<Rightarrow> string option \<Rightarrow>
   label_store \<Rightarrow> wf_status \<times> label_store" where
  "metalbear_label_store_insert fate now src uri val neg cts s =
     (if \<not> given_arg src \<or> \<not> given_arg uri \<or> \<not> given_arg val then (WF_ERR_INVALID_ARG, s)
      else (case (if given_arg cts then cts else now) of
              None \<Rightarrow> (WF_ERR_ALLOC, s)
            | Some t \<Rightarrow>
                if fate \<noteq> SQL_RUNS \<or> ls_last s \<ge> 2 ^ 63 - 1 then (WF_ERR_INTERNAL, s)
                else (WF_OK, s\<lparr>ls_rows := ls_rows s @ [\<lparr>lb_id = ls_last s + 1, lb_src = the src, lb_uri = the uri,
                        lb_val = the val, lb_neg = neg, lb_cts = t\<rparr>], ls_last := ls_last s + 1\<rparr>)))"

section \<open>Querying the store\<close>

record label_query =
  lq_patterns :: "string list"
  lq_sources :: "string list"
  lq_sources_present :: bool
  lq_after :: int
  lq_limit :: int

definition LABEL_DEFAULT_LIMIT :: int where "LABEL_DEFAULT_LIMIT = 50"
definition LABEL_MAX_LIMIT :: int where "LABEL_MAX_LIMIT = 250"

definition label_limit :: "int \<Rightarrow> nat" where
  "label_limit limit =
     nat (let l = (if limit \<le> 0 then LABEL_DEFAULT_LIMIT else limit) in if l > LABEL_MAX_LIMIT then LABEL_MAX_LIMIT else l)"

text \<open>\<open>instr(uri, prefix) = 1\<close>, which holds of the empty prefix, or the URI itself.\<close>

definition pattern_matches :: "string \<Rightarrow> string \<Rightarrow> bool" where
  "pattern_matches p uri =
     (if p \<noteq> '''' \<and> last p = CHR ''*'' then strncmp_eq uri (butlast p) (length (butlast p)) else uri = p)"

text \<open>The \<open>WHERE\<close> clause but for the cursor; no patterns match nothing, nor do no sources asked for.\<close>

definition label_matches :: "label_query \<Rightarrow> label_row \<Rightarrow> bool" where
  "label_matches q r =
     (list_ex (\<lambda>p. pattern_matches p (lb_uri r)) (lq_patterns q) \<and>
      (lq_sources_present q \<longrightarrow> lb_src r \<in> set (lq_sources q)))"

definition label_json :: "label_row \<Rightarrow> cjson" where
  "label_json r =
     CObject ([(''ver'', CNumber 1), (''src'', CString (lb_src r)), (''uri'', CString (lb_uri r)), (''val'', CString (lb_val r))] @
       (if lb_neg r then [(''neg'', CBool True)] else []) @ [(''cts'', CString (lb_cts r))])"

text \<open>The rows stepped to, until there are as many as the page takes; whether one more was there.\<close>

fun read_labels :: "nat \<Rightarrow> label_row list \<Rightarrow> label_row list \<Rightarrow> label_row list \<times> bool" where
  "read_labels limit labels [] = (labels, False)"
| "read_labels limit labels (r # rows) =
     (if length labels \<ge> limit then (labels, True) else read_labels limit (labels @ [r]) rows)"

record label_io =
  li_query :: sql_fate
  li_reads :: nat

definition label_body :: "label_row list \<Rightarrow> bool \<Rightarrow> cjson" where
  "label_body labels has_more =
     CObject ((''labels'', CArray (map label_json labels)) #
       (if has_more
        then [(''cursor'', CString (snprintf_cut 32 (decimal_digits (nat (if labels = [] then 0 else lb_id (last labels))))))]
        else []))"

definition metalbear_label_store_query :: "label_io \<Rightarrow> label_query \<Rightarrow> label_store \<Rightarrow> wf_status + cjson" where
  "metalbear_label_store_query io q s =
     (let limit = label_limit (lq_limit q);
          rows = take (limit + 1) (filter (\<lambda>r. lb_id r > lq_after q \<and> label_matches q r) (ls_rows s))
      in if li_query io = SQL_UNPREPARED then Inl WF_ERR_INTERNAL
         else (case read_labels limit [] (if li_query io = SQL_RUNS then take (li_reads io) rows else []) of
                 (labels, has_more) \<Rightarrow> Inr (label_body labels has_more)))"

section \<open>The query of a request\<close>

definition LABEL_QUERY_MAX_LIMIT :: int where "LABEL_QUERY_MAX_LIMIT = 250"

definition c_isxdigit :: "char \<Rightarrow> bool" where
  "c_isxdigit c = (c_isdigit c \<or> 65 \<le> (of_char c :: nat) \<and> (of_char c :: nat) \<le> 70 \<or> 97 \<le> (of_char c :: nat) \<and> (of_char c :: nat) \<le> 102)"

definition xdigit :: "char \<Rightarrow> nat" where
  "xdigit c = (let v = of_char c in if v \<le> 57 then v - 48 else if v \<le> 70 then v - 55 else v - 87)"

fun decode_component :: "string \<Rightarrow> string" where
  "decode_component [] = []"
| "decode_component (c # cs) =
     (case cs of
        a # b # rest \<Rightarrow>
          if c = CHR ''%'' \<and> c_isxdigit a \<and> c_isxdigit b
          then char_of (16 * xdigit a + xdigit b) # decode_component rest
          else (if c = CHR ''+'' then CHR '' '' else c) # decode_component cs
      | _ \<Rightarrow> (if c = CHR ''+'' then CHR '' '' else c) # decode_component cs)"

record query_args =
  qa_patterns :: "string list"
  qa_sources :: "string list"
  qa_sources_present :: bool
  qa_after_id :: int
  qa_limit :: int
  qa_limit_given :: bool

definition no_args :: query_args where
  "no_args = \<lparr>qa_patterns = [], qa_sources = [], qa_sources_present = False, qa_after_id = 0, qa_limit = 0, qa_limit_given = False\<rparr>"

text \<open>One pair between ampersands. A component read as a C string ends at a zero byte it encodes.\<close>

definition take_pair :: "string \<Rightarrow> query_args \<Rightarrow> string + query_args" where
  "take_pair pair args =
     (case strchr_cut CHR ''='' pair of
        (k, v) \<Rightarrow>
          (let key = c_str (decode_component k);
               val = c_str (decode_component (case v of Some t \<Rightarrow> t | None \<Rightarrow> ''''))
           in if key = ''uriPatterns'' then Inr (args\<lparr>qa_patterns := qa_patterns args @ [val]\<rparr>)
              else if key = ''sources'' then Inr (args\<lparr>qa_sources_present := True, qa_sources := qa_sources args @ [val]\<rparr>)
              else if key = ''limit''
              then (case strtoll10 val of
                      (n, rest, _) \<Rightarrow>
                        if val = '''' \<or> rest \<noteq> '''' \<or> n < 1 \<or> n > LABEL_QUERY_MAX_LIMIT
                        then Inl ''limit must be an integer from 1 to 250''
                        else Inr (args\<lparr>qa_limit := n, qa_limit_given := True\<rparr>))
              else if key = ''cursor''
              then (case strtoll10 val of
                      (n, rest, erange) \<Rightarrow>
                        if val = '''' \<or> rest \<noteq> '''' \<or> erange \<or> n < 0
                        then Inl ''cursor is not a valid cursor''
                        else Inr (args\<lparr>qa_after_id := n\<rparr>))
              else Inr args))"

function take_pairs :: "string \<Rightarrow> query_args \<Rightarrow> string + query_args" where
  "take_pairs raw args =
     (case strchr_cut CHR ''&'' raw of
        (pair, tail) \<Rightarrow>
          (case take_pair pair args of
             Inl message \<Rightarrow> Inl message
           | Inr args1 \<Rightarrow> (case tail of None \<Rightarrow> Inr args1 | Some r \<Rightarrow> take_pairs r args1)))"
  by pat_completeness auto
termination by (relation "measure (length \<circ> fst)") (auto dest: strchr_cut_length sym)

declare take_pairs.simps [simp del]

definition parse_query :: "string option \<Rightarrow> string + query_args" where
  "parse_query raw = (case raw of None \<Rightarrow> Inr no_args | Some r \<Rightarrow> take_pairs r no_args)"

definition query_of :: "query_args \<Rightarrow> label_query" where
  "query_of args = \<lparr>lq_patterns = qa_patterns args, lq_sources = qa_sources args,
     lq_sources_present = qa_sources_present args, lq_after = qa_after_id args,
     lq_limit = (if qa_limit_given args then qa_limit args else 0)\<rparr>"

definition h_query_labels :: "label_io \<Rightarrow> label_store \<Rightarrow> string option \<Rightarrow> xrpc_response \<Rightarrow> cjson option \<times> xrpc_response" where
  "h_query_labels io s raw resp =
     (case parse_query raw of
        Inl message \<Rightarrow> (None, set_error 400 ''InvalidRequest'' message resp)
      | Inr args \<Rightarrow>
          if qa_patterns args = [] then (None, set_error 400 ''InvalidRequest'' ''uriPatterns is required'' resp)
          else if '''' \<in> set (qa_patterns args)
          then (None, set_error 400 ''InvalidRequest'' ''uriPatterns must not be empty'' resp)
          else (case metalbear_label_store_query io (query_of args) s of
                  Inl _ \<Rightarrow> (None, set_error 500 ''InternalServerError'' ''label query failed'' resp)
                | Inr body \<Rightarrow> (Some body, resp)))"

section \<open>Runs of the store\<close>

inductive label_step :: "label_store \<Rightarrow> label_store \<Rightarrow> bool" where
  insert: "metalbear_label_store_insert fate now src uri val neg cts s = (status, s') \<Longrightarrow> label_step s s'"

inductive_cases label_stepE: "label_step s s'"

definition labels_ok :: "label_store \<Rightarrow> bool" where
  "labels_ok s \<longleftrightarrow> sorted_wrt (<) (map lb_id (ls_rows s)) \<and> (\<forall>r \<in> set (ls_rows s). 0 < lb_id r \<and> lb_id r \<le> ls_last s) \<and>
     0 \<le> ls_last s \<and> ls_last s < 2 ^ 63"

interpretation label_run: transition_system "\<lambda>s. s = \<lparr>ls_rows = [], ls_last = 0\<rparr>" label_step labels_ok
proof
  fix s t assume ok: "labels_ok s" and "label_step s t"
  then obtain fate now src uri val neg cts status where "metalbear_label_store_insert fate now src uri val neg cts s = (status, t)"
    by (auto elim: label_stepE)
  then show "labels_ok t"
    using ok
    by (fastforce simp: metalbear_label_store_insert_def labels_ok_def sorted_wrt_append split: if_split_asm option.split_asm)
qed (simp add: labels_ok_def)

lemma read_labels_take:
  "length labels \<le> limit \<Longrightarrow> read_labels limit labels rows =
     (labels @ take (limit - length labels) rows, limit < length labels + length rows)"
proof (induction rows arbitrary: labels)
  case (Cons r rows)
  show ?case
  proof (cases "length labels = limit")
    case False
    then have "limit - length labels = Suc (limit - length (labels @ [r]))" using Cons.prems by simp
    then show ?thesis using Cons.IH [of "labels @ [r]"] Cons.prems False by simp
  qed simp
qed simp

section \<open>The query a client writes\<close>

lemma decode_plain_char: "c \<noteq> CHR ''%'' \<Longrightarrow> c \<noteq> CHR ''+'' \<Longrightarrow> decode_component (c # cs) = c # decode_component cs"
  by (cases cs rule: list.exhaust; cases "tl cs" rule: list.exhaust) auto

lemma decode_plain: "list_all (\<lambda>c. c \<noteq> CHR ''%'' \<and> c \<noteq> CHR ''+'') s \<Longrightarrow> decode_component s = s"
  by (induction s) (simp_all add: decode_plain_char del: decode_component.simps(2))

text \<open>RFC 3986: what is not unreserved is written as a percent sign and two digits.\<close>

definition unreserved :: "char \<Rightarrow> bool" where
  "unreserved c = (let v = (of_char c :: nat) in
     48 \<le> v \<and> v \<le> 57 \<or> 65 \<le> v \<and> v \<le> 90 \<or> 97 \<le> v \<and> v \<le> 122 \<or> c \<in> {CHR ''-'', CHR ''.'', CHR ''_'', CHR ''~''})"

definition hex_digit :: "nat \<Rightarrow> char" where
  "hex_digit n = (if n < 10 then char_of (48 + n) else char_of (55 + n))"

definition percent_encode :: "string \<Rightarrow> string" where
  "percent_encode s =
     concat (map (\<lambda>c. if unreserved c then [c] else [CHR ''%'', hex_digit (of_char c div 16), hex_digit (of_char c mod 16)]) s)"

lemma hex_digit_value: "n < 16 \<Longrightarrow> (of_char (hex_digit n) :: nat) = (if n < 10 then 48 + n else 55 + n)"
  by (auto simp: hex_digit_def of_char_of)

lemma hex_digit_read: "n < 16 \<Longrightarrow> c_isxdigit (hex_digit n) \<and> xdigit (hex_digit n) = n"
  by (auto simp: c_isxdigit_def c_isdigit_def xdigit_def hex_digit_value Let_def)

lemma decode_percent_encode: "decode_component (percent_encode s) = s"
proof (induction s)
  case (Cons c s)
  show ?case
  proof (cases "unreserved c")
    case True
    then have "c \<noteq> CHR ''%''" "c \<noteq> CHR ''+''" by (auto simp: unreserved_def)
    then show ?thesis using True Cons by (simp add: percent_encode_def decode_plain_char del: decode_component.simps(2))
  next
    case False
    have c: "(of_char c :: nat) < 256" by (rule nat_of_char_less_256)
    then have d: "(of_char c :: nat) div 16 < 16" "(of_char c :: nat) mod 16 < 16" by (simp_all add: less_mult_imp_div_less)
    have v: "16 * (of_char c div 16) + of_char c mod 16 = (of_char c :: nat)" by simp
    have "char_of (of_char c :: nat) = c" by simp
    then show ?thesis using False Cons hex_digit_read [OF d(1)] hex_digit_read [OF d(2)]
      by (simp add: percent_encode_def v)
  qed
qed (simp add: percent_encode_def)

lemma hex_digit_other: "n < 16 \<Longrightarrow> hex_digit n \<noteq> CHR ''&'' \<and> hex_digit n \<noteq> CHR ''=''"
proof (intro conjI notI)
  assume n: "n < 16"
  show False if "hex_digit n = CHR ''&''" using hex_digit_value [OF n] that by (simp split: if_split_asm)
  show False if "hex_digit n = CHR ''=''" using hex_digit_value [OF n] that by (simp split: if_split_asm)
qed

lemma encoded_chars: "c \<in> set (percent_encode s) \<Longrightarrow> c \<noteq> CHR ''&'' \<and> c \<noteq> CHR ''=''"
proof -
  assume "c \<in> set (percent_encode s)"
  then obtain d where d: "unreserved c \<or> c = CHR ''%'' \<or> c = hex_digit (of_char (d :: char) div 16) \<or> c = hex_digit (of_char d mod 16)"
    by (auto simp: percent_encode_def split: if_split_asm)
  have "(of_char d :: nat) < 256" by (rule nat_of_char_less_256)
  then have "(of_char d :: nat) div 16 < 16" "(of_char d :: nat) mod 16 < 16" by (simp_all add: less_mult_imp_div_less)
  then show ?thesis using d hex_digit_other by (auto simp: unreserved_def)
qed

text \<open>The pairs of a query, joined by ampersands.\<close>

fun join_pairs :: "string list \<Rightarrow> string" where
  "join_pairs [] = []"
| "join_pairs [p] = p"
| "join_pairs (p # q # ps) = p @ CHR ''&'' # join_pairs (q # ps)"

definition label_url :: "string list \<Rightarrow> string list \<Rightarrow> nat option \<Rightarrow> string" where
  "label_url patterns sources limit =
     join_pairs (map (\<lambda>p. ''uriPatterns='' @ percent_encode p) patterns @
       map (\<lambda>d. ''sources='' @ percent_encode d) sources @
       (case limit of None \<Rightarrow> [] | Some n \<Rightarrow> [''limit='' @ decimal_digits n]))"

fun take_all :: "string list \<Rightarrow> query_args \<Rightarrow> string + query_args" where
  "take_all [] args = Inr args"
| "take_all (p # ps) args = (case take_pair p args of Inl m \<Rightarrow> Inl m | Inr args1 \<Rightarrow> take_all ps args1)"

lemma take_pairs_join: "ps \<noteq> [] \<Longrightarrow> \<forall>p \<in> set ps. CHR ''&'' \<notin> set p \<Longrightarrow> take_pairs (join_pairs ps) args = take_all ps args"
proof (induction ps arbitrary: args rule: join_pairs.induct)
  case (2 p)
  then show ?case by (subst take_pairs.simps) (simp split: sum.split)
next
  case (3 p q ps)
  then show ?case by (subst take_pairs.simps) (simp split: sum.split)
qed simp

lemma take_pairs_append:
  "take_pairs a args = Inr args1 \<Longrightarrow> take_pairs (a @ CHR ''&'' # b) args = take_pairs b args1"
proof (induction a args rule: take_pairs.induct)
  case (1 raw args)
  obtain pair tail where c: "strchr_cut CHR ''&'' raw = (pair, tail)" by (cases "strchr_cut CHR ''&'' raw") auto
  obtain args2 where p: "take_pair pair args = Inr args2"
    using "1.prems" c by (subst (asm) take_pairs.simps) (auto split: sum.split_asm)
  show ?case
  proof (cases tail)
    case None
    then have raw: "pair = raw" "CHR ''&'' \<notin> set raw" using strchr_cut_NoneD [of "CHR ''&''" raw pair] c by auto
    then have "args2 = args1" using "1.prems" c p None by (subst (asm) take_pairs.simps) simp
    then show ?thesis using raw p by (subst take_pairs.simps) simp
  next
    case (Some r)
    then have raw: "raw = pair @ CHR ''&'' # r" "CHR ''&'' \<notin> set pair" using strchr_cut_SomeD [of "CHR ''&''" raw pair r] c by auto
    have "take_pairs r args2 = Inr args1" using "1.prems" c p Some by (subst (asm) take_pairs.simps) simp
    from "1.IH" [OF c [symmetric] p Some this] show ?thesis
      using raw p by (subst take_pairs.simps) simp
  qed
qed

lemma digits_plain: "c \<in> set (decimal_digits n) \<Longrightarrow> c \<notin> {CHR ''%'', CHR ''+'', CHR ''&'', CHR ''='', CHR 0x00}"
  using decimal_digits_are_digits [of n] by (auto simp: list_all_iff c_isdigit_def)

lemma c_str_id: "CHR 0x00 \<notin> set s \<Longrightarrow> c_str s = s"
  unfolding c_str_def by (subst takeWhile_eq_all_conv) auto

lemma decode_digits: "c_str (decode_component (decimal_digits n)) = decimal_digits n"
  using digits_plain [of _ n] decode_plain [of "decimal_digits n"] c_str_id [of "decimal_digits n"]
  by (auto simp: list_all_iff)

lemma key_names:
  "strchr_cut CHR ''='' (''uriPatterns='' @ v) = (''uriPatterns'', Some v)" "c_str (decode_component ''uriPatterns'') = ''uriPatterns''"
  "strchr_cut CHR ''='' (''sources='' @ v) = (''sources'', Some v)" "c_str (decode_component ''sources'') = ''sources''"
  "strchr_cut CHR ''='' (''limit='' @ v) = (''limit'', Some v)" "c_str (decode_component ''limit'') = ''limit''"
  "strchr_cut CHR ''='' (''cursor='' @ v) = (''cursor'', Some v)" "c_str (decode_component ''cursor'') = ''cursor''"
  by (simp_all add: c_str_def)

lemma take_keys:
  "take_pair (''uriPatterns='' @ v) args = Inr (args\<lparr>qa_patterns := qa_patterns args @ [c_str (decode_component v)]\<rparr>)"
  "take_pair (''sources='' @ v) args =
     Inr (args\<lparr>qa_sources_present := True, qa_sources := qa_sources args @ [c_str (decode_component v)]\<rparr>)"
  by (simp_all only: take_pair_def key_names prod.case Let_def option.case) simp_all

lemma take_numbers:
  "1 \<le> n \<Longrightarrow> n \<le> 250 \<Longrightarrow> take_pair (''limit='' @ decimal_digits n) args = Inr (args\<lparr>qa_limit := int n, qa_limit_given := True\<rparr>)"
  "int n < 2 ^ 63 \<Longrightarrow> take_pair (''cursor='' @ decimal_digits n) args = Inr (args\<lparr>qa_after_id := int n\<rparr>)"
  using strtoll10_decimal [of "[]" n]
  by (simp_all only: take_pair_def key_names prod.case Let_def option.case decode_digits) (simp_all add: LABEL_QUERY_MAX_LIMIT_def)

lemma take_all_append: "take_all ps args = Inr args1 \<Longrightarrow> take_all (ps @ qs) args = take_all qs args1"
  by (induction ps arbitrary: args) (auto split: sum.split_asm)

lemma take_patterns:
  "\<forall>p \<in> set ps. CHR 0x00 \<notin> set p \<Longrightarrow> take_all (map (\<lambda>p. ''uriPatterns='' @ percent_encode p) ps) args =
     Inr (args\<lparr>qa_patterns := qa_patterns args @ ps\<rparr>)"
  by (induction ps arbitrary: args) (simp_all add: take_keys(1) decode_percent_encode c_str_id del: append.append_Cons)

lemma take_sources:
  "\<forall>d \<in> set ds. CHR 0x00 \<notin> set d \<Longrightarrow> take_all (map (\<lambda>d. ''sources='' @ percent_encode d) ds) args =
     Inr (args\<lparr>qa_sources_present := qa_sources_present args \<or> ds \<noteq> [], qa_sources := qa_sources args @ ds\<rparr>)"
  by (induction ds arbitrary: args) (simp_all add: take_keys(2) decode_percent_encode c_str_id del: append.append_Cons)

text \<open>What a client asks for is what is looked up.\<close>

lemma parse_label_url:
  assumes "patterns \<noteq> []" and "\<forall>p \<in> set patterns \<union> set sources. CHR 0x00 \<notin> set p"
    and "\<forall>n \<in> set_option limit. 1 \<le> n \<and> n \<le> 250"
  shows "parse_query (Some (label_url patterns sources limit)) =
    Inr \<lparr>qa_patterns = patterns, qa_sources = sources, qa_sources_present = (sources \<noteq> []), qa_after_id = 0,
      qa_limit = (case limit of Some n \<Rightarrow> int n | None \<Rightarrow> 0), qa_limit_given = (limit \<noteq> None)\<rparr>"
proof -
  let ?P = "map (\<lambda>p. ''uriPatterns='' @ percent_encode p) patterns" and ?S = "map (\<lambda>d. ''sources='' @ percent_encode d) sources"
    and ?L = "case limit of None \<Rightarrow> [] | Some n \<Rightarrow> [''limit='' @ decimal_digits n]"
  have amp: "\<forall>p \<in> set (?P @ ?S @ ?L). CHR ''&'' \<notin> set p"
    using encoded_chars digits_plain by (fastforce split: option.splits)
  have p: "take_all ?P no_args = Inr (no_args\<lparr>qa_patterns := patterns\<rparr>)"
    using take_patterns [of patterns no_args] assms(2) by (simp add: no_args_def)
  let ?args = "no_args\<lparr>qa_patterns := patterns, qa_sources_present := sources \<noteq> [], qa_sources := sources\<rparr>"
  have s: "take_all ?S (no_args\<lparr>qa_patterns := patterns\<rparr>) = Inr ?args"
    using take_sources [of sources "no_args\<lparr>qa_patterns := patterns\<rparr>"] assms(2) by (simp add: no_args_def)
  have l: "take_all ?L ?args = Inr (?args\<lparr>qa_limit := (case limit of Some n \<Rightarrow> int n | None \<Rightarrow> 0), qa_limit_given := (limit \<noteq> None)\<rparr>)"
    using assms(3) by (cases limit) (simp_all add: take_numbers(1) no_args_def del: append.append_Cons)
  have "take_all (?P @ ?S @ ?L) no_args =
      Inr (?args\<lparr>qa_limit := (case limit of Some n \<Rightarrow> int n | None \<Rightarrow> 0), qa_limit_given := (limit \<noteq> None)\<rparr>)"
    using take_all_append [OF p, of "?S @ ?L"] take_all_append [OF s, of ?L] l by simp
  then show ?thesis
    unfolding parse_query_def label_url_def
    using take_pairs_join [OF _ amp, of no_args] assms(1) by (simp add: no_args_def)
qed

section \<open>Page after page\<close>

definition body_labels :: "cjson \<Rightarrow> cjson list" where
  "body_labels body = (case cj_item body ''labels'' of Some (CArray ls) \<Rightarrow> ls | _ \<Rightarrow> [])"

text \<open>A client repeats its query with the cursor of each answer until there is none.\<close>

fun label_walk :: "(string \<Rightarrow> cjson option) \<Rightarrow> string \<Rightarrow> nat \<Rightarrow> string option \<Rightarrow> cjson list list" where
  "label_walk ask url 0 cursor = []"
| "label_walk ask url (Suc n) cursor =
     (case ask (url @ (case cursor of None \<Rightarrow> '''' | Some c \<Rightarrow> ''&cursor='' @ c)) of
        None \<Rightarrow> []
      | Some body \<Rightarrow>
          body_labels body #
            (case cj_string body ''cursor'' of None \<Rightarrow> [] | Some c \<Rightarrow> label_walk ask url n (Some c)))"

lemma label_limit_pos: "0 < label_limit n"
  by (simp add: label_limit_def LABEL_DEFAULT_LIMIT_def LABEL_MAX_LIMIT_def Let_def)

text \<open>One answer: what comes first after the cursor, and the id of its last label when more follows.\<close>

lemma query_labels_page:
  assumes "parse_query (Some raw) = Inr args" and "qa_patterns args \<noteq> []" and "'''' \<notin> set (qa_patterns args)"
    and "li_query io = SQL_RUNS" and "length (ls_rows s) \<le> li_reads io"
    and "R = filter (\<lambda>r. lb_id r > qa_after_id args \<and> label_matches (query_of args) r) (ls_rows s)"
    and "limit = label_limit (lq_limit (query_of args))"
  shows "fst (h_query_labels io s (Some raw) resp) = Some (label_body (take limit R) (limit < length R))"
proof -
  have "length R \<le> li_reads io" unfolding assms(6) using assms(5) length_filter_le order_trans by blast
  then have "read_labels limit [] (take (li_reads io) (take (limit + 1) R)) = (take limit R, limit < length R)"
    by (subst read_labels_take) (auto simp: min_def)
  then show ?thesis
    using assms(1-4) unfolding assms(6,7)
    by (simp add: h_query_labels_def metalbear_label_store_query_def query_of_def Let_def)
qed

lemma label_body_parts:
  "body_labels (label_body ls m) = map label_json ls"
  "cj_string (label_body ls False) ''cursor'' = None"
  "ls \<noteq> [] \<Longrightarrow> 0 \<le> lb_id (last ls) \<Longrightarrow> lb_id (last ls) < 2 ^ 63 \<Longrightarrow>
     cj_string (label_body ls True) ''cursor'' = Some (decimal_digits (nat (lb_id (last ls))))"
proof -
  show "body_labels (label_body ls m) = map label_json ls" by (simp add: body_labels_def label_body_def)
  show "cj_string (label_body ls False) ''cursor'' = None" by (simp add: cj_string_def label_body_def)
  assume l: "ls \<noteq> []" "0 \<le> lb_id (last ls)" "lb_id (last ls) < 2 ^ 63"
  then have "nat (lb_id (last ls)) < 10 ^ 31" by simp
  then have "length (decimal_digits (nat (lb_id (last ls)))) < 32" using decimal_digits_short [of "nat (lb_id (last ls))" 31] by simp
  then show "cj_string (label_body ls True) ''cursor'' = Some (decimal_digits (nat (lb_id (last ls))))"
    using l(1) by (simp add: cj_string_def label_body_def)
qed

lemma rest_after_page:
  assumes "labels_ok s" and "R = filter (\<lambda>r. lb_id r > a \<and> label_matches q r) (ls_rows s)" and "0 < limit" and "limit < length R"
  shows "filter (\<lambda>r. lb_id r > lb_id (last (take limit R)) \<and> label_matches q r) (ls_rows s) = drop limit R"
proof -
  let ?k = "limit - 1"
  have sorted: "sorted_wrt (\<lambda>x y. lb_id x < lb_id y) R"
    using assms(1,2) by (simp add: labels_ok_def sorted_wrt_map sorted_wrt_filter)
  have last: "last (take limit R) = R ! ?k" using assms(3,4) by (subst last_conv_nth) auto
  have "R ! ?k \<in> set R" using assms(4) by simp
  then have "a < lb_id (R ! ?k)" using assms(2) by simp
  then have "filter (\<lambda>r. lb_id r > lb_id (R ! ?k) \<and> label_matches q r) (ls_rows s) = filter (\<lambda>r. lb_id (R ! ?k) < lb_id r) R"
    unfolding assms(2) by (auto intro: filter_cong)
  also have "\<dots> = drop (Suc ?k) R"
    using filter_past [of "(<)" lb_id R ?k] sorted assms(4) by simp
  finally show ?thesis using last assms(3) by simp
qed

lemma walk_rows:
  assumes "labels_ok s" and "parse_query (Some url) = Inr args" and "qa_patterns args \<noteq> []" and "'''' \<notin> set (qa_patterns args)"
    and "li_query io = SQL_RUNS" and "length (ls_rows s) \<le> li_reads io"
    and "limit = label_limit (lq_limit (query_of args))" and "0 \<le> a" and "a < 2 ^ 63"
    and "cursor = None \<and> a = qa_after_id args \<or> cursor = Some (decimal_digits (nat a))"
    and "R = filter (\<lambda>r. lb_id r > a \<and> label_matches (query_of args) r) (ls_rows s)" and "length R < fuel"
  shows "concat (label_walk (\<lambda>raw. fst (h_query_labels io s (Some raw) resp)) url fuel cursor) = map label_json R \<and>
    (\<forall>p \<in> set (label_walk (\<lambda>raw. fst (h_query_labels io s (Some raw) resp)) url fuel cursor). length p \<le> limit)"
  using assms(8-)
proof (induction fuel arbitrary: cursor a R)
  case (Suc fuel)
  let ?raw = "url @ (case cursor of None \<Rightarrow> '''' | Some c \<Rightarrow> ''&cursor='' @ c)"
  let ?args = "args\<lparr>qa_after_id := a\<rparr>"
  have "CHR ''&'' \<notin> set (decimal_digits (nat a))" using digits_plain [of "CHR ''&''" "nat a"] by blast
  then have raw: "parse_query (Some ?raw) = Inr ?args"
    using Suc.prems(1-3) assms(2) take_pairs_append [of url no_args args "''cursor='' @ decimal_digits (nat a)"]
      take_numbers(2) [of "nat a" args] take_pairs_join [of "[''cursor='' @ decimal_digits (nat a)]" args]
    by (auto simp: parse_query_def split: sum.split_asm)
  have q: "query_of ?args = (query_of args)\<lparr>lq_after := a\<rparr>" by (simp add: query_of_def)
  have m: "label_matches (query_of ?args) = label_matches (query_of args)" by (simp add: q label_matches_def fun_eq_iff)
  have body: "fst (h_query_labels io s (Some ?raw) resp) = Some (label_body (take limit R) (limit < length R))"
    using query_labels_page [OF raw _ _ assms(5,6), of R limit resp] assms(3,4,7) Suc.prems(4) m by (simp add: q)
  show ?case
  proof (cases "limit < length R")
    case False
    then show ?thesis using body by (simp add: label_body_parts)
  next
    case True
    let ?a = "lb_id (last (take limit R))"
    have pos: "0 < limit" using label_limit_pos assms(7) by simp
    then have ne: "take limit R \<noteq> []" using True by auto
    then have "last (take limit R) \<in> set R" by (meson in_set_takeD last_in_set)
    then have a: "0 \<le> ?a" "?a < 2 ^ 63" using assms(1) Suc.prems(4) by (auto simp: labels_ok_def)
    have rest: "drop limit R = filter (\<lambda>r. lb_id r > ?a \<and> label_matches (query_of args) r) (ls_rows s)"
      using rest_after_page [OF assms(1) Suc.prems(4) pos True] by simp
    have fuel: "length (drop limit R) < fuel" using Suc.prems(5) pos True by simp
    note IH = Suc.IH [OF a disjI2 [OF refl] rest fuel]
    have "cj_string (label_body (take limit R) True) ''cursor'' = Some (decimal_digits (nat ?a))"
      using label_body_parts(3) [OF ne a] .
    then show ?thesis using IH body True by (simp add: label_body_parts(1) map_append [symmetric])
  qed
qed simp

text \<open>C40. The public query of the labels is complete while its statement runs and every row can be stepped
  to. Whatever was inserted, a client that writes its patterns,
  its labelers and its page size percent-encoded into the query and follows the cursors then gets the labels
  of the store that match, every one of them exactly once and in the order they were given, on pages no
  longer than it asked for. A step that fails ends the listing early, without a cursor
  (\<open>label_query_cut_short\<close>).\<close>

theorem label_pages_cover:
  assumes "label_step\<^sup>*\<^sup>* \<lparr>ls_rows = [], ls_last = 0\<rparr> s" and "patterns \<noteq> []" and "'''' \<notin> set patterns"
    and "\<forall>p \<in> set patterns \<union> set sources. CHR 0x00 \<notin> set p" and "\<forall>n \<in> set_option limit. 1 \<le> n \<and> n \<le> 250"
    and "li_query io = SQL_RUNS" and "length (ls_rows s) \<le> li_reads io" and "length (ls_rows s) < fuel"
  shows "let pages = label_walk (\<lambda>raw. fst (h_query_labels io s (Some raw) resp)) (label_url patterns sources limit) fuel None
    in concat pages = map label_json (filter (\<lambda>r. (\<exists>p \<in> set patterns. pattern_matches p (lb_uri r)) \<and>
         (sources = [] \<or> lb_src r \<in> set sources)) (ls_rows s)) \<and>
       (\<forall>p \<in> set pages. length p \<le> (case limit of Some n \<Rightarrow> n | None \<Rightarrow> 50))"
proof -
  have ok: "labels_ok s" using label_run.inv_reachable [OF refl assms(1)] .
  let ?args = "\<lparr>qa_patterns = patterns, qa_sources = sources, qa_sources_present = (sources \<noteq> []), qa_after_id = 0,
      qa_limit = (case limit of Some n \<Rightarrow> int n | None \<Rightarrow> 0), qa_limit_given = (limit \<noteq> None)\<rparr>"
  let ?R = "filter (\<lambda>r. lb_id r > 0 \<and> label_matches (query_of ?args) r) (ls_rows s)"
  have lim: "label_limit (lq_limit (query_of ?args)) = (case limit of Some n \<Rightarrow> n | None \<Rightarrow> 50)"
    using assms(5) by (cases limit) (auto simp: label_limit_def query_of_def LABEL_DEFAULT_LIMIT_def LABEL_MAX_LIMIT_def Let_def)
  have R: "?R = filter (\<lambda>r. (\<exists>p \<in> set patterns. pattern_matches p (lb_uri r)) \<and> (sources = [] \<or> lb_src r \<in> set sources)) (ls_rows s)"
    using ok by (auto simp: labels_ok_def label_matches_def query_of_def list_ex_iff intro!: filter_cong)
  have "length ?R < fuel" using assms(8) length_filter_le [of _ "ls_rows s"] le_less_trans by blast
  from walk_rows [OF ok parse_label_url [OF assms(2,4,5)] _ _ assms(6,7) refl order_refl _ _ refl this, of None resp]
  show ?thesis using assms(2,3) lim R by (simp add: Let_def)
qed

text \<open>A listing whose steps fail half way looks complete: the answer has no cursor.\<close>

lemma label_query_cut_short:
  assumes "li_query io = SQL_RUNS" and "li_reads io \<le> label_limit (lq_limit q)"
  shows "\<exists>labels. metalbear_label_store_query io q s = Inr (label_body labels False) \<and> length labels \<le> li_reads io"
  using assms by (auto simp: metalbear_label_store_query_def Let_def read_labels_take)

section \<open>Concrete inputs\<close>

definition sample_labels :: label_store where
  "sample_labels =
     \<lparr>ls_rows = [\<lparr>lb_id = 1, lb_src = ''did:s'', lb_uri = ''did:a'', lb_val = ''!takedown'', lb_neg = False, lb_cts = ''now''\<rparr>,
       \<lparr>lb_id = 2, lb_src = ''did:s'', lb_uri = ''at://b/c'', lb_val = ''spam'', lb_neg = False, lb_cts = ''now''\<rparr>,
       \<lparr>lb_id = 3, lb_src = ''did:s'', lb_uri = ''did:a'', lb_val = ''!takedown'', lb_neg = True, lb_cts = ''now''\<rparr>],
      ls_last = 3\<rparr>"

lemma sample_labels_reached: "label_step\<^sup>*\<^sup>* \<lparr>ls_rows = [], ls_last = 0\<rparr> sample_labels"
proof -
  let ?put = "\<lambda>uri val neg s. snd (metalbear_label_store_insert SQL_RUNS (Some ''now'') (Some ''did:s'') (Some uri) (Some val) neg None s)"
  have step: "label_step s (?put uri val neg s)" for uri val neg s by (rule label_step.insert [OF prod.collapse [symmetric]])
  let ?s0 = "\<lparr>ls_rows = [], ls_last = 0\<rparr>"
  let ?s1 = "?put ''did:a'' ''!takedown'' False ?s0"
  let ?s2 = "?put ''at://b/c'' ''spam'' False ?s1"
  have "label_step\<^sup>*\<^sup>* ?s0 (?put ''did:a'' ''!takedown'' True ?s2)"
    using step by (meson rtranclp.rtrancl_refl rtranclp.rtrancl_into_rtrancl)
  then show ?thesis
    by (simp add: metalbear_label_store_insert_def given_arg_def sample_labels_def)
qed

theorem label_pages_cover_witness:
  "concat (label_walk (\<lambda>raw. fst (h_query_labels \<lparr>li_query = SQL_RUNS, li_reads = 10\<rparr> sample_labels (Some raw)
      \<lparr>xr_headers = [], xr_error = None\<rparr>)) (label_url [''did:*''] [''did:s''] (Some 1)) 4 None) =
   map label_json [ls_rows sample_labels ! 0, ls_rows sample_labels ! 2]"
proof -
  let ?io = "\<lparr>li_query = SQL_RUNS, li_reads = 10\<rparr>"
  have rows: "length (ls_rows sample_labels) \<le> li_reads ?io" "length (ls_rows sample_labels) < 4" "li_query ?io = SQL_RUNS"
    by (simp_all add: sample_labels_def)
  show ?thesis
    using label_pages_cover [OF sample_labels_reached, of "[''did:*'']" "[''did:s'']" "Some 1" ?io 4 "\<lparr>xr_headers = [], xr_error = None\<rparr>"]
      rows
    by (simp add: Let_def) (simp add: sample_labels_def pattern_matches_def strncmp_eq_def)
qed

end
