(* ===== verification/Spec2Isabelle.thy ===== *)
theory Spec2Isabelle
  imports MB_Prelude Oauth_Scope Account_Cache Ops_Metrics Sequencer Base64url Auth_Store Totp Dns_Update Blob_Store Repo_Durable Server_Guards Oauth_Accounts Webauthn Account_Registry Account_Store Video_Upload Server_Auth Session_Routes Label_Store
begin

text \<open>
  MetalBear is a personal data server for the AT Protocol, written in C over the Wolfram library, SQLite,
  OpenSSL, libsodium and cJSON, with three stores in C++. This library models the components that keep
  its state or decide what a request may do, and proves what they promise each other.

  \<^bold>\<open>The program.\<close> One process hosts several accounts. The \<^emph>\<open>account registry\<close> (one SQLite file per host)
  says which accounts there are, which invite codes open new ones, and what was taken down. An
  \<^emph>\<open>account context\<close> bundles the stores of one account, each a SQLite file of its own: the account
  store, the session store, the repository and the blobs; the \<^emph>\<open>account cache\<close> hands out opened
  contexts by reference count. A request is authenticated by the session store (tokens of a password
  login) or by the OAuth store of the host (tokens of a connected application, whose scope the scope
  checks read), passes the guards, and calls a store. What changes a repository is announced to the
  \<^emph>\<open>sequencer\<close>, the log of the host that subscribers follow (the firehose). Handles are published by
  DNS updates.

  \<^bold>\<open>The theories,\<close> each with the files it models (under \<open>src/\<close>, C++ under \<open>cpp/\<close>):

  \<^item> \<open>MB_Prelude\<close>: status codes, C strings, the fate of a SQLite statement, and the locales
    \<open>transition_system\<close> (an initial condition, a step relation and an inductive invariant) and \<open>keyset\<close>
    (a listing cut into pages by the key of the last row).
  \<^item> \<open>Cjson\<close>: the trees of cJSON as the source walks them.
  \<^item> \<open>Oauth_Scope\<close> (\<open>src/oauth/oauth_scope.c\<close>): scope strings and the six checks. The parsed set is well
    formed, two scopes joined by a space grant the union, an rpc call always names method or audience.
  \<^item> \<open>Account_Cache\<close> (\<open>src/account/account_cache.c\<close>): the cache, its two critical sections and their
    interleaving by threads. No context in use is ever closed.
  \<^item> \<open>Ops_Metrics\<close> (\<open>src/ops/metrics.c\<close>): counters on 64-bit words and the bounded table of routes.
  \<^item> \<open>Sequencer\<close> (\<open>src/sequencer.c\<close>): the log, retention and the subscriber thread. Numbers grow, a
    subscriber gets every row once and in order or is told that it lost some, and catches up.
  \<^item> \<open>Base64url\<close> and \<open>Auth_Store\<close> (\<open>src/oauth/auth.c\<close>): the codec and its exactness; JSON Web Tokens,
    refresh rotation with its grace, and the rows of the second factor. Accepted tokens are authentic, a
    revoked one stays dead, a code is not replayed.
  \<^item> \<open>Totp\<close> (\<open>src/twofactor/totp.c\<close>): base32, time-based codes, key file, sealing, backup codes.
  \<^item> \<open>Dns_Update\<close> (\<open>src/dns/handle_dns_rfc2136.c\<close>): messages in a 4096-byte buffer, their signature, one
    exchange and the reading of replies, against a reference without a buffer.
  \<^item> \<open>Blob_Store\<close> (\<open>src/repo/blob_store.c\<close>): the index, the files behind it, encryption, listings and
    opening. The store refines a map from CID to content.
  \<^item> \<open>Repo_Cbor\<close>, \<open>Repo_Store\<close>, \<open>Repo_Guards\<close>, \<open>Repo_Index\<close>, \<open>Repo_Durable\<close> (\<open>src/repo/repo_store.c\<close>):
    JSON to DAG-CBOR and back; the operations, one definition for each function of the file; what the
    compare-and-swap and the batch promise; the refinement of a map from key to record and the index
    that mirrors it; the file opened again, and the pages of a listing. \<open>Repo_Demo\<close> is an instance of
    Wolfram that computes, for the concrete inputs.
  \<^item> \<open>Server_Guards\<close> (\<open>src/server_guards.c\<close>): query parameters, account status, availability, rate limits.
  \<^item> \<open>Oauth_Store\<close>, \<open>Oauth_Chain\<close>, \<open>Oauth_Accounts\<close> (\<open>src/oauth/oauth.c\<close>): the operations; what any
    sequence of them promises of consent, single use and revocation; connections, passkeys, the key.
  \<^item> \<open>Webauthn\<close> (\<open>src/oauth/webauthn.c\<close>): the parser of authenticator bytes, with undefined behaviour as a
    result it is proved not to give.
  \<^item> \<open>Schema_Version\<close> (\<open>src/storage/schema_version.c\<close>): the version every C++ store stamps on its file.
  \<^item> \<open>Account_Registry\<close> (\<open>cpp/metalbear/account_registry.cpp\<close>): accounts, invite codes, takedowns, pages.
    It refines a map from DID to account, and an invite code opens no more accounts than it has uses.
  \<^item> \<open>Account_Store\<close> (\<open>cpp/metalbear/account.cpp\<close>, \<open>cpp/metalbear/key_rotation.cpp\<close>): the password, app
    passwords, mailed tokens, preferences and the signing key of one account. A credential that verifies
    was set and not revoked since, and a mailed token works once.
  \<^item> \<open>Video_Upload\<close> (\<open>cpp/metalbear/video_upload.cpp\<close>): uploads in parts, with the interleaving of their
    requests and restarts of the process. What is completed is its parts in order, and stays.
  \<^item> \<open>Server_Auth\<close> (\<open>src/server_auth.c\<close>): the callback every request passes. What it lets through rests on
    a token that verifies for the account and the route, and a granular OAuth scope confines the writes of
    single records; it does not confine a batch, and nothing once \<open>atproto\<close> stands beside it.
  \<^item> \<open>Session_Routes\<close> (\<open>src/session/session_routes.c\<close>, \<open>src/twofactor/totp_routes.c\<close>,
    \<open>src/oauth/oauth_credentials.c\<close>): the handlers that open, renew and end sessions. A session matches its
    credential and its second factor, and one of an app password never passes for more.
  \<^item> \<open>Label_Store\<close> (\<open>src/label/label_store.c\<close>, \<open>src/label/labels_routes.c\<close>): the labels of the server and
    their public query, from the percent-encoded request to the cursor of the answer.
  \<^item> \<open>Spec2Isabelle\<close>, this theory: the compositions. A batch of the repository reaches the firehose as the
    one commit it was, a takedown in the registry closes a repository at the guard, and it locks the
    account out at the callback.

  \<^bold>\<open>How the model corresponds to the code.\<close> A definition carries the name of the function it models. A
  struct is a record, an enumeration a datatype with the source's constructors, a C string the list of
  the characters before its NUL. A table of SQLite is the list of its rows in the order of the key the
  source reads them by, or a map. A function that changes state returns the new state with its answer.
  Errors are values: a status, or the left side of a sum. What the world may do to a call is an argument
  of it, a record of outcomes (\<open>repo_io\<close>, \<open>oauth_io\<close>, \<open>registry_io\<close> and the like): which statements
  fail to prepare or to step, what the clock and the random generator say, which writes of files fail.
  Each theorem that mentions no particular outcome holds for all of them; one that needs statements to
  run, reads not to fail or a log not to be pruned says so among its hypotheses and in its text, and a
  lemma beside it shows, where that matters, what comes of a failure (\<open>index_write_lost\<close>,
  \<open>failed_head_write_loses_blocks\<close>, \<open>unread_head_opens_empty\<close>, \<open>unread_registry_opens\<close>,
  \<open>label_query_cut_short\<close>). A statement that fails leaves its
  tables as they were, and a transaction that does not commit is rolled back, as SQLite documents. A
  call that holds its store's mutex throughout is one step; \<open>Account_Cache\<close> and \<open>Sequencer\<close>, which release
  theirs in between, have a step for each critical section.

  \<^bold>\<open>Arguments for code that is not here.\<close> Wolfram's commits, Merkle search tree, CAR, CBOR and syntax
  functions are the record \<open>wolfram\<close>, and what the proofs need of them is the hypothesis \<open>lawful\<close> (a
  commit of a record puts it into the tree's map, and the like), met by the instance of \<open>Repo_Demo\<close>.
  cJSON's printer and parser, HMAC, AES-GCM, hashes and signatures are arguments too. Where a theorem
  needs a law of them (a printed payload parses back, decryption undoes encryption) the law is among its
  hypotheses, and its witness instantiates it.

  \<^bold>\<open>Bounds and fuel.\<close> Machine integers whose overflow the code must mind are words (base64url, DNS,
  counters, HOTP) or integers with their range as a condition (sequence numbers, whose insertion past
  the largest row number fails; lengths in \<open>Webauthn\<close>). The walks that take fuel are those of listings,
  \<open>all_pages\<close>, \<open>record_pages\<close>, \<open>label_walk\<close> and \<open>keyset_walk\<close>, which model a client: their theorems take more fuel
  than there are rows, and every page but the last takes at least one row. The retry loop of a rotation
  takes the number of its passes, and returns once one is undisturbed. The recursions of the parsers
  end by their measures, and the nesting of a CBOR item by the depth the code itself bounds.

  \<^bold>\<open>Not modelled.\<close> The HTTP routes other than those of \<open>Session_Routes\<close> and \<open>Label_Store\<close> (the other
  \<open>*_routes.c\<close> and \<open>blob_store_server.c\<close>), which decode a request, call the stores above and print a
  response through Wolfram's XRPC server; the opening of the server and its main loop; identity
  resolution, the AppView proxy, mail and the HTTP providers of DNS, which are network calls;
  configuration and logging, which are parsers of others and output; backups and static files, which
  copy; the slur filter, which is PCRE2 over generated patterns; the stand-alone tools; and the front
  ends, which are not C. Functions that only release memory are left out of every component, and
  allocation is taken to succeed where the opening text of a theory does not say otherwise.
\<close>

section \<open>From a repository's batch to the firehose\<close>

text \<open>
  \<open>account_context.c\<close> installs \<open>metalbear_sequencer_repo_event\<close> as the observer of a repository, so an
  event the store announces is handed to the sequencer as it is; the sequencer's model writes a CID as
  text, here the characters of its bytes.
\<close>

definition cid_chars :: "cid \<Rightarrow> string" where
  "cid_chars c = map (\<lambda>b. char_of (unat b)) c"

definition observed_op :: "repo_store_op \<Rightarrow> store_op" where
  "observed_op p =
     \<lparr>so_action = Some (ro_action p), so_collection = Some (ro_collection p), so_rkey = Some (ro_rkey p),
      so_cid = (if ro_has_cid p then Some (cid_chars (ro_cid p)) else None),
      so_prev = (if ro_has_prev p then Some (cid_chars (ro_prev p)) else None)\<rparr>"

definition observed_event :: "repo_store_event \<Rightarrow> store_event" where
  "observed_event e =
     \<lparr>se_is_sync = (re_kind e = METALBEAR_REPO_STORE_EVENT_SYNC), se_did = re_did e, se_rev = re_rev e,
      se_since = re_since e, se_commit_cid = cid_chars (re_commit_cid e), se_blocks = re_blocks e,
      se_prev_data = (if re_has_prev_data e then Some (cid_chars (re_prev_data e)) else None),
      se_ops = map observed_op (re_ops e)\<rparr>"

definition announce :: "wf_sizes \<Rightarrow> publisher \<Rightarrow> append_env \<Rightarrow> bool \<Rightarrow> repo_store \<Rightarrow> repo_store \<Rightarrow> sequencer \<Rightarrow> sequencer" where
  "announce sz publish env alloc_ok s s' =
     fold (\<lambda>e. metalbear_sequencer_repo_event sz publish env alloc_ok (observed_event e))
       (drop (length (rs_events s)) (rs_events s'))"

lemma repo_event_appends:
  assumes "log_ok (sq_log q)" and "re_kind e = METALBEAR_REPO_STORE_EVENT_COMMIT"
  shows "sq_log (metalbear_sequencer_repo_event sz publish env alloc_ok (observed_event e) q) = sq_log q \<or>
    (\<exists>row c. lg_events (sq_log (metalbear_sequencer_repo_event sz publish env alloc_ok (observed_event e) q)) =
        lg_events (sq_log q) @ [row] \<and>
       ev_seq row = lg_sequence (sq_log q) + 1 \<and> publish (WF_SUBSCRIBE_EVENT_COMMIT c) = Inr (ev_frame row) \<and>
       co_seq c = ev_seq row \<and> co_commit_cid c = cid_chars (re_commit_cid e) \<and>
       map op_path (co_ops c) = map (\<lambda>p. snprintf_cut OP_PATH_SIZE (ro_collection p @ ''/'' @ ro_rkey p)) (re_ops e))"
proof -
  let ?f = "repo_event_frame sz (observed_event e)"
  show ?thesis
  proof (cases "sq_closing q \<or> \<not> ap_begin_ok env \<or> re_ops e \<noteq> [] \<and> \<not> alloc_ok")
    case True
    then show ?thesis
      using assms(2) by (auto simp: metalbear_sequencer_repo_event_def append_event_def observed_event_def)
  next
    case False
    show ?thesis
    proof (cases "append_transaction sz publish env ?f (sq_log q)")
      case (Inl st)
      then show ?thesis using False by (auto simp: metalbear_sequencer_repo_event_def append_event_def)
    next
      case (Inr lg)
      have "sq_log (metalbear_sequencer_repo_event sz publish env alloc_ok (observed_event e) q) = lg"
        using False Inr assms(2) by (auto simp: metalbear_sequencer_repo_event_def append_event_def observed_event_def)
      then show ?thesis
        by (rule_tac append_transaction_InrD [OF Inr assms(1)])
          (auto simp: repo_event_frame_def stamp_event_def observed_event_def assms(2) frame_op_def observed_op_def
            Sequencer.text_or_empty_def)
    qed
  qed
qed

text \<open>C4. A batch reaches the firehose whole or not at all. Of the events an \<open>applyWrites\<close> hands to the
  sequencer, whatever fails on the way, a batch that failed leaves the log as it was; one that
  succeeded leaves it as it was too, when an announcement failed, or adds one row, the next in number,
  whose frame is the commit the batch moved the head to with a path for every write in its order.\<close>

theorem batch_reaches_firehose:
  assumes "settled s" and "\<And>c. cid_string w c \<noteq> None" and "log_ok (sq_log q)"
    and "metalbear_repo_store_apply_writes w io s json swap = (res, s')"
  shows "sq_log (announce sz publish env alloc_ok s s' q) = sq_log q \<or>
    \<not> isl res \<and>
    (\<exists>ops staged row c. wl_parse w json = Some (CArray ops) \<and> stage_all w io 0 ops = Inr staged \<and>
       length staged = length ops \<and>
       lg_events (sq_log (announce sz publish env alloc_ok s s' q)) = lg_events (sq_log q) @ [row] \<and>
       ev_seq row = lg_sequence (sq_log q) + 1 \<and> publish (WF_SUBSCRIBE_EVENT_COMMIT c) = Inr (ev_frame row) \<and>
       co_seq c = ev_seq row \<and> co_commit_cid c = cid_chars (rs_head s') \<and>
       map op_path (co_ops c) =
         map (\<lambda>x. snprintf_cut OP_PATH_SIZE (rw_collection (fst x) @ ''/'' @ rw_rkey (fst x))) staged)"
proof (cases "rs_events s' = rs_events s")
  case True
  then show ?thesis by (simp add: announce_def)
next
  case False
  then obtain ops staged e where e: "wl_parse w json = Some (CArray ops)" "stage_all w io 0 ops = Inr staged"
    "length staged = length ops" "rs_events s' = rs_events s @ [e]" "re_kind e = METALBEAR_REPO_STORE_EVENT_COMMIT"
    "re_commit_cid e = rs_head s'" "map ro_rkey (re_ops e) = map (rw_rkey \<circ> fst) staged"
    "map ro_collection (re_ops e) = map (rw_collection \<circ> fst) staged" and ok: "\<not> isl res"
    using apply_writes_ends [OF assms(1,2), where io = io and json = json and swap = swap] assms(4) by (cases res) auto
  have len: "length (re_ops e) = length staged" using e(7) by (metis length_map)
  have field: "ro_rkey (re_ops e ! i) = rw_rkey (fst (staged ! i))"
    "ro_collection (re_ops e ! i) = rw_collection (fst (staged ! i))" if "i < length staged" for i
    using that len arg_cong [OF e(7), of "\<lambda>l. l ! i"] arg_cong [OF e(8), of "\<lambda>l. l ! i"] by simp_all
  have paths: "map (\<lambda>p. snprintf_cut OP_PATH_SIZE (ro_collection p @ ''/'' @ ro_rkey p)) (re_ops e) =
      map (\<lambda>x. snprintf_cut OP_PATH_SIZE (rw_collection (fst x) @ ''/'' @ rw_rkey (fst x))) staged"
    by (rule nth_equalityI) (simp_all add: len field)
  have ann: "announce sz publish env alloc_ok s s' q =
      metalbear_sequencer_repo_event sz publish env alloc_ok (observed_event e) q"
    by (simp add: announce_def e(4))
  from repo_event_appends [OF assms(3) e(5), of sz publish env alloc_ok] show ?thesis
  proof
    assume "sq_log (metalbear_sequencer_repo_event sz publish env alloc_ok (observed_event e) q) = sq_log q"
    then show ?thesis by (simp add: ann)
  next
    assume "\<exists>row c. lg_events (sq_log (metalbear_sequencer_repo_event sz publish env alloc_ok (observed_event e) q)) =
        lg_events (sq_log q) @ [row] \<and>
       ev_seq row = lg_sequence (sq_log q) + 1 \<and> publish (WF_SUBSCRIBE_EVENT_COMMIT c) = Inr (ev_frame row) \<and>
       co_seq c = ev_seq row \<and> co_commit_cid c = cid_chars (re_commit_cid e) \<and>
       map op_path (co_ops c) = map (\<lambda>p. snprintf_cut OP_PATH_SIZE (ro_collection p @ ''/'' @ ro_rkey p)) (re_ops e)"
    then show ?thesis unfolding ann paths e(6) using e(1-3) ok by blast
  qed
qed

section \<open>From a takedown to the guard of the repositories\<close>

text \<open>
  What the guard reads of the registry: a lookup that fails is no takedown to it. \<open>active\<close> is the
  account's own flag.
\<close>

definition registry_guards :: "registry_io \<Rightarrow> account_registry \<Rightarrow> (string \<Rightarrow> bool) \<Rightarrow> guard_registry" where
  "registry_guards io reg active =
     \<lparr>gr_did_takedown = (\<lambda>did.
        (case metalbear_account_registry_get_takedown io (Some did) None None reg of Inr r \<Rightarrow> r | Inl _ \<Rightarrow> None)),
      gr_uri_takedown = (\<lambda>uri.
        (case metalbear_account_registry_get_takedown io None (Some uri) None reg of Inr r \<Rightarrow> r | Inl _ \<Rightarrow> None)),
      gr_active = active\<rparr>"


section \<open>From a takedown to the callback\<close>

lemma taken_down_in_registry:
  assumes "did \<noteq> ''''" and "ref \<noteq> ''''" and "ri_sql io 0 = SQL_RUNS" and "ri_sql io 1 = SQL_RUNS" and "ri_sql rio 0 = SQL_RUNS"
  shows "account_is_taken_down
    (registry_guards rio (snd (metalbear_account_registry_set_takedown io (Some did) None None (Some ref) reg)) active) (Some did)"
proof -
  have given: "given_text (Some x) \<longleftrightarrow> x \<noteq> ''''" "\<not> given_text None" for x by (simp_all add: given_text_def)
  have valid: "takedown_subject_valid (Some did) None None" using assms(1) by (simp add: takedown_subject_valid_def given)
  have "takedown_of (snd (metalbear_account_registry_set_takedown io (Some did) None None (Some ref) reg)) (Some did) None None = Some ref"
    using takedown_of_set [OF valid assms(3) _ prod.collapse [symmetric], of "Some ref" reg "Some did" None None] assms(1,2,4)
    by (auto simp: same_subject_def bind_text_or_null_def given)
  then show ?thesis
    using get_takedown [OF assms(5) valid] assms(1)
    by (simp add: account_is_taken_down_def account_takedown_ref_def registry_guards_def)
qed

text \<open>The guard of the registry fails open: when its read does not run it answers that nothing is
  taken down.\<close>

lemma unread_registry_opens:
  "ri_sql rio 0 \<noteq> SQL_RUNS \<Longrightarrow> \<not> account_is_taken_down (registry_guards rio reg active) (Some did)"
  by (auto simp: account_is_taken_down_def account_takedown_ref_def registry_guards_def
      metalbear_account_registry_get_takedown_def Let_def split: sql_fate.splits if_splits)

text \<open>C6. A takedown locks the account out. Once its statements have put it in the registry, and while
  the guard's read of the registry runs, every request the callback lets through for the account
  outside the public routes, the administrator's and the refresh pair, however it came by its token,
  carries a session of the narrow scope that verifies under the account's store, on one of the six
  routes of appeal and migration. When that read does not run the guard takes nobody for taken down,
  whatever the registry holds. The export routes are public and the refresh pair is left to its
  handlers; both lie outside the claim.\<close>

theorem takedown_locks_out:
  assumes "did \<noteq> ''''" and "ref \<noteq> ''''" and "ri_sql io 0 = SQL_RUNS" and "ri_sql io 1 = SQL_RUNS" and "ri_sql rio 0 = SQL_RUNS"
    and "sv_guards server =
      registry_guards rio (snd (metalbear_account_registry_set_takedown io (Some did) None None (Some ref) reg)) active"
    and "authenticate_request w server req seen = ((WF_OK, req'), seen')"
    and "\<And>a d m h k c. fst (wd_oauth w a d m h k c) \<noteq> Inl WF_OK"
    and "\<not> is_admin_route (nsid_of req)" and "\<not> is_public_route (nsid_of req)"
    and "\<not> refresh_route (nsid_of req)"
    and "rq_subject req' = Some did" and "ar_principal req' = WF_XRPC_PRINCIPAL_USER"
  shows "(\<forall>rio'. ri_sql rio' 0 = SQL_RUNS \<or>
      \<not> account_is_taken_down (registry_guards rio' (snd (metalbear_account_registry_set_takedown io (Some did) None None (Some ref) reg)) active) (Some did)) \<and>
    session_evidence w server req did METALBEAR_ACCESS_TAKENDOWN \<and>
    nsid_of req \<in> {''com.atproto.server.deactivateAccount'', ''com.atproto.moderation.createReport'',
      ''com.atproto.server.getServiceAuth'', ''com.atproto.identity.requestPlcOperationSignature'',
      ''com.atproto.identity.signPlcOperation'', ''app.bsky.actor.getPreferences''}"
proof -
  have "account_is_taken_down (sv_guards server) (Some did)"
    unfolding assms(6) by (rule taken_down_in_registry [OF assms(1-5)])
  then have "session_evidence w server req did METALBEAR_ACCESS_TAKENDOWN" "takendown_route_allowed (nsid_of req)"
    using taken_down_narrow [OF assms(7-10) _ assms(12,13)] by blast+
  moreover have "\<not> export_route (nsid_of req)" using assms(10) by (auto simp: is_public_route_def export_route_def)
  ultimately show ?thesis
    using unread_registry_opens by (auto simp: takendown_route_allowed_def export_route_def)
qed

section \<open>Concrete inputs\<close>

lemma one_event_appends:
  assumes "re_kind e = METALBEAR_REPO_STORE_EVENT_COMMIT"
  shows "lg_events (sq_log (metalbear_sequencer_repo_event demo_sizes (\<lambda>_. Inr [1]) demo_env True
    (observed_event e) (demo_sequencer empty_log))) \<noteq> []"
  using assms
  by (simp add: metalbear_sequencer_repo_event_def append_event_def append_transaction_def demo_env_def
      demo_sequencer_def empty_log_def next_rowid_def current_locked_def SQLITE_MAX_ROWID_def repo_event_frame_def
      observed_event_def stamp_event_def insert_row_def set_frame_def Let_def)

theorem batch_reaches_firehose_witness:
  "\<exists>row (c :: commit_event). lg_events (sq_log (announce demo_sizes (\<lambda>_. Inr [1]) demo_env True demo_store (snd demo_batch_run)
      (demo_sequencer empty_log))) = [row] \<and> ev_seq row = 1 \<and> map op_path (co_ops c) = [''c/n'', ''c/m'']"
proof -
  define pub :: publisher where "pub = (\<lambda>_. Inr [1])"
  obtain res s' where run: "demo_batch_run = (res, s')" by force
  have st: "settled demo_store" "rs_events demo_store = []" by (simp_all add: settled_def demo_store_def)
  let ?q = "demo_sequencer empty_log"
  have q: "log_ok (sq_log ?q)" "lg_events (sq_log ?q) = []" "lg_sequence (sq_log ?q) = 0"
    by (simp_all add: log_ok_def demo_sequencer_def empty_log_def)
  obtain c r a where res: "res = Inr (c, r, a)" using demo_batch_ok by (cases res) (auto simp: run)
  note b = run [unfolded demo_batch_run_def]
  obtain e where e: "rs_events s' = [e]" "re_kind e = METALBEAR_REPO_STORE_EVENT_COMMIT"
    using apply_writes_ends [OF st(1) demo_fixed_text, where io = Repo_Demo.demo_io and json = "''b''" and swap = None]
      st(2) demo_batch_ok
    by (auto simp: b run res)
  then have "announce demo_sizes pub demo_env True demo_store s' ?q =
      metalbear_sequencer_repo_event demo_sizes pub demo_env True (observed_event e) ?q"
    by (simp add: announce_def st(2))
  then have "sq_log (announce demo_sizes pub demo_env True demo_store s' ?q) \<noteq> sq_log ?q"
    using one_event_appends [OF e(2), folded pub_def] q(2) by metis
  then obtain ops staged row and c :: commit_event where w: "wl_parse demo_fixed ''b'' = Some (CArray ops)"
    "stage_all demo_fixed Repo_Demo.demo_io 0 ops = Inr staged"
    "lg_events (sq_log (announce demo_sizes pub demo_env True demo_store s' ?q)) = [row]" "ev_seq row = 1"
    "map op_path (co_ops c) =
       map (\<lambda>x. snprintf_cut OP_PATH_SIZE (rw_collection (fst x) @ ''/'' @ rw_rkey (fst x))) staged"
    using batch_reaches_firehose [OF st(1) demo_fixed_text q(1) b, of demo_sizes pub demo_env True] q(2,3)
    by auto
  have "case wl_parse demo_fixed ''b'' of
      Some (CArray ops) \<Rightarrow>
        (case stage_all demo_fixed Repo_Demo.demo_io 0 ops of
           Inr st \<Rightarrow> map (\<lambda>x. snprintf_cut OP_PATH_SIZE (rw_collection (fst x) @ ''/'' @ rw_rkey (fst x))) st =
             [''c/n'', ''c/m'']
         | Inl _ \<Rightarrow> False)
    | _ \<Rightarrow> False" by code_simp
  then have "map op_path (co_ops c) = [''c/n'', ''c/m'']" using w(1,2,5) by simp
  then show ?thesis unfolding run snd_conv pub_def [symmetric]
    by (intro exI [of _ row] exI [of _ c] conjI w(3,4))
qed


text \<open>A session of the narrow scope asks for its preferences.\<close>

definition lock_claims :: json where
  "lock_claims = JObject [(''scope'', JString ''com.atproto.takendown''), (''aud'', JString ''s''), (''sub'', JString ''did:a''),
     (''iat'', JNumber 0), (''exp'', JNumber 100)]"

definition lock_world :: "unit auth_world" where
  "lock_world = (gate_world ''atproto'')\<lparr>wd_lib := \<lparr>jl_print = (\<lambda>_. None),
     jl_parse = (\<lambda>b. if b = [82] then Some (jwt_header TOKEN_ACCESS) else if b = [80] then Some lock_claims else None),
     jl_hmac = (\<lambda>_ _. Some (replicate 32 0))\<rparr>, wd_b64 := (\<lambda>_. Some [80])\<rparr>"

definition lock_server :: auth_server where
  "lock_server = gate_server\<lparr>sv_guards := registry_guards demo_rio
     (snd (metalbear_account_registry_set_takedown demo_rio (Some ''did:a'') None None (Some ''spam'') demo_registry)) (\<lambda>d. True)\<rparr>"

definition lock_request :: auth_request where
  "lock_request = gate_request\<lparr>rq_nsid := Some ''com.atproto.server.getServiceAuth'', rq_params := None,
     ar_auth := Some (''Bearer '' @ demo_token), ar_dpop := None\<rparr>"

lemma lock_verified: "metalbear_auth_verify_access_scope (wd_lib lock_world) 0 gate_store demo_token = Inr METALBEAR_ACCESS_TAKENDOWN"
proof -
  have parts: "demo_token = base64url_encode [82] @ ''.'' @ base64url_encode [80] @ ''.'' @
      base64url_encode (replicate 32 0)"
    by (simp only: demo_encodings) (simp add: demo_token_def)
  have "length demo_token \<le> JWT_MAX_BYTES" by (simp add: demo_token_def JWT_MAX_BYTES_def)
  moreover have "check_claims 0 gate_store TOKEN_ACCESS False (jwt_header TOKEN_ACCESS) lock_claims =
      Some (None, 100, METALBEAR_ACCESS_TAKENDOWN)"
    by (simp add: check_claims_def lock_claims_def json_string_def json_number_def jwt_header_def parse_access_scope_def
        gate_store_def truncate_number_def)
  ultimately have "verify_jwt (wd_lib lock_world) 0 gate_store demo_token TOKEN_ACCESS False =
      Inr (None, 100, METALBEAR_ACCESS_TAKENDOWN)"
    unfolding parts by (subst verify_jwt_parts) (simp_all add: sign_hs256_def lock_world_def del: base64url_encode.simps)
  then show ?thesis by (simp add: metalbear_auth_verify_access_scope_def)
qed

lemma lock_granted:
  "authenticate_request lock_world lock_server lock_request () =
    ((WF_OK, lock_request\<lparr>rq_subject := Some ''did:a''\<rparr>), ())"
proof -
  have n: "nsid_of lock_request = ''com.atproto.server.getServiceAuth''" by (simp add: nsid_of_def lock_request_def)
  have routes: "\<not> is_admin_route (nsid_of lock_request)" "\<not> is_public_route (nsid_of lock_request)"
    "\<not> refresh_route (nsid_of lock_request)" "\<not> full_access_route (nsid_of lock_request)"
    "takendown_route_allowed (nsid_of lock_request)"
    unfolding n by (simp_all add: is_admin_route_def is_public_route_def refresh_route_def full_access_route_def
        takendown_route_allowed_def)
  have auth: "bearer_token (ar_auth lock_request) = Some demo_token" "\<not> is_dpop_request (ar_auth lock_request) (ar_dpop lock_request)"
    by (simp_all add: lock_request_def bearer_token_def strncmp_eq_def is_dpop_request_def strncasecmp_eq_def ascii_lower_def)
  have target: "named_target lock_request = None"
    by (simp add: named_target_def param_string_def lock_request_def)
  have sub: "jwt_subject lock_world demo_token = Some ''did:a''"
    by (simp add: jwt_subject_def jwt_claim_def demo_token_def lock_world_def gate_world_def lock_claims_def json_string_def)
  have none: "moderator_access lock_world lock_server lock_request demo_token = Inl WF_ERR_PERMISSION"
    by (simp add: moderator_access_def n)
  have store: "sv_accounts lock_server ''did:a'' = Some gate_store" "gr_active (sv_guards lock_server) ''did:a''"
    by (simp_all add: lock_server_def gate_server_def registry_guards_def)
  have "bind_subject lock_server lock_request ''did:a'' METALBEAR_ACCESS_TAKENDOWN =
      (WF_OK, lock_request\<lparr>rq_subject := Some ''did:a'', ar_principal := WF_XRPC_PRINCIPAL_USER\<rparr>)"
    using store routes(5) by (simp only: bind_subject_OK) simp
  moreover have "wd_now lock_world = 0" by (simp add: lock_world_def gate_world_def)
  ultimately have "account_access lock_world lock_server lock_request demo_token =
      (WF_OK, lock_request\<lparr>rq_subject := Some ''did:a'', ar_principal := WF_XRPC_PRINCIPAL_USER\<rparr>)"
    using sub store(1) lock_verified routes(3,4) by (simp add: account_access_def context_for_did_def)
  then show ?thesis
    using routes(1,2) auth target none
    by (simp add: authenticate_request_def session_access_def) (simp add: lock_request_def gate_request_def)
qed

theorem takedown_locks_out_witness:
  "session_evidence lock_world lock_server lock_request ''did:a'' METALBEAR_ACCESS_TAKENDOWN"
proof -
  have io: "ri_sql demo_rio 0 = SQL_RUNS" "ri_sql demo_rio 1 = SQL_RUNS" by (simp_all add: demo_rio_def)
  have n: "nsid_of lock_request = ''com.atproto.server.getServiceAuth''" by (simp add: nsid_of_def lock_request_def)
  have routes: "\<not> is_admin_route (nsid_of lock_request)" "\<not> is_public_route (nsid_of lock_request)"
    "\<not> refresh_route (nsid_of lock_request)"
    unfolding n by (simp_all add: is_admin_route_def is_public_route_def refresh_route_def)
  have ok: "fst (wd_oauth lock_world x d m h k c) \<noteq> Inl WF_OK" for x d m h k c
    by (simp add: lock_world_def gate_world_def)
  have guards: "sv_guards lock_server = registry_guards demo_rio
     (snd (metalbear_account_registry_set_takedown demo_rio (Some ''did:a'') None None (Some ''spam'') demo_registry)) (\<lambda>d. True)"
    by (simp add: lock_server_def)
  show ?thesis
    using takedown_locks_out [OF _ _ io io(1) guards lock_granted ok routes]
    by (simp add: lock_request_def gate_request_def)
qed

end
